(* ===== verification/Prelude.thy ===== *)
theory Prelude
  imports Main "HOL-Library.Word"
begin

text \<open>
  Shared vocabulary of the development: the machine types of \<^verbatim>\<open>mach/port.h\<close>, the
  \<^verbatim>\<open>kern_return_t\<close> codes the IPC routines return, and the generic facts on sorted
  association lists and 32-bit words that the component theories use.
\<close>

unbundle bit_operations_syntax

named_theorems ipc_simps \<open>rewrite rules shared by the component proofs\<close>

section \<open>Machine types\<close>

text \<open>\<^verbatim>\<open>natural_t\<close> and \<^verbatim>\<open>mach_port_t\<close> are unsigned 32-bit words; \<open>+\<close> and \<open>-\<close> wrap.\<close>

type_synonym natural_t = "32 word"
type_synonym mach_port_t = "32 word"

datatype kern_return_t =
    KERN_SUCCESS
  | KERN_INVALID_ARGUMENT
  | KERN_NO_SPACE
  | KERN_RESOURCE_SHORTAGE
  | KERN_NOT_IN_SET
  | KERN_NAME_EXISTS
  | KERN_INVALID_NAME
  | KERN_INVALID_TASK
  | KERN_INVALID_RIGHT
  | KERN_INVALID_VALUE
  | KERN_UREFS_OVERFLOW
  | KERN_INVALID_CAPABILITY
  | KERN_RIGHT_EXISTS
  | KERN_NOT_RECEIVER
  | KERN_FAILURE

definition MACH_PORT_NULL :: mach_port_t where
  "MACH_PORT_NULL = 0"

definition MACH_PORT_DEAD :: mach_port_t where
  "MACH_PORT_DEAD = NOT 0"

definition MACH_PORT_VALID :: "mach_port_t \<Rightarrow> bool" where
  "MACH_PORT_VALID name \<longleftrightarrow> name \<noteq> MACH_PORT_NULL \<and> name \<noteq> MACH_PORT_DEAD"

section \<open>Sorted association lists\<close>

text \<open>Lists of (key, value) pairs with strictly ascending keys.\<close>

abbreviation sorted_keys :: "('k :: linorder \<times> 'v) list \<Rightarrow> bool" where
  "sorted_keys xs \<equiv> sorted_wrt (<) (map fst xs)"

abbreviation all_below :: "('k :: linorder \<times> 'v) list \<Rightarrow> 'k \<Rightarrow> bool" where
  "all_below xs k \<equiv> list_all (\<lambda>p. fst p < k) xs"

abbreviation all_above :: "('k :: linorder \<times> 'v) list \<Rightarrow> 'k \<Rightarrow> bool" where
  "all_above xs k \<equiv> list_all (\<lambda>p. k < fst p) xs"

lemma sorted_keys_append:
  "sorted_keys (xs @ ys) \<longleftrightarrow>
     sorted_keys xs \<and> sorted_keys ys \<and> (\<forall>x\<in>set xs. \<forall>y\<in>set ys. fst x < fst y)"
  by (simp add: sorted_wrt_append)

lemma sorted_keys_Cons:
  "sorted_keys (x # xs) \<longleftrightarrow> sorted_keys xs \<and> all_above xs (fst x)"
  by (auto simp: list_all_iff)

lemmas sorted_keys_simps = sorted_keys_append sorted_keys_Cons

lemma sorted_keys_distinct: "sorted_keys xs \<Longrightarrow> distinct (map fst xs)"
  by (simp add: strict_sorted_iff)

lemma map_of_below: "all_below xs k \<Longrightarrow> map_of xs k = None"
  by (auto simp: map_of_eq_None_iff list_all_iff)

lemma map_of_above: "all_above xs k \<Longrightarrow> map_of xs k = None"
  by (auto simp: map_of_eq_None_iff list_all_iff)

lemmas map_of_outside = map_of_below map_of_above

lemma all_below_less: "all_below xs k \<Longrightarrow> k \<le> k' \<Longrightarrow> all_below xs k'"
  by (auto simp: list_all_iff)

lemma all_above_less: "all_above xs k \<Longrightarrow> k' \<le> k \<Longrightarrow> all_above xs k'"
  by (auto simp: list_all_iff)

lemma all_above_ge: "all_above xs k \<Longrightarrow> k' \<le> k \<Longrightarrow> list_all (\<lambda>p. k' \<le> fst p) xs"
  by (fastforce simp: list_all_iff)

lemma sorted_keys_drop_middle: "sorted_keys (xs @ ys @ zs) \<Longrightarrow> sorted_keys (xs @ zs)"
  by (auto simp: sorted_wrt_append)

lemma sorted_keys_middle:
  assumes "all_below xs k" and "all_above ys k" and "sorted_keys xs" and "sorted_keys ys"
  shows "sorted_keys (xs @ (k, v) # ys)"
  using assms by (fastforce simp: sorted_wrt_append list_all_iff)

lemma sorted_keys_app_all_below:
  "sorted_keys (xs @ (k, v) # ys) \<Longrightarrow> all_below xs k \<and> all_above ys k"
  by (auto simp: sorted_wrt_append list_all_iff)

text \<open>Filtering by a bound splits a sorted list where the bound falls.\<close>

lemma filter_below_app:
  "all_below xs k \<Longrightarrow> list_all (\<lambda>p. k \<le> fst p) ys \<Longrightarrow>
     filter (\<lambda>p. fst p < k) (xs @ ys) = xs"
  by (induction xs) (auto simp: list_all_iff filter_empty_conv not_less)

lemma filter_from_app:
  "all_below xs k \<Longrightarrow> list_all (\<lambda>p. k \<le> fst p) ys \<Longrightarrow>
     filter (\<lambda>p. k \<le> fst p) (xs @ ys) = ys"
  by (auto simp: list_all_iff filter_empty_conv not_le filter_id_conv)

text \<open>Inserting a fresh key where it belongs.\<close>

definition insert_key :: "'k :: linorder \<Rightarrow> 'v \<Rightarrow> ('k \<times> 'v) list \<Rightarrow> ('k \<times> 'v) list" where
  "insert_key k v xs = filter (\<lambda>p. fst p < k) xs @ (k, v) # filter (\<lambda>p. k \<le> fst p) xs"

lemma insert_key_between:
  assumes "all_below xs k" and "all_above ys k"
  shows "insert_key k v (xs @ ys) = xs @ (k, v) # ys"
proof -
  have "list_all (\<lambda>p. k \<le> fst p) ys" using assms(2) by (auto simp: list_all_iff)
  with assms(1) show ?thesis
    unfolding insert_key_def by (simp only: filter_below_app filter_from_app)
qed

lemma sorted_insert_key:
  assumes "sorted_keys xs" and "map_of xs k = None"
  shows "sorted_keys (insert_key k v xs)"
  unfolding insert_key_def
proof (rule sorted_keys_middle)
  show "all_above (filter (\<lambda>p. k \<le> fst p) xs) k"
    using assms(2) by (force simp: list_all_iff map_of_eq_None_iff less_le)
qed (use assms(1) in \<open>auto simp: list_all_iff sorted_wrt_filter sorted_wrt_map\<close>)

lemma map_of_filter_key: "map_of (filter (\<lambda>p. P (fst p)) xs) k = (if P k then map_of xs k else None)"
  by (induction xs) auto

lemma map_of_insert_key [simp]: "map_of (insert_key k v xs) = (map_of xs)(k \<mapsto> v)"
  using map_of_filter_key [of "\<lambda>x. x < k" xs] map_of_filter_key [of "\<lambda>x. k \<le> x" xs]
  by (auto simp: insert_key_def fun_eq_iff map_add_def split: option.split)

lemma length_insert_key [simp]: "length (insert_key k v xs) = Suc (length xs)"
proof -
  have "length xs = length (filter (\<lambda>p. fst p < k) xs) + length (filter (\<lambda>p. \<not> fst p < k) xs)"
    by (rule sum_length_filter_compl [symmetric])
  then show ?thesis by (simp add: insert_key_def not_less)
qed

lemma map_of_remove_key: "map_of (filter (\<lambda>p. fst p \<noteq> k) xs) = (map_of xs)(k := None)"
  using map_of_filter_key [of "\<lambda>x. x \<noteq> k" xs] by (auto simp: fun_eq_iff)

lemma remove_key_between:
  "all_below xs k \<Longrightarrow> all_above ys k \<Longrightarrow> filter (\<lambda>p. fst p \<noteq> k) (xs @ (k, v) # ys) = xs @ ys"
  by (force simp: list_all_iff filter_id_conv intro!: arg_cong2 [where f = append])

lemma sorted_keys_filter: "sorted_keys xs \<Longrightarrow> sorted_keys (filter P xs)"
  by (simp add: sorted_wrt_map sorted_wrt_filter)

end
