(* ===== verification/Entry_Bits.thy ===== *)
theory Entry_Bits
  imports Prelude
begin

text \<open>
  The bit layout of names and entries: \<^verbatim>\<open>kernel-7/ipc/port.h\<close>, \<^verbatim>\<open>kernel-7/ipc/ipc_entry.h\<close>
  and the right types of \<^verbatim>\<open>kernel-7/mach/port.h\<close>. An entry packs its user-reference count
  (bits 0-15), its right type (16-20), two flags and, in the table, a collision flag and a
  generation number into one 32-bit word, and the code updates the count by word
  arithmetic on the whole word. The lemmas show when that arithmetic stays inside the
  count field.
\<close>

section \<open>Right types and entry bits\<close>

definition MACH_PORT_TYPE_NONE :: natural_t where "MACH_PORT_TYPE_NONE = 0"
definition MACH_PORT_TYPE_SEND :: natural_t where "MACH_PORT_TYPE_SEND = 0x00010000"
definition MACH_PORT_TYPE_RECEIVE :: natural_t where "MACH_PORT_TYPE_RECEIVE = 0x00020000"
definition MACH_PORT_TYPE_SEND_ONCE :: natural_t where "MACH_PORT_TYPE_SEND_ONCE = 0x00040000"
definition MACH_PORT_TYPE_PORT_SET :: natural_t where "MACH_PORT_TYPE_PORT_SET = 0x00080000"
definition MACH_PORT_TYPE_DEAD_NAME :: natural_t where "MACH_PORT_TYPE_DEAD_NAME = 0x00100000"

definition MACH_PORT_TYPE_SEND_RECEIVE :: natural_t where
  "MACH_PORT_TYPE_SEND_RECEIVE = MACH_PORT_TYPE_SEND OR MACH_PORT_TYPE_RECEIVE"
definition MACH_PORT_TYPE_SEND_RIGHTS :: natural_t where
  "MACH_PORT_TYPE_SEND_RIGHTS = MACH_PORT_TYPE_SEND OR MACH_PORT_TYPE_SEND_ONCE"
definition MACH_PORT_TYPE_PORT_RIGHTS :: natural_t where
  "MACH_PORT_TYPE_PORT_RIGHTS = MACH_PORT_TYPE_SEND_RIGHTS OR MACH_PORT_TYPE_RECEIVE"
definition MACH_PORT_TYPE_PORT_OR_DEAD :: natural_t where
  "MACH_PORT_TYPE_PORT_OR_DEAD = MACH_PORT_TYPE_PORT_RIGHTS OR MACH_PORT_TYPE_DEAD_NAME"

definition MACH_PORT_TYPE_DNREQUEST :: natural_t where "MACH_PORT_TYPE_DNREQUEST = 0x80000000"
definition MACH_PORT_TYPE_MAREQUEST :: natural_t where "MACH_PORT_TYPE_MAREQUEST = 0x40000000"
definition MACH_PORT_TYPE_COMPAT :: natural_t where "MACH_PORT_TYPE_COMPAT = 0x20000000"

definition IE_BITS_UREFS_MASK :: natural_t where "IE_BITS_UREFS_MASK = 0x0000ffff"
definition IE_BITS_TYPE_MASK :: natural_t where "IE_BITS_TYPE_MASK = 0x001f0000"
definition IE_BITS_MAREQUEST :: natural_t where "IE_BITS_MAREQUEST = 0x00200000"
definition IE_BITS_COMPAT :: natural_t where "IE_BITS_COMPAT = 0x00400000"
definition IE_BITS_COLLISION :: natural_t where "IE_BITS_COLLISION = 0x00800000"
definition IE_BITS_GEN_MASK :: natural_t where "IE_BITS_GEN_MASK = 0xff000000"
definition IE_BITS_GEN_ONE :: natural_t where "IE_BITS_GEN_ONE = 0x01000000"
definition IE_BITS_RIGHT_MASK :: natural_t where "IE_BITS_RIGHT_MASK = 0x007fffff"

definition IE_BITS_UREFS :: "natural_t \<Rightarrow> natural_t" where
  "IE_BITS_UREFS bits = bits AND IE_BITS_UREFS_MASK"
definition IE_BITS_TYPE :: "natural_t \<Rightarrow> natural_t" where
  "IE_BITS_TYPE bits = bits AND IE_BITS_TYPE_MASK"
definition IE_BITS_GEN :: "natural_t \<Rightarrow> natural_t" where
  "IE_BITS_GEN bits = bits AND IE_BITS_GEN_MASK"

text \<open>A C condition \<^verbatim>\<open>bits & mask\<close>.\<close>

definition test :: "natural_t \<Rightarrow> natural_t \<Rightarrow> bool" where
  "test bits m \<longleftrightarrow> bits AND m \<noteq> 0"

definition MACH_PORT_UREFS_MAX :: natural_t where "MACH_PORT_UREFS_MAX = 0xffff"

text \<open>
  The two macros on a user-reference count and a signed change. The unary minus and the
  sums are computed modulo \<open>2 ^ 32\<close>; the comparisons with \<^verbatim>\<open>urefs\<close> are unsigned because
  \<^verbatim>\<open>urefs\<close> is.
\<close>

definition MACH_PORT_UREFS_OVERFLOW :: "natural_t \<Rightarrow> natural_t \<Rightarrow> bool" where
  "MACH_PORT_UREFS_OVERFLOW urefs delta \<longleftrightarrow>
     0 <s delta \<and> (urefs + delta \<le> urefs \<or> urefs + delta > MACH_PORT_UREFS_MAX)"

definition MACH_PORT_UREFS_UNDERFLOW :: "natural_t \<Rightarrow> natural_t \<Rightarrow> bool" where
  "MACH_PORT_UREFS_UNDERFLOW urefs delta \<longleftrightarrow> delta <s 0 \<and> - delta > urefs"

section \<open>Names: index and generation\<close>

definition MACH_PORT_INDEX :: "mach_port_t \<Rightarrow> natural_t" where
  "MACH_PORT_INDEX name = drop_bit 8 name"
definition MACH_PORT_GEN :: "mach_port_t \<Rightarrow> natural_t" where
  "MACH_PORT_GEN name = push_bit 24 (name AND 0xff)"
definition MACH_PORT_MAKE :: "natural_t \<Rightarrow> natural_t \<Rightarrow> mach_port_t" where
  "MACH_PORT_MAKE index gen = push_bit 8 index OR drop_bit 24 gen"
definition MACH_PORT_NGEN :: "mach_port_t \<Rightarrow> mach_port_t" where
  "MACH_PORT_NGEN name = MACH_PORT_MAKE 0 (MACH_PORT_GEN name)"

lemmas type_defs =
  MACH_PORT_TYPE_NONE_def MACH_PORT_TYPE_SEND_def MACH_PORT_TYPE_RECEIVE_def
  MACH_PORT_TYPE_SEND_ONCE_def MACH_PORT_TYPE_PORT_SET_def MACH_PORT_TYPE_DEAD_NAME_def
  MACH_PORT_TYPE_SEND_RECEIVE_def MACH_PORT_TYPE_SEND_RIGHTS_def
  MACH_PORT_TYPE_PORT_RIGHTS_def MACH_PORT_TYPE_PORT_OR_DEAD_def

lemmas mask_defs =
  IE_BITS_UREFS_MASK_def IE_BITS_TYPE_MASK_def IE_BITS_MAREQUEST_def IE_BITS_COMPAT_def
  IE_BITS_COLLISION_def IE_BITS_GEN_MASK_def IE_BITS_GEN_ONE_def IE_BITS_RIGHT_MASK_def

lemmas field_defs = IE_BITS_UREFS_def IE_BITS_TYPE_def IE_BITS_GEN_def test_def

lemmas bits_defs = type_defs mask_defs field_defs MACH_PORT_UREFS_MAX_def

section \<open>The fields of an entry word\<close>

lemma disjoint_bit:
  fixes a b :: natural_t
  assumes "a AND b = 0" shows "\<not> (bit a n \<and> bit b n)"
proof -
  have "bit (a AND b) n = bit (0 :: natural_t) n" using assms by simp
  then show ?thesis by (simp add: bit_and_iff)
qed

lemma and_not_disjoint:
  fixes m u :: natural_t
  assumes "m AND u = 0" shows "NOT m AND u = u"
proof (rule bit_eqI)
  fix n assume "possible_bit TYPE(natural_t) n"
  then show "bit (NOT m AND u) n = bit u n"
    using disjoint_bit [OF assms, of n] by (auto simp: bit_and_iff bit_not_iff)
qed

text \<open>Every test for right types reads the type field only.\<close>

lemma test_type:
  assumes "m AND IE_BITS_TYPE_MASK = m"
  shows "test bits m \<longleftrightarrow> test (IE_BITS_TYPE bits) m"
proof -
  have "bits AND m = (bits AND IE_BITS_TYPE_MASK) AND m"
    using assms by (metis and.assoc and.commute)
  then show ?thesis by (simp add: test_def IE_BITS_TYPE_def)
qed

lemma test_types:
  "test bits MACH_PORT_TYPE_SEND \<longleftrightarrow> test (IE_BITS_TYPE bits) MACH_PORT_TYPE_SEND"
  "test bits MACH_PORT_TYPE_RECEIVE \<longleftrightarrow> test (IE_BITS_TYPE bits) MACH_PORT_TYPE_RECEIVE"
  "test bits MACH_PORT_TYPE_SEND_ONCE \<longleftrightarrow> test (IE_BITS_TYPE bits) MACH_PORT_TYPE_SEND_ONCE"
  "test bits MACH_PORT_TYPE_PORT_SET \<longleftrightarrow> test (IE_BITS_TYPE bits) MACH_PORT_TYPE_PORT_SET"
  "test bits MACH_PORT_TYPE_DEAD_NAME \<longleftrightarrow> test (IE_BITS_TYPE bits) MACH_PORT_TYPE_DEAD_NAME"
  "test bits MACH_PORT_TYPE_SEND_RECEIVE \<longleftrightarrow> test (IE_BITS_TYPE bits) MACH_PORT_TYPE_SEND_RECEIVE"
  "test bits MACH_PORT_TYPE_SEND_RIGHTS \<longleftrightarrow> test (IE_BITS_TYPE bits) MACH_PORT_TYPE_SEND_RIGHTS"
  "test bits MACH_PORT_TYPE_PORT_RIGHTS \<longleftrightarrow> test (IE_BITS_TYPE bits) MACH_PORT_TYPE_PORT_RIGHTS"
  "test bits MACH_PORT_TYPE_PORT_OR_DEAD \<longleftrightarrow> test (IE_BITS_TYPE bits) MACH_PORT_TYPE_PORT_OR_DEAD"
  by (rule test_type, simp add: type_defs mask_defs)+

text \<open>Setting and clearing bits outside a field leaves it; inside, it acts on the field.\<close>

lemma urefs_andnot:
  assumes "m AND IE_BITS_UREFS_MASK = 0"
  shows "IE_BITS_UREFS (bits AND NOT m) = IE_BITS_UREFS bits"
  by (simp add: IE_BITS_UREFS_def and.assoc and_not_disjoint [OF assms])

lemma type_andnot: "IE_BITS_TYPE (bits AND NOT m) = IE_BITS_TYPE bits AND NOT m"
  by (simp add: IE_BITS_TYPE_def ac_simps)

lemma type_or: "IE_BITS_TYPE (bits OR m) = IE_BITS_TYPE bits OR IE_BITS_TYPE m"
  by (simp add: IE_BITS_TYPE_def bit.conj_disj_distrib2)

lemma urefs_or: "IE_BITS_UREFS (bits OR m) = IE_BITS_UREFS bits OR IE_BITS_UREFS m"
  by (simp add: IE_BITS_UREFS_def bit.conj_disj_distrib2)

text \<open>Replacing the count by another 16-bit value by word arithmetic.\<close>

definition with_urefs :: "natural_t \<Rightarrow> natural_t \<Rightarrow> natural_t" where
  "with_urefs bits v = (bits AND NOT IE_BITS_UREFS_MASK) OR v"

lemma small_and_mask: "v \<le> MACH_PORT_UREFS_MAX \<Longrightarrow> v AND IE_BITS_UREFS_MASK = v"
  using less_mask_eq [of v 16]
  by (simp add: MACH_PORT_UREFS_MAX_def IE_BITS_UREFS_MASK_def mask_eq_exp_minus_1
      word_less_nat_alt word_le_nat_alt)

lemma urefs_le_max: "IE_BITS_UREFS bits \<le> MACH_PORT_UREFS_MAX"
  by (simp add: IE_BITS_UREFS_def IE_BITS_UREFS_MASK_def MACH_PORT_UREFS_MAX_def word_and_le1)

lemma high_low_disjoint: "(bits AND NOT IE_BITS_UREFS_MASK) AND (v AND IE_BITS_UREFS_MASK) = 0"
  by (rule bit_eqI) (simp add: bit_and_iff bit_not_iff)

lemma urefs_split: "(bits AND NOT IE_BITS_UREFS_MASK) + IE_BITS_UREFS bits = bits"
  using disjunctive_add_eq_or [OF high_low_disjoint, of bits bits]
  by (simp add: IE_BITS_UREFS_def flip: bit.conj_disj_distrib)

lemma add_urefs:
  assumes "IE_BITS_UREFS bits + d \<le> MACH_PORT_UREFS_MAX"
  shows "bits + d = with_urefs bits (IE_BITS_UREFS bits + d)"
proof -
  let ?h = "bits AND NOT IE_BITS_UREFS_MASK" and ?v = "IE_BITS_UREFS bits + d"
  have "bits + d = ?h + ?v" using urefs_split [of bits] by (metis add.assoc)
  also have "\<dots> = ?h OR ?v"
    using disjunctive_add_eq_or high_low_disjoint small_and_mask [OF assms] by metis
  finally show ?thesis by (simp add: with_urefs_def)
qed

lemma urefs_with_urefs [simp]: "v \<le> MACH_PORT_UREFS_MAX \<Longrightarrow> IE_BITS_UREFS (with_urefs bits v) = v"
  using high_low_disjoint [of bits IE_BITS_UREFS_MASK]
  by (simp add: with_urefs_def urefs_or) (simp add: IE_BITS_UREFS_def small_and_mask)

lemma test_with_urefs:
  assumes "v \<le> MACH_PORT_UREFS_MAX" and "m AND IE_BITS_UREFS_MASK = 0"
  shows "with_urefs bits v AND m = bits AND m"
proof -
  have "v AND m = v AND (IE_BITS_UREFS_MASK AND m)"
    using small_and_mask [OF assms(1)] by (simp flip: and.assoc)
  then have "v AND m = 0" using assms(2) by (simp add: and.commute)
  moreover have "NOT IE_BITS_UREFS_MASK AND m = m"
    using and_not_disjoint [of IE_BITS_UREFS_MASK m] assms(2) by (simp add: and.commute)
  ultimately show ?thesis by (simp add: with_urefs_def bit.conj_disj_distrib2 and.assoc)
qed

end
