(* ===== verification/Rcv_Check.thy ===== *)
theory Rcv_Check
  imports Entry_Bits
begin

text \<open>
  The check a thread that waits in a receive is put through when a message arrives for it (\<^verbatim>\<open>ipc_mqueue_send\<close>,
  \<^verbatim>\<open>ipc_mqueue_move\<close>, \<^verbatim>\<open>ipc_mqueue_send_interrupt\<close>): the format and the size of the message and the scatter list of
  the receiver decide whether it is handed the message, and the state it wakes up with.
\<close>

section \<open>Thread states\<close>

text \<open>
  Why a thread was made runnable, \<^verbatim>\<open>ith_state\<close>. \<open>ITH_SCATTER_SMALL\<close> is \<^verbatim>\<open>MACH_RCV_SCATTER_SMALL\<close> and
  \<open>ITH_BODY_ERROR_VM\<close> is \<^verbatim>\<open>MACH_MSG_VM_KERNEL|MACH_RCV_BODY_ERROR\<close>, two of the errors of \<^verbatim>\<open>ipc_kmsg_check_scatter\<close>.
\<close>

datatype ith_state =
    MACH_MSG_SUCCESS
  | MACH_RCV_PORT_DIED
  | MACH_RCV_PORT_CHANGED
  | MACH_RCV_HEADER_ERROR
  | MACH_RCV_TOO_LARGE
  | MACH_RCV_INVALID_TYPE
  | ITH_SCATTER_SMALL
  | ITH_BODY_ERROR_VM

section \<open>Sizes and options\<close>

type_synonym mach_msg_size_t = "32 word"

type_synonym mach_msg_option_t = "32 word"

definition msg_header_size :: mach_msg_size_t where "msg_header_size = 24"

definition MACH_RCV_LARGE :: mach_msg_option_t where "MACH_RCV_LARGE = 0x00000800"
definition MACH_RCV_OLD_FORMAT :: mach_msg_option_t where "MACH_RCV_OLD_FORMAT = 0x00008000"

text \<open>\<^verbatim>\<open>trailer_size\<close> has three elements; \<open>None\<close> is a read behind its end.\<close>

definition trailer_size :: "mach_msg_size_t list" where
  "trailer_size = [8, 12, 20]"

definition GET_RCV_ELEMENTS :: "mach_msg_option_t \<Rightarrow> nat" where
  "GET_RCV_ELEMENTS y = unat (drop_bit 24 y AND 0xf)"

definition REQUESTED_TRAILER_SIZE :: "mach_msg_option_t \<Rightarrow> mach_msg_size_t option" where
  "REQUESTED_TRAILER_SIZE y =
     (if GET_RCV_ELEMENTS y < length trailer_size then Some (trailer_size ! GET_RCV_ELEMENTS y) else None)"

text \<open>The fields of a message header that the checks read.\<close>

record msg_info =
  mi_old_format :: bool
  mi_complex :: bool
  mi_size :: mach_msg_size_t

text \<open>What a waiting receiver has stored in its thread; \<open>ith_list\<close> says whether it has a scatter list.\<close>

record rcv_args =
  ith_rcv_option :: mach_msg_option_t
  ith_msize :: mach_msg_size_t
  ith_list :: bool

section \<open>The check\<close>

text \<open>
  \<open>behind i\<close> is the word in memory at index \<open>i\<close> behind the start of \<^verbatim>\<open>trailer_size\<close>, which the code reads for an index that
  the array does not have; \<open>scatter\<close> is the answer of \<^verbatim>\<open>ipc_kmsg_check_scatter\<close>. The result says whether the receiver
  is handed the message, and its state.
\<close>

definition deliver_check ::
  "(nat \<Rightarrow> mach_msg_size_t) \<Rightarrow> rcv_args \<Rightarrow> msg_info \<Rightarrow> ith_state \<Rightarrow> bool \<times> ith_state" where
  "deliver_check behind th m scatter =
     (if mi_old_format m then
        (if \<not> test (ith_rcv_option th) MACH_RCV_OLD_FORMAT then (True, MACH_RCV_HEADER_ERROR)
         else if mi_size m \<le> ith_msize th then (True, MACH_MSG_SUCCESS)
         else (False, MACH_RCV_TOO_LARGE))
      else if test (ith_rcv_option th) MACH_RCV_OLD_FORMAT then
        (if mi_complex m \<or> msg_header_size < mi_size m \<or> ith_msize th < msg_header_size
         then (True, MACH_RCV_HEADER_ERROR) else (True, MACH_MSG_SUCCESS))
      else
        (let trailer = (case REQUESTED_TRAILER_SIZE (ith_rcv_option th) of
                          Some t \<Rightarrow> t | None \<Rightarrow> behind (GET_RCV_ELEMENTS (ith_rcv_option th)))
         in if ith_msize th - trailer < mi_size m
            then (\<not> test (ith_rcv_option th) MACH_RCV_LARGE, MACH_RCV_TOO_LARGE)
            else if mi_complex m \<and> ith_list th \<and> scatter \<noteq> MACH_MSG_SUCCESS then
              (if scatter = MACH_RCV_INVALID_TYPE \<or> scatter = ITH_BODY_ERROR_VM then (False, scatter)
               else (\<not> test (ith_rcv_option th) MACH_RCV_LARGE, scatter))
            else (True, MACH_MSG_SUCCESS)))"

end
