(* ===== verification/Ipc_State.thy ===== *)
theory Ipc_State
  imports Rcv_Check "HOL-Library.Monad_Syntax"
begin

text \<open>
  The state of the IPC system as the right-manipulation code sees it: ports, port sets,
  spaces, the reverse hash table, the msg-accepted requests and the messages on their way.
  Pointers are numbers; the objects they point at are looked up in \<open>k_ports\<close>,
  \<open>k_psets\<close> and \<open>k_spaces\<close>. An object whose reference count is 0 has been freed.

  The names of a space are a finite map \<open>is_entries\<close>; the tables and the splay tree that
  implement it are the subject of their own theories. Reference and right counts are
  natural numbers: each unit is held by an object in kernel memory, so they do not wrap.
  The make-send count, the timestamp and the user references can wrap or be pegged and are
  machine words.

  Locks are not part of the state: a routine runs with the locks it takes, and what it
  does between two points where it drops them is atomic here.
\<close>

type_synonym port_id = nat
type_synonym pset_id = nat
type_synonym space_id = nat
type_synonym imar_id = nat
type_synonym thread_id = nat

section \<open>Objects and entries\<close>

datatype ipc_object =
    IO_NULL
  | IO_DEAD
  | IO_PORT port_id
  | IO_PSET pset_id

definition IO_VALID :: "ipc_object \<Rightarrow> bool" where
  "IO_VALID io \<longleftrightarrow> io \<noteq> IO_NULL \<and> io \<noteq> IO_DEAD"

record ipc_entry =
  ie_bits :: natural_t
  ie_object :: ipc_object
  ie_request :: nat

record ipc_space =
  is_references :: nat
  is_active :: bool
  is_entries :: "mach_port_t \<rightharpoonup> ipc_entry"
  is_notify :: ipc_object

section \<open>Messages\<close>

text \<open>The kind of right a message carries, \<^verbatim>\<open>MACH_MSG_TYPE_PORT_*\<close>.\<close>

datatype msg_right =
    MACH_MSG_TYPE_PORT_RECEIVE
  | MACH_MSG_TYPE_PORT_SEND
  | MACH_MSG_TYPE_PORT_SEND_ONCE

text \<open>How a right is taken from a space, the other \<^verbatim>\<open>MACH_MSG_TYPE_*\<close> values.\<close>

datatype copyin_type =
    MACH_MSG_TYPE_MOVE_RECEIVE
  | MACH_MSG_TYPE_MOVE_SEND
  | MACH_MSG_TYPE_MOVE_SEND_ONCE
  | MACH_MSG_TYPE_COPY_SEND
  | MACH_MSG_TYPE_MAKE_SEND
  | MACH_MSG_TYPE_MAKE_SEND_ONCE

text \<open>The identity of a message: a notification with its argument, or a user message.\<close>

datatype msg_id =
    MACH_NOTIFY_PORT_DELETED mach_port_t
  | MACH_NOTIFY_PORT_DESTROYED
  | MACH_NOTIFY_NO_SENDERS natural_t
  | MACH_NOTIFY_SEND_ONCE
  | MACH_NOTIFY_DEAD_NAME mach_port_t
  | MACH_NOTIFY_PORT_DELETED_COMPAT mach_port_t
  | MACH_NOTIFY_PORT_DESTROYED_COMPAT
  | MACH_NOTIFY_MSG_ACCEPTED_COMPAT mach_port_t
  | USER_MESSAGE nat

text \<open>
  A kernel message: the destination with its right, and the other rights it carries (the
  local port and the port descriptors of the body).
\<close>

record ipc_kmsg =
  ikm_remote :: ipc_object
  ikm_remote_right :: msg_right
  ikm_rights :: "(ipc_object \<times> msg_right) list"
  ikm_id :: msg_id
  ikm_circular :: bool

text \<open>A call of \<^verbatim>\<open>thread_go\<close>, with the message and sequence number handed over, if any.\<close>

record thread_go =
  tg_thread :: thread_id
  tg_state :: ith_state
  tg_kmsg :: "(ipc_kmsg \<times> natural_t) option"

section \<open>Ports and port sets\<close>

text \<open>
  The union in \<^verbatim>\<open>struct ipc_port\<close>: the receiver's space, the destination of a port in
  transit (null in limbo), or the time of death.
\<close>

datatype ip_data =
    Ip_Receiver space_id
  | Ip_Destination "port_id option"
  | Ip_Timestamp natural_t
  | Ip_Null

text \<open>
  A slot of a dead-name request table: free slots link to the next free one; used slots
  hold a send-once right or, for compatibility requests, a space.
\<close>

datatype ipr_notify =
    Ipr_Next nat
  | Ipr_Soright port_id
  | Ipr_Space space_id

record ipc_port_request =
  ipr_name :: mach_port_t
  ipr_notify :: ipr_notify

text \<open>
  The table: \<open>dn_next\<close> is \<^verbatim>\<open>table->ipr_next\<close>, the head of the free list (0 ends it),
  \<open>dn_size\<close> is \<^verbatim>\<open>table->ipr_size\<close>, an index into \<^verbatim>\<open>ipc_table_dnrequests\<close>. Slot 0 is
  the header and is never used as a request.
\<close>

record dnrequest_table =
  dn_next :: nat
  dn_size :: nat
  dn_slots :: "ipc_port_request list"

text \<open>\<^verbatim>\<open>ip_pdrequest\<close>: null, a send-once right, or (low bit set) a send right.\<close>

datatype pdrequest =
    PD_NULL
  | PD_SONCE port_id
  | PD_SEND port_id

text \<open>
  \<open>ip_messages\<close> and \<open>ip_receivers\<close> are the two queues of the C field \<^verbatim>\<open>ip_messages\<close>: the
  queued messages and the threads blocked in a receive. \<open>ip_blocked\<close> holds the blocked senders.
\<close>

record ipc_port =
  ip_references :: nat
  ip_active :: bool
  ip_kotype :: nat
  ip_data :: ip_data
  ip_receiver_name :: mach_port_t
  ip_mscount :: natural_t
  ip_srights :: nat
  ip_sorights :: nat
  ip_nsrequest :: "port_id option"
  ip_pdrequest :: pdrequest
  ip_dnrequests :: "dnrequest_table option"
  ip_pset :: "pset_id option"
  ip_seqno :: natural_t
  ip_msgcount :: nat
  ip_qlimit :: nat
  ip_messages :: "ipc_kmsg list"
  ip_receivers :: "thread_id list"
  ip_blocked :: "thread_id list"

record ipc_pset =
  ips_references :: nat
  ips_active :: bool
  ips_local_name :: mach_port_t
  ips_messages :: "ipc_kmsg list"
  ips_receivers :: "thread_id list"

text \<open>A msg-accepted request, \<^verbatim>\<open>struct ipc_marequest\<close>; the chain it is on is \<open>k_imarb\<close>.\<close>

record ipc_marequest =
  imar_space :: space_id
  imar_name :: mach_port_t
  imar_soright :: "port_id option"

section \<open>The kernel state\<close>

text \<open>
  \<open>ith_messages\<close> is the queue of messages the running thread still has to clean
  (\<^verbatim>\<open>ipc_kmsg_destroy\<close>), \<open>k_kobject_msgs\<close> the messages handed to \<^verbatim>\<open>ipc_kobject_server\<close>,
  \<open>k_kobjects_gone\<close> the kernel ports handed to \<^verbatim>\<open>ipc_kobject_destroy\<close>, \<open>k_thread_go\<close> the
  threads made runnable. \<open>k_nomem\<close> says whether kernel allocations currently fail.

  \<open>k_rcv_args\<close> holds what the threads that wait in a receive have stored for it, \<open>k_msg_info\<close> the header fields of
  messages that the checks of a receiver read, \<open>k_check_scatter\<close> the answers of \<^verbatim>\<open>ipc_kmsg_check_scatter\<close>, whose arguments,
  the bodies of messages and the scatter lists, are not part of this state, and \<open>k_behind\<close> the memory behind the
  array \<^verbatim>\<open>trailer_size\<close>.
\<close>

record ipc_kernel =
  k_ports :: "port_id \<Rightarrow> ipc_port"
  k_psets :: "pset_id \<Rightarrow> ipc_pset"
  k_spaces :: "space_id \<Rightarrow> ipc_space"
  k_hash :: "space_id \<Rightarrow> port_id \<Rightarrow> mach_port_t option"
  k_imar :: "imar_id \<Rightarrow> ipc_marequest"
  k_imarb :: "natural_t \<Rightarrow> imar_id list"
  k_imar_mask :: natural_t
  k_timestamp :: natural_t
  k_dn_sizes :: "nat list"
  k_kernel_space :: space_id
  k_nomem :: bool
  ith_messages :: "ipc_kmsg list"
  k_kobject_msgs :: "ipc_kmsg list"
  k_kobjects_gone :: "port_id list"
  k_thread_go :: "thread_go list"
  k_rcv_args :: "thread_id \<Rightarrow> rcv_args"
  k_msg_info :: "ipc_kmsg \<Rightarrow> msg_info"
  k_check_scatter :: "thread_id \<Rightarrow> ipc_kmsg \<Rightarrow> ith_state"
  k_behind :: "nat \<Rightarrow> mach_msg_size_t"

definition upd_port :: "port_id \<Rightarrow> (ipc_port \<Rightarrow> ipc_port) \<Rightarrow> ipc_kernel \<Rightarrow> ipc_kernel" where
  "upd_port p f K = K\<lparr>k_ports := (k_ports K)(p := f (k_ports K p))\<rparr>"

definition upd_pset :: "pset_id \<Rightarrow> (ipc_pset \<Rightarrow> ipc_pset) \<Rightarrow> ipc_kernel \<Rightarrow> ipc_kernel" where
  "upd_pset s f K = K\<lparr>k_psets := (k_psets K)(s := f (k_psets K s))\<rparr>"

definition upd_space :: "space_id \<Rightarrow> (ipc_space \<Rightarrow> ipc_space) \<Rightarrow> ipc_kernel \<Rightarrow> ipc_kernel" where
  "upd_space s f K = K\<lparr>k_spaces := (k_spaces K)(s := f (k_spaces K s))\<rparr>"

definition entries :: "ipc_kernel \<Rightarrow> space_id \<Rightarrow> mach_port_t \<rightharpoonup> ipc_entry" where
  "entries K s = is_entries (k_spaces K s)"

definition set_entry :: "space_id \<Rightarrow> mach_port_t \<Rightarrow> ipc_entry \<Rightarrow> ipc_kernel \<Rightarrow> ipc_kernel" where
  "set_entry s n e = upd_space s (is_entries_update (\<lambda>m. m(n \<mapsto> e)))"

text \<open>\<^verbatim>\<open>ipc_entry_dealloc\<close> at the level of the name map: the name disappears.\<close>

definition entry_dealloc :: "space_id \<Rightarrow> mach_port_t \<Rightarrow> ipc_kernel \<Rightarrow> ipc_kernel" where
  "entry_dealloc s n = upd_space s (is_entries_update (\<lambda>m. m(n := None)))"

lemmas upd_defs = upd_port_def upd_pset_def upd_space_def set_entry_def entry_dealloc_def

section \<open>What the updates leave alone\<close>

lemma entries_upd_port [simp]: "entries (upd_port p f K) = entries K"
  by (simp add: entries_def upd_port_def fun_eq_iff)

lemma entries_upd_pset [simp]: "entries (upd_pset p f K) = entries K"
  by (simp add: entries_def upd_pset_def fun_eq_iff)

lemma entries_set_entry [simp]:
  "entries (set_entry s n e K) = (entries K)(s := (entries K s)(n \<mapsto> e))"
  by (auto simp: entries_def upd_defs fun_eq_iff)

lemma entries_dealloc [simp]:
  "entries (entry_dealloc s n K) = (entries K)(s := (entries K s)(n := None))"
  by (auto simp: entries_def upd_defs fun_eq_iff)

lemma ports_upd_port [simp]: "k_ports (upd_port p f K) = (k_ports K)(p := f (k_ports K p))"
  by (simp add: upd_port_def)

lemma ports_upd_other [simp]:
  "k_ports (upd_pset q g K) = k_ports K"
  "k_ports (upd_space s h K) = k_ports K"
  "k_ports (set_entry s n e K) = k_ports K"
  "k_ports (entry_dealloc s n K) = k_ports K"
  by (simp_all add: upd_defs)

section \<open>A quiescent state\<close>

text \<open>
  A port without rights, requests or messages, an empty space, and a kernel with nothing in
  it: the base of the concrete states the properties are applied to.
\<close>

definition port0 :: ipc_port where
  "port0 = \<lparr>ip_references = 1, ip_active = True, ip_kotype = 0, ip_data = Ip_Null,
            ip_receiver_name = MACH_PORT_NULL, ip_mscount = 0, ip_srights = 0, ip_sorights = 0,
            ip_nsrequest = None, ip_pdrequest = PD_NULL, ip_dnrequests = None, ip_pset = None,
            ip_seqno = 0, ip_msgcount = 0, ip_qlimit = 5, ip_messages = [], ip_receivers = [],
            ip_blocked = []\<rparr>"

definition pset0 :: ipc_pset where
  "pset0 = \<lparr>ips_references = 1, ips_active = True, ips_local_name = MACH_PORT_NULL,
            ips_messages = [], ips_receivers = []\<rparr>"

definition space0 :: ipc_space where
  "space0 = \<lparr>is_references = 1, is_active = True, is_entries = (\<lambda>_. None), is_notify = IO_NULL\<rparr>"

definition kernel0 :: ipc_kernel where
  "kernel0 = \<lparr>k_ports = (\<lambda>_. port0), k_psets = (\<lambda>_. pset0), k_spaces = (\<lambda>_. space0),
              k_hash = (\<lambda>_ _. None),
              k_imar = (\<lambda>_. \<lparr>imar_space = 0, imar_name = MACH_PORT_NULL, imar_soright = None\<rparr>),
              k_imarb = (\<lambda>_. []), k_imar_mask = 15, k_timestamp = 0, k_dn_sizes = [2, 4, 8, 0],
              k_kernel_space = 0, k_nomem = False, ith_messages = [], k_kobject_msgs = [],
              k_kobjects_gone = [], k_thread_go = [], 
              k_rcv_args = (\<lambda>_. \<lparr>ith_rcv_option = 0, ith_msize = 0, ith_list = False\<rparr>),
              k_msg_info = (\<lambda>_. \<lparr>mi_old_format = False, mi_complex = False, mi_size = 24\<rparr>),
              k_check_scatter = (\<lambda>_ _. MACH_MSG_SUCCESS), k_behind = (\<lambda>_. 0)\<rparr>"

lemmas state0_defs = kernel0_def port0_def pset0_def space0_def

end
