(* ===== verification/Ipc_Port.thy ===== *)
theory Ipc_Port
  imports Ipc_State
begin

text \<open>
  Ports, port sets, message queues and notifications: \<^verbatim>\<open>ipc_port.c\<close>, \<^verbatim>\<open>ipc_pset.c\<close>,
  \<^verbatim>\<open>ipc_notify.c\<close> and the part of \<^verbatim>\<open>ipc_mqueue.c\<close> that sends and moves messages, with the
  msg-accepted request table (\<^verbatim>\<open>ipc_marequest.c\<close>) entries need when they die.

  A routine that cannot fail is a function on the kernel state. A routine whose C code could
  follow a null pointer, leave a table, panic or run forever returns an option, and \<open>None\<close>
  is that outcome. \<^verbatim>\<open>assert\<close> is compiled out in this kernel and has no counterpart.
\<close>

section \<open>References, threads and messages\<close>

definition ip_reference :: "port_id \<Rightarrow> ipc_kernel \<Rightarrow> ipc_kernel" where
  "ip_reference port = upd_port port (ip_references_update (\<lambda>n. n + 1))"

definition ip_release :: "port_id \<Rightarrow> ipc_kernel \<Rightarrow> ipc_kernel" where
  "ip_release port = upd_port port (ip_references_update (\<lambda>n. n - 1))"

definition ips_reference :: "pset_id \<Rightarrow> ipc_kernel \<Rightarrow> ipc_kernel" where
  "ips_reference pset = upd_pset pset (ips_references_update (\<lambda>n. n + 1))"

definition ips_release :: "pset_id \<Rightarrow> ipc_kernel \<Rightarrow> ipc_kernel" where
  "ips_release pset = upd_pset pset (ips_references_update (\<lambda>n. n - 1))"

definition is_reference :: "space_id \<Rightarrow> ipc_kernel \<Rightarrow> ipc_kernel" where
  "is_reference space = upd_space space (is_references_update (\<lambda>n. n + 1))"

definition is_release :: "space_id \<Rightarrow> ipc_kernel \<Rightarrow> ipc_kernel" where
  "is_release space = upd_space space (is_references_update (\<lambda>n. n - 1))"

definition ipc_port_timestamp :: "ipc_kernel \<Rightarrow> natural_t \<times> ipc_kernel" where
  "ipc_port_timestamp K = (k_timestamp K, K\<lparr>k_timestamp := k_timestamp K + 1\<rparr>)"

definition IP_TIMESTAMP_ORDER :: "natural_t \<Rightarrow> natural_t \<Rightarrow> bool" where
  "IP_TIMESTAMP_ORDER one two \<longleftrightarrow> one - two <s 0"

text \<open>
  \<^verbatim>\<open>ipc_kmsg_destroy\<close> queues the message on the running thread's \<^verbatim>\<open>ith_messages\<close>; the messages
  of that queue are cleaned, one after another, by the outermost call.
\<close>

definition ipc_kmsg_destroy :: "ipc_kmsg \<Rightarrow> ipc_kernel \<Rightarrow> ipc_kernel" where
  "ipc_kmsg_destroy kmsg K = K\<lparr>ith_messages := ith_messages K @ [kmsg]\<rparr>"

definition threads_go :: "thread_go list \<Rightarrow> ipc_kernel \<Rightarrow> ipc_kernel" where
  "threads_go gos K = K\<lparr>k_thread_go := k_thread_go K @ gos\<rparr>"

section \<open>Message queues\<close>

text \<open>A queue is that of a port or of a port set: its messages and its blocked receivers.\<close>

datatype mqueue = MQ_PORT port_id | MQ_PSET pset_id

fun imq_messages :: "ipc_kernel \<Rightarrow> mqueue \<Rightarrow> ipc_kmsg list" where
  "imq_messages K (MQ_PORT p) = ip_messages (k_ports K p)"
| "imq_messages K (MQ_PSET s) = ips_messages (k_psets K s)"

fun imq_threads :: "ipc_kernel \<Rightarrow> mqueue \<Rightarrow> thread_id list" where
  "imq_threads K (MQ_PORT p) = ip_receivers (k_ports K p)"
| "imq_threads K (MQ_PSET s) = ips_receivers (k_psets K s)"

fun set_imq_messages :: "mqueue \<Rightarrow> ipc_kmsg list \<Rightarrow> ipc_kernel \<Rightarrow> ipc_kernel" where
  "set_imq_messages (MQ_PORT p) ms = upd_port p (ip_messages_update (\<lambda>_. ms))"
| "set_imq_messages (MQ_PSET s) ms = upd_pset s (ips_messages_update (\<lambda>_. ms))"

fun set_imq_threads :: "mqueue \<Rightarrow> thread_id list \<Rightarrow> ipc_kernel \<Rightarrow> ipc_kernel" where
  "set_imq_threads (MQ_PORT p) ths = upd_port p (ip_receivers_update (\<lambda>_. ths))"
| "set_imq_threads (MQ_PSET s) ths = upd_pset s (ips_receivers_update (\<lambda>_. ths))"

text \<open>The check of a waiting receiver with what the state knows of thread and message.\<close>

definition k_rcv_check :: "ipc_kernel \<Rightarrow> thread_id \<Rightarrow> ipc_kmsg \<Rightarrow> bool \<times> ith_state" where
  "k_rcv_check K th kmsg = deliver_check (k_behind K) (k_rcv_args K th) (k_msg_info K kmsg) (k_check_scatter K th kmsg)"

lemma k_rcv_check_upd [simp]: "k_rcv_check (upd_port p f K) = k_rcv_check K" "k_rcv_check (upd_pset s g K) = k_rcv_check K"
  by (simp_all add: k_rcv_check_def fun_eq_iff upd_port_def upd_pset_def)

text \<open>
  Offer a message to the blocked receivers in turn: one that cannot take it is woken with
  an error and the next is tried. The result says whether the message was taken, which
  receivers are left and which threads were made runnable.
\<close>

fun offer_kmsg ::
  "(thread_id \<Rightarrow> ipc_kmsg \<Rightarrow> bool \<times> ith_state) \<Rightarrow> ipc_kmsg \<Rightarrow> natural_t \<Rightarrow> thread_id list \<Rightarrow>
     bool \<times> thread_id list \<times> thread_go list" where
  "offer_kmsg check kmsg seqno [] = (False, [], [])"
| "offer_kmsg check kmsg seqno (th # ths) =
     (case check th kmsg of
        (True, st) \<Rightarrow> (True, ths, [\<lparr>tg_thread = th, tg_state = st, tg_kmsg = Some (kmsg, seqno)\<rparr>])
      | (False, st) \<Rightarrow>
          (let (taken, left, gos) = offer_kmsg check kmsg seqno ths
           in (taken, left, \<lparr>tg_thread = th, tg_state = st, tg_kmsg = None\<rparr> # gos)))"

text \<open>
  The loop of \<^verbatim>\<open>ipc_mqueue_move\<close> over the messages of the source queue: those not sent to
  \<open>port\<close> stay, the others are offered to the receivers of the destination or queued there.
\<close>

fun move_loop ::
  "(thread_id \<Rightarrow> ipc_kmsg \<Rightarrow> bool \<times> ith_state) \<Rightarrow> port_id \<Rightarrow> ipc_kmsg list \<Rightarrow>
     ipc_kmsg list \<Rightarrow> thread_id list \<Rightarrow> natural_t \<Rightarrow>
     ipc_kmsg list \<times> ipc_kmsg list \<times> thread_id list \<times> natural_t \<times> thread_go list" where
  "move_loop check port [] newq ths seqno = ([], newq, ths, seqno, [])"
| "move_loop check port (kmsg # oldq) newq ths seqno =
     (if ikm_remote kmsg \<noteq> IO_PORT port then
        (let (kept, rest) = move_loop check port oldq newq ths seqno in (kmsg # kept, rest))
      else
        (let (taken, ths, gos) = offer_kmsg check kmsg seqno ths;
             (kept, newq, ths, seqno, gos') =
               (if taken then move_loop check port oldq newq ths (seqno + 1)
                else move_loop check port oldq (newq @ [kmsg]) ths seqno)
         in (kept, newq, ths, seqno, gos @ gos')))"

definition ipc_mqueue_move :: "mqueue \<Rightarrow> mqueue \<Rightarrow> port_id \<Rightarrow> ipc_kernel \<Rightarrow> ipc_kernel" where
  "ipc_mqueue_move dest source port K =
     (let (kept, newq, ths, seqno, gos) =
        move_loop (k_rcv_check K) port (imq_messages K source) (imq_messages K dest)
          (imq_threads K dest) (ip_seqno (k_ports K port))
      in (threads_go gos \<circ> upd_port port (ip_seqno_update (\<lambda>_. seqno)) \<circ>
          set_imq_threads dest ths \<circ> set_imq_messages dest newq \<circ>
          set_imq_messages source kept) K)"

definition ipc_mqueue_changed :: "mqueue \<Rightarrow> ith_state \<Rightarrow> ipc_kernel \<Rightarrow> ipc_kernel" where
  "ipc_mqueue_changed mqueue mr K =
     (threads_go (map (\<lambda>th. \<lparr>tg_thread = th, tg_state = mr, tg_kmsg = None\<rparr>) (imq_threads K mqueue)) \<circ>
      set_imq_threads mqueue []) K"

section \<open>Sending a message\<close>

text \<open>
  The outcome of \<^verbatim>\<open>ipc_mqueue_send\<close> up to the point where the thread blocks: a blocked
  sender has put itself on \<^verbatim>\<open>ip_blocked\<close> and, once woken, runs the loop again.
\<close>

datatype mach_msg_return = SEND_SUCCESS | SEND_TIMED_OUT | SEND_BLOCKED

definition mqueue_deliver :: "ipc_kmsg \<Rightarrow> port_id \<Rightarrow> ipc_kernel \<Rightarrow> ipc_kernel" where
  "mqueue_deliver kmsg port K =
     (let K = upd_port port (ip_msgcount_update (\<lambda>n. n + 1)) K;
          mqueue = (case ip_pset (k_ports K port) of None \<Rightarrow> MQ_PORT port | Some s \<Rightarrow> MQ_PSET s);
          seqno = ip_seqno (k_ports K port);
          (taken, ths, gos) = offer_kmsg (k_rcv_check K) kmsg seqno (imq_threads K mqueue);
          K = (threads_go gos \<circ> set_imq_threads mqueue ths) K
      in if taken then upd_port port (ip_seqno_update (\<lambda>_. seqno + 1)) K
         else set_imq_messages mqueue (imq_messages K mqueue @ [kmsg]) K)"

definition ipc_mqueue_send ::
  "ipc_kmsg \<Rightarrow> bool \<Rightarrow> natural_t option \<Rightarrow> thread_id \<Rightarrow> ipc_kernel \<Rightarrow> mach_msg_return \<times> ipc_kernel" where
  "ipc_mqueue_send kmsg always timeout self K =
     (case ikm_remote kmsg of
        IO_PORT port \<Rightarrow>
          if ip_data (k_ports K port) = Ip_Receiver (k_kernel_space K) then
            (SEND_SUCCESS, K\<lparr>k_kobject_msgs := k_kobject_msgs K @ [kmsg]\<rparr>)
          else if \<not> ip_active (k_ports K port) then
            (SEND_SUCCESS, ipc_kmsg_destroy (kmsg\<lparr>ikm_remote := IO_NULL\<rparr>) (ip_release port K))
          else if \<not> (ip_msgcount (k_ports K port) < ip_qlimit (k_ports K port) \<or> always \<or>
                     ikm_remote_right kmsg = MACH_MSG_TYPE_PORT_SEND_ONCE) then
            (if timeout = Some 0 then (SEND_TIMED_OUT, K)
             else (SEND_BLOCKED, upd_port port (ip_blocked_update (\<lambda>q. q @ [self])) K))
          else if ikm_circular kmsg then (SEND_SUCCESS, ipc_kmsg_destroy kmsg K)
          else (SEND_SUCCESS, mqueue_deliver kmsg port K)
      | _ \<Rightarrow> (SEND_SUCCESS, K))"

definition ipc_mqueue_send_always :: "ipc_kmsg \<Rightarrow> ipc_kernel \<Rightarrow> ipc_kernel" where
  "ipc_mqueue_send_always kmsg K = snd (ipc_mqueue_send kmsg True None 0 K)"

section \<open>Port sets\<close>

definition ipc_pset_add :: "pset_id \<Rightarrow> port_id \<Rightarrow> ipc_kernel \<Rightarrow> ipc_kernel" where
  "ipc_pset_add pset port =
     ipc_mqueue_changed (MQ_PORT port) MACH_RCV_PORT_CHANGED \<circ>
     ipc_mqueue_move (MQ_PSET pset) (MQ_PORT port) port \<circ>
     ips_reference pset \<circ>
     upd_port port (ip_pset_update (\<lambda>_. Some pset))"

definition ipc_pset_remove :: "pset_id \<Rightarrow> port_id \<Rightarrow> ipc_kernel \<Rightarrow> ipc_kernel" where
  "ipc_pset_remove pset port =
     ipc_mqueue_move (MQ_PORT port) (MQ_PSET pset) port \<circ>
     ips_release pset \<circ>
     upd_port port (ip_pset_update (\<lambda>_. None))"

definition ipc_pset_move :: "port_id \<Rightarrow> pset_id option \<Rightarrow> ipc_kernel \<Rightarrow> kern_return_t \<times> ipc_kernel" where
  "ipc_pset_move port nset K =
     (let oset = ip_pset (k_ports K port)
      in if oset = nset then (if nset = None \<and> oset = None then KERN_NOT_IN_SET else KERN_SUCCESS, K)
         else
           (case (oset, nset) of
              (None, Some ns) \<Rightarrow> (KERN_SUCCESS, ipc_pset_add ns port K)
            | (Some os, None) \<Rightarrow>
                (let K = ipc_pset_remove os port K
                 in (if ips_active (k_psets K os) then KERN_SUCCESS else KERN_NOT_IN_SET, K))
            | (Some os, Some ns) \<Rightarrow> (KERN_SUCCESS, ipc_pset_add ns port (ipc_pset_remove os port K))
            | (None, None) \<Rightarrow> (KERN_NOT_IN_SET, K)))"

definition ipc_pset_destroy :: "pset_id \<Rightarrow> ipc_kernel \<Rightarrow> ipc_kernel" where
  "ipc_pset_destroy pset =
     ips_release pset \<circ>
     ipc_mqueue_changed (MQ_PSET pset) MACH_RCV_PORT_DIED \<circ>
     upd_pset pset (ips_active_update (\<lambda>_. False))"

section \<open>Notifications and naked rights\<close>

definition notify_kmsg ::
  "port_id \<Rightarrow> msg_right \<Rightarrow> msg_id \<Rightarrow> (ipc_object \<times> msg_right) list \<Rightarrow> ipc_kmsg" where
  "notify_kmsg port right mid rights =
     \<lparr>ikm_remote = IO_PORT port, ikm_remote_right = right, ikm_rights = rights,
      ikm_id = mid, ikm_circular = False\<rparr>"

definition ipc_port_make_send :: "port_id \<Rightarrow> ipc_kernel \<Rightarrow> ipc_kernel" where
  "ipc_port_make_send port =
     ip_reference port \<circ>
     upd_port port (ip_srights_update (\<lambda>n. n + 1)) \<circ>
     upd_port port (ip_mscount_update (\<lambda>n. n + 1))"

definition ipc_port_copy_send :: "ipc_object \<Rightarrow> ipc_kernel \<Rightarrow> ipc_object \<times> ipc_kernel" where
  "ipc_port_copy_send object K =
     (case object of
        IO_PORT port \<Rightarrow>
          (if ip_active (k_ports K port)
           then (IO_PORT port, upd_port port (ip_srights_update (\<lambda>n. n + 1)) (ip_reference port K))
           else (IO_DEAD, K))
      | _ \<Rightarrow> (object, K))"

definition ipc_port_make_sonce :: "port_id \<Rightarrow> ipc_kernel \<Rightarrow> ipc_kernel" where
  "ipc_port_make_sonce port =
     ip_reference port \<circ> upd_port port (ip_sorights_update (\<lambda>n. n + 1))"

definition ipc_port_release_sonce :: "port_id \<Rightarrow> ipc_kernel \<Rightarrow> ipc_kernel" where
  "ipc_port_release_sonce port K =
     (let K = ip_release port K
      in if \<not> ip_active (k_ports K port) then K
         else upd_port port (ip_sorights_update (\<lambda>n. n - 1)) K)"

definition ipc_notify_no_senders :: "port_id \<Rightarrow> natural_t \<Rightarrow> ipc_kernel \<Rightarrow> ipc_kernel" where
  "ipc_notify_no_senders port mscount K =
     (if k_nomem K then ipc_port_release_sonce port K
      else ipc_mqueue_send_always
             (notify_kmsg port MACH_MSG_TYPE_PORT_SEND_ONCE (MACH_NOTIFY_NO_SENDERS mscount) []) K)"

definition ipc_notify_send_once :: "port_id \<Rightarrow> ipc_kernel \<Rightarrow> ipc_kernel" where
  "ipc_notify_send_once port K =
     (if k_nomem K then ipc_port_release_sonce port K
      else ipc_mqueue_send_always
             (notify_kmsg port MACH_MSG_TYPE_PORT_SEND_ONCE MACH_NOTIFY_SEND_ONCE []) K)"

definition ipc_notify_dead_name :: "port_id \<Rightarrow> mach_port_t \<Rightarrow> ipc_kernel \<Rightarrow> ipc_kernel" where
  "ipc_notify_dead_name port name K =
     (if k_nomem K then ipc_port_release_sonce port K
      else ipc_mqueue_send_always
             (notify_kmsg port MACH_MSG_TYPE_PORT_SEND_ONCE (MACH_NOTIFY_DEAD_NAME name) []) K)"

definition ipc_notify_port_deleted :: "port_id \<Rightarrow> mach_port_t \<Rightarrow> ipc_kernel \<Rightarrow> ipc_kernel" where
  "ipc_notify_port_deleted port name K =
     (if k_nomem K then ipc_port_release_sonce port K
      else ipc_mqueue_send_always
             (notify_kmsg port MACH_MSG_TYPE_PORT_SEND_ONCE (MACH_NOTIFY_PORT_DELETED name) []) K)"

text \<open>
  What happens when a send right goes away, in \<^verbatim>\<open>ipc_port_release_send\<close> and in every routine of
  \<^verbatim>\<open>ipc_right.c\<close> that gives one up: the count drops and, when it reaches zero, the no-senders
  request is taken, to be sent with the make-send count once the locks are dropped.
\<close>

definition drop_sright :: "port_id \<Rightarrow> ipc_kernel \<Rightarrow> (port_id \<times> natural_t) option \<times> ipc_kernel" where
  "drop_sright port K =
     (let K = upd_port port (ip_srights_update (\<lambda>n. n - 1)) K
      in if ip_srights (k_ports K port) = 0 then
           (case ip_nsrequest (k_ports K port) of
              None \<Rightarrow> (None, K)
            | Some nsrequest \<Rightarrow>
                (Some (nsrequest, ip_mscount (k_ports K port)),
                 upd_port port (ip_nsrequest_update (\<lambda>_. None)) K))
         else (None, K))"

definition send_no_senders :: "(port_id \<times> natural_t) option \<Rightarrow> ipc_kernel \<Rightarrow> ipc_kernel" where
  "send_no_senders ns K =
     (case ns of None \<Rightarrow> K | Some (nsrequest, mscount) \<Rightarrow> ipc_notify_no_senders nsrequest mscount K)"

definition ipc_port_release_send :: "port_id \<Rightarrow> ipc_kernel \<Rightarrow> ipc_kernel" where
  "ipc_port_release_send port K =
     (let K = ip_release port K
      in if \<not> ip_active (k_ports K port) then K
         else (let (ns, K) = drop_sright port K in send_no_senders ns K))"

definition ipc_notify_port_deleted_compat :: "port_id \<Rightarrow> mach_port_t \<Rightarrow> ipc_kernel \<Rightarrow> ipc_kernel" where
  "ipc_notify_port_deleted_compat port name K =
     (if k_nomem K then ipc_port_release_send port K
      else ipc_mqueue_send_always
             (notify_kmsg port MACH_MSG_TYPE_PORT_SEND (MACH_NOTIFY_PORT_DELETED_COMPAT name) []) K)"

definition ipc_notify_msg_accepted_compat :: "port_id \<Rightarrow> mach_port_t \<Rightarrow> ipc_kernel \<Rightarrow> ipc_kernel" where
  "ipc_notify_msg_accepted_compat port name K =
     (if k_nomem K then ipc_port_release_send port K
      else ipc_mqueue_send_always
             (notify_kmsg port MACH_MSG_TYPE_PORT_SEND (MACH_NOTIFY_MSG_ACCEPTED_COMPAT name) []) K)"

definition ipc_space_make_notify :: "space_id \<Rightarrow> ipc_kernel \<Rightarrow> ipc_object \<times> ipc_kernel" where
  "ipc_space_make_notify space K = ipc_port_copy_send (is_notify (k_spaces K space)) K"

section \<open>Dead-name requests\<close>

text \<open>
  \<^verbatim>\<open>its->its_size\<close> for the size index \<open>its\<close> into \<^verbatim>\<open>ipc_table_dnrequests\<close>, whose last element is
  a zero terminator; \<open>its_search\<close> is the loop that looks for a size of at least \<open>target\<close>.
\<close>

definition its_size :: "nat list \<Rightarrow> nat \<Rightarrow> nat" where
  "its_size sizes its = (if its < length sizes then sizes ! its else 0)"

definition its_search :: "nat list \<Rightarrow> nat \<Rightarrow> nat \<Rightarrow> nat" where
  "its_search sizes target its =
     its + length (takeWhile (\<lambda>size. size \<noteq> 0 \<and> size < target) (drop its sizes))"

definition free_slot :: "nat \<Rightarrow> ipc_port_request" where
  "free_slot next_free = \<lparr>ipr_name = MACH_PORT_NULL, ipr_notify = Ipr_Next next_free\<rparr>"

definition dn_alloc ::
  "dnrequest_table \<Rightarrow> ipc_port_request \<Rightarrow> (nat \<times> dnrequest_table) option" where
  "dn_alloc table request =
     (let index = dn_next table; ipr = dn_slots table ! index
      in if index = 0 then None
         else Some (index, table\<lparr>dn_next := (case ipr_notify ipr of Ipr_Next n \<Rightarrow> n | _ \<Rightarrow> 0),
                                 dn_slots := (dn_slots table)[index := request]\<rparr>))"

definition ipc_port_dnrequest ::
  "port_id \<Rightarrow> mach_port_t \<Rightarrow> ipr_notify \<Rightarrow> ipc_kernel \<Rightarrow> kern_return_t + (nat \<times> ipc_kernel)" where
  "ipc_port_dnrequest port name soright K =
     (case ip_dnrequests (k_ports K port) of
        None \<Rightarrow> Inl KERN_NO_SPACE
      | Some table \<Rightarrow>
          (case dn_alloc table \<lparr>ipr_name = name, ipr_notify = soright\<rparr> of
             None \<Rightarrow> Inl KERN_NO_SPACE
           | Some (index, table') \<Rightarrow>
               Inr (index, upd_port port (ip_dnrequests_update (\<lambda>_. Some table')) K)))"

text \<open>The loop of \<^verbatim>\<open>ipc_port_dngrow\<close> that links the new slots, in order, onto the free list.\<close>

fun link_free :: "nat list \<Rightarrow> nat \<Rightarrow> ipc_port_request list \<times> nat" where
  "link_free [] free = ([], free)"
| "link_free (i # is) free = (let (slots, free') = link_free is i in (free_slot free # slots, free'))"

text \<open>
  \<^verbatim>\<open>ipc_port_dngrow\<close>; \<open>tsize = None\<close> is \<^verbatim>\<open>ITS_SIZE_NONE\<close>. The port stays locked or is
  not touched by others between the allocation and the second check, so that check only
  depends on the size chosen.
\<close>

definition dn_grow_table :: "nat list \<Rightarrow> dnrequest_table option \<Rightarrow> nat \<Rightarrow> dnrequest_table" where
  "dn_grow_table sizes otable its =
     (let osize = (case otable of None \<Rightarrow> 1 | Some t \<Rightarrow> its_size sizes (dn_size t));
          free = (case otable of None \<Rightarrow> 0 | Some t \<Rightarrow> dn_next t);
          old = (case otable of None \<Rightarrow> [free_slot 0] | Some t \<Rightarrow> take osize (dn_slots t));
          (new, free) = link_free [osize..<its_size sizes its] free
      in \<lparr>dn_next = free, dn_size = its, dn_slots = old @ new\<rparr>)"

definition ipc_port_dngrow ::
  "port_id \<Rightarrow> nat option \<Rightarrow> ipc_kernel \<Rightarrow> kern_return_t \<times> ipc_kernel" where
  "ipc_port_dngrow port tsize K =
     (let sizes = k_dn_sizes K;
          otable = ip_dnrequests (k_ports K port);
          its = (case otable of None \<Rightarrow> 0 | Some t \<Rightarrow> dn_size t + 1);
          enough = (case (otable, tsize) of
                      (Some t, Some target) \<Rightarrow> target \<le> its_size sizes (dn_size t) | _ \<Rightarrow> False);
          its = (case tsize of None \<Rightarrow> its | Some target \<Rightarrow> its_search sizes target its)
      in if enough then (KERN_SUCCESS, K)
         else if tsize \<noteq> None \<and> its_size sizes its = 0 then (KERN_NO_SPACE, K)
         else if its_size sizes its = 0 \<or> k_nomem K then (KERN_RESOURCE_SHORTAGE, K)
         else if ip_active (k_ports K port) \<and>
                 (case otable of None \<Rightarrow> True | Some t \<Rightarrow> dn_size t + 1 = its) then
           (KERN_SUCCESS,
            upd_port port (ip_dnrequests_update (\<lambda>_. Some (dn_grow_table sizes otable its))) K)
         else (KERN_SUCCESS, K))"

text \<open>\<open>None\<close>: no table, or a slot outside of it.\<close>

definition dn_cancel :: "dnrequest_table \<Rightarrow> nat \<Rightarrow> (ipr_notify \<times> dnrequest_table) option" where
  "dn_cancel table index =
     (if length (dn_slots table) \<le> index then None
      else Some (ipr_notify (dn_slots table ! index),
                 table\<lparr>dn_slots := (dn_slots table)[index := free_slot (dn_next table)],
                       dn_next := index\<rparr>))"

definition ipc_port_dncancel ::
  "port_id \<Rightarrow> mach_port_t \<Rightarrow> nat \<Rightarrow> ipc_kernel \<Rightarrow> (ipr_notify \<times> ipc_kernel) option" where
  "ipc_port_dncancel port name index K =
     do {
       table \<leftarrow> ip_dnrequests (k_ports K port);
       (dnrequest, table) \<leftarrow> dn_cancel table index;
       Some (dnrequest, upd_port port (ip_dnrequests_update (\<lambda>_. Some table)) K)
     }"

definition ipc_port_dnrename ::
  "port_id \<Rightarrow> nat \<Rightarrow> mach_port_t \<Rightarrow> ipc_kernel \<Rightarrow> ipc_kernel option" where
  "ipc_port_dnrename port index nname K =
     (case ip_dnrequests (k_ports K port) of
        None \<Rightarrow> None
      | Some table \<Rightarrow>
          if length (dn_slots table) \<le> index then None
          else
            (let slots = (dn_slots table)[index := (dn_slots table ! index)\<lparr>ipr_name := nname\<rparr>]
             in Some (upd_port port (ip_dnrequests_update (\<lambda>_. Some (table\<lparr>dn_slots := slots\<rparr>))) K)))"

section \<open>Other port operations\<close>

definition ipc_port_pdrequest :: "port_id \<Rightarrow> pdrequest \<Rightarrow> ipc_kernel \<Rightarrow> pdrequest \<times> ipc_kernel" where
  "ipc_port_pdrequest port notify K =
     (ip_pdrequest (k_ports K port), upd_port port (ip_pdrequest_update (\<lambda>_. notify)) K)"

definition ipc_port_nsrequest ::
  "port_id \<Rightarrow> natural_t \<Rightarrow> port_id option \<Rightarrow> ipc_kernel \<Rightarrow> port_id option \<times> ipc_kernel" where
  "ipc_port_nsrequest port sync notify K =
     (let previous = ip_nsrequest (k_ports K port);
          mscount = ip_mscount (k_ports K port)
      in (previous,
          if ip_srights (k_ports K port) = 0 \<and> sync \<le> mscount \<and> notify \<noteq> None
          then ipc_notify_no_senders (the notify) mscount
                 (upd_port port (ip_nsrequest_update (\<lambda>_. None)) K)
          else upd_port port (ip_nsrequest_update (\<lambda>_. notify)) K))"

definition wake_senders :: "thread_id list \<Rightarrow> thread_go list" where
  "wake_senders = map (\<lambda>th. \<lparr>tg_thread = th, tg_state = MACH_MSG_SUCCESS, tg_kmsg = None\<rparr>)"

definition ipc_port_set_qlimit :: "port_id \<Rightarrow> nat \<Rightarrow> ipc_kernel \<Rightarrow> ipc_kernel" where
  "ipc_port_set_qlimit port qlimit K =
     (let old = ip_qlimit (k_ports K port);
          blocked = ip_blocked (k_ports K port);
          wakeup = (if qlimit > old then qlimit - old else 0)
      in (upd_port port (ip_qlimit_update (\<lambda>_. qlimit)) \<circ>
          threads_go (wake_senders (take wakeup blocked)) \<circ>
          upd_port port (ip_blocked_update (drop wakeup))) K)"

definition ipc_port_set_seqno :: "port_id \<Rightarrow> natural_t \<Rightarrow> ipc_kernel \<Rightarrow> ipc_kernel" where
  "ipc_port_set_seqno port seqno K =
     (let K = (case ip_pset (k_ports K port) of
                 None \<Rightarrow> K
               | Some pset \<Rightarrow> if \<not> ips_active (k_psets K pset) then ipc_pset_remove pset port K else K)
      in upd_port port (ip_seqno_update (\<lambda>_. seqno)) K)"

definition ipc_port_clear_receiver :: "port_id \<Rightarrow> ipc_kernel \<Rightarrow> ipc_kernel" where
  "ipc_port_clear_receiver port K =
     (let K = (case ip_pset (k_ports K port) of
                 Some pset \<Rightarrow> ipc_pset_remove pset port K
               | None \<Rightarrow> ipc_mqueue_changed (MQ_PORT port) MACH_RCV_PORT_DIED K)
      in (upd_port port (ip_seqno_update (\<lambda>_. 0)) \<circ>
          upd_port port (ip_mscount_update (\<lambda>_. 0))) K)"

definition MACH_PORT_QLIMIT_DEFAULT :: nat where
  "MACH_PORT_QLIMIT_DEFAULT = 5"

definition ipc_port_init :: "port_id \<Rightarrow> space_id \<Rightarrow> mach_port_t \<Rightarrow> ipc_kernel \<Rightarrow> ipc_kernel" where
  "ipc_port_init port space name =
     upd_port port (\<lambda>p. p\<lparr>
       ip_data := Ip_Receiver space, ip_receiver_name := name,
       ip_mscount := 0, ip_srights := 0, ip_sorights := 0,
       ip_nsrequest := None, ip_pdrequest := PD_NULL, ip_dnrequests := None,
       ip_pset := None, ip_seqno := 0, ip_msgcount := 0, ip_qlimit := MACH_PORT_QLIMIT_DEFAULT,
       ip_messages := [], ip_receivers := [], ip_blocked := []\<rparr>)"

text \<open>\<^verbatim>\<open>io_alloc\<close> gives an unused port, or none when memory is short.\<close>

definition ipc_port_alloc_special ::
  "port_id option \<Rightarrow> space_id \<Rightarrow> ipc_kernel \<Rightarrow> port_id option \<times> ipc_kernel" where
  "ipc_port_alloc_special io_alloc space K =
     (case io_alloc of
        None \<Rightarrow> (None, K)
      | Some port \<Rightarrow>
          (Some port,
           (ipc_port_init port space 1 \<circ>
            upd_port port (\<lambda>p. p\<lparr>ip_references := 1, ip_active := True, ip_kotype := 0\<rparr>)) K))"

definition ipc_port_lookup_notify ::
  "space_id \<Rightarrow> mach_port_t \<Rightarrow> ipc_kernel \<Rightarrow> port_id option \<times> ipc_kernel" where
  "ipc_port_lookup_notify space name K =
     (case entries K space name of
        None \<Rightarrow> (None, K)
      | Some entry \<Rightarrow>
          if \<not> test (ie_bits entry) MACH_PORT_TYPE_RECEIVE then (None, K)
          else
            (case ie_object entry of
               IO_PORT port \<Rightarrow>
                 (Some port, upd_port port (ip_sorights_update (\<lambda>n. n + 1)) (ip_reference port K))
             | _ \<Rightarrow> (None, K)))"

definition ipc_port_copyout_receiver ::
  "ipc_object \<Rightarrow> space_id \<Rightarrow> ipc_kernel \<Rightarrow> mach_port_t \<times> ipc_kernel" where
  "ipc_port_copyout_receiver object space K =
     (case object of
        IO_PORT port \<Rightarrow>
          (if ip_data (k_ports K port) = Ip_Receiver space then ip_receiver_name (k_ports K port)
           else MACH_PORT_NULL,
           ip_release port K)
      | _ \<Rightarrow> (MACH_PORT_NULL, K))"

section \<open>Circularity\<close>

definition ip_destination :: "ipc_port \<Rightarrow> port_id option" where
  "ip_destination port = (case ip_data port of Ip_Destination d \<Rightarrow> d | _ \<Rightarrow> None)"

definition in_transit :: "ipc_port \<Rightarrow> bool" where
  "in_transit port \<longleftrightarrow>
     ip_active port \<and> ip_receiver_name port = MACH_PORT_NULL \<and> ip_destination port \<noteq> None"

text \<open>The \<^verbatim>\<open>for (;;)\<close> loop: the end of the chain of ports in transit that starts at \<open>base\<close>.\<close>

partial_function (option) chain_end :: "(port_id \<Rightarrow> ipc_port) \<Rightarrow> port_id \<Rightarrow> port_id option" where
  "chain_end ports base =
     (if \<not> in_transit (ports base) then Some base
      else chain_end ports (the (ip_destination (ports base))))"

declare chain_end.simps [code]

definition ipc_port_check_circularity ::
  "port_id \<Rightarrow> port_id \<Rightarrow> ipc_kernel \<Rightarrow> (bool \<times> ipc_kernel) option" where
  "ipc_port_check_circularity port dest K =
     (let transit = upd_port port (ip_data_update (\<lambda>_. Ip_Destination (Some dest))) (ip_reference dest K)
      in if port = dest then Some (True, K)
         else if \<not> in_transit (k_ports K dest) then Some (False, transit)
         else do {
           base \<leftarrow> chain_end (k_ports K) dest;
           Some (if port = base then (True, K) else (False, transit))
         })"

section \<open>Msg-accepted requests and the reverse hash\<close>

definition IMAR_HASH :: "natural_t \<Rightarrow> space_id \<Rightarrow> mach_port_t \<Rightarrow> natural_t" where
  "IMAR_HASH imask space name =
     (drop_bit 4 (of_nat space) + MACH_PORT_INDEX name + MACH_PORT_NGEN name) AND imask"

text \<open>The walk along a bucket's chain: the first request for the name, if there is one.\<close>

definition imar_find :: "space_id \<Rightarrow> mach_port_t \<Rightarrow> ipc_kernel \<Rightarrow> imar_id option" where
  "imar_find space name K =
     List.find (\<lambda>m. imar_space (k_imar K m) = space \<and> imar_name (k_imar K m) = name)
       (k_imarb K (IMAR_HASH (k_imar_mask K) space name))"

definition imar_unlink :: "space_id \<Rightarrow> mach_port_t \<Rightarrow> imar_id \<Rightarrow> ipc_kernel \<Rightarrow> ipc_kernel" where
  "imar_unlink space name marequest K =
     (let h = IMAR_HASH (k_imar_mask K) space name
      in K\<lparr>k_imarb := (k_imarb K)(h := remove1 marequest (k_imarb K h))\<rparr>)"

definition imar_link :: "space_id \<Rightarrow> mach_port_t \<Rightarrow> imar_id \<Rightarrow> ipc_kernel \<Rightarrow> ipc_kernel" where
  "imar_link space name marequest K =
     (let h = IMAR_HASH (k_imar_mask K) space name
      in K\<lparr>k_imarb := (k_imarb K)(h := marequest # k_imarb K h)\<rparr>)"

definition upd_imar :: "imar_id \<Rightarrow> (ipc_marequest \<Rightarrow> ipc_marequest) \<Rightarrow> ipc_kernel \<Rightarrow> ipc_kernel" where
  "upd_imar m f K = K\<lparr>k_imar := (k_imar K)(m := f (k_imar K m))\<rparr>"

text \<open>\<open>None\<close>: no such request, where the C code follows a null pointer.\<close>

definition ipc_marequest_cancel :: "space_id \<Rightarrow> mach_port_t \<Rightarrow> ipc_kernel \<Rightarrow> ipc_kernel option" where
  "ipc_marequest_cancel space name K =
     do {
       marequest \<leftarrow> imar_find space name K;
       Some (upd_imar marequest (imar_name_update (\<lambda>_. MACH_PORT_NULL))
               (imar_unlink space name marequest K))
     }"

definition ipc_marequest_rename ::
  "space_id \<Rightarrow> mach_port_t \<Rightarrow> mach_port_t \<Rightarrow> ipc_kernel \<Rightarrow> ipc_kernel option" where
  "ipc_marequest_rename space old new K =
     do {
       marequest \<leftarrow> imar_find space old K;
       Some (imar_link space new marequest
               (upd_imar marequest (imar_name_update (\<lambda>_. new))
                  (imar_unlink space old marequest K)))
     }"

text \<open>
  \<^verbatim>\<open>ipc_hash_insert\<close>, \<^verbatim>\<open>_delete\<close> and \<^verbatim>\<open>_lookup\<close> as a map from a space and a port to the name of
  its send right there.
\<close>

definition ipc_hash_insert :: "space_id \<Rightarrow> port_id \<Rightarrow> mach_port_t \<Rightarrow> ipc_kernel \<Rightarrow> ipc_kernel" where
  "ipc_hash_insert space port name K =
     K\<lparr>k_hash := (k_hash K)(space := (k_hash K space)(port := Some name))\<rparr>"

definition ipc_hash_delete :: "space_id \<Rightarrow> port_id \<Rightarrow> mach_port_t \<Rightarrow> ipc_kernel \<Rightarrow> ipc_kernel" where
  "ipc_hash_delete space port name K =
     K\<lparr>k_hash := (k_hash K)(space := (k_hash K space)(port := None))\<rparr>"

section \<open>Destruction of a port\<close>

text \<open>
  The cases of \<^verbatim>\<open>ipc_right_destroy\<close> for a port right whose port is dead. It stands here
  because \<^verbatim>\<open>ipc_port_delete_compat\<close> needs it, and uses no other part of \<^verbatim>\<open>ipc_right_destroy\<close>.
\<close>

definition ipc_right_destroy_dead ::
  "space_id \<Rightarrow> mach_port_t \<Rightarrow> ipc_entry \<Rightarrow> port_id \<Rightarrow> ipc_kernel \<Rightarrow> (kern_return_t \<times> ipc_kernel) option" where
  "ipc_right_destroy_dead space name entry port K =
     do {
       K \<leftarrow> (if test (ie_bits entry) IE_BITS_MAREQUEST then ipc_marequest_cancel space name K else Some K);
       let K = (if IE_BITS_TYPE (ie_bits entry) = MACH_PORT_TYPE_SEND
                then ipc_hash_delete space port name K else K);
       let K = entry_dealloc space name (ip_release port K);
       Some (if test (ie_bits entry) IE_BITS_COMPAT then KERN_INVALID_NAME else KERN_SUCCESS, K)
     }"

definition ipc_port_delete_compat ::
  "port_id \<Rightarrow> space_id \<Rightarrow> mach_port_t \<Rightarrow> ipc_kernel \<Rightarrow> ipc_kernel option" where
  "ipc_port_delete_compat port space name K =
     do {
       K \<leftarrow> (if \<not> is_active (k_spaces K space) then Some K
             else
               (case entries K space name of
                  None \<Rightarrow> Some K
                | Some entry \<Rightarrow>
                    if ie_object entry = IO_PORT port then
                      do {
                        let (sright, K) = ipc_space_make_notify space K;
                        (kr, K) \<leftarrow> ipc_right_destroy_dead space name entry port K;
                        Some (case sright of
                                IO_PORT q \<Rightarrow> ipc_notify_port_deleted_compat q name K
                              | _ \<Rightarrow> K)
                      }
                    else Some K));
       Some (is_release space K)
     }"

text \<open>The loop over the dead-name requests of a dying port.\<close>

fun dead_name_loop :: "port_id \<Rightarrow> ipc_port_request list \<Rightarrow> ipc_kernel \<Rightarrow> ipc_kernel option" where
  "dead_name_loop port [] K = Some K"
| "dead_name_loop port (ipr # iprs) K =
     (if ipr_name ipr = MACH_PORT_NULL then dead_name_loop port iprs K
      else
        (case ipr_notify ipr of
           Ipr_Space space \<Rightarrow>
             do { K \<leftarrow> ipc_port_delete_compat port space (ipr_name ipr) K; dead_name_loop port iprs K }
         | Ipr_Soright soright \<Rightarrow>
             dead_name_loop port iprs (ipc_notify_dead_name soright (ipr_name ipr) K)
         | Ipr_Next _ \<Rightarrow> None))"

text \<open>The loop that destroys the queued messages of a dying port.\<close>

fun kmsg_destroy_loop :: "port_id \<Rightarrow> ipc_kmsg list \<Rightarrow> ipc_kernel \<Rightarrow> ipc_kernel" where
  "kmsg_destroy_loop port [] K = K"
| "kmsg_destroy_loop port (kmsg # kmsgs) K =
     kmsg_destroy_loop port kmsgs
       (ipc_kmsg_destroy (kmsg\<lparr>ikm_remote := IO_NULL\<rparr>) (ip_release port K))"

text \<open>\<^verbatim>\<open>ipc_port_destroy\<close> from \<^verbatim>\<open>rouse all blocked senders\<close> on: the port really dies.\<close>

definition ipc_port_destroy_tail :: "port_id \<Rightarrow> ipc_kernel \<Rightarrow> ipc_kernel option" where
  "ipc_port_destroy_tail port K =
     do {
       let K = threads_go (wake_senders (ip_blocked (k_ports K port))) K;
       let K = upd_port port (ip_blocked_update (\<lambda>_. [])) K;
       let K = upd_port port (ip_active_update (\<lambda>_. False)) K;
       let (timestamp, K) = ipc_port_timestamp K;
       let K = upd_port port (ip_data_update (\<lambda>_. Ip_Timestamp timestamp)) K;
       let K = (case ip_nsrequest (k_ports K port) of
                  None \<Rightarrow> K | Some nsrequest \<Rightarrow> ipc_notify_send_once nsrequest K);
       let kmsgs = ip_messages (k_ports K port);
       let K = kmsg_destroy_loop port kmsgs (upd_port port (ip_messages_update (\<lambda>_. [])) K);
       K \<leftarrow> (case ip_dnrequests (k_ports K port) of
               None \<Rightarrow> Some K
             | Some table \<Rightarrow>
                 dead_name_loop port
                   (map (nth (dn_slots table)) [1..<its_size (k_dn_sizes K) (dn_size table)]) K);
       let K = (if ip_kotype (k_ports K port) \<noteq> 0
                then K\<lparr>k_kobjects_gone := k_kobjects_gone K @ [port]\<rparr> else K);
       Some (ip_release port K)
     }"

text \<open>
  \<^verbatim>\<open>ipc_port_release_receive\<close> on a right without a backup port, as the notification routines
  below need it: \<^verbatim>\<open>ipc_port_destroy\<close> has just cleared \<^verbatim>\<open>ip_pdrequest\<close> when it calls them.
\<close>

definition release_receive_tail :: "port_id \<Rightarrow> ipc_kernel \<Rightarrow> ipc_kernel option" where
  "release_receive_tail port K =
     do {
       let dest = ip_destination (k_ports K port);
       K \<leftarrow> ipc_port_destroy_tail port K;
       Some (case dest of None \<Rightarrow> K | Some d \<Rightarrow> ip_release d K)
     }"

definition ipc_notify_port_destroyed :: "port_id \<Rightarrow> port_id \<Rightarrow> ipc_kernel \<Rightarrow> ipc_kernel option" where
  "ipc_notify_port_destroyed port right K =
     (if k_nomem K then release_receive_tail right (ipc_port_release_sonce port K)
      else Some (ipc_mqueue_send_always
             (notify_kmsg port MACH_MSG_TYPE_PORT_SEND_ONCE MACH_NOTIFY_PORT_DESTROYED
                [(IO_PORT right, MACH_MSG_TYPE_PORT_RECEIVE)]) K))"

definition ipc_notify_port_destroyed_compat :: "port_id \<Rightarrow> port_id \<Rightarrow> ipc_kernel \<Rightarrow> ipc_kernel option" where
  "ipc_notify_port_destroyed_compat port right K =
     (if k_nomem K then release_receive_tail right (ipc_port_release_send port K)
      else Some (ipc_mqueue_send_always
             (notify_kmsg port MACH_MSG_TYPE_PORT_SEND MACH_NOTIFY_PORT_DESTROYED_COMPAT
                [(IO_PORT right, MACH_MSG_TYPE_PORT_RECEIVE)]) K))"

definition ipc_port_destroy :: "port_id \<Rightarrow> ipc_kernel \<Rightarrow> ipc_kernel option" where
  "ipc_port_destroy port K =
     (let limbo = upd_port port (\<lambda>p. p\<lparr>ip_pdrequest := PD_NULL, ip_receiver_name := MACH_PORT_NULL,
                                        ip_data := Ip_Destination None\<rparr>) K
      in case ip_pdrequest (k_ports K port) of
           PD_NULL \<Rightarrow> ipc_port_destroy_tail port K
         | PD_SEND sright \<Rightarrow>
             do {
               (circular, K) \<leftarrow> ipc_port_check_circularity port sright limbo;
               if \<not> circular then ipc_notify_port_destroyed_compat sright port K
               else ipc_port_destroy_tail port (ipc_port_release_send sright K)
             }
         | PD_SONCE pdrequest \<Rightarrow>
             do {
               (circular, K) \<leftarrow> ipc_port_check_circularity port pdrequest limbo;
               if \<not> circular then ipc_notify_port_destroyed pdrequest port K
               else ipc_port_destroy_tail port (ipc_port_release_sonce pdrequest K)
             })"

definition ipc_port_release_receive :: "port_id \<Rightarrow> ipc_kernel \<Rightarrow> ipc_kernel option" where
  "ipc_port_release_receive port K =
     do {
       let dest = ip_destination (k_ports K port);
       K \<leftarrow> ipc_port_destroy port K;
       Some (case dest of None \<Rightarrow> K | Some d \<Rightarrow> ip_release d K)
     }"

definition ipc_port_dealloc_special :: "port_id \<Rightarrow> ipc_kernel \<Rightarrow> ipc_kernel option" where
  "ipc_port_dealloc_special port K =
     ipc_port_destroy port
       (ipc_port_clear_receiver port
          (upd_port port (\<lambda>p. p\<lparr>ip_receiver_name := MACH_PORT_NULL, ip_data := Ip_Null\<rparr>) K))"

section \<open>What the operations leave alone\<close>

lemma entries_cong: "k_spaces K' = k_spaces K \<Longrightarrow> entries K' = entries K"
  by (simp add: entries_def fun_eq_iff)

lemma k_spaces_upd [simp]:
  "k_spaces (upd_port p f K) = k_spaces K"
  "k_spaces (upd_pset q g K) = k_spaces K"
  "k_spaces (ip_reference p K) = k_spaces K"
  "k_spaces (ip_release p K) = k_spaces K"
  "k_spaces (ips_reference q K) = k_spaces K"
  "k_spaces (ips_release q K) = k_spaces K"
  "k_spaces (ipc_kmsg_destroy m K) = k_spaces K"
  "k_spaces (threads_go gos K) = k_spaces K"
  "k_spaces (upd_imar i h K) = k_spaces K"
  "k_spaces (imar_unlink s n i K) = k_spaces K"
  "k_spaces (imar_link s n i K) = k_spaces K"
  "k_spaces (ipc_hash_insert s p n K) = k_spaces K"
  "k_spaces (ipc_hash_delete s p n K) = k_spaces K"
  by (simp_all add: upd_defs ip_reference_def ip_release_def ips_reference_def ips_release_def
      ipc_kmsg_destroy_def threads_go_def upd_imar_def imar_unlink_def imar_link_def Let_def
      ipc_hash_insert_def ipc_hash_delete_def)

lemma k_spaces_queue [simp]:
  "k_spaces (set_imq_messages q ms K) = k_spaces K"
  "k_spaces (set_imq_threads q ths K) = k_spaces K"
  "k_spaces (ipc_mqueue_move q q' p K) = k_spaces K"
  "k_spaces (ipc_mqueue_changed q mr K) = k_spaces K"
  "k_spaces (mqueue_deliver m p K) = k_spaces K"
proof -
  show 1: "k_spaces (set_imq_messages q ms K) = k_spaces K" for q ms K by (cases q) auto
  show 2: "k_spaces (set_imq_threads q ths K) = k_spaces K" for q ths K by (cases q) auto
  show "k_spaces (ipc_mqueue_move q q' p K) = k_spaces K"
    by (simp add: ipc_mqueue_move_def 1 2 split: prod.split)
  show "k_spaces (ipc_mqueue_changed q mr K) = k_spaces K"
    by (simp add: ipc_mqueue_changed_def 2)
  show "k_spaces (mqueue_deliver m p K) = k_spaces K"
    by (simp add: mqueue_deliver_def Let_def 1 2 split: prod.split)
qed

lemma k_spaces_send [simp]: "k_spaces (ipc_mqueue_send_always m K) = k_spaces K"
  by (simp add: ipc_mqueue_send_always_def ipc_mqueue_send_def split: ipc_object.split)

lemma k_spaces_notify [simp]:
  "k_spaces (ipc_port_release_sonce p K) = k_spaces K"
  "k_spaces (ipc_notify_no_senders p c K) = k_spaces K"
  "k_spaces (ipc_notify_send_once p K) = k_spaces K"
  "k_spaces (ipc_notify_dead_name p n K) = k_spaces K"
  "k_spaces (ipc_notify_port_deleted p n K) = k_spaces K"
  "k_spaces (snd (drop_sright p K)) = k_spaces K"
  "k_spaces (send_no_senders ns K) = k_spaces K"
  "k_spaces (ipc_port_release_send p K) = k_spaces K"
  "k_spaces (ipc_notify_port_deleted_compat p n K) = k_spaces K"
  "k_spaces (snd (ipc_port_copy_send obj K)) = k_spaces K"
  "k_spaces (snd (ipc_space_make_notify s K)) = k_spaces K"
proof -
  show 1: "k_spaces (ipc_port_release_sonce p K) = k_spaces K" for p K
    by (simp add: ipc_port_release_sonce_def Let_def)
  show 2: "k_spaces (ipc_notify_no_senders p c K) = k_spaces K" for p c K
    by (simp add: ipc_notify_no_senders_def 1)
  show "k_spaces (ipc_notify_send_once p K) = k_spaces K" by (simp add: ipc_notify_send_once_def 1)
  show "k_spaces (ipc_notify_dead_name p n K) = k_spaces K" by (simp add: ipc_notify_dead_name_def 1)
  show "k_spaces (ipc_notify_port_deleted p n K) = k_spaces K"
    by (simp add: ipc_notify_port_deleted_def 1)
  show 3: "k_spaces (snd (drop_sright p K)) = k_spaces K" for p K
    by (simp add: drop_sright_def Let_def split: option.split)
  show 4: "k_spaces (send_no_senders ns K) = k_spaces K" for ns K
    by (simp add: send_no_senders_def 2 split: option.split)
  show 5: "k_spaces (ipc_port_release_send p K) = k_spaces K" for p K
    by (simp add: ipc_port_release_send_def Let_def 3 4 split_beta)
  show "k_spaces (ipc_notify_port_deleted_compat p n K) = k_spaces K"
    by (simp add: ipc_notify_port_deleted_compat_def 5)
  show 6: "k_spaces (snd (ipc_port_copy_send obj K)) = k_spaces K" for obj K
    by (simp add: ipc_port_copy_send_def split: ipc_object.split)
  show "k_spaces (snd (ipc_space_make_notify s K)) = k_spaces K"
    by (simp add: ipc_space_make_notify_def 6)
qed

lemma k_spaces_pset [simp]:
  "k_spaces (ipc_pset_remove s p K) = k_spaces K"
  "k_spaces (ipc_pset_destroy s K) = k_spaces K"
  "k_spaces (ipc_port_clear_receiver p K) = k_spaces K"
proof -
  show 1: "k_spaces (ipc_pset_remove s p K) = k_spaces K" for s by (simp add: ipc_pset_remove_def)
  show "k_spaces (ipc_pset_destroy s K) = k_spaces K" by (simp add: ipc_pset_destroy_def)
  show "k_spaces (ipc_port_clear_receiver p K) = k_spaces K"
    by (simp add: ipc_port_clear_receiver_def Let_def 1 split: option.split)
qed

text \<open>
  The part of a port that messages and notifications do not touch: everything but the
  reference counts, the send-once count and the message queue.
\<close>

definition port_core :: "ipc_port \<Rightarrow> ipc_port" where
  "port_core p = p\<lparr>ip_references := 0, ip_sorights := 0, ip_seqno := 0, ip_msgcount := 0,
                   ip_messages := [], ip_receivers := []\<rparr>"

lemma port_core_upd [simp]:
  "port_core (ip_references_update f p) = port_core p"
  "port_core (ip_sorights_update f p) = port_core p"
  "port_core (ip_seqno_update g p) = port_core p"
  "port_core (ip_msgcount_update f p) = port_core p"
  "port_core (ip_messages_update h p) = port_core p"
  "port_core (ip_receivers_update i p) = port_core p"
  by (simp_all add: port_core_def)

lemma port_core_fields:
  assumes "port_core p = port_core q"
  shows "ip_active p = ip_active q" "ip_data p = ip_data q" "ip_srights p = ip_srights q"
    "ip_receiver_name p = ip_receiver_name q" "ip_mscount p = ip_mscount q"
    "ip_nsrequest p = ip_nsrequest q" "ip_pdrequest p = ip_pdrequest q"
    "ip_dnrequests p = ip_dnrequests q" "ip_pset p = ip_pset q" "ip_blocked p = ip_blocked q"
    "ip_kotype p = ip_kotype q" "ip_qlimit p = ip_qlimit q"
  using assms by (simp_all add: port_core_def ipc_port.splits(1), cases p, cases q, auto)+

abbreviation cores :: "ipc_kernel \<Rightarrow> port_id \<Rightarrow> ipc_port" where
  "cores K p \<equiv> port_core (k_ports K p)"

lemma cores_upd [simp]:
  "cores (ip_reference p K) q = cores K q"
  "cores (ip_release p K) q = cores K q"
  "cores (ips_release s K) q = cores K q"
  "cores (ips_reference s K) q = cores K q"
  "cores (ipc_kmsg_destroy m K) q = cores K q"
  "cores (threads_go gos K) q = cores K q"
  "cores (set_imq_messages mq ms K) q = cores K q"
  "cores (set_imq_threads mq ths K) q = cores K q"
  "cores (upd_port p (ip_seqno_update f) K) q = cores K q"
  "cores (upd_port p (ip_msgcount_update g) K) q = cores K q"
  "cores (upd_port p (ip_sorights_update g) K) q = cores K q"
  by (cases mq, auto simp: ip_reference_def ip_release_def ips_release_def ips_reference_def
      ipc_kmsg_destroy_def threads_go_def port_core_def)+

lemma cores_deliver [simp]: "cores (mqueue_deliver m p K) q = cores K q"
  by (simp add: mqueue_deliver_def Let_def split: prod.split)

lemma cores_send [simp]: "cores (ipc_mqueue_send_always m K) q = cores K q"
  by (simp add: ipc_mqueue_send_always_def ipc_mqueue_send_def split: ipc_object.split)

lemma cores_notify [simp]:
  "cores (ipc_port_release_sonce p K) q = cores K q"
  "cores (ipc_notify_no_senders p c K) q = cores K q"
  "cores (ipc_notify_send_once p K) q = cores K q"
  "cores (ipc_notify_dead_name p n K) q = cores K q"
  "cores (ipc_notify_port_deleted p n K) q = cores K q"
  "cores (send_no_senders ns K) q = cores K q"
proof -
  show 1: "cores (ipc_port_release_sonce p K) q = cores K q" for p
    by (simp add: ipc_port_release_sonce_def Let_def)
  show 2: "cores (ipc_notify_no_senders p c K) q = cores K q" for p c
    by (simp add: ipc_notify_no_senders_def 1)
  show "cores (ipc_notify_send_once p K) q = cores K q" by (simp add: ipc_notify_send_once_def 1)
  show "cores (ipc_notify_dead_name p n K) q = cores K q" by (simp add: ipc_notify_dead_name_def 1)
  show "cores (ipc_notify_port_deleted p n K) q = cores K q"
    by (simp add: ipc_notify_port_deleted_def 1)
  show "cores (send_no_senders ns K) q = cores K q"
    by (simp add: send_no_senders_def 2 split: option.split)
qed

end
