(* ===== verification/Ipc_Right.thy ===== *)
theory Ipc_Right
  imports Ipc_Port
begin

text \<open>
  The capability operations of \<^verbatim>\<open>ipc_right.c\<close>. Each routine of the file is one definition, and
  the cases of its large \<^verbatim>\<open>switch\<close> statements are definitions of their own.

  A routine takes the space, the name and the entry the caller has looked up for it, and the
  kernel state. Stores through the entry pointer are \<open>set_entry\<close>; the entry as it is after a
  call that changes it is part of that call's result. Locks and unlocks are left out.
  \<open>None\<close> stands for a panic, a null pointer or a table index out of range; the properties
  show that none of these happens for well-formed entries.
\<close>

section \<open>Lookup and dead-name requests\<close>

definition ipc_right_lookup_write ::
  "space_id \<Rightarrow> mach_port_t \<Rightarrow> ipc_kernel \<Rightarrow> kern_return_t + ipc_entry" where
  "ipc_right_lookup_write space name K =
     (if \<not> is_active (k_spaces K space) then Inl KERN_INVALID_TASK
      else case entries K space name of
             None \<Rightarrow> Inl KERN_INVALID_NAME
           | Some entry \<Rightarrow> Inr entry)"

text \<open>The cast of \<^verbatim>\<open>entry->ie_object\<close> to a port; \<open>None\<close> when there is no port behind it.\<close>

definition entry_port :: "ipc_entry \<Rightarrow> port_id option" where
  "entry_port entry = (case ie_object entry of IO_PORT port \<Rightarrow> Some port | _ \<Rightarrow> None)"

definition entry_pset :: "ipc_entry \<Rightarrow> pset_id option" where
  "entry_pset entry = (case ie_object entry of IO_PSET pset \<Rightarrow> Some pset | _ \<Rightarrow> None)"

definition ipc_right_reverse ::
  "space_id \<Rightarrow> port_id \<Rightarrow> ipc_kernel \<Rightarrow> (mach_port_t \<times> ipc_entry) option" where
  "ipc_right_reverse space port K =
     (if \<not> ip_active (k_ports K port) then None
      else if ip_data (k_ports K port) = Ip_Receiver space then
        map_option (Pair (ip_receiver_name (k_ports K port)))
          (entries K space (ip_receiver_name (k_ports K port)))
      else do {
        name \<leftarrow> k_hash K space port;
        entry \<leftarrow> entries K space name;
        Some (name, entry)
      })"

definition ipc_right_dncancel ::
  "space_id \<Rightarrow> port_id \<Rightarrow> mach_port_t \<Rightarrow> ipc_entry \<Rightarrow> ipc_kernel \<Rightarrow>
     (port_id option \<times> ipc_entry \<times> ipc_kernel) option" where
  "ipc_right_dncancel space port name entry K =
     do {
       (dnrequest, K) \<leftarrow> ipc_port_dncancel port name (ie_request entry) K;
       let entry = entry\<lparr>ie_request := 0\<rparr>;
       let K = set_entry space name entry K;
       if test (ie_bits entry) IE_BITS_COMPAT then Some (None, entry, is_release space K)
       else
         (case dnrequest of
            Ipr_Soright soright \<Rightarrow> Some (Some soright, entry, K)
          | _ \<Rightarrow> None)
     }"

definition ipc_right_dncancel_macro ::
  "space_id \<Rightarrow> port_id \<Rightarrow> mach_port_t \<Rightarrow> ipc_entry \<Rightarrow> ipc_kernel \<Rightarrow>
     (port_id option \<times> ipc_entry \<times> ipc_kernel) option" where
  "ipc_right_dncancel_macro space port name entry K =
     (if ie_request entry = 0 then Some (None, entry, K)
      else ipc_right_dncancel space port name entry K)"

text \<open>\<^verbatim>\<open>if (bits & IE_BITS_MAREQUEST) ipc_marequest_cancel(space, name);\<close>\<close>

definition marequest_cancel_if ::
  "natural_t \<Rightarrow> space_id \<Rightarrow> mach_port_t \<Rightarrow> ipc_kernel \<Rightarrow> ipc_kernel option" where
  "marequest_cancel_if bits space name K =
     (if test bits IE_BITS_MAREQUEST then ipc_marequest_cancel space name K else Some K)"

text \<open>The result says whether the entry is in use; a compat entry of a dead port is cleared.\<close>

definition ipc_right_inuse ::
  "space_id \<Rightarrow> mach_port_t \<Rightarrow> ipc_entry \<Rightarrow> ipc_kernel \<Rightarrow> (bool \<times> ipc_kernel) option" where
  "ipc_right_inuse space name entry K =
     (let bits = ie_bits entry; type = IE_BITS_TYPE bits
      in if type = MACH_PORT_TYPE_NONE then Some (False, K)
         else if test bits IE_BITS_COMPAT \<and>
                 (type = MACH_PORT_TYPE_SEND \<or> type = MACH_PORT_TYPE_SEND_ONCE) then
           do {
             port \<leftarrow> entry_port entry;
             if ip_active (k_ports K port) then Some (True, K)
             else do {
               K \<leftarrow> (if type = MACH_PORT_TYPE_SEND
                     then do {
                       K \<leftarrow> marequest_cancel_if bits space name K;
                       Some (ipc_hash_delete space port name K)
                     }
                     else Some K);
               let entry = entry\<lparr>ie_request := 0, ie_object := IO_NULL,
                                 ie_bits := bits AND NOT IE_BITS_RIGHT_MASK\<rparr>;
               Some (False, set_entry space name entry (ip_release port K))
             }
           }
         else Some (True, K))"

definition ipc_right_check ::
  "space_id \<Rightarrow> port_id \<Rightarrow> mach_port_t \<Rightarrow> ipc_entry \<Rightarrow> ipc_kernel \<Rightarrow>
     (bool \<times> ipc_entry \<times> ipc_kernel) option" where
  "ipc_right_check space port name entry K =
     (if ip_active (k_ports K port) then Some (False, entry, K)
      else do {
        let bits = ie_bits entry;
        (bits, K) \<leftarrow> (if test bits MACH_PORT_TYPE_SEND
                      then do {
                        K \<leftarrow> marequest_cancel_if bits space name K;
                        Some (bits AND NOT IE_BITS_MAREQUEST, ipc_hash_delete space port name K)
                      }
                      else Some (bits, K));
        let K = ip_release port K;
        if test bits IE_BITS_COMPAT
        then Some (True, entry\<lparr>ie_request := 0, ie_object := IO_NULL\<rparr>, entry_dealloc space name K)
        else do {
          let bits = (bits AND NOT IE_BITS_TYPE_MASK) OR MACH_PORT_TYPE_DEAD_NAME;
          let bits = (if ie_request entry \<noteq> 0 then bits + 1 else bits);
          let entry = entry\<lparr>ie_request := 0, ie_bits := bits, ie_object := IO_NULL\<rparr>;
          Some (True, entry, set_entry space name entry K)
        }
      })"

text \<open>The end of \<^verbatim>\<open>ipc_right_dnrequest\<close>, for names that are not live port rights.\<close>

definition dnrequest_dead ::
  "space_id \<Rightarrow> mach_port_t \<Rightarrow> bool \<Rightarrow> port_id option \<Rightarrow> ipc_entry \<Rightarrow> ipc_kernel \<Rightarrow>
     ((kern_return_t + port_id option) \<times> ipc_kernel)" where
  "dnrequest_dead space name immediate notify entry K =
     (let bits = ie_bits entry
      in if test bits MACH_PORT_TYPE_DEAD_NAME \<and> immediate \<and> notify \<noteq> None then
           (if MACH_PORT_UREFS_OVERFLOW (IE_BITS_UREFS bits) 1 then (Inl KERN_UREFS_OVERFLOW, K)
            else (Inr None, ipc_notify_dead_name (the notify) name
                              (set_entry space name (entry\<lparr>ie_bits := bits + 1\<rparr>) K)))
         else if test bits MACH_PORT_TYPE_PORT_OR_DEAD then (Inl KERN_INVALID_ARGUMENT, K)
         else (Inl KERN_INVALID_RIGHT, K))"

text \<open>
  \<^verbatim>\<open>ipc_right_dnrequest\<close>, a loop that starts again after growing the port's request table. The
  result is an error or the previously registered send-once right.
\<close>

partial_function (option) ipc_right_dnrequest ::
  "space_id \<Rightarrow> mach_port_t \<Rightarrow> bool \<Rightarrow> port_id option \<Rightarrow> ipc_kernel \<Rightarrow>
     ((kern_return_t + port_id option) \<times> ipc_kernel) option" where
  "ipc_right_dnrequest space name immediate notify K =
     (case ipc_right_lookup_write space name K of
        Inl kr \<Rightarrow> Some (Inl kr, K)
      | Inr entry \<Rightarrow>
          if \<not> test (ie_bits entry) MACH_PORT_TYPE_PORT_RIGHTS
          then Some (dnrequest_dead space name immediate notify entry K)
          else
            Option.bind (entry_port entry) (\<lambda>port.
            Option.bind (ipc_right_check space port name entry K) (\<lambda>(dead, entry', K).
              if dead then
                (if test (ie_bits entry) IE_BITS_COMPAT then Some (Inl KERN_INVALID_NAME, K)
                 else Some (dnrequest_dead space name immediate notify entry' K))
              else
                (case notify of
                   None \<Rightarrow>
                     (if test (ie_bits entry) IE_BITS_COMPAT then Some (Inr None, K)
                      else map_option (\<lambda>(previous, entry, K). (Inr previous, K))
                             (ipc_right_dncancel_macro space port name entry' K))
                 | Some soright \<Rightarrow>
                     Option.bind (ipc_right_dncancel_macro space port name entry' K)
                       (\<lambda>(previous, entry'', K).
                          case ipc_port_dnrequest port name (Ipr_Soright soright) K of
                            Inl _ \<Rightarrow>
                              (let (kr, K) = ipc_port_dngrow port None K
                               in if kr \<noteq> KERN_SUCCESS then Some (Inl kr, K)
                                  else ipc_right_dnrequest space name immediate notify K)
                          | Inr (request, K) \<Rightarrow>
                              Some (Inr previous,
                                set_entry space name
                                  (entry''\<lparr>ie_request := request,
                                           ie_bits := ie_bits entry AND NOT IE_BITS_COMPAT\<rparr>) K))))))"

declare ipc_right_dnrequest.simps [code]

section \<open>Destruction of rights\<close>

definition send_port_deleted :: "port_id option \<Rightarrow> mach_port_t \<Rightarrow> ipc_kernel \<Rightarrow> ipc_kernel" where
  "send_port_deleted dnrequest name K =
     (case dnrequest of None \<Rightarrow> K | Some soright \<Rightarrow> ipc_notify_port_deleted soright name K)"

text \<open>
  The end that \<^verbatim>\<open>ipc_right_clean\<close> and \<^verbatim>\<open>ipc_right_destroy\<close> share for a live port: give up the
  rights of the given type and send the notifications that follow from that.
\<close>

definition give_up_rights ::
  "natural_t \<Rightarrow> port_id \<Rightarrow> port_id option \<Rightarrow> mach_port_t \<Rightarrow> ipc_kernel \<Rightarrow> ipc_kernel option" where
  "give_up_rights type port dnrequest name K =
     do {
       let (ns, K) = (if test type MACH_PORT_TYPE_SEND then drop_sright port K else (None, K));
       K \<leftarrow> (if test type MACH_PORT_TYPE_RECEIVE then ipc_port_destroy port (ipc_port_clear_receiver port K)
             else if test type MACH_PORT_TYPE_SEND_ONCE then Some (ipc_notify_send_once port K)
             else Some (ip_release port K));
       Some (send_port_deleted dnrequest name (send_no_senders ns K))
     }"

definition is_port_type :: "natural_t \<Rightarrow> bool" where
  "is_port_type type \<longleftrightarrow>
     type \<in> {MACH_PORT_TYPE_SEND, MACH_PORT_TYPE_RECEIVE, MACH_PORT_TYPE_SEND_RECEIVE,
             MACH_PORT_TYPE_SEND_ONCE}"

definition ipc_right_clean ::
  "space_id \<Rightarrow> mach_port_t \<Rightarrow> ipc_entry \<Rightarrow> ipc_kernel \<Rightarrow> ipc_kernel option" where
  "ipc_right_clean space name entry K =
     (let type = IE_BITS_TYPE (ie_bits entry)
      in if type = MACH_PORT_TYPE_DEAD_NAME then Some K
         else if type = MACH_PORT_TYPE_PORT_SET then
           do { pset \<leftarrow> entry_pset entry; Some (ipc_pset_destroy pset K) }
         else if is_port_type type then
           do {
             port \<leftarrow> entry_port entry;
             if \<not> ip_active (k_ports K port) then Some (ip_release port K)
             else do {
               (dnrequest, entry, K) \<leftarrow> ipc_right_dncancel_macro space port name entry K;
               give_up_rights type port dnrequest name K
             }
           }
         else None)"

definition ipc_right_destroy ::
  "space_id \<Rightarrow> mach_port_t \<Rightarrow> ipc_entry \<Rightarrow> ipc_kernel \<Rightarrow> (kern_return_t \<times> ipc_kernel) option" where
  "ipc_right_destroy space name entry K =
     (let bits = ie_bits entry; type = IE_BITS_TYPE bits
      in if type = MACH_PORT_TYPE_DEAD_NAME then Some (KERN_SUCCESS, entry_dealloc space name K)
         else if type = MACH_PORT_TYPE_PORT_SET then
           do {
             pset \<leftarrow> entry_pset entry;
             Some (KERN_SUCCESS, ipc_pset_destroy pset (entry_dealloc space name K))
           }
         else if is_port_type type then
           do {
             port \<leftarrow> entry_port entry;
             if \<not> ip_active (k_ports K port) then ipc_right_destroy_dead space name entry port K
             else do {
               K \<leftarrow> marequest_cancel_if bits space name K;
               let K = (if type = MACH_PORT_TYPE_SEND then ipc_hash_delete space port name K else K);
               (dnrequest, entry, K) \<leftarrow> ipc_right_dncancel_macro space port name entry K;
               let K = entry_dealloc space name K;
               K \<leftarrow> give_up_rights type port dnrequest name K;
               Some (KERN_SUCCESS, K)
             }
           }
         else None)"

section \<open>Releasing user references\<close>

text \<open>The label \<^verbatim>\<open>dead_name\<close> of \<^verbatim>\<open>ipc_right_dealloc\<close>.\<close>

definition dealloc_dead_name ::
  "space_id \<Rightarrow> mach_port_t \<Rightarrow> ipc_entry \<Rightarrow> ipc_kernel \<Rightarrow> ipc_kernel" where
  "dealloc_dead_name space name entry K =
     (if IE_BITS_UREFS (ie_bits entry) = 1 then entry_dealloc space name K
      else set_entry space name (entry\<lparr>ie_bits := ie_bits entry - 1\<rparr>) K)"

text \<open>
  The end of a send-once right in a live port, shared by \<^verbatim>\<open>ipc_right_dealloc\<close> and
  \<^verbatim>\<open>ipc_right_delta\<close>.
\<close>

definition release_send_once ::
  "space_id \<Rightarrow> mach_port_t \<Rightarrow> ipc_entry \<Rightarrow> port_id \<Rightarrow> ipc_kernel \<Rightarrow> ipc_kernel option" where
  "release_send_once space name entry port K =
     do {
       (dnrequest, entry, K) \<leftarrow> ipc_right_dncancel_macro space port name entry K;
       Some (send_port_deleted dnrequest name
               (ipc_notify_send_once port (entry_dealloc space name K)))
     }"

definition dealloc_send_once ::
  "space_id \<Rightarrow> mach_port_t \<Rightarrow> ipc_entry \<Rightarrow> ipc_kernel \<Rightarrow> (kern_return_t \<times> ipc_kernel) option" where
  "dealloc_send_once space name entry K =
     do {
       port \<leftarrow> entry_port entry;
       (dead, entry', K) \<leftarrow> ipc_right_check space port name entry K;
       if dead then
         (if test (ie_bits entry) IE_BITS_COMPAT then Some (KERN_INVALID_NAME, K)
          else Some (KERN_SUCCESS, dealloc_dead_name space name entry' K))
       else do {
         K \<leftarrow> release_send_once space name entry port K;
         Some (KERN_SUCCESS, K)
       }
     }"

text \<open>
  Taking the last user reference of a pure send right out of an entry, as \<^verbatim>\<open>ipc_right_dealloc\<close>
  and \<^verbatim>\<open>ipc_right_delta\<close> do after dropping the right count.
\<close>

definition remove_send_entry ::
  "space_id \<Rightarrow> mach_port_t \<Rightarrow> ipc_entry \<Rightarrow> port_id \<Rightarrow> ipc_kernel \<Rightarrow>
     (port_id option \<times> ipc_kernel) option" where
  "remove_send_entry space name entry port K =
     do {
       (dnrequest, entry, K) \<leftarrow> ipc_right_dncancel_macro space port name entry K;
       let K = ipc_hash_delete space port name K;
       K \<leftarrow> marequest_cancel_if (ie_bits entry) space name K;
       Some (dnrequest, entry_dealloc space name (ip_release port K))
     }"

definition dealloc_send ::
  "space_id \<Rightarrow> mach_port_t \<Rightarrow> ipc_entry \<Rightarrow> ipc_kernel \<Rightarrow> (kern_return_t \<times> ipc_kernel) option" where
  "dealloc_send space name entry K =
     do {
       port \<leftarrow> entry_port entry;
       (dead, entry', K) \<leftarrow> ipc_right_check space port name entry K;
       if dead then
         (if test (ie_bits entry) IE_BITS_COMPAT then Some (KERN_INVALID_NAME, K)
          else Some (KERN_SUCCESS, dealloc_dead_name space name entry' K))
       else if IE_BITS_UREFS (ie_bits entry) = 1 then do {
         let (ns, K) = drop_sright port K;
         (dnrequest, K) \<leftarrow> remove_send_entry space name entry port K;
         Some (KERN_SUCCESS, send_port_deleted dnrequest name (send_no_senders ns K))
       }
       else Some (KERN_SUCCESS, set_entry space name (entry\<lparr>ie_bits := ie_bits entry - 1\<rparr>) K)
     }"

definition dealloc_send_receive ::
  "space_id \<Rightarrow> mach_port_t \<Rightarrow> ipc_entry \<Rightarrow> ipc_kernel \<Rightarrow> (kern_return_t \<times> ipc_kernel) option" where
  "dealloc_send_receive space name entry K =
     do {
       port \<leftarrow> entry_port entry;
       let bits = ie_bits entry;
       if IE_BITS_UREFS bits = 1 then do {
         let (ns, K) = drop_sright port K;
         let bits = bits AND NOT (IE_BITS_UREFS_MASK OR MACH_PORT_TYPE_SEND);
         Some (KERN_SUCCESS, send_no_senders ns (set_entry space name (entry\<lparr>ie_bits := bits\<rparr>) K))
       }
       else Some (KERN_SUCCESS, set_entry space name (entry\<lparr>ie_bits := bits - 1\<rparr>) K)
     }"

definition ipc_right_dealloc ::
  "space_id \<Rightarrow> mach_port_t \<Rightarrow> ipc_entry \<Rightarrow> ipc_kernel \<Rightarrow> (kern_return_t \<times> ipc_kernel) option" where
  "ipc_right_dealloc space name entry K =
     (let type = IE_BITS_TYPE (ie_bits entry)
      in if type = MACH_PORT_TYPE_DEAD_NAME then
           Some (KERN_SUCCESS, dealloc_dead_name space name entry K)
         else if type = MACH_PORT_TYPE_SEND_ONCE then dealloc_send_once space name entry K
         else if type = MACH_PORT_TYPE_SEND then dealloc_send space name entry K
         else if type = MACH_PORT_TYPE_SEND_RECEIVE then dealloc_send_receive space name entry K
         else Some (KERN_INVALID_RIGHT, K))"

section \<open>Changing the user-reference count\<close>

datatype mach_port_right =
    MACH_PORT_RIGHT_SEND
  | MACH_PORT_RIGHT_RECEIVE
  | MACH_PORT_RIGHT_SEND_ONCE
  | MACH_PORT_RIGHT_PORT_SET
  | MACH_PORT_RIGHT_DEAD_NAME

definition delta_port_set ::
  "space_id \<Rightarrow> mach_port_t \<Rightarrow> ipc_entry \<Rightarrow> natural_t \<Rightarrow> ipc_kernel \<Rightarrow>
     (kern_return_t \<times> ipc_kernel) option" where
  "delta_port_set space name entry delta K =
     (if \<not> test (ie_bits entry) MACH_PORT_TYPE_PORT_SET then Some (KERN_INVALID_RIGHT, K)
      else if delta = 0 then Some (KERN_SUCCESS, K)
      else if delta \<noteq> -1 then Some (KERN_INVALID_VALUE, K)
      else do {
        pset \<leftarrow> entry_pset entry;
        Some (KERN_SUCCESS, ipc_pset_destroy pset (entry_dealloc space name K))
      })"

definition delta_receive ::
  "space_id \<Rightarrow> mach_port_t \<Rightarrow> ipc_entry \<Rightarrow> natural_t \<Rightarrow> ipc_kernel \<Rightarrow>
     (kern_return_t \<times> ipc_kernel) option" where
  "delta_receive space name entry delta K =
     (let bits = ie_bits entry
      in if \<not> test bits MACH_PORT_TYPE_RECEIVE then Some (KERN_INVALID_RIGHT, K)
         else if delta = 0 then Some (KERN_SUCCESS, K)
         else if delta \<noteq> -1 then Some (KERN_INVALID_VALUE, K)
         else do {
           K \<leftarrow> marequest_cancel_if bits space name K;
           let bits = bits AND NOT IE_BITS_MAREQUEST;
           port \<leftarrow> entry_port entry;
           (dnrequest, K) \<leftarrow>
             (if test bits IE_BITS_COMPAT then do {
                (dnrequest, entry, K) \<leftarrow> ipc_right_dncancel space port name entry K;
                Some (dnrequest, entry_dealloc space name K)
              }
              else if test bits MACH_PORT_TYPE_SEND then do {
                let bits = (bits AND NOT IE_BITS_TYPE_MASK) OR MACH_PORT_TYPE_DEAD_NAME;
                let bits = (if ie_request entry \<noteq> 0 then bits + 1 else bits);
                Some (None, set_entry space name
                              (entry\<lparr>ie_request := 0, ie_bits := bits, ie_object := IO_NULL\<rparr>) K)
              }
              else do {
                (dnrequest, entry, K) \<leftarrow> ipc_right_dncancel_macro space port name entry K;
                Some (dnrequest, entry_dealloc space name K)
              });
           K \<leftarrow> ipc_port_destroy port (ipc_port_clear_receiver port K);
           Some (KERN_SUCCESS, send_port_deleted dnrequest name K)
         })"

definition delta_send_once ::
  "space_id \<Rightarrow> mach_port_t \<Rightarrow> ipc_entry \<Rightarrow> natural_t \<Rightarrow> ipc_kernel \<Rightarrow>
     (kern_return_t \<times> ipc_kernel) option" where
  "delta_send_once space name entry delta K =
     (if \<not> test (ie_bits entry) MACH_PORT_TYPE_SEND_ONCE then Some (KERN_INVALID_RIGHT, K)
      else do {
        port \<leftarrow> entry_port entry;
        (dead, entry', K) \<leftarrow> ipc_right_check space port name entry K;
        if dead then
          Some (if test (ie_bits entry) IE_BITS_COMPAT then KERN_INVALID_NAME else KERN_INVALID_RIGHT, K)
        else if 0 <s delta \<or> delta <s -1 then Some (KERN_INVALID_VALUE, K)
        else if delta = 0 then Some (KERN_SUCCESS, K)
        else do {
          K \<leftarrow> release_send_once space name entry port K;
          Some (KERN_SUCCESS, K)
        }
      })"

definition delta_dead_name ::
  "space_id \<Rightarrow> mach_port_t \<Rightarrow> ipc_entry \<Rightarrow> natural_t \<Rightarrow> ipc_kernel \<Rightarrow>
     (kern_return_t \<times> ipc_kernel) option" where
  "delta_dead_name space name entry delta K =
     do {
       let change = (\<lambda>entry K.
         let urefs = IE_BITS_UREFS (ie_bits entry)
         in if MACH_PORT_UREFS_UNDERFLOW urefs delta then (KERN_INVALID_VALUE, K)
            else if MACH_PORT_UREFS_OVERFLOW urefs delta then (KERN_UREFS_OVERFLOW, K)
            else (KERN_SUCCESS,
                  if urefs + delta = 0 then entry_dealloc space name K
                  else set_entry space name (entry\<lparr>ie_bits := ie_bits entry + delta\<rparr>) K));
       if test (ie_bits entry) MACH_PORT_TYPE_SEND_RIGHTS then do {
         port \<leftarrow> entry_port entry;
         (dead, entry', K) \<leftarrow> ipc_right_check space port name entry K;
         if \<not> dead then Some (KERN_INVALID_RIGHT, K)
         else if test (ie_bits entry) IE_BITS_COMPAT then Some (KERN_INVALID_NAME, K)
         else Some (change entry' K)
       }
       else if \<not> test (ie_bits entry) MACH_PORT_TYPE_DEAD_NAME then Some (KERN_INVALID_RIGHT, K)
       else Some (change entry K)
     }"

definition delta_send ::
  "space_id \<Rightarrow> mach_port_t \<Rightarrow> ipc_entry \<Rightarrow> natural_t \<Rightarrow> ipc_kernel \<Rightarrow>
     (kern_return_t \<times> ipc_kernel) option" where
  "delta_send space name entry delta K =
     (let bits = ie_bits entry; urefs = IE_BITS_UREFS bits
      in if \<not> test bits MACH_PORT_TYPE_SEND then Some (KERN_INVALID_RIGHT, K)
         else do {
           port \<leftarrow> entry_port entry;
           (dead, entry', K) \<leftarrow> ipc_right_check space port name entry K;
           if dead then
             Some (if test bits IE_BITS_COMPAT then KERN_INVALID_NAME else KERN_INVALID_RIGHT, K)
           else if MACH_PORT_UREFS_UNDERFLOW urefs delta then Some (KERN_INVALID_VALUE, K)
           else if MACH_PORT_UREFS_OVERFLOW (urefs + 1) delta then Some (KERN_UREFS_OVERFLOW, K)
           else if urefs + delta = 0 then do {
             let (ns, K) = drop_sright port K;
             (dnrequest, K) \<leftarrow>
               (if test bits MACH_PORT_TYPE_RECEIVE
                then Some (None, set_entry space name
                       (entry\<lparr>ie_bits := bits AND NOT (IE_BITS_UREFS_MASK OR MACH_PORT_TYPE_SEND)\<rparr>) K)
                else remove_send_entry space name entry port K);
             Some (KERN_SUCCESS, send_port_deleted dnrequest name (send_no_senders ns K))
           }
           else Some (KERN_SUCCESS, set_entry space name (entry\<lparr>ie_bits := bits + delta\<rparr>) K)
         })"

fun ipc_right_delta ::
  "space_id \<Rightarrow> mach_port_t \<Rightarrow> ipc_entry \<Rightarrow> mach_port_right \<Rightarrow> natural_t \<Rightarrow> ipc_kernel \<Rightarrow>
     (kern_return_t \<times> ipc_kernel) option" where
  "ipc_right_delta space name entry MACH_PORT_RIGHT_PORT_SET = delta_port_set space name entry"
| "ipc_right_delta space name entry MACH_PORT_RIGHT_RECEIVE = delta_receive space name entry"
| "ipc_right_delta space name entry MACH_PORT_RIGHT_SEND_ONCE = delta_send_once space name entry"
| "ipc_right_delta space name entry MACH_PORT_RIGHT_DEAD_NAME = delta_dead_name space name entry"
| "ipc_right_delta space name entry MACH_PORT_RIGHT_SEND = delta_send space name entry"

text \<open>The result of \<^verbatim>\<open>ipc_right_info\<close> is an error or the type and the user references.\<close>

definition ipc_right_info ::
  "space_id \<Rightarrow> mach_port_t \<Rightarrow> ipc_entry \<Rightarrow> ipc_kernel \<Rightarrow>
     ((kern_return_t + natural_t \<times> natural_t) \<times> ipc_kernel) option" where
  "ipc_right_info space name entry K =
     do {
       let bits = ie_bits entry;
       let report = (\<lambda>entry.
         let bits = ie_bits entry;
             type = IE_BITS_TYPE bits;
             type = (if test bits IE_BITS_COMPAT then type OR MACH_PORT_TYPE_COMPAT
                     else if ie_request entry \<noteq> 0 then type OR MACH_PORT_TYPE_DNREQUEST
                     else type);
             type = (if test bits IE_BITS_MAREQUEST then type OR MACH_PORT_TYPE_MAREQUEST else type)
         in (type, IE_BITS_UREFS bits));
       if test bits MACH_PORT_TYPE_SEND_RIGHTS then do {
         port \<leftarrow> entry_port entry;
         (dead, entry, K) \<leftarrow> ipc_right_check space port name entry K;
         if dead \<and> test bits IE_BITS_COMPAT then Some (Inl KERN_INVALID_NAME, K)
         else Some (Inr (report entry), K)
       }
       else Some (Inr (report entry), K)
     }"

section \<open>Taking rights out of a space\<close>

definition ipc_right_copyin_check ::
  "ipc_entry \<Rightarrow> copyin_type \<Rightarrow> ipc_kernel \<Rightarrow> bool option" where
  "ipc_right_copyin_check entry msgt_name K =
     (let bits = ie_bits entry
      in if msgt_name \<in> {MACH_MSG_TYPE_MAKE_SEND, MACH_MSG_TYPE_MAKE_SEND_ONCE,
                         MACH_MSG_TYPE_MOVE_RECEIVE}
         then Some (test bits MACH_PORT_TYPE_RECEIVE)
         else if test bits MACH_PORT_TYPE_DEAD_NAME then Some True
         else if \<not> test bits MACH_PORT_TYPE_SEND_RIGHTS then Some False
         else do {
           port \<leftarrow> entry_port entry;
           if \<not> ip_active (k_ports K port) then Some (\<not> test bits IE_BITS_COMPAT)
           else if msgt_name = MACH_MSG_TYPE_MOVE_SEND_ONCE
           then Some (test bits MACH_PORT_TYPE_SEND_ONCE)
           else Some (test bits MACH_PORT_TYPE_SEND)
         })"

type_synonym copyin_result = "(kern_return_t + ipc_object \<times> port_id option) \<times> ipc_kernel"

text \<open>The labels \<^verbatim>\<open>copy_dead\<close> and \<^verbatim>\<open>move_dead\<close>.\<close>

definition copy_dead :: "bool \<Rightarrow> ipc_kernel \<Rightarrow> copyin_result" where
  "copy_dead deadok K =
     (if \<not> deadok then (Inl KERN_INVALID_RIGHT, K) else (Inr (IO_DEAD, None), K))"

definition move_dead ::
  "space_id \<Rightarrow> mach_port_t \<Rightarrow> ipc_entry \<Rightarrow> bool \<Rightarrow> ipc_kernel \<Rightarrow> copyin_result" where
  "move_dead space name entry deadok K =
     (if \<not> deadok then (Inl KERN_INVALID_RIGHT, K)
      else
        (let bits = ie_bits entry;
             bits = (if IE_BITS_UREFS bits = 1 then bits AND NOT MACH_PORT_TYPE_DEAD_NAME else bits - 1)
         in (Inr (IO_DEAD, None), set_entry space name (entry\<lparr>ie_bits := bits\<rparr>) K)))"

definition copyin_make_send :: "ipc_entry \<Rightarrow> ipc_kernel \<Rightarrow> copyin_result option" where
  "copyin_make_send entry K =
     (if \<not> test (ie_bits entry) MACH_PORT_TYPE_RECEIVE then Some (Inl KERN_INVALID_RIGHT, K)
      else do {
        port \<leftarrow> entry_port entry;
        let K = upd_port port (ip_mscount_update (\<lambda>n. n + 1)) K;
        let K = upd_port port (ip_srights_update (\<lambda>n. n + 1)) K;
        Some (Inr (IO_PORT port, None), ip_reference port K)
      })"

definition copyin_make_send_once :: "ipc_entry \<Rightarrow> ipc_kernel \<Rightarrow> copyin_result option" where
  "copyin_make_send_once entry K =
     (if \<not> test (ie_bits entry) MACH_PORT_TYPE_RECEIVE then Some (Inl KERN_INVALID_RIGHT, K)
      else do {
        port \<leftarrow> entry_port entry;
        let K = upd_port port (ip_sorights_update (\<lambda>n. n + 1)) K;
        Some (Inr (IO_PORT port, None), ip_reference port K)
      })"

text \<open>Put a port in limbo: \<^verbatim>\<open>ip_receiver_name = MACH_PORT_NULL; ip_destination = IP_NULL\<close>.\<close>

definition port_in_limbo :: "port_id \<Rightarrow> ipc_kernel \<Rightarrow> ipc_kernel" where
  "port_in_limbo port =
     upd_port port (\<lambda>p. p\<lparr>ip_receiver_name := MACH_PORT_NULL, ip_data := Ip_Destination None\<rparr>)"

definition copyin_move_receive ::
  "space_id \<Rightarrow> mach_port_t \<Rightarrow> ipc_entry \<Rightarrow> ipc_kernel \<Rightarrow> copyin_result option" where
  "copyin_move_receive space name entry K =
     (let bits = ie_bits entry
      in if \<not> test bits MACH_PORT_TYPE_RECEIVE then Some (Inl KERN_INVALID_RIGHT, K)
         else do {
           port \<leftarrow> entry_port entry;
           (dnrequest, entry, K) \<leftarrow>
             (if test bits MACH_PORT_TYPE_SEND
              then Some (None, entry, ip_reference port (ipc_hash_insert space port name K))
              else do {
                (dnrequest, entry, K) \<leftarrow> ipc_right_dncancel_macro space port name entry K;
                K \<leftarrow> marequest_cancel_if bits space name K;
                Some (dnrequest, entry\<lparr>ie_object := IO_NULL\<rparr>, K)
              });
           let K = set_entry space name (entry\<lparr>ie_bits := bits AND NOT MACH_PORT_TYPE_RECEIVE\<rparr>) K;
           Some (Inr (IO_PORT port, dnrequest), port_in_limbo port (ipc_port_clear_receiver port K))
         })"

definition copyin_copy_send ::
  "space_id \<Rightarrow> mach_port_t \<Rightarrow> ipc_entry \<Rightarrow> bool \<Rightarrow> ipc_kernel \<Rightarrow> copyin_result option" where
  "copyin_copy_send space name entry deadok K =
     (let bits = ie_bits entry
      in if test bits MACH_PORT_TYPE_DEAD_NAME then Some (copy_dead deadok K)
         else if \<not> test bits MACH_PORT_TYPE_SEND_RIGHTS then Some (Inl KERN_INVALID_RIGHT, K)
         else do {
           port \<leftarrow> entry_port entry;
           (dead, entry', K) \<leftarrow> ipc_right_check space port name entry K;
           if dead then
             (if test bits IE_BITS_COMPAT then Some (Inl KERN_INVALID_NAME, K)
              else Some (copy_dead deadok K))
           else if \<not> test bits MACH_PORT_TYPE_SEND then Some (Inl KERN_INVALID_RIGHT, K)
           else
             Some (Inr (IO_PORT port, None),
                   ip_reference port (upd_port port (ip_srights_update (\<lambda>n. n + 1)) K))
         })"

definition copyin_move_send ::
  "space_id \<Rightarrow> mach_port_t \<Rightarrow> ipc_entry \<Rightarrow> bool \<Rightarrow> ipc_kernel \<Rightarrow> copyin_result option" where
  "copyin_move_send space name entry deadok K =
     (let bits = ie_bits entry
      in if test bits MACH_PORT_TYPE_DEAD_NAME then Some (move_dead space name entry deadok K)
         else if \<not> test bits MACH_PORT_TYPE_SEND_RIGHTS then Some (Inl KERN_INVALID_RIGHT, K)
         else do {
           port \<leftarrow> entry_port entry;
           (dead, entry', K) \<leftarrow> ipc_right_check space port name entry K;
           if dead then
             (if test bits IE_BITS_COMPAT then Some (Inl KERN_INVALID_NAME, K)
              else Some (move_dead space name entry' deadok K))
           else if \<not> test bits MACH_PORT_TYPE_SEND then Some (Inl KERN_INVALID_RIGHT, K)
           else if IE_BITS_UREFS bits = 1 then do {
             (dnrequest, entry, K) \<leftarrow>
               (if test bits MACH_PORT_TYPE_RECEIVE then Some (None, entry, ip_reference port K)
                else do {
                  (dnrequest, entry, K) \<leftarrow> ipc_right_dncancel_macro space port name entry K;
                  let K = ipc_hash_delete space port name K;
                  K \<leftarrow> marequest_cancel_if bits space name K;
                  Some (dnrequest, entry\<lparr>ie_object := IO_NULL\<rparr>, K)
                });
             let bits = bits AND NOT (IE_BITS_UREFS_MASK OR MACH_PORT_TYPE_SEND);
             Some (Inr (IO_PORT port, dnrequest), set_entry space name (entry\<lparr>ie_bits := bits\<rparr>) K)
           }
           else do {
             let K = ip_reference port (upd_port port (ip_srights_update (\<lambda>n. n + 1)) K);
             Some (Inr (IO_PORT port, None), set_entry space name (entry\<lparr>ie_bits := bits - 1\<rparr>) K)
           }
         })"

definition copyin_move_send_once ::
  "space_id \<Rightarrow> mach_port_t \<Rightarrow> ipc_entry \<Rightarrow> bool \<Rightarrow> ipc_kernel \<Rightarrow> copyin_result option" where
  "copyin_move_send_once space name entry deadok K =
     (let bits = ie_bits entry
      in if test bits MACH_PORT_TYPE_DEAD_NAME then Some (move_dead space name entry deadok K)
         else if \<not> test bits MACH_PORT_TYPE_SEND_RIGHTS then Some (Inl KERN_INVALID_RIGHT, K)
         else do {
           port \<leftarrow> entry_port entry;
           (dead, entry', K) \<leftarrow> ipc_right_check space port name entry K;
           if dead then
             (if test bits IE_BITS_COMPAT then Some (Inl KERN_INVALID_NAME, K)
              else Some (move_dead space name entry' deadok K))
           else if \<not> test bits MACH_PORT_TYPE_SEND_ONCE then Some (Inl KERN_INVALID_RIGHT, K)
           else do {
             (dnrequest, entry, K) \<leftarrow> ipc_right_dncancel_macro space port name entry K;
             let entry = entry\<lparr>ie_object := IO_NULL, ie_bits := bits AND NOT MACH_PORT_TYPE_SEND_ONCE\<rparr>;
             Some (Inr (IO_PORT port, dnrequest), set_entry space name entry K)
           }
         })"

fun ipc_right_copyin ::
  "space_id \<Rightarrow> mach_port_t \<Rightarrow> ipc_entry \<Rightarrow> copyin_type \<Rightarrow> bool \<Rightarrow> ipc_kernel \<Rightarrow> copyin_result option" where
  "ipc_right_copyin space name entry MACH_MSG_TYPE_MAKE_SEND deadok = copyin_make_send entry"
| "ipc_right_copyin space name entry MACH_MSG_TYPE_MAKE_SEND_ONCE deadok = copyin_make_send_once entry"
| "ipc_right_copyin space name entry MACH_MSG_TYPE_MOVE_RECEIVE deadok =
     copyin_move_receive space name entry"
| "ipc_right_copyin space name entry MACH_MSG_TYPE_COPY_SEND deadok =
     copyin_copy_send space name entry deadok"
| "ipc_right_copyin space name entry MACH_MSG_TYPE_MOVE_SEND deadok =
     copyin_move_send space name entry deadok"
| "ipc_right_copyin space name entry MACH_MSG_TYPE_MOVE_SEND_ONCE deadok =
     copyin_move_send_once space name entry deadok"

text \<open>\<^verbatim>\<open>ipc_object_release\<close> on a port or a port set.\<close>

fun ipc_object_release :: "ipc_object \<Rightarrow> ipc_kernel \<Rightarrow> ipc_kernel" where
  "ipc_object_release (IO_PORT port) = ip_release port"
| "ipc_object_release (IO_PSET pset) = ips_release pset"
| "ipc_object_release _ = (\<lambda>K. K)"

definition ipc_right_copyin_undo ::
  "space_id \<Rightarrow> mach_port_t \<Rightarrow> ipc_entry \<Rightarrow> copyin_type \<Rightarrow> ipc_object \<Rightarrow> port_id option \<Rightarrow>
     ipc_kernel \<Rightarrow> ipc_kernel option" where
  "ipc_right_copyin_undo space name entry msgt_name object soright K =
     do {
       let bits = ie_bits entry;
       let dead_name = (\<lambda>urefs. (bits AND NOT IE_BITS_RIGHT_MASK) OR (MACH_PORT_TYPE_DEAD_NAME OR urefs));
       K \<leftarrow>
         (if soright \<noteq> None then Some (set_entry space name (entry\<lparr>ie_bits := dead_name 2\<rparr>) K)
          else if IE_BITS_TYPE bits = MACH_PORT_TYPE_NONE then
            Some (set_entry space name (entry\<lparr>ie_bits := dead_name 1\<rparr>) K)
          else if IE_BITS_TYPE bits = MACH_PORT_TYPE_DEAD_NAME then
            Some (if msgt_name \<noteq> MACH_MSG_TYPE_COPY_SEND
                  then set_entry space name (entry\<lparr>ie_bits := bits + 1\<rparr>) K else K)
          else do {
            let entry = (if msgt_name \<noteq> MACH_MSG_TYPE_COPY_SEND
                         then entry\<lparr>ie_bits := bits + 1\<rparr> else entry);
            let K = set_entry space name entry K;
            port \<leftarrow> (case object of IO_PORT port \<Rightarrow> Some port | _ \<Rightarrow> None);
            (dead, entry, K) \<leftarrow> ipc_right_check space port name entry K;
            Some K
          });
       Some (if object \<noteq> IO_DEAD then ipc_object_release object K else K)
     }"

definition ipc_right_copyin_two ::
  "space_id \<Rightarrow> mach_port_t \<Rightarrow> ipc_entry \<Rightarrow> ipc_kernel \<Rightarrow> copyin_result option" where
  "ipc_right_copyin_two space name entry K =
     (let bits = ie_bits entry; urefs = IE_BITS_UREFS bits
      in if \<not> test bits MACH_PORT_TYPE_SEND then Some (Inl KERN_INVALID_RIGHT, K)
         else if urefs < 2 then Some (Inl KERN_INVALID_RIGHT, K)
         else do {
           port \<leftarrow> entry_port entry;
           (dead, entry', K) \<leftarrow> ipc_right_check space port name entry K;
           if dead then
             Some (Inl (if test bits IE_BITS_COMPAT then KERN_INVALID_NAME else KERN_INVALID_RIGHT), K)
           else if urefs = 2 then do {
             (dnrequest, entry, K) \<leftarrow>
               (if test bits MACH_PORT_TYPE_RECEIVE then
                  Some (None, entry,
                    ip_reference port (ip_reference port
                      (upd_port port (ip_srights_update (\<lambda>n. n + 1)) K)))
                else do {
                  (dnrequest, entry, K) \<leftarrow> ipc_right_dncancel_macro space port name entry K;
                  let K = ipc_hash_delete space port name K;
                  K \<leftarrow> marequest_cancel_if bits space name K;
                  let K = ip_reference port (upd_port port (ip_srights_update (\<lambda>n. n + 1)) K);
                  Some (dnrequest, entry\<lparr>ie_object := IO_NULL\<rparr>, K)
                });
             let bits = bits AND NOT (IE_BITS_UREFS_MASK OR MACH_PORT_TYPE_SEND);
             Some (Inr (IO_PORT port, dnrequest), set_entry space name (entry\<lparr>ie_bits := bits\<rparr>) K)
           }
           else do {
             let K = upd_port port (ip_srights_update (\<lambda>n. n + 2)) K;
             let K = ip_reference port (ip_reference port K);
             Some (Inr (IO_PORT port, None), set_entry space name (entry\<lparr>ie_bits := bits - 2\<rparr>) K)
           }
         })"

section \<open>Putting rights into a space\<close>

fun ipc_right_copyout ::
  "space_id \<Rightarrow> mach_port_t \<Rightarrow> ipc_entry \<Rightarrow> msg_right \<Rightarrow> bool \<Rightarrow> port_id \<Rightarrow> ipc_kernel \<Rightarrow>
     kern_return_t \<times> ipc_kernel" where
  "ipc_right_copyout space name entry MACH_MSG_TYPE_PORT_SEND_ONCE overflow port K =
     (KERN_SUCCESS,
      set_entry space name (entry\<lparr>ie_bits := ie_bits entry OR (MACH_PORT_TYPE_SEND_ONCE OR 1)\<rparr>) K)"
| "ipc_right_copyout space name entry MACH_MSG_TYPE_PORT_SEND overflow port K =
     (let bits = ie_bits entry;
          drop = ip_release port \<circ> upd_port port (ip_srights_update (\<lambda>n. n - 1));
          store = set_entry space name (entry\<lparr>ie_bits := (bits OR MACH_PORT_TYPE_SEND) + 1\<rparr>)
      in if test bits MACH_PORT_TYPE_SEND then
           (if IE_BITS_UREFS bits + 1 = MACH_PORT_UREFS_MAX then
              (if overflow then (KERN_SUCCESS, drop K) else (KERN_UREFS_OVERFLOW, K))
            else (KERN_SUCCESS, store (drop K)))
         else if test bits MACH_PORT_TYPE_RECEIVE then (KERN_SUCCESS, store (ip_release port K))
         else (KERN_SUCCESS, store (ipc_hash_insert space port name K)))"
| "ipc_right_copyout space name entry MACH_MSG_TYPE_PORT_RECEIVE overflow port K =
     (let bits = ie_bits entry;
          dest = ip_destination (k_ports K port);
          K = upd_port port (\<lambda>p. p\<lparr>ip_receiver_name := name, ip_data := Ip_Receiver space\<rparr>) K;
          K = (if test bits MACH_PORT_TYPE_SEND
               then ipc_hash_delete space port name (ip_release port K) else K);
          K = set_entry space name (entry\<lparr>ie_bits := bits OR MACH_PORT_TYPE_RECEIVE\<rparr>) K
      in (KERN_SUCCESS, case dest of None \<Rightarrow> K | Some d \<Rightarrow> ip_release d K))"

text \<open>
  The first part of \<^verbatim>\<open>ipc_right_rename\<close>: bring the dead-name request over. \<open>Inl\<close> is the early
  return; otherwise the bits, request and object to store in the new entry.
\<close>

definition rename_request ::
  "space_id \<Rightarrow> mach_port_t \<Rightarrow> ipc_entry \<Rightarrow> mach_port_t \<Rightarrow> ipc_kernel \<Rightarrow>
     ((kern_return_t + ipc_entry) \<times> ipc_kernel) option" where
  "rename_request space oname oentry nname K =
     (if ie_request oentry = 0 then Some (Inr oentry, K)
      else do {
        port \<leftarrow> entry_port oentry;
        (dead, oentry', K) \<leftarrow> ipc_right_check space port oname oentry K;
        if dead then
          (if test (ie_bits oentry) IE_BITS_COMPAT
           then Some (Inl KERN_INVALID_NAME, entry_dealloc space nname K)
           else Some (Inr (oentry'\<lparr>ie_request := 0, ie_object := IO_NULL\<rparr>), K))
        else do {
          K \<leftarrow> ipc_port_dnrename port (ie_request oentry) nname K;
          Some (Inr oentry, K)
        }
      })"

text \<open>The \<^verbatim>\<open>switch\<close> of \<^verbatim>\<open>ipc_right_rename\<close>: tell the object its new name.\<close>

definition rename_object ::
  "space_id \<Rightarrow> mach_port_t \<Rightarrow> mach_port_t \<Rightarrow> ipc_entry \<Rightarrow> ipc_kernel \<Rightarrow> ipc_kernel option" where
  "rename_object space oname nname entry K =
     (let type = IE_BITS_TYPE (ie_bits entry)
      in if type = MACH_PORT_TYPE_SEND then do {
           port \<leftarrow> entry_port entry;
           Some (ipc_hash_insert space port nname (ipc_hash_delete space port oname K))
         }
         else if type = MACH_PORT_TYPE_RECEIVE \<or> type = MACH_PORT_TYPE_SEND_RECEIVE then do {
           port \<leftarrow> entry_port entry;
           Some (upd_port port (ip_receiver_name_update (\<lambda>_. nname)) K)
         }
         else if type = MACH_PORT_TYPE_PORT_SET then do {
           pset \<leftarrow> entry_pset entry;
           Some (upd_pset pset (ips_local_name_update (\<lambda>_. nname)) K)
         }
         else if type = MACH_PORT_TYPE_SEND_ONCE \<or> type = MACH_PORT_TYPE_DEAD_NAME then Some K
         else None)"

definition ipc_right_rename ::
  "space_id \<Rightarrow> mach_port_t \<Rightarrow> ipc_entry \<Rightarrow> mach_port_t \<Rightarrow> ipc_entry \<Rightarrow> ipc_kernel \<Rightarrow>
     (kern_return_t \<times> ipc_kernel) option" where
  "ipc_right_rename space oname oentry nname nentry K =
     do {
       (r, K) \<leftarrow> rename_request space oname oentry nname K;
       case r of
         Inl kr \<Rightarrow> Some (kr, K)
       | Inr entry \<Rightarrow> do {
           K \<leftarrow> (if test (ie_bits entry) IE_BITS_MAREQUEST
                 then ipc_marequest_rename space oname nname K else Some K);
           let nentry = nentry\<lparr>ie_bits := ie_bits nentry OR (ie_bits entry AND IE_BITS_RIGHT_MASK),
                               ie_request := ie_request entry, ie_object := ie_object entry\<rparr>;
           let K = set_entry space nname nentry K;
           K \<leftarrow> rename_object space oname nname entry K;
           Some (KERN_SUCCESS, entry_dealloc space oname K)
         }
     }"

section \<open>Old-style copyin\<close>

definition copyin_compat_port_dealloc ::
  "space_id \<Rightarrow> mach_port_t \<Rightarrow> ipc_entry \<Rightarrow> ipc_kernel \<Rightarrow>
     ((kern_return_t + ipc_object) \<times> ipc_kernel) option" where
  "copyin_compat_port_dealloc space name entry K =
     (let bits = ie_bits entry
      in if IE_BITS_TYPE bits \<noteq> MACH_PORT_TYPE_SEND then Some (Inl KERN_INVALID_RIGHT, K)
         else do {
           port \<leftarrow> entry_port entry;
           (dead, entry', K) \<leftarrow> ipc_right_check space port name entry K;
           if dead then
             Some (Inl (if test bits IE_BITS_COMPAT then KERN_INVALID_NAME else KERN_INVALID_RIGHT), K)
           else do {
             (dnrequest, entry, K) \<leftarrow> ipc_right_dncancel_macro space port name entry K;
             K \<leftarrow> marequest_cancel_if bits space name K;
             let K = entry_dealloc space name (ipc_hash_delete space port name K);
             Some (Inr (IO_PORT port), send_port_deleted dnrequest name K)
           }
         })"

definition copyin_compat_port ::
  "space_id \<Rightarrow> mach_port_t \<Rightarrow> ipc_entry \<Rightarrow> ipc_kernel \<Rightarrow>
     ((kern_return_t + ipc_object) \<times> ipc_kernel) option" where
  "copyin_compat_port space name entry K =
     (let bits = ie_bits entry
      in if \<not> test bits MACH_PORT_TYPE_SEND_RECEIVE then Some (Inl KERN_INVALID_RIGHT, K)
         else do {
           port \<leftarrow> entry_port entry;
           (dead, entry', K) \<leftarrow> ipc_right_check space port name entry K;
           if dead then
             Some (Inl (if test bits IE_BITS_COMPAT then KERN_INVALID_NAME else KERN_INVALID_RIGHT), K)
           else do {
             let K = (if \<not> test bits MACH_PORT_TYPE_SEND
                      then upd_port port (ip_mscount_update (\<lambda>n. n + 1)) K else K);
             let K = upd_port port (ip_srights_update (\<lambda>n. n + 1)) K;
             Some (Inr (IO_PORT port), ip_reference port K)
           }
         })"

definition copyin_compat_all_dealloc ::
  "space_id \<Rightarrow> mach_port_t \<Rightarrow> ipc_entry \<Rightarrow> ipc_kernel \<Rightarrow>
     ((kern_return_t + ipc_object) \<times> ipc_kernel) option" where
  "copyin_compat_all_dealloc space name entry K =
     (let bits = ie_bits entry
      in if \<not> test bits MACH_PORT_TYPE_RECEIVE then Some (Inl KERN_INVALID_RIGHT, K)
         else do {
           port \<leftarrow> entry_port entry;
           (dnrequest, entry, K) \<leftarrow> ipc_right_dncancel_macro space port name entry K;
           K \<leftarrow> marequest_cancel_if bits space name K;
           let K = entry_dealloc space name K;
           let (ns, K) = (if test bits MACH_PORT_TYPE_SEND then drop_sright port K else (None, K));
           let K = port_in_limbo port (ipc_port_clear_receiver port K);
           Some (Inr (IO_PORT port), send_port_deleted dnrequest name (send_no_senders ns K))
         })"

definition copyin_compat_all ::
  "space_id \<Rightarrow> mach_port_t \<Rightarrow> ipc_entry \<Rightarrow> ipc_kernel \<Rightarrow>
     ((kern_return_t + ipc_object) \<times> ipc_kernel) option" where
  "copyin_compat_all space name entry K =
     (let bits = ie_bits entry
      in if \<not> test bits MACH_PORT_TYPE_RECEIVE then Some (Inl KERN_INVALID_RIGHT, K)
         else do {
           port \<leftarrow> entry_port entry;
           let (bits, K) =
             (if \<not> test bits MACH_PORT_TYPE_SEND
              then (bits OR (MACH_PORT_TYPE_SEND OR 1), upd_port port (ip_srights_update (\<lambda>n. n + 1)) K)
              else (bits, K));
           let K = ipc_hash_insert space port name K;
           let K = set_entry space name (entry\<lparr>ie_bits := bits AND NOT MACH_PORT_TYPE_RECEIVE\<rparr>) K;
           let K = port_in_limbo port (ipc_port_clear_receiver port K);
           Some (Inr (IO_PORT port), ip_reference port K)
         })"

datatype compat_type = MSG_TYPE_PORT | MSG_TYPE_PORT_ALL

fun ipc_right_copyin_compat ::
  "space_id \<Rightarrow> mach_port_t \<Rightarrow> ipc_entry \<Rightarrow> compat_type \<Rightarrow> bool \<Rightarrow> ipc_kernel \<Rightarrow>
     ((kern_return_t + ipc_object) \<times> ipc_kernel) option" where
  "ipc_right_copyin_compat space name entry MSG_TYPE_PORT dealloc =
     (if dealloc then copyin_compat_port_dealloc space name entry
      else copyin_compat_port space name entry)"
| "ipc_right_copyin_compat space name entry MSG_TYPE_PORT_ALL dealloc =
     (if dealloc then copyin_compat_all_dealloc space name entry
      else copyin_compat_all space name entry)"

definition ipc_right_copyin_header ::
  "space_id \<Rightarrow> mach_port_t \<Rightarrow> ipc_entry \<Rightarrow> ipc_kernel \<Rightarrow>
     ((kern_return_t + ipc_object \<times> msg_right) \<times> ipc_kernel) option" where
  "ipc_right_copyin_header space name entry K =
     (let bits = ie_bits entry; type = IE_BITS_TYPE bits;
          died = (if test bits IE_BITS_COMPAT then KERN_INVALID_NAME else KERN_INVALID_RIGHT)
      in if type = MACH_PORT_TYPE_PORT_SET \<or> type = MACH_PORT_TYPE_DEAD_NAME
         then Some (Inl KERN_INVALID_RIGHT, K)
         else if type = MACH_PORT_TYPE_RECEIVE then do {
           port \<leftarrow> entry_port entry;
           let K = upd_port port (ip_mscount_update (\<lambda>n. n + 1)) K;
           let K = upd_port port (ip_srights_update (\<lambda>n. n + 1)) K;
           Some (Inr (IO_PORT port, MACH_MSG_TYPE_PORT_SEND), ip_reference port K)
         }
         else if type = MACH_PORT_TYPE_SEND \<or> type = MACH_PORT_TYPE_SEND_RECEIVE then do {
           port \<leftarrow> entry_port entry;
           (dead, entry', K) \<leftarrow> ipc_right_check space port name entry K;
           if dead then Some (Inl died, K)
           else
             Some (Inr (IO_PORT port, MACH_MSG_TYPE_PORT_SEND),
                   ip_reference port (upd_port port (ip_srights_update (\<lambda>n. n + 1)) K))
         }
         else if type = MACH_PORT_TYPE_SEND_ONCE then do {
           port \<leftarrow> entry_port entry;
           (dead, entry', K) \<leftarrow> ipc_right_check space port name entry K;
           if dead then Some (Inl died, K)
           else do {
             (dnrequest, entry, K) \<leftarrow> ipc_right_dncancel_macro space port name entry K;
             let K = entry_dealloc space name K;
             let (notify, K) = ipc_space_make_notify space K;
             let K = send_port_deleted dnrequest name K;
             let K = (case notify of
                        IO_PORT q \<Rightarrow> ipc_notify_port_deleted_compat q name K
                      | _ \<Rightarrow> K);
             Some (Inr (IO_PORT port, MACH_MSG_TYPE_PORT_SEND_ONCE), K)
           }
         }
         else None)"

end
