(* ===== verification/Right_Entry.thy ===== *)
theory Right_Entry
  imports Ipc_Right
begin

text \<open>
  Well-formed entries: the relation between the type, the user-reference count, the flags, the
  object and the request of an entry that the assertions of \<^verbatim>\<open>ipc_right.c\<close> spell out, and how
  the word arithmetic on entries keeps it.
\<close>

section \<open>Well-formed entries\<close>

definition entry_ok :: "ipc_entry \<Rightarrow> bool" where
  "entry_ok entry \<longleftrightarrow>
     (let bits = ie_bits entry; type = IE_BITS_TYPE bits; urefs = IE_BITS_UREFS bits
      in (test bits IE_BITS_COMPAT \<longrightarrow> ie_request entry \<noteq> 0) \<and>
         (if type = MACH_PORT_TYPE_SEND \<or> type = MACH_PORT_TYPE_SEND_RECEIVE then
            entry_port entry \<noteq> None \<and> 0 < urefs \<and> urefs < MACH_PORT_UREFS_MAX
          else if type = MACH_PORT_TYPE_RECEIVE then entry_port entry \<noteq> None \<and> urefs = 0
          else if type = MACH_PORT_TYPE_SEND_ONCE then
            entry_port entry \<noteq> None \<and> urefs = 1 \<and> \<not> test bits IE_BITS_MAREQUEST
          else if type = MACH_PORT_TYPE_DEAD_NAME then
            ie_object entry = IO_NULL \<and> ie_request entry = 0 \<and> 0 < urefs \<and>
            \<not> test bits IE_BITS_MAREQUEST
          else if type = MACH_PORT_TYPE_PORT_SET then
            entry_pset entry \<noteq> None \<and> ie_request entry = 0 \<and> urefs = 0 \<and>
            \<not> test bits IE_BITS_MAREQUEST
          else False))"

lemma entry_types:
  "MACH_PORT_TYPE_SEND \<noteq> MACH_PORT_TYPE_SEND_RECEIVE" "MACH_PORT_TYPE_SEND \<noteq> MACH_PORT_TYPE_RECEIVE"
  "MACH_PORT_TYPE_SEND \<noteq> MACH_PORT_TYPE_SEND_ONCE" "MACH_PORT_TYPE_SEND \<noteq> MACH_PORT_TYPE_DEAD_NAME"
  "MACH_PORT_TYPE_SEND \<noteq> MACH_PORT_TYPE_PORT_SET" "MACH_PORT_TYPE_SEND_RECEIVE \<noteq> MACH_PORT_TYPE_RECEIVE"
  "MACH_PORT_TYPE_SEND_RECEIVE \<noteq> MACH_PORT_TYPE_SEND_ONCE"
  "MACH_PORT_TYPE_SEND_RECEIVE \<noteq> MACH_PORT_TYPE_DEAD_NAME"
  "MACH_PORT_TYPE_SEND_RECEIVE \<noteq> MACH_PORT_TYPE_PORT_SET"
  "MACH_PORT_TYPE_RECEIVE \<noteq> MACH_PORT_TYPE_SEND_ONCE" "MACH_PORT_TYPE_RECEIVE \<noteq> MACH_PORT_TYPE_DEAD_NAME"
  "MACH_PORT_TYPE_RECEIVE \<noteq> MACH_PORT_TYPE_PORT_SET"
  "MACH_PORT_TYPE_SEND_ONCE \<noteq> MACH_PORT_TYPE_DEAD_NAME" "MACH_PORT_TYPE_SEND_ONCE \<noteq> MACH_PORT_TYPE_PORT_SET"
  "MACH_PORT_TYPE_DEAD_NAME \<noteq> MACH_PORT_TYPE_PORT_SET"
  "MACH_PORT_TYPE_NONE \<noteq> MACH_PORT_TYPE_SEND" "MACH_PORT_TYPE_NONE \<noteq> MACH_PORT_TYPE_SEND_RECEIVE"
  "MACH_PORT_TYPE_NONE \<noteq> MACH_PORT_TYPE_RECEIVE" "MACH_PORT_TYPE_NONE \<noteq> MACH_PORT_TYPE_SEND_ONCE"
  "MACH_PORT_TYPE_NONE \<noteq> MACH_PORT_TYPE_DEAD_NAME" "MACH_PORT_TYPE_NONE \<noteq> MACH_PORT_TYPE_PORT_SET"
  by (simp_all add: type_defs)

lemmas entry_types_neq [simp] = entry_types entry_types [symmetric]

text \<open>The tests of the code, for each type an entry can have.\<close>

lemma test_of_type:
  "test bits m \<longleftrightarrow> test (IE_BITS_TYPE bits) m" if "m AND IE_BITS_TYPE_MASK = m"
  using that by (rule test_type)

lemma send_tests:
  assumes "IE_BITS_TYPE bits = MACH_PORT_TYPE_SEND"
  shows "test bits MACH_PORT_TYPE_SEND" "\<not> test bits MACH_PORT_TYPE_RECEIVE"
    "\<not> test bits MACH_PORT_TYPE_SEND_ONCE" "\<not> test bits MACH_PORT_TYPE_DEAD_NAME"
    "\<not> test bits MACH_PORT_TYPE_PORT_SET" "test bits MACH_PORT_TYPE_SEND_RECEIVE"
    "test bits MACH_PORT_TYPE_SEND_RIGHTS" "test bits MACH_PORT_TYPE_PORT_RIGHTS"
  by (subst test_types, simp add: assms test_def type_defs)+

lemma receive_tests:
  assumes "IE_BITS_TYPE bits = MACH_PORT_TYPE_RECEIVE"
  shows "\<not> test bits MACH_PORT_TYPE_SEND" "test bits MACH_PORT_TYPE_RECEIVE"
    "\<not> test bits MACH_PORT_TYPE_SEND_ONCE" "\<not> test bits MACH_PORT_TYPE_DEAD_NAME"
    "\<not> test bits MACH_PORT_TYPE_PORT_SET" "test bits MACH_PORT_TYPE_SEND_RECEIVE"
    "\<not> test bits MACH_PORT_TYPE_SEND_RIGHTS" "test bits MACH_PORT_TYPE_PORT_RIGHTS"
  by (subst test_types, simp add: assms test_def type_defs)+

lemma send_receive_tests:
  assumes "IE_BITS_TYPE bits = MACH_PORT_TYPE_SEND_RECEIVE"
  shows "test bits MACH_PORT_TYPE_SEND" "test bits MACH_PORT_TYPE_RECEIVE"
    "\<not> test bits MACH_PORT_TYPE_SEND_ONCE" "\<not> test bits MACH_PORT_TYPE_DEAD_NAME"
    "\<not> test bits MACH_PORT_TYPE_PORT_SET" "test bits MACH_PORT_TYPE_SEND_RECEIVE"
    "test bits MACH_PORT_TYPE_SEND_RIGHTS" "test bits MACH_PORT_TYPE_PORT_RIGHTS"
  by (subst test_types, simp add: assms test_def type_defs)+

lemma send_once_tests:
  assumes "IE_BITS_TYPE bits = MACH_PORT_TYPE_SEND_ONCE"
  shows "\<not> test bits MACH_PORT_TYPE_SEND" "\<not> test bits MACH_PORT_TYPE_RECEIVE"
    "test bits MACH_PORT_TYPE_SEND_ONCE" "\<not> test bits MACH_PORT_TYPE_DEAD_NAME"
    "\<not> test bits MACH_PORT_TYPE_PORT_SET" "\<not> test bits MACH_PORT_TYPE_SEND_RECEIVE"
    "test bits MACH_PORT_TYPE_SEND_RIGHTS" "test bits MACH_PORT_TYPE_PORT_RIGHTS"
  by (subst test_types, simp add: assms test_def type_defs)+

lemma dead_name_tests:
  assumes "IE_BITS_TYPE bits = MACH_PORT_TYPE_DEAD_NAME"
  shows "\<not> test bits MACH_PORT_TYPE_SEND" "\<not> test bits MACH_PORT_TYPE_RECEIVE"
    "\<not> test bits MACH_PORT_TYPE_SEND_ONCE" "test bits MACH_PORT_TYPE_DEAD_NAME"
    "\<not> test bits MACH_PORT_TYPE_PORT_SET" "\<not> test bits MACH_PORT_TYPE_SEND_RECEIVE"
    "\<not> test bits MACH_PORT_TYPE_SEND_RIGHTS" "\<not> test bits MACH_PORT_TYPE_PORT_RIGHTS"
  by (subst test_types, simp add: assms test_def type_defs)+

lemma port_set_tests:
  assumes "IE_BITS_TYPE bits = MACH_PORT_TYPE_PORT_SET"
  shows "\<not> test bits MACH_PORT_TYPE_SEND" "\<not> test bits MACH_PORT_TYPE_RECEIVE"
    "\<not> test bits MACH_PORT_TYPE_SEND_ONCE" "\<not> test bits MACH_PORT_TYPE_DEAD_NAME"
    "test bits MACH_PORT_TYPE_PORT_SET" "\<not> test bits MACH_PORT_TYPE_SEND_RECEIVE"
    "\<not> test bits MACH_PORT_TYPE_SEND_RIGHTS" "\<not> test bits MACH_PORT_TYPE_PORT_RIGHTS"
  by (subst test_types, simp add: assms test_def type_defs)+

lemmas type_tests =
  send_tests receive_tests send_receive_tests send_once_tests dead_name_tests port_set_tests

text \<open>The six shapes of a well-formed entry.\<close>

lemma entry_ok_cases [consumes 1, case_names send send_receive receive send_once dead_name port_set]:
  assumes ok: "entry_ok e"
  obtains
    (send) p where "IE_BITS_TYPE (ie_bits e) = MACH_PORT_TYPE_SEND" "ie_object e = IO_PORT p"
      "0 < IE_BITS_UREFS (ie_bits e)" "IE_BITS_UREFS (ie_bits e) < MACH_PORT_UREFS_MAX"
  | (send_receive) p where "IE_BITS_TYPE (ie_bits e) = MACH_PORT_TYPE_SEND_RECEIVE"
      "ie_object e = IO_PORT p"
      "0 < IE_BITS_UREFS (ie_bits e)" "IE_BITS_UREFS (ie_bits e) < MACH_PORT_UREFS_MAX"
  | (receive) p where "IE_BITS_TYPE (ie_bits e) = MACH_PORT_TYPE_RECEIVE" "ie_object e = IO_PORT p"
      "IE_BITS_UREFS (ie_bits e) = 0"
  | (send_once) p where "IE_BITS_TYPE (ie_bits e) = MACH_PORT_TYPE_SEND_ONCE" "ie_object e = IO_PORT p"
      "IE_BITS_UREFS (ie_bits e) = 1" "\<not> test (ie_bits e) IE_BITS_MAREQUEST"
  | (dead_name) "IE_BITS_TYPE (ie_bits e) = MACH_PORT_TYPE_DEAD_NAME" "ie_object e = IO_NULL"
      "ie_request e = 0" "0 < IE_BITS_UREFS (ie_bits e)" "\<not> test (ie_bits e) IE_BITS_MAREQUEST"
      "\<not> test (ie_bits e) IE_BITS_COMPAT"
  | (port_set) s where "IE_BITS_TYPE (ie_bits e) = MACH_PORT_TYPE_PORT_SET" "ie_object e = IO_PSET s"
      "ie_request e = 0" "IE_BITS_UREFS (ie_bits e) = 0" "\<not> test (ie_bits e) IE_BITS_MAREQUEST"
      "\<not> test (ie_bits e) IE_BITS_COMPAT"
  using ok unfolding entry_ok_def Let_def entry_port_def entry_pset_def
  by (auto split: if_splits ipc_object.splits)

section \<open>Word arithmetic on entries\<close>

lemma keep_fields:
  assumes "IE_BITS_UREFS bits + d \<le> MACH_PORT_UREFS_MAX"
  shows "IE_BITS_TYPE (bits + d) = IE_BITS_TYPE bits"
    "IE_BITS_UREFS (bits + d) = IE_BITS_UREFS bits + d"
    "test (bits + d) IE_BITS_MAREQUEST = test bits IE_BITS_MAREQUEST"
    "test (bits + d) IE_BITS_COMPAT = test bits IE_BITS_COMPAT"
  using test_with_urefs [OF assms, of IE_BITS_TYPE_MASK bits]
    test_with_urefs [OF assms, of IE_BITS_MAREQUEST bits]
    test_with_urefs [OF assms, of IE_BITS_COMPAT bits] urefs_with_urefs [OF assms]
  by (simp_all add: add_urefs [OF assms] IE_BITS_TYPE_def test_def mask_defs)

lemma decr_bound:
  assumes "0 < IE_BITS_UREFS bits"
  shows "IE_BITS_UREFS bits - 1 \<le> MACH_PORT_UREFS_MAX"
proof -
  have "IE_BITS_UREFS bits - 1 \<le> IE_BITS_UREFS bits"
    using assms by (simp add: word_le_nat_alt unat_minus_one word_gt_0)
  then show ?thesis using urefs_le_max order.trans by blast
qed

lemma decr_fields:
  assumes "0 < IE_BITS_UREFS bits"
  shows "IE_BITS_TYPE (bits - 1) = IE_BITS_TYPE bits"
    "IE_BITS_UREFS (bits - 1) = IE_BITS_UREFS bits - 1"
    "test (bits - 1) IE_BITS_MAREQUEST = test bits IE_BITS_MAREQUEST"
    "test (bits - 1) IE_BITS_COMPAT = test bits IE_BITS_COMPAT"
  using keep_fields [of bits "-1"] decr_bound [OF assms] by simp_all

lemma incr_bound:
  assumes "IE_BITS_UREFS bits < MACH_PORT_UREFS_MAX"
  shows "IE_BITS_UREFS bits + 1 \<le> MACH_PORT_UREFS_MAX"
  using assms by (rule inc_le)

lemma incr_fields:
  assumes "IE_BITS_UREFS bits < MACH_PORT_UREFS_MAX"
  shows "IE_BITS_TYPE (bits + 1) = IE_BITS_TYPE bits"
    "IE_BITS_UREFS (bits + 1) = IE_BITS_UREFS bits + 1"
    "test (bits + 1) IE_BITS_MAREQUEST = test bits IE_BITS_MAREQUEST"
    "test (bits + 1) IE_BITS_COMPAT = test bits IE_BITS_COMPAT"
  using keep_fields [OF incr_bound [OF assms]] .

text \<open>Clearing and setting bits, field by field.\<close>

lemma clear_marequest:
  "IE_BITS_TYPE (bits AND NOT IE_BITS_MAREQUEST) = IE_BITS_TYPE bits"
  "IE_BITS_UREFS (bits AND NOT IE_BITS_MAREQUEST) = IE_BITS_UREFS bits"
  "\<not> test (bits AND NOT IE_BITS_MAREQUEST) IE_BITS_MAREQUEST"
  "test (bits AND NOT IE_BITS_MAREQUEST) IE_BITS_COMPAT = test bits IE_BITS_COMPAT"
  by (simp_all add: field_defs mask_defs and.assoc)

lemma to_dead_name:
  "IE_BITS_TYPE ((bits AND NOT IE_BITS_TYPE_MASK) OR MACH_PORT_TYPE_DEAD_NAME) = MACH_PORT_TYPE_DEAD_NAME"
  "IE_BITS_UREFS ((bits AND NOT IE_BITS_TYPE_MASK) OR MACH_PORT_TYPE_DEAD_NAME) = IE_BITS_UREFS bits"
  "test ((bits AND NOT IE_BITS_TYPE_MASK) OR MACH_PORT_TYPE_DEAD_NAME) IE_BITS_MAREQUEST =
     test bits IE_BITS_MAREQUEST"
  "test ((bits AND NOT IE_BITS_TYPE_MASK) OR MACH_PORT_TYPE_DEAD_NAME) IE_BITS_COMPAT =
     test bits IE_BITS_COMPAT"
  by (simp_all add: bits_defs and.assoc bit.conj_disj_distrib2)

lemma clear_send:
  "IE_BITS_TYPE (bits AND NOT (IE_BITS_UREFS_MASK OR MACH_PORT_TYPE_SEND)) =
     IE_BITS_TYPE bits AND NOT MACH_PORT_TYPE_SEND"
  "IE_BITS_UREFS (bits AND NOT (IE_BITS_UREFS_MASK OR MACH_PORT_TYPE_SEND)) = 0"
  "test (bits AND NOT (IE_BITS_UREFS_MASK OR MACH_PORT_TYPE_SEND)) IE_BITS_MAREQUEST =
     test bits IE_BITS_MAREQUEST"
  "test (bits AND NOT (IE_BITS_UREFS_MASK OR MACH_PORT_TYPE_SEND)) IE_BITS_COMPAT =
     test bits IE_BITS_COMPAT"
  by (simp_all add: bits_defs and.assoc)

lemma clear_receive:
  "IE_BITS_TYPE (bits AND NOT MACH_PORT_TYPE_RECEIVE) = IE_BITS_TYPE bits AND NOT MACH_PORT_TYPE_RECEIVE"
  "IE_BITS_UREFS (bits AND NOT MACH_PORT_TYPE_RECEIVE) = IE_BITS_UREFS bits"
  "test (bits AND NOT MACH_PORT_TYPE_RECEIVE) IE_BITS_MAREQUEST = test bits IE_BITS_MAREQUEST"
  "test (bits AND NOT MACH_PORT_TYPE_RECEIVE) IE_BITS_COMPAT = test bits IE_BITS_COMPAT"
  by (simp_all add: bits_defs and.assoc)

lemma clear_compat:
  "IE_BITS_TYPE (bits AND NOT IE_BITS_COMPAT) = IE_BITS_TYPE bits"
  "IE_BITS_UREFS (bits AND NOT IE_BITS_COMPAT) = IE_BITS_UREFS bits"
  "test (bits AND NOT IE_BITS_COMPAT) IE_BITS_MAREQUEST = test bits IE_BITS_MAREQUEST"
  "\<not> test (bits AND NOT IE_BITS_COMPAT) IE_BITS_COMPAT"
  by (simp_all add: field_defs mask_defs and.assoc)

lemma set_send:
  "IE_BITS_TYPE (bits OR MACH_PORT_TYPE_SEND) = IE_BITS_TYPE bits OR MACH_PORT_TYPE_SEND"
  "IE_BITS_UREFS (bits OR MACH_PORT_TYPE_SEND) = IE_BITS_UREFS bits"
  "test (bits OR MACH_PORT_TYPE_SEND) IE_BITS_MAREQUEST = test bits IE_BITS_MAREQUEST"
  "test (bits OR MACH_PORT_TYPE_SEND) IE_BITS_COMPAT = test bits IE_BITS_COMPAT"
  by (simp_all add: bits_defs and.assoc bit.conj_disj_distrib2)

lemma set_receive:
  "IE_BITS_TYPE (bits OR MACH_PORT_TYPE_RECEIVE) = IE_BITS_TYPE bits OR MACH_PORT_TYPE_RECEIVE"
  "IE_BITS_UREFS (bits OR MACH_PORT_TYPE_RECEIVE) = IE_BITS_UREFS bits"
  "test (bits OR MACH_PORT_TYPE_RECEIVE) IE_BITS_MAREQUEST = test bits IE_BITS_MAREQUEST"
  "test (bits OR MACH_PORT_TYPE_RECEIVE) IE_BITS_COMPAT = test bits IE_BITS_COMPAT"
  by (simp_all add: bits_defs and.assoc bit.conj_disj_distrib2)

lemma type_combinations:
  "MACH_PORT_TYPE_SEND AND NOT MACH_PORT_TYPE_SEND = MACH_PORT_TYPE_NONE"
  "MACH_PORT_TYPE_SEND_RECEIVE AND NOT MACH_PORT_TYPE_SEND = MACH_PORT_TYPE_RECEIVE"
  "MACH_PORT_TYPE_RECEIVE AND NOT MACH_PORT_TYPE_RECEIVE = MACH_PORT_TYPE_NONE"
  "MACH_PORT_TYPE_SEND_RECEIVE AND NOT MACH_PORT_TYPE_RECEIVE = MACH_PORT_TYPE_SEND"
  "MACH_PORT_TYPE_NONE OR MACH_PORT_TYPE_SEND = MACH_PORT_TYPE_SEND"
  "MACH_PORT_TYPE_RECEIVE OR MACH_PORT_TYPE_SEND = MACH_PORT_TYPE_SEND_RECEIVE"
  "MACH_PORT_TYPE_SEND OR MACH_PORT_TYPE_SEND = MACH_PORT_TYPE_SEND"
  "MACH_PORT_TYPE_SEND_RECEIVE OR MACH_PORT_TYPE_SEND = MACH_PORT_TYPE_SEND_RECEIVE"
  "MACH_PORT_TYPE_NONE OR MACH_PORT_TYPE_RECEIVE = MACH_PORT_TYPE_RECEIVE"
  "MACH_PORT_TYPE_SEND OR MACH_PORT_TYPE_RECEIVE = MACH_PORT_TYPE_SEND_RECEIVE"
  by (simp_all add: type_defs)

section \<open>Turning a right of a dead port into a dead name\<close>

definition marequest_ok :: "ipc_kernel \<Rightarrow> space_id \<Rightarrow> mach_port_t \<Rightarrow> ipc_entry \<Rightarrow> bool" where
  "marequest_ok K s n e \<longleftrightarrow> (test (ie_bits e) IE_BITS_MAREQUEST \<longrightarrow> imar_find s n K \<noteq> None)"

lemma marequest_cancel_frame:
  assumes "marequest_cancel_if bits s n K = Some K1"
  shows "k_spaces K1 = k_spaces K" "k_ports K1 = k_ports K" "k_hash K1 = k_hash K"
    "k_psets K1 = k_psets K" "k_nomem K1 = k_nomem K" "k_dn_sizes K1 = k_dn_sizes K"
    "k_timestamp K1 = k_timestamp K"
  using assms
  by (auto simp: marequest_cancel_if_def ipc_marequest_cancel_def upd_imar_def imar_unlink_def Let_def
      split: if_splits bind_splits)

lemma marequest_cancel_total:
  assumes "marequest_ok K s n e"
  obtains K1 where "marequest_cancel_if (ie_bits e) s n K = Some K1"
  using assms unfolding marequest_ok_def marequest_cancel_if_def ipc_marequest_cancel_def
  by (cases "test (ie_bits e) IE_BITS_MAREQUEST"; cases "imar_find s n K") auto

lemma check_active [simp]:
  "ip_active (k_ports K p) \<Longrightarrow> ipc_right_check s p n e K = Some (False, e, K)"
  by (simp add: ipc_right_check_def)

text \<open>The entry and state that \<^verbatim>\<open>ipc_right_check\<close> leaves behind for a dead port.\<close>

definition dead_entry :: "ipc_entry \<Rightarrow> ipc_entry" where
  "dead_entry e =
     (let bits = (if test (ie_bits e) MACH_PORT_TYPE_SEND then ie_bits e AND NOT IE_BITS_MAREQUEST
                  else ie_bits e);
          bits = (bits AND NOT IE_BITS_TYPE_MASK) OR MACH_PORT_TYPE_DEAD_NAME
      in e\<lparr>ie_request := 0, ie_bits := (if ie_request e \<noteq> 0 then bits + 1 else bits),
           ie_object := IO_NULL\<rparr>)"

lemma check_dead:
  assumes "\<not> ip_active (k_ports K p)" and "marequest_ok K s n e"
  shows "\<exists>K'. k_spaces K' = k_spaces K \<and>
           ipc_right_check s p n e K =
             Some (True, if test (ie_bits e) IE_BITS_COMPAT then e\<lparr>ie_request := 0, ie_object := IO_NULL\<rparr>
                         else dead_entry e,
                   if test (ie_bits e) IE_BITS_COMPAT then entry_dealloc s n K'
                   else set_entry s n (dead_entry e) K')"
proof -
  obtain K1 where K1: "marequest_cancel_if (ie_bits e) s n K = Some K1"
    using marequest_cancel_total [OF assms(2)] .
  show ?thesis
    by (rule exI [of _ "ip_release p (if test (ie_bits e) MACH_PORT_TYPE_SEND
                                      then ipc_hash_delete s p n K1 else K)"])
       (simp add: ipc_right_check_def assms(1) K1 marequest_cancel_frame [OF K1] dead_entry_def
         Let_def clear_marequest)
qed

lemma dead_entry_ok:
  assumes "entry_ok e" and "\<not> test (ie_bits e) IE_BITS_COMPAT"
    and "IE_BITS_TYPE (ie_bits e) = MACH_PORT_TYPE_SEND \<or>
         IE_BITS_TYPE (ie_bits e) = MACH_PORT_TYPE_SEND_ONCE"
  shows "IE_BITS_TYPE (ie_bits (dead_entry e)) = MACH_PORT_TYPE_DEAD_NAME"
    and "IE_BITS_UREFS (ie_bits (dead_entry e)) =
           IE_BITS_UREFS (ie_bits e) + (if ie_request e \<noteq> 0 then 1 else 0)"
    and "\<not> test (ie_bits (dead_entry e)) IE_BITS_MAREQUEST"
    and "\<not> test (ie_bits (dead_entry e)) IE_BITS_COMPAT"
    and "0 < IE_BITS_UREFS (ie_bits (dead_entry e))"
    and "entry_ok (dead_entry e)"
proof -
  let ?b = "if test (ie_bits e) MACH_PORT_TYPE_SEND then ie_bits e AND NOT IE_BITS_MAREQUEST else ie_bits e"
  let ?d = "(?b AND NOT IE_BITS_TYPE_MASK) OR MACH_PORT_TYPE_DEAD_NAME"
  have max: "IE_BITS_UREFS (ie_bits e) < MACH_PORT_UREFS_MAX" and pos: "0 < IE_BITS_UREFS (ie_bits e)"
    using assms(1,3) by (cases e rule: entry_ok_cases; simp add: MACH_PORT_UREFS_MAX_def)+
  have mar: "\<not> test ?b IE_BITS_MAREQUEST"
    using assms(1,3) by (cases e rule: entry_ok_cases) (auto simp: clear_marequest send_tests)
  have u: "IE_BITS_UREFS ?d = IE_BITS_UREFS (ie_bits e)" by (simp add: to_dead_name clear_marequest)
  have pos1: "0 < IE_BITS_UREFS (ie_bits e) + 1"
  proof (rule ccontr)
    assume "\<not> 0 < IE_BITS_UREFS (ie_bits e) + 1"
    then have "IE_BITS_UREFS (ie_bits e) = -1" by (simp add: word_gt_0 eq_neg_iff_add_eq_0)
    with max show False by (simp add: MACH_PORT_UREFS_MAX_def)
  qed
  note f = incr_fields [of ?d, unfolded u, OF max]
  show t: "IE_BITS_TYPE (ie_bits (dead_entry e)) = MACH_PORT_TYPE_DEAD_NAME"
    by (simp add: dead_entry_def Let_def f to_dead_name)
  show v: "IE_BITS_UREFS (ie_bits (dead_entry e)) =
      IE_BITS_UREFS (ie_bits e) + (if ie_request e \<noteq> 0 then 1 else 0)"
    by (simp add: dead_entry_def Let_def f u)
  show m: "\<not> test (ie_bits (dead_entry e)) IE_BITS_MAREQUEST"
    using mar by (simp add: dead_entry_def Let_def f to_dead_name)
  show c: "\<not> test (ie_bits (dead_entry e)) IE_BITS_COMPAT"
    using assms(2) by (simp add: dead_entry_def Let_def f to_dead_name clear_marequest)
  show w: "0 < IE_BITS_UREFS (ie_bits (dead_entry e))" using pos pos1 by (simp add: v)
  have "ie_object (dead_entry e) = IO_NULL" "ie_request (dead_entry e) = 0"
    by (simp_all add: dead_entry_def Let_def)
  then show "entry_ok (dead_entry e)" using t m c w by (simp add: entry_ok_def Let_def)
qed

end
