(* ===== verification/Right_Equiv.thy ===== *)
theory Right_Equiv
  imports Right_Entry
begin

text \<open>
  Routines of \<^verbatim>\<open>ipc_right.c\<close> that are described in terms of others: releasing a reference is a
  change by -1, and moving two send rights at once is moving one twice.
\<close>

section \<open>Releasing a reference is a change of -1\<close>

lemma minus_one_signed [simp]:
  "(-1 :: natural_t) <s 0" "\<not> 0 <s (-1 :: natural_t)" "\<not> (-1 :: natural_t) <s -1"
  by (simp_all add: word_sless_alt)

lemma minus_one_urefs:
  "0 < urefs \<Longrightarrow> \<not> MACH_PORT_UREFS_UNDERFLOW urefs (-1)"
  "\<not> MACH_PORT_UREFS_OVERFLOW urefs (-1)"
  by (simp_all add: MACH_PORT_UREFS_UNDERFLOW_def MACH_PORT_UREFS_OVERFLOW_def
      word_gt_0 word_less_nat_alt unat_eq_0) auto

text \<open>The right whose count \<^verbatim>\<open>ipc_right_dealloc\<close> changes: what the entry denotes right now.\<close>

definition dealloc_right :: "ipc_entry \<Rightarrow> ipc_kernel \<Rightarrow> mach_port_right" where
  "dealloc_right e K =
     (case entry_port e of
        None \<Rightarrow> MACH_PORT_RIGHT_DEAD_NAME
      | Some p \<Rightarrow>
          if \<not> ip_active (k_ports K p) then MACH_PORT_RIGHT_DEAD_NAME
          else if IE_BITS_TYPE (ie_bits e) = MACH_PORT_TYPE_SEND_ONCE then MACH_PORT_RIGHT_SEND_ONCE
          else MACH_PORT_RIGHT_SEND)"

lemma dealloc_dead_name_delta:
  assumes "0 < IE_BITS_UREFS (ie_bits e)"
  shows "(let urefs = IE_BITS_UREFS (ie_bits e)
          in if MACH_PORT_UREFS_UNDERFLOW urefs (-1) then (KERN_INVALID_VALUE, K)
             else if MACH_PORT_UREFS_OVERFLOW urefs (-1) then (KERN_UREFS_OVERFLOW, K)
             else (KERN_SUCCESS,
                   if urefs + -1 = 0 then entry_dealloc s n K
                   else set_entry s n (e\<lparr>ie_bits := ie_bits e + -1\<rparr>) K)) =
         (KERN_SUCCESS, dealloc_dead_name s n e K)"
  using assms by (simp add: Let_def minus_one_urefs dealloc_dead_name_def)

text \<open>
  C35: on a well-formed entry that holds only a receive right or a port set, \<^verbatim>\<open>ipc_right_dealloc\<close> returns
  \<^verbatim>\<open>KERN_INVALID_RIGHT\<close> and changes nothing. On every other well-formed entry, which holds send, send-once or
  dead-name references, it does exactly what \<^verbatim>\<open>ipc_right_delta\<close> does with a delta of -1 for the right
  the name denotes at that moment, return code and state included (a right to a dead port
  counts as a dead name), as its header comment promises. The port of an entry with a receive and a send right is alive,
  and the message-accepted request of the entry, if it has one, is registered.
\<close>

theorem dealloc_is_delta:
  assumes "entry_ok e" and "marequest_ok K s n e"
    and "IE_BITS_TYPE (ie_bits e) = MACH_PORT_TYPE_SEND_RECEIVE \<longrightarrow>
           (\<exists>p. ie_object e = IO_PORT p \<and> ip_active (k_ports K p))"
  shows "ipc_right_dealloc s n e K =
    (if IE_BITS_TYPE (ie_bits e) = MACH_PORT_TYPE_RECEIVE \<or> IE_BITS_TYPE (ie_bits e) = MACH_PORT_TYPE_PORT_SET
     then Some (KERN_INVALID_RIGHT, K)
     else ipc_right_delta s n e (dealloc_right e K) (-1) K)"
  using assms(1)
proof (cases e rule: entry_ok_cases)
  case dead_name
  then show ?thesis
    using dealloc_dead_name_delta [of e K s n]
    by (simp add: ipc_right_dealloc_def dealloc_right_def entry_port_def delta_dead_name_def
        dead_name_tests)
next
  case (send_once p)
  note t = send_once_tests [OF send_once(1)]
  show ?thesis
  proof (cases "ip_active (k_ports K p)")
    case True
    with send_once t show ?thesis
      by (simp add: ipc_right_dealloc_def dealloc_right_def entry_port_def delta_send_once_def
          dealloc_send_once_def)
  next
    case False
    obtain K' where c: "ipc_right_check s p n e K =
        Some (True, if test (ie_bits e) IE_BITS_COMPAT then e\<lparr>ie_request := 0, ie_object := IO_NULL\<rparr>
                    else dead_entry e,
              if test (ie_bits e) IE_BITS_COMPAT then entry_dealloc s n K'
              else set_entry s n (dead_entry e) K')"
      using check_dead [OF False assms(2)] by blast
    show ?thesis
      using send_once t False dead_entry_ok(5) [OF assms(1)] dealloc_dead_name_delta [of "dead_entry e"]
      by (simp add: ipc_right_dealloc_def dealloc_right_def entry_port_def delta_dead_name_def
          dealloc_send_once_def c)
  qed
next
  case (send p)
  note t = send_tests [OF send(1)]
  show ?thesis
  proof (cases "ip_active (k_ports K p)")
    case True
    with send t show ?thesis
      by (simp add: ipc_right_dealloc_def dealloc_right_def entry_port_def delta_send_def
          dealloc_send_def minus_one_urefs Let_def)
  next
    case False
    obtain K' where c: "ipc_right_check s p n e K =
        Some (True, if test (ie_bits e) IE_BITS_COMPAT then e\<lparr>ie_request := 0, ie_object := IO_NULL\<rparr>
                    else dead_entry e,
              if test (ie_bits e) IE_BITS_COMPAT then entry_dealloc s n K'
              else set_entry s n (dead_entry e) K')"
      using check_dead [OF False assms(2)] by blast
    show ?thesis
      using send t False dead_entry_ok(5) [OF assms(1)] dealloc_dead_name_delta [of "dead_entry e"]
      by (simp add: ipc_right_dealloc_def dealloc_right_def entry_port_def delta_dead_name_def
          dealloc_send_def c)
  qed
next
  case (send_receive p)
  with assms(3) have a: "ip_active (k_ports K p)" by auto
  from send_receive a send_receive_tests [OF send_receive(1)] show ?thesis
    by (simp add: ipc_right_dealloc_def dealloc_right_def entry_port_def delta_send_def
        dealloc_send_receive_def minus_one_urefs Let_def send_port_deleted_def split_beta)
qed (simp_all add: ipc_right_dealloc_def)

theorem dealloc_is_delta_witness:
  "let e = \<lparr>ie_bits = 0x00010003, ie_object = IO_PORT 1, ie_request = 0\<rparr>
   in ipc_right_dealloc 1 5 e kernel0 = ipc_right_delta 1 5 e MACH_PORT_RIGHT_SEND (-1) kernel0"
proof -
  let ?e = "\<lparr>ie_bits = 0x00010003, ie_object = IO_PORT 1, ie_request = 0\<rparr>"
  have "entry_ok ?e" "marequest_ok kernel0 1 5 ?e"
    "dealloc_right ?e kernel0 = MACH_PORT_RIGHT_SEND"
    by (simp_all add: entry_ok_def marequest_ok_def dealloc_right_def entry_port_def bits_defs state0_defs)
  with dealloc_is_delta [of ?e kernel0 1 5] show ?thesis by (simp add: bits_defs)
qed

section \<open>Moving two send rights at once\<close>

text \<open>Two moves of a send right, one after the other, with the entry re-read in between.\<close>

definition move_send_twice ::
  "space_id \<Rightarrow> mach_port_t \<Rightarrow> ipc_entry \<Rightarrow> ipc_kernel \<Rightarrow> copyin_result option" where
  "move_send_twice s n e K =
     do {
       (r, K) \<leftarrow> ipc_right_copyin s n e MACH_MSG_TYPE_MOVE_SEND False K;
       e \<leftarrow> entries K s n;
       ipc_right_copyin s n e MACH_MSG_TYPE_MOVE_SEND False K
     }"

lemma upd_port_upd_port: "upd_port p f (upd_port p g K) = upd_port p (\<lambda>x. f (g x)) K"
  by (simp add: upd_port_def)

lemma upd_port_set_entry: "upd_port p f (set_entry s n e K) = set_entry s n e (upd_port p f K)"
  by (simp add: upd_defs)

lemma set_entry_set_entry [simp]: "set_entry s n e (set_entry s n e' K) = set_entry s n e K"
  by (simp add: upd_defs fun_eq_iff)

lemma active_set_entry [simp]: "k_ports (set_entry s n e K) = k_ports K"
  by (simp add: upd_defs)

lemma clear_send_decr:
  assumes "0 < IE_BITS_UREFS bits"
  shows "(bits - 1) AND NOT (IE_BITS_UREFS_MASK OR MACH_PORT_TYPE_SEND) =
         bits AND NOT (IE_BITS_UREFS_MASK OR MACH_PORT_TYPE_SEND)"
proof -
  let ?m = "NOT (IE_BITS_UREFS_MASK OR MACH_PORT_TYPE_SEND)" and ?v = "IE_BITS_UREFS bits + -1"
  have v: "?v \<le> MACH_PORT_UREFS_MAX" using decr_bound [OF assms] by simp
  have "?v AND ?m = (?v AND IE_BITS_UREFS_MASK) AND ?m" by (simp only: small_and_mask [OF v])
  then have "?v AND ?m = 0" by (simp add: mask_defs type_defs and.assoc)
  moreover have "(bits AND NOT IE_BITS_UREFS_MASK) AND ?m = bits AND ?m"
    by (simp add: mask_defs type_defs and.assoc)
  ultimately show ?thesis
    using add_urefs [OF v] by (simp add: with_urefs_def bit.conj_disj_distrib2)
qed

lemma imar_frame [simp]:
  "imar_find s n (upd_port p f K) = imar_find s n K"
  "imar_find s n (set_entry s' n' e K) = imar_find s n K"
  "imar_find s n (is_release s' K) = imar_find s n K"
  "imar_find s n (ipc_hash_delete s' p n' K) = imar_find s n K"
  by (simp_all add: imar_find_def upd_defs is_release_def ipc_hash_delete_def)

text \<open>
  Counting up the rights of a port commutes with taking its send right out of the entry, and
  what is stored in the entry before does not matter.
\<close>

lemma dncancel_commute:
  assumes "\<And>x. ip_dnrequests (f x) = ip_dnrequests x"
    and "\<And>x g. f (ip_dnrequests_update g x) = ip_dnrequests_update g (f x)"
    and "test b IE_BITS_COMPAT = test (ie_bits e) IE_BITS_COMPAT"
  shows "ipc_right_dncancel_macro s p n (e\<lparr>ie_bits := b\<rparr>) (set_entry s n (e\<lparr>ie_bits := b\<rparr>) (upd_port p f K)) =
         map_option (\<lambda>(d, e', K'). (d, e'\<lparr>ie_bits := b\<rparr>, set_entry s n (e'\<lparr>ie_bits := b\<rparr>) (upd_port p f K')))
           (ipc_right_dncancel_macro s p n e K)"
proof (cases "ie_request e = 0")
  case True
  then show ?thesis by (simp add: ipc_right_dncancel_macro_def)
next
  case False
  then show ?thesis
    by (auto simp: ipc_right_dncancel_macro_def ipc_right_dncancel_def ipc_port_dncancel_def assms
        is_release_def upd_defs Let_def fun_eq_iff
        split: option.split bind_split prod.split ipr_notify.split)
qed

lemma marequest_commute:
  "marequest_cancel_if b s n (ipc_hash_delete s p n (set_entry s n x (upd_port p f K))) =
     map_option (\<lambda>K'. set_entry s n x (upd_port p f K'))
       (marequest_cancel_if b s n (ipc_hash_delete s p n K))"
  by (auto simp: marequest_cancel_if_def ipc_marequest_cancel_def imar_find_def imar_unlink_def
      upd_imar_def ipc_hash_delete_def upd_defs Let_def split: bind_split)

lemma marequest_same:
  "test b IE_BITS_MAREQUEST = test b' IE_BITS_MAREQUEST \<Longrightarrow>
     marequest_cancel_if b = marequest_cancel_if b'"
  by (simp add: marequest_cancel_if_def fun_eq_iff)

definition add_sright :: "ipc_port \<Rightarrow> ipc_port" where
  "add_sright x = ip_references_update (\<lambda>n. n + 1) (ip_srights_update (\<lambda>n. n + 1) x)"

lemma add_sright_port:
  "ip_reference p (upd_port p (ip_srights_update Suc) K) = upd_port p add_sright K"
  by (simp add: ip_reference_def upd_port_upd_port add_sright_def [abs_def])

lemma dncancel_bits:
  "ipc_right_dncancel_macro s p n e K = Some (d, e', K') \<Longrightarrow> ie_bits e' = ie_bits e"
  by (auto simp: ipc_right_dncancel_macro_def ipc_right_dncancel_def Let_def
      split: if_splits bind_splits prod.splits ipr_notify.splits)

text \<open>One move of a live send right with more than one reference, and the move of the last one.\<close>

lemma move_send_many:
  assumes "test (ie_bits e) MACH_PORT_TYPE_SEND" "\<not> test (ie_bits e) MACH_PORT_TYPE_DEAD_NAME"
    "test (ie_bits e) MACH_PORT_TYPE_SEND_RIGHTS"
    "ie_object e = IO_PORT p" "ip_active (k_ports K p)" "IE_BITS_UREFS (ie_bits e) \<noteq> 1"
  shows "ipc_right_copyin s n e MACH_MSG_TYPE_MOVE_SEND deadok K =
     Some (Inr (IO_PORT p, None),
           set_entry s n (e\<lparr>ie_bits := ie_bits e - 1\<rparr>) (upd_port p add_sright K))"
  using assms by (simp add: copyin_move_send_def entry_port_def Let_def add_sright_port)

text \<open>
  On a live send right with at least two user references, \<^verbatim>\<open>ipc_right_copyin_two\<close> gives the same
  object, dead-name send-once right and kernel state as two successive \<^verbatim>\<open>ipc_right_copyin\<close> calls
  with \<^verbatim>\<open>MACH_MSG_TYPE_MOVE_SEND\<close>, counts of rights, references and user references included.
\<close>

theorem copyin_two_is_two_moves:
  assumes "entry_ok e" and "test (ie_bits e) MACH_PORT_TYPE_SEND"
    and "ie_object e = IO_PORT p" and "ip_active (k_ports K p)"
    and "2 \<le> IE_BITS_UREFS (ie_bits e)"
  shows "ipc_right_copyin_two s n e K = move_send_twice s n e K"
proof -
  let ?u = "IE_BITS_UREFS (ie_bits e)" and ?b = "ie_bits e - 1"
  let ?K1 = "set_entry s n (e\<lparr>ie_bits := ?b\<rparr>) (upd_port p add_sright K)"
  have u: "?u \<noteq> 1" "0 < ?u" "\<not> ?u < 2"
    using assms(5) by (auto simp: word_le_nat_alt word_less_nat_alt)
  note d = decr_fields [OF u(2)]
  have u1: "IE_BITS_UREFS ?b = 1 \<longleftrightarrow> ?u = 2" using d(2) by (simp add: diff_eq_eq)
  have types: "\<not> test (ie_bits e) MACH_PORT_TYPE_DEAD_NAME" "test (ie_bits e) MACH_PORT_TYPE_SEND_RIGHTS"
    using assms(1,2) by (cases e rule: entry_ok_cases; simp add: type_tests)+
  have same: "test ?b m = test (ie_bits e) m" if "m AND IE_BITS_TYPE_MASK = m" for m
    using test_type [OF that] d(1) by metis
  have tests: "test ?b MACH_PORT_TYPE_SEND" "\<not> test ?b MACH_PORT_TYPE_DEAD_NAME"
    "test ?b MACH_PORT_TYPE_SEND_RIGHTS"
    "test ?b MACH_PORT_TYPE_RECEIVE = test (ie_bits e) MACH_PORT_TYPE_RECEIVE"
    using types assms(2) by (simp_all add: same type_defs mask_defs)
  have active: "ip_active (k_ports ?K1 p)" using assms(4) by (simp add: add_sright_def)
  have twice: "move_send_twice s n e K = copyin_move_send s n (e\<lparr>ie_bits := ?b\<rparr>) False ?K1"
    using move_send_many [OF assms(2) types assms(3,4) u(1), of s n False]
    by (simp add: move_send_twice_def)
  show ?thesis
  proof (cases "?u = 2")
    case False
    then have "copyin_move_send s n (e\<lparr>ie_bits := ?b\<rparr>) False ?K1 =
        Some (Inr (IO_PORT p, None), set_entry s n (e\<lparr>ie_bits := ?b - 1\<rparr>) (upd_port p add_sright ?K1))"
      using move_send_many [of "e\<lparr>ie_bits := ?b\<rparr>" p ?K1 s n False] tests assms(3) active u1 by simp
    moreover have "ipc_right_copyin_two s n e K =
        Some (Inr (IO_PORT p, None), set_entry s n (e\<lparr>ie_bits := ie_bits e - 2\<rparr>)
          (ip_reference p (ip_reference p (upd_port p (ip_srights_update (\<lambda>n. n + 2)) K))))"
      using False assms(2,3,4) u by (simp add: ipc_right_copyin_two_def entry_port_def Let_def)
    ultimately show ?thesis
      by (simp add: twice upd_port_set_entry upd_port_upd_port ip_reference_def add_sright_def comp_def)
  next
    case True
    show ?thesis
    proof (cases "test (ie_bits e) MACH_PORT_TYPE_RECEIVE")
      case recv: True
      have "ipc_right_copyin_two s n e K = Some (Inr (IO_PORT p, None),
          set_entry s n (e\<lparr>ie_bits := ie_bits e AND NOT (IE_BITS_UREFS_MASK OR MACH_PORT_TYPE_SEND)\<rparr>)
            (ip_reference p (upd_port p add_sright K)))"
        using True recv assms(2,3,4) u
        by (simp add: ipc_right_copyin_two_def entry_port_def Let_def flip: add_sright_port)
      then show ?thesis
        using tests recv assms(3) active u1 True clear_send_decr [OF u(2)]
        by (simp add: twice copyin_move_send_def entry_port_def Let_def ip_reference_def upd_port_set_entry)
    next
      case send: False
      note commute = dncancel_commute [where f = add_sright and s = s and p = p and n = n and e = e
        and b = ?b and K = K]
      have f: "\<And>x. ip_dnrequests (add_sright x) = ip_dnrequests x"
        "\<And>x g. add_sright (ip_dnrequests_update g x) = ip_dnrequests_update g (add_sright x)"
        by (simp_all add: add_sright_def)
      have second: "copyin_move_send s n (e\<lparr>ie_bits := ?b\<rparr>) False ?K1 =
          do { (dn, e', K') \<leftarrow> ipc_right_dncancel_macro s p n (e\<lparr>ie_bits := ?b\<rparr>) ?K1;
               K' \<leftarrow> marequest_cancel_if (ie_bits e) s n (ipc_hash_delete s p n K');
               Some (Inr (IO_PORT p, dn), set_entry s n (e'\<lparr>ie_object := IO_NULL,
                 ie_bits := ie_bits e AND NOT (IE_BITS_UREFS_MASK OR MACH_PORT_TYPE_SEND)\<rparr>) K') }"
        using tests send assms(3) active u1 True clear_send_decr [OF u(2)] marequest_same [OF d(3)]
        by (simp add: copyin_move_send_def entry_port_def Let_def bind_assoc case_prod_unfold)
      have first: "ipc_right_copyin_two s n e K =
          do { (dn, e', K') \<leftarrow> ipc_right_dncancel_macro s p n e K;
               K' \<leftarrow> marequest_cancel_if (ie_bits e) s n (ipc_hash_delete s p n K');
               Some (Inr (IO_PORT p, dn), set_entry s n (e'\<lparr>ie_object := IO_NULL,
                 ie_bits := ie_bits e AND NOT (IE_BITS_UREFS_MASK OR MACH_PORT_TYPE_SEND)\<rparr>)
                 (upd_port p add_sright K')) }"
        using True send assms(2,3,4) u
        by (simp add: ipc_right_copyin_two_def entry_port_def Let_def bind_assoc case_prod_unfold add_sright_port)
      show ?thesis
        unfolding twice second first commute [OF f d(4)]
        by (cases "ipc_right_dncancel_macro s p n e K")
           (auto simp: marequest_commute split: bind_split option.split)
    qed
  qed
qed

theorem copyin_two_is_two_moves_witness:
  "let e = \<lparr>ie_bits = 0x00010002, ie_object = IO_PORT 1, ie_request = 0\<rparr>
   in ipc_right_copyin_two 1 5 e kernel0 = move_send_twice 1 5 e kernel0"
proof -
  let ?e = "\<lparr>ie_bits = 0x00010002, ie_object = IO_PORT 1, ie_request = 0\<rparr>"
  have "entry_ok ?e" "test (ie_bits ?e) MACH_PORT_TYPE_SEND" "ie_object ?e = IO_PORT 1"
    "ip_active (k_ports kernel0 1)" "2 \<le> IE_BITS_UREFS (ie_bits ?e)"
    by (simp_all add: entry_ok_def entry_port_def bits_defs state0_defs)
  from copyin_two_is_two_moves [OF this] show ?thesis by (simp add: Let_def)
qed

end
