(* ===== verification/Port_Queues.thy ===== *)
theory Port_Queues
  imports Ipc_Port "HOL-Library.Multiset"
begin

text \<open>
  Messages on their way: what \<^verbatim>\<open>ipc_mqueue_send\<close> does with a message, and how port sets take
  over and give back the messages of their members. Messages are counted with multisets,
  so that none can get lost or be delivered twice.
\<close>

section \<open>Where messages are\<close>

definition taken_msgs :: "thread_go list \<Rightarrow> ipc_kmsg list" where
  "taken_msgs gos = List.map_filter (\<lambda>g. map_option fst (tg_kmsg g)) gos"

definition port_mqueue :: "ipc_kernel \<Rightarrow> port_id \<Rightarrow> mqueue" where
  "port_mqueue K port = (case ip_pset (k_ports K port) of None \<Rightarrow> MQ_PORT port | Some s \<Rightarrow> MQ_PSET s)"

text \<open>
  The messages of one queue, those handed to a receiver, those waiting to be destroyed and
  those given to kernel objects.
\<close>

definition located :: "ipc_kernel \<Rightarrow> mqueue \<Rightarrow> ipc_kmsg multiset" where
  "located K q = mset (imq_messages K q) + mset (taken_msgs (k_thread_go K)) +
     mset (ith_messages K) + mset (k_kobject_msgs K)"

lemma taken_msgs_simps [simp]:
  "taken_msgs [] = []"
  "taken_msgs (g # gos) = (case tg_kmsg g of None \<Rightarrow> [] | Some x \<Rightarrow> [fst x]) @ taken_msgs gos"
  "taken_msgs (xs @ ys) = taken_msgs xs @ taken_msgs ys"
  by (auto simp: taken_msgs_def map_filter_def split: option.split)

lemma offer_kmsg_taken:
  "offer_kmsg check kmsg seqno ths = (taken, left, gos) \<Longrightarrow>
     taken_msgs gos = (if taken then [kmsg] else [])"
  by (induction check kmsg seqno ths arbitrary: taken left gos rule: offer_kmsg.induct)
     (auto split: prod.splits bool.splits)

lemma queue_simps [simp]:
  "imq_messages (threads_go gos K) q = imq_messages K q"
  "imq_messages (set_imq_threads q' ths K) q = imq_messages K q"
  "imq_messages (set_imq_messages q ms K) q = ms"
  "imq_messages (upd_port p (ip_seqno_update f) K) q = imq_messages K q"
  "imq_messages (upd_port p (ip_msgcount_update g) K) q = imq_messages K q"
  "imq_messages (upd_port p (ip_blocked_update h) K) q = imq_messages K q"
  "imq_messages (ip_release p K) q = imq_messages K q"
  "imq_messages (ipc_kmsg_destroy m K) q = imq_messages K q"
  "imq_messages (K\<lparr>k_kobject_msgs := ks\<rparr>) q = imq_messages K q"
  by (cases q; cases q'; auto simp: threads_go_def ip_release_def ipc_kmsg_destroy_def upd_pset_def upd_port_def)+

lemma queue_logs [simp]:
  "k_thread_go (set_imq_threads q ths K) = k_thread_go K"
  "k_thread_go (set_imq_messages q ms K) = k_thread_go K"
  "k_thread_go (upd_port p f K) = k_thread_go K"
  "k_thread_go (ip_release p K) = k_thread_go K"
  "k_thread_go (ipc_kmsg_destroy m K) = k_thread_go K"
  "k_thread_go (threads_go gos K) = k_thread_go K @ gos"
  "ith_messages (set_imq_threads q ths K) = ith_messages K"
  "ith_messages (set_imq_messages q ms K) = ith_messages K"
  "ith_messages (upd_port p f K) = ith_messages K"
  "ith_messages (ip_release p K) = ith_messages K"
  "ith_messages (threads_go gos K) = ith_messages K"
  "ith_messages (ipc_kmsg_destroy m K) = ith_messages K @ [m]"
  "k_kobject_msgs (set_imq_threads q ths K) = k_kobject_msgs K"
  "k_kobject_msgs (set_imq_messages q ms K) = k_kobject_msgs K"
  "k_kobject_msgs (upd_port p f K) = k_kobject_msgs K"
  "k_kobject_msgs (ip_release p K) = k_kobject_msgs K"
  "k_kobject_msgs (threads_go gos K) = k_kobject_msgs K"
  "k_kobject_msgs (ipc_kmsg_destroy m K) = k_kobject_msgs K"
  by (cases q; simp add: upd_defs ip_release_def ipc_kmsg_destroy_def threads_go_def)+

lemma port_mqueue_msgcount [simp]:
  "port_mqueue (upd_port p (ip_msgcount_update f) K) q = port_mqueue K q"
  by (auto simp: port_mqueue_def)

lemma located_deliver:
  "located (mqueue_deliver kmsg port K) (port_mqueue K port) =
     located K (port_mqueue K port) + {#kmsg#}"
  unfolding mqueue_deliver_def port_mqueue_def [symmetric] Let_def
  by (auto simp: located_def split: prod.split dest!: offer_kmsg_taken)

section \<open>Moving messages\<close>

lemma move_loop_no_receivers:
  "move_loop check port oldq newq [] seqno =
     (filter (\<lambda>m. ikm_remote m \<noteq> IO_PORT port) oldq,
      newq @ filter (\<lambda>m. ikm_remote m = IO_PORT port) oldq, [], seqno, [])"
  by (induction oldq arbitrary: newq) auto

text \<open>The first messages go to waiting receivers; once there are no more of them, the rest is queued in order.\<close>

lemma offer_kmsg_refused: "offer_kmsg check kmsg seqno ths = (False, left, gos) \<Longrightarrow> left = []"
  by (induction check kmsg seqno ths arbitrary: left gos rule: offer_kmsg.induct) (auto split: prod.splits bool.splits)

lemma move_loop_order:
  "move_loop check port oldq newq ths seqno = (kept, newq', ths', seqno', gos) \<Longrightarrow>
     kept = filter (\<lambda>m. ikm_remote m \<noteq> IO_PORT port) oldq \<and>
     (\<exists>queued. filter (\<lambda>m. ikm_remote m = IO_PORT port) oldq = taken_msgs gos @ queued \<and> newq' = newq @ queued \<and>
        (queued \<noteq> [] \<longrightarrow> ths' = []) \<and> seqno' = seqno + of_nat (length (taken_msgs gos)))"
proof (induction check port oldq newq ths seqno arbitrary: kept newq' ths' seqno' gos
       rule: move_loop.induct)
  case (2 check port kmsg oldq newq ths seqno)
  show ?case
  proof (cases "ikm_remote kmsg = IO_PORT port")
    case False
    with 2 show ?thesis by (auto split: prod.splits)
  next
    case True
    obtain tk ths1 gos1 where o: "offer_kmsg check kmsg seqno ths = (tk, ths1, gos1)"
      by (cases "offer_kmsg check kmsg seqno ths") auto
    show ?thesis
    proof (cases tk)
      case True
      obtain gos2 where r: "move_loop check port oldq newq ths1 (seqno + 1) = (kept, newq', ths', seqno', gos2)" "gos = gos1 @ gos2"
        using 2(4) o True \<open>ikm_remote kmsg = IO_PORT port\<close> by (auto split: prod.splits)
      have "taken_msgs gos1 = [kmsg]" using offer_kmsg_taken [OF o] True by simp
      with 2(2) [OF _ o [symmetric] refl refl True r(1)] r(2) \<open>ikm_remote kmsg = IO_PORT port\<close> show ?thesis by auto
    next
      case False
      then have "ths1 = []" "taken_msgs gos1 = []" using offer_kmsg_refused [of check kmsg seqno ths ths1 gos1] offer_kmsg_taken [OF o] o by auto
      with 2(4) o False \<open>ikm_remote kmsg = IO_PORT port\<close> show ?thesis by (auto simp: move_loop_no_receivers)
    qed
  qed
qed simp

lemma move_no_receivers:
  assumes "imq_threads K dest = []" and "dest \<noteq> source"
  shows "imq_messages (ipc_mqueue_move dest source port K) dest =
           imq_messages K dest @ filter (\<lambda>m. ikm_remote m = IO_PORT port) (imq_messages K source)"
    and "imq_messages (ipc_mqueue_move dest source port K) source =
           filter (\<lambda>m. ikm_remote m \<noteq> IO_PORT port) (imq_messages K source)"
    and "imq_threads (ipc_mqueue_move dest source port K) q = imq_threads K q"
    and "cores (ipc_mqueue_move dest source port K) p = cores K p"
  using assms
  by (cases dest; cases source; cases q;
      auto simp: ipc_mqueue_move_def move_loop_no_receivers threads_go_def upd_defs port_core_def)+

section \<open>Properties\<close>

text \<open>
  C27: a message given to \<^verbatim>\<open>ipc_mqueue_send\<close> is accepted into exactly one place: the queue of the port
  or of its port set, a waiting receiver, the messages to be destroyed (without its
  destination when the port is dead) or the kernel object. It is turned away, or its sender
  made to wait, exactly when the port is alive, full, not a kernel port, and neither
  \<^verbatim>\<open>MACH_SEND_ALWAYS\<close> nor a send-once right was used, and then no message moves.
\<close>

theorem send_delivers_once:
  assumes "ikm_remote kmsg = IO_PORT port"
    and "ipc_mqueue_send kmsg always timeout self K = (mr, K')"
  shows "(mr \<noteq> SEND_SUCCESS \<longleftrightarrow>
            ip_active (k_ports K port) \<and> ip_data (k_ports K port) \<noteq> Ip_Receiver (k_kernel_space K) \<and>
            ip_qlimit (k_ports K port) \<le> ip_msgcount (k_ports K port) \<and> \<not> always \<and>
            ikm_remote_right kmsg \<noteq> MACH_MSG_TYPE_PORT_SEND_ONCE) \<and>
         located K' (port_mqueue K port) = located K (port_mqueue K port) +
           (if mr \<noteq> SEND_SUCCESS then {#}
            else if ip_active (k_ports K port) \<or> ip_data (k_ports K port) = Ip_Receiver (k_kernel_space K)
            then {#kmsg#} else {#kmsg\<lparr>ikm_remote := IO_NULL\<rparr>#})"
proof -
  have kobj: "located (K\<lparr>k_kobject_msgs := k_kobject_msgs K @ [kmsg]\<rparr>) q = located K q + {#kmsg#}" for q
    by (simp add: located_def)
  have destroy: "located (ipc_kmsg_destroy m K) q = located K q + {#m#}" for m q and K
    by (simp add: located_def)
  have release: "located (ip_release port K) q = located K q" for q
    by (simp add: located_def)
  have block: "located (upd_port port (ip_blocked_update h) K) q = located K q" for q h
    by (simp add: located_def)
  show ?thesis
    using assms located_deliver [of kmsg port K]
    by (auto simp: ipc_mqueue_send_def kobj destroy release block not_less split: if_splits)
qed

theorem send_delivers_once_witness:
  "let m = notify_kmsg 1 MACH_MSG_TYPE_PORT_SEND (USER_MESSAGE 9) []
   in fst (ipc_mqueue_send m False None 3 kernel0) = SEND_SUCCESS \<and>
      located (snd (ipc_mqueue_send m False None 3 kernel0)) (MQ_PORT 1) = {#m#}"
proof -
  let ?m = "notify_kmsg 1 MACH_MSG_TYPE_PORT_SEND (USER_MESSAGE 9) []"
  have r: "ikm_remote ?m = IO_PORT 1" by (simp add: notify_kmsg_def)
  have q: "port_mqueue kernel0 1 = MQ_PORT 1" by (simp add: port_mqueue_def state0_defs)
  have "located kernel0 (MQ_PORT 1) = {#}" by (simp add: located_def state0_defs)
  with send_delivers_once [OF r surjective_pairing, of False None 3 kernel0] q show ?thesis
    by (auto simp: Let_def state0_defs)
qed



text \<open>
  Putting a port into a port set appends its queued messages to the set's queue, and taking
  it out again gives the port back exactly its messages in their order and leaves the set
  with its own, as long as no receiver is waiting to take one of them on the way.
\<close>

theorem pset_add_remove:
  assumes "ip_receivers (k_ports K port) = []" and "ips_receivers (k_psets K pset) = []"
    and "\<forall>m\<in>set (ip_messages (k_ports K port)). ikm_remote m = IO_PORT port"
    and "\<forall>m\<in>set (ips_messages (k_psets K pset)). ikm_remote m \<noteq> IO_PORT port"
  shows "ips_messages (k_psets (ipc_pset_add pset port K) pset) =
           ips_messages (k_psets K pset) @ ip_messages (k_ports K port) \<and>
         ip_messages (k_ports (ipc_pset_add pset port K) port) = [] \<and>
         ip_messages (k_ports (ipc_pset_remove pset port (ipc_pset_add pset port K)) port) =
           ip_messages (k_ports K port) \<and>
         ips_messages (k_psets (ipc_pset_remove pset port (ipc_pset_add pset port K)) pset) =
           ips_messages (k_psets K pset)"
proof -
  have all: "filter (\<lambda>m. ikm_remote m = IO_PORT port) (ip_messages (k_ports K port)) =
        ip_messages (k_ports K port)"
      "filter (\<lambda>m. ikm_remote m \<noteq> IO_PORT port) (ip_messages (k_ports K port)) = []"
      "filter (\<lambda>m. ikm_remote m = IO_PORT port) (ips_messages (k_psets K pset)) = []"
      "filter (\<lambda>m. ikm_remote m \<noteq> IO_PORT port) (ips_messages (k_psets K pset)) =
        ips_messages (k_psets K pset)"
    using assms(3,4) by (auto simp: filter_empty_conv)
  define K1 where "K1 = ipc_pset_add pset port K"
  have K1: "ips_messages (k_psets K1 pset) = ips_messages (k_psets K pset) @ ip_messages (k_ports K port)"
    "ip_messages (k_ports K1 port) = []" "ip_receivers (k_ports K1 port) = []"
    using assms(1,2)
    by (simp_all add: K1_def ipc_pset_add_def ipc_mqueue_changed_def ipc_mqueue_move_def
        move_loop_no_receivers threads_go_def ips_reference_def upd_defs all)
  have "ip_messages (k_ports (ipc_pset_remove pset port K1) port) = ip_messages (k_ports K port)"
    "ips_messages (k_psets (ipc_pset_remove pset port K1) pset) = ips_messages (k_psets K pset)"
    using K1
    by (simp_all add: ipc_pset_remove_def ipc_mqueue_move_def
        move_loop_no_receivers threads_go_def ips_release_def upd_defs all)
  with K1 show ?thesis by (simp add: K1_def)
qed

theorem pset_add_remove_witness:
  "let m = notify_kmsg 1 MACH_MSG_TYPE_PORT_SEND (USER_MESSAGE 9) [];
       K = upd_port 1 (ip_messages_update (\<lambda>_. [m])) kernel0
   in ip_messages (k_ports (ipc_pset_remove 4 1 (ipc_pset_add 4 1 K)) 1) = [m]"
proof -
  let ?m = "notify_kmsg 1 MACH_MSG_TYPE_PORT_SEND (USER_MESSAGE 9) []"
  let ?K = "upd_port 1 (ip_messages_update (\<lambda>_. [?m])) kernel0"
  have "ip_receivers (k_ports ?K 1) = []" "ips_receivers (k_psets ?K 4) = []"
    "\<forall>m\<in>set (ip_messages (k_ports ?K 1)). ikm_remote m = IO_PORT 1"
    "\<forall>m\<in>set (ips_messages (k_psets ?K 4)). ikm_remote m \<noteq> IO_PORT 1"
    by (simp_all add: state0_defs notify_kmsg_def upd_port_def)
  from pset_add_remove [OF this] show ?thesis by (simp add: Let_def)
qed

end
