(* ===== verification/Port_Requests.thy ===== *)
theory Port_Requests
  imports Ipc_Port
begin

text \<open>
  The dead-name request table of a port (\<^verbatim>\<open>ipc_port_dnrequest\<close>, \<^verbatim>\<open>_dncancel\<close>, \<^verbatim>\<open>_dngrow\<close>): its
  free list, the map of registered requests it stands for, and the interface the right
  operations rely on.
\<close>

section \<open>The free list and the registered requests\<close>

text \<open>\<open>dn_chain slots n ixs\<close>: the free list that starts at \<open>n\<close> runs through the slots \<open>ixs\<close>.\<close>

fun dn_chain :: "ipc_port_request list \<Rightarrow> nat \<Rightarrow> nat list \<Rightarrow> bool" where
  "dn_chain slots n [] \<longleftrightarrow> n = 0"
| "dn_chain slots n (i # ixs) \<longleftrightarrow>
     n = i \<and> 0 < i \<and> i < length slots \<and>
     (case ipr_notify (slots ! i) of Ipr_Next m \<Rightarrow> dn_chain slots m ixs | _ \<Rightarrow> False)"

definition free_slots :: "ipc_port_request list \<Rightarrow> nat set" where
  "free_slots slots = {i. 0 < i \<and> i < length slots \<and> ipr_name (slots ! i) = MACH_PORT_NULL}"

text \<open>The free list runs through exactly the unused slots.\<close>

definition dn_ok :: "dnrequest_table \<Rightarrow> bool" where
  "dn_ok table \<longleftrightarrow>
     (\<exists>ixs. dn_chain (dn_slots table) (dn_next table) ixs \<and> distinct ixs \<and>
           set ixs = free_slots (dn_slots table))"

definition dn_lookup :: "dnrequest_table \<Rightarrow> nat \<rightharpoonup> ipc_port_request" where
  "dn_lookup table i =
     (if 0 < i \<and> i < length (dn_slots table) \<and> ipr_name (dn_slots table ! i) \<noteq> MACH_PORT_NULL
      then Some (dn_slots table ! i) else None)"

lemma dn_chain_update:
  "dn_chain slots n ixs \<Longrightarrow> j \<notin> set ixs \<Longrightarrow> dn_chain (slots[j := x]) n ixs"
  by (induction slots n ixs rule: dn_chain.induct) (auto split: ipr_notify.splits)

lemma dn_chain_append:
  "dn_chain slots n ixs \<Longrightarrow> dn_chain (slots @ xs) n ixs"
  by (induction slots n ixs rule: dn_chain.induct) (auto simp: nth_append split: ipr_notify.splits)

lemma free_slots_fill:
  "i < length slots \<Longrightarrow> ipr_name x \<noteq> MACH_PORT_NULL \<Longrightarrow>
     free_slots (slots[i := x]) = free_slots slots - {i}"
  by (auto simp: free_slots_def nth_list_update)

lemma free_slots_clear:
  "0 < i \<Longrightarrow> i < length slots \<Longrightarrow> ipr_name x = MACH_PORT_NULL \<Longrightarrow>
     free_slots (slots[i := x]) = insert i (free_slots slots)"
  by (auto simp: free_slots_def nth_list_update)

lemma dn_ok_next:
  assumes "dn_ok table" and "dn_next table \<noteq> 0"
  obtains ixs m where "dn_next table \<in> free_slots (dn_slots table)"
    "ipr_notify (dn_slots table ! dn_next table) = Ipr_Next m"
    "dn_chain (dn_slots table) m ixs" "distinct (dn_next table # ixs)"
    "insert (dn_next table) (set ixs) = free_slots (dn_slots table)"
proof -
  from assms(1) obtain js where js: "dn_chain (dn_slots table) (dn_next table) js"
    "distinct js" "set js = free_slots (dn_slots table)" by (auto simp: dn_ok_def)
  with assms(2) obtain ixs where ixs: "js = dn_next table # ixs" by (cases js) auto
  from js(1) obtain m where
    "ipr_notify (dn_slots table ! dn_next table) = Ipr_Next m" "dn_chain (dn_slots table) m ixs"
    unfolding ixs by (auto split: ipr_notify.splits)
  with js ixs that show ?thesis by auto
qed

lemma dn_alloc_spec:
  assumes ok: "dn_ok table" and name: "ipr_name request \<noteq> MACH_PORT_NULL"
    and alloc: "dn_alloc table request = Some (i, table')"
  shows "dn_ok table'" "0 < i" "i < length (dn_slots table)" "dn_lookup table i = None"
    "dn_lookup table' = (dn_lookup table)(i \<mapsto> request)"
    "length (dn_slots table') = length (dn_slots table)" "dn_size table' = dn_size table"
proof -
  from alloc have nz: "dn_next table \<noteq> 0" and i: "i = dn_next table"
    by (auto simp: dn_alloc_def Let_def split: if_splits)
  from dn_ok_next [OF ok nz] obtain ixs m where
    f: "i \<in> free_slots (dn_slots table)" "ipr_notify (dn_slots table ! i) = Ipr_Next m"
      "dn_chain (dn_slots table) m ixs" "distinct (i # ixs)"
      "insert i (set ixs) = free_slots (dn_slots table)" unfolding i by metis
  have t': "table' = table\<lparr>dn_next := m, dn_slots := (dn_slots table)[i := request]\<rparr>"
    using alloc f(2) nz by (auto simp: dn_alloc_def Let_def i)
  show i0: "0 < i" and il: "i < length (dn_slots table)"
    using f(1) by (auto simp: free_slots_def)
  have "dn_chain ((dn_slots table)[i := request]) m ixs"
    using f(3,4) by (intro dn_chain_update) auto
  moreover have "set ixs = free_slots ((dn_slots table)[i := request])"
    using f(4,5) by (simp add: free_slots_fill [OF il name]) blast
  ultimately show "dn_ok table'" using f(4) by (auto simp: dn_ok_def t')
  show "dn_lookup table i = None" using f(1) by (simp add: dn_lookup_def free_slots_def)
  show "dn_lookup table' = (dn_lookup table)(i \<mapsto> request)"
    using i0 il name by (auto simp: dn_lookup_def t' fun_eq_iff)
  show "length (dn_slots table') = length (dn_slots table)" "dn_size table' = dn_size table"
    by (simp_all add: t')
qed

lemma dn_alloc_None:
  assumes "dn_ok table"
  shows "dn_alloc table request = None \<longleftrightarrow> free_slots (dn_slots table) = {}"
proof (cases "dn_next table = 0")
  case True
  from assms obtain ixs where ixs: "dn_chain (dn_slots table) 0 ixs" "set ixs = free_slots (dn_slots table)"
    unfolding dn_ok_def True by auto
  then have "ixs = []" by (cases ixs) auto
  with ixs True show ?thesis by (simp add: dn_alloc_def)
next
  case False
  with dn_ok_next [OF assms False] show ?thesis by (auto simp: dn_alloc_def Let_def)
qed

lemma dn_cancel_spec:
  assumes ok: "dn_ok table" and reg: "dn_lookup table i = Some request"
  shows "\<exists>table'. dn_cancel table i = Some (ipr_notify request, table') \<and> dn_ok table' \<and>
           dn_lookup table' = (dn_lookup table)(i := None) \<and> dn_size table' = dn_size table \<and>
           length (dn_slots table') = length (dn_slots table)"
proof -
  let ?slots = "(dn_slots table)[i := free_slot (dn_next table)]"
  let ?t = "table\<lparr>dn_slots := ?slots, dn_next := i\<rparr>"
  from reg have i: "0 < i" "i < length (dn_slots table)" "ipr_name (dn_slots table ! i) \<noteq> MACH_PORT_NULL"
    "request = dn_slots table ! i"
    by (auto simp: dn_lookup_def split: if_splits)
  from ok obtain ixs where ixs: "dn_chain (dn_slots table) (dn_next table) ixs" "distinct ixs"
    "set ixs = free_slots (dn_slots table)" by (auto simp: dn_ok_def)
  have notin: "i \<notin> set ixs" using i ixs(3) by (simp add: free_slots_def)
  have "dn_chain ?slots i (i # ixs)"
    using dn_chain_update [OF ixs(1) notin] i by (simp add: free_slot_def)
  moreover have "set (i # ixs) = free_slots ?slots"
    using ixs(3) i by (simp add: free_slots_clear free_slot_def)
  moreover have "distinct (i # ixs)" using ixs(2) notin by simp
  ultimately have "dn_ok ?t" unfolding dn_ok_def by (intro exI [of _ "i # ixs"]) (auto simp: free_slot_def)
  moreover have "dn_lookup ?t = (dn_lookup table)(i := None)"
    using i by (auto simp: dn_lookup_def fun_eq_iff free_slot_def)
  ultimately show ?thesis using i by (auto simp: dn_cancel_def)
qed

section \<open>The interface\<close>

text \<open>
  What the right operations rely on: registering a request finds an unused index and only
  adds it, cancelling one gives back what was registered and only removes it.
\<close>

locale request_table =
  fixes alloc :: "'t \<Rightarrow> 'r \<Rightarrow> (nat \<times> 't) option"
    and cancel :: "'t \<Rightarrow> nat \<Rightarrow> ('n \<times> 't) option"
    and lookup :: "'t \<Rightarrow> nat \<rightharpoonup> 'r"
    and notify :: "'r \<Rightarrow> 'n"
    and valid :: "'r \<Rightarrow> bool"
    and invar :: "'t \<Rightarrow> bool"
  assumes alloc_law: "invar t \<Longrightarrow> valid r \<Longrightarrow> alloc t r = Some (i, t') \<Longrightarrow>
      invar t' \<and> lookup t i = None \<and> lookup t' = (lookup t)(i \<mapsto> r)"
    and cancel_law: "invar t \<Longrightarrow> lookup t i = Some r \<Longrightarrow>
      \<exists>t'. cancel t i = Some (notify r, t') \<and> invar t' \<and> lookup t' = (lookup t)(i := None)"
begin

fun alloc_all :: "'r list \<Rightarrow> 't \<Rightarrow> (nat list \<times> 't) option" where
  "alloc_all [] t = Some ([], t)"
| "alloc_all (r # rs) t =
     (case alloc t r of
        None \<Rightarrow> None
      | Some (i, t') \<Rightarrow> map_option (\<lambda>(ixs, t''). (i # ixs, t'')) (alloc_all rs t'))"

lemma alloc_cancel:
  assumes "invar t" "valid r" "alloc t r = Some (i, t')"
  shows "\<exists>t''. cancel t' i = Some (notify r, t'') \<and> invar t'' \<and> lookup t'' = lookup t"
proof -
  note a = alloc_law [OF assms]
  then have "lookup t' i = Some r" by simp
  from cancel_law [OF _ this] a obtain t'' where
    "cancel t' i = Some (notify r, t'')" "invar t''" "lookup t'' = (lookup t')(i := None)" by auto
  with a show ?thesis by (auto simp: fun_eq_iff)
qed

lemma alloc_all_registers:
  assumes "invar t" "\<forall>r\<in>set rs. valid r" "alloc_all rs t = Some (ixs, t')"
  shows "distinct ixs \<and> (\<forall>i\<in>set ixs. lookup t i = None) \<and> invar t' \<and>
         map (lookup t') ixs = map Some rs \<and> (\<forall>i. i \<notin> set ixs \<longrightarrow> lookup t' i = lookup t i)"
  using assms
proof (induction rs arbitrary: t ixs)
  case (Cons r rs)
  then obtain i t1 js where a: "alloc t r = Some (i, t1)" "alloc_all rs t1 = Some (js, t')"
    and ixs: "ixs = i # js" by (auto split: option.splits)
  note law = alloc_law [OF Cons.prems(1) _ a(1)]
  have ih: "distinct js \<and> (\<forall>i\<in>set js. lookup t1 i = None) \<and> invar t' \<and>
      map (lookup t') js = map Some rs \<and> (\<forall>i. i \<notin> set js \<longrightarrow> lookup t' i = lookup t1 i)"
    using Cons.IH [OF _ _ a(2)] law Cons.prems(2) by auto
  have l: "lookup t i = None" "lookup t1 = (lookup t)(i \<mapsto> r)" using law Cons.prems(2) by auto
  then have "i \<notin> set js" using ih by fastforce
  with l ih show ?case by (auto simp: ixs split: if_splits)
qed simp

end

interpretation dn: request_table dn_alloc dn_cancel dn_lookup ipr_notify
  "\<lambda>r. ipr_name r \<noteq> MACH_PORT_NULL" dn_ok
proof unfold_locales
  fix t r i t'
  assume "dn_ok t" "ipr_name r \<noteq> MACH_PORT_NULL" "dn_alloc t r = Some (i, t')"
  from dn_alloc_spec [OF this]
  show "dn_ok t' \<and> dn_lookup t i = None \<and> dn_lookup t' = (dn_lookup t)(i \<mapsto> r)" by blast
next
  fix t i r
  assume "dn_ok t" "dn_lookup t i = Some r"
  from dn_cancel_spec [OF this]
  show "\<exists>t'. dn_cancel t i = Some (ipr_notify r, t') \<and> dn_ok t' \<and>
          dn_lookup t' = (dn_lookup t)(i := None)" by blast
qed

section \<open>Growing the table\<close>

lemma link_free_spec:
  assumes "link_free [a..<b] free = (new, free')"
  shows "length new = b - a" "\<forall>i < b - a. ipr_name (new ! i) = MACH_PORT_NULL"
    "length slots = a \<Longrightarrow> 0 < a \<Longrightarrow> dn_chain slots free ixs \<Longrightarrow>
       dn_chain (slots @ new) free' (rev [a..<b] @ ixs)"
proof -
  have "length new = b - a \<and> (\<forall>i < b - a. ipr_name (new ! i) = MACH_PORT_NULL) \<and>
      (length slots = a \<longrightarrow> 0 < a \<longrightarrow> dn_chain slots free ixs \<longrightarrow>
       dn_chain (slots @ new) free' (rev [a..<b] @ ixs))"
    using assms
  proof (induction "b - a" arbitrary: a free slots ixs new)
    case 0
    then show ?case by simp
  next
    case (Suc d)
    then have ab: "a < b" and d: "d = b - Suc a" by auto
    obtain new1 where l: "link_free [Suc a..<b] a = (new1, free')"
      and new: "new = free_slot free # new1"
      using Suc.prems ab by (auto simp: upt_conv_Cons split: prod.splits)
    have ih: "length new1 = b - Suc a \<and> (\<forall>i < b - Suc a. ipr_name (new1 ! i) = MACH_PORT_NULL) \<and>
        (length (slots @ [free_slot free]) = Suc a \<longrightarrow> 0 < Suc a \<longrightarrow>
         dn_chain (slots @ [free_slot free]) a (a # ixs) \<longrightarrow>
         dn_chain ((slots @ [free_slot free]) @ new1) free' (rev [Suc a..<b] @ a # ixs))"
      by (rule Suc.hyps(1) [OF d l])
    have "ipr_name (new ! i) = MACH_PORT_NULL" if "i < b - a" for i
      using that ih ab by (cases i) (auto simp: new free_slot_def)
    moreover have "dn_chain (slots @ new) free' (rev [a..<b] @ ixs)"
      if "length slots = a" "0 < a" "dn_chain slots free ixs"
    proof -
      have "dn_chain (slots @ [free_slot free]) a (a # ixs)"
        using that dn_chain_append [OF that(3)] by (simp add: free_slot_def nth_append)
      then show ?thesis using ih that ab by (simp add: new upt_conv_Cons)
    qed
    ultimately show ?case using ih ab by (auto simp: new)
  qed
  then show "length new = b - a" "\<forall>i < b - a. ipr_name (new ! i) = MACH_PORT_NULL"
    "length slots = a \<Longrightarrow> 0 < a \<Longrightarrow> dn_chain slots free ixs \<Longrightarrow>
       dn_chain (slots @ new) free' (rev [a..<b] @ ixs)" by blast+
qed

text \<open>The table belongs to its size: it has as many slots as the size index says.\<close>

definition dn_sized :: "nat list \<Rightarrow> dnrequest_table \<Rightarrow> bool" where
  "dn_sized sizes table \<longleftrightarrow>
     0 < its_size sizes (dn_size table) \<and> length (dn_slots table) = its_size sizes (dn_size table)"

lemma grown_table:
  assumes slots: "length slots = a" "0 < a" "a < b"
    and chain: "dn_chain slots free ixs" "distinct ixs" "set ixs = free_slots slots"
    and link: "link_free [a..<b] free = (new, free')"
  shows "dn_ok \<lparr>dn_next = free', dn_size = its, dn_slots = slots @ new\<rparr>"
    and "free_slots (slots @ new) \<noteq> {}"
    and "0 < i \<Longrightarrow> dn_lookup \<lparr>dn_next = free', dn_size = its, dn_slots = slots @ new\<rparr> i =
         dn_lookup \<lparr>dn_next = free, dn_size = n, dn_slots = slots\<rparr> i"
proof -
  note new = link_free_spec(1,2) [OF link]
  have name: "ipr_name ((slots @ new) ! i) = (if i < a then ipr_name (slots ! i) else MACH_PORT_NULL)"
    if "i < b" for i using new slots that by (auto simp: nth_append)
  have free: "free_slots (slots @ new) = set ixs \<union> {a..<b}"
    using new(1) slots name order.strict_trans2 [OF slots(2)] unfolding chain(3) free_slots_def
    by (auto split: if_splits)
  moreover have "\<forall>i\<in>set ixs. i < a" using slots(1) unfolding chain(3) free_slots_def by simp
  then have "distinct (rev [a..<b] @ ixs)" using chain(2) by (auto simp: not_le)
  ultimately show "dn_ok \<lparr>dn_next = free', dn_size = its, dn_slots = slots @ new\<rparr>"
    unfolding dn_ok_def using link_free_spec(3) [OF link slots(1,2) chain(1)]
    by (intro exI [of _ "rev [a..<b] @ ixs"]) auto
  show "free_slots (slots @ new) \<noteq> {}" using free slots by auto
  show "dn_lookup \<lparr>dn_next = free', dn_size = its, dn_slots = slots @ new\<rparr> i =
      dn_lookup \<lparr>dn_next = free, dn_size = n, dn_slots = slots\<rparr> i" if "0 < i"
    using new slots name [of i] by (auto simp: dn_lookup_def nth_append)
qed

lemma dn_grow_None:
  assumes "1 < its_size sizes its"
  shows "dn_ok (dn_grow_table sizes None its)" "dn_sized sizes (dn_grow_table sizes None its)"
    "free_slots (dn_slots (dn_grow_table sizes None its)) \<noteq> {}"
    "dn_lookup (dn_grow_table sizes None its) = Map.empty"
proof -
  obtain new free' where l: "link_free [1..<its_size sizes its] 0 = (new, free')"
    by (cases "link_free [1..<its_size sizes its] 0") auto
  have empty: "dn_chain [free_slot 0] 0 []" "set [] = free_slots [free_slot 0]"
    by (auto simp: free_slots_def)
  have t: "dn_grow_table sizes None its =
      \<lparr>dn_next = free', dn_size = its, dn_slots = [free_slot 0] @ new\<rparr>"
    using l by (simp add: dn_grow_table_def)
  note g = grown_table [OF _ _ _ empty(1) _ empty(2) l, simplified length_Cons list.size One_nat_def]
  show "dn_ok (dn_grow_table sizes None its)"
    "free_slots (dn_slots (dn_grow_table sizes None its)) \<noteq> {}"
    using g assms by (auto simp: t)
  show "dn_sized sizes (dn_grow_table sizes None its)"
    using link_free_spec(1) [OF l] assms by (simp add: dn_sized_def t)
  show "dn_lookup (dn_grow_table sizes None its) = Map.empty"
    using link_free_spec(1,2) [OF l] by (auto simp: t dn_lookup_def fun_eq_iff nth_Cons' free_slot_def)
qed

lemma dn_grow_Some:
  assumes ok: "dn_ok table" and sized: "dn_sized sizes table"
    and grow: "its_size sizes (dn_size table) < its_size sizes its"
  shows "dn_ok (dn_grow_table sizes (Some table) its)"
    "dn_sized sizes (dn_grow_table sizes (Some table) its)"
    "free_slots (dn_slots (dn_grow_table sizes (Some table) its)) \<noteq> {}"
    "dn_lookup (dn_grow_table sizes (Some table) its) = dn_lookup table"
proof -
  let ?a = "its_size sizes (dn_size table)"
  obtain new free' where l: "link_free [?a..<its_size sizes its] (dn_next table) = (new, free')"
    by (cases "link_free [?a..<its_size sizes its] (dn_next table)") auto
  have a: "length (dn_slots table) = ?a" "0 < ?a" using sized by (auto simp: dn_sized_def)
  have t: "dn_grow_table sizes (Some table) its =
      \<lparr>dn_next = free', dn_size = its, dn_slots = dn_slots table @ new\<rparr>"
    using l a(1) by (simp add: dn_grow_table_def)
  from ok obtain ixs where ixs: "dn_chain (dn_slots table) (dn_next table) ixs" "distinct ixs"
    "set ixs = free_slots (dn_slots table)" by (auto simp: dn_ok_def)
  note g = grown_table [OF a grow ixs l]
  show "dn_ok (dn_grow_table sizes (Some table) its)"
    "free_slots (dn_slots (dn_grow_table sizes (Some table) its)) \<noteq> {}"
    using g(1,2) by (auto simp: t)
  show "dn_sized sizes (dn_grow_table sizes (Some table) its)"
    using link_free_spec(1) [OF l] a grow by (simp add: dn_sized_def t)
  show "dn_lookup (dn_grow_table sizes (Some table) its) = dn_lookup table"
  proof
    fix i
    show "dn_lookup (dn_grow_table sizes (Some table) its) i = dn_lookup table i"
      using g(3) [of i _ "dn_size table"] by (cases "0 < i") (auto simp: t dn_lookup_def)
  qed
qed

text \<open>
  What the kernel sets up: the sizes grow up to the zero terminator, and a port's table is
  well formed and of the size it says.
\<close>

definition sizes_ok :: "nat list \<Rightarrow> bool" where
  "sizes_ok sizes \<longleftrightarrow> sizes \<noteq> [] \<and> 1 < its_size sizes 0 \<and>
     (\<forall>i < length sizes. its_size sizes (i + 1) = 0 \<or> its_size sizes i < its_size sizes (i + 1))"

definition port_dn_ok :: "ipc_kernel \<Rightarrow> port_id \<Rightarrow> bool" where
  "port_dn_ok K p \<longleftrightarrow>
     (case ip_dnrequests (k_ports K p) of
        None \<Rightarrow> True
      | Some table \<Rightarrow> dn_ok table \<and> dn_sized (k_dn_sizes K) table)"

definition port_requests :: "ipc_kernel \<Rightarrow> port_id \<Rightarrow> nat \<rightharpoonup> ipc_port_request" where
  "port_requests K p =
     (case ip_dnrequests (k_ports K p) of None \<Rightarrow> Map.empty | Some table \<Rightarrow> dn_lookup table)"

lemma its_size_outside: "length sizes \<le> its \<Longrightarrow> its_size sizes its = 0"
  by (simp add: its_size_def)

lemma sizes_grow:
  assumes "sizes_ok sizes" and "dn_sized sizes table" and "its_size sizes (dn_size table + 1) \<noteq> 0"
  shows "its_size sizes (dn_size table) < its_size sizes (dn_size table + 1)"
proof -
  have "dn_size table < length sizes" using assms(2) by (auto simp: dn_sized_def its_size_def split: if_splits)
  with assms show ?thesis by (auto simp: sizes_ok_def)
qed

lemma k_dn_sizes_upd_port [simp]: "k_dn_sizes (upd_port p f K) = k_dn_sizes K"
  by (simp add: upd_port_def)

lemma dngrow_spec:
  assumes sizes: "sizes_ok (k_dn_sizes K)" and ok: "port_dn_ok K p" and active: "ip_active (k_ports K p)"
    and grow: "ipc_port_dngrow p None K = (KERN_SUCCESS, K')"
  shows "port_dn_ok K' p" "port_requests K' p = port_requests K p"
    "\<exists>table. ip_dnrequests (k_ports K' p) = Some table \<and> free_slots (dn_slots table) \<noteq> {}"
    "K' = upd_port p (ip_dnrequests_update (\<lambda>_. ip_dnrequests (k_ports K' p))) K"
proof -
  have "port_dn_ok K' p \<and> port_requests K' p = port_requests K p \<and>
      (\<exists>table. ip_dnrequests (k_ports K' p) = Some table \<and> free_slots (dn_slots table) \<noteq> {}) \<and>
      K' = upd_port p (ip_dnrequests_update (\<lambda>_. ip_dnrequests (k_ports K' p))) K"
  proof (cases "ip_dnrequests (k_ports K p)")
    case None
    then have K': "K' = upd_port p (ip_dnrequests_update
        (\<lambda>_. Some (dn_grow_table (k_dn_sizes K) None 0))) K"
      using grow active by (auto simp: ipc_port_dngrow_def Let_def split: if_splits)
    have "1 < its_size (k_dn_sizes K) 0" using sizes by (simp add: sizes_ok_def)
    from dn_grow_None [OF this] show ?thesis
      unfolding K' by (simp add: port_dn_ok_def port_requests_def None)
  next
    case (Some table)
    then have K': "K' = upd_port p (ip_dnrequests_update
        (\<lambda>_. Some (dn_grow_table (k_dn_sizes K) (Some table) (dn_size table + 1)))) K"
      and nz: "its_size (k_dn_sizes K) (dn_size table + 1) \<noteq> 0"
      using grow active by (auto simp: ipc_port_dngrow_def Let_def split: if_splits)
    have t: "dn_ok table" "dn_sized (k_dn_sizes K) table" using ok Some by (auto simp: port_dn_ok_def)
    from dn_grow_Some [OF t sizes_grow [OF sizes t(2) nz]] show ?thesis
      unfolding K' by (simp add: port_dn_ok_def port_requests_def Some)
  qed
  then show "port_dn_ok K' p" "port_requests K' p = port_requests K p"
    "\<exists>table. ip_dnrequests (k_ports K' p) = Some table \<and> free_slots (dn_slots table) \<noteq> {}"
    "K' = upd_port p (ip_dnrequests_update (\<lambda>_. ip_dnrequests (k_ports K' p))) K" by blast+
qed

lemma dnrequest_spec:
  assumes ok: "port_dn_ok K p" and name: "name \<noteq> MACH_PORT_NULL"
    and req: "ipc_port_dnrequest p name so K = Inr (i, K')"
  shows "port_dn_ok K' p" "0 < i" "port_requests K p i = None"
    "port_requests K' p = (port_requests K p)(i \<mapsto> \<lparr>ipr_name = name, ipr_notify = so\<rparr>)"
    "K' = upd_port p (ip_dnrequests_update (\<lambda>_. ip_dnrequests (k_ports K' p))) K"
proof -
  let ?r = "\<lparr>ipr_name = name, ipr_notify = so\<rparr>"
  obtain table table' where t: "ip_dnrequests (k_ports K p) = Some table"
    and a: "dn_alloc table ?r = Some (i, table')"
    and K': "K' = upd_port p (ip_dnrequests_update (\<lambda>_. Some table')) K"
    using req by (auto simp: ipc_port_dnrequest_def split: option.splits prod.splits)
  have to: "dn_ok table" "dn_sized (k_dn_sizes K) table" using ok t by (auto simp: port_dn_ok_def)
  note spec = dn_alloc_spec [OF to(1) _ a]
  show "0 < i" using spec name by simp
  show "port_dn_ok K' p" using spec to name by (simp add: K' port_dn_ok_def dn_sized_def)
  show "port_requests K p i = None" using spec name by (simp add: port_requests_def t)
  show "port_requests K' p = (port_requests K p)(i \<mapsto> ?r)"
    using spec(5) name by (simp add: port_requests_def t K')
  show "K' = upd_port p (ip_dnrequests_update (\<lambda>_. ip_dnrequests (k_ports K' p))) K"
    by (simp add: K')
qed

lemma dncancel_spec:
  assumes ok: "port_dn_ok K p" and reg: "port_requests K p i = Some request"
  shows "\<exists>K'. ipc_port_dncancel p name i K = Some (ipr_notify request, K') \<and> port_dn_ok K' p \<and>
           port_requests K' p = (port_requests K p)(i := None) \<and>
           (\<exists>table. ip_dnrequests (k_ports K' p) = Some table \<and> free_slots (dn_slots table) \<noteq> {}) \<and>
           K' = upd_port p (ip_dnrequests_update (\<lambda>_. ip_dnrequests (k_ports K' p))) K"
proof -
  obtain table where t: "ip_dnrequests (k_ports K p) = Some table" "dn_lookup table i = Some request"
    using reg by (auto simp: port_requests_def split: option.splits)
  have to: "dn_ok table" "dn_sized (k_dn_sizes K) table" using ok t by (auto simp: port_dn_ok_def)
  from dn_cancel_spec [OF to(1) t(2)] obtain table' where
    c: "dn_cancel table i = Some (ipr_notify request, table')" and t': "dn_ok table'"
      "dn_lookup table' = (dn_lookup table)(i := None)" "dn_size table' = dn_size table"
      "length (dn_slots table') = length (dn_slots table)" by blast
  have "0 < i \<and> i < length (dn_slots table)" using t(2) by (auto simp: dn_lookup_def split: if_splits)
  moreover have "dn_slots table' = (dn_slots table)[i := free_slot (dn_next table)]"
    using c by (auto simp: dn_cancel_def split: if_splits)
  ultimately have "i \<in> free_slots (dn_slots table')"
    by (simp add: free_slots_def free_slot_def)
  with c t' to show ?thesis
    by (intro exI [of _ "upd_port p (ip_dnrequests_update (\<lambda>_. Some table')) K"])
       (auto simp: ipc_port_dncancel_def t port_dn_ok_def dn_sized_def port_requests_def)
qed

section \<open>Properties\<close>

lemma dn_alloc_cancel:
  assumes ok: "dn_ok table" and a: "dn_alloc table request = Some (i, table')"
  shows "dn_cancel table' i = Some (ipr_notify request, table)"
proof -
  from a have nz: "dn_next table \<noteq> 0" and i: "i = dn_next table"
    by (auto simp: dn_alloc_def Let_def split: if_splits)
  from dn_ok_next [OF ok nz] obtain m where f: "i \<in> free_slots (dn_slots table)"
    "ipr_notify (dn_slots table ! i) = Ipr_Next m" unfolding i by metis
  then have slot: "dn_slots table ! i = free_slot m" "i < length (dn_slots table)"
    by (auto simp: free_slots_def free_slot_def)
  have "table' = table\<lparr>dn_next := m, dn_slots := (dn_slots table)[i := request]\<rparr>"
    using a nz by (auto simp: dn_alloc_def Let_def i [symmetric] slot(1) free_slot_def)
  then show ?thesis using slot nz i by (simp add: dn_cancel_def flip: slot(1))
qed

text \<open>
  A dead-name request that was registered on a port can be cancelled with the index
  \<^verbatim>\<open>ipc_port_dnrequest\<close> returned: \<^verbatim>\<open>ipc_port_dncancel\<close> gives back the registered right and the
  whole kernel state is as it was before the request.
\<close>

theorem dnrequest_dncancel:
  assumes "port_dn_ok K p" and "ipc_port_dnrequest p name so K = Inr (i, K')"
  shows "ipc_port_dncancel p name i K' = Some (so, K)"
proof -
  let ?r = "\<lparr>ipr_name = name, ipr_notify = so\<rparr>"
  obtain table table' where t: "ip_dnrequests (k_ports K p) = Some table"
    and a: "dn_alloc table ?r = Some (i, table')"
    and K': "K' = upd_port p (ip_dnrequests_update (\<lambda>_. Some table')) K"
    using assms(2) by (auto simp: ipc_port_dnrequest_def split: option.splits prod.splits)
  have "dn_cancel table' i = Some (so, table)"
    using dn_alloc_cancel [OF _ a] assms(1) t by (simp add: port_dn_ok_def)
  moreover have "upd_port p (ip_dnrequests_update (\<lambda>_. Some table)) K' = K"
    using t by (simp add: K' upd_port_def fun_eq_iff comp_def ipc_kernel.defs)
  ultimately show ?thesis by (simp add: ipc_port_dncancel_def K')
qed

theorem dnrequest_dncancel_witness:
  "let K = upd_port 1 (ip_dnrequests_update (\<lambda>_. Some (dn_grow_table [2, 4, 8, 0] None 2))) kernel0
   in \<exists>i K'. ipc_port_dnrequest 1 7 (Ipr_Soright 2) K = Inr (i, K') \<and>
             ipc_port_dncancel 1 7 i K' = Some (Ipr_Soright 2, K)"
proof -
  let ?t = "dn_grow_table [2, 4, 8, 0] None 2"
  let ?K = "upd_port 1 (ip_dnrequests_update (\<lambda>_. Some ?t)) kernel0"
  have ok: "port_dn_ok ?K 1" using dn_grow_None [of "[2, 4, 8, 0]" 2]
    by (simp add: port_dn_ok_def its_size_def kernel0_def upd_port_def)
  have next_free: "dn_next ?t = 7" by (simp add: dn_grow_table_def its_size_def upt_rec Let_def)
  obtain i K' where r: "ipc_port_dnrequest 1 7 (Ipr_Soright 2) ?K = Inr (i, K')"
    by (simp add: ipc_port_dnrequest_def dn_alloc_def Let_def next_free)
  from dnrequest_dncancel [OF ok r] r show ?thesis unfolding Let_def by blast
qed

text \<open>
  \<^verbatim>\<open>ipc_port_dnrequest\<close> fails, with \<^verbatim>\<open>KERN_NO_SPACE\<close>, exactly when the port has no table or no
  unused slot; otherwise it adds the request under an index that was not in use, leaves
  every other registered request alone and keeps the free list well formed.
\<close>

theorem dnrequest_registers:
  assumes "port_dn_ok K p" and "name \<noteq> MACH_PORT_NULL"
  shows "case ipc_port_dnrequest p name so K of
           Inl kr \<Rightarrow> kr = KERN_NO_SPACE \<and>
             (\<forall>table. ip_dnrequests (k_ports K p) = Some table \<longrightarrow> free_slots (dn_slots table) = {})
         | Inr (i, K') \<Rightarrow> 0 < i \<and> port_requests K p i = None \<and>
             port_requests K' p = (port_requests K p)(i \<mapsto> \<lparr>ipr_name = name, ipr_notify = so\<rparr>) \<and>
             port_dn_ok K' p"
proof (cases "ipc_port_dnrequest p name so K")
  case (Inl kr)
  have "kr = KERN_NO_SPACE \<and>
      (\<forall>table. ip_dnrequests (k_ports K p) = Some table \<longrightarrow> free_slots (dn_slots table) = {})"
  proof (cases "ip_dnrequests (k_ports K p)")
    case (Some table)
    with assms(1) have "dn_ok table" by (simp add: port_dn_ok_def)
    from dn_alloc_None [OF this] Some Inl show ?thesis
      by (auto simp: ipc_port_dnrequest_def split: option.splits)
  qed (use Inl in \<open>simp add: ipc_port_dnrequest_def\<close>)
  then show ?thesis using Inl by simp
next
  case (Inr x)
  then show ?thesis using dnrequest_spec [OF assms, of so "fst x" "snd x"] by (cases x) simp
qed

theorem dnrequest_registers_witness:
  "case ipc_port_dnrequest 1 7 (Ipr_Soright 2)
          (upd_port 1 (ip_dnrequests_update (\<lambda>_. Some (dn_grow_table [2, 4, 8, 0] None 0))) kernel0) of
     Inl kr \<Rightarrow> False
   | Inr (i, K') \<Rightarrow> port_requests K' 1 i = Some \<lparr>ipr_name = 7, ipr_notify = Ipr_Soright 2\<rparr>"
proof -
  let ?t = "dn_grow_table [2, 4, 8, 0] None 0"
  let ?K = "upd_port 1 (ip_dnrequests_update (\<lambda>_. Some ?t)) kernel0"
  have ok: "port_dn_ok ?K 1" using dn_grow_None [of "[2, 4, 8, 0]" 0]
    by (simp add: port_dn_ok_def its_size_def kernel0_def upd_port_def)
  have "free_slots (dn_slots ?t) \<noteq> {}" by (rule dn_grow_None) (simp add: its_size_def)
  with dnrequest_registers [OF ok, of 7 "Ipr_Soright 2"] show ?thesis
    by (auto simp: MACH_PORT_NULL_def split: sum.splits)
qed

text \<open>
  Growing a live port's table by one size step keeps every registered request under its
  index and the free list well formed, and afterwards a new request can be registered;
  it fails only when the sizes are exhausted or memory is short, and then changes nothing.
\<close>

theorem dngrow_makes_room:
  assumes "sizes_ok (k_dn_sizes K)" and "port_dn_ok K p" and "ip_active (k_ports K p)"
  shows "case ipc_port_dngrow p None K of
           (kr, K') \<Rightarrow>
             if kr = KERN_SUCCESS
             then port_dn_ok K' p \<and> port_requests K' p = port_requests K p \<and>
                  (\<exists>i K''. ipc_port_dnrequest p name so K' = Inr (i, K''))
             else kr = KERN_RESOURCE_SHORTAGE \<and> K' = K \<and>
                  (k_nomem K \<or> its_size (k_dn_sizes K)
                     (case ip_dnrequests (k_ports K p) of None \<Rightarrow> 0 | Some t \<Rightarrow> dn_size t + 1) = 0)"
proof (cases "ipc_port_dngrow p None K")
  case (Pair kr K')
  show ?thesis
  proof (cases "kr = KERN_SUCCESS")
    case True
    note spec = dngrow_spec [OF assms, of K'] Pair True
    obtain table where t: "ip_dnrequests (k_ports K' p) = Some table" "free_slots (dn_slots table) \<noteq> {}"
      using spec by auto
    moreover have "dn_ok table" using spec t by (simp add: port_dn_ok_def)
    ultimately have "\<exists>x. ipc_port_dnrequest p name so K' = Inr x"
      using dn_alloc_None by (auto simp: ipc_port_dnrequest_def split: option.split)
    with spec show ?thesis by auto
  next
    case False
    then show ?thesis using Pair assms(3)
      by (auto simp: ipc_port_dngrow_def Let_def split: if_splits option.splits)
  qed
qed

theorem dngrow_makes_room_witness:
  "fst (ipc_port_dngrow 1 None kernel0) = KERN_SUCCESS \<and>
   (\<exists>i K''. ipc_port_dnrequest 1 7 (Ipr_Soright 2) (snd (ipc_port_dngrow 1 None kernel0)) = Inr (i, K''))"
proof -
  have "sizes_ok (k_dn_sizes kernel0)"
    by (auto simp: sizes_ok_def its_size_def kernel0_def less_Suc_eq)
  moreover have "port_dn_ok kernel0 1" "ip_active (k_ports kernel0 1)"
    by (simp_all add: port_dn_ok_def state0_defs)
  moreover have "fst (ipc_port_dngrow 1 None kernel0) = KERN_SUCCESS"
    by (simp add: ipc_port_dngrow_def Let_def its_size_def state0_defs)
  ultimately show ?thesis
    using dngrow_makes_room [of kernel0 1 7 "Ipr_Soright 2"] by (auto split: prod.splits)
qed

text \<open>
  C32: with a target size that needs more than one size step, \<^verbatim>\<open>ipc_port_dngrow\<close> on a port that
  already has a table returns \<^verbatim>\<open>KERN_SUCCESS\<close> and leaves the kernel state unchanged, so the
  table is still smaller than the requested size: the second check only accepts the size
  that follows the old one, and throws the new table away otherwise.
\<close>

theorem dngrow_target_skipped:
  assumes "ip_dnrequests (k_ports K p) = Some table"
    and "its_size (k_dn_sizes K) (dn_size table) < target"
    and "its_size (k_dn_sizes K) (dn_size table + 1) \<noteq> 0"
    and "its_size (k_dn_sizes K) (dn_size table + 1) < target"
    and "its_size (k_dn_sizes K) (its_search (k_dn_sizes K) target (dn_size table + 1)) \<noteq> 0"
    and "\<not> k_nomem K"
  shows "ipc_port_dngrow p (Some target) K = (KERN_SUCCESS, K)"
proof -
  let ?i = "dn_size table + 1"
  have "?i < length (k_dn_sizes K)" using assms(3) by (auto simp: its_size_def split: if_splits)
  then obtain xs where "drop ?i (k_dn_sizes K) = its_size (k_dn_sizes K) ?i # xs"
    by (simp add: its_size_def Cons_nth_drop_Suc [symmetric])
  then have "its_search (k_dn_sizes K) target ?i \<noteq> ?i"
    using assms(3,4) by (simp add: its_search_def)
  then show ?thesis using assms(1,2,5,6) by (simp add: ipc_port_dngrow_def Let_def)
qed

theorem dngrow_target_skipped_witness:
  "let K = upd_port 1 (ip_dnrequests_update (\<lambda>_. Some (dn_grow_table [2, 4, 8, 0] None 0))) kernel0
   in ipc_port_dngrow 1 (Some 8) K = (KERN_SUCCESS, K)"
  unfolding Let_def
  by (rule dngrow_target_skipped [where table = "dn_grow_table [2, 4, 8, 0] None 0"])
     (simp_all add: state0_defs upd_port_def dn_grow_table_def its_size_def its_search_def
       upt_rec Let_def)

end
