(* ===== verification/Port_Transit.thy ===== *)
theory Port_Transit
  imports Ipc_Port
begin

text \<open>
  Receive rights in transit: \<^verbatim>\<open>ipc_port_check_circularity\<close> keeps the ports and the messages that
  carry their receive rights free of circles. The invariant is that every chain of
  destinations ends, which also is what makes the routine's own loop terminate.
\<close>

section \<open>Chains of ports in transit\<close>

text \<open>One link of a chain: \<open>base\<close> is in transit to \<open>next\<close>.\<close>

definition transit_step :: "(port_id \<Rightarrow> ipc_port) \<Rightarrow> port_id \<Rightarrow> port_id option" where
  "transit_step ports base = (if in_transit (ports base) then ip_destination (ports base) else None)"

text \<open>\<open>chain ports p b\<close>: following destinations from \<open>p\<close> ends at \<open>b\<close>, which is not in transit.\<close>

inductive chain :: "(port_id \<Rightarrow> ipc_port) \<Rightarrow> port_id \<Rightarrow> port_id \<Rightarrow> bool"
  for ports where
  chain_here: "transit_step ports b = None \<Longrightarrow> chain ports b b"
| chain_link: "transit_step ports p = Some q \<Longrightarrow> chain ports q b \<Longrightarrow> chain ports p b"

inductive_cases chainE: "chain ports p b"

definition transit_ok :: "(port_id \<Rightarrow> ipc_port) \<Rightarrow> bool" where
  "transit_ok ports \<longleftrightarrow> (\<forall>p. \<exists>b. chain ports p b)"

lemma transit_step_None: "transit_step ports p = None \<longleftrightarrow> \<not> in_transit (ports p)"
  by (auto simp: transit_step_def in_transit_def)

lemma chain_end_step:
  "chain_end ports p = (case transit_step ports p of None \<Rightarrow> Some p | Some q \<Rightarrow> chain_end ports q)"
  by (subst chain_end.simps) (auto simp: transit_step_def in_transit_def)

lemma chain_chain_end: "chain ports p b \<Longrightarrow> chain_end ports p = Some b"
  by (induction rule: chain.induct) (subst chain_end_step, simp)+

lemma chain_unique: "chain ports p b \<Longrightarrow> chain ports p b' \<Longrightarrow> b = b'"
  by (drule chain_chain_end)+ simp

lemma chain_last: "chain ports p b \<Longrightarrow> transit_step ports b = None"
  by (induction rule: chain.induct) auto

text \<open>Sending a port that is not in transit along one more link.\<close>

lemma chain_extend:
  assumes step: "\<And>q. transit_step ports' q = (if q = port then Some dest else transit_step ports q)"
    and limbo: "transit_step ports port = None" and dest: "chain ports dest b" "b \<noteq> port"
    and p: "chain ports p c"
  shows "chain ports' p (if c = port then b else c)"
proof -
  have other: "chain ports' q e" if "chain ports q e" "e \<noteq> port" for q e
    using that
  proof (induction rule: chain.induct)
    case (chain_link q r e)
    then have "q \<noteq> port" using limbo by auto
    with chain_link show ?case by (auto intro: chain.chain_link simp: step)
  qed (auto intro: chain.chain_here simp: step)
  show ?thesis
    using p
  proof (induction rule: chain.induct)
    case (chain_here q)
    then show ?case using other [OF dest] by (auto intro: chain.intros simp: step)
  next
    case (chain_link q r e)
    then have "q \<noteq> port" using limbo by auto
    with chain_link show ?case by (auto intro: chain.chain_link simp: step)
  qed
qed

section \<open>Properties\<close>

lemma transit_step_core:
  "port_core (ports p) = port_core (ports' p) \<Longrightarrow> transit_step ports p = transit_step ports' p"
  by (auto dest: port_core_fields simp: transit_step_def in_transit_def ip_destination_def)

lemma transit_ok_cong:
  assumes "\<And>p. transit_step ports p = transit_step ports' p" and "transit_ok ports"
  shows "transit_ok ports'"
proof -
  have "chain ports' p b" if "chain ports p b" for p b
    using that by (induction rule: chain.induct) (auto intro: chain.intros simp: assms(1))
  with assms(2) show ?thesis unfolding transit_ok_def by blast
qed

text \<open>
  C24: in a state where every chain of ports in transit ends, \<^verbatim>\<open>ipc_port_check_circularity\<close> on a
  live port in limbo returns. It returns TRUE exactly when the destination's chain leads back
  to the port, and then changes nothing. Otherwise the port is in transit to the destination,
  which has gained a reference, nothing else has changed, and every chain still ends.
\<close>

theorem check_circularity_correct:
  assumes "transit_ok (k_ports K)" and "ip_active (k_ports K port)"
    and "ip_receiver_name (k_ports K port) = MACH_PORT_NULL"
    and "ip_destination (k_ports K port) = None"
  shows "\<exists>circular K'. ipc_port_check_circularity port dest K = Some (circular, K') \<and>
           (circular \<longleftrightarrow> chain (k_ports K) dest port) \<and>
           (if circular then K' = K
            else K' = upd_port port (ip_data_update (\<lambda>_. Ip_Destination (Some dest))) (ip_reference dest K)) \<and>
           transit_ok (k_ports K')"
proof -
  let ?K = "upd_port port (ip_data_update (\<lambda>_. Ip_Destination (Some dest))) (ip_reference dest K)"
  have limbo: "transit_step (k_ports K) port = None"
    using assms(4) by (simp add: transit_step_def in_transit_def)
  obtain b where b: "chain (k_ports K) dest b" using assms(1) by (auto simp: transit_ok_def)
  have cend: "chain_end (k_ports K) dest = Some b" using chain_chain_end [OF b] .
  have circ: "chain (k_ports K) dest port \<longleftrightarrow> b = port" using b chain_unique by blast
  have check: "ipc_port_check_circularity port dest K =
      Some (if b = port then (True, K) else (False, ?K))"
  proof (cases "in_transit (k_ports K dest)")
    case True
    moreover have "port \<noteq> dest" using True limbo by (auto simp: transit_step_None)
    ultimately show ?thesis by (simp add: ipc_port_check_circularity_def Let_def cend)
  next
    case False
    then have "b = dest" using chain_unique [OF b chain_here] by (simp add: transit_step_None)
    with False show ?thesis by (auto simp: ipc_port_check_circularity_def Let_def)
  qed
  have "transit_ok (k_ports ?K)" if "b \<noteq> port"
  proof -
    have step: "transit_step (k_ports ?K) q =
        (if q = port then Some dest else transit_step (k_ports K) q)" for q
      using assms(2,3) by (auto simp: transit_step_def in_transit_def ip_destination_def ip_reference_def)
    show ?thesis unfolding transit_ok_def
      using chain_extend [OF step limbo b that] assms(1) by (fastforce simp: transit_ok_def)
  qed
  then show ?thesis using check circ assms(1) by (auto simp: if_split)
qed

theorem check_circularity_correct_witness:
  "let K = upd_port 2 (ip_data_update (\<lambda>_. Ip_Destination (Some 1)))
             (upd_port 1 (ip_data_update (\<lambda>_. Ip_Destination None)) kernel0)
   in \<exists>K'. ipc_port_check_circularity 1 2 K = Some (True, K')"
proof -
  let ?K = "upd_port 2 (ip_data_update (\<lambda>_. Ip_Destination (Some 1)))
             (upd_port 1 (ip_data_update (\<lambda>_. Ip_Destination None)) kernel0)"
  have step: "transit_step (k_ports ?K) q = (if q = 2 then Some 1 else None)" for q
    by (auto simp: transit_step_def in_transit_def ip_destination_def state0_defs)
  have c1: "chain (k_ports ?K) q q" if "q \<noteq> 2" for q by (rule chain_here) (use that step in \<open>simp only: if_False\<close>)
  have c2: "chain (k_ports ?K) 2 1" by (rule chain_link [OF _ c1 [of 1]]) (simp_all only: step, simp_all)
  have ok: "transit_ok (k_ports ?K)" unfolding transit_ok_def using c1 c2 by metis
  from check_circularity_correct [OF ok, of 1 2] c2 show ?thesis
    by (auto simp: state0_defs ip_destination_def upd_port_def)
qed

end
