(* ===== verification/Port_Life.thy ===== *)
theory Port_Life
  imports Port_Queues Port_Requests Port_Transit
begin

text \<open>
  The end of rights and ports: the no-senders notification when the last send right goes, and
  the destruction of a port with everything that hangs on it.
\<close>

section \<open>What sending leaves behind\<close>

text \<open>A message whose cleaning has nothing to release.\<close>

definition harmless :: "ipc_kmsg \<Rightarrow> bool" where
  "harmless m \<longleftrightarrow> ikm_remote m = IO_NULL \<and> ikm_rights m = []"

lemma send_always_logs:
  assumes "ikm_rights m = []" and "\<not> ikm_circular m"
  shows "\<exists>gos. k_thread_go (ipc_mqueue_send_always m K) = k_thread_go K @ gos"
    and "\<exists>ms. ith_messages (ipc_mqueue_send_always m K) = ith_messages K @ ms \<and> (\<forall>m\<in>set ms. harmless m)"
proof -
  have "\<exists>gos. k_thread_go (mqueue_deliver m p K) = k_thread_go K @ gos"
    "ith_messages (mqueue_deliver m p K) = ith_messages K" for p
    by (auto simp: mqueue_deliver_def Let_def split: prod.split)
  then show "\<exists>gos. k_thread_go (ipc_mqueue_send_always m K) = k_thread_go K @ gos"
    "\<exists>ms. ith_messages (ipc_mqueue_send_always m K) = ith_messages K @ ms \<and> (\<forall>m\<in>set ms. harmless m)"
    using assms by (cases "ikm_remote m"; auto simp: ipc_mqueue_send_always_def ipc_mqueue_send_def harmless_def)+
qed

lemma release_sonce_logs [simp]:
  "k_thread_go (ipc_port_release_sonce p K) = k_thread_go K"
  "ith_messages (ipc_port_release_sonce p K) = ith_messages K"
  "k_nomem (ipc_port_release_sonce p K) = k_nomem K"
  "k_dn_sizes (ipc_port_release_sonce p K) = k_dn_sizes K"
  "k_timestamp (ipc_port_release_sonce p K) = k_timestamp K"
  by (simp_all add: ipc_port_release_sonce_def Let_def ip_release_def upd_port_def)

lemma k_timestamp_upd [simp]:
  "k_timestamp (upd_port p f K) = k_timestamp K"
  "k_timestamp (threads_go gos K) = k_timestamp K"
  "k_timestamp (ip_release p K) = k_timestamp K"
  "k_timestamp (ipc_kmsg_destroy m K) = k_timestamp K"
  "k_timestamp (set_imq_messages q ms K) = k_timestamp K"
  "k_timestamp (set_imq_threads q ths K) = k_timestamp K"
  "k_dn_sizes (threads_go gos K) = k_dn_sizes K"
  "k_dn_sizes (ip_release p K) = k_dn_sizes K"
  "k_dn_sizes (ipc_kmsg_destroy m K) = k_dn_sizes K"
  "k_dn_sizes (set_imq_messages q ms K) = k_dn_sizes K"
  "k_dn_sizes (set_imq_threads q ths K) = k_dn_sizes K"
  by (cases q; simp add: upd_defs threads_go_def ip_release_def ipc_kmsg_destroy_def)+

lemma send_always_globals [simp]:
  "k_timestamp (ipc_mqueue_send_always m K) = k_timestamp K"
  "k_dn_sizes (ipc_mqueue_send_always m K) = k_dn_sizes K"
  by (simp_all add: ipc_mqueue_send_always_def ipc_mqueue_send_def mqueue_deliver_def Let_def
      split: ipc_object.split prod.split)

text \<open>A port is dead to messages when it neither queues them nor hands them to the kernel.\<close>

definition quiet :: "ipc_kernel \<Rightarrow> port_id \<Rightarrow> bool" where
  "quiet K p \<longleftrightarrow> \<not> ip_active (k_ports K p) \<and> (\<forall>s. ip_data (k_ports K p) \<noteq> Ip_Receiver s)"

lemma quiet_messages:
  assumes "quiet K p"
  shows "ip_messages (k_ports (ipc_mqueue_send_always m K) p) = ip_messages (k_ports K p)"
proof (cases "ikm_remote m")
  case (IO_PORT q)
  have "ip_messages (k_ports (mqueue_deliver m q K) p) = ip_messages (k_ports K p)" if "q \<noteq> p"
    using that by (auto simp: mqueue_deliver_def Let_def threads_go_def split: prod.split option.split)
  with assms IO_PORT show ?thesis
    by (auto simp: ipc_mqueue_send_always_def ipc_mqueue_send_def quiet_def ipc_kmsg_destroy_def
        ip_release_def)
qed (simp_all add: ipc_mqueue_send_always_def ipc_mqueue_send_def)

lemma quiet_cong: "cores K p = cores K' p \<Longrightarrow> quiet K p = quiet K' p"
  by (auto simp: quiet_def dest: port_core_fields)

text \<open>
  How a state relates to a later one when only notifications were sent in between: the port
  \<open>p\<close>, if it is dead, keeps its queue; every port keeps its core; the logs only grow, and the messages to be
  destroyed only by harmless ones.
\<close>

definition after_notify :: "port_id \<Rightarrow> ipc_kernel \<Rightarrow> ipc_kernel \<Rightarrow> bool" where
  "after_notify p K K' \<longleftrightarrow>
     (\<forall>q. cores K' q = cores K q) \<and> k_spaces K' = k_spaces K \<and>
     k_timestamp K' = k_timestamp K \<and> k_dn_sizes K' = k_dn_sizes K \<and>
     (quiet K p \<longrightarrow> ip_messages (k_ports K' p) = ip_messages (k_ports K p)) \<and>
     (\<exists>gos. k_thread_go K' = k_thread_go K @ gos) \<and> 
     (\<exists>ms. ith_messages K' = ith_messages K @ ms \<and> (\<forall>m\<in>set ms. harmless m))"

lemma after_notify_refl [simp]: "after_notify p K K"
  by (simp add: after_notify_def)

lemma after_notify_trans:
  "after_notify p K K1 \<Longrightarrow> after_notify p K1 K2 \<Longrightarrow> after_notify p K K2"
  unfolding after_notify_def using quiet_cong [of K1 p K] by (elim conjE exE) (simp add: ball_Un)

lemma after_notify_send: "ikm_rights m = [] \<Longrightarrow> \<not> ikm_circular m \<Longrightarrow> after_notify p K (ipc_mqueue_send_always m K)"
  using send_always_logs [of m K] quiet_messages by (simp add: after_notify_def)

lemma after_notify_release: "after_notify p K (ipc_port_release_sonce q K)"
  by (auto simp: after_notify_def ipc_port_release_sonce_def Let_def ip_release_def)

lemma after_notify_notify [simp]:
  "after_notify p K (ipc_notify_no_senders q c K)"
  "after_notify p K (ipc_notify_send_once q K)"
  "after_notify p K (ipc_notify_dead_name q n K)"
  "after_notify p K (ipc_notify_port_deleted q n K)"
  by (simp_all add: ipc_notify_no_senders_def ipc_notify_send_once_def ipc_notify_dead_name_def
      ipc_notify_port_deleted_def after_notify_send after_notify_release notify_kmsg_def)

section \<open>The last send right\<close>

lemma drop_sright_eq:
  "drop_sright p K =
     (if ip_srights (k_ports K p) - 1 = 0 \<and> ip_nsrequest (k_ports K p) \<noteq> None
      then (Some (the (ip_nsrequest (k_ports K p)), ip_mscount (k_ports K p)),
            upd_port p (\<lambda>r. r\<lparr>ip_srights := ip_srights r - 1, ip_nsrequest := None\<rparr>) K)
      else (None, upd_port p (ip_srights_update (\<lambda>n. n - 1)) K))"
  by (auto simp: drop_sright_def Let_def upd_port_def fun_eq_iff split: option.split)

lemma notify_located:
  assumes "\<not> k_nomem K" and "ip_active (k_ports K q)"
  shows "located (ipc_notify_no_senders q c K) (port_mqueue K q) = located K (port_mqueue K q) +
           {#notify_kmsg q MACH_MSG_TYPE_PORT_SEND_ONCE (MACH_NOTIFY_NO_SENDERS c) []#}"
proof -
  let ?m = "notify_kmsg q MACH_MSG_TYPE_PORT_SEND_ONCE (MACH_NOTIFY_NO_SENDERS c) []"
  have kobj: "located (K\<lparr>k_kobject_msgs := k_kobject_msgs K @ [m]\<rparr>) r = located K r + {#m#}" for m r
    by (simp add: located_def)
  show ?thesis using assms located_deliver [of ?m q K]
    by (auto simp: ipc_notify_no_senders_def ipc_mqueue_send_always_def ipc_mqueue_send_def
        kobj notify_kmsg_def)
qed

lemma notify_references:
  assumes "\<not> k_nomem K" and "ip_active (k_ports K q)"
  shows "ip_references (k_ports (ipc_notify_no_senders q c K) p) = ip_references (k_ports K p)"
proof -
  have "ip_references (k_ports (mqueue_deliver m q K) p) = ip_references (k_ports K p)" for m
    by (auto simp: mqueue_deliver_def Let_def threads_go_def upd_defs split: prod.split option.split)
  then show ?thesis using assms
    by (simp add: ipc_notify_no_senders_def ipc_mqueue_send_always_def ipc_mqueue_send_def notify_kmsg_def)
qed



section \<open>The death of a port\<close>

lemma kmsg_destroy_loop_spec:
  "cores (kmsg_destroy_loop p ms K) q = cores K q"
  "k_spaces (kmsg_destroy_loop p ms K) = k_spaces K"
  "k_timestamp (kmsg_destroy_loop p ms K) = k_timestamp K"
  "k_dn_sizes (kmsg_destroy_loop p ms K) = k_dn_sizes K"
  "k_thread_go (kmsg_destroy_loop p ms K) = k_thread_go K"
  "ip_messages (k_ports (kmsg_destroy_loop p ms K) q) = ip_messages (k_ports K q)"
  "ith_messages (kmsg_destroy_loop p ms K) = ith_messages K @ map (ikm_remote_update (\<lambda>_. IO_NULL)) ms"
  by (induction p ms K rule: kmsg_destroy_loop.induct)
     (simp_all add: ipc_kmsg_destroy_def ip_release_def)

text \<open>The requests a dying port notifies, in the order of their slots.\<close>

definition dead_name_requests :: "ipc_port_request list \<Rightarrow> ipc_port_request list" where
  "dead_name_requests iprs = filter (\<lambda>r. ipr_name r \<noteq> MACH_PORT_NULL) iprs"

fun notify_request :: "ipc_port_request \<Rightarrow> ipc_kernel \<Rightarrow> ipc_kernel" where
  "notify_request r =
     (case ipr_notify r of Ipr_Soright q \<Rightarrow> ipc_notify_dead_name q (ipr_name r) | _ \<Rightarrow> (\<lambda>K. K))"

lemma dead_name_loop_notifies:
  assumes "\<forall>r\<in>set (dead_name_requests iprs). \<exists>q. ipr_notify r = Ipr_Soright q"
  shows "dead_name_loop p iprs K = Some (fold notify_request (dead_name_requests iprs) K)"
  using assms
proof (induction p iprs K rule: dead_name_loop.induct)
  case (2 p ipr iprs K)
  show ?case
  proof (cases "ipr_name ipr = MACH_PORT_NULL")
    case True
    with 2 show ?thesis by (simp add: dead_name_requests_def)
  next
    case False
    then obtain q where "ipr_notify ipr = Ipr_Soright q" using 2(4) by (auto simp: dead_name_requests_def)
    with 2 False show ?thesis by (simp add: dead_name_requests_def)
  qed
qed (simp add: dead_name_requests_def)

lemma after_notify_fold: "after_notify p K (fold notify_request rs K)"
proof (induction rs arbitrary: K)
  case (Cons r rs)
  have "after_notify p K (notify_request r K)" by (simp split: ipr_notify.split)
  from after_notify_trans [OF this Cons] show ?case by simp
qed simp

definition table_requests :: "ipc_kernel \<Rightarrow> port_id \<Rightarrow> ipc_port_request list" where
  "table_requests K p =
     (case ip_dnrequests (k_ports K p) of
        None \<Rightarrow> []
      | Some table \<Rightarrow> map (nth (dn_slots table)) [1..<its_size (k_dn_sizes K) (dn_size table)])"

lemma table_requests_registered:
  assumes "port_dn_ok K p"
  shows "r \<in> set (dead_name_requests (table_requests K p)) \<longleftrightarrow> (\<exists>i. port_requests K p i = Some r)"
proof (cases "ip_dnrequests (k_ports K p)")
  case (Some table)
  with assms have len: "length (dn_slots table) = its_size (k_dn_sizes K) (dn_size table)"
    by (simp add: port_dn_ok_def dn_sized_def)
  have "r \<in> set (dead_name_requests (table_requests K p)) \<longleftrightarrow>
      (\<exists>i. 1 \<le> i \<and> i < length (dn_slots table) \<and> dn_slots table ! i = r) \<and> ipr_name r \<noteq> MACH_PORT_NULL"
    unfolding table_requests_def dead_name_requests_def Some option.case len [symmetric] by auto
  also have "\<dots> \<longleftrightarrow> (\<exists>i. dn_lookup table i = Some r)"
    unfolding dn_lookup_def by (metis One_nat_def Suc_le_eq option.inject option.discI)
  finally show ?thesis by (simp add: port_requests_def Some)
qed (simp add: table_requests_def dead_name_requests_def port_requests_def)

text \<open>
  Destroying a live port without a backup port, whose registered dead-name requests are send-once rights,
  always completes. The port is then dead, stamped with the current timestamp, which has advanced; all its
  blocked senders have been woken, its queue is empty and every message that was in it waits to be cleaned, in
  order, with nothing but harmless messages before and behind; the names of all spaces and the state of
  all other ports, message traffic apart, are unchanged.
\<close>

lemma port_destroy_outcome:
  assumes "ip_pdrequest (k_ports K p) = PD_NULL" and "port_dn_ok K p"
    and "\<forall>i r. port_requests K p i = Some r \<longrightarrow> (\<exists>q. ipr_notify r = Ipr_Soright q)"
  shows "\<exists>K' gos xs ys. ipc_port_destroy p K = Some K' \<and>
           \<not> ip_active (k_ports K' p) \<and> ip_data (k_ports K' p) = Ip_Timestamp (k_timestamp K) \<and>
           k_timestamp K' = k_timestamp K + 1 \<and>
           ip_blocked (k_ports K' p) = [] \<and> ip_messages (k_ports K' p) = [] \<and>
           k_thread_go K' = k_thread_go K @ wake_senders (ip_blocked (k_ports K p)) @ gos \<and>
           ith_messages K' = ith_messages K @ xs @
             map (ikm_remote_update (\<lambda>_. IO_NULL)) (ip_messages (k_ports K p)) @ ys \<and>
           (\<forall>m\<in>set (xs @ ys). harmless m) \<and>
           entries K' = entries K \<and>
           (\<forall>q. q \<noteq> p \<longrightarrow> port_core (k_ports K' q) = port_core (k_ports K q))"
proof -
  define K1 where "K1 = (let K = threads_go (wake_senders (ip_blocked (k_ports K p))) K
     in (snd (ipc_port_timestamp (upd_port p (ip_active_update (\<lambda>_. False))
              (upd_port p (ip_blocked_update (\<lambda>_. [])) K)))))"
  define K2 where "K2 = upd_port p (ip_data_update (\<lambda>_. Ip_Timestamp (k_timestamp K))) K1"
  define K3 where "K3 = (case ip_nsrequest (k_ports K2 p) of
                  None \<Rightarrow> K2 | Some nsrequest \<Rightarrow> ipc_notify_send_once nsrequest K2)"
  define K4 where "K4 = kmsg_destroy_loop p (ip_messages (k_ports K3 p))
                          (upd_port p (ip_messages_update (\<lambda>_. [])) K3)"
  define K5 where "K5 = fold notify_request (dead_name_requests (table_requests K4 p)) K4"
  define K6 where "K6 = ip_release p (if ip_kotype (k_ports K5 p) \<noteq> 0
                then K5\<lparr>k_kobjects_gone := k_kobjects_gone K5 @ [p]\<rparr> else K5)"
  have K2: "port_core (k_ports K2 p) =
        port_core (k_ports K p\<lparr>ip_blocked := [], ip_active := False, ip_data := Ip_Timestamp (k_timestamp K)\<rparr>)"
      "\<forall>q. q \<noteq> p \<longrightarrow> port_core (k_ports K2 q) = port_core (k_ports K q)"
      "ip_messages (k_ports K2 p) = ip_messages (k_ports K p)"
      "k_thread_go K2 = k_thread_go K @ wake_senders (ip_blocked (k_ports K p))"
      "ith_messages K2 = ith_messages K" "k_spaces K2 = k_spaces K" "k_dn_sizes K2 = k_dn_sizes K"
      "k_timestamp K2 = k_timestamp K + 1"
    by (simp_all add: K2_def K1_def Let_def ipc_port_timestamp_def threads_go_def upd_port_def port_core_def)
  have quiet2: "quiet K2 p" using port_core_fields [OF K2(1)] by (simp add: quiet_def)
  have a3: "after_notify p K2 K3" by (simp add: K3_def split: option.split)
  have core4: "cores K4 q = cores K2 q" for q
    using a3 by (simp add: K4_def kmsg_destroy_loop_spec after_notify_def)
  have m3: "ip_messages (k_ports K3 p) = ip_messages (k_ports K p)"
    using a3 quiet2 K2(3) by (simp add: after_notify_def)
  have K4: "k_spaces K4 = k_spaces K" "k_timestamp K4 = k_timestamp K + 1" "k_dn_sizes K4 = k_dn_sizes K"
      "ip_messages (k_ports K4 p) = []"
    using a3 K2 by (simp_all add: K4_def kmsg_destroy_loop_spec after_notify_def)
  have quiet4: "quiet K4 p" using quiet2 quiet_cong [OF core4] by blast
  have tab: "table_requests K4 p = table_requests K p" "port_requests K4 p = port_requests K p"
      "port_dn_ok K4 p"
    using port_core_fields(8) [OF core4 [of p]] port_core_fields(8) [OF K2(1)] K4(3) assms(2)
    by (auto simp: table_requests_def port_requests_def port_dn_ok_def split: option.splits)
  have "dead_name_loop p (table_requests K4 p) K4 = Some K5"
    unfolding K5_def
    by (rule dead_name_loop_notifies) (use assms(3) table_requests_registered [OF tab(3)] tab(2) in auto)
  then have loop: "(case ip_dnrequests (k_ports K4 p) of
        None \<Rightarrow> Some K4
      | Some table \<Rightarrow> dead_name_loop p
          (map (nth (dn_slots table)) [1..<its_size (k_dn_sizes K4) (dn_size table)]) K4) = Some K5"
    by (auto simp: table_requests_def split: option.splits)
  have "ipc_port_destroy p K = ipc_port_destroy_tail p K"
    using assms(1) by (simp add: ipc_port_destroy_def)
  moreover have "ipc_port_destroy_tail p K = Option.bind (case ip_dnrequests (k_ports K4 p) of
        None \<Rightarrow> Some K4
      | Some table \<Rightarrow> dead_name_loop p
          (map (nth (dn_slots table)) [1..<its_size (k_dn_sizes K4) (dn_size table)]) K4)
      (\<lambda>K. Some (ip_release p (if ip_kotype (k_ports K p) \<noteq> 0
                then K\<lparr>k_kobjects_gone := k_kobjects_gone K @ [p]\<rparr> else K)))"
    unfolding ipc_port_destroy_tail_def K4_def K3_def K2_def K1_def ipc_port_timestamp_def Let_def
    by (simp only: prod.case snd_conv k_timestamp_upd)
  then have "ipc_port_destroy_tail p K = Some K6" by (simp only: loop K6_def Option.bind.bind_lunit)
  ultimately have destroy: "ipc_port_destroy p K = Some K6" by simp
  have a5: "after_notify p K4 K5" unfolding K5_def by (rule after_notify_fold)
  have core6: "port_core (k_ports K6 q) = port_core (k_ports K2 q)" for q
    using a5 core4 by (simp add: K6_def after_notify_def)
  have K6: "k_thread_go K6 = k_thread_go K5" "ith_messages K6 = ith_messages K5"
    "k_spaces K6 = k_spaces K5" "k_timestamp K6 = k_timestamp K5"
    "ip_messages (k_ports K6 p) = ip_messages (k_ports K5 p)"
    by (simp_all add: K6_def ip_release_def)
  obtain g1 g2 m1 m2 where logs: "k_thread_go K3 = k_thread_go K2 @ g1" "ith_messages K3 = ith_messages K2 @ m1"
    "k_thread_go K5 = k_thread_go K4 @ g2" "ith_messages K5 = ith_messages K4 @ m2" "\<forall>m\<in>set (m1 @ m2). harmless m"
    using a3 a5 unfolding after_notify_def by (fastforce simp: ball_Un)
  have gos: "k_thread_go K6 = k_thread_go K2 @ g1 @ g2"
    unfolding K6 logs by (simp add: K4_def kmsg_destroy_loop_spec logs)
  have ms: "ith_messages K6 = ith_messages K2 @ m1 @
      map (ikm_remote_update (\<lambda>_. IO_NULL)) (ip_messages (k_ports K p)) @ m2"
    unfolding K6 logs by (simp add: K4_def kmsg_destroy_loop_spec logs m3)
  have rest: "k_spaces K6 = k_spaces K" "k_timestamp K6 = k_timestamp K + 1"
      "ip_messages (k_ports K6 p) = []"
    using a5 quiet4 K4 K6 by (simp_all add: after_notify_def)
  note fields = port_core_fields [OF trans [OF core6 K2(1)]]
  show ?thesis
    by (rule exI [of _ K6], rule exI [of _ "g1 @ g2"], rule exI [of _ m1], rule exI [of _ m2])
       (use destroy gos ms rest core6 K2 fields logs(5) entries_cong [OF rest(1)] in simp)
qed

end
