(* ===== verification/Right_Urefs.thy ===== *)
theory Right_Urefs
  imports Right_Equiv Port_Life
begin

text \<open>
  The user-reference counts: the machine arithmetic of \<^verbatim>\<open>ipc_right_delta\<close> and \<^verbatim>\<open>ipc_right_copyout\<close> on
  entry words is integer arithmetic on the count, overflow and underflow are caught exactly,
  and the rest of the entry word is never touched.
\<close>

section \<open>The overflow tests as integer tests\<close>

lemma word_add_sint:
  fixes u d :: natural_t
  assumes "0 \<le> uint u + sint d" and "uint u + sint d < 2 ^ 32"
  shows "uint (u + d) = uint u + sint d"
proof -
  have "u + d = word_of_int (uint u + sint d)" by (simp add: wi_hom_add [symmetric])
  then have "uint (u + d) = (uint u + sint d) mod 2 ^ 32"
    by (simp only: uint_word_of_int take_bit_eq_mod) simp
  also have "\<dots> = uint u + sint d" using assms by (rule mod_pos_pos_trivial)
  finally show ?thesis .
qed

lemma sint_range32: "- (2 ^ 31) \<le> sint (d :: natural_t)" "sint (d :: natural_t) < 2 ^ 31"
  using sint_ge [of d] sint_lt [of d] by simp_all

lemma underflow_iff:
  "MACH_PORT_UREFS_UNDERFLOW urefs delta \<longleftrightarrow> uint urefs + sint delta < 0"
proof (cases "sint delta < 0")
  case True
  have "- delta = word_of_int (- sint delta)" by (simp add: wi_hom_neg [symmetric])
  then have "uint (- delta) = (- sint delta) mod 2 ^ 32"
    by (simp only: uint_word_of_int take_bit_eq_mod) simp
  also have "\<dots> = - sint delta"
    using True sint_range32 [of delta] by (intro mod_pos_pos_trivial) auto
  finally show ?thesis using True
    by (auto simp: MACH_PORT_UREFS_UNDERFLOW_def word_sless_alt word_less_def)
next
  case False
  then have "\<not> uint urefs + sint delta < 0" using uint_ge_0 [of urefs] by linarith
  with False show ?thesis by (simp add: MACH_PORT_UREFS_UNDERFLOW_def word_sless_alt)
qed

lemma overflow_iff:
  assumes "uint urefs \<le> 0x10000"
  shows "MACH_PORT_UREFS_OVERFLOW urefs delta \<longleftrightarrow> 0 < sint delta \<and> 0xffff < uint urefs + sint delta"
proof (cases "0 < sint delta")
  case True
  have "uint (urefs + delta) = uint urefs + sint delta"
    using True assms sint_range32 [of delta] by (intro word_add_sint) auto
  then show ?thesis using True
    by (auto simp: MACH_PORT_UREFS_OVERFLOW_def word_sless_alt word_less_def word_le_def
        MACH_PORT_UREFS_MAX_def)
qed (simp add: MACH_PORT_UREFS_OVERFLOW_def word_sless_alt)

lemma uint_max: "uint MACH_PORT_UREFS_MAX = 0xffff"
  by (simp add: MACH_PORT_UREFS_MAX_def)

lemma uint_urefs: "uint (IE_BITS_UREFS bits) \<le> 0xffff"
  using urefs_le_max [of bits] by (simp add: word_le_def uint_max)

lemma add_delta_fields:
  assumes "0 \<le> uint (IE_BITS_UREFS bits) + sint delta"
    and "uint (IE_BITS_UREFS bits) + sint delta \<le> 0xffff"
  shows "bits + delta = with_urefs bits (word_of_int (uint (IE_BITS_UREFS bits) + sint delta))"
    and "uint (IE_BITS_UREFS (bits + delta)) = uint (IE_BITS_UREFS bits) + sint delta"
    and "IE_BITS_UREFS bits + delta = 0 \<longleftrightarrow> uint (IE_BITS_UREFS bits) + sint delta = 0"
proof -
  let ?u = "IE_BITS_UREFS bits"
  have sum: "uint (?u + delta) = uint ?u + sint delta"
    using assms by (intro word_add_sint) auto
  then have w: "?u + delta = word_of_int (uint ?u + sint delta)" by (metis word_of_int_uint)
  have le: "?u + delta \<le> MACH_PORT_UREFS_MAX" using sum assms by (simp add: word_le_def uint_max)
  show "bits + delta = with_urefs bits (word_of_int (uint ?u + sint delta))"
    using add_urefs [OF le] unfolding w .
  show "uint (IE_BITS_UREFS (bits + delta)) = uint ?u + sint delta"
    using keep_fields(2) [OF le] sum by simp
  show "?u + delta = 0 \<longleftrightarrow> uint ?u + sint delta = 0" using sum by (simp add: uint_0_iff [symmetric])
qed

section \<open>Requests of entries\<close>

text \<open>An entry's dead-name request is registered, under its index, with the entry's port.\<close>

definition request_ok :: "ipc_kernel \<Rightarrow> space_id \<Rightarrow> mach_port_t \<Rightarrow> ipc_entry \<Rightarrow> bool" where
  "request_ok K s n e \<longleftrightarrow>
     (case entry_port e of
        None \<Rightarrow> ie_request e = 0
      | Some p \<Rightarrow> ip_active (k_ports K p) \<longrightarrow> port_dn_ok K p \<and>
          (ie_request e \<noteq> 0 \<longrightarrow>
             (\<exists>r. port_requests K p (ie_request e) = Some r \<and> ipr_name r = n \<and>
                  (if test (ie_bits e) IE_BITS_COMPAT then ipr_notify r = Ipr_Space s
                   else \<exists>q. ipr_notify r = Ipr_Soright q))))"

lemma dncancel_total:
  assumes "request_ok K s n e" and "ie_object e = IO_PORT p" and "ip_active (k_ports K p)"
    and e: "entries K s n = Some e"
  shows "\<exists>d K'. ipc_right_dncancel_macro s p n e K = Some (d, e\<lparr>ie_request := 0\<rparr>, K') \<and>
           entries K' = (entries K)(s := (entries K s)(n \<mapsto> e\<lparr>ie_request := 0\<rparr>)) \<and>
           (\<exists>t. k_ports K' = (k_ports K)(p := k_ports K p\<lparr>ip_dnrequests := t\<rparr>)) \<and>
           (\<forall>b s' n'. marequest_cancel_if b s' n' K' = None \<longleftrightarrow> marequest_cancel_if b s' n' K = None)"
proof (cases "ie_request e = 0")
  case True
  then have "e = e\<lparr>ie_request := 0\<rparr>" by simp
  then show ?thesis using True e
    by (intro exI [of _ None] exI [of _ K])
       (auto simp: ipc_right_dncancel_macro_def fun_eq_iff intro: exI [of _ "ip_dnrequests (k_ports K p)"])
next
  case False
  then obtain r where r: "port_dn_ok K p" "port_requests K p (ie_request e) = Some r"
    "if test (ie_bits e) IE_BITS_COMPAT then ipr_notify r = Ipr_Space s
     else \<exists>q. ipr_notify r = Ipr_Soright q"
    using assms(1-3) by (auto simp: request_ok_def entry_port_def)
  from dncancel_spec [OF r(1,2)] obtain K1 where K1:
    "ipc_port_dncancel p n (ie_request e) K = Some (ipr_notify r, K1)"
    "K1 = upd_port p (ip_dnrequests_update (\<lambda>_. ip_dnrequests (k_ports K1 p))) K" by blast
  define t where "t = ip_dnrequests (k_ports K1 p)"
  have K1': "K1 = upd_port p (ip_dnrequests_update (\<lambda>_. t)) K" using K1(2) by (simp add: t_def)
  let ?e = "e\<lparr>ie_request := 0\<rparr>"
  let ?K2 = "set_entry s n ?e K1"
  let ?K3 = "if test (ie_bits e) IE_BITS_COMPAT then is_release s ?K2 else ?K2"
  have "\<exists>d. ipc_right_dncancel_macro s p n e K = Some (d, ?e, ?K3)"
    using r(3) False K1(1)
    by (auto simp: ipc_right_dncancel_macro_def ipc_right_dncancel_def Let_def split: if_splits)
  moreover have "entries ?K3 = (entries K)(s := (entries K s)(n \<mapsto> ?e))"
    by (auto simp: K1' is_release_def entries_def upd_defs fun_eq_iff)
  moreover have "k_ports ?K3 = (k_ports K)(p := k_ports K p\<lparr>ip_dnrequests := t\<rparr>)"
    by (auto simp: K1' is_release_def upd_defs)
  moreover have "marequest_cancel_if b s' n' ?K3 = None \<longleftrightarrow> marequest_cancel_if b s' n' K = None" for b s' n'
    by (auto simp: marequest_cancel_if_def ipc_marequest_cancel_def K1' split: bind_splits)
  ultimately show ?thesis by blast
qed

section \<open>Giving up the last reference\<close>

lemma drop_sright_frame:
  assumes "drop_sright p K = (ns, K1)"
  shows "k_spaces K1 = k_spaces K" "k_dn_sizes K1 = k_dn_sizes K" "imar_find s n K1 = imar_find s n K"
    "ip_srights (k_ports K1 p) = ip_srights (k_ports K p) - 1"
    "ip_active (k_ports K1 q) = ip_active (k_ports K q)"
    "ip_dnrequests (k_ports K1 q) = ip_dnrequests (k_ports K q)"
    "q \<noteq> p \<Longrightarrow> k_ports K1 q = k_ports K q"
  using assms by (auto simp: drop_sright_eq upd_port_def imar_find_def split: if_splits)

lemma ports_hash [simp]:
  "k_ports (ipc_hash_delete s p n K) = k_ports K"
  "k_ports (ipc_hash_insert s p n K) = k_ports K"
  by (simp_all add: ipc_hash_delete_def ipc_hash_insert_def)

lemma request_ok_cong:
  assumes "k_dn_sizes K1 = k_dn_sizes K"
    and "\<And>q. ip_active (k_ports K1 q) = ip_active (k_ports K q)"
    and "\<And>q. ip_dnrequests (k_ports K1 q) = ip_dnrequests (k_ports K q)"
  shows "request_ok K1 s n e = request_ok K s n e"
  unfolding request_ok_def port_dn_ok_def port_requests_def assms ..

lemma port_core_dnrequests: "port_core (x\<lparr>ip_dnrequests := t\<rparr>) = (port_core x)\<lparr>ip_dnrequests := t\<rparr>"
  by (simp add: port_core_def)

lemma remove_send_entry_total:
  assumes "request_ok K s n e" and "marequest_ok K s n e" and "ie_object e = IO_PORT p"
    and "ip_active (k_ports K p)" and "entries K s n = Some e"
  obtains d K' t where "remove_send_entry s n e p K = Some (d, K')"
    "entries K' = (entries K)(s := (entries K s)(n := None))"
    "\<And>q. cores K' q = (if q = p then (cores K p)\<lparr>ip_dnrequests := t\<rparr> else cores K q)"
proof -
  from dncancel_total [OF assms(1,3,4,5)] obtain d K1 t where K1:
    "ipc_right_dncancel_macro s p n e K = Some (d, e\<lparr>ie_request := 0\<rparr>, K1)"
    "entries K1 = (entries K)(s := (entries K s)(n \<mapsto> e\<lparr>ie_request := 0\<rparr>))"
    "k_ports K1 = (k_ports K)(p := k_ports K p\<lparr>ip_dnrequests := t\<rparr>)"
    "\<And>b s' n'. marequest_cancel_if b s' n' K1 = None \<longleftrightarrow> marequest_cancel_if b s' n' K = None"
    by blast
  have "marequest_cancel_if (ie_bits e) s n K1 \<noteq> None"
    using marequest_cancel_total [OF assms(2)] K1(4) by fastforce
  then obtain K2 where K2: "marequest_cancel_if (ie_bits e) s n (ipc_hash_delete s p n K1) = Some K2"
    by (auto simp: marequest_cancel_if_def ipc_marequest_cancel_def split: if_splits bind_splits)
  note frame = marequest_cancel_frame [OF K2]
  have "remove_send_entry s n e p K = Some (d, entry_dealloc s n (ip_release p K2))"
    by (simp add: remove_send_entry_def K1(1) K2)
  moreover have "entries (entry_dealloc s n (ip_release p K2)) =
      (entries K)(s := (entries K s)(n := None))"
    using entries_cong [OF frame(1)] K1(2) entries_cong [of "ipc_hash_delete s p n K1" K1]
    by (simp add: ip_release_def fun_eq_iff)
  moreover have "cores (entry_dealloc s n (ip_release p K2)) q =
      (if q = p then (cores K p)\<lparr>ip_dnrequests := t\<rparr> else cores K q)" for q
    by (simp add: frame(2) K1(3) port_core_dnrequests)
  ultimately show thesis by (rule that)
qed

lemma notify_frame [simp]:
  "k_spaces (send_port_deleted d n K) = k_spaces K"
  "cores (send_port_deleted d n K) q = cores K q"
  by (simp_all add: send_port_deleted_def split: option.split)

section \<open>Changing the count of a send right or dead name\<close>

lemma incr_uint:
  assumes "u < MACH_PORT_UREFS_MAX" shows "uint (u + 1) = uint u + 1"
  using word_add_sint [of u 1] assms by (simp add: word_less_def uint_max)

text \<open>
  C36: for a live send right with \<open>u\<close> user references and a signed change \<open>d\<close>, \<^verbatim>\<open>ipc_right_delta\<close>
  never panics and does integer arithmetic on the count: it refuses a negative count with
  \<^verbatim>\<open>KERN_INVALID_VALUE\<close> and a count of 65535 or more with \<^verbatim>\<open>KERN_UREFS_OVERFLOW\<close>, changing nothing;
  a positive count is stored, leaving type, flags and generation bits of the entry alone; at 0
  the send right is gone: the port has one send right less and the name keeps only its receive
  right, or disappears, while no other name of any space changes.
\<close>

theorem delta_send_urefs:
  fixes delta :: natural_t
  assumes "entry_ok e" and "test (ie_bits e) MACH_PORT_TYPE_SEND" and "ie_object e = IO_PORT p"
    and "ip_active (k_ports K p)" and "entries K s n = Some e"
    and "request_ok K s n e" and "marequest_ok K s n e"
    and "u = uint (IE_BITS_UREFS (ie_bits e))" and "d = sint delta"
    and "r = ipc_right_delta s n e MACH_PORT_RIGHT_SEND delta K"
  shows "(u + d < 0 \<longrightarrow> r = Some (KERN_INVALID_VALUE, K)) \<and>
         (0xffff \<le> u + d \<longrightarrow> r = Some (KERN_UREFS_OVERFLOW, K)) \<and>
         (0 < u + d \<and> u + d < 0xffff \<longrightarrow>
            r = Some (KERN_SUCCESS,
                  set_entry s n (e\<lparr>ie_bits := with_urefs (ie_bits e) (word_of_int (u + d))\<rparr>) K)) \<and>
         (u + d = 0 \<longrightarrow>
            (\<exists>K'. r = Some (KERN_SUCCESS, K') \<and>
               ip_srights (k_ports K' p) = ip_srights (k_ports K p) - 1 \<and>
               entries K' = (entries K)(s := (entries K s)(n :=
                 if test (ie_bits e) MACH_PORT_TYPE_RECEIVE
                 then Some (e\<lparr>ie_bits := ie_bits e AND NOT (IE_BITS_UREFS_MASK OR MACH_PORT_TYPE_SEND)\<rparr>)
                 else None))))"
proof -
  let ?w = "IE_BITS_UREFS (ie_bits e)"
  have w: "?w < MACH_PORT_UREFS_MAX"
    using assms(1,2) by (cases e rule: entry_ok_cases) (simp_all add: type_tests)
  then have u: "u < 0xffff" "0 \<le> u" by (simp_all add: assms(8) word_less_def uint_max)
  have under: "MACH_PORT_UREFS_UNDERFLOW ?w delta \<longleftrightarrow> u + d < 0"
    by (simp add: underflow_iff assms(8,9))
  have over: "MACH_PORT_UREFS_OVERFLOW (?w + 1) delta \<longleftrightarrow> 0 < d \<and> 0xffff \<le> u + d"
    using overflow_iff [of "?w + 1" delta] incr_uint [OF w] u by (auto simp: assms(8,9))
  have r: "r = (if u + d < 0 then Some (KERN_INVALID_VALUE, K)
                else if 0xffff \<le> u + d then Some (KERN_UREFS_OVERFLOW, K)
                else if ?w + delta = 0 then do {
                  let (ns, K) = drop_sright p K;
                  (dnrequest, K) \<leftarrow>
                    (if test (ie_bits e) MACH_PORT_TYPE_RECEIVE
                     then Some (None, set_entry s n
                       (e\<lparr>ie_bits := ie_bits e AND NOT (IE_BITS_UREFS_MASK OR MACH_PORT_TYPE_SEND)\<rparr>) K)
                     else remove_send_entry s n e p K);
                  Some (KERN_SUCCESS, send_port_deleted dnrequest n (send_no_senders ns K)) }
                else Some (KERN_SUCCESS, set_entry s n (e\<lparr>ie_bits := ie_bits e + delta\<rparr>) K))"
    using assms(2-4) u by (auto simp: assms(10) delta_send_def Let_def entry_port_def under over)
  note fields = add_delta_fields [of "ie_bits e" delta, folded assms(8) assms(9)]
  show ?thesis
  proof (intro conjI impI)
    assume "u + d = 0"
    then have z: "?w + delta = 0" using fields(3) by simp
    obtain ns K1 where K1: "drop_sright p K = (ns, K1)" by force
    note f = drop_sright_frame [OF K1]
    have e1: "entries K1 = entries K" using f(1) by (rule entries_cong)
    let ?e = "e\<lparr>ie_bits := ie_bits e AND NOT (IE_BITS_UREFS_MASK OR MACH_PORT_TYPE_SEND)\<rparr>"
    let ?fin = "\<lambda>d K. send_port_deleted d n (send_no_senders ns K)"
    have srights: "ip_srights (k_ports (?fin d K) q) = ip_srights (k_ports K q)" for d K q
      by (rule port_core_fields(3)) simp
    have ent: "entries (?fin d K) = entries K" for d K by (rule entries_cong) simp
    show "\<exists>K'. r = Some (KERN_SUCCESS, K') \<and>
             ip_srights (k_ports K' p) = ip_srights (k_ports K p) - 1 \<and>
             entries K' = (entries K)(s := (entries K s)(n :=
               if test (ie_bits e) MACH_PORT_TYPE_RECEIVE then Some ?e else None))"
    proof (cases "test (ie_bits e) MACH_PORT_TYPE_RECEIVE")
      case True
      then have "r = Some (KERN_SUCCESS, ?fin None (set_entry s n ?e K1))"
        using \<open>u + d = 0\<close> z by (simp add: r K1)
      with True show ?thesis by (auto simp: srights ent f(4) e1)
    next
      case False
      have "request_ok K1 s n e" using assms(6) request_ok_cong [of K1 K] f(2,5,6) by blast
      moreover have "marequest_ok K1 s n e" using assms(7) f(3) by (simp add: marequest_ok_def)
      ultimately obtain dn K2 t where K2: "remove_send_entry s n e p K1 = Some (dn, K2)"
        "entries K2 = (entries K1)(s := (entries K1 s)(n := None))"
        "\<And>q. cores K2 q = (if q = p then (cores K1 p)\<lparr>ip_dnrequests := t\<rparr> else cores K1 q)"
        using remove_send_entry_total assms(3,4,5) f(5) e1 by metis
      have "ip_srights (k_ports K2 p) = ip_srights (k_ports K1 p\<lparr>ip_dnrequests := t\<rparr>)"
        using K2(3) [of p] by (intro port_core_fields(3)) (simp add: port_core_dnrequests)
      moreover have "r = Some (KERN_SUCCESS, ?fin dn K2)"
        using \<open>u + d = 0\<close> z False by (simp add: r K1 K2(1))
      ultimately show ?thesis using False by (auto simp: srights ent K2(2) f(4) e1)
    qed
  next
    assume "0 < u + d \<and> u + d < 0xffff"
    then show "r = Some (KERN_SUCCESS,
        set_entry s n (e\<lparr>ie_bits := with_urefs (ie_bits e) (word_of_int (u + d))\<rparr>) K)"
      using fields by (simp add: r)
  qed (simp_all add: r)
qed

theorem delta_send_urefs_witness:
  "let e = \<lparr>ie_bits = 0x00010003, ie_object = IO_PORT 1, ie_request = 0\<rparr>;
       K = set_entry 1 5 e (upd_port 1 (ip_srights_update (\<lambda>_. 1)) kernel0)
   in (\<exists>K'. ipc_right_delta 1 5 e MACH_PORT_RIGHT_SEND (-3) K = Some (KERN_SUCCESS, K') \<and>
            entries K' 1 5 = None \<and> ip_srights (k_ports K' 1) = 0)"
proof -
  let ?e = "\<lparr>ie_bits = 0x00010003, ie_object = IO_PORT 1, ie_request = 0\<rparr>"
  let ?K = "set_entry 1 5 ?e (upd_port 1 (ip_srights_update (\<lambda>_. 1)) kernel0)"
  have "entry_ok ?e" "test (ie_bits ?e) MACH_PORT_TYPE_SEND" "ie_object ?e = IO_PORT 1"
    "ip_active (k_ports ?K 1)" "entries ?K 1 5 = Some ?e" "marequest_ok ?K 1 5 ?e"
    "request_ok ?K 1 5 ?e"
    by (simp_all add: entry_ok_def marequest_ok_def request_ok_def port_dn_ok_def entry_port_def
        bits_defs state0_defs)
  from delta_send_urefs [OF this(1-5,7,6) refl refl refl, of "-3"]
  show ?thesis by (auto simp: Let_def bits_defs state0_defs)
qed

text \<open>
  For a dead name with \<open>u\<close> user references and a signed change \<open>d\<close>, \<^verbatim>\<open>ipc_right_delta\<close> refuses a
  negative count with \<^verbatim>\<open>KERN_INVALID_VALUE\<close> and a count above 65535 with \<^verbatim>\<open>KERN_UREFS_OVERFLOW\<close>,
  frees the name when the count becomes 0 and otherwise stores the sum in the count field only.
\<close>

theorem delta_dead_name_urefs:
  fixes delta :: natural_t
  assumes "entry_ok e" and "IE_BITS_TYPE (ie_bits e) = MACH_PORT_TYPE_DEAD_NAME"
    and "u = uint (IE_BITS_UREFS (ie_bits e))" and "d = sint delta"
  shows "ipc_right_delta s n e MACH_PORT_RIGHT_DEAD_NAME delta K =
     Some (if u + d < 0 then (KERN_INVALID_VALUE, K)
           else if 0xffff < u + d then (KERN_UREFS_OVERFLOW, K)
           else (KERN_SUCCESS,
                 if u + d = 0 then entry_dealloc s n K
                 else set_entry s n (e\<lparr>ie_bits := with_urefs (ie_bits e) (word_of_int (u + d))\<rparr>) K))"
proof -
  let ?w = "IE_BITS_UREFS (ie_bits e)"
  have u: "u \<le> 0xffff" using uint_urefs by (simp add: assms(3))
  have under: "MACH_PORT_UREFS_UNDERFLOW ?w delta \<longleftrightarrow> u + d < 0"
    by (simp add: underflow_iff assms(3,4))
  have over: "MACH_PORT_UREFS_OVERFLOW ?w delta \<longleftrightarrow> 0xffff < u + d"
    using overflow_iff [of ?w delta] u by (auto simp: assms(3,4))
  note fields = add_delta_fields [of "ie_bits e" delta, folded assms(3) assms(4)]
  show ?thesis
    using fields by (simp add: delta_dead_name_def dead_name_tests [OF assms(2)] under over Let_def)
qed

theorem delta_dead_name_urefs_witness:
  "let e = \<lparr>ie_bits = 0x0010ffff, ie_object = IO_NULL, ie_request = 0\<rparr>
   in ipc_right_delta 1 5 e MACH_PORT_RIGHT_DEAD_NAME 1 kernel0 = Some (KERN_UREFS_OVERFLOW, kernel0)"
proof -
  let ?e = "\<lparr>ie_bits = 0x0010ffff, ie_object = IO_NULL, ie_request = 0\<rparr>"
  have "entry_ok ?e" "IE_BITS_TYPE (ie_bits ?e) = MACH_PORT_TYPE_DEAD_NAME"
    by (simp_all add: entry_ok_def bits_defs)
  from delta_dead_name_urefs [OF this refl refl, of 1 5 1 kernel0] show ?thesis
    by (simp add: Let_def bits_defs)
qed

section \<open>Adding references by copyout\<close>

text \<open>
  Copying a send right out to a name counts it in the integers: a name that holds a send right gets
  one more user reference, up to 65534; at the limit the right is dropped and the count stays
  pegged, or, without the overflow option, nothing changes and \<^verbatim>\<open>KERN_UREFS_OVERFLOW\<close> is returned.
  A name that holds the receive right or nothing gets its first reference. The entry stays
  well-formed, and the port's send rights are one fewer exactly when the entry held one before.
\<close>

theorem copyout_send_urefs:
  assumes "ie_object e = IO_PORT p"
    and "IE_BITS_TYPE (ie_bits e) = MACH_PORT_TYPE_NONE \<and> IE_BITS_UREFS (ie_bits e) = 0 \<and>
           \<not> test (ie_bits e) IE_BITS_COMPAT \<and> \<not> test (ie_bits e) IE_BITS_MAREQUEST \<or>
         entry_ok e \<and> test (ie_bits e) MACH_PORT_TYPE_SEND_RECEIVE"
    and "entries K s n = Some e"
    and "u = uint (IE_BITS_UREFS (ie_bits e))"
    and "(kr, K') = ipc_right_copyout s n e MACH_MSG_TYPE_PORT_SEND overflow p K"
  shows "if u = 0xfffe
         then entries K' = entries K \<and>
              (if overflow then kr = KERN_SUCCESS \<and>
                 ip_srights (k_ports K' p) = ip_srights (k_ports K p) - 1
               else kr = KERN_UREFS_OVERFLOW \<and> K' = K)
         else \<exists>e'. kr = KERN_SUCCESS \<and> entries K' = (entries K)(s := (entries K s)(n \<mapsto> e')) \<and>
              entry_ok e' \<and> uint (IE_BITS_UREFS (ie_bits e')) = u + 1 \<and>
              IE_BITS_TYPE (ie_bits e') = IE_BITS_TYPE (ie_bits e) OR MACH_PORT_TYPE_SEND \<and>
              ip_srights (k_ports K' p) =
                ip_srights (k_ports K p) - (if test (ie_bits e) MACH_PORT_TYPE_SEND then 1 else 0)"
proof -
  let ?w = "IE_BITS_UREFS (ie_bits e)" and ?b = "ie_bits e OR MACH_PORT_TYPE_SEND"
  let ?e = "e\<lparr>ie_bits := ?b + 1\<rparr>"
  have w: "?w < MACH_PORT_UREFS_MAX"
    and type: "IE_BITS_TYPE ?b = MACH_PORT_TYPE_SEND \<or> IE_BITS_TYPE ?b = MACH_PORT_TYPE_SEND_RECEIVE"
    and none: "\<not> test (ie_bits e) MACH_PORT_TYPE_SEND \<Longrightarrow> ?w = 0"
    using assms(2) by (auto elim!: entry_ok_cases simp: type_tests set_send type_combinations
        MACH_PORT_UREFS_MAX_def word_gt_0)
  have compat: "test (ie_bits e) IE_BITS_COMPAT \<longrightarrow> ie_request e \<noteq> 0"
    using assms(2) by (auto simp: entry_ok_def Let_def)
  have wb: "IE_BITS_UREFS ?b < MACH_PORT_UREFS_MAX" using w by (simp add: set_send)
  note f = incr_fields [OF wb, unfolded set_send] and u1 = incr_uint [OF w, folded assms(4)]
  have limit: "?w + 1 = MACH_PORT_UREFS_MAX \<longleftrightarrow> u = 0xfffe"
    using u1 uint_max by (simp add: word_uint_eq_iff)
  have srights: "ip_srights (k_ports K' p) =
      ip_srights (k_ports K p) - (if test (ie_bits e) MACH_PORT_TYPE_SEND then 1 else 0)"
    if "u \<noteq> 0xfffe \<or> overflow"
    using assms(5) that limit by (auto simp: Let_def ip_release_def split: if_splits)
  show ?thesis
  proof (cases "u = 0xfffe")
    case True
    then have "test (ie_bits e) MACH_PORT_TYPE_SEND" using none assms(4) by force
    then show ?thesis using True assms(5) limit srights
      by (auto simp: Let_def ip_release_def)
  next
    case False
    then have "kr = KERN_SUCCESS" "entries K' = (entries K)(s := (entries K s)(n \<mapsto> ?e))"
      using assms(5) limit entries_cong [of "ipc_hash_insert s p n K" K]
      by (auto simp: Let_def ip_release_def split: if_splits)
    moreover have "uint (IE_BITS_UREFS (ie_bits ?e)) = u + 1" by (simp add: f u1)
    moreover have "0 < ?w + 1 \<and> ?w + 1 < MACH_PORT_UREFS_MAX"
      using u1 False w assms(4) uint_ge_0 [of ?w] by (simp add: word_less_def uint_max)
    then have "entry_ok ?e"
      using type compat assms(1) by (auto simp: entry_ok_def Let_def f set_send entry_port_def)
    ultimately show ?thesis using False srights by (auto simp: f)
  qed
qed

theorem copyout_send_urefs_witness:
  "let e = \<lparr>ie_bits = 0x0001fffe, ie_object = IO_PORT 1, ie_request = 0\<rparr>;
       K = set_entry 1 5 e kernel0
   in fst (ipc_right_copyout 1 5 e MACH_MSG_TYPE_PORT_SEND False 1 K) = KERN_UREFS_OVERFLOW"
proof -
  let ?e = "\<lparr>ie_bits = 0x0001fffe, ie_object = IO_PORT 1, ie_request = 0\<rparr>"
  let ?K = "set_entry 1 5 ?e kernel0"
  have "ie_object ?e = IO_PORT 1" "entry_ok ?e \<and> test (ie_bits ?e) MACH_PORT_TYPE_SEND_RECEIVE"
    "entries ?K 1 5 = Some ?e"
    by (simp_all add: entry_ok_def entry_port_def bits_defs)
  from copyout_send_urefs [OF this(1) disjI2 [OF this(2)] this(3) refl surjective_pairing [symmetric], of False]
  show ?thesis by (simp add: Let_def bits_defs)
qed

end
