(* ===== verification/Right_Copy.thy ===== *)
theory Right_Copy
  imports Right_Urefs
begin

text \<open>
  Rights on their way between a space and a message: \<^verbatim>\<open>ipc_right_copyin\<close> with its check and its
  undo, \<^verbatim>\<open>ipc_right_copyout\<close>, and the conservation of rights and references by both.
\<close>

section \<open>Copyin always returns\<close>

text \<open>
  The state around the entry that a copyin relies on: the entry is well-formed and stored under
  the name, its requests are registered, and a receive right is a right to a live port.
\<close>

definition right_ok :: "ipc_kernel \<Rightarrow> space_id \<Rightarrow> mach_port_t \<Rightarrow> ipc_entry \<Rightarrow> bool" where
  "right_ok K s n e \<longleftrightarrow>
     entry_ok e \<and> entries K s n = Some e \<and> request_ok K s n e \<and> marequest_ok K s n e \<and>
     (\<forall>p. test (ie_bits e) MACH_PORT_TYPE_RECEIVE \<and> ie_object e = IO_PORT p \<longrightarrow>
          ip_active (k_ports K p))"

lemma right_okD:
  assumes "right_ok K s n e"
  shows "entry_ok e" "entries K s n = Some e" "request_ok K s n e" "marequest_ok K s n e"
    "test (ie_bits e) MACH_PORT_TYPE_RECEIVE \<Longrightarrow> ie_object e = IO_PORT p \<Longrightarrow> ip_active (k_ports K p)"
  using assms by (auto simp: right_ok_def)

lemma no_marequest [simp]: "\<not> test b IE_BITS_MAREQUEST \<Longrightarrow> marequest_cancel_if b s n K = Some K"
  by (simp add: marequest_cancel_if_def)

lemmas copyin_defs =
  copyin_make_send_def copyin_make_send_once_def copyin_move_receive_def copyin_copy_send_def
  copyin_move_send_def copyin_move_send_once_def copy_dead_def move_dead_def

text \<open>Cancelling both kinds of requests of an entry of a live port, whatever the hash table does.\<close>

lemma cancel_requests:
  assumes "right_ok K s n e" and "ie_object e = IO_PORT p" and "ip_active (k_ports K p)"
  obtains d K1 K2 K3 t where
    "ipc_right_dncancel_macro s p n e K = Some (d, e\<lparr>ie_request := 0\<rparr>, K1)"
    "marequest_cancel_if (ie_bits e) s n K1 = Some K2"
    "marequest_cancel_if (ie_bits e) s n (ipc_hash_delete s p n K1) = Some K3"
    "entries K1 = (entries K)(s := (entries K s)(n \<mapsto> e\<lparr>ie_request := 0\<rparr>))"
    "entries K2 = entries K1" "entries K3 = entries K1"
    "k_ports K1 = (k_ports K)(p := k_ports K p\<lparr>ip_dnrequests := t\<rparr>)"
    "k_ports K2 = k_ports K1" "k_ports K3 = k_ports K1"
proof -
  from dncancel_total [OF right_okD(3) [OF assms(1)] assms(2,3) right_okD(2) [OF assms(1)]]
  obtain d K1 t where K1:
    "ipc_right_dncancel_macro s p n e K = Some (d, e\<lparr>ie_request := 0\<rparr>, K1)"
    "entries K1 = (entries K)(s := (entries K s)(n \<mapsto> e\<lparr>ie_request := 0\<rparr>))"
    "k_ports K1 = (k_ports K)(p := k_ports K p\<lparr>ip_dnrequests := t\<rparr>)"
    "\<And>b s' n'. marequest_cancel_if b s' n' K1 = None \<longleftrightarrow> marequest_cancel_if b s' n' K = None"
    by blast
  have "marequest_cancel_if (ie_bits e) s n K1 \<noteq> None"
    using marequest_cancel_total [OF right_okD(4) [OF assms(1)]] K1(4) by fastforce
  then obtain K2 K3 where c: "marequest_cancel_if (ie_bits e) s n K1 = Some K2"
    "marequest_cancel_if (ie_bits e) s n (ipc_hash_delete s p n K1) = Some K3"
    by (auto simp: marequest_cancel_if_def ipc_marequest_cancel_def split: if_splits bind_splits)
  have "entries K2 = entries K1" using marequest_cancel_frame(1) [OF c(1)] by (rule entries_cong)
  moreover have "entries K3 = entries K1"
    using marequest_cancel_frame(1) [OF c(2)] by (intro entries_cong) simp
  moreover have "k_ports K2 = k_ports K1" "k_ports K3 = k_ports K1"
    using marequest_cancel_frame(2) [OF c(1)] marequest_cancel_frame(2) [OF c(2)] by simp_all
  ultimately show thesis using that [OF K1(1) c K1(2) _ _ K1(3)] by blast
qed

text \<open>The cases of the check and of the copyin, for every shape of an entry.\<close>

lemma copyin_decided:
  assumes "right_ok K s n e"
  shows "\<exists>r K'. ipc_right_copyin s n e t True K = Some (r, K') \<and>
                ipc_right_copyin_check e t K = Some (\<not> isl r)"
  using right_okD(1) [OF assms]
proof (cases e rule: entry_ok_cases)
  case dead_name
  then show ?thesis
    by (cases t) (simp_all add: copyin_defs dead_name_tests ipc_right_copyin_check_def Let_def)
next
  case (port_set q)
  then show ?thesis
    by (cases t) (simp_all add: copyin_defs port_set_tests ipc_right_copyin_check_def)
next
  case (send p)
  show ?thesis
  proof (cases "ip_active (k_ports K p)")
    case True
    from assms send(2) True show ?thesis
    proof (rule cancel_requests)
      fix d K1 K2 K3 x
      assume "ipc_right_dncancel_macro s p n e K = Some (d, e\<lparr>ie_request := 0\<rparr>, K1)"
        "marequest_cancel_if (ie_bits e) s n (ipc_hash_delete s p n K1) = Some K3"
      with send True show ?thesis
        by (cases t) (simp_all add: copyin_defs send_tests ipc_right_copyin_check_def entry_port_def Let_def)
    qed
  next
    case False
    with send check_dead [OF False right_okD(4) [OF assms]] show ?thesis
      by (cases t) (auto simp: copyin_defs send_tests ipc_right_copyin_check_def entry_port_def Let_def)
  qed
next
  case (send_once p)
  show ?thesis
  proof (cases "ip_active (k_ports K p)")
    case True
    from assms send_once(2) True show ?thesis
    proof (rule cancel_requests)
      fix d K1 K2 K3 x
      assume "ipc_right_dncancel_macro s p n e K = Some (d, e\<lparr>ie_request := 0\<rparr>, K1)"
      with send_once True show ?thesis
        by (cases t) (simp_all add: copyin_defs send_once_tests ipc_right_copyin_check_def entry_port_def Let_def)
    qed
  next
    case False
    with send_once check_dead [OF False right_okD(4) [OF assms]] show ?thesis
      by (cases t) (auto simp: copyin_defs send_once_tests ipc_right_copyin_check_def entry_port_def Let_def)
  qed
next
  case (receive p)
  from right_okD(5) [OF assms receive_tests(2) [OF receive(1)] receive(2)]
  have a: "ip_active (k_ports K p)" .
  from assms receive(2) a show ?thesis
  proof (rule cancel_requests)
    fix d K1 K2 K3 x
    assume "ipc_right_dncancel_macro s p n e K = Some (d, e\<lparr>ie_request := 0\<rparr>, K1)"
      "marequest_cancel_if (ie_bits e) s n K1 = Some K2"
    with receive a show ?thesis
      by (cases t) (simp_all add: copyin_defs receive_tests ipc_right_copyin_check_def entry_port_def Let_def)
  qed
next
  case (send_receive p)
  from right_okD(5) [OF assms send_receive_tests(2) [OF send_receive(1)] send_receive(2)]
  have "ip_active (k_ports K p)" .
  with send_receive show ?thesis
    by (cases t) (simp_all add: copyin_defs send_receive_tests ipc_right_copyin_check_def entry_port_def Let_def)
qed

text \<open>Without \<^verbatim>\<open>deadok\<close> a copyin refuses what it would return as \<^verbatim>\<open>IO_DEAD\<close>, and nothing else.\<close>

lemma copyin_deadok:
  assumes "ipc_right_copyin s n e t True K = Some (r, K')"
  shows "\<exists>K''. ipc_right_copyin s n e t False K =
           Some (if \<exists>d. r = Inr (IO_DEAD, d) then Inl KERN_INVALID_RIGHT else r, K'')"
  using assms
  by (cases t) (auto simp: copyin_defs Let_def split: if_splits bind_splits)

text \<open>
  C37: for every well-formed right and every way of taking it, \<^verbatim>\<open>ipc_right_copyin_check\<close> and
  \<^verbatim>\<open>ipc_right_copyin\<close> return without a panic. With dead rights allowed (\<^verbatim>\<open>deadok = TRUE\<close>) the copyin succeeds
  exactly when the check says yes; without (\<^verbatim>\<open>deadok = FALSE\<close>) it succeeds exactly when the check says yes
  and the right is not dead, and returns the same right.
\<close>

theorem copyin_check_predicts:
  assumes "right_ok K s n e"
  shows "\<exists>r K' K''. ipc_right_copyin s n e t True K = Some (r, K') \<and>
           ipc_right_copyin_check e t K = Some (\<not> isl r) \<and>
           ipc_right_copyin s n e t False K =
             Some (if \<exists>d. r = Inr (IO_DEAD, d) then Inl KERN_INVALID_RIGHT else r, K'')"
  using copyin_decided [OF assms, of t] copyin_deadok [of s n e t K] by fastforce

theorem copyin_check_predicts_witness:
  "let e = \<lparr>ie_bits = 0x00030002, ie_object = IO_PORT 1, ie_request = 0\<rparr>
   in \<exists>r K'. ipc_right_copyin 1 5 e MACH_MSG_TYPE_MOVE_RECEIVE True (set_entry 1 5 e kernel0) = Some (r, K') \<and>
             ipc_right_copyin_check e MACH_MSG_TYPE_MOVE_RECEIVE (set_entry 1 5 e kernel0) = Some (\<not> isl r)"
proof -
  let ?e = "\<lparr>ie_bits = 0x00030002, ie_object = IO_PORT 1, ie_request = 0\<rparr>"
  have "right_ok (set_entry 1 5 ?e kernel0) 1 5 ?e"
    by (simp add: right_ok_def entry_ok_def marequest_ok_def request_ok_def port_dn_ok_def entry_port_def
        bits_defs state0_defs)
  from copyin_check_predicts [OF this, of MACH_MSG_TYPE_MOVE_RECEIVE] show ?thesis unfolding Let_def by blast
qed

end
