(* ===== verification/Ipc_Object.thy ===== *)
theory Ipc_Object
  imports Ipc_Right
begin

text \<open>
  The object layer, \<^verbatim>\<open>ipc_object.c\<close>: rights are looked up, allocated, copied in and copied out by
  composing the entry layer with the right layer. Each routine is one definition.

  The entry layer is used as a map of names. What \<^verbatim>\<open>ipc_entry_alloc\<close> (or the loop of
  \<^verbatim>\<open>ipc_entry_get\<close> and \<^verbatim>\<open>ipc_entry_grow_table\<close>) answers, a name or an error, is the argument
  \<open>alloc\<close>; whether \<^verbatim>\<open>ipc_entry_alloc_name\<close> fails to make a new entry is the argument \<open>fail\<close>. A
  routine that loops around an allocation takes one answer per round. A new entry is in the
  map, without a right, until a right is stored or the entry is deallocated. \<^verbatim>\<open>io_alloc\<close> gives
  an unused object or none. \<open>None\<close> as a result stands for a panic.
\<close>

section \<open>Objects\<close>

fun ipc_object_reference :: "ipc_object \<Rightarrow> ipc_kernel \<Rightarrow> ipc_kernel" where
  "ipc_object_reference (IO_PORT port) = ip_reference port"
| "ipc_object_reference (IO_PSET pset) = ips_reference pset"
| "ipc_object_reference _ = (\<lambda>K. K)"

fun MACH_PORT_TYPE :: "mach_port_right \<Rightarrow> natural_t" where
  "MACH_PORT_TYPE MACH_PORT_RIGHT_SEND = push_bit 16 1"
| "MACH_PORT_TYPE MACH_PORT_RIGHT_RECEIVE = push_bit 17 1"
| "MACH_PORT_TYPE MACH_PORT_RIGHT_SEND_ONCE = push_bit 18 1"
| "MACH_PORT_TYPE MACH_PORT_RIGHT_PORT_SET = push_bit 19 1"
| "MACH_PORT_TYPE MACH_PORT_RIGHT_DEAD_NAME = push_bit 20 1"

definition ipc_object_translate ::
  "space_id \<Rightarrow> mach_port_t \<Rightarrow> mach_port_right \<Rightarrow> ipc_kernel \<Rightarrow> kern_return_t + ipc_object" where
  "ipc_object_translate space name right K =
     (case ipc_right_lookup_write space name K of
        Inl kr \<Rightarrow> Inl kr
      | Inr entry \<Rightarrow>
          if \<not> test (ie_bits entry) (MACH_PORT_TYPE right) then Inl KERN_INVALID_RIGHT
          else Inr (ie_object entry))"

section \<open>Allocation\<close>

definition new_entry :: ipc_entry where
  "new_entry = \<lparr>ie_bits = 0, ie_object = IO_NULL, ie_request = 0\<rparr>"

text \<open>The entry layer as a map: a new entry under a name that \<^verbatim>\<open>ipc_entry.c\<close> chooses or under a given one.\<close>

definition entry_alloc ::
  "kern_return_t + mach_port_t \<Rightarrow> space_id \<Rightarrow> ipc_kernel \<Rightarrow> kern_return_t + mach_port_t \<times> ipc_kernel" where
  "entry_alloc alloc space K =
     (if \<not> is_active (k_spaces K space) then Inl KERN_INVALID_TASK
      else case alloc of
        Inl kr \<Rightarrow> Inl kr
      | Inr name \<Rightarrow> Inr (name, set_entry space name new_entry K))"

definition entry_alloc_name ::
  "kern_return_t option \<Rightarrow> space_id \<Rightarrow> mach_port_t \<Rightarrow> ipc_kernel \<Rightarrow> kern_return_t + ipc_entry \<times> ipc_kernel" where
  "entry_alloc_name fail space name K =
     (if \<not> is_active (k_spaces K space) then Inl KERN_INVALID_TASK
      else case entries K space name of
        Some entry \<Rightarrow> Inr (entry, K)
      | None \<Rightarrow>
          (case fail of
             Some kr \<Rightarrow> Inl kr
           | None \<Rightarrow> Inr (new_entry, set_entry space name new_entry K)))"

definition ipc_object_alloc_dead ::
  "kern_return_t + mach_port_t \<Rightarrow> space_id \<Rightarrow> ipc_kernel \<Rightarrow> (kern_return_t + mach_port_t) \<times> ipc_kernel" where
  "ipc_object_alloc_dead alloc space K =
     (case entry_alloc alloc space K of
        Inl kr \<Rightarrow> (Inl kr, K)
      | Inr (name, K) \<Rightarrow>
          (Inr name, set_entry space name
             (new_entry\<lparr>ie_bits := ie_bits new_entry OR (MACH_PORT_TYPE_DEAD_NAME OR 1)\<rparr>) K))"

definition ipc_object_alloc_dead_name ::
  "kern_return_t option \<Rightarrow> space_id \<Rightarrow> mach_port_t \<Rightarrow> ipc_kernel \<Rightarrow> (kern_return_t \<times> ipc_kernel) option" where
  "ipc_object_alloc_dead_name fail space name K =
     (case entry_alloc_name fail space name K of
        Inl kr \<Rightarrow> Some (kr, K)
      | Inr (entry, K) \<Rightarrow> do {
          (inuse, K) \<leftarrow> ipc_right_inuse space name entry K;
          entry \<leftarrow> entries K space name;
          if inuse then Some (KERN_NAME_EXISTS, K)
          else Some (KERN_SUCCESS, set_entry space name
                 (entry\<lparr>ie_bits := ie_bits entry OR (MACH_PORT_TYPE_DEAD_NAME OR 1)\<rparr>) K)
        })"

text \<open>\<^verbatim>\<open>io_references = 1\<close> and \<^verbatim>\<open>io_makebits(TRUE, otype, 0)\<close> for a new object.\<close>

fun io_init :: "ipc_object \<Rightarrow> ipc_kernel \<Rightarrow> ipc_kernel" where
  "io_init (IO_PORT port) = upd_port port (\<lambda>p. p\<lparr>ip_references := 1, ip_active := True, ip_kotype := 0\<rparr>)"
| "io_init (IO_PSET pset) = upd_pset pset (\<lambda>p. p\<lparr>ips_references := 1, ips_active := True\<rparr>)"
| "io_init _ = (\<lambda>K. K)"

definition ipc_object_alloc ::
  "ipc_object option \<Rightarrow> kern_return_t + mach_port_t \<Rightarrow> space_id \<Rightarrow> natural_t \<Rightarrow> natural_t \<Rightarrow> ipc_kernel \<Rightarrow>
     (kern_return_t + mach_port_t \<times> ipc_object) \<times> ipc_kernel" where
  "ipc_object_alloc io_alloc alloc space type urefs K =
     (case io_alloc of
        None \<Rightarrow> (Inl KERN_RESOURCE_SHORTAGE, K)
      | Some object \<Rightarrow>
          (case entry_alloc alloc space K of
             Inl kr \<Rightarrow> (Inl kr, K)
           | Inr (name, K) \<Rightarrow>
               (Inr (name, object),
                io_init object (set_entry space name
                  (new_entry\<lparr>ie_bits := ie_bits new_entry OR (type OR urefs), ie_object := object\<rparr>) K))))"

definition ipc_object_alloc_name ::
  "ipc_object option \<Rightarrow> kern_return_t option \<Rightarrow> space_id \<Rightarrow> natural_t \<Rightarrow> natural_t \<Rightarrow> mach_port_t \<Rightarrow> ipc_kernel \<Rightarrow>
     ((kern_return_t + ipc_object) \<times> ipc_kernel) option" where
  "ipc_object_alloc_name io_alloc fail space type urefs name K =
     (case io_alloc of
        None \<Rightarrow> Some (Inl KERN_RESOURCE_SHORTAGE, K)
      | Some object \<Rightarrow>
          (case entry_alloc_name fail space name K of
             Inl kr \<Rightarrow> Some (Inl kr, K)
           | Inr (entry, K) \<Rightarrow> do {
               (inuse, K) \<leftarrow> ipc_right_inuse space name entry K;
               entry \<leftarrow> entries K space name;
               if inuse then Some (Inl KERN_NAME_EXISTS, K)
               else Some (Inr object, io_init object (set_entry space name
                      (entry\<lparr>ie_bits := ie_bits entry OR (type OR urefs), ie_object := object\<rparr>) K))
             }))"

section \<open>Copyin\<close>

text \<open>
  The right a message carries for a way of taking it. The old types \<^verbatim>\<open>MSG_TYPE_PORT\<close> and
  \<^verbatim>\<open>MSG_TYPE_PORT_ALL\<close> share the cases of \<^verbatim>\<open>MACH_MSG_TYPE_COPY_SEND\<close> and
  \<^verbatim>\<open>MACH_MSG_TYPE_MOVE_RECEIVE\<close>, here and in \<^verbatim>\<open>ipc_object_copyin_from_kernel\<close>.
\<close>

fun ipc_object_copyin_type :: "copyin_type \<Rightarrow> msg_right" where
  "ipc_object_copyin_type MACH_MSG_TYPE_MOVE_RECEIVE = MACH_MSG_TYPE_PORT_RECEIVE"
| "ipc_object_copyin_type MACH_MSG_TYPE_MOVE_SEND_ONCE = MACH_MSG_TYPE_PORT_SEND_ONCE"
| "ipc_object_copyin_type MACH_MSG_TYPE_MAKE_SEND_ONCE = MACH_MSG_TYPE_PORT_SEND_ONCE"
| "ipc_object_copyin_type MACH_MSG_TYPE_MOVE_SEND = MACH_MSG_TYPE_PORT_SEND"
| "ipc_object_copyin_type MACH_MSG_TYPE_MAKE_SEND = MACH_MSG_TYPE_PORT_SEND"
| "ipc_object_copyin_type MACH_MSG_TYPE_COPY_SEND = MACH_MSG_TYPE_PORT_SEND"

text \<open>\<^verbatim>\<open>if (IE_BITS_TYPE(entry->ie_bits) == MACH_PORT_TYPE_NONE) ipc_entry_dealloc(...)\<close>\<close>

definition dealloc_if_none :: "space_id \<Rightarrow> mach_port_t \<Rightarrow> ipc_kernel \<Rightarrow> ipc_kernel" where
  "dealloc_if_none space name K =
     (case entries K space name of
        Some entry \<Rightarrow>
          if IE_BITS_TYPE (ie_bits entry) = MACH_PORT_TYPE_NONE then entry_dealloc space name K else K
      | None \<Rightarrow> K)"

definition ipc_object_copyin ::
  "space_id \<Rightarrow> mach_port_t \<Rightarrow> copyin_type \<Rightarrow> ipc_kernel \<Rightarrow>
     ((kern_return_t + ipc_object) \<times> ipc_kernel) option" where
  "ipc_object_copyin space name msgt_name K =
     (case ipc_right_lookup_write space name K of
        Inl kr \<Rightarrow> Some (Inl kr, K)
      | Inr entry \<Rightarrow> do {
          (r, K) \<leftarrow> ipc_right_copyin space name entry msgt_name True K;
          let K = dealloc_if_none space name K;
          case r of
            Inl kr \<Rightarrow> Some (Inl kr, K)
          | Inr (object, soright) \<Rightarrow> Some (Inr object, send_port_deleted soright name K)
        })"

text \<open>\<open>None\<close>: an object that is not a port, where the code casts it.\<close>

fun ipc_object_copyin_from_kernel :: "ipc_object \<Rightarrow> copyin_type \<Rightarrow> ipc_kernel \<Rightarrow> ipc_kernel option" where
  "ipc_object_copyin_from_kernel (IO_PORT port) MACH_MSG_TYPE_MOVE_RECEIVE K =
     Some (upd_port port (\<lambda>p. p\<lparr>ip_mscount := 0, ip_receiver_name := MACH_PORT_NULL,
                                ip_data := Ip_Destination None\<rparr>) K)"
| "ipc_object_copyin_from_kernel (IO_PORT port) MACH_MSG_TYPE_COPY_SEND K =
     Some (ip_reference port
       (if ip_active (k_ports K port) then upd_port port (ip_srights_update (\<lambda>n. n + 1)) K else K))"
| "ipc_object_copyin_from_kernel (IO_PORT port) MACH_MSG_TYPE_MAKE_SEND K =
     Some (upd_port port (\<lambda>p. p\<lparr>ip_mscount := ip_mscount p + 1, ip_srights := ip_srights p + 1\<rparr>)
             (ip_reference port K))"
| "ipc_object_copyin_from_kernel (IO_PORT port) MACH_MSG_TYPE_MOVE_SEND K = Some K"
| "ipc_object_copyin_from_kernel (IO_PORT port) MACH_MSG_TYPE_MAKE_SEND_ONCE K =
     Some (upd_port port (ip_sorights_update (\<lambda>n. n + 1)) (ip_reference port K))"
| "ipc_object_copyin_from_kernel (IO_PORT port) MACH_MSG_TYPE_MOVE_SEND_ONCE K = Some K"
| "ipc_object_copyin_from_kernel _ _ K = None"

fun ipc_object_destroy :: "ipc_object \<Rightarrow> msg_right \<Rightarrow> ipc_kernel \<Rightarrow> ipc_kernel option" where
  "ipc_object_destroy (IO_PORT port) MACH_MSG_TYPE_PORT_SEND K = Some (ipc_port_release_send port K)"
| "ipc_object_destroy (IO_PORT port) MACH_MSG_TYPE_PORT_SEND_ONCE K = Some (ipc_notify_send_once port K)"
| "ipc_object_destroy (IO_PORT port) MACH_MSG_TYPE_PORT_RECEIVE K = ipc_port_release_receive port K"
| "ipc_object_destroy _ _ K = None"

section \<open>Copyout\<close>

text \<open>The lookup of an entry with a send or receive right that both kinds of copyout start with.\<close>

definition copyout_reverse ::
  "space_id \<Rightarrow> port_id \<Rightarrow> msg_right \<Rightarrow> ipc_kernel \<Rightarrow> (mach_port_t \<times> ipc_entry) option" where
  "copyout_reverse space port msgt_name K =
     (if msgt_name \<noteq> MACH_MSG_TYPE_PORT_SEND_ONCE then ipc_right_reverse space port K else None)"

definition ipc_object_copyout ::
  "kern_return_t + mach_port_t \<Rightarrow> space_id \<Rightarrow> port_id \<Rightarrow> msg_right \<Rightarrow> bool \<Rightarrow> ipc_kernel \<Rightarrow>
     (kern_return_t + mach_port_t) \<times> ipc_kernel" where
  "ipc_object_copyout alloc space port msgt_name overflow K =
     (let finish = (\<lambda>name entry K.
            let (kr, K) = ipc_right_copyout space name entry msgt_name overflow port K
            in (if kr = KERN_SUCCESS then Inr name else Inl kr, K))
      in if \<not> is_active (k_spaces K space) then (Inl KERN_INVALID_TASK, K)
         else case copyout_reverse space port msgt_name K of
           Some (name, entry) \<Rightarrow> finish name entry K
         | None \<Rightarrow>
             (case entry_alloc alloc space K of
                Inl kr \<Rightarrow> (Inl kr, K)
              | Inr (name, K) \<Rightarrow>
                  if \<not> ip_active (k_ports K port)
                  then (Inl KERN_INVALID_CAPABILITY, entry_dealloc space name K)
                  else (let entry = new_entry\<lparr>ie_object := IO_PORT port\<rparr>
                        in finish name entry (set_entry space name entry K))))"

definition ipc_object_copyout_name ::
  "kern_return_t option \<Rightarrow> space_id \<Rightarrow> port_id \<Rightarrow> msg_right \<Rightarrow> bool \<Rightarrow> mach_port_t \<Rightarrow> ipc_kernel \<Rightarrow>
     (kern_return_t \<times> ipc_kernel) option" where
  "ipc_object_copyout_name fail space port msgt_name overflow name K =
     (case entry_alloc_name fail space name K of
        Inl kr \<Rightarrow> Some (kr, K)
      | Inr (entry, K) \<Rightarrow>
          (case copyout_reverse space port msgt_name K of
             Some (oname, oentry) \<Rightarrow>
               Some (if name \<noteq> oname then (KERN_RIGHT_EXISTS, dealloc_if_none space name K)
                     else ipc_right_copyout space name entry msgt_name overflow port K)
           | None \<Rightarrow> do {
               (inuse, K) \<leftarrow> ipc_right_inuse space name entry K;
               entry \<leftarrow> entries K space name;
               if inuse then Some (KERN_NAME_EXISTS, K)
               else if \<not> ip_active (k_ports K port)
               then Some (KERN_INVALID_CAPABILITY, entry_dealloc space name K)
               else (let entry = entry\<lparr>ie_object := IO_PORT port\<rparr>
                     in Some (ipc_right_copyout space name entry msgt_name overflow port
                                (set_entry space name entry K)))
             }))"

text \<open>The name is \<^verbatim>\<open>MACH_PORT_NULL\<close> unless the space is the receiver; a receive right is a panic.\<close>

fun ipc_object_copyout_dest ::
  "space_id \<Rightarrow> port_id \<Rightarrow> msg_right \<Rightarrow> ipc_kernel \<Rightarrow> (mach_port_t \<times> ipc_kernel) option" where
  "ipc_object_copyout_dest space port MACH_MSG_TYPE_PORT_SEND K =
     (let (ns, K) = drop_sright port (ip_release port K);
          name = (if ip_data (k_ports K port) = Ip_Receiver space then ip_receiver_name (k_ports K port)
                  else MACH_PORT_NULL)
      in Some (name, send_no_senders ns K))"
| "ipc_object_copyout_dest space port MACH_MSG_TYPE_PORT_SEND_ONCE K =
     (let K = ip_release port K
      in if ip_data (k_ports K port) = Ip_Receiver space
         then Some (ip_receiver_name (k_ports K port), upd_port port (ip_sorights_update (\<lambda>n. n - 1)) K)
         else Some (MACH_PORT_NULL, ipc_notify_send_once port (ip_reference port K)))"
| "ipc_object_copyout_dest space port MACH_MSG_TYPE_PORT_RECEIVE K = None"

definition ipc_object_rename ::
  "kern_return_t option \<Rightarrow> space_id \<Rightarrow> mach_port_t \<Rightarrow> mach_port_t \<Rightarrow> ipc_kernel \<Rightarrow>
     (kern_return_t \<times> ipc_kernel) option" where
  "ipc_object_rename fail space oname nname K =
     (case entry_alloc_name fail space nname K of
        Inl kr \<Rightarrow> Some (kr, K)
      | Inr (nentry, K) \<Rightarrow> do {
          (inuse, K) \<leftarrow> ipc_right_inuse space nname nentry K;
          nentry \<leftarrow> entries K space nname;
          if inuse then Some (KERN_NAME_EXISTS, K)
          else
            (case (if oname = nname then None else entries K space oname) of
               None \<Rightarrow> Some (KERN_INVALID_NAME, entry_dealloc space nname K)
             | Some oentry \<Rightarrow> ipc_right_rename space oname oentry nname nentry K)
        })"

section \<open>Compatibility with old-style messages\<close>

fun ipc_object_copyout_type_compat :: "msg_right \<Rightarrow> compat_type" where
  "ipc_object_copyout_type_compat MACH_MSG_TYPE_PORT_SEND = MSG_TYPE_PORT"
| "ipc_object_copyout_type_compat MACH_MSG_TYPE_PORT_SEND_ONCE = MSG_TYPE_PORT"
| "ipc_object_copyout_type_compat MACH_MSG_TYPE_PORT_RECEIVE = MSG_TYPE_PORT_ALL"

definition ipc_object_copyin_compat ::
  "space_id \<Rightarrow> mach_port_t \<Rightarrow> compat_type \<Rightarrow> bool \<Rightarrow> ipc_kernel \<Rightarrow>
     ((kern_return_t + ipc_object) \<times> ipc_kernel) option" where
  "ipc_object_copyin_compat space name msgt_name dealloc K =
     (case ipc_right_lookup_write space name K of
        Inl kr \<Rightarrow> Some (Inl kr, K)
      | Inr entry \<Rightarrow> ipc_right_copyin_compat space name entry msgt_name dealloc K)"

definition ipc_object_copyin_header ::
  "space_id \<Rightarrow> mach_port_t \<Rightarrow> ipc_kernel \<Rightarrow> ((kern_return_t + ipc_object \<times> msg_right) \<times> ipc_kernel) option" where
  "ipc_object_copyin_header space name K =
     (case ipc_right_lookup_write space name K of
        Inl kr \<Rightarrow> Some (Inl kr, K)
      | Inr entry \<Rightarrow> ipc_right_copyin_header space name entry K)"

text \<open>
  The request for deletion notification that a new compatibility entry makes. \<open>Inl\<close> means that
  the request table of the port had no room and could not grow (\<open>Some\<close> error) or has grown, so
  that the caller starts again (\<open>None\<close>).
\<close>

definition compat_request ::
  "space_id \<Rightarrow> mach_port_t \<Rightarrow> ipc_entry \<Rightarrow> port_id \<Rightarrow> ipc_kernel \<Rightarrow>
     (kern_return_t option \<times> ipc_kernel) + (ipc_entry \<times> ipc_kernel)" where
  "compat_request space name entry port K =
     (case ipc_port_dnrequest port name (Ipr_Space space) K of
        Inl _ \<Rightarrow>
          (let (kr, K) = ipc_port_dngrow port None (entry_dealloc space name K)
           in Inl (if kr \<noteq> KERN_SUCCESS then Some kr else None, K))
      | Inr (request, K) \<Rightarrow>
          (let entry = entry\<lparr>ie_object := IO_PORT port, ie_request := request,
                             ie_bits := ie_bits entry OR IE_BITS_COMPAT\<rparr>
           in Inr (entry, set_entry space name entry (is_reference space K))))"

partial_function (option) ipc_object_copyout_compat ::
  "(nat \<Rightarrow> kern_return_t + mach_port_t) \<Rightarrow> nat \<Rightarrow> space_id \<Rightarrow> port_id \<Rightarrow> msg_right \<Rightarrow> ipc_kernel \<Rightarrow>
     ((kern_return_t + mach_port_t) \<times> ipc_kernel) option" where
  "ipc_object_copyout_compat alloc i space port msgt_name K =
     (let finish = (\<lambda>name entry K.
            let (kr, K) = ipc_right_copyout space name entry msgt_name True port K
            in Some (if kr = KERN_SUCCESS then Inr name else Inl kr, K))
      in if \<not> is_active (k_spaces K space) then Some (Inl KERN_INVALID_TASK, K)
         else case copyout_reverse space port msgt_name K of
           Some (name, entry) \<Rightarrow> finish name entry K
         | None \<Rightarrow>
             (case entry_alloc (alloc i) space K of
                Inl kr \<Rightarrow> Some (Inl kr, K)
              | Inr (name, K) \<Rightarrow>
                  if \<not> ip_active (k_ports K port)
                  then Some (Inl KERN_INVALID_CAPABILITY, entry_dealloc space name K)
                  else
                    (case compat_request space name new_entry port K of
                       Inl (Some kr, K) \<Rightarrow> Some (Inl kr, K)
                     | Inl (None, K) \<Rightarrow> ipc_object_copyout_compat alloc (i + 1) space port msgt_name K
                     | Inr (entry, K) \<Rightarrow> finish name entry K)))"

declare ipc_object_copyout_compat.simps [code]

partial_function (option) ipc_object_copyout_name_compat ::
  "(nat \<Rightarrow> kern_return_t option) \<Rightarrow> nat \<Rightarrow> space_id \<Rightarrow> port_id \<Rightarrow> msg_right \<Rightarrow> mach_port_t \<Rightarrow> ipc_kernel \<Rightarrow>
     (kern_return_t \<times> ipc_kernel) option" where
  "ipc_object_copyout_name_compat fail i space port msgt_name name K =
     (case entry_alloc_name (fail i) space name K of
        Inl kr \<Rightarrow> Some (kr, K)
      | Inr (entry, K) \<Rightarrow>
          Option.bind (ipc_right_inuse space name entry K) (\<lambda>(inuse, K).
          Option.bind (entries K space name) (\<lambda>entry.
            if inuse then Some (KERN_NAME_EXISTS, K)
            else if copyout_reverse space port msgt_name K \<noteq> None
            then Some (KERN_RIGHT_EXISTS, entry_dealloc space name K)
            else if \<not> ip_active (k_ports K port)
            then Some (KERN_INVALID_CAPABILITY, entry_dealloc space name K)
            else
              (case compat_request space name entry port K of
                 Inl (Some kr, K) \<Rightarrow> Some (kr, K)
               | Inl (None, K) \<Rightarrow> ipc_object_copyout_name_compat fail (i + 1) space port msgt_name name K
               | Inr (entry, K) \<Rightarrow>
                   Some (ipc_right_copyout space name entry msgt_name True port K)))))"

declare ipc_object_copyout_name_compat.simps [code]

end
