(* ===== verification/Right_Account.thy ===== *)
theory Right_Account
  imports Right_Copy Ipc_Object
begin

text \<open>
  The books of a port: what its reference and right counts owe to the entries of all spaces, and
  what is left for rights held elsewhere, in messages or by the kernel. The comments of
  \<^verbatim>\<open>ipc_right_copyin\<close> and \<^verbatim>\<open>ipc_right_copyout\<close> promise that a copyin hands one reference and
  one right to its caller and a copyout consumes them; here this is shown for the model.
\<close>

section \<open>Counting entries\<close>

definition holders :: "(ipc_entry \<Rightarrow> bool) \<Rightarrow> ipc_kernel \<Rightarrow> (space_id \<times> mach_port_t) set" where
  "holders P K = {(s, n). \<exists>e. entries K s n = Some e \<and> P e}"

definition finite_names :: "ipc_kernel \<Rightarrow> bool" where
  "finite_names K \<longleftrightarrow> finite (holders (\<lambda>_. True) K)"

abbreviation holds :: "(ipc_entry \<Rightarrow> bool) \<Rightarrow> ipc_entry option \<Rightarrow> bool" where
  "holds P x \<equiv> \<exists>e. x = Some e \<and> P e"

lemma holders_finite: "finite_names K \<Longrightarrow> finite (holders P K)"
  unfolding finite_names_def by (rule finite_subset [rotated]) (auto simp: holders_def)

lemma holders_update:
  assumes "finite_names K" and "entries K' = (entries K)(s := (entries K s)(n := x))"
  shows "int (card (holders P K')) =
           int (card (holders P K)) - of_bool (holds P (entries K s n)) + of_bool (holds P x)"
    and "finite_names K'"
proof -
  have H: "holders Q K' = (if holds Q x then insert (s, n) (holders Q K) else holders Q K - {(s, n)})" for Q
    by (auto simp: holders_def assms(2) split: if_splits)
  have fin: "finite (holders P K)" by (rule holders_finite [OF assms(1)])
  have mem: "(s, n) \<in> holders P K \<longleftrightarrow> holds P (entries K s n)" by (simp add: holders_def)
  have pos: "0 < card (holders P K)" if "(s, n) \<in> holders P K" using that fin by (auto simp: card_gt_0_iff)
  show "int (card (holders P K')) =
      int (card (holders P K)) - of_bool (holds P (entries K s n)) + of_bool (holds P x)"
    unfolding mem [symmetric] H using fin pos by (auto simp: card_insert_if card_Diff_singleton_if of_nat_diff)
  show "finite_names K'" using holders_finite [OF assms(1)] by (simp add: finite_names_def H)
qed

text \<open>An entry with a right to a port, with a send right, with a send-once right, with the receive right.\<close>

definition refers :: "port_id \<Rightarrow> ipc_entry \<Rightarrow> bool" where
  "refers p e \<longleftrightarrow> ie_object e = IO_PORT p \<and> IE_BITS_TYPE (ie_bits e) \<noteq> MACH_PORT_TYPE_NONE"

definition sends_to :: "port_id \<Rightarrow> ipc_entry \<Rightarrow> bool" where
  "sends_to p e \<longleftrightarrow> ie_object e = IO_PORT p \<and> test (ie_bits e) MACH_PORT_TYPE_SEND"

definition sends_once_to :: "port_id \<Rightarrow> ipc_entry \<Rightarrow> bool" where
  "sends_once_to p e \<longleftrightarrow> ie_object e = IO_PORT p \<and> test (ie_bits e) MACH_PORT_TYPE_SEND_ONCE"

definition receives_from :: "port_id \<Rightarrow> ipc_entry \<Rightarrow> bool" where
  "receives_from p e \<longleftrightarrow> ie_object e = IO_PORT p \<and> test (ie_bits e) MACH_PORT_TYPE_RECEIVE"

text \<open>What the counts of a port hold beyond the entries; there is one receive right for a port.\<close>

definition spare_refs :: "ipc_kernel \<Rightarrow> port_id \<Rightarrow> int" where
  "spare_refs K p = int (ip_references (k_ports K p)) - int (card (holders (refers p) K))"

definition spare_sends :: "ipc_kernel \<Rightarrow> port_id \<Rightarrow> int" where
  "spare_sends K p = int (ip_srights (k_ports K p)) - int (card (holders (sends_to p) K))"

definition spare_sonces :: "ipc_kernel \<Rightarrow> port_id \<Rightarrow> int" where
  "spare_sonces K p = int (ip_sorights (k_ports K p)) - int (card (holders (sends_once_to p) K))"

definition spare_receives :: "ipc_kernel \<Rightarrow> port_id \<Rightarrow> int" where
  "spare_receives K p = 1 - int (card (holders (receives_from p) K))"

lemmas spare_defs = spare_refs_def spare_sends_def spare_sonces_def spare_receives_def

definition books_ok :: "ipc_kernel \<Rightarrow> bool" where
  "books_ok K \<longleftrightarrow> finite_names K \<and> (\<forall>p. 0 \<le> spare_refs K p)"

text \<open>A change of one entry and of the counts of ports, as a change of the books.\<close>

lemma spare_update:
  assumes "finite_names K" and "entries K' = (entries K)(s := (entries K s)(n := x))"
  shows "spare_refs K' q = spare_refs K q + (int (ip_references (k_ports K' q)) - int (ip_references (k_ports K q)))
           + of_bool (holds (refers q) (entries K s n)) - of_bool (holds (refers q) x)"
    and "spare_sends K' q = spare_sends K q + (int (ip_srights (k_ports K' q)) - int (ip_srights (k_ports K q)))
           + of_bool (holds (sends_to q) (entries K s n)) - of_bool (holds (sends_to q) x)"
    and "spare_sonces K' q = spare_sonces K q + (int (ip_sorights (k_ports K' q)) - int (ip_sorights (k_ports K q)))
           + of_bool (holds (sends_once_to q) (entries K s n)) - of_bool (holds (sends_once_to q) x)"
    and "spare_receives K' q = spare_receives K q
           + of_bool (holds (receives_from q) (entries K s n)) - of_bool (holds (receives_from q) x)"
  unfolding spare_defs holders_update(1) [OF assms] by linarith+

lemma spare_same:
  assumes "entries K' = entries K"
  shows "spare_refs K' q = spare_refs K q + (int (ip_references (k_ports K' q)) - int (ip_references (k_ports K q)))"
    and "spare_sends K' q = spare_sends K q + (int (ip_srights (k_ports K' q)) - int (ip_srights (k_ports K q)))"
    and "spare_sonces K' q = spare_sonces K q + (int (ip_sorights (k_ports K' q)) - int (ip_sorights (k_ports K q)))"
    and "spare_receives K' q = spare_receives K q"
  unfolding spare_defs holders_def assms by linarith+

section \<open>The counts of a port\<close>

definition tally :: "ipc_port \<Rightarrow> nat \<times> nat \<times> nat \<times> bool" where
  "tally p = (ip_references p, ip_srights p, ip_sorights p, ip_active p)"

abbreviation tallies :: "ipc_kernel \<Rightarrow> port_id \<Rightarrow> nat \<times> nat \<times> nat \<times> bool" where
  "tallies K q \<equiv> tally (k_ports K q)"

text \<open>Where a port says its receive right is.\<close>

definition whereabouts :: "ipc_port \<Rightarrow> ip_data \<times> mach_port_t" where
  "whereabouts p = (ip_data p, ip_receiver_name p)"

abbreviation domicile :: "ipc_kernel \<Rightarrow> port_id \<Rightarrow> ip_data \<times> mach_port_t" where
  "domicile K q \<equiv> whereabouts (k_ports K q)"

text \<open>The operations on queues and port sets touch neither.\<close>

definition ledger :: "ipc_port \<Rightarrow> (nat \<times> nat \<times> nat \<times> bool) \<times> ip_data \<times> mach_port_t" where
  "ledger p = (tally p, whereabouts p)"

abbreviation ledgers :: "ipc_kernel \<Rightarrow> port_id \<Rightarrow> (nat \<times> nat \<times> nat \<times> bool) \<times> ip_data \<times> mach_port_t" where
  "ledgers K q \<equiv> ledger (k_ports K q)"

lemmas ledger_defs = ledger_def tally_def whereabouts_def

lemma ledgers_queue:
  "ledgers (threads_go gos K) q = ledgers K q"
  "ledgers (set_imq_messages mq ms K) q = ledgers K q"
  "ledgers (set_imq_threads mq ths K) q = ledgers K q"
  "ledgers (ips_release t K) q = ledgers K q"
  "ledgers (ipc_mqueue_move mq mq' p K) q = ledgers K q"
  "ledgers (ipc_mqueue_changed mq mr K) q = ledgers K q"
  "ledgers (ipc_pset_remove t p K) q = ledgers K q"
  "ledgers (ipc_port_clear_receiver p K) q = ledgers K q"
proof -
  show 1: "ledgers (threads_go gos K) q = ledgers K q" for gos K by (simp add: threads_go_def)
  show 2: "ledgers (set_imq_messages mq ms K) q = ledgers K q" for mq ms K
    by (cases mq) (simp_all add: ledger_defs)
  show 3: "ledgers (set_imq_threads mq ths K) q = ledgers K q" for mq ths K
    by (cases mq) (simp_all add: ledger_defs)
  show 4: "ledgers (ips_release t K) q = ledgers K q" for t K by (simp add: ips_release_def)
  have u: "ledgers (upd_port p (ip_seqno_update f) K) q = ledgers K q"
    "ledgers (upd_port p (ip_mscount_update f) K) q = ledgers K q"
    "ledgers (upd_port p (ip_pset_update g) K) q = ledgers K q" for p f g K by (simp_all add: ledger_defs)
  show 5: "ledgers (ipc_mqueue_move mq mq' p K) q = ledgers K q" for mq mq' p K
    by (simp add: ipc_mqueue_move_def 1 2 3 u del: ports_upd_port split: prod.split)
  show 6: "ledgers (ipc_mqueue_changed mq mr K) q = ledgers K q" for mq mr K
    by (simp add: ipc_mqueue_changed_def 1 3)
  show 7: "ledgers (ipc_pset_remove t p K) q = ledgers K q" for t p K
    by (simp add: ipc_pset_remove_def 4 5 u del: ports_upd_port)
  show "ledgers (ipc_port_clear_receiver p K) q = ledgers K q"
    by (simp add: ipc_port_clear_receiver_def Let_def 6 7 u del: ports_upd_port split: option.split)
qed

lemmas tallies_queue [simp] = ledgers_queue [unfolded ledger_def prod.inject, THEN conjunct1]

lemmas domicile_queue [simp] = ledgers_queue [unfolded ledger_def prod.inject, THEN conjunct2]

lemma tallies_upd [simp]:
  "tallies (port_in_limbo p K) q = tallies K q"
  "tallies (ipc_hash_insert s p n K) q = tallies K q"
  "tallies (ipc_hash_delete s p n K) q = tallies K q"
  "tallies (set_entry s n e K) q = tallies K q"
  "tallies (entry_dealloc s n K) q = tallies K q"
  by (simp_all add: tally_def port_in_limbo_def ipc_hash_insert_def ipc_hash_delete_def)

lemma whereabouts_upd [simp]:
  "whereabouts (ip_srights_update f p) = whereabouts p"
  "whereabouts (ip_sorights_update f p) = whereabouts p"
  "whereabouts (ip_mscount_update g p) = whereabouts p"
  by (simp_all add: whereabouts_def)

lemma domicile_upd [simp]:
  "domicile (ipc_hash_insert s p n K) q = domicile K q"
  "domicile (ipc_hash_delete s p n K) q = domicile K q"
  "domicile (set_entry s n e K) q = domicile K q"
  "domicile (entry_dealloc s n K) q = domicile K q"
  "domicile (is_release s K) q = domicile K q"
  "domicile (ip_reference p K) q = domicile K q"
  "domicile (ip_release p K) q = domicile K q"
  "domicile (port_in_limbo p K) q = (if q = p then (Ip_Destination None, MACH_PORT_NULL) else domicile K q)"
  by (simp_all add: whereabouts_def port_in_limbo_def ipc_hash_insert_def ipc_hash_delete_def is_release_def
      ip_reference_def ip_release_def)

lemma tally_fields:
  assumes "tally p = tally q"
  shows "ip_references p = ip_references q" "ip_srights p = ip_srights q" "ip_sorights p = ip_sorights q"
    "ip_active p = ip_active q"
  using assms by (simp_all add: tally_def)

section \<open>Handing a right over\<close>

text \<open>
  From \<open>K\<close> to \<open>K'\<close>, one reference and one right of kind \<open>r\<close> to the port \<open>x\<close>, if there is one, went
  from the spaces to somebody else. The counts of send and send-once rights of a dead port are no longer kept: an
  entry that turns into a dead name gives back its reference only.
\<close>

definition handed :: "ipc_kernel \<Rightarrow> ipc_kernel \<Rightarrow> port_id option \<Rightarrow> msg_right \<Rightarrow> bool" where
  "handed K K' x r \<longleftrightarrow>
     (\<forall>q. spare_refs K' q = spare_refs K q + of_bool (x = Some q) \<and>
        spare_receives K' q = spare_receives K q + of_bool (x = Some q \<and> r = MACH_MSG_TYPE_PORT_RECEIVE) \<and>
        (ip_active (k_ports K q) \<longrightarrow>
           spare_sends K' q = spare_sends K q + of_bool (x = Some q \<and> r = MACH_MSG_TYPE_PORT_SEND) \<and>
           spare_sonces K' q = spare_sonces K q + of_bool (x = Some q \<and> r = MACH_MSG_TYPE_PORT_SEND_ONCE)))"

text \<open>The change of the counts of \<open>p\<close>, and of one entry, that hands a right over.\<close>

lemma handed_update:
  assumes "finite_names K" and "entries K' = (entries K)(s := (entries K s)(n := x))"
    and "\<And>q. int (ip_references (k_ports K' q)) - of_bool (holds (refers q) x) =
           int (ip_references (k_ports K q)) - of_bool (holds (refers q) (entries K s n)) + of_bool (y = Some q)"
    and "\<And>q. ip_active (k_ports K q) \<Longrightarrow>
           int (ip_srights (k_ports K' q)) - of_bool (holds (sends_to q) x) =
             int (ip_srights (k_ports K q)) - of_bool (holds (sends_to q) (entries K s n)) +
               of_bool (y = Some q \<and> r = MACH_MSG_TYPE_PORT_SEND)"
    and "\<And>q. ip_active (k_ports K q) \<Longrightarrow>
           int (ip_sorights (k_ports K' q)) - of_bool (holds (sends_once_to q) x) =
             int (ip_sorights (k_ports K q)) - of_bool (holds (sends_once_to q) (entries K s n)) +
               of_bool (y = Some q \<and> r = MACH_MSG_TYPE_PORT_SEND_ONCE)"
    and "\<And>q. of_bool (holds (receives_from q) (entries K s n)) =
           of_bool (holds (receives_from q) x) + (of_bool (y = Some q \<and> r = MACH_MSG_TYPE_PORT_RECEIVE) :: int)"
  shows "handed K K' y r"
  unfolding handed_def
proof (intro allI conjI impI)
  fix q
  note su = spare_update [OF assms(1,2), of q]
  show "spare_refs K' q = spare_refs K q + of_bool (y = Some q)" using su(1) assms(3) [of q] by linarith
  show "spare_receives K' q = spare_receives K q + of_bool (y = Some q \<and> r = MACH_MSG_TYPE_PORT_RECEIVE)"
    using su(4) assms(6) [of q] by linarith
  assume a: "ip_active (k_ports K q)"
  show "spare_sends K' q = spare_sends K q + of_bool (y = Some q \<and> r = MACH_MSG_TYPE_PORT_SEND)"
    using su(2) assms(4) [OF a] by linarith
  show "spare_sonces K' q = spare_sonces K q + of_bool (y = Some q \<and> r = MACH_MSG_TYPE_PORT_SEND_ONCE)"
    using su(3) assms(5) [OF a] by linarith
qed

lemma holds_simps [simp]:
  "holds P None \<longleftrightarrow> False"
  "holds P (Some e) \<longleftrightarrow> P e"
  by auto

lemma check_dead_books:
  assumes "\<not> ip_active (k_ports K p)" and "marequest_ok K s n e"
  obtains e' K' where "ipc_right_check s p n e K = Some (True, e', K')"
    "entries K' = (entries K)(s := (entries K s)(n := if test (ie_bits e) IE_BITS_COMPAT then None else Some e'))"
    "k_ports K' = k_ports (ip_release p K)"
    "\<not> test (ie_bits e) IE_BITS_COMPAT \<Longrightarrow> e' = dead_entry e" "ie_object e' = IO_NULL"
proof -
  obtain K1 where K1: "marequest_cancel_if (ie_bits e) s n K = Some K1"
    using marequest_cancel_total [OF assms(2)] .
  define K2 where "K2 = ip_release p (if test (ie_bits e) MACH_PORT_TYPE_SEND then ipc_hash_delete s p n K1 else K)"
  define e' where "e' = (if test (ie_bits e) IE_BITS_COMPAT then e\<lparr>ie_request := 0, ie_object := IO_NULL\<rparr>
                         else dead_entry e)"
  define K' where "K' = (if test (ie_bits e) IE_BITS_COMPAT then entry_dealloc s n K2 else set_entry s n e' K2)"
  note f = marequest_cancel_frame(1,2) [OF K1]
  have K2: "entries K2 = entries K" "k_ports K2 = k_ports (ip_release p K)"
    by (auto simp: K2_def f ip_release_def ipc_hash_delete_def intro!: entries_cong)
  have "ipc_right_check s p n e K = Some (True, e', K')"
    using assms(1) by (simp add: ipc_right_check_def K1 K2_def e'_def K'_def dead_entry_def Let_def clear_marequest)
  then show thesis by (rule that) (simp_all add: K'_def K2 e'_def dead_entry_def Let_def)
qed

lemma books_finite: "books_ok K \<Longrightarrow> finite_names K"
  by (simp add: books_ok_def)

lemma books_refs:
  assumes "books_ok K" and "entries K s n = Some e" and "refers p e"
  shows "0 < ip_references (k_ports K p)"
proof -
  have "(s, n) \<in> holders (refers p) K" using assms(2,3) by (simp add: holders_def)
  then have "0 < card (holders (refers p) K)"
    using holders_finite [of K "refers p"] assms(1) by (auto simp: books_ok_def card_gt_0_iff)
  moreover have "0 \<le> spare_refs K p" using assms(1) by (simp add: books_ok_def)
  ultimately show ?thesis by (simp add: spare_refs_def)
qed

text \<open>An entry whose port is dead turns into a dead name or disappears.\<close>

lemma dead_books:
  assumes "books_ok K" and "entries K s n = Some e" and "refers p e" and "\<not> ip_active (k_ports K p)"
    and "entries K' = (entries K)(s := (entries K s)(n := x))"
    and "\<And>e'. x = Some e' \<Longrightarrow> ie_object e' = IO_NULL"
    and "k_ports K' = k_ports (ip_release p K)" and "\<not> test (ie_bits e) MACH_PORT_TYPE_RECEIVE"
  shows "handed K K' None r"
proof (rule handed_update [OF _ assms(5)])
  show "finite_names K" using assms(1) by (simp add: books_ok_def)
  have none: "\<not> holds (refers q) x" "\<not> holds (sends_to q) x" "\<not> holds (sends_once_to q) x"
    "\<not> holds (receives_from q) x" for q
    using assms(6) by (auto simp: refers_def sends_to_def sends_once_to_def receives_from_def)
  fix q
  show "of_bool (holds (receives_from q) (entries K s n)) = of_bool (holds (receives_from q) x) +
      (of_bool (None = Some q \<and> r = MACH_MSG_TYPE_PORT_RECEIVE) :: int)"
    using none(4) assms(8) by (simp add: assms(2) receives_from_def)
  show "int (ip_references (k_ports K' q)) - of_bool (holds (refers q) x) =
      int (ip_references (k_ports K q)) - of_bool (holds (refers q) (entries K s n)) + of_bool (None = Some q)"
    using none books_refs [OF assms(1,2,3)] assms(3) by (auto simp: assms(2,7) ip_release_def refers_def)
  assume "ip_active (k_ports K q)"
  then have "q \<noteq> p" using assms(4) by auto
  then have "\<not> sends_to q e" "\<not> sends_once_to q e" using assms(3) by (auto simp: sends_to_def sends_once_to_def refers_def)
  with none show "int (ip_srights (k_ports K' q)) - of_bool (holds (sends_to q) x) =
      int (ip_srights (k_ports K q)) - of_bool (holds (sends_to q) (entries K s n)) +
        of_bool (None = Some q \<and> r = MACH_MSG_TYPE_PORT_SEND)"
    "int (ip_sorights (k_ports K' q)) - of_bool (holds (sends_once_to q) x) =
      int (ip_sorights (k_ports K q)) - of_bool (holds (sends_once_to q) (entries K s n)) +
        of_bool (None = Some q \<and> r = MACH_MSG_TYPE_PORT_SEND_ONCE)"
    by (simp_all add: assms(2,7) ip_release_def)
qed

lemma handed_refl: "handed K K None r"
  by (simp add: handed_def)

text \<open>A live port gives a right away while its entries stay as they are.\<close>

lemma handed_same:
  assumes "entries K' = entries K" and "y \<noteq> None \<Longrightarrow> r \<noteq> MACH_MSG_TYPE_PORT_RECEIVE"
    and "\<And>q. ip_references (k_ports K' q) = ip_references (k_ports K q) + (if y = Some q then 1 else 0)"
    and "\<And>q. ip_srights (k_ports K' q) =
           ip_srights (k_ports K q) + (if y = Some q \<and> r = MACH_MSG_TYPE_PORT_SEND then 1 else 0)"
    and "\<And>q. ip_sorights (k_ports K' q) =
           ip_sorights (k_ports K q) + (if y = Some q \<and> r = MACH_MSG_TYPE_PORT_SEND_ONCE then 1 else 0)"
  shows "handed K K' y r"
  using assms(2-5) by (auto simp: handed_def spare_same [OF assms(1)])

lemma entries_upd [simp]:
  "entries (ip_reference p K) = entries K"
  "entries (ip_release p K) = entries K"
  "entries (ipc_hash_insert s p n K) = entries K"
  "entries (ipc_hash_delete s p n K) = entries K"
  "entries (ipc_port_clear_receiver p K) = entries K"
  "entries (port_in_limbo p K) = entries K"
  by (rule entries_cong; simp add: port_in_limbo_def)+

abbreviation taken :: "kern_return_t + ipc_object \<times> port_id option \<Rightarrow> port_id option" where
  "taken r \<equiv> (case r of Inr (IO_PORT p, _) \<Rightarrow> Some p | _ \<Rightarrow> None)"

lemma copyin_dead_books:
  assumes ok: "right_ok K s n e" and books: "books_ok K" and p: "ie_object e = IO_PORT p"
    and dead: "\<not> ip_active (k_ports K p)"
    and type: "IE_BITS_TYPE (ie_bits e) = MACH_PORT_TYPE_SEND \<or> IE_BITS_TYPE (ie_bits e) = MACH_PORT_TYPE_SEND_ONCE"
    and c: "ipc_right_copyin s n e t deadok K = Some (r, K')"
  shows "handed K K' (taken r) (ipc_object_copyin_type t)"
proof -
  have ref: "refers p e" using p type by (auto simp: refers_def)
  obtain e' K1 where K1: "ipc_right_check s p n e K = Some (True, e', K1)"
    "entries K1 = (entries K)(s := (entries K s)(n := if test (ie_bits e) IE_BITS_COMPAT then None else Some e'))"
    "k_ports K1 = k_ports (ip_release p K)" "ie_object e' = IO_NULL"
    using check_dead_books [OF dead right_okD(4) [OF ok]] by metis
  have tests: "test (ie_bits e) MACH_PORT_TYPE_SEND_RIGHTS" "\<not> test (ie_bits e) MACH_PORT_TYPE_DEAD_NAME"
    "\<not> test (ie_bits e) MACH_PORT_TYPE_RECEIVE" using type by (auto simp: type_tests)
  note db = dead_books [OF books right_okD(2) [OF ok] ref dead]
  have d1: "handed K K1 None x" for x by (rule db [OF K1(2) _ K1(3)]) (use K1(4) tests(3) in \<open>auto split: if_splits\<close>)
  have d2: "handed K (set_entry s n (e'\<lparr>ie_bits := b\<rparr>) K1) None x" for b x
    by (rule db [where x = "Some (e'\<lparr>ie_bits := b\<rparr>)"]) (use K1(2-4) tests(3) in auto)
  show ?thesis
    using c tests K1(1) p d1 d2 handed_refl
    by (cases t) (auto simp: copyin_defs entry_port_def Let_def split: if_splits)
qed

text \<open>The entry of a live port changes, and only the counts of this port with it.\<close>

lemma handed_port:
  assumes "finite_names K" and "entries K s n = Some e" and "ie_object e = IO_PORT p"
    and "entries K' = (entries K)(s := (entries K s)(n \<mapsto> e'))"
    and "ie_object e' = IO_PORT p \<or> ie_object e' = IO_NULL"
    and "\<And>q. q \<noteq> p \<Longrightarrow> tallies K' q = tallies K q"
    and "int (ip_references (k_ports K' p)) - of_bool (refers p e') =
           int (ip_references (k_ports K p)) - of_bool (refers p e) + 1"
    and "int (ip_srights (k_ports K' p)) - of_bool (sends_to p e') =
           int (ip_srights (k_ports K p)) - of_bool (sends_to p e) + of_bool (r = MACH_MSG_TYPE_PORT_SEND)"
    and "int (ip_sorights (k_ports K' p)) - of_bool (sends_once_to p e') =
           int (ip_sorights (k_ports K p)) - of_bool (sends_once_to p e) + of_bool (r = MACH_MSG_TYPE_PORT_SEND_ONCE)"
    and "receives_from p e \<longleftrightarrow> receives_from p e' \<or> r = MACH_MSG_TYPE_PORT_RECEIVE"
    and "r = MACH_MSG_TYPE_PORT_RECEIVE \<Longrightarrow> \<not> receives_from p e'"
  shows "handed K K' (Some p) r"
proof (rule handed_update [OF _ assms(4)])
  show "finite_names K" by (rule assms(1))
  fix q
  have other: "\<not> refers q e" "\<not> refers q e'" "\<not> sends_to q e" "\<not> sends_to q e'" "\<not> sends_once_to q e"
    "\<not> sends_once_to q e'" "\<not> receives_from q e" "\<not> receives_from q e'" if "q \<noteq> p"
    using that assms(3,5) by (auto simp: refers_def sends_to_def sends_once_to_def receives_from_def)
  show "of_bool (holds (receives_from q) (entries K s n)) = of_bool (holds (receives_from q) (Some e')) +
      (of_bool (Some p = Some q \<and> r = MACH_MSG_TYPE_PORT_RECEIVE) :: int)"
    using other(7,8) assms(10,11) by (cases "q = p") (auto simp: assms(2))
  note t = tally_fields [OF assms(6) [of q]]
  show "int (ip_references (k_ports K' q)) - of_bool (holds (refers q) (Some e')) =
      int (ip_references (k_ports K q)) - of_bool (holds (refers q) (entries K s n)) + of_bool (Some p = Some q)"
    using other t(1) assms(7) by (cases "q = p") (simp_all add: assms(2))
  show "int (ip_srights (k_ports K' q)) - of_bool (holds (sends_to q) (Some e')) =
      int (ip_srights (k_ports K q)) - of_bool (holds (sends_to q) (entries K s n)) +
        of_bool (Some p = Some q \<and> r = MACH_MSG_TYPE_PORT_SEND)"
    using other t(2) assms(8) by (cases "q = p") (simp_all add: assms(2))
  show "int (ip_sorights (k_ports K' q)) - of_bool (holds (sends_once_to q) (Some e')) =
      int (ip_sorights (k_ports K q)) - of_bool (holds (sends_once_to q) (entries K s n)) +
        of_bool (Some p = Some q \<and> r = MACH_MSG_TYPE_PORT_SEND_ONCE)"
    using other t(3) assms(9) by (cases "q = p") (simp_all add: assms(2))
qed

lemma null_object_weight [simp]:
  assumes "ie_object e' = IO_NULL"
  shows "\<not> refers p e'" "\<not> sends_to p e'" "\<not> sends_once_to p e'" "\<not> receives_from p e'"
  using assms by (simp_all add: refers_def sends_to_def sends_once_to_def receives_from_def)

text \<open>Ways of taking a right that leave the entries alone.\<close>

lemma copyin_made_books:
  assumes "ie_object e = IO_PORT p" and "ip_active (k_ports K p)"
    and "t \<in> {MACH_MSG_TYPE_MAKE_SEND, MACH_MSG_TYPE_MAKE_SEND_ONCE, MACH_MSG_TYPE_COPY_SEND}"
    and "\<not> test (ie_bits e) MACH_PORT_TYPE_DEAD_NAME"
    and "ipc_right_copyin s n e t deadok K = Some (r, K')"
  shows "handed K K' (taken r) (ipc_object_copyin_type t)"
  using assms handed_refl
  by (auto simp: copyin_defs entry_port_def Let_def ip_reference_def split: if_splits intro!: handed_same)

text \<open>The last user reference of a pure send right, or a send-once right, leaves its entry.\<close>

lemma copyin_emptied_books:
  assumes ok: "right_ok K s n e" and books: "books_ok K" and p: "ie_object e = IO_PORT p"
    and active: "ip_active (k_ports K p)" and ref: "refers p e"
    and E: "entries K' = (entries K)(s := (entries K s)(n \<mapsto> e'))" and null: "ie_object e' = IO_NULL"
    and P: "\<And>q. tallies K' q = tallies K q"
    and r: "sends_to p e \<longleftrightarrow> r = MACH_MSG_TYPE_PORT_SEND" "sends_once_to p e \<longleftrightarrow> r = MACH_MSG_TYPE_PORT_SEND_ONCE"
      "receives_from p e \<longleftrightarrow> r = MACH_MSG_TYPE_PORT_RECEIVE"
  shows "handed K K' (Some p) r"
  by (rule handed_port [OF books_finite [OF books] right_okD(2) [OF ok] p E])
     (use null ref r tally_fields [OF P [of p]] P in auto)

lemma tally_dnrequests [simp]: "tally (x\<lparr>ip_dnrequests := t\<rparr>) = tally x"
  by (simp add: tally_def)

lemma entry_weight_type:
  assumes "ie_object e = IO_PORT p"
  shows "IE_BITS_TYPE (ie_bits e) = MACH_PORT_TYPE_SEND \<Longrightarrow> refers p e \<and> sends_to p e \<and> \<not> sends_once_to p e \<and> \<not> receives_from p e"
    and "IE_BITS_TYPE (ie_bits e) = MACH_PORT_TYPE_SEND_RECEIVE \<Longrightarrow> refers p e \<and> sends_to p e \<and> \<not> sends_once_to p e \<and> receives_from p e"
    and "IE_BITS_TYPE (ie_bits e) = MACH_PORT_TYPE_RECEIVE \<Longrightarrow> refers p e \<and> \<not> sends_to p e \<and> \<not> sends_once_to p e \<and> receives_from p e"
    and "IE_BITS_TYPE (ie_bits e) = MACH_PORT_TYPE_SEND_ONCE \<Longrightarrow> refers p e \<and> \<not> sends_to p e \<and> sends_once_to p e \<and> \<not> receives_from p e"
  using assms by (auto simp: refers_def sends_to_def sends_once_to_def receives_from_def type_tests)

lemma copyin_move_send_books:
  assumes ok: "right_ok K s n e" and books: "books_ok K" and p: "ie_object e = IO_PORT p"
    and active: "ip_active (k_ports K p)"
    and type: "IE_BITS_TYPE (ie_bits e) = MACH_PORT_TYPE_SEND \<or> IE_BITS_TYPE (ie_bits e) = MACH_PORT_TYPE_SEND_RECEIVE"
    and u: "0 < IE_BITS_UREFS (ie_bits e)"
    and c: "copyin_move_send s n e deadok K = Some (r, K')"
  shows "handed K K' (taken r) MACH_MSG_TYPE_PORT_SEND"
proof -
  have w: "refers p e" "sends_to p e" "\<not> sends_once_to p e" using type entry_weight_type [OF p] by auto
  have tests: "test (ie_bits e) MACH_PORT_TYPE_SEND" "test (ie_bits e) MACH_PORT_TYPE_SEND_RIGHTS"
    "\<not> test (ie_bits e) MACH_PORT_TYPE_DEAD_NAME" using type by (auto simp: type_tests)
  let ?clear = "ie_bits e AND NOT (IE_BITS_UREFS_MASK OR MACH_PORT_TYPE_SEND)"
  note port = handed_port [OF books_finite [OF books] right_okD(2) [OF ok] p]
  consider (more) "IE_BITS_UREFS (ie_bits e) \<noteq> 1"
    | (last_send) "IE_BITS_UREFS (ie_bits e) = 1" "IE_BITS_TYPE (ie_bits e) = MACH_PORT_TYPE_SEND"
    | (last_receive) "IE_BITS_UREFS (ie_bits e) = 1" "IE_BITS_TYPE (ie_bits e) = MACH_PORT_TYPE_SEND_RECEIVE"
    using type by blast
  then show ?thesis
  proof cases
    case more
    then have r: "r = Inr (IO_PORT p, None)" and K': "K' = set_entry s n (e\<lparr>ie_bits := ie_bits e - 1\<rparr>)
        (ip_reference p (upd_port p (ip_srights_update (\<lambda>n. n + 1)) K))"
      using c tests active p by (auto simp: copyin_move_send_def entry_port_def Let_def)
    have "refers p (e\<lparr>ie_bits := ie_bits e - 1\<rparr>) \<and> sends_to p (e\<lparr>ie_bits := ie_bits e - 1\<rparr>) \<and>
        \<not> sends_once_to p (e\<lparr>ie_bits := ie_bits e - 1\<rparr>) \<and>
        (receives_from p (e\<lparr>ie_bits := ie_bits e - 1\<rparr>) \<longleftrightarrow> receives_from p e)"
      using type entry_weight_type(1,2) [of "e\<lparr>ie_bits := ie_bits e - 1\<rparr>" p] entry_weight_type(1,2) [OF p] p
        decr_fields(1) [OF u] by auto
    then show ?thesis unfolding r
      by simp (rule port [where e' = "e\<lparr>ie_bits := ie_bits e - 1\<rparr>"];
        use w p in \<open>simp add: K' ip_reference_def tally_def\<close>)
  next
    case last_send
    from ok p active show ?thesis
    proof (rule cancel_requests)
      fix d K1 K2 K3 x
      assume K1: "ipc_right_dncancel_macro s p n e K = Some (d, e\<lparr>ie_request := 0\<rparr>, K1)"
        "marequest_cancel_if (ie_bits e) s n (ipc_hash_delete s p n K1) = Some K3"
        "entries K1 = (entries K)(s := (entries K s)(n \<mapsto> e\<lparr>ie_request := 0\<rparr>))" "entries K3 = entries K1"
        "k_ports K1 = (k_ports K)(p := k_ports K p\<lparr>ip_dnrequests := x\<rparr>)" "k_ports K3 = k_ports K1"
      let ?e = "e\<lparr>ie_request := 0, ie_object := IO_NULL, ie_bits := ?clear\<rparr>"
      have r: "r = Inr (IO_PORT p, d)" and K': "K' = set_entry s n ?e K3"
        using c tests active p last_send K1(1,2) by (auto simp: copyin_move_send_def entry_port_def Let_def send_tests)
      show ?thesis unfolding r
        by simp (rule copyin_emptied_books [OF ok books p active w(1), where e' = ?e];
          use w entry_weight_type(1) [OF p last_send(2)] in \<open>simp add: K' K1\<close>)
    qed
  next
    case last_receive
    let ?e = "e\<lparr>ie_bits := ?clear\<rparr>"
    have r: "r = Inr (IO_PORT p, None)" and K': "K' = set_entry s n ?e (ip_reference p K)"
      using c tests active p last_receive by (auto simp: copyin_move_send_def entry_port_def Let_def send_receive_tests)
    define b where "b = ?clear"
    have "IE_BITS_TYPE b = MACH_PORT_TYPE_RECEIVE"
      unfolding b_def clear_send(1) last_receive(2) by (rule type_combinations)
    then have "refers p ?e \<and> \<not> sends_to p ?e \<and> \<not> sends_once_to p ?e \<and> receives_from p ?e"
      unfolding b_def [symmetric] using entry_weight_type(3) [of "e\<lparr>ie_bits := b\<rparr>" p] p by simp
    then show ?thesis unfolding r
      by simp (rule port [where e' = ?e]; use w p entry_weight_type(2) [OF p last_receive(2)] in \<open>simp add: K' ip_reference_def tally_def\<close>)
  qed
qed

lemma copyin_move_send_once_books:
  assumes ok: "right_ok K s n e" and books: "books_ok K" and p: "ie_object e = IO_PORT p"
    and active: "ip_active (k_ports K p)" and type: "IE_BITS_TYPE (ie_bits e) = MACH_PORT_TYPE_SEND_ONCE"
    and c: "copyin_move_send_once s n e deadok K = Some (r, K')"
  shows "handed K K' (taken r) MACH_MSG_TYPE_PORT_SEND_ONCE"
  using ok p active
proof (rule cancel_requests)
  fix d K1 K2 K3 x
  assume K1: "ipc_right_dncancel_macro s p n e K = Some (d, e\<lparr>ie_request := 0\<rparr>, K1)"
    "entries K1 = (entries K)(s := (entries K s)(n \<mapsto> e\<lparr>ie_request := 0\<rparr>))"
    "k_ports K1 = (k_ports K)(p := k_ports K p\<lparr>ip_dnrequests := x\<rparr>)"
  let ?e = "e\<lparr>ie_request := 0, ie_object := IO_NULL, ie_bits := ie_bits e AND NOT MACH_PORT_TYPE_SEND_ONCE\<rparr>"
  have w: "refers p e" "\<not> sends_to p e" "sends_once_to p e" "\<not> receives_from p e"
    using entry_weight_type(4) [OF p type] by auto
  have r: "r = Inr (IO_PORT p, d)" and K': "K' = set_entry s n ?e K1"
    using c active p K1(1) by (auto simp: copyin_move_send_once_def entry_port_def Let_def send_once_tests [OF type])
  show ?thesis unfolding r
    by simp (rule copyin_emptied_books [OF ok books p active w(1), where e' = ?e]; use w in \<open>simp add: K' K1\<close>)
qed

lemma copyin_move_receive_books:
  assumes ok: "right_ok K s n e" and books: "books_ok K" and p: "ie_object e = IO_PORT p"
    and type: "IE_BITS_TYPE (ie_bits e) = MACH_PORT_TYPE_RECEIVE \<or> IE_BITS_TYPE (ie_bits e) = MACH_PORT_TYPE_SEND_RECEIVE"
    and c: "copyin_move_receive s n e K = Some (r, K')"
  shows "handed K K' (taken r) MACH_MSG_TYPE_PORT_RECEIVE"
proof -
  have active: "ip_active (k_ports K p)" using right_okD(5) [OF ok _ p] type by (auto simp: type_tests)
  let ?b = "ie_bits e AND NOT MACH_PORT_TYPE_RECEIVE"
  show ?thesis
  proof (cases "IE_BITS_TYPE (ie_bits e) = MACH_PORT_TYPE_RECEIVE")
    case True
    from ok p active show ?thesis
    proof (rule cancel_requests)
      fix d K1 K2 K3 x
      assume K1: "ipc_right_dncancel_macro s p n e K = Some (d, e\<lparr>ie_request := 0\<rparr>, K1)"
        "marequest_cancel_if (ie_bits e) s n K1 = Some K2"
        "entries K1 = (entries K)(s := (entries K s)(n \<mapsto> e\<lparr>ie_request := 0\<rparr>))" "entries K2 = entries K1"
        "k_ports K1 = (k_ports K)(p := k_ports K p\<lparr>ip_dnrequests := x\<rparr>)" "k_ports K2 = k_ports K1"
      let ?e = "e\<lparr>ie_request := 0, ie_object := IO_NULL, ie_bits := ?b\<rparr>"
      have w: "refers p e" "\<not> sends_to p e" "\<not> sends_once_to p e" "receives_from p e"
        using entry_weight_type(3) [OF p True] by auto
      have r: "r = Inr (IO_PORT p, d)"
        and K': "K' = port_in_limbo p (ipc_port_clear_receiver p (set_entry s n ?e K2))"
        using c p K1(1,2) by (auto simp: copyin_move_receive_def entry_port_def Let_def receive_tests [OF True])
      show ?thesis unfolding r
        by simp (rule copyin_emptied_books [OF ok books p active w(1), where e' = ?e]; use w in \<open>simp add: K' K1\<close>)
    qed
  next
    case False
    then have sr: "IE_BITS_TYPE (ie_bits e) = MACH_PORT_TYPE_SEND_RECEIVE" using type by blast
    let ?e = "e\<lparr>ie_bits := ?b\<rparr>"
    have r: "r = Inr (IO_PORT p, None)"
      and K': "K' = port_in_limbo p (ipc_port_clear_receiver p (set_entry s n ?e
                 (ip_reference p (ipc_hash_insert s p n K))))"
      using c p by (auto simp: copyin_move_receive_def entry_port_def Let_def send_receive_tests [OF sr])
    have t: "tallies K' q = tallies (ip_reference p K) q" for q
      by (simp add: K' ip_reference_def)
    have w: "refers p e \<and> sends_to p e \<and> \<not> sends_once_to p e \<and> receives_from p e"
      "refers p ?e \<and> sends_to p ?e \<and> \<not> sends_once_to p ?e \<and> \<not> receives_from p ?e"
      using entry_weight_type(2) [OF p sr] entry_weight_type(1) [of ?e p] p sr
      by (auto simp: clear_receive type_combinations)
    show ?thesis unfolding r
      by simp (rule handed_port [OF books_finite [OF books] right_okD(2) [OF ok] p, where e' = ?e];
        use w p tally_fields [OF t [of p]] t in \<open>simp add: K' ip_reference_def\<close>)
  qed
qed

text \<open>A receive right that is taken is in limbo; nothing else moves a receive right.\<close>

lemma dncancel_domicile:
  "ipc_right_dncancel_macro s p n e K = Some (d, e', K1) \<Longrightarrow> domicile K1 q = domicile K q"
  by (auto simp: ipc_right_dncancel_macro_def ipc_right_dncancel_def ipc_port_dncancel_def Let_def whereabouts_def
      is_release_def split: if_splits bind_splits option.splits prod.splits ipr_notify.splits)

lemma check_domicile: "ipc_right_check s p n e K = Some (d, e', K1) \<Longrightarrow> domicile K1 q = domicile K q"
  using marequest_cancel_frame(2)
  by (fastforce simp: ipc_right_check_def Let_def split: if_splits bind_splits)

lemma marequest_domicile: "marequest_cancel_if bits s n K = Some K1 \<Longrightarrow> domicile K1 q = domicile K q"
  by (simp add: marequest_cancel_frame(2))

lemma copyin_domicile:
  assumes "ipc_right_copyin s n e t deadok K = Some (r, K')"
  shows "domicile K' q = (if t = MACH_MSG_TYPE_MOVE_RECEIVE \<and> taken r = Some q
           then (Ip_Destination None, MACH_PORT_NULL) else domicile K q)"
  using assms
  by (cases t)
     (auto simp: copyin_defs Let_def split: if_splits bind_splits
        dest!: check_domicile [where q = q] marequest_domicile [where q = q] dncancel_domicile [where q = q])

lemma copyin_handed:
  assumes "right_ok K s n e" and "books_ok K" and "ipc_right_copyin s n e t deadok K = Some (r, K')"
  shows "handed K K' (taken r) (ipc_object_copyin_type t)"
  using right_okD(1) [OF assms(1)]
proof (cases e rule: entry_ok_cases)
  case dead_name
  have E: "entries K s n = Some e" by (rule right_okD(2) [OF assms(1)])
  have "handed K (set_entry s n (e\<lparr>ie_bits := b\<rparr>) K) None x" for b x
    by (rule handed_update [of K _ s n "Some (e\<lparr>ie_bits := b\<rparr>)"])
       (use assms(2) dead_name(2) E in \<open>simp_all add: books_ok_def\<close>)
  with dead_name assms(3) handed_refl show ?thesis
    by (cases t) (auto simp: copyin_defs dead_name_tests Let_def split: if_splits)
next
  case (port_set q)
  then show ?thesis using assms(3) handed_refl by (cases t) (auto simp: copyin_defs port_set_tests)
next
  case (send p)
  show ?thesis
  proof (cases "ip_active (k_ports K p)")
    case True
    note made = copyin_made_books [OF send(2) True _ send_tests(4) [OF send(1)] assms(3)]
    show ?thesis
      using made copyin_move_send_books [OF assms(1,2) send(2) True _ send(3)] send assms(3) True handed_refl
      by (cases t) (auto simp: copyin_move_receive_def copyin_move_send_once_def entry_port_def Let_def send_tests)
  qed (use copyin_dead_books [OF assms(1,2) send(2) _ _ assms(3)] send(1) in simp)
next
  case (send_once p)
  show ?thesis
  proof (cases "ip_active (k_ports K p)")
    case True
    note made = copyin_made_books [OF send_once(2) True _ send_once_tests(4) [OF send_once(1)] assms(3)]
    show ?thesis
      using made copyin_move_send_once_books [OF assms(1,2) send_once(2) True send_once(1)] send_once assms(3) True handed_refl
      by (cases t) (auto simp: copyin_move_receive_def copyin_move_send_def entry_port_def Let_def send_once_tests)
  qed (use copyin_dead_books [OF assms(1,2) send_once(2) _ _ assms(3)] send_once(1) in simp)
next
  case (receive p)
  have a: "ip_active (k_ports K p)" using right_okD(5) [OF assms(1) receive_tests(2) [OF receive(1)] receive(2)] .
  note made = copyin_made_books [OF receive(2) a _ receive_tests(4) [OF receive(1)] assms(3)]
  show ?thesis
    using made copyin_move_receive_books [OF assms(1,2) receive(2)] receive assms(3) handed_refl
    by (cases t) (auto simp: copyin_move_send_def copyin_move_send_once_def receive_tests)
next
  case (send_receive p)
  have a: "ip_active (k_ports K p)"
    using right_okD(5) [OF assms(1) send_receive_tests(2) [OF send_receive(1)] send_receive(2)] .
  note made = copyin_made_books [OF send_receive(2) a _ send_receive_tests(4) [OF send_receive(1)] assms(3)]
  show ?thesis
    using made copyin_move_receive_books [OF assms(1,2) send_receive(2)] a
      copyin_move_send_books [OF assms(1,2) send_receive(2) a _ send_receive(3)] send_receive assms(3) handed_refl
    by (cases t) (auto simp: copyin_move_send_once_def entry_port_def Let_def send_receive_tests)
qed

text \<open>
  C33: a copyin of a well-formed right hands exactly one reference, and one right of the kind
  \<^verbatim>\<open>ipc_object_copyin_type\<close> names, to its caller when it returns a port, and nothing when it fails or the
  port is dead, for all six ways of taking a right: what the reference count of every port holds beyond
  the entries of all spaces grows by that much, the counts of send and send-once rights of every live
  port do (those of a dead port are not kept), and an entry loses its receive right exactly when a
  receive right is returned. The port of such a receive right is in limbo then, and no other port's record
  of its receiver has changed.
\<close>

theorem copyin_accounts:
  assumes "right_ok K s n e" and "books_ok K" and "ipc_right_copyin s n e t deadok K = Some (r, K')"
  shows "handed K K' (case r of Inr (IO_PORT p, _) \<Rightarrow> Some p | _ \<Rightarrow> None) (ipc_object_copyin_type t) \<and>
    (\<forall>q. (ip_data (k_ports K' q), ip_receiver_name (k_ports K' q)) =
       (if t = MACH_MSG_TYPE_MOVE_RECEIVE \<and> (\<exists>d. r = Inr (IO_PORT q, d)) then (Ip_Destination None, MACH_PORT_NULL)
        else (ip_data (k_ports K q), ip_receiver_name (k_ports K q))))"
proof (intro conjI allI)
  show "handed K K' (taken r) (ipc_object_copyin_type t)" by (rule copyin_handed [OF assms])
  fix q
  have "taken r = Some q \<longleftrightarrow> (\<exists>d. r = Inr (IO_PORT q, d))" by (auto split: sum.splits prod.splits ipc_object.splits)
  then show "(ip_data (k_ports K' q), ip_receiver_name (k_ports K' q)) =
       (if t = MACH_MSG_TYPE_MOVE_RECEIVE \<and> (\<exists>d. r = Inr (IO_PORT q, d)) then (Ip_Destination None, MACH_PORT_NULL)
        else (ip_data (k_ports K q), ip_receiver_name (k_ports K q)))"
    using copyin_domicile [OF assms(3), of q] by (simp only: whereabouts_def)
qed

text \<open>A space with one entry, for the concrete states below.\<close>

lemma holders_one:
  assumes "entries K = (\<lambda>_ _. None)"
  shows "holders P (set_entry s n e K) = (if P e then {(s, n)} else {})"
  by (auto simp: holders_def assms split: if_splits)

lemma holders_upd_port [simp]: "holders P (upd_port p f K) = holders P K"
  by (simp add: holders_def)

lemma entries_kernel0 [simp]: "entries kernel0 = (\<lambda>_ _. None)"
  by (simp add: entries_def state0_defs fun_eq_iff)

theorem copyin_accounts_witness:
  "let e = \<lparr>ie_bits = 0x00030002, ie_object = IO_PORT 2, ie_request = 0\<rparr>;
       K = upd_port 2 (ip_srights_update (\<lambda>_. 1)) (set_entry 3 5 e kernel0)
   in \<exists>K'. ipc_right_copyin 3 5 e MACH_MSG_TYPE_MOVE_RECEIVE True K = Some (Inr (IO_PORT 2, None), K') \<and>
           handed K K' (Some 2) MACH_MSG_TYPE_PORT_RECEIVE \<and> ip_data (k_ports K' 2) = Ip_Destination None"
proof -
  let ?e = "\<lparr>ie_bits = 0x00030002, ie_object = IO_PORT 2, ie_request = 0\<rparr>"
  let ?K = "upd_port 2 (ip_srights_update (\<lambda>_. 1)) (set_entry 3 5 ?e kernel0)"
  have ok: "right_ok ?K 3 5 ?e"
    by (simp add: right_ok_def entry_ok_def marequest_ok_def request_ok_def port_dn_ok_def entry_port_def
        bits_defs state0_defs)
  have books: "books_ok ?K"
    by (simp add: books_ok_def finite_names_def spare_refs_def holders_one) (simp add: state0_defs)
  have t: "IE_BITS_TYPE 0x00030002 = MACH_PORT_TYPE_SEND_RECEIVE" by (simp add: bits_defs)
  obtain K' where K': "ipc_right_copyin 3 5 ?e MACH_MSG_TYPE_MOVE_RECEIVE True ?K = Some (Inr (IO_PORT 2, None), K')"
    by (simp add: copyin_move_receive_def entry_port_def Let_def send_receive_tests [OF t])
  from copyin_accounts [OF ok books K'] have "handed ?K K' (Some 2) MACH_MSG_TYPE_PORT_RECEIVE"
    "ip_data (k_ports K' 2) = Ip_Destination None" by (simp_all split: if_splits)
  with K' show ?thesis unfolding Let_def by blast
qed

section \<open>Copyout\<close>

text \<open>
  The entry a caller of \<^verbatim>\<open>ipc_right_copyout\<close> has found or made for the port: a new one without a
  right, or one with a send or receive right that the new right can join.
\<close>

definition copyout_entry :: "port_id \<Rightarrow> msg_right \<Rightarrow> ipc_entry \<Rightarrow> bool" where
  "copyout_entry p r e \<longleftrightarrow> ie_object e = IO_PORT p \<and>
     (IE_BITS_TYPE (ie_bits e) = MACH_PORT_TYPE_NONE \<and> IE_BITS_UREFS (ie_bits e) = 0 \<or>
      entry_ok e \<and> test (ie_bits e) MACH_PORT_TYPE_SEND_RECEIVE \<and> r \<noteq> MACH_MSG_TYPE_PORT_SEND_ONCE \<and>
      (r = MACH_MSG_TYPE_PORT_RECEIVE \<longrightarrow> \<not> test (ie_bits e) MACH_PORT_TYPE_RECEIVE))"

text \<open>The destination that a receive right in transit is released from.\<close>

definition drop_destination :: "port_id \<Rightarrow> msg_right \<Rightarrow> ipc_kernel \<Rightarrow> ipc_kernel" where
  "drop_destination p r K =
     (if r = MACH_MSG_TYPE_PORT_RECEIVE
      then (case ip_destination (k_ports K p) of None \<Rightarrow> K | Some d \<Rightarrow> ip_release d K) else K)"

lemma none_tests:
  assumes "IE_BITS_TYPE bits = MACH_PORT_TYPE_NONE"
  shows "\<not> test bits MACH_PORT_TYPE_SEND" "\<not> test bits MACH_PORT_TYPE_RECEIVE"
    "\<not> test bits MACH_PORT_TYPE_SEND_ONCE" "\<not> test bits MACH_PORT_TYPE_SEND_RECEIVE"
  by (subst test_types, simp add: assms test_def type_defs)+

lemma copyout_entry_cases [consumes 1, case_names none send receive send_receive]:
  assumes "copyout_entry p r e"
  obtains
    (none) "IE_BITS_TYPE (ie_bits e) = MACH_PORT_TYPE_NONE" "IE_BITS_UREFS (ie_bits e) = 0"
  | (send) "IE_BITS_TYPE (ie_bits e) = MACH_PORT_TYPE_SEND" "r \<noteq> MACH_MSG_TYPE_PORT_SEND_ONCE"
      "IE_BITS_UREFS (ie_bits e) < MACH_PORT_UREFS_MAX"
  | (receive) "IE_BITS_TYPE (ie_bits e) = MACH_PORT_TYPE_RECEIVE" "r = MACH_MSG_TYPE_PORT_SEND"
      "IE_BITS_UREFS (ie_bits e) = 0"
  | (send_receive) "IE_BITS_TYPE (ie_bits e) = MACH_PORT_TYPE_SEND_RECEIVE" "r = MACH_MSG_TYPE_PORT_SEND"
      "IE_BITS_UREFS (ie_bits e) < MACH_PORT_UREFS_MAX"
proof -
  consider "IE_BITS_TYPE (ie_bits e) = MACH_PORT_TYPE_NONE" "IE_BITS_UREFS (ie_bits e) = 0"
    | "entry_ok e" "test (ie_bits e) MACH_PORT_TYPE_SEND_RECEIVE" "r \<noteq> MACH_MSG_TYPE_PORT_SEND_ONCE"
      "r = MACH_MSG_TYPE_PORT_RECEIVE \<longrightarrow> \<not> test (ie_bits e) MACH_PORT_TYPE_RECEIVE"
    using assms by (auto simp: copyout_entry_def)
  then show thesis
  proof cases
    case 2
    from 2(1) show thesis
      using 2(2-4) that by (cases e rule: entry_ok_cases; cases r) (auto simp: type_tests)
  qed (rule none)
qed

lemma none_weight:
  "IE_BITS_TYPE (ie_bits e) = MACH_PORT_TYPE_NONE \<Longrightarrow> \<not> refers p e \<and> \<not> sends_to p e \<and> \<not> sends_once_to p e \<and>
     \<not> receives_from p e"
  by (simp add: refers_def sends_to_def sends_once_to_def receives_from_def none_tests)

text \<open>The types of the entries that a copyout stores.\<close>

lemma copyout_types:
  "IE_BITS_UREFS b < MACH_PORT_UREFS_MAX \<Longrightarrow>
     IE_BITS_TYPE ((b OR MACH_PORT_TYPE_SEND) + 1) = IE_BITS_TYPE b OR MACH_PORT_TYPE_SEND"
  "IE_BITS_TYPE (b OR (MACH_PORT_TYPE_SEND_ONCE OR 1)) = IE_BITS_TYPE b OR MACH_PORT_TYPE_SEND_ONCE"
  "MACH_PORT_TYPE_NONE OR MACH_PORT_TYPE_SEND_ONCE = MACH_PORT_TYPE_SEND_ONCE"
  using incr_fields(1) [of "b OR MACH_PORT_TYPE_SEND"]
  by (simp_all add: set_send, simp_all add: bits_defs and.assoc bit.conj_disj_distrib2)

lemma handed_back:
  assumes books: "books_ok K" and E: "entries K s n = Some e" "ie_object e = IO_PORT p"
    and K1: "entries K1 = entries K"
    and K': "entries K' = (entries K)(s := (entries K s)(n \<mapsto> e'))" "ie_object e' = IO_PORT p"
    and T: "\<And>q. q \<noteq> p \<Longrightarrow> tallies K1 q = tallies K' q"
    and C: "int (ip_references (k_ports K1 p)) - of_bool (refers p e) =
           int (ip_references (k_ports K' p)) - of_bool (refers p e') + 1"
      "int (ip_srights (k_ports K1 p)) - of_bool (sends_to p e) =
           int (ip_srights (k_ports K' p)) - of_bool (sends_to p e') + of_bool (r = MACH_MSG_TYPE_PORT_SEND)"
      "int (ip_sorights (k_ports K1 p)) - of_bool (sends_once_to p e) =
           int (ip_sorights (k_ports K' p)) - of_bool (sends_once_to p e') + of_bool (r = MACH_MSG_TYPE_PORT_SEND_ONCE)"
      "receives_from p e' \<longleftrightarrow> receives_from p e \<or> r = MACH_MSG_TYPE_PORT_RECEIVE"
      "r = MACH_MSG_TYPE_PORT_RECEIVE \<Longrightarrow> \<not> receives_from p e"
  shows "handed K' K1 (Some p) r"
proof (rule handed_port [where e = e' and e' = e and s = s and n = n])
  show "finite_names K'" by (rule holders_update(2) [OF books_finite [OF books] K'(1)])
  show "entries K1 = (entries K')(s := (entries K' s)(n \<mapsto> e))" using E(1) by (auto simp: K1 K'(1) fun_eq_iff)
qed (use E K' T C in simp_all)

lemma copyout_send_once_books:
  assumes books: "books_ok K" and e: "copyout_entry p MACH_MSG_TYPE_PORT_SEND_ONCE e" and E: "entries K s n = Some e"
    and c: "ipc_right_copyout s n e MACH_MSG_TYPE_PORT_SEND_ONCE overflow p K = (kr, K')"
  shows "kr = KERN_SUCCESS" "handed K' K (Some p) MACH_MSG_TYPE_PORT_SEND_ONCE"
proof -
  have p: "ie_object e = IO_PORT p" using e by (simp add: copyout_entry_def)
  have t: "IE_BITS_TYPE (ie_bits e) = MACH_PORT_TYPE_NONE" using e by (cases rule: copyout_entry_cases) auto
  define b where "b = ie_bits e OR (MACH_PORT_TYPE_SEND_ONCE OR 1)"
  have w: "refers p (e\<lparr>ie_bits := b\<rparr>) \<and> \<not> sends_to p (e\<lparr>ie_bits := b\<rparr>) \<and> sends_once_to p (e\<lparr>ie_bits := b\<rparr>) \<and>
      \<not> receives_from p (e\<lparr>ie_bits := b\<rparr>)"
    using entry_weight_type(4) [of "e\<lparr>ie_bits := b\<rparr>" p] p by (simp add: b_def copyout_types t)
  have K': "K' = set_entry s n (e\<lparr>ie_bits := b\<rparr>) K" and "kr = KERN_SUCCESS" using c by (auto simp: b_def)
  then show "kr = KERN_SUCCESS" by simp
  show "handed K' K (Some p) MACH_MSG_TYPE_PORT_SEND_ONCE"
    by (rule handed_back [OF books E p refl, where e' = "e\<lparr>ie_bits := b\<rparr>"])
       (use w none_weight [OF t] p in \<open>simp_all add: K'\<close>)
qed

lemma copyout_send_books:
  assumes books: "books_ok K" and e: "copyout_entry p MACH_MSG_TYPE_PORT_SEND e" and E: "entries K s n = Some e"
    and pos: "0 < ip_references (k_ports K p)" "0 < ip_srights (k_ports K p)"
    and c: "ipc_right_copyout s n e MACH_MSG_TYPE_PORT_SEND overflow p K = (kr, K')"
  shows "if kr = KERN_SUCCESS then handed K' K (Some p) MACH_MSG_TYPE_PORT_SEND
         else kr = KERN_UREFS_OVERFLOW \<and> K' = K"
proof -
  have p: "ie_object e = IO_PORT p" using e by (simp add: copyout_entry_def)
  define b where "b = (ie_bits e OR MACH_PORT_TYPE_SEND) + 1"
  have u: "IE_BITS_UREFS (ie_bits e) < MACH_PORT_UREFS_MAX"
    using e by (cases rule: copyout_entry_cases) (auto simp: MACH_PORT_UREFS_MAX_def)
  have "IE_BITS_TYPE b = (if receives_from p e then MACH_PORT_TYPE_SEND_RECEIVE else MACH_PORT_TYPE_SEND)"
    using e entry_weight_type [OF p] none_weight [of e p]
    by (cases rule: copyout_entry_cases) (simp_all add: b_def copyout_types(1) [OF u] type_combinations)
  then have w: "refers p (e\<lparr>ie_bits := b\<rparr>) \<and> sends_to p (e\<lparr>ie_bits := b\<rparr>) \<and> \<not> sends_once_to p (e\<lparr>ie_bits := b\<rparr>) \<and>
      (receives_from p (e\<lparr>ie_bits := b\<rparr>) \<longleftrightarrow> receives_from p e)"
    using entry_weight_type(1,2) [of "e\<lparr>ie_bits := b\<rparr>" p] p by (auto split: if_splits)
  note handed_e = handed_back [OF books E p refl, where e' = "e\<lparr>ie_bits := b\<rparr>"]
  let ?drop = "ip_release p (upd_port p (ip_srights_update (\<lambda>n. n - 1)) K)"
  consider (new) "\<not> refers p e" "K' = set_entry s n (e\<lparr>ie_bits := b\<rparr>) (ipc_hash_insert s p n K)" "kr = KERN_SUCCESS"
      "\<not> sends_to p e" "\<not> sends_once_to p e"
    | (receiver) "refers p e" "K' = set_entry s n (e\<lparr>ie_bits := b\<rparr>) (ip_release p K)" "kr = KERN_SUCCESS"
      "\<not> sends_to p e" "\<not> sends_once_to p e"
    | (joins) "refers p e" "K' = set_entry s n (e\<lparr>ie_bits := b\<rparr>) ?drop" "kr = KERN_SUCCESS"
      "sends_to p e" "\<not> sends_once_to p e"
    | (pegged) "K' = ?drop" "kr = KERN_SUCCESS" | (full) "K' = K" "kr = KERN_UREFS_OVERFLOW"
    using e
  proof (cases rule: copyout_entry_cases)
    case none
    with c new none_weight [OF none(1), of p] show thesis by (simp add: b_def none_tests)
  next
    case send
    with c joins pegged full entry_weight_type(1) [OF p send(1)] show thesis
      by (simp add: b_def send_tests Let_def split: if_splits)
  next
    case receive
    with c receiver entry_weight_type(3) [OF p receive(1)] show thesis by (simp add: b_def receive_tests)
  next
    case send_receive
    with c joins pegged full entry_weight_type(2) [OF p send_receive(1)] show thesis
      by (simp add: b_def send_receive_tests Let_def split: if_splits)
  qed
  then show ?thesis
  proof cases
    case new
    then show ?thesis using w p by (simp, intro handed_e) (simp_all add: ports_hash)
  next
    case receiver
    then show ?thesis using w p pos by (simp, intro handed_e) (simp_all add: ip_release_def tally_def)
  next
    case joins
    then show ?thesis using w p pos by (simp, intro handed_e) (simp_all add: ip_release_def tally_def)
  next
    case pegged
    then show ?thesis using pos by (simp, intro handed_same) (auto simp: ip_release_def)
  qed simp
qed

lemma copyout_receive_books:
  assumes books: "books_ok K" and e: "copyout_entry p MACH_MSG_TYPE_PORT_RECEIVE e" and E: "entries K s n = Some e"
    and pos: "0 < ip_references (k_ports K p)" and dest: "ip_destination (k_ports K p) \<noteq> Some p"
    and c: "ipc_right_copyout s n e MACH_MSG_TYPE_PORT_RECEIVE overflow p K = (kr, K')"
  shows "kr = KERN_SUCCESS" "handed K' (drop_destination p MACH_MSG_TYPE_PORT_RECEIVE K) (Some p) MACH_MSG_TYPE_PORT_RECEIVE"
proof -
  have p: "ie_object e = IO_PORT p" using e by (simp add: copyout_entry_def)
  define b where "b = ie_bits e OR MACH_PORT_TYPE_RECEIVE"
  define K2 where "K2 = set_entry s n (e\<lparr>ie_bits := b\<rparr>)
    (let K = upd_port p (\<lambda>x. x\<lparr>ip_receiver_name := n, ip_data := Ip_Receiver s\<rparr>) K
     in if test (ie_bits e) MACH_PORT_TYPE_SEND then ipc_hash_delete s p n (ip_release p K) else K)"
  have K': "K' = (case ip_destination (k_ports K p) of None \<Rightarrow> K2 | Some d \<Rightarrow> ip_release d K2)" and kr: "kr = KERN_SUCCESS"
    using c unfolding K2_def b_def by (auto simp: Let_def split: if_splits option.splits)
  then show "kr = KERN_SUCCESS" by simp
  have cs: "IE_BITS_TYPE (ie_bits e) = MACH_PORT_TYPE_NONE \<or> IE_BITS_TYPE (ie_bits e) = MACH_PORT_TYPE_SEND"
    using e by (cases rule: copyout_entry_cases) auto
  have bt: "IE_BITS_TYPE b = (if IE_BITS_TYPE (ie_bits e) = MACH_PORT_TYPE_NONE then MACH_PORT_TYPE_RECEIVE
      else MACH_PORT_TYPE_SEND_RECEIVE)" using cs by (auto simp: b_def set_receive type_combinations)
  have w: "refers p (e\<lparr>ie_bits := b\<rparr>)" "sends_to p (e\<lparr>ie_bits := b\<rparr>) = sends_to p e"
    "\<not> sends_once_to p (e\<lparr>ie_bits := b\<rparr>)" "\<not> sends_once_to p e" "receives_from p (e\<lparr>ie_bits := b\<rparr>)" "\<not> receives_from p e"
    "refers p e = test (ie_bits e) MACH_PORT_TYPE_SEND"
    using cs bt entry_weight_type [of "e\<lparr>ie_bits := b\<rparr>" p] entry_weight_type [OF p] none_weight [of e p] p
    by (auto simp: type_tests none_tests)
  show "handed K' (drop_destination p MACH_MSG_TYPE_PORT_RECEIVE K) (Some p) MACH_MSG_TYPE_PORT_RECEIVE"
    by (rule handed_back [OF books E p, where e' = "e\<lparr>ie_bits := b\<rparr>"])
       (use w p pos dest in \<open>auto simp: K' K2_def Let_def drop_destination_def ip_release_def tally_def ports_hash
          split: option.splits\<close>)
qed

text \<open>The reverse hash, the receiver of the port and the entry after a copyout.\<close>

lemma copyout_domicile:
  assumes "copyout_entry p r e" and "ipc_right_copyout s n e r overflow p K = (KERN_SUCCESS, K')"
  shows "domicile K' q = (if r = MACH_MSG_TYPE_PORT_RECEIVE \<and> q = p then (Ip_Receiver s, n) else domicile K q)"
    and "k_hash K' = (if r = MACH_MSG_TYPE_PORT_RECEIVE \<and> test (ie_bits e) MACH_PORT_TYPE_SEND
             then (k_hash K)(s := (k_hash K s)(p := None))
           else if r = MACH_MSG_TYPE_PORT_SEND \<and> \<not> test (ie_bits e) MACH_PORT_TYPE_SEND \<and>
               \<not> test (ie_bits e) MACH_PORT_TYPE_RECEIVE then (k_hash K)(s := (k_hash K s)(p := Some n))
           else k_hash K)"
    and "r = MACH_MSG_TYPE_PORT_RECEIVE \<Longrightarrow> holds (receives_from p) (entries K' s n)"
proof -
  have w: "whereabouts (x\<lparr>ip_receiver_name := n, ip_data := Ip_Receiver s\<rparr>) = (Ip_Receiver s, n)" for x :: ipc_port
    by (simp add: whereabouts_def)
  show "domicile K' q = (if r = MACH_MSG_TYPE_PORT_RECEIVE \<and> q = p then (Ip_Receiver s, n) else domicile K q)"
    using assms(2) by (cases r) (auto simp: Let_def w split: if_splits option.splits)
  show "k_hash K' = (if r = MACH_MSG_TYPE_PORT_RECEIVE \<and> test (ie_bits e) MACH_PORT_TYPE_SEND
             then (k_hash K)(s := (k_hash K s)(p := None))
           else if r = MACH_MSG_TYPE_PORT_SEND \<and> \<not> test (ie_bits e) MACH_PORT_TYPE_SEND \<and>
               \<not> test (ie_bits e) MACH_PORT_TYPE_RECEIVE then (k_hash K)(s := (k_hash K s)(p := Some n))
           else k_hash K)"
    using assms(2) by (cases r) (auto simp: Let_def ip_release_def ipc_hash_insert_def ipc_hash_delete_def
        upd_port_def set_entry_def upd_space_def split: if_splits option.splits)
  have "test (ie_bits e OR MACH_PORT_TYPE_RECEIVE) MACH_PORT_TYPE_RECEIVE"
    by (simp add: test_def bit.conj_disj_distrib2 bits_defs)
  then show "holds (receives_from p) (entries K' s n)" if "r = MACH_MSG_TYPE_PORT_RECEIVE"
    using assms that by (auto simp: Let_def receives_from_def copyout_entry_def split: if_splits option.splits)
qed

text \<open>
  C34: a copyout that succeeds consumes exactly one reference to the port and one right of the kind
  copied out from what the caller holds (and the reference of a receive right in transit to its
  destination); one that fails changes nothing. This holds whether the right gets a new entry, joins the
  rights of an entry, or is dropped at a pegged count, except that the send and send-once counts of a dead port
  are not kept. After a copyout of the receive right the entry holds it, the port names this space and this name as its
  receiver, and a send right in the same entry is no longer in the reverse hash; the copyout of a send right to a new entry
  puts it in the reverse hash; no other record of a receiver and no other hash entry changes.
\<close>

theorem copyout_accounts:
  assumes "books_ok K" and "copyout_entry p r e" and "entries K s n = Some e"
    and "1 \<le> spare_refs K p" and "r = MACH_MSG_TYPE_PORT_SEND \<Longrightarrow> 1 \<le> spare_sends K p"
    and "ip_destination (k_ports K p) \<noteq> Some p"
  shows "case ipc_right_copyout s n e r overflow p K of (kr, K') \<Rightarrow>
           if kr = KERN_SUCCESS then
             handed K' (drop_destination p r K) (Some p) r \<and>
             (\<forall>q. (ip_data (k_ports K' q), ip_receiver_name (k_ports K' q)) =
                (if r = MACH_MSG_TYPE_PORT_RECEIVE \<and> q = p then (Ip_Receiver s, n)
                 else (ip_data (k_ports K q), ip_receiver_name (k_ports K q)))) \<and>
             (r = MACH_MSG_TYPE_PORT_RECEIVE \<longrightarrow> (\<exists>e'. entries K' s n = Some e' \<and> receives_from p e')) \<and>
             k_hash K' =
               (if r = MACH_MSG_TYPE_PORT_RECEIVE \<and> test (ie_bits e) MACH_PORT_TYPE_SEND
                  then (k_hash K)(s := (k_hash K s)(p := None))
                else if r = MACH_MSG_TYPE_PORT_SEND \<and> \<not> test (ie_bits e) MACH_PORT_TYPE_SEND \<and>
                    \<not> test (ie_bits e) MACH_PORT_TYPE_RECEIVE
                  then (k_hash K)(s := (k_hash K s)(p := Some n))
                else k_hash K)
           else kr = KERN_UREFS_OVERFLOW \<and> K' = K"
proof -
  obtain kr K' where c: "ipc_right_copyout s n e r overflow p K = (kr, K')" by fastforce
  have pos: "0 < ip_references (k_ports K p)" "r = MACH_MSG_TYPE_PORT_SEND \<Longrightarrow> 0 < ip_srights (k_ports K p)"
    using assms(4,5) by (auto simp: spare_defs)
  have "if kr = KERN_SUCCESS then handed K' (drop_destination p r K) (Some p) r
      else kr = KERN_UREFS_OVERFLOW \<and> K' = K"
  proof (cases r)
    case MACH_MSG_TYPE_PORT_SEND
    then show ?thesis using copyout_send_books [of K p e s n] assms(1-3) pos c by (auto simp: drop_destination_def)
  next
    case MACH_MSG_TYPE_PORT_SEND_ONCE
    then show ?thesis using copyout_send_once_books [of K p e s n] assms(1-3) c by (auto simp: drop_destination_def)
  next
    case MACH_MSG_TYPE_PORT_RECEIVE
    then show ?thesis using copyout_receive_books [of K p e s n] assms pos c by auto
  qed
  then show ?thesis
    using copyout_domicile [OF assms(2), of s n overflow K K'] unfolding c prod.case
    by (cases "kr = KERN_SUCCESS") (simp_all only: whereabouts_def c simp_thms if_True if_False, blast)
qed

text \<open>A receive right in limbo that joins the send right of a space.\<close>

theorem copyout_accounts_witness:
  "let e = \<lparr>ie_bits = 0x00010003, ie_object = IO_PORT 2, ie_request = 0\<rparr>;
       K = upd_port 2 (\<lambda>p. p\<lparr>ip_references := 2, ip_srights := 1, ip_data := Ip_Destination None\<rparr>) (set_entry 3 5 e kernel0)
   in case ipc_right_copyout 3 5 e MACH_MSG_TYPE_PORT_RECEIVE True 2 K of (kr, K') \<Rightarrow>
        kr = KERN_SUCCESS \<and> handed K' K (Some 2) MACH_MSG_TYPE_PORT_RECEIVE \<and>
        ip_data (k_ports K' 2) = Ip_Receiver 3 \<and> ip_receiver_name (k_ports K' 2) = 5 \<and> k_hash K' 3 2 = None"
proof -
  define e where "e = \<lparr>ie_bits = 0x00010003, ie_object = IO_PORT 2, ie_request = 0\<rparr>"
  define K where "K = upd_port 2 (\<lambda>p. p\<lparr>ip_references := 2, ip_srights := 1, ip_data := Ip_Destination None\<rparr>)
    (set_entry 3 5 e kernel0)"
  have e: "copyout_entry 2 MACH_MSG_TYPE_PORT_RECEIVE e" "entries K 3 5 = Some e" "test (ie_bits e) MACH_PORT_TYPE_SEND"
    by (simp_all add: copyout_entry_def entry_ok_def entry_port_def bits_defs e_def K_def test_def type_defs)
  have books: "books_ok K" and spare: "1 \<le> spare_refs K 2"
    by (simp_all add: books_ok_def finite_names_def spare_refs_def holders_one K_def refers_def e_def)
  have dest: "ip_destination (k_ports K 2) = None" by (simp add: ip_destination_def K_def)
  obtain kr K' where c: "ipc_right_copyout 3 5 e MACH_MSG_TYPE_PORT_RECEIVE True 2 K = (kr, K')" by fastforce
  then have "kr = KERN_SUCCESS" by (auto simp: Let_def split: if_splits option.splits)
  with copyout_accounts [OF books e(1,2) spare, of True] dest c e(3)
  show ?thesis unfolding Let_def e_def [symmetric] K_def [symmetric] by (simp add: drop_destination_def del: ipc_right_copyout.simps split: if_splits)
qed

end
