(* ===== verification/Ipc_Marequest.thy ===== *)
theory Ipc_Marequest
  imports Right_Account
begin

text \<open>
  Msg-accepted requests, \<^verbatim>\<open>ipc_marequest.c\<close>: a sender that forces a message into a full queue
  registers a request, which marks the entry of the port and is found through a hash table by
  space and name; it goes away with the message. Cancelling and renaming requests, which the
  right layer does, are in \<open>Ipc_Port\<close>, the sizing of the table is in \<open>Hash_Init\<close>.
\<close>

datatype marequest_error =
    MACH_SEND_NO_NOTIFY
  | MACH_SEND_INVALID_NOTIFY
  | MACH_SEND_NOTIFY_IN_PROGRESS

text \<open>
  The send-once right for the notification: none for an old-style request (\<^verbatim>\<open>MACH_PORT_NULL\<close>),
  otherwise made from the receive right the name denotes. \<open>Inl\<close>: the name is bad.
\<close>

definition notify_soright ::
  "space_id \<Rightarrow> mach_port_t \<Rightarrow> ipc_kernel \<Rightarrow> marequest_error + port_id option \<times> ipc_kernel" where
  "notify_soright space notify K =
     (if notify = MACH_PORT_NULL then Inr (None, K)
      else case ipc_port_lookup_notify space notify K of
        (None, _) \<Rightarrow> Inl MACH_SEND_INVALID_NOTIFY
      | (Some soright, K) \<Rightarrow> Inr (Some soright, K))"

definition ipc_marequest_create ::
  "imar_id option \<Rightarrow> space_id \<Rightarrow> port_id \<Rightarrow> mach_port_t \<Rightarrow> ipc_kernel \<Rightarrow>
     (marequest_error + imar_id) \<times> ipc_kernel" where
  "ipc_marequest_create imar_alloc space port notify K =
     (case imar_alloc of
        None \<Rightarrow> (Inl MACH_SEND_NO_NOTIFY, K)
      | Some marequest \<Rightarrow>
          if \<not> is_active (k_spaces K space) then (Inl MACH_SEND_INVALID_NOTIFY, K)
          else case ipc_right_reverse space port K of
            Some (name, entry) \<Rightarrow>
              if test (ie_bits entry) IE_BITS_MAREQUEST then (Inl MACH_SEND_NOTIFY_IN_PROGRESS, K)
              else
                (case notify_soright space notify K of
                   Inl mr \<Rightarrow> (Inl mr, K)
                 | Inr (soright, K) \<Rightarrow>
                     (let K = set_entry space name (entry\<lparr>ie_bits := ie_bits entry OR IE_BITS_MAREQUEST\<rparr>) K;
                          K = is_reference space K;
                          K = upd_imar marequest
                                (\<lambda>_. \<lparr>imar_space = space, imar_name = name, imar_soright = soright\<rparr>) K
                      in (Inr marequest, imar_link space name marequest K)))
          | None \<Rightarrow>
              (case notify_soright space notify K of
                 Inl mr \<Rightarrow> (Inl mr, K)
               | Inr (soright, K) \<Rightarrow>
                   (Inr marequest,
                    upd_imar marequest
                      (\<lambda>_. \<lparr>imar_space = space, imar_name = MACH_PORT_NULL, imar_soright = soright\<rparr>)
                      (is_reference space K))))"

text \<open>
  The part of \<^verbatim>\<open>ipc_marequest_destroy\<close> under \<^verbatim>\<open>name != MACH_PORT_NULL\<close>: the name that is left, the
  naked send right to the notification port, and the state.
\<close>

definition marequest_unregister ::
  "imar_id \<Rightarrow> ipc_kernel \<Rightarrow> (mach_port_t \<times> ipc_object \<times> ipc_kernel) option" where
  "marequest_unregister marequest K =
     (let space = imar_space (k_imar K marequest);
          name = imar_name (k_imar K marequest);
          soright = imar_soright (k_imar K marequest)
      in if name = MACH_PORT_NULL then Some (name, IO_NULL, K)
         else do {
           this \<leftarrow> imar_find space name K;
           let K = imar_unlink space name this K;
           if is_active (k_spaces K space) then do {
             entry \<leftarrow> entries K space name;
             let K = set_entry space name (entry\<lparr>ie_bits := ie_bits entry AND NOT IE_BITS_MAREQUEST\<rparr>) K;
             let (sright, K) = (if soright = None then ipc_space_make_notify space K else (IO_NULL, K));
             Some (name, sright, K)
           }
           else Some (MACH_PORT_NULL, IO_NULL, K)
         })"

text \<open>\<open>None\<close> is a null pointer, or the panic for a request that carries a send-once right.\<close>

definition ipc_marequest_destroy :: "imar_id \<Rightarrow> ipc_kernel \<Rightarrow> ipc_kernel option" where
  "ipc_marequest_destroy marequest K =
     do {
       let space = imar_space (k_imar K marequest);
       let soright = imar_soright (k_imar K marequest);
       (name, sright, K) \<leftarrow> marequest_unregister marequest K;
       let K = is_release space K;
       if soright = None then
         Some (case sright of IO_PORT q \<Rightarrow> ipc_notify_msg_accepted_compat q name K | _ \<Rightarrow> K)
       else None
     }"

section \<open>A request and its end\<close>

lemma marequest_bit:
  "test (b OR IE_BITS_MAREQUEST) IE_BITS_MAREQUEST"
  "\<not> test b IE_BITS_MAREQUEST \<Longrightarrow> (b OR IE_BITS_MAREQUEST) AND NOT IE_BITS_MAREQUEST = b"
proof -
  show "test (b OR IE_BITS_MAREQUEST) IE_BITS_MAREQUEST"
    by (simp add: test_def bit.conj_disj_distrib2 IE_BITS_MAREQUEST_def)
  assume "\<not> test b IE_BITS_MAREQUEST"
  then have "IE_BITS_MAREQUEST AND b = 0" by (simp add: test_def and.commute)
  then show "(b OR IE_BITS_MAREQUEST) AND NOT IE_BITS_MAREQUEST = b"
    by (simp add: bit.conj_disj_distrib2 and.commute [of b] and_not_disjoint)
qed

lemma reverse_entry: "ipc_right_reverse s p K = Some (n, e) \<Longrightarrow> entries K s n = Some e"
  by (auto simp: ipc_right_reverse_def split: if_splits bind_splits)

lemma release_reference: "is_release s (is_reference s K) = K"
proof -
  have "is_references_update (\<lambda>n. n - 1) (is_references_update (\<lambda>n. n + 1) x) = x" for x :: ipc_space by (cases x) simp
  then have "(k_spaces K)(s := is_references_update (\<lambda>n. n - 1) (is_references_update (\<lambda>n. n + 1) (k_spaces K s))) = k_spaces K"
    by (simp only: fun_upd_triv)
  then show ?thesis unfolding is_release_def is_reference_def upd_space_def by (cases K) simp
qed

lemma notify_reference:
  "ipc_space_make_notify s (is_reference s K) =
     (fst (ipc_space_make_notify s K), is_reference s (snd (ipc_space_make_notify s K)))"
  by (simp add: ipc_space_make_notify_def ipc_port_copy_send_def is_reference_def upd_space_def upd_port_def
      ip_reference_def split: ipc_object.split)

text \<open>The state a request leaves behind: nothing but its own, freed record differs.\<close>

definition request_over :: "space_id \<Rightarrow> mach_port_t \<Rightarrow> imar_id \<Rightarrow> ipc_kernel \<Rightarrow> ipc_kernel" where
  "request_over s n m = upd_imar m (\<lambda>_. \<lparr>imar_space = s, imar_name = n, imar_soright = None\<rparr>)"

lemma set_entry_same: "entries K s n = Some e \<Longrightarrow> set_entry s n e K = K"
proof -
  assume "entries K s n = Some e"
  then have "(is_entries (k_spaces K s))(n \<mapsto> e) = is_entries (k_spaces K s)" by (auto simp: entries_def)
  then have "is_entries_update (\<lambda>m. m(n \<mapsto> e)) (k_spaces K s) = k_spaces K s" by (cases "k_spaces K s") simp
  then show ?thesis by (simp add: set_entry_def upd_space_def)
qed

lemma request_commute:
  "set_entry s n e (request_over s' n' m (is_reference s K)) = is_reference s (request_over s' n' m (set_entry s n e K))"
  by (cases "k_spaces K s") (simp add: request_over_def upd_imar_def is_reference_def upd_defs)

text \<open>
  C38: an old-style request for a port the space has a right to is registered
  exactly when none is in progress; destroying it finds it again, restores the entry, the hash
  chain and the references of the space, and sends the msg-accepted notification for the name if
  the space has a notification port.
\<close>

theorem marequest_roundtrip:
  assumes "is_active (k_spaces K s)" and "ipc_right_reverse s p K = Some (n, e)" and "n \<noteq> MACH_PORT_NULL"
  shows "if test (ie_bits e) IE_BITS_MAREQUEST
         then ipc_marequest_create (Some m) s p MACH_PORT_NULL K = (Inl MACH_SEND_NOTIFY_IN_PROGRESS, K)
         else \<exists>K1. ipc_marequest_create (Some m) s p MACH_PORT_NULL K = (Inr m, K1) \<and> imar_find s n K1 = Some m \<and>
                ipc_marequest_destroy m K1 =
                  Some (case ipc_space_make_notify s (request_over s n m K) of
                          (IO_PORT q, K) \<Rightarrow> ipc_notify_msg_accepted_compat q n K
                        | (_, K) \<Rightarrow> K)"
proof (cases "test (ie_bits e) IE_BITS_MAREQUEST")
  case True
  then show ?thesis using assms(1,2) by (simp add: ipc_marequest_create_def)
next
  case False
  define e1 where "e1 = e\<lparr>ie_bits := ie_bits e OR IE_BITS_MAREQUEST\<rparr>"
  define K0 where "K0 = request_over s n m (is_reference s (set_entry s n e1 K))"
  define K1 where "K1 = imar_link s n m K0"
  have c: "ipc_marequest_create (Some m) s p MACH_PORT_NULL K = (Inr m, K1)"
    using assms(1,2) False by (simp add: ipc_marequest_create_def notify_soright_def K1_def K0_def e1_def request_over_def)
  have f: "imar_find s n K1 = Some m" "imar_unlink s n m K1 = K0"
    by (simp_all add: K1_def K0_def imar_find_def imar_link_def imar_unlink_def request_over_def upd_imar_def Let_def)
  have m: "imar_space (k_imar K1 m) = s" "imar_name (k_imar K1 m) = n" "imar_soright (k_imar K1 m) = None"
    by (simp_all add: K1_def K0_def imar_link_def request_over_def upd_imar_def Let_def)
  have K0: "is_active (k_spaces K0 s)" "entries K0 s n = Some e1" "k_spaces K1 = k_spaces K0"
    using assms(1) by (simp_all add: K1_def K0_def request_over_def is_reference_def entries_def upd_defs)
  have e: "e1\<lparr>ie_bits := ie_bits e1 AND NOT IE_BITS_MAREQUEST\<rparr> = e" by (simp add: e1_def marequest_bit(2) [OF False])
  have "set_entry s n e (set_entry s n e1 K) = K"
    using reverse_entry [OF assms(2)] by (simp add: set_entry_set_entry set_entry_same)
  then have restored: "set_entry s n e K0 = is_reference s (request_over s n m K)"
    by (simp add: K0_def request_commute)
  obtain obj K2 where n: "ipc_space_make_notify s (request_over s n m K) = (obj, K2)" by fastforce
  have "marequest_unregister m K1 = Some (n, obj, is_reference s K2)"
    using assms(3) by (simp add: marequest_unregister_def m f K0 e restored notify_reference n Let_def)
  then have "ipc_marequest_destroy m K1 = Some (case obj of IO_PORT q \<Rightarrow> ipc_notify_msg_accepted_compat q n K2 | _ \<Rightarrow> K2)"
    by (simp add: ipc_marequest_destroy_def m release_reference)
  with False c f n show ?thesis by (auto split: ipc_object.split)
qed

theorem marequest_roundtrip_witness:
  "let e = \<lparr>ie_bits = 0x00010001, ie_object = IO_PORT 1, ie_request = 0\<rparr>;
       K = ipc_hash_insert 1 1 5 (set_entry 1 5 e kernel0)
   in \<exists>K1. ipc_marequest_create (Some 3) 1 1 MACH_PORT_NULL K = (Inr 3, K1) \<and>
           ipc_marequest_destroy 3 K1 = Some (request_over 1 5 3 K)"
proof -
  let ?e = "\<lparr>ie_bits = 0x00010001, ie_object = IO_PORT 1, ie_request = 0\<rparr>"
  let ?K = "ipc_hash_insert 1 1 5 (set_entry 1 5 ?e kernel0)"
  have sp: "k_spaces ?K 1 = space0\<lparr>is_entries := [5 \<mapsto> ?e]\<rparr>"
    by (simp add: upd_defs kernel0_def) (simp add: space0_def)
  have "is_active (k_spaces ?K 1)" unfolding sp by (simp add: space0_def)
  moreover have "ipc_right_reverse 1 1 ?K = Some (5, ?e)"
    by (simp add: ipc_right_reverse_def) (simp add: ipc_hash_insert_def state0_defs)
  moreover have "(5 :: mach_port_t) \<noteq> MACH_PORT_NULL" by (simp add: MACH_PORT_NULL_def)
  moreover have "ipc_space_make_notify 1 (request_over 1 5 3 ?K) = (IO_NULL, request_over 1 5 3 ?K)"
    by (simp add: ipc_space_make_notify_def request_over_def sp [simplified] ipc_port_copy_send_def) (simp add: space0_def)
  moreover have "\<not> test (ie_bits ?e) IE_BITS_MAREQUEST" by (simp add: test_def IE_BITS_MAREQUEST_def)
  ultimately show ?thesis using marequest_roundtrip [of ?K 1 1 5 ?e 3] unfolding Let_def by auto
qed

text \<open>
  A request with a notification port of its own cannot be destroyed: the code panics. No caller in
  this kernel makes such a request.
\<close>

lemma marequest_soright_panics:
  assumes "imar_soright (k_imar K m) = Some q"
  shows "ipc_marequest_destroy m K = None"
  using assms by (cases "marequest_unregister m K") (auto simp: ipc_marequest_destroy_def)

end
