(* ===== verification/Msg_Bits.thy ===== *)
theory Msg_Bits
  imports Ipc_State
begin

text \<open>
  The vocabulary of \<^verbatim>\<open>mach/message.h\<close>: return codes, the bits of a message header, the numbers of the
  types of port rights. Codes are 32-bit words, because the receive path combines them with \<^verbatim>\<open>|=\<close>;
  a code whose name is already that of a thread state has the suffix \<open>_code\<close>.
\<close>

section \<open>Return codes\<close>

type_synonym mach_msg_return_t = "32 word"

definition MACH_MSG_SUCCESS_code :: mach_msg_return_t where "MACH_MSG_SUCCESS_code = 0"
definition MACH_MSG_IPC_SPACE :: mach_msg_return_t where "MACH_MSG_IPC_SPACE = 0x00002000"
definition MACH_MSG_VM_SPACE :: mach_msg_return_t where "MACH_MSG_VM_SPACE = 0x00001000"
definition MACH_MSG_IPC_KERNEL :: mach_msg_return_t where "MACH_MSG_IPC_KERNEL = 0x00000800"
definition MACH_MSG_VM_KERNEL :: mach_msg_return_t where "MACH_MSG_VM_KERNEL = 0x00000400"
definition MACH_SEND_INVALID_DATA :: mach_msg_return_t where "MACH_SEND_INVALID_DATA = 0x10000002"
definition MACH_SEND_INVALID_DEST :: mach_msg_return_t where "MACH_SEND_INVALID_DEST = 0x10000003"
definition MACH_SEND_MSG_TOO_SMALL :: mach_msg_return_t where "MACH_SEND_MSG_TOO_SMALL = 0x10000008"
definition MACH_SEND_INVALID_REPLY :: mach_msg_return_t where "MACH_SEND_INVALID_REPLY = 0x10000009"
definition MACH_SEND_INVALID_RIGHT :: mach_msg_return_t where "MACH_SEND_INVALID_RIGHT = 0x1000000a"
definition MACH_SEND_INVALID_NOTIFY :: mach_msg_return_t where "MACH_SEND_INVALID_NOTIFY = 0x1000000b"
definition MACH_SEND_INVALID_MEMORY :: mach_msg_return_t where "MACH_SEND_INVALID_MEMORY = 0x1000000c"
definition MACH_SEND_NO_BUFFER :: mach_msg_return_t where "MACH_SEND_NO_BUFFER = 0x1000000d"
definition MACH_SEND_INVALID_TYPE :: mach_msg_return_t where "MACH_SEND_INVALID_TYPE = 0x1000000f"
definition MACH_SEND_INVALID_HEADER :: mach_msg_return_t where "MACH_SEND_INVALID_HEADER = 0x10000010"
definition MACH_SEND_INVALID_TRAILER :: mach_msg_return_t where "MACH_SEND_INVALID_TRAILER = 0x10000011"
definition MACH_RCV_INVALID_NOTIFY :: mach_msg_return_t where "MACH_RCV_INVALID_NOTIFY = 0x10004007"
definition MACH_RCV_INVALID_DATA :: mach_msg_return_t where "MACH_RCV_INVALID_DATA = 0x10004008"
definition MACH_RCV_HEADER_ERROR_code :: mach_msg_return_t where "MACH_RCV_HEADER_ERROR_code = 0x1000400b"
definition MACH_RCV_BODY_ERROR :: mach_msg_return_t where "MACH_RCV_BODY_ERROR = 0x1000400c"
definition MACH_RCV_INVALID_TYPE_code :: mach_msg_return_t where "MACH_RCV_INVALID_TYPE_code = 0x1000400d"
definition MACH_RCV_SCATTER_SMALL :: mach_msg_return_t where "MACH_RCV_SCATTER_SMALL = 0x1000400e"

lemmas code_defs =
  MACH_MSG_SUCCESS_code_def MACH_MSG_IPC_SPACE_def MACH_MSG_VM_SPACE_def MACH_MSG_IPC_KERNEL_def MACH_MSG_VM_KERNEL_def
  MACH_SEND_INVALID_DATA_def MACH_SEND_INVALID_DEST_def MACH_SEND_MSG_TOO_SMALL_def MACH_SEND_INVALID_REPLY_def
  MACH_SEND_INVALID_RIGHT_def MACH_SEND_INVALID_NOTIFY_def MACH_SEND_INVALID_MEMORY_def MACH_SEND_NO_BUFFER_def
  MACH_SEND_INVALID_TYPE_def MACH_SEND_INVALID_HEADER_def MACH_SEND_INVALID_TRAILER_def MACH_RCV_INVALID_NOTIFY_def
  MACH_RCV_INVALID_DATA_def MACH_RCV_HEADER_ERROR_code_def MACH_RCV_BODY_ERROR_def MACH_RCV_INVALID_TYPE_code_def
  MACH_RCV_SCATTER_SMALL_def

section \<open>Header bits\<close>

type_synonym mach_msg_bits_t = "32 word"
type_synonym mach_msg_type_name_t = "32 word"

definition MACH_MSGH_BITS_REMOTE_MASK :: mach_msg_bits_t where "MACH_MSGH_BITS_REMOTE_MASK = 0x000000ff"
definition MACH_MSGH_BITS_LOCAL_MASK :: mach_msg_bits_t where "MACH_MSGH_BITS_LOCAL_MASK = 0x0000ff00"
definition MACH_MSGH_BITS_COMPLEX :: mach_msg_bits_t where "MACH_MSGH_BITS_COMPLEX = 0x80000000"
definition MACH_MSGH_BITS_CIRCULAR :: mach_msg_bits_t where "MACH_MSGH_BITS_CIRCULAR = 0x40000000"
definition MACH_MSGH_BITS_OLD_FORMAT :: mach_msg_bits_t where "MACH_MSGH_BITS_OLD_FORMAT = 0x08000000"

definition MACH_MSGH_BITS_PORTS_MASK :: mach_msg_bits_t where
  "MACH_MSGH_BITS_PORTS_MASK = MACH_MSGH_BITS_REMOTE_MASK OR MACH_MSGH_BITS_LOCAL_MASK"

definition MACH_MSGH_BITS :: "mach_msg_type_name_t \<Rightarrow> mach_msg_type_name_t \<Rightarrow> mach_msg_bits_t" where
  "MACH_MSGH_BITS remote local = remote OR push_bit 8 local"

definition MACH_MSGH_BITS_REMOTE :: "mach_msg_bits_t \<Rightarrow> mach_msg_type_name_t" where
  "MACH_MSGH_BITS_REMOTE bits = bits AND MACH_MSGH_BITS_REMOTE_MASK"

definition MACH_MSGH_BITS_LOCAL :: "mach_msg_bits_t \<Rightarrow> mach_msg_type_name_t" where
  "MACH_MSGH_BITS_LOCAL bits = drop_bit 8 (bits AND MACH_MSGH_BITS_LOCAL_MASK)"

definition MACH_MSGH_BITS_PORTS :: "mach_msg_bits_t \<Rightarrow> mach_msg_bits_t" where
  "MACH_MSGH_BITS_PORTS bits = bits AND MACH_MSGH_BITS_PORTS_MASK"

definition MACH_MSGH_BITS_OTHER :: "mach_msg_bits_t \<Rightarrow> mach_msg_bits_t" where
  "MACH_MSGH_BITS_OTHER bits = bits AND NOT MACH_MSGH_BITS_PORTS_MASK"

lemmas msgh_defs =
  MACH_MSGH_BITS_REMOTE_MASK_def MACH_MSGH_BITS_LOCAL_MASK_def MACH_MSGH_BITS_COMPLEX_def MACH_MSGH_BITS_CIRCULAR_def
  MACH_MSGH_BITS_OLD_FORMAT_def MACH_MSGH_BITS_PORTS_MASK_def MACH_MSGH_BITS_def MACH_MSGH_BITS_REMOTE_def
  MACH_MSGH_BITS_LOCAL_def MACH_MSGH_BITS_PORTS_def MACH_MSGH_BITS_OTHER_def

text \<open>The two type fields determine the ports bits, and the other way round.\<close>

lemma bit_msgh:
  "bit (MACH_MSGH_BITS_PORTS b) i \<longleftrightarrow> i < 16 \<and> bit b i"
  "bit (MACH_MSGH_BITS_REMOTE b) i \<longleftrightarrow> i < 8 \<and> bit b i"
  "bit (MACH_MSGH_BITS_LOCAL b) i \<longleftrightarrow> i < 8 \<and> bit b (i + 8)"
proof -
  have m: "(0x000000ff :: 32 word) = mask 8" "(0x0000ff00 :: 32 word) = push_bit 8 (mask 8)" by (simp_all add: mask_eq_exp_minus_1)
  show "bit (MACH_MSGH_BITS_PORTS b) i \<longleftrightarrow> i < 16 \<and> bit b i" "bit (MACH_MSGH_BITS_REMOTE b) i \<longleftrightarrow> i < 8 \<and> bit b i"
    "bit (MACH_MSGH_BITS_LOCAL b) i \<longleftrightarrow> i < 8 \<and> bit b (i + 8)"
    unfolding msgh_defs m by (auto simp: bit_simps add.commute dest: bit_imp_le_length)
qed

lemma ports_bits:
  assumes "r < 0x100" "l < 0x100"
  shows "MACH_MSGH_BITS_PORTS b = MACH_MSGH_BITS r l \<longleftrightarrow> MACH_MSGH_BITS_REMOTE b = r \<and> MACH_MSGH_BITS_LOCAL b = l"
proof -
  have "take_bit 8 w = w" if "w < 0x100" for w :: "32 word"
    using that by (simp add: take_bit_eq_mod word_unat_eq_iff unat_mod_distrib word_less_nat_alt)
  then have "take_bit 8 r = r" "take_bit 8 l = l" using assms by blast+
  then have s: "bit r i \<longleftrightarrow> i < 8 \<and> bit r i" "bit l i \<longleftrightarrow> i < 8 \<and> bit l i" for i by (metis bit_take_bit_iff)+
  have B: "bit (MACH_MSGH_BITS r l) i \<longleftrightarrow> (if i < 8 then bit r i else bit l (i - 8))" for i
    using s(1) [of i] s(2) [of "i - 8"] by (auto simp: MACH_MSGH_BITS_def bit_simps)
  show ?thesis
  proof
    assume "MACH_MSGH_BITS_PORTS b = MACH_MSGH_BITS r l"
    then have P: "i < 16 \<and> bit b i \<longleftrightarrow> (if i < 8 then bit r i else bit l (i - 8))" for i using bit_msgh(1) [of b i] B by simp
    have "bit (MACH_MSGH_BITS_REMOTE b) i = bit r i" for i
      unfolding bit_msgh using P [of i] s(1) [of i] by (cases "i < 8") auto
    moreover have "bit (MACH_MSGH_BITS_LOCAL b) i = bit l i" for i
      unfolding bit_msgh using P [of "i + 8"] s(2) [of i] by (cases "i < 8") auto
    ultimately show "MACH_MSGH_BITS_REMOTE b = r \<and> MACH_MSGH_BITS_LOCAL b = l" by (simp add: bit_eq_iff)
  next
    assume *: "MACH_MSGH_BITS_REMOTE b = r \<and> MACH_MSGH_BITS_LOCAL b = l"
    show "MACH_MSGH_BITS_PORTS b = MACH_MSGH_BITS r l"
    proof (rule bit_word_eqI)
      fix i
      show "bit (MACH_MSGH_BITS_PORTS b) i = bit (MACH_MSGH_BITS r l) i"
        unfolding B bit_msgh(1) using bit_msgh(2) [of b i] bit_msgh(3) [of b "i - 8"] * by (auto simp: not_less)
    qed
  qed
qed

section \<open>Types of port rights\<close>

text \<open>The numbers 16 to 21 name the ways to copy a right in, 16 to 18 the rights a message carries.\<close>

definition copyin_type_of :: "mach_msg_type_name_t \<Rightarrow> copyin_type option" where
  "copyin_type_of t =
     (if t = 16 then Some MACH_MSG_TYPE_MOVE_RECEIVE
      else if t = 17 then Some MACH_MSG_TYPE_MOVE_SEND
      else if t = 18 then Some MACH_MSG_TYPE_MOVE_SEND_ONCE
      else if t = 19 then Some MACH_MSG_TYPE_COPY_SEND
      else if t = 20 then Some MACH_MSG_TYPE_MAKE_SEND
      else if t = 21 then Some MACH_MSG_TYPE_MAKE_SEND_ONCE
      else None)"

definition msg_right_of :: "mach_msg_type_name_t \<Rightarrow> msg_right option" where
  "msg_right_of t =
     (if t = 16 then Some MACH_MSG_TYPE_PORT_RECEIVE
      else if t = 17 then Some MACH_MSG_TYPE_PORT_SEND
      else if t = 18 then Some MACH_MSG_TYPE_PORT_SEND_ONCE
      else None)"

fun right_number :: "msg_right \<Rightarrow> mach_msg_type_name_t" where
  "right_number MACH_MSG_TYPE_PORT_RECEIVE = 16"
| "right_number MACH_MSG_TYPE_PORT_SEND = 17"
| "right_number MACH_MSG_TYPE_PORT_SEND_ONCE = 18"

definition MACH_MSG_TYPE_PORT_ANY :: "mach_msg_type_name_t \<Rightarrow> bool" where
  "MACH_MSG_TYPE_PORT_ANY t \<longleftrightarrow> 16 \<le> t \<and> t \<le> 21"

definition MACH_MSG_TYPE_PORT_ANY_SEND :: "mach_msg_type_name_t \<Rightarrow> bool" where
  "MACH_MSG_TYPE_PORT_ANY_SEND t \<longleftrightarrow> 17 \<le> t \<and> t \<le> 21"

lemma msg_right_number [simp]: "msg_right_of (right_number r) = Some r"
  by (cases r) (simp_all add: msg_right_of_def)

end
