(* ===== verification/Mach_Port.thy ===== *)
theory Mach_Port
  imports Ipc_Object Msg_Bits
begin

text \<open>
  The kernel calls on ports, \<^verbatim>\<open>mach_port.c\<close>, with the allocation of ports and port sets that they
  use (\<^verbatim>\<open>ipc_port.c\<close>, \<^verbatim>\<open>ipc_pset.c\<close>). Each call is one definition over the object and right layers.

  A space argument that is \<open>None\<close> is \<^verbatim>\<open>IS_NULL\<close>. The answers of the allocators are arguments, as in
  the object layer. \<open>None\<close> as a result stands for a panic, or for a loop that does not end. The calls
  that list the names of a space walk over its table and its tree and have a theory of their own.
\<close>

section \<open>New ports and port sets\<close>

text \<open>The object that \<^verbatim>\<open>ipc_object_alloc\<close> returns, cast to a port or to a port set, is set up.\<close>

definition init_port :: "space_id \<Rightarrow> mach_port_t \<Rightarrow> ipc_object \<Rightarrow> ipc_kernel \<Rightarrow> ipc_kernel" where
  "init_port space name object K =
     (case object of IO_PORT port \<Rightarrow> ipc_port_init port space name K | _ \<Rightarrow> K)"

definition init_pset :: "mach_port_t \<Rightarrow> ipc_object \<Rightarrow> ipc_kernel \<Rightarrow> ipc_kernel" where
  "init_pset name object K =
     (case object of
        IO_PSET pset \<Rightarrow>
          upd_pset pset (\<lambda>p. p\<lparr>ips_local_name := name, ips_messages := [], ips_receivers := []\<rparr>) K
      | _ \<Rightarrow> K)"

definition ipc_port_alloc ::
  "port_id option \<Rightarrow> kern_return_t + mach_port_t \<Rightarrow> space_id \<Rightarrow> ipc_kernel \<Rightarrow>
     (kern_return_t + mach_port_t \<times> ipc_object) \<times> ipc_kernel" where
  "ipc_port_alloc ip_alloc alloc space K =
     (case ipc_object_alloc (map_option IO_PORT ip_alloc) alloc space MACH_PORT_TYPE_RECEIVE 0 K of
        (Inl kr, K) \<Rightarrow> (Inl kr, K)
      | (Inr (name, port), K) \<Rightarrow> (Inr (name, port), init_port space name port K))"

definition ipc_port_alloc_name ::
  "port_id option \<Rightarrow> kern_return_t option \<Rightarrow> space_id \<Rightarrow> mach_port_t \<Rightarrow> ipc_kernel \<Rightarrow>
     ((kern_return_t + ipc_object) \<times> ipc_kernel) option" where
  "ipc_port_alloc_name ip_alloc fail space name K = do {
     (r, K) \<leftarrow> ipc_object_alloc_name (map_option IO_PORT ip_alloc) fail space MACH_PORT_TYPE_RECEIVE 0 name K;
     case r of
       Inl kr \<Rightarrow> Some (Inl kr, K)
     | Inr port \<Rightarrow> Some (Inr port, init_port space name port K)
   }"

text \<open>
  The new entry of a compatibility port has a request for its own space in slot 1 of a table of
  the first size; the free list has the slots from 2 on.
\<close>

definition ipc_port_alloc_compat ::
  "port_id option \<Rightarrow> kern_return_t + mach_port_t \<Rightarrow> space_id \<Rightarrow> ipc_kernel \<Rightarrow>
     (kern_return_t + mach_port_t \<times> port_id) \<times> ipc_kernel" where
  "ipc_port_alloc_compat ip_alloc alloc space K =
     (case ip_alloc of
        None \<Rightarrow> (Inl KERN_RESOURCE_SHORTAGE, K)
      | Some port \<Rightarrow>
          if k_nomem K then (Inl KERN_RESOURCE_SHORTAGE, K)
          else
            (case entry_alloc alloc space K of
               Inl kr \<Rightarrow> (Inl kr, K)
             | Inr (name, K) \<Rightarrow>
                 (let entry = new_entry\<lparr>ie_object := IO_PORT port, ie_request := 1,
                        ie_bits := ie_bits new_entry OR (IE_BITS_COMPAT OR MACH_PORT_TYPE_RECEIVE)\<rparr>;
                      K = set_entry space name entry K;
                      K = upd_port port (\<lambda>p. p\<lparr>ip_references := 1, ip_active := True, ip_kotype := 0\<rparr>) K;
                      K = ipc_port_init port space name K;
                      (slots, free) = link_free [2..<its_size (k_dn_sizes K) 0] 0;
                      request = \<lparr>ipr_name = name, ipr_notify = Ipr_Space space\<rparr>;
                      table = \<lparr>dn_next = free, dn_size = 0, dn_slots = free_slot 0 # request # slots\<rparr>
                  in (Inr (name, port),
                      is_reference space (upd_port port (ip_dnrequests_update (\<lambda>_. Some table)) K)))))"

definition ipc_port_copyout_send ::
  "kern_return_t + mach_port_t \<Rightarrow> ipc_object \<Rightarrow> space_id \<Rightarrow> ipc_kernel \<Rightarrow> mach_port_t \<times> ipc_kernel" where
  "ipc_port_copyout_send alloc sright space K =
     (case sright of
        IO_PORT port \<Rightarrow>
          (case ipc_object_copyout alloc space port MACH_MSG_TYPE_PORT_SEND True K of
             (Inr name, K) \<Rightarrow> (name, K)
           | (Inl kr, K) \<Rightarrow>
               (if kr = KERN_INVALID_CAPABILITY then MACH_PORT_DEAD else MACH_PORT_NULL,
                ipc_port_release_send port K))
      | IO_DEAD \<Rightarrow> (MACH_PORT_DEAD, K)
      | _ \<Rightarrow> (MACH_PORT_NULL, K))"

definition ipc_port_copyout_send_compat ::
  "(nat \<Rightarrow> kern_return_t + mach_port_t) \<Rightarrow> ipc_object \<Rightarrow> space_id \<Rightarrow> ipc_kernel \<Rightarrow>
     (mach_port_t \<times> ipc_kernel) option" where
  "ipc_port_copyout_send_compat alloc sright space K =
     (case sright of
        IO_PORT port \<Rightarrow> do {
          (r, K) \<leftarrow> ipc_object_copyout_compat alloc 0 space port MACH_MSG_TYPE_PORT_SEND K;
          case r of
            Inr name \<Rightarrow> Some (name, K)
          | Inl kr \<Rightarrow> Some (MACH_PORT_NULL, ipc_port_release_send port K)
        }
      | IO_DEAD \<Rightarrow> Some (MACH_PORT_DEAD, K)
      | _ \<Rightarrow> Some (MACH_PORT_NULL, K))"

definition ipc_pset_alloc ::
  "pset_id option \<Rightarrow> kern_return_t + mach_port_t \<Rightarrow> space_id \<Rightarrow> ipc_kernel \<Rightarrow>
     (kern_return_t + mach_port_t \<times> ipc_object) \<times> ipc_kernel" where
  "ipc_pset_alloc ips_alloc alloc space K =
     (case ipc_object_alloc (map_option IO_PSET ips_alloc) alloc space MACH_PORT_TYPE_PORT_SET 0 K of
        (Inl kr, K) \<Rightarrow> (Inl kr, K)
      | (Inr (name, pset), K) \<Rightarrow> (Inr (name, pset), init_pset name pset K))"

definition ipc_pset_alloc_name ::
  "pset_id option \<Rightarrow> kern_return_t option \<Rightarrow> space_id \<Rightarrow> mach_port_t \<Rightarrow> ipc_kernel \<Rightarrow>
     ((kern_return_t + ipc_object) \<times> ipc_kernel) option" where
  "ipc_pset_alloc_name ips_alloc fail space name K = do {
     (r, K) \<leftarrow> ipc_object_alloc_name (map_option IO_PSET ips_alloc) fail space MACH_PORT_TYPE_PORT_SET 0 name K;
     case r of
       Inl kr \<Rightarrow> Some (Inl kr, K)
     | Inr pset \<Rightarrow> Some (Inr pset, init_pset name pset K)
   }"

section \<open>Numbers of the interface\<close>

text \<open>
  Rights and message types come from the user as numbers. A number outside the range that a call
  checks has no value here.
\<close>

definition mach_port_right_of :: "natural_t \<Rightarrow> mach_port_right option" where
  "mach_port_right_of right =
     (if right = 0 then Some MACH_PORT_RIGHT_SEND
      else if right = 1 then Some MACH_PORT_RIGHT_RECEIVE
      else if right = 2 then Some MACH_PORT_RIGHT_SEND_ONCE
      else if right = 3 then Some MACH_PORT_RIGHT_PORT_SET
      else if right = 4 then Some MACH_PORT_RIGHT_DEAD_NAME
      else None)"

definition MACH_PORT_QLIMIT_MAX :: nat where "MACH_PORT_QLIMIT_MAX = 16"
definition PORT_BACKLOG_MAX :: nat where "PORT_BACKLOG_MAX = MACH_PORT_QLIMIT_MAX"

definition MACH_PORT_TYPE_ALL_RIGHTS :: natural_t where
  "MACH_PORT_TYPE_ALL_RIGHTS = MACH_PORT_TYPE_PORT_OR_DEAD OR MACH_PORT_TYPE_PORT_SET"

definition PORT_TYPE_SEND :: natural_t where "PORT_TYPE_SEND = 1"
definition PORT_TYPE_RECEIVE_OWN :: natural_t where "PORT_TYPE_RECEIVE_OWN = 7"
definition PORT_TYPE_SET :: natural_t where "PORT_TYPE_SET = 9"

section \<open>Names and rights\<close>

definition mach_port_type ::
  "space_id option \<Rightarrow> mach_port_t \<Rightarrow> ipc_kernel \<Rightarrow> ((kern_return_t + natural_t) \<times> ipc_kernel) option" where
  "mach_port_type space name K =
     (case space of
        None \<Rightarrow> Some (Inl KERN_INVALID_TASK, K)
      | Some s \<Rightarrow>
          (case ipc_right_lookup_write s name K of
             Inl kr \<Rightarrow> Some (Inl kr, K)
           | Inr entry \<Rightarrow> do {
               (r, K) \<leftarrow> ipc_right_info s name entry K;
               case r of
                 Inl kr \<Rightarrow> Some (Inl kr, K)
               | Inr (type, urefs) \<Rightarrow> Some (Inr type, K)
             }))"

definition mach_port_rename ::
  "kern_return_t option \<Rightarrow> space_id option \<Rightarrow> mach_port_t \<Rightarrow> mach_port_t \<Rightarrow> ipc_kernel \<Rightarrow>
     (kern_return_t \<times> ipc_kernel) option" where
  "mach_port_rename fail space oname nname K =
     (case space of
        None \<Rightarrow> Some (KERN_INVALID_TASK, K)
      | Some s \<Rightarrow>
          if \<not> MACH_PORT_VALID nname then Some (KERN_INVALID_VALUE, K)
          else ipc_object_rename fail s oname nname K)"

text \<open>\<open>objs\<close> are the unused port and the unused port set that the zones have left, if any.\<close>

definition mach_port_allocate_name ::
  "port_id option \<times> pset_id option \<Rightarrow> kern_return_t option \<Rightarrow> space_id option \<Rightarrow> natural_t \<Rightarrow> mach_port_t \<Rightarrow>
     ipc_kernel \<Rightarrow> (kern_return_t \<times> ipc_kernel) option" where
  "mach_port_allocate_name objs fail space right name K =
     (let code = (\<lambda>(r, K). (case r of Inl kr \<Rightarrow> kr | Inr _ \<Rightarrow> KERN_SUCCESS, K))
      in case space of
           None \<Rightarrow> Some (KERN_INVALID_TASK, K)
         | Some s \<Rightarrow>
             if \<not> MACH_PORT_VALID name then Some (KERN_INVALID_VALUE, K)
             else
               (case mach_port_right_of right of
                  Some MACH_PORT_RIGHT_RECEIVE \<Rightarrow> map_option code (ipc_port_alloc_name (fst objs) fail s name K)
                | Some MACH_PORT_RIGHT_PORT_SET \<Rightarrow> map_option code (ipc_pset_alloc_name (snd objs) fail s name K)
                | Some MACH_PORT_RIGHT_DEAD_NAME \<Rightarrow> ipc_object_alloc_dead_name fail s name K
                | _ \<Rightarrow> Some (KERN_INVALID_VALUE, K)))"

definition mach_port_allocate ::
  "port_id option \<times> pset_id option \<Rightarrow> kern_return_t + mach_port_t \<Rightarrow> space_id option \<Rightarrow> natural_t \<Rightarrow>
     ipc_kernel \<Rightarrow> (kern_return_t + mach_port_t) \<times> ipc_kernel" where
  "mach_port_allocate objs alloc space right K =
     (let named = (\<lambda>(r, K). (case r of Inl kr \<Rightarrow> Inl kr | Inr (name, object) \<Rightarrow> Inr name, K))
      in case space of
           None \<Rightarrow> (Inl KERN_INVALID_TASK, K)
         | Some s \<Rightarrow>
             (case mach_port_right_of right of
                Some MACH_PORT_RIGHT_RECEIVE \<Rightarrow> named (ipc_port_alloc (fst objs) alloc s K)
              | Some MACH_PORT_RIGHT_PORT_SET \<Rightarrow> named (ipc_pset_alloc (snd objs) alloc s K)
              | Some MACH_PORT_RIGHT_DEAD_NAME \<Rightarrow> ipc_object_alloc_dead alloc s K
              | _ \<Rightarrow> (Inl KERN_INVALID_VALUE, K)))"

definition mach_port_destroy ::
  "space_id option \<Rightarrow> mach_port_t \<Rightarrow> ipc_kernel \<Rightarrow> (kern_return_t \<times> ipc_kernel) option" where
  "mach_port_destroy space name K =
     (case space of
        None \<Rightarrow> Some (KERN_INVALID_TASK, K)
      | Some s \<Rightarrow>
          (case ipc_right_lookup_write s name K of
             Inl kr \<Rightarrow> Some (kr, K)
           | Inr entry \<Rightarrow> ipc_right_destroy s name entry K))"

definition mach_port_deallocate ::
  "space_id option \<Rightarrow> mach_port_t \<Rightarrow> ipc_kernel \<Rightarrow> (kern_return_t \<times> ipc_kernel) option" where
  "mach_port_deallocate space name K =
     (case space of
        None \<Rightarrow> Some (KERN_INVALID_TASK, K)
      | Some s \<Rightarrow>
          (case ipc_right_lookup_write s name K of
             Inl kr \<Rightarrow> Some (kr, K)
           | Inr entry \<Rightarrow> ipc_right_dealloc s name entry K))"

definition mach_port_get_refs ::
  "space_id option \<Rightarrow> mach_port_t \<Rightarrow> natural_t \<Rightarrow> ipc_kernel \<Rightarrow>
     ((kern_return_t + natural_t) \<times> ipc_kernel) option" where
  "mach_port_get_refs space name right K =
     (case space of
        None \<Rightarrow> Some (Inl KERN_INVALID_TASK, K)
      | Some s \<Rightarrow>
          (case mach_port_right_of right of
             None \<Rightarrow> Some (Inl KERN_INVALID_VALUE, K)
           | Some rt \<Rightarrow>
               (case ipc_right_lookup_write s name K of
                  Inl kr \<Rightarrow> Some (Inl kr, K)
                | Inr entry \<Rightarrow> do {
                    (r, K) \<leftarrow> ipc_right_info s name entry K;
                    case r of
                      Inl kr \<Rightarrow> Some (Inl kr, K)
                    | Inr (type, urefs) \<Rightarrow>
                        Some (Inr (if test type (MACH_PORT_TYPE rt)
                                   then (if rt = MACH_PORT_RIGHT_SEND \<or> rt = MACH_PORT_RIGHT_DEAD_NAME
                                         then urefs else 1)
                                   else 0), K)
                  })))"

definition mach_port_mod_refs ::
  "space_id option \<Rightarrow> mach_port_t \<Rightarrow> natural_t \<Rightarrow> natural_t \<Rightarrow> ipc_kernel \<Rightarrow>
     (kern_return_t \<times> ipc_kernel) option" where
  "mach_port_mod_refs space name right delta K =
     (case space of
        None \<Rightarrow> Some (KERN_INVALID_TASK, K)
      | Some s \<Rightarrow>
          (case mach_port_right_of right of
             None \<Rightarrow> Some (KERN_INVALID_VALUE, K)
           | Some rt \<Rightarrow>
               (case ipc_right_lookup_write s name K of
                  Inl kr \<Rightarrow> Some (kr, K)
                | Inr entry \<Rightarrow> ipc_right_delta s name entry rt delta K)))"

section \<open>Receive rights\<close>

text \<open>The macro of \<^verbatim>\<open>ipc_port.h\<close>; the object is cast to a port.\<close>

definition ipc_port_translate_receive ::
  "space_id \<Rightarrow> mach_port_t \<Rightarrow> ipc_kernel \<Rightarrow> (kern_return_t + port_id) option" where
  "ipc_port_translate_receive space name K =
     (case ipc_object_translate space name MACH_PORT_RIGHT_RECEIVE K of
        Inl kr \<Rightarrow> Some (Inl kr)
      | Inr (IO_PORT port) \<Rightarrow> Some (Inr port)
      | Inr _ \<Rightarrow> None)"

text \<open>The shape of the calls that change one field of a port named by its receive right.\<close>

definition on_receive ::
  "space_id option \<Rightarrow> mach_port_t \<Rightarrow> (port_id \<Rightarrow> ipc_kernel \<Rightarrow> ipc_kernel) \<Rightarrow> ipc_kernel \<Rightarrow>
     (kern_return_t \<times> ipc_kernel) option" where
  "on_receive space name f K =
     (case space of
        None \<Rightarrow> Some (KERN_INVALID_TASK, K)
      | Some s \<Rightarrow> do {
          r \<leftarrow> ipc_port_translate_receive s name K;
          case r of Inl kr \<Rightarrow> Some (kr, K) | Inr port \<Rightarrow> Some (KERN_SUCCESS, f port K)
        })"

definition mach_port_set_qlimit ::
  "space_id option \<Rightarrow> mach_port_t \<Rightarrow> nat \<Rightarrow> ipc_kernel \<Rightarrow> (kern_return_t \<times> ipc_kernel) option" where
  "mach_port_set_qlimit space name qlimit K =
     (if space \<noteq> None \<and> qlimit > MACH_PORT_QLIMIT_MAX then Some (KERN_INVALID_VALUE, K)
      else on_receive space name (\<lambda>port. ipc_port_set_qlimit port qlimit) K)"

definition mach_port_set_mscount ::
  "space_id option \<Rightarrow> mach_port_t \<Rightarrow> natural_t \<Rightarrow> ipc_kernel \<Rightarrow> (kern_return_t \<times> ipc_kernel) option" where
  "mach_port_set_mscount space name mscount =
     on_receive space name (\<lambda>port. upd_port port (ip_mscount_update (\<lambda>_. mscount)))"

definition mach_port_set_seqno ::
  "space_id option \<Rightarrow> mach_port_t \<Rightarrow> natural_t \<Rightarrow> ipc_kernel \<Rightarrow> (kern_return_t \<times> ipc_kernel) option" where
  "mach_port_set_seqno space name seqno = on_receive space name (\<lambda>port. ipc_port_set_seqno port seqno)"

definition mach_port_move_member ::
  "space_id option \<Rightarrow> mach_port_t \<Rightarrow> mach_port_t \<Rightarrow> ipc_kernel \<Rightarrow> (kern_return_t \<times> ipc_kernel) option" where
  "mach_port_move_member space member after K =
     (case space of
        None \<Rightarrow> Some (KERN_INVALID_TASK, K)
      | Some s \<Rightarrow>
          (case ipc_right_lookup_write s member K of
             Inl kr \<Rightarrow> Some (kr, K)
           | Inr entry \<Rightarrow>
               if \<not> test (ie_bits entry) MACH_PORT_TYPE_RECEIVE then Some (KERN_INVALID_RIGHT, K)
               else do {
                 port \<leftarrow> entry_port entry;
                 if after = MACH_PORT_NULL then Some (ipc_pset_move port None K)
                 else
                   (case entries K s after of
                      None \<Rightarrow> Some (KERN_INVALID_NAME, K)
                    | Some entry \<Rightarrow>
                        if \<not> test (ie_bits entry) MACH_PORT_TYPE_PORT_SET then Some (KERN_INVALID_RIGHT, K)
                        else do { nset \<leftarrow> entry_pset entry; Some (ipc_pset_move port (Some nset) K) })
               }))"

section \<open>Notification requests\<close>

definition NOTIFY_PORT_DESTROYED_ID :: int where "NOTIFY_PORT_DESTROYED_ID = 69"
definition NOTIFY_NO_SENDERS_ID :: int where "NOTIFY_NO_SENDERS_ID = 70"
definition NOTIFY_DEAD_NAME_ID :: int where "NOTIFY_DEAD_NAME_ID = 72"

fun notify_port :: "ipc_object \<Rightarrow> port_id option" where
  "notify_port (IO_PORT port) = Some port"
| "notify_port _ = None"

text \<open>A send right registered by the old interface cannot be returned and is released.\<close>

fun pd_previous :: "pdrequest \<Rightarrow> ipc_kernel \<Rightarrow> port_id option \<times> ipc_kernel" where
  "pd_previous PD_NULL K = (None, K)"
| "pd_previous (PD_SONCE p) K = (Some p, K)"
| "pd_previous (PD_SEND p) K = (None, ipc_port_release_send p K)"

definition mach_port_request_notification ::
  "space_id option \<Rightarrow> mach_port_t \<Rightarrow> int \<Rightarrow> natural_t \<Rightarrow> ipc_object \<Rightarrow> ipc_kernel \<Rightarrow>
     ((kern_return_t + port_id option) \<times> ipc_kernel) option" where
  "mach_port_request_notification space name msgid sync notify K =
     (case space of
        None \<Rightarrow> Some (Inl KERN_INVALID_TASK, K)
      | Some s \<Rightarrow>
          if notify = IO_DEAD then Some (Inl KERN_INVALID_CAPABILITY, K)
          else if msgid = NOTIFY_PORT_DESTROYED_ID then
            (if sync \<noteq> 0 then Some (Inl KERN_INVALID_VALUE, K)
             else do {
               r \<leftarrow> ipc_port_translate_receive s name K;
               case r of
                 Inl kr \<Rightarrow> Some (Inl kr, K)
               | Inr port \<Rightarrow>
                   (let request = (case notify_port notify of None \<Rightarrow> PD_NULL | Some p \<Rightarrow> PD_SONCE p);
                        (previous, K) = ipc_port_pdrequest port request K;
                        (previous, K) = pd_previous previous K
                    in Some (Inr previous, K))
             })
          else if msgid = NOTIFY_NO_SENDERS_ID then do {
            r \<leftarrow> ipc_port_translate_receive s name K;
            case r of
              Inl kr \<Rightarrow> Some (Inl kr, K)
            | Inr port \<Rightarrow>
                (let (previous, K) = ipc_port_nsrequest port sync (notify_port notify) K
                 in Some (Inr previous, K))
          }
          else if msgid = NOTIFY_DEAD_NAME_ID
          then ipc_right_dnrequest s name (sync \<noteq> 0) (notify_port notify) K
          else Some (Inl KERN_INVALID_VALUE, K))"

section \<open>Moving rights between spaces\<close>

definition mach_port_insert_right ::
  "kern_return_t option \<Rightarrow> space_id option \<Rightarrow> mach_port_t \<Rightarrow> ipc_object \<Rightarrow> natural_t \<Rightarrow> ipc_kernel \<Rightarrow>
     (kern_return_t \<times> ipc_kernel) option" where
  "mach_port_insert_right fail space name poly polyPoly K =
     (case space of
        None \<Rightarrow> Some (KERN_INVALID_TASK, K)
      | Some s \<Rightarrow>
          (case msg_right_of polyPoly of
             None \<Rightarrow> Some (KERN_INVALID_VALUE, K)
           | Some rt \<Rightarrow>
               if \<not> MACH_PORT_VALID name then Some (KERN_INVALID_VALUE, K)
               else
                 (case notify_port poly of
                    None \<Rightarrow> Some (KERN_INVALID_CAPABILITY, K)
                  | Some port \<Rightarrow> ipc_object_copyout_name fail s port rt False name K)))"

definition mach_port_extract_right ::
  "space_id option \<Rightarrow> mach_port_t \<Rightarrow> natural_t \<Rightarrow> ipc_kernel \<Rightarrow>
     ((kern_return_t + ipc_object \<times> msg_right) \<times> ipc_kernel) option" where
  "mach_port_extract_right space name msgt_name K =
     (case space of
        None \<Rightarrow> Some (Inl KERN_INVALID_TASK, K)
      | Some s \<Rightarrow>
          (case copyin_type_of msgt_name of
             None \<Rightarrow> Some (Inl KERN_INVALID_VALUE, K)
           | Some t \<Rightarrow> do {
               (r, K) \<leftarrow> ipc_object_copyin s name t K;
               case r of
                 Inl kr \<Rightarrow> Some (Inl kr, K)
               | Inr poly \<Rightarrow> Some (Inr (poly, ipc_object_copyin_type t), K)
             }))"

section \<open>Status of a receive right\<close>

record mach_port_status =
  mps_pset :: mach_port_t
  mps_seqno :: natural_t
  mps_mscount :: natural_t
  mps_qlimit :: nat
  mps_msgcount :: nat
  mps_sorights :: nat
  mps_srights :: bool
  mps_pdrequest :: bool
  mps_nsrequest :: bool

text \<open>The name of the set a port is in; a dead set is left on the way.\<close>

definition enabled_set :: "port_id \<Rightarrow> ipc_kernel \<Rightarrow> mach_port_t \<times> ipc_kernel" where
  "enabled_set port K =
     (case ip_pset (k_ports K port) of
        None \<Rightarrow> (MACH_PORT_NULL, K)
      | Some pset \<Rightarrow>
          if \<not> ips_active (k_psets K pset) then (MACH_PORT_NULL, ipc_pset_remove pset port K)
          else (ips_local_name (k_psets K pset), K))"

definition mach_port_get_receive_status ::
  "space_id option \<Rightarrow> mach_port_t \<Rightarrow> ipc_kernel \<Rightarrow>
     ((kern_return_t + mach_port_status) \<times> ipc_kernel) option" where
  "mach_port_get_receive_status space name K =
     (case space of
        None \<Rightarrow> Some (Inl KERN_INVALID_TASK, K)
      | Some s \<Rightarrow> do {
          r \<leftarrow> ipc_port_translate_receive s name K;
          case r of
            Inl kr \<Rightarrow> Some (Inl kr, K)
          | Inr port \<Rightarrow>
              (let (pset, K) = enabled_set port K;
                   p = k_ports K port
               in Some (Inr \<lparr>mps_pset = pset, mps_seqno = ip_seqno p, mps_mscount = ip_mscount p,
                             mps_qlimit = ip_qlimit p, mps_msgcount = ip_msgcount p,
                             mps_sorights = ip_sorights p, mps_srights = ip_srights p > 0,
                             mps_pdrequest = ip_pdrequest p \<noteq> PD_NULL,
                             mps_nsrequest = ip_nsrequest p \<noteq> None\<rparr>, K))
        })"

section \<open>The old interface\<close>

text \<open>
  The calls of the old interface look a name up, check it with \<^verbatim>\<open>ipc_right_info\<close> (so that
  compatibility rights to dead ports disappear), and go on with the type and the entry.
\<close>

definition compat_info ::
  "space_id \<Rightarrow> mach_port_t \<Rightarrow> ipc_kernel \<Rightarrow> ((natural_t \<times> ipc_entry) option \<times> ipc_kernel) option" where
  "compat_info space name K =
     (case ipc_right_lookup_write space name K of
        Inl kr \<Rightarrow> Some (None, K)
      | Inr entry \<Rightarrow> do {
          (r, K) \<leftarrow> ipc_right_info space name entry K;
          case r of
            Inl kr \<Rightarrow> Some (None, K)
          | Inr (type, urefs) \<Rightarrow> do {
              entry \<leftarrow> entries K space name;
              Some (Some (type, entry), K)
            }
        })"

definition port_translate_compat ::
  "space_id \<Rightarrow> mach_port_t \<Rightarrow> ipc_kernel \<Rightarrow> ((kern_return_t + port_id) \<times> ipc_kernel) option" where
  "port_translate_compat space name K = do {
     (r, K) \<leftarrow> compat_info space name K;
     case r of
       None \<Rightarrow> Some (Inl KERN_INVALID_ARGUMENT, K)
     | Some (type, entry) \<Rightarrow>
         if \<not> test type MACH_PORT_TYPE_RECEIVE then
           Some (Inl (if test type MACH_PORT_TYPE_PORT_OR_DEAD then KERN_NOT_RECEIVER
                      else KERN_INVALID_ARGUMENT), K)
         else do { port \<leftarrow> entry_port entry; Some (Inr port, K) }
   }"

definition convert_port_type :: "natural_t \<Rightarrow> natural_t option" where
  "convert_port_type type =
     (let t = type AND MACH_PORT_TYPE_ALL_RIGHTS
      in if t = MACH_PORT_TYPE_SEND \<or> t = MACH_PORT_TYPE_SEND_ONCE \<or> t = MACH_PORT_TYPE_DEAD_NAME
         then Some PORT_TYPE_SEND
         else if t = MACH_PORT_TYPE_RECEIVE \<or> t = MACH_PORT_TYPE_SEND_RECEIVE
         then Some PORT_TYPE_RECEIVE_OWN
         else if t = MACH_PORT_TYPE_PORT_SET then Some PORT_TYPE_SET
         else None)"

definition port_type ::
  "space_id option \<Rightarrow> mach_port_t \<Rightarrow> ipc_kernel \<Rightarrow> ((kern_return_t + natural_t) \<times> ipc_kernel) option" where
  "port_type space name K = do {
     (r, K) \<leftarrow> mach_port_type space name K;
     case r of
       Inl kr \<Rightarrow> Some (Inl KERN_INVALID_ARGUMENT, K)
     | Inr type \<Rightarrow> do { t \<leftarrow> convert_port_type type; Some (Inr t, K) }
   }"

definition port_rename ::
  "kern_return_t option \<Rightarrow> space_id option \<Rightarrow> mach_port_t \<Rightarrow> mach_port_t \<Rightarrow> ipc_kernel \<Rightarrow>
     (kern_return_t \<times> ipc_kernel) option" where
  "port_rename fail space old_name new_name K = do {
     (kr, K) \<leftarrow> mach_port_rename fail space old_name new_name K;
     Some (if kr \<noteq> KERN_SUCCESS \<and> kr \<noteq> KERN_NAME_EXISTS then KERN_INVALID_ARGUMENT else kr, K)
   }"

text \<open>Error codes other than a lack of memory become \<^verbatim>\<open>KERN_INVALID_ARGUMENT\<close>.\<close>

definition compat_error :: "kern_return_t \<Rightarrow> kern_return_t" where
  "compat_error kr =
     (if kr = KERN_SUCCESS \<or> kr = KERN_RESOURCE_SHORTAGE then kr else KERN_INVALID_ARGUMENT)"

definition port_allocate ::
  "port_id option \<Rightarrow> kern_return_t + mach_port_t \<Rightarrow> space_id option \<Rightarrow> ipc_kernel \<Rightarrow>
     (kern_return_t + mach_port_t) \<times> ipc_kernel" where
  "port_allocate ip_alloc alloc space K =
     (case space of
        None \<Rightarrow> (Inl KERN_INVALID_ARGUMENT, K)
      | Some s \<Rightarrow>
          (case ipc_port_alloc_compat ip_alloc alloc s K of
             (Inl kr, K) \<Rightarrow> (Inl (compat_error kr), K)
           | (Inr (name, port), K) \<Rightarrow> (Inr name, K)))"

definition port_deallocate ::
  "space_id option \<Rightarrow> mach_port_t \<Rightarrow> ipc_kernel \<Rightarrow> (kern_return_t \<times> ipc_kernel) option" where
  "port_deallocate space name K =
     (case space of
        None \<Rightarrow> Some (KERN_INVALID_ARGUMENT, K)
      | Some s \<Rightarrow> do {
          (r, K) \<leftarrow> compat_info s name K;
          case r of
            None \<Rightarrow> Some (KERN_INVALID_ARGUMENT, K)
          | Some (type, entry) \<Rightarrow>
              if \<not> test type MACH_PORT_TYPE_PORT_OR_DEAD then Some (KERN_INVALID_ARGUMENT, K)
              else do {
                (kr, K) \<leftarrow> ipc_right_destroy s name entry K;
                Some (KERN_SUCCESS, K)
              }
        })"

definition port_set_backlog ::
  "space_id option \<Rightarrow> mach_port_t \<Rightarrow> int \<Rightarrow> ipc_kernel \<Rightarrow> (kern_return_t \<times> ipc_kernel) option" where
  "port_set_backlog space name backlog K =
     (case space of
        None \<Rightarrow> Some (KERN_INVALID_ARGUMENT, K)
      | Some s \<Rightarrow>
          if backlog \<le> 0 \<or> backlog > int PORT_BACKLOG_MAX then Some (KERN_INVALID_ARGUMENT, K)
          else do {
            (r, K) \<leftarrow> port_translate_compat s name K;
            case r of
              Inl kr \<Rightarrow> Some (kr, K)
            | Inr port \<Rightarrow> Some (KERN_SUCCESS, ipc_port_set_qlimit port (nat backlog) K)
          })"

text \<open>A send-once right registered by the new interface is used up by a notification.\<close>

fun backup_previous :: "pdrequest \<Rightarrow> ipc_kernel \<Rightarrow> port_id option \<times> ipc_kernel" where
  "backup_previous PD_NULL K = (None, K)"
| "backup_previous (PD_SEND p) K = (Some p, K)"
| "backup_previous (PD_SONCE p) K = (None, ipc_notify_send_once p K)"

definition port_set_backup ::
  "space_id option \<Rightarrow> mach_port_t \<Rightarrow> ipc_object \<Rightarrow> ipc_kernel \<Rightarrow>
     ((kern_return_t + port_id option) \<times> ipc_kernel) option" where
  "port_set_backup space name backup K =
     (case space of
        None \<Rightarrow> Some (Inl KERN_INVALID_ARGUMENT, K)
      | Some s \<Rightarrow> do {
          let request = (case notify_port backup of None \<Rightarrow> PD_NULL | Some p \<Rightarrow> PD_SEND p);
          (r, K) \<leftarrow> port_translate_compat s name K;
          case r of
            Inl kr \<Rightarrow> Some (Inl kr, K)
          | Inr port \<Rightarrow>
              (let (previous, K) = ipc_port_pdrequest port request K;
                   (previous, K) = backup_previous previous K
               in Some (Inr previous, K))
        })"

record port_status_info =
  ps_enabled :: mach_port_t
  ps_num_msgs :: int
  ps_backlog :: int
  ps_ownership :: bool
  ps_receive_rights :: bool

definition port_status ::
  "space_id option \<Rightarrow> mach_port_t \<Rightarrow> ipc_kernel \<Rightarrow>
     ((kern_return_t + port_status_info) \<times> ipc_kernel) option" where
  "port_status space name K =
     (case space of
        None \<Rightarrow> Some (Inl KERN_INVALID_ARGUMENT, K)
      | Some s \<Rightarrow> do {
          (r, K) \<leftarrow> compat_info s name K;
          case r of
            None \<Rightarrow> Some (Inl KERN_INVALID_ARGUMENT, K)
          | Some (type, entry) \<Rightarrow>
              if \<not> test type MACH_PORT_TYPE_PORT_OR_DEAD then Some (Inl KERN_INVALID_ARGUMENT, K)
              else if test type MACH_PORT_TYPE_RECEIVE then do {
                port \<leftarrow> entry_port entry;
                let (enabled, K) = enabled_set port K;
                Some (Inr \<lparr>ps_enabled = enabled, ps_num_msgs = int (ip_msgcount (k_ports K port)),
                           ps_backlog = int (ip_qlimit (k_ports K port)), ps_ownership = True,
                           ps_receive_rights = True\<rparr>, K)
              }
              else Some (Inr \<lparr>ps_enabled = MACH_PORT_NULL, ps_num_msgs = -1, ps_backlog = 0,
                              ps_ownership = False, ps_receive_rights = False\<rparr>, K)
        })"

definition port_set_allocate ::
  "pset_id option \<Rightarrow> kern_return_t + mach_port_t \<Rightarrow> space_id option \<Rightarrow> ipc_kernel \<Rightarrow>
     (kern_return_t + mach_port_t) \<times> ipc_kernel" where
  "port_set_allocate ips_alloc alloc space K =
     (case space of
        None \<Rightarrow> (Inl KERN_INVALID_ARGUMENT, K)
      | Some s \<Rightarrow>
          (case ipc_pset_alloc ips_alloc alloc s K of
             (Inl kr, K) \<Rightarrow> (Inl (compat_error kr), K)
           | (Inr (name, pset), K) \<Rightarrow> (Inr name, K)))"

definition port_set_deallocate ::
  "space_id option \<Rightarrow> mach_port_t \<Rightarrow> ipc_kernel \<Rightarrow> (kern_return_t \<times> ipc_kernel) option" where
  "port_set_deallocate space name K =
     (case space of
        None \<Rightarrow> Some (KERN_INVALID_ARGUMENT, K)
      | Some s \<Rightarrow>
          (case ipc_right_lookup_write s name K of
             Inl kr \<Rightarrow> Some (kr, K)
           | Inr entry \<Rightarrow>
               if \<not> test (ie_bits entry) MACH_PORT_TYPE_PORT_SET then Some (KERN_INVALID_ARGUMENT, K)
               else ipc_right_destroy s name entry K))"

definition port_set_add ::
  "space_id option \<Rightarrow> mach_port_t \<Rightarrow> mach_port_t \<Rightarrow> ipc_kernel \<Rightarrow> (kern_return_t \<times> ipc_kernel) option" where
  "port_set_add space set_name port_name K =
     (case space of
        None \<Rightarrow> Some (KERN_INVALID_ARGUMENT, K)
      | Some s \<Rightarrow> do {
          (r, K) \<leftarrow> port_translate_compat s port_name K;
          case r of
            Inl kr \<Rightarrow> Some (kr, K)
          | Inr port \<Rightarrow>
              (case entries K s set_name of
                 None \<Rightarrow> Some (KERN_INVALID_ARGUMENT, K)
               | Some entry \<Rightarrow>
                   if \<not> test (ie_bits entry) MACH_PORT_TYPE_PORT_SET then Some (KERN_INVALID_ARGUMENT, K)
                   else do { pset \<leftarrow> entry_pset entry; Some (ipc_pset_move port (Some pset) K) })
        })"

definition port_set_remove ::
  "space_id option \<Rightarrow> mach_port_t \<Rightarrow> ipc_kernel \<Rightarrow> (kern_return_t \<times> ipc_kernel) option" where
  "port_set_remove space name K =
     (case space of
        None \<Rightarrow> Some (KERN_INVALID_ARGUMENT, K)
      | Some s \<Rightarrow> do {
          (r, K) \<leftarrow> port_translate_compat s name K;
          case r of
            Inl kr \<Rightarrow> Some (kr, K)
          | Inr port \<Rightarrow> Some (ipc_pset_move port None K)
        })"

definition insert_error :: "kern_return_t \<Rightarrow> kern_return_t" where
  "insert_error kr =
     (case kr of
        KERN_SUCCESS \<Rightarrow> kr
      | KERN_NAME_EXISTS \<Rightarrow> kr
      | KERN_RESOURCE_SHORTAGE \<Rightarrow> kr
      | KERN_RIGHT_EXISTS \<Rightarrow> KERN_FAILURE
      | _ \<Rightarrow> KERN_INVALID_ARGUMENT)"

text \<open>\<^verbatim>\<open>port_insert_send\<close> and \<^verbatim>\<open>port_insert_receive\<close> differ in the right they insert.\<close>

definition port_insert ::
  "msg_right \<Rightarrow> (nat \<Rightarrow> kern_return_t option) \<Rightarrow> space_id option \<Rightarrow> ipc_object \<Rightarrow> mach_port_t \<Rightarrow> ipc_kernel \<Rightarrow>
     (kern_return_t \<times> ipc_kernel) option" where
  "port_insert rt fail space port name K =
     (case (space, notify_port port) of
        (Some s, Some p) \<Rightarrow>
          if \<not> MACH_PORT_VALID name then Some (KERN_INVALID_ARGUMENT, K)
          else do {
            (kr, K) \<leftarrow> ipc_object_copyout_name_compat fail 0 s p rt name K;
            Some (insert_error kr, K)
          }
      | _ \<Rightarrow> Some (KERN_INVALID_ARGUMENT, K))"

definition port_insert_send ::
  "(nat \<Rightarrow> kern_return_t option) \<Rightarrow> space_id option \<Rightarrow> ipc_object \<Rightarrow> mach_port_t \<Rightarrow> ipc_kernel \<Rightarrow>
     (kern_return_t \<times> ipc_kernel) option" where
  "port_insert_send = port_insert MACH_MSG_TYPE_PORT_SEND"

definition port_insert_receive ::
  "(nat \<Rightarrow> kern_return_t option) \<Rightarrow> space_id option \<Rightarrow> ipc_object \<Rightarrow> mach_port_t \<Rightarrow> ipc_kernel \<Rightarrow>
     (kern_return_t \<times> ipc_kernel) option" where
  "port_insert_receive = port_insert MACH_MSG_TYPE_PORT_RECEIVE"

definition port_extract ::
  "compat_type \<Rightarrow> space_id option \<Rightarrow> mach_port_t \<Rightarrow> ipc_kernel \<Rightarrow>
     ((kern_return_t + ipc_object) \<times> ipc_kernel) option" where
  "port_extract type space name K =
     (case space of
        None \<Rightarrow> Some (Inl KERN_INVALID_ARGUMENT, K)
      | Some s \<Rightarrow> do {
          (r, K) \<leftarrow> ipc_object_copyin_compat s name type True K;
          case r of
            Inl kr \<Rightarrow> Some (Inl KERN_INVALID_ARGUMENT, K)
          | Inr port \<Rightarrow> Some (Inr port, K)
        })"

definition port_extract_send ::
  "space_id option \<Rightarrow> mach_port_t \<Rightarrow> ipc_kernel \<Rightarrow> ((kern_return_t + ipc_object) \<times> ipc_kernel) option" where
  "port_extract_send = port_extract MSG_TYPE_PORT"

definition port_extract_receive ::
  "space_id option \<Rightarrow> mach_port_t \<Rightarrow> ipc_kernel \<Rightarrow> ((kern_return_t + ipc_object) \<times> ipc_kernel) option" where
  "port_extract_receive = port_extract MSG_TYPE_PORT_ALL"

end
