(* ===== verification/Splay.thy ===== *)
theory Splay
  imports Prelude
begin

text \<open>
  The splay trees of \<^verbatim>\<open>kernel-7/ipc/ipc_splay.c\<close>, which hold the IPC entries whose names
  do not fit the table of a space.

  The C structure keeps the tree unassembled: \<^verbatim>\<open>ist_root\<close> is the middle tree of the last
  top-down splay, \<^verbatim>\<open>ist_ltree\<close> and \<^verbatim>\<open>ist_rtree\<close> are the left and right trees, and
  \<^verbatim>\<open>ist_ltreep\<close>, \<^verbatim>\<open>ist_rtreep\<close> point at the uninitialised child field at the end of their
  inner spine. Here a left tree with such a hole is the list of the nodes on its right
  spine, outermost first, each with its left child (\<open>lspine\<close>); the empty list is
  \<^verbatim>\<open>ist_ltreep == &ist_ltree\<close>. Storing through \<^verbatim>\<open>*ist_ltreep\<close> is \<open>plug_left\<close>. Right trees
  are mirrored. The locks \<^verbatim>\<open>ist_lock\<close>/\<^verbatim>\<open>ist_unlock\<close> are empty macros in this kernel.

  The payload of a node, \<^verbatim>\<open>ite_entry\<close> and \<^verbatim>\<open>ite_space\<close>, is the type parameter.
\<close>

section \<open>Data\<close>

datatype 'e itree =
    ITE_NULL
  | ITE (ite_lchild: "'e itree") (ite_name: mach_port_t) (ite_entry: 'e) (ite_rchild: "'e itree")

type_synonym 'e lspine = "('e itree \<times> mach_port_t \<times> 'e) list"
type_synonym 'e rspine = "(mach_port_t \<times> 'e \<times> 'e itree) list"

record 'e ipc_splay_tree =
  ist_name :: mach_port_t
  ist_root :: "'e itree"
  ist_ltree :: "'e lspine"
  ist_rtree :: "'e rspine"

fun plug_left :: "'e lspine \<Rightarrow> 'e itree \<Rightarrow> 'e itree" where
  "plug_left [] t = t"
| "plug_left ((l, n, e) # fs) t = ITE l n e (plug_left fs t)"

fun plug_right :: "'e rspine \<Rightarrow> 'e itree \<Rightarrow> 'e itree" where
  "plug_right [] t = t"
| "plug_right ((n, e, r) # fs) t = ITE (plug_right fs t) n e r"

definition MACH_PORT_SMALLEST :: mach_port_t where
  "MACH_PORT_SMALLEST = 0"

definition MACH_PORT_LARGEST :: mach_port_t where
  "MACH_PORT_LARGEST = NOT 0"

section \<open>Top-down splaying\<close>

text \<open>
  The state of the loop of \<^verbatim>\<open>ipc_splay_prim_lookup\<close>: the current \<^verbatim>\<open>tree\<close> and the two trees
  under construction. The four macros work on it; on a null tree, where the C code would
  fault, they leave the state alone (the loop never reaches that case).
\<close>

type_synonym 'e prim_state = "'e itree \<times> 'e lspine \<times> 'e rspine"

fun link_left :: "'e prim_state \<Rightarrow> 'e prim_state" where
  "link_left (ITE l n e r, ls, rs) = (r, ls @ [(l, n, e)], rs)"
| "link_left (ITE_NULL, ls, rs) = (ITE_NULL, ls, rs)"

fun link_right :: "'e prim_state \<Rightarrow> 'e prim_state" where
  "link_right (ITE l n e r, ls, rs) = (l, ls, rs @ [(n, e, r)])"
| "link_right (ITE_NULL, ls, rs) = (ITE_NULL, ls, rs)"

fun rotate_left :: "'e prim_state \<Rightarrow> 'e prim_state" where
  "rotate_left (ITE l n e (ITE rl rn re rr), ls, rs) = (ITE (ITE l n e rl) rn re rr, ls, rs)"
| "rotate_left s = s"

fun rotate_right :: "'e prim_state \<Rightarrow> 'e prim_state" where
  "rotate_right (ITE (ITE ll ln le lr) n e r, ls, rs) = (ITE ll ln le (ITE lr n e r), ls, rs)"
| "rotate_right s = s"

text \<open>
  One iteration of the \<^verbatim>\<open>while\<close> loop: \<open>None\<close> when the loop ends, by its condition or by a
  \<^verbatim>\<open>break\<close>. The local variables \<^verbatim>\<open>lchild\<close>, \<^verbatim>\<open>rchild\<close> and \<^verbatim>\<open>tname\<close> are read before the
  rotation and so are the components of the old tree.
\<close>

fun prim_body :: "mach_port_t \<Rightarrow> 'e prim_state \<Rightarrow> 'e prim_state option" where
  "prim_body name (ITE_NULL, ls, rs) = None"
| "prim_body name (ITE l n e r, ls, rs) =
     (if name = n then None
      else if name < n then
        (case l of
           ITE_NULL \<Rightarrow> None
         | ITE ll tname le lr \<Rightarrow>
             (let s = (ITE l n e r, ls, rs);
                  s = (if name < tname \<and> ll \<noteq> ITE_NULL then rotate_right s else s);
                  s = link_right s;
                  s = (if name > tname \<and> lr \<noteq> ITE_NULL then link_left s else s)
              in Some s))
      else
        (case r of
           ITE_NULL \<Rightarrow> None
         | ITE rl tname re rr \<Rightarrow>
             (let s = (ITE l n e r, ls, rs);
                  s = (if name > tname \<and> rr \<noteq> ITE_NULL then rotate_left s else s);
                  s = link_left s;
                  s = (if name < tname \<and> rl \<noteq> ITE_NULL then link_right s else s)
              in Some s)))"

lemma prim_body_size:
  "prim_body name s = Some s' \<Longrightarrow> size (fst s') < size (fst s)"
  by (induction name s rule: prim_body.induct)
     (auto simp: Let_def split: if_splits itree.splits)

function prim_loop :: "mach_port_t \<Rightarrow> 'e prim_state \<Rightarrow> 'e prim_state" where
  "prim_loop name s = (case prim_body name s of None \<Rightarrow> s | Some s' \<Rightarrow> prim_loop name s')"
  by pat_completeness auto
termination
  by (relation "measure (\<lambda>(name, s). size (fst s))") (auto dest: prim_body_size)

declare prim_loop.simps [simp del]

definition ipc_splay_prim_lookup :: "mach_port_t \<Rightarrow> 'e itree \<Rightarrow> 'e prim_state" where
  "ipc_splay_prim_lookup name tree = prim_loop name (tree, [], [])"

fun ipc_splay_prim_assemble :: "'e itree \<Rightarrow> 'e lspine \<Rightarrow> 'e rspine \<Rightarrow> 'e itree" where
  "ipc_splay_prim_assemble ITE_NULL ls rs = ITE_NULL"
| "ipc_splay_prim_assemble (ITE l n e r) ls rs = ITE (plug_left ls l) n e (plug_right rs r)"

section \<open>Operations on splay trees\<close>

definition ipc_splay_tree_init :: "'e ipc_splay_tree" where
  "ipc_splay_tree_init =
     \<lparr>ist_name = 0, ist_root = ITE_NULL, ist_ltree = [], ist_rtree = []\<rparr>"

definition ipc_splay_tree_pick :: "'e ipc_splay_tree \<Rightarrow> (mach_port_t \<times> 'e) option" where
  "ipc_splay_tree_pick splay =
     (case ist_root splay of ITE_NULL \<Rightarrow> None | ITE l n e r \<Rightarrow> Some (n, e))"

text \<open>
  The shared prefix of lookup, insert, delete, split, join and bounds: unless the last
  lookup was for the same name, reassemble the tree and splay for the new one. The result
  is the local \<^verbatim>\<open>root\<close> with the two subtrees of the structure.
\<close>

definition splay_to :: "mach_port_t \<Rightarrow> 'e ipc_splay_tree \<Rightarrow> 'e prim_state" where
  "splay_to name splay =
     (if ist_name splay \<noteq> name then
        ipc_splay_prim_lookup name
          (ipc_splay_prim_assemble (ist_root splay) (ist_ltree splay) (ist_rtree splay))
      else (ist_root splay, ist_ltree splay, ist_rtree splay))"

definition ipc_splay_tree_lookup ::
  "'e ipc_splay_tree \<Rightarrow> mach_port_t \<Rightarrow> 'e ipc_splay_tree \<times> 'e option" where
  "ipc_splay_tree_lookup splay name =
     (if ist_root splay = ITE_NULL then (splay, None)
      else
        (let (root, lt, rt) = splay_to name splay;
             splay = splay\<lparr>ist_name := name, ist_root := root,
                           ist_ltree := lt, ist_rtree := rt\<rparr>
         in (splay, if name \<noteq> ite_name root then None else Some (ite_entry root))))"

definition ipc_splay_tree_insert ::
  "'e ipc_splay_tree \<Rightarrow> mach_port_t \<Rightarrow> 'e \<Rightarrow> 'e ipc_splay_tree" where
  "ipc_splay_tree_insert splay name entry =
     (let new =
        (if ist_root splay = ITE_NULL then ITE ITE_NULL name entry ITE_NULL
         else
           (let (root, lt, rt) = splay_to name splay
            in if name < ite_name root
               then ITE (plug_left lt ITE_NULL) name entry (plug_right rt root)
               else ITE (plug_left lt root) name entry (plug_right rt ITE_NULL)))
      in \<lparr>ist_name = name, ist_root = new, ist_ltree = [], ist_rtree = []\<rparr>)"

fun set_rchild :: "'e itree \<Rightarrow> 'e itree \<Rightarrow> 'e itree" where
  "set_rchild (ITE l n e _) r = ITE l n e r"
| "set_rchild ITE_NULL r = ITE_NULL"

fun set_lchild :: "'e itree \<Rightarrow> 'e itree \<Rightarrow> 'e itree" where
  "set_lchild (ITE _ n e r) l = ITE l n e r"
| "set_lchild ITE_NULL l = ITE_NULL"

text \<open>
  Splay the largest node of a non-empty tree to its root and reassemble it; delete and
  the deleting traversal use it on a left subtree.
\<close>

definition splay_largest :: "'e itree \<Rightarrow> 'e itree" where
  "splay_largest tree =
     (let (root, lt, rt) = ipc_splay_prim_lookup MACH_PORT_LARGEST tree
      in ipc_splay_prim_assemble root lt rt)"

definition splay_of_root :: "'e itree \<Rightarrow> 'e ipc_splay_tree \<Rightarrow> 'e ipc_splay_tree" where
  "splay_of_root root splay =
     (if root = ITE_NULL then splay\<lparr>ist_root := ITE_NULL\<rparr>
      else splay\<lparr>ist_root := root, ist_name := ite_name root,
                 ist_ltree := [], ist_rtree := []\<rparr>)"

definition ipc_splay_tree_delete ::
  "'e ipc_splay_tree \<Rightarrow> mach_port_t \<Rightarrow> 'e ipc_splay_tree" where
  "ipc_splay_tree_delete splay name =
     (let (root, lt, rt) = splay_to name splay;
          ltree = plug_left lt (ite_lchild root);
          saved = plug_right rt (ite_rchild root);
          root = (if ltree = ITE_NULL then saved
                  else if saved \<noteq> ITE_NULL then set_rchild (splay_largest ltree) saved
                  else ltree)
      in splay_of_root root splay)"

definition ipc_splay_tree_split ::
  "'e ipc_splay_tree \<Rightarrow> mach_port_t \<Rightarrow> 'e ipc_splay_tree \<times> 'e ipc_splay_tree" where
  "ipc_splay_tree_split splay name =
     (let small = ipc_splay_tree_init
      in if ist_root splay = ITE_NULL then (splay, small)
         else
           (let (root, lt, rt) = splay_to name splay
            in if ite_name root < name then
                 (let ltree = plug_left lt (ite_lchild root);
                      rtree = plug_right rt ITE_NULL
                  in (splay_of_root rtree splay, splay_of_root (set_lchild root ltree) small))
               else
                 (let ltree = plug_left lt (ite_lchild root)
                  in (splay\<lparr>ist_root := set_lchild root ITE_NULL, ist_name := name,
                            ist_ltree := [], ist_rtree := rt\<rparr>,
                      splay_of_root ltree small))))"

definition ipc_splay_tree_join ::
  "'e ipc_splay_tree \<Rightarrow> 'e ipc_splay_tree \<Rightarrow> 'e ipc_splay_tree \<times> 'e ipc_splay_tree" where
  "ipc_splay_tree_join splay small =
     (if ist_root small = ITE_NULL then (splay, small)
      else
        (let sroot = ipc_splay_prim_assemble (ist_root small) (ist_ltree small) (ist_rtree small);
             small = small\<lparr>ist_root := ITE_NULL\<rparr>;
             root =
               (if ist_root splay = ITE_NULL then sroot
                else
                  (let (root, lt, rt) = splay_to MACH_PORT_SMALLEST splay
                   in set_lchild (ipc_splay_prim_assemble root lt rt) sroot))
         in (splay_of_root root splay, small)))"

text \<open>
  \<^verbatim>\<open>ipc_splay_tree_bounds\<close> turns \<^verbatim>\<open>ist_ltreep\<close> back into the node that holds the field,
  which is the last node of the left spine.
\<close>

definition ipc_splay_tree_bounds ::
  "'e ipc_splay_tree \<Rightarrow> mach_port_t \<Rightarrow> 'e ipc_splay_tree \<times> mach_port_t \<times> mach_port_t" where
  "ipc_splay_tree_bounds splay name =
     (if ist_root splay = ITE_NULL then (splay, MACH_PORT_LARGEST, MACH_PORT_SMALLEST)
      else
        (let (root, lt, rt) = splay_to name splay;
             splay = splay\<lparr>ist_name := name, ist_root := root,
                           ist_ltree := lt, ist_rtree := rt\<rparr>;
             rname = ite_name root;
             lower = (if rname \<le> name then rname
                      else if lt = [] then MACH_PORT_LARGEST
                      else fst (snd (last lt)));
             upper = (if rname \<ge> name then rname
                      else if rt = [] then MACH_PORT_SMALLEST
                      else fst (last rt))
         in (splay, lower, upper)))"

section \<open>Contents, invariant\<close>

text \<open>The entries of a tree in symmetric order, and those of the two unassembled trees.\<close>

fun inorder :: "'e itree \<Rightarrow> (mach_port_t \<times> 'e) list" where
  "inorder ITE_NULL = []"
| "inorder (ITE l n e r) = inorder l @ (n, e) # inorder r"

fun lspine_list :: "'e lspine \<Rightarrow> (mach_port_t \<times> 'e) list" where
  "lspine_list [] = []"
| "lspine_list ((l, n, e) # fs) = inorder l @ (n, e) # lspine_list fs"

fun rspine_list :: "'e rspine \<Rightarrow> (mach_port_t \<times> 'e) list" where
  "rspine_list [] = []"
| "rspine_list ((n, e, r) # fs) = rspine_list fs @ (n, e) # inorder r"

fun prim_list :: "'e prim_state \<Rightarrow> (mach_port_t \<times> 'e) list" where
  "prim_list (t, ls, rs) = lspine_list ls @ inorder t @ rspine_list rs"

text \<open>\<open>contents\<close> is the abstraction function: the ordered association list a tree stands for.\<close>

definition contents :: "'e ipc_splay_tree \<Rightarrow> (mach_port_t \<times> 'e) list" where
  "contents splay =
     (if ist_root splay = ITE_NULL then []
      else prim_list (ist_root splay, ist_ltree splay, ist_rtree splay))"

text \<open>
  What the loop of \<^verbatim>\<open>ipc_splay_prim_lookup\<close> establishes for \<open>name\<close>: the left and right trees
  lie strictly below and above it, and the root either has that name or the search ended
  at a missing child of it.
\<close>

fun outside :: "mach_port_t \<Rightarrow> 'e prim_state \<Rightarrow> bool" where
  "outside name (t, ls, rs) \<longleftrightarrow>
     all_below (lspine_list ls) name \<and> all_above (rspine_list rs) name"

fun search_end :: "mach_port_t \<Rightarrow> 'e itree \<Rightarrow> bool" where
  "search_end name ITE_NULL \<longleftrightarrow> False"
| "search_end name (ITE l n e r) \<longleftrightarrow>
     name = n \<or> (name < n \<and> l = ITE_NULL) \<or> (n < name \<and> r = ITE_NULL)"

fun splayed :: "mach_port_t \<Rightarrow> 'e prim_state \<Rightarrow> bool" where
  "splayed name (t, ls, rs) \<longleftrightarrow>
     sorted_keys (prim_list (t, ls, rs)) \<and> outside name (t, ls, rs) \<and> search_end name t"

definition splay_inv :: "'e ipc_splay_tree \<Rightarrow> bool" where
  "splay_inv splay \<longleftrightarrow>
     ist_root splay = ITE_NULL \<or>
     splayed (ist_name splay) (ist_root splay, ist_ltree splay, ist_rtree splay)"

section \<open>Correctness of splaying\<close>

lemma lspine_list_append [simp]: "lspine_list (xs @ ys) = lspine_list xs @ lspine_list ys"
  by (induction xs rule: lspine_list.induct) auto

lemma rspine_list_append [simp]: "rspine_list (xs @ ys) = rspine_list ys @ rspine_list xs"
  by (induction xs rule: rspine_list.induct) auto

lemma inorder_plug_left [simp]: "inorder (plug_left ls t) = lspine_list ls @ inorder t"
  by (induction ls t rule: plug_left.induct) auto

lemma inorder_plug_right [simp]: "inorder (plug_right rs t) = inorder t @ rspine_list rs"
  by (induction rs t rule: plug_right.induct) auto

lemma inorder_Nil_iff [simp]: "inorder t = [] \<longleftrightarrow> t = ITE_NULL"
  by (cases t) auto

lemma lspine_list_Nil_iff [simp]: "lspine_list ls = [] \<longleftrightarrow> ls = []"
  by (cases ls rule: lspine_list.cases) auto

lemma rspine_list_Nil_iff [simp]: "rspine_list rs = [] \<longleftrightarrow> rs = []"
  by (cases rs rule: rspine_list.cases) auto

lemma inorder_assemble [simp]:
  "t \<noteq> ITE_NULL \<Longrightarrow> inorder (ipc_splay_prim_assemble t ls rs) = prim_list (t, ls, rs)"
  by (cases t) auto

lemma assemble_Null_iff [simp]: "ipc_splay_prim_assemble t ls rs = ITE_NULL \<longleftrightarrow> t = ITE_NULL"
  by (cases t) auto

text \<open>Every iteration keeps the entries and their order.\<close>

lemma prim_body_list: "prim_body name s = Some s' \<Longrightarrow> prim_list s' = prim_list s"
  by (induction name s rule: prim_body.induct)
     (auto simp: Let_def split: if_splits itree.splits)

text \<open>A link keeps the two built trees on their sides when the linked node is on that side.\<close>

lemma link_right_outside:
  assumes "sorted_keys (prim_list (ITE l n e r, ls, rs))"
    and "outside name (ITE l n e r, ls, rs)" and "name < n"
  shows "outside name (link_right (ITE l n e r, ls, rs))"
proof -
  have "all_above (inorder r) n"
    using assms(1) by (simp add: sorted_wrt_append list_all_iff)
  with assms(2,3) show ?thesis by (auto intro: all_above_less)
qed

lemma link_left_outside:
  assumes "sorted_keys (prim_list (ITE l n e r, ls, rs))"
    and "outside name (ITE l n e r, ls, rs)" and "n < name"
  shows "outside name (link_left (ITE l n e r, ls, rs))"
proof -
  have "all_below (inorder l) n"
    using assms(1) by (simp add: sorted_wrt_append list_all_iff)
  with assms(2,3) show ?thesis by (auto intro: all_below_less)
qed

lemma prim_body_outside:
  assumes "prim_body name s = Some s'" and sorted: "sorted_keys (prim_list s)"
    and out: "outside name s"
  shows "outside name s'"
proof -
  obtain l n e r ls rs where s: "s = (ITE l n e r, ls, rs)"
    using assms(1) by (cases "(name, s)" rule: prim_body.cases) auto
  consider (left) ll tn le lr where "name < n" "l = ITE ll tn le lr"
    | (right) rl tn re rr where "n < name" "r = ITE rl tn re rr"
    using assms(1) by (auto simp: s split: if_splits itree.splits)
  then show ?thesis
  proof cases
    case left
    have zig: "outside name (link_right s)"
      using link_right_outside [of l n e r ls rs name] sorted out left by (simp add: s)
    have zigzig: "outside name (link_right (rotate_right s))" if "name < tn"
      using link_right_outside [of ll tn le "ITE lr n e r" ls rs name] sorted out left that
      by (simp add: s)
    have zigzag: "outside name (link_left (link_right s))" if "tn < name"
      using link_left_outside [of ll tn le lr ls "rs @ [(n, e, r)]" name] sorted zig left that
      by (simp add: s)
    from left zig zigzig zigzag assms(1) show ?thesis
      by (auto simp: s Let_def split: if_splits)
  next
    case right
    have zag: "outside name (link_left s)"
      using link_left_outside [of l n e r ls rs name] sorted out right by (simp add: s)
    have zagzag: "outside name (link_left (rotate_left s))" if "tn < name"
      using link_left_outside [of "ITE l n e rl" tn re rr ls rs name] sorted out right that
      by (simp add: s)
    have zagzig: "outside name (link_right (link_left s))" if "name < tn"
      using link_right_outside [of rl tn re rr "ls @ [(l, n, e)]" rs name] sorted zag right that
      by (simp add: s)
    from right zag zagzag zagzig assms(1) show ?thesis
      by (auto simp: s Let_def split: if_splits)
  qed
qed

lemma prim_body_not_null: "prim_body name s = Some s' \<Longrightarrow> fst s' \<noteq> ITE_NULL"
  by (induction name s rule: prim_body.induct)
     (auto simp: Let_def split: if_splits itree.splits)

lemma prim_body_end:
  "prim_body name (t, ls, rs) = None \<Longrightarrow> t \<noteq> ITE_NULL \<Longrightarrow> search_end name t"
  by (cases t) (auto simp: Let_def split: if_splits itree.splits)

lemma prim_loop_list: "prim_list (prim_loop name s) = prim_list s"
proof (induction name s rule: prim_loop.induct)
  case (1 name s)
  then show ?case
    by (subst prim_loop.simps) (auto split: option.split dest: prim_body_list)
qed

lemma prim_loop_splayed:
  "fst s \<noteq> ITE_NULL \<Longrightarrow> sorted_keys (prim_list s) \<Longrightarrow> outside name s \<Longrightarrow>
     splayed name (prim_loop name s)"
proof (induction name s rule: prim_loop.induct)
  case (1 name s)
  show ?case
  proof (cases "prim_body name s")
    case None
    with "1.prems" show ?thesis
      by (cases s) (auto simp: prim_loop.simps dest: prim_body_end)
  next
    case (Some s')
    have "splayed name (prim_loop name s')"
      using "1.prems" Some prim_body_list [OF Some] prim_body_not_null [OF Some]
        prim_body_outside [OF Some]
      by (intro "1.IH") auto
    with Some show ?thesis by (simp add: prim_loop.simps [of name s])
  qed
qed

lemma prim_lookup_splayed:
  "t \<noteq> ITE_NULL \<Longrightarrow> sorted_keys (inorder t) \<Longrightarrow> splayed name (ipc_splay_prim_lookup name t)"
  unfolding ipc_splay_prim_lookup_def by (rule prim_loop_splayed) auto

lemma prim_lookup_list: "prim_list (ipc_splay_prim_lookup name t) = inorder t"
  by (simp add: ipc_splay_prim_lookup_def prim_loop_list)

lemma splayed_not_null: "splayed name (t, ls, rs) \<Longrightarrow> t \<noteq> ITE_NULL"
  by auto

lemma contents_sorted: "splay_inv splay \<Longrightarrow> sorted_keys (contents splay)"
  by (auto simp: splay_inv_def contents_def)

text \<open>What a splayed state says about the looked-up name.\<close>

lemma splayed_map_of:
  assumes "splayed name (ITE l n e r, ls, rs)"
  shows "map_of (prim_list (ITE l n e r, ls, rs)) name = (if name = n then Some e else None)"
proof -
  have below: "all_below (inorder l) n" and above: "all_above (inorder r) n"
    using assms by (simp_all add: sorted_wrt_append list_all_iff)
  have "map_of (lspine_list ls) name = None" "map_of (rspine_list rs) name = None"
    using assms by (simp_all add: map_of_outside)
  moreover have "map_of (inorder l) name = None"
    using assms below by (auto intro!: map_of_below intro: all_below_less)
  moreover have "map_of (inorder r) name = None" if "name \<noteq> n"
    using assms above that by (auto intro!: map_of_above intro: all_above_less)
  ultimately show ?thesis by (simp add: map_add_def)
qed

text \<open>The common prefix of the operations keeps the entries and ends splayed for \<open>name\<close>.\<close>

lemma splay_to_spec:
  assumes "splay_inv splay" and "ist_root splay \<noteq> ITE_NULL"
    and "splay_to name splay = (root, lt, rt)"
  shows "splayed name (root, lt, rt)" and "prim_list (root, lt, rt) = contents splay"
    and "map_of (contents splay) name =
           (if name = ite_name root then Some (ite_entry root) else None)"
proof -
  let ?t = "ipc_splay_prim_assemble (ist_root splay) (ist_ltree splay) (ist_rtree splay)"
  have t: "?t \<noteq> ITE_NULL" "inorder ?t = contents splay"
    using assms(2) by (simp_all add: contents_def)
  then have "splayed name (ipc_splay_prim_lookup name ?t)"
    using contents_sorted [OF assms(1)] by (intro prim_lookup_splayed) simp_all
  then show splayed: "splayed name (root, lt, rt)"
    using assms by (auto simp: splay_to_def splay_inv_def split: if_splits)
  show list: "prim_list (root, lt, rt) = contents splay"
    using assms t prim_lookup_list [of name ?t]
    by (auto simp: splay_to_def contents_def split: if_splits)
  show "map_of (contents splay) name =
           (if name = ite_name root then Some (ite_entry root) else None)"
  proof (cases root)
    case ITE_NULL
    with splayed show ?thesis by simp
  next
    case (ITE l n e r)
    with splayed have "splayed name (ITE l n e r, lt, rt)" by simp
    from splayed_map_of [OF this] show ?thesis
      unfolding list [symmetric] ITE by (simp only: itree.sel)
  qed
qed

section \<open>Functional behaviour of the operations\<close>

lemma contents_splay_of_root [simp]: "contents (splay_of_root root splay) = inorder root"
  by (simp add: splay_of_root_def contents_def)

lemma splay_inv_of_root:
  "sorted_keys (inorder root) \<Longrightarrow> splay_inv (splay_of_root root splay)"
  by (cases root) (auto simp: splay_of_root_def splay_inv_def)

lemma contents_init [simp]: "contents ipc_splay_tree_init = []"
  by (simp add: contents_def ipc_splay_tree_init_def)

lemma splay_inv_init [simp]: "splay_inv ipc_splay_tree_init"
  by (simp add: splay_inv_def ipc_splay_tree_init_def)

lemma contents_Nil_iff: "splay_inv splay \<Longrightarrow> contents splay = [] \<longleftrightarrow> ist_root splay = ITE_NULL"
  by (auto simp: contents_def)

lemma pick_contents:
  "case ipc_splay_tree_pick splay of
     None \<Rightarrow> contents splay = [] | Some p \<Rightarrow> p \<in> set (contents splay)"
  by (auto simp: ipc_splay_tree_pick_def contents_def split: itree.split)

lemma lookup_spec:
  assumes inv: "splay_inv splay" and eq: "ipc_splay_tree_lookup splay name = (splay', res)"
  shows "splay_inv splay'" and "contents splay' = contents splay"
    and "res = map_of (contents splay) name"
proof -
  have "splay_inv splay' \<and> contents splay' = contents splay \<and> res = map_of (contents splay) name"
  proof (cases "ist_root splay = ITE_NULL")
    case True
    with inv eq show ?thesis by (auto simp: ipc_splay_tree_lookup_def contents_def)
  next
    case False
    obtain root lt rt where st: "splay_to name splay = (root, lt, rt)"
      by (cases "splay_to name splay") auto
    note spec = splay_to_spec [OF inv False st]
    have "contents (splay\<lparr>ist_name := name, ist_root := root, ist_ltree := lt, ist_rtree := rt\<rparr>) =
            contents splay"
      using spec(1,2) splayed_not_null [OF spec(1)]
      by (subst contents_def) simp
    with False eq st spec show ?thesis
      by (auto simp: ipc_splay_tree_lookup_def splay_inv_def)
  qed
  then show "splay_inv splay'" "contents splay' = contents splay"
    "res = map_of (contents splay) name" by auto
qed

text \<open>
  A splayed state for a name that is absent splits the entries into those below and those
  above it.
\<close>

lemma splayed_absent:
  assumes "splayed name (root, lt, rt)"
  shows "name < ite_name root \<Longrightarrow> all_above (inorder root @ rspine_list rt) name"
    and "ite_name root < name \<Longrightarrow> all_below (lspine_list lt @ inorder root) name"
  using assms
  by (cases root; auto simp: sorted_wrt_append list_all_iff dest: less_trans)+

lemma insert_spec:
  assumes inv: "splay_inv splay" and new: "map_of (contents splay) name = None"
  shows "contents (ipc_splay_tree_insert splay name entry) =
           insert_key name entry (contents splay)"
    and "splay_inv (ipc_splay_tree_insert splay name entry)"
proof -
  let ?s = "ipc_splay_tree_insert splay name entry"
  show c: "contents ?s = insert_key name entry (contents splay)"
  proof (cases "ist_root splay = ITE_NULL")
    case True
    then show ?thesis by (simp add: ipc_splay_tree_insert_def contents_def insert_key_def)
  next
    case False
    obtain root lt rt where st: "splay_to name splay = (root, lt, rt)"
      by (cases "splay_to name splay") auto
    note spec = splay_to_spec [OF inv False st]
    have out: "all_below (lspine_list lt) name" "all_above (rspine_list rt) name"
      using spec(1) by auto
    have "name \<noteq> ite_name root" using spec(3) new by auto
    then consider (lt) "name < ite_name root" | (gt) "ite_name root < name" by (metis neqE)
    then show ?thesis
    proof cases
      case lt
      then have "contents ?s = lspine_list lt @ (name, entry) # (inorder root @ rspine_list rt)"
        using False st by (simp add: ipc_splay_tree_insert_def contents_def)
      also have "\<dots> = insert_key name entry (lspine_list lt @ (inorder root @ rspine_list rt))"
        using insert_key_between [OF out(1) splayed_absent(1) [OF spec(1) lt]] by simp
      finally show ?thesis using spec(2) by simp
    next
      case gt
      then have "\<not> name < ite_name root" by simp
      then have "contents ?s = (lspine_list lt @ inorder root) @ (name, entry) # rspine_list rt"
        using False st by (simp add: ipc_splay_tree_insert_def contents_def)
      also have "\<dots> = insert_key name entry ((lspine_list lt @ inorder root) @ rspine_list rt)"
        using insert_key_between [OF splayed_absent(2) [OF spec(1) gt] out(2)] by simp
      finally show ?thesis using spec(2) by simp
    qed
  qed
  have "sorted_keys (contents ?s)"
    unfolding c using contents_sorted [OF inv] new by (rule sorted_insert_key)
  then show "splay_inv ?s"
    by (auto simp: contents_def splay_inv_def ipc_splay_tree_insert_def Let_def
        split: prod.splits if_splits)
qed

text \<open>
  Nothing lies above \<^const>\<open>MACH_PORT_LARGEST\<close>, so splaying for it leaves the root without a
  right child; likewise for the smallest name on the left.
\<close>

lemma not_above_largest [simp]: "\<not> MACH_PORT_LARGEST < n"
  by (simp add: MACH_PORT_LARGEST_def)

lemma not_below_smallest [simp]: "\<not> n < MACH_PORT_SMALLEST"
  by (simp add: MACH_PORT_SMALLEST_def)

lemma all_above_largest [simp]: "all_above xs MACH_PORT_LARGEST \<longleftrightarrow> xs = []"
  by (cases xs) auto

lemma all_below_smallest [simp]: "all_below xs MACH_PORT_SMALLEST \<longleftrightarrow> xs = []"
  by (cases xs) auto

lemma splayed_largest:
  assumes "splayed MACH_PORT_LARGEST (root, lt, rt)"
  shows "rt = [] \<and> ite_rchild root = ITE_NULL \<and> root \<noteq> ITE_NULL"
proof (cases root)
  case (ITE l n e r)
  have "all_above (inorder r) n" using assms ITE by (simp add: sorted_wrt_append list_all_iff)
  then have "r = ITE_NULL" if "n = MACH_PORT_LARGEST"
    using that all_above_largest [of "inorder r"] by simp
  moreover have "rt = []" using assms all_above_largest [of "rspine_list rt"] by simp
  ultimately show ?thesis using assms ITE by auto
qed (use assms in simp)

lemma splayed_smallest:
  assumes "splayed MACH_PORT_SMALLEST (root, lt, rt)"
  shows "lt = [] \<and> ite_lchild root = ITE_NULL \<and> root \<noteq> ITE_NULL"
proof (cases root)
  case (ITE l n e r)
  have "all_below (inorder l) n" using assms ITE by (simp add: sorted_wrt_append list_all_iff)
  then have "l = ITE_NULL" if "n = MACH_PORT_SMALLEST"
    using that all_below_smallest [of "inorder l"] by simp
  moreover have "lt = []" using assms all_below_smallest [of "lspine_list lt"] by simp
  ultimately show ?thesis using assms ITE by auto
qed (use assms in simp)

lemma inorder_set_rchild:
  "t \<noteq> ITE_NULL \<Longrightarrow> ite_rchild t = ITE_NULL \<Longrightarrow> inorder (set_rchild t s) = inorder t @ inorder s"
  by (cases t) auto

lemma inorder_set_lchild:
  "t \<noteq> ITE_NULL \<Longrightarrow> ite_lchild t = ITE_NULL \<Longrightarrow> inorder (set_lchild t s) = inorder s @ inorder t"
  by (cases t) auto

lemma splay_largest_spec:
  assumes "t \<noteq> ITE_NULL" and "sorted_keys (inorder t)"
  shows "inorder (splay_largest t) = inorder t"
    and "splay_largest t \<noteq> ITE_NULL" and "ite_rchild (splay_largest t) = ITE_NULL"
proof -
  obtain root lt rt where p: "ipc_splay_prim_lookup MACH_PORT_LARGEST t = (root, lt, rt)"
    by (cases "ipc_splay_prim_lookup MACH_PORT_LARGEST t") auto
  have sp: "splayed MACH_PORT_LARGEST (root, lt, rt)"
    using prim_lookup_splayed [OF assms, of MACH_PORT_LARGEST] unfolding p .
  have list: "prim_list (root, lt, rt) = inorder t"
    using prim_lookup_list [of MACH_PORT_LARGEST t] p by simp
  have eq: "splay_largest t = ipc_splay_prim_assemble root lt rt"
    by (simp add: splay_largest_def p)
  show "inorder (splay_largest t) = inorder t" "splay_largest t \<noteq> ITE_NULL"
    using list splayed_largest [OF sp] eq by simp_all
  show "ite_rchild (splay_largest t) = ITE_NULL"
    using splayed_largest [OF sp] by (cases root) (simp_all add: eq)
qed

lemma inorder_replace_root:
  assumes "sorted_keys (inorder lt @ inorder rt)"
  shows "inorder (if lt = ITE_NULL then rt
                  else if rt \<noteq> ITE_NULL then set_rchild (splay_largest lt) rt else lt) =
         inorder lt @ inorder rt"
  using assms splay_largest_spec [of lt]
  by (simp add: inorder_set_rchild sorted_wrt_append)

lemma delete_spec:
  assumes inv: "splay_inv splay" and "map_of (contents splay) name \<noteq> None"
  shows "contents (ipc_splay_tree_delete splay name) =
           filter (\<lambda>p. fst p \<noteq> name) (contents splay)"
    and "splay_inv (ipc_splay_tree_delete splay name)"
proof -
  have nn: "ist_root splay \<noteq> ITE_NULL" using assms(2) by (auto simp: contents_def)
  obtain root lt rt where st: "splay_to name splay = (root, lt, rt)"
    by (cases "splay_to name splay") auto
  note spec = splay_to_spec [OF inv nn st]
  have "name = ite_name root" using spec(3) assms(2) by (auto split: if_splits)
  then obtain l e r where root: "root = ITE l name e r" using spec(1) by (cases root) auto
  let ?lt = "plug_left lt l" and ?rt = "plug_right rt r"
  have c: "contents splay = inorder ?lt @ (name, e) # inorder ?rt"
    using spec(2) root by simp
  have sorted: "sorted_keys (inorder ?lt @ inorder ?rt)"
    using contents_sorted [OF inv] unfolding c by (simp add: sorted_wrt_append)
  have del: "filter (\<lambda>p. fst p \<noteq> name) (contents splay) = inorder ?lt @ inorder ?rt"
    using contents_sorted [OF inv] remove_key_between unfolding c
    by (metis sorted_keys_app_all_below)
  show eq: "contents (ipc_splay_tree_delete splay name) =
           filter (\<lambda>p. fst p \<noteq> name) (contents splay)"
    unfolding del inorder_replace_root [OF sorted, symmetric]
    by (simp add: ipc_splay_tree_delete_def st root Let_def)
  have "sorted_keys (contents (ipc_splay_tree_delete splay name))"
    unfolding eq del by (rule sorted)
  then show "splay_inv (ipc_splay_tree_delete splay name)"
    by (simp add: ipc_splay_tree_delete_def st Let_def splay_inv_of_root)
qed

lemma split_spec:
  assumes inv: "splay_inv splay" and eq: "ipc_splay_tree_split splay name = (big, small)"
  shows "splay_inv big" and "splay_inv small"
    and "contents big = filter (\<lambda>p. name \<le> fst p) (contents splay)"
    and "contents small = filter (\<lambda>p. fst p < name) (contents splay)"
proof -
  have "splay_inv big \<and> splay_inv small \<and> (\<exists>xs ys. contents splay = xs @ ys \<and>
          all_below xs name \<and> list_all (\<lambda>p. name \<le> fst p) ys \<and>
          contents small = xs \<and> contents big = ys)"
  proof (cases "ist_root splay = ITE_NULL")
    case True
    with eq inv have "big = splay" "small = ipc_splay_tree_init" "contents splay = []"
      by (simp_all add: ipc_splay_tree_split_def contents_def)
    with inv show ?thesis by simp
  next
    case False
    obtain root lt rt where st: "splay_to name splay = (root, lt, rt)"
      by (cases "splay_to name splay") auto
    note spec = splay_to_spec [OF inv False st]
    then obtain l n e r where root: "root = ITE l n e r" by (cases root) auto
    note sorted = contents_sorted [OF inv, folded spec(2), unfolded root]
    show ?thesis
    proof (cases "n < name")
      case True
      have r: "r = ITE_NULL" using spec(1) root True by auto
      have "big = splay_of_root (plug_right rt ITE_NULL) splay"
        "small = splay_of_root (ITE (plug_left lt l) n e r) ipc_splay_tree_init"
        using eq False st root True by (simp_all add: ipc_splay_tree_split_def)
      moreover have "contents splay = (lspine_list lt @ inorder root) @ rspine_list rt"
        using spec(2) by simp
      moreover have "all_below (lspine_list lt @ inorder root) name"
        using splayed_absent(2) [OF spec(1)] root True by simp
      moreover have "list_all (\<lambda>p. name \<le> fst p) (rspine_list rt)"
        using spec(1) by (auto simp: list_all_iff)
      ultimately show ?thesis
        using sorted by (auto intro!: splay_inv_of_root simp: sorted_wrt_append root r)
    next
      case False
      have big: "big = splay\<lparr>ist_root := ITE ITE_NULL n e r, ist_name := name,
                            ist_ltree := [], ist_rtree := rt\<rparr>"
        and small: "small = splay_of_root (plug_left lt l) ipc_splay_tree_init"
        using eq \<open>ist_root splay \<noteq> ITE_NULL\<close> st root False
        by (simp_all add: ipc_splay_tree_split_def)
      have l: "contents splay = (lspine_list lt @ inorder l) @ ((n, e) # inorder r @ rspine_list rt)"
        using spec(2) root by simp
      have "all_below (lspine_list lt @ inorder l) name"
        using spec(1) root False by (auto simp: sorted_wrt_append list_all_iff)
      moreover have ab: "all_above (inorder r @ rspine_list rt) n"
        using sorted by (auto simp: sorted_wrt_append list_all_iff)
      then have "list_all (\<lambda>p. name \<le> fst p) ((n, e) # inorder r @ rspine_list rt)"
        using False all_above_ge [OF ab, of name] by (simp add: not_less)
      moreover have "splay_inv small"
        unfolding small using sorted by (intro splay_inv_of_root) (simp add: sorted_wrt_append)
      moreover have "sorted_keys (prim_list (ITE ITE_NULL n e r, [], rt))"
        using sorted by (simp add: sorted_wrt_append)
      then have "splay_inv big"
        using spec(1) root False by (auto simp: big splay_inv_def)
      moreover have "contents big = (n, e) # inorder r @ rspine_list rt"
        by (simp add: big contents_def)
      moreover have "contents small = lspine_list lt @ inorder l"
        by (simp add: small)
      ultimately show ?thesis using l by blast
    qed
  qed
  then show "splay_inv big" "splay_inv small"
    "contents big = filter (\<lambda>p. name \<le> fst p) (contents splay)"
    "contents small = filter (\<lambda>p. fst p < name) (contents splay)"
    by (metis filter_below_app filter_from_app)+
qed

lemma join_spec:
  assumes inv: "splay_inv splay" "splay_inv small"
    and below: "\<forall>p\<in>set (contents small). \<forall>q\<in>set (contents splay). fst p < fst q"
    and eq: "ipc_splay_tree_join splay small = (splay', small')"
  shows "splay_inv splay'" and "contents splay' = contents small @ contents splay"
    and "contents small' = []" and "splay_inv small'"
proof -
  have sorted: "sorted_keys (contents small @ contents splay)"
    using contents_sorted [OF inv(1)] contents_sorted [OF inv(2)] below
    by (simp add: sorted_wrt_append)
  have "splay_inv splay' \<and> contents splay' = contents small @ contents splay \<and>
        contents small' = [] \<and> splay_inv small'"
  proof (cases "ist_root small = ITE_NULL")
    case True
    with eq have "splay' = splay" "small' = small" by (simp_all add: ipc_splay_tree_join_def)
    moreover have "contents small = []" using True by (simp add: contents_def)
    ultimately show ?thesis using inv by simp
  next
    case False
    let ?sroot = "ipc_splay_prim_assemble (ist_root small) (ist_ltree small) (ist_rtree small)"
    obtain root lt rt where st: "splay_to MACH_PORT_SMALLEST splay = (root, lt, rt)"
      by (cases "splay_to MACH_PORT_SMALLEST splay") auto
    let ?t = "if ist_root splay = ITE_NULL then ?sroot
              else set_lchild (ipc_splay_prim_assemble root lt rt) ?sroot"
    have s: "inorder ?sroot = contents small" using False by (simp add: contents_def)
    have t: "inorder ?t = contents small @ contents splay"
    proof (cases "ist_root splay = ITE_NULL")
      case True
      then show ?thesis using s by (simp add: contents_def)
    next
      case False
      note spec = splay_to_spec [OF inv(1) False st]
      from splayed_smallest [OF spec(1)] have "lt = []" "ite_lchild root = ITE_NULL" "root \<noteq> ITE_NULL"
        by auto
      then show ?thesis using False s spec(2) by (cases root) simp_all
    qed
    have "splay' = splay_of_root ?t splay" "small' = small\<lparr>ist_root := ITE_NULL\<rparr>"
      using eq False st by (auto simp: ipc_splay_tree_join_def Let_def)
    then show ?thesis
      using t sorted by (simp add: splay_inv_of_root contents_def [of "small\<lparr>ist_root := ITE_NULL\<rparr>"]
          splay_inv_def [of "small\<lparr>ist_root := ITE_NULL\<rparr>"])
  qed
  then show "splay_inv splay'" "contents splay' = contents small @ contents splay"
    "contents small' = []" "splay_inv small'" by auto
qed

lemma fst_last_lspine: "lt \<noteq> [] \<Longrightarrow> fst (last (lspine_list lt)) = fst (snd (last lt))"
  by (induction lt rule: lspine_list.induct) auto

lemma fst_hd_rspine: "rt \<noteq> [] \<Longrightarrow> fst (hd (rspine_list rt)) = fst (last rt)"
  by (induction rt rule: rspine_list.induct) (auto simp: hd_append)

lemma filter_le_app:
  "list_all (\<lambda>p. fst p \<le> k) xs \<Longrightarrow> all_above ys k \<Longrightarrow> filter (\<lambda>p. fst p \<le> k) (xs @ ys) = xs"
  by (auto simp: list_all_iff filter_empty_conv filter_id_conv not_le)

definition lower_bound :: "mach_port_t \<Rightarrow> (mach_port_t \<times> 'e) list \<Rightarrow> mach_port_t" where
  "lower_bound name xs =
     (let ys = filter (\<lambda>p. fst p \<le> name) xs in if ys = [] then MACH_PORT_LARGEST else fst (last ys))"

definition upper_bound :: "mach_port_t \<Rightarrow> (mach_port_t \<times> 'e) list \<Rightarrow> mach_port_t" where
  "upper_bound name xs =
     (let ys = filter (\<lambda>p. name \<le> fst p) xs in if ys = [] then MACH_PORT_SMALLEST else fst (hd ys))"

lemma lower_bound_app:
  "list_all (\<lambda>p. fst p \<le> name) xs \<Longrightarrow> all_above ys name \<Longrightarrow>
     lower_bound name (xs @ ys) = (if xs = [] then MACH_PORT_LARGEST else fst (last xs))"
  unfolding lower_bound_def by (simp only: filter_le_app Let_def)

lemma upper_bound_app:
  "all_below xs name \<Longrightarrow> list_all (\<lambda>p. name \<le> fst p) ys \<Longrightarrow>
     upper_bound name (xs @ ys) = (if ys = [] then MACH_PORT_SMALLEST else fst (hd ys))"
  unfolding upper_bound_def by (simp only: filter_from_app Let_def)

text \<open>What a splayed state says about the neighbours of the name.\<close>

lemma splayed_lower:
  assumes "splayed name (root, lt, rt)"
  shows "lower_bound name (prim_list (root, lt, rt)) =
           (if ite_name root \<le> name then ite_name root
            else if lt = [] then MACH_PORT_LARGEST else fst (snd (last lt)))"
proof -
  obtain l n e r where root: "root = ITE l n e r" using assms by (cases root) auto
  have b: "all_below (inorder l) n" and a: "all_above (inorder r) n"
    using assms root by (auto simp: sorted_wrt_append list_all_iff)
  show ?thesis
  proof (cases "n \<le> name")
    case True
    have "all_above (inorder r @ rspine_list rt) name"
      using assms root True a by (auto simp: list_all_iff)
    moreover have "list_all (\<lambda>p. fst p \<le> name) ((lspine_list lt @ inorder l) @ [(n, e)])"
      using assms root True b by (auto simp: list_all_iff)
    ultimately show ?thesis
      using lower_bound_app [of name "(lspine_list lt @ inorder l) @ [(n, e)]"
          "inorder r @ rspine_list rt"] True root by simp
  next
    case False
    then have "all_above (inorder root @ rspine_list rt) name"
      using splayed_absent(1) [OF assms] root by simp
    moreover have "list_all (\<lambda>p. fst p \<le> name) (lspine_list lt)"
      using assms by (auto simp: list_all_iff)
    ultimately show ?thesis
      using lower_bound_app [of name "lspine_list lt" "inorder root @ rspine_list rt"] False root
      by (simp add: fst_last_lspine)
  qed
qed

lemma splayed_upper:
  assumes "splayed name (root, lt, rt)"
  shows "upper_bound name (prim_list (root, lt, rt)) =
           (if ite_name root \<ge> name then ite_name root
            else if rt = [] then MACH_PORT_SMALLEST else fst (last rt))"
proof -
  obtain l n e r where root: "root = ITE l n e r" using assms by (cases root) auto
  have b: "all_below (inorder l) n" and a: "all_above (inorder r) n"
    using assms root by (auto simp: sorted_wrt_append list_all_iff)
  show ?thesis
  proof (cases "name \<le> n")
    case True
    have "all_below (lspine_list lt @ inorder l) name"
      using assms root True b by (auto simp: list_all_iff)
    moreover have "list_all (\<lambda>p. name \<le> fst p) ((n, e) # inorder r @ rspine_list rt)"
      using assms root True a by (auto simp: list_all_iff)
    ultimately show ?thesis
      using upper_bound_app [of name "lspine_list lt @ inorder l"
          "(n, e) # inorder r @ rspine_list rt"] True root by simp
  next
    case False
    then have "all_below (lspine_list lt @ inorder root) name"
      using splayed_absent(2) [OF assms] root by simp
    moreover have "list_all (\<lambda>p. name \<le> fst p) (rspine_list rt)"
      using assms by (auto simp: list_all_iff)
    ultimately show ?thesis
      using upper_bound_app [of name "lspine_list lt @ inorder root" "rspine_list rt"] False root
      by (simp add: fst_hd_rspine)
  qed
qed

lemma bounds_spec:
  assumes inv: "splay_inv splay"
    and eq: "ipc_splay_tree_bounds splay name = (splay', lower, upper)"
  shows "splay_inv splay'" and "contents splay' = contents splay"
    and "lower = lower_bound name (contents splay)"
    and "upper = upper_bound name (contents splay)"
proof -
  have "splay_inv splay' \<and> contents splay' = contents splay \<and>
        lower = lower_bound name (contents splay) \<and> upper = upper_bound name (contents splay)"
  proof (cases "ist_root splay = ITE_NULL")
    case True
    with inv eq show ?thesis
      by (auto simp: ipc_splay_tree_bounds_def contents_def lower_bound_def upper_bound_def)
  next
    case False
    obtain root lt rt where st: "splay_to name splay = (root, lt, rt)"
      by (cases "splay_to name splay") auto
    note spec = splay_to_spec [OF inv False st]
    have "splay' = splay\<lparr>ist_name := name, ist_root := root, ist_ltree := lt, ist_rtree := rt\<rparr>"
      using False eq st by (auto simp: ipc_splay_tree_bounds_def Let_def)
    moreover from this have "contents splay' = contents splay"
      using spec(2) splayed_not_null [OF spec(1)] by (subst contents_def) simp
    moreover have "lower = lower_bound name (contents splay)"
      unfolding spec(2) [symmetric] splayed_lower [OF spec(1)]
      using False eq st by (simp add: ipc_splay_tree_bounds_def Let_def split: if_splits)
    moreover have "upper = upper_bound name (contents splay)"
      unfolding spec(2) [symmetric] splayed_upper [OF spec(1)]
      using False eq st by (simp add: ipc_splay_tree_bounds_def Let_def split: if_splits)
    ultimately show ?thesis using spec(1) by (simp add: splay_inv_def)
  qed
  then show "splay_inv splay'" "contents splay' = contents splay"
    "lower = lower_bound name (contents splay)" "upper = upper_bound name (contents splay)"
    by auto
qed

section \<open>Traversal by pointer inversion\<close>

text \<open>
  Going down, the traversal reverses the child pointer it follows to point at the parent.
  The chain of parents from \<^verbatim>\<open>parent\<close> upwards is a list of such nodes, innermost first:
  \<open>InvL n e r\<close> has its \<^verbatim>\<open>ite_lchild\<close> reversed and keeps the right child, \<open>InvR l n e\<close>
  has its \<^verbatim>\<open>ite_rchild\<close> reversed. The C code keeps no tag: going back up, it compares the
  names of \<^verbatim>\<open>current\<close> and \<^verbatim>\<open>parent\<close> to decide which field to restore. The model makes that
  comparison and returns \<open>None\<close> if it picks the field that was not reversed, where the C
  code would corrupt the tree.
\<close>

datatype 'e inverted =
    InvL mach_port_t 'e "'e itree"
  | InvR "'e itree" mach_port_t 'e

fun inv_name :: "'e inverted \<Rightarrow> mach_port_t" where
  "inv_name (InvL n e r) = n"
| "inv_name (InvR l n e) = n"

text \<open>Where the traversal is: at an entry, or finished with a new \<^verbatim>\<open>ist_root\<close>.\<close>

datatype 'e traversal =
    At_Entry "'e itree" "'e inverted list"
  | Finished "'e itree"

text \<open>The label \<^verbatim>\<open>traverse_left\<close>, and the loop of \<^verbatim>\<open>ipc_splay_traverse_start\<close>.\<close>

fun traverse_left :: "'e itree \<Rightarrow> 'e inverted list \<Rightarrow> 'e traversal" where
  "traverse_left ITE_NULL parent = At_Entry ITE_NULL parent"
| "traverse_left (ITE l n e r) parent =
     (if l \<noteq> ITE_NULL then traverse_left l (InvL n e r # parent)
      else At_Entry (ITE l n e r) parent)"

text \<open>The label \<^verbatim>\<open>traverse_back\<close>.\<close>

fun traverse_back :: "'e itree \<Rightarrow> 'e inverted list \<Rightarrow> 'e traversal option" where
  "traverse_back current [] = Some (Finished current)"
| "traverse_back current (p # parent) =
     (if ite_name current < inv_name p then
        (case p of
           InvL n e r \<Rightarrow> Some (At_Entry (ITE current n e r) parent)
         | InvR l n e \<Rightarrow> None)
      else
        (case p of
           InvL n e r \<Rightarrow> None
         | InvR l n e \<Rightarrow> traverse_back (ITE l n e current) parent))"

text \<open>The label \<^verbatim>\<open>traverse_right\<close>.\<close>

fun traverse_right :: "'e itree \<Rightarrow> 'e inverted list \<Rightarrow> 'e traversal option" where
  "traverse_right ITE_NULL parent = None"
| "traverse_right (ITE l n e r) parent =
     (if r \<noteq> ITE_NULL then Some (traverse_left r (InvR l n e # parent))
      else traverse_back (ITE l n e r) parent)"

definition ipc_splay_traverse_start :: "'e ipc_splay_tree \<Rightarrow> 'e traversal" where
  "ipc_splay_traverse_start splay =
     (if ist_root splay = ITE_NULL then Finished ITE_NULL
      else traverse_left
             (ipc_splay_prim_assemble (ist_root splay) (ist_ltree splay) (ist_rtree splay)) [])"

text \<open>
  \<^verbatim>\<open>ipc_splay_traverse_next\<close> with its four deletion cases, by which children \<^verbatim>\<open>current\<close> has.
\<close>

fun ipc_splay_traverse_next ::
  "'e itree \<Rightarrow> 'e inverted list \<Rightarrow> bool \<Rightarrow> 'e traversal option" where
  "ipc_splay_traverse_next ITE_NULL parent delete = None"
| "ipc_splay_traverse_next (ITE l n e r) parent delete =
     (if \<not> delete then traverse_right (ITE l n e r) parent
      else if l = ITE_NULL then
        (if r = ITE_NULL then
           (case parent of
              [] \<Rightarrow> Some (Finished ITE_NULL)
            | p # parent \<Rightarrow>
                (if n < inv_name p then
                   (case p of
                      InvL pn pe pr \<Rightarrow> Some (At_Entry (ITE ITE_NULL pn pe pr) parent)
                    | InvR pl pn pe \<Rightarrow> None)
                 else
                   (case p of
                      InvL pn pe pr \<Rightarrow> None
                    | InvR pl pn pe \<Rightarrow> traverse_back (ITE pl pn pe ITE_NULL) parent)))
         else Some (traverse_left r parent))
      else if r = ITE_NULL then traverse_back l parent
      else traverse_right (set_rchild (splay_largest l) r) parent)"

definition ipc_splay_traverse_finish :: "'e itree \<Rightarrow> 'e ipc_splay_tree \<Rightarrow> 'e ipc_splay_tree" where
  "ipc_splay_traverse_finish root splay = splay_of_root root splay"

text \<open>
  The loop the routines are used in:
  \<^verbatim>\<open>for (entry = start(splay); entry != ITE_NULL; entry = next(splay, delete)) body; finish(splay)\<close>,
  with a body that updates a state and chooses \<^verbatim>\<open>delete\<close>. \<open>None\<close>: the traversal went wrong
  or the fuel, one unit per visited entry, ran out.
\<close>

fun traverse_loop ::
  "nat \<Rightarrow> (mach_port_t \<Rightarrow> 'e \<Rightarrow> 's \<Rightarrow> bool \<times> 's) \<Rightarrow> 'e traversal \<Rightarrow> 's \<Rightarrow> ('e itree \<times> 's) option" where
  "traverse_loop fuel body (Finished root) s = Some (root, s)"
| "traverse_loop 0 body (At_Entry current parent) s = None"
| "traverse_loop (Suc fuel) body (At_Entry current parent) s =
     (case current of
        ITE_NULL \<Rightarrow> None
      | ITE l n e r \<Rightarrow>
          (case body n e s of
             (delete, s') \<Rightarrow>
               (case ipc_splay_traverse_next current parent delete of
                  None \<Rightarrow> None
                | Some t \<Rightarrow> traverse_loop fuel body t s')))"

definition splay_traverse ::
  "(mach_port_t \<Rightarrow> 'e \<Rightarrow> 's \<Rightarrow> bool \<times> 's) \<Rightarrow> 'e ipc_splay_tree \<Rightarrow> 's \<Rightarrow> ('e ipc_splay_tree \<times> 's) option" where
  "splay_traverse body splay s =
     (case traverse_loop (length (contents splay)) body (ipc_splay_traverse_start splay) s of
        None \<Rightarrow> None
      | Some (root, s') \<Rightarrow> Some (ipc_splay_traverse_finish root splay, s'))"

text \<open>The specification of such a loop: a left fold that also collects the kept entries.\<close>

fun visit ::
  "(mach_port_t \<Rightarrow> 'e \<Rightarrow> 's \<Rightarrow> bool \<times> 's) \<Rightarrow> (mach_port_t \<times> 'e) list \<Rightarrow> 's \<Rightarrow>
     (mach_port_t \<times> 'e) list \<times> 's" where
  "visit body [] s = ([], s)"
| "visit body ((n, e) # xs) s =
     (case body n e s of
        (delete, s') \<Rightarrow>
          (case visit body xs s' of
             (kept, s'') \<Rightarrow> (if delete then kept else (n, e) # kept, s'')))"

text \<open>The entries to the left and right of the current subtree, and the traversed tree.\<close>

fun ctx_left :: "'e inverted list \<Rightarrow> (mach_port_t \<times> 'e) list" where
  "ctx_left [] = []"
| "ctx_left (InvL n e r # ps) = ctx_left ps"
| "ctx_left (InvR l n e # ps) = ctx_left ps @ inorder l @ [(n, e)]"

fun ctx_right :: "'e inverted list \<Rightarrow> (mach_port_t \<times> 'e) list" where
  "ctx_right [] = []"
| "ctx_right (InvL n e r # ps) = (n, e) # inorder r @ ctx_right ps"
| "ctx_right (InvR l n e # ps) = ctx_right ps"

text \<open>Entries already visited and kept, and entries still to come, from a traversal state.\<close>

fun trav_done :: "'e traversal \<Rightarrow> (mach_port_t \<times> 'e) list" where
  "trav_done (At_Entry current parent) = ctx_left parent @ inorder (ite_lchild current)"
| "trav_done (Finished root) = inorder root"

fun trav_todo :: "'e traversal \<Rightarrow> (mach_port_t \<times> 'e) list" where
  "trav_todo (At_Entry current parent) =
     (ite_name current, ite_entry current) # inorder (ite_rchild current) @ ctx_right parent"
| "trav_todo (Finished root) = []"

fun trav_ok :: "'e traversal \<Rightarrow> bool" where
  "trav_ok (At_Entry current parent) \<longleftrightarrow> current \<noteq> ITE_NULL"
| "trav_ok (Finished root) \<longleftrightarrow> True"

lemma traverse_left_spec:
  "t \<noteq> ITE_NULL \<Longrightarrow> trav_ok (traverse_left t ps) \<and> trav_done (traverse_left t ps) = ctx_left ps \<and>
     trav_todo (traverse_left t ps) = inorder t @ ctx_right ps"
  by (induction t ps rule: traverse_left.induct) auto

lemma traverse_back_spec:
  assumes "t \<noteq> ITE_NULL" and "sorted_keys (ctx_left ps @ inorder t @ ctx_right ps)"
  shows "\<exists>u. traverse_back t ps = Some u \<and> trav_ok u \<and>
           trav_done u = ctx_left ps @ inorder t \<and> trav_todo u = ctx_right ps"
  using assms
proof (induction t ps rule: traverse_back.induct)
  case (1 current)
  then show ?case by simp
next
  case (2 current p parent)
  show ?case
  proof (cases p)
    case (InvL n e r)
    have "ite_name current < n" using "2.prems" InvL
      by (cases current) (auto simp: sorted_wrt_append)
    with InvL show ?thesis by simp
  next
    case (InvR l n e)
    have "\<not> ite_name current < n" using "2.prems" InvR
      by (cases current) (auto simp: sorted_wrt_append)
    then show ?thesis using InvR "2.prems" "2.IH" [OF _ InvR] by simp
  qed
qed

lemma traverse_right_spec:
  assumes "sorted_keys (ctx_left ps @ inorder (ITE l n e r) @ ctx_right ps)"
  shows "\<exists>u. traverse_right (ITE l n e r) ps = Some u \<and> trav_ok u \<and>
           trav_done u = ctx_left ps @ inorder l @ [(n, e)] \<and>
           trav_todo u = inorder r @ ctx_right ps"
proof (cases "r = ITE_NULL")
  case True
  then show ?thesis using traverse_back_spec [of "ITE l n e r" ps] assms by simp
next
  case False
  then show ?thesis using traverse_left_spec [of r "InvR l n e # ps"] by simp
qed

text \<open>
  One call of \<^verbatim>\<open>ipc_splay_traverse_next\<close>: it moves to the next entry in symmetric order and
  drops the current one exactly when asked to.
\<close>

lemma traverse_next_spec:
  assumes sorted: "sorted_keys (ctx_left ps @ inorder (ITE l n e r) @ ctx_right ps)"
  shows "\<exists>u. ipc_splay_traverse_next (ITE l n e r) ps delete = Some u \<and> trav_ok u \<and>
           trav_done u = ctx_left ps @ inorder l @ (if delete then [] else [(n, e)]) \<and>
           trav_todo u = inorder r @ ctx_right ps"
proof -
  consider "\<not> delete" | (leaf) "delete" "l = ITE_NULL" "r = ITE_NULL"
    | (right) "delete" "l = ITE_NULL" "r \<noteq> ITE_NULL"
    | (left) "delete" "l \<noteq> ITE_NULL" "r = ITE_NULL"
    | (both) "delete" "l \<noteq> ITE_NULL" "r \<noteq> ITE_NULL" by blast
  then show ?thesis
  proof cases
    case 1
    then show ?thesis using traverse_right_spec [OF sorted] by simp
  next
    case leaf
    show ?thesis
    proof (cases ps)
      case (Cons p parent)
      show ?thesis
      proof (cases p)
        case (InvL pn pe pr)
        have "n < pn" using sorted Cons InvL leaf by (simp add: sorted_wrt_append)
        then show ?thesis using leaf Cons InvL by simp
      next
        case (InvR pl pn pe)
        have "\<not> n < pn" using sorted Cons InvR leaf by (auto simp: sorted_wrt_append)
        then show ?thesis
          using leaf Cons InvR sorted traverse_back_spec [of "ITE pl pn pe ITE_NULL" parent]
          by (simp add: sorted_wrt_append)
      qed
    qed (use leaf in simp)
  next
    case right
    then show ?thesis using traverse_left_spec [of r ps] by simp
  next
    case left
    have "sorted_keys (ctx_left ps @ inorder l @ ctx_right ps)"
      using sorted left sorted_keys_drop_middle [of "ctx_left ps @ inorder l" "[(n, e)]" "ctx_right ps"]
      by simp
    with left show ?thesis using traverse_back_spec [of l ps] by simp
  next
    case both
    have sl: "sorted_keys (inorder l)" using sorted by (simp add: sorted_wrt_append)
    obtain l' n' e' where big: "splay_largest l = ITE l' n' e' ITE_NULL"
      using splay_largest_spec(2,3) [OF both(2) sl] by (cases "splay_largest l") auto
    have inl: "inorder l = inorder l' @ [(n', e')]"
      using splay_largest_spec(1) [OF both(2) sl] big by simp
    have "sorted_keys (ctx_left ps @ inorder (ITE l' n' e' r) @ ctx_right ps)"
      using sorted by (simp add: inl sorted_wrt_append)
    from traverse_right_spec [OF this] show ?thesis using both by (simp add: big inl)
  qed
qed

lemma traverse_loop_spec:
  assumes "trav_ok t" and "sorted_keys (trav_done t @ trav_todo t)"
    and "length (trav_todo t) \<le> fuel"
  shows "\<exists>root. traverse_loop fuel body t s = Some (root, snd (visit body (trav_todo t) s)) \<and>
           inorder root = trav_done t @ fst (visit body (trav_todo t) s)"
  using assms
proof (induction fuel body t s rule: traverse_loop.induct)
  case (1 fuel body root s)
  then show ?case by simp
next
  case (2 body current parent s)
  then show ?case by simp
next
  case (3 fuel body current parent s)
  then obtain l n e r where c: "current = ITE l n e r" by (cases current) auto
  obtain delete s' where b: "body n e s = (delete, s')" by (cases "body n e s") auto
  have "sorted_keys (ctx_left parent @ inorder (ITE l n e r) @ ctx_right parent)"
    using "3.prems"(2) c by simp
  from traverse_next_spec [OF this, of delete] obtain u
    where u: "ipc_splay_traverse_next current parent delete = Some u" "trav_ok u"
      "trav_done u = ctx_left parent @ inorder l @ (if delete then [] else [(n, e)])"
      "trav_todo u = inorder r @ ctx_right parent" unfolding c by blast
  have "sorted_keys (trav_done u @ trav_todo u)"
    using "3.prems"(2) c u by (simp add: sorted_wrt_append)
  then have "\<exists>root. traverse_loop fuel body u s' = Some (root, snd (visit body (trav_todo u) s')) \<and>
           inorder root = trav_done u @ fst (visit body (trav_todo u) s')"
    using "3.IH" [OF c b [symmetric] u(1) u(2)] "3.prems"(3) c u(4) by simp
  then show ?case using c b u by (auto simp: split_beta)
qed

lemma visit_subset: "set (fst (visit body xs s)) \<subseteq> set xs"
proof (induction xs arbitrary: s)
  case (Cons x xs)
  then show ?case by (cases x) (auto simp: split_beta)
qed simp

lemma visit_sorted: "sorted_keys xs \<Longrightarrow> sorted_keys (fst (visit body xs s))"
proof (induction body xs s rule: visit.induct)
  case (2 body n e xs s)
  obtain d s' where b: "body n e s = (d, s')" by (cases "body n e s") auto
  have "sorted_keys (fst (visit body xs s'))" using "2.IH" [OF b [symmetric]] "2.prems" by simp
  moreover have "all_above (fst (visit body xs s')) n"
    using "2.prems" visit_subset [of body xs s'] by (auto simp: list_all_iff)
  ultimately show ?case by (auto simp: b split_beta list_all_iff)
qed simp

lemma traverse_spec:
  assumes inv: "splay_inv splay"
  shows "\<exists>splay'. splay_traverse body splay s = Some (splay', snd (visit body (contents splay) s)) \<and>
           splay_inv splay' \<and> contents splay' = fst (visit body (contents splay) s)"
proof -
  let ?t = "ipc_splay_traverse_start splay"
  have start: "trav_ok ?t \<and> trav_done ?t = [] \<and> trav_todo ?t = contents splay"
  proof (cases "ist_root splay = ITE_NULL")
    case False
    then show ?thesis
      using traverse_left_spec [of "ipc_splay_prim_assemble (ist_root splay) (ist_ltree splay)
          (ist_rtree splay)" "[]"]
      by (simp add: ipc_splay_traverse_start_def contents_def)
  qed (simp add: ipc_splay_traverse_start_def contents_def)
  then have "\<exists>root. traverse_loop (length (contents splay)) body ?t s =
                 Some (root, snd (visit body (contents splay) s)) \<and>
               inorder root = fst (visit body (contents splay) s)"
    using traverse_loop_spec [of ?t "length (contents splay)" body s] contents_sorted [OF inv]
    by auto
  then show ?thesis
    using visit_sorted [OF contents_sorted [OF inv], of body s]
    by (auto simp: splay_traverse_def ipc_splay_traverse_finish_def splay_inv_of_root)
qed

section \<open>The interface the entry layer uses\<close>

text \<open>
  What \<^verbatim>\<open>ipc_entry.c\<close> needs of its tree: an ordered finite map with lookup, insertion of a
  fresh name, deletion of a present one, splitting at a name and joining two disjoint
  ranges. A lookup may reorganise the tree, so it returns the new one.
\<close>

locale name_tree =
  fixes empty :: "'t"
    and lookup :: "'t \<Rightarrow> mach_port_t \<Rightarrow> 't \<times> 'e option"
    and insert :: "'t \<Rightarrow> mach_port_t \<Rightarrow> 'e \<Rightarrow> 't"
    and delete :: "'t \<Rightarrow> mach_port_t \<Rightarrow> 't"
    and split :: "'t \<Rightarrow> mach_port_t \<Rightarrow> 't \<times> 't"
    and join :: "'t \<Rightarrow> 't \<Rightarrow> 't \<times> 't"
    and invar :: "'t \<Rightarrow> bool"
    and alist :: "'t \<Rightarrow> (mach_port_t \<times> 'e) list"
  assumes empty_law: "invar empty \<and> alist empty = []"
    and sorted_law: "invar t \<Longrightarrow> sorted_keys (alist t)"
    and lookup_law: "invar t \<Longrightarrow> lookup t n = (t', res) \<Longrightarrow>
        invar t' \<and> alist t' = alist t \<and> res = map_of (alist t) n"
    and insert_law: "invar t \<Longrightarrow> map_of (alist t) n = None \<Longrightarrow>
        invar (insert t n e) \<and> alist (insert t n e) = insert_key n e (alist t)"
    and delete_law: "invar t \<Longrightarrow> map_of (alist t) n \<noteq> None \<Longrightarrow>
        invar (delete t n) \<and> alist (delete t n) = filter (\<lambda>p. fst p \<noteq> n) (alist t)"
    and split_law: "invar t \<Longrightarrow> split t n = (big, small) \<Longrightarrow>
        invar big \<and> invar small \<and> alist big = filter (\<lambda>p. n \<le> fst p) (alist t) \<and>
        alist small = filter (\<lambda>p. fst p < n) (alist t)"
    and join_law: "invar t \<Longrightarrow> invar s \<Longrightarrow>
        \<forall>p\<in>set (alist s). \<forall>q\<in>set (alist t). fst p < fst q \<Longrightarrow> join t s = (t', s') \<Longrightarrow>
        invar t' \<and> alist t' = alist s @ alist t \<and> alist s' = []"
begin

lemma lookup_insert:
  assumes "invar t" and "map_of (alist t) n = None"
  shows "snd (lookup (insert t n e) m) = (if m = n then Some e else snd (lookup t m))"
proof -
  obtain t1 r1 t2 r2 where l: "lookup (insert t n e) m = (t1, r1)" "lookup t m = (t2, r2)"
    by (cases "lookup (insert t n e) m", cases "lookup t m") auto
  show ?thesis
    using lookup_law [OF _ l(1)] lookup_law [OF assms(1) l(2)] insert_law [OF assms] l
    by simp
qed

lemma lookup_delete:
  assumes "invar t" and "map_of (alist t) n \<noteq> None"
  shows "snd (lookup (delete t n) m) = (if m = n then None else snd (lookup t m))"
proof -
  obtain t1 r1 t2 r2 where l: "lookup (delete t n) m = (t1, r1)" "lookup t m = (t2, r2)"
    by (cases "lookup (delete t n) m", cases "lookup t m") auto
  show ?thesis
    using lookup_law [OF _ l(1)] lookup_law [OF assms(1) l(2)] delete_law [OF assms] l
    by (simp add: map_of_remove_key)
qed

lemma lookup_again:
  assumes "invar t"
  shows "snd (lookup (fst (lookup t n)) m) = snd (lookup t m)"
proof -
  obtain t1 r1 t2 r2 where l: "lookup t n = (t1, r1)" "lookup t m = (t2, r2)"
    by (cases "lookup t n", cases "lookup t m") auto
  obtain t3 r3 where l3: "lookup t1 m = (t3, r3)" by (cases "lookup t1 m") auto
  show ?thesis
    using lookup_law [OF assms l(1)] lookup_law [OF assms l(2)] lookup_law [OF _ l3] l l3
    by simp
qed

lemma join_split:
  assumes "invar t" and "split t n = (big, small)" and "join big small = (t', s')"
  shows "invar t' \<and> alist t' = alist t"
proof -
  note sp = split_law [OF assms(1,2)]
  have "\<forall>p\<in>set (alist small). \<forall>q\<in>set (alist big). fst p < fst q"
    using sp by auto
  from join_law [OF _ _ this assms(3)] sp
  have "invar t'" and j: "alist t' = alist small @ alist big" by auto
  moreover have "filter (\<lambda>p. fst p < n) xs @ filter (\<lambda>p. n \<le> fst p) xs = xs"
    if "sorted_keys xs" for xs :: "(mach_port_t \<times> 'e) list"
    using that
  proof (induction xs)
    case (Cons x xs)
    then show ?case
    proof (cases "fst x < n")
      case False
      then have "filter (\<lambda>p. fst p < n) xs = []"
        using Cons.prems by (auto simp: filter_empty_conv)
      with Cons False show ?thesis by (simp add: not_less)
    qed auto
  qed simp
  ultimately show ?thesis using sp sorted_law [OF assms(1)] by simp
qed

end

interpretation st: name_tree ipc_splay_tree_init ipc_splay_tree_lookup ipc_splay_tree_insert
  ipc_splay_tree_delete ipc_splay_tree_split ipc_splay_tree_join splay_inv contents
  by unfold_locales
     (blast dest: contents_sorted lookup_spec insert_spec delete_spec split_spec join_spec
      intro: contents_init splay_inv_init)+

section \<open>Sequences of operations\<close>

text \<open>
  A client's run: the operations in order, with the results of the lookups; and the same
  run on the abstract map. A run is well behaved when it inserts only names that are absent
  and deletes only names that are present, as \<^verbatim>\<open>ipc_entry.c\<close> does.
\<close>

datatype 'e splay_op =
    Op_Lookup mach_port_t
  | Op_Insert mach_port_t 'e
  | Op_Delete mach_port_t

fun run_splay :: "'e splay_op list \<Rightarrow> 'e ipc_splay_tree \<Rightarrow> 'e ipc_splay_tree \<times> 'e option list" where
  "run_splay [] splay = (splay, [])"
| "run_splay (Op_Lookup n # ops) splay =
     (let (splay', r) = ipc_splay_tree_lookup splay n;
          (splay'', rs) = run_splay ops splay'
      in (splay'', r # rs))"
| "run_splay (Op_Insert n e # ops) splay = run_splay ops (ipc_splay_tree_insert splay n e)"
| "run_splay (Op_Delete n # ops) splay = run_splay ops (ipc_splay_tree_delete splay n)"

fun run_map :: "'e splay_op list \<Rightarrow> (mach_port_t \<rightharpoonup> 'e) \<Rightarrow> (mach_port_t \<rightharpoonup> 'e) \<times> 'e option list" where
  "run_map [] m = (m, [])"
| "run_map (Op_Lookup n # ops) m = (let (m', rs) = run_map ops m in (m', m n # rs))"
| "run_map (Op_Insert n e # ops) m = run_map ops (m(n \<mapsto> e))"
| "run_map (Op_Delete n # ops) m = run_map ops (m(n := None))"

fun well_behaved :: "'e splay_op list \<Rightarrow> (mach_port_t \<rightharpoonup> 'e) \<Rightarrow> bool" where
  "well_behaved [] m \<longleftrightarrow> True"
| "well_behaved (Op_Lookup n # ops) m \<longleftrightarrow> well_behaved ops m"
| "well_behaved (Op_Insert n e # ops) m \<longleftrightarrow> m n = None \<and> well_behaved ops (m(n \<mapsto> e))"
| "well_behaved (Op_Delete n # ops) m \<longleftrightarrow> m n \<noteq> None \<and> well_behaved ops (m(n := None))"

lemma map_of_delete_upd:
  "map_of (filter (\<lambda>p. fst p \<noteq> n) xs) = (map_of xs)(n := None)"
  by (auto simp: fun_eq_iff map_of_remove_key)

lemma lower_bound_greatest:
  assumes "sorted_keys xs"
  shows "if \<exists>p\<in>set xs. fst p \<le> name
         then lower_bound name xs \<in> fst ` set xs \<and> lower_bound name xs \<le> name \<and>
              (\<forall>p\<in>set xs. fst p \<le> name \<longrightarrow> fst p \<le> lower_bound name xs)
         else lower_bound name xs = MACH_PORT_LARGEST"
proof (cases "\<exists>p\<in>set xs. fst p \<le> name")
  case True
  let ?ys = "filter (\<lambda>p. fst p \<le> name) xs"
  have ne: "?ys \<noteq> []" using True by (auto simp: filter_empty_conv)
  have lb: "lower_bound name xs = fst (last ?ys)" using ne by (simp add: lower_bound_def Let_def)
  have last: "last ?ys \<in> set ?ys" using ne by (rule last_in_set)
  have sorted: "sorted_keys ?ys" using assms by (rule sorted_keys_filter)
  obtain zs z where zs: "?ys = zs @ [z]" using ne by (cases ?ys rule: rev_cases) auto
  have "sorted_keys (zs @ [z])" using sorted zs by metis
  then have below: "fst p \<le> fst z" if "p \<in> set (zs @ [z])" for p
    using that by (auto simp: sorted_wrt_append)
  have "set (zs @ [z]) = {p \<in> set xs. fst p \<le> name}" using arg_cong [OF zs, of set] by simp
  then have "\<forall>p\<in>set xs. fst p \<le> name \<longrightarrow> fst p \<le> fst (last ?ys)"
    unfolding zs using below by auto
  then show ?thesis using True last lb by auto
next
  case False
  then have "filter (\<lambda>p. fst p \<le> name) xs = []" by (simp add: filter_empty_conv)
  then show ?thesis unfolding lower_bound_def Let_def using False by auto
qed

lemma upper_bound_least:
  assumes "sorted_keys xs"
  shows "if \<exists>p\<in>set xs. name \<le> fst p
         then upper_bound name xs \<in> fst ` set xs \<and> name \<le> upper_bound name xs \<and>
              (\<forall>p\<in>set xs. name \<le> fst p \<longrightarrow> upper_bound name xs \<le> fst p)
         else upper_bound name xs = MACH_PORT_SMALLEST"
proof (cases "\<exists>p\<in>set xs. name \<le> fst p")
  case True
  let ?ys = "filter (\<lambda>p. name \<le> fst p) xs"
  obtain y ys where ys: "?ys = y # ys" using True by (cases ?ys) (auto simp: filter_empty_conv)
  have ub: "upper_bound name xs = fst y" by (simp add: upper_bound_def ys)
  have sorted: "sorted_keys (y # ys)" using sorted_keys_filter [OF assms] ys by metis
  have "set (y # ys) = {p \<in> set xs. name \<le> fst p}" using arg_cong [OF ys, of set] by simp
  then have mem: "p \<in> set xs \<and> name \<le> fst p \<longleftrightarrow> p \<in> set (y # ys)" for p by auto
  show ?thesis using True mem [of y] sorted ub mem by fastforce
next
  case False
  then have "filter (\<lambda>p. name \<le> fst p) xs = []" by (simp add: filter_empty_conv)
  then show ?thesis unfolding upper_bound_def Let_def using False by auto
qed

section \<open>Properties\<close>

text \<open>
  C17: any well-behaved run of lookups, insertions and deletions on a splay tree returns
  exactly what the same run returns on the finite map the tree stands for, ends in a
  well-formed tree, and that tree stands for the final map.
\<close>

theorem splay_refines_map:
  assumes "splay_inv splay" and "well_behaved ops (map_of (contents splay))"
  shows "splay_inv (fst (run_splay ops splay)) \<and>
         map_of (contents (fst (run_splay ops splay))) = fst (run_map ops (map_of (contents splay))) \<and>
         snd (run_splay ops splay) = snd (run_map ops (map_of (contents splay)))"
  using assms
proof (induction ops splay rule: run_splay.induct)
  case (2 n ops splay)
  obtain splay' r where l: "ipc_splay_tree_lookup splay n = (splay', r)"
    by (cases "ipc_splay_tree_lookup splay n") auto
  note spec = lookup_spec [OF "2.prems"(1) l]
  show ?case using "2.IH" [of "(splay', r)" splay' r] "2.prems" spec
    by (simp add: l split_beta Let_def)
next
  case (3 n e ops splay)
  then have eq: "map_of (contents (ipc_splay_tree_insert splay n e)) = (map_of (contents splay))(n \<mapsto> e)"
    and inv: "splay_inv (ipc_splay_tree_insert splay n e)"
    using insert_spec [of splay n e] by (auto simp only: map_of_insert_key well_behaved.simps)
  show ?case using "3.IH" [unfolded eq] "3.prems" inv by (simp add: fun_upd_def)
next
  case (4 n ops splay)
  then have eq: "map_of (contents (ipc_splay_tree_delete splay n)) = (map_of (contents splay))(n := None)"
    and inv: "splay_inv (ipc_splay_tree_delete splay n)"
    using delete_spec [of splay n] by (simp_all add: map_of_delete_upd)
  show ?case using "4.IH" [unfolded eq] "4.prems" inv by (simp add: fun_upd_def)
qed simp

theorem splay_refines_map_witness:
  "snd (run_splay [Op_Insert 5 CHR ''a'', Op_Insert 3 CHR ''b'', Op_Lookup 5, Op_Insert 9 CHR ''c'',
                   Op_Delete 5, Op_Lookup 5, Op_Lookup 9] ipc_splay_tree_init) =
   [Some CHR ''a'', None, Some CHR ''c'']"
  using splay_refines_map [of ipc_splay_tree_init
    "[Op_Insert 5 CHR ''a'', Op_Insert 3 CHR ''b'', Op_Lookup 5, Op_Insert 9 CHR ''c'',
      Op_Delete 5, Op_Lookup 5, Op_Lookup 9]"]
  by simp

text \<open>
  A lookup finds the entry of a name exactly when the tree holds it, and the splaying
  it does keeps the entries, their order and the invariant, whatever the shape of the tree.
\<close>

theorem splay_lookup_correct:
  assumes "splay_inv splay"
  shows "(snd (ipc_splay_tree_lookup splay name) = Some e \<longleftrightarrow> (name, e) \<in> set (contents splay)) \<and>
         contents (fst (ipc_splay_tree_lookup splay name)) = contents splay \<and>
         splay_inv (fst (ipc_splay_tree_lookup splay name))"
  using lookup_spec [OF assms surjective_pairing, of name]
    sorted_keys_distinct [OF contents_sorted [OF assms]]
  by simp

theorem splay_lookup_correct_witness:
  "snd (ipc_splay_tree_lookup (ipc_splay_tree_insert ipc_splay_tree_init 7 True) 7) = Some True"
proof -
  have "contents (ipc_splay_tree_insert ipc_splay_tree_init 7 True) = [(7, True)]"
    and "splay_inv (ipc_splay_tree_insert ipc_splay_tree_init 7 True)"
    using insert_spec [of ipc_splay_tree_init 7 True] by (simp_all add: insert_key_def)
  then show ?thesis
    using splay_lookup_correct [of "ipc_splay_tree_insert ipc_splay_tree_init 7 True" 7 True]
    by simp
qed

text \<open>
  Splitting a tree at a name gives the entries from that name on and those below it, and
  joining the two gives back a tree with the original entries.
\<close>

theorem splay_split_join:
  assumes "splay_inv splay"
    and "ipc_splay_tree_split splay name = (big, small)"
    and "ipc_splay_tree_join big small = (splay', small')"
  shows "contents big = filter (\<lambda>p. name \<le> fst p) (contents splay) \<and>
         contents small = filter (\<lambda>p. fst p < name) (contents splay) \<and>
         splay_inv splay' \<and> contents splay' = contents splay"
  using split_spec(3,4) [OF assms(1,2)] st.join_split [OF assms] by simp

theorem splay_split_join_witness:
  "\<exists>big small splay' small'.
     ipc_splay_tree_split (splay_of_root (ITE (ITE ITE_NULL 2 CHR ''x'' ITE_NULL) 6 CHR ''y'' ITE_NULL)
       ipc_splay_tree_init) 4 = (big, small) \<and>
     ipc_splay_tree_join big small = (splay', small') \<and>
     contents small = [(2, CHR ''x'')] \<and> contents big = [(6, CHR ''y'')] \<and>
     contents splay' = [(2, CHR ''x''), (6, CHR ''y'')]"
proof -
  let ?t = "splay_of_root (ITE (ITE ITE_NULL 2 CHR ''x'' ITE_NULL) 6 CHR ''y'' ITE_NULL)
    ipc_splay_tree_init"
  obtain big small where s: "ipc_splay_tree_split ?t 4 = (big, small)"
    by (cases "ipc_splay_tree_split ?t 4") auto
  obtain splay' small' where j: "ipc_splay_tree_join big small = (splay', small')"
    by (cases "ipc_splay_tree_join big small") auto
  have "splay_inv ?t" by (rule splay_inv_of_root) simp
  from splay_split_join [OF this s j] s j show ?thesis by simp
qed

text \<open>
  \<^verbatim>\<open>ipc_splay_tree_bounds\<close> returns the largest name of the tree that is at most the given
  one and the smallest that is at least it; when there is no such name it returns the
  sentinel \<^verbatim>\<open>MACH_PORT_LARGEST\<close> as lower and \<^verbatim>\<open>MACH_PORT_SMALLEST\<close> as upper bound. The
  entries do not change.
\<close>

theorem splay_bounds_tight:
  assumes "splay_inv splay"
    and "ipc_splay_tree_bounds splay name = (splay', lower, upper)"
  shows "splay_inv splay' \<and> contents splay' = contents splay \<and>
         (if \<exists>p\<in>set (contents splay). fst p \<le> name
          then lower \<in> fst ` set (contents splay) \<and> lower \<le> name \<and>
               (\<forall>p\<in>set (contents splay). fst p \<le> name \<longrightarrow> fst p \<le> lower)
          else lower = MACH_PORT_LARGEST) \<and>
         (if \<exists>p\<in>set (contents splay). name \<le> fst p
          then upper \<in> fst ` set (contents splay) \<and> name \<le> upper \<and>
               (\<forall>p\<in>set (contents splay). name \<le> fst p \<longrightarrow> upper \<le> fst p)
          else upper = MACH_PORT_SMALLEST)"
  using bounds_spec [OF assms] lower_bound_greatest [OF contents_sorted [OF assms(1)], of name]
    upper_bound_least [OF contents_sorted [OF assms(1)], of name]
  by simp

theorem splay_bounds_tight_witness:
  "\<exists>splay' upper. ipc_splay_tree_bounds (splay_of_root (ITE ITE_NULL 2 () ITE_NULL)
     ipc_splay_tree_init) 5 = (splay', 2, upper) \<and> upper = MACH_PORT_SMALLEST"
proof -
  let ?t = "splay_of_root (ITE ITE_NULL 2 () ITE_NULL) ipc_splay_tree_init"
  obtain splay' lower upper where b: "ipc_splay_tree_bounds ?t 5 = (splay', lower, upper)"
    by (cases "ipc_splay_tree_bounds ?t 5") auto
  have "splay_inv ?t" by (rule splay_inv_of_root) simp
  from splay_bounds_tight [OF this b] b show ?thesis by auto
qed

text \<open>
  C18: a traversal with \<^verbatim>\<open>ipc_splay_traverse_start\<close>, \<^verbatim>\<open>_next\<close> and \<^verbatim>\<open>_finish\<close> terminates, hands every
  entry to the body exactly once and in increasing order of names, whichever entries the
  body deletes on the way, and leaves a well-formed tree with exactly the entries not
  deleted.
\<close>

theorem splay_traverse_visits:
  assumes "splay_inv splay"
  shows "\<exists>splay'. splay_traverse body splay s = Some (splay', snd (visit body (contents splay) s)) \<and>
           splay_inv splay' \<and> contents splay' = fst (visit body (contents splay) s)"
  using assms by (rule traverse_spec)

theorem splay_traverse_visits_witness:
  "\<exists>splay'. splay_traverse (\<lambda>n e s. (e, s @ [n]))
       (splay_of_root (ITE (ITE ITE_NULL 2 True ITE_NULL) 6 False (ITE ITE_NULL 8 True ITE_NULL))
          ipc_splay_tree_init) [] = Some (splay', [2, 6, 8]) \<and> contents splay' = [(6, False)]"
proof -
  let ?t = "splay_of_root (ITE (ITE ITE_NULL 2 True ITE_NULL) 6 False (ITE ITE_NULL 8 True ITE_NULL))
    ipc_splay_tree_init"
  have "splay_inv ?t" by (rule splay_inv_of_root) simp
  from splay_traverse_visits [OF this, of "\<lambda>n e s. (e, s @ [n])" "[]"] show ?thesis by auto
qed

end
