(* ===== verification/Hash_Interface.thy ===== *)
theory Hash_Interface
  imports Ipc_State
begin

text \<open>
  What a reverse hash table promises its clients: it stands for a finite map from keys to
  values, a lookup returns the map's value and may reorganise the table, and entering and
  removing bindings updates the map. \<open>enterable\<close> says which values the table may hold for a key;
  \<open>None\<close> as the result of an operation means that it does not return. Both tables of
  \<^verbatim>\<open>ipc_hash.c\<close> implement this interface.
\<close>

datatype ('k, 'v) hash_op =
    Lookup 'k
  | Enter 'k 'v
  | Remove 'k 'v

text \<open>The meaning of a sequence of operations on the map, with the results of its lookups.\<close>

fun map_run :: "('k, 'v) hash_op list \<Rightarrow> ('k \<rightharpoonup> 'v) \<Rightarrow> 'v option list \<times> ('k \<rightharpoonup> 'v)" where
  "map_run [] m = ([], m)"
| "map_run (Lookup k # ops) m = (let (rs, m') = map_run ops m in (m k # rs, m'))"
| "map_run (Enter k v # ops) m = map_run ops (m(k \<mapsto> v))"
| "map_run (Remove k v # ops) m = map_run ops (m(k := None))"

text \<open>The preconditions of the operations: new keys are entered, present bindings removed.\<close>

fun run_ok :: "('k \<Rightarrow> 'v \<Rightarrow> bool) \<Rightarrow> ('k, 'v) hash_op list \<Rightarrow> ('k \<rightharpoonup> 'v) \<Rightarrow> bool" where
  "run_ok ent [] m \<longleftrightarrow> True"
| "run_ok ent (Lookup k # ops) m \<longleftrightarrow> run_ok ent ops m"
| "run_ok ent (Enter k v # ops) m \<longleftrightarrow> m k = None \<and> ent k v \<and> run_ok ent ops (m(k \<mapsto> v))"
| "run_ok ent (Remove k v # ops) m \<longleftrightarrow> m k = Some v \<and> run_ok ent ops (m(k := None))"

text \<open>The same sequence on an implementation.\<close>

fun hash_run ::
  "('t \<Rightarrow> 'k \<Rightarrow> ('v option \<times> 't) option) \<Rightarrow> ('t \<Rightarrow> 'k \<Rightarrow> 'v \<Rightarrow> 't option) \<Rightarrow>
   ('t \<Rightarrow> 'k \<Rightarrow> 'v \<Rightarrow> 't option) \<Rightarrow> ('k, 'v) hash_op list \<Rightarrow> 't \<Rightarrow> ('v option list \<times> 't) option" where
  "hash_run lk ins del [] t = Some ([], t)"
| "hash_run lk ins del (Lookup k # ops) t =
     Option.bind (lk t k) (\<lambda>(r, t).
       map_option (\<lambda>(rs, t). (r # rs, t)) (hash_run lk ins del ops t))"
| "hash_run lk ins del (Enter k v # ops) t = Option.bind (ins t k v) (hash_run lk ins del ops)"
| "hash_run lk ins del (Remove k v # ops) t = Option.bind (del t k v) (hash_run lk ins del ops)"

locale reverse_hash =
  fixes rep :: "'t \<Rightarrow> ('k \<rightharpoonup> 'v) \<Rightarrow> bool"
    and enterable :: "'t \<Rightarrow> 'k \<Rightarrow> 'v \<Rightarrow> bool"
    and lk :: "'t \<Rightarrow> 'k \<Rightarrow> ('v option \<times> 't) option"
    and ins :: "'t \<Rightarrow> 'k \<Rightarrow> 'v \<Rightarrow> 't option"
    and del :: "'t \<Rightarrow> 'k \<Rightarrow> 'v \<Rightarrow> 't option"
  assumes lookup_law:
      "rep t m \<Longrightarrow> \<exists>t'. lk t k = Some (m k, t') \<and> rep t' m \<and> enterable t' = enterable t"
    and insert_law:
      "rep t m \<Longrightarrow> m k = None \<Longrightarrow> enterable t k v \<Longrightarrow>
         \<exists>t'. ins t k v = Some t' \<and> rep t' (m(k \<mapsto> v)) \<and> enterable t' = enterable t"
    and delete_law:
      "rep t m \<Longrightarrow> m k = Some v \<Longrightarrow>
         \<exists>t'. del t k v = Some t' \<and> rep t' (m(k := None)) \<and> enterable t' = enterable t"
begin

lemma run_refines:
  assumes "rep t m" and "run_ok (enterable t) ops m"
  shows "\<exists>t'. hash_run lk ins del ops t = Some (fst (map_run ops m), t') \<and>
           rep t' (snd (map_run ops m)) \<and> enterable t' = enterable t"
  using assms
proof (induction ops arbitrary: t m)
  case (Cons op ops)
  show ?case
  proof (cases op)
    case (Lookup k)
    obtain t1 where t1: "lk t k = Some (m k, t1)" "rep t1 m" "enterable t1 = enterable t"
      using lookup_law [OF Cons.prems(1)] by blast
    from Cons.IH [OF t1(2)] Cons.prems(2) t1 Lookup show ?thesis
      by (cases "map_run ops m") auto
  next
    case (Enter k v)
    with Cons.prems obtain t1 where
      t1: "ins t k v = Some t1" "rep t1 (m(k \<mapsto> v))" "enterable t1 = enterable t"
      using insert_law [OF Cons.prems(1), of k v] by auto
    from Cons.IH [OF t1(2)] Cons.prems(2) t1 Enter show ?thesis by (simp del: fun_upd_apply)
  next
    case (Remove k v)
    with Cons.prems obtain t1 where
      t1: "del t k v = Some t1" "rep t1 (m(k := None))" "enterable t1 = enterable t"
      using delete_law [OF Cons.prems(1), of k v] by auto
    from Cons.IH [OF t1(2)] Cons.prems(2) t1 Remove show ?thesis by (simp del: fun_upd_apply)
  qed
qed simp

end

end
