(* ===== verification/Hash_Local.thy ===== *)
theory Hash_Local
  imports Hash_Interface
begin

text \<open>
  The local reverse hash table of \<^verbatim>\<open>ipc_hash.c\<close>: open addressing with linear probing in the
  \<^verbatim>\<open>ie_index\<close> fields of the entry table of a space. The table maps the object of a pure send
  right to the index of its entry. Lookup, insertion and deletion are the loops of the code;
  the probing loops return because slot 0 of the entry table is never entered.

  The hash value of an object depends on its address, which the kernel's allocator chooses:
  the addresses are the parameter \<open>addr\<close>.
\<close>

section \<open>The table and its loops\<close>

text \<open>
  A table entry is an entry with the extra field \<^verbatim>\<open>ie_index\<close>. The free list of the table is
  linked through \<^verbatim>\<open>ie_next\<close>, which shares its storage with \<open>ie_request\<close>.
\<close>

record ipc_table_entry = ipc_entry +
  ie_index :: nat

type_synonym ipc_table = "ipc_table_entry list"

definition IH_LOCAL_HASH :: "(ipc_object \<Rightarrow> natural_t) \<Rightarrow> ipc_object \<Rightarrow> nat \<Rightarrow> nat" where
  "IH_LOCAL_HASH addr obj n = unat (drop_bit 6 (addr obj)) mod n"

text \<open>\<^verbatim>\<open>if (++hindex == size) hindex = 0;\<close>\<close>

definition next_slot :: "nat \<Rightarrow> nat \<Rightarrow> nat" where
  "next_slot n hindex = (if hindex + 1 = n then 0 else hindex + 1)"

partial_function (option) local_lookup_loop ::
  "ipc_table \<Rightarrow> ipc_object \<Rightarrow> nat \<Rightarrow> nat option option" where
  "local_lookup_loop table obj hindex =
     (let index = ie_index (table ! hindex)
      in if index = 0 then Some None
         else if ie_object (table ! index) = obj then Some (Some index)
         else local_lookup_loop table obj (next_slot (length table) hindex))"

definition ipc_hash_local_lookup ::
  "(ipc_object \<Rightarrow> natural_t) \<Rightarrow> ipc_table \<Rightarrow> ipc_object \<Rightarrow> nat option option" where
  "ipc_hash_local_lookup addr table obj =
     local_lookup_loop table obj (IH_LOCAL_HASH addr obj (length table))"

definition set_index :: "nat \<Rightarrow> nat \<Rightarrow> ipc_table \<Rightarrow> ipc_table" where
  "set_index hindex index table = table[hindex := (table ! hindex)\<lparr>ie_index := index\<rparr>]"

partial_function (option) local_insert_loop :: "ipc_table \<Rightarrow> nat \<Rightarrow> nat \<Rightarrow> ipc_table option" where
  "local_insert_loop table index hindex =
     (if ie_index (table ! hindex) \<noteq> 0
      then local_insert_loop table index (next_slot (length table) hindex)
      else Some (set_index hindex index table))"

definition ipc_hash_local_insert ::
  "(ipc_object \<Rightarrow> natural_t) \<Rightarrow> ipc_table \<Rightarrow> ipc_object \<Rightarrow> nat \<Rightarrow> ipc_table option" where
  "ipc_hash_local_insert addr table obj index =
     local_insert_loop table index (IH_LOCAL_HASH addr obj (length table))"

text \<open>The first loop of \<^verbatim>\<open>ipc_hash_local_delete\<close>: find the slot that holds the index.\<close>

partial_function (option) local_find_loop :: "ipc_table \<Rightarrow> nat \<Rightarrow> nat \<Rightarrow> nat option" where
  "local_find_loop table index hindex =
     (if ie_index (table ! hindex) \<noteq> index
      then local_find_loop table index (next_slot (length table) hindex)
      else Some hindex)"

text \<open>The test for an object at \<open>dindex\<close> that is displaced past the hole at \<open>hindex\<close>.\<close>

definition displaced :: "nat \<Rightarrow> nat \<Rightarrow> nat \<Rightarrow> bool" where
  "displaced hindex dindex tindex \<longleftrightarrow>
     (if dindex < hindex then dindex < tindex \<and> tindex \<le> hindex
      else dindex < tindex \<or> tindex \<le> hindex)"

text \<open>The inner loop: the next displaced slot with its index, or the end of the clump and 0.\<close>

partial_function (option) local_displaced_loop ::
  "(ipc_object \<Rightarrow> natural_t) \<Rightarrow> ipc_table \<Rightarrow> nat \<Rightarrow> nat \<Rightarrow> (nat \<times> nat) option" where
  "local_displaced_loop addr table hindex dindex =
     (let dindex = next_slot (length table) dindex;
          index = ie_index (table ! dindex)
      in if index = 0 then Some (dindex, 0)
         else if displaced hindex dindex
                   (IH_LOCAL_HASH addr (ie_object (table ! index)) (length table))
         then Some (dindex, index)
         else local_displaced_loop addr table hindex dindex)"

text \<open>The outer loop, from the hole \<open>hindex\<close>.\<close>

partial_function (option) local_delete_loop ::
  "(ipc_object \<Rightarrow> natural_t) \<Rightarrow> ipc_table \<Rightarrow> nat \<Rightarrow> ipc_table option" where
  "local_delete_loop addr table hindex =
     Option.bind (local_displaced_loop addr table hindex hindex) (\<lambda>(dindex, index).
       let table = set_index hindex index table
       in if index = 0 then Some table else local_delete_loop addr table dindex)"

definition ipc_hash_local_delete ::
  "(ipc_object \<Rightarrow> natural_t) \<Rightarrow> ipc_table \<Rightarrow> ipc_object \<Rightarrow> nat \<Rightarrow> ipc_table option" where
  "ipc_hash_local_delete addr table obj index =
     Option.bind (local_find_loop table index (IH_LOCAL_HASH addr obj (length table)))
       (local_delete_loop addr table)"

declare local_lookup_loop.simps [code] local_insert_loop.simps [code] local_find_loop.simps [code]
  local_displaced_loop.simps [code] local_delete_loop.simps [code]

section \<open>Cyclic distance\<close>

text \<open>How many steps of \<open>next_slot\<close> lead from one slot to another.\<close>

definition dist :: "nat \<Rightarrow> nat \<Rightarrow> nat \<Rightarrow> nat" where
  "dist n a b = (if a \<le> b then b - a else b + n - a)"

lemma next_slot_less [simp]: "h < n \<Longrightarrow> next_slot n h < n"
  by (simp add: next_slot_def)

lemma dist_refl [simp]: "dist n a a = 0"
  by (simp add: dist_def)

lemma dist_less: "a < n \<Longrightarrow> b < n \<Longrightarrow> dist n a b < n"
  by (auto simp: dist_def)

lemma dist_0: "a < n \<Longrightarrow> b < n \<Longrightarrow> dist n a b = 0 \<longleftrightarrow> a = b"
  by (auto simp: dist_def)

lemma dist_next: "a < n \<Longrightarrow> b < n \<Longrightarrow> a \<noteq> b \<Longrightarrow> dist n a b = Suc (dist n (next_slot n a) b)"
  by (auto simp: dist_def next_slot_def split: if_splits)

lemma dist_next_right: "a < n \<Longrightarrow> b < n \<Longrightarrow> next_slot n b \<noteq> a \<Longrightarrow> dist n a (next_slot n b) = Suc (dist n a b)"
  by (auto simp: dist_def next_slot_def split: if_splits)

lemma dist_inj: "a < n \<Longrightarrow> b < n \<Longrightarrow> c < n \<Longrightarrow> dist n a b = dist n a c \<Longrightarrow> b = c"
  by (auto simp: dist_def split: if_splits)

text \<open>\<open>between n t x p\<close>: slot \<open>x\<close> is one of those probed before \<open>p\<close> when starting at \<open>t\<close>.\<close>

definition between :: "nat \<Rightarrow> nat \<Rightarrow> nat \<Rightarrow> nat \<Rightarrow> bool" where
  "between n t x p \<longleftrightarrow> dist n t x < dist n t p"

lemma displaced_between:
  assumes "h < n" "d < n" "t < n" "h \<noteq> d"
  shows "displaced h d t \<longleftrightarrow> between n t h d"
  using assms by (auto simp: displaced_def between_def dist_def)

text \<open>The facts about cyclic intervals the deletion needs.\<close>

lemma between_trans:
  "between n t x y \<Longrightarrow> between n t y p \<Longrightarrow> between n t x p"
  by (simp add: between_def)

lemma between_past:
  assumes "t < n" "h < n" "p < n" "z < n" and "between n t h p" and "dist n h z < dist n h p"
  shows "between n t z p"
  using assms by (auto simp: between_def dist_def split: if_splits)

section \<open>The invariant\<close>

text \<open>
  \<open>clumped n X home h\<close>: every index in the table \<open>X\<close>, the slot \<open>h\<close> apart, sits in the clump that starts
  at its home slot: the slots probed on the way to it are occupied, or are \<open>h\<close>.
\<close>

definition clumped :: "nat \<Rightarrow> (nat \<Rightarrow> nat) \<Rightarrow> (nat \<Rightarrow> nat) \<Rightarrow> nat set \<Rightarrow> bool" where
  "clumped n X home H \<longleftrightarrow>
     (\<forall>p x. p < n \<and> x < n \<and> p \<notin> H \<and> X p \<noteq> 0 \<and> between n (home (X p)) x p \<longrightarrow> X x \<noteq> 0 \<or> x \<in> H)"

lemma clumpedD:
  assumes "clumped n X home H" "p < n" "x < n" "p \<notin> H" "X p \<noteq> 0" "between n (home (X p)) x p"
  shows "X x \<noteq> 0 \<or> x \<in> H"
  using assms unfolding clumped_def by blast

lemma clumpedI:
  assumes "\<And>p x. p < n \<Longrightarrow> x < n \<Longrightarrow> p \<notin> H \<Longrightarrow> X p \<noteq> 0 \<Longrightarrow> between n (home (X p)) x p \<Longrightarrow>
             x \<notin> H \<Longrightarrow> X x \<noteq> 0"
  shows "clumped n X home H"
  using assms unfolding clumped_def by blast

definition home_slot :: "(ipc_object \<Rightarrow> natural_t) \<Rightarrow> ipc_table \<Rightarrow> nat \<Rightarrow> nat" where
  "home_slot addr table i = IH_LOCAL_HASH addr (ie_object (table ! i)) (length table)"

abbreviation hslot :: "ipc_table \<Rightarrow> nat \<Rightarrow> nat" where
  "hslot table h \<equiv> ie_index (table ! h)"

text \<open>
  The slots \<open>X\<close> hold exactly the indices in \<open>S\<close>, each once, and no two indices in \<open>S\<close> belong to
  the same object.
\<close>

definition hash_slots ::
  "nat \<Rightarrow> (nat \<Rightarrow> nat) \<Rightarrow> (nat \<Rightarrow> nat) \<Rightarrow> (nat \<Rightarrow> ipc_object) \<Rightarrow> nat set \<Rightarrow> bool" where
  "hash_slots n X home obj S \<longleftrightarrow>
     0 < n \<and> S \<subseteq> {0<..<n} \<and> inj_on obj S \<and> bij_betw X {h. h < n \<and> X h \<noteq> 0} S \<and> clumped n X home {}"

definition local_hash_ok :: "(ipc_object \<Rightarrow> natural_t) \<Rightarrow> ipc_table \<Rightarrow> nat set \<Rightarrow> bool" where
  "local_hash_ok addr table S \<longleftrightarrow>
     hash_slots (length table) (\<lambda>h. hslot table h) (home_slot addr table) (\<lambda>i. ie_object (table ! i)) S"

lemma local_hash_okD:
  assumes "local_hash_ok addr table S"
  shows "0 < length table" "table \<noteq> []" "S \<subseteq> {0<..<length table}" "inj_on (\<lambda>i. ie_object (table ! i)) S"
    "bij_betw (\<lambda>h. hslot table h) {h. h < length table \<and> hslot table h \<noteq> 0} S"
    "clumped (length table) (\<lambda>h. hslot table h) (home_slot addr table) {}"
  using assms by (auto simp: local_hash_ok_def hash_slots_def)

lemma hash_slots_cong:
  assumes "\<And>h. h < n \<Longrightarrow> X h = X' h"
    and "\<And>i. i \<in> S \<Longrightarrow> home i = home' i" and "\<And>i. i \<in> S \<Longrightarrow> obj i = obj' i"
    and "hash_slots n X home obj S"
  shows "hash_slots n X' home' obj' S"
proof -
  have inv: "0 < n" "S \<subseteq> {0<..<n}" "inj_on obj S" "bij_betw X {h. h < n \<and> X h \<noteq> 0} S"
    "clumped n X home {}" using assms(4) by (auto simp: hash_slots_def)
  have dom: "{h. h < n \<and> X' h \<noteq> 0} = {h. h < n \<and> X h \<noteq> 0}" using assms(1) by auto
  have "bij_betw X' {h. h < n \<and> X' h \<noteq> 0} S"
    unfolding dom using inv(4) assms(1) by (subst bij_betw_cong [where g = X]) auto
  moreover have "inj_on obj' S" using inv(3) assms(3) by (simp cong: inj_on_cong)
  moreover have "clumped n X' home' {}"
  proof (rule clumpedI)
    fix p x assume p: "p < n" "x < n" "X' p \<noteq> 0" "between n (home' (X' p)) x p"
    then have "X p \<in> S" using inv(4) assms(1) by (auto simp: bij_betw_def)
    with p clumpedD [OF inv(5) p(1,2)] assms(1,2) show "X' x \<noteq> 0" by auto
  qed
  ultimately show ?thesis using inv(1,2) by (simp add: hash_slots_def)
qed

lemma hash_slot_ex:
  assumes "bij_betw X {h. h < n \<and> X h \<noteq> 0} S" and "i \<in> S"
  obtains p where "p < n" "X p = i" "(i :: nat) \<noteq> 0"
  using bij_betw_imp_surj_on [OF assms(1)] assms(2) that by auto

lemma set_index_simps [simp]:
  "length (set_index h i table) = length table"
  "ie_object (set_index h i table ! j) = ie_object (table ! j)"
  "home_slot addr (set_index h i table) = home_slot addr table"
proof -
  show obj: "ie_object (set_index h i table ! j) = ie_object (table ! j)" for j
    by (cases "h < length table") (auto simp: set_index_def nth_list_update list_update_beyond)
  show "length (set_index h i table) = length table" by (simp add: set_index_def)
  then show "home_slot addr (set_index h i table) = home_slot addr table"
    by (simp add: home_slot_def fun_eq_iff obj)
qed

lemma hslot_set_index:
  "h < length table \<Longrightarrow> (\<lambda>x. hslot (set_index h i table) x) = (\<lambda>x. hslot table x)(h := i)"
  by (auto simp: set_index_def fun_eq_iff nth_list_update)

lemma home_less: "table \<noteq> [] \<Longrightarrow> home_slot addr table i < length table"
  by (simp add: home_slot_def IH_LOCAL_HASH_def)

lemma clumped_mono: "clumped n X home {} \<Longrightarrow> clumped n X home H"
  by (auto simp: clumped_def)

text \<open>There is a free slot: \<open>n\<close> slots cannot all hold different indices between 1 and \<open>n - 1\<close>.\<close>

lemma free_slot_exists:
  assumes "local_hash_ok addr table S"
  obtains z where "z < length table" "hslot table z = 0"
proof (rule ccontr)
  assume "\<not> thesis"
  then have "{h. h < length table \<and> hslot table h \<noteq> 0} = {..<length table}" using that by auto
  then have b: "bij_betw (\<lambda>h. hslot table h) {..<length table} S"
    using local_hash_okD(5) [OF assms] by simp
  from bij_betw_same_card [OF b] have "card S = length table" by simp
  moreover have "card S \<le> length table - 1" using card_mono [OF _ local_hash_okD(3) [OF assms]] by simp
  ultimately show False using local_hash_okD(1) [OF assms] by linarith
qed

section \<open>Lookup\<close>

lemma lookup_loop_spec:
  assumes "h < length table" "z < length table" "hslot table z = 0"
  shows "\<exists>r. local_lookup_loop table obj h = Some r \<and>
           (case r of
              Some i \<Rightarrow> i \<noteq> 0 \<and> ie_object (table ! i) = obj \<and> (\<exists>p<length table. hslot table p = i)
            | None \<Rightarrow> \<exists>e<length table. hslot table e = 0 \<and>
                (\<forall>x<length table. dist (length table) h x < dist (length table) h e \<longrightarrow>
                   ie_object (table ! hslot table x) \<noteq> obj))"
  using assms
proof (induction "dist (length table) h z" arbitrary: h rule: less_induct)
  case less
  let ?n = "length table" and ?i = "hslot table h"
  show ?case
  proof (cases "?i = 0 \<or> ie_object (table ! ?i) = obj")
    case True
    then show ?thesis using less.prems by (subst local_lookup_loop.simps) (auto simp: Let_def)
  next
    case False
    then have "h \<noteq> z" using less.prems by auto
    then have "dist ?n (next_slot ?n h) z < dist ?n h z" using dist_next less.prems by simp
    from less.hyps [OF this next_slot_less [OF less.prems(1)] less.prems(2,3)] obtain r where
      r: "local_lookup_loop table obj (next_slot ?n h) = Some r" and
      c: "case r of
              Some i \<Rightarrow> i \<noteq> 0 \<and> ie_object (table ! i) = obj \<and> (\<exists>p<length table. hslot table p = i)
            | None \<Rightarrow> \<exists>e<length table. hslot table e = 0 \<and>
                (\<forall>x<length table. dist ?n (next_slot ?n h) x < dist ?n (next_slot ?n h) e \<longrightarrow>
                   ie_object (table ! hslot table x) \<noteq> obj)" by blast
    have "local_lookup_loop table obj h = Some r"
      using False r by (subst local_lookup_loop.simps) (simp add: Let_def)
    moreover have "\<exists>e<?n. hslot table e = 0 \<and>
        (\<forall>x<?n. dist ?n h x < dist ?n h e \<longrightarrow> ie_object (table ! hslot table x) \<noteq> obj)" if "r = None"
    proof -
      from c that obtain e where e: "e < ?n" "hslot table e = 0"
        "\<forall>x<?n. dist ?n (next_slot ?n h) x < dist ?n (next_slot ?n h) e \<longrightarrow>
           ie_object (table ! hslot table x) \<noteq> obj" by auto
      have "ie_object (table ! hslot table x) \<noteq> obj" if "x < ?n" "dist ?n h x < dist ?n h e" for x
        using that e False less.prems(1) dist_next [of h ?n x] dist_next [of h ?n e]
        by (cases "x = h"; cases "e = h") auto
      with e show ?thesis by blast
    qed
    ultimately show ?thesis using c by (auto split: option.splits)
  qed
qed

lemma local_lookup_spec:
  assumes "local_hash_ok addr table S"
  shows "ipc_hash_local_lookup addr table obj = Some (if \<exists>i\<in>S. ie_object (table ! i) = obj
           then Some (THE i. i \<in> S \<and> ie_object (table ! i) = obj) else None)"
    and "i \<in> S \<Longrightarrow> ie_object (table ! i) = obj \<Longrightarrow> ipc_hash_local_lookup addr table obj = Some (Some i)"
    and "\<not> (\<exists>i\<in>S. ie_object (table ! i) = obj) \<Longrightarrow> ipc_hash_local_lookup addr table obj = Some None"
proof -
  let ?n = "length table" and ?h = "IH_LOCAL_HASH addr obj (length table)"
  note inv = local_hash_okD(2,4,5,6) [OF assms]
  have h: "?h < ?n" using inv(1) by (simp add: IH_LOCAL_HASH_def)
  obtain z where z: "z < ?n" "hslot table z = 0" using free_slot_exists [OF assms] .
  obtain r where r: "ipc_hash_local_lookup addr table obj = Some r"
    "case r of
              Some i \<Rightarrow> i \<noteq> 0 \<and> ie_object (table ! i) = obj \<and> (\<exists>p<?n. hslot table p = i)
            | None \<Rightarrow> \<exists>e<?n. hslot table e = 0 \<and>
                (\<forall>x<?n. dist ?n ?h x < dist ?n ?h e \<longrightarrow> ie_object (table ! hslot table x) \<noteq> obj)"
    using lookup_loop_spec [OF h z, of obj] unfolding ipc_hash_local_lookup_def by blast
  have found: "i \<in> S \<and> ie_object (table ! i) = obj" if "r = Some i" for i
    using r(2) that bij_betw_apply [OF inv(3)] by auto
  have complete: "r \<noteq> None" if i: "i \<in> S" "ie_object (table ! i) = obj" for i
  proof
    assume "r = None"
    then obtain e where e: "e < ?n" "hslot table e = 0"
      "\<And>x. x < ?n \<Longrightarrow> dist ?n ?h x < dist ?n ?h e \<Longrightarrow> ie_object (table ! hslot table x) \<noteq> obj"
      using r(2) by auto
    obtain p where p: "p < ?n" "hslot table p = i" "i \<noteq> 0"
      using hash_slot_ex [OF inv(3) i(1)] .
    have home: "home_slot addr table i = ?h" using that(2) by (simp add: home_slot_def)
    have "\<not> between ?n ?h e p" using clumpedD [OF inv(4) p(1) e(1)] p e(2) home by auto
    moreover have "dist ?n ?h p \<noteq> dist ?n ?h e" using dist_inj [OF h p(1) e(1)] p e(2) by auto
    ultimately have "dist ?n ?h p < dist ?n ?h e" by (simp add: between_def)
    from e(3) [OF p(1) this] p(2) that(2) show False by simp
  qed
  show some: "ipc_hash_local_lookup addr table obj = Some (Some i)"
    if "i \<in> S" "ie_object (table ! i) = obj" for i
    using complete [OF that] found inv(2) that r(1) by (auto simp: inj_on_def)
  show none: "ipc_hash_local_lookup addr table obj = Some None"
    if "\<not> (\<exists>i\<in>S. ie_object (table ! i) = obj)"
    using found that r(1) by (cases r) auto
  show "ipc_hash_local_lookup addr table obj = Some (if \<exists>i\<in>S. ie_object (table ! i) = obj
           then Some (THE i. i \<in> S \<and> ie_object (table ! i) = obj) else None)"
  proof (cases "\<exists>i\<in>S. ie_object (table ! i) = obj")
    case True
    then obtain i where i: "i \<in> S" "ie_object (table ! i) = obj" by blast
    then have "(THE i. i \<in> S \<and> ie_object (table ! i) = obj) = i"
      using inv(2) by (intro the_equality) (auto simp: inj_on_def)
    with True some [OF i] show ?thesis by simp
  qed (use none in simp)
qed

section \<open>Insertion\<close>

lemma insert_loop_spec:
  assumes "h < length table" "z < length table" "hslot table z = 0"
  shows "\<exists>e<length table. local_insert_loop table i h = Some (set_index e i table) \<and> hslot table e = 0 \<and>
           (\<forall>x<length table. between (length table) h x e \<longrightarrow> hslot table x \<noteq> 0)"
  using assms
proof (induction "dist (length table) h z" arbitrary: h rule: less_induct)
  case less
  let ?n = "length table"
  show ?case
  proof (cases "hslot table h = 0")
    case True
    then show ?thesis using less.prems
      by (subst local_insert_loop.simps) (auto simp: between_def)
  next
    case False
    then have "h \<noteq> z" using less.prems by auto
    then have "dist ?n (next_slot ?n h) z < dist ?n h z" using dist_next less.prems by simp
    from less.hyps [OF this next_slot_less [OF less.prems(1)] less.prems(2,3)] obtain e where e:
      "e < ?n" "local_insert_loop table i (next_slot ?n h) = Some (set_index e i table)"
      "hslot table e = 0" "\<And>x. x < ?n \<Longrightarrow> between ?n (next_slot ?n h) x e \<Longrightarrow> hslot table x \<noteq> 0" by blast
    have "hslot table x \<noteq> 0" if "x < ?n" "between ?n h x e" for x
    proof (cases "x = h")
      case False
      with that e(1) less.prems(1) dist_next [of h ?n x] dist_next [of h ?n e]
      have "between ?n (next_slot ?n h) x e" by (cases "e = h") (auto simp: between_def)
      with e(4) that(1) show ?thesis by blast
    qed (use \<open>hslot table h \<noteq> 0\<close> in simp)
    with e False show ?thesis by (subst local_insert_loop.simps) auto
  qed
qed

lemma local_insert_spec:
  assumes ok: "local_hash_ok addr table S"
    and i: "i \<notin> S" "0 < i" "i < length table" "ie_object (table ! i) = obj"
    and new: "\<forall>j\<in>S. ie_object (table ! j) \<noteq> obj"
  shows "\<exists>e<length table. ipc_hash_local_insert addr table obj i = Some (set_index e i table) \<and>
           local_hash_ok addr (set_index e i table) (insert i S)"
proof -
  let ?n = "length table" and ?X = "\<lambda>h. hslot table h" and ?h = "home_slot addr table i"
  note inv = local_hash_okD(2-6) [OF ok]
  obtain z where z: "z < ?n" "?X z = 0" using free_slot_exists [OF ok] .
  from insert_loop_spec [OF home_less [OF inv(1)] z] obtain e where e:
    "e < ?n" "local_insert_loop table i ?h = Some (set_index e i table)" "?X e = 0"
    "\<And>x. x < ?n \<Longrightarrow> between ?n ?h x e \<Longrightarrow> ?X x \<noteq> 0" by blast
  let ?t = "set_index e i table" and ?Y = "?X(e := i)"
  have dom: "{h. h < ?n \<and> ?Y h \<noteq> 0} = insert e {h. h < ?n \<and> ?X h \<noteq> 0}" using e(1) i(2) by auto
  have "bij_betw ?Y {h. h < ?n \<and> ?X h \<noteq> 0} S"
    using inv(4) e(3) by (subst bij_betw_cong [where g = ?X]) auto
  then have "bij_betw ?Y {h. h < ?n \<and> ?Y h \<noteq> 0} (insert i S)"
    unfolding dom using notIn_Un_bij_betw [of e "{h. h < ?n \<and> ?X h \<noteq> 0}" ?Y S] e(3) i(1)
    by auto
  moreover have "clumped ?n ?Y (home_slot addr table) {}"
    using inv(5) e(4) i(2) unfolding clumped_def by auto
  moreover have "inj_on (\<lambda>i. ie_object (table ! i)) (insert i S)" using inv(3) i(1,4) new by auto
  ultimately have "local_hash_ok addr ?t (insert i S)"
    using inv(1,2) i(2,3) unfolding local_hash_ok_def set_index_simps hslot_set_index [OF e(1)] hash_slots_def
    by simp
  moreover have "ipc_hash_local_insert addr table obj i = Some ?t"
    using e(2) i(4) by (simp add: ipc_hash_local_insert_def home_slot_def)
  ultimately show ?thesis using e(1) by blast
qed

section \<open>Deletion\<close>

lemma find_loop_spec:
  assumes "h < length table" "p < length table" "hslot table p = i"
  shows "\<exists>q<length table. local_find_loop table i h = Some q \<and> hslot table q = i"
  using assms
proof (induction "dist (length table) h p" arbitrary: h rule: less_induct)
  case less
  show ?case
  proof (cases "hslot table h = i")
    case True
    then show ?thesis using less.prems by (subst local_find_loop.simps) auto
  next
    case False
    then have "h \<noteq> p" using less.prems by auto
    then have "dist (length table) (next_slot (length table) h) p < dist (length table) h p"
      using dist_next less.prems by simp
    from less.hyps [OF this next_slot_less [OF less.prems(1)] less.prems(2,3)] False show ?thesis
      by (subst local_find_loop.simps) auto
  qed
qed

text \<open>
  The inner loop, started after the slots \<open>(h, d]\<close> have been found occupied and not displaced past
  \<open>h\<close>: it stops at the next slot, up to the free slot \<open>z\<close>, that is free or displaced.
\<close>

definition not_displaced :: "nat \<Rightarrow> (nat \<Rightarrow> nat) \<Rightarrow> (nat \<Rightarrow> nat) \<Rightarrow> nat \<Rightarrow> nat \<Rightarrow> bool" where
  "not_displaced n X home h m \<longleftrightarrow>
     (\<forall>x<n. 0 < dist n h x \<and> dist n h x < m \<longrightarrow> X x \<noteq> 0 \<and> \<not> between n (home (X x)) h x)"

lemma displaced_loop_spec:
  fixes table defines "n \<equiv> length table"
  assumes "h < n" "d < n" "z < n" "hslot table z = 0" "dist n h d < dist n h z"
    and "not_displaced n (\<lambda>x. hslot table x) (home_slot addr table) h (Suc (dist n h d))"
  shows "\<exists>e<n. local_displaced_loop addr table h d = Some (e, hslot table e) \<and>
           0 < dist n h e \<and> dist n h e \<le> dist n h z \<and>
           not_displaced n (\<lambda>x. hslot table x) (home_slot addr table) h (dist n h e) \<and>
           (hslot table e \<noteq> 0 \<longrightarrow> between n (home_slot addr table (hslot table e)) h e)"
  using assms(2-)
proof (induction "dist n h z - dist n h d" arbitrary: d rule: less_induct)
  case less
  let ?e = "next_slot n d"
  have e: "?e < n" "?e \<noteq> h" "dist n h ?e = Suc (dist n h d)"
    using less.prems dist_next_right [of h n d]
    by (auto simp: dist_def next_slot_def split: if_splits)
  have "home_slot addr table (hslot table ?e) < n"
    using less.prems(1) unfolding n_def by (intro home_less) auto
  then have disp: "displaced h ?e (IH_LOCAL_HASH addr (ie_object (table ! hslot table ?e)) n) \<longleftrightarrow>
      between n (home_slot addr table (hslot table ?e)) h ?e"
    using displaced_between less.prems(1) e(1,2) by (auto simp: home_slot_def n_def)
  show ?case
  proof (cases "hslot table ?e = 0 \<or> between n (home_slot addr table (hslot table ?e)) h ?e")
    case True
    have "local_displaced_loop addr table h d = Some (?e, hslot table ?e)"
      using True disp by (subst local_displaced_loop.simps) (auto simp: Let_def n_def)
    with True e less.prems show ?thesis by (intro exI [of _ ?e]) auto
  next
    case False
    have loop: "local_displaced_loop addr table h d = local_displaced_loop addr table h ?e"
      using False disp by (subst local_displaced_loop.simps) (auto simp: Let_def n_def)
    have nd: "not_displaced n (\<lambda>x. hslot table x) (home_slot addr table) h (Suc (dist n h ?e))"
      unfolding not_displaced_def
    proof (intro allI impI)
      fix x assume x: "x < n" "0 < dist n h x \<and> dist n h x < Suc (dist n h ?e)"
      show "hslot table x \<noteq> 0 \<and> \<not> between n (home_slot addr table (hslot table x)) h x"
      proof (cases "x = ?e")
        case True
        then show ?thesis using False by simp
      next
        case False
        then have "dist n h x \<noteq> dist n h ?e" using dist_inj [OF less.prems(1) x(1) e(1)] by blast
        then show ?thesis using less.prems(6) x e(3) by (simp add: not_displaced_def)
      qed
    qed
    have "?e \<noteq> z" using False less.prems(4) by auto
    then have "dist n h ?e < dist n h z"
      using dist_inj [OF less.prems(1) e(1) less.prems(3)] e(3) less.prems(5) by linarith
    from less.hyps [OF _ less.prems(1) e(1) less.prems(3,4) this nd] this e(3) show ?thesis
      unfolding loop by auto
  qed
qed

lemma dist_split:
  assumes "h < n" "d < n" "z < n" "dist n h d \<le> dist n h z"
  shows "dist n h z = dist n h d + dist n d z"
  using assms by (auto simp: dist_def split: if_splits)

text \<open>Filling the hole from the slot \<open>e\<close> the inner loop found.\<close>

lemma fill_hole_clumped:
  assumes c: "clumped n X home {h}" and lt: "h < n" "e < n" "0 < dist n h e" "\<And>i. home i < n"
    and nd: "not_displaced n X home h (dist n h e)"
    and e: "X e \<noteq> 0 \<longrightarrow> between n (home (X e)) h e" and h: "X h \<noteq> 0"
  shows "clumped n (X(h := X e)) home (if X e = 0 then {} else {e})"
proof (rule clumpedI)
  let ?Y = "X(h := X e)"
  have he: "h \<noteq> e" using lt(3) by auto
  fix p x
  assume p: "p < n" "x < n" "p \<notin> (if X e = 0 then {} else {e})" "?Y p \<noteq> 0"
    "between n (home (?Y p)) x p" "x \<notin> (if X e = 0 then {} else {e})"
  show "?Y x \<noteq> 0"
  proof (cases "p = h")
    case True
    then have "X e \<noteq> 0" "between n (home (X e)) x h" using p(4,5) by auto
    moreover from this e have "between n (home (X e)) x e" using between_trans by blast
    ultimately show ?thesis using clumpedD [OF c lt(2) p(2)] he by auto
  next
    case False
    then have q: "X p \<noteq> 0" "between n (home (X p)) x p" using p by auto
    have "X x \<noteq> 0 \<or> x = h" using clumpedD [OF c p(1,2) _ q] False by auto
    moreover have "X e \<noteq> 0" if "x = h"
    proof (rule ccontr)
      assume z: "\<not> X e \<noteq> 0"
      have "\<not> dist n h p < dist n h e"
        using nd p(1) q that False dist_0 [OF lt(1) p(1)] by (auto simp: not_displaced_def)
      moreover have "dist n h e \<noteq> dist n h p" using dist_inj [OF lt(1,2) p(1)] q(1) z by auto
      ultimately have "between n (home (X p)) e p"
        using between_past [OF lt(4) lt(1) p(1) lt(2)] q(2) that by simp
      from clumpedD [OF c p(1) lt(2) _ q(1) this] False z he show False by auto
    qed
    ultimately show ?thesis by auto
  qed
qed

text \<open>The deletion loop: \<open>S\<close> are the indices in the slots other than the hole.\<close>

lemma delete_loop_spec:
  assumes "h < length table" "z < length table" "hslot table z = 0" "hslot table h \<noteq> 0"
    and "clumped (length table) (\<lambda>x. hslot table x) (home_slot addr table) {h}"
    and "bij_betw (\<lambda>x. hslot table x) {x. x < length table \<and> hslot table x \<noteq> 0 \<and> x \<noteq> h} S"
  shows "\<exists>X table'. local_delete_loop addr table h = Some table' \<and>
           table' = map (\<lambda>i. (table ! i)\<lparr>ie_index := X i\<rparr>) [0..<length table] \<and>
           clumped (length table) X (home_slot addr table) {} \<and>
           bij_betw X {x. x < length table \<and> X x \<noteq> 0} S"
  using assms
proof (induction "dist (length table) h z" arbitrary: h table rule: less_induct)
  case less
  let ?n = "length table" and ?X = "\<lambda>x. hslot table x" and ?home = "home_slot addr table"
  have "h \<noteq> z" using less.prems(3,4) by auto
  then have lt: "dist ?n h h < dist ?n h z" using dist_0 less.prems(1,2) by (metis dist_refl gr0I)
  have "not_displaced ?n ?X ?home h (Suc (dist ?n h h))" by (auto simp: not_displaced_def)
  from displaced_loop_spec [OF less.prems(1,1,2,3) lt this] obtain e where e: "e < ?n"
    "local_displaced_loop addr table h h = Some (e, ?X e)" "0 < dist ?n h e" "dist ?n h e \<le> dist ?n h z"
    "not_displaced ?n ?X ?home h (dist ?n h e)" "?X e \<noteq> 0 \<longrightarrow> between ?n (?home (?X e)) h e" by blast
  have home: "?home i < ?n" for i using less.prems(1) by (intro home_less) auto
  let ?t = "set_index h (?X e) table" and ?Y = "?X(h := ?X e)"
  note c = fill_hole_clumped [OF less.prems(5,1) e(1,3) home e(5,6) less.prems(4)]
  have Y: "(\<lambda>x. hslot ?t x) = ?Y" by (rule hslot_set_index) (rule less.prems(1))
  have he: "h \<noteq> e" using e(3) by auto
  show ?case
  proof (cases "?X e = 0")
    case True
    have dom: "{x. x < ?n \<and> ?Y x \<noteq> 0} = {x. x < ?n \<and> ?X x \<noteq> 0 \<and> x \<noteq> h}" using True by auto
    have "bij_betw ?Y {x. x < ?n \<and> ?Y x \<noteq> 0} S"
      unfolding dom using less.prems(6) by (subst bij_betw_cong [where g = ?X]) auto
    moreover have "?t = map (\<lambda>i. (table ! i)\<lparr>ie_index := ?Y i\<rparr>) [0..<?n]"
      using less.prems(1) by (auto simp: set_index_def nth_list_update intro!: nth_equalityI)
    moreover have "local_delete_loop addr table h = Some ?t"
      using e(2) True by (subst local_delete_loop.simps) simp
    moreover have "clumped ?n ?Y ?home {}" using c True by simp
    ultimately show ?thesis by (intro exI [of _ ?Y] exI [of _ ?t] conjI)
  next
    case False
    have "dist ?n h z = dist ?n h e + dist ?n e z" using dist_split less.prems(1,2) e(1,4) by blast
    then have closer: "dist (length ?t) e z < dist ?n h z" using e(3) by simp
    let ?A = "{x. x < ?n \<and> ?X x \<noteq> 0 \<and> x \<noteq> h}" and ?g = "\<lambda>x. if x = h then e else x"
    have dom: "{x. x < length ?t \<and> hslot ?t x \<noteq> 0 \<and> x \<noteq> e} = insert h (?A - {e})"
      using False less.prems(1) he fun_cong [OF Y] by auto
    have "bij_betw ?g (insert h (?A - {e})) ?A"
      using False e(1) he by (auto simp: bij_betw_def inj_on_def image_def)
    from bij_betw_trans [OF this less.prems(6)] have "bij_betw (\<lambda>x. hslot ?t x) (insert h (?A - {e})) S"
      by (rule bij_betw_cong [THEN iffD1, rotated]) (auto simp: fun_cong [OF Y])
    then have b: "bij_betw (\<lambda>x. hslot ?t x) {x. x < length ?t \<and> hslot ?t x \<noteq> 0 \<and> x \<noteq> e} S"
      unfolding dom .
    have "hslot ?t z = 0" "hslot ?t e \<noteq> 0"
      using fun_cong [OF Y, of z] fun_cong [OF Y, of e] \<open>h \<noteq> z\<close> he less.prems(3) False by auto
    with less.hyps [OF closer _ _ _ _ _ b] e(1) less.prems(2) c False obtain X table' where
      "local_delete_loop addr ?t e = Some table'"
      "table' = map (\<lambda>i. (?t ! i)\<lparr>ie_index := X i\<rparr>) [0..<length ?t]"
      "clumped ?n X ?home {}" "bij_betw X {x. x < ?n \<and> X x \<noteq> 0} S"
      by (auto simp: Y)
    moreover from this(1) have "local_delete_loop addr table h = Some table'"
      using e(2) False by (subst local_delete_loop.simps) simp
    moreover have "(?t ! i)\<lparr>ie_index := X i\<rparr> = (table ! i)\<lparr>ie_index := X i\<rparr>" for i
      using less.prems(1) by (auto simp: set_index_def nth_list_update)
    ultimately show ?thesis by auto
  qed
qed

lemma delete_slot_bij:
  assumes "bij_betw X {x. x < n \<and> X x \<noteq> 0} S" and "h < n" "X h = i" "i \<in> S"
  shows "bij_betw X {x. x < n \<and> X x \<noteq> 0 \<and> x \<noteq> h} (S - {i :: nat})"
proof -
  have "{x. x < n \<and> X x \<noteq> 0 \<and> x \<noteq> h} = {x. x < n \<and> X x \<noteq> 0} - {h}" by auto
  moreover have "X h \<noteq> 0" using hash_slot_ex [OF assms(1,4)] assms(3) by metis
  ultimately show ?thesis using assms bij_betw_DiffI [OF assms(1), of "{h}" "{i}"]
    by (auto simp: bij_betw_def)
qed

lemma local_delete_spec:
  assumes ok: "local_hash_ok addr table S" and i: "i \<in> S" "ie_object (table ! i) = obj"
  shows "\<exists>X. let table' = map (\<lambda>j. (table ! j)\<lparr>ie_index := X j\<rparr>) [0..<length table]
             in ipc_hash_local_delete addr table obj i = Some table' \<and>
                local_hash_ok addr table' (S - {i})"
proof -
  let ?n = "length table" and ?X = "\<lambda>x. hslot table x"
  note inv = local_hash_okD [OF ok]
  obtain p where p: "p < ?n" "?X p = i" "i \<noteq> 0" using hash_slot_ex [OF inv(5) i(1)] .
  have "IH_LOCAL_HASH addr obj ?n < ?n" using inv(1) by (simp add: IH_LOCAL_HASH_def)
  from find_loop_spec [OF this p(1,2)] obtain h where h: "h < ?n" "?X h = i"
    "local_find_loop table i (IH_LOCAL_HASH addr obj ?n) = Some h" by blast
  obtain z where z: "z < ?n" "?X z = 0" using free_slot_exists [OF ok] .
  from delete_loop_spec [OF h(1) z _ clumped_mono [OF inv(6)] delete_slot_bij [OF inv(5) h(1,2) i(1)]]
  obtain X where X: "local_delete_loop addr table h =
      Some (map (\<lambda>j. (table ! j)\<lparr>ie_index := X j\<rparr>) [0..<?n])"
    "clumped ?n X (home_slot addr table) {}" "bij_betw X {x. x < ?n \<and> X x \<noteq> 0} (S - {i})"
    using h(2) p(3) by auto
  let ?t = "map (\<lambda>j. (table ! j)\<lparr>ie_index := X j\<rparr>) [0..<?n]"
  have obj: "ie_object (?t ! j) = ie_object (table ! j)" if "j < ?n" for j using that by simp
  have "hash_slots ?n X (home_slot addr table) (\<lambda>j. ie_object (table ! j)) (S - {i})"
    using X(2,3) inv(1,3,4) by (auto simp: hash_slots_def intro: inj_on_diff)
  then have "local_hash_ok addr ?t (S - {i})"
    unfolding local_hash_ok_def using inv(3) obj
    by (simp, elim hash_slots_cong [rotated -1]) (auto simp: home_slot_def subset_iff)
  moreover have "ipc_hash_local_delete addr table obj i = Some ?t"
    by (simp add: ipc_hash_local_delete_def h(3) X(1))
  ultimately show ?thesis by (intro exI [of _ X]) (simp only: Let_def)
qed

section \<open>The local table as a map\<close>

definition local_rep ::
  "(ipc_object \<Rightarrow> natural_t) \<Rightarrow> ipc_table \<Rightarrow> (ipc_object \<rightharpoonup> nat) \<Rightarrow> bool" where
  "local_rep addr table m \<longleftrightarrow>
     local_hash_ok addr table (ran m) \<and> (\<forall>obj i. m obj = Some i \<longrightarrow> ie_object (table ! i) = obj)"

definition local_enterable :: "ipc_table \<Rightarrow> ipc_object \<Rightarrow> nat \<Rightarrow> bool" where
  "local_enterable table obj i \<longleftrightarrow> 0 < i \<and> i < length table \<and> ie_object (table ! i) = obj"

definition local_lookup ::
  "(ipc_object \<Rightarrow> natural_t) \<Rightarrow> ipc_table \<Rightarrow> ipc_object \<Rightarrow> (nat option \<times> ipc_table) option" where
  "local_lookup addr table obj =
     map_option (\<lambda>r. (r, table)) (ipc_hash_local_lookup addr table obj)"

lemma local_lookup_rep:
  assumes "local_rep addr table m"
  shows "ipc_hash_local_lookup addr table obj = Some (m obj)"
proof (cases "m obj")
  case None
  then have "\<not> (\<exists>i\<in>ran m. ie_object (table ! i) = obj)"
    using assms by (auto simp: local_rep_def ran_def)
  with None local_lookup_spec(3) [of addr table "ran m" obj] assms show ?thesis
    by (simp add: local_rep_def)
next
  case (Some i)
  with local_lookup_spec(2) [of addr table "ran m" i obj] assms show ?thesis
    by (simp add: local_rep_def ranI)
qed

lemma local_insert_rep:
  assumes "local_rep addr table m" "m obj = None" "local_enterable table obj i"
  shows "\<exists>e<length table. ipc_hash_local_insert addr table obj i = Some (set_index e i table) \<and>
           local_rep addr (set_index e i table) (m(obj \<mapsto> i))"
proof -
  have "i \<notin> ran m" "\<forall>j\<in>ran m. ie_object (table ! j) \<noteq> obj"
    using assms by (auto simp: local_rep_def local_enterable_def ran_def)
  with local_insert_spec [of addr table "ran m" i obj] assms show ?thesis
    by (auto simp: local_rep_def local_enterable_def)
qed

lemma local_delete_rep:
  assumes "local_rep addr table m" "m obj = Some i"
  shows "\<exists>X. let table' = map (\<lambda>j. (table ! j)\<lparr>ie_index := X j\<rparr>) [0..<length table]
             in ipc_hash_local_delete addr table obj i = Some table' \<and>
                local_rep addr table' (m(obj := None))"
proof -
  have i: "i \<in> ran m" "ie_object (table ! i) = obj"
    using assms by (auto simp: local_rep_def intro: ranI)
  have uniq: "obj' = obj" if "m obj' = Some i" for obj' using that i(2) assms(1) by (auto simp: local_rep_def)
  have "ran (m(obj := None)) = ran m - {i}"
  proof (intro equalityI subsetI)
    fix j assume "j \<in> ran (m(obj := None))"
    then obtain obj' where "obj' \<noteq> obj" "m obj' = Some j" by (auto simp: ran_def split: if_splits)
    then show "j \<in> ran m - {i}" using uniq by (auto intro: ranI)
  next
    fix j assume "j \<in> ran m - {i}"
    then obtain obj' where "m obj' = Some j" "j \<noteq> i" by (auto simp: ran_def)
    then show "j \<in> ran (m(obj := None))" using assms(2) by (intro ranI [of _ obj']) auto
  qed
  moreover have "j < length table" if "m obj' = Some j" for obj' j
    using ranI [of m, OF that] assms(1) local_hash_okD(3) [of addr table "ran m"]
    by (auto simp: local_rep_def)
  moreover obtain X where "ipc_hash_local_delete addr table obj i =
        Some (map (\<lambda>j. (table ! j)\<lparr>ie_index := X j\<rparr>) [0..<length table])"
      "local_hash_ok addr (map (\<lambda>j. (table ! j)\<lparr>ie_index := X j\<rparr>) [0..<length table]) (ran m - {i})"
    using local_delete_spec [OF _ i, of addr] assms(1) by (auto simp: local_rep_def Let_def)
  ultimately show ?thesis
    using assms(1) by (intro exI [of _ X]) (simp add: local_rep_def Let_def)
qed

interpretation lh: reverse_hash "local_rep addr" local_enterable "local_lookup addr"
  "ipc_hash_local_insert addr" "ipc_hash_local_delete addr" for addr
proof
  show "\<exists>t'. local_lookup addr t k = Some (m k, t') \<and> local_rep addr t' m \<and>
          local_enterable t' = local_enterable t" if "local_rep addr t m" for t m k
    using that by (simp add: local_lookup_def local_lookup_rep)
  show "\<exists>t'. ipc_hash_local_insert addr t k v = Some t' \<and> local_rep addr t' (m(k \<mapsto> v)) \<and>
          local_enterable t' = local_enterable t"
    if "local_rep addr t m" "m k = None" "local_enterable t k v" for t m k v
    using local_insert_rep [OF that] by (auto simp: local_enterable_def fun_eq_iff)
  show "\<exists>t'. ipc_hash_local_delete addr t k v = Some t' \<and> local_rep addr t' (m(k := None)) \<and>
          local_enterable t' = local_enterable t"
    if "local_rep addr t m" "m k = Some v" for t m k v
    using local_delete_rep [OF that] by (auto simp: local_enterable_def fun_eq_iff Let_def)
qed

text \<open>
  C19: every sequence of lookups, entries of new objects and removals on the local reverse hash
  table of a space returns, and its lookups give what they give on a finite map from objects to
  table indices; the final table stands for the final map. In particular the removal of an
  index, which moves displaced indices up into the hole, loses none of the others.
\<close>

theorem local_hash_refines_map:
  assumes "local_rep addr table m" and "run_ok (local_enterable table) ops m"
  shows "\<exists>table'. hash_run (local_lookup addr) (ipc_hash_local_insert addr) (ipc_hash_local_delete addr)
             ops table = Some (fst (map_run ops m), table') \<and>
           local_rep addr table' (snd (map_run ops m))"
  using lh.run_refines [OF assms] by blast

text \<open>A table of four entries, three of them rights to ports whose addresses collide.\<close>

definition table4 :: ipc_table where
  "table4 = map (\<lambda>i. \<lparr>ie_bits = 0, ie_object = (if i = 0 then IO_NULL else IO_PORT i), ie_request = 0,
                      ie_index = 0\<rparr>) [0..<4]"

lemma table4_rep: "local_rep addr table4 (\<lambda>_. None)"
proof -
  have empty: "{h. h < 4 \<and> hslot table4 h \<noteq> 0} = {}" by (auto simp: table4_def)
  then have "clumped 4 (\<lambda>h. hslot table4 h) (home_slot addr table4) {}"
    by (intro clumpedI) blast
  moreover have "length table4 = 4" by (simp add: table4_def)
  ultimately show ?thesis
    using empty unfolding local_rep_def local_hash_ok_def hash_slots_def by (auto simp: bij_betw_def inj_on_def)
qed

theorem local_hash_refines_map_witness:
  "\<exists>table'. hash_run (local_lookup (\<lambda>_. 192)) (ipc_hash_local_insert (\<lambda>_. 192))
      (ipc_hash_local_delete (\<lambda>_. 192))
      [Enter (IO_PORT 1) 1, Enter (IO_PORT 2) 2, Enter (IO_PORT 3) 3, Remove (IO_PORT 1) 1,
       Lookup (IO_PORT 3), Lookup (IO_PORT 1)] table4 = Some ([Some 3, None], table')"
proof -
  let ?ops = "[Enter (IO_PORT 1) 1, Enter (IO_PORT 2) 2, Enter (IO_PORT 3) 3, Remove (IO_PORT 1) 1,
       Lookup (IO_PORT 3), Lookup (IO_PORT 1)]"
  have "run_ok (local_enterable table4) ?ops (\<lambda>_. None)"
    by (simp add: local_enterable_def table4_def nth_Cons')
  from local_hash_refines_map [OF table4_rep this, of "\<lambda>_. 192"] show ?thesis by auto
qed

end
