(* ===== verification/Hash_Global.thy ===== *)
theory Hash_Global
  imports Hash_Local
begin

text \<open>
  The global reverse hash table of \<^verbatim>\<open>ipc_hash.c\<close>: buckets of splay-tree entries of all spaces,
  with move-to-front on lookup. It maps a space and an object to the name of a pure send right
  that lives in the space's splay tree. Each space counts its entries in \<^verbatim>\<open>is_tree_hash\<close>.

  The addresses of spaces and objects, on which the hash value depends, are parameters.
\<close>

section \<open>Buckets and their operations\<close>

text \<open>A tree entry as the buckets see it: \<^verbatim>\<open>ite_space\<close>, \<^verbatim>\<open>ite_object\<close> and \<^verbatim>\<open>ite_name\<close>.\<close>

record ipc_hash_entry =
  ite_space :: space_id
  ite_object :: ipc_object
  ite_name :: mach_port_t

record ipc_hash_global =
  ihg_mask :: natural_t
  ihg_table :: "natural_t \<Rightarrow> ipc_hash_entry list"
  is_tree_hash :: "space_id \<Rightarrow> nat"

type_synonym addresses = "(space_id \<Rightarrow> natural_t) \<times> (ipc_object \<Rightarrow> natural_t)"

definition IH_GLOBAL_HASH :: "addresses \<Rightarrow> natural_t \<Rightarrow> space_id \<Rightarrow> ipc_object \<Rightarrow> natural_t" where
  "IH_GLOBAL_HASH addr m s obj = (drop_bit 4 (fst addr s) + drop_bit 6 (snd addr obj)) AND m"

text \<open>The search past the head of a bucket: the entry found, and the bucket without it.\<close>

fun bucket_search ::
  "space_id \<Rightarrow> ipc_object \<Rightarrow> ipc_hash_entry list \<Rightarrow> (ipc_hash_entry \<times> ipc_hash_entry list) option" where
  "bucket_search s obj [] = None"
| "bucket_search s obj (this # rest) =
     (if ite_object this = obj \<and> ite_space this = s then Some (this, rest)
      else map_option (\<lambda>(e, rest). (e, this # rest)) (bucket_search s obj rest))"

definition ipc_hash_global_lookup ::
  "addresses \<Rightarrow> ipc_hash_global \<Rightarrow> space_id \<Rightarrow> ipc_object \<Rightarrow> mach_port_t option \<times> ipc_hash_global" where
  "ipc_hash_global_lookup addr g s obj =
     (let b = IH_GLOBAL_HASH addr (ihg_mask g) s obj
      in case ihg_table g b of
           [] \<Rightarrow> (None, g)
         | this # rest \<Rightarrow>
             if ite_object this = obj \<and> ite_space this = s then (Some (ite_name this), g)
             else
               (case bucket_search s obj rest of
                  None \<Rightarrow> (None, g)
                | Some (e, rest) \<Rightarrow>
                    (Some (ite_name e),
                     g\<lparr>ihg_table := (ihg_table g)(b := e # this # rest)\<rparr>)))"

definition ipc_hash_global_insert ::
  "addresses \<Rightarrow> ipc_hash_global \<Rightarrow> space_id \<Rightarrow> ipc_object \<Rightarrow> mach_port_t \<Rightarrow> ipc_hash_global" where
  "ipc_hash_global_insert addr g s obj name =
     (let g = g\<lparr>is_tree_hash := (is_tree_hash g)(s := is_tree_hash g s + 1)\<rparr>;
          b = IH_GLOBAL_HASH addr (ihg_mask g) s obj;
          entry = \<lparr>ite_space = s, ite_object = obj, ite_name = name\<rparr>
      in g\<lparr>ihg_table := (ihg_table g)(b := entry # ihg_table g b)\<rparr>)"

text \<open>The unlinking loop: the entry itself leaves the bucket.\<close>

fun bucket_unlink :: "ipc_hash_entry \<Rightarrow> ipc_hash_entry list \<Rightarrow> ipc_hash_entry list" where
  "bucket_unlink entry [] = []"
| "bucket_unlink entry (this # rest) =
     (if this = entry then rest else this # bucket_unlink entry rest)"

definition ipc_hash_global_delete ::
  "addresses \<Rightarrow> ipc_hash_global \<Rightarrow> space_id \<Rightarrow> ipc_object \<Rightarrow> mach_port_t \<Rightarrow> ipc_hash_global" where
  "ipc_hash_global_delete addr g s obj name =
     (let g = g\<lparr>is_tree_hash := (is_tree_hash g)(s := is_tree_hash g s - 1)\<rparr>;
          b = IH_GLOBAL_HASH addr (ihg_mask g) s obj;
          entry = \<lparr>ite_space = s, ite_object = obj, ite_name = name\<rparr>
      in g\<lparr>ihg_table := (ihg_table g)(b := bucket_unlink entry (ihg_table g b))\<rparr>)"

section \<open>The table as a map\<close>

definition global_rep ::
  "addresses \<Rightarrow> ipc_hash_global \<Rightarrow> (space_id \<times> ipc_object \<rightharpoonup> mach_port_t) \<Rightarrow> bool" where
  "global_rep addr g m \<longleftrightarrow>
     finite (dom m) \<and>
     (\<forall>s. is_tree_hash g s = card {obj. (s, obj) \<in> dom m}) \<and>
     (\<forall>b. distinct (ihg_table g b)) \<and>
     (\<forall>b e. e \<in> set (ihg_table g b) \<longleftrightarrow>
        IH_GLOBAL_HASH addr (ihg_mask g) (ite_space e) (ite_object e) = b \<and>
        m (ite_space e, ite_object e) = Some (ite_name e))"

lemma global_repD:
  assumes "global_rep addr g m"
  shows "finite (dom m)" "is_tree_hash g s = card {obj. (s, obj) \<in> dom m}" "distinct (ihg_table g b)"
    "e \<in> set (ihg_table g b) \<longleftrightarrow>
        IH_GLOBAL_HASH addr (ihg_mask g) (ite_space e) (ite_object e) = b \<and>
        m (ite_space e, ite_object e) = Some (ite_name e)"
  using assms by (auto simp: global_rep_def)

lemma bucket_search_Some:
  "bucket_search s obj es = Some (e, rest) \<Longrightarrow>
     ite_object e = obj \<and> ite_space e = s \<and> set es = insert e (set rest) \<and>
     (distinct es \<longrightarrow> distinct rest \<and> e \<notin> set rest)"
  by (induction es arbitrary: rest) (auto split: if_splits)

lemma bucket_search_None:
  "bucket_search s obj es = None \<longleftrightarrow> (\<forall>e\<in>set es. \<not> (ite_object e = obj \<and> ite_space e = s))"
  by (induction es) auto

lemma bucket_unlink_remove1: "bucket_unlink e es = remove1 e es"
  by (induction es) auto

lemma global_lookup_rep:
  assumes "global_rep addr g m"
  shows "\<exists>g'. ipc_hash_global_lookup addr g s obj = (m (s, obj), g') \<and> global_rep addr g' m"
proof -
  let ?b = "IH_GLOBAL_HASH addr (ihg_mask g) s obj"
  note inv = global_repD [OF assms]
  have found: "m (s, obj) = Some (ite_name e)"
    if "e \<in> set (ihg_table g ?b)" "ite_object e = obj" "ite_space e = s" for e
    using inv(4) [of e ?b] that by simp
  have missing: "m (s, obj) = None"
    if "\<forall>e\<in>set (ihg_table g ?b). \<not> (ite_object e = obj \<and> ite_space e = s)"
  proof (cases "m (s, obj)")
    case (Some n)
    then show ?thesis
      using inv(4) [of "\<lparr>ite_space = s, ite_object = obj, ite_name = n\<rparr>" ?b] that by auto
  qed
  show ?thesis
  proof (cases "ihg_table g ?b")
    case Nil
    with missing assms show ?thesis by (simp add: ipc_hash_global_lookup_def)
  next
    case (Cons this rest)
    show ?thesis
    proof (cases "ite_object this = obj \<and> ite_space this = s")
      case True
      with Cons found [of this] assms show ?thesis by (simp add: ipc_hash_global_lookup_def)
    next
      case False
      show ?thesis
      proof (cases "bucket_search s obj rest")
        case None
        then have "m (s, obj) = None" using missing Cons False by (auto simp: bucket_search_None)
        with None Cons False assms show ?thesis by (simp add: ipc_hash_global_lookup_def)
      next
        case (Some x)
        then obtain e rest' where e: "bucket_search s obj rest = Some (e, rest')" by (cases x) auto
        let ?g = "g\<lparr>ihg_table := (ihg_table g)(?b := e # this # rest')\<rparr>"
        note b = bucket_search_Some [OF e]
        have "distinct (e # this # rest')" "set (e # this # rest') = set (ihg_table g ?b)"
          using inv(3) [of ?b] b Cons by auto
        then have "global_rep addr ?g m" using assms by (simp add: global_rep_def)
        with e Cons False found [of e] b show ?thesis by (auto simp: ipc_hash_global_lookup_def)
      qed
    qed
  qed
qed

lemma keys_insert:
  "{obj'. (s', obj') \<in> dom (m((s, obj) \<mapsto> n))} =
     (if s' = s then insert obj {obj'. (s', obj') \<in> dom m} else {obj'. (s', obj') \<in> dom m})"
  by auto

lemma keys_delete:
  "{obj'. (s', obj') \<in> dom (m((s, obj) := None))} =
     (if s' = s then {obj'. (s', obj') \<in> dom m} - {obj} else {obj'. (s', obj') \<in> dom m})"
  by auto

lemma finite_keys: "finite (dom m) \<Longrightarrow> finite {obj. (s, obj) \<in> dom m}"
  by (rule finite_subset [of _ "snd ` dom m"]) force+

lemma global_insert_rep:
  assumes "global_rep addr g m" "m (s, obj) = None"
  shows "global_rep addr (ipc_hash_global_insert addr g s obj n) (m((s, obj) \<mapsto> n))"
proof -
  note inv = global_repD [OF assms(1)]
  have "obj \<notin> {obj. (s, obj) \<in> dom m}" using assms(2) by auto
  with inv(1,2) show ?thesis
    unfolding global_rep_def keys_insert ipc_hash_global_insert_def Let_def
    using finite_keys [OF inv(1)] inv(3) assms(2)
    by (auto simp: inv(4) ipc_hash_entry.splits(1))
qed

lemma global_delete_rep:
  assumes "global_rep addr g m" "m (s, obj) = Some n"
  shows "global_rep addr (ipc_hash_global_delete addr g s obj n) (m((s, obj) := None))"
proof -
  note inv = global_repD [OF assms(1)]
  have "obj \<in> {obj. (s, obj) \<in> dom m}" using assms(2) by auto
  with inv(1,2) show ?thesis
    unfolding global_rep_def keys_delete ipc_hash_global_delete_def Let_def bucket_unlink_remove1
    using finite_keys [OF inv(1)] inv(3) assms(2)
    by (auto simp: inv(4))
qed

section \<open>The global table implements the interface\<close>

definition global_lookup ::
  "addresses \<Rightarrow> ipc_hash_global \<Rightarrow> space_id \<times> ipc_object \<Rightarrow> (mach_port_t option \<times> ipc_hash_global) option" where
  "global_lookup addr g k = Some (ipc_hash_global_lookup addr g (fst k) (snd k))"

definition global_insert ::
  "addresses \<Rightarrow> ipc_hash_global \<Rightarrow> space_id \<times> ipc_object \<Rightarrow> mach_port_t \<Rightarrow> ipc_hash_global option" where
  "global_insert addr g k n = Some (ipc_hash_global_insert addr g (fst k) (snd k) n)"

definition global_delete ::
  "addresses \<Rightarrow> ipc_hash_global \<Rightarrow> space_id \<times> ipc_object \<Rightarrow> mach_port_t \<Rightarrow> ipc_hash_global option" where
  "global_delete addr g k n = Some (ipc_hash_global_delete addr g (fst k) (snd k) n)"

interpretation gh: reverse_hash "global_rep addr" "\<lambda>_ _ _. True" "global_lookup addr"
  "global_insert addr" "global_delete addr" for addr
proof
  show "\<exists>t'. global_lookup addr t k = Some (m k, t') \<and> global_rep addr t' m \<and>
          (\<lambda>_ _. True) = (\<lambda>_ _. True)" if "global_rep addr t m" for t m k
    using global_lookup_rep [OF that, of "fst k" "snd k"] by (simp add: global_lookup_def)
qed (auto simp: global_insert_def global_delete_def global_insert_rep global_delete_rep)

text \<open>
  C20: every sequence of lookups, entries of pairs that are not in the table and removals of exactly the
  bindings that are there, on the global reverse hash table, gives the
  results it gives on a finite map from pairs of a space and an object to names, and ends in a
  table for the final map: moving entries to the front of their bucket loses and duplicates
  none, and \<^verbatim>\<open>is_tree_hash\<close> counts the entries of each space.
\<close>

theorem global_hash_refines_map:
  assumes "global_rep addr g m" and "run_ok (\<lambda>_ _. True) ops m"
  shows "\<exists>g'. hash_run (global_lookup addr) (global_insert addr) (global_delete addr) ops g =
             Some (fst (map_run ops m), g') \<and>
           global_rep addr g' (snd (map_run ops m))"
  using gh.run_refines [OF assms] by blast

theorem global_hash_refines_map_witness:
  "\<exists>g'. hash_run (global_lookup (\<lambda>_. 0, \<lambda>_. 0)) (global_insert (\<lambda>_. 0, \<lambda>_. 0))
      (global_delete (\<lambda>_. 0, \<lambda>_. 0))
      [Enter (1, IO_PORT 1) 5, Enter (2, IO_PORT 1) 6, Lookup (1, IO_PORT 1), Remove (1, IO_PORT 1) 5,
       Lookup (1, IO_PORT 1), Lookup (2, IO_PORT 1)]
      \<lparr>ihg_mask = 31, ihg_table = (\<lambda>_. []), is_tree_hash = (\<lambda>_. 0)\<rparr> =
      Some ([Some 5, None, Some 6], g')"
proof -
  let ?g = "\<lparr>ihg_mask = 31, ihg_table = (\<lambda>_. []), is_tree_hash = (\<lambda>_. 0)\<rparr>"
  let ?ops = "[Enter (1 :: space_id, IO_PORT 1) (5 :: mach_port_t), Enter (2, IO_PORT 1) 6, Lookup (1, IO_PORT 1),
       Remove (1, IO_PORT 1) 5, Lookup (1, IO_PORT 1), Lookup (2, IO_PORT 1)]"
  have "global_rep (\<lambda>_. 0, \<lambda>_. 0) ?g (\<lambda>_. None)" by (simp add: global_rep_def)
  moreover have "run_ok (\<lambda>_ _. True) ?ops (\<lambda>_. None)" by simp
  ultimately show ?thesis using global_hash_refines_map by fastforce
qed

end
