(* ===== verification/Ipc_Entry.thy ===== *)
theory Ipc_Entry
  imports Splay Hash_Global Ipc_Port
begin

text \<open>
  The names of a space as \<^verbatim>\<open>ipc_entry.c\<close> stores them: a table for small names, whose free slots
  form a list headed by slot 0, a splay tree for the other names and for names whose table slot
  is taken, and the reverse hash tables. Each routine of the file is one definition.

  A pointer to an entry is an \<open>entry_ref\<close>: a table slot or a node of the tree. The size schedule
  \<^verbatim>\<open>ipc_table_entries\<close> is the parameter \<open>sizes\<close>, the addresses used for hashing are \<open>addr\<close>, and
  \<open>nomem\<close> says whether allocations fail. A routine runs with the space to itself, so that the
  branches for a space that another thread grows or destroys meanwhile are not taken. \<open>None\<close>
  stands for a loop that does not end or a failed traversal.
\<close>

section \<open>The state\<close>

text \<open>\<open>is_live\<close> is the C field \<^verbatim>\<open>is_active\<close>; \<open>is_hash\<close> is the global reverse hash table.\<close>

record ipc_names =
  is_live :: bool
  is_table :: ipc_table
  is_table_next :: nat
  is_tree :: "ipc_entry ipc_splay_tree"
  is_tree_total :: nat
  is_tree_small :: nat
  is_hash :: ipc_hash_global

datatype entry_ref =
    In_Table nat
  | In_Tree mach_port_t

abbreviation is_table_size :: "ipc_names \<Rightarrow> nat" where
  "is_table_size S \<equiv> length (is_table S)"

text \<open>\<^verbatim>\<open>ie_next\<close> shares its storage with \<^verbatim>\<open>ie_request\<close>.\<close>

abbreviation ie_next :: "ipc_table_entry \<Rightarrow> nat" where
  "ie_next \<equiv> ie_request"

definition name_index :: "mach_port_t \<Rightarrow> nat" where
  "name_index name = unat (MACH_PORT_INDEX name)"

definition make_name :: "nat \<Rightarrow> natural_t \<Rightarrow> mach_port_t" where
  "make_name index gen = MACH_PORT_MAKE (word_of_nat index) gen"

definition upd_slot :: "nat \<Rightarrow> (ipc_table_entry \<Rightarrow> ipc_table_entry) \<Rightarrow> ipc_table \<Rightarrow> ipc_table" where
  "upd_slot i f table = table[i := f (table ! i)]"

section \<open>Lookup and allocation\<close>

definition ipc_entry_tree_collision ::
  "ipc_entry ipc_splay_tree \<Rightarrow> mach_port_t \<Rightarrow> ipc_entry ipc_splay_tree \<times> bool" where
  "ipc_entry_tree_collision tree name =
     (let (tree, lower, upper) = ipc_splay_tree_bounds tree name;
          index = MACH_PORT_INDEX name
      in (tree, lower \<noteq> -1 \<and> MACH_PORT_INDEX lower = index \<or>
                upper \<noteq> 0 \<and> MACH_PORT_INDEX upper = index))"

definition tree_lookup :: "ipc_names \<Rightarrow> mach_port_t \<Rightarrow> entry_ref option \<times> ipc_names" where
  "tree_lookup S name =
     (let (tree, r) = ipc_splay_tree_lookup (is_tree S) name
      in (map_option (\<lambda>_. In_Tree name) r, S\<lparr>is_tree := tree\<rparr>))"

definition ipc_entry_lookup :: "ipc_names \<Rightarrow> mach_port_t \<Rightarrow> entry_ref option \<times> ipc_names" where
  "ipc_entry_lookup S name =
     (let index = name_index name
      in if index < is_table_size S then
           (let entry = is_table S ! index
            in if IE_BITS_GEN (ie_bits entry) \<noteq> MACH_PORT_GEN name then
                 (if test (ie_bits entry) IE_BITS_COLLISION then tree_lookup S name else (None, S))
               else if IE_BITS_TYPE (ie_bits entry) = MACH_PORT_TYPE_NONE then (None, S)
               else (Some (In_Table index), S))
         else if is_tree_total S = 0 then (None, S)
         else tree_lookup S name)"

definition ipc_entry_get :: "ipc_names \<Rightarrow> kern_return_t + mach_port_t \<times> nat \<times> ipc_names" where
  "ipc_entry_get S =
     (let table = is_table S;
          first_free = ie_next (table ! 0)
      in if first_free = 0 then Inl KERN_NO_SPACE
         else
           (let free_entry = table ! first_free;
                table = upd_slot 0 (ie_request_update (\<lambda>_. ie_next free_entry)) table;
                gen = ie_bits free_entry + IE_BITS_GEN_ONE;
                table = upd_slot first_free (\<lambda>e. e\<lparr>ie_bits := gen, ie_request := 0\<rparr>) table
            in Inr (make_name first_free gen, first_free, S\<lparr>is_table := table\<rparr>)))"

section \<open>Deallocation\<close>

text \<open>
  Moving the entry of a tree node into its table slot: the common part of \<^verbatim>\<open>ipc_entry_dealloc\<close>
  and \<^verbatim>\<open>ipc_entry_grow_table\<close>, with the change of reverse hash table for send rights.
\<close>

definition move_to_table ::
  "addresses \<Rightarrow> space_id \<Rightarrow> nat \<Rightarrow> mach_port_t \<Rightarrow> ipc_entry \<Rightarrow> ipc_table \<times> ipc_hash_global \<Rightarrow>
     (ipc_table \<times> ipc_hash_global) option" where
  "move_to_table addr space index tname tentry = (\<lambda>(table, hash).
     (let bits = ie_bits tentry; obj = ie_object tentry;
          table = upd_slot index (\<lambda>e. e\<lparr>ie_bits := bits OR MACH_PORT_GEN tname, ie_object := obj,
                                       ie_request := ie_request tentry\<rparr>) table
      in if IE_BITS_TYPE bits = MACH_PORT_TYPE_SEND
         then do {
           let hash = ipc_hash_global_delete addr hash space obj tname;
           table \<leftarrow> ipc_hash_local_insert (snd addr) table obj index;
           Some (table, hash)
         }
         else Some (table, hash)))"

text \<open>The branch for a table entry whose collision bit is on: an entry moves up from the tree.\<close>

definition dealloc_collision ::
  "addresses \<Rightarrow> space_id \<Rightarrow> nat \<Rightarrow> ipc_names \<Rightarrow> ipc_names option" where
  "dealloc_collision addr space index S =
     do {
       let (tree, collisions) = ipc_splay_tree_split (is_tree S) (make_name (index + 1) 0);
       let (collisions, small) = ipc_splay_tree_split collisions (make_name index 0);
       (tname, tentry) \<leftarrow> ipc_splay_tree_pick collisions;
       (table, hash) \<leftarrow> move_to_table addr space index tname tentry (is_table S, is_hash S);
       let collisions = ipc_splay_tree_delete collisions tname;
       let (table, tree) =
         (case ipc_splay_tree_pick collisions of
            None \<Rightarrow> (table, tree)
          | Some _ \<Rightarrow> (upd_slot index (ie_bits_update (\<lambda>b. b OR IE_BITS_COLLISION)) table,
                       fst (ipc_splay_tree_join tree collisions)));
       let tree = fst (ipc_splay_tree_join tree small);
       Some (S\<lparr>is_table := table, is_tree := tree, is_tree_total := is_tree_total S - 1, is_hash := hash\<rparr>)
     }"

definition dealloc_free :: "nat \<Rightarrow> ipc_table \<Rightarrow> ipc_table" where
  "dealloc_free index table =
     upd_slot 0 (ie_request_update (\<lambda>_. index))
       (upd_slot index (\<lambda>e. e\<lparr>ie_bits := ie_bits e AND IE_BITS_GEN_MASK, ie_request := ie_next (table ! 0)\<rparr>)
          table)"

definition dealloc_tree :: "nat list \<Rightarrow> mach_port_t \<Rightarrow> ipc_names \<Rightarrow> ipc_names" where
  "dealloc_tree sizes name S =
     (let index = name_index name;
          S = S\<lparr>is_tree := ipc_splay_tree_delete (is_tree S) name, is_tree_total := is_tree_total S - 1\<rparr>
      in if index < is_table_size S then
           (let (tree, collision) = ipc_entry_tree_collision (is_tree S) name;
                S = S\<lparr>is_tree := tree\<rparr>
            in if \<not> collision
               then S\<lparr>is_table := upd_slot index (ie_bits_update (\<lambda>b. b AND NOT IE_BITS_COLLISION)) (is_table S)\<rparr>
               else S)
         else if index < its_size sizes (is_table_next S) then
           (let (tree, collision) = ipc_entry_tree_collision (is_tree S) name;
                S = S\<lparr>is_tree := tree\<rparr>
            in if \<not> collision then S\<lparr>is_tree_small := is_tree_small S - 1\<rparr> else S)
         else S)"

fun ipc_entry_dealloc ::
  "addresses \<Rightarrow> nat list \<Rightarrow> space_id \<Rightarrow> mach_port_t \<Rightarrow> entry_ref \<Rightarrow> ipc_names \<Rightarrow> ipc_names option" where
  "ipc_entry_dealloc addr sizes space name (In_Table index) S =
     (if test (ie_bits (is_table S ! index)) IE_BITS_COLLISION then dealloc_collision addr space index S
      else Some (S\<lparr>is_table := dealloc_free index (is_table S)\<rparr>))"
| "ipc_entry_dealloc addr sizes space name (In_Tree tname) S = Some (dealloc_tree sizes name S)"

section \<open>Growing the table\<close>

definition ENTRY_BYTES :: nat where "ENTRY_BYTES = 16"
definition TREE_ENTRY_BYTES :: nat where "TREE_ENTRY_BYTES = 32"

text \<open>The body of the loop that moves tree entries into the new part of the table.\<close>

definition grow_move_body ::
  "addresses \<Rightarrow> space_id \<Rightarrow> mach_port_t \<Rightarrow> ipc_entry \<Rightarrow> (ipc_table \<times> ipc_hash_global \<times> nat) option \<Rightarrow>
     bool \<times> (ipc_table \<times> ipc_hash_global \<times> nat) option" where
  "grow_move_body addr space name tentry s =
     (case s of
        None \<Rightarrow> (False, None)
      | Some (table, hash, tot) \<Rightarrow>
          (let index = name_index name
           in if ie_bits (table ! index) \<noteq> 0
              then (False, Some (upd_slot index (ie_bits_update (\<lambda>b. b OR IE_BITS_COLLISION)) table,
                                 hash, tot))
              else (True, map_option (\<lambda>(table, hash). (table, hash, tot - 1))
                            (move_to_table addr space index name tentry (table, hash)))))"

text \<open>The loop that counts the entries for \<^verbatim>\<open>is_tree_small\<close>, with the last index seen.\<close>

definition grow_count_body ::
  "mach_port_t \<Rightarrow> ipc_entry \<Rightarrow> nat \<times> nat \<Rightarrow> bool \<times> nat \<times> nat" where
  "grow_count_body name tentry = (\<lambda>(nosmall, index).
     (False, if name_index name \<noteq> index then (nosmall + 1, name_index name) else (nosmall, index)))"

text \<open>The loop that puts old send rights into the reverse hash table again.\<close>

definition grow_rehash :: "addresses \<Rightarrow> nat \<Rightarrow> ipc_table \<Rightarrow> ipc_table option" where
  "grow_rehash addr osize table =
     fold (\<lambda>i t. Option.bind t (\<lambda>t.
        if IE_BITS_TYPE (ie_bits (t ! i)) = MACH_PORT_TYPE_SEND
        then ipc_hash_local_insert (snd addr) t (ie_object (t ! i)) i else Some t)) [0..<osize] (Some table)"

text \<open>The loop that links the unused new slots into the free list, from the last to the first.\<close>

definition grow_free :: "nat \<Rightarrow> nat \<Rightarrow> ipc_table \<Rightarrow> ipc_table" where
  "grow_free osize sz table =
     (let (table, free_index) =
        fold (\<lambda>i (table, free_index).
           if ie_bits (table ! i) = 0
           then (upd_slot i (\<lambda>e. e\<lparr>ie_bits := IE_BITS_GEN_MASK, ie_request := free_index\<rparr>) table, i)
           else (table, free_index))
         (rev [osize..<sz]) (table, ie_next (table ! 0))
      in upd_slot 0 (ie_request_update (\<lambda>_. free_index)) table)"

definition zero_slot :: ipc_table_entry where
  "zero_slot = \<lparr>ie_bits = 0, ie_object = IO_NULL, ie_request = 0, ie_index = 0\<rparr>"

text \<open>The part of the loop that deals with the splay tree.\<close>

definition grow_tree ::
  "addresses \<Rightarrow> space_id \<Rightarrow> nat \<Rightarrow> nat \<Rightarrow> nat \<Rightarrow> ipc_names \<Rightarrow> ipc_names option" where
  "grow_tree addr space osize sz nsize S =
     (if is_tree_total S = 0 then Some S
      else do {
        let (tree, small) = ipc_splay_tree_split (is_tree S) (make_name nsize 0);
        let (small, move) = ipc_splay_tree_split small (make_name sz 0);
        let (move, ignore) = ipc_splay_tree_split move (make_name osize 0);
        (move, s) \<leftarrow> splay_traverse (grow_move_body addr space) move
                      (Some (is_table S, is_hash S, is_tree_total S));
        (table, hash, tot) \<leftarrow> s;
        (small, nosmall, index) \<leftarrow> splay_traverse grow_count_body small (0, 0);
        let tree = fst (ipc_splay_tree_join tree small);
        let tree = fst (ipc_splay_tree_join tree move);
        let tree = fst (ipc_splay_tree_join tree ignore);
        Some (S\<lparr>is_table := table, is_hash := hash, is_tree_total := tot,
                is_tree_small := nosmall, is_tree := tree\<rparr>)
      })"

text \<open>One pass of the \<^verbatim>\<open>do\<close> loop, once the sizes are settled: \<open>its\<close> is the new size's index.\<close>

definition grow_to ::
  "addresses \<Rightarrow> nat list \<Rightarrow> space_id \<Rightarrow> nat \<Rightarrow> ipc_names \<Rightarrow> ipc_names option" where
  "grow_to addr sizes space its S =
     do {
       let osize = its_size sizes (is_table_next S - 1);
       let sz = its_size sizes its;
       let nsize = its_size sizes (its + 1);
       let table = map (ie_index_update (\<lambda>_. 0)) (take osize (is_table S)) @ replicate (sz - osize) zero_slot;
       table \<leftarrow> grow_rehash addr osize table;
       S \<leftarrow> grow_tree addr space osize sz nsize (S\<lparr>is_table := table, is_table_next := its + 1\<rparr>);
       Some (S\<lparr>is_table := grow_free osize sz (is_table S)\<rparr>)
     }"

text \<open>The search for a size of at least \<open>target\<close>, and the size before it.\<close>

fun grow_search :: "nat list \<Rightarrow> nat \<Rightarrow> nat \<Rightarrow> nat \<Rightarrow> nat \<Rightarrow> nat \<times> nat" where
  "grow_search sizes target psize its 0 = (psize, its)"
| "grow_search sizes target psize its (Suc fuel) =
     (if psize \<noteq> its_size sizes its \<and> target > its_size sizes its
      then grow_search sizes target (its_size sizes its) (its + 1) fuel else (psize, its))"

text \<open>
  \<^verbatim>\<open>ipc_entry_grow_table\<close>; \<open>target = None\<close> is \<^verbatim>\<open>ITS_SIZE_NONE\<close>. The search runs through at
  most all the sizes, which is its fuel. The second clause of the loop condition is
  evaluated on natural numbers, as the sizes increase.
\<close>

partial_function (option) ipc_entry_grow_table ::
  "addresses \<Rightarrow> nat list \<Rightarrow> bool \<Rightarrow> space_id \<Rightarrow> nat option \<Rightarrow> ipc_names \<Rightarrow>
     (kern_return_t \<times> ipc_names) option" where
  "ipc_entry_grow_table addr sizes nomem space target S =
     (let osize = its_size sizes (is_table_next S - 1);
          (early, its) =
            (case target of
               None \<Rightarrow> (None, is_table_next S)
             | Some target \<Rightarrow>
                 if target \<le> osize then (Some KERN_SUCCESS, is_table_next S)
                 else (let (psize, its) = grow_search sizes target osize (is_table_next S) (length sizes)
                       in (if psize = its_size sizes its then Some KERN_NO_SPACE else None, its)))
      in case early of
           Some kr \<Rightarrow> Some (kr, S)
         | None \<Rightarrow>
             if osize = its_size sizes its then Some (KERN_NO_SPACE, S)
             else if nomem then Some (KERN_RESOURCE_SHORTAGE, S)
             else Option.bind (grow_to addr sizes space its S) (\<lambda>S.
               if 0 < is_tree_small S \<and>
                  (its_size sizes (its + 1) - its_size sizes its) * ENTRY_BYTES <
                    is_tree_small S * TREE_ENTRY_BYTES
               then ipc_entry_grow_table addr sizes nomem space target S
               else Some (KERN_SUCCESS, S)))"

declare ipc_entry_grow_table.simps [code]

text \<open>The loop of \<^verbatim>\<open>ipc_entry_alloc\<close>.\<close>

partial_function (option) ipc_entry_alloc ::
  "addresses \<Rightarrow> nat list \<Rightarrow> bool \<Rightarrow> space_id \<Rightarrow> ipc_names \<Rightarrow>
     ((kern_return_t + mach_port_t \<times> nat) \<times> ipc_names) option" where
  "ipc_entry_alloc addr sizes nomem space S =
     (if \<not> is_live S then Some (Inl KERN_INVALID_TASK, S)
      else case ipc_entry_get S of
        Inr (name, index, S) \<Rightarrow> Some (Inr (name, index), S)
      | Inl _ \<Rightarrow>
          Option.bind (ipc_entry_grow_table addr sizes nomem space None S) (\<lambda>(kr, S).
            if kr \<noteq> KERN_SUCCESS then Some (Inl kr, S)
            else ipc_entry_alloc addr sizes nomem space S))"

declare ipc_entry_alloc.simps [code]

section \<open>Allocation of a given name\<close>

text \<open>The loop that rips slot \<open>index\<close> out of the free list, starting at \<open>free_index\<close>.\<close>

partial_function (option) free_list_rip :: "nat \<Rightarrow> nat \<Rightarrow> ipc_table \<Rightarrow> ipc_table option" where
  "free_list_rip index free_index table =
     (let next_index = ie_next (table ! free_index)
      in if next_index \<noteq> index then free_list_rip index next_index table
         else Some (upd_slot free_index (ie_request_update (\<lambda>_. ie_next (table ! next_index))) table))"

declare free_list_rip.simps [code]

text \<open>The last part of the loop: insert the tree entry that was allocated.\<close>

definition alloc_name_insert :: "nat list \<Rightarrow> mach_port_t \<Rightarrow> ipc_names \<Rightarrow> ipc_names" where
  "alloc_name_insert sizes name S =
     (let index = name_index name;
          S = S\<lparr>is_tree_total := is_tree_total S + 1\<rparr>;
          S = (if index < is_table_size S
               then S\<lparr>is_table := upd_slot index (ie_bits_update (\<lambda>b. b OR IE_BITS_COLLISION)) (is_table S)\<rparr>
               else if index < its_size sizes (is_table_next S) then
                 (let (tree, collision) = ipc_entry_tree_collision (is_tree S) name
                  in if \<not> collision then S\<lparr>is_tree := tree, is_tree_small := is_tree_small S + 1\<rparr>
                     else S\<lparr>is_tree := tree\<rparr>)
               else S)
      in S\<lparr>is_tree := ipc_splay_tree_insert (is_tree S) name
                        \<lparr>ie_bits = 0, ie_object = IO_NULL, ie_request = 0\<rparr>\<rparr>)"

text \<open>
  The loop of \<^verbatim>\<open>ipc_entry_alloc_name\<close>; \<open>tree_entry\<close> says whether a tree entry was allocated in an
  earlier round. The result is an error or the entry.
\<close>

partial_function (option) alloc_name_loop ::
  "addresses \<Rightarrow> nat list \<Rightarrow> bool \<Rightarrow> space_id \<Rightarrow> mach_port_t \<Rightarrow> bool \<Rightarrow> ipc_names \<Rightarrow>
     ((kern_return_t + entry_ref) \<times> ipc_names) option" where
  "alloc_name_loop addr sizes nomem space name tree_entry S =
     (let index = name_index name; gen = MACH_PORT_GEN name;
          entry = is_table S ! index;
          in_table = (0 < index \<and> index < is_table_size S)
      in if \<not> is_live S then Some (Inl KERN_INVALID_TASK, S)
         else if in_table \<and> IE_BITS_TYPE (ie_bits entry) \<noteq> MACH_PORT_TYPE_NONE \<and>
            IE_BITS_GEN (ie_bits entry) = gen
         then Some (Inr (In_Table index), S)
         else if in_table \<and> IE_BITS_TYPE (ie_bits entry) = MACH_PORT_TYPE_NONE
         then map_option (\<lambda>table. (Inr (In_Table index),
                S\<lparr>is_table := upd_slot index (\<lambda>e. e\<lparr>ie_bits := gen, ie_request := 0\<rparr>) table\<rparr>))
                (free_list_rip index 0 (is_table S))
         else
           (let (found, S) = (if 0 < is_tree_total S then tree_lookup S name else (None, S));
                its = is_table_next S
            in case found of
                 Some ref \<Rightarrow> Some (Inr ref, S)
               | None \<Rightarrow>
                   if is_table_size S \<le> index \<and> index < its_size sizes its \<and>
                      (its_size sizes its - is_table_size S) * ENTRY_BYTES <
                        (is_tree_small S + 1) * TREE_ENTRY_BYTES
                   then Option.bind (ipc_entry_grow_table addr sizes nomem space None S) (\<lambda>(kr, S).
                          if kr \<noteq> KERN_SUCCESS then Some (Inl kr, S)
                          else alloc_name_loop addr sizes nomem space name tree_entry S)
                   else if tree_entry then Some (Inr (In_Tree name), alloc_name_insert sizes name S)
                   else if nomem then Some (Inl KERN_RESOURCE_SHORTAGE, S)
                   else alloc_name_loop addr sizes nomem space name True S))"

declare alloc_name_loop.simps [code]

definition ipc_entry_alloc_name ::
  "addresses \<Rightarrow> nat list \<Rightarrow> bool \<Rightarrow> space_id \<Rightarrow> mach_port_t \<Rightarrow> ipc_names \<Rightarrow>
     ((kern_return_t + entry_ref) \<times> ipc_names) option" where
  "ipc_entry_alloc_name addr sizes nomem space name S =
     alloc_name_loop addr sizes nomem space name False S"

section \<open>The reverse hash tables together\<close>

text \<open>\<^verbatim>\<open>MACH_PORT_MAKEB(index, bits)\<close>.\<close>

definition MACH_PORT_MAKEB :: "nat \<Rightarrow> natural_t \<Rightarrow> mach_port_t" where
  "MACH_PORT_MAKEB index bits = make_name index (IE_BITS_GEN bits)"

definition ipc_hash_lookup ::
  "addresses \<Rightarrow> space_id \<Rightarrow> ipc_object \<Rightarrow> ipc_names \<Rightarrow> ((mach_port_t \<times> entry_ref) option \<times> ipc_names) option" where
  "ipc_hash_lookup addr space obj S =
     do {
       r \<leftarrow> ipc_hash_local_lookup (snd addr) (is_table S) obj;
       case r of
         Some index \<Rightarrow>
           Some (Some (MACH_PORT_MAKEB index (ie_bits (is_table S ! index)), In_Table index), S)
       | None \<Rightarrow>
           if 0 < is_tree_hash (is_hash S) space then
             (let (r, hash) = ipc_hash_global_lookup addr (is_hash S) space obj
              in Some (map_option (\<lambda>name. (name, In_Tree name)) r, S\<lparr>is_hash := hash\<rparr>))
           else Some (None, S)
     }"

fun ipc_hash_insert_ref ::
  "addresses \<Rightarrow> space_id \<Rightarrow> ipc_object \<Rightarrow> mach_port_t \<Rightarrow> entry_ref \<Rightarrow> ipc_names \<Rightarrow> ipc_names option" where
  "ipc_hash_insert_ref addr space obj name (In_Table index) S =
     map_option (\<lambda>table. S\<lparr>is_table := table\<rparr>) (ipc_hash_local_insert (snd addr) (is_table S) obj index)"
| "ipc_hash_insert_ref addr space obj name (In_Tree tname) S =
     Some (S\<lparr>is_hash := ipc_hash_global_insert addr (is_hash S) space obj name\<rparr>)"

fun ipc_hash_delete_ref ::
  "addresses \<Rightarrow> space_id \<Rightarrow> ipc_object \<Rightarrow> mach_port_t \<Rightarrow> entry_ref \<Rightarrow> ipc_names \<Rightarrow> ipc_names option" where
  "ipc_hash_delete_ref addr space obj name (In_Table index) S =
     map_option (\<lambda>table. S\<lparr>is_table := table\<rparr>) (ipc_hash_local_delete (snd addr) (is_table S) obj index)"
| "ipc_hash_delete_ref addr space obj name (In_Tree tname) S =
     Some (S\<lparr>is_hash := ipc_hash_global_delete addr (is_hash S) space obj name\<rparr>)"

end
