(* ===== verification/Entry_Names.thy ===== *)
theory Entry_Names
  imports Ipc_Entry
begin

text \<open>
  What the tables of a space stand for: the invariant of the entry table, its free list, the
  collision bits, the splay tree, its counters and the reverse hash tables, and the map from
  names to entries they represent.
\<close>

section \<open>Names as pairs of an index and a generation\<close>

lemma name_index_div: "name_index n = unat n div 256"
  by (simp add: name_index_def MACH_PORT_INDEX_def drop_bit_eq_div unat_div)

lemma name_index_less: "name_index n < 2 ^ 24"
  using unsigned_less [of n, where ?'a = nat] by (simp add: name_index_div less_mult_imp_div_less)

lemma bit_255: "bit (255 :: natural_t) k \<longleftrightarrow> k < 8"
proof -
  have "(255 :: natural_t) = Bit_Operations.mask 8" by (simp add: mask_eq_exp_minus_1)
  show ?thesis unfolding \<open>(255 :: natural_t) = _\<close> bit_mask_iff by (auto simp: possible_bit_word)
qed

lemma bit_gen_mask: "bit IE_BITS_GEN_MASK k \<longleftrightarrow> 24 \<le> k \<and> k < 32"
proof -
  have "IE_BITS_GEN_MASK = push_bit 24 (255 :: natural_t)" by (simp add: IE_BITS_GEN_MASK_def)
  show ?thesis unfolding \<open>IE_BITS_GEN_MASK = _\<close> bit_push_bit_iff bit_255 by auto
qed

lemma make_name_of: "make_name (name_index n) (MACH_PORT_GEN n) = n"
proof (rule bit_eqI)
  fix k assume "possible_bit TYPE(natural_t) k"
  then have "k < 32" by (simp add: possible_bit_word)
  moreover have "word_of_nat (name_index n) = MACH_PORT_INDEX n" by (simp add: name_index_def)
  ultimately show "bit (make_name (name_index n) (MACH_PORT_GEN n)) k = bit n k"
    unfolding make_name_def MACH_PORT_MAKE_def MACH_PORT_INDEX_def MACH_PORT_GEN_def
      bit_or_iff bit_and_iff bit_push_bit_iff bit_drop_bit_eq bit_255
    by (cases "k < 8") (auto simp: MACH_PORT_INDEX_def bit_drop_bit_eq)
qed

lemma word_index: "i < 2 ^ 24 \<Longrightarrow> bit (word_of_nat i :: natural_t) k \<Longrightarrow> k < 24"
proof (rule ccontr)
  assume i: "i < 2 ^ 24" and b: "bit (word_of_nat i :: natural_t) k" and "\<not> k < 24"
  then have "(2 :: nat) ^ 24 \<le> 2 ^ k" by (intro power_increasing) auto
  with i have "i div 2 ^ k = 0" by simp
  then have "\<not> bit i k" by (simp add: bit_iff_odd)
  with b show False by (simp add: bit_of_nat_iff)
qed

lemma MACH_PORT_INDEX_make: "i < 2 ^ 24 \<Longrightarrow> MACH_PORT_INDEX (make_name i g) = word_of_nat i"
proof (rule bit_eqI)
  fix k assume i: "i < 2 ^ 24" and "possible_bit TYPE(natural_t) k"
  then have "k < 32" by (simp add: possible_bit_word)
  moreover have "\<not> bit g (k + 32)" using bit_imp_le_length [of g "k + 32"] by auto
  ultimately show "bit (MACH_PORT_INDEX (make_name i g)) k = bit (word_of_nat i :: natural_t) k"
    using word_index [OF i, of k]
    by (auto simp: make_name_def MACH_PORT_MAKE_def MACH_PORT_INDEX_def
        bit_or_iff bit_and_iff bit_push_bit_iff bit_drop_bit_eq ac_simps)
qed

lemma name_index_make [simp]: "i < 2 ^ 24 \<Longrightarrow> name_index (make_name i g) = i"
  by (simp add: name_index_def MACH_PORT_INDEX_make unsigned_of_nat take_bit_nat_eq_self)

lemma gen_make: 
  assumes "IE_BITS_GEN g = g" shows "MACH_PORT_GEN (make_name i g) = g"
proof (rule bit_eqI)
  fix k assume "possible_bit TYPE(natural_t) k"
  then have "k < 32" by (simp add: possible_bit_word)
  moreover have "bit g k \<longleftrightarrow> bit g k \<and> bit IE_BITS_GEN_MASK k"
    using arg_cong [OF assms, of "\<lambda>x. bit x k"] by (simp add: IE_BITS_GEN_def bit_and_iff)
  ultimately show "bit (MACH_PORT_GEN (make_name i g)) k = bit g k"
    unfolding make_name_def MACH_PORT_MAKE_def MACH_PORT_GEN_def bit_gen_mask
      bit_or_iff bit_and_iff bit_push_bit_iff bit_drop_bit_eq bit_255
    by auto
qed

text \<open>Comparing a name with the smallest name of an index compares the indices.\<close>

lemma make_name_unat: "i < 2 ^ 24 \<Longrightarrow> unat (make_name i 0) = i * 256"
  by (simp add: make_name_def MACH_PORT_MAKE_def push_bit_eq_mult unat_word_ariths unsigned_of_nat
      take_bit_nat_eq_self)

lemma name_less_make: "i < 2 ^ 24 \<Longrightarrow> n < make_name i 0 \<longleftrightarrow> name_index n < i"
  by (simp add: word_less_nat_alt make_name_unat name_index_div div_less_iff_less_mult)

lemma make_name_le: "i < 2 ^ 24 \<Longrightarrow> make_name i 0 \<le> n \<longleftrightarrow> i \<le> name_index n"
  using name_less_make [of i n] by (simp add: not_less [symmetric])

section \<open>The fields of a table entry's word\<close>

text \<open>Words with nothing but a generation number, and words with only what belongs to the right.\<close>

definition gen_only :: "natural_t \<Rightarrow> bool" where
  "gen_only b \<longleftrightarrow> IE_BITS_GEN b = b"

definition right_only :: "natural_t \<Rightarrow> bool" where
  "right_only b \<longleftrightarrow> b AND IE_BITS_RIGHT_MASK = b"

lemma gen_only_simps [simp]: "gen_only (MACH_PORT_GEN n)" "gen_only (IE_BITS_GEN b)" "gen_only 0"
  "gen_only IE_BITS_GEN_MASK"
proof -
  show "gen_only (MACH_PORT_GEN n)"
    unfolding gen_only_def IE_BITS_GEN_def
  proof (rule bit_eqI)
    fix k assume "possible_bit TYPE(natural_t) k"
    then have "k < 32" by (simp add: possible_bit_word)
    then show "bit (MACH_PORT_GEN n AND IE_BITS_GEN_MASK) k = bit (MACH_PORT_GEN n) k"
      unfolding bit_and_iff bit_gen_mask MACH_PORT_GEN_def bit_push_bit_iff by auto
  qed
qed (simp_all add: gen_only_def IE_BITS_GEN_def IE_BITS_GEN_MASK_def and.assoc)

text \<open>A word is determined by its generation, its collision bit and the part of the right.\<close>

lemma gen_only_and: "gen_only b \<Longrightarrow> m AND IE_BITS_GEN_MASK = 0 \<Longrightarrow> b AND m = 0"
proof -
  assume g: "gen_only b" and m: "m AND IE_BITS_GEN_MASK = 0"
  have "b AND m = (b AND IE_BITS_GEN_MASK) AND m" using g by (simp add: gen_only_def IE_BITS_GEN_def)
  also have "\<dots> = b AND (m AND IE_BITS_GEN_MASK)" by (simp only: ac_simps)
  finally show "b AND m = 0" using m by simp
qed

lemma gen_only_fields [simp]:
  assumes "gen_only b"
  shows "IE_BITS_TYPE b = MACH_PORT_TYPE_NONE" "\<not> test b IE_BITS_COLLISION" "IE_BITS_GEN b = b"
  using assms gen_only_and [OF assms, of IE_BITS_TYPE_MASK] gen_only_and [OF assms, of IE_BITS_COLLISION]
  by (simp_all add: gen_only_def field_defs mask_defs MACH_PORT_TYPE_NONE_def)

lemma right_only_and: "right_only b \<Longrightarrow> m AND IE_BITS_RIGHT_MASK = 0 \<Longrightarrow> b AND m = 0"
proof -
  assume r: "right_only b" and m: "m AND IE_BITS_RIGHT_MASK = 0"
  have "b AND m = (b AND IE_BITS_RIGHT_MASK) AND m" using r by (simp add: right_only_def)
  also have "\<dots> = b AND (m AND IE_BITS_RIGHT_MASK)" by (simp only: ac_simps)
  finally show "b AND m = 0" using m by simp
qed

lemma right_only_fields:
  assumes "right_only b" and "gen_only g"
  shows "IE_BITS_TYPE (b OR g) = IE_BITS_TYPE b" "\<not> test (b OR g) IE_BITS_COLLISION"
    "IE_BITS_GEN (b OR g) = g" "(b OR g) AND IE_BITS_RIGHT_MASK = b"
proof -
  note r = right_only_and [OF assms(1)] and g = gen_only_and [OF assms(2)]
  have "g AND IE_BITS_TYPE_MASK = 0" "g AND IE_BITS_COLLISION = 0" "g AND IE_BITS_RIGHT_MASK = 0"
    "b AND IE_BITS_COLLISION = 0" "b AND IE_BITS_GEN_MASK = 0"
    by (rule g r, simp add: mask_defs)+
  then show "IE_BITS_TYPE (b OR g) = IE_BITS_TYPE b" "\<not> test (b OR g) IE_BITS_COLLISION"
    "IE_BITS_GEN (b OR g) = g" "(b OR g) AND IE_BITS_RIGHT_MASK = b"
    using assms by (simp_all add: field_defs bit.conj_disj_distrib2 right_only_def gen_only_def)
qed

lemma set_collision:
  "IE_BITS_TYPE (b OR IE_BITS_COLLISION) = IE_BITS_TYPE b" "test (b OR IE_BITS_COLLISION) IE_BITS_COLLISION"
  "IE_BITS_GEN (b OR IE_BITS_COLLISION) = IE_BITS_GEN b"
  "(b OR IE_BITS_COLLISION) AND IE_BITS_RIGHT_MASK = b AND IE_BITS_RIGHT_MASK"
  "IE_BITS_TYPE (b AND NOT IE_BITS_COLLISION) = IE_BITS_TYPE b"
  "\<not> test (b AND NOT IE_BITS_COLLISION) IE_BITS_COLLISION"
  "IE_BITS_GEN (b AND NOT IE_BITS_COLLISION) = IE_BITS_GEN b"
  "(b AND NOT IE_BITS_COLLISION) AND IE_BITS_RIGHT_MASK = b AND IE_BITS_RIGHT_MASK"
  by (simp_all add: field_defs mask_defs bit.conj_disj_distrib2 and.assoc)
     (metis and_zero_eq bit.conj_disj_distrib2 or_eq_0_iff and.idem numeral_neq_zero)?

lemma gen_only_take_bit: "gen_only b \<longleftrightarrow> take_bit 24 b = 0"
proof -
  have "gen_only b \<longleftrightarrow> (\<forall>k<32. bit b k \<longrightarrow> 24 \<le> k)"
    unfolding gen_only_def IE_BITS_GEN_def bit_eq_iff bit_and_iff bit_gen_mask
    by (auto simp: possible_bit_word)
  also have "\<dots> \<longleftrightarrow> take_bit 24 b = 0"
    unfolding bit_eq_iff bit_take_bit_iff by (auto simp: possible_bit_word)
  finally show ?thesis .
qed

lemma gen_only_mod: "gen_only b \<longleftrightarrow> unat b mod 2 ^ 24 = 0"
proof -
  have "unat (take_bit 24 b) = unat b mod 2 ^ 24"
    by (simp add: take_bit_eq_mod unat_mod)
  then show ?thesis unfolding gen_only_take_bit by (metis unat_eq_0)
qed

lemma next_gen:
  assumes "gen_only b" shows "gen_only (b + IE_BITS_GEN_ONE)"
proof -
  have "unat (b + IE_BITS_GEN_ONE) mod 2 ^ 24 = (unat b + 2 ^ 24) mod 2 ^ 32 mod 2 ^ 24"
    by (simp add: unat_word_ariths IE_BITS_GEN_ONE_def)
  also have "\<dots> = (unat b + 2 ^ 24) mod 2 ^ 24" by (rule mod_mod_cancel) simp
  finally show ?thesis using assms by (simp add: gen_only_mod)
qed

section \<open>What the tables stand for\<close>

text \<open>
  A routine that creates or removes an entry leaves one entry in between, neither free nor in
  use: the \<^emph>\<open>pending\<close> entry \<open>P\<close>. Its type and object are whatever the caller stored last, and it
  is in no reverse hash table.
\<close>

definition tree_map :: "ipc_names \<Rightarrow> mach_port_t \<rightharpoonup> ipc_entry" where
  "tree_map S = map_of (contents (is_tree S))"

definition in_use :: "entry_ref option \<Rightarrow> ipc_table \<Rightarrow> nat \<Rightarrow> bool" where
  "in_use P t i \<longleftrightarrow> 0 < i \<and> i < length t \<and>
     IE_BITS_TYPE (ie_bits (t ! i)) \<noteq> MACH_PORT_TYPE_NONE \<and> P \<noteq> Some (In_Table i)"

definition free_index :: "entry_ref option \<Rightarrow> ipc_table \<Rightarrow> nat \<Rightarrow> bool" where
  "free_index P t i \<longleftrightarrow> 0 < i \<and> i < length t \<and>
     IE_BITS_TYPE (ie_bits (t ! i)) = MACH_PORT_TYPE_NONE \<and> P \<noteq> Some (In_Table i)"

definition slot_name :: "ipc_table \<Rightarrow> nat \<Rightarrow> mach_port_t" where
  "slot_name t i = make_name i (IE_BITS_GEN (ie_bits (t ! i)))"

definition right_of :: "ipc_table_entry \<Rightarrow> ipc_entry" where
  "right_of e = \<lparr>ie_bits = ie_bits e AND IE_BITS_RIGHT_MASK, ie_object = ie_object e,
                 ie_request = ie_request e\<rparr>"

text \<open>The map from names to entries; the generation and collision bits are not part of it.\<close>

definition names :: "entry_ref option \<Rightarrow> ipc_names \<Rightarrow> mach_port_t \<rightharpoonup> ipc_entry" where
  "names P S n =
     (if in_use P (is_table S) (name_index n) \<and> slot_name (is_table S) (name_index n) = n
      then Some (right_of (is_table S ! name_index n))
      else if P = Some (In_Tree n) then None else tree_map S n)"

section \<open>The invariant\<close>

text \<open>The free list: a chain of slots through \<^verbatim>\<open>ie_next\<close>, from the given slot to 0.\<close>

fun chain :: "ipc_table \<Rightarrow> nat \<Rightarrow> nat list \<Rightarrow> bool" where
  "chain t i [] \<longleftrightarrow> ie_next (t ! i) = 0"
| "chain t i (j # js) \<longleftrightarrow> ie_next (t ! i) = j \<and> chain t j js"

definition table_ok :: "entry_ref option \<Rightarrow> ipc_table \<Rightarrow> bool" where
  "table_ok P t \<longleftrightarrow>
     0 < length t \<and>
     (\<exists>fl. chain t 0 fl \<and> distinct fl \<and> set fl = {i. free_index P t i}) \<and>
     (\<forall>i. free_index P t i \<longrightarrow> gen_only (ie_bits (t ! i)) \<and> ie_object (t ! i) = IO_NULL) \<and>
     ie_bits (t ! 0) AND NOT IE_BITS_COLLISION = IE_BITS_GEN_MASK \<and>
     (\<forall>i. P = Some (In_Table i) \<longrightarrow> 0 < i \<and> i < length t)"

definition tree_ok :: "entry_ref option \<Rightarrow> ipc_names \<Rightarrow> bool" where
  "tree_ok P S \<longleftrightarrow>
     splay_inv (is_tree S) \<and> is_tree_total S = length (contents (is_tree S)) \<and>
     (\<forall>n e. tree_map S n = Some e \<longrightarrow> right_only (ie_bits e) \<and> MACH_PORT_VALID n \<and>
        (P \<noteq> Some (In_Tree n) \<longrightarrow> IE_BITS_TYPE (ie_bits e) \<noteq> MACH_PORT_TYPE_NONE)) \<and>
     (\<forall>n. P = Some (In_Tree n) \<longrightarrow> tree_map S n \<noteq> None)"

text \<open>
  The collision bit of a slot says that the tree holds names with the slot's index, and the
  name of an occupied slot is not among them.
\<close>

definition collisions_ok :: "entry_ref option \<Rightarrow> ipc_names \<Rightarrow> bool" where
  "collisions_ok P S \<longleftrightarrow>
     (\<forall>i<is_table_size S.
        (test (ie_bits (is_table S ! i)) IE_BITS_COLLISION \<longleftrightarrow> (\<exists>n\<in>dom (tree_map S). name_index n = i)) \<and>
        (in_use P (is_table S) i \<or> P = Some (In_Table i) \<longrightarrow> tree_map S (slot_name (is_table S) i) = None))"

text \<open>\<^verbatim>\<open>is_tree_small\<close> counts the different indices in the tree that the next table size covers.\<close>

definition small_indices :: "nat list \<Rightarrow> ipc_names \<Rightarrow> nat set" where
  "small_indices sizes S =
     name_index ` {n \<in> dom (tree_map S). is_table_size S \<le> name_index n \<and>
                     name_index n < its_size sizes (is_table_next S)}"

definition schedule_ok :: "nat list \<Rightarrow> bool" where
  "schedule_ok sizes \<longleftrightarrow>
     2 \<le> length sizes \<and> 0 < sizes ! 0 \<and> sorted_wrt (<) (butlast sizes) \<and>
     last sizes = last (butlast sizes) \<and> last sizes < 2 ^ 24"

definition sizes_ok_for :: "nat list \<Rightarrow> ipc_names \<Rightarrow> bool" where
  "sizes_ok_for sizes S \<longleftrightarrow> is_live S \<and>
     0 < is_table_next S \<and> is_table_next S < length sizes \<and>
     is_table_size S = its_size sizes (is_table_next S - 1) \<and>
     is_tree_small S = card (small_indices sizes S)"

text \<open>
  The reverse hash tables hold the pure send rights: the local one those in the table, the
  global one those in the tree, and no object has two of them.
\<close>

definition send_slots :: "entry_ref option \<Rightarrow> ipc_table \<Rightarrow> nat set" where
  "send_slots P t = {i. in_use P t i \<and> IE_BITS_TYPE (ie_bits (t ! i)) = MACH_PORT_TYPE_SEND}"

definition tree_send :: "entry_ref option \<Rightarrow> ipc_names \<Rightarrow> mach_port_t \<Rightarrow> ipc_object \<Rightarrow> bool" where
  "tree_send P S n obj \<longleftrightarrow>
     (\<exists>e. tree_map S n = Some e \<and> IE_BITS_TYPE (ie_bits e) = MACH_PORT_TYPE_SEND \<and>
          ie_object e = obj \<and> P \<noteq> Some (In_Tree n))"

definition hash_ok :: "addresses \<Rightarrow> space_id \<Rightarrow> entry_ref option \<Rightarrow> ipc_names \<Rightarrow> bool" where
  "hash_ok addr space P S \<longleftrightarrow>
     local_hash_ok (snd addr) (is_table S) (send_slots P (is_table S)) \<and>
     (\<exists>m. global_rep addr (is_hash S) m \<and>
          (\<forall>n obj. m (space, obj) = Some n \<longleftrightarrow> tree_send P S n obj)) \<and>
     (\<forall>i n. i \<in> send_slots P (is_table S) \<longrightarrow> \<not> tree_send P S n (ie_object (is_table S ! i)))"

definition names_ok :: "addresses \<Rightarrow> nat list \<Rightarrow> space_id \<Rightarrow> entry_ref option \<Rightarrow> ipc_names \<Rightarrow> bool" where
  "names_ok addr sizes space P S \<longleftrightarrow>
     schedule_ok sizes \<and> sizes_ok_for sizes S \<and> table_ok P (is_table S) \<and> tree_ok P S \<and>
     collisions_ok P S \<and> hash_ok addr space P S"

lemma names_okD:
  assumes "names_ok addr sizes space P S"
  shows "schedule_ok sizes" "sizes_ok_for sizes S" "table_ok P (is_table S)" "tree_ok P S"
    "collisions_ok P S" "hash_ok addr space P S"
  using assms by (simp_all add: names_ok_def)

section \<open>Immediate consequences\<close>

lemma slot_index_bound:
  assumes "schedule_ok sizes" and "its < length sizes"
  shows "its_size sizes its < 2 ^ 24" "0 < its_size sizes its"
proof -
  have sc: "2 \<le> length sizes" "sorted_wrt (<) (butlast sizes)" "last sizes = last (butlast sizes)"
    "last sizes < 2 ^ 24" "0 < sizes ! 0" using assms(1) by (auto simp: schedule_ok_def)
  let ?b = "butlast sizes"
  have b: "?b \<noteq> []" "length ?b = length sizes - 1" using sc(1) by (cases sizes; auto)+
  have idx: "its_size sizes its = ?b ! min its (length ?b - 1)"
  proof (cases "its < length ?b")
    case True
    then have "min its (length ?b - 1) = its" by linarith
    with True assms(2) show ?thesis by (simp add: its_size_def nth_butlast)
  next
    case False
    then have "its = length sizes - 1" using assms(2) b(2) by simp
    moreover have "sizes \<noteq> []" using sc(1) by auto
    ultimately have "its_size sizes its = last sizes" using assms(2) by (simp add: its_size_def last_conv_nth)
    then have "its_size sizes its = ?b ! (length ?b - 1)" using sc(3) b(1) by (simp add: last_conv_nth)
    moreover have "min its (length ?b - 1) = length ?b - 1" using False by linarith
    ultimately show ?thesis by simp
  qed
  let ?k = "min its (length ?b - 1)"
  have k: "?k < length ?b" using length_greater_0_conv [of ?b] b(1) by linarith
  have "?b ! ?k \<le> ?b ! (length ?b - 1)"
  proof (cases "?k = length ?b - 1")
    case False
    then have "?k < length ?b - 1" "length ?b - 1 < length ?b" using k by linarith+
    from sorted_wrt_nth_less [OF sc(2) this] show ?thesis by simp
  qed simp
  then have "?b ! ?k \<le> last ?b" using b(1) by (simp add: last_conv_nth)
  then show "its_size sizes its < 2 ^ 24" using sc(3,4) idx by simp
  have "?b ! 0 \<le> ?b ! ?k" using sorted_wrt_nth_less [OF sc(2), of 0 ?k] k by (cases "?k = 0") auto
  moreover have "?b ! 0 = sizes ! 0" using k by (intro nth_butlast) linarith
  ultimately show "0 < its_size sizes its" using sc(5) idx by simp
qed

lemma table_size_bound:
  assumes "names_ok addr sizes space P S"
  shows "is_table_size S < 2 ^ 24" "i < is_table_size S \<Longrightarrow> i < 2 ^ 24"
proof -
  have "is_table_next S - 1 < length sizes" "is_table_size S = its_size sizes (is_table_next S - 1)"
    using names_okD(2) [OF assms(1)] by (simp_all add: sizes_ok_for_def less_imp_diff_less)
  with slot_index_bound(1) [OF names_okD(1) [OF assms(1)]] show "is_table_size S < 2 ^ 24" by metis
  then show "i < is_table_size S \<Longrightarrow> i < 2 ^ 24" by linarith
qed

lemma valid_name:
  assumes "0 < name_index n" and "name_index n < 2 ^ 24 - 1"
  shows "MACH_PORT_VALID n"
proof -
  have "unat (-1 :: natural_t) = 2 ^ 32 - 1" by (simp add: unsigned_minus_1_eq_mask mask_eq_exp_minus_1)
  with assms show ?thesis
    by (auto simp: MACH_PORT_VALID_def MACH_PORT_NULL_def MACH_PORT_DEAD_def name_index_div)
qed

lemma slot_name_index [simp]: "i < 2 ^ 24 \<Longrightarrow> name_index (slot_name t i) = i"
  by (simp add: slot_name_def)

text \<open>A name is the name of its slot exactly when the generations agree.\<close>

lemma slot_name_iff: "slot_name t (name_index n) = n \<longleftrightarrow> IE_BITS_GEN (ie_bits (t ! name_index n)) = MACH_PORT_GEN n"
proof
  assume "slot_name t (name_index n) = n"
  then show "IE_BITS_GEN (ie_bits (t ! name_index n)) = MACH_PORT_GEN n"
    using gen_make [of "IE_BITS_GEN (ie_bits (t ! name_index n))" "name_index n"]
      gen_only_simps(2) [of "ie_bits (t ! name_index n)"]
    unfolding slot_name_def gen_only_def by simp
qed (simp add: slot_name_def make_name_of)

lemma slot0_type:
  assumes "table_ok P t"
  shows "IE_BITS_TYPE (ie_bits (t ! 0)) = MACH_PORT_TYPE_NONE"
proof -
  have "IE_BITS_TYPE (ie_bits (t ! 0)) = IE_BITS_TYPE (ie_bits (t ! 0) AND NOT IE_BITS_COLLISION)"
    by (simp add: set_collision)
  also have "\<dots> = MACH_PORT_TYPE_NONE" using assms by (simp add: table_ok_def)
  finally show ?thesis .
qed

text \<open>Slot 0 keeps the generation it was created with: the one name that looks like its name is 255.\<close>

lemma slot0_name:
  assumes "table_ok P t"
  shows "slot_name t 0 = 255"
proof -
  have "IE_BITS_GEN (ie_bits (t ! 0)) = IE_BITS_GEN (ie_bits (t ! 0) AND NOT IE_BITS_COLLISION)"
    by (simp add: set_collision)
  also have "\<dots> = IE_BITS_GEN_MASK" using assms by (simp add: table_ok_def IE_BITS_GEN_def)
  finally show ?thesis by (simp add: slot_name_def make_name_def MACH_PORT_MAKE_def IE_BITS_GEN_MASK_def)
qed

lemma free_no_collision:
  assumes "table_ok P t" "free_index P t i"
  shows "\<not> test (ie_bits (t ! i)) IE_BITS_COLLISION" "gen_only (ie_bits (t ! i))"
    "ie_object (t ! i) = IO_NULL"
  using assms by (auto simp: table_ok_def)

text \<open>Reorganising the tree or the buckets changes nothing.\<close>

lemma names_ok_reorganise:
  assumes "names_ok addr sizes space P S" and "splay_inv tree" "contents tree = contents (is_tree S)"
  shows "names_ok addr sizes space P (S\<lparr>is_tree := tree\<rparr>)" "names P (S\<lparr>is_tree := tree\<rparr>) = names P S"
    "tree_map (S\<lparr>is_tree := tree\<rparr>) = tree_map S"
proof -
  show t: "tree_map (S\<lparr>is_tree := tree\<rparr>) = tree_map S" using assms(3) by (simp add: tree_map_def)
  then show "names P (S\<lparr>is_tree := tree\<rparr>) = names P S" by (intro ext) (auto simp: names_def)
  show "names_ok addr sizes space P (S\<lparr>is_tree := tree\<rparr>)"
    using assms t unfolding names_ok_def sizes_ok_for_def small_indices_def tree_ok_def collisions_ok_def
      hash_ok_def tree_send_def by simp
qed

section \<open>Lookup\<close>

definition entry_at :: "ipc_names \<Rightarrow> entry_ref \<Rightarrow> ipc_entry option" where
  "entry_at S ref = (case ref of In_Table i \<Rightarrow> Some (right_of (is_table S ! i)) | In_Tree n \<Rightarrow> tree_map S n)"

lemma tree_lookup_spec:
  assumes "names_ok addr sizes space P S"
  shows "\<exists>tree. tree_lookup S n = (if tree_map S n = None then None else Some (In_Tree n),
                                    S\<lparr>is_tree := tree\<rparr>) \<and>
                splay_inv tree \<and> contents tree = contents (is_tree S)"
proof -
  obtain tree r where l: "ipc_splay_tree_lookup (is_tree S) n = (tree, r)" by force
  have "splay_inv (is_tree S)" using names_okD(4) [OF assms] by (simp add: tree_ok_def)
  from st.lookup_law [OF this l] show ?thesis
    by (intro exI [of _ tree]) (auto simp: tree_lookup_def l tree_map_def)
qed

lemma names_outside:
  assumes "names_ok addr sizes space None S" and "n \<noteq> 255"
    and "\<not> (in_use None (is_table S) (name_index n) \<and> slot_name (is_table S) (name_index n) = n)"
    and "name_index n < is_table_size S"
    and "\<not> (IE_BITS_GEN (ie_bits (is_table S ! name_index n)) \<noteq> MACH_PORT_GEN n \<and>
            test (ie_bits (is_table S ! name_index n)) IE_BITS_COLLISION)"
  shows "names None S n = None"
proof -
  let ?i = "name_index n" and ?t = "is_table S"
  note inv = names_okD [OF assms(1)]
  have "\<not> test (ie_bits (?t ! ?i)) IE_BITS_COLLISION"
  proof
    assume c: "test (ie_bits (?t ! ?i)) IE_BITS_COLLISION"
    then have s: "slot_name ?t ?i = n" using assms(5) slot_name_iff by blast
    then have "\<not> in_use None ?t ?i" "?i \<noteq> 0" using assms(2,3) slot0_name [OF inv(3)] by metis+
    then have "free_index None ?t ?i" using assms(4) by (auto simp: in_use_def free_index_def)
    with free_no_collision(1) [OF inv(3)] c show False by blast
  qed
  then have "tree_map S n = None" using inv(5) assms(4) by (auto simp: collisions_ok_def)
  with assms(3) show ?thesis by (auto simp: names_def)
qed

lemma lookup_spec_names:
  assumes "names_ok addr sizes space None S" and "n \<noteq> 255" and "ipc_entry_lookup S n = (r, S')"
  shows "names_ok addr sizes space None S' \<and> names None S' = names None S \<and>
         (case r of None \<Rightarrow> names None S n = None
          | Some ref \<Rightarrow> entry_at S' ref = names None S n \<and> names None S n \<noteq> None)"
proof -
  let ?i = "name_index n" and ?t = "is_table S"
  note inv = names_okD [OF assms(1)]
  obtain tree where tl: "tree_lookup S n = (if tree_map S n = None then None else Some (In_Tree n),
      S\<lparr>is_tree := tree\<rparr>)" "splay_inv tree" "contents tree = contents (is_tree S)"
    using tree_lookup_spec [OF assms(1)] by blast
  note re = names_ok_reorganise [OF assms(1) tl(2,3)]
  have via_tree: ?thesis if "(r, S') = tree_lookup S n" "names None S n = tree_map S n"
    using that re by (auto simp: tl(1) entry_at_def split: if_splits)
  show ?thesis
  proof (cases "in_use None ?t ?i \<and> slot_name ?t ?i = n")
    case True
    then have "r = Some (In_Table ?i)" "S' = S"
      using assms(3) slot_name_iff [of ?t n] by (auto simp: ipc_entry_lookup_def Let_def in_use_def)
    with True assms(1) show ?thesis by (simp add: entry_at_def names_def)
  next
    case False
    then have nt: "names None S n = tree_map S n" by (auto simp: names_def)
    show ?thesis
    proof (cases "?i < is_table_size S")
      case lt: True
      show ?thesis
      proof (cases "IE_BITS_GEN (ie_bits (?t ! ?i)) \<noteq> MACH_PORT_GEN n \<and> test (ie_bits (?t ! ?i)) IE_BITS_COLLISION")
        case True
        with lt assms(3) via_tree nt show ?thesis by (auto simp: ipc_entry_lookup_def Let_def)
      next
        case nc: False
        from names_outside [OF assms(1,2) False lt nc] have none: "names None S n = None" .
        have "r = None \<and> S' = S"
          using False nc lt assms(3) slot_name_iff [of ?t n] slot0_type [OF inv(3)]
          by (cases "?i = 0") (auto simp: ipc_entry_lookup_def Let_def in_use_def split: if_splits)
        with none assms(1) show ?thesis by simp
      qed
    next
      case ge: False
      have "tree_map S n = None" if "is_tree_total S = 0"
        using that inv(4) by (simp add: tree_ok_def tree_map_def)
      with ge assms(1,3) via_tree nt show ?thesis by (auto simp: ipc_entry_lookup_def Let_def split: if_splits)
    qed
  qed
qed

end
