(* ===== verification/Entry_Alloc.thy ===== *)
theory Entry_Alloc
  imports Entry_Names
begin

text \<open>
  Taking an entry from the free list and giving it back: \<^verbatim>\<open>ipc_entry_get\<close>, the ways an entry in
  between is completed, and the deallocation of entries.
\<close>

section \<open>Changes of single slots\<close>

lemma upd_slot_simps [simp]:
  "length (upd_slot i f t) = length t"
  "i < length t \<Longrightarrow> upd_slot i f t ! i = f (t ! i)"
  "i \<noteq> j \<Longrightarrow> upd_slot i f t ! j = t ! j"
  by (simp_all add: upd_slot_def)

lemma chain_cong:
  assumes "\<And>k. k \<in> insert i (set fl) \<Longrightarrow> ie_next (t' ! k) = ie_next (t ! k)" and "chain t i fl"
  shows "chain t' i fl"
  using assms by (induction fl arbitrary: i) auto

lemma chain_from:
  assumes "chain t i fl" and "ie_next (t' ! j) = ie_next (t ! i)"
    and "\<And>k. k \<in> set fl \<Longrightarrow> ie_next (t' ! k) = ie_next (t ! k)"
  shows "chain t' j fl"
  using assms chain_cong [of _ _ t' t] by (cases fl) auto

lemma local_hash_ok_cong:
  assumes "local_hash_ok a t M" "length t' = length t"
    and "\<And>h. h < length t \<Longrightarrow> ie_index (t' ! h) = ie_index (t ! h)"
    and "\<And>i. i \<in> M \<Longrightarrow> ie_object (t' ! i) = ie_object (t ! i)"
  shows "local_hash_ok a t' M"
  using assms(1) unfolding local_hash_ok_def assms(2)
  by (rule hash_slots_cong [rotated -1]) (simp_all add: assms home_slot_def)

text \<open>
  An update of the table that keeps the reverse hash, the objects and types of the used slots
  and the generations and collision bits outside the pending slot keeps the names.
\<close>

lemma table_free_list:
  assumes "table_ok P t"
  obtains fl where "chain t 0 fl" "distinct fl" "set fl = {i. free_index P t i}"
  using assms by (auto simp: table_ok_def)

section \<open>Taking an entry from the free list\<close>

lemma get_table:
  assumes ok: "table_ok None t" and j: "ie_next (t ! 0) = j" "j \<noteq> 0"
    and t': "t' = upd_slot j (\<lambda>e. e\<lparr>ie_bits := g, ie_request := 0\<rparr>)
                   (upd_slot 0 (ie_request_update (\<lambda>_. ie_next (t ! j))) t)" and g: "gen_only g"
  shows "free_index None t j" "table_ok (Some (In_Table j)) t'"
    "in_use (Some (In_Table j)) t' = in_use None t"
    "\<And>i. i \<noteq> j \<Longrightarrow> ie_bits (t' ! i) = ie_bits (t ! i)" "ie_bits (t' ! j) = g"
    "\<And>i. ie_object (t' ! i) = ie_object (t ! i)" "\<And>i. ie_index (t' ! i) = ie_index (t ! i)"
    "\<And>i. in_use None t i \<Longrightarrow> t' ! i = t ! i"
proof -
  obtain fl where fl: "chain t 0 fl" "distinct fl" "set fl = {i. free_index None t i}"
    using table_free_list [OF ok] .
  obtain js where js: "fl = j # js" using fl(1) j by (cases fl) auto
  have jj: "free_index None t j" using fl(3) js by auto
  then show "free_index None t j" .
  then have lt: "0 < j" "j < length t" "0 < length t" by (auto simp: free_index_def)
  have free: "j \<notin> set js" "0 \<notin> set js" using fl(2,3) js by (auto simp: free_index_def)
  have nth: "t' ! i = (if i = j then (t ! j)\<lparr>ie_bits := g, ie_request := 0\<rparr>
      else if i = 0 then (t ! 0)\<lparr>ie_request := ie_next (t ! j)\<rparr> else t ! i)" for i
    using lt by (auto simp: t')
  show bits: "ie_bits (t' ! i) = ie_bits (t ! i)" if "i \<noteq> j" for i using that by (simp add: nth)
  show bj: "ie_bits (t' ! j) = g" by (simp add: nth)
  show obj: "ie_object (t' ! i) = ie_object (t ! i)" for i by (simp add: nth)
  show "ie_index (t' ! i) = ie_index (t ! i)" for i by (simp add: nth)
  show "t' ! i = t ! i" if "in_use None t i" for i
    using that jj by (auto simp: nth in_use_def free_index_def)
  have len: "length t' = length t" by (simp add: t')
  show "in_use (Some (In_Table j)) t' = in_use None t"
  proof (rule ext)
    fix i
    show "in_use (Some (In_Table j)) t' i = in_use None t i"
      using jj bits [of i] by (cases "i = j") (auto simp: in_use_def len free_index_def)
  qed
  have fi: "free_index (Some (In_Table j)) t' i \<longleftrightarrow> free_index None t i \<and> i \<noteq> j" for i
    using bits [of i] by (cases "i = j") (auto simp: free_index_def len)
  have "chain t' 0 js"
  proof (rule chain_from)
    show "chain t j js" using fl(1) js by simp
    show "ie_next (t' ! k) = ie_next (t ! k)" if "k \<in> set js" for k using that free by (auto simp: nth)
  qed (use lt(1) in \<open>simp add: nth\<close>)
  moreover have "set js = {i. free_index (Some (In_Table j)) t' i}"
    using fl(2,3) js by (auto simp: fi)
  moreover have "gen_only (ie_bits (t' ! i)) \<and> ie_object (t' ! i) = IO_NULL"
    if "free_index (Some (In_Table j)) t' i" for i
    using that ok bits obj by (auto simp: fi table_ok_def)
  moreover have "ie_bits (t' ! 0) AND NOT IE_BITS_COLLISION = IE_BITS_GEN_MASK"
    using ok bits [of 0] lt by (simp add: table_ok_def)
  ultimately show "table_ok (Some (In_Table j)) t'"
    using fl(2) js lt unfolding table_ok_def len by auto
qed

lemma no_tree_names_at_free:
  assumes "names_ok addr sizes space P S" "free_index P (is_table S) i"
  shows "\<forall>n. name_index n = i \<longrightarrow> tree_map S n = None"
  using assms free_no_collision(1) [OF names_okD(3) [OF assms(1)] assms(2)] names_okD(5) [OF assms(1)]
  by (auto simp: collisions_ok_def free_index_def)

lemma send_slots_cong:
  assumes "in_use P' t' = in_use P t"
    and "\<And>i. in_use P t i \<Longrightarrow> IE_BITS_TYPE (ie_bits (t' ! i)) = IE_BITS_TYPE (ie_bits (t ! i))"
  shows "send_slots P' t' = send_slots P t"
  using assms by (auto simp: send_slots_def)

text \<open>The space with slot \<open>j\<close> taken off the free list and given the generation \<open>g\<close>.\<close>

lemma taken_ok:
  assumes ok: "names_ok addr sizes space None S" and fj: "free_index None (is_table S) j" and g: "gen_only g"
    and t': "length t' = is_table_size S" "table_ok (Some (In_Table j)) t'"
      "in_use (Some (In_Table j)) t' = in_use None (is_table S)"
      "\<And>i. i \<noteq> j \<Longrightarrow> ie_bits (t' ! i) = ie_bits (is_table S ! i)" "ie_bits (t' ! j) = g"
      "\<And>i. ie_object (t' ! i) = ie_object (is_table S ! i)" "\<And>i. ie_index (t' ! i) = ie_index (is_table S ! i)"
      "\<And>i. in_use None (is_table S) i \<Longrightarrow> t' ! i = is_table S ! i"
  shows "names_ok addr sizes space (Some (In_Table j)) (S\<lparr>is_table := t'\<rparr>)"
    "names (Some (In_Table j)) (S\<lparr>is_table := t'\<rparr>) = names None S"
    "names None S (make_name j g) = None" "make_name j g = slot_name t' j"
proof -
  let ?t = "is_table S" and ?S = "S\<lparr>is_table := t'\<rparr>" and ?P = "Some (In_Table j)"
  note inv = names_okD [OF ok]
  have b: "j < 2 ^ 24" "j < length ?t" "0 < j"
    using fj table_size_bound [OF ok] by (auto simp: free_index_def)
  show name: "make_name j g = slot_name t' j" using t'(5) g by (simp add: slot_name_def)
  have sn: "slot_name t' i = slot_name ?t i" if "i \<noteq> j" for i using t'(4) [OF that] by (simp add: slot_name_def)
  have idx: "name_index (make_name j g) = j" using b by simp
  have none: "tree_map S (make_name j g) = None" using no_tree_names_at_free [OF ok fj] idx by blast
  have tm: "tree_map ?S = tree_map S" by (simp add: tree_map_def)
  have same: "in_use None ?t i \<Longrightarrow> i \<noteq> j" for i using fj by (auto simp: in_use_def free_index_def)
  show "names ?P ?S = names None S"
    using sn same t'(3,8) by (intro ext) (auto simp: names_def tm)
  show "names None S (make_name j g) = None"
    using none idx same by (auto simp: names_def)
  have "collisions_ok ?P ?S"
    unfolding collisions_ok_def tm
  proof (intro allI impI conjI)
    fix i assume "i < is_table_size ?S"
    then have i: "i < is_table_size S" by (simp add: t'(1))
    show "test (ie_bits (is_table ?S ! i)) IE_BITS_COLLISION \<longleftrightarrow> (\<exists>n\<in>dom (tree_map S). name_index n = i)"
      using i inv(5) t'(4,5) g no_tree_names_at_free [OF ok fj]
      by (cases "i = j") (auto simp: collisions_ok_def)
    assume "in_use ?P (is_table ?S) i \<or> ?P = Some (In_Table i)"
    then show "tree_map S (slot_name (is_table ?S) i) = None"
      using i inv(5) t'(3) same sn name none by (cases "i = j") (auto simp: collisions_ok_def)
  qed
  moreover have "tree_ok ?P ?S" using inv(4) by (simp add: tree_ok_def tm)
  moreover have "sizes_ok_for sizes ?S" using inv(2) by (simp add: sizes_ok_for_def small_indices_def tm t'(1))
  moreover have "hash_ok addr space ?P ?S"
  proof -
    have ss: "send_slots ?P t' = send_slots None ?t"
      using t'(3,8) by (intro send_slots_cong) auto
    have "tree_send ?P ?S = tree_send None S" by (simp add: tree_send_def tm fun_eq_iff)
    moreover have "local_hash_ok (snd addr) t' (send_slots None ?t)"
      by (rule local_hash_ok_cong [of _ ?t]) (use inv(6) in \<open>simp_all add: hash_ok_def t'(1,6,7)\<close>)
    ultimately show ?thesis using inv(6) by (simp add: hash_ok_def ss t'(6))
  qed
  ultimately show "names_ok addr sizes space ?P ?S" using inv(1) t'(2) by (simp add: names_ok_def)
qed

lemma slot_name_valid:
  assumes "names_ok addr sizes space P S" "0 < j" "j < is_table_size S"
  shows "MACH_PORT_VALID (make_name j g)"
proof -
  have "j < 2 ^ 24 - 1" using table_size_bound(1) [OF assms(1)] assms(3) by linarith
  then show ?thesis using assms(2) by (intro valid_name) simp_all
qed

lemma entry_get_spec:
  assumes ok: "names_ok addr sizes space None S"
  shows "case ipc_entry_get S of
           Inl kr \<Rightarrow> kr = KERN_NO_SPACE \<and> (\<forall>i. \<not> free_index None (is_table S) i)
         | Inr (n, j, S') \<Rightarrow>
             names_ok addr sizes space (Some (In_Table j)) S' \<and>
             names (Some (In_Table j)) S' = names None S \<and>
             names None S n = None \<and> n = slot_name (is_table S') j \<and> MACH_PORT_VALID n \<and>
             j < is_table_size S \<and> 0 < j \<and> gen_only (ie_bits (is_table S' ! j))"
proof -
  let ?t = "is_table S" and ?j = "ie_next (is_table S ! 0)"
  note inv = names_okD [OF ok]
  obtain fl where fl: "chain ?t 0 fl" "distinct fl" "set fl = {i. free_index None ?t i}"
    using table_free_list [OF inv(3)] .
  show ?thesis
  proof (cases "?j = 0")
    case True
    have "fl = []"
    proof (cases fl)
      case (Cons k ks)
      then have "k = 0" "free_index None ?t k" using fl(1,3) True by auto
      then show ?thesis by (simp add: free_index_def)
    qed
    with True fl(3) show ?thesis by (auto simp: ipc_entry_get_def Let_def)
  next
    case False
    let ?g = "ie_bits (?t ! ?j) + IE_BITS_GEN_ONE"
    define t' where "t' = upd_slot ?j (\<lambda>e. e\<lparr>ie_bits := ?g, ie_request := 0\<rparr>)
                 (upd_slot 0 (ie_request_update (\<lambda>_. ie_next (?t ! ?j))) ?t)"
    have "?j \<in> set fl" using fl(1) False by (cases fl) auto
    then have fj: "free_index None ?t ?j" using fl(3) by simp
    have g: "gen_only ?g" using free_no_collision(2) [OF inv(3) fj] by (rule next_gen)
    note gt = get_table [OF inv(3) refl False t'_def g]
    have len: "length t' = length ?t" by (simp add: t'_def)
    have get: "ipc_entry_get S = Inr (make_name ?j ?g, ?j, S\<lparr>is_table := t'\<rparr>)"
      using False by (simp add: ipc_entry_get_def Let_def t'_def)
    have j: "?j < length ?t" "0 < ?j" using fj by (auto simp: free_index_def)
    from taken_ok [OF ok fj g len gt(2-8)] slot_name_valid [OF ok j(2,1), of ?g] j gt(5) g
    show ?thesis unfolding get by simp
  qed
qed

section \<open>Giving a table entry back\<close>

lemma free_table:
  assumes ok: "table_ok (Some (In_Table i)) t" and "ie_object (t ! i) = IO_NULL"
    and t': "t' = dealloc_free i t"
  shows "table_ok None t'" "in_use None t' = in_use (Some (In_Table i)) t" "length t' = length t"
    "\<And>k. k \<noteq> i \<Longrightarrow> ie_bits (t' ! k) = ie_bits (t ! k)" "ie_bits (t' ! i) = IE_BITS_GEN (ie_bits (t ! i))"
    "\<And>k. ie_object (t' ! k) = ie_object (t ! k)" "\<And>k. ie_index (t' ! k) = ie_index (t ! k)"
    "\<And>k. in_use None t' k \<Longrightarrow> t' ! k = t ! k"
proof -
  let ?P = "Some (In_Table i)"
  obtain fl where fl: "chain t 0 fl" "distinct fl" "set fl = {k. free_index ?P t k}"
    using table_free_list [OF ok] .
  have lt: "0 < i" "i < length t" "0 < length t" using ok by (auto simp: table_ok_def)
  have nth: "t' ! k = (if k = i then (t ! i)\<lparr>ie_bits := IE_BITS_GEN (ie_bits (t ! i)), ie_request := ie_next (t ! 0)\<rparr>
      else if k = 0 then (t ! 0)\<lparr>ie_request := i\<rparr> else t ! k)" for k
    using lt by (auto simp: t' dealloc_free_def IE_BITS_GEN_def)
  show len: "length t' = length t" by (simp add: t' dealloc_free_def)
  show bits: "ie_bits (t' ! k) = ie_bits (t ! k)" if "k \<noteq> i" for k using that by (simp add: nth)
  show bi: "ie_bits (t' ! i) = IE_BITS_GEN (ie_bits (t ! i))" by (simp add: nth)
  show obj: "ie_object (t' ! k) = ie_object (t ! k)" for k by (simp add: nth)
  show "ie_index (t' ! k) = ie_index (t ! k)" for k by (simp add: nth)
  have gi: "gen_only (ie_bits (t' ! i))" by (simp add: bi)
  show use: "in_use None t' = in_use ?P t"
  proof (rule ext)
    fix k show "in_use None t' k = in_use ?P t k"
      using bits [of k] gi by (cases "k = i") (auto simp: in_use_def len)
  qed
  then show "t' ! k = t ! k" if "in_use None t' k" for k using that by (auto simp: nth in_use_def)
  have fi: "free_index None t' k \<longleftrightarrow> free_index ?P t k \<or> k = i" for k
    using bits [of k] lt gi by (cases "k = i") (auto simp: free_index_def len)
  have free: "i \<notin> set fl" "0 \<notin> set fl" using fl(3) by (auto simp: free_index_def)
  have "chain t' 0 (i # fl)"
  proof -
    have "ie_next (t' ! k) = ie_next (t ! k)" if "k \<in> set fl" for k using that free by (auto simp: nth)
    then have "chain t' i fl" by (intro chain_from [OF fl(1)]) (simp_all add: nth)
    then show ?thesis using lt(1) by (simp add: nth)
  qed
  moreover have "distinct (i # fl)" "set (i # fl) = {k. free_index None t' k}"
    using fl(2,3) free by (auto simp: fi)
  moreover have "gen_only (ie_bits (t' ! k)) \<and> ie_object (t' ! k) = IO_NULL" if "free_index None t' k" for k
    using that ok bits [of k] obj [of k] gi assms(2) by (cases "k = i") (auto simp: fi table_ok_def)
  moreover have "ie_bits (t' ! 0) AND NOT IE_BITS_COLLISION = IE_BITS_GEN_MASK"
    using ok bits [of 0] lt by (simp add: table_ok_def)
  ultimately show "table_ok None t'"
    using lt unfolding table_ok_def len by blast
qed

lemma dealloc_free_spec:
  assumes ok: "names_ok addr sizes space (Some (In_Table i)) S"
    and obj: "ie_object (is_table S ! i) = IO_NULL"
    and nc: "\<not> test (ie_bits (is_table S ! i)) IE_BITS_COLLISION"
  shows "names_ok addr sizes space None (S\<lparr>is_table := dealloc_free i (is_table S)\<rparr>)"
    "names None (S\<lparr>is_table := dealloc_free i (is_table S)\<rparr>) = names (Some (In_Table i)) S"
proof -
  let ?P = "Some (In_Table i)" and ?t = "is_table S"
  define t' where "t' = dealloc_free i ?t"
  let ?S = "S\<lparr>is_table := t'\<rparr>"
  note inv = names_okD [OF ok]
  note ft = free_table [OF inv(3) obj t'_def]
  have i: "0 < i" "i < length ?t" using inv(3) by (auto simp: table_ok_def)
  have tm: "tree_map ?S = tree_map S" by (simp add: tree_map_def)
  have none: "tree_map S n = None" if "name_index n = i" for n
    using inv(5) i nc that by (auto simp: collisions_ok_def)
  have sn: "slot_name t' k = slot_name ?t k" for k
    using ft(4) [of k] ft(5) by (cases "k = i") (simp_all add: slot_name_def)
  show "names None (S\<lparr>is_table := dealloc_free i (is_table S)\<rparr>) = names ?P S"
    unfolding t'_def [symmetric] using ft(2,8) by (intro ext) (auto simp: names_def tm sn)
  have "collisions_ok None ?S"
    unfolding collisions_ok_def tm
  proof (intro allI impI conjI)
    fix k assume "k < is_table_size ?S"
    then have k: "k < is_table_size S" by (simp add: ft(3))
    show "test (ie_bits (is_table ?S ! k)) IE_BITS_COLLISION \<longleftrightarrow> (\<exists>n\<in>dom (tree_map S). name_index n = k)"
      using k inv(5) ft(4) [of k] ft(5) none by (cases "k = i") (auto simp: collisions_ok_def)
    assume "in_use None (is_table ?S) k \<or> None = Some (In_Table k)"
    then show "tree_map S (slot_name (is_table ?S) k) = None"
      using k inv(5) ft(2) by (auto simp: collisions_ok_def sn)
  qed
  moreover have "tree_ok None ?S" using inv(4) by (simp add: tree_ok_def tm)
  moreover have "sizes_ok_for sizes ?S" using inv(2) by (simp add: sizes_ok_for_def small_indices_def tm ft(3))
  moreover have "hash_ok addr space None ?S"
  proof -
    have ss: "send_slots None t' = send_slots ?P ?t" using ft(2,8) by (intro send_slots_cong) auto
    have "tree_send None ?S = tree_send ?P S" by (simp add: tree_send_def tm fun_eq_iff)
    moreover have "local_hash_ok (snd addr) t' (send_slots ?P ?t)"
      by (rule local_hash_ok_cong [of _ ?t]) (use inv(6) in \<open>simp_all add: hash_ok_def ft(3,6,7)\<close>)
    ultimately show ?thesis using inv(6) by (simp add: hash_ok_def ss ft(6))
  qed
  ultimately show "names_ok addr sizes space None (S\<lparr>is_table := dealloc_free i (is_table S)\<rparr>)"
    using inv(1) ft(1) by (simp add: names_ok_def t'_def)
qed

section \<open>Names that collide in the tree\<close>

lemma name_index_eq: "MACH_PORT_INDEX m = MACH_PORT_INDEX n \<longleftrightarrow> name_index m = name_index n"
  by (simp add: name_index_def word_unat_eq_iff)

lemma name_index_mono: "m \<le> n \<Longrightarrow> name_index m \<le> name_index n"
  by (simp add: name_index_div word_le_nat_alt div_le_mono)

lemma tree_collision_spec:
  assumes "splay_inv tree" and "\<forall>m\<in>dom (map_of (contents tree)). MACH_PORT_VALID m"
    and "ipc_entry_tree_collision tree n = (tree', c)"
  shows "splay_inv tree'" "contents tree' = contents tree"
    "c \<longleftrightarrow> (\<exists>m\<in>dom (map_of (contents tree)). name_index m = name_index n)"
proof -
  obtain t lower upper where b: "ipc_splay_tree_bounds tree n = (t, lower, upper)"
    by (cases "ipc_splay_tree_bounds tree n") auto
  let ?D = "dom (map_of (contents tree))"
  note spec = bounds_spec [OF assms(1) b]
  have t: "t = tree'" and c: "c \<longleftrightarrow> lower \<noteq> -1 \<and> name_index lower = name_index n \<or>
      upper \<noteq> 0 \<and> name_index upper = name_index n"
    using assms(3) by (auto simp: ipc_entry_tree_collision_def b Let_def name_index_eq)
  show "splay_inv tree'" "contents tree' = contents tree" using spec(1,2) t by auto
  have D: "m \<in> ?D \<longleftrightarrow> (\<exists>p\<in>set (contents tree). fst p = m)" for m
    by (auto simp: dom_map_of_conv_image_fst)
  note lo = lower_bound_greatest [OF contents_sorted [OF assms(1)], of n, folded spec(3)]
  note up = upper_bound_least [OF contents_sorted [OF assms(1)], of n, folded spec(4)]
  have valid: "m \<noteq> -1 \<and> m \<noteq> 0" if "m \<in> ?D" for m
    using assms(2) that by (auto simp: MACH_PORT_VALID_def MACH_PORT_NULL_def MACH_PORT_DEAD_def)
  show "c \<longleftrightarrow> (\<exists>m\<in>?D. name_index m = name_index n)"
  proof
    assume c
    then consider "lower \<noteq> -1" "name_index lower = name_index n" | "upper \<noteq> 0" "name_index upper = name_index n"
      using c by blast
    then show "\<exists>m\<in>?D. name_index m = name_index n"
    proof cases
      case 1
      then have "lower \<in> ?D" using lo D by (auto simp: MACH_PORT_LARGEST_def split: if_splits)
      with 1 show ?thesis by blast
    next
      case 2
      then have "upper \<in> ?D" using up D by (auto simp: MACH_PORT_SMALLEST_def split: if_splits)
      with 2 show ?thesis by blast
    qed
  next
    assume "\<exists>m\<in>?D. name_index m = name_index n"
    then obtain m p where m: "p \<in> set (contents tree)" "fst p = m" "name_index m = name_index n"
      using D by blast
    show c
    proof (cases "m \<le> n")
      case True
      with m lo have l: "lower \<in> ?D" "lower \<le> n" "m \<le> lower" using D by (auto split: if_splits)
      then have "name_index lower = name_index n"
        using m(3) name_index_mono [of m lower] name_index_mono [of lower n] by simp
      with valid [OF l(1)] show ?thesis using c by simp
    next
      case False
      then have "n \<le> m" by simp
      with m up have l: "upper \<in> ?D" "n \<le> upper" "upper \<le> m" using D by (auto split: if_splits)
      then have "name_index upper = name_index n"
        using m(3) name_index_mono [of n upper] name_index_mono [of upper m] by simp
      with valid [OF l(1)] show ?thesis using c by simp
    qed
  qed
qed

end
