(* ===== verification/Entry_Dealloc.thy ===== *)
theory Entry_Dealloc
  imports Entry_Alloc
begin

text \<open>
  Removing entries: from the tree, with the collision bit and \<^verbatim>\<open>is_tree_small\<close> kept up to date,
  and from a table slot that names in the tree collide with, one of which then moves up.
\<close>

section \<open>Removing an entry from the tree\<close>

lemma small_indices_finite [simp]: "finite (small_indices sizes S)"
  by (simp add: small_indices_def tree_map_def finite_dom_map_of)

lemma tree_contents_finite: "finite (dom (tree_map S))"
  by (simp add: tree_map_def finite_dom_map_of)

lemma tree_okD:
  assumes "tree_ok P S"
  shows "splay_inv (is_tree S)" "is_tree_total S = length (contents (is_tree S))"
    "tree_map S n = Some e \<Longrightarrow> right_only (ie_bits e)" "tree_map S n = Some e \<Longrightarrow> MACH_PORT_VALID n"
    "tree_map S n = Some e \<Longrightarrow> P \<noteq> Some (In_Tree n) \<Longrightarrow> IE_BITS_TYPE (ie_bits e) \<noteq> MACH_PORT_TYPE_NONE"
    "P = Some (In_Tree n) \<Longrightarrow> tree_map S n \<noteq> None"
  using assms by (auto simp: tree_ok_def)

lemma length_remove_key:
  assumes "sorted_keys xs" "map_of xs k \<noteq> None"
  shows "length (filter (\<lambda>p. fst p \<noteq> k) xs) = length xs - 1"
proof -
  have d: "distinct (map fst xs)" using assms(1) by (rule sorted_keys_distinct)
  have "length xs = card (fst ` set xs)" using distinct_card [OF d] by simp
  moreover have "length (filter (\<lambda>p. fst p \<noteq> k) xs) = card (fst ` set xs - {k})"
  proof -
    have "distinct (map fst (filter (\<lambda>p. fst p \<noteq> k) xs))" using d by (simp add: distinct_map_filter)
    from distinct_card [OF this]
    have "length (filter (\<lambda>p. fst p \<noteq> k) xs) = card (fst ` {p \<in> set xs. fst p \<noteq> k})" by simp
    also have "fst ` {p \<in> set xs. fst p \<noteq> k} = fst ` set xs - {k}" by auto
    finally show ?thesis .
  qed
  moreover have "k \<in> fst ` set xs" using assms(2) by (simp add: map_of_eq_None_iff)
  ultimately show ?thesis by simp
qed

text \<open>The state after the tree has lost the name \<open>n\<close> and the bookkeeping is done.\<close>

lemma dealloc_tree_shape:
  assumes ok: "names_ok addr sizes space (Some (In_Tree n)) S"
  obtains tree c where
    "dealloc_tree sizes n S =
       S\<lparr>is_tree := tree, is_tree_total := is_tree_total S - 1,
         is_table := (if name_index n < is_table_size S \<and> \<not> c
                      then upd_slot (name_index n) (ie_bits_update (\<lambda>b. b AND NOT IE_BITS_COLLISION)) (is_table S)
                      else is_table S),
         is_tree_small := is_tree_small S -
           (if is_table_size S \<le> name_index n \<and> name_index n < its_size sizes (is_table_next S) \<and> \<not> c
            then 1 else 0)\<rparr>"
    "splay_inv tree" "contents tree = filter (\<lambda>p. fst p \<noteq> n) (contents (is_tree S))"
    "c \<longleftrightarrow> (\<exists>m\<in>dom (tree_map S). m \<noteq> n \<and> name_index m = name_index n)"
proof -
  note tok = tree_okD [OF names_okD(4) [OF ok]]
  let ?T = "ipc_splay_tree_delete (is_tree S) n"
  have "tree_map S n \<noteq> None" using tok(6) by simp
  then have del: "contents ?T = filter (\<lambda>p. fst p \<noteq> n) (contents (is_tree S))" "splay_inv ?T"
    using delete_spec [OF tok(1)] by (simp_all add: tree_map_def)
  have mo: "map_of (contents ?T) = (tree_map S)(n := None)" by (simp add: del map_of_remove_key tree_map_def)
  obtain tree c where tc: "ipc_entry_tree_collision ?T n = (tree, c)" by force
  have "\<forall>m\<in>dom (map_of (contents ?T)). MACH_PORT_VALID m" using tok(4) by (auto simp: mo split: if_splits)
  note col = tree_collision_spec [OF del(2) this tc]
  have c: "c \<longleftrightarrow> (\<exists>m\<in>dom (tree_map S). m \<noteq> n \<and> name_index m = name_index n)"
    unfolding col(3) mo by (auto split: if_splits)
  let ?big = "\<not> name_index n < is_table_size S \<and> \<not> name_index n < its_size sizes (is_table_next S)"
  show thesis
  proof (cases ?big)
    case True
    then show thesis
      by (intro that [where tree = ?T and c = c]) (auto simp: dealloc_tree_def Let_def del c)
  next
    case False
    then show thesis
      by (intro that [where tree = tree and c = c]) (auto simp: dealloc_tree_def Let_def tc col(1,2) del c)
  qed
qed

lemma gen_only_part:
  assumes "gen_only b" shows "gen_only (b AND m)"
proof -
  have "(b AND m) AND IE_BITS_GEN_MASK = (b AND IE_BITS_GEN_MASK) AND m" by (simp only: ac_simps)
  with assms show ?thesis by (simp add: gen_only_def IE_BITS_GEN_def)
qed

lemma clear_collision_table:
  assumes "table_ok P t" "i < length t" "P = Some (In_Tree n)"
    and t': "t' = upd_slot i (ie_bits_update (\<lambda>b. b AND NOT IE_BITS_COLLISION)) t"
  shows "table_ok None t'" "in_use None t' = in_use P t" "length t' = length t"
    "\<And>k. slot_name t' k = slot_name t k" "\<And>k. right_of (t' ! k) = right_of (t ! k)"
    "\<And>k. IE_BITS_TYPE (ie_bits (t' ! k)) = IE_BITS_TYPE (ie_bits (t ! k))"
    "\<And>k. test (ie_bits (t' ! k)) IE_BITS_COLLISION \<longleftrightarrow> k \<noteq> i \<and> test (ie_bits (t ! k)) IE_BITS_COLLISION"
    "\<And>k. ie_object (t' ! k) = ie_object (t ! k)" "\<And>k. ie_index (t' ! k) = ie_index (t ! k)"
proof -
  have nth: "t' ! k = (if k = i then (t ! i)\<lparr>ie_bits := ie_bits (t ! i) AND NOT IE_BITS_COLLISION\<rparr> else t ! k)" for k
    using assms(2) by (auto simp: t')
  show len: "length t' = length t" by (simp add: t')
  show type: "IE_BITS_TYPE (ie_bits (t' ! k)) = IE_BITS_TYPE (ie_bits (t ! k))" for k
    by (simp add: nth set_collision)
  show "slot_name t' k = slot_name t k" for k by (simp add: slot_name_def nth set_collision)
  show "right_of (t' ! k) = right_of (t ! k)" for k by (simp add: right_of_def nth set_collision)
  show "test (ie_bits (t' ! k)) IE_BITS_COLLISION \<longleftrightarrow> k \<noteq> i \<and> test (ie_bits (t ! k)) IE_BITS_COLLISION" for k
    by (auto simp: nth set_collision)
  show obj: "ie_object (t' ! k) = ie_object (t ! k)" "ie_index (t' ! k) = ie_index (t ! k)" for k
    by (simp_all add: nth)
  show use: "in_use None t' = in_use P t" using assms(3) by (auto simp: in_use_def len type fun_eq_iff)
  have fi: "free_index None t' = free_index P t"
    using assms(3) by (auto simp: free_index_def len type fun_eq_iff)
  obtain fl where fl: "chain t 0 fl" "distinct fl" "set fl = {k. free_index P t k}"
    using table_free_list [OF assms(1)] .
  have "chain t' 0 fl" by (rule chain_cong [OF _ fl(1)]) (simp add: nth)
  moreover have "gen_only (ie_bits (t' ! k)) \<and> ie_object (t' ! k) = IO_NULL" if "free_index None t' k" for k
  proof -
    have "free_index P t k" using that fi by simp
    from free_no_collision [OF assms(1) this] have f: "gen_only (ie_bits (t ! k))" "ie_object (t ! k) = IO_NULL"
      by blast+
    then show ?thesis by (auto simp: nth gen_only_part)
  qed
  moreover have "ie_bits (t' ! 0) AND NOT IE_BITS_COLLISION = IE_BITS_GEN_MASK"
    using assms(1) by (auto simp: nth table_ok_def mask_defs)
  ultimately show "table_ok None t'"
    using assms(1) fl(2,3) unfolding table_ok_def len fi by auto
qed

lemma pending_in_tree:
  "in_use (Some (In_Tree n)) t = in_use None t" "free_index (Some (In_Tree n)) t = free_index None t"
  "table_ok (Some (In_Tree n)) t = table_ok None t"
  "send_slots (Some (In_Tree n)) t = send_slots None t"
  by (simp_all add: in_use_def free_index_def table_ok_def send_slots_def fun_eq_iff)

lemma tree_map_removed:
  assumes "contents tree = filter (\<lambda>p. fst p \<noteq> n) (contents (is_tree S))" "is_tree S' = tree"
  shows "tree_map S' = (tree_map S)(n := None)"
  using assms by (simp add: tree_map_def map_of_remove_key)

lemma tree_ok_removed:
  assumes "tree_ok (Some (In_Tree n)) S" "splay_inv (is_tree S')"
    and "contents (is_tree S') = filter (\<lambda>p. fst p \<noteq> n) (contents (is_tree S))"
    and "is_tree_total S' = is_tree_total S - 1"
  shows "tree_ok None S'"
proof -
  note tok = tree_okD [OF assms(1)]
  have "map_of (contents (is_tree S)) n \<noteq> None" using tok(6) by (simp add: tree_map_def)
  from length_remove_key [OF contents_sorted [OF tok(1)] this]
  have "is_tree_total S' = length (contents (is_tree S'))" using assms(3,4) tok(2) by simp
  with assms(2) tok tree_map_removed [OF assms(3) refl] show ?thesis by (auto simp: tree_ok_def)
qed

lemma small_indices_removed:
  assumes "tree_map S' = (tree_map S)(n := None)" "is_table_size S' = is_table_size S"
    "is_table_next S' = is_table_next S" and n: "tree_map S n \<noteq> None"
  shows "card (small_indices sizes S') = card (small_indices sizes S) -
     (if is_table_size S \<le> name_index n \<and> name_index n < its_size sizes (is_table_next S) \<and>
         \<not> (\<exists>m\<in>dom (tree_map S). m \<noteq> n \<and> name_index m = name_index n) then 1 else 0)"
proof -
  let ?R = "\<lambda>i. is_table_size S \<le> i \<and> i < its_size sizes (is_table_next S)"
  let ?c = "\<exists>m\<in>dom (tree_map S). m \<noteq> n \<and> name_index m = name_index n"
  have i: "i \<in> small_indices sizes S' \<longleftrightarrow> ?R i \<and> (\<exists>m\<in>dom (tree_map S). m \<noteq> n \<and> name_index m = i)" for i
    by (auto simp: small_indices_def assms image_iff)
  have j: "i \<in> small_indices sizes S \<longleftrightarrow> ?R i \<and> (\<exists>m\<in>dom (tree_map S). name_index m = i)" for i
    by (auto simp: small_indices_def image_iff)
  show ?thesis
  proof (cases "?R (name_index n) \<and> \<not> ?c")
    case True
    then have "name_index n \<in> small_indices sizes S" using n by (auto simp: j)
    moreover have "small_indices sizes S' = small_indices sizes S - {name_index n}"
      using True by (auto simp: set_eq_iff i j)
    ultimately show ?thesis using True by simp
  next
    case False
    have "(\<exists>m\<in>dom (tree_map S). m \<noteq> n \<and> name_index m = i) \<longleftrightarrow> (\<exists>m\<in>dom (tree_map S). name_index m = i)"
      if "?R i" for i
      using False that by (cases "i = name_index n") auto
    then have "small_indices sizes S' = small_indices sizes S" unfolding set_eq_iff i j by blast
    with False show ?thesis by auto
  qed
qed

lemma dealloc_tree_spec:
  assumes ok: "names_ok addr sizes space (Some (In_Tree n)) S"
  shows "names_ok addr sizes space None (dealloc_tree sizes n S)"
    "names None (dealloc_tree sizes n S) = names (Some (In_Tree n)) S"
proof -
  let ?P = "Some (In_Tree n)" and ?t = "is_table S" and ?i = "name_index n"
  note inv = names_okD [OF ok]
  obtain tree c where shape: "dealloc_tree sizes n S =
       S\<lparr>is_tree := tree, is_tree_total := is_tree_total S - 1,
         is_table := (if ?i < is_table_size S \<and> \<not> c
                      then upd_slot ?i (ie_bits_update (\<lambda>b. b AND NOT IE_BITS_COLLISION)) ?t else ?t),
         is_tree_small := is_tree_small S -
           (if is_table_size S \<le> ?i \<and> ?i < its_size sizes (is_table_next S) \<and> \<not> c then 1 else 0)\<rparr>"
    "splay_inv tree" "contents tree = filter (\<lambda>p. fst p \<noteq> n) (contents (is_tree S))"
    "c \<longleftrightarrow> (\<exists>m\<in>dom (tree_map S). m \<noteq> n \<and> name_index m = name_index n)"
    by (rule dealloc_tree_shape [OF ok])
  define S' where "S' = dealloc_tree sizes n S"
  let ?t' = "is_table S'"
  have fields: "is_tree S' = tree" "is_tree_total S' = is_tree_total S - 1" "is_hash S' = is_hash S"
    "is_table_next S' = is_table_next S" "is_tree_small S' = is_tree_small S -
       (if is_table_size S \<le> ?i \<and> ?i < its_size sizes (is_table_next S) \<and> \<not> c then 1 else 0)"
    "is_live S' = is_live S"
    by (simp_all add: S'_def shape(1))
  have tm: "tree_map S' = (tree_map S)(n := None)" by (rule tree_map_removed [OF shape(3) fields(1)])
  have n: "tree_map S n \<noteq> None" using tree_okD(6) [OF inv(4)] by simp
  have T: "table_ok None ?t'" "in_use None ?t' = in_use ?P ?t" "length ?t' = length ?t"
    "\<And>k. slot_name ?t' k = slot_name ?t k" "\<And>k. right_of (?t' ! k) = right_of (?t ! k)"
    "\<And>k. IE_BITS_TYPE (ie_bits (?t' ! k)) = IE_BITS_TYPE (ie_bits (?t ! k))"
    "\<And>k. test (ie_bits (?t' ! k)) IE_BITS_COLLISION \<longleftrightarrow>
        \<not> (k = ?i \<and> k < length ?t \<and> \<not> c) \<and> test (ie_bits (?t ! k)) IE_BITS_COLLISION"
    "\<And>k. ie_object (?t' ! k) = ie_object (?t ! k)" "\<And>k. ie_index (?t' ! k) = ie_index (?t ! k)"
  proof -
    consider "?i < length ?t" "\<not> c" "?t' = upd_slot ?i (ie_bits_update (\<lambda>b. b AND NOT IE_BITS_COLLISION)) ?t"
      | "\<not> (?i < length ?t \<and> \<not> c)" "?t' = ?t"
      by (cases "?i < length ?t \<and> \<not> c") (auto simp: S'_def shape(1))
    note cs = this
    note cl = clear_collision_table [OF inv(3) _ refl]
    show "table_ok None ?t'" "in_use None ?t' = in_use ?P ?t" "length ?t' = length ?t"
      by (cases rule: cs; use cl inv(3) in \<open>simp add: pending_in_tree\<close>)+
    show "slot_name ?t' k = slot_name ?t k" "right_of (?t' ! k) = right_of (?t ! k)"
      "IE_BITS_TYPE (ie_bits (?t' ! k)) = IE_BITS_TYPE (ie_bits (?t ! k))"
      "test (ie_bits (?t' ! k)) IE_BITS_COLLISION \<longleftrightarrow>
        \<not> (k = ?i \<and> k < length ?t \<and> \<not> c) \<and> test (ie_bits (?t ! k)) IE_BITS_COLLISION"
      "ie_object (?t' ! k) = ie_object (?t ! k)" "ie_index (?t' ! k) = ie_index (?t ! k)" for k
      by (cases rule: cs; use cl(4-9) in \<open>force simp: pending_in_tree\<close>)+
  qed
  have nm: "names None S' = names ?P S"
    using T(2,4,5) by (intro ext) (auto simp: names_def tm)
  have "collisions_ok None S'"
    unfolding collisions_ok_def T(3,4)
  proof (intro allI impI conjI)
    fix k assume k: "k < is_table_size S"
    have "(\<exists>m\<in>dom (tree_map S'). name_index m = k) \<longleftrightarrow>
        (if k = ?i then c else \<exists>m\<in>dom (tree_map S). name_index m = k)"
      unfolding shape(4) tm by (auto split: if_splits)
    with k inv(5) T(7) [of k] n shape(4)
    show "test (ie_bits (?t' ! k)) IE_BITS_COLLISION \<longleftrightarrow> (\<exists>m\<in>dom (tree_map S'). name_index m = k)"
      by (auto simp: collisions_ok_def split: if_splits)
    assume "in_use None ?t' k \<or> None = Some (In_Table k)"
    then show "tree_map S' (slot_name ?t k) = None"
      using k inv(5) T(2) by (auto simp: collisions_ok_def tm)
  qed
  moreover have "tree_ok None S'"
    by (rule tree_ok_removed [OF inv(4)]) (use shape(2,3) in \<open>simp_all add: fields\<close>)
  moreover have "sizes_ok_for sizes S'"
    using inv(2) small_indices_removed [OF tm T(3) fields(4) n, of sizes, folded shape(4), symmetric]
    by (simp add: sizes_ok_for_def T(3) fields(4,5,6))
  moreover have "hash_ok addr space None S'"
  proof -
    have ss: "send_slots None ?t' = send_slots ?P ?t" using T(2,6) by (intro send_slots_cong) auto
    have "tree_send None S' = tree_send ?P S" by (auto simp: tree_send_def tm fun_eq_iff)
    moreover have "local_hash_ok (snd addr) ?t' (send_slots ?P ?t)"
      by (rule local_hash_ok_cong [of _ ?t]) (use inv(6) in \<open>simp_all add: hash_ok_def T(3,8,9)\<close>)
    ultimately show ?thesis using inv(6) by (simp add: hash_ok_def ss T(8) fields(3))
  qed
  ultimately have "names_ok addr sizes space None S'" using inv(1) T(1) by (simp add: names_ok_def)
  then show "names_ok addr sizes space None (dealloc_tree sizes n S)"
    "names None (dealloc_tree sizes n S) = names ?P S" using nm by (simp_all add: S'_def)
qed

section \<open>Moving an entry from the tree into its slot\<close>

lemma same_index: "\<exists>x. s = (s :: ipc_table_entry)\<lparr>ie_index := x\<rparr>"
  by (rule exI [of _ "ie_index s"]) simp

lemma move_to_table_spec:
  assumes lok: "local_hash_ok (snd addr) t M" and gok: "global_rep addr h m"
    and i: "i \<notin> M" "0 < i" "i < length t"
    and send: "IE_BITS_TYPE (ie_bits e) = MACH_PORT_TYPE_SEND \<Longrightarrow>
                 m (space, ie_object e) = Some n \<and> (\<forall>j\<in>M. ie_object (t ! j) \<noteq> ie_object e)"
  obtains t' h' where "move_to_table addr space i n e (t, h) = Some (t', h')"
    "length t' = length t" "ie_bits (t' ! i) = ie_bits e OR MACH_PORT_GEN n"
    "ie_object (t' ! i) = ie_object e" "ie_request (t' ! i) = ie_request e"
    "\<forall>j. j \<noteq> i \<longrightarrow> (\<exists>x. t' ! j = (t ! j)\<lparr>ie_index := x\<rparr>)"
    "local_hash_ok (snd addr) t' (if IE_BITS_TYPE (ie_bits e) = MACH_PORT_TYPE_SEND then insert i M else M)"
    "global_rep addr h'
       (if IE_BITS_TYPE (ie_bits e) = MACH_PORT_TYPE_SEND then m((space, ie_object e) := None) else m)"
proof -
  define u where "u = upd_slot i (\<lambda>s. s\<lparr>ie_bits := ie_bits e OR MACH_PORT_GEN n, ie_object := ie_object e,
                                       ie_request := ie_request e\<rparr>) t"
  have u: "length u = length t" "ie_bits (u ! i) = ie_bits e OR MACH_PORT_GEN n" "ie_object (u ! i) = ie_object e"
    "ie_request (u ! i) = ie_request e" "\<And>j. j \<noteq> i \<Longrightarrow> u ! j = t ! j" "\<And>j. ie_index (u ! j) = ie_index (t ! j)"
  proof -
    show "ie_index (u ! j) = ie_index (t ! j)" for j using i(3) by (cases "j = i") (simp_all add: u_def)
  qed (use i(3) in \<open>simp_all add: u_def\<close>)
  have lu: "local_hash_ok (snd addr) u M"
    by (rule local_hash_ok_cong [OF lok u(1)]) (use i(1) u(5,6) in metis)+
  show thesis
  proof (cases "IE_BITS_TYPE (ie_bits e) = MACH_PORT_TYPE_SEND")
    case False
    have move: "move_to_table addr space i n e (t, h) = Some (u, h)"
      using False by (simp add: move_to_table_def u_def Let_def)
    show thesis by (rule that [OF move u(1-4)]) (use False lu gok u(5) same_index in auto)
  next
    case True
    have "\<forall>j\<in>M. ie_object (u ! j) \<noteq> ie_object e" using send [OF True] i(1) u(5) by metis
    from local_insert_spec [OF lu i(1,2) _ u(3) this] i(3) u(1) obtain s where
      s: "s < length u" "ipc_hash_local_insert (snd addr) u (ie_object e) i = Some (set_index s i u)"
      "local_hash_ok (snd addr) (set_index s i u) (insert i M)" by auto
    let ?h = "ipc_hash_global_delete addr h space (ie_object e) n"
    have move: "move_to_table addr space i n e (t, h) = Some (set_index s i u, ?h)"
      using True s(2) by (simp add: move_to_table_def u_def Let_def)
    have nth: "\<exists>x. set_index s i u ! j = (u ! j)\<lparr>ie_index := x\<rparr>" for j
      using s(1) by (cases "j = s") (auto simp: set_index_def intro: exI [of _ "ie_index (u ! j)"])
    have fields: "ie_bits (set_index s i u ! i) = ie_bits (u ! i)"
      "ie_object (set_index s i u ! i) = ie_object (u ! i)" "ie_request (set_index s i u ! i) = ie_request (u ! i)"
      using nth [of i] by auto
    have "global_rep addr ?h (m((space, ie_object e) := None))"
      by (rule global_delete_rep [OF gok]) (use send [OF True] in simp)
    moreover have "\<forall>j. j \<noteq> i \<longrightarrow> (\<exists>x. set_index s i u ! j = (t ! j)\<lparr>ie_index := x\<rparr>)"
      using nth u(5) by metis
    ultimately show thesis using True s(3) u(1-4) by (intro that [OF move]) (simp_all add: fields)
  qed
qed

lemma sorted_keys_split:
  "sorted_keys xs \<Longrightarrow> filter (\<lambda>p. fst p < a) xs @ filter (\<lambda>p. a \<le> fst p) xs = xs"
proof (induction xs)
  case (Cons x xs)
  show ?case
  proof (cases "fst x < a")
    case False
    then have "\<forall>p\<in>set xs. \<not> fst p < a" using Cons.prems by (auto simp: list_all_iff)
    then have "filter (\<lambda>p. fst p < a) xs = []" by (simp add: filter_empty_conv)
    with False Cons show ?thesis by (simp add: not_less)
  qed (use Cons in simp)
qed simp

text \<open>The tree after the splits, the deletion of \<open>n\<close> among the colliding names and the joins.\<close>

lemma collision_trees:
  assumes inv: "splay_inv tree" and i: "i + 1 < 2 ^ 24"
    and sp: "ipc_splay_tree_split tree (make_name (i + 1) 0) = (big, rest)"
      "ipc_splay_tree_split rest (make_name i 0) = (coll, small)"
  shows "contents coll = filter (\<lambda>p. name_index (fst p) = i) (contents tree)" "splay_inv coll"
    and "(n, e) \<in> set (contents coll) \<Longrightarrow>
      (let coll' = ipc_splay_tree_delete coll n;
           tree' = fst (ipc_splay_tree_join
             (if ipc_splay_tree_pick coll' = None then big else fst (ipc_splay_tree_join big coll')) small)
       in splay_inv tree' \<and> contents tree' = filter (\<lambda>p. fst p \<noteq> n) (contents tree) \<and>
          (ipc_splay_tree_pick coll' = None \<longleftrightarrow>
             \<not> (\<exists>p\<in>set (contents tree). fst p \<noteq> n \<and> name_index (fst p) = i)))"
proof -
  let ?lo = "make_name i 0" and ?hi = "make_name (i + 1) 0" and ?xs = "contents tree"
  note s1 = split_spec [OF inv sp(1)]
  note s2 = split_spec [OF s1(2) sp(2)]
  note sorted = contents_sorted [OF inv]
  have cmp: "m < ?hi \<longleftrightarrow> name_index m \<le> i" "?lo \<le> m \<longleftrightarrow> i \<le> name_index m" "m < ?lo \<longleftrightarrow> name_index m < i"
    "?hi \<le> m \<longleftrightarrow> i < name_index m" for m
    using i name_less_make [of "i + 1" m] make_name_le [of i m] name_less_make [of i m] make_name_le [of "i + 1" m]
    by (simp_all add: less_Suc_eq_le Suc_le_eq)
  have coll: "contents coll = filter (\<lambda>p. name_index (fst p) = i) ?xs"
    unfolding s2(3) s1(4) filter_filter by (rule filter_cong) (use cmp in auto)
  show "contents coll = filter (\<lambda>p. name_index (fst p) = i) ?xs" "splay_inv coll" by (rule coll s2(1))+
  have xs: "contents small @ contents coll @ contents big = ?xs"
    using sorted_keys_split [OF sorted, of ?hi] sorted_keys_split [OF contents_sorted [OF s1(2)], of ?lo]
    unfolding s2(3,4) [symmetric] s1(3,4) [symmetric] by (metis append.assoc)
  assume ne: "(n, e) \<in> set (contents coll)"
  define coll' where "coll' = ipc_splay_tree_delete coll n"
  define mid where "mid = (if ipc_splay_tree_pick coll' = None then big else fst (ipc_splay_tree_join big coll'))"
  define tree' where "tree' = fst (ipc_splay_tree_join mid small)"
  have "map_of (contents coll) n \<noteq> None" using weak_map_of_SomeI [OF ne] by auto
  note del = delete_spec [OF s2(1) this, folded coll'_def]
  have empty: "ipc_splay_tree_pick coll' = None \<longleftrightarrow> contents coll' = []"
    using pick_contents [of coll'] by (auto split: option.splits)
  have mid: "splay_inv mid \<and> contents mid = contents coll' @ contents big"
  proof (cases "ipc_splay_tree_pick coll' = None")
    case False
    obtain a b where j: "ipc_splay_tree_join big coll' = (a, b)" by force
    have "\<forall>p\<in>set (contents coll'). \<forall>q\<in>set (contents big). fst p < fst q"
      using sorted unfolding xs [symmetric] sorted_keys_append by (auto simp: del(1))
    from join_spec(1,2) [OF s1(1) del(2) this j] show ?thesis unfolding mid_def if_not_P [OF False] j by simp
  qed (use empty s1(1) in \<open>simp add: mid_def\<close>)
  obtain a b where j: "ipc_splay_tree_join mid small = (a, b)" by force
  have "\<forall>p\<in>set (contents small). \<forall>q\<in>set (contents mid). fst p < fst q"
    using sorted mid unfolding xs [symmetric] sorted_keys_append by (auto simp: del(1))
  from join_spec(1,2) [OF conjunct1 [OF mid] s2(2) this j]
  have t': "splay_inv tree'" "contents tree' = contents small @ contents coll' @ contents big"
    using mid by (simp_all add: tree'_def j)
  have "name_index n = i" using ne coll by auto
  then have "filter (\<lambda>p. fst p \<noteq> n) (contents small) = contents small"
    "filter (\<lambda>p. fst p \<noteq> n) (contents big) = contents big"
    unfolding s2(4) s1(3) filter_filter by (intro filter_cong refl; use cmp in auto)+
  then have "contents tree' = filter (\<lambda>p. fst p \<noteq> n) ?xs"
    unfolding t'(2) del(1) xs [symmetric] by simp
  moreover have "contents coll' = [] \<longleftrightarrow> \<not> (\<exists>p\<in>set ?xs. fst p \<noteq> n \<and> name_index (fst p) = i)"
    unfolding del(1) coll by (auto simp: filter_empty_conv)
  ultimately show "let coll' = ipc_splay_tree_delete coll n;
           tree' = fst (ipc_splay_tree_join
             (if ipc_splay_tree_pick coll' = None then big else fst (ipc_splay_tree_join big coll')) small)
       in splay_inv tree' \<and> contents tree' = filter (\<lambda>p. fst p \<noteq> n) ?xs \<and>
          (ipc_splay_tree_pick coll' = None \<longleftrightarrow>
             \<not> (\<exists>p\<in>set ?xs. fst p \<noteq> n \<and> name_index (fst p) = i))"
    using t'(1) empty unfolding Let_def coll'_def [symmetric] mid_def [symmetric] tree'_def [symmetric] by simp
qed

text \<open>What a table looks like after slot \<open>i\<close> got the entry \<open>e\<close> of the name \<open>n\<close> from the tree.\<close>

definition filled :: "nat \<Rightarrow> mach_port_t \<Rightarrow> ipc_entry \<Rightarrow> bool \<Rightarrow> ipc_table \<Rightarrow> ipc_table \<Rightarrow> bool" where
  "filled i n e c t t' \<longleftrightarrow>
     length t' = length t \<and> IE_BITS_TYPE (ie_bits (t' ! i)) = IE_BITS_TYPE (ie_bits e) \<and>
     IE_BITS_GEN (ie_bits (t' ! i)) = MACH_PORT_GEN n \<and> right_of (t' ! i) = e \<and>
     (test (ie_bits (t' ! i)) IE_BITS_COLLISION \<longleftrightarrow> c) \<and>
     (\<forall>j. j \<noteq> i \<longrightarrow> (\<exists>x. t' ! j = (t ! j)\<lparr>ie_index := x\<rparr>))"

lemma filledD:
  assumes "filled i n e c t t'"
  shows "length t' = length t" "IE_BITS_TYPE (ie_bits (t' ! i)) = IE_BITS_TYPE (ie_bits e)"
    "IE_BITS_GEN (ie_bits (t' ! i)) = MACH_PORT_GEN n" "right_of (t' ! i) = e"
    "test (ie_bits (t' ! i)) IE_BITS_COLLISION \<longleftrightarrow> c" "ie_object (t' ! i) = ie_object e"
    "j \<noteq> i \<Longrightarrow> ie_bits (t' ! j) = ie_bits (t ! j)" "j \<noteq> i \<Longrightarrow> ie_object (t' ! j) = ie_object (t ! j)"
    "j \<noteq> i \<Longrightarrow> ie_next (t' ! j) = ie_next (t ! j)" "j \<noteq> i \<Longrightarrow> right_of (t' ! j) = right_of (t ! j)"
    "j \<noteq> i \<Longrightarrow> slot_name t' j = slot_name t j"
    "name_index n = i \<Longrightarrow> slot_name t' i = n"
proof -
  show "ie_object (t' ! i) = ie_object e" using assms by (auto simp: filled_def right_of_def)
  show "name_index n = i \<Longrightarrow> slot_name t' i = n" using assms slot_name_iff [of t' n] by (auto simp: filled_def)
  assume "j \<noteq> i"
  then obtain x where "t' ! j = (t ! j)\<lparr>ie_index := x\<rparr>" using assms by (auto simp: filled_def)
  then show "ie_bits (t' ! j) = ie_bits (t ! j)" "ie_object (t' ! j) = ie_object (t ! j)"
    "ie_next (t' ! j) = ie_next (t ! j)" "right_of (t' ! j) = right_of (t ! j)" "slot_name t' j = slot_name t j"
    by (simp_all add: right_of_def slot_name_def)
qed (use assms in \<open>simp_all add: filled_def\<close>)

lemma filledI:
  assumes "right_only (ie_bits e)" "i < length t" "length t' = length t"
    "ie_bits (t' ! i) = ie_bits e OR MACH_PORT_GEN n" "ie_object (t' ! i) = ie_object e"
    "ie_request (t' ! i) = ie_request e" "\<forall>j. j \<noteq> i \<longrightarrow> (\<exists>x. t' ! j = (t ! j)\<lparr>ie_index := x\<rparr>)"
  shows "filled i n e False t t'"
    "filled i n e True t (upd_slot i (ie_bits_update (\<lambda>b. b OR IE_BITS_COLLISION)) t')"
  using assms right_only_fields [OF assms(1) gen_only_simps(1) [of n]]
  by (auto simp: filled_def right_of_def set_collision)

text \<open>Filling the pending slot from the tree.\<close>

lemma fill_pending:
  assumes ok: "names_ok addr sizes space (Some (In_Table i)) S"
    and e: "tree_map S n = Some e" and i: "name_index n = i"
    and fl: "filled i n e (\<exists>m\<in>dom (tree_map S). m \<noteq> n \<and> name_index m = i) (is_table S) t'"
    and lh: "local_hash_ok (snd addr) t' (if IE_BITS_TYPE (ie_bits e) = MACH_PORT_TYPE_SEND
        then insert i (send_slots (Some (In_Table i)) (is_table S)) else send_slots (Some (In_Table i)) (is_table S))"
    and gh: "global_rep addr h' (if IE_BITS_TYPE (ie_bits e) = MACH_PORT_TYPE_SEND
        then m((space, ie_object e) := None) else m)"
    and m: "\<forall>n obj. m (space, obj) = Some n \<longleftrightarrow> tree_send (Some (In_Table i)) S n obj"
    and tree: "splay_inv tree'" "contents tree' = filter (\<lambda>p. fst p \<noteq> n) (contents (is_tree S))"
    and S': "S' = S\<lparr>is_table := t', is_tree := tree', is_tree_total := is_tree_total S - 1, is_hash := h'\<rparr>"
  shows "names_ok addr sizes space None S'" "names None S' = names (Some (In_Table i)) S"
proof -
  let ?P = "Some (In_Table i)" and ?t = "is_table S"
  note inv = names_okD [OF ok] and f = filledD [OF fl]
  have lt: "0 < i" "i < length ?t" using inv(3) by (auto simp: table_ok_def)
  have tm: "tree_map S' = (tree_map S)(n := None)" by (rule tree_map_removed [OF tree(2)]) (simp add: S')
  have st: "is_table S' = t'" "is_hash S' = h'" "is_table_next S' = is_table_next S" by (simp_all add: S')
  have type: "IE_BITS_TYPE (ie_bits e) \<noteq> MACH_PORT_TYPE_NONE" using tree_okD(5) [OF inv(4) e] by simp
  have use: "in_use None t' k \<longleftrightarrow> in_use ?P ?t k \<or> k = i" for k
    using lt type f(1,2) f(7) [of k] by (cases "k = i") (auto simp: in_use_def)
  have free: "free_index None t' k \<longleftrightarrow> free_index ?P ?t k" for k
    using lt type f(1,2) f(7) [of k] by (cases "k = i") (auto simp: free_index_def)
  have ii: "\<not> in_use ?P ?t i" by (simp add: in_use_def)
  show "names None S' = names ?P S"
  proof (rule ext)
    fix k
    show "names None S' k = names ?P S k"
    proof (cases "name_index k = i")
      case True
      then show ?thesis using e ii f(4) f(12) [OF i] i by (auto simp: names_def st tm use)
    next
      case False
      then show ?thesis using i f(10,11) by (auto simp: names_def st tm use)
    qed
  qed
  have "table_ok None t'"
  proof -
    obtain fl where fl: "chain ?t 0 fl" "distinct fl" "set fl = {k. free_index ?P ?t k}"
      using table_free_list [OF inv(3)] .
    have "i \<notin> insert 0 (set fl)" using fl(3) lt by (auto simp: free_index_def)
    then have "chain t' 0 fl" by (intro chain_cong [OF _ fl(1)] f(9)) auto
    moreover have "gen_only (ie_bits (t' ! k)) \<and> ie_object (t' ! k) = IO_NULL" if "free_index None t' k" for k
    proof -
      have "free_index ?P ?t k" "k \<noteq> i" using that by (auto simp: free) (simp add: free_index_def)
      with f(7,8) free_no_collision [OF inv(3), of k] show ?thesis by simp
    qed
    moreover have "ie_bits (t' ! 0) AND NOT IE_BITS_COLLISION = IE_BITS_GEN_MASK"
      using inv(3) f(7) [of 0] lt by (simp add: table_ok_def)
    ultimately show ?thesis using fl(2,3) lt unfolding table_ok_def f(1) free by auto
  qed
  moreover have "collisions_ok None S'"
    unfolding collisions_ok_def st f(1)
  proof (intro allI impI conjI)
    fix k assume k: "k < length ?t"
    show "test (ie_bits (t' ! k)) IE_BITS_COLLISION \<longleftrightarrow> (\<exists>m\<in>dom (tree_map S'). name_index m = k)"
    proof (cases "k = i")
      case False
      then have "(\<exists>m\<in>dom (tree_map S'). name_index m = k) \<longleftrightarrow> (\<exists>m\<in>dom (tree_map S). name_index m = k)"
        using i by (auto simp: tm)
      with inv(5) k f(7) [OF False] show ?thesis by (simp add: collisions_ok_def)
    qed (auto simp: f(5) tm split: if_splits)
    assume "in_use None t' k \<or> None = Some (In_Table k)"
    then show "tree_map S' (slot_name t' k) = None"
      using k inv(5) f(11) [of k] f(12) [OF i] by (cases "k = i") (auto simp: collisions_ok_def tm use)
  qed
  moreover have "tree_ok None S'"
  proof -
    note tok = tree_okD [OF inv(4)]
    have "map_of (contents (is_tree S)) n \<noteq> None" using e by (simp add: tree_map_def)
    from length_remove_key [OF contents_sorted [OF tok(1)] this]
    have "is_tree_total S' = length (contents tree')" using tree(2) tok(2) by (simp add: S')
    with tree(1) tok tm show ?thesis by (auto simp: tree_ok_def S')
  qed
  moreover have "sizes_ok_for sizes S'"
    using inv(2) small_indices_removed [OF tm _ st(3), of sizes] f(1) e i lt
    by (simp add: sizes_ok_for_def S')
  moreover have "hash_ok addr space None S'"
  proof -
    let ?M = "send_slots ?P ?t"
    have ss: "send_slots None t' = (if IE_BITS_TYPE (ie_bits e) = MACH_PORT_TYPE_SEND then insert i ?M else ?M)"
    proof (rule set_eqI)
      fix k show "k \<in> send_slots None t' \<longleftrightarrow>
          k \<in> (if IE_BITS_TYPE (ie_bits e) = MACH_PORT_TYPE_SEND then insert i ?M else ?M)"
        using f(2) f(7) [of k] ii by (cases "k = i") (auto simp: send_slots_def use)
    qed
    have ts: "tree_send None S' k obj \<longleftrightarrow> tree_send ?P S k obj \<and> k \<noteq> n" for k obj
      by (auto simp: tree_send_def tm)
    have sn: "tree_send ?P S n obj \<longleftrightarrow> IE_BITS_TYPE (ie_bits e) = MACH_PORT_TYPE_SEND \<and> obj = ie_object e" for obj
      using e by (auto simp: tree_send_def)
    have one: "k = n" if "tree_send ?P S k (ie_object e)" "IE_BITS_TYPE (ie_bits e) = MACH_PORT_TYPE_SEND" for k
      using that m sn by (metis option.inject)
    have "\<forall>k obj. (if IE_BITS_TYPE (ie_bits e) = MACH_PORT_TYPE_SEND
        then m((space, ie_object e) := None) else m) (space, obj) = Some k \<longleftrightarrow> tree_send None S' k obj"
      using m one sn by (auto simp: ts)
    moreover have "\<not> tree_send None S' k (ie_object (t' ! j))" if "j \<in> send_slots None t'" for j k
    proof (cases "j = i")
      case True
      with that one show ?thesis by (auto simp: ts f(6) send_slots_def f(2))
    next
      case False
      with that have "j \<in> ?M" by (auto simp: ss split: if_splits)
      with inv(6) f(8) [OF False] show ?thesis by (auto simp: hash_ok_def ts)
    qed
    ultimately show ?thesis using lh gh unfolding hash_ok_def st ss by blast
  qed
  ultimately show "names_ok addr sizes space None S'" using inv(1) by (simp add: names_ok_def st)
qed

lemma dealloc_collision_spec:
  assumes ok: "names_ok addr sizes space (Some (In_Table i)) S"
    and col: "test (ie_bits (is_table S ! i)) IE_BITS_COLLISION"
  shows "\<exists>S'. dealloc_collision addr space i S = Some S' \<and> names_ok addr sizes space None S' \<and>
              names None S' = names (Some (In_Table i)) S"
proof -
  let ?P = "Some (In_Table i)" and ?t = "is_table S"
  note inv = names_okD [OF ok]
  have lt: "0 < i" "i < length ?t" using inv(3) by (auto simp: table_ok_def)
  then have i: "i + 1 < 2 ^ 24" using table_size_bound(1) [OF ok] by linarith
  obtain big rest coll small where
    sp: "ipc_splay_tree_split (is_tree S) (make_name (i + 1) 0) = (big, rest)"
      "ipc_splay_tree_split rest (make_name i 0) = (coll, small)" by fastforce
  note ct = collision_trees [OF tree_okD(1) [OF inv(4)] i sp]
  obtain m where "m \<in> dom (tree_map S)" "name_index m = i"
    using col inv(5) lt by (auto simp: collisions_ok_def)
  then have "\<exists>x\<in>set (contents (is_tree S)). name_index (fst x) = i"
    by (force simp: tree_map_def dest: map_of_SomeD)
  then have "contents coll \<noteq> []" unfolding ct(1) by (auto simp: filter_empty_conv)
  then obtain n e where pick: "ipc_splay_tree_pick coll = Some (n, e)" "(n, e) \<in> set (contents coll)"
    using pick_contents [of coll] by (auto split: option.splits)
  have ne: "(n, e) \<in> set (contents (is_tree S))" "name_index n = i" using pick(2) unfolding ct(1) by auto
  have e: "tree_map S n = Some e"
    using ne(1) sorted_keys_distinct [OF contents_sorted [OF tree_okD(1) [OF inv(4)]]] by (simp add: tree_map_def)
  obtain m where m: "global_rep addr (is_hash S) m" "\<forall>n obj. m (space, obj) = Some n \<longleftrightarrow> tree_send ?P S n obj"
    using inv(6) by (auto simp: hash_ok_def)
  let ?M = "send_slots ?P ?t"
  have lh: "local_hash_ok (snd addr) ?t ?M" "i \<notin> ?M" using inv(6) by (auto simp: hash_ok_def send_slots_def in_use_def)
  have send: "m (space, ie_object e) = Some n \<and> (\<forall>j\<in>?M. ie_object (?t ! j) \<noteq> ie_object e)"
    if "IE_BITS_TYPE (ie_bits e) = MACH_PORT_TYPE_SEND"
  proof -
    have "tree_send ?P S n (ie_object e)" using e that by (simp add: tree_send_def)
    with m(2) inv(6) show ?thesis unfolding hash_ok_def by metis
  qed
  obtain t' h' where mv: "move_to_table addr space i n e (?t, is_hash S) = Some (t', h')"
    "length t' = length ?t" "ie_bits (t' ! i) = ie_bits e OR MACH_PORT_GEN n"
    "ie_object (t' ! i) = ie_object e" "ie_request (t' ! i) = ie_request e"
    "\<forall>j. j \<noteq> i \<longrightarrow> (\<exists>x. t' ! j = (?t ! j)\<lparr>ie_index := x\<rparr>)"
    "local_hash_ok (snd addr) t' (if IE_BITS_TYPE (ie_bits e) = MACH_PORT_TYPE_SEND then insert i ?M else ?M)"
    "global_rep addr h'
       (if IE_BITS_TYPE (ie_bits e) = MACH_PORT_TYPE_SEND then m((space, ie_object e) := None) else m)"
    by (rule move_to_table_spec [OF lh(1) m(1) lh(2) lt send])
  define coll' where "coll' = ipc_splay_tree_delete coll n"
  define tree' where "tree' = fst (ipc_splay_tree_join
      (if ipc_splay_tree_pick coll' = None then big else fst (ipc_splay_tree_join big coll')) small)"
  have tr: "splay_inv tree'" "contents tree' = filter (\<lambda>p. fst p \<noteq> n) (contents (is_tree S))"
    "ipc_splay_tree_pick coll' = None \<longleftrightarrow>
       \<not> (\<exists>p\<in>set (contents (is_tree S)). fst p \<noteq> n \<and> name_index (fst p) = i)"
    using ct(3) [OF pick(2)] unfolding Let_def coll'_def [symmetric] tree'_def [symmetric] by blast+
  have c: "(\<exists>m\<in>dom (tree_map S). m \<noteq> n \<and> name_index m = i) \<longleftrightarrow> ipc_splay_tree_pick coll' \<noteq> None"
    unfolding tr(3) tree_map_def dom_map_of_conv_image_fst by auto
  define u where "u = (if ipc_splay_tree_pick coll' = None then t'
      else upd_slot i (ie_bits_update (\<lambda>b. b OR IE_BITS_COLLISION)) t')"
  define S' where "S' = S\<lparr>is_table := u, is_tree := tree', is_tree_total := is_tree_total S - 1, is_hash := h'\<rparr>"
  have "dealloc_collision addr space i S = Some S'"
    unfolding S'_def u_def tree'_def
    by (auto simp: dealloc_collision_def Let_def sp(2) sp(1) [simplified] pick(1) mv(1) coll'_def [symmetric] split: option.splits)
  moreover have "right_only (ie_bits e)" using tree_okD(3) [OF inv(4) e] .
  from filledI [OF this lt(2) mv(2-6)]
  have "filled i n e (\<exists>m\<in>dom (tree_map S). m \<noteq> n \<and> name_index m = i) ?t u"
    unfolding c u_def by (cases "ipc_splay_tree_pick coll'") simp_all
  moreover have "local_hash_ok (snd addr) u (if IE_BITS_TYPE (ie_bits e) = MACH_PORT_TYPE_SEND then insert i ?M else ?M)"
    by (rule local_hash_ok_cong [OF mv(7)])
       (use lt mv(2) in \<open>auto simp: u_def upd_slot_def nth_list_update\<close>)
  ultimately show ?thesis
    using fill_pending [OF ok e ne(2) _ _ mv(8) m(2) tr(1,2) S'_def] by blast
qed

end
