(* ===== verification/Entry_Store.thy ===== *)
theory Entry_Store
  imports Entry_Dealloc
begin

text \<open>
  What \<^verbatim>\<open>ipc_right.c\<close> does to an entry it has a pointer to: storing into it, with the reverse
  hash tables kept up to date, between taking the entry from \<^verbatim>\<open>ipc_entry_get\<close> or
  \<^verbatim>\<open>ipc_entry_alloc_name\<close> and giving it back with \<^verbatim>\<open>ipc_entry_dealloc\<close>.
\<close>

section \<open>Storing through an entry pointer\<close>

primrec itree_store :: "mach_port_t \<Rightarrow> ('e \<Rightarrow> 'e) \<Rightarrow> 'e itree \<Rightarrow> 'e itree" where
  "itree_store n f ITE_NULL = ITE_NULL"
| "itree_store n f (ITE l k e r) = ITE (itree_store n f l) k (if k = n then f e else e) (itree_store n f r)"

definition tree_store :: "mach_port_t \<Rightarrow> ('e \<Rightarrow> 'e) \<Rightarrow> 'e ipc_splay_tree \<Rightarrow> 'e ipc_splay_tree" where
  "tree_store n f tree = tree\<lparr>ist_root := itree_store n f (ist_root tree),
     ist_ltree := map (\<lambda>(l, k, e). (itree_store n f l, k, if k = n then f e else e)) (ist_ltree tree),
     ist_rtree := map (\<lambda>(k, e, r). (k, if k = n then f e else e, itree_store n f r)) (ist_rtree tree)\<rparr>"

abbreviation store_pair :: "mach_port_t \<Rightarrow> ('e \<Rightarrow> 'e) \<Rightarrow> mach_port_t \<times> 'e \<Rightarrow> mach_port_t \<times> 'e" where
  "store_pair n f \<equiv> \<lambda>(k, e). (k, if k = n then f e else e)"

lemma inorder_store: "inorder (itree_store n f t) = map (store_pair n f) (inorder t)"
  by (induction t) auto

lemma spine_store:
  "lspine_list (map (\<lambda>(l, k, e). (itree_store n f l, k, if k = n then f e else e)) ls) =
     map (store_pair n f) (lspine_list ls)"
  "rspine_list (map (\<lambda>(k, e, r). (k, if k = n then f e else e, itree_store n f r)) rs) =
     map (store_pair n f) (rspine_list rs)"
  by (induction ls rule: lspine_list.induct, auto simp: inorder_store)
     (induction rs rule: rspine_list.induct, auto simp: inorder_store)

lemma fst_store [simp]: "map fst (map (store_pair n f) xs) = map fst xs"
  by (induction xs) auto

lemma itree_store_null [simp]: "itree_store n f t = ITE_NULL \<longleftrightarrow> t = ITE_NULL"
  by (cases t) auto

lemma map_of_store: "map_of (map (store_pair n f) xs) = (map_of xs)(n := map_option f (map_of xs n))"
  by (induction xs) (auto simp: fun_eq_iff)

lemma tree_store_spec:
  shows "contents (tree_store n f tree) = map (store_pair n f) (contents tree)"
    and "splay_inv tree \<Longrightarrow> splay_inv (tree_store n f tree)"
proof -
  show "contents (tree_store n f tree) = map (store_pair n f) (contents tree)"
    by (simp add: contents_def tree_store_def inorder_store spine_store)
  have keys: "all_below (map (store_pair n f) xs) k \<longleftrightarrow> all_below xs k"
    "all_above (map (store_pair n f) xs) k \<longleftrightarrow> all_above xs k" for k and xs :: "(mach_port_t \<times> 'a) list"
    by (induction xs) auto
  have "search_end k (itree_store n f t) \<longleftrightarrow> search_end k t" for k t by (cases t) auto
  moreover have "sorted_keys (map (store_pair n f) xs) \<longleftrightarrow> sorted_keys xs" for xs by (simp only: fst_store)
  ultimately show "splay_inv tree \<Longrightarrow> splay_inv (tree_store n f tree)"
    by (simp add: splay_inv_def tree_store_def inorder_store spine_store keys flip: map_append)
qed

text \<open>
  Storing a right keeps the generation and the collision bit of a table entry; the entries of
  the tree have neither.
\<close>

fun store_right :: "entry_ref \<Rightarrow> ipc_entry \<Rightarrow> ipc_names \<Rightarrow> ipc_names" where
  "store_right (In_Table i) e S =
     S\<lparr>is_table := upd_slot i (\<lambda>s. s\<lparr>ie_bits := (ie_bits s AND NOT IE_BITS_RIGHT_MASK) OR ie_bits e,
         ie_object := ie_object e, ie_request := ie_request e\<rparr>) (is_table S)\<rparr>"
| "store_right (In_Tree n) e S = S\<lparr>is_tree := tree_store n (\<lambda>_. e) (is_tree S)\<rparr>"

definition ref_name :: "ipc_names \<Rightarrow> entry_ref \<Rightarrow> mach_port_t" where
  "ref_name S ref = (case ref of In_Table i \<Rightarrow> slot_name (is_table S) i | In_Tree n \<Rightarrow> n)"

lemma store_right_fields:
  assumes "right_only b'"
  shows "IE_BITS_TYPE ((b AND NOT IE_BITS_RIGHT_MASK) OR b') = IE_BITS_TYPE b'"
    "IE_BITS_GEN ((b AND NOT IE_BITS_RIGHT_MASK) OR b') = IE_BITS_GEN b"
    "((b AND NOT IE_BITS_RIGHT_MASK) OR b') AND IE_BITS_RIGHT_MASK = b'"
    "test ((b AND NOT IE_BITS_RIGHT_MASK) OR b') IE_BITS_COLLISION \<longleftrightarrow> test b IE_BITS_COLLISION"
proof -
  note r = right_only_and [OF assms]
  have "b' AND IE_BITS_COLLISION = 0" "b' AND IE_BITS_GEN_MASK = 0" by (rule r, simp add: mask_defs)+
  moreover have "(b AND NOT IE_BITS_RIGHT_MASK) AND IE_BITS_COLLISION = b AND IE_BITS_COLLISION"
    "(b AND NOT IE_BITS_RIGHT_MASK) AND IE_BITS_GEN_MASK = b AND IE_BITS_GEN_MASK"
    "(b AND NOT IE_BITS_RIGHT_MASK) AND IE_BITS_TYPE_MASK = 0"
    "(b AND NOT IE_BITS_RIGHT_MASK) AND IE_BITS_RIGHT_MASK = 0"
    by (simp_all add: mask_defs and.assoc)
  ultimately show "IE_BITS_TYPE ((b AND NOT IE_BITS_RIGHT_MASK) OR b') = IE_BITS_TYPE b'"
    "IE_BITS_GEN ((b AND NOT IE_BITS_RIGHT_MASK) OR b') = IE_BITS_GEN b"
    "((b AND NOT IE_BITS_RIGHT_MASK) OR b') AND IE_BITS_RIGHT_MASK = b'"
    "test ((b AND NOT IE_BITS_RIGHT_MASK) OR b') IE_BITS_COLLISION \<longleftrightarrow> test b IE_BITS_COLLISION"
    using assms by (simp_all add: field_defs bit.conj_disj_distrib2 right_only_def)
qed

section \<open>The pending entry\<close>

definition core_ok :: "nat list \<Rightarrow> entry_ref option \<Rightarrow> ipc_names \<Rightarrow> bool" where
  "core_ok sizes P S \<longleftrightarrow> schedule_ok sizes \<and> sizes_ok_for sizes S \<and> table_ok P (is_table S) \<and>
     tree_ok P S \<and> collisions_ok P S"

lemma names_ok_core: "names_ok addr sizes space P S \<longleftrightarrow> core_ok sizes P S \<and> hash_ok addr space P S"
  by (auto simp: names_ok_def core_ok_def)

text \<open>An entry with a type and an entry in between are the same up to the reverse hash tables.\<close>

definition typed_ref :: "ipc_names \<Rightarrow> entry_ref \<Rightarrow> ipc_entry \<Rightarrow> bool" where
  "typed_ref S ref e \<longleftrightarrow> entry_at S ref = Some e \<and> IE_BITS_TYPE (ie_bits e) \<noteq> MACH_PORT_TYPE_NONE \<and>
     (\<forall>i. ref = In_Table i \<longrightarrow> 0 < i \<and> i < is_table_size S)"

lemma typed_table:
  assumes "typed_ref S (In_Table i) e"
  shows "0 < i" "i < is_table_size S" "right_of (is_table S ! i) = e"
    "IE_BITS_TYPE (ie_bits (is_table S ! i)) = IE_BITS_TYPE (ie_bits e)"
    "ie_object (is_table S ! i) = ie_object e"
    "in_use None (is_table S) k \<longleftrightarrow> in_use (Some (In_Table i)) (is_table S) k \<or> k = i"
    "free_index None (is_table S) k \<longleftrightarrow> free_index (Some (In_Table i)) (is_table S) k"
proof -
  show t: "0 < i" "i < is_table_size S" and r: "right_of (is_table S ! i) = e"
    using assms by (auto simp: typed_ref_def entry_at_def)
  show ty: "IE_BITS_TYPE (ie_bits (is_table S ! i)) = IE_BITS_TYPE (ie_bits e)"
    unfolding r [symmetric] right_of_def by (simp add: field_defs mask_defs and.assoc)
  show "ie_object (is_table S ! i) = ie_object e" using r by (auto simp: right_of_def)
  show "in_use None (is_table S) k \<longleftrightarrow> in_use (Some (In_Table i)) (is_table S) k \<or> k = i"
    "free_index None (is_table S) k \<longleftrightarrow> free_index (Some (In_Table i)) (is_table S) k"
    using t ty assms by (auto simp: in_use_def free_index_def typed_ref_def)
qed

lemma pending_core:
  assumes "typed_ref S ref e"
  shows "core_ok sizes None S \<longleftrightarrow> core_ok sizes (Some ref) S"
proof (cases ref)
  case (In_Table i)
  note t = typed_table [OF assms [unfolded In_Table]]
  have "table_ok None (is_table S) \<longleftrightarrow> table_ok (Some ref) (is_table S)"
    using t(1,2) unfolding table_ok_def In_Table t(7) by auto
  moreover have "collisions_ok None S \<longleftrightarrow> collisions_ok (Some ref) S"
    unfolding collisions_ok_def In_Table t(6) by auto
  ultimately show ?thesis by (simp add: core_ok_def tree_ok_def In_Table)
next
  case (In_Tree n)
  then have e: "tree_map S n = Some e" "IE_BITS_TYPE (ie_bits e) \<noteq> MACH_PORT_TYPE_NONE"
    using assms by (auto simp: typed_ref_def entry_at_def)
  have "tree_ok None S \<longleftrightarrow> tree_ok (Some (In_Tree n)) S" 
    using e unfolding tree_ok_def by (metis option.inject option.distinct(1) entry_ref.inject(2))
  moreover have "collisions_ok None S \<longleftrightarrow> collisions_ok (Some (In_Tree n)) S"
    by (simp add: collisions_ok_def pending_in_tree)
  ultimately show ?thesis by (simp add: core_ok_def In_Tree pending_in_tree)
qed

lemma pending_names:
  assumes "typed_ref S ref e" and "core_ok sizes (Some ref) S"
  shows "names None S = (names (Some ref) S)(ref_name S ref \<mapsto> e)" "names (Some ref) S (ref_name S ref) = None"
proof -
  have "names None S = (names (Some ref) S)(ref_name S ref \<mapsto> e) \<and> names (Some ref) S (ref_name S ref) = None"
  proof (cases ref)
    case (In_Table i)
    note t = typed_table [OF assms(1) [unfolded In_Table]]
    have "is_table_size S < 2 ^ 24"
      using assms(2) slot_index_bound(1) [of sizes "is_table_next S - 1"]
      by (auto simp: core_ok_def sizes_ok_for_def)
    then have i: "i < 2 ^ 24" using t(2) by linarith
    have c: "tree_map S (slot_name (is_table S) i) = None"
      using assms(2) t(2) by (auto simp: core_ok_def collisions_ok_def In_Table)
    have "\<not> in_use (Some (In_Table i)) (is_table S) i" by (simp add: in_use_def)
    with c i t(3) show ?thesis by (auto simp: names_def In_Table ref_name_def t(6) fun_eq_iff)
  next
    case (In_Tree n)
    then have e: "tree_map S n = Some e" using assms(1) by (auto simp: typed_ref_def entry_at_def)
    have "\<not> (in_use None (is_table S) (name_index n) \<and> slot_name (is_table S) (name_index n) = n)"
      using assms(2) e by (auto simp: core_ok_def collisions_ok_def In_Tree pending_in_tree)
         (metis in_use_def option.distinct(1))
    with e show ?thesis by (auto simp: names_def In_Tree ref_name_def pending_in_tree fun_eq_iff)
  qed
  then show "names None S = (names (Some ref) S)(ref_name S ref \<mapsto> e)"
    "names (Some ref) S (ref_name S ref) = None" by auto
qed

section \<open>Changes of the reverse hash tables alone\<close>

definition reindexed :: "ipc_table \<Rightarrow> ipc_table \<Rightarrow> bool" where
  "reindexed t t' \<longleftrightarrow> length t' = length t \<and> (\<forall>j<length t. \<exists>x. t' ! j = (t ! j)\<lparr>ie_index := x\<rparr>)"

lemma reindexedD:
  assumes "reindexed t t'"
  shows "length t' = length t" "j < length t \<Longrightarrow> ie_bits (t' ! j) = ie_bits (t ! j)"
    "j < length t \<Longrightarrow> ie_object (t' ! j) = ie_object (t ! j)"
    "j < length t \<Longrightarrow> ie_next (t' ! j) = ie_next (t ! j)"
    "j < length t \<Longrightarrow> right_of (t' ! j) = right_of (t ! j)"
    "j < length t \<Longrightarrow> slot_name t' j = slot_name t j"
    "in_use P t' = in_use P t" "free_index P t' = free_index P t" "send_slots P t' = send_slots P t"
proof -
  show len: "length t' = length t" using assms by (simp add: reindexed_def)
  have nth: "\<exists>x. t' ! j = (t ! j)\<lparr>ie_index := x\<rparr>" if "j < length t" for j
    using assms that by (simp add: reindexed_def)
  show "j < length t \<Longrightarrow> ie_bits (t' ! j) = ie_bits (t ! j)"
    "j < length t \<Longrightarrow> ie_object (t' ! j) = ie_object (t ! j)" "j < length t \<Longrightarrow> ie_next (t' ! j) = ie_next (t ! j)"
    "j < length t \<Longrightarrow> right_of (t' ! j) = right_of (t ! j)" "j < length t \<Longrightarrow> slot_name t' j = slot_name t j" for j
    using nth [of j] by (auto simp: right_of_def slot_name_def)
  then show use: "in_use P t' = in_use P t" "free_index P t' = free_index P t"
    by (auto simp: in_use_def free_index_def len fun_eq_iff)
  show "send_slots P t' = send_slots P t"
    using use(1) nth by (intro send_slots_cong) (force simp: in_use_def)+
qed

lemma reindex_core:
  assumes r: "reindexed (is_table S) t'" and ok: "core_ok sizes P S"
  shows "core_ok sizes P (S\<lparr>is_table := t'\<rparr>)" "names P (S\<lparr>is_table := t'\<rparr>) = names P S"
    "tree_send P (S\<lparr>is_table := t'\<rparr>) = tree_send P S"
proof -
  let ?t = "is_table S" and ?S = "S\<lparr>is_table := t'\<rparr>"
  note R = reindexedD [OF r]
  have tm: "tree_map ?S = tree_map S" by (simp add: tree_map_def)
  then show "tree_send P ?S = tree_send P S" by (simp add: tree_send_def fun_eq_iff)
  show "names P ?S = names P S" by (auto simp: names_def tm R(7) fun_eq_iff) (auto simp: in_use_def R(5,6))
  have t: "table_ok P ?t" using ok by (simp add: core_ok_def)
  obtain fl where fl: "chain ?t 0 fl" "distinct fl" "set fl = {i. free_index P ?t i}"
    using table_free_list [OF t] .
  have len: "0 < length ?t" using t by (simp add: table_ok_def)
  have "k < length ?t" if "k \<in> insert 0 (set fl)" for k
    using that len unfolding fl(3) by (auto simp: free_index_def)
  then have "chain t' 0 fl" by (intro chain_cong [OF _ fl(1)] R(4))
  then have c: "\<exists>fl. chain t' 0 fl \<and> distinct fl \<and> set fl = {i. free_index P t' i}"
    unfolding R(8) using fl(2,3) by blast
  have "gen_only (ie_bits (t' ! i)) \<and> ie_object (t' ! i) = IO_NULL" if "free_index P ?t i" for i
    using that free_no_collision [OF t that] R(2,3) [of i] by (simp add: free_index_def)
  then have f: "\<forall>i. free_index P t' i \<longrightarrow> gen_only (ie_bits (t' ! i)) \<and> ie_object (t' ! i) = IO_NULL"
    unfolding R(8) by blast
  have "table_ok P t'"
    using t c f len unfolding table_ok_def R(1) R(2) [OF len] by blast
  moreover have "collisions_ok P ?S"
    using ok R(2,6) by (auto simp: core_ok_def collisions_ok_def tm R(1,7))
  ultimately show "core_ok sizes P ?S"
    using ok by (simp add: core_ok_def tree_ok_def tm sizes_ok_for_def small_indices_def R(1))
qed

lemma rehash_core:
  "core_ok sizes P (S\<lparr>is_hash := h\<rparr>) \<longleftrightarrow> core_ok sizes P S" "names P (S\<lparr>is_hash := h\<rparr>) = names P S"
  "tree_send P (S\<lparr>is_hash := h\<rparr>) = tree_send P S"
proof -
  have tm: "tree_map (S\<lparr>is_hash := h\<rparr>) = tree_map S" and it: "is_table (S\<lparr>is_hash := h\<rparr>) = is_table S"
    by (simp_all add: tree_map_def)
  show "core_ok sizes P (S\<lparr>is_hash := h\<rparr>) \<longleftrightarrow> core_ok sizes P S"
    by (simp add: core_ok_def sizes_ok_for_def small_indices_def tree_ok_def collisions_ok_def tm)
  show "names P (S\<lparr>is_hash := h\<rparr>) = names P S" unfolding names_def tm it ..
  show "tree_send P (S\<lparr>is_hash := h\<rparr>) = tree_send P S" by (simp add: tree_send_def tm fun_eq_iff)
qed

section \<open>Send rights in the map of names\<close>

definition sends :: "(mach_port_t \<rightharpoonup> ipc_entry) \<Rightarrow> mach_port_t \<Rightarrow> ipc_object \<Rightarrow> bool" where
  "sends M n obj \<longleftrightarrow> (\<exists>e. M n = Some e \<and> IE_BITS_TYPE (ie_bits e) = MACH_PORT_TYPE_SEND \<and> ie_object e = obj)"

lemma right_of_simps [simp]:
  "IE_BITS_TYPE (ie_bits (right_of s)) = IE_BITS_TYPE (ie_bits s)" "ie_object (right_of s) = ie_object s"
  by (simp_all add: right_of_def field_defs mask_defs and.assoc)

lemma sends_names:
  assumes "core_ok sizes P S"
  shows "sends (names P S) n obj \<longleftrightarrow> tree_send P S n obj \<or>
     name_index n \<in> send_slots P (is_table S) \<and> slot_name (is_table S) (name_index n) = n \<and>
     ie_object (is_table S ! name_index n) = obj"
proof (cases "in_use P (is_table S) (name_index n) \<and> slot_name (is_table S) (name_index n) = n")
  case True
  then have "tree_map S n = None"
    using assms by (metis core_ok_def collisions_ok_def in_use_def)
  with True show ?thesis by (auto simp: sends_def names_def tree_send_def send_slots_def)
next
  case False
  then show ?thesis by (auto simp: sends_def names_def tree_send_def send_slots_def)
qed

text \<open>The object of a send right determines its name.\<close>

lemma sends_unique:
  assumes "names_ok addr sizes space P S" "sends (names P S) n obj" "sends (names P S) m obj"
  shows "n = m"
proof -
  have core: "core_ok sizes P S" and h: "hash_ok addr space P S" using assms(1) by (simp_all add: names_ok_core)
  have inj: "i = j" if "i \<in> send_slots P (is_table S)" "j \<in> send_slots P (is_table S)"
    "ie_object (is_table S ! i) = ie_object (is_table S ! j)" for i j
    using h that by (metis hash_ok_def local_hash_okD(4) inj_onD)
  from assms(2,3) h show ?thesis
    unfolding sends_names [OF core] hash_ok_def using inj by (metis option.inject)
qed

section \<open>Taking an entry out of use\<close>

definition unhash :: "addresses \<Rightarrow> space_id \<Rightarrow> entry_ref \<Rightarrow> ipc_names \<Rightarrow> ipc_names option" where
  "unhash addr space ref S =
     Option.bind (entry_at S ref) (\<lambda>e.
       if IE_BITS_TYPE (ie_bits e) = MACH_PORT_TYPE_SEND
       then ipc_hash_delete_ref addr space (ie_object e) (ref_name S ref) ref S else Some S)"

lemma send_slots_typed:
  assumes "typed_ref S (In_Table i) e"
  shows "send_slots None (is_table S) =
      (if IE_BITS_TYPE (ie_bits e) = MACH_PORT_TYPE_SEND
       then insert i (send_slots (Some (In_Table i)) (is_table S)) else send_slots (Some (In_Table i)) (is_table S))"
    "i \<notin> send_slots (Some (In_Table i)) (is_table S)"
    "tree_send (Some (In_Table i)) S = tree_send None S"
proof -
  note T = typed_table [OF assms]
  show i: "i \<notin> send_slots (Some (In_Table i)) (is_table S)" by (simp add: send_slots_def in_use_def)
  show "tree_send (Some (In_Table i)) S = tree_send None S" by (simp add: tree_send_def fun_eq_iff)
  have "k \<in> send_slots None (is_table S) \<longleftrightarrow> k \<in> send_slots (Some (In_Table i)) (is_table S) \<or>
      k = i \<and> IE_BITS_TYPE (ie_bits e) = MACH_PORT_TYPE_SEND" for k
    using T(4) i unfolding send_slots_def mem_Collect_eq T(6) by (cases "k = i") auto
  then show "send_slots None (is_table S) =
      (if IE_BITS_TYPE (ie_bits e) = MACH_PORT_TYPE_SEND
       then insert i (send_slots (Some (In_Table i)) (is_table S)) else send_slots (Some (In_Table i)) (is_table S))"
    by (auto simp: set_eq_iff)
qed

lemma tree_send_typed:
  assumes "typed_ref S (In_Tree n) e"
  shows "tree_send None S k obj \<longleftrightarrow> tree_send (Some (In_Tree n)) S k obj \<or>
      k = n \<and> IE_BITS_TYPE (ie_bits e) = MACH_PORT_TYPE_SEND \<and> obj = ie_object e"
    "\<not> tree_send (Some (In_Tree n)) S n obj"
  using assms by (auto simp: tree_send_def typed_ref_def entry_at_def)

lemma reindexed_map: "reindexed t (map (\<lambda>j. (t ! j)\<lparr>ie_index := X j\<rparr>) [0..<length t])"
  by (auto simp: reindexed_def)

lemma reindexed_refs:
  assumes "reindexed (is_table S) t'" "typed_ref S ref e"
  shows "typed_ref (S\<lparr>is_table := t'\<rparr>) ref e" "ref_name (S\<lparr>is_table := t'\<rparr>) ref = ref_name S ref"
  using assms(2) reindexedD [OF assms(1)]
  by (auto simp: typed_ref_def entry_at_def ref_name_def tree_map_def split: entry_ref.splits)

lemma unhash_spec:
  assumes ok: "names_ok addr sizes space None S" and ref: "typed_ref S ref e"
  shows "\<exists>S'. unhash addr space ref S = Some S' \<and> names_ok addr sizes space (Some ref) S' \<and>
           names (Some ref) S' = (names None S)(ref_name S ref := None) \<and>
           typed_ref S' ref e \<and> ref_name S' ref = ref_name S ref"
proof -
  have core: "core_ok sizes (Some ref) S" and h: "hash_ok addr space None S"
    using ok pending_core [OF ref] by (auto simp: names_ok_core)
  note nm = pending_names [OF ref core]
  have nm': "names (Some ref) S = (names None S)(ref_name S ref := None)" using nm by (auto simp: fun_eq_iff)
  have at: "entry_at S ref = Some e" using ref by (simp add: typed_ref_def)
  obtain m where m: "global_rep addr (is_hash S) m" "\<And>n obj. m (space, obj) = Some n \<longleftrightarrow> tree_send None S n obj"
    and lh: "local_hash_ok (snd addr) (is_table S) (send_slots None (is_table S))"
    and sep: "\<And>i n. i \<in> send_slots None (is_table S) \<Longrightarrow> \<not> tree_send None S n (ie_object (is_table S ! i))"
    using h by (auto simp: hash_ok_def)
  let ?send = "IE_BITS_TYPE (ie_bits e) = MACH_PORT_TYPE_SEND"
  show ?thesis
  proof (cases ref)
    case (In_Table i)
    note T = typed_table [OF ref [unfolded In_Table]] and s = send_slots_typed [OF ref [unfolded In_Table]]
    show ?thesis
    proof (cases ?send)
      case False
      then have "hash_ok addr space (Some ref) S" using h s by (simp add: hash_ok_def In_Table)
      with False at core nm' ref show ?thesis by (auto simp: unhash_def names_ok_core)
    next
      case True
      with s(1) have i: "i \<in> send_slots None (is_table S)" by simp
      from local_delete_spec [OF lh i T(5)] obtain X where X:
        "ipc_hash_local_delete (snd addr) (is_table S) (ie_object e) i =
           Some (map (\<lambda>j. (is_table S ! j)\<lparr>ie_index := X j\<rparr>) [0..<length (is_table S)])"
        "local_hash_ok (snd addr) (map (\<lambda>j. (is_table S ! j)\<lparr>ie_index := X j\<rparr>) [0..<length (is_table S)])
           (send_slots None (is_table S) - {i})" unfolding Let_def by blast
      define t' where "t' = map (\<lambda>j. (is_table S ! j)\<lparr>ie_index := X j\<rparr>) [0..<length (is_table S)]"
      have r: "reindexed (is_table S) t'" by (simp add: t'_def reindexed_map)
      note R = reindexedD [OF r] and rc = reindex_core [OF r core] and rr = reindexed_refs [OF r ref]
      have "send_slots (Some ref) t' = send_slots None (is_table S) - {i}" using s(1,2) True by (auto simp: R(9) In_Table)
      moreover have "ie_object (t' ! j) = ie_object (is_table S ! j)" if "j \<in> send_slots None (is_table S)" for j
        using that by (intro R(3)) (auto simp: send_slots_def in_use_def)
      ultimately have "hash_ok addr space (Some ref) (S\<lparr>is_table := t'\<rparr>)"
        using X(2) m sep rc(3) s(3) unfolding t'_def [symmetric] hash_ok_def by (auto simp: In_Table)
      moreover have "unhash addr space ref S = Some (S\<lparr>is_table := t'\<rparr>)"
        using True at X(1) by (simp add: unhash_def In_Table t'_def)
      ultimately show ?thesis using rc(1,2) nm' rr by (auto simp: names_ok_core)
    qed
  next
    case (In_Tree n)
    note s = tree_send_typed [OF ref [unfolded In_Tree]]
    show ?thesis
    proof (cases ?send)
      case False
      then have "hash_ok addr space (Some ref) S" using h s by (simp add: hash_ok_def In_Tree pending_in_tree)
      with False at core nm' ref show ?thesis by (auto simp: unhash_def names_ok_core)
    next
      case True
      then have mn: "m (space, ie_object e) = Some n" using m(2) s by simp
      let ?h = "ipc_hash_global_delete addr (is_hash S) space (ie_object e) n"
      have "unhash addr space ref S = Some (S\<lparr>is_hash := ?h\<rparr>)"
        using True at by (simp add: unhash_def In_Tree ref_name_def)
      moreover have "hash_ok addr space (Some ref) (S\<lparr>is_hash := ?h\<rparr>)"
      proof -
        have "(m((space, ie_object e) := None)) (space, obj) = Some k \<longleftrightarrow> tree_send (Some ref) S k obj" for k obj
          using m(2) [of obj k] s mn m(2) [of "ie_object e" k] by (auto simp: In_Tree)
        then show ?thesis
          using lh sep s(1) global_delete_rep [OF m(1) mn]
          unfolding hash_ok_def rehash_core by (auto simp: In_Tree pending_in_tree intro!: exI)
      qed
      ultimately show ?thesis
        using core nm' ref
        by (auto simp: names_ok_core rehash_core typed_ref_def entry_at_def ref_name_def tree_map_def
            split: entry_ref.splits)
    qed
  qed
qed

section \<open>Storing into the pending entry, and putting it into use\<close>

lemma store_table:
  assumes ok: "core_ok sizes (Some (In_Table i)) S" and e: "right_only (ie_bits e)"
  shows "core_ok sizes (Some (In_Table i)) (store_right (In_Table i) e S)"
    "names (Some (In_Table i)) (store_right (In_Table i) e S) = names (Some (In_Table i)) S"
    "entry_at (store_right (In_Table i) e S) (In_Table i) = Some e"
    "ref_name (store_right (In_Table i) e S) (In_Table i) = ref_name S (In_Table i)"
    "hash_ok addr space (Some (In_Table i)) S \<Longrightarrow>
       hash_ok addr space (Some (In_Table i)) (store_right (In_Table i) e S)"
    "is_table_size (store_right (In_Table i) e S) = is_table_size S"
proof -
  let ?P = "Some (In_Table i)" and ?t = "is_table S"
  define t' where "t' = is_table (store_right (In_Table i) e S)"
  have S': "store_right (In_Table i) e S = S\<lparr>is_table := t'\<rparr>" by (simp add: t'_def)
  have tm: "tree_map (S\<lparr>is_table := t'\<rparr>) = tree_map S" by (simp add: tree_map_def)
  have lt: "0 < i" "i < length ?t" using ok by (auto simp: core_ok_def table_ok_def)
  have len: "length t' = length ?t" by (simp add: t'_def)
  have other: "t' ! k = ?t ! k" if "k \<noteq> i" for k using that by (simp add: t'_def)
  have self: "t' ! i = (?t ! i)\<lparr>ie_bits := (ie_bits (?t ! i) AND NOT IE_BITS_RIGHT_MASK) OR ie_bits e,
         ie_object := ie_object e, ie_request := ie_request e\<rparr>" using lt by (simp add: t'_def)
  note b = store_right_fields [OF e, of "ie_bits (?t ! i)"]
  have use: "in_use ?P t' = in_use ?P ?t" "free_index ?P t' = free_index ?P ?t"
    using other by (auto simp: in_use_def free_index_def len fun_eq_iff)
  have sn: "slot_name t' k = slot_name ?t k" for k
    using other [of k] by (cases "k = i") (simp_all add: slot_name_def self b)
  show "entry_at (store_right (In_Table i) e S) (In_Table i) = Some e"
    unfolding S' by (simp add: entry_at_def right_of_def self b)
  show "ref_name (store_right (In_Table i) e S) (In_Table i) = ref_name S (In_Table i)"
    unfolding S' by (simp add: ref_name_def sn)
  show "is_table_size (store_right (In_Table i) e S) = is_table_size S" by simp
  have "k \<noteq> i" if "in_use ?P ?t k" for k using that by (auto simp: in_use_def)
  with other show "names ?P (store_right (In_Table i) e S) = names ?P S"
    unfolding S' by (auto simp: names_def tm use sn fun_eq_iff)
  have t: "table_ok ?P ?t" using ok by (simp add: core_ok_def)
  obtain fl where fl: "chain ?t 0 fl" "distinct fl" "set fl = {k. free_index ?P ?t k}"
    using table_free_list [OF t] .
  have "k \<noteq> i" if "k \<in> insert 0 (set fl)" for k using that lt unfolding fl(3) by (auto simp: free_index_def)
  then have "chain t' 0 fl" by (intro chain_cong [OF _ fl(1)]) (simp add: other)
  moreover have "k \<noteq> i" if "free_index ?P ?t k" for k using that by (auto simp: free_index_def)
  then have "\<forall>k. free_index ?P ?t k \<longrightarrow> gen_only (ie_bits (t' ! k)) \<and> ie_object (t' ! k) = IO_NULL"
    using free_no_collision [OF t] by (simp add: other)
  ultimately have "table_ok ?P t'"
    using t fl(2,3) lt unfolding table_ok_def use len by (auto simp: other)
  moreover have "test (ie_bits (t' ! k)) IE_BITS_COLLISION \<longleftrightarrow> test (ie_bits (?t ! k)) IE_BITS_COLLISION" for k
    using other [of k] by (cases "k = i") (simp_all add: self b)
  then have "collisions_ok ?P (S\<lparr>is_table := t'\<rparr>)"
    using ok by (auto simp: core_ok_def collisions_ok_def tm len use sn)
  ultimately show "core_ok sizes ?P (store_right (In_Table i) e S)"
    using ok unfolding S' by (simp add: core_ok_def tree_ok_def tm sizes_ok_for_def small_indices_def len)
  have ss: "send_slots ?P t' = send_slots ?P ?t" "i \<notin> send_slots ?P ?t"
    using other by (auto simp: send_slots_def use) (auto simp: in_use_def)
  have objs: "ie_object (t' ! k) = ie_object (?t ! k)" if "k \<in> send_slots ?P ?t" for k
    using that ss(2) other [of k] by (cases "k = i") auto
  have "ie_index (t' ! k) = ie_index (?t ! k)" for k using other [of k] by (cases "k = i") (simp_all add: self)
  then have lc: "local_hash_ok (snd addr) t' (send_slots ?P ?t)" if "local_hash_ok (snd addr) ?t (send_slots ?P ?t)"
    using objs by (intro local_hash_ok_cong [OF that len])
  have "tree_send ?P (S\<lparr>is_table := t'\<rparr>) = tree_send ?P S" by (simp add: tree_send_def tm fun_eq_iff)
  then show "hash_ok addr space ?P S \<Longrightarrow> hash_ok addr space ?P (store_right (In_Table i) e S)"
    unfolding S' hash_ok_def using lc objs ss by auto
qed

lemma store_tree:
  assumes ok: "core_ok sizes (Some (In_Tree n)) S" and e: "right_only (ie_bits e)"
  shows "core_ok sizes (Some (In_Tree n)) (store_right (In_Tree n) e S)"
    "names (Some (In_Tree n)) (store_right (In_Tree n) e S) = names (Some (In_Tree n)) S"
    "entry_at (store_right (In_Tree n) e S) (In_Tree n) = Some e"
    "hash_ok addr space (Some (In_Tree n)) S \<Longrightarrow>
       hash_ok addr space (Some (In_Tree n)) (store_right (In_Tree n) e S)"
proof -
  let ?P = "Some (In_Tree n)"
  define S' where "S' = store_right (In_Tree n) e S"
  have st: "is_table S' = is_table S" "is_tree S' = tree_store n (\<lambda>_. e) (is_tree S)" "is_hash S' = is_hash S"
    "is_tree_total S' = is_tree_total S" "is_table_next S' = is_table_next S" "is_tree_small S' = is_tree_small S"
    "is_live S' = is_live S"
    by (simp_all add: S'_def)
  have tok: "tree_ok ?P S" using ok by (simp add: core_ok_def)
  have n: "tree_map S n \<noteq> None" using tree_okD(6) [OF tok] by simp
  have tm: "tree_map S' = (tree_map S)(n \<mapsto> e)"
    using n by (auto simp: tree_map_def st tree_store_spec(1) map_of_store)
  then show "entry_at (store_right (In_Tree n) e S) (In_Tree n) = Some e" unfolding S'_def [symmetric] by (simp add: entry_at_def)
  show "names ?P (store_right (In_Tree n) e S) = names ?P S"
    unfolding S'_def [symmetric] by (auto simp: names_def fun_eq_iff tm st)
  have dom: "dom (tree_map S') = dom (tree_map S)" using n by (auto simp: tm)
  have ts: "tree_send ?P S' = tree_send ?P S" by (auto simp: tree_send_def tm fun_eq_iff)
  show "hash_ok addr space ?P S \<Longrightarrow> hash_ok addr space ?P (store_right (In_Tree n) e S)"
    unfolding S'_def [symmetric] hash_ok_def ts st .
  have "tree_ok ?P S'"
    using tok e tree_store_spec(2) [of "is_tree S" n "\<lambda>_. e"] n
    by (auto simp: tree_ok_def tm tree_store_spec(1) st)
  moreover have "collisions_ok ?P S'"
  proof -
    have "tree_map S' k = None \<longleftrightarrow> tree_map S k = None" for k using n by (auto simp: tm)
    then show ?thesis using ok unfolding core_ok_def collisions_ok_def dom st by simp
  qed
  ultimately show "core_ok sizes ?P (store_right (In_Tree n) e S)"
    unfolding S'_def [symmetric] using ok dom by (simp add: core_ok_def sizes_ok_for_def small_indices_def st)
qed

lemma store_pending:
  assumes ok: "names_ok addr sizes space (Some ref) S" and e: "right_only (ie_bits e)"
  shows "names_ok addr sizes space (Some ref) (store_right ref e S)"
    "names (Some ref) (store_right ref e S) = names (Some ref) S"
    "entry_at (store_right ref e S) ref = Some e" "ref_name (store_right ref e S) ref = ref_name S ref"
    "is_table_size (store_right ref e S) = is_table_size S"
  using ok store_table [OF _ e, of sizes _ S] store_tree [OF _ e, of sizes _ S]
  by (cases ref; simp add: names_ok_core ref_name_def)+

definition rehash :: "addresses \<Rightarrow> space_id \<Rightarrow> entry_ref \<Rightarrow> ipc_names \<Rightarrow> ipc_names option" where
  "rehash addr space ref S =
     Option.bind (entry_at S ref) (\<lambda>e.
       if IE_BITS_TYPE (ie_bits e) = MACH_PORT_TYPE_SEND
       then ipc_hash_insert_ref addr space (ie_object e) (ref_name S ref) ref S else Some S)"

lemma no_other_sends:
  assumes core: "core_ok sizes P S" and none: "\<And>k. \<not> sends (names P S) k obj"
  shows "\<not> tree_send P S k obj" "j \<in> send_slots P (is_table S) \<Longrightarrow> ie_object (is_table S ! j) \<noteq> obj"
proof -
  show "\<not> tree_send P S k obj" using none sends_names [OF core] by blast
  have "is_table_size S < 2 ^ 24"
    using core slot_index_bound(1) [of sizes "is_table_next S - 1"] by (auto simp: core_ok_def sizes_ok_for_def)
  then show "j \<in> send_slots P (is_table S) \<Longrightarrow> ie_object (is_table S ! j) \<noteq> obj"
    using none [of "slot_name (is_table S) j"] sends_names [OF core, of "slot_name (is_table S) j" obj]
    by (auto simp: send_slots_def in_use_def)
qed

lemma rehash_spec:
  assumes ok: "names_ok addr sizes space (Some ref) S" and ref: "typed_ref S ref e"
    and new: "IE_BITS_TYPE (ie_bits e) = MACH_PORT_TYPE_SEND \<Longrightarrow> \<not> (\<exists>k. sends (names (Some ref) S) k (ie_object e))"
  shows "\<exists>S'. rehash addr space ref S = Some S' \<and> names_ok addr sizes space None S' \<and>
           names None S' = (names (Some ref) S)(ref_name S ref \<mapsto> e)"
proof -
  have core: "core_ok sizes (Some ref) S" "core_ok sizes None S" and h: "hash_ok addr space (Some ref) S"
    using ok pending_core [OF ref] by (auto simp: names_ok_core)
  note nm = pending_names(1) [OF ref core(1)]
  have at: "entry_at S ref = Some e" using ref by (simp add: typed_ref_def)
  obtain m where m: "global_rep addr (is_hash S) m" "\<And>n obj. m (space, obj) = Some n \<longleftrightarrow> tree_send (Some ref) S n obj"
    and lh: "local_hash_ok (snd addr) (is_table S) (send_slots (Some ref) (is_table S))"
    and sep: "\<And>i n. i \<in> send_slots (Some ref) (is_table S) \<Longrightarrow> \<not> tree_send (Some ref) S n (ie_object (is_table S ! i))"
    using h by (auto simp: hash_ok_def)
  let ?send = "IE_BITS_TYPE (ie_bits e) = MACH_PORT_TYPE_SEND"
  have nosend: "\<not> tree_send (Some ref) S k (ie_object e)"
    "j \<in> send_slots (Some ref) (is_table S) \<Longrightarrow> ie_object (is_table S ! j) \<noteq> ie_object e" if ?send for j k
    using no_other_sends [OF core(1), of "ie_object e"] new [OF that] by blast+
  show ?thesis
  proof (cases ref)
    case (In_Table i)
    note T = typed_table [OF ref [unfolded In_Table]] and s = send_slots_typed [OF ref [unfolded In_Table]]
    show ?thesis
    proof (cases ?send)
      case False
      then have "hash_ok addr space None S" using h s by (simp add: hash_ok_def In_Table)
      with False at core nm show ?thesis by (auto simp: rehash_def names_ok_core)
    next
      case True
      have "\<forall>j\<in>send_slots (Some ref) (is_table S). ie_object (is_table S ! j) \<noteq> ie_object e"
        using nosend(2) [OF True] by blast
      from local_insert_spec [OF lh _ T(1,2,5) this] s(2) obtain x where x: "x < length (is_table S)"
        "ipc_hash_local_insert (snd addr) (is_table S) (ie_object e) i = Some (set_index x i (is_table S))"
        "local_hash_ok (snd addr) (set_index x i (is_table S)) (insert i (send_slots (Some ref) (is_table S)))"
        by (auto simp: In_Table)
      define t' where "t' = set_index x i (is_table S)"
      have r: "reindexed (is_table S) t'"
        using x(1) same_index by (auto simp: reindexed_def t'_def set_index_def nth_list_update)
      note R = reindexedD [OF r] and rc = reindex_core [OF r core(2)]
      have "ie_object (t' ! j) = ie_object (is_table S ! j)" for j by (simp add: t'_def)
      moreover have "send_slots None t' = insert i (send_slots (Some ref) (is_table S))"
        using s(1) True by (simp add: R(9) In_Table)
      ultimately have "hash_ok addr space None (S\<lparr>is_table := t'\<rparr>)"
        using x(3) m sep rc(3) s(3) nosend [OF True] T(5)
        unfolding t'_def [symmetric] hash_ok_def by (auto simp: In_Table)
      moreover have "rehash addr space ref S = Some (S\<lparr>is_table := t'\<rparr>)"
        using True at x(2) by (simp add: rehash_def In_Table t'_def)
      ultimately show ?thesis using rc(1,2) nm by (auto simp: names_ok_core)
    qed
  next
    case (In_Tree n)
    note s = tree_send_typed [OF ref [unfolded In_Tree]]
    show ?thesis
    proof (cases ?send)
      case False
      then have "hash_ok addr space None S" using h s by (simp add: hash_ok_def In_Tree pending_in_tree)
      with False at core nm show ?thesis by (auto simp: rehash_def names_ok_core)
    next
      case True
      then have mn: "m (space, ie_object e) = None" using m(2) nosend(1) by (cases "m (space, ie_object e)") auto
      let ?h = "ipc_hash_global_insert addr (is_hash S) space (ie_object e) n"
      have "rehash addr space ref S = Some (S\<lparr>is_hash := ?h\<rparr>)"
        using True at by (simp add: rehash_def In_Tree ref_name_def)
      moreover have "hash_ok addr space None (S\<lparr>is_hash := ?h\<rparr>)"
      proof -
        have "(m((space, ie_object e) \<mapsto> n)) (space, obj) = Some k \<longleftrightarrow> tree_send None S k obj" for k obj
          using m(2) [of obj k] s mn True nosend(1) [OF True, of k] by (auto simp: In_Tree)
        moreover have "\<not> tree_send None S k (ie_object (is_table S ! i))" if "i \<in> send_slots None (is_table S)" for i k
          using that sep [of i k] nosend(2) [OF True, of i] s(1) by (simp add: In_Tree pending_in_tree)
        ultimately show ?thesis
          using lh global_insert_rep [OF m(1) mn, of n]
          unfolding hash_ok_def rehash_core
          by (auto simp: In_Tree pending_in_tree simp del: fun_upd_apply
              intro!: exI [of _ "m((space, ie_object e) \<mapsto> n)"])
      qed
      ultimately show ?thesis using core nm by (auto simp: names_ok_core rehash_core)
    qed
  qed
qed

lemma entry_at_right_only:
  assumes "core_ok sizes P S" "entry_at S ref = Some e"
  shows "right_only (ie_bits e)"
  using assms tree_okD(3) [of P S]
  by (cases ref) (auto simp: entry_at_def core_ok_def right_of_def right_only_def and.assoc)

section \<open>Entering, changing and removing rights\<close>

lemma entry_dealloc_spec:
  assumes ok: "names_ok addr sizes space (Some ref) S"
    and obj: "\<And>i. ref = In_Table i \<Longrightarrow> ie_object (is_table S ! i) = IO_NULL"
  shows "\<exists>S'. ipc_entry_dealloc addr sizes space (ref_name S ref) ref S = Some S' \<and>
           names_ok addr sizes space None S' \<and> names None S' = names (Some ref) S"
proof (cases ref)
  case (In_Table i)
  then show ?thesis
    using dealloc_collision_spec [of addr sizes space i S] dealloc_free_spec [of addr sizes space i S] ok obj
    by (cases "test (ie_bits (is_table S ! i)) IE_BITS_COLLISION") auto
next
  case (In_Tree n)
  with ok dealloc_tree_spec [of addr sizes space n S] show ?thesis by (simp add: ref_name_def)
qed

text \<open>The right \<open>e\<close> for the entry \<open>ref\<close> that was just taken.\<close>

definition entry_enter :: "addresses \<Rightarrow> space_id \<Rightarrow> entry_ref \<Rightarrow> ipc_entry \<Rightarrow> ipc_names \<Rightarrow> ipc_names option" where
  "entry_enter addr space ref e S = rehash addr space ref (store_right ref e S)"

text \<open>A new right for an entry in use.\<close>

definition entry_modify :: "addresses \<Rightarrow> space_id \<Rightarrow> entry_ref \<Rightarrow> ipc_entry \<Rightarrow> ipc_names \<Rightarrow> ipc_names option" where
  "entry_modify addr space ref e S =
     Option.bind (unhash addr space ref S) (\<lambda>S. rehash addr space ref (store_right ref e S))"

text \<open>The end of \<^verbatim>\<open>ipc_right_destroy\<close> and of the other routines that remove a right.\<close>

definition entry_remove :: "addresses \<Rightarrow> nat list \<Rightarrow> space_id \<Rightarrow> mach_port_t \<Rightarrow> entry_ref \<Rightarrow> ipc_names \<Rightarrow> ipc_names option" where
  "entry_remove addr sizes space name ref S =
     do {
       S \<leftarrow> unhash addr space ref S;
       e \<leftarrow> entry_at S ref;
       ipc_entry_dealloc addr sizes space name ref (store_right ref (e\<lparr>ie_object := IO_NULL\<rparr>) S)
     }"

lemma entry_enter_spec:
  assumes ok: "names_ok addr sizes space (Some ref) S"
    and e: "right_only (ie_bits e)" "IE_BITS_TYPE (ie_bits e) \<noteq> MACH_PORT_TYPE_NONE"
    and new: "IE_BITS_TYPE (ie_bits e) = MACH_PORT_TYPE_SEND \<Longrightarrow> \<not> (\<exists>k. sends (names (Some ref) S) k (ie_object e))"
  shows "\<exists>S'. entry_enter addr space ref e S = Some S' \<and> names_ok addr sizes space None S' \<and>
           names None S' = (names (Some ref) S)(ref_name S ref \<mapsto> e)"
proof -
  note st = store_pending [OF ok e(1)]
  have "typed_ref (store_right ref e S) ref e"
    using st(3,5) e(2) ok by (auto simp: typed_ref_def names_ok_def table_ok_def)
  from rehash_spec [OF st(1) this] new show ?thesis unfolding st(2,4) entry_enter_def by blast
qed

lemma entry_modify_spec:
  assumes ok: "names_ok addr sizes space None S" and ref: "typed_ref S ref e"
    and e': "right_only (ie_bits e')" "IE_BITS_TYPE (ie_bits e') \<noteq> MACH_PORT_TYPE_NONE"
    and new: "IE_BITS_TYPE (ie_bits e') = MACH_PORT_TYPE_SEND \<Longrightarrow>
        \<not> (\<exists>k. k \<noteq> ref_name S ref \<and> sends (names None S) k (ie_object e'))"
  shows "\<exists>S'. entry_modify addr space ref e' S = Some S' \<and> names_ok addr sizes space None S' \<and>
           names None S' = (names None S)(ref_name S ref \<mapsto> e')"
proof -
  obtain S1 where S1: "unhash addr space ref S = Some S1" "names_ok addr sizes space (Some ref) S1"
    "names (Some ref) S1 = (names None S)(ref_name S ref := None)" "ref_name S1 ref = ref_name S ref"
    using unhash_spec [OF ok ref] by blast
  have "\<not> (\<exists>k. sends (names (Some ref) S1) k (ie_object e'))" if "IE_BITS_TYPE (ie_bits e') = MACH_PORT_TYPE_SEND"
    using new [OF that] by (auto simp: S1(3) sends_def)
  from entry_enter_spec [OF S1(2) e' this] S1 show ?thesis by (auto simp: entry_modify_def entry_enter_def)
qed

lemma entry_remove_spec:
  assumes ok: "names_ok addr sizes space None S" and ref: "typed_ref S ref e"
  shows "\<exists>S'. entry_remove addr sizes space (ref_name S ref) ref S = Some S' \<and>
           names_ok addr sizes space None S' \<and> names None S' = (names None S)(ref_name S ref := None)"
proof -
  obtain S1 where S1: "unhash addr space ref S = Some S1" "names_ok addr sizes space (Some ref) S1"
    "names (Some ref) S1 = (names None S)(ref_name S ref := None)" "ref_name S1 ref = ref_name S ref"
    "typed_ref S1 ref e"
    using unhash_spec [OF ok ref] by blast
  let ?e = "e\<lparr>ie_object := IO_NULL\<rparr>"
  have at: "entry_at S1 ref = Some e" using S1(5) by (simp add: typed_ref_def)
  have "right_only (ie_bits ?e)" using entry_at_right_only [OF _ at] S1(2) by (auto simp: names_ok_core)
  note st = store_pending [OF S1(2) this]
  have "ie_object (is_table (store_right ref ?e S1) ! i) = IO_NULL" if "ref = In_Table i" for i
    using S1(5) that by (auto simp: typed_ref_def)
  from entry_dealloc_spec [OF st(1) this] show ?thesis
    unfolding st(2,4) S1(3,4) by (simp add: entry_remove_def S1(1) at)
qed

end
