(* ===== verification/Entry_Grow.thy ===== *)
theory Entry_Grow
  imports Entry_Store
begin

text \<open>
  Growing the entry table: the old send rights are hashed again, the tree entries whose names
  now fit the table move into it, and the new slots left over join the free list. Every name
  keeps its meaning.
\<close>

section \<open>Hashing the old rights again\<close>

lemma reindexed_refl: "reindexed t t"
  using same_index by (auto simp: reindexed_def)

lemma reindexed_trans: "reindexed t u \<Longrightarrow> reindexed u v \<Longrightarrow> reindexed t v"
  by (fastforce simp: reindexed_def)

lemma local_hash_empty: "t \<noteq> [] \<Longrightarrow> \<forall>s\<in>set t. ie_index s = 0 \<Longrightarrow> local_hash_ok addr t {}"
proof -
  assume t: "t \<noteq> []" "\<forall>s\<in>set t. ie_index s = 0"
  then have e: "{h. h < length t \<and> ie_index (t ! h) \<noteq> 0} = {}" by auto
  show ?thesis unfolding local_hash_ok_def hash_slots_def e using t by (simp add: clumped_def bij_betw_def)
qed

lemma insert_reindexed: "x < length t \<Longrightarrow> reindexed t (set_index x i t)"
  using same_index by (auto simp: reindexed_def set_index_def nth_list_update)

lemma rehash_loop:
  assumes "local_hash_ok (snd addr) t {}" "IE_BITS_TYPE (ie_bits (t ! 0)) \<noteq> MACH_PORT_TYPE_SEND"
    and "inj_on (\<lambda>i. ie_object (t ! i)) {i. i < k \<and> IE_BITS_TYPE (ie_bits (t ! i)) = MACH_PORT_TYPE_SEND}"
    and "k \<le> length t"
  shows "\<exists>t'. grow_rehash addr k t = Some t' \<and> reindexed t t' \<and>
           local_hash_ok (snd addr) t' {i. i < k \<and> IE_BITS_TYPE (ie_bits (t ! i)) = MACH_PORT_TYPE_SEND}"
  using assms(3,4)
proof (induction k)
  case 0
  with assms(1) reindexed_refl show ?case by (simp add: grow_rehash_def)
next
  case (Suc k)
  let ?M = "\<lambda>k. {i. i < k \<and> IE_BITS_TYPE (ie_bits (t ! i)) = MACH_PORT_TYPE_SEND}"
  have "inj_on (\<lambda>i. ie_object (t ! i)) (?M k)" by (rule inj_on_subset [OF Suc.prems(1)]) auto
  with Suc obtain t' where t': "grow_rehash addr k t = Some t'" "reindexed t t'" "local_hash_ok (snd addr) t' (?M k)"
    by auto
  note R = reindexedD [OF t'(2)]
  have k: "k < length t" using Suc.prems by simp
  have step: "grow_rehash addr (Suc k) t =
      (if IE_BITS_TYPE (ie_bits (t ! k)) = MACH_PORT_TYPE_SEND
       then ipc_hash_local_insert (snd addr) t' (ie_object (t' ! k)) k else Some t')"
    using t'(1) R(2) [OF k] by (simp add: grow_rehash_def)
  show ?case
  proof (cases "IE_BITS_TYPE (ie_bits (t ! k)) = MACH_PORT_TYPE_SEND")
    case False
    then have "?M (Suc k) = ?M k" by (auto simp: less_Suc_eq)
    with False t' step show ?thesis by auto
  next
    case True
    then have M: "?M (Suc k) = insert k (?M k)" by (auto simp: less_Suc_eq)
    have "0 < k" using True assms(2) by (cases k) auto
    have "ie_object (t' ! j) \<noteq> ie_object (t' ! k)" if "j \<in> ?M k" for j
      using inj_onD [OF Suc.prems(1), of j k] that k R(3) [of j] R(3) [of k] unfolding M by auto
    then have "\<forall>j\<in>?M k. ie_object (t' ! j) \<noteq> ie_object (t' ! k)" by blast
    from local_insert_spec [OF t'(3) _ \<open>0 < k\<close> _ refl this] k R(1) obtain x where
      x: "x < length t'" "ipc_hash_local_insert (snd addr) t' (ie_object (t' ! k)) k = Some (set_index x k t')"
      "local_hash_ok (snd addr) (set_index x k t') (insert k (?M k))" by auto
    have "reindexed t (set_index x k t')" using reindexed_trans [OF t'(2) insert_reindexed [OF x(1)]] .
    with True step x(2,3) M show ?thesis by auto
  qed
qed

section \<open>Loops over the tree\<close>

lemma visit_invariant:
  assumes "I [] [] s"
    and "\<And>zs kept s n e rest d s'. xs = zs @ (n, e) # rest \<Longrightarrow> I zs kept s \<Longrightarrow> body n e s = (d, s') \<Longrightarrow>
           I (zs @ [(n, e)]) (if d then kept else kept @ [(n, e)]) s'"
  shows "I xs (fst (visit body xs s)) (snd (visit body xs s))"
proof -
  have "I xs (kept @ fst (visit body ys s)) (snd (visit body ys s))" if "xs = zs @ ys" "I zs kept s" for zs kept ys s
    using that
  proof (induction ys arbitrary: zs kept s)
    case (Cons y ys)
    obtain n e where y: "y = (n, e)" by force
    obtain d s' where b: "body n e s = (d, s')" by force
    from assms(2) [OF _ Cons.prems(2) b] Cons.prems(1) y
    have "I (zs @ [(n, e)]) (if d then kept else kept @ [(n, e)]) s'" by simp
    from Cons.IH [OF _ this] Cons.prems(1) y b show ?case by (cases d) (auto simp: split_beta)
  qed simp
  from this [of "[]" xs "[]" s] assms(1) show ?thesis by simp
qed

lemma count_small:
  assumes "sorted_keys xs" "\<forall>p\<in>set xs. 0 < name_index (fst p)"
  shows "fst (visit grow_count_body xs (0, 0)) = xs"
    "fst (snd (visit grow_count_body xs (0, 0))) = card ((name_index \<circ> fst) ` set xs)"
proof -
  define I where "I zs kept s \<longleftrightarrow> kept = zs \<and> fst s = card ((name_index \<circ> fst) ` set zs) \<and>
      (\<forall>p\<in>set zs. name_index (fst p) \<le> snd s) \<and> (if zs = [] then snd s = 0 else snd s \<in> (name_index \<circ> fst) ` set zs)"
    for zs kept :: "(mach_port_t \<times> ipc_entry) list" and s :: "nat \<times> nat"
  have "I xs (fst (visit grow_count_body xs (0, 0))) (snd (visit grow_count_body xs (0, 0)))"
  proof (rule visit_invariant)
    show "I [] [] (0, 0)" by (simp add: I_def)
  next
    fix zs kept s n e rest d s'
    assume xs: "xs = zs @ (n, e) # rest" and I: "I zs kept s" and b: "grow_count_body n e s = (d, s')"
    have "fst p \<le> n" if "p \<in> set zs" for p using assms(1) that unfolding xs sorted_keys_append by fastforce
    then have le: "\<forall>p\<in>set zs. name_index (fst p) \<le> name_index n" using name_index_mono by blast
    have n0: "0 < name_index n" using assms(2) xs by simp
    have d: "\<not> d" using b by (auto simp: grow_count_body_def split: prod.splits)
    have new: "name_index n \<notin> (name_index \<circ> fst) ` set zs" if "name_index n \<noteq> snd s"
    proof
      assume "name_index n \<in> (name_index \<circ> fst) ` set zs"
      then have "name_index n \<le> snd s" "snd s \<in> (name_index \<circ> fst) ` set zs"
        using I by (auto simp: I_def split: if_splits)
      then show False using le that by auto
    qed
    show "I (zs @ [(n, e)]) (if d then kept else kept @ [(n, e)]) s'"
      using I b d le n0 new
      by (cases s) (auto simp: I_def grow_count_body_def insert_absorb split: if_splits)
  qed
  then show "fst (visit grow_count_body xs (0, 0)) = xs"
    "fst (snd (visit grow_count_body xs (0, 0))) = card ((name_index \<circ> fst) ` set xs)" by (auto simp: I_def)
qed

section \<open>Moving entries into the new slots\<close>

definition slot_holds :: "ipc_table_entry \<Rightarrow> mach_port_t \<Rightarrow> ipc_entry \<Rightarrow> bool \<Rightarrow> bool" where
  "slot_holds s n e c \<longleftrightarrow> IE_BITS_TYPE (ie_bits s) = IE_BITS_TYPE (ie_bits e) \<and>
     IE_BITS_GEN (ie_bits s) = MACH_PORT_GEN n \<and> right_of s = e \<and>
     (test (ie_bits s) IE_BITS_COLLISION \<longleftrightarrow> c)"

lemma slot_holds_index [simp]: "slot_holds (s\<lparr>ie_index := x\<rparr>) n e c = slot_holds s n e c"
  by (simp add: slot_holds_def right_of_def)

lemma slot_holds_collide:
  "slot_holds s n e c \<Longrightarrow> slot_holds (s\<lparr>ie_bits := ie_bits s OR IE_BITS_COLLISION\<rparr>) n e True"
  by (auto simp: slot_holds_def right_of_def set_collision)

lemma slot_holds_object: "slot_holds s n e c \<Longrightarrow> ie_object s = ie_object e"
  by (auto simp: slot_holds_def right_of_def)

text \<open>
  The state of the moving loop, with the names \<open>zs\<close> visited so far, \<open>D\<close> those of them that were
  moved, in terms of the space \<open>S\<close> before and the table \<open>t1\<close> at the start of the loop.
\<close>

definition slots_ok :: "ipc_names \<Rightarrow> nat \<Rightarrow> ipc_table \<Rightarrow> mach_port_t set \<Rightarrow> mach_port_t set \<Rightarrow> ipc_table \<Rightarrow> bool" where
  "slots_ok S osize t1 Z D t \<longleftrightarrow>
     length t = length t1 \<and>
     (\<forall>i<osize. \<exists>x. t ! i = (t1 ! i)\<lparr>ie_index := x\<rparr>) \<and>
     (\<forall>n\<in>D. \<exists>e. tree_map S n = Some e \<and>
        slot_holds (t ! name_index n) n e (\<exists>k\<in>Z. k \<notin> D \<and> name_index k = name_index n)) \<and>
     (\<forall>i. osize \<le> i \<and> i < length t1 \<and> i \<notin> name_index ` D \<longrightarrow>
        ie_bits (t ! i) = 0 \<and> ie_object (t ! i) = IO_NULL \<and> i \<notin> name_index ` Z) \<and>
     D \<subseteq> Z \<and> inj_on name_index D"

definition moved_sends :: "ipc_names \<Rightarrow> mach_port_t set \<Rightarrow> nat set" where
  "moved_sends S D = name_index ` {n \<in> D. \<exists>obj. tree_send None S n obj}"

definition moved_hash :: "addresses \<Rightarrow> space_id \<Rightarrow> ipc_names \<Rightarrow> mach_port_t set \<Rightarrow> ipc_table \<Rightarrow> ipc_hash_global \<Rightarrow> bool" where
  "moved_hash addr space S D t h \<longleftrightarrow>
     local_hash_ok (snd addr) t (send_slots None (is_table S) \<union> moved_sends S D) \<and>
     (\<exists>m. global_rep addr h m \<and> (\<forall>n obj. m (space, obj) = Some n \<longleftrightarrow> tree_send None S n obj \<and> n \<notin> D))"

lemma slots_okD:
  assumes "slots_ok S osize t1 Z D t"
  shows "length t = length t1" "i < osize \<Longrightarrow> \<exists>x. t ! i = (t1 ! i)\<lparr>ie_index := x\<rparr>"
    "n \<in> D \<Longrightarrow> tree_map S n = Some e \<Longrightarrow>
        slot_holds (t ! name_index n) n e (\<exists>k\<in>Z. k \<notin> D \<and> name_index k = name_index n)"
    "osize \<le> i \<Longrightarrow> i < length t1 \<Longrightarrow> i \<notin> name_index ` D \<Longrightarrow>
        ie_bits (t ! i) = 0 \<and> ie_object (t ! i) = IO_NULL \<and> i \<notin> name_index ` Z"
    "D \<subseteq> Z" "inj_on name_index D"
  using assms unfolding slots_ok_def by fastforce+

lemma slots_okI:
  assumes "length t = length t1" "\<And>i. i < osize \<Longrightarrow> \<exists>x. t ! i = (t1 ! i)\<lparr>ie_index := x\<rparr>"
    "\<And>n. n \<in> D \<Longrightarrow> tree_map S n \<noteq> None"
    "\<And>n e. n \<in> D \<Longrightarrow> tree_map S n = Some e \<Longrightarrow>
        slot_holds (t ! name_index n) n e (\<exists>k\<in>Z. k \<notin> D \<and> name_index k = name_index n)"
    "\<And>i. osize \<le> i \<Longrightarrow> i < length t1 \<Longrightarrow> i \<notin> name_index ` D \<Longrightarrow>
        ie_bits (t ! i) = 0 \<and> ie_object (t ! i) = IO_NULL \<and> i \<notin> name_index ` Z"
    "D \<subseteq> Z" "inj_on name_index D"
  shows "slots_ok S osize t1 Z D t"
proof -
  have "\<forall>n\<in>D. \<exists>e. tree_map S n = Some e \<and>
      slot_holds (t ! name_index n) n e (\<exists>k\<in>Z. k \<notin> D \<and> name_index k = name_index n)"
  proof
    fix n assume n: "n \<in> D"
    then obtain e where "tree_map S n = Some e" using assms(3) by auto
    with assms(4) [OF n] show "\<exists>e. tree_map S n = Some e \<and>
        slot_holds (t ! name_index n) n e (\<exists>k\<in>Z. k \<notin> D \<and> name_index k = name_index n)" by (intro exI conjI)
  qed
  moreover have "\<forall>i. osize \<le> i \<and> i < length t1 \<and> i \<notin> name_index ` D \<longrightarrow>
        ie_bits (t ! i) = 0 \<and> ie_object (t ! i) = IO_NULL \<and> i \<notin> name_index ` Z" using assms(5) by simp
  moreover have "\<forall>i<osize. \<exists>x. t ! i = (t1 ! i)\<lparr>ie_index := x\<rparr>" using assms(2) by simp
  ultimately show ?thesis using assms(1,6,7) unfolding slots_ok_def by (intro conjI)
qed

text \<open>The first name with its index moves.\<close>

lemma slots_move:
  assumes ok: "slots_ok S osize t1 Z D t" and i: "osize \<le> name_index n" "name_index n < length t1"
    and new: "name_index n \<notin> name_index ` D" and e: "tree_map S n = Some e" and r: "right_only (ie_bits e)"
    and t': "length t' = length t" "ie_bits (t' ! name_index n) = ie_bits e OR MACH_PORT_GEN n"
      "ie_object (t' ! name_index n) = ie_object e" "ie_request (t' ! name_index n) = ie_request e"
      "\<forall>j. j \<noteq> name_index n \<longrightarrow> (\<exists>x. t' ! j = (t ! j)\<lparr>ie_index := x\<rparr>)"
  shows "slots_ok S osize t1 (insert n Z) (insert n D) t'"
proof -
  let ?i = "name_index n"
  note s = slots_okD [OF ok]
  have none: "?i \<notin> name_index ` Z" using s(4) [OF i new] by blast
  have "?i < length t" using i s(1) by simp
  from filledD(2-5) [OF filledI(1) [OF r this t']]
  have self: "slot_holds (t' ! ?i) n e False" by (simp add: slot_holds_def)
  have other: "\<exists>x. t' ! j = (t ! j)\<lparr>ie_index := x\<rparr>" if "j \<noteq> ?i" for j using t'(5) that by blast
  have coll: "(\<exists>k\<in>insert n Z. k \<notin> insert n D \<and> name_index k = j) \<longleftrightarrow> (\<exists>k\<in>Z. k \<notin> D \<and> name_index k = j)"
    if "j \<noteq> ?i" for j using that by auto
  have "slot_holds (t' ! name_index k) k e' (\<exists>m\<in>insert n Z. m \<notin> insert n D \<and> name_index m = name_index k)"
    if "k \<in> insert n D" "tree_map S k = Some e'" for k e'
  proof (cases "k = n")
    case True
    have c: "(\<exists>m\<in>insert n Z. m \<notin> insert n D \<and> name_index m = ?i) = False"
      using none by (metis imageI insertE insertI1)
    show ?thesis unfolding True c using self e that(2) True by simp
  next
    case False
    then have kD: "k \<in> D" using that by blast
    have ki: "name_index k \<noteq> ?i" using imageI [OF kD, of name_index] new by metis
    from s(3) [OF kD that(2)] other [OF ki] show ?thesis unfolding coll [OF ki] by auto
  qed
  moreover have "tree_map S k \<noteq> None" if "k \<in> insert n D" for k
    using that e ok by (auto simp: slots_ok_def)
  moreover have "\<exists>x. t' ! j = (t1 ! j)\<lparr>ie_index := x\<rparr>" if "j < osize" for j
    using s(2) [OF that] other [of j] i that by auto
  moreover have "ie_bits (t' ! j) = 0 \<and> ie_object (t' ! j) = IO_NULL \<and> j \<notin> name_index ` insert n Z"
    if "osize \<le> j" "j < length t1" "j \<notin> name_index ` insert n D" for j
    using that s(4) [of j] other [of j] by auto
  moreover have "inj_on name_index (insert n D)" using s(6) new by auto
  moreover have "length t' = length t1" "insert n D \<subseteq> insert n Z" using s(1,5) t'(1) by auto
  ultimately show ?thesis by (intro slots_okI)
qed

text \<open>A later one only sets the collision bit.\<close>

lemma slots_collide:
  assumes ok: "slots_ok S osize t1 Z D t" and i: "osize \<le> name_index n" "name_index n < length t1"
    and n: "n \<notin> Z" and old: "name_index n \<in> name_index ` D"
  shows "slots_ok S osize t1 (insert n Z) D
           (upd_slot (name_index n) (ie_bits_update (\<lambda>b. b OR IE_BITS_COLLISION)) t)"
proof -
  let ?i = "name_index n" and ?t = "upd_slot (name_index n) (ie_bits_update (\<lambda>b. b OR IE_BITS_COLLISION)) t"
  note s = slots_okD [OF ok]
  have self: "?t ! ?i = (t ! ?i)\<lparr>ie_bits := ie_bits (t ! ?i) OR IE_BITS_COLLISION\<rparr>" using i s(1) by simp
  have nD: "n \<notin> D" using n s(5) by auto
  have "slot_holds (?t ! name_index k) k e (\<exists>m\<in>insert n Z. m \<notin> D \<and> name_index m = name_index k)"
    if k: "k \<in> D" "tree_map S k = Some e" for k e
  proof (cases "name_index k = ?i")
    case True
    with s(3) [OF k] self slot_holds_collide nD show ?thesis by auto
  next
    case False
    then have "(\<exists>m\<in>insert n Z. m \<notin> D \<and> name_index m = name_index k) \<longleftrightarrow>
        (\<exists>m\<in>Z. m \<notin> D \<and> name_index m = name_index k)" by auto
    with s(3) [OF k] False show ?thesis by simp
  qed
  moreover have "tree_map S k \<noteq> None" if "k \<in> D" for k using that ok by (auto simp: slots_ok_def)
  moreover have "\<exists>x. ?t ! j = (t1 ! j)\<lparr>ie_index := x\<rparr>" if "j < osize" for j using s(2) [OF that] i that by auto
  moreover have "ie_bits (?t ! j) = 0 \<and> ie_object (?t ! j) = IO_NULL \<and> j \<notin> name_index ` insert n Z"
    if "osize \<le> j" "j < length t1" "j \<notin> name_index ` D" for j
    using that s(4) [of j] old by (cases "j = ?i") auto
  moreover have "length ?t = length t1" "D \<subseteq> insert n Z" using s(1,5) by auto
  ultimately show ?thesis using s(6) by (intro slots_okI)
qed

lemma moved_sends_insert:
  "moved_sends S (insert n D) = (if \<exists>obj. tree_send None S n obj then insert (name_index n) (moved_sends S D) else moved_sends S D)"
  by (auto simp: moved_sends_def)

lemma tree_send_entry:
  assumes "tree_map S n = Some e"
  shows "tree_send None S n obj \<longleftrightarrow> IE_BITS_TYPE (ie_bits e) = MACH_PORT_TYPE_SEND \<and> obj = ie_object e"
  using assms by (auto simp: tree_send_def)

text \<open>The old slots and the moved ones keep their objects, so no other right in the table is for the same object.\<close>

lemma moved_objects:
  assumes ok: "names_ok addr sizes space None S" and sl: "slots_ok S (is_table_size S) t1 Z D t"
    and t1: "\<forall>i<is_table_size S. ie_object (t1 ! i) = ie_object (is_table S ! i)"
    and n: "tree_send None S n obj" "n \<notin> D"
    and j: "j \<in> send_slots None (is_table S) \<union> moved_sends S D"
  shows "ie_object (t ! j) \<noteq> obj"
proof -
  note s = slots_okD [OF sl]
  have h: "hash_ok addr space None S" using ok by (rule names_okD)
  obtain m where m: "\<And>n obj. m (space, obj) = Some n \<longleftrightarrow> tree_send None S n obj"
    using h by (auto simp: hash_ok_def)
  from j consider "j \<in> send_slots None (is_table S)" | k obj' where "k \<in> D" "j = name_index k" "tree_send None S k obj'"
    by (auto simp: moved_sends_def)
  then show ?thesis
  proof cases
    case 1
    then have "j < is_table_size S" by (auto simp: send_slots_def in_use_def)
    with s(2) t1 have "ie_object (t ! j) = ie_object (is_table S ! j)" by fastforce
    with 1 h n(1) show ?thesis by (auto simp: hash_ok_def)
  next
    case 2
    then obtain e where e: "tree_map S k = Some e" "obj' = ie_object e" by (auto simp: tree_send_def)
    with slot_holds_object [OF s(3) [OF 2(1) e(1)]] have "ie_object (t ! j) = obj'" using 2 by simp
    moreover have "k \<noteq> n" using 2(1) n(2) by auto
    ultimately show ?thesis using m 2(3) n(1) by (metis option.inject)
  qed
qed

definition move_inv ::
  "addresses \<Rightarrow> space_id \<Rightarrow> ipc_names \<Rightarrow> ipc_table \<Rightarrow> (mach_port_t \<times> ipc_entry) list \<Rightarrow>
     (mach_port_t \<times> ipc_entry) list \<Rightarrow> (ipc_table \<times> ipc_hash_global \<times> nat) option \<Rightarrow> bool" where
  "move_inv addr space S t1 zs kept s \<longleftrightarrow>
     (\<exists>D t h. s = Some (t, h, is_tree_total S - card D) \<and> slots_ok S (is_table_size S) t1 (fst ` set zs) D t \<and>
        moved_hash addr space S D t h \<and> kept = filter (\<lambda>p. fst p \<notin> D) zs)"

lemma move_step:
  assumes ok: "names_ok addr sizes space None S" and inv: "move_inv addr space S t1 zs kept s"
    and t1: "\<forall>i<is_table_size S. ie_object (t1 ! i) = ie_object (is_table S ! i)"
    and n: "tree_map S n = Some e" "n \<notin> fst ` set zs" "is_table_size S \<le> name_index n" "name_index n < length t1"
    and D: "fst ` set zs \<subseteq> dom (tree_map S)"
    and body: "grow_move_body addr space n e s = (d, s')"
  shows "move_inv addr space S t1 (zs @ [(n, e)]) (if d then kept else kept @ [(n, e)]) s'"
proof -
  let ?i = "name_index n" and ?Z = "fst ` set zs"
  obtain D t h where s: "s = Some (t, h, is_tree_total S - card D)" and sl: "slots_ok S (is_table_size S) t1 ?Z D t"
    and mh: "moved_hash addr space S D t h" and kept: "kept = filter (\<lambda>p. fst p \<notin> D) zs"
    using inv by (auto simp: move_inv_def)
  note so = slots_okD [OF sl] and tok = tree_okD [OF names_okD(4) [OF ok]]
  have nD: "n \<notin> D" using so(5) n(2) by auto
  have bits: "ie_bits (t ! ?i) \<noteq> 0 \<longleftrightarrow> ?i \<in> name_index ` D"
  proof
    assume "?i \<in> name_index ` D"
    then obtain k where k: "k \<in> D" "name_index k = ?i" by auto
    obtain e' where e': "tree_map S k = Some e'" using k(1) so(5) D by blast
    have "IE_BITS_TYPE (ie_bits (t ! ?i)) \<noteq> MACH_PORT_TYPE_NONE"
      using so(3) [OF k(1) e'] tok(5) [OF e'] k(2) by (simp add: slot_holds_def)
    then show "ie_bits (t ! ?i) \<noteq> 0" by (auto simp: field_defs MACH_PORT_TYPE_NONE_def)
  qed (use so(4) [OF n(3,4)] in blast)
  show ?thesis
  proof (cases "?i \<in> name_index ` D")
    case True
    let ?t = "upd_slot ?i (ie_bits_update (\<lambda>b. b OR IE_BITS_COLLISION)) t"
    have b: "\<not> d" "s' = Some (?t, h, is_tree_total S - card D)"
      using body bits True by (auto simp: grow_move_body_def s Let_def)
    have "length ?t = length t" by simp
    then have "moved_hash addr space S D ?t h"
      using mh n(4) so(1) unfolding moved_hash_def
      by (auto intro!: local_hash_ok_cong [of _ t] simp: upd_slot_def nth_list_update)
    moreover have "slots_ok S (is_table_size S) t1 (insert n ?Z) D ?t"
      by (rule slots_collide [OF sl n(3,4,2) True])
    ultimately show ?thesis
      using b nD kept unfolding move_inv_def by (intro exI [of _ D] exI [of _ ?t] exI [of _ h]) auto
  next
    case False
    let ?M = "send_slots None (is_table S) \<union> moved_sends S D"
    obtain m where lh: "local_hash_ok (snd addr) t ?M" and m: "global_rep addr h m"
      "\<And>n obj. m (space, obj) = Some n \<longleftrightarrow> tree_send None S n obj \<and> n \<notin> D" using mh by (auto simp: moved_hash_def)
    have iM: "?i \<notin> ?M" using False n(3) by (auto simp: moved_sends_def send_slots_def in_use_def)
    have i0: "0 < ?i" "?i < length t"
      using n(3,4) so(1) names_okD(3) [OF ok] by (auto simp: table_ok_def intro: less_le_trans)
    have send: "m (space, ie_object e) = Some n \<and> (\<forall>j\<in>?M. ie_object (t ! j) \<noteq> ie_object e)"
      if "IE_BITS_TYPE (ie_bits e) = MACH_PORT_TYPE_SEND"
    proof -
      have "tree_send None S n (ie_object e)" using that n(1) by (simp add: tree_send_def)
      with m(2) nD moved_objects [OF ok sl t1 this nD] show ?thesis by blast
    qed
    obtain t' h' where mv: "move_to_table addr space ?i n e (t, h) = Some (t', h')"
      "length t' = length t" "ie_bits (t' ! ?i) = ie_bits e OR MACH_PORT_GEN n"
      "ie_object (t' ! ?i) = ie_object e" "ie_request (t' ! ?i) = ie_request e"
      "\<forall>j. j \<noteq> ?i \<longrightarrow> (\<exists>x. t' ! j = (t ! j)\<lparr>ie_index := x\<rparr>)"
      "local_hash_ok (snd addr) t' (if IE_BITS_TYPE (ie_bits e) = MACH_PORT_TYPE_SEND then insert ?i ?M else ?M)"
      "global_rep addr h'
         (if IE_BITS_TYPE (ie_bits e) = MACH_PORT_TYPE_SEND then m((space, ie_object e) := None) else m)"
      by (rule move_to_table_spec [OF lh m(1) iM i0 send])
    have "slots_ok S (is_table_size S) t1 (insert n ?Z) (insert n D) t'"
      by (rule slots_move [OF sl n(3,4) False n(1) tok(3) [OF n(1)] mv(2-6)])
    moreover have "moved_hash addr space S (insert n D) t' h'"
    proof -
      let ?m = "if IE_BITS_TYPE (ie_bits e) = MACH_PORT_TYPE_SEND then m((space, ie_object e) := None) else m"
      have ex: "(\<exists>obj. tree_send None S n obj) \<longleftrightarrow> IE_BITS_TYPE (ie_bits e) = MACH_PORT_TYPE_SEND"
        by (simp add: tree_send_entry [OF n(1)])
      have M: "send_slots None (is_table S) \<union> moved_sends S (insert n D) =
          (if IE_BITS_TYPE (ie_bits e) = MACH_PORT_TYPE_SEND then insert ?i ?M else ?M)"
        unfolding moved_sends_insert ex by auto
      have "?m (space, obj) = Some k \<longleftrightarrow> tree_send None S k obj \<and> k \<notin> insert n D" for k obj
        using m(2) [of obj k] m(2) [of "ie_object e" k] send tree_send_entry [OF n(1), of obj] nD by auto
      with mv(7,8) show ?thesis unfolding moved_hash_def M by blast
    qed
    moreover have "d" "s' = Some (t', h', is_tree_total S - card (insert n D))"
    proof -
      have "finite D" using so(5) finite_subset by auto
      then have "is_tree_total S - card (insert n D) = is_tree_total S - card D - 1" using nD by simp
      then show "d" "s' = Some (t', h', is_tree_total S - card (insert n D))"
        using body bits False mv(1) by (auto simp: grow_move_body_def s Let_def)
    qed
    moreover have "kept = filter (\<lambda>p. fst p \<notin> insert n D) (zs @ [(n, e)])"
      using n(2) unfolding kept by (auto intro: filter_cong)
    ultimately show ?thesis unfolding move_inv_def by (intro exI [of _ "insert n D"] exI [of _ t'] exI [of _ h']) auto
  qed
qed

section \<open>The tree when the table grows\<close>

text \<open>The entries of a tree with indices from \<open>a\<close> up to \<open>b\<close>.\<close>

abbreviation in_range :: "nat \<Rightarrow> nat \<Rightarrow> mach_port_t \<times> 'e \<Rightarrow> bool" where
  "in_range a b \<equiv> \<lambda>p. a \<le> name_index (fst p) \<and> name_index (fst p) < b"

lemma grow_splits:
  assumes inv: "splay_inv tree" and b: "osize \<le> sz" "sz \<le> nsize" "nsize < 2 ^ 24"
    and sp: "ipc_splay_tree_split tree (make_name nsize 0) = (big, small1)"
      "ipc_splay_tree_split small1 (make_name sz 0) = (small, move1)"
      "ipc_splay_tree_split move1 (make_name osize 0) = (move, ignore)"
  shows "splay_inv big" "splay_inv small" "splay_inv move" "splay_inv ignore"
    "contents small = filter (in_range sz nsize) (contents tree)"
    "contents move = filter (in_range osize sz) (contents tree)"
    "contents ignore = filter (\<lambda>p. name_index (fst p) < osize) (contents tree)"
    "contents big = filter (\<lambda>p. nsize \<le> name_index (fst p)) (contents tree)"
    "contents ignore @ contents move @ contents small @ contents big = contents tree"
proof -
  note s1 = split_spec [OF inv sp(1)]
  note s2 = split_spec [OF s1(2) sp(2)]
  note s3 = split_spec [OF s2(2) sp(3)]
  have lt: "sz < 2 ^ 24" "osize < 2 ^ 24" using b by linarith+
  note cmp = name_less_make [OF b(3)] make_name_le [OF b(3)] name_less_make [OF lt(1)] make_name_le [OF lt(1)]
    name_less_make [OF lt(2)] make_name_le [OF lt(2)]
  show "splay_inv big" "splay_inv small" "splay_inv move" "splay_inv ignore" by (rule s1 s2 s3)+
  show "contents small = filter (in_range sz nsize) (contents tree)"
    "contents move = filter (in_range osize sz) (contents tree)"
    "contents ignore = filter (\<lambda>p. name_index (fst p) < osize) (contents tree)"
    "contents big = filter (\<lambda>p. nsize \<le> name_index (fst p)) (contents tree)"
    unfolding s3(3,4) s2(3,4) s1(3,4) filter_filter cmp using b by (auto intro: filter_cong)
  have "contents ignore @ contents move = contents move1" "contents move1 @ contents small = contents small1"
    "contents small1 @ contents big = contents tree"
    using sorted_keys_split [OF contents_sorted [OF s2(2)], of "make_name osize 0"]
      sorted_keys_split [OF contents_sorted [OF s1(2)], of "make_name sz 0"]
      sorted_keys_split [OF contents_sorted [OF inv], of "make_name nsize 0"]
    by (simp_all only: s3(3,4) [symmetric] s2(3,4) [symmetric] s1(3,4) [symmetric])
  then show "contents ignore @ contents move @ contents small @ contents big = contents tree"
    by (metis append.assoc)
qed

lemma grow_joins:
  assumes sorted: "sorted_keys (xs @ ys @ zs @ bs)"
    and big: "splay_inv big" "contents big = bs" and small: "splay_inv small" "contents small = zs"
    and move: "splay_inv move" "contents move = ys" and ignore: "splay_inv ignore" "contents ignore = xs"
    and tree: "tree = fst (ipc_splay_tree_join (fst (ipc_splay_tree_join (fst (ipc_splay_tree_join big small)) move)) ignore)"
  shows "splay_inv tree" "contents tree = xs @ ys @ zs @ bs"
proof -
  have join: "splay_inv (fst (ipc_splay_tree_join t s)) \<and>
      contents (fst (ipc_splay_tree_join t s)) = contents s @ contents t"
    if "splay_inv t" "splay_inv s" "sorted_keys (contents s @ contents t)" for t s
  proof -
    obtain a b where j: "ipc_splay_tree_join t s = (a, b)" by force
    have "\<forall>p\<in>set (contents s). \<forall>q\<in>set (contents t). fst p < fst q" using that(3) unfolding sorted_keys_append by simp
    from join_spec(1,2) [OF that(1,2) this j] show ?thesis by (simp add: j)
  qed
  have so: "sorted_keys (zs @ bs)" "sorted_keys (ys @ zs @ bs)" using sorted by (simp_all add: sorted_wrt_append)
  note 1 = join [OF big(1) small(1), unfolded big(2) small(2), OF so(1)]
  note 2 = join [OF conjunct1 [OF 1] move(1), unfolded conjunct2 [OF 1] move(2), OF so(2)]
  note 3 = join [OF conjunct1 [OF 2] ignore(1), unfolded conjunct2 [OF 2] ignore(2), OF sorted]
  from 3 show "splay_inv tree" "contents tree = xs @ ys @ zs @ bs" by (simp_all only: tree)
qed

lemma tree_contents_entry:
  assumes "splay_inv (is_tree S)"
  shows "(n, e) \<in> set (contents (is_tree S)) \<longleftrightarrow> tree_map S n = Some e"
  using sorted_keys_distinct [OF contents_sorted [OF assms]] by (simp add: tree_map_def)

lemma move_loop:
  assumes ok: "names_ok addr sizes space None S" and move: "contents move = filter (in_range (is_table_size S) (length t1)) (contents (is_tree S))"
    and start: "slots_ok S (is_table_size S) t1 {} {} t1" "moved_hash addr space S {} t1 (is_hash S)"
    and t1: "\<forall>i<is_table_size S. ie_object (t1 ! i) = ie_object (is_table S ! i)"
  shows "move_inv addr space S t1 (contents move)
     (fst (visit (grow_move_body addr space) (contents move) (Some (t1, is_hash S, is_tree_total S))))
     (snd (visit (grow_move_body addr space) (contents move) (Some (t1, is_hash S, is_tree_total S))))"
proof (rule visit_invariant)
  show "move_inv addr space S t1 [] [] (Some (t1, is_hash S, is_tree_total S))"
    unfolding move_inv_def using start by (intro exI [of _ "{}"] exI [of _ t1] exI [of _ "is_hash S"]) simp
next
  fix zs kept s n e rest d s'
  assume xs: "contents move = zs @ (n, e) # rest" and inv: "move_inv addr space S t1 zs kept s"
    and b: "grow_move_body addr space n e s = (d, s')"
  have sinv: "splay_inv (is_tree S)" using tree_okD(1) [OF names_okD(4) [OF ok]] .
  have sub: "set (contents move) \<subseteq> set (contents (is_tree S))" unfolding move by auto
  have "distinct (map fst (contents move))"
    unfolding move using sorted_keys_distinct [OF contents_sorted [OF sinv]] by (simp add: distinct_map_filter)
  then have new: "n \<notin> fst ` set zs" by (auto simp: xs)
  have mem: "(n, e) \<in> set (contents move)" by (simp add: xs)
  then have n: "tree_map S n = Some e" "is_table_size S \<le> name_index n" "name_index n < length t1"
    using sub tree_contents_entry [OF sinv] unfolding move by auto
  have "fst ` set zs \<subseteq> fst ` set (contents (is_tree S))" using sub xs by auto
  then have "fst ` set zs \<subseteq> dom (tree_map S)" by (simp add: tree_map_def dom_map_of_conv_image_fst)
  then show "move_inv addr space S t1 (zs @ [(n, e)]) (if d then kept else kept @ [(n, e)]) s'"
    by (intro move_step [OF ok inv t1 n(1) new n(2,3) _ b])
qed

lemma grow_tree_spec:
  assumes ok: "names_ok addr sizes space None S" and b: "is_table_size S \<le> length t1" "length t1 \<le> nsize" "nsize < 2 ^ 24"
    and start: "slots_ok S (is_table_size S) t1 {} {} t1" "moved_hash addr space S {} t1 (is_hash S)"
    and t1: "\<forall>i<is_table_size S. ie_object (t1 ! i) = ie_object (is_table S ! i)"
  obtains D t h tree where
    "grow_tree addr space (is_table_size S) (length t1) nsize (S\<lparr>is_table := t1, is_table_next := k\<rparr>) =
       Some (S\<lparr>is_table := t, is_table_next := k, is_tree := tree, is_tree_total := is_tree_total S - card D,
              is_tree_small := card (name_index ` {n\<in>dom (tree_map S). length t1 \<le> name_index n \<and> name_index n < nsize}),
              is_hash := h\<rparr>)"
    "splay_inv tree" "contents tree = filter (\<lambda>p. fst p \<notin> D) (contents (is_tree S))"
    "slots_ok S (is_table_size S) t1 {n\<in>dom (tree_map S). is_table_size S \<le> name_index n \<and> name_index n < length t1} D t"
    "moved_hash addr space S D t h"
proof -
  let ?os = "is_table_size S" and ?xs = "contents (is_tree S)"
  let ?Z = "\<lambda>a b. {n\<in>dom (tree_map S). a \<le> name_index n \<and> name_index n < b}"
  note tok = tree_okD [OF names_okD(4) [OF ok]]
  have Z: "fst ` set (filter (in_range a b) ?xs) = ?Z a b" for a b
    by (auto simp: tree_map_def dom_map_of_conv_image_fst)
  show thesis
  proof (cases "is_tree_total S = 0")
    case True
    then have "?xs = []" using tok(2) by simp
    then have e: "tree_map S = (\<lambda>_. None)" by (simp add: tree_map_def)
    then have "small_indices sizes S = {}" by (simp add: small_indices_def)
    then have "is_tree_small S = 0" using names_okD(2) [OF ok] by (simp add: sizes_ok_for_def)
    then have "grow_tree addr space ?os (length t1) nsize (S\<lparr>is_table := t1, is_table_next := k\<rparr>) =
       Some (S\<lparr>is_table := t1, is_table_next := k, is_tree := is_tree S, is_tree_total := is_tree_total S - card {},
              is_tree_small := card (name_index ` ?Z (length t1) nsize), is_hash := is_hash S\<rparr>)"
      using True e by (cases S) (simp add: grow_tree_def)
    then show thesis by (rule that) (use e \<open>?xs = []\<close> tok(1) start in simp_all)
  next
    case False
    obtain big small1 small move1 move ignore where
      sp: "ipc_splay_tree_split (is_tree S) (make_name nsize 0) = (big, small1)"
      "ipc_splay_tree_split small1 (make_name (length t1) 0) = (small, move1)"
      "ipc_splay_tree_split move1 (make_name ?os 0) = (move, ignore)" by (metis surj_pair)
    note gs = grow_splits [OF tok(1) b sp]
    let ?s = "Some (t1, is_hash S, is_tree_total S)"
    let ?v = "visit (grow_move_body addr space) (contents move) ?s"
    from move_loop [OF ok gs(6) start t1] obtain D t h where
      v: "snd ?v = Some (t, h, is_tree_total S - card D)"
      and sl: "slots_ok S ?os t1 (fst ` set (contents move)) D t" and mh: "moved_hash addr space S D t h"
      and kept: "fst ?v = filter (\<lambda>p. fst p \<notin> D) (contents move)" unfolding move_inv_def by blast
    obtain move' where tr: "splay_traverse (grow_move_body addr space) move ?s = Some (move', snd ?v)"
      "splay_inv move'" "contents move' = filter (\<lambda>p. fst p \<notin> D) (contents move)"
      using traverse_spec [OF gs(3), of "grow_move_body addr space" ?s] kept by auto
    have "0 < length t1" using names_okD(3) [OF ok] b(1) by (auto simp: table_ok_def)
    then have "\<forall>p\<in>set (contents small). 0 < name_index (fst p)"
      unfolding gs(5) by (auto simp del: length_greater_0_conv intro: less_le_trans)
    note cnt = count_small [OF contents_sorted [OF gs(2)] this]
    let ?w = "visit grow_count_body (contents small) (0, 0)"
    obtain small' where w: "splay_traverse grow_count_body small (0, 0) = Some (small', snd ?w)"
      "splay_inv small'" "contents small' = fst ?w"
      using traverse_spec [OF gs(2), of grow_count_body "(0, 0)"] by blast
    have "(name_index \<circ> fst) ` set (contents small) = name_index ` ?Z (length t1) nsize"
      unfolding image_comp [symmetric] gs(5) Z ..
    moreover obtain c idx where ci: "snd ?w = (c, idx)" by force
    ultimately have c: "c = card (name_index ` ?Z (length t1) nsize)" using cnt(2) unfolding ci by simp
    have tr': "splay_traverse grow_count_body small (0, 0) =
        Some (small', card (name_index ` ?Z (length t1) nsize), idx)" "splay_inv small'" "contents small' = contents small"
      using w unfolding ci c cnt(1) by blast+
    define tree where "tree = fst (ipc_splay_tree_join
        (fst (ipc_splay_tree_join (fst (ipc_splay_tree_join big small')) move')) ignore)"
    have DZ: "D \<subseteq> ?Z ?os (length t1)" using slots_okD(5) [OF sl] unfolding gs(6) Z .
    let ?f = "filter (\<lambda>p. fst p \<notin> D)"
    have "?f (contents ignore) = contents ignore" "?f (contents small) = contents small" "?f (contents big) = contents big"
      unfolding filter_id_conv gs(5,7,8) using DZ b by auto
    then have fil: "contents ignore @ contents move' @ contents small' @ contents big = ?f ?xs"
      unfolding gs(9) [symmetric] tr(3) tr'(3) filter_append by simp
    have "sorted_keys (?f ?xs)" using contents_sorted [OF tok(1)] by (simp add: sorted_wrt_map sorted_wrt_filter)
    then have "sorted_keys (contents ignore @ contents move' @ contents small' @ contents big)" unfolding fil .
    note gj = grow_joins [OF this gs(1) refl tr'(2) refl tr(2) refl gs(4) refl tree_def]
    show thesis
    proof (rule that)
      show "grow_tree addr space ?os (length t1) nsize (S\<lparr>is_table := t1, is_table_next := k\<rparr>) =
       Some (S\<lparr>is_table := t, is_table_next := k, is_tree := tree, is_tree_total := is_tree_total S - card D,
              is_tree_small := card (name_index ` ?Z (length t1) nsize), is_hash := h\<rparr>)"
        using False by (simp add: grow_tree_def sp tr(1) v tr'(1) tree_def)
    qed (use gj fil sl [unfolded gs(6) Z] mh in simp_all)
  qed
qed

section \<open>The new free slots\<close>

fun link :: "ipc_table \<Rightarrow> nat \<Rightarrow> nat list \<Rightarrow> bool" where
  "link t f [] \<longleftrightarrow> f = 0"
| "link t f (j # js) \<longleftrightarrow> f = j \<and> link t (ie_next (t ! j)) js"

lemma chain_link: "chain t i fl \<longleftrightarrow> link t (ie_next (t ! i)) fl"
  by (induction fl arbitrary: i) auto

lemma link_cong:
  "(\<And>k. k \<in> set fl \<Longrightarrow> ie_next (t' ! k) = ie_next (t ! k)) \<Longrightarrow> link t' f fl = link t f fl"
  by (induction fl arbitrary: f) auto

abbreviation free_step :: "nat \<Rightarrow> ipc_table \<times> nat \<Rightarrow> ipc_table \<times> nat" where
  "free_step \<equiv> \<lambda>i (table, free_index).
     if ie_bits (table ! i) = 0
     then (upd_slot i (\<lambda>e. e\<lparr>ie_bits := IE_BITS_GEN_MASK, ie_request := free_index\<rparr>) table, i)
     else (table, free_index)"

lemma free_loop:
  assumes "fold free_step ks (t, f) = (t', f')" "distinct ks" "set ks \<inter> set fl = {}" "\<forall>i\<in>set ks. i < length t"
    and "link t f fl"
  shows "link t' f' (rev (filter (\<lambda>i. ie_bits (t ! i) = 0) ks) @ fl) \<and> length t' = length t \<and>
     (\<forall>j. if j \<in> set ks \<and> ie_bits (t ! j) = 0
          then ie_bits (t' ! j) = IE_BITS_GEN_MASK \<and> ie_object (t' ! j) = ie_object (t ! j) \<and> ie_index (t' ! j) = ie_index (t ! j)
          else t' ! j = t ! j)"
  using assms
proof (induction ks arbitrary: t f fl)
  case (Cons i ks)
  show ?case
  proof (cases "ie_bits (t ! i) = 0")
    case False
    with Cons.IH [of t f fl] Cons.prems show ?thesis by auto
  next
    case True
    define u where "u = upd_slot i (\<lambda>e. e\<lparr>ie_bits := IE_BITS_GEN_MASK, ie_request := f\<rparr>) t"
    have ui: "u ! i = (t ! i)\<lparr>ie_bits := IE_BITS_GEN_MASK, ie_request := f\<rparr>" using Cons.prems(4) by (simp add: u_def)
    have uj: "u ! j = t ! j" if "j \<noteq> i" for j using that by (simp add: u_def)
    have len: "length u = length t" by (simp add: u_def)
    have "link u f fl"
      using Cons.prems(3,5) link_cong [of fl u t f] uj by (metis (no_types, lifting) disjoint_iff list.set_intros(1))
    then have "link u i (i # fl)" by (simp add: ui)
    moreover have "fold free_step ks (u, i) = (t', f')" using Cons.prems(1) True by (simp add: u_def)
    ultimately have IH: "link t' f' (rev (filter (\<lambda>i. ie_bits (u ! i) = 0) ks) @ i # fl) \<and> length t' = length u \<and>
     (\<forall>j. if j \<in> set ks \<and> ie_bits (u ! j) = 0
          then ie_bits (t' ! j) = IE_BITS_GEN_MASK \<and> ie_object (t' ! j) = ie_object (u ! j) \<and> ie_index (t' ! j) = ie_index (u ! j)
          else t' ! j = u ! j)"
      using Cons.prems(2-4) by (intro Cons.IH) (auto simp: len)
    have i: "i \<notin> set ks" using Cons.prems(2) by simp
    then have "filter (\<lambda>i. ie_bits (u ! i) = 0) ks = filter (\<lambda>i. ie_bits (t ! i) = 0) ks"
      by (intro filter_cong refl) (metis uj)
    moreover have "if j \<in> set (i # ks) \<and> ie_bits (t ! j) = 0
          then ie_bits (t' ! j) = IE_BITS_GEN_MASK \<and> ie_object (t' ! j) = ie_object (t ! j) \<and> ie_index (t' ! j) = ie_index (t ! j)
          else t' ! j = t ! j" for j
    proof (cases "j = i")
      case True
      have "t' ! i = u ! i" using IH i by meson
      with True \<open>ie_bits (t ! i) = 0\<close> show ?thesis by (simp add: ui)
    next
      case False
      with IH uj [OF False] show ?thesis by simp
    qed
    ultimately show ?thesis using IH True len by simp
  qed
qed simp

lemma grow_free_spec:
  assumes "chain t 0 fl" "\<forall>k\<in>set fl. 0 < k \<and> k < osize" "0 < osize" "sz = length t" "osize \<le> sz" and t': "t' = grow_free osize sz t"
  shows "chain t' 0 (filter (\<lambda>i. ie_bits (t ! i) = 0) [osize..<sz] @ fl)" "length t' = length t"
    "\<And>j. osize \<le> j \<Longrightarrow> j < sz \<Longrightarrow> ie_bits (t ! j) = 0 \<Longrightarrow> ie_bits (t' ! j) = IE_BITS_GEN_MASK"
    "\<And>j. j \<noteq> 0 \<Longrightarrow> j < osize \<or> ie_bits (t ! j) \<noteq> 0 \<Longrightarrow> j < sz \<Longrightarrow> t' ! j = t ! j"
    "ie_bits (t' ! 0) = ie_bits (t ! 0)"
    "\<And>j. ie_object (t' ! j) = ie_object (t ! j)" "\<And>j. ie_index (t' ! j) = ie_index (t ! j)"
proof -
  obtain u f where u: "fold free_step (rev [osize..<sz]) (t, ie_next (t ! 0)) = (u, f)" by force
  have t'u: "t' = upd_slot 0 (ie_request_update (\<lambda>_. f)) u" unfolding t' grow_free_def u by simp
  have L: "link u f (rev (filter (\<lambda>i. ie_bits (t ! i) = 0) (rev [osize..<sz])) @ fl) \<and> length u = length t \<and>
     (\<forall>j. if j \<in> set (rev [osize..<sz]) \<and> ie_bits (t ! j) = 0
          then ie_bits (u ! j) = IE_BITS_GEN_MASK \<and> ie_object (u ! j) = ie_object (t ! j) \<and> ie_index (u ! j) = ie_index (t ! j)
          else u ! j = t ! j)"
    by (rule free_loop [OF u]) (use assms(1-4) in \<open>auto simp: chain_link\<close>)
  then have U: "if osize \<le> j \<and> j < sz \<and> ie_bits (t ! j) = 0
          then ie_bits (u ! j) = IE_BITS_GEN_MASK \<and> ie_object (u ! j) = ie_object (t ! j) \<and> ie_index (u ! j) = ie_index (t ! j)
          else u ! j = t ! j" for j by simp
  have u0: "u ! 0 = t ! 0" using U [of 0] assms(3) by simp
  have len: "length u = length t" "0 < length u" using L assms(3-5) by auto
  have nth: "t' ! j = (if j = 0 then (u ! 0)\<lparr>ie_request := f\<rparr> else u ! j)" for j
    using len by (auto simp: t'u)
  show "length t' = length t" by (simp add: t'u len)
  show "ie_bits (t' ! 0) = ie_bits (t ! 0)" by (simp add: nth u0)
  show "ie_object (t' ! j) = ie_object (t ! j)" "ie_index (t' ! j) = ie_index (t ! j)" for j
    using U [of j] by (auto simp: nth split: if_splits)
  show "ie_bits (t' ! j) = IE_BITS_GEN_MASK" if "osize \<le> j" "j < sz" "ie_bits (t ! j) = 0" for j
    using that U [of j] assms(3) by (simp add: nth)
  show "t' ! j = t ! j" if "j \<noteq> 0" "j < osize \<or> ie_bits (t ! j) \<noteq> 0" "j < sz" for j
    using that U [of j] by (auto simp: nth split: if_splits)
  let ?l = "filter (\<lambda>i. ie_bits (t ! i) = 0) [osize..<sz] @ fl"
  have "0 \<notin> set ?l" using assms(2,3) by auto
  then have "link t' f ?l = link u f ?l" by (intro link_cong) (metis nth)
  moreover have "ie_next (t' ! 0) = f" by (simp add: nth)
  ultimately show "chain t' 0 ?l" using L by (simp add: chain_link rev_filter)
qed

section \<open>One pass of the loop\<close>

lemma schedule_step:
  assumes sc: "schedule_ok sizes" and k: "0 < k" "k < length sizes" and ne: "its_size sizes (k - 1) \<noteq> its_size sizes k"
  shows "k + 1 < length sizes" "its_size sizes (k - 1) < its_size sizes k" "its_size sizes k \<le> its_size sizes (k + 1)"
proof -
  have s: "2 \<le> length sizes" "sorted_wrt (<) (butlast sizes)" "last sizes = last (butlast sizes)"
    using sc by (auto simp: schedule_ok_def)
  have len: "length (butlast sizes) = length sizes - 1" by simp
  have nth: "its_size sizes i = butlast sizes ! i" if "i < length sizes - 1" for i
    using that by (auto simp: its_size_def nth_butlast)
  have last: "its_size sizes (length sizes - 1) = its_size sizes (length sizes - 2)"
  proof -
    have "sizes \<noteq> []" "butlast sizes \<noteq> []" using s(1) by (cases sizes; auto)+
    with s(1,3) show ?thesis by (simp add: its_size_def last_conv_nth nth_butlast numeral_2_eq_2)
  qed
  show k1: "k + 1 < length sizes"
  proof (rule ccontr)
    assume "\<not> k + 1 < length sizes"
    then have "k = length sizes - 1" "k - 1 = length sizes - 2" using k by auto
    with last ne show False by simp
  qed
  have "butlast sizes ! (k - 1) < butlast sizes ! k"
    by (rule sorted_wrt_nth_less [OF s(2)]) (use k k1 len in linarith)+
  then show "its_size sizes (k - 1) < its_size sizes k" using k1 nth [of k] nth [of "k - 1"] by simp
  show "its_size sizes k \<le> its_size sizes (k + 1)"
  proof (cases "k + 1 < length sizes - 1")
    case True
    have "butlast sizes ! k < butlast sizes ! (k + 1)" by (rule sorted_wrt_nth_less [OF s(2)]) (use True in simp_all)
    with True nth [of k] nth [of "k + 1"] show ?thesis by simp
  next
    case False
    then have "k + 1 = length sizes - 1" "k = length sizes - 2" using k1 by auto
    with last show ?thesis by simp
  qed
qed

text \<open>The table with its new slots, before anything is moved.\<close>

lemma grow_start:
  assumes ok: "names_ok addr sizes space None S" and sz: "is_table_size S \<le> sz"
  obtains t1 where
    "grow_rehash addr (is_table_size S)
       (map (ie_index_update (\<lambda>_. 0)) (is_table S) @ replicate (sz - is_table_size S) zero_slot) = Some t1"
    "length t1 = sz" "slots_ok S (is_table_size S) t1 {} {} t1" "moved_hash addr space S {} t1 (is_hash S)"
    "\<forall>i<is_table_size S. \<exists>x. t1 ! i = (is_table S ! i)\<lparr>ie_index := x\<rparr>"
proof -
  let ?t = "is_table S" and ?os = "is_table_size S"
  define t0 where "t0 = map (ie_index_update (\<lambda>_. 0)) ?t @ replicate (sz - ?os) zero_slot"
  note inv = names_okD [OF ok]
  have os: "0 < ?os" using inv(3) by (simp add: table_ok_def)
  have len: "length t0 = sz" using sz by (simp add: t0_def)
  have old: "t0 ! i = (?t ! i)\<lparr>ie_index := 0\<rparr>" if "i < ?os" for i using that by (simp add: t0_def nth_append)
  have fresh: "t0 ! i = zero_slot" if "?os \<le> i" "i < sz" for i using that by (simp add: t0_def nth_append)
  let ?M = "{i. i < ?os \<and> IE_BITS_TYPE (ie_bits (t0 ! i)) = MACH_PORT_TYPE_SEND}"
  have type0: "IE_BITS_TYPE (ie_bits (t0 ! 0)) \<noteq> MACH_PORT_TYPE_SEND"
    using old [OF os] slot0_type [OF inv(3)] by (simp add: MACH_PORT_TYPE_NONE_def type_defs)
  have M: "?M = send_slots None ?t"
  proof (rule set_eqI)
    fix i
    have "i \<noteq> 0" if "IE_BITS_TYPE (ie_bits (t0 ! i)) = MACH_PORT_TYPE_SEND" using that type0 by (metis)
    then show "i \<in> ?M \<longleftrightarrow> i \<in> send_slots None ?t"
      by (auto simp: send_slots_def in_use_def old type_defs)
  qed
  have lh: "local_hash_ok (snd addr) ?t (send_slots None ?t)" using inv(6) by (simp add: hash_ok_def)
  have "inj_on (\<lambda>i. ie_object (t0 ! i)) ?M"
    using local_hash_okD(4) [OF lh] unfolding M
    by (rule inj_on_cong [THEN iffD1, rotated]) (auto simp: old send_slots_def in_use_def)
  moreover have "local_hash_ok (snd addr) t0 {}"
    by (rule local_hash_empty) (use os in \<open>auto simp: t0_def zero_slot_def\<close>)
  ultimately obtain t1 where t1: "grow_rehash addr ?os t0 = Some t1" "reindexed t0 t1"
    "local_hash_ok (snd addr) t1 (send_slots None ?t)"
    using rehash_loop [OF _ type0, of addr ?os] sz len unfolding M by auto
  note R = reindexedD [OF t1(2)]
  have "\<forall>i<?os. \<exists>x. t1 ! i = (?t ! i)\<lparr>ie_index := x\<rparr>"
  proof (intro allI impI)
    fix i assume i: "i < ?os"
    then have "i < length t0" using sz len by simp
    then obtain x where "t1 ! i = (t0 ! i)\<lparr>ie_index := x\<rparr>" using t1(2) unfolding reindexed_def by blast
    then show "\<exists>x. t1 ! i = (?t ! i)\<lparr>ie_index := x\<rparr>" using old [OF i] by auto
  qed
  moreover have "slots_ok S ?os t1 {} {} t1"
  proof (rule slots_okI)
    fix i assume i: "?os \<le> i" "i < length t1" 
    then have "i < length t0" "i < sz" using R(1) len by simp_all
    then show "ie_bits (t1 ! i) = 0 \<and> ie_object (t1 ! i) = IO_NULL \<and> i \<notin> name_index ` {}"
      using R(2,3) [of i] fresh [OF i(1)] by (simp add: zero_slot_def)
  qed (use same_index in simp_all)
  moreover have "moved_hash addr space S {} t1 (is_hash S)"
    using t1(3) inv(6) by (simp add: moved_hash_def moved_sends_def hash_ok_def)
  ultimately show thesis using t1(1) R(1) len by (intro that [of t1]) (simp_all add: t0_def)
qed

text \<open>The grown table: the old slots, the slots of the moved names \<open>D\<close>, and the free new slots.\<close>

definition new_names :: "ipc_names \<Rightarrow> nat \<Rightarrow> mach_port_t set" where
  "new_names S sz = {n\<in>dom (tree_map S). is_table_size S \<le> name_index n \<and> name_index n < sz}"

lemma grown_slots:
  assumes ok: "names_ok addr sizes space None S" and sz: "is_table_size S \<le> length t1"
    and sl: "slots_ok S (is_table_size S) t1 (new_names S (length t1)) D t"
    and old: "\<forall>i<is_table_size S. \<exists>x. t1 ! i = (is_table S ! i)\<lparr>ie_index := x\<rparr>"
    and t': "t' = grow_free (is_table_size S) (length t1) t"
  shows "length t' = length t1" "table_ok None t'"
    "\<And>i. i < is_table_size S \<Longrightarrow> ie_bits (t' ! i) = ie_bits (is_table S ! i)"
    "\<And>i. 0 < i \<Longrightarrow> i < is_table_size S \<Longrightarrow> right_of (t' ! i) = right_of (is_table S ! i)"
    "\<And>n e. n \<in> D \<Longrightarrow> tree_map S n = Some e \<Longrightarrow>
       slot_holds (t' ! name_index n) n e (\<exists>k\<in>new_names S (length t1). k \<notin> D \<and> name_index k = name_index n)"
    "\<And>i. is_table_size S \<le> i \<Longrightarrow> i < length t1 \<Longrightarrow> i \<notin> name_index ` D \<Longrightarrow>
       gen_only (ie_bits (t' ! i)) \<and> i \<notin> name_index ` new_names S (length t1)"
    "\<And>i. in_use None t' i \<longleftrightarrow> in_use None (is_table S) i \<or> i \<in> name_index ` D"
    "\<And>j. ie_object (t' ! j) = ie_object (t ! j)" "\<And>j. ie_index (t' ! j) = ie_index (t ! j)"
proof -
  let ?t = "is_table S" and ?os = "is_table_size S" and ?sz = "length t1"
  note inv = names_okD [OF ok] and s = slots_okD [OF sl] and tok = tree_okD [OF names_okD(4) [OF ok]]
  have os: "0 < ?os" using inv(3) by (simp add: table_ok_def)
  have same: "\<exists>x. t ! i = (?t ! i)\<lparr>ie_index := x\<rparr>" if "i < ?os" for i
    using s(2) [OF that] old that by fastforce
  obtain fl where fl: "chain ?t 0 fl" "distinct fl" "set fl = {k. free_index None ?t k}"
    using table_free_list [OF inv(3)] .
  have fl_lt: "\<forall>k\<in>set fl. 0 < k \<and> k < ?os" unfolding fl(3) by (auto simp: free_index_def)
  have "chain t 0 fl"
  proof (rule chain_cong [OF _ fl(1)])
    fix k assume "k \<in> insert 0 (set fl)"
    then have "k < ?os" using fl_lt os by auto
    with same show "ie_next (t ! k) = ie_next (?t ! k)" by fastforce
  qed
  note g = grow_free_spec [OF this fl_lt os s(1) [symmetric] sz t']
  show len: "length t' = ?sz" using g(2) s(1) by simp
  show obj: "ie_object (t' ! j) = ie_object (t ! j)" and "ie_index (t' ! j) = ie_index (t ! j)" for j by (rule g)+
  have Dn: "\<exists>e. tree_map S n = Some e \<and> IE_BITS_TYPE (ie_bits e) \<noteq> MACH_PORT_TYPE_NONE \<and> ?os \<le> name_index n \<and> name_index n < ?sz"
    if "n \<in> D" for n using that s(5) tok(5) by (fastforce simp: new_names_def)
  show bits: "ie_bits (t' ! i) = ie_bits (?t ! i)" if "i < ?os" for i
    using same [OF that] g(4) [of i] g(5) that sz by (cases "i = 0") auto
  show "right_of (t' ! i) = right_of (?t ! i)" if "0 < i" "i < ?os" for i
    using same [OF that(2)] g(4) [of i] that sz by (auto simp: right_of_def)
  show holds: "slot_holds (t' ! name_index n) n e (\<exists>k\<in>new_names S ?sz. k \<notin> D \<and> name_index k = name_index n)"
    if nD: "n \<in> D" "tree_map S n = Some e" for n e
  proof -
    have h: "slot_holds (t ! name_index n) n e (\<exists>k\<in>new_names S ?sz. k \<notin> D \<and> name_index k = name_index n)"
      by (rule s(3) [OF nD])
    obtain e' where e': "tree_map S n = Some e'" "IE_BITS_TYPE (ie_bits e') \<noteq> MACH_PORT_TYPE_NONE"
      "?os \<le> name_index n" "name_index n < ?sz" using Dn [OF nD(1)] by blast
    then have "IE_BITS_TYPE (ie_bits (t ! name_index n)) \<noteq> MACH_PORT_TYPE_NONE"
      using h nD(2) by (simp add: slot_holds_def)
    then have "ie_bits (t ! name_index n) \<noteq> 0" by (auto simp: field_defs MACH_PORT_TYPE_NONE_def)
    then have "t' ! name_index n = t ! name_index n" using g(4) [of "name_index n"] e'(3,4) os by simp
    with h show ?thesis by simp
  qed
  have zero: "ie_bits (t ! i) = 0 \<longleftrightarrow> i \<notin> name_index ` D" if "?os \<le> i" "i < ?sz" for i
  proof
    assume z: "ie_bits (t ! i) = 0"
    show "i \<notin> name_index ` D"
    proof
      assume "i \<in> name_index ` D"
      then obtain n where n: "n \<in> D" "i = name_index n" by blast
      then obtain e where e: "tree_map S n = Some e" "IE_BITS_TYPE (ie_bits e) \<noteq> MACH_PORT_TYPE_NONE" using Dn by blast
      with s(3) [OF n(1) e(1)] z n(2) show False by (simp add: slot_holds_def field_defs MACH_PORT_TYPE_NONE_def)
    qed
  qed (use s(4) that in blast)
  show fresh: "gen_only (ie_bits (t' ! i)) \<and> i \<notin> name_index ` new_names S ?sz"
    if "?os \<le> i" "i < ?sz" "i \<notin> name_index ` D" for i
    using g(3) [of i] s(4) [OF that] that by simp
  have use: "in_use None t' i \<longleftrightarrow> in_use None ?t i \<or> i \<in> name_index ` D" for i
  proof (cases "i < ?os")
    case True
    then have "i \<notin> name_index ` D" using Dn by fastforce
    with bits [OF True] True sz show ?thesis by (auto simp: in_use_def len)
  next
    case False
    show ?thesis
    proof (cases "i \<in> name_index ` D")
      case True
      then obtain n where n: "n \<in> D" "i = name_index n" by blast
      obtain e where "tree_map S n = Some e" "IE_BITS_TYPE (ie_bits e) \<noteq> MACH_PORT_TYPE_NONE" "i < ?sz"
        using Dn [OF n(1)] n(2) by blast
      moreover have "0 < i" using False os by linarith
      ultimately show ?thesis using holds [OF n(1)] n True by (simp add: in_use_def len slot_holds_def)
    next
      case nD: False
      with False fresh [of i] show ?thesis by (auto simp: in_use_def len)
    qed
  qed
  show "in_use None t' i \<longleftrightarrow> in_use None ?t i \<or> i \<in> name_index ` D" for i by (rule use)
  have free: "free_index None t' i \<longleftrightarrow> free_index None ?t i \<or> ?os \<le> i \<and> i < ?sz \<and> i \<notin> name_index ` D" for i
  proof -
    have "free_index None t' i \<longleftrightarrow> 0 < i \<and> i < ?sz \<and> \<not> in_use None t' i" by (auto simp: free_index_def in_use_def len)
    moreover have "free_index None ?t i \<longleftrightarrow> 0 < i \<and> i < ?os \<and> \<not> in_use None ?t i" by (auto simp: free_index_def in_use_def)
    moreover have "i < ?os \<Longrightarrow> i \<notin> name_index ` D" using Dn by fastforce
    moreover have "in_use None ?t i \<Longrightarrow> i < ?os" by (simp add: in_use_def)
    ultimately show ?thesis using use [of i] sz os by (cases "i < ?os") auto
  qed
  have "distinct (filter (\<lambda>i. ie_bits (t ! i) = 0) [?os..<?sz] @ fl)" using fl(2) fl_lt by auto
  moreover have "set (filter (\<lambda>i. ie_bits (t ! i) = 0) [?os..<?sz] @ fl) = {i. free_index None t' i}"
    unfolding set_append fl(3) free using zero by auto
  ultimately have "\<exists>fl. chain t' 0 fl \<and> distinct fl \<and> set fl = {i. free_index None t' i}" using g(1) by blast
  moreover have "gen_only (ie_bits (t' ! i)) \<and> ie_object (t' ! i) = IO_NULL" if "free_index None t' i" for i
  proof (cases "i < ?os")
    case True
    then have "free_index None ?t i" using that free by auto
    with free_no_collision(2,3) [OF inv(3) this] bits [OF True] same [OF True] obj [of i] show ?thesis by auto
  next
    case False
    then have i: "?os \<le> i" "i < ?sz" "i \<notin> name_index ` D" using that free by (auto simp: free_index_def)
    with fresh [OF i] obj [of i] s(4) [OF i] show ?thesis by simp
  qed
  moreover have "ie_bits (t' ! 0) AND NOT IE_BITS_COLLISION = IE_BITS_GEN_MASK"
    using inv(3) bits [OF os] by (simp add: table_ok_def)
  ultimately show "table_ok None t'" using sz os unfolding table_ok_def len by auto
qed

lemma length_remove_keys:
  assumes "distinct (map fst xs)" "D \<subseteq> fst ` set xs"
  shows "length (filter (\<lambda>p. fst p \<notin> D) xs) = length xs - card D"
proof -
  have "length (filter (\<lambda>p. fst p \<notin> D) xs) = card (fst ` set (filter (\<lambda>p. fst p \<notin> D) xs))"
    using distinct_card [of "map fst (filter (\<lambda>p. fst p \<notin> D) xs)"] assms(1) by (simp add: distinct_map_filter)
  also have "fst ` set (filter (\<lambda>p. fst p \<notin> D) xs) = fst ` set xs - D" by auto
  also have "card (fst ` set xs - D) = card (fst ` set xs) - card D"
    using assms(2) by (intro card_Diff_subset) (auto intro: finite_subset)
  also have "card (fst ` set xs) = length xs" using distinct_card [OF assms(1)] by simp
  finally show ?thesis .
qed

lemma map_of_remove_keys: "map_of (filter (\<lambda>p. fst p \<notin> D) xs) n = (if n \<in> D then None else map_of xs n)"
  by (induction xs) auto

lemma grown_ok:
  assumes ok: "names_ok addr sizes space None S" and k: "is_table_next S + 1 < length sizes"
    and sz: "length t1 = its_size sizes (is_table_next S)" "is_table_size S \<le> length t1"
    and sl: "slots_ok S (is_table_size S) t1 (new_names S (length t1)) D t"
    and old: "\<forall>i<is_table_size S. \<exists>x. t1 ! i = (is_table S ! i)\<lparr>ie_index := x\<rparr>"
    and mh: "moved_hash addr space S D t h"
    and tree: "splay_inv tree" "contents tree = filter (\<lambda>p. fst p \<notin> D) (contents (is_tree S))"
    and S': "is_table S' = grow_free (is_table_size S) (length t1) t" "is_table_next S' = is_table_next S + 1"
      "is_tree S' = tree" "is_tree_total S' = is_tree_total S - card D" "is_hash S' = h"
      "is_tree_small S' = card (name_index ` {n\<in>dom (tree_map S). length t1 \<le> name_index n \<and>
          name_index n < its_size sizes (is_table_next S + 1)})"
      "is_live S' = is_live S"
  shows "names_ok addr sizes space None S'" "names None S' = names None S"
proof -
  let ?t = "is_table S" and ?os = "is_table_size S" and ?sz = "length t1" and ?t' = "is_table S'"
  note inv = names_okD [OF ok] and tok = tree_okD [OF names_okD(4) [OF ok]] and s = slots_okD [OF sl]
  note G = grown_slots [OF ok sz(2) sl old S'(1)]
  have tm: "tree_map S' n = (if n \<in> D then None else tree_map S n)" for n
    by (simp add: tree_map_def S' tree map_of_remove_keys)
  have Dn: "\<exists>e. tree_map S n = Some e \<and> ?os \<le> name_index n \<and> name_index n < ?sz" if "n \<in> D" for n
    using that s(5) by (auto simp: new_names_def)
  have low: "i \<notin> name_index ` D" if "i < ?os" for i using that Dn by fastforce
  have sn_old: "slot_name ?t' i = slot_name ?t i" if "i < ?os" for i using G(3) [OF that] by (simp add: slot_name_def)
  have sn_new: "slot_name ?t' (name_index n) = n" if nD: "n \<in> D" for n
  proof -
    obtain e where "tree_map S n = Some e" using Dn [OF nD] by blast
    with G(5) [OF nD] show ?thesis by (simp add: slot_name_iff slot_holds_def)
  qed
  show "names None S' = names None S"
  proof (rule ext)
    fix n
    show "names None S' n = names None S n"
    proof (cases "n \<in> D")
      case True
      then obtain e where e: "tree_map S n = Some e" "?os \<le> name_index n" using Dn by blast
      then have "names None S n = Some e" by (simp add: names_def in_use_def)
      moreover have "names None S' n = Some e"
        using G(5) [OF True e(1)] True sn_new [OF True] by (simp add: names_def G(7) slot_holds_def)
      ultimately show ?thesis by simp
    next
      case False
      have "in_use None ?t' (name_index n) \<and> slot_name ?t' (name_index n) = n \<longleftrightarrow>
          in_use None ?t (name_index n) \<and> slot_name ?t (name_index n) = n"
      proof (cases "name_index n \<in> name_index ` D")
        case True
        then obtain m where m: "m \<in> D" "name_index m = name_index n" by auto
        then have "slot_name ?t' (name_index n) \<noteq> n" using sn_new [OF m(1)] False by auto
        moreover have "\<not> in_use None ?t (name_index n)" using Dn [OF m(1)] m(2) by (auto simp: in_use_def)
        ultimately show ?thesis by simp
      next
        case nD: False
        show ?thesis using nD sn_old [of "name_index n"] by (auto simp: G(7)) (auto simp: in_use_def)
      qed
      then show ?thesis using False G(4) [of "name_index n"] by (auto simp: names_def tm in_use_def)
    qed
  qed
  have "collisions_ok None S'"
    unfolding collisions_ok_def G(1)
  proof (intro allI impI conjI)
    fix i assume i: "i < ?sz"
    show "test (ie_bits (?t' ! i)) IE_BITS_COLLISION \<longleftrightarrow> (\<exists>n\<in>dom (tree_map S'). name_index n = i)"
    proof (cases "i < ?os")
      case True
      then have "(\<exists>n\<in>dom (tree_map S'). name_index n = i) \<longleftrightarrow> (\<exists>n\<in>dom (tree_map S). name_index n = i)"
        using low [OF True] by (auto simp: tm dom_def)
      with inv(5) True G(3) [OF True] show ?thesis by (simp add: collisions_ok_def)
    next
      case False
      have Z: "(\<exists>n\<in>dom (tree_map S'). name_index n = i) \<longleftrightarrow> (\<exists>n\<in>new_names S ?sz. n \<notin> D \<and> name_index n = i)"
        using False i by (auto simp: tm new_names_def dom_def split: if_splits)
      show ?thesis
      proof (cases "i \<in> name_index ` D")
        case True
        then obtain m where m: "m \<in> D" "name_index m = i" by auto
        obtain e where "tree_map S m = Some e" using Dn [OF m(1)] by blast
        from G(5) [OF m(1) this] show ?thesis unfolding Z m(2) by (simp add: slot_holds_def)
      next
        case nD: False
        with G(6) [of i] False i show ?thesis unfolding Z by auto
      qed
    qed
    assume "in_use None ?t' i \<or> None = Some (In_Table i)"
    then consider "in_use None ?t i" | n where "n \<in> D" "i = name_index n" using G(7) by auto
    then show "tree_map S' (slot_name ?t' i) = None"
    proof cases
      case 1
      then have "i < ?os" by (simp add: in_use_def)
      with 1 inv(5) sn_old show ?thesis by (simp add: collisions_ok_def tm)
    next
      case 2
      then show ?thesis using sn_new by (simp add: tm)
    qed
  qed
  moreover have "tree_ok None S'"
  proof -
    have "D \<subseteq> dom (tree_map S)" using Dn by blast
    then have "D \<subseteq> fst ` set (contents (is_tree S))" by (simp add: tree_map_def dom_map_of_conv_image_fst)
    from length_remove_keys [OF sorted_keys_distinct [OF contents_sorted [OF tok(1)]] this]
    have "is_tree_total S' = length (contents tree)" using tok(2) tree(2) by (simp add: S')
    with tree(1) tok show ?thesis by (auto simp: tree_ok_def S' tm split: if_splits)
  qed
  moreover have "sizes_ok_for sizes S'"
  proof -
    have "small_indices sizes S' = name_index ` {n\<in>dom (tree_map S). ?sz \<le> name_index n \<and>
          name_index n < its_size sizes (is_table_next S + 1)}"
      unfolding small_indices_def G(1) S'(2)
      using Dn by (intro arg_cong [where f = "(`) name_index"]) (fastforce simp: tm split: if_splits)
    with k sz(1) inv(2) show ?thesis by (simp add: sizes_ok_for_def G(1) S'(2,6,7))
  qed
  moreover have "hash_ok addr space None S'"
  proof -
    have ts: "tree_send None S' n obj \<longleftrightarrow> tree_send None S n obj \<and> n \<notin> D" for n obj
      by (auto simp: tree_send_def tm)
    have ss: "send_slots None ?t' = send_slots None ?t \<union> moved_sends S D"
    proof (rule set_eqI)
      fix i
      show "i \<in> send_slots None ?t' \<longleftrightarrow> i \<in> send_slots None ?t \<union> moved_sends S D"
      proof (cases "i < ?os")
        case True
        with low [OF True] G(3) [OF True] show ?thesis by (auto simp: send_slots_def G(7) moved_sends_def)
      next
        case False
        then have old: "\<not> in_use None ?t i" by (simp add: in_use_def)
        have "IE_BITS_TYPE (ie_bits (?t' ! name_index n)) = MACH_PORT_TYPE_SEND \<longleftrightarrow> (\<exists>obj. tree_send None S n obj)"
          if nD: "n \<in> D" for n
        proof -
          obtain e where "tree_map S n = Some e" using Dn [OF nD] by blast
          with G(5) [OF nD] show ?thesis by (simp add: tree_send_entry slot_holds_def)
        qed
        with old show ?thesis by (auto simp: send_slots_def G(7) moved_sends_def)
      qed
    qed
    obtain m where lh: "local_hash_ok (snd addr) t (send_slots None ?t \<union> moved_sends S D)"
      and m: "global_rep addr h m" "\<And>n obj. m (space, obj) = Some n \<longleftrightarrow> tree_send None S n obj \<and> n \<notin> D"
      using mh by (auto simp: moved_hash_def)
    have len: "length ?t' = length t" using G(1) s(1) by simp
    have "local_hash_ok (snd addr) ?t' (send_slots None ?t')"
      unfolding ss by (rule local_hash_ok_cong [OF lh len]) (simp_all add: G(8,9))
    moreover have "\<not> tree_send None S' n (ie_object (?t' ! i))" if "i \<in> send_slots None ?t'" for i n
    proof -
      have t1: "\<forall>i<?os. ie_object (t1 ! i) = ie_object (?t ! i)" using old by fastforce
      show ?thesis
        using moved_objects [OF ok sl t1, of n _ i] that unfolding ss ts G(8) by blast
    qed
    ultimately show ?thesis using m unfolding hash_ok_def ts S'(5) by blast
  qed
  ultimately show "names_ok addr sizes space None S'" using inv(1) G(2) by (simp add: names_ok_def)
qed

lemma grow_to_spec:
  assumes ok: "names_ok addr sizes space None S" and ne: "is_table_size S \<noteq> its_size sizes (is_table_next S)"
  shows "\<exists>S'. grow_to addr sizes space (is_table_next S) S = Some S' \<and> names_ok addr sizes space None S' \<and>
           names None S' = names None S \<and> is_table_next S' = is_table_next S + 1"
proof -
  let ?k = "is_table_next S" and ?os = "is_table_size S"
  note inv = names_okD [OF ok]
  have k: "0 < ?k" "?k < length sizes" "?os = its_size sizes (?k - 1)" using inv(2) by (auto simp: sizes_ok_for_def)
  note st = schedule_step [OF inv(1) k(1,2) ne [unfolded k(3)]]
  have lt: "?os \<le> its_size sizes ?k" using st(2) k(3) by simp
  obtain t1 where t1: "grow_rehash addr ?os
       (map (ie_index_update (\<lambda>_. 0)) (is_table S) @ replicate (its_size sizes ?k - ?os) zero_slot) = Some t1"
    "length t1 = its_size sizes ?k" "slots_ok S ?os t1 {} {} t1" "moved_hash addr space S {} t1 (is_hash S)"
    "\<forall>i<?os. \<exists>x. t1 ! i = (is_table S ! i)\<lparr>ie_index := x\<rparr>"
    by (rule grow_start [OF ok lt])
  have objs: "\<forall>i<?os. ie_object (t1 ! i) = ie_object (is_table S ! i)" using t1(5) by fastforce
  have b: "?os \<le> length t1" "length t1 \<le> its_size sizes (?k + 1)" "its_size sizes (?k + 1) < 2 ^ 24"
    using lt st(3) t1(2) slot_index_bound(1) [OF inv(1) st(1)] by simp_all
  obtain D t h tree where g:
    "grow_tree addr space ?os (length t1) (its_size sizes (?k + 1)) (S\<lparr>is_table := t1, is_table_next := ?k + 1\<rparr>) =
       Some (S\<lparr>is_table := t, is_table_next := ?k + 1, is_tree := tree, is_tree_total := is_tree_total S - card D,
              is_tree_small := card (name_index ` {n\<in>dom (tree_map S). length t1 \<le> name_index n \<and>
                name_index n < its_size sizes (?k + 1)}),
              is_hash := h\<rparr>)"
    "splay_inv tree" "contents tree = filter (\<lambda>p. fst p \<notin> D) (contents (is_tree S))"
    "slots_ok S ?os t1 {n\<in>dom (tree_map S). ?os \<le> name_index n \<and> name_index n < length t1} D t"
    "moved_hash addr space S D t h"
    by (rule grow_tree_spec [OF ok b t1(3,4) objs])
  define S' where "S' = S\<lparr>is_table := grow_free ?os (length t1) t, is_table_next := ?k + 1, is_tree := tree,
      is_tree_total := is_tree_total S - card D,
      is_tree_small := card (name_index ` {n\<in>dom (tree_map S). length t1 \<le> name_index n \<and>
        name_index n < its_size sizes (?k + 1)}), is_hash := h\<rparr>"
  have "grow_to addr sizes space ?k S = Some S'"
    using t1(1) g(1) unfolding grow_to_def Let_def k(3) [symmetric] take_all [OF order_refl] t1(2) [symmetric]
    by (simp add: S'_def)
  moreover have "names_ok addr sizes space None S'" "names None S' = names None S"
    by (rule grown_ok [OF ok st(1) t1(2) b(1) g(4) [folded new_names_def] t1(5) g(5,2,3)]; simp add: S'_def)+
  ultimately show ?thesis by (intro exI [of _ S']) (simp add: S'_def)
qed

section \<open>The whole loop\<close>

lemma grow_table_spec:
  assumes "names_ok addr sizes space None S"
  shows "\<exists>kr S'. ipc_entry_grow_table addr sizes nomem space None S = Some (kr, S') \<and>
           names_ok addr sizes space None S' \<and> names None S' = names None S \<and>
           (if is_table_size S = its_size sizes (is_table_next S) then kr = KERN_NO_SPACE \<and> S' = S
            else if nomem then kr = KERN_RESOURCE_SHORTAGE \<and> S' = S
            else kr = KERN_SUCCESS \<and> is_table_next S < is_table_next S')"
  using assms
proof (induction "length sizes - is_table_next S" arbitrary: S rule: less_induct)
  case less
  note inv = names_okD [OF less.prems]
  have os: "its_size sizes (is_table_next S - Suc 0) = is_table_size S" and k: "is_table_next S < length sizes"
    using inv(2) by (auto simp: sizes_ok_for_def)
  show ?case
  proof (cases "is_table_size S = its_size sizes (is_table_next S) \<or> nomem")
    case True
    with less.prems os show ?thesis by (subst ipc_entry_grow_table.simps) (auto simp: Let_def)
  next
    case False
    then obtain S1 where S1: "grow_to addr sizes space (is_table_next S) S = Some S1"
      "names_ok addr sizes space None S1" "names None S1 = names None S" "is_table_next S1 = is_table_next S + 1"
      using grow_to_spec [OF less.prems] by blast
    let ?again = "0 < is_tree_small S1 \<and>
      (its_size sizes (is_table_next S + 1) - its_size sizes (is_table_next S)) * ENTRY_BYTES <
        is_tree_small S1 * TREE_ENTRY_BYTES"
    have unf: "ipc_entry_grow_table addr sizes nomem space None S =
        (if ?again then ipc_entry_grow_table addr sizes nomem space None S1 else Some (KERN_SUCCESS, S1))"
      using False os S1(1) by (subst ipc_entry_grow_table.simps) (simp add: Let_def)
    show ?thesis
    proof (cases ?again)
      case again: True
      have "is_table_size S1 \<noteq> its_size sizes (is_table_next S1)"
      proof
        assume "is_table_size S1 = its_size sizes (is_table_next S1)"
        then have "small_indices sizes S1 = {}" by (simp add: small_indices_def)
        with again names_okD(2) [OF S1(2)] show False by (simp add: sizes_ok_for_def)
      qed
      moreover have "length sizes - is_table_next S1 < length sizes - is_table_next S" using k S1(4) by simp
      from less.hyps [OF this S1(2)] obtain kr S' where
        "ipc_entry_grow_table addr sizes nomem space None S1 = Some (kr, S')"
        "names_ok addr sizes space None S'" "names None S' = names None S1"
        "if is_table_size S1 = its_size sizes (is_table_next S1) then kr = KERN_NO_SPACE \<and> S' = S1
         else if nomem then kr = KERN_RESOURCE_SHORTAGE \<and> S' = S1
         else kr = KERN_SUCCESS \<and> is_table_next S1 < is_table_next S'" by blast
      ultimately show ?thesis using unf again False S1(3,4) by auto
    next
      case stop: False
      then show ?thesis using unf S1 False by auto
    qed
  qed
qed

end
