(* ===== verification/Entry_Space.thy ===== *)
theory Entry_Space
  imports Entry_Grow
begin

text \<open>
  \<^verbatim>\<open>ipc_entry_alloc\<close> and \<^verbatim>\<open>ipc_entry_alloc_name\<close> as a whole, the reverse lookup, and the
  abstract view of the entry table, the tree and the hash tables together: a map from names to
  rights, of which every operation of \<^verbatim>\<open>ipc_entry.c\<close> and \<^verbatim>\<open>ipc_hash.c\<close> is a step.
\<close>

section \<open>Allocating a name\<close>

definition alloc_error :: "kern_return_t \<Rightarrow> bool" where
  "alloc_error kr \<longleftrightarrow> kr = KERN_NO_SPACE \<or> kr = KERN_RESOURCE_SHORTAGE"

definition fresh_entry :: "addresses \<Rightarrow> nat list \<Rightarrow> space_id \<Rightarrow> ipc_names \<Rightarrow> mach_port_t \<Rightarrow> entry_ref \<Rightarrow> ipc_names \<Rightarrow> bool" where
  "fresh_entry addr sizes space S n ref S' \<longleftrightarrow>
     names_ok addr sizes space (Some ref) S' \<and> names (Some ref) S' = names None S \<and>
     names None S n = None \<and> ref_name S' ref = n \<and>
     (\<exists>e. entry_at S' ref = Some e \<and> IE_BITS_TYPE (ie_bits e) = MACH_PORT_TYPE_NONE)"

lemma grow_alloc_error:
  assumes "names_ok addr sizes space None S"
    and "ipc_entry_grow_table addr sizes nomem space None S = Some (kr, S')"
  shows "names_ok addr sizes space None S'" "names None S' = names None S"
    "kr \<noteq> KERN_SUCCESS \<Longrightarrow> alloc_error kr"
    "kr = KERN_SUCCESS \<Longrightarrow> is_table_next S < is_table_next S' \<and> is_table_next S' < length sizes"
  using grow_table_spec [OF assms(1), of nomem] assms(2) names_okD(2) [of addr sizes space None S']
  by (auto simp: alloc_error_def sizes_ok_for_def split: if_splits)

lemma entry_alloc_spec:
  assumes "names_ok addr sizes space None S"
  shows "\<exists>r S'. ipc_entry_alloc addr sizes nomem space S = Some (r, S') \<and>
           (case r of
              Inl kr \<Rightarrow> alloc_error kr \<and> names_ok addr sizes space None S' \<and> names None S' = names None S
            | Inr (n, j) \<Rightarrow> fresh_entry addr sizes space S n (In_Table j) S' \<and> MACH_PORT_VALID n)"
  using assms
proof (induction "length sizes - is_table_next S" arbitrary: S rule: less_induct)
  case less
  have live: "is_live S" using names_okD(2) [OF less.prems] by (simp add: sizes_ok_for_def)
  show ?case
  proof (cases "ipc_entry_get S")
    case (Inr x)
    then obtain n j S' where g: "ipc_entry_get S = Inr (n, j, S')" by (cases x) auto
    have "ipc_entry_alloc addr sizes nomem space S = Some (Inr (n, j), S')"
      by (subst ipc_entry_alloc.simps) (simp add: g live)
    with entry_get_spec [OF less.prems] g show ?thesis by (auto simp: fresh_entry_def ref_name_def entry_at_def)
  next
    case (Inl e)
    obtain kr S1 where g: "ipc_entry_grow_table addr sizes nomem space None S = Some (kr, S1)"
      using grow_table_spec [OF less.prems] by blast
    note G = grow_alloc_error [OF less.prems g]
    have unf: "ipc_entry_alloc addr sizes nomem space S =
        (if kr \<noteq> KERN_SUCCESS then Some (Inl kr, S1) else ipc_entry_alloc addr sizes nomem space S1)"
      by (subst ipc_entry_alloc.simps) (simp add: Inl g live)
    show ?thesis
    proof (cases "kr = KERN_SUCCESS")
      case False
      with unf G show ?thesis by auto
    next
      case True
      then have "length sizes - is_table_next S1 < length sizes - is_table_next S" using G(4) by linarith
      from less.hyps [OF this G(1)] obtain r S' where "ipc_entry_alloc addr sizes nomem space S1 = Some (r, S')"
        "case r of
              Inl kr \<Rightarrow> alloc_error kr \<and> names_ok addr sizes space None S' \<and> names None S' = names None S1
            | Inr (n, j) \<Rightarrow> fresh_entry addr sizes space S1 n (In_Table j) S' \<and> MACH_PORT_VALID n" by blast
      with unf True G(2) show ?thesis by (auto simp: fresh_entry_def split: sum.splits)
    qed
  qed
qed

section \<open>Allocating a given name\<close>

lemma rip_loop:
  assumes "chain t f (xs @ i # ys)" "i \<notin> set xs"
  shows "free_list_rip i f t =
    Some (upd_slot (last (f # xs)) (ie_request_update (\<lambda>_. ie_next (t ! i))) t)"
  using assms
proof (induction xs arbitrary: f)
  case Nil
  then show ?case by (subst free_list_rip.simps) (simp add: Let_def)
next
  case (Cons x xs)
  then have "free_list_rip i f t = free_list_rip i x t" by (subst free_list_rip.simps) (simp add: Let_def)
  with Cons show ?case by simp
qed

lemma rip_chain:
  assumes "chain t f (xs @ i # ys)" "distinct (f # xs @ i # ys)" "\<forall>k\<in>set (f # xs). k < length t"
    and "t' = upd_slot (last (f # xs)) (ie_request_update (\<lambda>_. ie_next (t ! i))) t"
  shows "chain t' f (xs @ ys)"
  using assms
proof (induction xs arbitrary: f)
  case Nil
  have c: "chain t i ys" using Nil.prems(1) by simp
  have n: "ie_next (t' ! f) = ie_next (t ! i)" using Nil.prems(3,4) by simp
  have "t' ! k = t ! k" if "k \<in> set ys" for k
    using that Nil.prems(2,4) by (cases "k = f") auto
  then have "chain t' f ys" by (intro chain_from [OF c n]) simp
  then show ?case by simp
next
  case (Cons x xs)
  have "chain t' x (xs @ ys)" by (rule Cons.IH) (use Cons.prems in auto)
  moreover have "f \<noteq> last (x # xs)" using Cons.prems(2) by (metis Cons_eq_appendI distinct.simps(2) last_in_set list.discI Un_iff set_append)
  then have "t' ! f = t ! f" using Cons.prems(4) by simp
  ultimately show ?case using Cons.prems(1) by simp
qed

lemma rip_table:
  assumes ok: "table_ok None t" and i: "free_index None t i" and g: "gen_only g"
  obtains t1 t' where "free_list_rip i 0 t = Some t1"
    "t' = upd_slot i (\<lambda>e. e\<lparr>ie_bits := g, ie_request := 0\<rparr>) t1"
    "length t' = length t" "table_ok (Some (In_Table i)) t'" "in_use (Some (In_Table i)) t' = in_use None t"
    "\<forall>k. k \<noteq> i \<longrightarrow> ie_bits (t' ! k) = ie_bits (t ! k)" "ie_bits (t' ! i) = g"
    "\<forall>k. ie_object (t' ! k) = ie_object (t ! k)" "\<forall>k. ie_index (t' ! k) = ie_index (t ! k)"
    "\<forall>k. in_use None t k \<longrightarrow> t' ! k = t ! k"
proof -
  obtain fl where fl: "chain t 0 fl" "distinct fl" "set fl = {k. free_index None t k}"
    using table_free_list [OF ok] .
  obtain xs ys where xy: "fl = xs @ i # ys" using i fl(3) by (metis mem_Collect_eq split_list)
  have lt: "k < length t" "0 < k" if "k \<in> set fl" for k using that unfolding fl(3) by (auto simp: free_index_def)
  have i0: "0 < i" "i < length t" "0 < length t" using i by (auto simp: free_index_def)
  define p where "p = last (0 # xs)"
  define t1 where "t1 = upd_slot p (ie_request_update (\<lambda>_. ie_next (t ! i))) t"
  define t' where "t' = upd_slot i (\<lambda>e. e\<lparr>ie_bits := g, ie_request := 0\<rparr>) t1"
  have dist: "distinct (0 # xs @ i # ys)" using fl(2) lt(2) unfolding xy by auto
  have rip: "free_list_rip i 0 t = Some t1"
    unfolding t1_def p_def by (rule rip_loop) (use fl(1) dist xy in auto)
  have ch: "chain t1 0 (xs @ ys)"
    by (rule rip_chain [OF fl(1) [unfolded xy] dist _ t1_def [unfolded p_def]]) (use lt(1) i0 xy in auto)
  have p: "p \<in> insert 0 (set xs)" unfolding p_def by (cases xs) auto
  then have pi: "p \<noteq> i" "p < length t" using dist lt(1) i0 xy by auto
  have pu: "\<not> in_use None t p" using p fl(3) unfolding xy by (auto simp: in_use_def free_index_def)
  have nth: "t' ! k = (if k = i then (t ! i)\<lparr>ie_bits := g, ie_request := 0\<rparr>
      else if k = p then (t ! p)\<lparr>ie_request := ie_next (t ! i)\<rparr> else t ! k)" for k
    using pi i0 by (auto simp: t'_def t1_def)
  have len: "length t' = length t" by (simp add: t'_def t1_def)
  have bits: "\<forall>k. k \<noteq> i \<longrightarrow> ie_bits (t' ! k) = ie_bits (t ! k)" "ie_bits (t' ! i) = g" by (simp_all add: nth)
  have ob: "\<forall>k. ie_object (t' ! k) = ie_object (t ! k)" "\<forall>k. ie_index (t' ! k) = ie_index (t ! k)" by (simp_all add: nth)
  have use: "in_use (Some (In_Table i)) t' k \<longleftrightarrow> in_use None t k" for k
    using i bits(1) by (cases "k = i") (auto simp: in_use_def len free_index_def)
  have fi: "free_index (Some (In_Table i)) t' k \<longleftrightarrow> free_index None t k \<and> k \<noteq> i" for k
    using bits(1) by (cases "k = i") (auto simp: free_index_def len)
  have "ie_next (t' ! k) = ie_next (t1 ! k)" if "k \<in> insert 0 (set (xs @ ys))" for k
    using that dist by (cases "k = i") (auto simp: t'_def)
  then have "chain t' 0 (xs @ ys)" by (intro chain_cong [OF _ ch])
  moreover have "distinct (xs @ ys)" "set (xs @ ys) = {k. free_index (Some (In_Table i)) t' k}"
    using fl(2,3) unfolding fi xy by auto
  moreover have "\<forall>k. free_index (Some (In_Table i)) t' k \<longrightarrow> gen_only (ie_bits (t' ! k)) \<and> ie_object (t' ! k) = IO_NULL"
    using free_no_collision [OF ok] bits ob by (simp add: fi)
  moreover have "ie_bits (t' ! 0) AND NOT IE_BITS_COLLISION = IE_BITS_GEN_MASK"
    using ok bits(1) i0 by (simp add: table_ok_def)
  ultimately have "table_ok (Some (In_Table i)) t'" using i0 unfolding table_ok_def len by blast
  moreover have "\<forall>k. in_use None t k \<longrightarrow> t' ! k = t ! k" using pu i by (auto simp: nth in_use_def free_index_def)
  ultimately show thesis using rip len use bits ob by (intro that [OF rip t'_def]) auto
qed

lemma take_free_spec:
  assumes ok: "names_ok addr sizes space None S" and i: "free_index None (is_table S) (name_index n)"
  shows "\<exists>t1. free_list_rip (name_index n) 0 (is_table S) = Some t1 \<and>
     fresh_entry addr sizes space S n (In_Table (name_index n))
       (S\<lparr>is_table := upd_slot (name_index n) (\<lambda>e. e\<lparr>ie_bits := MACH_PORT_GEN n, ie_request := 0\<rparr>) t1\<rparr>)"
proof -
  obtain t1 t' where r: "free_list_rip (name_index n) 0 (is_table S) = Some t1"
    "t' = upd_slot (name_index n) (\<lambda>e. e\<lparr>ie_bits := MACH_PORT_GEN n, ie_request := 0\<rparr>) t1"
    "length t' = is_table_size S" "table_ok (Some (In_Table (name_index n))) t'"
    "in_use (Some (In_Table (name_index n))) t' = in_use None (is_table S)"
    "\<forall>k. k \<noteq> name_index n \<longrightarrow> ie_bits (t' ! k) = ie_bits (is_table S ! k)" "ie_bits (t' ! name_index n) = MACH_PORT_GEN n"
    "\<forall>k. ie_object (t' ! k) = ie_object (is_table S ! k)" "\<forall>k. ie_index (t' ! k) = ie_index (is_table S ! k)"
    "\<forall>k. in_use None (is_table S) k \<longrightarrow> t' ! k = is_table S ! k"
    by (rule rip_table [OF names_okD(3) [OF ok] i gen_only_simps(1) [of n]])
  have "fresh_entry addr sizes space S n (In_Table (name_index n)) (S\<lparr>is_table := t'\<rparr>)"
    using taken_ok [OF ok i gen_only_simps(1) [of n] r(3-5)] r(6-10)
    by (simp add: fresh_entry_def ref_name_def make_name_of entry_at_def)
  with r(1,2) show ?thesis by blast
qed

text \<open>A new node of the tree, with the collision bit or \<^verbatim>\<open>is_tree_small\<close> adjusted.\<close>

abbreviation blank_entry :: ipc_entry where
  "blank_entry \<equiv> \<lparr>ie_bits = 0, ie_object = IO_NULL, ie_request = 0\<rparr>"

lemma name_insert_shape:
  assumes ok: "names_ok addr sizes space None S" and n: "tree_map S n = None"
  obtains tree c where
    "alloc_name_insert sizes n S =
       S\<lparr>is_tree := tree, is_tree_total := is_tree_total S + 1,
         is_table := (if name_index n < is_table_size S
                      then upd_slot (name_index n) (ie_bits_update (\<lambda>b. b OR IE_BITS_COLLISION)) (is_table S)
                      else is_table S),
         is_tree_small := is_tree_small S +
           (if is_table_size S \<le> name_index n \<and> name_index n < its_size sizes (is_table_next S) \<and> \<not> c
            then 1 else 0)\<rparr>"
    "splay_inv tree" "contents tree = insert_key n blank_entry (contents (is_tree S))"
    "c \<longleftrightarrow> (\<exists>m\<in>dom (tree_map S). name_index m = name_index n)"
proof -
  note tok = tree_okD [OF names_okD(4) [OF ok]]
  obtain tree c where tc: "ipc_entry_tree_collision (is_tree S) n = (tree, c)" by force
  have "\<forall>m\<in>dom (map_of (contents (is_tree S))). MACH_PORT_VALID m" using tok(4) by (auto simp: tree_map_def)
  note col = tree_collision_spec [OF tok(1) this tc]
  have n': "map_of (contents (is_tree S)) n = None" "map_of (contents tree) n = None"
    using n col(2) by (simp_all add: tree_map_def)
  note i1 = insert_spec [OF tok(1) n'(1), of blank_entry] and i2 = insert_spec [OF col(1) n'(2), of blank_entry]
  let ?small = "is_table_size S \<le> name_index n \<and> name_index n < its_size sizes (is_table_next S)"
  show thesis
  proof (cases ?small)
    case True
    show thesis
      by (rule that [where tree = "ipc_splay_tree_insert tree n blank_entry" and c = c])
         (use True i2 col in \<open>auto simp: alloc_name_insert_def Let_def tc tree_map_def\<close>)
  next
    case False
    show thesis
      by (rule that [where tree = "ipc_splay_tree_insert (is_tree S) n blank_entry" and c = c])
         (use False i1 col in \<open>auto simp: alloc_name_insert_def Let_def tree_map_def\<close>)
  qed
qed

lemma small_indices_added:
  assumes "tree_map S' = (tree_map S)(n \<mapsto> e)" "is_table_size S' = is_table_size S"
    "is_table_next S' = is_table_next S"
  shows "card (small_indices sizes S') = card (small_indices sizes S) +
     (if is_table_size S \<le> name_index n \<and> name_index n < its_size sizes (is_table_next S) \<and>
         \<not> (\<exists>m\<in>dom (tree_map S). name_index m = name_index n) then 1 else 0)"
proof -
  let ?R = "\<lambda>i. is_table_size S \<le> i \<and> i < its_size sizes (is_table_next S)"
  have "small_indices sizes S' = (if ?R (name_index n) then insert (name_index n) (small_indices sizes S)
      else small_indices sizes S)"
    by (auto simp: small_indices_def assms image_iff)
  moreover have "name_index n \<in> small_indices sizes S \<longleftrightarrow>
      ?R (name_index n) \<and> (\<exists>m\<in>dom (tree_map S). name_index m = name_index n)"
    by (auto simp: small_indices_def image_iff)
  ultimately show ?thesis by (auto simp: insert_absorb)
qed

lemma set_collision_table:
  assumes "table_ok None t" "i < length t" "\<not> free_index None t i"
    and t': "t' = upd_slot i (ie_bits_update (\<lambda>b. b OR IE_BITS_COLLISION)) t"
  shows "table_ok (Some (In_Tree n)) t'" "in_use (Some (In_Tree n)) t' = in_use None t" "length t' = length t"
    "\<And>k. slot_name t' k = slot_name t k" "\<And>k. right_of (t' ! k) = right_of (t ! k)"
    "\<And>k. IE_BITS_TYPE (ie_bits (t' ! k)) = IE_BITS_TYPE (ie_bits (t ! k))"
    "\<And>k. test (ie_bits (t' ! k)) IE_BITS_COLLISION \<longleftrightarrow> k = i \<or> test (ie_bits (t ! k)) IE_BITS_COLLISION"
    "\<And>k. ie_object (t' ! k) = ie_object (t ! k)" "\<And>k. ie_index (t' ! k) = ie_index (t ! k)"
proof -
  have nth: "t' ! k = (if k = i then (t ! i)\<lparr>ie_bits := ie_bits (t ! i) OR IE_BITS_COLLISION\<rparr> else t ! k)" for k
    using assms(2) by (auto simp: t')
  show len: "length t' = length t" by (simp add: t')
  show type: "IE_BITS_TYPE (ie_bits (t' ! k)) = IE_BITS_TYPE (ie_bits (t ! k))" for k
    by (simp add: nth set_collision)
  show "slot_name t' k = slot_name t k" for k by (simp add: slot_name_def nth set_collision)
  show "right_of (t' ! k) = right_of (t ! k)" for k by (simp add: right_of_def nth set_collision)
  show "test (ie_bits (t' ! k)) IE_BITS_COLLISION \<longleftrightarrow> k = i \<or> test (ie_bits (t ! k)) IE_BITS_COLLISION" for k
    by (auto simp: nth set_collision)
  show obj: "ie_object (t' ! k) = ie_object (t ! k)" "ie_index (t' ! k) = ie_index (t ! k)" for k
    by (simp_all add: nth)
  show "in_use (Some (In_Tree n)) t' = in_use None t" by (auto simp: in_use_def len type fun_eq_iff)
  have fi: "free_index (Some (In_Tree n)) t' = free_index None t" by (auto simp: free_index_def len type fun_eq_iff)
  obtain fl where fl: "chain t 0 fl" "distinct fl" "set fl = {k. free_index None t k}"
    using table_free_list [OF assms(1)] .
  have "chain t' 0 fl" by (rule chain_cong [OF _ fl(1)]) (simp add: nth)
  moreover have "\<forall>k. free_index None t k \<longrightarrow> gen_only (ie_bits (t' ! k)) \<and> ie_object (t' ! k) = IO_NULL"
    using free_no_collision [OF assms(1)] assms(3) by (auto simp: nth)
  moreover have "ie_bits (t' ! 0) AND NOT IE_BITS_COLLISION = IE_BITS_GEN_MASK"
  proof -
    have "ie_bits (t ! 0) AND NOT IE_BITS_COLLISION = IE_BITS_GEN_MASK" using assms(1) by (simp add: table_ok_def)
    then show ?thesis by (auto simp: nth bit.conj_disj_distrib2 mask_defs)
  qed
  ultimately show "table_ok (Some (In_Tree n)) t'"
    using assms(1) fl(2,3) unfolding table_ok_def len fi by auto
qed

lemma name_insert_spec:
  assumes ok: "names_ok addr sizes space None S" and n: "names None S n = None"
    and valid: "MACH_PORT_VALID n" and busy: "\<not> free_index None (is_table S) (name_index n)"
  shows "fresh_entry addr sizes space S n (In_Tree n) (alloc_name_insert sizes n S)"
proof -
  let ?P = "Some (In_Tree n)" and ?t = "is_table S" and ?i = "name_index n"
  note inv = names_okD [OF ok] and tok = tree_okD [OF names_okD(4) [OF ok]]
  have tn: "tree_map S n = None" and un: "\<not> (in_use None ?t ?i \<and> slot_name ?t ?i = n)"
    using n by (auto simp: names_def split: if_splits)
  obtain tree c where shape: "alloc_name_insert sizes n S =
       S\<lparr>is_tree := tree, is_tree_total := is_tree_total S + 1,
         is_table := (if ?i < is_table_size S
                      then upd_slot ?i (ie_bits_update (\<lambda>b. b OR IE_BITS_COLLISION)) ?t else ?t),
         is_tree_small := is_tree_small S +
           (if is_table_size S \<le> ?i \<and> ?i < its_size sizes (is_table_next S) \<and> \<not> c then 1 else 0)\<rparr>"
    "splay_inv tree" "contents tree = insert_key n blank_entry (contents (is_tree S))"
    "c \<longleftrightarrow> (\<exists>m\<in>dom (tree_map S). name_index m = ?i)"
    by (rule name_insert_shape [OF ok tn])
  define S' where "S' = alloc_name_insert sizes n S"
  let ?t' = "is_table S'"
  have fields: "is_tree S' = tree" "is_tree_total S' = is_tree_total S + 1" "is_hash S' = is_hash S"
    "is_table_next S' = is_table_next S" "is_tree_small S' = is_tree_small S +
       (if is_table_size S \<le> ?i \<and> ?i < its_size sizes (is_table_next S) \<and> \<not> c then 1 else 0)"
    "is_live S' = is_live S"
    by (simp_all add: S'_def shape(1))
  have tm: "tree_map S' = (tree_map S)(n \<mapsto> blank_entry)" by (simp add: tree_map_def fields shape(3))
  have T: "table_ok ?P ?t'" "in_use ?P ?t' = in_use None ?t" "length ?t' = length ?t"
    "\<And>k. slot_name ?t' k = slot_name ?t k" "\<And>k. right_of (?t' ! k) = right_of (?t ! k)"
    "\<And>k. IE_BITS_TYPE (ie_bits (?t' ! k)) = IE_BITS_TYPE (ie_bits (?t ! k))"
    "\<And>k. test (ie_bits (?t' ! k)) IE_BITS_COLLISION \<longleftrightarrow>
        k = ?i \<and> k < length ?t \<or> test (ie_bits (?t ! k)) IE_BITS_COLLISION"
    "\<And>k. ie_object (?t' ! k) = ie_object (?t ! k)" "\<And>k. ie_index (?t' ! k) = ie_index (?t ! k)"
  proof -
    consider "?i < length ?t" "?t' = upd_slot ?i (ie_bits_update (\<lambda>b. b OR IE_BITS_COLLISION)) ?t"
      | "\<not> ?i < length ?t" "?t' = ?t"
      by (cases "?i < length ?t") (auto simp: S'_def shape(1))
    note cs = this
    note cl = set_collision_table [OF inv(3) _ busy]
    show "table_ok ?P ?t'" "in_use ?P ?t' = in_use None ?t" "length ?t' = length ?t"
      by (cases rule: cs; use cl inv(3) in \<open>simp add: pending_in_tree\<close>)+
    show "slot_name ?t' k = slot_name ?t k" "right_of (?t' ! k) = right_of (?t ! k)"
      "IE_BITS_TYPE (ie_bits (?t' ! k)) = IE_BITS_TYPE (ie_bits (?t ! k))"
      "test (ie_bits (?t' ! k)) IE_BITS_COLLISION \<longleftrightarrow>
        k = ?i \<and> k < length ?t \<or> test (ie_bits (?t ! k)) IE_BITS_COLLISION"
      "ie_object (?t' ! k) = ie_object (?t ! k)" "ie_index (?t' ! k) = ie_index (?t ! k)" for k
      by (cases rule: cs; use cl(4-9) in \<open>force simp: pending_in_tree\<close>)+
  qed
  have nm: "names ?P S' = names None S"
    using T(2,4,5) n by (intro ext) (auto simp: names_def tm)
  have "collisions_ok ?P S'"
    unfolding collisions_ok_def T(3,4)
  proof (intro allI impI conjI)
    fix k assume k: "k < is_table_size S"
    have "(\<exists>m\<in>dom (tree_map S'). name_index m = k) \<longleftrightarrow> k = ?i \<or> (\<exists>m\<in>dom (tree_map S). name_index m = k)"
      unfolding tm by auto
    with k inv(5) T(7) [of k]
    show "test (ie_bits (?t' ! k)) IE_BITS_COLLISION \<longleftrightarrow> (\<exists>m\<in>dom (tree_map S'). name_index m = k)"
      by (auto simp: collisions_ok_def)
    assume "in_use ?P ?t' k \<or> ?P = Some (In_Table k)"
    then have use: "in_use None ?t k" using T(2) by simp
    have "slot_name ?t k \<noteq> n"
    proof
      assume s: "slot_name ?t k = n"
      then have "?i = k" using table_size_bound(2) [OF ok k] by auto
      with s use un show False by simp
    qed
    with use k inv(5) show "tree_map S' (slot_name ?t k) = None" by (simp add: collisions_ok_def tm)
  qed
  moreover have "tree_ok ?P S'"
    using tok shape(2,3) valid by (auto simp: tree_ok_def fields tm right_only_def)
  moreover have "sizes_ok_for sizes S'"
    using inv(2) small_indices_added [OF tm T(3) fields(4), of sizes, folded shape(4), symmetric]
    by (simp add: sizes_ok_for_def T(3) fields(4,5,6))
  moreover have "hash_ok addr space ?P S'"
  proof -
    have ss: "send_slots ?P ?t' = send_slots None ?t" using T(2,6) by (intro send_slots_cong) auto
    have "tree_send ?P S' = tree_send None S" using tn by (auto simp: tree_send_def tm fun_eq_iff)
    moreover have "local_hash_ok (snd addr) ?t' (send_slots None ?t)"
      by (rule local_hash_ok_cong [of _ ?t]) (use inv(6) in \<open>simp_all add: hash_ok_def T(3,8,9)\<close>)
    ultimately show ?thesis using inv(6) by (simp add: hash_ok_def ss T(8) fields(3))
  qed
  ultimately have "names_ok addr sizes space ?P S'" using inv(1) T(1) by (simp add: names_ok_def)
  moreover have "entry_at S' (In_Tree n) = Some blank_entry" by (simp add: entry_at_def tm)
  ultimately show ?thesis using nm n by (simp add: S'_def fresh_entry_def ref_name_def)
qed

lemma names_typed:
  assumes ok: "names_ok addr sizes space None S"
  shows "in_use None (is_table S) (name_index n) \<and> slot_name (is_table S) (name_index n) = n \<Longrightarrow>
      typed_ref S (In_Table (name_index n)) (right_of (is_table S ! name_index n)) \<and>
      names None S n = Some (right_of (is_table S ! name_index n)) \<and> ref_name S (In_Table (name_index n)) = n"
    "tree_map S n = Some e \<Longrightarrow> typed_ref S (In_Tree n) e \<and> names None S n = Some e \<and> ref_name S (In_Tree n) = n"
proof -
  show "in_use None (is_table S) (name_index n) \<and> slot_name (is_table S) (name_index n) = n \<Longrightarrow>
      typed_ref S (In_Table (name_index n)) (right_of (is_table S ! name_index n)) \<and>
      names None S n = Some (right_of (is_table S ! name_index n)) \<and> ref_name S (In_Table (name_index n)) = n"
    by (auto simp: typed_ref_def entry_at_def in_use_def names_def ref_name_def)
  assume e: "tree_map S n = Some e"
  have "\<not> (in_use None (is_table S) (name_index n) \<and> slot_name (is_table S) (name_index n) = n)"
    using names_okD(5) [OF ok] e by (auto simp: collisions_ok_def in_use_def)
  with e tree_okD(5) [OF names_okD(4) [OF ok] e]
  show "typed_ref S (In_Tree n) e \<and> names None S n = Some e \<and> ref_name S (In_Tree n) = n"
    by (auto simp: typed_ref_def entry_at_def names_def ref_name_def)
qed

definition found_entry :: "addresses \<Rightarrow> nat list \<Rightarrow> space_id \<Rightarrow> ipc_names \<Rightarrow> mach_port_t \<Rightarrow> entry_ref \<Rightarrow> ipc_names \<Rightarrow> bool" where
  "found_entry addr sizes space S n ref S' \<longleftrightarrow>
     names_ok addr sizes space None S' \<and> names None S' = names None S \<and> ref_name S' ref = n \<and>
     (\<exists>e. names None S n = Some e \<and> typed_ref S' ref e)"

definition name_result :: "addresses \<Rightarrow> nat list \<Rightarrow> space_id \<Rightarrow> ipc_names \<Rightarrow> mach_port_t \<Rightarrow> kern_return_t + entry_ref \<Rightarrow> ipc_names \<Rightarrow> bool" where
  "name_result addr sizes space S n r S' =
     (case r of
        Inl kr \<Rightarrow> alloc_error kr \<and> names_ok addr sizes space None S' \<and> names None S' = names None S \<and>
                  names None S n = None
      | Inr ref \<Rightarrow> found_entry addr sizes space S n ref S' \<or> fresh_entry addr sizes space S n ref S')"

lemma name_result_cong:
  "names None S = names None S1 \<Longrightarrow> name_result addr sizes space S n r S' = name_result addr sizes space S1 n r S'"
  by (simp add: name_result_def found_entry_def fresh_entry_def split: sum.splits)

lemma alloc_name_spec:
  assumes "names_ok addr sizes space None S" and valid: "MACH_PORT_VALID n"
  shows "\<exists>r S'. alloc_name_loop addr sizes nomem space n tree_entry S = Some (r, S') \<and>
           name_result addr sizes space S n r S'"
  using assms(1)
proof (induction "2 * (length sizes - is_table_next S) + (if tree_entry then 0 else 1)"
    arbitrary: S tree_entry rule: less_induct)
  case less
  let ?i = "name_index n" and ?t = "is_table S"
  note ok = less.prems and inv = names_okD [OF less.prems]
  have live: "is_live S" using inv(2) by (simp add: sizes_ok_for_def)
  let ?tab = "0 < ?i \<and> ?i < is_table_size S"
  consider (here) "in_use None ?t ?i" "slot_name ?t ?i = n" | (free) "free_index None ?t ?i"
    | (other) "\<not> (in_use None ?t ?i \<and> slot_name ?t ?i = n)" "\<not> free_index None ?t ?i" by blast
  then show ?case
  proof cases
    case here
    then have "alloc_name_loop addr sizes nomem space n tree_entry S = Some (Inr (In_Table ?i), S)"
      by (subst alloc_name_loop.simps) (simp add: in_use_def slot_name_iff live)
    with names_typed(1) [OF ok] here ok show ?thesis by (auto simp: name_result_def found_entry_def)
  next
    case free
    then obtain t1 where t1: "free_list_rip ?i 0 ?t = Some t1" "fresh_entry addr sizes space S n (In_Table ?i)
       (S\<lparr>is_table := upd_slot ?i (\<lambda>e. e\<lparr>ie_bits := MACH_PORT_GEN n, ie_request := 0\<rparr>) t1\<rparr>)"
      using take_free_spec [OF ok] by blast
    have "alloc_name_loop addr sizes nomem space n tree_entry S = Some (Inr (In_Table ?i),
       S\<lparr>is_table := upd_slot ?i (\<lambda>e. e\<lparr>ie_bits := MACH_PORT_GEN n, ie_request := 0\<rparr>) t1\<rparr>)"
      using free by (subst alloc_name_loop.simps) (simp add: free_index_def t1(1) Let_def live)
    with t1(2) show ?thesis by (auto simp: name_result_def)
  next
    case other
    obtain tree where tl: "tree_lookup S n = (if tree_map S n = None then None else Some (In_Tree n),
      S\<lparr>is_tree := tree\<rparr>)" "splay_inv tree" "contents tree = contents (is_tree S)"
      using tree_lookup_spec [OF ok] by blast
    define S1 where "S1 = (if 0 < is_tree_total S then S\<lparr>is_tree := tree\<rparr> else S)"
    have S1: "names_ok addr sizes space None S1" "names None S1 = names None S" "tree_map S1 = tree_map S"
      "is_table S1 = is_table S" "is_table_next S1 = is_table_next S"
      using names_ok_reorganise [OF ok tl(2,3)] ok by (simp_all add: S1_def)
    have empty: "tree_map S n = None" if "\<not> 0 < is_tree_total S"
      using that inv(4) by (simp add: tree_ok_def tree_map_def)
    let ?its = "is_table_next S1"
    let ?grow = "is_table_size S1 \<le> ?i \<and> ?i < its_size sizes ?its \<and>
      (its_size sizes ?its - is_table_size S1) * ENTRY_BYTES < (is_tree_small S1 + 1) * TREE_ENTRY_BYTES"
    have notab: "\<not> (?tab \<and> IE_BITS_TYPE (ie_bits (?t ! ?i)) \<noteq> MACH_PORT_TYPE_NONE \<and>
        IE_BITS_GEN (ie_bits (?t ! ?i)) = MACH_PORT_GEN n)"
      "\<not> (?tab \<and> IE_BITS_TYPE (ie_bits (?t ! ?i)) = MACH_PORT_TYPE_NONE)"
      using other by (auto simp: in_use_def free_index_def slot_name_iff)
    have lk: "(if 0 < is_tree_total S then tree_lookup S n else (None, S)) =
        (if tree_map S n = None then None else Some (In_Tree n), S1)"
      using tl(1) empty by (auto simp: S1_def)
    have unf: "alloc_name_loop addr sizes nomem space n tree_entry S =
        (if tree_map S n \<noteq> None then Some (Inr (In_Tree n), S1)
         else if ?grow then Option.bind (ipc_entry_grow_table addr sizes nomem space None S1) (\<lambda>(kr, S).
                if kr \<noteq> KERN_SUCCESS then Some (Inl kr, S)
                else alloc_name_loop addr sizes nomem space n tree_entry S)
         else if tree_entry then Some (Inr (In_Tree n), alloc_name_insert sizes n S1)
         else if nomem then Some (Inl KERN_RESOURCE_SHORTAGE, S1)
         else alloc_name_loop addr sizes nomem space n True S1)"
      by (cases "tree_map S n"; subst alloc_name_loop.simps; simp only: Let_def live not_True_eq_False notab lk if_False prod.case; simp)
    show ?thesis
    proof (cases "tree_map S n")
      case (Some e)
      with names_typed(2) [OF S1(1), of n e] S1 show ?thesis
        unfolding unf by (auto simp: name_result_def found_entry_def)
    next
      case None
      then have none: "names None S n = None" using other(1) by (auto simp: names_def)
      show ?thesis
      proof (cases ?grow)
        case True
        obtain kr S2 where g: "ipc_entry_grow_table addr sizes nomem space None S1 = Some (kr, S2)"
          using grow_table_spec [OF S1(1)] by blast
        note G = grow_alloc_error [OF S1(1) g]
        show ?thesis
        proof (cases "kr = KERN_SUCCESS")
          case False
          with None True g G none S1(2) show ?thesis unfolding unf by (auto simp: name_result_def)
        next
          case succ: True
          then have "length sizes - is_table_next S2 < length sizes - is_table_next S" using G(4) S1(5) by linarith
          then have "2 * (length sizes - is_table_next S2) + (if tree_entry then 0 else 1) <
              2 * (length sizes - is_table_next S) + (if tree_entry then 0 else 1 :: nat)" by simp
          from less.hyps [OF this G(1)] obtain r S' where
            "alloc_name_loop addr sizes nomem space n tree_entry S2 = Some (r, S')"
            "name_result addr sizes space S2 n r S'" by blast
          moreover have "names None S2 = names None S" using G(2) S1(2) by simp
          ultimately show ?thesis
            unfolding unf using None True g succ name_result_cong [of S2 S] by simp
        qed
      next
        case False
        show ?thesis
        proof (cases "tree_entry")
          case True
          have "fresh_entry addr sizes space S1 n (In_Tree n) (alloc_name_insert sizes n S1)"
            by (rule name_insert_spec [OF S1(1) _ valid]) (use none other(2) S1(2,4) in simp_all)
          then have "fresh_entry addr sizes space S n (In_Tree n) (alloc_name_insert sizes n S1)"
            using S1(2) by (simp add: fresh_entry_def)
          then show ?thesis unfolding unf using None False True by (auto simp: name_result_def)
        next
          case te: False
          show ?thesis
          proof (cases nomem)
            case True
            with None False te none S1 show ?thesis
              unfolding unf by (auto simp: name_result_def alloc_error_def)
          next
            case mem: False
            have "2 * (length sizes - is_table_next S1) + (if True then 0 else 1) <
              2 * (length sizes - is_table_next S) + (if tree_entry then 0 else 1 :: nat)" using te S1(5) by simp
            from less.hyps [OF this S1(1)] obtain r S' where
              "alloc_name_loop addr sizes nomem space n True S1 = Some (r, S')"
              "name_result addr sizes space S1 n r S'" by blast
            then show ?thesis
              unfolding unf if_not_P [OF False] using None te mem name_result_cong [OF S1(2)] by simp
          qed
        qed
      qed
    qed
  qed
qed

end
