(* ===== verification/Space_Names.thy ===== *)
theory Space_Names
  imports Entry_Space
begin

text \<open>
  A space as a map from names to rights: the operations that \<^verbatim>\<open>ipc_object.c\<close> and \<^verbatim>\<open>ipc_right.c\<close>
  compose from \<^verbatim>\<open>ipc_entry.c\<close> and \<^verbatim>\<open>ipc_hash.c\<close>, the steps of the abstract map they implement, and
  the spaces that can arise from \<^verbatim>\<open>ipc_space_create\<close>.
\<close>

section \<open>Lookups\<close>

lemma lookup_ref_shape:
  assumes t: "table_ok None (is_table S)" and l: "ipc_entry_lookup S n = (Some ref, S')"
  shows "ref = In_Table (name_index n) \<and> S' = S \<and> in_use None (is_table S) (name_index n) \<and>
           slot_name (is_table S) (name_index n) = n \<or> ref = In_Tree n"
proof (cases "name_index n < is_table_size S \<and> IE_BITS_GEN (ie_bits (is_table S ! name_index n)) = MACH_PORT_GEN n")
  case True
  then have "IE_BITS_TYPE (ie_bits (is_table S ! name_index n)) \<noteq> MACH_PORT_TYPE_NONE"
    "ref = In_Table (name_index n)" "S' = S" using l by (auto simp: ipc_entry_lookup_def Let_def split: if_splits)
  moreover from this(1) have "name_index n \<noteq> 0" using slot0_type [OF t] by metis
  ultimately show ?thesis using True by (simp add: in_use_def slot_name_iff)
next
  case False
  have "m = In_Tree n" if "tree_lookup S n = (Some m, S')" for m
    using that by (auto simp: tree_lookup_def split: prod.splits)
  with False l show ?thesis by (auto simp: ipc_entry_lookup_def Let_def split: if_splits)
qed

lemma entry_lookup_ref:
  assumes ok: "names_ok addr sizes space None S" and "n \<noteq> 255" and l: "ipc_entry_lookup S n = (r, S')"
  shows "case r of
           None \<Rightarrow> names_ok addr sizes space None S' \<and> names None S' = names None S \<and> names None S n = None
         | Some ref \<Rightarrow> found_entry addr sizes space S n ref S'"
proof -
  have c: "names_ok addr sizes space None S' \<and> names None S' = names None S \<and>
         (case r of None \<Rightarrow> names None S n = None
          | Some ref \<Rightarrow> entry_at S' ref = names None S n \<and> names None S n \<noteq> None)"
    by (rule lookup_spec_names [OF assms])
  show ?thesis
  proof (cases r)
    case None
    with c show ?thesis by simp
  next
    case (Some ref)
    from c Some have c': "names_ok addr sizes space None S'" "names None S' = names None S"
      "entry_at S' ref = names None S n" "names None S n \<noteq> None" by auto
    from l Some consider "ref = In_Table (name_index n)" "S' = S" "in_use None (is_table S) (name_index n)"
        "slot_name (is_table S) (name_index n) = n" | "ref = In_Tree n"
      using lookup_ref_shape [OF names_okD(3) [OF ok]] by blast
    then show ?thesis
    proof cases
      case 1
      with names_typed(1) [OF ok] ok Some show ?thesis by (auto simp: found_entry_def)
    next
      case 2
      then obtain e where "tree_map S' n = Some e" using c'(3,4) by (auto simp: entry_at_def)
      from names_typed(2) [OF c'(1) this] c' 2 Some show ?thesis by (auto simp: found_entry_def)
    qed
  qed
qed

lemma hash_lookup_spec:
  assumes ok: "names_ok addr sizes space None S"
  shows "\<exists>r S'. ipc_hash_lookup addr space obj S = Some (r, S') \<and>
           names_ok addr sizes space None S' \<and> names None S' = names None S \<and>
           (case r of None \<Rightarrow> \<not> (\<exists>n. sends (names None S) n obj)
            | Some (n, ref) \<Rightarrow> sends (names None S) n obj \<and> ref_name S' ref = n)"
proof -
  let ?t = "is_table S" and ?M = "send_slots None (is_table S)"
  have core: "core_ok sizes None S" and h: "hash_ok addr space None S" using ok by (simp_all add: names_ok_core)
  obtain m where lh: "local_hash_ok (snd addr) ?t ?M" and m: "global_rep addr (is_hash S) m"
    "\<And>n obj. m (space, obj) = Some n \<longleftrightarrow> tree_send None S n obj"
    and sep: "\<And>i n. i \<in> ?M \<Longrightarrow> \<not> tree_send None S n (ie_object (?t ! i))"
    using h by (auto simp: hash_ok_def)
  note sn = sends_names [OF core]
  show ?thesis
  proof (cases "\<exists>i\<in>?M. ie_object (?t ! i) = obj")
    case True
    then obtain i where i: "i \<in> ?M" "ie_object (?t ! i) = obj" by blast
    then have "i < 2 ^ 24" using table_size_bound(2) [OF ok] by (auto simp: send_slots_def in_use_def)
    then have "sends (names None S) (slot_name ?t i) obj" using i sn by simp
    moreover have "ipc_hash_lookup addr space obj S = Some (Some (slot_name ?t i, In_Table i), S)"
      using local_lookup_spec(2) [OF lh i] by (simp add: ipc_hash_lookup_def MACH_PORT_MAKEB_def slot_name_def)
    ultimately show ?thesis using ok by (auto simp: ref_name_def)
  next
    case False
    then have none: "ipc_hash_local_lookup (snd addr) ?t obj = Some None" using local_lookup_spec(3) [OF lh] by blast
    have ts: "sends (names None S) n obj \<longleftrightarrow> tree_send None S n obj" for n using False sn by auto
    show ?thesis
    proof (cases "0 < is_tree_hash (is_hash S) space")
      case True
      obtain g where g: "ipc_hash_global_lookup addr (is_hash S) space obj = (m (space, obj), g)" "global_rep addr g m"
        using global_lookup_rep [OF m(1)] by blast
      have S': "names_ok addr sizes space None (S\<lparr>is_hash := g\<rparr>)" "names None (S\<lparr>is_hash := g\<rparr>) = names None S"
        using ok g(2) m(2) by (auto simp: names_ok_core rehash_core hash_ok_def)
      have l: "ipc_hash_lookup addr space obj S = Some (map_option (\<lambda>n. (n, In_Tree n)) (m (space, obj)), S\<lparr>is_hash := g\<rparr>)"
        using True none g(1) by (simp add: ipc_hash_lookup_def)
      show ?thesis
        unfolding l using S' m(2) [of obj] by (cases "m (space, obj)") (auto simp: ts ref_name_def)
    next
      case zero: False
      have "finite {obj. (space, obj) \<in> dom m}" by (rule finite_keys [OF global_repD(1) [OF m(1)]])
      then have "{obj. (space, obj) \<in> dom m} = {}" using zero global_repD(2) [OF m(1), of space] by simp
      then have "m (space, obj) = None" by auto
      then have "\<not> (\<exists>n. sends (names None S) n obj)" using m(2) [of obj] by (auto simp: ts)
      then show ?thesis using none zero ok by (simp add: ipc_hash_lookup_def)
    qed
  qed
qed

section \<open>The operations on names and the map they implement\<close>

text \<open>
  The operations as the layers above compose them: looking a name up, finding the name of a
  send right, entering a right under a new or a given name, changing a right in place and
  removing it.
\<close>

datatype name_op =
    Name_Lookup mach_port_t
  | Name_Reverse ipc_object
  | Name_Alloc ipc_entry
  | Name_Alloc_Name mach_port_t ipc_entry
  | Name_Modify mach_port_t ipc_entry
  | Name_Remove mach_port_t

datatype name_answer =
    Found "ipc_entry option"
  | Named "mach_port_t option"
  | Failed kern_return_t
  | Taken

definition with_entry ::
  "ipc_names \<Rightarrow> mach_port_t \<Rightarrow> (entry_ref \<Rightarrow> ipc_names \<Rightarrow> ipc_names option) \<Rightarrow> (name_answer \<times> ipc_names) option" where
  "with_entry S n f =
     (let (r, S) = ipc_entry_lookup S n
      in case r of
           None \<Rightarrow> Some (Found None, S)
         | Some ref \<Rightarrow> map_option (Pair (Found (entry_at S ref))) (f ref S))"

fun run_op ::
  "addresses \<Rightarrow> nat list \<Rightarrow> bool \<Rightarrow> space_id \<Rightarrow> name_op \<Rightarrow> ipc_names \<Rightarrow> (name_answer \<times> ipc_names) option" where
  "run_op addr sizes nomem space (Name_Lookup n) S = with_entry S n (\<lambda>_. Some)"
| "run_op addr sizes nomem space (Name_Reverse obj) S =
     map_option (\<lambda>(r, S). (Named (map_option fst r), S)) (ipc_hash_lookup addr space obj S)"
| "run_op addr sizes nomem space (Name_Alloc e) S =
     do {
       (r, S) \<leftarrow> ipc_entry_alloc addr sizes nomem space S;
       case r of
         Inl kr \<Rightarrow> Some (Failed kr, S)
       | Inr (n, j) \<Rightarrow> map_option (Pair (Named (Some n))) (entry_enter addr space (In_Table j) e S)
     }"
| "run_op addr sizes nomem space (Name_Alloc_Name n e) S =
     do {
       (r, S) \<leftarrow> ipc_entry_alloc_name addr sizes nomem space n S;
       case r of
         Inl kr \<Rightarrow> Some (Failed kr, S)
       | Inr ref \<Rightarrow>
           (case entry_at S ref of
              None \<Rightarrow> None
            | Some e0 \<Rightarrow>
                if IE_BITS_TYPE (ie_bits e0) \<noteq> MACH_PORT_TYPE_NONE then Some (Taken, S)
                else map_option (Pair (Named (Some n))) (entry_enter addr space ref e S))
     }"
| "run_op addr sizes nomem space (Name_Modify n e) S = with_entry S n (\<lambda>ref. entry_modify addr space ref e)"
| "run_op addr sizes nomem space (Name_Remove n) S = with_entry S n (\<lambda>ref. entry_remove addr sizes space n ref)"

text \<open>What a caller may enter: a right of some type, and at most one send right for an object.\<close>

definition enterable :: "(mach_port_t \<rightharpoonup> ipc_entry) \<Rightarrow> ipc_entry \<Rightarrow> bool" where
  "enterable M e \<longleftrightarrow> right_only (ie_bits e) \<and> IE_BITS_TYPE (ie_bits e) \<noteq> MACH_PORT_TYPE_NONE \<and>
     (IE_BITS_TYPE (ie_bits e) = MACH_PORT_TYPE_SEND \<longrightarrow> \<not> (\<exists>k. sends M k (ie_object e)))"

fun op_ok :: "(mach_port_t \<rightharpoonup> ipc_entry) \<Rightarrow> name_op \<Rightarrow> bool" where
  "op_ok M (Name_Lookup n) \<longleftrightarrow> n \<noteq> 255"
| "op_ok M (Name_Reverse obj) \<longleftrightarrow> True"
| "op_ok M (Name_Alloc e) \<longleftrightarrow> enterable M e"
| "op_ok M (Name_Alloc_Name n e) \<longleftrightarrow> MACH_PORT_VALID n \<and> enterable M e"
| "op_ok M (Name_Modify n e) \<longleftrightarrow> n \<noteq> 255 \<and> enterable (M(n := None)) e"
| "op_ok M (Name_Remove n) \<longleftrightarrow> n \<noteq> 255"

text \<open>The abstract step: which answers and which changes of the map are possible.\<close>

inductive name_step ::
  "(mach_port_t \<rightharpoonup> ipc_entry) \<Rightarrow> name_op \<Rightarrow> name_answer \<Rightarrow> (mach_port_t \<rightharpoonup> ipc_entry) \<Rightarrow> bool" where
  lookup: "name_step M (Name_Lookup n) (Found (M n)) M"
| reverse: "sends M n obj \<Longrightarrow> name_step M (Name_Reverse obj) (Named (Some n)) M"
| no_reverse: "\<not> (\<exists>n. sends M n obj) \<Longrightarrow> name_step M (Name_Reverse obj) (Named None) M"
| alloc: "M n = None \<Longrightarrow> MACH_PORT_VALID n \<Longrightarrow> name_step M (Name_Alloc e) (Named (Some n)) (M(n \<mapsto> e))"
| no_alloc: "alloc_error kr \<Longrightarrow> name_step M (Name_Alloc e) (Failed kr) M"
| alloc_name: "M n = None \<Longrightarrow> name_step M (Name_Alloc_Name n e) (Named (Some n)) (M(n \<mapsto> e))"
| taken: "M n \<noteq> None \<Longrightarrow> name_step M (Name_Alloc_Name n e) Taken M"
| no_alloc_name: "M n = None \<Longrightarrow> alloc_error kr \<Longrightarrow> name_step M (Name_Alloc_Name n e) (Failed kr) M"
| modify: "M n = Some e0 \<Longrightarrow> name_step M (Name_Modify n e) (Found (Some e0)) (M(n \<mapsto> e))"
| no_modify: "M n = None \<Longrightarrow> name_step M (Name_Modify n e) (Found None) M"
| remove: "M n = Some e0 \<Longrightarrow> name_step M (Name_Remove n) (Found (Some e0)) (M(n := None))"
| no_remove: "M n = None \<Longrightarrow> name_step M (Name_Remove n) (Found None) M"

inductive_cases name_step_elims [elim]:
  "name_step M (Name_Lookup n) r M'" "name_step M (Name_Reverse obj) r M'" "name_step M (Name_Alloc e) r M'"
  "name_step M (Name_Alloc_Name n e) r M'" "name_step M (Name_Modify n e) r M'" "name_step M (Name_Remove n) r M'"

text \<open>An operation on an entry that was looked up.\<close>

lemma with_entry_spec:
  assumes ok: "names_ok addr sizes space None S" and n: "n \<noteq> 255"
    and f: "\<And>ref e S1. found_entry addr sizes space S n ref S1 \<Longrightarrow> names None S n = Some e \<Longrightarrow> typed_ref S1 ref e \<Longrightarrow>
        \<exists>S'. f ref S1 = Some S' \<and> names_ok addr sizes space None S' \<and> names None S' = M' e"
  shows "\<exists>r S'. with_entry S n f = Some (r, S') \<and> names_ok addr sizes space None S' \<and> r = Found (names None S n) \<and>
           names None S' = (case names None S n of None \<Rightarrow> names None S | Some e \<Rightarrow> M' e)"
proof -
  obtain r S1 where l: "ipc_entry_lookup S n = (r, S1)" by force
  note c = entry_lookup_ref [OF ok n l]
  show ?thesis
  proof (cases r)
    case None
    with c l show ?thesis by (auto simp: with_entry_def)
  next
    case (Some ref)
    with c obtain e where e: "found_entry addr sizes space S n ref S1" "names None S n = Some e" "typed_ref S1 ref e"
      by (auto simp: found_entry_def)
    from f [OF e] e(2,3) l Some show ?thesis by (auto simp: with_entry_def typed_ref_def)
  qed
qed

lemma run_op_simulates:
  assumes ok: "names_ok addr sizes space None S" and op: "op_ok (names None S) op"
  shows "\<exists>r S'. run_op addr sizes nomem space op S = Some (r, S') \<and> names_ok addr sizes space None S' \<and>
           name_step (names None S) op r (names None S')"
proof (cases op)
  case (Name_Lookup n)
  have "\<exists>r S'. with_entry S n (\<lambda>_. Some) = Some (r, S') \<and> names_ok addr sizes space None S' \<and>
      r = Found (names None S n) \<and> names None S' = (case names None S n of None \<Rightarrow> names None S | Some e \<Rightarrow> names None S)"
    by (rule with_entry_spec [OF ok]) (use op Name_Lookup in \<open>auto simp: found_entry_def\<close>)
  moreover have "(case names None S n of None \<Rightarrow> names None S | Some e \<Rightarrow> names None S) = names None S"
    by (simp split: option.split)
  ultimately obtain S' where "with_entry S n (\<lambda>_. Some) = Some (Found (names None S n), S')"
    "names_ok addr sizes space None S'" "names None S' = names None S" by metis
  then show ?thesis unfolding Name_Lookup using name_step.lookup [of "names None S" n] by simp
next
  case (Name_Reverse obj)
  from hash_lookup_spec [OF ok, of obj] obtain r S' where
    "ipc_hash_lookup addr space obj S = Some (r, S')" "names_ok addr sizes space None S'" "names None S' = names None S"
    "case r of None \<Rightarrow> \<not> (\<exists>n. sends (names None S) n obj)
            | Some (n, ref) \<Rightarrow> sends (names None S) n obj \<and> ref_name S' ref = n" by blast
  then show ?thesis unfolding Name_Reverse by (cases r) (auto intro: name_step.intros)
next
  case (Name_Alloc e)
  then have e: "right_only (ie_bits e)" "IE_BITS_TYPE (ie_bits e) \<noteq> MACH_PORT_TYPE_NONE"
    "IE_BITS_TYPE (ie_bits e) = MACH_PORT_TYPE_SEND \<Longrightarrow> \<not> (\<exists>k. sends (names None S) k (ie_object e))"
    using op by (auto simp: enterable_def)
  from entry_alloc_spec [OF ok, of nomem] obtain r S1 where a: "ipc_entry_alloc addr sizes nomem space S = Some (r, S1)"
    "case r of
       Inl kr \<Rightarrow> alloc_error kr \<and> names_ok addr sizes space None S1 \<and> names None S1 = names None S
     | Inr (n, j) \<Rightarrow> fresh_entry addr sizes space S n (In_Table j) S1 \<and> MACH_PORT_VALID n" by blast
  show ?thesis
  proof (cases r)
    case (Inl kr)
    with a show ?thesis unfolding Name_Alloc by (auto intro: name_step.intros)
  next
    case (Inr p)
    with a(2) obtain n j where p: "p = (n, j)" "fresh_entry addr sizes space S n (In_Table j) S1" "MACH_PORT_VALID n"
      by (cases p) auto
    note fr = p(2) [unfolded fresh_entry_def]
    have "\<exists>S'. entry_enter addr space (In_Table j) e S1 = Some S' \<and> names_ok addr sizes space None S' \<and>
        names None S' = (names (Some (In_Table j)) S1)(ref_name S1 (In_Table j) \<mapsto> e)"
      by (rule entry_enter_spec) (use fr e in auto)
    with fr a(1) Inr p show ?thesis unfolding Name_Alloc by (auto intro: name_step.alloc)
  qed
next
  case (Name_Alloc_Name n e)
  then have e: "right_only (ie_bits e)" "IE_BITS_TYPE (ie_bits e) \<noteq> MACH_PORT_TYPE_NONE"
    "IE_BITS_TYPE (ie_bits e) = MACH_PORT_TYPE_SEND \<Longrightarrow> \<not> (\<exists>k. sends (names None S) k (ie_object e))"
    and v: "MACH_PORT_VALID n"
    using op by (auto simp: enterable_def)
  from alloc_name_spec [OF ok v, of nomem False] obtain r S1 where
    a: "ipc_entry_alloc_name addr sizes nomem space n S = Some (r, S1)" "name_result addr sizes space S n r S1"
    unfolding ipc_entry_alloc_name_def by blast
  show ?thesis
  proof (cases r)
    case (Inl kr)
    with a show ?thesis unfolding Name_Alloc_Name by (auto simp: name_result_def intro: name_step.intros)
  next
    case (Inr ref)
    with a(2) consider (found) "found_entry addr sizes space S n ref S1" | (fresh) "fresh_entry addr sizes space S n ref S1"
      by (auto simp: name_result_def)
    then show ?thesis
    proof cases
      case found
      with a(1) Inr show ?thesis
        unfolding Name_Alloc_Name by (auto simp: found_entry_def typed_ref_def intro!: name_step.taken)
    next
      case fresh
      note fr = fresh [unfolded fresh_entry_def]
      have "\<exists>S'. entry_enter addr space ref e S1 = Some S' \<and> names_ok addr sizes space None S' \<and>
          names None S' = (names (Some ref) S1)(ref_name S1 ref \<mapsto> e)"
        by (rule entry_enter_spec) (use fr e in auto)
      with fr a(1) Inr show ?thesis unfolding Name_Alloc_Name by (auto intro: name_step.alloc_name)
    qed
  qed
next
  case (Name_Modify n e)
  have "\<exists>r S'. with_entry S n (\<lambda>ref. entry_modify addr space ref e) = Some (r, S') \<and> names_ok addr sizes space None S' \<and>
      r = Found (names None S n) \<and>
      names None S' = (case names None S n of None \<Rightarrow> names None S | Some _ \<Rightarrow> (names None S)(n \<mapsto> e))"
  proof (rule with_entry_spec [OF ok])
    show "n \<noteq> 255" using op Name_Modify by simp
  next
    fix ref e0 S1
    assume f: "found_entry addr sizes space S n ref S1" and t: "typed_ref S1 ref e0"
    have f': "names_ok addr sizes space None S1" "names None S1 = names None S" "ref_name S1 ref = n"
      using f by (auto simp: found_entry_def)
    show "\<exists>S'. entry_modify addr space ref e S1 = Some S' \<and> names_ok addr sizes space None S' \<and>
        names None S' = (names None S)(n \<mapsto> e)"
      unfolding f'(2) [symmetric] f'(3) [symmetric]
      by (rule entry_modify_spec [OF f'(1) t])
         (use op Name_Modify f' in \<open>auto simp: enterable_def sends_def split: if_splits\<close>)
  qed
  then show ?thesis unfolding Name_Modify by (auto intro: name_step.intros split: option.splits)
next
  case (Name_Remove n)
  have "\<exists>r S'. with_entry S n (\<lambda>ref. entry_remove addr sizes space n ref) = Some (r, S') \<and>
      names_ok addr sizes space None S' \<and> r = Found (names None S n) \<and>
      names None S' = (case names None S n of None \<Rightarrow> names None S | Some _ \<Rightarrow> (names None S)(n := None))"
  proof (rule with_entry_spec [OF ok])
    show "n \<noteq> 255" using op Name_Remove by simp
  next
    fix ref e0 S1
    assume f: "found_entry addr sizes space S n ref S1" and t: "typed_ref S1 ref e0"
    have f': "names_ok addr sizes space None S1" "names None S1 = names None S" "ref_name S1 ref = n"
      using f by (auto simp: found_entry_def)
    from entry_remove_spec [OF f'(1) t] show "\<exists>S'. entry_remove addr sizes space n ref S1 = Some S' \<and>
        names_ok addr sizes space None S' \<and> names None S' = (names None S)(n := None)"
      unfolding f'(2,3) .
  qed
  then show ?thesis unfolding Name_Remove by (auto intro: name_step.intros split: option.splits)
qed

section \<open>New spaces\<close>

text \<open>
  The table of \<^verbatim>\<open>ipc_space_create\<close>: all slots, slot 0 included, get the generation of \<^verbatim>\<open>-1\<close>, and the
  free list runs through them in order.
\<close>

definition space_table :: "nat \<Rightarrow> ipc_table" where
  "space_table new_size =
     (let table = map (\<lambda>index. zero_slot\<lparr>ie_bits := IE_BITS_GEN_MASK, ie_request := index + 1\<rparr>) [0..<new_size]
      in upd_slot (new_size - 1) (ie_request_update (\<lambda>_. 0)) table)"

definition ipc_space_create ::
  "nat list \<Rightarrow> nat \<Rightarrow> bool \<Rightarrow> space_id \<Rightarrow> ipc_hash_global \<Rightarrow> kern_return_t + ipc_names" where
  "ipc_space_create sizes initial nomem space hash =
     (if nomem then Inl KERN_RESOURCE_SHORTAGE
      else Inr \<lparr>is_live = True, is_table = space_table (its_size sizes initial), is_table_next = initial + 1,
                is_tree = ipc_splay_tree_init, is_tree_total = 0, is_tree_small = 0,
                is_hash = hash\<lparr>is_tree_hash := (is_tree_hash hash)(space := 0)\<rparr>\<rparr>)"

lemma space_table_nth:
  assumes "0 < n"
  shows "length (space_table n) = n"
    "i < n \<Longrightarrow> space_table n ! i = zero_slot\<lparr>ie_bits := IE_BITS_GEN_MASK, ie_request := if i + 1 = n then 0 else i + 1\<rparr>"
  using assms by (auto simp: space_table_def Let_def upd_slot_def nth_list_update)

lemma space_table_chain:
  assumes "0 < n"
  shows "chain (space_table n) 0 [1..<n]"
proof -
  have "chain (space_table n) i [i + 1..<n]" if "i < n" for i
    using that
  proof (induction "n - i" arbitrary: i)
    case (Suc k)
    show ?case
    proof (cases "i + 1 = n")
      case True
      then show ?thesis using space_table_nth(2) [OF assms, of i] by simp
    next
      case False
      then have i: "i + 1 < n" using Suc.prems by simp
      with Suc.hyps have "chain (space_table n) (i + 1) [i + 1 + 1..<n]" by auto
      moreover have "[i + 1..<n] = (i + 1) # [i + 1 + 1..<n]" using i by (simp add: upt_conv_Cons)
      ultimately show ?thesis using space_table_nth(2) [OF assms, of i] i by simp
    qed
  qed simp
  from this [of 0] assms show ?thesis by simp
qed

lemma space_create_ok:
  assumes sc: "schedule_ok sizes" and i: "initial + 1 < length sizes"
    and g: "global_rep addr hash m" "\<And>obj. m (space, obj) = None"
    and S: "ipc_space_create sizes initial nomem space hash = Inr S"
  shows "names_ok addr sizes space None S" "names None S = (\<lambda>_. None)"
proof -
  let ?n = "its_size sizes initial"
  have n: "0 < ?n" using slot_index_bound(2) [OF sc] i by simp
  have st: "is_table S = space_table ?n" "is_tree S = ipc_splay_tree_init" "is_tree_total S = 0"
    "is_tree_small S = 0" "is_table_next S = initial + 1" "is_hash S = hash\<lparr>is_tree_hash := (is_tree_hash hash)(space := 0)\<rparr>"
    "is_live S"
    using S by (auto simp: ipc_space_create_def split: if_splits)
  note nth = space_table_nth [OF n]
  have tm: "tree_map S = (\<lambda>_. None)" by (simp add: tree_map_def st)
  have use: "\<not> in_use None (space_table ?n) k" for k by (auto simp: in_use_def nth)
  show "names None S = (\<lambda>_. None)" using use by (auto simp: names_def st tm)
  have free: "free_index None (space_table ?n) k \<longleftrightarrow> 0 < k \<and> k < ?n" for k
    by (auto simp: free_index_def nth)
  have "set [1..<?n] = {k. free_index None (space_table ?n) k}" by (auto simp: free)
  with space_table_chain [OF n] have
    "\<exists>fl. chain (space_table ?n) 0 fl \<and> distinct fl \<and> set fl = {k. free_index None (space_table ?n) k}"
    by (metis distinct_upt)
  moreover have "IE_BITS_GEN_MASK AND NOT IE_BITS_COLLISION = IE_BITS_GEN_MASK" by (simp add: mask_defs)
  ultimately have t: "table_ok None (is_table S)"
    using n by (auto simp: table_ok_def st nth free zero_slot_def)
  have "send_slots None (space_table ?n) = {}" using use by (auto simp: send_slots_def)
  moreover have "local_hash_ok (snd addr) (space_table ?n) {}"
  proof (rule local_hash_empty)
    show "space_table ?n \<noteq> []" using nth(1) n by auto
    show "\<forall>s\<in>set (space_table ?n). ie_index s = 0" by (auto simp: in_set_conv_nth nth zero_slot_def)
  qed
  moreover have "global_rep addr (is_hash S) m"
  proof -
    have "is_tree_hash hash space = 0" using global_repD(2) [OF g(1), of space] g(2) by (simp add: dom_def)
    then have "is_hash S = hash" by (simp add: st fun_upd_idem)
    with g(1) show ?thesis by simp
  qed
  ultimately have "hash_ok addr space None S"
    using g(2) by (auto simp: hash_ok_def st(1) tree_send_def tm)
  moreover have "sizes_ok_for sizes S" using i by (simp add: sizes_ok_for_def st nth(1) small_indices_def tm)
  moreover have "tree_ok None S" by (simp add: tree_ok_def st tm)
  moreover have "collisions_ok None S"
  proof -
    have "\<not> test IE_BITS_GEN_MASK IE_BITS_COLLISION" by (simp add: field_defs mask_defs)
    then show ?thesis by (auto simp: collisions_ok_def tm st nth zero_slot_def)
  qed
  ultimately show "names_ok addr sizes space None S" using sc t by (simp add: names_ok_def)
qed

text \<open>The spaces that arise from a new one by operations on names.\<close>

inductive space_reach :: "addresses \<Rightarrow> nat list \<Rightarrow> space_id \<Rightarrow> ipc_names \<Rightarrow> bool" for addr sizes space where
  created: "schedule_ok sizes \<Longrightarrow> initial + 1 < length sizes \<Longrightarrow> global_rep addr hash m \<Longrightarrow>
    (\<And>obj. m (space, obj) = None) \<Longrightarrow> ipc_space_create sizes initial nomem space hash = Inr S \<Longrightarrow>
    space_reach addr sizes space S"
| stepped: "space_reach addr sizes space S \<Longrightarrow> op_ok (names None S) op \<Longrightarrow>
    run_op addr sizes nomem space op S = Some (r, S') \<Longrightarrow> space_reach addr sizes space S'"

lemma space_reach_ok: "space_reach addr sizes space S \<Longrightarrow> names_ok addr sizes space None S"
proof (induction rule: space_reach.induct)
  case (stepped S op nomem r S')
  with run_op_simulates [OF stepped.IH stepped.hyps(2), of nomem] show ?case by auto
qed (rule space_create_ok(1))

section \<open>A small space\<close>

text \<open>A new space with a table of four slots, for the concrete instances below.\<close>

definition demo_addr :: addresses where "demo_addr = (\<lambda>_. 0, \<lambda>_. 0)"
definition demo_sizes :: "nat list" where "demo_sizes = [4, 8, 8]"
definition demo_hash :: ipc_hash_global where
  "demo_hash = \<lparr>ihg_mask = 31, ihg_table = (\<lambda>_. []), is_tree_hash = (\<lambda>_. 0)\<rparr>"
definition demo_space :: ipc_names where
  "demo_space = \<lparr>is_live = True, is_table = space_table 4, is_table_next = 1, is_tree = ipc_splay_tree_init, is_tree_total = 0,
                 is_tree_small = 0, is_hash = demo_hash\<rparr>"
definition demo_right :: ipc_entry where
  "demo_right = \<lparr>ie_bits = MACH_PORT_TYPE_RECEIVE, ie_object = IO_PORT 7, ie_request = 0\<rparr>"

lemma demo_schedule: "schedule_ok demo_sizes"
  by (simp add: schedule_ok_def demo_sizes_def)

lemma demo_global: "global_rep demo_addr demo_hash (\<lambda>_. None)"
  by (simp add: global_rep_def demo_hash_def)

lemma demo_created: "ipc_space_create demo_sizes 0 False space demo_hash = Inr demo_space"
  by (simp add: ipc_space_create_def demo_space_def its_size_def demo_sizes_def demo_hash_def fun_upd_idem)

lemma demo_reach: "space_reach demo_addr demo_sizes 1 demo_space"
  by (rule space_reach.created [OF demo_schedule _ demo_global _ demo_created]) (simp_all add: demo_sizes_def)

lemma demo_ok: "names_ok demo_addr demo_sizes 1 None demo_space" "names None demo_space = (\<lambda>_. None)"
  by (rule space_create_ok [OF demo_schedule _ demo_global _ demo_created]; simp add: demo_sizes_def)+

lemma demo_enterable: "right_only (ie_bits demo_right)" "IE_BITS_TYPE (ie_bits demo_right) \<noteq> MACH_PORT_TYPE_NONE"
  "IE_BITS_TYPE (ie_bits demo_right) \<noteq> MACH_PORT_TYPE_SEND" "enterable M demo_right"
  by (simp_all add: demo_right_def right_only_def enterable_def field_defs mask_defs type_defs)

section \<open>Properties of spaces\<close>

text \<open>
  C2: every space that arises from \<^verbatim>\<open>ipc_space_create\<close> by looking up, entering, changing and
  removing rights is well-formed: the free list runs through exactly the free slots, the collision
  bits say which slots names in the tree collide with, \<^verbatim>\<open>is_tree_total\<close> and \<^verbatim>\<open>is_tree_small\<close> are
  the right counts, and the reverse hash tables hold exactly the pure send rights.
\<close>

theorem space_reach_wellformed:
  assumes "space_reach addr sizes space S"
  shows "names_ok addr sizes space None S"
  using assms by (rule space_reach_ok)

theorem space_reach_wellformed_witness: "names_ok demo_addr demo_sizes 1 None demo_space"
  by (rule space_reach_wellformed [OF demo_reach])

text \<open>
  C1: on every space that arises from a new one, each operation on names completes, gives an answer
  and a change that the same operation has on the map from names to rights that the table, the
  tree and the hash tables stand for, and leads to such a space again: lookups find exactly the
  rights entered, a new name is unused and valid, a removal removes one name only, and growing
  the table or moving entries between the tree and the table is not visible. Lookups, changes and removals are for
  names other than 255, which lookups miss; a name to be allocated is valid; and what is entered is a right of some type,
  with no second send right for an object.
\<close>

theorem name_ops_refine_map:
  assumes "space_reach addr sizes space S" and "op_ok (names None S) op"
  shows "\<exists>r S'. run_op addr sizes nomem space op S = Some (r, S') \<and> space_reach addr sizes space S' \<and>
           name_step (names None S) op r (names None S')"
  using run_op_simulates [OF space_reach_ok [OF assms(1)] assms(2), of nomem] space_reach.stepped [OF assms]
  by blast

theorem name_ops_refine_map_witness:
  "\<exists>r S'. run_op demo_addr demo_sizes False 1 (Name_Alloc demo_right) demo_space = Some (r, S') \<and>
     space_reach demo_addr demo_sizes 1 S' \<and>
     name_step (names None demo_space) (Name_Alloc demo_right) r (names None S')"
proof -
  have "op_ok (names None demo_space) (Name_Alloc demo_right)" by (simp add: demo_enterable(4))
  from name_ops_refine_map [OF demo_reach this] show ?thesis by blast
qed
text \<open>
  In a well-formed space, \<^verbatim>\<open>ipc_entry_lookup\<close> finds an entry exactly when the name denotes
  one, in the table or in the tree, and the entry found is the one the name denotes; the space
  stays well-formed and all names keep their meaning. The one name this is not shown for is 255,
  with index 0 and the generation of slot 0.
\<close>

theorem entry_lookup_correct:
  assumes "names_ok addr sizes space None S" and "n \<noteq> 255" and "ipc_entry_lookup S n = (r, S')"
  shows "names_ok addr sizes space None S' \<and> names None S' = names None S \<and>
         (case r of None \<Rightarrow> names None S n = None
          | Some ref \<Rightarrow> entry_at S' ref = names None S n \<and> names None S n \<noteq> None)"
  by (rule lookup_spec_names [OF assms])

theorem entry_lookup_correct_witness:
  "names None demo_space 256 = None \<and> ipc_entry_lookup demo_space 256 = (None, demo_space)"
proof -
  have l: "ipc_entry_lookup demo_space 256 = (None, demo_space)"
    by (simp add: ipc_entry_lookup_def demo_space_def name_index_div space_table_nth zero_slot_def Let_def
        MACH_PORT_GEN_def IE_BITS_GEN_def mask_defs field_defs)
  from entry_lookup_correct [OF demo_ok(1) _ l] show ?thesis using l by simp
qed

lemma lookup_misses_255:
  assumes "names_ok addr sizes space None S"
  shows "ipc_entry_lookup S 255 = (None, S)"
proof -
  note t = names_okD(3) [OF assms]
  have i: "name_index 255 = 0" by (simp add: name_index_div)
  have "IE_BITS_GEN (ie_bits (is_table S ! 0)) = MACH_PORT_GEN 255"
    using slot0_name [OF t] slot_name_iff [of "is_table S" 255] i by simp
  moreover have "0 < is_table_size S" using t by (simp add: table_ok_def)
  ultimately show ?thesis using slot0_type [OF t] by (simp add: ipc_entry_lookup_def i Let_def)
qed

text \<open>The index of 255 is 0, which is neither a slot for a right nor beyond the table: the name goes to the tree.\<close>

lemma alloc_255:
  assumes ok: "names_ok addr sizes space None S" and none: "tree_map S 255 = None"
  shows "\<exists>S'. ipc_entry_alloc_name addr sizes False space 255 S = Some (Inr (In_Tree 255), S')"
proof -
  have i: "name_index 255 = 0" by (simp add: name_index_div)
  have step: "\<exists>S1. names_ok addr sizes space None S1 \<and> tree_map S1 255 = None \<and>
      alloc_name_loop addr sizes False space 255 b S =
        (if b then Some (Inr (In_Tree 255), alloc_name_insert sizes 255 S1)
         else alloc_name_loop addr sizes False space 255 True S1)"
    if ok: "names_ok addr sizes space None S" and none: "tree_map S 255 = None" for S b
  proof -
    obtain tree where tl: "tree_lookup S 255 = (None, S\<lparr>is_tree := tree\<rparr>)"
      "splay_inv tree" "contents tree = contents (is_tree S)"
      using tree_lookup_spec [OF ok, of 255] none by auto
    define S1 where "S1 = (if 0 < is_tree_total S then S\<lparr>is_tree := tree\<rparr> else S)"
    have S1: "names_ok addr sizes space None S1" "tree_map S1 255 = None" "is_table S1 = is_table S"
      using names_ok_reorganise [OF ok tl(2,3)] ok none by (simp_all add: S1_def)
    have lk: "(if 0 < is_tree_total S then tree_lookup S 255 else (None, S)) = (None, S1)"
      using tl(1) by (simp add: S1_def)
    have live: "is_live S" "\<not> is_table_size S1 \<le> 0"
      using names_okD(2,3) [OF S1(1)] names_okD(2) [OF ok] by (simp_all add: sizes_ok_for_def table_ok_def)
    show ?thesis
      by (intro exI [of _ S1] conjI S1(1,2), subst alloc_name_loop.simps)
         (simp only: Let_def live i lk prod.case option.case less_irrefl simp_thms if_True if_False)
  qed
  show ?thesis
    using step [OF ok none, of False] step [where b = True] unfolding ipc_entry_alloc_name_def by (metis (full_types))
qed

text \<open>
  C23: in a well-formed space that does not use the name 255 (index 0 with generation 255),
  \<^verbatim>\<open>ipc_entry_alloc_name\<close> with memory available allocates it, as a tree entry. Once a right is entered there the space
  is well-formed, the name denotes the right and slot 0 of the table has its collision bit set, but
  \<^verbatim>\<open>ipc_entry_lookup\<close> does not find it: slot 0 was created with the generation of the free slots, so the test for
  a collision in the tree is not reached. Nor does a lookup find the name in any later well-formed space.
\<close>

theorem entry_lookup_misses_255:
  assumes "names_ok addr sizes space None S" and "names None S 255 = None" and "enterable (names None S) e"
  shows "\<exists>S1 S2. ipc_entry_alloc_name addr sizes False space 255 S = Some (Inr (In_Tree 255), S1) \<and>
           entry_enter addr space (In_Tree 255) e S1 = Some S2 \<and> names_ok addr sizes space None S2 \<and>
           names None S2 = (names None S)(255 \<mapsto> e) \<and> test (ie_bits (is_table S2 ! 0)) IE_BITS_COLLISION \<and>
           ipc_entry_lookup S2 255 = (None, S2) \<and>
           (\<forall>S3. names_ok addr sizes space None S3 \<longrightarrow> ipc_entry_lookup S3 255 = (None, S3))"
proof -
  have i: "name_index 255 = 0" by (simp add: name_index_div)
  have valid: "MACH_PORT_VALID 255" by (simp add: MACH_PORT_VALID_def MACH_PORT_NULL_def MACH_PORT_DEAD_def)
  note t = names_okD(3) [OF assms(1)]
  have "tree_map S 255 = None" using assms(2) by (auto simp: names_def split: if_splits)
  from alloc_255 [OF assms(1) this] obtain S1 where S1:
    "ipc_entry_alloc_name addr sizes False space 255 S = Some (Inr (In_Tree 255), S1)" by blast
  then have "fresh_entry addr sizes space S 255 (In_Tree 255) S1"
    using alloc_name_spec [OF assms(1) valid, of False False] assms(2)
    by (auto simp: ipc_entry_alloc_name_def name_result_def found_entry_def)
  then have f: "names_ok addr sizes space (Some (In_Tree 255)) S1" "names (Some (In_Tree 255)) S1 = names None S"
    "ref_name S1 (In_Tree 255) = 255" by (auto simp: fresh_entry_def)
  from entry_enter_spec [OF f(1), of e] assms(3) f(2,3) obtain S2 where S2:
    "entry_enter addr space (In_Tree 255) e S1 = Some S2" "names_ok addr sizes space None S2"
    "names None S2 = (names None S)(255 \<mapsto> e)" by (auto simp: enterable_def)
  have "test (ie_bits (is_table S2 ! 0)) IE_BITS_COLLISION"
    using names_okD(3,5) [OF S2(2)] fun_cong [OF S2(3), of 255] i
    by (auto simp: collisions_ok_def names_def in_use_def table_ok_def split: if_splits)
  with S1 S2 lookup_misses_255 show ?thesis by blast
qed

theorem entry_lookup_misses_255_witness:
  "\<exists>S1 S2. ipc_entry_alloc_name demo_addr demo_sizes False 1 255 demo_space = Some (Inr (In_Tree 255), S1) \<and>
     entry_enter demo_addr 1 (In_Tree 255) demo_right S1 = Some S2 \<and> names None S2 255 = Some demo_right \<and>
     ipc_entry_lookup S2 255 = (None, S2)"
proof -
  have "names None demo_space 255 = None" using demo_ok(2) by simp
  from entry_lookup_misses_255 [OF demo_ok(1) this demo_enterable(4)] show ?thesis by fastforce
qed

text \<open>
  C21: on a well-formed space \<^verbatim>\<open>ipc_entry_alloc\<close> returns, however often the table has to grow. It fails
  only for lack of space or memory, with all names as they were; otherwise it gives an unused valid
  name and its entry, taken off the free list, and no other name changes.
\<close>

theorem entry_alloc_returns:
  assumes "names_ok addr sizes space None S"
  shows "\<exists>r S'. ipc_entry_alloc addr sizes nomem space S = Some (r, S') \<and>
           (case r of
              Inl kr \<Rightarrow> (kr = KERN_NO_SPACE \<or> kr = KERN_RESOURCE_SHORTAGE) \<and>
                names_ok addr sizes space None S' \<and> names None S' = names None S
            | Inr (n, j) \<Rightarrow> names_ok addr sizes space (Some (In_Table j)) S' \<and>
                names (Some (In_Table j)) S' = names None S \<and> names None S n = None \<and>
                slot_name (is_table S') j = n \<and> MACH_PORT_VALID n)"
proof -
  obtain r S' where a: "ipc_entry_alloc addr sizes nomem space S = Some (r, S')"
    "case r of
       Inl kr \<Rightarrow> alloc_error kr \<and> names_ok addr sizes space None S' \<and> names None S' = names None S
     | Inr (n, j) \<Rightarrow> fresh_entry addr sizes space S n (In_Table j) S' \<and> MACH_PORT_VALID n"
    using entry_alloc_spec [OF assms, of nomem] by blast
  then show ?thesis by (auto simp: alloc_error_def fresh_entry_def ref_name_def split: sum.splits)
qed

theorem entry_alloc_returns_witness:
  "names_ok demo_addr demo_sizes 1 None demo_space \<and>
   (\<exists>r S'. ipc_entry_alloc demo_addr demo_sizes False 1 demo_space = Some (r, S'))"
  using entry_alloc_returns [OF demo_ok(1), of False] demo_ok(1) by blast

text \<open>
  C22: \<^verbatim>\<open>ipc_entry_grow_table\<close> returns. It fails without any change exactly when the last size is reached
  or memory is short; otherwise the table has grown, every name denotes the right it denoted, and
  the space, its reverse hash tables included, is well-formed.
\<close>

theorem entry_grow_keeps_names:
  assumes "names_ok addr sizes space None S"
  shows "\<exists>kr S'. ipc_entry_grow_table addr sizes nomem space None S = Some (kr, S') \<and>
           names_ok addr sizes space None S' \<and> names None S' = names None S \<and>
           (if is_table_size S = its_size sizes (is_table_next S) then kr = KERN_NO_SPACE \<and> S' = S
            else if nomem then kr = KERN_RESOURCE_SHORTAGE \<and> S' = S
            else kr = KERN_SUCCESS \<and> is_table_next S < is_table_next S')"
  using assms by (rule grow_table_spec)

theorem entry_grow_keeps_names_witness:
  "\<exists>S'. ipc_entry_grow_table demo_addr demo_sizes False 1 None demo_space = Some (KERN_SUCCESS, S') \<and>
     names None S' = (\<lambda>_. None) \<and> 1 < is_table_next S'"
proof -
  have "is_table_size demo_space \<noteq> its_size demo_sizes (is_table_next demo_space)" "is_table_next demo_space = 1"
    by (simp_all add: demo_space_def space_table_nth demo_sizes_def its_size_def)
  with entry_grow_keeps_names [OF demo_ok(1), of False] demo_ok(2) show ?thesis by auto
qed

text \<open>
  \<^verbatim>\<open>ipc_entry_alloc_name\<close> returns for every valid name. If the name denotes a right, the entry of that right
  is returned and nothing changes; otherwise the entry is a new one for exactly that name, in the
  table or in the tree, or the call fails for lack of space or memory with all names as they were.
\<close>

theorem entry_alloc_name_correct:
  assumes "names_ok addr sizes space None S" and "MACH_PORT_VALID n"
  shows "\<exists>r S'. ipc_entry_alloc_name addr sizes nomem space n S = Some (r, S') \<and>
           (case r of
              Inl kr \<Rightarrow> (kr = KERN_NO_SPACE \<or> kr = KERN_RESOURCE_SHORTAGE) \<and> names None S n = None \<and>
                names_ok addr sizes space None S' \<and> names None S' = names None S
            | Inr ref \<Rightarrow> ref_name S' ref = n \<and>
                (case names None S n of
                   Some e \<Rightarrow> entry_at S' ref = Some e \<and> names_ok addr sizes space None S' \<and> names None S' = names None S
                 | None \<Rightarrow> names_ok addr sizes space (Some ref) S' \<and> names (Some ref) S' = names None S))"
proof -
  obtain r S' where a: "ipc_entry_alloc_name addr sizes nomem space n S = Some (r, S')"
    "name_result addr sizes space S n r S'"
    using alloc_name_spec [OF assms, of nomem False] unfolding ipc_entry_alloc_name_def by blast
  from a(2) show ?thesis
    unfolding a(1) by (cases r) (auto simp: name_result_def alloc_error_def found_entry_def fresh_entry_def typed_ref_def)
qed

theorem entry_alloc_name_correct_witness:
  "MACH_PORT_VALID 256 \<and>
   (\<exists>r S'. ipc_entry_alloc_name demo_addr demo_sizes False 1 256 demo_space = Some (r, S'))"
proof -
  have "MACH_PORT_VALID 256" by (simp add: MACH_PORT_VALID_def MACH_PORT_NULL_def MACH_PORT_DEAD_def)
  with entry_alloc_name_correct [OF demo_ok(1) this, of False] show ?thesis by blast
qed

text \<open>
  \<^verbatim>\<open>ipc_entry_dealloc\<close> on an entry whose right has been given up returns and removes that name and no other,
  whether the slot goes to the free list, an entry of the tree that collides with it moves into
  it, or the entry leaves the tree; the space is well-formed again.
\<close>

theorem entry_dealloc_correct:
  assumes "names_ok addr sizes space (Some ref) S"
    and "\<And>i. ref = In_Table i \<Longrightarrow> ie_object (is_table S ! i) = IO_NULL"
  shows "\<exists>S'. ipc_entry_dealloc addr sizes space (ref_name S ref) ref S = Some S' \<and>
           names_ok addr sizes space None S' \<and> names None S' = names (Some ref) S"
  using assms by (rule entry_dealloc_spec)

lemma demo_pending:
  obtains n j S where "names_ok demo_addr demo_sizes 1 (Some (In_Table j)) S" "names (Some (In_Table j)) S = (\<lambda>_. None)"
    "ie_object (is_table S ! j) = IO_NULL"
proof -
  have t: "ie_next (is_table demo_space ! 0) = 1" by (simp add: demo_space_def space_table_nth)
  then obtain n j S where g: "ipc_entry_get demo_space = Inr (n, j, S)" by (auto simp: ipc_entry_get_def Let_def)
  then have "names_ok demo_addr demo_sizes 1 (Some (In_Table j)) S" "names (Some (In_Table j)) S = (\<lambda>_. None)"
    using entry_get_spec [OF demo_ok(1)] demo_ok(2) by auto
  moreover have "ie_object (is_table S ! j) = IO_NULL"
    using g t by (auto simp: ipc_entry_get_def Let_def demo_space_def space_table_nth upd_slot_def zero_slot_def)
  ultimately show thesis by (rule that)
qed

theorem entry_dealloc_correct_witness:
  "\<exists>j S S'. names_ok demo_addr demo_sizes 1 (Some (In_Table j)) S \<and>
     ipc_entry_dealloc demo_addr demo_sizes 1 (ref_name S (In_Table j)) (In_Table j) S = Some S' \<and>
     names None S' = (\<lambda>_. None)"
proof -
  obtain n j S where S: "names_ok demo_addr demo_sizes 1 (Some (In_Table j)) S" "names (Some (In_Table j)) S = (\<lambda>_. None)"
    "ie_object (is_table S ! j) = IO_NULL" by (rule demo_pending)
  have "ie_object (is_table S ! i) = IO_NULL" if "In_Table j = In_Table i" for i using S(3) that by simp
  from entry_dealloc_correct [OF S(1) this] obtain S' where
    "ipc_entry_dealloc demo_addr demo_sizes 1 (ref_name S (In_Table j)) (In_Table j) S = Some S'"
    "names None S' = names (Some (In_Table j)) S" by blast
  with S(1,2) show ?thesis by (intro exI [of _ j] exI [of _ S] exI [of _ S'] conjI) (simp_all only:)
qed

text \<open>
  \<^verbatim>\<open>ipc_hash_lookup\<close> on a well-formed space finds the name of the pure send right for an object, in the local
  table of the entry table or the global table of the tree entries, exactly when there is one.
\<close>

theorem hash_lookup_correct:
  assumes "names_ok addr sizes space None S"
  shows "\<exists>r S'. ipc_hash_lookup addr space obj S = Some (r, S') \<and>
           names_ok addr sizes space None S' \<and> names None S' = names None S \<and>
           (case r of
              None \<Rightarrow> \<not> (\<exists>n. sends (names None S) n obj)
            | Some (n, ref) \<Rightarrow> (\<forall>m. sends (names None S) m obj \<longleftrightarrow> m = n) \<and> ref_name S' ref = n)"
proof -
  obtain r S' where "ipc_hash_lookup addr space obj S = Some (r, S')"
    "names_ok addr sizes space None S'" "names None S' = names None S"
    "case r of None \<Rightarrow> \<not> (\<exists>n. sends (names None S) n obj)
     | Some (n, ref) \<Rightarrow> sends (names None S) n obj \<and> ref_name S' ref = n"
    using hash_lookup_spec [OF assms] by blast
  then show ?thesis using sends_unique [OF assms] by (auto split: option.splits)
qed

theorem hash_lookup_correct_witness:
  "\<exists>r S'. ipc_hash_lookup demo_addr 1 (IO_PORT 7) demo_space = Some (r, S') \<and> names None S' = (\<lambda>_. None)"
  using hash_lookup_correct [OF demo_ok(1), of "IO_PORT 7"] demo_ok(2) by auto

end
