(* ===== verification/Space_Walk.thy ===== *)
theory Space_Walk
  imports Mach_Port Space_Names
begin

text \<open>
  The routines that walk over all names of a space: \<^verbatim>\<open>mach_port_names\<close>, \<^verbatim>\<open>mach_port_get_set_status\<close>
  and their old-style variants (\<^verbatim>\<open>mach_port.c\<close>), and \<^verbatim>\<open>ipc_space_destroy\<close> (\<^verbatim>\<open>ipc_space.c\<close>). They read the
  table and then traverse the splay tree. The walk is shown to visit every name of the space
  once, whatever is done with the entries on the way.

  The space is the \<open>ipc_names\<close> of the entry layer; \<open>K\<close> has the ports. Memory for the answer comes in
  pages of \<open>page\<close> bytes; \<open>vm i\<close> says whether an allocation of round \<open>i\<close> fails. \<open>None\<close> as a result
  means a panic, a loop that does not end or a store outside of the allocated memory.
\<close>

section \<open>The walk\<close>

text \<open>\<open>f\<close> is what is done with a table entry, \<open>g\<close> with an entry of the tree.\<close>

definition walk_table :: "(mach_port_t \<Rightarrow> ipc_entry \<Rightarrow> 's \<Rightarrow> 's) \<Rightarrow> ipc_table \<Rightarrow> 's \<Rightarrow> 's" where
  "walk_table f table =
     fold (\<lambda>index. f (MACH_PORT_MAKEB index (ie_bits (table ! index))) (ipc_entry.truncate (table ! index)))
       [0..<length table]"

definition walk ::
  "(mach_port_t \<Rightarrow> ipc_entry \<Rightarrow> 's \<Rightarrow> 's) \<Rightarrow> (mach_port_t \<Rightarrow> ipc_entry \<Rightarrow> 's \<Rightarrow> 's) \<Rightarrow> ipc_names \<Rightarrow> 's \<Rightarrow>
     ('s \<times> ipc_names) option" where
  "walk f g S s = do {
     (tree, s) \<leftarrow> splay_traverse (\<lambda>n e s. (False, g n e s)) (is_tree S) (walk_table f (is_table S) s);
     Some (s, S\<lparr>is_tree := tree\<rparr>)
   }"

section \<open>The names of a space\<close>

definition died_before :: "natural_t \<Rightarrow> ipc_port \<Rightarrow> bool" where
  "died_before timestamp p \<longleftrightarrow> \<not> ip_active p \<and>
     (case ip_data p of Ip_Timestamp t \<Rightarrow> IP_TIMESTAMP_ORDER t timestamp | _ \<Rightarrow> False)"

text \<open>
  The type that \<^verbatim>\<open>mach_port_names_helper\<close> reports for an entry; \<open>None\<close> for a compatibility right to a
  dead port, which is left out.
\<close>

definition names_type :: "natural_t \<Rightarrow> ipc_kernel \<Rightarrow> ipc_entry \<Rightarrow> natural_t option" where
  "names_type timestamp K entry =
     (let bits = ie_bits entry;
          request = ie_request entry;
          died = test bits MACH_PORT_TYPE_SEND_RIGHTS \<and>
                 (case ie_object entry of IO_PORT port \<Rightarrow> died_before timestamp (k_ports K port) | _ \<Rightarrow> False)
      in if died \<and> test bits IE_BITS_COMPAT then None
         else
           (let bits = (if died
                        then (let b = (bits AND NOT (IE_BITS_TYPE_MASK OR IE_BITS_MAREQUEST)) OR MACH_PORT_TYPE_DEAD_NAME
                              in if request \<noteq> 0 then b + 1 else b)
                        else bits);
                request = (if died then 0 else request);
                type = IE_BITS_TYPE bits;
                type = (if test bits IE_BITS_COMPAT then type OR MACH_PORT_TYPE_COMPAT
                        else if request \<noteq> 0 then type OR MACH_PORT_TYPE_DNREQUEST else type);
                type = (if test bits IE_BITS_MAREQUEST then type OR MACH_PORT_TYPE_MAREQUEST else type)
            in Some type))"

text \<open>The arrays of names and types are one list of pairs; there is room for \<open>room\<close> of them.\<close>

definition mach_port_names_helper ::
  "nat \<Rightarrow> natural_t \<Rightarrow> ipc_kernel \<Rightarrow> mach_port_t \<Rightarrow> ipc_entry \<Rightarrow>
     (mach_port_t \<times> natural_t) list option \<Rightarrow> (mach_port_t \<times> natural_t) list option" where
  "mach_port_names_helper room timestamp K name entry out = do {
     out \<leftarrow> out;
     case names_type timestamp K entry of
       None \<Rightarrow> Some out
     | Some type \<Rightarrow> if length out < room then Some (out @ [(name, type)]) else None
   }"

text \<open>Sizes of memory are 32-bit numbers; \<open>page\<close> is the size of a page.\<close>

definition round_page :: "nat \<Rightarrow> nat \<Rightarrow> nat" where
  "round_page page x = (x + (page - 1)) mod 2 ^ 32 div page * page"

text \<open>The loop that allocates memory for all names the space may have.\<close>

function names_memory :: "nat \<Rightarrow> (nat \<Rightarrow> bool) \<Rightarrow> ipc_names \<Rightarrow> nat \<Rightarrow> nat \<Rightarrow> kern_return_t + nat" where
  "names_memory page vm S i sz =
     (if \<not> is_live S then Inl KERN_INVALID_TASK
      else
        (let bound = is_table_size S + is_tree_total S;
             size_needed = round_page page (bound * 4 mod 2 ^ 32)
         in if size_needed \<le> sz then Inr sz
            else if vm i then Inl KERN_RESOURCE_SHORTAGE
            else names_memory page vm S (i + 1) size_needed))"
  by pat_completeness auto

termination
  by (relation "measure (\<lambda>(page, vm, S, i, sz). round_page page ((is_table_size S + is_tree_total S) * 4 mod 2 ^ 32) - sz)")
     (auto simp: not_le)

declare names_memory.simps [simp del]

definition mach_port_names ::
  "nat \<Rightarrow> (nat \<Rightarrow> bool) \<Rightarrow> ipc_names option \<Rightarrow> ipc_kernel \<Rightarrow>
     ((kern_return_t + (mach_port_t \<times> natural_t) list) \<times> ipc_names option \<times> ipc_kernel) option" where
  "mach_port_names page vm space K =
     (case space of
        None \<Rightarrow> Some (Inl KERN_INVALID_TASK, None, K)
      | Some S \<Rightarrow>
          (case names_memory page vm S 0 0 of
             Inl kr \<Rightarrow> Some (Inl kr, Some S, K)
           | Inr sz \<Rightarrow> do {
               let (timestamp, K) = ipc_port_timestamp K;
               let helper = mach_port_names_helper (sz div 4) timestamp K;
               (out, S) \<leftarrow> walk
                 (\<lambda>name entry out. if IE_BITS_TYPE (ie_bits entry) \<noteq> MACH_PORT_TYPE_NONE
                                   then helper name entry out else out)
                 helper S (Some []);
               out \<leftarrow> out;
               Some (Inr out, Some S, K)
             }))"

text \<open>\<open>copy\<close> says whether the types cannot be mapped again for the conversion.\<close>

definition port_names ::
  "nat \<Rightarrow> (nat \<Rightarrow> bool) \<Rightarrow> bool \<Rightarrow> ipc_names option \<Rightarrow> ipc_kernel \<Rightarrow>
     ((kern_return_t + (mach_port_t \<times> natural_t) list) \<times> ipc_names option \<times> ipc_kernel) option" where
  "port_names page vm copy space K = do {
     (r, space, K) \<leftarrow> mach_port_names page vm space K;
     case r of
       Inl kr \<Rightarrow> Some (Inl (compat_error kr), space, K)
     | Inr out \<Rightarrow>
         if copy then Some (Inl KERN_RESOURCE_SHORTAGE, space, K)
         else do {
           types \<leftarrow> those (map (convert_port_type \<circ> snd) out);
           Some (Inr (zip (map fst out) types), space, K)
         }
   }"

section \<open>The members of a port set\<close>

definition mach_port_gst_helper ::
  "pset_id \<Rightarrow> ipc_kernel \<Rightarrow> nat \<Rightarrow> ipc_entry \<Rightarrow> mach_port_t list \<times> nat \<Rightarrow> mach_port_t list \<times> nat" where
  "mach_port_gst_helper pset K maxnames entry = (\<lambda>(out, actual).
     (case ie_object entry of
        IO_PORT port \<Rightarrow>
          if ip_pset (k_ports K port) = Some pset
          then (if actual < maxnames then out @ [ip_receiver_name (k_ports K port)] else out, actual + 1)
          else (out, actual)
      | _ \<Rightarrow> (out, actual)))"

definition gst_visit ::
  "pset_id \<Rightarrow> ipc_kernel \<Rightarrow> nat \<Rightarrow> mach_port_t \<Rightarrow> ipc_entry \<Rightarrow> mach_port_t list \<times> nat \<Rightarrow> mach_port_t list \<times> nat" where
  "gst_visit pset K maxnames name entry s =
     (if test (ie_bits entry) MACH_PORT_TYPE_RECEIVE then mach_port_gst_helper pset K maxnames entry s else s)"

partial_function (option) gst_loop ::
  "nat \<Rightarrow> (nat \<Rightarrow> bool) \<Rightarrow> nat \<Rightarrow> nat \<Rightarrow> mach_port_t \<Rightarrow> ipc_names \<Rightarrow> ipc_kernel \<Rightarrow>
     ((kern_return_t + mach_port_t list) \<times> ipc_names) option" where
  "gst_loop page vm i sz name S K =
     (if vm i then Some (Inl KERN_RESOURCE_SHORTAGE, S)
      else if \<not> is_live S then Some (Inl KERN_INVALID_TASK, S)
      else
        (let (r, S) = ipc_entry_lookup S name
         in case r of
              None \<Rightarrow> Some (Inl KERN_INVALID_NAME, S)
            | Some ref \<Rightarrow>
                Option.bind (entry_at S ref) (\<lambda>entry.
                if IE_BITS_TYPE (ie_bits entry) \<noteq> MACH_PORT_TYPE_PORT_SET then Some (Inl KERN_INVALID_RIGHT, S)
                else
                  Option.bind (entry_pset entry) (\<lambda>pset.
                  Option.bind (walk (gst_visit pset K (sz div 4)) (gst_visit pset K (sz div 4)) S ([], 0))
                    (\<lambda>((out, actual), S).
                       if actual \<le> sz div 4 then Some (Inr out, S)
                       else gst_loop page vm (i + 1) ((round_page page (actual * 4 mod 2 ^ 32) + page) mod 2 ^ 32) name S K)))))"

declare gst_loop.simps [code]

definition mach_port_get_set_status ::
  "nat \<Rightarrow> (nat \<Rightarrow> bool) \<Rightarrow> ipc_names option \<Rightarrow> mach_port_t \<Rightarrow> ipc_kernel \<Rightarrow>
     ((kern_return_t + mach_port_t list) \<times> ipc_names option) option" where
  "mach_port_get_set_status page vm space name K =
     (case space of
        None \<Rightarrow> Some (Inl KERN_INVALID_TASK, None)
      | Some S \<Rightarrow> map_option (\<lambda>(r, S). (r, Some S)) (gst_loop page vm 0 page name S K))"

definition port_set_status ::
  "nat \<Rightarrow> (nat \<Rightarrow> bool) \<Rightarrow> ipc_names option \<Rightarrow> mach_port_t \<Rightarrow> ipc_kernel \<Rightarrow>
     ((kern_return_t + mach_port_t list) \<times> ipc_names option) option" where
  "port_set_status page vm space name K =
     map_option (\<lambda>(r, space). (case r of Inl kr \<Rightarrow> Inl (compat_error kr) | Inr out \<Rightarrow> Inr out, space))
       (mach_port_get_set_status page vm space name K)"

section \<open>Destroying a space\<close>

text \<open>\<open>is_alloc\<close> gives an unused space, or none.\<close>

definition ipc_space_create_special :: "space_id option \<Rightarrow> ipc_kernel \<Rightarrow> (kern_return_t + space_id) \<times> ipc_kernel" where
  "ipc_space_create_special is_alloc K =
     (case is_alloc of
        None \<Rightarrow> (Inl KERN_RESOURCE_SHORTAGE, K)
      | Some s \<Rightarrow> (Inr s, upd_space s (\<lambda>sp. sp\<lparr>is_references := 1, is_active := False\<rparr>) K))"

text \<open>The bodies of the two loops; in the tree every entry is removed.\<close>

definition clean_slot ::
  "space_id \<Rightarrow> mach_port_t \<Rightarrow> ipc_entry \<Rightarrow> ipc_kernel option \<Rightarrow> ipc_kernel option" where
  "clean_slot space name entry K =
     (if IE_BITS_TYPE (ie_bits entry) \<noteq> MACH_PORT_TYPE_NONE
      then Option.bind K (ipc_right_clean space name entry) else K)"

definition clean_node ::
  "addresses \<Rightarrow> space_id \<Rightarrow> mach_port_t \<Rightarrow> ipc_entry \<Rightarrow> (ipc_kernel \<times> ipc_hash_global) option \<Rightarrow>
     bool \<times> (ipc_kernel \<times> ipc_hash_global) option" where
  "clean_node addr space name entry s =
     (True, do {
        (K, hash) \<leftarrow> s;
        let hash = (if IE_BITS_TYPE (ie_bits entry) = MACH_PORT_TYPE_SEND
                    then ipc_hash_global_delete addr hash space (ie_object entry) name else hash);
        K \<leftarrow> ipc_right_clean space name entry K;
        Some (K, hash)
      })"

text \<open>
  The space is marked dead first, so that no operation finds its names any more. At the end the map
  of its names and the reverse map in \<open>K\<close> are empty, as the table is freed and the tree is empty.
\<close>

definition ipc_space_destroy ::
  "addresses \<Rightarrow> space_id \<Rightarrow> ipc_names \<Rightarrow> ipc_kernel \<Rightarrow> (ipc_names \<times> ipc_kernel) option" where
  "ipc_space_destroy addr space S K =
     (let active = is_live S;
          S = S\<lparr>is_live := False\<rparr>;
          K = upd_space space (is_active_update (\<lambda>_. False)) K
      in if \<not> active then Some (S, K)
         else do {
           K \<leftarrow> walk_table (clean_slot space) (is_table S) (Some K);
           (tree, s) \<leftarrow> splay_traverse (clean_node addr space) (is_tree S) (Some (K, is_hash S));
           (K, hash) \<leftarrow> s;
           let K = (case is_notify (k_spaces K space) of IO_PORT port \<Rightarrow> ipc_port_release_send port K | _ \<Rightarrow> K);
           let K = is_release space K;
           let K = upd_space space (is_entries_update (\<lambda>_. Map.empty)) K;
           Some (S\<lparr>is_table := [], is_tree := tree, is_hash := hash\<rparr>,
                 K\<lparr>k_hash := (k_hash K)(space := Map.empty)\<rparr>)
         })"

section \<open>What a walk visits\<close>

lemma fold_skip: "(\<And>x s. x \<in> set xs \<Longrightarrow> \<not> P x \<Longrightarrow> h x s = s) \<Longrightarrow> fold h xs s = fold h (filter P xs) s"
  by (induction xs arbitrary: s) auto

lemma visit_keep: "visit (\<lambda>n e s. (False, g n e s)) xs s = (xs, fold (\<lambda>(n, e). g n e) xs s)"
  by (induction xs arbitrary: s) auto

text \<open>The entries of a space in the order of the walk.\<close>

definition listed :: "ipc_names \<Rightarrow> (mach_port_t \<times> ipc_entry) list" where
  "listed S =
     map (\<lambda>i. (slot_name (is_table S) i, right_of (is_table S ! i)))
       (filter (in_use None (is_table S)) [0..<is_table_size S]) @ contents (is_tree S)"

lemma type_none_iff:
  assumes "table_ok None t" and "i < length t"
  shows "IE_BITS_TYPE (ie_bits (t ! i)) \<noteq> MACH_PORT_TYPE_NONE \<longleftrightarrow> in_use None t i"
proof (cases "i = 0")
  case True
  then show ?thesis using slot0_type [OF assms(1)] by (simp add: in_use_def)
next
  case False
  with assms(2) show ?thesis by (simp add: in_use_def)
qed

lemma table_walk:
  assumes t: "table_ok None t"
    and skip: "\<And>n e s. IE_BITS_TYPE (ie_bits e) = MACH_PORT_TYPE_NONE \<Longrightarrow> f n e s = s"
    and same: "\<And>n e s. IE_BITS_TYPE (ie_bits e) \<noteq> MACH_PORT_TYPE_NONE \<Longrightarrow>
        f n (ipc_entry.truncate e) s = g n (right_of e) s"
  shows "walk_table f t s = fold (\<lambda>(n, e). g n e)
           (map (\<lambda>i. (slot_name t i, right_of (t ! i))) (filter (in_use None t) [0..<length t])) s"
proof -
  let ?h = "\<lambda>i. f (MACH_PORT_MAKEB i (ie_bits (t ! i))) (ipc_entry.truncate (t ! i))"
  have none: "?h i s = s" if "i \<in> set [0..<length t]" "\<not> in_use None t i" for i s
    using that type_none_iff [OF t, of i] by (intro skip) (auto simp: ipc_entry.defs)
  have "walk_table f t s = fold ?h [0..<length t] s" by (simp add: walk_table_def)
  also have "\<dots> = fold ?h (filter (in_use None t) [0..<length t]) s" by (rule fold_skip) (rule none)
  also have "\<dots> = fold (\<lambda>i. g (slot_name t i) (right_of (t ! i))) (filter (in_use None t) [0..<length t]) s"
    by (rule fold_cong) (auto simp: fun_eq_iff same in_use_def slot_name_def MACH_PORT_MAKEB_def)
  finally show ?thesis by (simp add: fold_map o_def)
qed

lemma walk_spec:
  assumes ok: "names_ok addr sizes space None S"
    and skip: "\<And>n e s. IE_BITS_TYPE (ie_bits e) = MACH_PORT_TYPE_NONE \<Longrightarrow> f n e s = s"
    and same: "\<And>n e s. IE_BITS_TYPE (ie_bits e) \<noteq> MACH_PORT_TYPE_NONE \<Longrightarrow>
        f n (ipc_entry.truncate e) s = g n (right_of e) s"
  shows "\<exists>S'. walk f g S s = Some (fold (\<lambda>(n, e). g n e) (listed S) s, S') \<and>
           names_ok addr sizes space None S' \<and> names None S' = names None S \<and> listed S' = listed S \<and> is_live S' = is_live S"
proof -
  let ?s = "walk_table f (is_table S) s"
  have inv: "splay_inv (is_tree S)" using names_okD(4) [OF ok] by (simp add: tree_ok_def)
  obtain tree where tr: "splay_traverse (\<lambda>n e s. (False, g n e s)) (is_tree S) ?s =
      Some (tree, fold (\<lambda>(n, e). g n e) (contents (is_tree S)) ?s)" "splay_inv tree" "contents tree = contents (is_tree S)"
    using traverse_spec [OF inv, of "\<lambda>n e s. (False, g n e s)" ?s] by (auto simp: visit_keep)
  have "walk f g S s = Some (fold (\<lambda>(n, e). g n e) (listed S) s, S\<lparr>is_tree := tree\<rparr>)"
    using tr(1) table_walk [of "is_table S" f g s, OF names_okD(3) [OF ok] skip same] by (simp add: walk_def listed_def)
  moreover have "names_ok addr sizes space None (S\<lparr>is_tree := tree\<rparr>)" "names None (S\<lparr>is_tree := tree\<rparr>) = names None S"
    using names_ok_reorganise [OF ok] tr(2,3) by blast+
  ultimately show ?thesis using tr(3) by (auto simp: listed_def)
qed

text \<open>The walk meets every name once, with its entry, and fewer names than the space has room for.\<close>

lemma listed_names:
  assumes ok: "names_ok addr sizes space None S"
  shows "distinct (map fst (listed S))" "map_of (listed S) = names None S"
    "length (listed S) \<le> is_table_size S + is_tree_total S"
proof -
  let ?t = "is_table S"
  let ?u = "filter (in_use None ?t) [0..<length ?t]"
  let ?m = "map (\<lambda>i. (slot_name ?t i, right_of (?t ! i))) ?u"
  have ix: "name_index (slot_name ?t i) = i" if "i \<in> set ?u" for i
    using that table_size_bound(2) [OF ok] by (intro slot_name_index) auto
  have inj: "inj_on (slot_name ?t) (set ?u)" by (rule inj_on_inverseI [where g = name_index]) (rule ix)
  have "splay_inv (is_tree S)" using names_okD(4) [OF ok] by (simp add: tree_ok_def)
  then have dt: "distinct (map fst (contents (is_tree S)))" by (intro sorted_keys_distinct contents_sorted)
  have sep: "tree_map S (slot_name ?t i) = None" if "i \<in> set ?u" for i
    using that names_okD(5) [OF ok] by (auto simp: collisions_ok_def)
  show "distinct (map fst (listed S))"
    using inj dt sep by (auto simp: listed_def o_def distinct_map tree_map_def map_of_eq_None_iff)
  have "map_of ?m n = (if name_index n \<in> set ?u \<and> slot_name ?t (name_index n) = n
                       then Some (right_of (?t ! name_index n)) else None)" for n
  proof -
    have "distinct (map fst ?m)" using inj by (simp add: o_def distinct_map)
    then show ?thesis using ix
      by (auto simp: map_of_eq_None_iff simp del: set_filter intro!: map_of_is_SomeI image_eqI [where x = "name_index n"])
  qed
  then show "map_of (listed S) = names None S"
    using sep by (auto simp: listed_def names_def map_add_def in_use_def tree_map_def fun_eq_iff split: option.splits)
  have "length ?u \<le> length ?t" using length_filter_le [of "in_use None ?t" "[0..<length ?t]"] by simp
  then show "length (listed S) \<le> is_table_size S + is_tree_total S"
    using names_okD(4) [OF ok] by (simp add: listed_def tree_ok_def)
qed

end
