(* ===== verification/Port_Names.thy ===== *)
theory Port_Names
  imports Space_Walk Right_Account
begin

text \<open>
  What \<^verbatim>\<open>mach_port_names\<close> and \<^verbatim>\<open>mach_port_get_set_status\<close> return: a snapshot of the space that agrees
  with \<^verbatim>\<open>mach_port_type\<close>, and the members of a port set. The memory they allocate is enough.
\<close>

section \<open>Types of entries\<close>

text \<open>The type bits that a call reports for an entry with the given bits and request.\<close>

definition type_report :: "natural_t \<Rightarrow> nat \<Rightarrow> natural_t" where
  "type_report bits request =
     (let type = IE_BITS_TYPE bits;
          type = (if test bits IE_BITS_COMPAT then type OR MACH_PORT_TYPE_COMPAT
                  else if request \<noteq> 0 then type OR MACH_PORT_TYPE_DNREQUEST else type)
      in if test bits IE_BITS_MAREQUEST then type OR MACH_PORT_TYPE_MAREQUEST else type)"

definition died_bits :: "natural_t \<Rightarrow> nat \<Rightarrow> natural_t" where
  "died_bits bits request =
     (let b = (bits AND NOT (IE_BITS_TYPE_MASK OR IE_BITS_MAREQUEST)) OR MACH_PORT_TYPE_DEAD_NAME
      in if request \<noteq> 0 then b + 1 else b)"

definition entry_died :: "natural_t \<Rightarrow> ipc_kernel \<Rightarrow> ipc_entry \<Rightarrow> bool" where
  "entry_died timestamp K entry \<longleftrightarrow> test (ie_bits entry) MACH_PORT_TYPE_SEND_RIGHTS \<and>
     (case ie_object entry of IO_PORT port \<Rightarrow> died_before timestamp (k_ports K port) | _ \<Rightarrow> False)"

lemma names_type_report:
  "names_type timestamp K entry =
     (if entry_died timestamp K entry then
        (if test (ie_bits entry) IE_BITS_COMPAT then None
         else Some (type_report (died_bits (ie_bits entry) (ie_request entry)) 0))
      else Some (type_report (ie_bits entry) (ie_request entry)))"
  unfolding names_type_def entry_died_def [symmetric] type_report_def died_bits_def Let_def by simp

text \<open>The generation and collision bits of a table entry do not matter.\<close>

lemma right_mask_fields:
  "IE_BITS_TYPE (b AND IE_BITS_RIGHT_MASK) = IE_BITS_TYPE b"
  "test (b AND IE_BITS_RIGHT_MASK) IE_BITS_COMPAT = test b IE_BITS_COMPAT"
  "test (b AND IE_BITS_RIGHT_MASK) IE_BITS_MAREQUEST = test b IE_BITS_MAREQUEST"
  by (simp_all add: field_defs mask_defs and.assoc)

lemma type_report_mask: "type_report (b AND IE_BITS_RIGHT_MASK) r = type_report b r"
  by (simp add: type_report_def right_mask_fields)

lemma right_mask_take_bit: "b AND IE_BITS_RIGHT_MASK = take_bit 23 b"
  by (simp add: take_bit_eq_mask mask_eq_exp_minus_1 IE_BITS_RIGHT_MASK_def)

lemma right_mask_incr: "((b AND IE_BITS_RIGHT_MASK) + 1) AND IE_BITS_RIGHT_MASK = (b + 1) AND IE_BITS_RIGHT_MASK"
proof -
  have m: "x mod 2 ^ 32 mod 2 ^ 23 = x mod 2 ^ 23" for x :: nat by (rule mod_mod_cancel) (simp add: le_imp_power_dvd)
  have "unat (take_bit 23 (take_bit 23 b + 1)) = unat (take_bit 23 (b + 1))"
    unfolding unsigned_take_bit_eq unat_word_ariths take_bit_eq_mod by (simp add: m [simplified] mod_simps)
  then show ?thesis unfolding right_mask_take_bit by (simp only: word_unat_eq_iff)
qed

lemma died_bits_mask:
  "died_bits (b AND IE_BITS_RIGHT_MASK) r AND IE_BITS_RIGHT_MASK = died_bits b r AND IE_BITS_RIGHT_MASK"
proof -
  define x where "x = (b AND NOT (IE_BITS_TYPE_MASK OR IE_BITS_MAREQUEST)) OR MACH_PORT_TYPE_DEAD_NAME"
  have "((b AND IE_BITS_RIGHT_MASK) AND NOT (IE_BITS_TYPE_MASK OR IE_BITS_MAREQUEST)) OR MACH_PORT_TYPE_DEAD_NAME =
      x AND IE_BITS_RIGHT_MASK"
    by (simp add: x_def mask_defs type_defs bit.conj_disj_distrib bit.conj_disj_distrib2 and.assoc and.commute and.left_commute)
  then show ?thesis unfolding died_bits_def Let_def x_def [symmetric] using right_mask_incr [of x] by simp
qed

lemma names_type_table: "names_type ts K (ipc_entry.truncate e) = names_type ts K (right_of e)"
proof -
  have "entry_died ts K (ipc_entry.truncate e) = entry_died ts K (right_of e)"
    unfolding entry_died_def by (subst (1 2) test_types) (simp add: ipc_entry.defs)
  moreover have "type_report (died_bits (ie_bits (right_of e)) r) 0 = type_report (died_bits (ie_bits e) r) 0" for r
    using type_report_mask died_bits_mask by (metis right_of_def ipc_entry.select_convs(1))
  ultimately show ?thesis
    by (simp add: names_type_report ipc_entry.defs type_report_mask right_mask_fields) (simp add: right_of_def type_report_mask right_mask_fields)
qed

section \<open>Agreement with \<^verbatim>\<open>mach_port_type\<close>\<close>

text \<open>Every dead port died before the next time stamp is given out.\<close>

definition deaths_stamped :: "ipc_kernel \<Rightarrow> bool" where
  "deaths_stamped K \<longleftrightarrow> (\<forall>p. \<not> ip_active (k_ports K p) \<longrightarrow> died_before (k_timestamp K) (k_ports K p))"

lemma info_report:
  "ipc_right_info s n e K =
     (if test (ie_bits e) MACH_PORT_TYPE_SEND_RIGHTS then do {
        port \<leftarrow> entry_port e;
        (dead, e', K) \<leftarrow> ipc_right_check s port n e K;
        if dead \<and> test (ie_bits e) IE_BITS_COMPAT then Some (Inl KERN_INVALID_NAME, K)
        else Some (Inr (type_report (ie_bits e') (ie_request e'), IE_BITS_UREFS (ie_bits e')), K)
      }
      else Some (Inr (type_report (ie_bits e) (ie_request e), IE_BITS_UREFS (ie_bits e)), K))"
  unfolding ipc_right_info_def type_report_def Let_def by simp

lemma unset_marequest: "\<not> test b IE_BITS_MAREQUEST \<Longrightarrow> b AND NOT IE_BITS_MAREQUEST = b"
proof -
  assume "\<not> test b IE_BITS_MAREQUEST"
  then have "b AND IE_BITS_MAREQUEST = 0" by (simp add: test_def)
  moreover have "b = (b AND IE_BITS_MAREQUEST) OR (b AND NOT IE_BITS_MAREQUEST)"
    by (simp only: bit.conj_disj_distrib [symmetric] bit.disj_cancel_right bit.conj_one_right)
  ultimately show ?thesis by simp
qed

lemma dead_entry_bits:
  assumes "entry_ok e" and "test (ie_bits e) MACH_PORT_TYPE_SEND_RIGHTS"
  shows "ie_bits (dead_entry e) = died_bits (ie_bits e) (ie_request e)" "ie_request (dead_entry e) = 0"
proof -
  have m: "\<not> test (ie_bits e) MACH_PORT_TYPE_SEND \<Longrightarrow> \<not> test (ie_bits e) IE_BITS_MAREQUEST"
    using assms by (cases rule: entry_ok_cases) (auto simp: type_tests)
  have "(if test (ie_bits e) MACH_PORT_TYPE_SEND then ie_bits e AND NOT IE_BITS_MAREQUEST else ie_bits e) =
      ie_bits e AND NOT IE_BITS_MAREQUEST"
    using m unset_marequest by metis
  moreover have "(b AND NOT IE_BITS_MAREQUEST) AND NOT IE_BITS_TYPE_MASK =
      b AND NOT (IE_BITS_TYPE_MASK OR IE_BITS_MAREQUEST)" for b
    by (simp only: bit.de_Morgan_disj ac_simps)
  ultimately show "ie_bits (dead_entry e) = died_bits (ie_bits e) (ie_request e)"
    unfolding dead_entry_def died_bits_def Let_def by simp
  show "ie_request (dead_entry e) = 0" by (simp add: dead_entry_def Let_def)
qed

lemma type_agrees:
  assumes ok: "right_ok K s n e" and live: "is_active (k_spaces K s)" and st: "deaths_stamped K"
  shows "\<exists>K'. mach_port_type (Some s) n K =
           Some (case names_type (k_timestamp K) K e of None \<Rightarrow> Inl KERN_INVALID_NAME | Some t \<Rightarrow> Inr t, K')"
proof -
  have l: "ipc_right_lookup_write s n K = Inr e"
    using right_okD(2) [OF ok] live by (simp add: ipc_right_lookup_write_def)
  show ?thesis
  proof (cases "test (ie_bits e) MACH_PORT_TYPE_SEND_RIGHTS")
    case False
    then have "\<not> entry_died (k_timestamp K) K e" by (simp add: entry_died_def)
    with False l show ?thesis by (simp add: mach_port_type_def info_report names_type_report)
  next
    case True
    with right_okD(1) [OF ok] obtain p where p: "ie_object e = IO_PORT p"
      by (cases rule: entry_ok_cases) (auto simp: type_tests)
    show ?thesis
    proof (cases "ip_active (k_ports K p)")
      case active: True
      then have "\<not> entry_died (k_timestamp K) K e" by (simp add: entry_died_def p died_before_def)
      with True p l active show ?thesis
        by (simp add: mach_port_type_def info_report names_type_report entry_port_def)
    next
      case dead: False
      then have d: "entry_died (k_timestamp K) K e" using True p st by (simp add: entry_died_def deaths_stamped_def)
      obtain e' K' where c: "ipc_right_check s p n e K = Some (True, e', K')"
        "\<not> test (ie_bits e) IE_BITS_COMPAT \<Longrightarrow> e' = dead_entry e"
        using check_dead_books [OF dead right_okD(4) [OF ok]] by blast
      then show ?thesis using True p l d dead_entry_bits [OF right_okD(1) [OF ok] True]
        by (cases "test (ie_bits e) IE_BITS_COMPAT")
           (simp_all add: mach_port_type_def info_report names_type_report entry_port_def)
    qed
  qed
qed

section \<open>The snapshot\<close>

lemma round_page_ge:
  assumes p: "0 < page" and x: "x + page \<le> 2 ^ 32"
  shows "x \<le> round_page page (x mod 2 ^ 32)" "round_page page (x mod 2 ^ 32) < x + page"
proof -
  let ?y = "x + (page - 1)"
  have "x < 2 ^ 32" "?y < 2 ^ 32" using p x by linarith+
  then have r: "round_page page (x mod 2 ^ 32) = ?y div page * page" by (simp add: round_page_def)
  have "?y mod page \<le> page - 1" using p by (simp add: less_Suc_eq_le [symmetric])
  moreover have "?y div page * page + ?y mod page = ?y" by (rule div_mult_mod_eq)
  ultimately show "x \<le> round_page page (x mod 2 ^ 32)" "round_page page (x mod 2 ^ 32) < x + page"
    unfolding r using p by linarith+
qed

lemma names_memory_enough:
  assumes "0 < page" and "is_live S" and "\<not> vm 0" and "(is_table_size S + is_tree_total S) * 4 + page \<le> 2 ^ 32"
  obtains sz where "names_memory page vm S 0 0 = Inr sz" "is_table_size S + is_tree_total S \<le> sz div 4"
proof -
  let ?b = "is_table_size S + is_tree_total S"
  let ?n = "round_page page (?b * 4 mod 2 ^ 32)"
  have n: "?b * 4 \<le> ?n" by (rule round_page_ge(1) [OF assms(1,4)])
  have "names_memory page vm S 0 0 = Inr ?n"
  proof (cases "?n \<le> 0")
    case True
    then show ?thesis using assms(2) by (subst names_memory.simps) (simp only: Let_def if_True if_False simp_thms, simp)
  next
    case False
    then have "names_memory page vm S 0 0 = names_memory page vm S 1 ?n"
      using assms(2,3) by (subst names_memory.simps) (simp only: Let_def if_True if_False simp_thms, simp)
    also have "\<dots> = Inr ?n" using assms(2) by (subst names_memory.simps) (simp only: Let_def if_True if_False simp_thms, simp)
    finally show ?thesis .
  qed
  moreover have "?b \<le> ?n div 4" using div_le_mono [OF n, of 4] by simp
  ultimately show thesis by (rule that)
qed

definition snapshot :: "natural_t \<Rightarrow> ipc_kernel \<Rightarrow> (mach_port_t \<times> ipc_entry) list \<Rightarrow> (mach_port_t \<times> natural_t) list" where
  "snapshot ts K = List.map_filter (\<lambda>(n, e). map_option (Pair n) (names_type ts K e))"

lemma snapshot_simps [simp]:
  "snapshot ts K [] = []"
  "snapshot ts K ((n, e) # xs) =
     (case names_type ts K e of None \<Rightarrow> snapshot ts K xs | Some t \<Rightarrow> (n, t) # snapshot ts K xs)"
  by (simp_all add: snapshot_def split: option.splits)

lemma helper_fold:
  "length out + length xs \<le> room \<Longrightarrow>
     fold (\<lambda>(n, e). mach_port_names_helper room ts K n e) xs (Some out) = Some (out @ snapshot ts K xs)"
proof (induction xs arbitrary: out)
  case (Cons x xs)
  obtain n e where x: "x = (n, e)" by force
  show ?case
  proof (cases "names_type ts K e")
    case None
    with Cons show ?thesis by (simp add: x mach_port_names_helper_def)
  next
    case (Some t)
    with Cons.prems Cons.IH [of "out @ [(n, t)]"] show ?thesis by (simp add: x mach_port_names_helper_def)
  qed
qed simp

lemma in_snapshot: "(n, t) \<in> set (snapshot ts K xs) \<longleftrightarrow> (\<exists>e. (n, e) \<in> set xs \<and> names_type ts K e = Some t)"
  by (induction xs) (auto split: option.splits)

lemma snapshot_distinct: "distinct (map fst xs) \<Longrightarrow> distinct (map fst (snapshot ts K xs))"
  by (induction xs) (auto simp: in_snapshot image_iff Bex_def split: option.splits)

lemma names_type_stamp: "names_type ts (K\<lparr>k_timestamp := x\<rparr>) = names_type ts K"
proof
  fix e
  have "entry_died ts (K\<lparr>k_timestamp := x\<rparr>) e = entry_died ts K e"
    by (cases "ie_object e") (simp_all add: entry_died_def)
  then show "names_type ts (K\<lparr>k_timestamp := x\<rparr>) e = names_type ts K e" by (simp only: names_type_report)
qed

lemma names_snapshot:
  assumes ok: "names_ok addr sizes s None S" and "0 < page" and "\<not> vm 0"
    and "(is_table_size S + is_tree_total S) * 4 + page \<le> 2 ^ 32"
  shows "\<exists>S'. mach_port_names page vm (Some S) K =
             Some (Inr (snapshot (k_timestamp K) K (listed S)), Some S', K\<lparr>k_timestamp := k_timestamp K + 1\<rparr>) \<and>
           names_ok addr sizes s None S' \<and> names None S' = names None S"
proof -
  let ?K = "K\<lparr>k_timestamp := k_timestamp K + 1\<rparr>"
  have live: "is_live S" using names_okD(2) [OF ok] by (simp add: sizes_ok_for_def)
  obtain sz where sz: "names_memory page vm S 0 0 = Inr sz" "is_table_size S + is_tree_total S \<le> sz div 4"
    using names_memory_enough [where vm = vm, OF assms(2) live assms(3,4)] .
  let ?g = "mach_port_names_helper (sz div 4) (k_timestamp K) ?K"
  let ?f = "\<lambda>name entry out. if IE_BITS_TYPE (ie_bits entry) \<noteq> MACH_PORT_TYPE_NONE then ?g name entry out else out"
  have same: "?f n (ipc_entry.truncate e) out = ?g n (right_of e) out"
    if "IE_BITS_TYPE (ie_bits e) \<noteq> MACH_PORT_TYPE_NONE" for n out and e :: ipc_table_entry
    using that by (simp add: mach_port_names_helper_def names_type_table) (simp add: ipc_entry.defs)
  have skip: "?f n e out = out" if "IE_BITS_TYPE (ie_bits e) = MACH_PORT_TYPE_NONE" for n e out using that by simp
  obtain S' where S': "walk ?f ?g S (Some []) = Some (fold (\<lambda>(n, e). ?g n e) (listed S) (Some []), S')"
    "names_ok addr sizes s None S'" "names None S' = names None S"
    using walk_spec [OF ok, of ?f ?g "Some []", OF skip same] by auto
  have "fold (\<lambda>(n, e). ?g n e) (listed S) (Some []) = Some (snapshot (k_timestamp K) ?K (listed S))"
    using helper_fold [of "[]" "listed S" "sz div 4"] listed_names(3) [OF ok] sz(2) by simp
  then have "mach_port_names page vm (Some S) K = Some (Inr (snapshot (k_timestamp K) ?K (listed S)), Some S', ?K)"
    using S'(1) by (simp add: mach_port_names_def sz(1) ipc_port_timestamp_def)
  then show ?thesis using S'(2,3) by (auto simp: snapshot_def names_type_stamp)
qed

text \<open>
  C39: \<^verbatim>\<open>mach_port_names\<close> on a well-formed space that does not use the name 255 (which lookups do not find), with
  memory for the answer and not so many names that its size would wrap around, never stores outside of the memory it allocated
  and returns every name of the space once, with exactly the type that \<^verbatim>\<open>mach_port_type\<close> returns for it; the
  names it leaves out are those for which \<^verbatim>\<open>mach_port_type\<close> fails. The space keeps its names. Every dead port must have
  died before the present time stamp, which the wrapping comparison of time stamps only sees for deaths fewer than
  \<open>2\<^sup>31\<close> stamps ago.
\<close>

theorem names_agree_with_type:
  assumes "names_ok addr sizes s None S" and "entries K s = names None S" and "is_active (k_spaces K s)"
    and "\<And>n e. names None S n = Some e \<Longrightarrow> right_ok K s n e" and "deaths_stamped K"
    and "names None S 255 = None" and "0 < page" and "\<not> vm 0" and "(is_table_size S + is_tree_total S) * 4 + page \<le> 2 ^ 32"
  shows "\<exists>out S'. mach_port_names page vm (Some S) K =
             Some (Inr out, Some S', K\<lparr>k_timestamp := k_timestamp K + 1\<rparr>) \<and>
           distinct (map fst out) \<and>
           (\<forall>n t. (n, t) \<in> set out \<longleftrightarrow> (\<exists>K'. mach_port_type (Some s) n K = Some (Inr t, K'))) \<and>
           names_ok addr sizes s None S' \<and> names None S' = names None S"
proof -
  let ?out = "snapshot (k_timestamp K) K (listed S)"
  note l = listed_names [OF assms(1)]
  have mem: "(n, e) \<in> set (listed S) \<longleftrightarrow> names None S n = Some e" for n e
    using map_of_eq_Some_iff [OF l(1), of n e] by (simp add: l(2))
  have "(n, t) \<in> set ?out \<longleftrightarrow> (\<exists>K'. mach_port_type (Some s) n K = Some (Inr t, K'))" for n t
  proof (cases "names None S n")
    case None
    then have "mach_port_type (Some s) n K = Some (Inl KERN_INVALID_NAME, K)"
      using assms(2,3) by (simp add: mach_port_type_def ipc_right_lookup_write_def)
    with None show ?thesis by (simp add: in_snapshot mem)
  next
    case (Some e)
    then show ?thesis
      using type_agrees [OF assms(4) [OF Some] assms(3,5)] by (auto simp: in_snapshot mem split: option.splits)
  qed
  moreover have "distinct (map fst ?out)" by (rule snapshot_distinct [OF l(1)])
  ultimately show ?thesis using names_snapshot [where vm = vm and K = K, OF assms(1,7-9)] by blast
qed

text \<open>The small space with one more right.\<close>

lemma demo_enter:
  assumes ok: "names_ok demo_addr demo_sizes 1 None S"
    and few: "finite (dom (names None S))" "card (dom (names None S)) \<le> 2"
    and e: "right_only (ie_bits e)" "IE_BITS_TYPE (ie_bits e) \<noteq> MACH_PORT_TYPE_NONE"
      "IE_BITS_TYPE (ie_bits e) \<noteq> MACH_PORT_TYPE_SEND"
  shows "\<exists>n S'. names_ok demo_addr demo_sizes 1 None S' \<and> names None S' = (names None S)(n \<mapsto> e) \<and>
           names None S n = None \<and> n \<noteq> 255"
proof -
  let ?t = "is_table S"
  have "4 \<le> length ?t"
    using names_okD(2) [OF ok] by (auto simp: sizes_ok_for_def its_size_def demo_sizes_def nth_Cons split: nat.splits)
  have "\<exists>i\<in>{1, 2, 3}. free_index None ?t i"
  proof (rule ccontr)
    assume "\<not> (\<exists>i\<in>{1, 2, 3}. free_index None ?t i)"
    then have u: "in_use None ?t i" if "i \<in> {1, 2, 3}" for i
      using that \<open>4 \<le> length ?t\<close> by (auto simp: in_use_def free_index_def)
    have ix: "name_index (slot_name ?t i) = i" if "i \<in> {1, 2, 3}" for i using that by auto
    have "slot_name ?t ` {1, 2, 3} \<subseteq> dom (names None S)" using u ix by (auto simp: names_def)
    then have "card (slot_name ?t ` {1, 2, 3}) \<le> 2" using card_mono [OF few(1)] few(2) le_trans by blast
    moreover have "inj_on (slot_name ?t) {1, 2, 3}" by (rule inj_on_inverseI [where g = name_index]) (rule ix)
    then have "card (slot_name ?t ` {1, 2, 3}) = card {1, 2, 3 :: nat}" by (rule card_image)
    ultimately show False by simp
  qed
  then obtain n j S1 where g: "ipc_entry_get S = Inr (n, j, S1)" "names_ok demo_addr demo_sizes 1 (Some (In_Table j)) S1"
    "names (Some (In_Table j)) S1 = names None S" "names None S n = None" "n = slot_name (is_table S1) j"
    "j < is_table_size S" "0 < j"
    using entry_get_spec [OF ok] by (auto split: sum.splits prod.splits)
  obtain S' where S': "names_ok demo_addr demo_sizes 1 None S'" "names None S' = (names None S)(n \<mapsto> e)"
    using entry_enter_spec [OF g(2) e(1,2)] e(3) by (auto simp: g(3,5) ref_name_def)
  have "name_index n = j" unfolding g(5) using table_size_bound(2) [OF ok g(6)] by simp
  moreover have "name_index 255 = 0" by (simp add: name_index_div)
  ultimately have "n \<noteq> 255" using g(7) by auto
  with S' g(4) show ?thesis by blast
qed

lemma few_names:
  assumes "names_ok addr sizes s None S"
  shows "is_table_size S \<le> 2 ^ 24" "is_tree_total S \<le> card (dom (names None S))"
proof -
  note l = listed_names [OF assms]
  show "is_table_size S \<le> 2 ^ 24" using table_size_bound(1) [OF assms] by simp
  have "card (dom (names None S)) = length (map fst (listed S))"
    unfolding l(2) [symmetric] dom_map_of_conv_image_fst using distinct_card [OF l(1)] by simp
  moreover have "is_tree_total S \<le> length (listed S)"
    using names_okD(4) [OF assms] by (simp add: tree_ok_def listed_def)
  ultimately show "is_tree_total S \<le> card (dom (names None S))" by simp
qed

theorem names_agree_with_type_witness:
  "\<exists>n S out S' K'. names None S = [n \<mapsto> demo_right] \<and>
     mach_port_names 4096 (\<lambda>_. False) (Some S) (set_entry 1 n demo_right kernel0) = Some (Inr out, Some S', K') \<and>
     set out = {(n, MACH_PORT_TYPE_RECEIVE)}"
proof -
  obtain n S where S: "names_ok demo_addr demo_sizes 1 None S" "names None S = [n \<mapsto> demo_right]" "names None S 255 = None"
    using demo_enter [OF demo_ok(1) _ _ demo_enterable(1-3)] unfolding demo_ok(2) by auto
  have room: "(is_table_size S + is_tree_total S) * 4 + 4096 \<le> 2 ^ 32"
    using few_names [OF S(1)] by (simp add: S(2))
  let ?K = "set_entry 1 n demo_right kernel0"
  have K: "entries ?K 1 = names None S" unfolding S(2) by (simp add: entries_def state0_defs fun_eq_iff)
  have act: "is_active (k_spaces ?K 1)" by (simp add: upd_defs state0_defs)
  have ok: "right_ok ?K 1 m e" if "names None S m = Some e" for m e
    using that K unfolding S(2)
    by (auto simp: right_ok_def request_ok_def port_dn_ok_def marequest_ok_def entry_ok_def demo_right_def entry_port_def
        bits_defs state0_defs split: if_splits)
  have st: "deaths_stamped ?K" by (simp add: deaths_stamped_def state0_defs)
  obtain out S' where out: "mach_port_names 4096 (\<lambda>_. False) (Some S) ?K =
      Some (Inr out, Some S', ?K\<lparr>k_timestamp := k_timestamp ?K + 1\<rparr>)"
    "\<And>m t. (m, t) \<in> set out \<longleftrightarrow> (\<exists>K'. mach_port_type (Some 1) m ?K = Some (Inr t, K'))"
    using names_agree_with_type [OF S(1) K act ok st S(3), of 4096 "\<lambda>_. False"] room by auto
  have "mach_port_type (Some 1) m ?K =
      Some (if m = n then Inr MACH_PORT_TYPE_RECEIVE else Inl KERN_INVALID_NAME, ?K)" for m
    using act by (simp add: mach_port_type_def ipc_right_lookup_write_def K S(2) ipc_right_info_def Let_def demo_right_def bits_defs)
  then have "set out = {(n, MACH_PORT_TYPE_RECEIVE)}" using out(2) by (auto split: if_splits)
  with S(2) out(1) show ?thesis by blast
qed

section \<open>The members of a port set\<close>

definition is_member :: "pset_id \<Rightarrow> ipc_kernel \<Rightarrow> ipc_entry \<Rightarrow> bool" where
  "is_member ps K e \<longleftrightarrow> test (ie_bits e) MACH_PORT_TYPE_RECEIVE \<and>
     (\<exists>p. ie_object e = IO_PORT p \<and> ip_pset (k_ports K p) = Some ps)"

definition receiver_name :: "ipc_kernel \<Rightarrow> ipc_entry \<Rightarrow> mach_port_t" where
  "receiver_name K e = (case ie_object e of IO_PORT p \<Rightarrow> ip_receiver_name (k_ports K p) | _ \<Rightarrow> MACH_PORT_NULL)"

definition members :: "pset_id \<Rightarrow> ipc_kernel \<Rightarrow> (mach_port_t \<times> ipc_entry) list \<Rightarrow> mach_port_t list" where
  "members ps K xs = map (receiver_name K \<circ> snd) (filter (is_member ps K \<circ> snd) xs)"

lemma gst_visit_cases:
  "gst_visit ps K m n e (out, a) =
     (if is_member ps K e then (if a < m then out @ [receiver_name K e] else out, a + 1) else (out, a))"
  by (cases "ie_object e") (simp_all add: gst_visit_def mach_port_gst_helper_def is_member_def receiver_name_def)

lemma gst_fold:
  "fold (\<lambda>(n, e). gst_visit ps K m n e) xs (out, a) =
     (out @ take (m - a) (members ps K xs), a + length (members ps K xs))"
proof (induction xs arbitrary: out a)
  case (Cons x xs)
  obtain n e where x: "x = (n, e)" by force
  show ?case
  proof (cases "is_member ps K e \<and> a < m")
    case True
    then have "m - a = Suc (m - Suc a)" by (simp add: Suc_diff_Suc)
    with True show ?thesis using Cons.IH by (simp add: x gst_visit_cases members_def)
  next
    case False
    then show ?thesis using Cons.IH by (auto simp: x gst_visit_cases members_def)
  qed
qed (simp add: members_def)

lemma gst_visit_skip: "IE_BITS_TYPE (ie_bits e) = MACH_PORT_TYPE_NONE \<Longrightarrow> gst_visit ps K m n e s = s"
  unfolding gst_visit_def by (subst test_types(2)) (simp add: test_def MACH_PORT_TYPE_NONE_def)

lemma gst_visit_table: "gst_visit ps K m n (ipc_entry.truncate e) s = gst_visit ps K m n (right_of e) s"
proof -
  have "test (ie_bits (right_of e)) MACH_PORT_TYPE_RECEIVE = test (ie_bits e) MACH_PORT_TYPE_RECEIVE"
    by (subst (1 2) test_types(2)) simp
  then have "is_member ps K (ipc_entry.truncate e) = is_member ps K (right_of e)"
    by (simp add: is_member_def ipc_entry.defs)
  moreover have "receiver_name K (ipc_entry.truncate e) = receiver_name K (right_of e)"
    by (simp add: receiver_name_def ipc_entry.defs)
  ultimately show ?thesis by (cases s) (simp add: gst_visit_cases)
qed

text \<open>The ports of a space know the names of their receive rights.\<close>

definition receivers_named :: "ipc_kernel \<Rightarrow> (mach_port_t \<rightharpoonup> ipc_entry) \<Rightarrow> bool" where
  "receivers_named K M \<longleftrightarrow> (\<forall>n e p. M n = Some e \<and> test (ie_bits e) MACH_PORT_TYPE_RECEIVE \<and>
     ie_object e = IO_PORT p \<longrightarrow> ip_receiver_name (k_ports K p) = n)"

definition member_names :: "pset_id \<Rightarrow> ipc_kernel \<Rightarrow> (mach_port_t \<rightharpoonup> ipc_entry) \<Rightarrow> mach_port_t set" where
  "member_names ps K M = {n. \<exists>e. M n = Some e \<and> is_member ps K e}"

lemma members_listed:
  assumes ok: "names_ok addr sizes s None S" and rn: "receivers_named K (names None S)"
  shows "distinct (members ps K (listed S))" "set (members ps K (listed S)) = member_names ps K (names None S)"
proof -
  note l = listed_names [OF ok]
  have mem: "(n, e) \<in> set (listed S) \<longleftrightarrow> names None S n = Some e" for n e
    using map_of_eq_Some_iff [OF l(1), of n e] by (simp add: l(2))
  have "members ps K (listed S) = map fst (filter (is_member ps K \<circ> snd) (listed S))"
    unfolding members_def using mem rn by (auto simp: receivers_named_def is_member_def receiver_name_def)
  then show "distinct (members ps K (listed S))" "set (members ps K (listed S)) = member_names ps K (names None S)"
    using l(1) mem by (auto simp: distinct_map_filter member_names_def image_iff)
qed

text \<open>One round of the loop: the members are counted, and returned if there is room for them.\<close>

lemma gst_round:
  assumes ok: "names_ok addr sizes s None S" and rn: "receivers_named K (names None S)" and n: "n \<noteq> 255"
    and e: "names None S n = Some e" "IE_BITS_TYPE (ie_bits e) = MACH_PORT_TYPE_PORT_SET" "ie_object e = IO_PSET ps"
    and vm: "\<not> vm i"
  shows "\<exists>out S'. names_ok addr sizes s None S' \<and> names None S' = names None S \<and> distinct out \<and>
           set out = member_names ps K (names None S) \<and>
           gst_loop page vm i sz n S K =
             (if length out \<le> sz div 4 then Some (Inr out, S')
              else gst_loop page vm (i + 1) ((round_page page (length out * 4 mod 2 ^ 32) + page) mod 2 ^ 32) n S' K)"
proof -
  obtain r S1 where l: "ipc_entry_lookup S n = (r, S1)" by force
  have S1: "names_ok addr sizes s None S1" "names None S1 = names None S"
    and r: "case r of None \<Rightarrow> False | Some ref \<Rightarrow> entry_at S1 ref = Some e"
    using lookup_spec_names [OF ok n l] e(1) by (auto split: option.splits)
  then obtain ref where ref: "r = Some ref" "entry_at S1 ref = Some e" by (auto split: option.splits)
  have live: "is_live S" using names_okD(2) [OF ok] by (simp add: sizes_ok_for_def)
  let ?v = "gst_visit ps K (sz div 4)"
  let ?out = "members ps K (listed S1)"
  obtain S' where S': "walk ?v ?v S1 ([], 0) = Some (fold (\<lambda>(n, e). ?v n e) (listed S1) ([], 0), S')"
    "names_ok addr sizes s None S'" "names None S' = names None S1"
    using walk_spec [OF S1(1), of ?v ?v, OF gst_visit_skip gst_visit_table] by blast
  have "gst_loop page vm i sz n S K =
      (if length ?out \<le> sz div 4 then Some (Inr ?out, S')
       else gst_loop page vm (i + 1) ((round_page page (length ?out * 4 mod 2 ^ 32) + page) mod 2 ^ 32) n S' K)"
    by (subst gst_loop.simps) (use vm live l ref e(2,3) S'(1) in \<open>simp add: entry_pset_def gst_fold\<close>)
  moreover note members_listed [OF S1(1), of K ps, unfolded S1(2), OF rn]
  ultimately show ?thesis using S'(2,3) S1(2) by metis
qed

text \<open>
  C40: \<^verbatim>\<open>mach_port_get_set_status\<close> for the name of a port set other than 255 (which lookups do not find), in a
  well-formed space whose receive rights are under the names their ports record, returns after at most two rounds of its
  allocation loop when memory is available in both and its size does not wrap around: with exactly the names of the receive
  rights in the set, each once.
\<close>

theorem set_status_members:
  assumes "names_ok addr sizes s None S" and "receivers_named K (names None S)" and "n \<noteq> 255"
    and "names None S n = Some e" and "IE_BITS_TYPE (ie_bits e) = MACH_PORT_TYPE_PORT_SET" and "ie_object e = IO_PSET ps"
    and "0 < page" and "\<not> vm 0" and "\<not> vm 1" and "card (member_names ps K (names None S)) * 4 + 2 * page \<le> 2 ^ 32"
  shows "\<exists>out S'. mach_port_get_set_status page vm (Some S) n K = Some (Inr out, Some S') \<and>
           distinct out \<and> set out = member_names ps K (names None S) \<and>
           names_ok addr sizes s None S' \<and> names None S' = names None S"
proof -
  let ?M = "member_names ps K (names None S)"
  obtain out S1 where r1: "names_ok addr sizes s None S1" "names None S1 = names None S" "distinct out" "set out = ?M"
    "gst_loop page vm 0 page n S K =
       (if length out \<le> page div 4 then Some (Inr out, S1)
        else gst_loop page vm 1 ((round_page page (length out * 4 mod 2 ^ 32) + page) mod 2 ^ 32) n S1 K)"
    using gst_round [where vm = vm and i = 0 and sz = page and page = page, OF assms(1-6,8)] by auto
  show ?thesis
  proof (cases "length out \<le> page div 4")
    case True
    with r1 show ?thesis by (auto simp: mach_port_get_set_status_def)
  next
    case False
    let ?sz = "(round_page page (length out * 4 mod 2 ^ 32) + page) mod 2 ^ 32"
    obtain out' S2 where r2: "names_ok addr sizes s None S2" "names None S2 = names None S" "distinct out'" "set out' = ?M"
      "gst_loop page vm 1 ?sz n S1 K =
         (if length out' \<le> ?sz div 4 then Some (Inr out', S2)
          else gst_loop page vm (1 + 1) ((round_page page (length out' * 4 mod 2 ^ 32) + page) mod 2 ^ 32) n S2 K)"
      using gst_round [where vm = vm and i = 1 and sz = ?sz and page = page, OF r1(1), unfolded r1(2), OF assms(2-6,9)] by blast
    have "length out' = length out" using r1(3,4) r2(3,4) by (metis distinct_card)
    moreover have few: "length out * 4 + 2 * page \<le> 2 ^ 32" using assms(10) distinct_card [OF r1(3)] r1(4) by simp
    have "length out * 4 + page \<le> 2 ^ 32" using few by linarith
    note rp = round_page_ge [OF assms(7) this]
    have "?sz = round_page page (length out * 4 mod 2 ^ 32) + page" by (rule mod_less) (use rp(2) few in linarith)
    then have "length out * 4 \<le> ?sz" using rp(1) by linarith
    then have "length out \<le> ?sz div 4" by (rule less_eq_div_iff_mult_less_eq [THEN iffD2, rotated]) simp
    ultimately have "gst_loop page vm 1 ?sz n S1 K = Some (Inr out', S2)" using r2(5) by (simp only: if_True)
    then have "gst_loop page vm 0 page n S K = Some (Inr out', S2)" using r1(5) False by (simp only: if_False)
    with r2(1-4) show ?thesis by (simp add: mach_port_get_set_status_def)
  qed
qed

definition demo_set :: ipc_entry where
  "demo_set = \<lparr>ie_bits = MACH_PORT_TYPE_PORT_SET, ie_object = IO_PSET 3, ie_request = 0\<rparr>"

lemma demo_set_enterable:
  "right_only (ie_bits demo_set)" "IE_BITS_TYPE (ie_bits demo_set) = MACH_PORT_TYPE_PORT_SET"
  "IE_BITS_TYPE (ie_bits demo_set) \<noteq> MACH_PORT_TYPE_NONE" "IE_BITS_TYPE (ie_bits demo_set) \<noteq> MACH_PORT_TYPE_SEND"
  by (simp_all add: demo_set_def right_only_def field_defs mask_defs type_defs)

theorem set_status_members_witness:
  "\<exists>n m S S'. names None S = [n \<mapsto> demo_set, m \<mapsto> demo_right] \<and>
     mach_port_get_set_status 4096 (\<lambda>_. False) (Some S) n
       (upd_port 7 (\<lambda>p. p\<lparr>ip_pset := Some 3, ip_receiver_name := m\<rparr>) kernel0) = Some (Inr [m], Some S')"
proof -
  obtain n S0 where S0: "names_ok demo_addr demo_sizes 1 None S0" "names None S0 = [n \<mapsto> demo_set]" "n \<noteq> 255"
    using demo_enter [OF demo_ok(1) _ _ demo_set_enterable(1,3,4)] unfolding demo_ok(2) by auto
  obtain m S where S: "names_ok demo_addr demo_sizes 1 None S" "names None S = [n \<mapsto> demo_set, m \<mapsto> demo_right]" "m \<noteq> n"
    using demo_enter [OF S0(1) _ _ demo_enterable(1-3)] unfolding S0(2) by (auto split: if_splits)
  let ?K = "upd_port 7 (\<lambda>p. p\<lparr>ip_pset := Some 3, ip_receiver_name := m\<rparr>) kernel0"
  have t: "\<not> test (ie_bits demo_set) MACH_PORT_TYPE_RECEIVE" "test (ie_bits demo_right) MACH_PORT_TYPE_RECEIVE"
    by (simp_all add: demo_set_def demo_right_def bits_defs)
  have rn: "receivers_named ?K (names None S)"
    unfolding receivers_named_def S(2) using t(1) by (auto simp: demo_right_def split: if_splits)
  have "member_names 3 ?K (names None S) = {m}"
    unfolding member_names_def is_member_def S(2) using t S(3) by (auto simp: demo_right_def split: if_splits)
  moreover have n: "names None S n = Some demo_set" "ie_object demo_set = IO_PSET 3" using S(2,3) by (simp_all add: demo_set_def)
  ultimately obtain out S' where out: "mach_port_get_set_status 4096 (\<lambda>_. False) (Some S) n ?K = Some (Inr out, Some S')"
    "distinct out" "set out = {m}"
    using set_status_members [OF S(1) rn S0(3) n(1) demo_set_enterable(2) n(2), of 4096 "\<lambda>_. False"] by auto
  have "length out = 1" using distinct_card [OF out(2)] out(3) by simp
  then have "out = [m]" using out(3) by (cases out) auto
  with S(2) out(1) show ?thesis by blast
qed

end
