(* ===== verification/Object_Wf.thy ===== *)
theory Object_Wf
  imports Right_Account
begin

text \<open>
  The invariant of the capability system as the object layer keeps it: every entry is
  well-formed, the reverse hash holds exactly the pure send rights, and the receive right of a
  live port is where the port says it is.
\<close>

section \<open>The invariant\<close>

definition send_at :: "ipc_kernel \<Rightarrow> space_id \<Rightarrow> mach_port_t \<Rightarrow> port_id \<Rightarrow> bool" where
  "send_at K s n p \<longleftrightarrow>
     holds (\<lambda>e. IE_BITS_TYPE (ie_bits e) = MACH_PORT_TYPE_SEND \<and> ie_object e = IO_PORT p) (entries K s n)"

definition receive_at :: "ipc_kernel \<Rightarrow> space_id \<Rightarrow> mach_port_t \<Rightarrow> port_id \<Rightarrow> bool" where
  "receive_at K s n p \<longleftrightarrow>
     holds (\<lambda>e. test (ie_bits e) MACH_PORT_TYPE_RECEIVE \<and> ie_object e = IO_PORT p) (entries K s n)"

text \<open>What a port knows of its receive right.\<close>

definition receiver :: "ipc_port \<Rightarrow> bool \<times> ip_data \<times> mach_port_t" where
  "receiver p = (ip_active p, ip_data p, ip_receiver_name p)"

definition port_wf :: "ipc_kernel \<Rightarrow> port_id \<Rightarrow> bool" where
  "port_wf K p \<longleftrightarrow>
     (\<forall>s n. k_hash K s p = Some n \<longleftrightarrow> send_at K s n p) \<and>
     (\<forall>s n. receive_at K s n p \<longrightarrow>
        receiver (k_ports K p) = (True, Ip_Receiver s, n) \<and> k_hash K s p = None) \<and>
     (\<forall>s n. is_active (k_spaces K s) \<and> receiver (k_ports K p) = (True, Ip_Receiver s, n) \<longrightarrow>
        receive_at K s n p)"

definition kernel_wf :: "ipc_kernel \<Rightarrow> bool" where
  "kernel_wf K \<longleftrightarrow> (\<forall>s n e. entries K s n = Some e \<longrightarrow> entry_ok e) \<and> (\<forall>p. port_wf K p)"

lemma kernel_wfD:
  assumes "kernel_wf K"
  shows "entries K s n = Some e \<Longrightarrow> entry_ok e" "port_wf K p"
  using assms by (auto simp: kernel_wf_def)

lemma port_wfD:
  assumes "port_wf K p"
  shows "k_hash K s p = Some n \<longleftrightarrow> send_at K s n p"
    "receive_at K s n p \<Longrightarrow> receiver (k_ports K p) = (True, Ip_Receiver s, n) \<and> k_hash K s p = None"
    "is_active (k_spaces K s) \<Longrightarrow> receiver (k_ports K p) = (True, Ip_Receiver s, n) \<Longrightarrow> receive_at K s n p"
  using assms unfolding port_wf_def by blast+

text \<open>The parts of the state the invariant speaks of.\<close>

definition same_rights :: "ipc_kernel \<Rightarrow> ipc_kernel \<Rightarrow> bool" where
  "same_rights K K' \<longleftrightarrow> entries K' = entries K \<and> k_hash K' = k_hash K \<and>
     (\<forall>s. is_active (k_spaces K' s) = is_active (k_spaces K s)) \<and>
     (\<forall>p. receiver (k_ports K' p) = receiver (k_ports K p))"

lemma kernel_wf_cong: "same_rights K K' \<Longrightarrow> kernel_wf K' \<longleftrightarrow> kernel_wf K"
  by (simp add: kernel_wf_def port_wf_def send_at_def receive_at_def same_rights_def)

text \<open>One entry changes, and only the port \<open>p\<close> and its hash entry in this space with it.\<close>

lemma kernel_wf_update:
  assumes "kernel_wf K" and "entries K' = (entries K)(s := (entries K s)(n := x))"
    and "\<And>e. x = Some e \<Longrightarrow> entry_ok e"
    and "\<And>e q. entries K s n = Some e \<or> x = Some e \<Longrightarrow> ie_object e = IO_PORT q \<Longrightarrow> q = p"
    and "\<And>s' q. q \<noteq> p \<Longrightarrow> k_hash K' s' q = k_hash K s' q"
    and "\<And>q. q \<noteq> p \<Longrightarrow> receiver (k_ports K' q) = receiver (k_ports K q)"
    and "\<And>s'. is_active (k_spaces K' s') = is_active (k_spaces K s')"
    and "port_wf K' p"
  shows "kernel_wf K'"
proof -
  have at: "send_at K' s' m q = send_at K s' m q" "receive_at K' s' m q = receive_at K s' m q" if "q \<noteq> p" for s' m q
    using that assms(4) by (auto simp: send_at_def receive_at_def assms(2))
  have "port_wf K' q" for q
  proof (cases "q = p")
    case False
    have "port_wf K' q = port_wf K q"
      unfolding port_wf_def at [OF False] assms(5) [OF False] assms(6) [OF False] assms(7) ..
    then show ?thesis using kernel_wfD(2) [OF assms(1)] by blast
  qed (use assms(8) in simp)
  moreover have "entry_ok e" if "entries K' s' m = Some e" for s' m e
    using that assms(3) kernel_wfD(1) [OF assms(1)] by (auto simp: assms(2) split: if_splits)
  ultimately show ?thesis by (auto simp: kernel_wf_def)
qed

section \<open>How the rights to one port change\<close>

abbreviation send_entry :: "port_id \<Rightarrow> ipc_entry \<Rightarrow> bool" where
  "send_entry p e \<equiv> IE_BITS_TYPE (ie_bits e) = MACH_PORT_TYPE_SEND \<and> ie_object e = IO_PORT p"

abbreviation receive_entry :: "port_id \<Rightarrow> ipc_entry \<Rightarrow> bool" where
  "receive_entry p e \<equiv> test (ie_bits e) MACH_PORT_TYPE_RECEIVE \<and> ie_object e = IO_PORT p"

lemma port_wf_change:
  assumes E: "entries K' = (entries K)(s := (entries K s)(n := x))"
    and "\<And>s' m. k_hash K' s' p = Some m \<longleftrightarrow> (if s' = s \<and> m = n then holds (send_entry p) x else send_at K s' m p)"
    and "holds (receive_entry p) x \<Longrightarrow> receiver (k_ports K' p) = (True, Ip_Receiver s, n) \<and> k_hash K' s p = None"
    and "\<And>s' m. receive_at K s' m p \<Longrightarrow> \<not> (s' = s \<and> m = n) \<Longrightarrow>
           receiver (k_ports K' p) = (True, Ip_Receiver s', m) \<and> k_hash K' s' p = None"
    and "\<And>s' m. is_active (k_spaces K' s') \<Longrightarrow> receiver (k_ports K' p) = (True, Ip_Receiver s', m) \<Longrightarrow>
           (if s' = s \<and> m = n then holds (receive_entry p) x else receive_at K s' m p)"
  shows "port_wf K' p"
proof -
  have S: "send_at K' s' m p \<longleftrightarrow> (if s' = s \<and> m = n then holds (send_entry p) x else send_at K s' m p)" for s' m
    by (simp add: send_at_def E)
  have R: "receive_at K' s' m p \<longleftrightarrow> (if s' = s \<and> m = n then holds (receive_entry p) x else receive_at K s' m p)" for s' m
    by (simp add: receive_at_def E)
  show ?thesis
    unfolding port_wf_def S R using assms(2-5) by (intro conjI allI impI) (auto split: if_splits)
qed

text \<open>The rights of the entry stay what they are.\<close>

lemma port_wf_keep:
  assumes wf: "port_wf K p" and E: "entries K' = (entries K)(s := (entries K s)(n := x))"
    and x: "holds (send_entry p) x = send_at K s n p" "holds (receive_entry p) x = receive_at K s n p"
    and h: "\<And>s'. k_hash K' s' p = k_hash K s' p" and r: "receiver (k_ports K' p) = receiver (k_ports K p)"
    and a: "\<And>s'. is_active (k_spaces K' s') = is_active (k_spaces K s')"
  shows "port_wf K' p"
proof (rule port_wf_change [OF E])
  note W = port_wfD [OF wf]
  show "receiver (k_ports K' p) = (True, Ip_Receiver s, n) \<and> k_hash K' s p = None" if "holds (receive_entry p) x"
    using that W(2) [of s n] x(2) unfolding h r by blast
  fix s' m
  show "k_hash K' s' p = Some m \<longleftrightarrow> (if s' = s \<and> m = n then holds (send_entry p) x else send_at K s' m p)"
    using W(1) [of s' m] x(1) by (auto simp: h)
  show "receiver (k_ports K' p) = (True, Ip_Receiver s', m) \<and> k_hash K' s' p = None" if "receive_at K s' m p"
    using W(2) [OF that] by (simp add: h r)
  show "if s' = s \<and> m = n then holds (receive_entry p) x else receive_at K s' m p"
    if "is_active (k_spaces K' s')" "receiver (k_ports K' p) = (True, Ip_Receiver s', m)"
    using that W(3) [of s' m] x(2) by (auto simp: r a)
qed

text \<open>A pure send right leaves the entry, and the reverse hash.\<close>

lemma port_wf_lose_send:
  assumes wf: "port_wf K p" and E: "entries K' = (entries K)(s := (entries K s)(n := x))"
    and old: "send_at K s n p" and x: "\<not> holds (send_entry p) x" "\<not> holds (receive_entry p) x"
    and h: "k_hash K' s p = None" "\<And>s'. s' \<noteq> s \<Longrightarrow> k_hash K' s' p = k_hash K s' p"
    and r: "receiver (k_ports K' p) = receiver (k_ports K p)"
    and a: "\<And>s'. is_active (k_spaces K' s') = is_active (k_spaces K s')"
  shows "port_wf K' p"
proof (rule port_wf_change [OF E])
  note W = port_wfD [OF wf]
  have n: "k_hash K s p = Some n" using W(1) old by blast
  have only: "send_at K s m p \<longleftrightarrow> m = n" for m using W(1) [of s m] n by auto
  have nr: "\<not> receive_at K s m p" for m using W(2) [of s m] n by auto
  fix s' m
  show "k_hash K' s' p = Some m \<longleftrightarrow> (if s' = s \<and> m = n then holds (send_entry p) x else send_at K s' m p)"
    using h W(1) [of s' m] only x by (cases "s' = s") auto
  show "receiver (k_ports K' p) = (True, Ip_Receiver s', m) \<and> k_hash K' s' p = None" if "receive_at K s' m p"
    using that W(2) nr h r by (cases "s' = s") auto
  show "if s' = s \<and> m = n then holds (receive_entry p) x else receive_at K s' m p"
    if "is_active (k_spaces K' s')" "receiver (k_ports K' p) = (True, Ip_Receiver s', m)"
    using that W(3) [of s' m] nr r a by auto
qed (use x in auto)

text \<open>A pure send right enters a space that had no right to the port but send-once rights.\<close>

lemma port_wf_gain_send:
  assumes wf: "port_wf K p" and E: "entries K' = (entries K)(s := (entries K s)(n := x))"
    and none: "k_hash K s p = None" "\<And>m. \<not> receive_at K s m p"
    and x: "holds (send_entry p) x" "\<not> holds (receive_entry p) x"
    and h: "k_hash K' s p = Some n" "\<And>s'. s' \<noteq> s \<Longrightarrow> k_hash K' s' p = k_hash K s' p"
    and r: "receiver (k_ports K' p) = receiver (k_ports K p)"
    and a: "\<And>s'. is_active (k_spaces K' s') = is_active (k_spaces K s')"
  shows "port_wf K' p"
proof (rule port_wf_change [OF E])
  note W = port_wfD [OF wf]
  have only: "\<not> send_at K s m p" for m using W(1) [of s m] none by auto
  fix s' m
  show "k_hash K' s' p = Some m \<longleftrightarrow> (if s' = s \<and> m = n then holds (send_entry p) x else send_at K s' m p)"
    using h W(1) [of s' m] only x by (cases "s' = s") auto
  show "receiver (k_ports K' p) = (True, Ip_Receiver s', m) \<and> k_hash K' s' p = None" if "receive_at K s' m p"
    using that W(2) none h r by (cases "s' = s") auto
  show "if s' = s \<and> m = n then holds (receive_entry p) x else receive_at K s' m p"
    if "is_active (k_spaces K' s')" "receiver (k_ports K' p) = (True, Ip_Receiver s', m)"
    using that W(3) [of s' m] none r a by auto
qed (use x in auto)

text \<open>The receive right leaves the entry; a send right that stays becomes a pure one.\<close>

lemma port_wf_lose_receive:
  assumes wf: "port_wf K p" and E: "entries K' = (entries K)(s := (entries K s)(n := x))"
    and old: "receive_at K s n p" and x: "\<not> holds (receive_entry p) x"
    and h: "k_hash K' s p = (if holds (send_entry p) x then Some n else None)"
      "\<And>s'. s' \<noteq> s \<Longrightarrow> k_hash K' s' p = k_hash K s' p"
    and r: "\<And>s' m. receiver (k_ports K' p) \<noteq> (True, Ip_Receiver s', m)"
  shows "port_wf K' p"
proof (rule port_wf_change [OF E])
  note W = port_wfD [OF wf]
  have n: "receiver (k_ports K p) = (True, Ip_Receiver s, n)" "k_hash K s p = None" using W(2) [OF old] by auto
  have only: "\<not> send_at K s m p" for m using W(1) [of s m] n by auto
  have nr: "receive_at K s' m p \<Longrightarrow> s' = s \<and> m = n" for s' m using W(2) [of s' m] n by auto
  fix s' m
  show "k_hash K' s' p = Some m \<longleftrightarrow> (if s' = s \<and> m = n then holds (send_entry p) x else send_at K s' m p)"
    using h W(1) [of s' m] only by (cases "s' = s") auto
  show "receiver (k_ports K' p) = (True, Ip_Receiver s', m) \<and> k_hash K' s' p = None"
    if "receive_at K s' m p" "\<not> (s' = s \<and> m = n)" using that nr by blast
qed (use x r in auto)

text \<open>The receive right of a port in transit enters a space.\<close>

lemma port_wf_gain_receive:
  assumes wf: "port_wf K p" and E: "entries K' = (entries K)(s := (entries K s)(n := x))"
    and transit: "\<And>s' m. receiver (k_ports K p) \<noteq> (True, Ip_Receiver s', m)"
    and old: "k_hash K s p = None \<or> send_at K s n p"
    and x: "holds (receive_entry p) x" "\<not> holds (send_entry p) x"
    and h: "k_hash K' s p = None" "\<And>s'. s' \<noteq> s \<Longrightarrow> k_hash K' s' p = k_hash K s' p"
    and r: "receiver (k_ports K' p) = (True, Ip_Receiver s, n)"
  shows "port_wf K' p"
proof (rule port_wf_change [OF E])
  note W = port_wfD [OF wf]
  have nr: "\<not> receive_at K s' m p" for s' m using W(2) [of s' m] transit by auto
  have only: "m = n" if "send_at K s m p" for m using that W(1) [of s m] W(1) [of s n] old by auto
  fix s' m
  show "k_hash K' s' p = Some m \<longleftrightarrow> (if s' = s \<and> m = n then holds (send_entry p) x else send_at K s' m p)"
    using h W(1) [of s' m] only x by (cases "s' = s") auto
  show "receiver (k_ports K' p) = (True, Ip_Receiver s', m) \<and> k_hash K' s' p = None" if "receive_at K s' m p"
    using that nr by blast
  show "if s' = s \<and> m = n then holds (receive_entry p) x else receive_at K s' m p"
    if "receiver (k_ports K' p) = (True, Ip_Receiver s', m)" using that r x by auto
qed (use h r in auto)

section \<open>The effect of an operation on one entry\<close>

text \<open>
  The entry of \<open>n\<close> in \<open>s\<close> becomes \<open>x\<close>, the reverse hash for the port \<open>p\<close> in this space \<open>h\<close>, and what
  the port knows of its receiver \<open>r\<close>; other entries, ports and hash entries stay.
\<close>

definition effect ::
  "ipc_kernel \<Rightarrow> ipc_kernel \<Rightarrow> space_id \<Rightarrow> mach_port_t \<Rightarrow> port_id \<Rightarrow> ipc_entry option \<Rightarrow> mach_port_t option \<Rightarrow>
     bool \<times> ip_data \<times> mach_port_t \<Rightarrow> bool" where
  "effect K K' s n p x h r \<longleftrightarrow>
     entries K' = (entries K)(s := (entries K s)(n := x)) \<and>
     k_hash K' = (k_hash K)(s := (k_hash K s)(p := h)) \<and>
     (\<forall>q. receiver (k_ports K' q) = (if q = p then r else receiver (k_ports K q))) \<and>
     (\<forall>s'. is_active (k_spaces K' s') = is_active (k_spaces K s'))"

lemma effectD:
  assumes "effect K K' s n p x h r"
  shows "entries K' = (entries K)(s := (entries K s)(n := x))" "k_hash K' s p = h"
    "s' \<noteq> s \<Longrightarrow> k_hash K' s' p = k_hash K s' p" "q \<noteq> p \<Longrightarrow> k_hash K' s' q = k_hash K s' q"
    "receiver (k_ports K' p) = r" "q \<noteq> p \<Longrightarrow> receiver (k_ports K' q) = receiver (k_ports K q)"
    "is_active (k_spaces K' s') = is_active (k_spaces K s')"
  using assms by (auto simp: effect_def)

text \<open>The entry before and after denotes rights to \<open>p\<close> only, and is well-formed after.\<close>

definition about_port :: "ipc_kernel \<Rightarrow> space_id \<Rightarrow> mach_port_t \<Rightarrow> port_id \<Rightarrow> ipc_entry option \<Rightarrow> bool" where
  "about_port K s n p x \<longleftrightarrow> (\<forall>e. x = Some e \<longrightarrow> entry_ok e) \<and>
     (\<forall>e q. (entries K s n = Some e \<or> x = Some e) \<and> ie_object e = IO_PORT q \<longrightarrow> q = p)"

lemma effect_wf:
  assumes "kernel_wf K" and "effect K K' s n p x h r" and "about_port K s n p x" and "port_wf K' p"
  shows "kernel_wf K'"
  by (rule kernel_wf_update [OF assms(1) effectD(1) [OF assms(2)]])
     (use assms(3,4) effectD(4,6,7) [OF assms(2)] in \<open>auto simp: about_port_def\<close>)

lemma wf_keep:
  assumes "kernel_wf K" and "effect K K' s n p x (k_hash K s p) (receiver (k_ports K p))" and "about_port K s n p x"
    and "holds (send_entry p) x = send_at K s n p" "holds (receive_entry p) x = receive_at K s n p"
  shows "kernel_wf K'"
proof (rule effect_wf [OF assms(1-3)])
  note D = effectD [OF assms(2)]
  have "k_hash K' s' p = k_hash K s' p" for s' using D(2,3) by (cases "s' = s") auto
  then show "port_wf K' p" by (rule port_wf_keep [OF kernel_wfD(2) [OF assms(1)] D(1) assms(4,5) _ D(5,7)])
qed

lemma wf_lose_send:
  assumes "kernel_wf K" and "effect K K' s n p x None (receiver (k_ports K p))" and "about_port K s n p x"
    and "send_at K s n p" and "\<not> holds (send_entry p) x" "\<not> holds (receive_entry p) x"
  shows "kernel_wf K'"
  by (rule effect_wf [OF assms(1-3)])
     (rule port_wf_lose_send [OF kernel_wfD(2) [OF assms(1)] effectD(1) [OF assms(2)] assms(4-6)];
      use effectD [OF assms(2)] in simp)

lemma wf_gain_send:
  assumes "kernel_wf K" and "effect K K' s n p x (Some n) (receiver (k_ports K p))" and "about_port K s n p x"
    and "k_hash K s p = None" "\<And>m. \<not> receive_at K s m p"
    and "holds (send_entry p) x" "\<not> holds (receive_entry p) x"
  shows "kernel_wf K'"
  by (rule effect_wf [OF assms(1-3)])
     (rule port_wf_gain_send [OF kernel_wfD(2) [OF assms(1)] effectD(1) [OF assms(2)] assms(4-7)];
      use effectD [OF assms(2)] in simp)

lemma wf_lose_receive:
  assumes "kernel_wf K" and "effect K K' s n p x (if holds (send_entry p) x then Some n else None) r"
    and "about_port K s n p x" and "receive_at K s n p" "\<not> holds (receive_entry p) x"
    and "\<And>s' m. r \<noteq> (True, Ip_Receiver s', m)"
  shows "kernel_wf K'"
  by (rule effect_wf [OF assms(1-3)])
     (rule port_wf_lose_receive [OF kernel_wfD(2) [OF assms(1)] effectD(1) [OF assms(2)] assms(4,5)];
      use effectD [OF assms(2)] assms(6) in simp)

lemma wf_gain_receive:
  assumes "kernel_wf K" and "effect K K' s n p x None (True, Ip_Receiver s, n)" and "about_port K s n p x"
    and "\<And>s' m. receiver (k_ports K p) \<noteq> (True, Ip_Receiver s', m)" and "k_hash K s p = None \<or> send_at K s n p"
    and "holds (receive_entry p) x" "\<not> holds (send_entry p) x"
  shows "kernel_wf K'"
  by (rule effect_wf [OF assms(1-3)])
     (rule port_wf_gain_receive [OF kernel_wfD(2) [OF assms(1)] effectD(1) [OF assms(2)] assms(4-7)];
      use effectD [OF assms(2)] in simp)

section \<open>What the operations leave alone\<close>

lemma receiver_upd [simp]:
  "receiver (ip_references_update f p) = receiver p"
  "receiver (ip_srights_update f p) = receiver p"
  "receiver (ip_sorights_update f p) = receiver p"
  "receiver (ip_mscount_update g p) = receiver p"
  "receiver (ip_seqno_update g p) = receiver p"
  "receiver (ip_dnrequests_update h p) = receiver p"
  "receiver (ip_nsrequest_update i p) = receiver p"
  "receiver (ip_pset_update j p) = receiver p"
  by (simp_all add: receiver_def)

lemma receiver_core:
  assumes "port_core p = port_core q"
  shows "receiver p = receiver q"
  using port_core_fields(1,2,4) [OF assms] by (simp add: receiver_def)

lemma k_hash_upd [simp]:
  "k_hash (upd_port p f K) = k_hash K" "k_hash (upd_pset t g K) = k_hash K" "k_hash (upd_space s i K) = k_hash K"
  "k_hash (set_entry s n e K) = k_hash K" "k_hash (entry_dealloc s n K) = k_hash K"
  "k_hash (ip_reference p K) = k_hash K" "k_hash (ip_release p K) = k_hash K"
  "k_hash (ips_reference t K) = k_hash K" "k_hash (ips_release t K) = k_hash K"
  "k_hash (is_reference s K) = k_hash K" "k_hash (is_release s K) = k_hash K"
  "k_hash (ipc_kmsg_destroy m K) = k_hash K" "k_hash (threads_go gos K) = k_hash K"
  by (simp_all add: upd_defs ip_reference_def ip_release_def ips_reference_def ips_release_def is_reference_def
      is_release_def ipc_kmsg_destroy_def threads_go_def)

lemma k_hash_queue [simp]:
  "k_hash (set_imq_messages q ms K) = k_hash K"
  "k_hash (set_imq_threads q ths K) = k_hash K"
  "k_hash (ipc_mqueue_move q q' p K) = k_hash K"
  "k_hash (ipc_mqueue_changed q mr K) = k_hash K"
  "k_hash (mqueue_deliver m p K) = k_hash K"
  "k_hash (ipc_mqueue_send_always m K) = k_hash K"
proof -
  show 1: "k_hash (set_imq_messages q ms K) = k_hash K" for q ms K by (cases q) auto
  show 2: "k_hash (set_imq_threads q ths K) = k_hash K" for q ths K by (cases q) auto
  show "k_hash (ipc_mqueue_move q q' p K) = k_hash K" by (simp add: ipc_mqueue_move_def 1 2 split: prod.split)
  show "k_hash (ipc_mqueue_changed q mr K) = k_hash K" by (simp add: ipc_mqueue_changed_def 2)
  show 3: "k_hash (mqueue_deliver m p K) = k_hash K" for m p K
    by (simp add: mqueue_deliver_def Let_def 1 2 split: prod.split)
  show "k_hash (ipc_mqueue_send_always m K) = k_hash K"
    by (simp add: ipc_mqueue_send_always_def ipc_mqueue_send_def 3 split: ipc_object.split)
qed

lemma k_hash_notify [simp]:
  "k_hash (ipc_port_release_sonce p K) = k_hash K"
  "k_hash (ipc_notify_port_deleted p n K) = k_hash K"
  "k_hash (send_port_deleted d n K) = k_hash K"
  "k_hash (ipc_pset_remove t p K) = k_hash K"
  "k_hash (ipc_port_clear_receiver p K) = k_hash K"
  "k_hash (port_in_limbo p K) = k_hash K"
proof -
  show 1: "k_hash (ipc_port_release_sonce p K) = k_hash K" for p K by (simp add: ipc_port_release_sonce_def Let_def)
  show 2: "k_hash (ipc_notify_port_deleted p n K) = k_hash K" for p K by (simp add: ipc_notify_port_deleted_def 1)
  show "k_hash (send_port_deleted d n K) = k_hash K" by (simp add: send_port_deleted_def 2 split: option.split)
  show 3: "k_hash (ipc_pset_remove t p K) = k_hash K" for t by (simp add: ipc_pset_remove_def)
  show "k_hash (ipc_port_clear_receiver p K) = k_hash K"
    by (simp add: ipc_port_clear_receiver_def Let_def 3 split: option.split)
qed (simp add: port_in_limbo_def)

lemma k_hash_hash:
  "k_hash (ipc_hash_insert s p n K) = (k_hash K)(s := (k_hash K s)(p := Some n))"
  "k_hash (ipc_hash_delete s p n K) = (k_hash K)(s := (k_hash K s)(p := None))"
  by (simp_all add: ipc_hash_insert_def ipc_hash_delete_def)

lemma receiver_queue [simp]:
  "receiver (k_ports (set_imq_messages mq ms K) q) = receiver (k_ports K q)"
  "receiver (k_ports (set_imq_threads mq ths K) q) = receiver (k_ports K q)"
  "receiver (k_ports (threads_go gos K) q) = receiver (k_ports K q)"
  "receiver (k_ports (ips_release t K) q) = receiver (k_ports K q)"
  "receiver (k_ports (ipc_mqueue_move mq mq' p K) q) = receiver (k_ports K q)"
  "receiver (k_ports (ipc_mqueue_changed mq mr K) q) = receiver (k_ports K q)"
  "receiver (k_ports (ipc_pset_remove t p K) q) = receiver (k_ports K q)"
  "receiver (k_ports (ipc_port_clear_receiver p K) q) = receiver (k_ports K q)"
proof -
  show 1: "receiver (k_ports (set_imq_messages mq ms K) q) = receiver (k_ports K q)" for mq ms K q
    by (rule receiver_core) simp
  show 2: "receiver (k_ports (set_imq_threads mq ths K) q) = receiver (k_ports K q)" for mq ths K q
    by (rule receiver_core) simp
  show 3: "receiver (k_ports (threads_go gos K) q) = receiver (k_ports K q)" for gos K q by (rule receiver_core) simp
  show 4: "receiver (k_ports (ips_release t K) q) = receiver (k_ports K q)" for t K q by (rule receiver_core) simp
  show 5: "receiver (k_ports (ipc_mqueue_move mq mq' p K) q) = receiver (k_ports K q)" for mq mq' K q
    by (simp add: ipc_mqueue_move_def 1 2 3 split: prod.split)
  show 6: "receiver (k_ports (ipc_mqueue_changed mq mr K) q) = receiver (k_ports K q)" for mq mr K q
    by (simp add: ipc_mqueue_changed_def 2 3)
  show 7: "receiver (k_ports (ipc_pset_remove t p K) q) = receiver (k_ports K q)" for t q
    by (simp add: ipc_pset_remove_def 4 5)
  show "receiver (k_ports (ipc_port_clear_receiver p K) q) = receiver (k_ports K q)"
    by (simp add: ipc_port_clear_receiver_def Let_def 6 7 split: option.split)
qed

lemma receiver_other [simp]:
  "receiver (k_ports (ip_reference p K) q) = receiver (k_ports K q)"
  "receiver (k_ports (ip_release p K) q) = receiver (k_ports K q)"
  "receiver (k_ports (send_port_deleted d n K) q) = receiver (k_ports K q)"
  by (rule receiver_core; simp)+

lemma receiver_limbo:
  "receiver (k_ports (port_in_limbo p K) q) =
     (if q = p then (ip_active (k_ports K p), Ip_Destination None, MACH_PORT_NULL) else receiver (k_ports K q))"
  by (simp add: port_in_limbo_def receiver_def)

lemma active_entry [simp]:
  "is_active (k_spaces (set_entry s n e K) s') = is_active (k_spaces K s')"
  "is_active (k_spaces (entry_dealloc s n K) s') = is_active (k_spaces K s')"
  "is_active (k_spaces (is_release s K) s') = is_active (k_spaces K s')"
  "is_active (k_spaces (is_reference s K) s') = is_active (k_spaces K s')"
  by (simp_all add: upd_defs is_release_def is_reference_def)

lemma dncancel_frame:
  assumes "ipc_right_dncancel_macro s p n e K = Some (d, e', K1)" and "entries K s n = Some e"
  shows "e' = e\<lparr>ie_request := 0\<rparr>" "entries K1 = (entries K)(s := (entries K s)(n \<mapsto> e'))" "k_hash K1 = k_hash K"
    "receiver (k_ports K1 q) = receiver (k_ports K q)" "is_active (k_spaces K1 s') = is_active (k_spaces K s')"
proof -
  have *: "e' = e\<lparr>ie_request := 0\<rparr> \<and> entries K1 = (entries K)(s := (entries K s)(n \<mapsto> e')) \<and> k_hash K1 = k_hash K \<and>
      receiver (k_ports K1 q) = receiver (k_ports K q) \<and> is_active (k_spaces K1 s') = is_active (k_spaces K s')"
  proof (cases "ie_request e = 0")
    case True
    then have "e\<lparr>ie_request := 0\<rparr> = e" by (cases e) simp
    with True assms show ?thesis by (auto simp: ipc_right_dncancel_macro_def fun_eq_iff)
  next
    case False
    then obtain x K0 where c: "ipc_port_dncancel p n (ie_request e) K = Some (x, K0)"
      and r: "e' = e\<lparr>ie_request := 0\<rparr>" "K1 = set_entry s n e' K0 \<or> K1 = is_release s (set_entry s n e' K0)"
      using assms(1) by (auto simp: ipc_right_dncancel_macro_def ipc_right_dncancel_def Let_def
          split: bind_splits if_splits ipr_notify.splits)
    have K0: "k_spaces K0 = k_spaces K" "k_hash K0 = k_hash K" "receiver (k_ports K0 q) = receiver (k_ports K q)"
      using c by (auto simp: ipc_port_dncancel_def Let_def split: bind_splits option.splits)
    have "entries (is_release s K) = entries K" for K by (simp add: is_release_def entries_def upd_space_def fun_eq_iff)
    then have "entries K1 = (entries K0)(s := (entries K0 s)(n \<mapsto> e'))" using r(2) by auto
    moreover have "k_ports (is_release s K) = k_ports K" for K by (simp add: is_release_def)
    then have "k_hash K1 = k_hash K0 \<and> k_ports K1 = k_ports K0 \<and> is_active (k_spaces K1 s') = is_active (k_spaces K0 s')"
      using r(2) by auto
    ultimately show ?thesis using r(1) K0 entries_cong [OF K0(1)] by simp
  qed
  then show "e' = e\<lparr>ie_request := 0\<rparr>" "entries K1 = (entries K)(s := (entries K s)(n \<mapsto> e'))" "k_hash K1 = k_hash K"
    "receiver (k_ports K1 q) = receiver (k_ports K q)" "is_active (k_spaces K1 s') = is_active (k_spaces K s')"
    by blast+
qed

section \<open>Copyin\<close>

lemma decr_entry_ok:
  assumes ok: "entry_ok e" and u: "0 < IE_BITS_UREFS (ie_bits e)" "IE_BITS_UREFS (ie_bits e) \<noteq> 1"
    and t: "IE_BITS_TYPE (ie_bits e) \<noteq> MACH_PORT_TYPE_SEND_ONCE"
  shows "entry_ok (e\<lparr>ie_bits := ie_bits e - 1\<rparr>)"
proof -
  let ?u = "IE_BITS_UREFS (ie_bits e)"
  have pos: "0 < ?u - 1" using u by (simp add: word_gt_0)
  have less: "?u - 1 < MACH_PORT_UREFS_MAX" if "?u < MACH_PORT_UREFS_MAX"
  proof -
    have "?u \<noteq> 0" using u(1) by (simp add: word_gt_0)
    from unat_minus_one [OF this] have "unat (?u - 1) = unat ?u - 1" "0 < unat ?u"
      using u(1) by (simp_all add: word_less_nat_alt)
    then have "?u - 1 < ?u" by (simp add: word_less_nat_alt)
    from this that show ?thesis by (rule order.strict_trans)
  qed
  from ok show ?thesis
    by (cases e rule: entry_ok_cases)
       (use ok pos less t u(1) in \<open>simp_all add: entry_ok_def Let_def decr_fields entry_port_def\<close>)
qed

text \<open>The end of \<^verbatim>\<open>ipc_object_copyin\<close>: an entry that lost its last right is freed.\<close>

definition unless_none :: "ipc_entry option \<Rightarrow> ipc_entry option" where
  "unless_none x =
     (case x of Some e \<Rightarrow> if IE_BITS_TYPE (ie_bits e) = MACH_PORT_TYPE_NONE then None else Some e | None \<Rightarrow> None)"

lemma unless_none_simps [simp]:
  "unless_none None = None"
  "IE_BITS_TYPE (ie_bits e) = MACH_PORT_TYPE_NONE \<Longrightarrow> unless_none (Some e) = None"
  "IE_BITS_TYPE (ie_bits e) \<noteq> MACH_PORT_TYPE_NONE \<Longrightarrow> unless_none (Some e) = Some e"
  by (simp_all add: unless_none_def)

lemma entry_ok_type:
  assumes "entry_ok e"
  shows "IE_BITS_TYPE (ie_bits e) \<noteq> MACH_PORT_TYPE_NONE"
  using assms by (cases e rule: entry_ok_cases) simp_all

lemma effect_finish:
  assumes "effect K K' s n p x h r"
  shows "effect K (send_port_deleted d n (dealloc_if_none s n K')) s n p (unless_none x) h r"
proof -
  have E: "entries K' s n = x" using effectD(1) [OF assms] by simp
  have ent: "entries (send_port_deleted d n K) = entries K" for K by (rule entries_cong) simp
  show ?thesis
    using assms by (cases x) (auto simp: effect_def dealloc_if_none_def E ent unless_none_def)
qed

lemma same_rights_effect:
  assumes "same_rights K K'" and "entries K s n = x"
  shows "effect K K' s n p x (k_hash K s p) (receiver (k_ports K p))"
  using assms by (auto simp: same_rights_def effect_def fun_eq_iff)

lemma wf_same_finish:
  assumes "kernel_wf K" and "same_rights K K'" and "entries K s n = Some e"
  shows "kernel_wf (send_port_deleted d n (dealloc_if_none s n K'))"
proof -
  have ok: "entry_ok e" by (rule kernel_wfD(1) [OF assms(1,3)])
  obtain p where p: "\<And>q. ie_object e = IO_PORT q \<Longrightarrow> q = p" by (cases "ie_object e") auto
  have "effect K (send_port_deleted d n (dealloc_if_none s n K')) s n p (Some e) (k_hash K s p) (receiver (k_ports K p))"
    using effect_finish [OF same_rights_effect [OF assms(2,3)]] entry_ok_type [OF ok] by simp
  then show ?thesis
    by (rule wf_keep [OF assms(1)]) (use ok p assms(3) in \<open>auto simp: about_port_def send_at_def receive_at_def\<close>)
qed

lemma same_rights_refl: "same_rights K K"
  by (simp add: same_rights_def)

text \<open>A dead name loses user references or disappears.\<close>

lemma move_dead_entry:
  assumes "entry_ok e" and "IE_BITS_TYPE (ie_bits e) = MACH_PORT_TYPE_DEAD_NAME"
    and "move_dead s n e deadok K = (r, K')"
  obtains "K' = K" | e' where "K' = set_entry s n e' K" "ie_object e' = IO_NULL"
    "unless_none (Some e') = None \<or> entry_ok e'"
proof (cases "deadok")
  case False
  with assms(3) have "K' = K" by (simp add: move_dead_def)
  then show thesis by (rule that(1))
next
  case True
  define b where "b = (if IE_BITS_UREFS (ie_bits e) = 1 then ie_bits e AND NOT MACH_PORT_TYPE_DEAD_NAME else ie_bits e - 1)"
  have K': "K' = set_entry s n (e\<lparr>ie_bits := b\<rparr>) K" using True assms(3) by (simp add: move_dead_def b_def Let_def)
  have u: "0 < IE_BITS_UREFS (ie_bits e)" "ie_object e = IO_NULL"
    using assms(1,2) by (cases rule: entry_ok_cases; simp)+
  show thesis
  proof (rule that(2) [OF K'])
    show "ie_object (e\<lparr>ie_bits := b\<rparr>) = IO_NULL" using u(2) by simp
    show "unless_none (Some (e\<lparr>ie_bits := b\<rparr>)) = None \<or> entry_ok (e\<lparr>ie_bits := b\<rparr>)"
    proof (cases "IE_BITS_UREFS (ie_bits e) = 1")
      case True
      have "IE_BITS_TYPE (ie_bits e AND NOT MACH_PORT_TYPE_DEAD_NAME) = IE_BITS_TYPE (ie_bits e) AND NOT MACH_PORT_TYPE_DEAD_NAME"
        by (simp add: IE_BITS_TYPE_def ac_simps)
      also have "\<dots> = MACH_PORT_TYPE_NONE" unfolding assms(2) by (simp add: type_defs)
      finally show ?thesis using True by (simp add: b_def)
    next
      case False
      then show ?thesis using decr_entry_ok [OF assms(1) u(1)] assms(2) by (simp add: b_def)
    qed
  qed
qed

text \<open>A right to a dead port turns into a dead name, or goes with its entry.\<close>

lemma check_effect:
  assumes c: "ipc_right_check s p n e K = Some (dead, e', K1)" and dead: "\<not> ip_active (k_ports K p)"
    and type: "IE_BITS_TYPE (ie_bits e) = MACH_PORT_TYPE_SEND \<or> IE_BITS_TYPE (ie_bits e) = MACH_PORT_TYPE_SEND_ONCE"
  shows "dead" "\<not> test (ie_bits e) IE_BITS_COMPAT \<Longrightarrow> e' = dead_entry e"
    "effect K K1 s n p (if test (ie_bits e) IE_BITS_COMPAT then None else Some e')
       (if IE_BITS_TYPE (ie_bits e) = MACH_PORT_TYPE_SEND then None else k_hash K s p) (receiver (k_ports K p))"
proof -
  let ?send = "IE_BITS_TYPE (ie_bits e) = MACH_PORT_TYPE_SEND"
  have t: "test (ie_bits e) MACH_PORT_TYPE_SEND \<longleftrightarrow> ?send" using type by (auto simp: type_tests)
  obtain K0 where K0: "k_spaces K0 = k_spaces K" "k_hash K0 = (k_hash K)(s := (k_hash K s)(p := if ?send then None else k_hash K s p))"
    "\<And>q. receiver (k_ports K0 q) = receiver (k_ports K q)"
    and r: "dead" "\<not> test (ie_bits e) IE_BITS_COMPAT \<Longrightarrow> e' = dead_entry e"
      "K1 = (if test (ie_bits e) IE_BITS_COMPAT then entry_dealloc s n K0 else set_entry s n e' K0)"
  proof (cases ?send)
    case True
    then obtain K2 where K2: "marequest_cancel_if (ie_bits e) s n K = Some K2"
      using c dead t by (auto simp: ipc_right_check_def Let_def split: bind_splits)
    show thesis
      by (rule that [of "ip_release p (ipc_hash_delete s p n K2)"])
         (use c dead t True K2 marequest_cancel_frame [OF K2] in
           \<open>auto simp: ipc_right_check_def dead_entry_def Let_def k_hash_hash clear_marequest split: if_splits\<close>)
  next
    case False
    show thesis
      by (rule that [of "ip_release p K"])
         (use c dead t False in \<open>auto simp: ipc_right_check_def dead_entry_def Let_def split: if_splits\<close>)
  qed
  show "dead" "\<not> test (ie_bits e) IE_BITS_COMPAT \<Longrightarrow> e' = dead_entry e" by (rule r(1), rule r(2))
  show "effect K K1 s n p (if test (ie_bits e) IE_BITS_COMPAT then None else Some e')
       (if ?send then None else k_hash K s p) (receiver (k_ports K p))"
    using K0 entries_cong [OF K0(1)] by (auto simp: effect_def r(3))
qed

lemma dead_effect_wf:
  assumes wf: "kernel_wf K" and E: "entries K s n = Some e" and p: "ie_object e = IO_PORT p"
    and type: "IE_BITS_TYPE (ie_bits e) = MACH_PORT_TYPE_SEND \<or> IE_BITS_TYPE (ie_bits e) = MACH_PORT_TYPE_SEND_ONCE"
    and K': "effect K K' s n p x (if IE_BITS_TYPE (ie_bits e) = MACH_PORT_TYPE_SEND then None else k_hash K s p)
               (receiver (k_ports K p))"
    and x: "\<And>e'. x = Some e' \<Longrightarrow> ie_object e' = IO_NULL \<and> entry_ok e'"
  shows "kernel_wf K'"
proof -
  have about: "about_port K s n p x" using x E p by (auto simp: about_port_def)
  have no: "\<not> holds (send_entry p) x" "\<not> holds (receive_entry p) x" using x by auto
  have nr: "\<not> receive_at K s n p" using type E by (auto simp: receive_at_def type_tests)
  show ?thesis
  proof (cases "IE_BITS_TYPE (ie_bits e) = MACH_PORT_TYPE_SEND")
    case True
    then have "send_at K s n p" using E p by (simp add: send_at_def)
    with True K' show ?thesis using wf_lose_send [OF wf _ about _ no] by simp
  next
    case False
    then have "\<not> send_at K s n p" using E by (simp add: send_at_def)
    with False K' nr no show ?thesis using wf_keep [OF wf _ about] by simp
  qed
qed

lemma copyin_dead_wf:
  assumes wf: "kernel_wf K" and E: "entries K s n = Some e" and p: "ie_object e = IO_PORT p"
    and type: "IE_BITS_TYPE (ie_bits e) = MACH_PORT_TYPE_SEND \<or> IE_BITS_TYPE (ie_bits e) = MACH_PORT_TYPE_SEND_ONCE"
    and K': "effect K K' s n p x (if IE_BITS_TYPE (ie_bits e) = MACH_PORT_TYPE_SEND then None else k_hash K s p)
               (receiver (k_ports K p))"
    and x: "\<And>e'. x = Some e' \<Longrightarrow> ie_object e' = IO_NULL \<and> (unless_none x = None \<or> entry_ok e')"
  shows "kernel_wf (send_port_deleted d n (dealloc_if_none s n K'))"
  by (rule dead_effect_wf [OF wf E p type effect_finish [OF K']])
     (use x in \<open>cases x; auto simp: unless_none_def split: if_splits\<close>)

lemma set_entry_effect:
  assumes "effect K K' s n p y h r"
  shows "effect K (set_entry s n e K') s n p (Some e) h r"
  using assms by (auto simp: effect_def)

lemma copyin_move_send_wf:
  assumes wf: "kernel_wf K" and E: "entries K s n = Some e" and p: "ie_object e = IO_PORT p"
    and active: "ip_active (k_ports K p)"
    and type: "IE_BITS_TYPE (ie_bits e) = MACH_PORT_TYPE_SEND \<or> IE_BITS_TYPE (ie_bits e) = MACH_PORT_TYPE_SEND_RECEIVE"
    and u: "0 < IE_BITS_UREFS (ie_bits e)"
    and c: "copyin_move_send s n e deadok K = Some (r, K')"
  shows "kernel_wf (send_port_deleted d n (dealloc_if_none s n K'))"
proof -
  have ok: "entry_ok e" by (rule kernel_wfD(1) [OF wf E])
  have tests: "test (ie_bits e) MACH_PORT_TYPE_SEND" "test (ie_bits e) MACH_PORT_TYPE_SEND_RIGHTS"
    "\<not> test (ie_bits e) MACH_PORT_TYPE_DEAD_NAME" using type by (auto simp: type_tests)
  let ?clear = "ie_bits e AND NOT (IE_BITS_UREFS_MASK OR MACH_PORT_TYPE_SEND)"
  let ?fin = "send_port_deleted d n (dealloc_if_none s n K')"
  consider (more) "IE_BITS_UREFS (ie_bits e) \<noteq> 1"
    | (last_send) "IE_BITS_UREFS (ie_bits e) = 1" "IE_BITS_TYPE (ie_bits e) = MACH_PORT_TYPE_SEND"
    | (last_receive) "IE_BITS_UREFS (ie_bits e) = 1" "IE_BITS_TYPE (ie_bits e) = MACH_PORT_TYPE_SEND_RECEIVE"
    using type by blast
  then show ?thesis
  proof cases
    case more
    let ?e = "e\<lparr>ie_bits := ie_bits e - 1\<rparr>"
    have K': "K' = set_entry s n ?e (ip_reference p (upd_port p (ip_srights_update (\<lambda>n. n + 1)) K))"
      using c tests active p more by (auto simp: copyin_move_send_def entry_port_def Let_def)
    have ok': "entry_ok ?e" by (rule decr_entry_ok [OF ok u more]) (use type in auto)
    have "effect K K' s n p (Some ?e) (k_hash K s p) (receiver (k_ports K p))" by (simp add: K' effect_def)
    from effect_finish [OF this] have F: "effect K ?fin s n p (Some ?e) (k_hash K s p) (receiver (k_ports K p))"
      using entry_ok_type [OF ok'] by simp
    have "test (ie_bits e - 1) MACH_PORT_TYPE_RECEIVE = test (ie_bits e) MACH_PORT_TYPE_RECEIVE"
      by (subst (1 2) test_types(2)) (simp add: decr_fields [OF u])
    with F show ?thesis
      by (intro wf_keep [OF wf F]) (use ok' E p decr_fields(1) [OF u] in \<open>auto simp: about_port_def send_at_def receive_at_def\<close>)
  next
    case last_send
    let ?e = "e\<lparr>ie_request := 0, ie_object := IO_NULL, ie_bits := ?clear\<rparr>"
    obtain d' e1 K1 K3 where K1: "ipc_right_dncancel_macro s p n e K = Some (d', e1, K1)"
      "marequest_cancel_if (ie_bits e) s n (ipc_hash_delete s p n K1) = Some K3"
      "K' = set_entry s n (e1\<lparr>ie_object := IO_NULL, ie_bits := ?clear\<rparr>) K3"
      using c tests active p last_send by (auto simp: copyin_move_send_def entry_port_def Let_def send_tests split: bind_splits)
    note f = dncancel_frame [OF K1(1) E] and g = marequest_cancel_frame(1-3) [OF K1(2)]
    have "entries K3 = entries K1" by (rule entries_cong) (simp add: g(1))
    then have "effect K K' s n p (Some (e1\<lparr>ie_object := IO_NULL, ie_bits := ?clear\<rparr>)) None (receiver (k_ports K p))"
      using f g by (simp add: K1(3) effect_def k_hash_hash)
    moreover have "IE_BITS_TYPE ?clear = MACH_PORT_TYPE_NONE"
      unfolding clear_send(1) last_send(2) by (rule type_combinations)
    ultimately have "effect K ?fin s n p None None (receiver (k_ports K p))" using effect_finish by fastforce
    then show ?thesis
      by (rule wf_lose_send [OF wf]) (use E p last_send in \<open>auto simp: about_port_def send_at_def\<close>)
  next
    case last_receive
    let ?e = "e\<lparr>ie_bits := ?clear\<rparr>"
    have K': "K' = set_entry s n ?e (ip_reference p K)"
      using c tests active p last_receive by (auto simp: copyin_move_send_def entry_port_def Let_def send_receive_tests)
    define b where "b = ?clear"
    have b: "IE_BITS_TYPE b = MACH_PORT_TYPE_RECEIVE"
      unfolding b_def clear_send(1) last_receive(2) by (rule type_combinations)
    have ok': "entry_ok (e\<lparr>ie_bits := b\<rparr>)"
      using ok b p clear_send(2-4) [of "ie_bits e", folded b_def] last_receive
      by (simp add: entry_ok_def Let_def entry_port_def)
    have "effect K K' s n p (Some (e\<lparr>ie_bits := b\<rparr>)) (k_hash K s p) (receiver (k_ports K p))" by (simp add: K' effect_def b_def)
    from effect_finish [OF this] have F: "effect K ?fin s n p (Some (e\<lparr>ie_bits := b\<rparr>)) (k_hash K s p) (receiver (k_ports K p))"
      using entry_ok_type [OF ok'] by simp
    show ?thesis
      by (rule wf_keep [OF wf F])
         (use ok' E p b last_receive in \<open>auto simp: about_port_def send_at_def receive_at_def receive_tests send_receive_tests\<close>)
  qed
qed

lemma copyin_move_send_once_wf:
  assumes wf: "kernel_wf K" and E: "entries K s n = Some e" and p: "ie_object e = IO_PORT p"
    and active: "ip_active (k_ports K p)" and type: "IE_BITS_TYPE (ie_bits e) = MACH_PORT_TYPE_SEND_ONCE"
    and c: "copyin_move_send_once s n e deadok K = Some (r, K')"
  shows "kernel_wf (send_port_deleted d n (dealloc_if_none s n K'))"
proof -
  define b where "b = ie_bits e AND NOT MACH_PORT_TYPE_SEND_ONCE"
  obtain d' e1 K1 where K1: "ipc_right_dncancel_macro s p n e K = Some (d', e1, K1)"
    "K' = set_entry s n (e1\<lparr>ie_object := IO_NULL, ie_bits := b\<rparr>) K1"
    using c active p by (auto simp: copyin_move_send_once_def entry_port_def Let_def send_once_tests [OF type] b_def split: bind_splits)
  note f = dncancel_frame [OF K1(1) E]
  have "effect K K' s n p (Some (e1\<lparr>ie_object := IO_NULL, ie_bits := b\<rparr>)) (k_hash K s p) (receiver (k_ports K p))"
    using f by (simp add: K1(2) effect_def)
  moreover have "IE_BITS_TYPE b = IE_BITS_TYPE (ie_bits e) AND NOT MACH_PORT_TYPE_SEND_ONCE"
    by (simp add: b_def IE_BITS_TYPE_def ac_simps)
  then have "IE_BITS_TYPE b = MACH_PORT_TYPE_NONE" unfolding type by (simp add: type_defs)
  ultimately have "effect K (send_port_deleted d n (dealloc_if_none s n K')) s n p None (k_hash K s p) (receiver (k_ports K p))"
    using effect_finish by fastforce
  then show ?thesis
    by (rule wf_keep [OF wf]) (use E p type in \<open>auto simp: about_port_def send_at_def receive_at_def send_once_tests\<close>)
qed

lemma copyin_move_receive_wf:
  assumes wf: "kernel_wf K" and E: "entries K s n = Some e" and p: "ie_object e = IO_PORT p"
    and type: "IE_BITS_TYPE (ie_bits e) = MACH_PORT_TYPE_RECEIVE \<or> IE_BITS_TYPE (ie_bits e) = MACH_PORT_TYPE_SEND_RECEIVE"
    and c: "copyin_move_receive s n e K = Some (r, K')"
  shows "kernel_wf (send_port_deleted d n (dealloc_if_none s n K'))"
proof -
  let ?fin = "send_port_deleted d n (dealloc_if_none s n K')"
  have rc: "receive_at K s n p" using E p type by (auto simp: receive_at_def type_tests)
  have hash: "k_hash K s p = None" using port_wfD(2) [OF kernel_wfD(2) [OF wf] rc] by simp
  define b where "b = ie_bits e AND NOT MACH_PORT_TYPE_RECEIVE"
  have ent: "entries (ipc_port_clear_receiver p K) = entries K" "entries (port_in_limbo p K) = entries K"
    "k_spaces (port_in_limbo p K) = k_spaces K" for K by (simp_all add: port_in_limbo_def)
  show ?thesis
  proof (cases "IE_BITS_TYPE (ie_bits e) = MACH_PORT_TYPE_RECEIVE")
    case True
    obtain d' e1 K1 K2 where K1: "ipc_right_dncancel_macro s p n e K = Some (d', e1, K1)"
      "marequest_cancel_if (ie_bits e) s n K1 = Some K2"
      "K' = port_in_limbo p (ipc_port_clear_receiver p (set_entry s n (e1\<lparr>ie_object := IO_NULL, ie_bits := b\<rparr>) K2))"
      using c p by (auto simp: copyin_move_receive_def entry_port_def Let_def receive_tests [OF True] b_def split: bind_splits)
    note f = dncancel_frame [OF K1(1) E] and g = marequest_cancel_frame(1-3) [OF K1(2)]
    have "entries K2 = entries K1" by (rule entries_cong) (simp add: g(1))
    moreover define a where
      "a = ip_active (k_ports (ipc_port_clear_receiver p (set_entry s n (e1\<lparr>ie_object := IO_NULL, ie_bits := b\<rparr>) K2)) p)"
    have "receiver (k_ports K' q) = (if q = p then (a, Ip_Destination None, MACH_PORT_NULL) else receiver (k_ports K q))" for q
      using f(4) g(2) by (simp add: K1(3) receiver_limbo a_def)
    ultimately have "effect K K' s n p (Some (e1\<lparr>ie_object := IO_NULL, ie_bits := b\<rparr>)) None (a, Ip_Destination None, MACH_PORT_NULL)"
      using f g hash by (simp add: K1(3) effect_def ent fun_eq_iff)
    moreover have "IE_BITS_TYPE b = MACH_PORT_TYPE_NONE"
      unfolding b_def clear_receive(1) True by (rule type_combinations)
    ultimately have F: "effect K ?fin s n p None None (a, Ip_Destination None, MACH_PORT_NULL)" using effect_finish by fastforce
    show ?thesis
      by (rule wf_lose_receive [OF wf, where x = None and r = "(a, Ip_Destination None, MACH_PORT_NULL)"])
         (use F E p rc in \<open>auto simp: about_port_def\<close>)
  next
    case False
    then have sr: "IE_BITS_TYPE (ie_bits e) = MACH_PORT_TYPE_SEND_RECEIVE" using type by blast
    let ?e = "e\<lparr>ie_bits := b\<rparr>"
    have K': "K' = port_in_limbo p (ipc_port_clear_receiver p (set_entry s n ?e (ip_reference p (ipc_hash_insert s p n K))))"
      using c p by (auto simp: copyin_move_receive_def entry_port_def Let_def send_receive_tests [OF sr] b_def)
    have b: "IE_BITS_TYPE b = MACH_PORT_TYPE_SEND" unfolding b_def clear_receive(1) sr by (rule type_combinations)
    have ok': "entry_ok ?e"
      using kernel_wfD(1) [OF wf E] b p clear_receive(2-4) [of "ie_bits e", folded b_def] sr
      by (simp add: entry_ok_def Let_def entry_port_def)
    define a where
      "a = ip_active (k_ports (ipc_port_clear_receiver p (set_entry s n ?e (ip_reference p (ipc_hash_insert s p n K)))) p)"
    have "receiver (k_ports K' q) = (if q = p then (a, Ip_Destination None, MACH_PORT_NULL) else receiver (k_ports K q))" for q
      by (simp add: K' receiver_limbo a_def)
    then have "effect K K' s n p (Some ?e) (Some n) (a, Ip_Destination None, MACH_PORT_NULL)"
      by (simp add: K' effect_def ent k_hash_hash)
    from effect_finish [OF this] have F: "effect K ?fin s n p (Some ?e) (Some n) (a, Ip_Destination None, MACH_PORT_NULL)"
      using entry_ok_type [OF ok'] by simp
    show ?thesis
      by (rule wf_lose_receive [OF wf, where x = "Some ?e" and r = "(a, Ip_Destination None, MACH_PORT_NULL)"])
         (use F ok' E p rc b in \<open>auto simp: about_port_def send_tests\<close>)
  qed
qed

lemma copyin_dead_name_wf:
  assumes wf: "kernel_wf K" and E: "entries K s n = Some e"
    and type: "IE_BITS_TYPE (ie_bits e) = MACH_PORT_TYPE_DEAD_NAME" and no: "ie_object e = IO_NULL"
    and c: "ipc_right_copyin s n e t deadok K = Some (r, K')"
  shows "kernel_wf (send_port_deleted d n (dealloc_if_none s n K'))"
proof -
  have ok: "entry_ok e" by (rule kernel_wfD(1) [OF wf E])
  have "K' = K \<or> move_dead s n e deadok K = (r, K')"
    using c by (cases t) (auto simp: copyin_defs dead_name_tests [OF type] copy_dead_def Let_def split: if_splits)
  then show ?thesis
  proof
    assume "K' = K"
    then show ?thesis using wf_same_finish [OF wf same_rights_refl E] by simp
  next
    assume "move_dead s n e deadok K = (r, K')"
    from ok type this show ?thesis
    proof (cases rule: move_dead_entry)
      case 1
      then show ?thesis using wf_same_finish [OF wf same_rights_refl E] by simp
    next
      case (2 e')
      have "effect K K' s n p (Some e') (k_hash K s p) (receiver (k_ports K p))" for p by (simp add: 2 effect_def)
      from effect_finish [OF this]
      have "effect K (send_port_deleted d n (dealloc_if_none s n K')) s n 0 (unless_none (Some e'))
              (k_hash K s 0) (receiver (k_ports K 0))" .
      then show ?thesis
        by (rule wf_keep [OF wf])
           (use 2 E no in \<open>auto simp: about_port_def send_at_def receive_at_def unless_none_def split: if_splits\<close>)
    qed
  qed
qed

lemma copyin_dead_port_wf:
  assumes wf: "kernel_wf K" and E: "entries K s n = Some e" and p: "ie_object e = IO_PORT p"
    and dead: "\<not> ip_active (k_ports K p)"
    and type: "IE_BITS_TYPE (ie_bits e) = MACH_PORT_TYPE_SEND \<or> IE_BITS_TYPE (ie_bits e) = MACH_PORT_TYPE_SEND_ONCE"
    and c: "ipc_right_copyin s n e t deadok K = Some (r, K')"
  shows "kernel_wf (send_port_deleted d n (dealloc_if_none s n K'))"
proof -
  have ok: "entry_ok e" by (rule kernel_wfD(1) [OF wf E])
  have tests: "test (ie_bits e) MACH_PORT_TYPE_SEND_RIGHTS" "\<not> test (ie_bits e) MACH_PORT_TYPE_DEAD_NAME"
    "\<not> test (ie_bits e) MACH_PORT_TYPE_RECEIVE" using type by (auto simp: type_tests)
  show ?thesis
  proof (cases "K' = K")
    case True
    then show ?thesis using wf_same_finish [OF wf same_rights_refl E] by simp
  next
    case False
    with c tests p obtain dead' e' K1 where K1: "ipc_right_check s p n e K = Some (dead', e', K1)"
      by (cases t) (auto simp: copyin_defs entry_port_def Let_def split: if_splits bind_splits)
    note C = check_effect [OF K1 dead type] and D = copyin_dead_wf [OF wf E p type]
    let ?compat = "test (ie_bits e) IE_BITS_COMPAT"
    have de: "ie_object e' = IO_NULL" "entry_ok e'" "IE_BITS_TYPE (ie_bits e') = MACH_PORT_TYPE_DEAD_NAME" if "\<not> ?compat"
      using that C(2) dead_entry_ok [OF ok] type by (auto simp: dead_entry_def Let_def)
    have "K' = K1 \<or> \<not> ?compat \<and> move_dead s n e' deadok K1 = (r, K')"
      using c tests p K1 C(1) False
      by (cases t) (auto simp: copyin_defs(1-4) copyin_copy_send_def copyin_move_send_def copyin_move_send_once_def
          copy_dead_def entry_port_def Let_def split: if_splits bind_splits)
    then consider "K' = K1" | e'' where "\<not> ?compat" "K' = set_entry s n e'' K1" "ie_object e'' = IO_NULL"
      "unless_none (Some e'') = None \<or> entry_ok e''"
      by (elim disjE conjE) (blast, use de(2,3) move_dead_entry in metis)
    then show ?thesis
    proof cases
      case 1
      show ?thesis unfolding 1 by (rule D [OF C(3)]) (use de in \<open>auto split: if_splits\<close>)
    next
      case (2 e'')
      from C(3) have "effect K K' s n p (Some e'') (if IE_BITS_TYPE (ie_bits e) = MACH_PORT_TYPE_SEND then None else k_hash K s p)
          (receiver (k_ports K p))" unfolding 2(2) by (rule set_entry_effect)
      then show ?thesis by (rule D) (use 2 in simp)
    qed
  qed
qed

lemma copyin_made_same:
  assumes "ie_object e = IO_PORT p" and "ip_active (k_ports K p)"
    and "t \<in> {MACH_MSG_TYPE_MAKE_SEND, MACH_MSG_TYPE_MAKE_SEND_ONCE, MACH_MSG_TYPE_COPY_SEND}"
    and "\<not> test (ie_bits e) MACH_PORT_TYPE_DEAD_NAME"
    and "ipc_right_copyin s n e t deadok K = Some (r, K')"
  shows "same_rights K K'"
  using assms by (auto simp: copyin_defs entry_port_def Let_def same_rights_def split: if_splits)

lemma right_copyin_wf:
  assumes wf: "kernel_wf K" and E: "entries K s n = Some e"
    and c: "ipc_right_copyin s n e t deadok K = Some (r, K')"
  shows "kernel_wf (send_port_deleted d n (dealloc_if_none s n K'))"
  using kernel_wfD(1) [OF wf E]
proof (cases e rule: entry_ok_cases)
  case dead_name
  then show ?thesis using copyin_dead_name_wf [OF wf E _ _ c] by simp
next
  case (port_set q)
  then have "K' = K" using c by (cases t) (auto simp: copyin_defs port_set_tests)
  then show ?thesis using wf_same_finish [OF wf same_rights_refl E] by simp
next
  case (send p)
  show ?thesis
  proof (cases "ip_active (k_ports K p)")
    case True
    note made = wf_same_finish [OF wf copyin_made_same [OF send(2) True _ send_tests(4) [OF send(1)] c] E]
    show ?thesis
      using made copyin_move_send_wf [OF wf E send(2) True _ send(3)] send c True wf_same_finish [OF wf same_rights_refl E]
      by (cases t) (auto simp: copyin_move_receive_def copyin_move_send_once_def entry_port_def Let_def send_tests)
  qed (use copyin_dead_port_wf [OF wf E send(2) _ _ c] send(1) in simp)
next
  case (send_once p)
  show ?thesis
  proof (cases "ip_active (k_ports K p)")
    case True
    note made = wf_same_finish [OF wf copyin_made_same [OF send_once(2) True _ send_once_tests(4) [OF send_once(1)] c] E]
    show ?thesis
      using made copyin_move_send_once_wf [OF wf E send_once(2) True send_once(1)] send_once c True
        wf_same_finish [OF wf same_rights_refl E]
      by (cases t) (auto simp: copyin_move_receive_def copyin_move_send_def entry_port_def Let_def send_once_tests)
  qed (use copyin_dead_port_wf [OF wf E send_once(2) _ _ c] send_once(1) in simp)
next
  case (receive p)
  have "receive_at K s n p" using E receive by (simp add: receive_at_def receive_tests)
  then have a: "ip_active (k_ports K p)" using port_wfD(2) [OF kernel_wfD(2) [OF wf]] by (auto simp: receiver_def)
  note made = wf_same_finish [OF wf copyin_made_same [OF receive(2) a _ receive_tests(4) [OF receive(1)] c] E]
  show ?thesis
    using made copyin_move_receive_wf [OF wf E receive(2)] receive c wf_same_finish [OF wf same_rights_refl E]
    by (cases t) (auto simp: copyin_move_send_def copyin_move_send_once_def receive_tests)
next
  case (send_receive p)
  have "receive_at K s n p" using E send_receive by (simp add: receive_at_def send_receive_tests)
  then have a: "ip_active (k_ports K p)" using port_wfD(2) [OF kernel_wfD(2) [OF wf]] by (auto simp: receiver_def)
  note made = wf_same_finish [OF wf copyin_made_same [OF send_receive(2) a _ send_receive_tests(4) [OF send_receive(1)] c] E]
  show ?thesis
    using made copyin_move_receive_wf [OF wf E send_receive(2)] copyin_move_send_wf [OF wf E send_receive(2) a _ send_receive(3)]
      send_receive c a wf_same_finish [OF wf same_rights_refl E]
    by (cases t) (auto simp: copyin_move_send_once_def entry_port_def Let_def send_receive_tests)
qed

lemma lookup_entry:
  assumes "ipc_right_lookup_write s n K = Inr e"
  shows "entries K s n = Some e" "is_active (k_spaces K s)"
  using assms by (auto simp: ipc_right_lookup_write_def split: if_splits option.splits)

lemma object_copyin_wf:
  assumes "kernel_wf K" and "ipc_object_copyin s n t K = Some (r, K')"
  shows "kernel_wf K'"
proof (cases "ipc_right_lookup_write s n K")
  case (Inl kr)
  then show ?thesis using assms by (simp add: ipc_object_copyin_def)
next
  case (Inr e)
  obtain r1 K1 where K1: "ipc_right_copyin s n e t True K = Some (r1, K1)"
    using assms(2) by (auto simp: ipc_object_copyin_def Inr split: bind_splits)
  from right_copyin_wf [OF assms(1) lookup_entry(1) [OF Inr] K1]
  have W: "kernel_wf (send_port_deleted d n (dealloc_if_none s n K1))" for d .
  have "kernel_wf (dealloc_if_none s n K1)" using W [of None] by (simp add: send_port_deleted_def)
  then show ?thesis
    using assms(2) W by (auto simp: ipc_object_copyin_def Inr K1 Let_def split: sum.splits)
qed

section \<open>Copyout\<close>

text \<open>
  A state that is a well-formed one but for the entry a copyout is about to fill: an entry of
  the state itself, or a new one that denotes the port and no rights yet.
\<close>

definition filling :: "ipc_kernel \<Rightarrow> ipc_kernel \<Rightarrow> space_id \<Rightarrow> mach_port_t \<Rightarrow> ipc_entry \<Rightarrow> port_id \<Rightarrow> bool" where
  "filling K0 K s n e p \<longleftrightarrow> effect K0 K s n p (Some e) (k_hash K0 s p) (receiver (k_ports K0 p)) \<and>
     ie_object e = IO_PORT p \<and>
     (if entries K0 s n = None then IE_BITS_TYPE (ie_bits e) = MACH_PORT_TYPE_NONE \<and> ie_bits e = 0 \<and> ie_request e = 0
      else entries K0 s n = Some e)"

lemma fillingD:
  assumes "filling K0 K s n e p"
  shows "effect K0 K s n p (Some e) (k_hash K0 s p) (receiver (k_ports K0 p))" "ie_object e = IO_PORT p"
    "entries K0 s n = None \<Longrightarrow> ie_bits e = 0 \<and> ie_request e = 0"
    "entries K0 s n \<noteq> None \<Longrightarrow> entries K0 s n = Some e"
  using assms by (auto simp: filling_def split: if_splits)

lemma effect_then:
  assumes "effect K0 K s n p x h r" and "entries K' = (entries K)(s := (entries K s)(n := y))"
    and "k_hash K' = (k_hash K)(s := (k_hash K s)(p := h'))"
    and "\<And>q. receiver (k_ports K' q) = (if q = p then r' else receiver (k_ports K q))"
    and "\<And>s'. is_active (k_spaces K' s') = is_active (k_spaces K s')"
  shows "effect K0 K' s n p y h' r'"
  using assms by (auto simp: effect_def)

lemma filling_about:
  assumes "filling K0 K s n e p" and "entry_ok (e\<lparr>ie_bits := b\<rparr>)"
  shows "about_port K0 s n p (Some (e\<lparr>ie_bits := b\<rparr>))"
  using assms fillingD [OF assms(1)] by (cases "entries K0 s n") (auto simp: about_port_def)

lemma filling_at:
  assumes "filling K0 K s n e p"
  shows "send_at K0 s n p \<longleftrightarrow> IE_BITS_TYPE (ie_bits e) = MACH_PORT_TYPE_SEND"
    "receive_at K0 s n p \<longleftrightarrow> test (ie_bits e) MACH_PORT_TYPE_RECEIVE"
  using fillingD [OF assms] by (cases "entries K0 s n"; force simp: send_at_def receive_at_def bits_defs test_def)+

lemma copyout_joined_ok:
  assumes ok: "entry_ok e" and p: "ie_object e = IO_PORT p" and full: "IE_BITS_UREFS (ie_bits e) + 1 \<noteq> MACH_PORT_UREFS_MAX"
    and type: "test (ie_bits e) MACH_PORT_TYPE_SEND_RECEIVE"
  defines "b \<equiv> (ie_bits e OR MACH_PORT_TYPE_SEND) + 1"
  shows "entry_ok (e\<lparr>ie_bits := b\<rparr>)" "IE_BITS_TYPE b = IE_BITS_TYPE (ie_bits e) OR MACH_PORT_TYPE_SEND"
proof -
  have u: "IE_BITS_UREFS (ie_bits e) < MACH_PORT_UREFS_MAX"
    using ok type by (cases e rule: entry_ok_cases) (auto simp: type_tests MACH_PORT_UREFS_MAX_def)
  have u1: "IE_BITS_UREFS (ie_bits e) + 1 < MACH_PORT_UREFS_MAX" using incr_bound [OF u] full by simp
  have "IE_BITS_UREFS (ie_bits e) \<noteq> - 1" using u by (auto simp: MACH_PORT_UREFS_MAX_def)
  then have u0: "0 < IE_BITS_UREFS (ie_bits e) + 1" by (simp add: word_gt_0 add_eq_0_iff2)
  show t: "IE_BITS_TYPE b = IE_BITS_TYPE (ie_bits e) OR MACH_PORT_TYPE_SEND"
    unfolding b_def by (rule copyout_types(1) [OF u])
  have f: "IE_BITS_UREFS b = IE_BITS_UREFS (ie_bits e) + 1" "test b IE_BITS_COMPAT = test (ie_bits e) IE_BITS_COMPAT"
    unfolding b_def using incr_fields [of "ie_bits e OR MACH_PORT_TYPE_SEND"] u by (simp_all add: set_send)
  from ok show "entry_ok (e\<lparr>ie_bits := b\<rparr>)"
    by (cases e rule: entry_ok_cases)
       (use ok type p t f u0 u1 in \<open>auto simp: entry_ok_def Let_def entry_port_def type_combinations type_tests\<close>)
qed

lemma fresh_ok:
  assumes "ie_bits e = 0" and "ie_object e = IO_PORT p" and "ie_request e = 0"
  shows "entry_ok (e\<lparr>ie_bits := (ie_bits e OR MACH_PORT_TYPE_SEND) + 1\<rparr>)"
    "entry_ok (e\<lparr>ie_bits := ie_bits e OR (MACH_PORT_TYPE_SEND_ONCE OR 1)\<rparr>)"
    "entry_ok (e\<lparr>ie_bits := ie_bits e OR MACH_PORT_TYPE_RECEIVE\<rparr>)"
  using assms by (simp_all add: entry_ok_def Let_def entry_port_def bits_defs MACH_PORT_UREFS_MAX_def)

lemma copyout_send_wf:
  assumes wf: "kernel_wf K0" and F: "filling K0 K s n e p"
    and new: "entries K0 s n = None \<Longrightarrow> k_hash K0 s p = None \<and> (\<forall>m. \<not> receive_at K0 s m p)"
    and old: "entries K0 s n \<noteq> None \<Longrightarrow> test (ie_bits e) MACH_PORT_TYPE_SEND_RECEIVE"
    and c: "ipc_right_copyout s n e MACH_MSG_TYPE_PORT_SEND overflow p K = (kr, K')"
  shows "kernel_wf K'"
proof -
  note D = fillingD [OF F]
  define b where "b = (ie_bits e OR MACH_PORT_TYPE_SEND) + 1"
  let ?drop = "ip_release p (upd_port p (ip_srights_update (\<lambda>n. n - 1)) K)"
  note E = effectD [OF D(1)]
  show ?thesis
  proof (cases "entries K0 s n")
    case None
    have z: "ie_bits e = 0" "ie_request e = 0" using D(3) None by auto
    have K': "K' = set_entry s n (e\<lparr>ie_bits := b\<rparr>) (ipc_hash_insert s p n K)"
      using c z by (simp add: b_def Let_def test_def)
    have t: "IE_BITS_TYPE b = MACH_PORT_TYPE_SEND" by (simp add: b_def z bits_defs)
    show ?thesis
      by (rule wf_gain_send [OF wf effect_then [OF D(1)] filling_about [OF F fresh_ok(1) [OF z(1) D(2) z(2)]]])
         (use None new t D(2) E(5) in \<open>auto simp: K' k_hash_hash b_def [symmetric] send_tests\<close>)
  next
    case (Some e0)
    then have e: "entries K0 s n = Some e" using D(4) by simp
    have ok: "entry_ok e" by (rule kernel_wfD(1) [OF wf e])
    have tst: "test (ie_bits e) MACH_PORT_TYPE_SEND_RECEIVE" using old e by simp
    consider (same) "same_rights K K'" | (join) "IE_BITS_UREFS (ie_bits e) + 1 \<noteq> MACH_PORT_UREFS_MAX"
      "K' = set_entry s n (e\<lparr>ie_bits := b\<rparr>) ?drop \<or> K' = set_entry s n (e\<lparr>ie_bits := b\<rparr>) (ip_release p K)"
      using ok
    proof (cases e rule: entry_ok_cases)
      case send
      with c that show thesis by (auto simp: b_def send_tests Let_def same_rights_def split: if_splits)
    next
      case send_receive
      with c that show thesis by (auto simp: b_def send_receive_tests Let_def same_rights_def split: if_splits)
    next
      case receive
      with c that show thesis by (auto simp: b_def receive_tests Let_def MACH_PORT_UREFS_MAX_def split: if_splits)
    qed (use tst in \<open>auto simp: type_tests\<close>)
    then show ?thesis
    proof cases
      case same
      have "entries K = entries K0" using E(1) e by (simp add: fun_upd_idem)
      then have "same_rights K0 K" using D(1) e by (auto simp: same_rights_def effect_def fun_upd_idem)
      with same show ?thesis using wf kernel_wf_cong by blast
    next
      case join
      note J = copyout_joined_ok [OF ok D(2) join(1) tst, folded b_def]
      have "effect K0 K' s n p (Some (e\<lparr>ie_bits := b\<rparr>)) (k_hash K0 s p) (receiver (k_ports K0 p))"
        using join(2) D(1) by (auto simp: effect_def)
      then show ?thesis
      proof (rule wf_keep [OF wf _ filling_about [OF F J(1)]])
        have t: "(IE_BITS_TYPE b = MACH_PORT_TYPE_SEND) = (IE_BITS_TYPE (ie_bits e) = MACH_PORT_TYPE_SEND) \<and>
          test b MACH_PORT_TYPE_RECEIVE = test (ie_bits e) MACH_PORT_TYPE_RECEIVE"
          using ok tst J(2) by (cases e rule: entry_ok_cases) (auto simp: type_tests type_combinations)
        show "holds (send_entry p) (Some (e\<lparr>ie_bits := b\<rparr>)) = send_at K0 s n p"
          "holds (receive_entry p) (Some (e\<lparr>ie_bits := b\<rparr>)) = receive_at K0 s n p"
          using t D(2) by (auto simp: filling_at [OF F])
      qed
    qed
  qed
qed

lemma copyout_send_once_wf:
  assumes wf: "kernel_wf K0" and F: "filling K0 K s n e p" and new: "entries K0 s n = None"
    and c: "ipc_right_copyout s n e MACH_MSG_TYPE_PORT_SEND_ONCE overflow p K = (kr, K')"
  shows "kernel_wf K'"
proof -
  note D = fillingD [OF F]
  have z: "ie_bits e = 0" "ie_request e = 0" using D(3) new by auto
  define b where "b = ie_bits e OR (MACH_PORT_TYPE_SEND_ONCE OR 1)"
  have K': "K' = set_entry s n (e\<lparr>ie_bits := b\<rparr>) K" using c by (simp add: b_def)
  have t: "IE_BITS_TYPE b = MACH_PORT_TYPE_SEND_ONCE" by (simp add: b_def z bits_defs)
  have "effect K0 K' s n p (Some (e\<lparr>ie_bits := b\<rparr>)) (k_hash K0 s p) (receiver (k_ports K0 p))"
    unfolding K' by (rule set_entry_effect [OF D(1)])
  then show ?thesis
    by (rule wf_keep [OF wf _ filling_about [OF F fresh_ok(2) [OF z(1) D(2) z(2)], folded b_def]])
       (use new t in \<open>auto simp: send_at_def receive_at_def send_once_tests\<close>)
qed

lemma copyout_receive_wf:
  assumes wf: "kernel_wf K0" and F: "filling K0 K s n e p" and active: "ip_active (k_ports K0 p)"
    and transit: "\<And>s' m. receiver (k_ports K0 p) \<noteq> (True, Ip_Receiver s', m)"
    and new: "entries K0 s n = None \<Longrightarrow> k_hash K0 s p = None"
    and old: "entries K0 s n \<noteq> None \<Longrightarrow> IE_BITS_TYPE (ie_bits e) = MACH_PORT_TYPE_SEND"
    and c: "ipc_right_copyout s n e MACH_MSG_TYPE_PORT_RECEIVE overflow p K = (kr, K')"
  shows "kernel_wf K'"
proof -
  note D = fillingD [OF F]
  define b where "b = ie_bits e OR MACH_PORT_TYPE_RECEIVE"
  have b: "entry_ok (e\<lparr>ie_bits := b\<rparr>)" "test b MACH_PORT_TYPE_RECEIVE" "IE_BITS_TYPE b \<noteq> MACH_PORT_TYPE_SEND"
  proof -
    have "entry_ok (e\<lparr>ie_bits := b\<rparr>) \<and> (IE_BITS_TYPE b = MACH_PORT_TYPE_RECEIVE \<or> IE_BITS_TYPE b = MACH_PORT_TYPE_SEND_RECEIVE)"
    proof (cases "entries K0 s n")
      case None
      then show ?thesis using fresh_ok(3) [of e p] D(2,3) by (auto simp: b_def bits_defs)
    next
      case (Some e0)
      then have e: "entries K0 s n = Some e" "IE_BITS_TYPE (ie_bits e) = MACH_PORT_TYPE_SEND" using D(4) old by auto
      then show ?thesis using kernel_wfD(1) [OF wf e(1)] D(2)
        by (simp add: entry_ok_def Let_def b_def set_receive type_combinations entry_port_def)
    qed
    then show "entry_ok (e\<lparr>ie_bits := b\<rparr>)" "test b MACH_PORT_TYPE_RECEIVE" "IE_BITS_TYPE b \<noteq> MACH_PORT_TYPE_SEND"
      by (auto simp: type_tests)
  qed
  have hash: "k_hash K0 s p = (if test (ie_bits e) MACH_PORT_TYPE_SEND then Some n else None)"
  proof (cases "entries K0 s n")
    case None
    then show ?thesis using new D(3) by (simp add: test_def)
  next
    case (Some e0)
    then have t: "IE_BITS_TYPE (ie_bits e) = MACH_PORT_TYPE_SEND" using old by simp
    then show ?thesis using port_wfD(1) [OF kernel_wfD(2) [OF wf], of s p n] filling_at(1) [OF F] by (simp add: send_tests)
  qed
  define K1 where "K1 = upd_port p (\<lambda>x. x\<lparr>ip_receiver_name := n, ip_data := Ip_Receiver s\<rparr>) K"
  define K2 where "K2 = (if test (ie_bits e) MACH_PORT_TYPE_SEND then ipc_hash_delete s p n (ip_release p K1) else K1)"
  define K3 where "K3 = set_entry s n (e\<lparr>ie_bits := b\<rparr>) K2"
  have K': "K' = K3 \<or> (\<exists>d. K' = ip_release d K3)"
    using c unfolding K3_def K2_def K1_def b_def by (auto simp: Let_def split: if_splits option.splits)
  have act: "ip_active (k_ports K p)" using effectD(5) [OF D(1)] active by (simp add: receiver_def)
  have r: "receiver (k_ports K1 q) = (if q = p then (True, Ip_Receiver s, n) else receiver (k_ports K q))" for q
    using act by (simp add: K1_def receiver_def)
  have h: "k_hash K2 = (k_hash K0)(s := (k_hash K0 s)(p := None))"
    using D(1) hash by (auto simp: K2_def K1_def k_hash_hash effect_def fun_eq_iff)
  have "effect K0 K3 s n p (Some (e\<lparr>ie_bits := b\<rparr>)) None (True, Ip_Receiver s, n)"
    unfolding effect_def K3_def
    using h r D(1) by (auto simp: effect_def K2_def K1_def ports_hash)
  then have G: "effect K0 K' s n p (Some (e\<lparr>ie_bits := b\<rparr>)) None (True, Ip_Receiver s, n)"
    using K' by (auto simp: effect_def)
  show ?thesis
    by (rule wf_gain_receive [OF wf G filling_about [OF F b(1)] transit])
       (use hash b D(2) port_wfD(1) [OF kernel_wfD(2) [OF wf], of s p n] in \<open>auto split: if_splits\<close>)
qed

text \<open>In a well-formed state the reverse lookup finds the rights to the port that the space holds, if any.\<close>

lemma reverse_wf:
  assumes wf: "kernel_wf K" and s: "is_active (k_spaces K s)" and p: "ip_active (k_ports K p)"
  shows "case ipc_right_reverse s p K of
           Some (n, e) \<Rightarrow> entries K s n = Some e \<and> ie_object e = IO_PORT p \<and> test (ie_bits e) MACH_PORT_TYPE_SEND_RECEIVE \<and>
             (IE_BITS_TYPE (ie_bits e) = MACH_PORT_TYPE_SEND \<or> ip_data (k_ports K p) = Ip_Receiver s)
         | None \<Rightarrow> k_hash K s p = None \<and> (\<forall>m. \<not> receive_at K s m p)"
proof -
  note W = port_wfD [OF kernel_wfD(2) [OF wf]]
  show ?thesis
  proof (cases "ip_data (k_ports K p) = Ip_Receiver s")
    case True
    then have "receive_at K s (ip_receiver_name (k_ports K p)) p" using W(3) [OF s] p by (simp add: receiver_def)
    then obtain e where e: "entries K s (ip_receiver_name (k_ports K p)) = Some e" "ie_object e = IO_PORT p"
      "test (ie_bits e) MACH_PORT_TYPE_RECEIVE" by (auto simp: receive_at_def)
    have "test (ie_bits e) MACH_PORT_TYPE_SEND_RECEIVE"
      using kernel_wfD(1) [OF wf e(1)] e(3) by (cases e rule: entry_ok_cases) (auto simp: type_tests)
    then show ?thesis using p True e by (simp add: ipc_right_reverse_def)
  next
    case False
    then have nr: "\<not> receive_at K s m p" for m using W(2) [of s m p] by (auto simp: receiver_def)
    show ?thesis
    proof (cases "k_hash K s p")
      case None
      then show ?thesis using p False nr by (simp add: ipc_right_reverse_def)
    next
      case (Some n)
      then have "send_at K s n p" using W(1) by simp
      then show ?thesis using p False Some
        by (auto simp: ipc_right_reverse_def send_at_def send_tests)
    qed
  qed
qed

text \<open>The two entries a copyout fills.\<close>

lemma filling_old:
  "entries K s n = Some e \<Longrightarrow> ie_object e = IO_PORT p \<Longrightarrow> filling K K s n e p"
  by (simp add: filling_def same_rights_effect [OF same_rights_refl])

lemma filling_new:
  "entries K s n = None \<Longrightarrow>
     filling K (set_entry s n (new_entry\<lparr>ie_object := IO_PORT p\<rparr>) (set_entry s n new_entry K)) s n
       (new_entry\<lparr>ie_object := IO_PORT p\<rparr>) p"
  by (simp add: filling_def effect_def new_entry_def bits_defs)

text \<open>
  What the entry layer and the holder of a right in transit promise: a new name is free, and the
  receive right that is copied out belongs to no space.
\<close>

definition fresh_name :: "kern_return_t + mach_port_t \<Rightarrow> space_id \<Rightarrow> ipc_kernel \<Rightarrow> bool" where
  "fresh_name alloc s K \<longleftrightarrow> (case alloc of Inl _ \<Rightarrow> True | Inr n \<Rightarrow> entries K s n = None)"

definition copyout_ready :: "kern_return_t + mach_port_t \<Rightarrow> space_id \<Rightarrow> port_id \<Rightarrow> msg_right \<Rightarrow> ipc_kernel \<Rightarrow> bool" where
  "copyout_ready alloc s p r K \<longleftrightarrow>
     fresh_name alloc s K \<and> (r = MACH_MSG_TYPE_PORT_RECEIVE \<longrightarrow> (case ip_data (k_ports K p) of Ip_Receiver _ \<Rightarrow> False | _ \<Rightarrow> True))"

lemma right_copyout_wf:
  assumes wf: "kernel_wf K0" and F: "filling K0 K s n e p" and p: "ip_active (k_ports K0 p)"
    and transit: "r = MACH_MSG_TYPE_PORT_RECEIVE \<Longrightarrow> \<forall>s'. ip_data (k_ports K0 p) \<noteq> Ip_Receiver s'"
    and new: "entries K0 s n = None \<Longrightarrow> r \<noteq> MACH_MSG_TYPE_PORT_SEND_ONCE \<Longrightarrow>
                k_hash K0 s p = None \<and> (\<forall>m. \<not> receive_at K0 s m p)"
    and old: "entries K0 s n \<noteq> None \<Longrightarrow> r \<noteq> MACH_MSG_TYPE_PORT_SEND_ONCE \<and> test (ie_bits e) MACH_PORT_TYPE_SEND_RECEIVE \<and>
                (r = MACH_MSG_TYPE_PORT_RECEIVE \<longrightarrow> IE_BITS_TYPE (ie_bits e) = MACH_PORT_TYPE_SEND)"
    and c: "ipc_right_copyout s n e r overflow p K = (kr, K')"
  shows "kernel_wf K'"
proof (cases r)
  case MACH_MSG_TYPE_PORT_SEND
  show ?thesis
    by (rule copyout_send_wf [OF wf F _ _ c [unfolded MACH_MSG_TYPE_PORT_SEND]])
       (use MACH_MSG_TYPE_PORT_SEND new old in auto)
next
  case MACH_MSG_TYPE_PORT_SEND_ONCE
  then have "entries K0 s n = None" using old by blast
  then show ?thesis by (rule copyout_send_once_wf [OF wf F _ c [unfolded MACH_MSG_TYPE_PORT_SEND_ONCE]])
next
  case MACH_MSG_TYPE_PORT_RECEIVE
  then have "receiver (k_ports K0 p) \<noteq> (True, Ip_Receiver s', m)" for s' m using transit by (auto simp: receiver_def)
  then show ?thesis
    by (rule copyout_receive_wf [OF wf F p _ _ _ c [unfolded MACH_MSG_TYPE_PORT_RECEIVE]])
       (use MACH_MSG_TYPE_PORT_RECEIVE new old in auto)
qed

lemma object_copyout_wf:
  assumes wf: "kernel_wf K" and ready: "copyout_ready alloc s p r K"
    and c: "ipc_object_copyout alloc s p r overflow K = (res, K')"
  shows "kernel_wf K'"
proof -
  have transit: "r = MACH_MSG_TYPE_PORT_RECEIVE \<Longrightarrow> \<forall>s'. ip_data (k_ports K p) \<noteq> Ip_Receiver s'"
    using ready by (auto simp: copyout_ready_def split: ip_data.splits)
  consider (failed) "K' = K" | (old) n e kr where "is_active (k_spaces K s)" "copyout_reverse s p r K = Some (n, e)"
      "ipc_right_copyout s n e r overflow p K = (kr, K')"
    | (dead) n where "entries K s n = None" "K' = entry_dealloc s n (set_entry s n new_entry K)"
    | (new) n e kr where "is_active (k_spaces K s)" "copyout_reverse s p r K = None" "ip_active (k_ports K p)"
      "entries K s n = None" "e = new_entry\<lparr>ie_object := IO_PORT p\<rparr>"
      "ipc_right_copyout s n e r overflow p (set_entry s n e (set_entry s n new_entry K)) = (kr, K')"
  proof (cases "is_active (k_spaces K s) \<and> (copyout_reverse s p r K = None \<longrightarrow> (\<exists>n. alloc = Inr n))")
    case False
    then have "K' = K"
      using c by (cases alloc; cases "copyout_reverse s p r K") (auto simp: ipc_object_copyout_def entry_alloc_def split: if_splits)
    then show thesis by (rule failed)
  next
    case s: True
    show thesis
    proof (cases "copyout_reverse s p r K")
      case (Some x)
      then show thesis using s c old [of "fst x" "snd x"]
        by (auto simp: ipc_object_copyout_def Let_def split: prod.splits)
    next
      case None
      then obtain n where n: "alloc = Inr n" "entries K s n = None" using s ready by (auto simp: copyout_ready_def fresh_name_def)
      show thesis
        using s c None n dead [of n] new [of n "new_entry\<lparr>ie_object := IO_PORT p\<rparr>"]
        by (cases "ip_active (k_ports K p)") (auto simp: ipc_object_copyout_def entry_alloc_def Let_def split: prod.splits)
    qed
  qed
  then show ?thesis
  proof cases
    case failed
    then show ?thesis using wf by simp
  next
    case old
    have r: "r \<noteq> MACH_MSG_TYPE_PORT_SEND_ONCE" "ipc_right_reverse s p K = Some (n, e)"
      using old(2) by (auto simp: copyout_reverse_def split: if_splits)
    then have p: "ip_active (k_ports K p)" by (auto simp: ipc_right_reverse_def split: if_splits)
    note R = reverse_wf [OF wf old(1) p, unfolded r(2), simplified]
    show ?thesis by (rule right_copyout_wf [OF wf filling_old p transit _ _ old(3)]) (use R r(1) transit in auto)
  next
    case dead
    then have "same_rights K K'" by (simp add: same_rights_def fun_upd_idem)
    then show ?thesis using wf kernel_wf_cong by blast
  next
    case new
    note F = filling_new [OF new(4), of p, folded new(5)]
    show ?thesis
      by (rule right_copyout_wf [OF wf F new(3) transit _ _ new(6)])
         (use reverse_wf [OF wf new(1,3)] new(2,4) in \<open>auto simp: copyout_reverse_def\<close>)
  qed
qed

end
