(* ===== verification/Object_Steps.thy ===== *)
theory Object_Steps
  imports Object_Wf Mach_Port
begin

text \<open>
  The steps of the object layer: new ports and dead names, copyin, copyout and the destruction of
  rights in transit, with the death of a port that follows. Every state they reach is well-formed.
\<close>

section \<open>Allocation\<close>

lemma fresh_wf:
  assumes wf: "kernel_wf K" and fresh: "entries K s n = None"
    and e: "entry_ok e" "\<And>p. ie_object e \<noteq> IO_PORT p"
    and K': "entries K' = (entries K)(s := (entries K s)(n \<mapsto> e))" "k_hash K' = k_hash K"
      "\<And>q. receiver (k_ports K' q) = receiver (k_ports K q)"
      "\<And>s'. is_active (k_spaces K' s') = is_active (k_spaces K s')"
  shows "kernel_wf K'"
proof (rule wf_keep [OF wf])
  show "effect K K' s n 0 (Some e) (k_hash K s 0) (receiver (k_ports K 0))" using K' by (simp add: effect_def)
qed (use fresh e in \<open>auto simp: about_port_def send_at_def receive_at_def\<close>)

lemma alloc_dead_wf:
  assumes wf: "kernel_wf K" and fresh: "fresh_name alloc s K"
    and c: "ipc_object_alloc_dead alloc s K = (r, K')"
  shows "kernel_wf K'"
proof (cases "is_active (k_spaces K s) \<and> (\<exists>n. alloc = Inr n)")
  case False
  then show ?thesis using c wf by (cases alloc) (auto simp: ipc_object_alloc_dead_def entry_alloc_def split: if_splits)
next
  case True
  then obtain n where n: "is_active (k_spaces K s)" "alloc = Inr n" by blast
  let ?e = "new_entry\<lparr>ie_bits := ie_bits new_entry OR (MACH_PORT_TYPE_DEAD_NAME OR 1)\<rparr>"
  have K': "K' = set_entry s n ?e (set_entry s n new_entry K)"
    using c n by (simp add: ipc_object_alloc_dead_def entry_alloc_def)
  show ?thesis
    by (rule fresh_wf [OF wf fresh [unfolded fresh_name_def n(2) sum.case], where e = ?e])
       (simp_all add: K' new_entry_def entry_ok_def Let_def bits_defs)
qed

text \<open>A port that \<^verbatim>\<open>io_alloc\<close> may return: dead, and in no entry of any space.\<close>

definition port_unused :: "ipc_kernel \<Rightarrow> port_id \<Rightarrow> bool" where
  "port_unused K p \<longleftrightarrow> \<not> ip_active (k_ports K p) \<and> (\<forall>s n e. entries K s n = Some e \<longrightarrow> ie_object e \<noteq> IO_PORT p)"

lemma port_alloc_wf:
  assumes wf: "kernel_wf K" and fresh: "fresh_name alloc s K"
    and unused: "\<And>p. io = Some p \<Longrightarrow> port_unused K p"
    and c: "ipc_port_alloc io alloc s K = (r, K')"
  shows "kernel_wf K'"
proof (cases "is_active (k_spaces K s) \<and> (\<exists>n p. alloc = Inr n \<and> io = Some p)")
  case False
  then show ?thesis using c wf
    by (cases alloc; cases io) (auto simp: ipc_port_alloc_def ipc_object_alloc_def entry_alloc_def split: if_splits)
next
  case True
  then obtain n p where n: "is_active (k_spaces K s)" "alloc = Inr n" "io = Some p" by blast
  let ?e = "new_entry\<lparr>ie_bits := ie_bits new_entry OR (MACH_PORT_TYPE_RECEIVE OR 0), ie_object := IO_PORT p\<rparr>"
  have K': "K' = ipc_port_init p s n (io_init (IO_PORT p) (set_entry s n ?e (set_entry s n new_entry K)))"
    using c n by (simp add: ipc_port_alloc_def ipc_object_alloc_def entry_alloc_def init_port_def)
  have f: "entries K s n = None" using fresh n(2) by (simp add: fresh_name_def)
  have u: "\<not> ip_active (k_ports K p)" "\<And>s n e. entries K s n = Some e \<Longrightarrow> ie_object e \<noteq> IO_PORT p"
    using unused [OF n(3)] by (auto simp: port_unused_def)
  have "\<not> send_at K s m p" for m using u(2) by (auto simp: send_at_def)
  then have h: "k_hash K s p = None" using port_wfD(1) [OF kernel_wfD(2) [OF wf], of s p] by (cases "k_hash K s p") auto
  have ok: "entry_ok ?e" by (simp add: new_entry_def entry_ok_def Let_def entry_port_def bits_defs)
  have t: "test (ie_bits ?e) MACH_PORT_TYPE_RECEIVE" "IE_BITS_TYPE (ie_bits ?e) \<noteq> MACH_PORT_TYPE_SEND"
    by (simp_all add: new_entry_def bits_defs test_def)
  have "effect K K' s n p (Some ?e) None (True, Ip_Receiver s, n)"
    using h by (auto simp: effect_def K' ipc_port_init_def receiver_def fun_eq_iff)
  then show ?thesis
    by (rule wf_gain_receive [OF wf]) (use f u h ok t in \<open>auto simp: about_port_def receiver_def\<close>)
qed

section \<open>The death of a port\<close>

lemma k_hash_more [simp]:
  "k_hash (snd (ipc_port_timestamp K)) = k_hash K"
  "k_hash (ipc_notify_no_senders p c K) = k_hash K"
  "k_hash (ipc_notify_send_once p K) = k_hash K"
  "k_hash (ipc_notify_dead_name p n K) = k_hash K"
  "k_hash (ipc_port_release_send p K) = k_hash K"
  "k_hash (ipc_notify_port_deleted_compat p n K) = k_hash K"
  "k_hash (snd (ipc_space_make_notify s K)) = k_hash K"
  "k_hash (kmsg_destroy_loop p ms K) = k_hash K"
proof -
  show 1: "k_hash (ipc_notify_no_senders p c K) = k_hash K" for p c K by (simp add: ipc_notify_no_senders_def)
  have 2: "k_hash (snd (drop_sright p K)) = k_hash K" for p K by (simp add: drop_sright_def Let_def split: option.split)
  have 3: "k_hash (send_no_senders ns K) = k_hash K" for ns K by (simp add: send_no_senders_def 1 split: option.split)
  show 4: "k_hash (ipc_port_release_send p K) = k_hash K" for p K
    by (simp add: ipc_port_release_send_def Let_def 2 3 split_beta)
  show "k_hash (ipc_notify_port_deleted_compat p n K) = k_hash K" by (simp add: ipc_notify_port_deleted_compat_def 4)
  show "k_hash (snd (ipc_space_make_notify s K)) = k_hash K"
    by (simp add: ipc_space_make_notify_def ipc_port_copy_send_def split: ipc_object.split)
  show "k_hash (kmsg_destroy_loop p ms K) = k_hash K" by (induction p ms K rule: kmsg_destroy_loop.induct) simp_all
qed (simp_all add: ipc_port_timestamp_def ipc_notify_send_once_def ipc_notify_dead_name_def)

lemma receiver_more [simp]:
  "receiver (k_ports (ipc_mqueue_send_always m K) q) = receiver (k_ports K q)"
  "receiver (k_ports (ipc_port_release_sonce p K) q) = receiver (k_ports K q)"
  "receiver (k_ports (ipc_notify_send_once p K) q) = receiver (k_ports K q)"
  "receiver (k_ports (ipc_notify_dead_name p n K) q) = receiver (k_ports K q)"
  "receiver (k_ports (ipc_port_release_send p K) q) = receiver (k_ports K q)"
  "receiver (k_ports (ipc_notify_port_deleted_compat p n K) q) = receiver (k_ports K q)"
  "receiver (k_ports (snd (ipc_space_make_notify s K)) q) = receiver (k_ports K q)"
  "receiver (k_ports (kmsg_destroy_loop p ms K) q) = receiver (k_ports K q)"
proof -
  show 1: "receiver (k_ports (ipc_mqueue_send_always m K) q) = receiver (k_ports K q)" for m K q by (rule receiver_core) simp
  have 2: "receiver (k_ports (snd (drop_sright p K)) q) = receiver (k_ports K q)" for p K q
    by (simp add: drop_sright_def Let_def split: option.split)
  have 3: "receiver (k_ports (send_no_senders ns K) q) = receiver (k_ports K q)" for ns K q by (rule receiver_core) simp
  show 4: "receiver (k_ports (ipc_port_release_send p K) q) = receiver (k_ports K q)" for p K q
    by (simp add: ipc_port_release_send_def Let_def 2 3 split_beta)
  show "receiver (k_ports (ipc_notify_port_deleted_compat p n K) q) = receiver (k_ports K q)"
    by (simp add: ipc_notify_port_deleted_compat_def 1 4)
  show "receiver (k_ports (snd (ipc_space_make_notify s K)) q) = receiver (k_ports K q)"
    by (simp add: ipc_space_make_notify_def ipc_port_copy_send_def split: ipc_object.split)
  show "receiver (k_ports (kmsg_destroy_loop p ms K) q) = receiver (k_ports K q)"
    by (rule receiver_core) (simp add: kmsg_destroy_loop_spec)
qed (rule receiver_core; simp)+

text \<open>Only what the port \<open>p\<close> knows of its receiver changes.\<close>

definition rights_but :: "port_id \<Rightarrow> ipc_kernel \<Rightarrow> ipc_kernel \<Rightarrow> bool" where
  "rights_but p K K' \<longleftrightarrow> entries K' = entries K \<and> k_hash K' = k_hash K \<and>
     (\<forall>s. is_active (k_spaces K' s) = is_active (k_spaces K s)) \<and>
     (\<forall>q. q \<noteq> p \<longrightarrow> receiver (k_ports K' q) = receiver (k_ports K q))"

text \<open>The receive right of a live port in no space; the port may be dead.\<close>

definition unreceived :: "ipc_kernel \<Rightarrow> port_id \<Rightarrow> bool" where
  "unreceived K p \<longleftrightarrow> (\<forall>s n. receiver (k_ports K p) \<noteq> (True, Ip_Receiver s, n))"

lemma wf_transit:
  assumes wf: "kernel_wf K" and K': "rights_but p K K'" and u: "unreceived K p" "unreceived K' p"
  shows "kernel_wf K'"
proof -
  have at: "send_at K' = send_at K" "receive_at K' = receive_at K"
    using K' by (auto simp: rights_but_def send_at_def receive_at_def fun_eq_iff)
  have "port_wf K' q" for q
  proof (cases "q = p")
    case True
    note W = port_wfD [OF kernel_wfD(2) [OF wf, of p]]
    have "\<not> receive_at K s n p" for s n using W(2) [of s n] u(1) by (auto simp: unreceived_def)
    moreover have "k_hash K' s p = Some n \<longleftrightarrow> send_at K s n p" for s n using W(1) [of s n] K' by (simp add: rights_but_def)
    ultimately show ?thesis unfolding port_wf_def at True using u(2) by (simp add: unreceived_def)
  next
    case False
    then have r: "receiver (k_ports K' q) = receiver (k_ports K q)" using K' by (simp add: rights_but_def)
    have a: "k_hash K' = k_hash K" "is_active (k_spaces K' s) = is_active (k_spaces K s)" for s
      using K' by (simp_all add: rights_but_def)
    have "port_wf K' q = port_wf K q" unfolding port_wf_def at a r ..
    then show ?thesis using kernel_wfD(2) [OF wf] by blast
  qed
  moreover have "entry_ok e" if "entries K' s n = Some e" for s n e
    using that K' kernel_wfD(1) [OF wf] by (simp add: rights_but_def)
  ultimately show ?thesis by (simp add: kernel_wf_def)
qed

text \<open>The right of an entry to a dead port goes with the entry.\<close>

lemma destroy_dead_wf:
  assumes wf: "kernel_wf K" and dead: "\<not> ip_active (k_ports K p)" and E: "entries K s n = Some e" "ie_object e = IO_PORT p"
    and c: "ipc_right_destroy_dead s n e p K = Some (kr, K')"
  shows "kernel_wf K'" "receiver (k_ports K' p) = receiver (k_ports K p)"
proof -
  have nr: "\<not> receive_at K s n p" using port_wfD(2) [OF kernel_wfD(2) [OF wf]] dead by (auto simp: receiver_def)
  have type: "IE_BITS_TYPE (ie_bits e) = MACH_PORT_TYPE_SEND \<or> IE_BITS_TYPE (ie_bits e) = MACH_PORT_TYPE_SEND_ONCE"
    using kernel_wfD(1) [OF wf E(1)] nr E by (cases e rule: entry_ok_cases) (auto simp: receive_at_def type_tests)
  let ?send = "IE_BITS_TYPE (ie_bits e) = MACH_PORT_TYPE_SEND"
  obtain K1 where K1: "marequest_cancel_if (ie_bits e) s n K = Some K1"
    "K' = entry_dealloc s n (ip_release p (if ?send then ipc_hash_delete s p n K1 else K1))"
    using c by (auto simp: ipc_right_destroy_dead_def marequest_cancel_if_def Let_def split: bind_splits if_splits)
  note f = marequest_cancel_frame(1-3) [OF K1(1)]
  have "entries K1 = entries K" by (rule entries_cong) (simp add: f(1))
  then have F: "effect K K' s n p None (if ?send then None else k_hash K s p) (receiver (k_ports K p))"
    using f by (auto simp: effect_def K1(2) k_hash_hash ports_hash)
  show "kernel_wf K'" by (rule dead_effect_wf [OF wf E type F]) simp
  show "receiver (k_ports K' p) = receiver (k_ports K p)" by (rule effectD(5) [OF F])
qed

text \<open>Well-formed, and the port is dead: what the notifications of its death keep.\<close>

definition dead_wf :: "port_id \<Rightarrow> ipc_kernel \<Rightarrow> bool" where
  "dead_wf p K \<longleftrightarrow> kernel_wf K \<and> \<not> ip_active (k_ports K p)"

lemma dead_wf_cong:
  assumes "dead_wf p K" and "same_rights K K'"
  shows "dead_wf p K'"
  using assms kernel_wf_cong [OF assms(2)] unfolding dead_wf_def same_rights_def receiver_def by (metis prod.inject)

lemma delete_compat_wf:
  assumes "dead_wf p K" and "ipc_port_delete_compat p s n K = Some K'"
  shows "dead_wf p K'"
proof -
  have released: "dead_wf p (is_release s K)" if "dead_wf p K" for K
    by (rule dead_wf_cong [OF that]) (simp add: same_rights_def fun_eq_iff entries_def is_release_def upd_space_def)
  show ?thesis
  proof (cases "is_active (k_spaces K s) \<and> (\<exists>e. entries K s n = Some e \<and> ie_object e = IO_PORT p)")
    case False
    then show ?thesis using assms released
      by (auto simp: ipc_port_delete_compat_def split: if_splits option.splits)
  next
    case True
    then obtain e where e: "is_active (k_spaces K s)" "entries K s n = Some e" "ie_object e = IO_PORT p" by blast
    obtain sright K1 where K1: "ipc_space_make_notify s K = (sright, K1)" by fastforce
    have "same_rights K K1"
      using arg_cong [OF K1, of snd] by (auto simp: same_rights_def intro!: entries_cong)
    then have d1: "dead_wf p K1" "entries K1 = entries K" using dead_wf_cong [OF assms(1)] by (auto simp: same_rights_def)
    obtain kr K2 where K2: "ipc_right_destroy_dead s n e p K1 = Some (kr, K2)"
      "K' = is_release s (case sright of IO_PORT q \<Rightarrow> ipc_notify_port_deleted_compat q n K2 | _ \<Rightarrow> K2)"
      using assms(2) e K1 by (auto simp: ipc_port_delete_compat_def split: bind_splits)
    have "dead_wf p K2"
      using destroy_dead_wf [OF _ _ _ e(3) K2(1)] d1 e(2) by (auto simp: dead_wf_def receiver_def)
    then have "dead_wf p (case sright of IO_PORT q \<Rightarrow> ipc_notify_port_deleted_compat q n K2 | _ \<Rightarrow> K2)"
      by (rule dead_wf_cong) (auto simp: same_rights_def intro!: entries_cong split: ipc_object.split)
    then show ?thesis unfolding K2(2) by (rule released)
  qed
qed

lemma dead_name_loop_wf:
  assumes "dead_name_loop p iprs K = Some K'" and "dead_wf p K"
  shows "dead_wf p K'"
  using assms
proof (induction p iprs K rule: dead_name_loop.induct)
  case (2 p ipr iprs K)
  have n: "dead_wf p (ipc_notify_dead_name q m K)" for q m
    by (rule dead_wf_cong [OF "2.prems"(2)]) (auto simp: same_rights_def intro!: entries_cong)
  show ?case
    using 2 n delete_compat_wf by (auto split: if_splits ipr_notify.splits bind_splits)
qed simp

lemma destroy_tail_wf:
  assumes wf: "kernel_wf K" and u: "unreceived K p" and c: "ipc_port_destroy_tail p K = Some K'"
  shows "dead_wf p K'"
proof -
  define K1 where "K1 = upd_port p (ip_active_update (\<lambda>_. False))
    (upd_port p (ip_blocked_update (\<lambda>_. [])) (threads_go (wake_senders (ip_blocked (k_ports K p))) K))"
  define K2 where "K2 = upd_port p (ip_data_update (\<lambda>_. Ip_Timestamp (k_timestamp K1))) (snd (ipc_port_timestamp K1))"
  define K3 where "K3 = (case ip_nsrequest (k_ports K2 p) of None \<Rightarrow> K2 | Some r \<Rightarrow> ipc_notify_send_once r K2)"
  define K4 where "K4 = kmsg_destroy_loop p (ip_messages (k_ports K3 p)) (upd_port p (ip_messages_update (\<lambda>_. [])) K3)"
  have r2: "receiver (k_ports K2 q) = (if q = p then (False, Ip_Timestamp (k_timestamp K1), ip_receiver_name (k_ports K p))
      else receiver (k_ports K q))" for q
    by (simp add: K2_def K1_def ipc_port_timestamp_def receiver_def threads_go_def)
  have r3: "receiver (k_ports K3 q) = receiver (k_ports K2 q)" for q by (simp add: K3_def split: option.split)
  have "receiver (ip_messages_update f x) = receiver x" for f x by (simp add: receiver_def)
  then have "receiver (k_ports K4 q) = receiver (k_ports K3 q)" for q by (simp add: K4_def)
  with r2 r3 have r4: "receiver (k_ports K4 q) = (if q = p then (False, Ip_Timestamp (k_timestamp K1), ip_receiver_name (k_ports K p))
      else receiver (k_ports K q))" for q by simp
  have s2: "k_spaces K2 = k_spaces K" "k_hash K2 = k_hash K"
    by (simp_all add: K2_def K1_def ipc_port_timestamp_def)
  have s4: "k_spaces K4 = k_spaces K" "k_hash K4 = k_hash K"
    by (simp_all add: K4_def kmsg_destroy_loop_spec K3_def s2 split: option.split)
  have "rights_but p K K4" unfolding rights_but_def using s4 r4 entries_cong [OF s4(1)] by auto
  moreover have "unreceived K4 p" "\<not> ip_active (k_ports K4 p)" using r4 [of p] by (auto simp: unreceived_def receiver_def)
  ultimately have d4: "dead_wf p K4" using wf_transit [OF wf _ u] by (simp add: dead_wf_def)
  obtain K5 where K5: "dead_wf p K5"
    "K' = ip_release p (if ip_kotype (k_ports K5 p) \<noteq> 0 then K5\<lparr>k_kobjects_gone := k_kobjects_gone K5 @ [p]\<rparr> else K5)"
  proof -
    from c have "(case ip_dnrequests (k_ports K4 p) of
           None \<Rightarrow> Some K4
         | Some table \<Rightarrow>
             dead_name_loop p (map (nth (dn_slots table)) [1..<its_size (k_dn_sizes K4) (dn_size table)]) K4) \<bind>
        (\<lambda>K5. Some (ip_release p (if ip_kotype (k_ports K5 p) \<noteq> 0
           then K5\<lparr>k_kobjects_gone := k_kobjects_gone K5 @ [p]\<rparr> else K5))) = Some K'"
      unfolding ipc_port_destroy_tail_def K4_def K3_def K2_def K1_def ipc_port_timestamp_def Let_def prod.case snd_conv .
    then show thesis using that d4 dead_name_loop_wf [OF _ d4] by (auto split: option.splits bind_splits)
  qed
  show ?thesis unfolding K5(2)
    by (rule dead_wf_cong [OF K5(1)]) (auto simp: same_rights_def intro!: entries_cong)
qed

text \<open>A port in limbo or in transit.\<close>

lemma limbo_wf:
  assumes wf: "kernel_wf K" and u: "unreceived K p" and f: "\<And>x. \<exists>d. ip_data (f x) = Ip_Destination d"
  shows "kernel_wf (upd_port p f K)" "unreceived (upd_port p f K) p"
proof -
  have d: "ip_data (f x) \<noteq> Ip_Receiver s" for x s using f [of x] by auto
  then show u': "unreceived (upd_port p f K) p" by (simp add: unreceived_def receiver_def)
  show "kernel_wf (upd_port p f K)" by (rule wf_transit [OF wf _ u u']) (simp add: rights_but_def)
qed

lemma same_wf:
  assumes "kernel_wf K" and "unreceived K p" and "same_rights K K'"
  shows "kernel_wf K'" "unreceived K' p"
  using assms kernel_wf_cong by (auto simp: unreceived_def same_rights_def)

lemma circularity_wf:
  assumes wf: "kernel_wf K" and u: "unreceived K p" and c: "ipc_port_check_circularity p q K = Some (circular, K')"
  shows "kernel_wf K'" "unreceived K' p"
proof -
  have r: "same_rights K (ip_reference q K)" by (simp add: same_rights_def)
  have "K' = K \<or> K' = upd_port p (ip_data_update (\<lambda>_. Ip_Destination (Some q))) (ip_reference q K)"
    using c by (auto simp: ipc_port_check_circularity_def Let_def split: if_splits bind_splits)
  then show "kernel_wf K'" "unreceived K' p" using wf u limbo_wf [OF same_wf [OF wf u r]] by auto
qed

lemma release_receive_tail_wf:
  assumes wf: "kernel_wf K" and u: "unreceived K p" and c: "release_receive_tail p K = Some K'"
  shows "kernel_wf K'"
proof -
  obtain K1 where K1: "ipc_port_destroy_tail p K = Some K1" "K' = K1 \<or> (\<exists>d. K' = ip_release d K1)"
    using c by (auto simp: release_receive_tail_def Let_def split: bind_splits option.splits)
  have "kernel_wf K1" using destroy_tail_wf [OF wf u K1(1)] by (simp add: dead_wf_def)
  moreover have "same_rights K1 (ip_release d K1)" for d by (simp add: same_rights_def)
  ultimately show ?thesis using K1(2) kernel_wf_cong by blast
qed

lemma released_same [simp]:
  "same_rights K (ipc_port_release_send q K)" "same_rights K (ipc_port_release_sonce q K)"
  "same_rights K (ipc_mqueue_send_always m K)" "same_rights K (ipc_notify_send_once q K)" "same_rights K (ip_release q K)"
  by (auto simp: same_rights_def intro!: entries_cong)

lemma port_destroy_wf:
  assumes wf: "kernel_wf K" and u: "unreceived K p" and c: "ipc_port_destroy p K = Some K'"
  shows "kernel_wf K'"
proof (cases "ip_pdrequest (k_ports K p)")
  case PD_NULL
  then show ?thesis using c destroy_tail_wf [OF wf u] by (simp add: ipc_port_destroy_def dead_wf_def)
next
  case (PD_SEND q)
  let ?L = "upd_port p (\<lambda>p. p\<lparr>ip_pdrequest := PD_NULL, ip_receiver_name := MACH_PORT_NULL, ip_data := Ip_Destination None\<rparr>) K"
  have L: "kernel_wf ?L" "unreceived ?L p" by (rule limbo_wf [OF wf u]; simp)+
  obtain circular K1 where K1: "ipc_port_check_circularity p q ?L = Some (circular, K1)"
    using c PD_SEND by (auto simp: ipc_port_destroy_def Let_def split: bind_splits)
  note w = circularity_wf [OF L K1]
  note rel = same_wf [OF w released_same(1)] and snd = same_wf(1) [OF w released_same(3)]
  show ?thesis
    using c PD_SEND K1 destroy_tail_wf [OF rel] release_receive_tail_wf [OF rel] snd
    by (auto simp: ipc_port_destroy_def ipc_notify_port_destroyed_compat_def dead_wf_def Let_def split: if_splits)
next
  case (PD_SONCE q)
  let ?L = "upd_port p (\<lambda>p. p\<lparr>ip_pdrequest := PD_NULL, ip_receiver_name := MACH_PORT_NULL, ip_data := Ip_Destination None\<rparr>) K"
  have L: "kernel_wf ?L" "unreceived ?L p" by (rule limbo_wf [OF wf u]; simp)+
  obtain circular K1 where K1: "ipc_port_check_circularity p q ?L = Some (circular, K1)"
    using c PD_SONCE by (auto simp: ipc_port_destroy_def Let_def split: bind_splits)
  note w = circularity_wf [OF L K1]
  note rel = same_wf [OF w released_same(2)] and snd = same_wf(1) [OF w released_same(3)]
  show ?thesis
    using c PD_SONCE K1 destroy_tail_wf [OF rel] release_receive_tail_wf [OF rel] snd
    by (auto simp: ipc_port_destroy_def ipc_notify_port_destroyed_def dead_wf_def Let_def split: if_splits)
qed

lemma object_destroy_wf:
  assumes wf: "kernel_wf K" and u: "r = MACH_MSG_TYPE_PORT_RECEIVE \<Longrightarrow> unreceived K p"
    and c: "ipc_object_destroy (IO_PORT p) r K = Some K'"
  shows "kernel_wf K'"
proof (cases r)
  case MACH_MSG_TYPE_PORT_RECEIVE
  obtain K1 where K1: "ipc_port_destroy p K = Some K1" "K' = K1 \<or> (\<exists>d. K' = ip_release d K1)"
    using c MACH_MSG_TYPE_PORT_RECEIVE by (auto simp: ipc_port_release_receive_def Let_def split: bind_splits option.splits)
  have "kernel_wf K1" by (rule port_destroy_wf [OF wf u [OF MACH_MSG_TYPE_PORT_RECEIVE] K1(1)])
  then show ?thesis using K1(2) kernel_wf_cong [OF released_same(5)] by auto
qed (use c wf kernel_wf_cong [OF released_same(1)] kernel_wf_cong [OF released_same(4)] in auto)

section \<open>The steps\<close>

inductive object_step :: "ipc_kernel \<Rightarrow> ipc_kernel \<Rightarrow> bool" where
  alloc_dead: "fresh_name alloc s K \<Longrightarrow> ipc_object_alloc_dead alloc s K = (r, K') \<Longrightarrow> object_step K K'"
| port_alloc: "fresh_name alloc s K \<Longrightarrow> (\<And>p. io = Some p \<Longrightarrow> port_unused K p) \<Longrightarrow>
     ipc_port_alloc io alloc s K = (r', K') \<Longrightarrow> object_step K K'"
| copyin: "ipc_object_copyin s n t K = Some (c, K') \<Longrightarrow> object_step K K'"
| copyout: "copyout_ready alloc s p m K \<Longrightarrow> ipc_object_copyout alloc s p m overflow K = (r, K') \<Longrightarrow> object_step K K'"
| destroy: "(m = MACH_MSG_TYPE_PORT_RECEIVE \<Longrightarrow> unreceived K p) \<Longrightarrow> ipc_object_destroy (IO_PORT p) m K = Some K' \<Longrightarrow>
     object_step K K'"

lemma object_step_wf:
  assumes "object_step K K'" and "kernel_wf K"
  shows "kernel_wf K'"
  using assms
  by (cases rule: object_step.cases)
     (auto intro: alloc_dead_wf port_alloc_wf object_copyin_wf object_copyout_wf object_destroy_wf)

lemma object_steps_wf: "object_step\<^sup>*\<^sup>* K K' \<Longrightarrow> kernel_wf K \<Longrightarrow> kernel_wf K'"
  by (induction rule: rtranclp_induct) (auto intro: object_step_wf)

text \<open>Before the first right is made.\<close>

definition no_rights :: "ipc_kernel \<Rightarrow> bool" where
  "no_rights K \<longleftrightarrow> (\<forall>s n. entries K s n = None) \<and> (\<forall>s p. k_hash K s p = None) \<and> (\<forall>p. unreceived K p)"

lemma no_rights_wf: "no_rights K \<Longrightarrow> kernel_wf K"
  by (auto simp: no_rights_def kernel_wf_def port_wf_def send_at_def receive_at_def unreceived_def)

text \<open>
  C3: starting without rights, whatever ports and dead names are made, whatever rights are copied in,
  copied out or destroyed on the way and whatever ports die with them, every entry of every space is
  well-formed, the reverse hash knows exactly the pure send rights, and a receive right is where its
  port says it is. So a port has at most one receive right in all spaces, a space has at most one name
  for its send rights to a port, and a receiver's send rights are under the name of the receive right.
\<close>

theorem object_reach_wf:
  assumes "no_rights K" and "object_step\<^sup>*\<^sup>* K K'"
  shows "kernel_wf K' \<and>
    (\<forall>p s n s' n'. receive_at K' s n p \<and> receive_at K' s' n' p \<longrightarrow> s = s' \<and> n = n') \<and>
    (\<forall>p s n m. send_at K' s n p \<and> send_at K' s m p \<longrightarrow> n = m) \<and>
    (\<forall>p s n m. \<not> (send_at K' s n p \<and> receive_at K' s m p))"
proof (intro conjI allI impI)
  show wf: "kernel_wf K'" by (rule object_steps_wf [OF assms(2) no_rights_wf [OF assms(1)]])
  fix p s n s' n' m
  note W = port_wfD [OF kernel_wfD(2) [OF wf, of p]]
  show "s = s'" "n = n'" if "receive_at K' s n p \<and> receive_at K' s' n' p"
    using that W(2) [of s n] W(2) [of s' n'] by auto
  show "n = m" if "send_at K' s n p \<and> send_at K' s m p" using that W(1) [of s n] W(1) [of s m] by simp
  show "\<not> (send_at K' s n p \<and> receive_at K' s m p)" using W(1) [of s n] W(2) [of s m] by auto
qed

text \<open>A port is made in one space, and a send right made from it moves to another space.\<close>

theorem object_reach_wf_witness:
  "\<exists>K. object_step\<^sup>*\<^sup>* (upd_port 3 (ip_active_update (\<lambda>_. False)) kernel0) K \<and>
       kernel_wf K \<and> receive_at K 4 5 3 \<and> send_at K 2 6 3 \<and> k_hash K 2 3 = Some 6 \<and>
       (\<forall>s n. receive_at K s n 3 \<longrightarrow> s = 4 \<and> n = 5)"
proof -
  let ?K = "upd_port 3 (ip_active_update (\<lambda>_. False)) kernel0"
  have init: "no_rights ?K"
    by (simp add: no_rights_def unreceived_def receiver_def) (simp add: state0_defs)
  have k0: "is_active (k_spaces kernel0 s)" "k_hash kernel0 = (\<lambda>_ _. None)" for s by (simp_all add: state0_defs)
  define e1 where "e1 = new_entry\<lparr>ie_bits := ie_bits new_entry OR (MACH_PORT_TYPE_RECEIVE OR 0), ie_object := IO_PORT 3\<rparr>"
  define K1 where "K1 = ipc_port_init 3 4 5 (io_init (IO_PORT 3) (set_entry 4 5 e1 (set_entry 4 5 new_entry ?K)))"
  have s1: "object_step ?K K1"
    by (rule object_step.port_alloc [of "Inr 5" 4 _ "Some 3" "Inr (5, IO_PORT 3)"])
       (simp_all add: fresh_name_def port_unused_def ipc_port_alloc_def ipc_object_alloc_def entry_alloc_def init_port_def
          K1_def e1_def k0)
  have k1: "entries K1 = (\<lambda>_ _. None)(4 := [5 \<mapsto> e1])" "k_hash K1 = (\<lambda>_ _. None)" "is_active (k_spaces K1 s)"
    "ip_active (k_ports K1 3)" "ip_data (k_ports K1 3) = Ip_Receiver 4" for s
    by (simp_all add: K1_def ipc_port_init_def k0 fun_eq_iff)
  have t1: "IE_BITS_TYPE (ie_bits e1) = MACH_PORT_TYPE_RECEIVE" "ie_object e1 = IO_PORT 3"
    by (simp_all add: e1_def new_entry_def bits_defs)
  define K2 where "K2 = ip_reference 3 (upd_port 3 (ip_srights_update (\<lambda>n. n + 1)) (upd_port 3 (ip_mscount_update (\<lambda>n. n + 1)) K1))"
  have k2: "same_rights K1 K2" "ip_active (k_ports K2 3)" "ip_data (k_ports K2 3) = Ip_Receiver 4"
    by (simp_all add: K2_def same_rights_def ip_reference_def k1)
  have e2: "entries K2 = entries K1" "k_hash K2 = k_hash K1" "is_active (k_spaces K2 s)" for s
    using k2(1) k1 by (simp_all add: same_rights_def)
  have s2: "object_step K1 K2"
    by (rule object_step.copyin [of 4 5 MACH_MSG_TYPE_MAKE_SEND _ "Inr (IO_PORT 3)"])
       (simp add: ipc_object_copyin_def ipc_right_lookup_write_def k1 copyin_make_send_def entry_port_def receive_tests [OF t1(1)]
          Let_def K2_def dealloc_if_none_def t1 send_port_deleted_def)
  let ?e = "new_entry\<lparr>ie_object := IO_PORT 3\<rparr>"
  define K3 where "K3 = set_entry 2 6 (?e\<lparr>ie_bits := (ie_bits ?e OR MACH_PORT_TYPE_SEND) + 1\<rparr>)
    (ipc_hash_insert 2 3 6 (set_entry 2 6 ?e (set_entry 2 6 new_entry K2)))"
  have s3: "object_step K2 K3"
    by (rule object_step.copyout [of "Inr 6" 2 3 MACH_MSG_TYPE_PORT_SEND _ True "Inr 6"])
       (simp_all add: copyout_ready_def fresh_name_def e2 k1 k2 ipc_object_copyout_def copyout_reverse_def ipc_right_reverse_def
          entry_alloc_def Let_def K3_def new_entry_def test_def)
  have steps: "object_step\<^sup>*\<^sup>* ?K K3" using s1 s2 s3 by (meson converse_rtranclp_into_rtranclp rtranclp.rtrancl_refl)
  have k3: "receive_at K3 4 5 3" "send_at K3 2 6 3" "k_hash K3 2 3 = Some 6"
    by (simp_all add: K3_def receive_at_def send_at_def e2 k1 t1 receive_tests [OF t1(1)] k_hash_hash)
       (simp add: new_entry_def bits_defs)
  note wf = object_reach_wf [OF init steps]
  then have "\<forall>s n. receive_at K3 s n 3 \<longrightarrow> s = 4 \<and> n = 5" using k3(1) by metis
  then show ?thesis using wf k3 steps by (intro exI [of _ K3]) simp
qed

end
