(* ===== verification/Ipc_Table.thy ===== *)
theory Ipc_Table
  imports Entry_Names Port_Requests
begin

text \<open>
  The table sizes of \<^verbatim>\<open>ipc_table.c\<close>: \<^verbatim>\<open>ipc_table_fill\<close> computes the schedules for entry tables and
  dead-name request tables, and \<^verbatim>\<open>ipc_table_init\<close> ends them the way the growing code expects. The
  page size is a parameter. \<^verbatim>\<open>ipc_table_alloc\<close>, \<^verbatim>\<open>_realloc\<close> and \<^verbatim>\<open>_free\<close> only call the memory
  allocator; an allocation that fails is the parameter \<open>nomem\<close> of the growing code.
\<close>

section \<open>Filling a schedule\<close>

text \<open>
  The loop over the powers of two: \<open>size = 1 << k\<close>. The result is the schedule and the
  exponent the loop ended with.
\<close>

function fill_powers :: "nat \<Rightarrow> nat \<Rightarrow> nat \<Rightarrow> nat \<Rightarrow> nat list \<Rightarrow> nat \<Rightarrow> nat list \<times> nat" where
  "fill_powers page num minsize elemsize its k =
     (if length its < num \<and> 2 ^ k < page
      then fill_powers page num minsize elemsize
             (if minsize \<le> 2 ^ k then its @ [2 ^ k div elemsize] else its) (k + 1)
      else (its, k))"
  by pat_completeness auto

termination
proof (relation "measure (\<lambda>(page, _, _, _, _, k). page - 2 ^ k)")
  fix page num minsize elemsize its k
  assume "length (its :: nat list) < num \<and> 2 ^ k < (page :: nat)"
  moreover have "(2 :: nat) ^ k < 2 ^ (k + 1)" by simp
  ultimately have "page - 2 ^ (k + 1) < page - 2 ^ k" by (metis diff_less_mono2)
  then show "((page, num, minsize, elemsize, if minsize \<le> 2 ^ k then its @ [2 ^ k div elemsize] else its, k + 1),
      page, num, minsize, elemsize, its, k) \<in> measure (\<lambda>(page, _, _, _, _, k). page - 2 ^ k)" by simp
qed simp

text \<open>The nested loops over pages; \<open>period\<close> counts the rounds of the inner loop.\<close>

partial_function (option) fill_pages ::
  "nat \<Rightarrow> nat \<Rightarrow> nat \<Rightarrow> nat \<Rightarrow> nat list \<Rightarrow> nat \<Rightarrow> nat \<Rightarrow> nat \<Rightarrow> nat list option" where
  "fill_pages page num minsize elemsize its sz incrsize period =
     (if \<not> length its < num then Some its
      else if period < 15
      then fill_pages page num minsize elemsize
             (if minsize \<le> sz then its @ [sz div elemsize] else its) (sz + incrsize) incrsize (period + 1)
      else fill_pages page num minsize elemsize its sz
             (if incrsize < page * 8 then incrsize * 2 else incrsize) 0)"

declare fill_pages.simps [code]

definition ipc_table_fill :: "nat \<Rightarrow> nat \<Rightarrow> nat \<Rightarrow> nat \<Rightarrow> nat list option" where
  "ipc_table_fill page num mn elemsize =
     (let minsize = mn * elemsize;
          (its, k) = fill_powers page num minsize elemsize [] 0
      in fill_pages page num minsize elemsize its (2 ^ k) page 0)"

definition ipc_table_entries_size :: nat where "ipc_table_entries_size = 512"
definition ipc_table_dnrequests_size :: nat where "ipc_table_dnrequests_size = 64"

text \<open>\<^verbatim>\<open>sizeof(struct ipc_entry)\<close> and \<^verbatim>\<open>sizeof(struct ipc_port_request)\<close> on a 32-bit machine.\<close>

definition SIZEOF_ENTRY :: nat where "SIZEOF_ENTRY = 16"
definition SIZEOF_REQUEST :: nat where "SIZEOF_REQUEST = 8"

definition ipc_table_init :: "nat \<Rightarrow> (nat list \<times> nat list) option" where
  "ipc_table_init page =
     do {
       entries \<leftarrow> ipc_table_fill page (ipc_table_entries_size - 1) 4 SIZEOF_ENTRY;
       dnrequests \<leftarrow> ipc_table_fill page (ipc_table_dnrequests_size - 1) 2 SIZEOF_REQUEST;
       Some (entries @ [last entries], dnrequests @ [0])
     }"

section \<open>The schedules grow\<close>

text \<open>
  The state of either loop: the sizes so far increase, start with at least the minimum, and
  all lie below the next one.
\<close>

definition filling :: "nat \<Rightarrow> nat \<Rightarrow> nat list \<Rightarrow> nat \<Rightarrow> bool" where
  "filling minsize elemsize its sz \<longleftrightarrow>
     sorted_wrt (<) its \<and> (\<forall>x\<in>set its. minsize div elemsize \<le> x \<and> x < sz div elemsize) \<and> (its \<noteq> [] \<longrightarrow> minsize \<le> sz)"

lemma filling_step:
  assumes "filling minsize elemsize its sz" "minsize \<le> sz" "0 < elemsize" "elemsize \<le> incr"
  shows "filling minsize elemsize (its @ [sz div elemsize]) (sz + incr)"
proof -
  have "sz div elemsize < (sz + elemsize) div elemsize" using assms(3) by (simp add: div_add_self2)
  also have "\<dots> \<le> (sz + incr) div elemsize" using assms(4) by (intro div_le_mono) simp
  finally have "sz div elemsize < (sz + incr) div elemsize" .
  with assms(1,2) show ?thesis
    by (auto simp: filling_def sorted_wrt_append div_le_mono dest: less_trans)
qed

lemma fill_powers_ok:
  assumes "filling minsize elemsize its (2 ^ k)" "0 < elemsize" "elemsize \<le> minsize" "length its \<le> num"
    and "fill_powers page num minsize elemsize its k = (its', k')" "2 ^ k \<le> 2 * page"
  shows "filling minsize elemsize its' (2 ^ k') \<and> length its' \<le> num \<and> 2 ^ k' \<le> 2 * page \<and>
         (length its' = num \<or> page \<le> 2 ^ k')"
  using assms
proof (induction page num minsize elemsize its k rule: fill_powers.induct)
  case (1 page num minsize elemsize its k)
  show ?case
  proof (cases "length its < num \<and> 2 ^ k < page")
    case False
    with "1.prems" show ?thesis by auto
  next
    case True
    let ?its = "if minsize \<le> 2 ^ k then its @ [2 ^ k div elemsize] else its"
    have "filling minsize elemsize ?its (2 ^ (k + 1))"
    proof (cases "minsize \<le> 2 ^ k")
      case True
      with filling_step [OF "1.prems"(1) True "1.prems"(2), of "2 ^ k"] "1.prems"(3) show ?thesis
        by (simp add: mult_2)
    next
      case False
      with "1.prems"(1) show ?thesis by (auto simp: filling_def)
    qed
    moreover have "length ?its \<le> num" using True by simp
    moreover have "2 ^ (k + 1) \<le> 2 * page" using True by simp
    ultimately show ?thesis using "1.IH" [OF True] "1.prems" True by simp
  qed
qed

declare fill_powers.simps [simp del]

lemma fill_pages_ok:
  assumes "filling minsize elemsize its sz" "minsize \<le> sz" "0 < elemsize" "elemsize \<le> incr" "incr \<le> 16 * page"
    and "length its \<le> num" "sz \<le> 2 * page + 16 * page * length its" "period \<le> 15"
  shows "\<exists>its' sz'. fill_pages page num minsize elemsize its sz incr period = Some its' \<and> length its' = num \<and>
           filling minsize elemsize its' sz' \<and> sz' \<le> 2 * page + 16 * page * num"
  using assms
proof (induction "(num - length its) * 32 + 2 * (15 - period) + (if period = 15 then 31 else 0)"
    arbitrary: its sz incr period rule: less_induct)
  case less
  show ?case
  proof (cases "length its < num")
    case False
    then have "length its = num" using less.prems(6) by simp
    with less.prems show ?thesis by (subst fill_pages.simps) auto
  next
    case lt: True
    show ?thesis
    proof (cases "period < 15")
      case True
      let ?its = "its @ [sz div elemsize]"
      have step: "fill_pages page num minsize elemsize its sz incr period =
          fill_pages page num minsize elemsize ?its (sz + incr) incr (period + 1)"
        using lt True less.prems(2) by (subst fill_pages.simps) simp
      have "(num - length ?its) * 32 + 2 * (15 - (period + 1)) + (if period + 1 = 15 then 31 else 0) <
          (num - length its) * 32 + 2 * (15 - period) + (if period = 15 then 31 else (0 :: nat))"
        using lt True by (auto simp: diff_Suc split: nat.split)
      from less.hyps [OF this filling_step [OF less.prems(1-4)]] less.prems lt True show ?thesis
        unfolding step by simp
    next
      case False
      then have p: "period = 15" using less.prems(8) by simp
      let ?incr = "if incr < page * 8 then incr * 2 else incr"
      have step: "fill_pages page num minsize elemsize its sz incr period =
          fill_pages page num minsize elemsize its sz ?incr 0"
        using lt False by (subst fill_pages.simps) simp
      have m: "(num - length its) * 32 + 2 * (15 - 0) + (if 0 = (15 :: nat) then 31 else 0) <
          (num - length its) * 32 + 2 * (15 - period) + (if period = 15 then 31 else (0 :: nat))"
        using p by simp
      show ?thesis
        unfolding step
        by (rule less.hyps [OF m less.prems(1-3)]) (use less.prems in \<open>auto split: if_splits\<close>)
    qed
  qed
qed

lemma table_fill_ok:
  assumes "0 < elemsize" "0 < mn" "mn * elemsize \<le> page" "0 < num"
  shows "\<exists>its. ipc_table_fill page num mn elemsize = Some its \<and> length its = num \<and> sorted_wrt (<) its \<and>
           (\<forall>x\<in>set its. mn \<le> x \<and> x < (2 * page + 16 * page * num) div elemsize)"
proof -
  let ?m = "mn * elemsize"
  obtain its k where p: "fill_powers page num ?m elemsize [] 0 = (its, k)" by force
  have min: "elemsize \<le> ?m" using assms(2) by simp
  have "0 < ?m" using assms(1,2) by simp
  then have page: "0 < page" using assms(3) by linarith
  have P: "filling ?m elemsize its (2 ^ k) \<and> length its \<le> num \<and> 2 ^ k \<le> 2 * page \<and>
         (length its = num \<or> page \<le> 2 ^ k)"
    by (rule fill_powers_ok [OF _ assms(1) min _ p]) (use page in \<open>auto simp: filling_def\<close>)
  have "its \<noteq> [] \<Longrightarrow> ?m \<le> 2 ^ k" using P by (simp add: filling_def)
  then have m: "?m \<le> 2 ^ k" using P assms(3,4) by (cases its) auto
  have "elemsize \<le> page" using min assms(3) by (rule le_trans)
  then obtain its' sz' where f: "fill_pages page num ?m elemsize its (2 ^ k) page 0 = Some its'" "length its' = num"
    "filling ?m elemsize its' sz'" "sz' \<le> 2 * page + 16 * page * num"
    using fill_pages_ok [OF conjunct1 [OF P] m assms(1), of page page num 0] P by auto
  have "x < (2 * page + 16 * page * num) div elemsize \<and> mn \<le> x" if "x \<in> set its'" for x
    using f(3) div_le_mono [OF f(4), of elemsize] that assms(1) by (auto simp: filling_def)
  with f p show ?thesis by (auto simp: ipc_table_fill_def filling_def)
qed

lemma table_init_ok:
  assumes "64 \<le> page" "page \<le> 2 ^ 15"
  shows "\<exists>entries dnrequests. ipc_table_init page = Some (entries, dnrequests) \<and>
           length entries = ipc_table_entries_size \<and> schedule_ok entries \<and>
           length dnrequests = ipc_table_dnrequests_size \<and> sizes_ok dnrequests"
proof -
  obtain es where es: "ipc_table_fill page 511 4 16 = Some es" "length es = 511" "sorted_wrt (<) es"
    "\<forall>x\<in>set es. 4 \<le> x \<and> x < (2 * page + 16 * page * 511) div 16"
    using table_fill_ok [of 16 4 page 511] assms(1) by auto
  obtain ds where ds: "ipc_table_fill page 63 2 8 = Some ds" "length ds = 63" "sorted_wrt (<) ds"
    "\<forall>x\<in>set ds. 2 \<le> x \<and> x < (2 * page + 16 * page * 63) div 8"
    using table_fill_ok [of 8 2 page 63] assms(1) by auto
  have init: "ipc_table_init page = Some (es @ [last es], ds @ [0])"
    by (simp add: ipc_table_init_def ipc_table_entries_size_def ipc_table_dnrequests_size_def SIZEOF_ENTRY_def
        SIZEOF_REQUEST_def es(1) ds(1))
  have ne: "es \<noteq> []" "ds \<noteq> []" using es(2) ds(2) by auto
  have "last es < (2 * page + 16 * page * 511) div 16" using es(4) last_in_set [OF ne(1)] by blast
  also have "\<dots> \<le> (2 * 2 ^ 15 + 16 * 2 ^ 15 * 511) div 16" using assms(2) by (intro div_le_mono add_mono mult_le_mono) auto
  also have "\<dots> < 2 ^ 24" by simp
  finally have "last es < 2 ^ 24" .
  moreover have "0 < es ! 0" using es(2,4) nth_mem [of 0 es] by fastforce
  ultimately have "schedule_ok (es @ [last es])"
    using es(2,3) ne by (simp add: schedule_ok_def nth_append)
  moreover have "sizes_ok (ds @ [0])"
  proof -
    have "1 < ds ! 0" using ds(2,4) nth_mem [of 0 ds] by fastforce
    moreover have "its_size (ds @ [0]) i < its_size (ds @ [0]) (i + 1)" if "i + 1 < 63" for i
      using sorted_wrt_nth_less [OF ds(3), of i "i + 1"] that ds(2) by (simp add: its_size_def nth_append)
    moreover have "its_size (ds @ [0]) (i + 1) = 0" if "\<not> i + 1 < 63" for i
      using that ds(2) by (simp add: its_size_def nth_append)
    ultimately show ?thesis using ds(2) unfolding sizes_ok_def by (auto simp: its_size_def nth_append)
  qed
  ultimately show ?thesis
    using init es(2) ds(2) by (simp add: ipc_table_entries_size_def ipc_table_dnrequests_size_def)
qed

text \<open>
  For every page size from 64 bytes to 32 kilobytes, \<^verbatim>\<open>ipc_table_init\<close> completes and produces the
  schedules the other components rely on: 512 entry table sizes that increase strictly until the
  last two, which are equal, and stay below the index range of a name; and 64 sizes of dead-name
  request tables that start with room for a request and increase strictly up to the final 0.
\<close>

theorem table_init_schedules:
  assumes "64 \<le> page" and "page \<le> 2 ^ 15"
  shows "\<exists>entries dnrequests. ipc_table_init page = Some (entries, dnrequests) \<and>
           length entries = 512 \<and> schedule_ok entries \<and> length dnrequests = 64 \<and> sizes_ok dnrequests"
  using table_init_ok [OF assms] by (simp add: ipc_table_entries_size_def ipc_table_dnrequests_size_def)

theorem table_init_schedules_witness:
  "(64 :: nat) \<le> 4096 \<and> (4096 :: nat) \<le> 2 ^ 15 \<and>
   (\<exists>entries dnrequests. ipc_table_init 4096 = Some (entries, dnrequests) \<and>
      length entries = 512 \<and> schedule_ok entries \<and> length dnrequests = 64 \<and> sizes_ok dnrequests)"
  using table_init_schedules [of 4096] by simp

end
