(* ===== verification/Hash_Init.thy ===== *)
theory Hash_Init
  imports Hash_Global
begin

text \<open>
  The boot-time sizing of the hash tables: \<^verbatim>\<open>ipc_hash_init\<close> of \<^verbatim>\<open>ipc_hash.c\<close> and
  \<^verbatim>\<open>ipc_marequest_init\<close> of \<^verbatim>\<open>ipc_marequest.c\<close> round the configured size up to a power of two, so
  that the mask of the hash functions yields an index of the table. The sizes are 32-bit words:
  a size above \<open>2 ^ 31\<close> has no power of two above it.
\<close>

section \<open>Rounding up\<close>

text \<open>The loop that sets the low bits of the mask one after the other.\<close>

partial_function (option) round_loop :: "natural_t \<Rightarrow> natural_t \<Rightarrow> (natural_t \<times> natural_t) option" where
  "round_loop low msk =
     (let msk = msk OR low; sz = msk + 1
      in if sz AND msk = 0 then Some (sz, msk) else round_loop (push_bit 1 low) msk)"

declare round_loop.simps [code]

definition round_size :: "natural_t \<Rightarrow> (natural_t \<times> natural_t) option" where
  "round_size sz = (let msk = sz - 1 in if sz AND msk \<noteq> 0 then round_loop 1 msk else Some (sz, msk))"

definition config_size :: "natural_t \<Rightarrow> natural_t \<Rightarrow> natural_t \<Rightarrow> natural_t" where
  "config_size least objects sz =
     (if sz = 0 then (let sz = drop_bit 8 objects in if sz < least then least else sz) else sz)"

text \<open>The two initialisation routines, with the mask and the empty buckets.\<close>

definition ipc_hash_init :: "natural_t \<Rightarrow> natural_t \<Rightarrow> (natural_t \<times> ipc_hash_global) option" where
  "ipc_hash_init ipc_tree_entry_max sz =
     map_option (\<lambda>(sz, msk). (sz, \<lparr>ihg_mask = msk, ihg_table = (\<lambda>_. []), is_tree_hash = (\<lambda>_. 0)\<rparr>))
       (round_size (config_size 32 ipc_tree_entry_max sz))"

definition ipc_marequest_init :: "natural_t \<Rightarrow> natural_t \<Rightarrow> (natural_t \<times> natural_t \<times> (natural_t \<Rightarrow> imar_id list)) option" where
  "ipc_marequest_init ipc_marequest_max sz =
     map_option (\<lambda>(sz, msk). (sz, msk, \<lambda>_. [])) (round_size (config_size 16 ipc_marequest_max sz))"

section \<open>The loop ends at the next power of two\<close>

lemma power_two_and: "(2 ^ j :: natural_t) AND mask j = 0"
  by (rule bit_word_eqI) (simp add: bit_and_iff bit_exp_iff bit_mask_iff)

lemma succ_and_self: "(n + 1) AND n = (0 :: nat) \<Longrightarrow> \<exists>i. n = 2 ^ i - 1"
proof (induction n rule: less_induct)
  case (less n)
  show ?case
  proof (cases "even n")
    case True
    then obtain k where n: "n = 2 * k" by (auto elim: evenE)
    have "bit ((n + 1) AND n) m = bit n m" for m unfolding n unfolding bit_and_iff by (cases m) (simp_all add: bit_0 bit_Suc)
    then have "(n + 1) AND n = n" by (intro bit_eqI)
    with less.prems show ?thesis by (intro exI [of _ 0]) simp
  next
    case False
    then obtain k where n: "n = 2 * k + 1" by (auto elim: oddE)
    have "bit ((n + 1) AND n) m = bit (2 * ((k + 1) AND k)) m" for m
      unfolding n by (cases m) (simp_all only: bit_and_iff, simp_all add: bit_0 bit_Suc bit_and_iff)
    then have "(n + 1) AND n = 2 * ((k + 1) AND k)" by (intro bit_eqI)
    then obtain i where "k = 2 ^ i - 1" using less.prems less.IH [of k] n by auto
    moreover have "0 < (2 :: nat) ^ i" by simp
    ultimately have "n = 2 ^ Suc i - 1" using n unfolding power_Suc by linarith
    then show ?thesis by blast
  qed
qed

lemma uint_mask32: "j \<le> 32 \<Longrightarrow> uint (mask j :: natural_t) = 2 ^ j - 1"
  unfolding uint_mask_eq by (simp add: min_def mask_eq_exp_minus_1)

lemma low_mask:
  assumes "(v + 1) AND v = (0 :: natural_t)"
  shows "\<exists>i\<le>32. v = mask i"
proof (cases "v + 1 = 0")
  case True
  then have "v = - 1" by (simp add: eq_neg_iff_add_eq_0)
  also have "\<dots> = mask 32" using mask_full [where 'a = 32] by simp
  finally have "v = mask 32" .
  then show ?thesis by blast
next
  case False
  then have "unat (v + 1) = unat v + 1" by (simp add: unatSuc add.commute)
  then have "(unat v + 1) AND unat v = 0" using assms by (metis unsigned_and_eq unsigned_0)
  then obtain i where i: "unat v = 2 ^ i - 1" using succ_and_self by blast
  then have v: "uint v = 2 ^ i - 1" by (simp add: uint_nat of_nat_diff)
  then have "(2 :: int) ^ i \<le> 2 ^ 32" using uint_lt2p [of v] by simp
  then have "i \<le> 32" by (rule power_le_imp_le_exp [rotated]) simp
  then show ?thesis using v by (intro exI [of _ i]) (simp add: word_uint_eq_iff uint_mask32)
qed

lemma or_low_bit:
  assumes "uint (msk :: natural_t) < 2 ^ j" "k < j" "j \<le> 32"
  shows "uint msk \<le> uint (msk OR 2 ^ k)" "uint (msk OR 2 ^ k) < 2 ^ j"
proof -
  have "uint (2 ^ k :: natural_t) = 2 ^ k" using assms(2,3) by (intro uint_2p) (simp add: word_gt_0)
  then show "uint (msk OR 2 ^ k) < 2 ^ j" using assms(1,2) by (simp add: uint_or OR_upper)
  show "uint msk \<le> uint (msk OR 2 ^ k)" by (simp add: uint_or or_greater_eq)
qed

lemma round_loop_ends:
  assumes "k < j" "j \<le> 32" "2 ^ (j - 1) \<le> uint msk" "uint msk < 2 ^ j" "\<forall>i<k. bit msk i"
  shows "round_loop (2 ^ k) msk = Some (2 ^ j, mask j)"
  using assms
proof (induction "j - k" arbitrary: k msk)
  case (Suc d)
  define m where "m = msk OR 2 ^ k"
  have m: "2 ^ (j - 1) \<le> uint m" "uint m < 2 ^ j"
    using or_low_bit [of msk j k] Suc.prems by (auto simp: m_def)
  have low: "\<forall>i<k + 1. bit m i"
    using Suc.prems(1,2,5) by (auto simp: m_def bit_or_iff bit_exp_iff less_Suc_eq)
  have unf: "round_loop (2 ^ k) msk = (if (m + 1) AND m = 0 then Some (m + 1, m) else round_loop (2 ^ (k + 1)) m)"
    by (subst round_loop.simps) (simp add: m_def Let_def push_bit_eq_mult mult.commute)
  show ?case
  proof (cases "(m + 1) AND m = 0")
    case True
    then obtain i where i: "i \<le> 32" "m = mask i" using low_mask by blast
    have "(2 :: int) ^ i \<le> 2 ^ j" using m(2) uint_mask32 [OF i(1)] unfolding i(2) by linarith
    then have "i \<le> j" by (rule power_le_imp_le_exp [rotated]) simp
    have "(2 :: int) ^ (j - 1) < 2 ^ i" using m(1) uint_mask32 [OF i(1)] unfolding i(2) by linarith
    then have "j - 1 < i" by (rule power_less_imp_less_exp [rotated]) simp
    with \<open>i \<le> j\<close> have "i = j" by linarith
    with True i unf show ?thesis by (simp add: mask_eq_exp_minus_1)
  next
    case False
    have "k + 1 < j"
    proof (rule ccontr)
      assume "\<not> k + 1 < j"
      then have "k + 1 = j" using Suc.prems(1) by simp
      have "m = mask j"
      proof (rule bit_word_eqI)
        fix n assume n: "n < LENGTH(32)"
        have "bit m n = bit (m AND mask j) n" using m(2) by (simp only: mask_eq_iff [THEN iffD2])
        also have "\<dots> = bit (mask j :: natural_t) n"
          using low n \<open>k + 1 = j\<close> by (auto simp: bit_mask_iff bit_and_iff)
        finally show "bit m n = bit (mask j :: natural_t) n" .
      qed
      then show False using False power_two_and [of j] by (simp add: mask_eq_exp_minus_1)
    qed
    with False unf Suc.hyps(1) [of "k + 1" m] Suc.hyps(2) Suc.prems(2) m low show ?thesis by simp
  qed
qed simp

lemma round_size_spec:
  assumes "0 < sz" "sz \<le> 2 ^ 31"
  shows "\<exists>j\<le>31. round_size sz = Some (2 ^ j, mask j) \<and> sz \<le> 2 ^ j \<and> (\<forall>i. uint sz \<le> 2 ^ i \<longrightarrow> j \<le> i)"
proof -
  define j where "j = (LEAST j. uint sz \<le> 2 ^ j)"
  have s: "0 < uint sz" "uint sz \<le> 2 ^ 31" using assms by (simp_all add: word_less_def word_le_def)
  have j: "uint sz \<le> 2 ^ j" unfolding j_def using s(2) by (rule LeastI)
  have least: "j \<le> i" if "uint sz \<le> 2 ^ i" for i unfolding j_def using that by (rule Least_le)
  have j31: "j \<le> 31" using least s(2) by blast
  have uj: "uint (2 ^ j :: natural_t) = 2 ^ j" using j31 by (intro uint_2p) (simp add: word_gt_0)
  have um: "uint (sz - 1) = uint sz - 1" using uint_sub_lem [of 1 sz] s(1) by simp
  have "round_size sz = Some (2 ^ j, mask j)"
  proof (cases "sz AND (sz - 1) = 0")
    case True
    then obtain i where i: "i \<le> 32" "sz - 1 = mask i" using low_mask [of "sz - 1"] by auto
    then have "uint sz = 2 ^ i" using um uint_mask32 [OF i(1)] by simp
    then have "i = j" using j least [of i] power_le_imp_le_exp [of "2 :: int" i j] by (simp add: order_antisym)
    moreover have "sz = mask i + 1" using i(2) by (simp add: diff_eq_eq)
    ultimately show ?thesis using True by (simp add: round_size_def Let_def mask_eq_exp_minus_1)
  next
    case False
    have ne: "uint sz \<noteq> 2 ^ j"
    proof
      assume "uint sz = 2 ^ j"
      then have "sz = 2 ^ j" using uj by (simp add: word_uint_eq_iff)
      with False power_two_and [of j] show False by (simp add: mask_eq_exp_minus_1)
    qed
    have "0 < j" using ne j s(1) by (cases j) auto
    then have "\<not> uint sz \<le> 2 ^ (j - 1)" using least [of "j - 1"] by auto
    then have "2 ^ (j - 1) \<le> uint (sz - 1)" "uint (sz - 1) < 2 ^ j" using um j by linarith+
    from round_loop_ends [OF \<open>0 < j\<close> _ this] j31 False show ?thesis by (simp add: round_size_def Let_def)
  qed
  then show ?thesis using j31 j least uj by (auto simp: word_le_def)
qed

section \<open>The tables the kernel starts with\<close>

lemma and_mask_below: "j \<le> 31 \<Longrightarrow> w AND mask j < (2 ^ j :: natural_t)"
  using and_mask_less' [of j w] by simp

text \<open>
  With a configured size of at most \<open>2 ^ 31\<close>, or none, \<^verbatim>\<open>ipc_hash_init\<close> returns;
  the size of the global reverse hash table is the least power of two that is at least the
  configured size, every hash value is an index of the table, whatever the addresses, and the
  table is the one for the empty map.
\<close>

theorem hash_init_bounds:
  assumes "config_size 32 ipc_tree_entry_max sz \<le> 2 ^ 31"
  shows "\<exists>j g. ipc_hash_init ipc_tree_entry_max sz = Some (2 ^ j, g) \<and> j \<le> 31 \<and>
           config_size 32 ipc_tree_entry_max sz \<le> 2 ^ j \<and>
           (\<forall>i. uint (config_size 32 ipc_tree_entry_max sz) \<le> 2 ^ i \<longrightarrow> j \<le> i) \<and>
           (\<forall>addr s obj. IH_GLOBAL_HASH addr (ihg_mask g) s obj < 2 ^ j) \<and>
           (\<forall>addr. global_rep addr g (\<lambda>_. None))"
proof -
  have "0 < config_size 32 ipc_tree_entry_max sz"
    by (auto simp: config_size_def Let_def word_gt_0 not_less)
  from round_size_spec [OF this assms] obtain j where j: "j \<le> 31"
    "round_size (config_size 32 ipc_tree_entry_max sz) = Some (2 ^ j, mask j)"
    "config_size 32 ipc_tree_entry_max sz \<le> 2 ^ j"
    "\<forall>i. uint (config_size 32 ipc_tree_entry_max sz) \<le> 2 ^ i \<longrightarrow> j \<le> i" by blast
  then show ?thesis
    by (intro exI [of _ j] exI [of _ "\<lparr>ihg_mask = mask j, ihg_table = (\<lambda>_. []), is_tree_hash = (\<lambda>_. 0)\<rparr>"])
      (simp add: ipc_hash_init_def IH_GLOBAL_HASH_def and_mask_below global_rep_def)
qed

theorem hash_init_bounds_witness:
  "\<exists>g. ipc_hash_init 25600 0 = Some (128, g) \<and> (\<forall>addr s obj. IH_GLOBAL_HASH addr (ihg_mask g) s obj < 128)"
proof -
  have c: "config_size 32 25600 0 = 100" by code_simp
  obtain j g where g: "ipc_hash_init 25600 0 = Some (2 ^ j, g)" "100 \<le> (2 ^ j :: natural_t)"
    "\<forall>i. (100 :: int) \<le> 2 ^ i \<longrightarrow> j \<le> i" "\<forall>addr s obj. IH_GLOBAL_HASH addr (ihg_mask g) s obj < 2 ^ j"
    using hash_init_bounds [of 25600 0] unfolding c by auto
  have "j \<le> 7" using g(3) by simp
  then have "j = 0 \<or> j = 1 \<or> j = 2 \<or> j = 3 \<or> j = 4 \<or> j = 5 \<or> j = 6 \<or> j = 7" by arith
  then have "j = 7" using g(2) by (elim disjE) (simp_all add: word_le_def)
  with g show ?thesis by auto
qed

end
