(* ===== verification/Kmsg_Queue.thy ===== *)
theory Kmsg_Queue
  imports Prelude
begin

text \<open>
  The queues of messages (\<^verbatim>\<open>ipc_kmsg.c\<close>, \<^verbatim>\<open>ipc_kmsg.h\<close>) and of threads (\<^verbatim>\<open>ipc_thread.c\<close>,
  \<^verbatim>\<open>ipc_thread.h\<close>) as the code has them: circular, doubly linked through fields of the queued objects.
  A pointer is a natural number into a heap of links. The other theories keep queues as lists; here
  both kinds of queue are shown to behave as lists.
\<close>

section \<open>Queues of messages\<close>

type_synonym kmsg_ptr = nat

record ikm_links =
  ikm_next :: kmsg_ptr
  ikm_prev :: kmsg_ptr

type_synonym ikm_heap = "kmsg_ptr \<Rightarrow> ikm_links"

definition set_ikm_next :: "kmsg_ptr \<Rightarrow> kmsg_ptr \<Rightarrow> ikm_heap \<Rightarrow> ikm_heap" where
  "set_ikm_next k x h = h(k := (h k)\<lparr>ikm_next := x\<rparr>)"

definition set_ikm_prev :: "kmsg_ptr \<Rightarrow> kmsg_ptr \<Rightarrow> ikm_heap \<Rightarrow> ikm_heap" where
  "set_ikm_prev k x h = h(k := (h k)\<lparr>ikm_prev := x\<rparr>)"

text \<open>A queue is its field \<^verbatim>\<open>ikmq_base\<close>; \<open>None\<close> is \<^verbatim>\<open>IKM_NULL\<close>.\<close>

definition ipc_kmsg_enqueue :: "kmsg_ptr option \<Rightarrow> kmsg_ptr \<Rightarrow> ikm_heap \<Rightarrow> kmsg_ptr option \<times> ikm_heap" where
  "ipc_kmsg_enqueue base kmsg h =
     (case base of
        None \<Rightarrow> (Some kmsg, set_ikm_prev kmsg kmsg (set_ikm_next kmsg kmsg h))
      | Some first \<Rightarrow>
          (let last = ikm_prev (h first);
               h = set_ikm_next kmsg first h;
               h = set_ikm_prev kmsg last h;
               h = set_ikm_prev first kmsg h;
               h = set_ikm_next last kmsg h
           in (base, h)))"

definition ipc_kmsg_rmqueue_first :: "kmsg_ptr \<Rightarrow> ikm_heap \<Rightarrow> kmsg_ptr option \<times> ikm_heap" where
  "ipc_kmsg_rmqueue_first kmsg h =
     (let next = ikm_next (h kmsg)
      in if next = kmsg then (None, h)
         else (let prev = ikm_prev (h kmsg); h = set_ikm_prev next prev h; h = set_ikm_next prev next h
               in (Some next, h)))"

definition ipc_kmsg_dequeue :: "kmsg_ptr option \<Rightarrow> ikm_heap \<Rightarrow> kmsg_ptr option \<times> kmsg_ptr option \<times> ikm_heap" where
  "ipc_kmsg_dequeue base h =
     (case base of None \<Rightarrow> (None, None, h) | Some first \<Rightarrow> (Some first, ipc_kmsg_rmqueue_first first h))"

definition ipc_kmsg_rmqueue :: "kmsg_ptr option \<Rightarrow> kmsg_ptr \<Rightarrow> ikm_heap \<Rightarrow> kmsg_ptr option \<times> ikm_heap" where
  "ipc_kmsg_rmqueue base kmsg h =
     (let next = ikm_next (h kmsg); prev = ikm_prev (h kmsg)
      in if next = kmsg then (None, h)
         else (let base = (if base = Some kmsg then Some next else base);
                   h = set_ikm_prev next prev h;
                   h = set_ikm_next prev next h
               in (base, h)))"

definition ipc_kmsg_queue_next :: "kmsg_ptr option \<Rightarrow> kmsg_ptr \<Rightarrow> ikm_heap \<Rightarrow> kmsg_ptr option" where
  "ipc_kmsg_queue_next base kmsg h =
     (let next = ikm_next (h kmsg) in if base = Some next then None else Some next)"

section \<open>Queues of threads\<close>

type_synonym thread_ptr = nat

record ith_links =
  ith_next :: thread_ptr
  ith_prev :: thread_ptr

type_synonym ith_heap = "thread_ptr \<Rightarrow> ith_links"

definition set_ith_next :: "thread_ptr \<Rightarrow> thread_ptr \<Rightarrow> ith_heap \<Rightarrow> ith_heap" where
  "set_ith_next k x h = h(k := (h k)\<lparr>ith_next := x\<rparr>)"

definition set_ith_prev :: "thread_ptr \<Rightarrow> thread_ptr \<Rightarrow> ith_heap \<Rightarrow> ith_heap" where
  "set_ith_prev k x h = h(k := (h k)\<lparr>ith_prev := x\<rparr>)"

definition ipc_thread_links_init :: "thread_ptr \<Rightarrow> ith_heap \<Rightarrow> ith_heap" where
  "ipc_thread_links_init thread h = set_ith_prev thread thread (set_ith_next thread thread h)"

text \<open>The first thread of a queue must be linked to itself, which the code only asserts.\<close>

definition ipc_thread_enqueue :: "thread_ptr option \<Rightarrow> thread_ptr \<Rightarrow> ith_heap \<Rightarrow> thread_ptr option \<times> ith_heap" where
  "ipc_thread_enqueue base thread h =
     (case base of
        None \<Rightarrow> (Some thread, h)
      | Some first \<Rightarrow>
          (let last = ith_prev (h first);
               h = set_ith_next thread first h;
               h = set_ith_prev thread last h;
               h = set_ith_prev first thread h;
               h = set_ith_next last thread h
           in (base, h)))"

definition ipc_thread_rmqueue_first :: "thread_ptr \<Rightarrow> ith_heap \<Rightarrow> thread_ptr option \<times> ith_heap" where
  "ipc_thread_rmqueue_first thread h =
     (let next = ith_next (h thread)
      in if next = thread then (None, h)
         else (let prev = ith_prev (h thread); h = set_ith_prev next prev h; h = set_ith_next prev next h
               in (Some next, ipc_thread_links_init thread h)))"

definition ipc_thread_dequeue :: "thread_ptr option \<Rightarrow> ith_heap \<Rightarrow> thread_ptr option \<times> thread_ptr option \<times> ith_heap" where
  "ipc_thread_dequeue base h =
     (case base of None \<Rightarrow> (None, None, h) | Some first \<Rightarrow> (Some first, ipc_thread_rmqueue_first first h))"

definition ipc_thread_rmqueue :: "thread_ptr option \<Rightarrow> thread_ptr \<Rightarrow> ith_heap \<Rightarrow> thread_ptr option \<times> ith_heap" where
  "ipc_thread_rmqueue base thread h =
     (let next = ith_next (h thread); prev = ith_prev (h thread)
      in if next = thread then (None, h)
         else (let base = (if base = Some thread then Some next else base);
                   h = set_ith_prev next prev h;
                   h = set_ith_next prev next h
               in (base, ipc_thread_links_init thread h)))"

section \<open>Rings\<close>

fun chain :: "('a \<Rightarrow> 'a) \<Rightarrow> ('a \<Rightarrow> 'a) \<Rightarrow> 'a list \<Rightarrow> bool" where
  "chain n p (x # y # zs) \<longleftrightarrow> n x = y \<and> p y = x \<and> chain n p (y # zs)"
| "chain n p _ \<longleftrightarrow> True"

definition ring :: "('a \<Rightarrow> 'a) \<Rightarrow> ('a \<Rightarrow> 'a) \<Rightarrow> 'a option \<Rightarrow> 'a list \<Rightarrow> bool" where
  "ring n p base xs \<longleftrightarrow> distinct xs \<and>
     (if xs = [] then base = None else base = Some (hd xs) \<and> chain n p (xs @ [hd xs]))"

lemma chain_append:
  "chain n p (xs @ y # zs) \<longleftrightarrow> chain n p (xs @ [y]) \<and> chain n p (y # zs)"
  by (induction n p xs rule: chain.induct) auto

lemma links_cong:
  assumes "\<And>x. x \<in> set (butlast xs) \<Longrightarrow> n' x = n x" and "\<And>x. x \<in> set (tl xs) \<Longrightarrow> p' x = p x"
  shows "chain n' p' xs = chain n p xs"
  using assms
proof (induction n p xs rule: chain.induct)
  case (1 n p x y zs)
  show ?case
  proof (cases zs)
    case (Cons z ws)
    have "chain n' p' (y # zs) = chain n p (y # zs)" by (rule "1.IH") (use "1.prems" Cons in auto)
    then show ?thesis using "1.prems"(1) [of x] "1.prems"(2) [of y] Cons by simp
  qed (use "1.prems" in simp)
qed simp_all

lemma ring_empty [simp]: "ring n p base [] \<longleftrightarrow> base = None"
  by (simp add: ring_def)

lemma ring_None: "ring n p None xs \<longleftrightarrow> xs = []"
  by (simp add: ring_def)

lemma ring_next:
  assumes "ring n p base xs" and "i < length xs"
  shows "n (xs ! i) = (if Suc i < length xs then xs ! Suc i else hd xs)"
proof -
  have c: "chain n p (xs @ [hd xs])" using assms by (auto simp: ring_def split: if_splits)
  have "\<lbrakk>chain n p ys; Suc j < length ys\<rbrakk> \<Longrightarrow> n (ys ! j) = ys ! Suc j" for ys j
    by (induction n p ys arbitrary: j rule: chain.induct) (auto simp: less_Suc_eq_0_disj)
  from this [OF c, of i] show ?thesis using assms(2) by (auto simp: nth_append)
qed

section \<open>Heaps with two links\<close>

text \<open>What a heap of doubly linked objects offers: two fields, updated independently.\<close>

locale link_heap =
  fixes nxt prv :: "'h \<Rightarrow> 'a \<Rightarrow> 'a" and set_nxt set_prv :: "'a \<Rightarrow> 'a \<Rightarrow> 'h \<Rightarrow> 'h"
  assumes nxt_set_nxt [simp]: "nxt (set_nxt a x h) = (nxt h)(a := x)"
    and prv_set_nxt [simp]: "prv (set_nxt a x h) = prv h"
    and nxt_set_prv [simp]: "nxt (set_prv a x h) = nxt h"
    and prv_set_prv [simp]: "prv (set_prv a x h) = (prv h)(a := x)"
begin

lemma link_first: "nxt h a = a \<Longrightarrow> prv h a = a \<Longrightarrow> ring (nxt h) (prv h) (Some a) [a]"
  by (simp add: ring_def)

text \<open>The pointers a ring hands out.\<close>

lemma ring_links:
  assumes "ring (nxt h) (prv h) base xs" and "xs = us @ a # vs"
  shows "nxt h a = hd (vs @ us @ [a])" "prv h a = last (a # vs @ us)"
proof -
  have c: "chain (nxt h) (prv h) (us @ a # vs @ [hd xs])" using assms by (simp add: ring_def)
  have r: "chain (nxt h) (prv h) (a # vs @ [hd xs])" and l: "chain (nxt h) (prv h) (us @ [a])"
    using c chain_append [of "nxt h" "prv h" us a "vs @ [hd xs]"] by blast+
  show "nxt h a = hd (vs @ us @ [a])" using r assms(2) by (cases vs; cases us) auto
  have pred: "chain (nxt h) (prv h) (ys @ [y, z]) \<Longrightarrow> prv h z = y" for ys y z
    using chain_append [of "nxt h" "prv h" ys y "[z]"] by simp
  show "prv h a = last (a # vs @ us)"
  proof (cases us rule: rev_cases)
    case Nil
    then show ?thesis using r assms(2) pred [of "butlast (a # vs)" "last (a # vs)" a]
      by (cases vs rule: rev_cases) simp_all
  next
    case (snoc ws w)
    then show ?thesis using l pred [of ws w a] by simp
  qed
qed

text \<open>Linking an object in behind the last one.\<close>

lemma link_in:
  assumes ring: "ring (nxt h) (prv h) (Some f) xs" and a: "a \<notin> set xs"
    and h': "h' = set_nxt (prv h f) a (set_prv f a (set_prv a (prv h f) (set_nxt a f h)))"
  shows "ring (nxt h') (prv h') (Some f) (xs @ [a])" "x \<notin> set xs \<Longrightarrow> x \<noteq> a \<Longrightarrow> nxt h' x = nxt h x \<and> prv h' x = prv h x"
proof -
  obtain ys where xs: "xs = f # ys" and dist: "distinct xs" and c: "chain (nxt h) (prv h) (xs @ [f])"
    using ring by (cases xs) (auto simp: ring_def)
  have last: "prv h f = last xs" using ring_links(2) [OF ring, of "[]" f ys] xs by simp
  obtain ws l where ws: "xs = ws @ [l]" using xs by (metis list.distinct(1) rev_exhaust)
  have l: "prv h f = l" using last ws by simp
  have al: "a \<noteq> l" "a \<noteq> f" using a ws by (simp, use a xs in simp)
  have lw: "l \<notin> set ws" using dist ws by simp
  have fy: "f \<notin> set ys" using dist xs by simp
  have c1: "chain (nxt h) (prv h) xs" using c ws chain_append [of "nxt h" "prv h" ws l "[f]"] by simp
  have b: "x \<in> set ws" if "x \<in> set (butlast xs)" for x using that ws by simp
  have t: "x \<in> set ys" if "x \<in> set (tl xs)" for x using that xs by simp
  have "chain (nxt h') (prv h') xs = chain (nxt h) (prv h) xs"
  proof (rule links_cong)
    show "nxt h' x = nxt h x" if "x \<in> set (butlast xs)" for x using b [OF that] lw a ws by (auto simp: h' l)
    show "prv h' x = prv h x" if "x \<in> set (tl xs)" for x using t [OF that] fy a xs by (auto simp: h' l)
  qed
  with c1 have "chain (nxt h') (prv h') xs" by simp
  moreover have "nxt h' l = a" "prv h' a = l" "nxt h' a = f" "prv h' f = a" using al by (auto simp: h' l)
  ultimately have "chain (nxt h') (prv h') (xs @ [a, f])"
    using ws chain_append [of "nxt h'" "prv h'" ws l "[a, f]"] by simp
  moreover have "hd (xs @ [a]) = f" using xs by simp
  ultimately show "ring (nxt h') (prv h') (Some f) (xs @ [a])" using dist a by (simp add: ring_def)
  have "f \<in> set xs" "l \<in> set xs" using xs ws by (simp, use ws in simp)
  then show "nxt h' x = nxt h x \<and> prv h' x = prv h x" if "x \<notin> set xs" "x \<noteq> a" using that by (auto simp: h' l)
qed

text \<open>Taking an object out of a ring of at least two.\<close>

lemma link_out:
  assumes ring: "ring (nxt h) (prv h) base xs" and xs: "xs = us @ a # vs" and rest: "us @ vs \<noteq> []"
    and h': "h' = set_nxt (prv h a) (nxt h a) (set_prv (nxt h a) (prv h a) h)"
  shows "ring (nxt h') (prv h') (Some (hd (us @ vs))) (us @ vs)"
    "x \<notin> set xs \<Longrightarrow> nxt h' x = nxt h x \<and> prv h' x = prv h x"
proof -
  define s q where "s = hd (vs @ us)" and "q = last (vs @ us)"
  have sq: "nxt h a = s" "prv h a = q" using ring_links [OF ring xs] rest by (auto simp: s_def q_def hd_append)
  have dist: "distinct us" "distinct vs" "set us \<inter> set vs = {}" "a \<notin> set us" "a \<notin> set vs"
    using ring xs by (auto simp: ring_def split: if_splits)
  have "chain (nxt h) (prv h) (us @ a # vs @ [hd xs])" using ring xs by (simp add: ring_def)
  then have c: "chain (nxt h) (prv h) (us @ [a])" "chain (nxt h) (prv h) (a # vs @ [hd xs])"
    using chain_append [of "nxt h" "prv h" us a "vs @ [hd xs]"] by blast+
  have n': "nxt h' = (nxt h)(q := s)" "prv h' = (prv h)(s := q)" by (simp_all add: h' sq)
  have keep: "chain (nxt h') (prv h') ys" if "chain (nxt h) (prv h) ys" "q \<notin> set (butlast ys)" "s \<notin> set (tl ys)" for ys
    by (subst links_cong [of ys _ "nxt h" _ "prv h"]) (use that in \<open>auto simp: n'\<close>)
  have tail: "chain n p (y # ys) \<Longrightarrow> chain n p ys" for n p y and ys :: "'a list" by (cases ys) auto
  have "chain (nxt h') (prv h') (us @ vs @ [hd (us @ vs)])"
  proof (cases us rule: rev_cases)
    case Nil
    then obtain ws where vs: "vs = ws @ [q]" using rest by (cases vs rule: rev_cases) (auto simp: q_def)
    obtain zs where zs: "vs = s # zs" using rest Nil by (cases vs) (auto simp: s_def)
    have "chain (nxt h) (prv h) (vs @ [hd xs])" by (rule tail [OF c(2)])
    then have "chain (nxt h) (prv h) vs" using vs chain_append [of "nxt h" "prv h" ws q "[hd xs]"] by simp
    moreover have "q \<notin> set (butlast vs)" "s \<notin> set (tl vs)" using dist(2) vs by (simp, use dist(2) zs in simp)
    ultimately have "chain (nxt h') (prv h') vs" by (rule keep)
    then have "chain (nxt h') (prv h') (vs @ [s])" using vs chain_append [of "nxt h'" "prv h'" ws q "[s]"] by (simp add: n')
    then show ?thesis using Nil zs by simp
  next
    case (snoc ws w)
    then have w: "w = q" by (simp add: q_def)
    have us: "us \<noteq> []" "hd xs = hd us" using snoc xs by (auto simp: hd_append)
    have s: "s = hd (vs @ [hd us])" using us by (simp add: s_def hd_append)
    have "chain (nxt h) (prv h) us" using c(1) snoc chain_append [of "nxt h" "prv h" ws w "[a]"] by simp
    then have c1: "chain (nxt h') (prv h') us"
    proof (rule keep)
      show "q \<notin> set (butlast us)" using dist(1) snoc w by simp
      show "s \<notin> set (tl us)" using dist(1,3) us by (cases us; cases vs) (auto simp: s)
    qed
    have "chain (nxt h) (prv h) (vs @ [hd us])" using tail [OF c(2)] us by simp
    then have c2: "chain (nxt h') (prv h') (vs @ [hd us])"
    proof (rule keep)
      show "q \<notin> set (butlast (vs @ [hd us]))" using dist(3) snoc w by auto
      show "s \<notin> set (tl (vs @ [hd us]))" using dist(2,3) us by (cases vs; cases us) (auto simp: s)
    qed
    have "chain (nxt h') (prv h') (q # vs @ [hd us])" using c2 by (cases vs) (auto simp: n' s)
    then have "chain (nxt h') (prv h') (us @ vs @ [hd us])"
      using c1 snoc w chain_append [of "nxt h'" "prv h'" ws q "vs @ [hd us]"] by simp
    then show ?thesis using us by simp
  qed
  then show "ring (nxt h') (prv h') (Some (hd (us @ vs))) (us @ vs)" using dist rest by (simp add: ring_def)
  have "vs @ us \<noteq> []" using rest by auto
  then have "s \<in> set (vs @ us)" "q \<in> set (vs @ us)" unfolding s_def q_def by (rule hd_in_set, rule last_in_set)
  then have "s \<in> set xs" "q \<in> set xs" using xs by auto
  then show "x \<notin> set xs \<Longrightarrow> nxt h' x = nxt h x \<and> prv h' x = prv h x" by (auto simp: n')
qed

end

text \<open>
  A queue over such a heap. \<open>idle\<close> says when an object may join a queue; \<open>untouched\<close> that only objects
  of the given set are written.
\<close>

locale ring_queue = link_heap nxt prv set_nxt set_prv
  for nxt prv :: "'h \<Rightarrow> 'a \<Rightarrow> 'a" and set_nxt set_prv :: "'a \<Rightarrow> 'a \<Rightarrow> 'h \<Rightarrow> 'h" +
  fixes idle :: "'h \<Rightarrow> 'a \<Rightarrow> bool"
    and enq :: "'a option \<Rightarrow> 'a \<Rightarrow> 'h \<Rightarrow> 'a option \<times> 'h"
    and deq :: "'a option \<Rightarrow> 'h \<Rightarrow> 'a option \<times> 'a option \<times> 'h"
    and rm :: "'a option \<Rightarrow> 'a \<Rightarrow> 'h \<Rightarrow> 'a option \<times> 'h"
  assumes idle_self: "nxt h a = a \<Longrightarrow> prv h a = a \<Longrightarrow> idle h a"
    and enq_first: "idle h a \<Longrightarrow> fst (enq None a h) = Some a \<and>
        nxt (snd (enq None a h)) = (nxt h)(a := a) \<and> prv (snd (enq None a h)) = (prv h)(a := a)"
    and enq_more: "enq (Some f) a h = (Some f, set_nxt (prv h f) a (set_prv f a (set_prv a (prv h f) (set_nxt a f h))))"
    and deq_none: "deq None h = (None, None, h)"
    and deq_some: "deq (Some f) h = (Some f, rm (Some f) f h)"
    and rm_last: "nxt h a = a \<Longrightarrow> rm base a h = (None, h)"
    and rm_base: "nxt h a \<noteq> a \<Longrightarrow> fst (rm base a h) = (if base = Some a then Some (nxt h a) else base)"
    and rm_idle: "nxt h a \<noteq> a \<Longrightarrow> idle (snd (rm base a h)) a"
    and rm_links: "nxt h a \<noteq> a \<Longrightarrow> x \<noteq> a \<Longrightarrow> nxt (snd (rm base a h)) x = ((nxt h)(prv h a := nxt h a)) x \<and>
        prv (snd (rm base a h)) x = ((prv h)(nxt h a := prv h a)) x"
begin

lemma ring_cong:
  assumes "\<And>x. x \<in> set xs \<Longrightarrow> nxt h' x = nxt h x \<and> prv h' x = prv h x"
  shows "ring (nxt h') (prv h') base xs = ring (nxt h) (prv h) base xs"
proof -
  have "chain (nxt h') (prv h') (xs @ [hd xs]) = chain (nxt h) (prv h) (xs @ [hd xs])" if "xs \<noteq> []"
    by (rule links_cong) (use that assms in \<open>cases xs; auto\<close>)+
  then show ?thesis by (simp add: ring_def)
qed

lemma enq_list:
  assumes "ring (nxt h) (prv h) base xs" and "a \<notin> set xs" and "idle h a"
  shows "case enq base a h of (base', h') \<Rightarrow> ring (nxt h') (prv h') base' (xs @ [a]) \<and>
           (\<forall>x. x \<notin> set (xs @ [a]) \<longrightarrow> nxt h' x = nxt h x \<and> prv h' x = prv h x)"
proof (cases base)
  case None
  then have "xs = []" using assms(1) by (simp add: ring_None)
  with None show ?thesis using enq_first [OF assms(3)] by (auto simp: ring_def split: prod.splits)
next
  case (Some f)
  show ?thesis using link_in [OF assms(1) [unfolded Some] assms(2) refl] by (simp add: Some enq_more)
qed

lemma rm_list:
  assumes ring: "ring (nxt h) (prv h) base xs" and a: "a \<in> set xs"
  shows "case rm base a h of (base', h') \<Rightarrow> ring (nxt h') (prv h') base' (remove1 a xs) \<and> idle h' a \<and>
           (\<forall>x. x \<notin> set xs \<longrightarrow> nxt h' x = nxt h x \<and> prv h' x = prv h x)"
proof -
  obtain us vs where xs: "xs = us @ a # vs" "a \<notin> set us" using split_list_first [OF a] by blast
  have av: "a \<notin> set vs" using ring xs by (auto simp: ring_def split: if_splits)
  have rem: "remove1 a xs = us @ vs" using xs by (simp add: remove1_append)
  note L = ring_links [OF ring xs(1)]
  show ?thesis
  proof (cases "us @ vs = []")
    case True
    then have "nxt h a = a" "prv h a = a" using L by auto
    then show ?thesis using True rem rm_last idle_self by simp
  next
    case False
    have ne: "nxt h a \<noteq> a" using L(1) False xs(2) av by (cases vs; cases us) auto
    define h' where "h' = snd (rm base a h)"
    have h': "rm base a h = (if base = Some a then Some (nxt h a) else base, h')" "idle h' a"
      "\<And>x. x \<noteq> a \<Longrightarrow> nxt h' x = ((nxt h)(prv h a := nxt h a)) x \<and> prv h' x = ((prv h)(nxt h a := prv h a)) x"
      using rm_base [OF ne, of base] rm_idle [OF ne, of base] rm_links [OF ne, of _ base]
      by (auto simp: h'_def prod_eq_iff)
    define g where "g = set_nxt (prv h a) (nxt h a) (set_prv (nxt h a) (prv h a) h)"
    note out = link_out [OF ring xs(1) False g_def]
    have b: "(if base = Some a then Some (nxt h a) else base) = Some (hd (us @ vs))"
      using ring xs L(1) False by (cases us) (auto simp: ring_def hd_append)
    have same: "nxt h' x = nxt g x \<and> prv h' x = prv g x" if "x \<noteq> a" for x using h'(3) [OF that] by (simp add: g_def)
    have "nxt h' x = nxt g x \<and> prv h' x = prv g x" if "x \<in> set (us @ vs)" for x
      by (rule same) (use that xs av in auto)
    then have "ring (nxt h') (prv h') (Some (hd (us @ vs))) (us @ vs)" using ring_cong out(1) by blast
    moreover have "nxt h' x = nxt h x \<and> prv h' x = prv h x" if "x \<notin> set xs" for x
      using same [of x] out(2) [OF that] that xs by auto
    ultimately show ?thesis using h'(1,2) b rem by simp
  qed
qed

lemma deq_list:
  assumes ring: "ring (nxt h) (prv h) base xs"
  shows "case deq base h of (r, base', h') \<Rightarrow> r = (if xs = [] then None else Some (hd xs)) \<and>
           ring (nxt h') (prv h') base' (tl xs) \<and> (\<forall>x. x \<notin> set xs \<longrightarrow> nxt h' x = nxt h x \<and> prv h' x = prv h x)"
proof (cases xs)
  case Nil
  then show ?thesis using ring by (simp add: deq_none)
next
  case (Cons f ys)
  then have "base = Some f" using ring by (simp add: ring_def)
  then show ?thesis using rm_list [OF ring, of f] Cons by (auto simp: deq_some split: prod.splits)
qed

lemma idle_after_deq:
  assumes "ring (nxt h) (prv h) base (f # xs)"
  shows "case deq base h of (r, base', h') \<Rightarrow> idle h' f"
proof -
  have "base = Some f" using assms by (simp add: ring_def)
  then show ?thesis using rm_list [OF assms, of f] by (auto simp: deq_some split: prod.splits)
qed

end

section \<open>Both queues are lists\<close>

interpretation kmq: ring_queue "\<lambda>h k. ikm_next (h k)" "\<lambda>h k. ikm_prev (h k)" set_ikm_next set_ikm_prev
  "\<lambda>h k. True" ipc_kmsg_enqueue ipc_kmsg_dequeue ipc_kmsg_rmqueue
  by unfold_locales
     (auto simp: set_ikm_next_def set_ikm_prev_def fun_eq_iff ipc_kmsg_enqueue_def ipc_kmsg_dequeue_def
       ipc_kmsg_rmqueue_first_def ipc_kmsg_rmqueue_def Let_def)

text \<open>A thread that is on no queue is linked to itself.\<close>

definition thread_idle :: "ith_heap \<Rightarrow> thread_ptr \<Rightarrow> bool" where
  "thread_idle h t \<longleftrightarrow> ith_next (h t) = t \<and> ith_prev (h t) = t"

interpretation thq: ring_queue "\<lambda>h k. ith_next (h k)" "\<lambda>h k. ith_prev (h k)" set_ith_next set_ith_prev
  thread_idle ipc_thread_enqueue ipc_thread_dequeue ipc_thread_rmqueue
  by unfold_locales
     (auto simp: set_ith_next_def set_ith_prev_def fun_eq_iff ipc_thread_enqueue_def ipc_thread_dequeue_def
       ipc_thread_rmqueue_first_def ipc_thread_rmqueue_def ipc_thread_links_init_def thread_idle_def Let_def)

definition kmsg_queue :: "ikm_heap \<Rightarrow> kmsg_ptr option \<Rightarrow> kmsg_ptr list \<Rightarrow> bool" where
  "kmsg_queue h = ring (\<lambda>k. ikm_next (h k)) (\<lambda>k. ikm_prev (h k))"

definition thread_queue :: "ith_heap \<Rightarrow> thread_ptr option \<Rightarrow> thread_ptr list \<Rightarrow> bool" where
  "thread_queue h = ring (\<lambda>t. ith_next (h t)) (\<lambda>t. ith_prev (h t))"

lemma kmsg_queue_next_list:
  assumes q: "kmsg_queue h base xs" and i: "i < length xs"
  shows "ipc_kmsg_queue_next base (xs ! i) h = (if Suc i < length xs then Some (xs ! Suc i) else None)"
proof -
  have b: "base = Some (hd xs)" "distinct xs" "xs \<noteq> []" using q i by (auto simp: kmsg_queue_def ring_def split: if_splits)
  have n: "ikm_next (h (xs ! i)) = (if Suc i < length xs then xs ! Suc i else hd xs)"
    using ring_next [OF q [unfolded kmsg_queue_def] i] .
  have "xs ! Suc i \<noteq> hd xs" if "Suc i < length xs"
    using b(2,3) that nth_eq_iff_index_eq [OF b(2), of "Suc i" 0] by (auto simp: hd_conv_nth)
  then show ?thesis using n b(1) by (auto simp: ipc_kmsg_queue_next_def Let_def)
qed

text \<open>
  C29: a queue of messages, a ring of pointers through the messages, behaves as a list: a
  message enters at the end, leaves from the front or is taken out from anywhere, a walk from message to message
  visits the list in order and ends, and no message outside the queue is written.
\<close>

theorem kmsg_queue_refines_list:
  assumes "kmsg_queue h base xs"
  shows "(a \<notin> set xs \<longrightarrow> (case ipc_kmsg_enqueue base a h of (base', h') \<Rightarrow>
            kmsg_queue h' base' (xs @ [a]) \<and> (\<forall>x. x \<notin> insert a (set xs) \<longrightarrow> h' x = h x))) \<and>
         (case ipc_kmsg_dequeue base h of (r, base', h') \<Rightarrow> r = (if xs = [] then None else Some (hd xs)) \<and>
            kmsg_queue h' base' (tl xs) \<and> (\<forall>x. x \<notin> set xs \<longrightarrow> h' x = h x)) \<and>
         (a \<in> set xs \<longrightarrow> (case ipc_kmsg_rmqueue base a h of (base', h') \<Rightarrow>
            kmsg_queue h' base' (remove1 a xs) \<and> (\<forall>x. x \<notin> set xs \<longrightarrow> h' x = h x))) \<and>
         (\<forall>i < length xs. ipc_kmsg_queue_next base (xs ! i) h = (if Suc i < length xs then Some (xs ! Suc i) else None))"
proof (intro conjI impI allI)
  note q = assms [unfolded kmsg_queue_def]
  have same: "l = m" if "ikm_next l = ikm_next m \<and> ikm_prev l = ikm_prev m" for l m :: ikm_links using that by simp
  show "case ipc_kmsg_enqueue base a h of (base', h') \<Rightarrow>
      kmsg_queue h' base' (xs @ [a]) \<and> (\<forall>x. x \<notin> insert a (set xs) \<longrightarrow> h' x = h x)" if "a \<notin> set xs"
    using kmq.enq_list [OF q that TrueI] same by (auto simp: kmsg_queue_def)
  show "case ipc_kmsg_dequeue base h of (r, base', h') \<Rightarrow> r = (if xs = [] then None else Some (hd xs)) \<and>
      kmsg_queue h' base' (tl xs) \<and> (\<forall>x. x \<notin> set xs \<longrightarrow> h' x = h x)"
    using kmq.deq_list [OF q] same by (auto simp: kmsg_queue_def)
  show "case ipc_kmsg_rmqueue base a h of (base', h') \<Rightarrow>
      kmsg_queue h' base' (remove1 a xs) \<and> (\<forall>x. x \<notin> set xs \<longrightarrow> h' x = h x)" if "a \<in> set xs"
    using kmq.rm_list [OF q that] same by (auto simp: kmsg_queue_def)
qed (rule kmsg_queue_next_list [OF assms])

text \<open>Three messages are queued; the one in the middle is pulled out.\<close>

theorem kmsg_queue_refines_list_witness:
  "let h0 = (\<lambda>_. \<lparr>ikm_next = 0, ikm_prev = 0\<rparr>);
       (b1, h1) = ipc_kmsg_enqueue None 3 h0; (b2, h2) = ipc_kmsg_enqueue b1 5 h1; (b3, h3) = ipc_kmsg_enqueue b2 7 h2
   in kmsg_queue h3 b3 [3, 5, 7] \<and>
      (case ipc_kmsg_rmqueue b3 5 h3 of (b4, h4) \<Rightarrow> kmsg_queue h4 b4 [3, 7] \<and> ipc_kmsg_queue_next b4 3 h4 = Some 7)"
proof -
  let ?h0 = "\<lambda>_. \<lparr>ikm_next = 0, ikm_prev = 0\<rparr>"
  obtain b1 h1 where 1: "ipc_kmsg_enqueue None 3 ?h0 = (b1, h1)" by fastforce
  have "kmsg_queue ?h0 None []" by (simp add: kmsg_queue_def)
  from kmsg_queue_refines_list [OF this, of 3] 1 have q1: "kmsg_queue h1 b1 [3]" by simp
  obtain b2 h2 where 2: "ipc_kmsg_enqueue b1 5 h1 = (b2, h2)" by fastforce
  from kmsg_queue_refines_list [OF q1, of 5] 2 have q2: "kmsg_queue h2 b2 [3, 5]" by simp
  obtain b3 h3 where 3: "ipc_kmsg_enqueue b2 7 h2 = (b3, h3)" by fastforce
  from kmsg_queue_refines_list [OF q2, of 7] 3 have q3: "kmsg_queue h3 b3 [3, 5, 7]" by simp
  obtain b4 h4 where 4: "ipc_kmsg_rmqueue b3 5 h3 = (b4, h4)" by fastforce
  from kmsg_queue_refines_list [OF q3, of 5] 4 have q4: "kmsg_queue h4 b4 [3, 7]" by simp
  from kmsg_queue_refines_list [OF q4] have "ipc_kmsg_queue_next b4 3 h4 = Some 7" by force
  with 1 2 3 4 q3 q4 show ?thesis by simp
qed

text \<open>The queues of threads, whose members are linked to themselves while they are on no queue.\<close>

lemma thread_queue_refines_list:
  assumes "thread_queue h base xs"
  shows "a \<notin> set xs \<Longrightarrow> thread_idle h a \<Longrightarrow> case ipc_thread_enqueue base a h of (base', h') \<Rightarrow> thread_queue h' base' (xs @ [a])"
    "case ipc_thread_dequeue base h of (r, base', h') \<Rightarrow> r = (if xs = [] then None else Some (hd xs)) \<and>
       thread_queue h' base' (tl xs) \<and> (xs \<noteq> [] \<longrightarrow> thread_idle h' (hd xs))"
    "a \<in> set xs \<Longrightarrow> case ipc_thread_rmqueue base a h of (base', h') \<Rightarrow> thread_queue h' base' (remove1 a xs) \<and> thread_idle h' a"
proof -
  note q = assms [unfolded thread_queue_def]
  show "a \<notin> set xs \<Longrightarrow> thread_idle h a \<Longrightarrow> case ipc_thread_enqueue base a h of (base', h') \<Rightarrow> thread_queue h' base' (xs @ [a])"
    using thq.enq_list [OF q, of a] by (auto simp: thread_queue_def)
  show "case ipc_thread_dequeue base h of (r, base', h') \<Rightarrow> r = (if xs = [] then None else Some (hd xs)) \<and>
       thread_queue h' base' (tl xs) \<and> (xs \<noteq> [] \<longrightarrow> thread_idle h' (hd xs))"
    using thq.deq_list [OF q] thq.idle_after_deq [of h base "hd xs" "tl xs"] q by (cases xs) (auto simp: thread_queue_def)
  show "a \<in> set xs \<Longrightarrow> case ipc_thread_rmqueue base a h of (base', h') \<Rightarrow> thread_queue h' base' (remove1 a xs) \<and> thread_idle h' a"
    using thq.rm_list [OF q, of a] by (auto simp: thread_queue_def)
qed

end
