(* ===== verification/Kmsg_Buffer.thy ===== *)
theory Kmsg_Buffer
  imports Msg_Bits
begin

text \<open>
  Message buffers, \<^verbatim>\<open>ipc_kmsg_get\<close> to \<^verbatim>\<open>ipc_kmsg_put_to_kernel\<close>: sizes are 32-bit words, as in the code.
  A buffer is the bytes from its header on, with the highest offset that was written, so that a
  write behind the end of the buffer shows.

  \<^verbatim>\<open>copyinmsg\<close> is a parameter: the bytes at a user address, or \<open>None\<close> when they cannot be read; so is
  \<^verbatim>\<open>kalloc\<close>, which says whether an allocation succeeds, and \<open>ld\<close> and \<open>st\<close>, how the machine reads and writes a word.
\<close>

section \<open>Sizes\<close>

type_synonym byte = "8 word"

definition MACH_MSG_TRAILER_MINIMUM_SIZE :: mach_msg_size_t where "MACH_MSG_TRAILER_MINIMUM_SIZE = 8"
definition MAX_TRAILER_SIZE :: mach_msg_size_t where "MAX_TRAILER_SIZE = 20"
definition IKM_OVERHEAD :: mach_msg_size_t where "IKM_OVERHEAD = 28"
definition IKM_SAVED_KMSG_SIZE :: mach_msg_size_t where "IKM_SAVED_KMSG_SIZE = 256"
definition MACH_SEND_TRAILER :: "32 word" where "MACH_SEND_TRAILER = 0x00020000"

definition ikm_plus_overhead :: "mach_msg_size_t \<Rightarrow> mach_msg_size_t" where
  "ikm_plus_overhead sz = sz + IKM_OVERHEAD"

definition IKM_SAVED_MSG_SIZE :: mach_msg_size_t where
  "IKM_SAVED_MSG_SIZE = IKM_SAVED_KMSG_SIZE - IKM_OVERHEAD"

lemmas size_defs = msg_header_size_def MACH_MSG_TRAILER_MINIMUM_SIZE_def MAX_TRAILER_SIZE_def IKM_OVERHEAD_def
  IKM_SAVED_KMSG_SIZE_def MACH_SEND_TRAILER_def ikm_plus_overhead_def IKM_SAVED_MSG_SIZE_def

section \<open>Buffers\<close>

text \<open>
  \<open>ikm_size\<close> counts the overhead in front of the header; \<open>ikm_bytes\<close> starts at the header.
\<close>

record kmsg_buffer =
  ikm_size :: mach_msg_size_t
  ikm_delta :: "32 word"
  ikm_bytes :: "nat \<Rightarrow> byte"
  ikm_extent :: nat

definition ikm_init_special :: "mach_msg_size_t \<Rightarrow> kmsg_buffer" where
  "ikm_init_special sz =
     \<lparr>ikm_size = sz, ikm_delta = 0, ikm_bytes = (\<lambda>_. 0), ikm_extent = 0\<rparr>"

text \<open>What fits behind the overhead.\<close>

definition capacity :: "kmsg_buffer \<Rightarrow> nat" where
  "capacity kmsg = unat (ikm_size kmsg) - unat IKM_OVERHEAD"

definition store_bytes :: "nat \<Rightarrow> byte list \<Rightarrow> kmsg_buffer \<Rightarrow> kmsg_buffer" where
  "store_bytes off bs kmsg =
     kmsg\<lparr>ikm_bytes := (\<lambda>i. if off \<le> i \<and> i < off + length bs then bs ! (i - off) else ikm_bytes kmsg i),
          ikm_extent := (if bs = [] then ikm_extent kmsg else max (ikm_extent kmsg) (off + length bs))\<rparr>"

definition load_word :: "(byte list \<Rightarrow> 32 word) \<Rightarrow> nat \<Rightarrow> kmsg_buffer \<Rightarrow> 32 word" where
  "load_word ld off kmsg = ld (map (ikm_bytes kmsg) [off..<off + 4])"

text \<open>The field \<^verbatim>\<open>msgh_size\<close> of the header is the word behind \<^verbatim>\<open>msgh_bits\<close>.\<close>

definition set_msgh_size :: "(32 word \<Rightarrow> byte list) \<Rightarrow> mach_msg_size_t \<Rightarrow> kmsg_buffer \<Rightarrow> kmsg_buffer" where
  "set_msgh_size st sz kmsg = store_bytes 4 (st sz) kmsg"

section \<open>Getting a message\<close>

text \<open>
  The sizes that \<^verbatim>\<open>ipc_kmsg_get\<close> and \<^verbatim>\<open>ipc_kmsg_get_from_kernel\<close> compute: of the buffer and of
  the first copy. \<open>None\<close> is a bad trailer size.
\<close>

definition get_sizes :: "32 word \<Rightarrow> mach_msg_size_t \<Rightarrow> 32 word \<Rightarrow> (mach_msg_size_t \<times> mach_msg_size_t) option" where
  "get_sizes option sz delta =
     (if delta \<le>s 0 then Some (sz, sz + delta)
      else if delta AND 3 \<noteq> 0 \<or> delta < MACH_MSG_TRAILER_MINIMUM_SIZE \<or> MAX_TRAILER_SIZE < delta then None
      else Some (sz + delta, sz + (if option AND MACH_SEND_TRAILER \<noteq> 0 then MACH_MSG_TRAILER_MINIMUM_SIZE else 0)))"

text \<open>The buffer: from the cache, of the cached size, or of the size of the message.\<close>

definition get_buffer ::
  "(mach_msg_size_t \<Rightarrow> bool) \<Rightarrow> mach_msg_size_t \<Rightarrow> kmsg_buffer option \<Rightarrow> kmsg_buffer option \<times> kmsg_buffer option" where
  "get_buffer kalloc msg_size cache =
     (if msg_size \<le> IKM_SAVED_MSG_SIZE then
        (case cache of
           Some kmsg \<Rightarrow> (Some (kmsg\<lparr>ikm_delta := 0\<rparr>), None)
         | None \<Rightarrow>
             (if kalloc (ikm_plus_overhead IKM_SAVED_MSG_SIZE)
              then Some (ikm_init_special (ikm_plus_overhead IKM_SAVED_MSG_SIZE)) else None, None))
      else
        (if kalloc (ikm_plus_overhead msg_size) then Some (ikm_init_special (ikm_plus_overhead msg_size)) else None,
         cache))"

text \<open>The trailer, of which the first copy brought the type and the size.\<close>

definition get_trailer ::
  "(byte list \<Rightarrow> 32 word) \<Rightarrow> (32 word \<Rightarrow> nat \<Rightarrow> byte list option) \<Rightarrow> 32 word \<Rightarrow> 32 word \<Rightarrow> mach_msg_size_t \<Rightarrow>
     32 word \<Rightarrow> kmsg_buffer \<Rightarrow> (32 word \<times> kmsg_buffer) option" where
  "get_trailer ld copyinmsg msg option sz delta kmsg =
     (if delta \<le>s 0 then Some (delta, kmsg)
      else if option AND MACH_SEND_TRAILER = 0 then Some (0, kmsg)
      else
        (let trailer = unat sz; trailer_size = load_word ld (trailer + 4) kmsg
         in if load_word ld trailer kmsg \<noteq> 0 then None
            else if delta < trailer_size \<or> trailer_size AND 3 \<noteq> 0 \<or> trailer_size < MACH_MSG_TRAILER_MINIMUM_SIZE \<or>
                    MAX_TRAILER_SIZE < trailer_size then None
            else if MACH_MSG_TRAILER_MINIMUM_SIZE < trailer_size then
              map_option (\<lambda>bs. (trailer_size, store_bytes (trailer + unat MACH_MSG_TRAILER_MINIMUM_SIZE) bs kmsg))
                (copyinmsg (msg + sz + MACH_MSG_TRAILER_MINIMUM_SIZE)
                   (unat (trailer_size - MACH_MSG_TRAILER_MINIMUM_SIZE)))
            else Some (trailer_size, kmsg)))"

definition ipc_kmsg_get ::
  "(byte list \<Rightarrow> 32 word) \<Rightarrow> (32 word \<Rightarrow> byte list) \<Rightarrow> (32 word \<Rightarrow> nat \<Rightarrow> byte list option) \<Rightarrow> (mach_msg_size_t \<Rightarrow> bool) \<Rightarrow>
     32 word \<Rightarrow> 32 word \<Rightarrow> mach_msg_size_t \<Rightarrow> 32 word \<Rightarrow> kmsg_buffer option \<Rightarrow>
     (mach_msg_return_t + kmsg_buffer) \<times> kmsg_buffer option" where
  "ipc_kmsg_get ld st copyinmsg kalloc msg option sz delta cache =
     (if sz < msg_header_size \<or> sz AND 3 \<noteq> 0 then (Inl MACH_SEND_MSG_TOO_SMALL, cache)
      else case get_sizes option sz delta of
        None \<Rightarrow> (Inl MACH_SEND_INVALID_TRAILER, cache)
      | Some (msg_size, send_size) \<Rightarrow>
          (case get_buffer kalloc msg_size cache of
             (None, cache) \<Rightarrow> (Inl MACH_SEND_NO_BUFFER, cache)
           | (Some kmsg, cache) \<Rightarrow>
               (case copyinmsg msg (unat send_size) of
                  None \<Rightarrow> (Inl MACH_SEND_INVALID_DATA, cache)
                | Some bs \<Rightarrow>
                    (case get_trailer ld copyinmsg msg option sz delta (store_bytes 0 bs kmsg) of
                       None \<Rightarrow> (Inl MACH_SEND_INVALID_TRAILER, cache)
                     | Some (delta, kmsg) \<Rightarrow> (Inr (set_msgh_size st sz (kmsg\<lparr>ikm_delta := delta\<rparr>)), cache)))))"

text \<open>From the kernel: never from the cache, and the copies do not fail.\<close>

definition ipc_kmsg_get_from_kernel ::
  "(byte list \<Rightarrow> 32 word) \<Rightarrow> (32 word \<Rightarrow> byte list) \<Rightarrow> (32 word \<Rightarrow> nat \<Rightarrow> byte list) \<Rightarrow> (mach_msg_size_t \<Rightarrow> bool) \<Rightarrow>
     32 word \<Rightarrow> 32 word \<Rightarrow> mach_msg_size_t \<Rightarrow> 32 word \<Rightarrow> mach_msg_return_t + kmsg_buffer" where
  "ipc_kmsg_get_from_kernel ld st bcopy kalloc msg option sz delta =
     (case get_sizes option sz delta of
        None \<Rightarrow> Inl MACH_SEND_INVALID_TRAILER
      | Some (msg_size, send_size) \<Rightarrow>
          if \<not> kalloc (ikm_plus_overhead msg_size) then Inl MACH_SEND_NO_BUFFER
          else
            (let kmsg = store_bytes 0 (bcopy msg (unat send_size)) (ikm_init_special (ikm_plus_overhead msg_size))
             in case get_trailer ld (\<lambda>a n. Some (bcopy a n)) msg option sz delta kmsg of
                  None \<Rightarrow> Inl MACH_SEND_INVALID_TRAILER
                | Some (delta, kmsg) \<Rightarrow> Inr (set_msgh_size st sz (kmsg\<lparr>ikm_delta := delta\<rparr>))))"

section \<open>Putting a message\<close>

text \<open>The first \<open>sz\<close> bytes go to the user; a buffer of the cached size is kept for the next message.\<close>

definition ipc_kmsg_put ::
  "(byte list \<Rightarrow> bool) \<Rightarrow> kmsg_buffer \<Rightarrow> mach_msg_size_t \<Rightarrow> kmsg_buffer option \<Rightarrow>
     mach_msg_return_t \<times> kmsg_buffer option" where
  "ipc_kmsg_put copyoutmsg kmsg sz cache =
     (let mr = (if copyoutmsg (map (ikm_bytes kmsg) [0..<unat sz]) then MACH_MSG_SUCCESS_code else MACH_RCV_INVALID_DATA);
          kmsg = kmsg\<lparr>ikm_delta := 0\<rparr>
      in (mr, if ikm_size kmsg = IKM_SAVED_KMSG_SIZE \<and> cache = None then Some kmsg else cache))"

definition ipc_kmsg_put_to_kernel :: "kmsg_buffer \<Rightarrow> mach_msg_size_t \<Rightarrow> byte list" where
  "ipc_kmsg_put_to_kernel kmsg sz = map (ikm_bytes kmsg) [0..<unat sz]"

section \<open>Bounds\<close>

lemma store_extent:
  assumes "ikm_extent kmsg \<le> n" and "off + length bs \<le> n"
  shows "ikm_extent (store_bytes off bs kmsg) \<le> n"
  using assms by (simp add: store_bytes_def)

lemma capacity_store [simp]: "capacity (store_bytes off bs kmsg) = capacity kmsg"
  by (simp add: capacity_def store_bytes_def)

text \<open>A buffer that is large enough, and not written behind its end yet.\<close>

lemma get_buffer_capacity:
  assumes "get_buffer kalloc msg_size cache = (Some kmsg, cache')"
    and "\<And>k. cache = Some k \<Longrightarrow> ikm_size k = IKM_SAVED_KMSG_SIZE \<and> ikm_extent k \<le> capacity k"
    and "unat msg_size + unat IKM_OVERHEAD < 2 ^ 32"
  shows "unat msg_size \<le> capacity kmsg" "ikm_extent kmsg \<le> capacity kmsg"
proof -
  have plus: "unat (ikm_plus_overhead msg_size) = unat msg_size + unat IKM_OVERHEAD"
    using assms(3) by (simp add: ikm_plus_overhead_def unat_add_lem [THEN iffD1])
  show "unat msg_size \<le> capacity kmsg" "ikm_extent kmsg \<le> capacity kmsg"
    using assms(1,2) plus
    by (auto simp: get_buffer_def ikm_init_special_def capacity_def size_defs word_le_nat_alt split: if_splits option.splits)
qed

lemma get_trailer_bounds:
  assumes "get_trailer ld copyinmsg msg option sz delta kmsg = Some (delta', kmsg')"
    and "\<And>a n bs. copyinmsg a n = Some bs \<Longrightarrow> length bs = n"
    and "ikm_extent kmsg \<le> capacity kmsg" and "0 <s delta \<Longrightarrow> unat sz + unat delta \<le> capacity kmsg"
  shows "ikm_extent kmsg' \<le> capacity kmsg'" "capacity kmsg' = capacity kmsg" "i < unat sz \<Longrightarrow> ikm_bytes kmsg' i = ikm_bytes kmsg i"
proof -
  let ?ts = "load_word ld (unat sz + 4) kmsg"
  have "kmsg' = kmsg \<or> 0 <s delta \<and> MACH_MSG_TRAILER_MINIMUM_SIZE < ?ts \<and> ?ts \<le> delta \<and>
      (\<exists>bs. copyinmsg (msg + sz + MACH_MSG_TRAILER_MINIMUM_SIZE) (unat (?ts - MACH_MSG_TRAILER_MINIMUM_SIZE)) = Some bs \<and>
         kmsg' = store_bytes (unat sz + unat MACH_MSG_TRAILER_MINIMUM_SIZE) bs kmsg)"
    using assms(1) by (auto simp: get_trailer_def Let_def word_sless_alt word_sle_eq split: if_splits)
  then consider "kmsg' = kmsg" | ts bs where "0 <s delta" "MACH_MSG_TRAILER_MINIMUM_SIZE < ts" "ts \<le> delta"
    "length bs = unat (ts - MACH_MSG_TRAILER_MINIMUM_SIZE)"
    "kmsg' = store_bytes (unat sz + unat MACH_MSG_TRAILER_MINIMUM_SIZE) bs kmsg"
    using assms(2) by blast
  then have "ikm_extent kmsg' \<le> capacity kmsg' \<and> capacity kmsg' = capacity kmsg \<and>
      (i < unat sz \<longrightarrow> ikm_bytes kmsg' i = ikm_bytes kmsg i)"
  proof cases
    case 2
    have "unat (ts - MACH_MSG_TRAILER_MINIMUM_SIZE) = unat ts - unat MACH_MSG_TRAILER_MINIMUM_SIZE"
      by (rule unat_sub) (use 2(2) in simp)
    then have "unat MACH_MSG_TRAILER_MINIMUM_SIZE + length bs = unat ts" using 2(2,4) by (simp add: word_less_nat_alt)
    then have "unat sz + unat MACH_MSG_TRAILER_MINIMUM_SIZE + length bs \<le> capacity kmsg"
      using 2(1,3) assms(4) by (simp add: word_le_nat_alt)
    then have "ikm_extent kmsg' \<le> capacity kmsg" unfolding 2(5) by (intro store_extent [OF assms(3)])
    then show ?thesis by (simp add: 2(5)) (simp add: store_bytes_def)
  qed (use assms(3) in simp)
  then show "ikm_extent kmsg' \<le> capacity kmsg'" "capacity kmsg' = capacity kmsg" "i < unat sz \<Longrightarrow> ikm_bytes kmsg' i = ikm_bytes kmsg i"
    by blast+
qed

text \<open>The sizes of a message that is not absurdly large do not wrap.\<close>

lemma get_sizes_bounds:
  assumes "get_sizes option sz delta = Some (msg_size, send_size)" and "unat sz + 48 < 2 ^ 32"
    and "delta \<le>s 0 \<Longrightarrow> unat (- delta) \<le> 3" and "msg_header_size \<le> sz"
  shows "unat msg_size + unat IKM_OVERHEAD < 2 ^ 32" "unat send_size \<le> unat msg_size"
    "0 <s delta \<Longrightarrow> unat msg_size = unat sz + unat delta \<and> unat sz \<le> unat send_size"
proof -
  have "unat msg_size + unat IKM_OVERHEAD < 2 ^ 32 \<and> unat send_size \<le> unat msg_size \<and>
    (0 <s delta \<longrightarrow> unat msg_size = unat sz + unat delta \<and> unat sz \<le> unat send_size)"
  proof (cases "delta \<le>s 0")
    case True
    have "sz + delta = sz - (- delta)" by simp
    moreover have "- delta \<le> sz" using assms(3) [OF True] assms(4) by (simp add: word_le_nat_alt size_defs)
    ultimately have "unat (sz + delta) \<le> unat sz" by (metis unat_sub diff_le_self)
    moreover have "msg_size = sz" "send_size = sz + delta" using True assms(1) by (auto simp: get_sizes_def)
    ultimately show ?thesis using True assms(2) by (simp add: size_defs word_sle_eq word_sless_alt)
  next
    case False
    have d: "delta \<le> 20" "8 \<le> delta" using False assms(1) by (auto simp: get_sizes_def size_defs split: if_splits)
    have s: "unat (sz + delta) = unat sz + unat delta" "unat (sz + 8) = unat sz + 8"
      using assms(2) d by (simp_all add: unat_add_lem [THEN iffD1] word_le_nat_alt)
    have "msg_size = sz + delta" "send_size = sz + 8 \<or> send_size = sz"
      using False assms(1) by (auto simp: get_sizes_def size_defs split: if_splits)
    then show ?thesis using s d assms(2) by (auto simp: size_defs word_le_nat_alt)
  qed
  then show "unat msg_size + unat IKM_OVERHEAD < 2 ^ 32" "unat send_size \<le> unat msg_size"
    "0 <s delta \<Longrightarrow> unat msg_size = unat sz + unat delta \<and> unat sz \<le> unat send_size" by blast+
qed

lemma set_msgh_size_bounds:
  assumes "ikm_extent kmsg \<le> capacity kmsg" and "length (st sz) = 4" and "8 \<le> capacity kmsg"
  shows "ikm_extent (set_msgh_size st sz kmsg) \<le> capacity (set_msgh_size st sz kmsg)"
  using store_extent [OF assms(1), of 4 "st sz"] assms(2,3) by (simp add: set_msgh_size_def)

text \<open>
  C30: for a message whose size plus the largest trailer and the buffer overhead does not wrap (and, in the old format,
  whose size was rounded up by at most three bytes), \<^verbatim>\<open>ipc_kmsg_get\<close> never writes behind the end of the
  buffer, whether the buffer comes from the cache or is new, with or without a trailer, and whether the call succeeds or not:
  once there is a buffer, the first copy and the largest trailer it can accept fit into it. If it succeeds, the
  buffer holds exactly the bytes of the sender, except that the four bytes of the size field of the header hold the
  size that was passed.
\<close>

theorem kmsg_get_in_bounds:
  assumes "\<And>a n bs. copyinmsg a n = Some bs \<Longrightarrow> length bs = n" and "length (st sz) = 4"
    and "\<And>k. cache = Some k \<Longrightarrow> ikm_size k = IKM_SAVED_KMSG_SIZE \<and> ikm_extent k \<le> capacity k"
    and "unat sz + 48 < 2 ^ 32" and "delta \<le>s 0 \<Longrightarrow> unat (- delta) \<le> 3"
  shows "(\<forall>msg_size send_size buf c.
            \<not> sz < msg_header_size \<and> get_sizes option sz delta = Some (msg_size, send_size) \<and>
            get_buffer kalloc msg_size cache = (Some buf, c) \<longrightarrow>
              unat send_size \<le> capacity buf \<and> (0 <s delta \<longrightarrow> unat sz + unat delta \<le> capacity buf)) \<and>
    (case ipc_kmsg_get ld st copyinmsg kalloc msg option sz delta cache of
       (Inl mr, _) \<Rightarrow> True
     | (Inr kmsg, _) \<Rightarrow> ikm_extent kmsg \<le> capacity kmsg \<and>
         (\<exists>n bs. copyinmsg msg n = Some bs \<and> (if delta \<le>s 0 then n = unat (sz + delta) else unat sz \<le> n) \<and>
            (\<forall>i < n. i < unat sz \<longrightarrow> ikm_bytes kmsg i = (if 4 \<le> i \<and> i < 8 then st sz ! (i - 4) else bs ! i))))"
proof (intro conjI allI impI; (elim conjE)?)
  fix msg_size send_size buf c
  assume h: "\<not> sz < msg_header_size" and s: "get_sizes option sz delta = Some (msg_size, send_size)"
    and b: "get_buffer kalloc msg_size cache = (Some buf, c)"
  note S = get_sizes_bounds [OF s assms(4,5) h [unfolded not_less]]
  note B = get_buffer_capacity [OF b assms(3) S(1)]
  show "unat send_size \<le> capacity buf" using S(2) B(1) by simp
  show "unat sz + unat delta \<le> capacity buf" if "0 <s delta" using S(3) that B(1) by simp
next
  have "ikm_extent kmsg \<le> capacity kmsg \<and>
         (\<exists>n bs. copyinmsg msg n = Some bs \<and> (if delta \<le>s 0 then n = unat (sz + delta) else unat sz \<le> n) \<and>
            (\<forall>i < n. i < unat sz \<longrightarrow> ikm_bytes kmsg i = (if 4 \<le> i \<and> i < 8 then st sz ! (i - 4) else bs ! i)))"
    if g: "ipc_kmsg_get ld st copyinmsg kalloc msg option sz delta cache = (Inr kmsg, cache')" for kmsg cache'
  proof -
    obtain msg_size send_size buf cache1 bs delta' kmsg' where
      h: "msg_header_size \<le> sz" and s: "get_sizes option sz delta = Some (msg_size, send_size)"
      and b: "get_buffer kalloc msg_size cache = (Some buf, cache1)" and c: "copyinmsg msg (unat send_size) = Some bs"
      and t: "get_trailer ld copyinmsg msg option sz delta (store_bytes 0 bs buf) = Some (delta', kmsg')"
      and k: "kmsg = set_msgh_size st sz (kmsg'\<lparr>ikm_delta := delta'\<rparr>)"
      using g by (auto simp: ipc_kmsg_get_def split: if_splits option.splits prod.splits)
    note S = get_sizes_bounds [OF s assms(4,5) h]
    note B = get_buffer_capacity [OF b assms(3) S(1)]
    have len: "length bs = unat send_size" by (rule assms(1) [OF c])
    have e: "ikm_extent (store_bytes 0 bs buf) \<le> capacity (store_bytes 0 bs buf)"
      using store_extent [OF B(2), of 0 bs] len S(2) B(1) by simp
    have room: "0 <s delta \<Longrightarrow> unat sz + unat delta \<le> capacity (store_bytes 0 bs buf)" using S(3) B(1) by simp
    have T: "ikm_extent kmsg' \<le> capacity kmsg'" "capacity kmsg' = capacity buf"
      "\<And>i. i < unat sz \<Longrightarrow> ikm_bytes kmsg' i = ikm_bytes (store_bytes 0 bs buf) i"
      using get_trailer_bounds [OF t _ e room] assms(1) by auto
    have "8 \<le> capacity buf"
      using B(1) S(3) h s by (cases "delta \<le>s 0") (auto simp: get_sizes_def size_defs word_le_nat_alt word_sle_eq word_sless_alt)
    then have "ikm_extent kmsg \<le> capacity kmsg"
      unfolding k by (intro set_msgh_size_bounds) (use T(1,2) assms(2) in \<open>simp_all add: capacity_def\<close>)
    moreover have "ikm_bytes kmsg i = (if 4 \<le> i \<and> i < 8 then st sz ! (i - 4) else bs ! i)"
      if "i < unat send_size" "i < unat sz" for i
      using T(3) [OF that(2)] that(1) len assms(2) by (auto simp: k set_msgh_size_def store_bytes_def)
    moreover have "if delta \<le>s 0 then unat send_size = unat (sz + delta) else unat sz \<le> unat send_size"
      using s S(3) by (auto simp: get_sizes_def word_sle_eq word_sless_alt)
    ultimately show ?thesis using c by (intro conjI exI [of _ "unat send_size"] exI [of _ bs]) auto
  qed
  then show "case ipc_kmsg_get ld st copyinmsg kalloc msg option sz delta cache of
       (Inl mr, _) \<Rightarrow> True
     | (Inr kmsg, _) \<Rightarrow> ikm_extent kmsg \<le> capacity kmsg \<and>
         (\<exists>n bs. copyinmsg msg n = Some bs \<and> (if delta \<le>s 0 then n = unat (sz + delta) else unat sz \<le> n) \<and>
            (\<forall>i < n. i < unat sz \<longrightarrow> ikm_bytes kmsg i = (if 4 \<le> i \<and> i < 8 then st sz ! (i - 4) else bs ! i)))"
    by (cases "ipc_kmsg_get ld st copyinmsg kalloc msg option sz delta cache"; rename_tac res c; case_tac res)
       (simp_all only: prod.case sum.case)
qed

text \<open>A message of 32 bytes from the cached buffer, and a trailer of 12 bytes behind it.\<close>

theorem kmsg_get_in_bounds_witness:
  "let copyinmsg = (\<lambda>a n. Some (map of_nat [0..<n])); ld = (\<lambda>bs. if hd bs = 32 then 0 else 12);
       st = (\<lambda>w. [0, 0, 0, ucast w]); kmsg0 = ikm_init_special IKM_SAVED_KMSG_SIZE
   in \<exists>kmsg. ipc_kmsg_get ld st copyinmsg (\<lambda>_. True) 0x1000 MACH_SEND_TRAILER 32 20 (Some kmsg0) = (Inr kmsg, None) \<and>
        ikm_extent kmsg \<le> capacity kmsg \<and> ikm_bytes kmsg 7 = 32"
proof -
  let ?c = "\<lambda>(a :: 32 word) n. Some (map of_nat [0..<n] :: byte list)"
  let ?ld = "\<lambda>bs :: byte list. if hd bs = 32 then 0 else 12 :: 32 word"
  let ?st = "\<lambda>w :: 32 word. [0, 0, 0, ucast w] :: byte list"
  let ?k = "ikm_init_special IKM_SAVED_KMSG_SIZE"
  obtain kmsg where k: "ipc_kmsg_get ?ld ?st ?c (\<lambda>_. True) 0x1000 MACH_SEND_TRAILER 32 20 (Some ?k) = (Inr kmsg, None)"
    by (simp add: ipc_kmsg_get_def get_sizes_def get_buffer_def get_trailer_def size_defs word_sle_eq
        load_word_def store_bytes_def upt_rec [of 32])
  have cached: "ikm_size k = IKM_SAVED_KMSG_SIZE \<and> ikm_extent k \<le> capacity k" if "Some ?k = Some k" for k
    using that by (auto simp: ikm_init_special_def)
  have pos: "(20 :: 32 word) \<le>s 0 \<Longrightarrow> unat (- (20 :: 32 word)) \<le> 3" by (simp add: word_sle_eq)
  have small: "unat (32 :: 32 word) + 48 < 2 ^ 32" by simp
  have len: "\<And>a n bs. ?c a n = Some bs \<Longrightarrow> length bs = n" "length (?st 32) = 4" by auto
  have "ikm_extent kmsg \<le> capacity kmsg \<and> (\<exists>n bs :: byte list. (if (20 :: 32 word) \<le>s 0 then n = unat (32 + 20 :: 32 word) else unat (32 :: 32 word) \<le> n) \<and>
      (\<forall>i < n. i < unat (32 :: 32 word) \<longrightarrow> ikm_bytes kmsg i = (if 4 \<le> i \<and> i < 8 then ?st 32 ! (i - 4) else bs ! i)))"
    using kmsg_get_in_bounds [where copyinmsg = ?c and cache = "Some ?k" and sz = 32 and delta = 20 and st = ?st, OF len(1,2) cached small pos,
        where ld = ?ld and msg = "0x1000" and option = MACH_SEND_TRAILER and kalloc = "\<lambda>_. True"] unfolding k prod.case sum.case by blast
  then have "ikm_extent kmsg \<le> capacity kmsg" "ikm_bytes kmsg 7 = 32" by (auto simp: word_sle_eq)
  with k show ?thesis unfolding Let_def by blast
qed

text \<open>
  C31: \<^verbatim>\<open>ipc_kmsg_get\<close> does not check that the size it is given leaves room for the trailer.
  For any size within twenty bytes of \<open>2\<^sup>3\<^sup>2\<close>, with the trailer allowance that \<^verbatim>\<open>mach_msg_send\<close> always passes,
  the size of the buffer wraps, a 256-byte buffer is taken, and the whole message is copied into it.
\<close>

theorem kmsg_get_overruns:
  assumes "2 ^ 32 - 20 \<le> unat sz" and "sz AND 3 = 0" and "option AND MACH_SEND_TRAILER = 0"
    and "kalloc IKM_SAVED_KMSG_SIZE" and "copyinmsg msg (unat sz) = Some bs" and "length bs = unat sz"
  shows "\<exists>kmsg. ipc_kmsg_get ld st copyinmsg kalloc msg option sz MAX_TRAILER_SIZE None = (Inr kmsg, None) \<and>
           ikm_size kmsg = IKM_SAVED_KMSG_SIZE \<and> capacity kmsg < ikm_extent kmsg"
proof -
  have h: "\<not> sz < msg_header_size" using assms(1) by (simp add: word_less_nat_alt size_defs)
  have "unat (sz + 20) \<le> 20"
  proof -
    have "unat sz < 2 ^ LENGTH(32)" by (rule unsigned_less)
    then have "unat sz < 2 ^ 32" by simp
    then have "(unat sz + 20) mod 2 ^ 32 = unat sz + 20 - 2 ^ 32" using assms(1) by (simp add: mod_if)
    moreover have "unat (sz + 20) = (unat sz + 20) mod 2 ^ 32" by (simp add: unat_word_ariths)
    ultimately show ?thesis using \<open>unat sz < 2 ^ 32\<close> by linarith
  qed
  then have m: "sz + 20 \<le> 228" by (simp add: word_le_nat_alt)
  have d: "\<not> (20 :: 32 word) \<le>s 0" "(20 :: 32 word) AND 3 = 0" by (simp_all add: word_sle_eq)
  show ?thesis
    using h m d assms(1-6)
    by (simp add: ipc_kmsg_get_def get_sizes_def get_buffer_def get_trailer_def size_defs store_bytes_def
        set_msgh_size_def ikm_init_special_def capacity_def) auto
qed

theorem kmsg_get_overruns_witness:
  "\<exists>kmsg. ipc_kmsg_get (\<lambda>_. 0) (\<lambda>_. [0, 0, 0, 0]) (\<lambda>a n. Some (replicate n 0)) (\<lambda>_. True) 0 0 0xfffffff0 MAX_TRAILER_SIZE None = (Inr kmsg, None) \<and>
     ikm_size kmsg = IKM_SAVED_KMSG_SIZE \<and> capacity kmsg < ikm_extent kmsg"
  by (rule kmsg_get_overruns [where bs = "replicate (unat (0xfffffff0 :: 32 word)) 0"]) simp_all

end
