(* ===== verification/Kmsg_Header.thy ===== *)
theory Kmsg_Header
  imports Msg_Bits Object_Wf
begin

text \<open>
  \<^verbatim>\<open>ipc_kmsg_copyin_header\<close>: the two port rights in the header of a message are taken from the space of
  the sender. The first part of the routine handles three common kinds of messages without the general
  machinery; the second part handles all of them. Each branch is a definition of its own.

  An entry pointer is the name it was looked up with; what the code reads through the pointer after a
  change is read from the map of names again. \<open>None\<close> stands for an assertion that fails.
\<close>

section \<open>Headers\<close>

text \<open>The fields for the ports hold names in user messages and objects in kernel messages.\<close>

record 'p mach_msg_header =
  msgh_bits :: mach_msg_bits_t
  msgh_remote_port :: 'p
  msgh_local_port :: 'p

text \<open>The cast of a name that is not valid to an object.\<close>

definition cast_name :: "mach_port_t \<Rightarrow> ipc_object" where
  "cast_name name = (if name = MACH_PORT_NULL then IO_NULL else IO_DEAD)"

section \<open>Common cases\<close>

text \<open>
  The optimised lookups look at the slot of the table for the name only. \<open>in_table\<close> tells for which names
  this slot has the generation of the name, \<open>collides\<close> for which it has the collision bit set.
  \<open>lock_try\<close> is the answer of \<^verbatim>\<open>ip_lock_try\<close>.
\<close>

definition fast_lookup ::
  "(mach_port_t \<Rightarrow> bool) \<Rightarrow> space_id \<Rightarrow> mach_port_t \<Rightarrow> natural_t \<Rightarrow> ipc_kernel \<Rightarrow> ipc_entry option" where
  "fast_lookup in_table space name type K =
     (if is_active (k_spaces K space) \<and> in_table name then
        (case entries K space name of
           Some entry \<Rightarrow> if test (ie_bits entry) type then Some entry else None
         | None \<Rightarrow> None)
      else None)"

text \<open>Asynchronous messages: \<open>None\<close> leaves the message to the general code.\<close>

definition copyin_header_async ::
  "(mach_port_t \<Rightarrow> bool) \<Rightarrow> space_id \<Rightarrow> mach_port_t \<Rightarrow> mach_port_t \<Rightarrow> mach_msg_bits_t \<Rightarrow> ipc_kernel \<Rightarrow>
     (ipc_object mach_msg_header \<times> ipc_kernel) option" where
  "copyin_header_async in_table space dest_name reply_name mbits K =
     (if reply_name \<noteq> MACH_PORT_NULL then None
      else do {
        entry \<leftarrow> fast_lookup in_table space dest_name MACH_PORT_TYPE_SEND K;
        dest_port \<leftarrow> entry_port entry;
        if \<not> ip_active (k_ports K dest_port) then None
        else Some
          (\<lparr>msgh_bits = MACH_MSGH_BITS_OTHER mbits OR MACH_MSGH_BITS (right_number MACH_MSG_TYPE_PORT_SEND) 0,
            msgh_remote_port = IO_PORT dest_port, msgh_local_port = cast_name reply_name\<rparr>,
           ip_reference dest_port (upd_port dest_port (ip_srights_update (\<lambda>n. n + 1)) K))
      })"

definition copyin_header_request ::
  "(mach_port_t \<Rightarrow> bool) \<Rightarrow> bool \<Rightarrow> space_id \<Rightarrow> mach_port_t \<Rightarrow> mach_port_t \<Rightarrow> mach_msg_bits_t \<Rightarrow> ipc_kernel \<Rightarrow>
     (ipc_object mach_msg_header \<times> ipc_kernel) option" where
  "copyin_header_request in_table lock_try space dest_name reply_name mbits K = do {
     entry \<leftarrow> fast_lookup in_table space dest_name MACH_PORT_TYPE_SEND K;
     dest_port \<leftarrow> entry_port entry;
     entry \<leftarrow> fast_lookup in_table space reply_name MACH_PORT_TYPE_RECEIVE K;
     reply_port \<leftarrow> entry_port entry;
     if \<not> ip_active (k_ports K dest_port) \<or> \<not> lock_try then None
     else do {
       let K = ip_reference dest_port (upd_port dest_port (ip_srights_update (\<lambda>n. n + 1)) K);
       let K = ip_reference reply_port (upd_port reply_port (ip_sorights_update (\<lambda>n. n + 1)) K);
       Some
         (\<lparr>msgh_bits = MACH_MSGH_BITS_OTHER mbits OR
              MACH_MSGH_BITS (right_number MACH_MSG_TYPE_PORT_SEND) (right_number MACH_MSG_TYPE_PORT_SEND_ONCE),
           msgh_remote_port = IO_PORT dest_port, msgh_local_port = IO_PORT reply_port\<rparr>, K)
     }
   }"

definition copyin_header_reply ::
  "(mach_port_t \<Rightarrow> bool) \<Rightarrow> (mach_port_t \<Rightarrow> bool) \<Rightarrow> space_id \<Rightarrow> mach_port_t \<Rightarrow> mach_port_t \<Rightarrow> mach_msg_bits_t \<Rightarrow>
     ipc_kernel \<Rightarrow> (ipc_object mach_msg_header \<times> ipc_kernel) option" where
  "copyin_header_reply in_table collides space dest_name reply_name mbits K =
     (if reply_name \<noteq> MACH_PORT_NULL then None
      else do {
        entry \<leftarrow> fast_lookup in_table space dest_name MACH_PORT_TYPE_SEND_ONCE K;
        if collides dest_name \<or> ie_request entry \<noteq> 0 then None
        else do {
          dest_port \<leftarrow> entry_port entry;
          if \<not> ip_active (k_ports K dest_port) then None
          else Some
            (\<lparr>msgh_bits = MACH_MSGH_BITS_OTHER mbits OR MACH_MSGH_BITS (right_number MACH_MSG_TYPE_PORT_SEND_ONCE) 0,
              msgh_remote_port = IO_PORT dest_port, msgh_local_port = cast_name reply_name\<rparr>,
             entry_dealloc space dest_name K)
        }
      })"

definition copyin_header_common ::
  "(mach_port_t \<Rightarrow> bool) \<Rightarrow> (mach_port_t \<Rightarrow> bool) \<Rightarrow> bool \<Rightarrow> space_id \<Rightarrow> mach_port_t \<Rightarrow> mach_port_t \<Rightarrow>
     mach_msg_bits_t \<Rightarrow> ipc_kernel \<Rightarrow> (ipc_object mach_msg_header \<times> ipc_kernel) option" where
  "copyin_header_common in_table collides lock_try space dest_name reply_name mbits K =
     (if MACH_MSGH_BITS_PORTS mbits = MACH_MSGH_BITS 19 0
      then copyin_header_async in_table space dest_name reply_name mbits K
      else if MACH_MSGH_BITS_PORTS mbits = MACH_MSGH_BITS 19 21
      then copyin_header_request in_table lock_try space dest_name reply_name mbits K
      else if MACH_MSGH_BITS_PORTS mbits = MACH_MSGH_BITS 18 0
      then copyin_header_reply in_table collides space dest_name reply_name mbits K
      else None)"

section \<open>The general case\<close>

text \<open>Both ports with the send-once rights of the requests for notification that were cancelled, or an error.\<close>

type_synonym header_rights = "ipc_object \<times> port_id option \<times> ipc_object \<times> port_id option"
type_synonym header_result = "(mach_msg_return_t + header_rights) \<times> ipc_kernel"

abbreviation make_type :: "copyin_type \<Rightarrow> bool" where
  "make_type t \<equiv> t \<in> {MACH_MSG_TYPE_MAKE_SEND, MACH_MSG_TYPE_MAKE_SEND_ONCE}"

text \<open>Destination and reply port have the same name.\<close>

definition copyin_make ::
  "space_id \<Rightarrow> mach_port_t \<Rightarrow> ipc_entry \<Rightarrow> copyin_type \<Rightarrow> copyin_type \<Rightarrow> ipc_kernel \<Rightarrow> header_result option" where
  "copyin_make space name entry dest_type reply_type K = do {
     (r, K) \<leftarrow> ipc_right_copyin space name entry dest_type False K;
     case r of
       Inl _ \<Rightarrow> Some (Inl MACH_SEND_INVALID_DEST, K)
     | Inr (dest_port, dest_soright) \<Rightarrow> do {
         entry \<leftarrow> entries K space name;
         (r, K) \<leftarrow> ipc_right_copyin space name entry reply_type True K;
         case r of
           Inl _ \<Rightarrow> None
         | Inr (reply_port, reply_soright) \<Rightarrow> Some (Inr (dest_port, dest_soright, reply_port, reply_soright), K)
       }
   }"

definition copyin_two_sends ::
  "space_id \<Rightarrow> mach_port_t \<Rightarrow> ipc_entry \<Rightarrow> copyin_type \<Rightarrow> copyin_type \<Rightarrow> ipc_kernel \<Rightarrow> header_result option" where
  "copyin_two_sends space name entry dest_type reply_type K =
     (if dest_type = MACH_MSG_TYPE_COPY_SEND \<and> reply_type = MACH_MSG_TYPE_COPY_SEND then do {
        (r, K) \<leftarrow> ipc_right_copyin space name entry dest_type False K;
        case r of
          Inl _ \<Rightarrow> Some (Inl MACH_SEND_INVALID_DEST, K)
        | Inr (dest_port, dest_soright) \<Rightarrow>
            (let (reply_port, K) = ipc_port_copy_send dest_port K
             in Some (Inr (dest_port, dest_soright, reply_port, None), K))
      }
      else if dest_type = MACH_MSG_TYPE_MOVE_SEND \<and> reply_type = MACH_MSG_TYPE_MOVE_SEND then do {
        (r, K) \<leftarrow> ipc_right_copyin_two space name entry K;
        case r of
          Inl _ \<Rightarrow> Some (Inl MACH_SEND_INVALID_DEST, K)
        | Inr (dest_port, dest_soright) \<Rightarrow>
            Some (Inr (dest_port, dest_soright, dest_port, None), dealloc_if_none space name K)
      }
      else do {
        (r, K) \<leftarrow> ipc_right_copyin space name entry MACH_MSG_TYPE_MOVE_SEND False K;
        case r of
          Inl _ \<Rightarrow> Some (Inl MACH_SEND_INVALID_DEST, K)
        | Inr (dest_port, soright) \<Rightarrow>
            (let (reply_port, K) = ipc_port_copy_send dest_port (dealloc_if_none space name K)
             in Some (Inr (if dest_type = MACH_MSG_TYPE_MOVE_SEND then (dest_port, soright, reply_port, None)
                           else (dest_port, None, reply_port, soright)), K))
      })"

definition copyin_header_same ::
  "space_id \<Rightarrow> mach_port_t \<Rightarrow> copyin_type \<Rightarrow> copyin_type option \<Rightarrow> ipc_kernel \<Rightarrow> header_result option" where
  "copyin_header_same space name dest_type reply_type K =
     (case entries K space name of
        None \<Rightarrow> Some (Inl MACH_SEND_INVALID_DEST, K)
      | Some entry \<Rightarrow> do {
          reply_type \<leftarrow> reply_type;
          ok \<leftarrow> ipc_right_copyin_check entry reply_type K;
          if \<not> ok then Some (Inl MACH_SEND_INVALID_REPLY, K)
          else if dest_type = MACH_MSG_TYPE_MOVE_SEND_ONCE \<or> reply_type = MACH_MSG_TYPE_MOVE_SEND_ONCE
          then Some (Inl MACH_SEND_INVALID_DEST, K)
          else if make_type dest_type \<or> make_type reply_type
          then copyin_make space name entry dest_type reply_type K
          else copyin_two_sends space name entry dest_type reply_type K
        })"

text \<open>There is no reply port.\<close>

definition copyin_header_dest ::
  "space_id \<Rightarrow> mach_port_t \<Rightarrow> mach_port_t \<Rightarrow> copyin_type \<Rightarrow> ipc_kernel \<Rightarrow> header_result option" where
  "copyin_header_dest space dest_name reply_name dest_type K =
     (case entries K space dest_name of
        None \<Rightarrow> Some (Inl MACH_SEND_INVALID_DEST, K)
      | Some entry \<Rightarrow> do {
          (r, K) \<leftarrow> ipc_right_copyin space dest_name entry dest_type False K;
          case r of
            Inl _ \<Rightarrow> Some (Inl MACH_SEND_INVALID_DEST, K)
          | Inr (dest_port, dest_soright) \<Rightarrow>
              Some (Inr (dest_port, dest_soright, cast_name reply_name, None), dealloc_if_none space dest_name K)
        })"

text \<open>
  The destination died before the reply port, which was dead when it was copied in: \<^verbatim>\<open>must_undo\<close>. A port
  that is dead has a time of death.
\<close>

definition time_of_death :: "ipc_port \<Rightarrow> natural_t" where
  "time_of_death p = (case ip_data p of Ip_Timestamp t \<Rightarrow> t | _ \<Rightarrow> 0)"

definition must_undo :: "port_id \<Rightarrow> port_id \<Rightarrow> ipc_kernel \<Rightarrow> bool" where
  "must_undo dest saved_reply K \<longleftrightarrow>
     \<not> ip_active (k_ports K dest) \<and>
     IP_TIMESTAMP_ORDER (time_of_death (k_ports K dest)) (time_of_death (k_ports K saved_reply))"

definition undo_both ::
  "space_id \<Rightarrow> mach_port_t \<Rightarrow> mach_port_t \<Rightarrow> copyin_type \<Rightarrow> copyin_type \<Rightarrow> header_rights \<Rightarrow> port_id \<Rightarrow>
     ipc_kernel \<Rightarrow> header_result option" where
  "undo_both space dest_name reply_name dest_type reply_type rights saved_reply K =
     (case rights of (dest_port, dest_soright, reply_port, reply_soright) \<Rightarrow> do {
        dest_entry \<leftarrow> entries K space dest_name;
        K \<leftarrow> ipc_right_copyin_undo space dest_name dest_entry dest_type dest_port dest_soright K;
        reply_entry \<leftarrow> entries K space reply_name;
        K \<leftarrow> ipc_right_copyin_undo space reply_name reply_entry reply_type reply_port reply_soright K;
        let K = (case dest_soright of None \<Rightarrow> K | Some soright \<Rightarrow> ipc_notify_dead_name soright dest_name K);
        Some (Inl MACH_SEND_INVALID_DEST, ip_release saved_reply K)
      })"

text \<open>
  The end of the case of two ports, for what the copyin of the reply port answers; \<open>saved_reply\<close> is the
  port that the reply entry denoted before.
\<close>

definition copyin_reply ::
  "space_id \<Rightarrow> mach_port_t \<Rightarrow> mach_port_t \<Rightarrow> copyin_type \<Rightarrow> copyin_type \<Rightarrow> ipc_object \<times> port_id option \<Rightarrow>
     port_id option \<Rightarrow> ipc_kernel \<Rightarrow> header_result option" where
  "copyin_reply space dest_name reply_name dest_type reply_type dest saved_reply K = do {
     let (dest_port, dest_soright) = dest;
     reply_entry \<leftarrow> entries K space reply_name;
     (r, K) \<leftarrow> ipc_right_copyin space reply_name reply_entry reply_type True K;
     let release = (case saved_reply of None \<Rightarrow> (\<lambda>K. K) | Some port \<Rightarrow> ip_release port);
     case r of
       Inl kr \<Rightarrow>
         (if kr \<noteq> KERN_INVALID_NAME then None
          else Some (Inr (dest_port, dest_soright, IO_DEAD, None), release (dealloc_if_none space dest_name K)))
     | Inr (reply_port, reply_soright) \<Rightarrow>
         (case (dest_port, saved_reply) of
            (IO_PORT d, Some saved) \<Rightarrow>
              if reply_port = IO_DEAD \<and> must_undo d saved K
              then undo_both space dest_name reply_name dest_type reply_type
                     (dest_port, dest_soright, reply_port, reply_soright) saved K
              else Some (Inr (dest_port, dest_soright, reply_port, reply_soright),
                         release (dealloc_if_none space dest_name (dealloc_if_none space reply_name K)))
          | (IO_PORT d, None) \<Rightarrow>
              Some (Inr (dest_port, dest_soright, reply_port, reply_soright),
                    release (dealloc_if_none space dest_name (dealloc_if_none space reply_name K)))
          | _ \<Rightarrow> None)
   }"

definition copyin_header_both ::
  "space_id \<Rightarrow> mach_port_t \<Rightarrow> mach_port_t \<Rightarrow> copyin_type \<Rightarrow> copyin_type option \<Rightarrow> ipc_kernel \<Rightarrow> header_result option" where
  "copyin_header_both space dest_name reply_name dest_type reply_type K =
     (case entries K space dest_name of
        None \<Rightarrow> Some (Inl MACH_SEND_INVALID_DEST, K)
      | Some dest_entry \<Rightarrow>
          (case entries K space reply_name of
             None \<Rightarrow> Some (Inl MACH_SEND_INVALID_REPLY, K)
           | Some reply_entry \<Rightarrow> do {
               reply_type \<leftarrow> reply_type;
               ok \<leftarrow> ipc_right_copyin_check reply_entry reply_type K;
               if \<not> ok then Some (Inl MACH_SEND_INVALID_REPLY, K)
               else do {
                 (r, K) \<leftarrow> ipc_right_copyin space dest_name dest_entry dest_type False K;
                 case r of
                   Inl _ \<Rightarrow> Some (Inl MACH_SEND_INVALID_DEST, K)
                 | Inr dest \<Rightarrow> do {
                     reply_entry \<leftarrow> entries K space reply_name;
                     let saved_reply = entry_port reply_entry;
                     let K = (case saved_reply of None \<Rightarrow> K | Some port \<Rightarrow> ip_reference port K);
                     copyin_reply space dest_name reply_name dest_type reply_type dest saved_reply K
                   }
               }
             }))"

definition copyin_header_rights ::
  "space_id \<Rightarrow> mach_port_t \<Rightarrow> mach_port_t \<Rightarrow> copyin_type \<Rightarrow> copyin_type option \<Rightarrow> ipc_kernel \<Rightarrow> header_result option" where
  "copyin_header_rights space dest_name reply_name dest_type reply_type K =
     (if dest_name = reply_name then copyin_header_same space dest_name dest_type reply_type K
      else if \<not> MACH_PORT_VALID reply_name then copyin_header_dest space dest_name reply_name dest_type K
      else copyin_header_both space dest_name reply_name dest_type reply_type K)"

text \<open>
  The notifications at the end. With the option \<^verbatim>\<open>MACH_SEND_CANCEL\<close> the port-deleted notification for
  the destination is not sent when it would go to the given receive right.
\<close>

definition header_notify ::
  "port_id option \<Rightarrow> mach_port_t \<Rightarrow> mach_port_t \<Rightarrow> header_rights \<Rightarrow> ipc_kernel \<Rightarrow> ipc_kernel" where
  "header_notify notify_port dest_name reply_name rights K =
     (case rights of (dest_port, dest_soright, reply_port, reply_soright) \<Rightarrow>
        send_port_deleted reply_soright reply_name
          (case dest_soright of
             None \<Rightarrow> K
           | Some soright \<Rightarrow>
               if notify_port = Some soright then ipc_port_release_sonce soright K
               else ipc_notify_port_deleted soright dest_name K))"

definition reply_number :: "copyin_type option \<Rightarrow> mach_msg_type_name_t" where
  "reply_number reply_type =
     (case reply_type of None \<Rightarrow> 0 | Some t \<Rightarrow> right_number (ipc_object_copyin_type t))"

text \<open>The receive right for notifications, by name.\<close>

definition notify_lookup :: "space_id \<Rightarrow> mach_port_t \<Rightarrow> ipc_kernel \<Rightarrow> mach_msg_return_t + port_id option" where
  "notify_lookup space notify K =
     (if notify = MACH_PORT_NULL then Inr None
      else case entries K space notify of
        None \<Rightarrow> Inl MACH_SEND_INVALID_NOTIFY
      | Some entry \<Rightarrow>
          if test (ie_bits entry) MACH_PORT_TYPE_RECEIVE then Inr (entry_port entry) else Inl MACH_SEND_INVALID_NOTIFY)"

definition copyin_header_general ::
  "space_id \<Rightarrow> mach_port_t \<Rightarrow> mach_port_t \<Rightarrow> mach_port_t \<Rightarrow> mach_msg_bits_t \<Rightarrow> ipc_kernel \<Rightarrow>
     ((mach_msg_return_t + ipc_object mach_msg_header) \<times> ipc_kernel) option" where
  "copyin_header_general space notify dest_name reply_name mbits K =
     (let reply_type = MACH_MSGH_BITS_LOCAL mbits
      in if \<not> MACH_MSG_TYPE_PORT_ANY_SEND (MACH_MSGH_BITS_REMOTE mbits) then Some (Inl MACH_SEND_INVALID_HEADER, K)
         else if (if reply_type = 0 then reply_name \<noteq> MACH_PORT_NULL else \<not> MACH_MSG_TYPE_PORT_ANY_SEND reply_type)
         then Some (Inl MACH_SEND_INVALID_HEADER, K)
         else if \<not> is_active (k_spaces K space) then Some (Inl MACH_SEND_INVALID_DEST, K)
         else case notify_lookup space notify K of
           Inl mr \<Rightarrow> Some (Inl mr, K)
         | Inr notify_port \<Rightarrow> do {
             dest_type \<leftarrow> copyin_type_of (MACH_MSGH_BITS_REMOTE mbits);
             let reply_type = copyin_type_of reply_type;
             (r, K) \<leftarrow> copyin_header_rights space dest_name reply_name dest_type reply_type K;
             case r of
               Inl mr \<Rightarrow> Some (Inl mr, K)
             | Inr rights \<Rightarrow>
                 Some
                   (Inr \<lparr>msgh_bits = MACH_MSGH_BITS_OTHER mbits OR
                           MACH_MSGH_BITS (right_number (ipc_object_copyin_type dest_type)) (reply_number reply_type),
                         msgh_remote_port = fst rights, msgh_local_port = fst (snd (snd rights))\<rparr>,
                    header_notify notify_port dest_name reply_name rights K)
           })"

definition ipc_kmsg_copyin_header ::
  "(mach_port_t \<Rightarrow> bool) \<Rightarrow> (mach_port_t \<Rightarrow> bool) \<Rightarrow> bool \<Rightarrow> mach_port_t mach_msg_header \<Rightarrow> space_id \<Rightarrow> mach_port_t \<Rightarrow>
     ipc_kernel \<Rightarrow> ((mach_msg_return_t + ipc_object mach_msg_header) \<times> ipc_kernel) option" where
  "ipc_kmsg_copyin_header in_table collides lock_try msg space notify K =
     (let mbits = msgh_bits msg AND NOT (MACH_MSGH_BITS_CIRCULAR OR MACH_MSGH_BITS_OLD_FORMAT);
          dest_name = msgh_remote_port msg;
          reply_name = msgh_local_port msg
      in case (if notify = MACH_PORT_NULL
               then copyin_header_common in_table collides lock_try space dest_name reply_name mbits K else None) of
           Some (hdr, K) \<Rightarrow> Some (Inr hdr, K)
         | None \<Rightarrow> copyin_header_general space notify dest_name reply_name mbits K)"

section \<open>The common cases and the general case\<close>

text \<open>No name that is not valid has an entry.\<close>

definition valid_names :: "ipc_kernel \<Rightarrow> space_id \<Rightarrow> bool" where
  "valid_names K s \<longleftrightarrow> entries K s MACH_PORT_NULL = None \<and> entries K s MACH_PORT_DEAD = None"

lemma valid_namesD: "valid_names K s \<Longrightarrow> entries K s n = Some e \<Longrightarrow> MACH_PORT_VALID n \<and> n \<noteq> MACH_PORT_NULL"
  by (auto simp: valid_names_def MACH_PORT_VALID_def)

text \<open>What a type bit says of a well-formed entry.\<close>

lemma send_bit:
  assumes "entry_ok e" and "test (ie_bits e) MACH_PORT_TYPE_SEND"
  shows "\<not> test (ie_bits e) MACH_PORT_TYPE_DEAD_NAME" "test (ie_bits e) MACH_PORT_TYPE_SEND_RIGHTS"
    "\<exists>p. ie_object e = IO_PORT p"
  using assms by (cases e rule: entry_ok_cases; simp add: type_tests)+

lemma receive_bit:
  assumes "entry_ok e" and "test (ie_bits e) MACH_PORT_TYPE_RECEIVE"
  shows "\<exists>p. ie_object e = IO_PORT p"
  using assms by (cases e rule: entry_ok_cases; simp add: type_tests)+

lemma send_once_bit:
  assumes "entry_ok e" and "test (ie_bits e) MACH_PORT_TYPE_SEND_ONCE"
  shows "\<not> test (ie_bits e) MACH_PORT_TYPE_DEAD_NAME" "test (ie_bits e) MACH_PORT_TYPE_SEND_RIGHTS"
    "IE_BITS_TYPE (ie_bits e) = MACH_PORT_TYPE_SEND_ONCE" "\<exists>p. ie_object e = IO_PORT p"
  using assms by (cases e rule: entry_ok_cases; simp add: type_tests)+

lemma clear_send_once:
  assumes "IE_BITS_TYPE b = MACH_PORT_TYPE_SEND_ONCE"
  shows "IE_BITS_TYPE (b AND NOT MACH_PORT_TYPE_SEND_ONCE) = MACH_PORT_TYPE_NONE"
proof -
  have "IE_BITS_TYPE (b AND NOT MACH_PORT_TYPE_SEND_ONCE) = IE_BITS_TYPE b AND NOT MACH_PORT_TYPE_SEND_ONCE"
    by (simp add: IE_BITS_TYPE_def ac_simps)
  then show ?thesis unfolding assms by (simp add: type_defs)
qed

lemma fast_lookupD:
  assumes "fast_lookup in_table s n t K = Some e"
  shows "entries K s n = Some e" "test (ie_bits e) t" "is_active (k_spaces K s)"
  using assms by (auto simp: fast_lookup_def split: if_splits option.splits)

lemma entry_portD: "entry_port e = Some p \<longleftrightarrow> ie_object e = IO_PORT p"
  by (simp add: entry_port_def split: ipc_object.splits)

lemma keep_entry:
  assumes "entries K s n = Some e" and "entry_ok e"
  shows "dealloc_if_none s n K = K"
  using assms entry_ok_type [of e] by (simp add: dealloc_if_none_def)

text \<open>The ways to take a right that the common cases use, on live ports.\<close>

lemma copy_send_live:
  assumes "entry_ok e" "test (ie_bits e) MACH_PORT_TYPE_SEND" "ie_object e = IO_PORT p" "ip_active (k_ports K p)"
  shows "ipc_right_copyin s n e MACH_MSG_TYPE_COPY_SEND deadok K =
    Some (Inr (IO_PORT p, None), ip_reference p (upd_port p (ip_srights_update (\<lambda>n. n + 1)) K))"
  using assms send_bit [OF assms(1,2)] by (simp add: copyin_copy_send_def Let_def entry_port_def)

lemma make_send_once_receive:
  assumes "test (ie_bits e) MACH_PORT_TYPE_RECEIVE" "ie_object e = IO_PORT p"
  shows "ipc_right_copyin s n e MACH_MSG_TYPE_MAKE_SEND_ONCE deadok K =
    Some (Inr (IO_PORT p, None), ip_reference p (upd_port p (ip_sorights_update (\<lambda>n. n + 1)) K))"
    "ipc_right_copyin_check e MACH_MSG_TYPE_MAKE_SEND_ONCE K = Some True"
  using assms by (simp_all add: copyin_make_send_once_def ipc_right_copyin_check_def entry_port_def Let_def)

lemma async_general:
  assumes wf: "kernel_wf K" and v: "valid_names K s" and bits: "MACH_MSGH_BITS_REMOTE b = 19" "MACH_MSGH_BITS_LOCAL b = 0"
    and c: "copyin_header_async in_table s dn rn b K = Some (hdr, K')"
  shows "copyin_header_general s MACH_PORT_NULL dn rn b K = Some (Inr hdr, K')"
proof -
  obtain e p where e: "fast_lookup in_table s dn MACH_PORT_TYPE_SEND K = Some e" and p: "ie_object e = IO_PORT p"
    and a: "ip_active (k_ports K p)" and rn: "rn = MACH_PORT_NULL"
    using c by (auto simp: copyin_header_async_def entry_portD split: if_splits bind_splits)
  note E = fast_lookupD [OF e]
  have ok: "entry_ok e" by (rule kernel_wfD(1) [OF wf E(1)])
  have n: "dn \<noteq> MACH_PORT_NULL" using valid_namesD [OF v E(1)] by simp
  let ?K = "ip_reference p (upd_port p (ip_srights_update (\<lambda>n. n + 1)) K)"
  have "dealloc_if_none s dn ?K = ?K" by (rule keep_entry [OF _ ok]) (simp add: E(1))
  moreover note copy_send_live [OF ok E(2) p a]
  ultimately show ?thesis
    using c e p a rn n E bits
    by (simp add: copyin_header_async_def copyin_header_general_def MACH_MSG_TYPE_PORT_ANY_SEND_def notify_lookup_def
        copyin_header_rights_def copyin_header_dest_def copyin_type_of_def header_notify_def send_port_deleted_def
        reply_number_def entry_port_def MACH_PORT_VALID_def)
qed

lemma reply_general:
  assumes wf: "kernel_wf K" and v: "valid_names K s" and bits: "MACH_MSGH_BITS_REMOTE b = 18" "MACH_MSGH_BITS_LOCAL b = 0"
    and c: "copyin_header_reply in_table collides s dn rn b K = Some (hdr, K')"
  shows "copyin_header_general s MACH_PORT_NULL dn rn b K = Some (Inr hdr, K')"
proof -
  obtain e p where e: "fast_lookup in_table s dn MACH_PORT_TYPE_SEND_ONCE K = Some e" and p: "ie_object e = IO_PORT p"
    and a: "ip_active (k_ports K p)" and rn: "rn = MACH_PORT_NULL" and q: "ie_request e = 0" and col: "\<not> collides dn"
    using c by (auto simp: copyin_header_reply_def entry_portD split: if_splits bind_splits)
  note E = fast_lookupD [OF e]
  have ok: "entry_ok e" by (rule kernel_wfD(1) [OF wf E(1)])
  have n: "dn \<noteq> MACH_PORT_NULL" using valid_namesD [OF v E(1)] by simp
  let ?e = "e\<lparr>ie_object := IO_NULL, ie_bits := ie_bits e AND NOT MACH_PORT_TYPE_SEND_ONCE\<rparr>"
  have t: "IE_BITS_TYPE (ie_bits ?e) = MACH_PORT_TYPE_NONE"
    using send_once_bit(3) [OF ok E(2)] by (simp add: clear_send_once)
  have "dealloc_if_none s dn (set_entry s dn ?e K) = entry_dealloc s dn (set_entry s dn ?e K)"
    using t by (simp add: dealloc_if_none_def)
  also have "\<dots> = entry_dealloc s dn K" by (simp add: upd_defs entry_dealloc_def set_entry_def comp_def)
  finally have d: "dealloc_if_none s dn (set_entry s dn ?e K) = entry_dealloc s dn K" .
  have "ipc_right_copyin s dn e MACH_MSG_TYPE_MOVE_SEND_ONCE False K = Some (Inr (IO_PORT p, None), set_entry s dn ?e K)"
    using E p a q send_once_bit [OF ok E(2)]
    by (simp add: copyin_move_send_once_def entry_port_def Let_def ipc_right_dncancel_macro_def)
  then show ?thesis
    using c e p a rn n q col E bits d
    by (simp add: copyin_header_reply_def copyin_header_general_def MACH_MSG_TYPE_PORT_ANY_SEND_def notify_lookup_def
        copyin_header_rights_def copyin_header_dest_def copyin_type_of_def header_notify_def send_port_deleted_def
        reply_number_def entry_port_def MACH_PORT_VALID_def)
qed

lemma request_general:
  assumes wf: "kernel_wf K" and v: "valid_names K s" and bits: "MACH_MSGH_BITS_REMOTE b = 19" "MACH_MSGH_BITS_LOCAL b = 21"
    and c: "copyin_header_request in_table lock_try s dn rn b K = Some (hdr, K')"
  shows "copyin_header_general s MACH_PORT_NULL dn rn b K = Some (Inr hdr, K')"
proof -
  obtain e p f q where e: "fast_lookup in_table s dn MACH_PORT_TYPE_SEND K = Some e" and p: "ie_object e = IO_PORT p"
    and f: "fast_lookup in_table s rn MACH_PORT_TYPE_RECEIVE K = Some f" and q: "ie_object f = IO_PORT q"
    and a: "ip_active (k_ports K p)" and l: lock_try
    using c by (auto simp: copyin_header_request_def entry_portD split: if_splits bind_splits)
  note E = fast_lookupD [OF e] and F = fast_lookupD [OF f]
  have ok: "entry_ok e" "entry_ok f" by (rule kernel_wfD(1) [OF wf E(1)], rule kernel_wfD(1) [OF wf F(1)])
  have n: "MACH_PORT_VALID rn" using valid_namesD [OF v F(1)] by simp
  define K1 where "K1 = ip_reference p (upd_port p (ip_srights_update (\<lambda>n. n + 1)) K)"
  define K2 where "K2 = (\<lambda>K. ip_reference q (upd_port q (ip_sorights_update (\<lambda>n. n + 1)) K))"
  have ents: "entries K1 = entries K" "entries (K2 L) = entries L" for L by (simp_all add: K1_def K2_def)
  have cd: "ipc_right_copyin s dn e MACH_MSG_TYPE_COPY_SEND False K = Some (Inr (IO_PORT p, None), K1)"
    unfolding K1_def by (rule copy_send_live [OF ok(1) E(2) p a])
  have cr: "ipc_right_copyin s rn f MACH_MSG_TYPE_MAKE_SEND_ONCE True L = Some (Inr (IO_PORT q, None), K2 L)"
    "ipc_right_copyin_check f MACH_MSG_TYPE_MAKE_SEND_ONCE L = Some True" for L
    unfolding K2_def by (rule make_send_once_receive [OF F(2) q])+
  have R: "copyin_header_rights s dn rn MACH_MSG_TYPE_COPY_SEND (Some MACH_MSG_TYPE_MAKE_SEND_ONCE) K =
      Some (Inr (IO_PORT p, None, IO_PORT q, None), K2 K1)"
  proof (cases "dn = rn")
    case True
    then have "e = f" using E(1) F(1) by simp
    then show ?thesis using True E(1) cd cr
      by (simp add: copyin_header_rights_def copyin_header_same_def copyin_make_def ents)
  next
    case False
    have d: "dealloc_if_none s m (K2 (ip_reference q K1)) = K2 (ip_reference q K1)" if "m = dn \<or> m = rn" for m
      by (rule keep_entry [where e = "if m = dn then e else f"]) (use that E(1) F(1) ok in \<open>auto simp: ents\<close>)
    have drop: "ip_release q (K2 (ip_reference q L)) = K2 L" for L
      by (simp add: K2_def ip_release_def ip_reference_def upd_port_def comp_def)
    show ?thesis using False E(1) F(1) cd cr n q
      by (simp add: copyin_header_rights_def copyin_header_both_def copyin_reply_def ents d drop entry_port_def)
  qed
  have c': "hdr = \<lparr>msgh_bits = MACH_MSGH_BITS_OTHER b OR MACH_MSGH_BITS 17 18,
                   msgh_remote_port = IO_PORT p, msgh_local_port = IO_PORT q\<rparr>" "K' = K2 K1"
    using c e p f q a l by (auto simp: copyin_header_request_def entry_port_def K1_def K2_def)
  show ?thesis
    using R E(3) bits
    by (simp add: c' copyin_header_general_def MACH_MSG_TYPE_PORT_ANY_SEND_def notify_lookup_def copyin_type_of_def
        header_notify_def send_port_deleted_def reply_number_def)
qed

lemma header_common_general:
  assumes "kernel_wf K" and "valid_names K s"
  shows "ipc_kmsg_copyin_header in_table collides lock_try msg s notify K =
    copyin_header_general s notify (msgh_remote_port msg) (msgh_local_port msg)
      (msgh_bits msg AND NOT (MACH_MSGH_BITS_CIRCULAR OR MACH_MSGH_BITS_OLD_FORMAT)) K"
proof -
  define b where "b = msgh_bits msg AND NOT (MACH_MSGH_BITS_CIRCULAR OR MACH_MSGH_BITS_OLD_FORMAT)"
  have "copyin_header_general s MACH_PORT_NULL (msgh_remote_port msg) (msgh_local_port msg) b K = Some (Inr hdr, K')"
    if "copyin_header_common in_table collides lock_try s (msgh_remote_port msg) (msgh_local_port msg) b K = Some (hdr, K')"
    for hdr K'
    using that async_general [OF assms] request_general [OF assms] reply_general [OF assms]
    by (auto simp: copyin_header_common_def ports_bits split: if_splits)
  then show ?thesis
    unfolding ipc_kmsg_copyin_header_def Let_def b_def [symmetric] by (auto split: option.splits)
qed
text \<open>
  C4: the optimised code at the start of \<^verbatim>\<open>ipc_kmsg_copyin_header\<close> is only an optimisation. In a
  well-formed state, whichever names are found in the table and whether or not the lock of the reply port is
  free, the routine gives exactly the result, the header and the state that its general part alone gives.
\<close>

theorem copyin_header_common_general:
  assumes "kernel_wf K" and "valid_names K s"
  shows "ipc_kmsg_copyin_header in_table collides lock_try msg s notify K =
    copyin_header_general s notify (msgh_remote_port msg) (msgh_local_port msg)
      (msgh_bits msg AND NOT (MACH_MSGH_BITS_CIRCULAR OR MACH_MSGH_BITS_OLD_FORMAT)) K"
  by (rule header_common_general [OF assms])

text \<open>A space with one receive right and send rights for it: the state of a task that talks to itself.\<close>

lemma send_receive_wf:
  assumes "IE_BITS_TYPE (ie_bits e) = MACH_PORT_TYPE_SEND_RECEIVE" "entry_ok e" "ie_object e = IO_PORT p"
  shows "kernel_wf (set_entry s n e (upd_port p (\<lambda>x. x\<lparr>ip_data := Ip_Receiver s, ip_receiver_name := n\<rparr>) kernel0))"
    (is "kernel_wf ?K")
proof -
  have E: "entries ?K = (\<lambda>_ _. None)(s := [n \<mapsto> e])" by (simp add: fun_eq_iff)
  have h: "k_hash ?K s' q = None" for s' q by (simp add: state0_defs)
  have r: "receiver (k_ports ?K q) = (True, if q = p then Ip_Receiver s else Ip_Null, if q = p then n else MACH_PORT_NULL)" for q
    by (simp add: receiver_def) (simp add: state0_defs)
  have "\<not> send_at ?K s' m q" for s' m q using assms(1) by (simp add: send_at_def E)
  moreover have "receive_at ?K s' m q \<longleftrightarrow> s' = s \<and> m = n \<and> q = p" for s' m q
    using assms by (auto simp: receive_at_def E send_receive_tests)
  ultimately have "port_wf ?K q" for q unfolding port_wf_def h r by auto
  moreover have "entry_ok x" if "entries ?K s' m = Some x" for s' m x using that assms(2) by (auto simp: E split: if_splits)
  ultimately show ?thesis by (simp add: kernel_wf_def)
qed

text \<open>A request to the own port, with a reply to the same port: the common case applies.\<close>

theorem copyin_header_common_general_witness:
  "let e = \<lparr>ie_bits = 0x00030002, ie_object = IO_PORT 2, ie_request = 0\<rparr>;
       K = set_entry 3 0x500 e (upd_port 2 (\<lambda>x. x\<lparr>ip_data := Ip_Receiver 3, ip_receiver_name := 0x500\<rparr>) kernel0);
       msg = \<lparr>msgh_bits = MACH_MSGH_BITS 19 21, msgh_remote_port = 0x500, msgh_local_port = 0x500\<rparr>
   in \<exists>K'. copyin_header_general 3 MACH_PORT_NULL 0x500 0x500 (MACH_MSGH_BITS 19 21) K =
        Some (Inr \<lparr>msgh_bits = MACH_MSGH_BITS 17 18, msgh_remote_port = IO_PORT 2, msgh_local_port = IO_PORT 2\<rparr>, K') \<and>
        ipc_kmsg_copyin_header (\<lambda>_. True) (\<lambda>_. False) True msg 3 MACH_PORT_NULL K =
          copyin_header_general 3 MACH_PORT_NULL 0x500 0x500 (MACH_MSGH_BITS 19 21) K"
proof -
  define e where "e = \<lparr>ie_bits = 0x00030002, ie_object = IO_PORT 2, ie_request = 0\<rparr>"
  define K where "K = set_entry 3 0x500 e (upd_port 2 (\<lambda>x. x\<lparr>ip_data := Ip_Receiver 3, ip_receiver_name := 0x500\<rparr>) kernel0)"
  define msg where "msg = \<lparr>msgh_bits = MACH_MSGH_BITS 19 21, msgh_remote_port = 0x500 :: mach_port_t, msgh_local_port = 0x500\<rparr>"
  have t: "IE_BITS_TYPE (ie_bits e) = MACH_PORT_TYPE_SEND_RECEIVE" by (simp add: e_def bits_defs)
  have p: "ie_object e = IO_PORT 2" by (simp add: e_def)
  have ok: "entry_ok e" by (simp add: e_def entry_ok_def entry_port_def bits_defs)
  have wf: "kernel_wf K" unfolding K_def by (rule send_receive_wf [OF t ok p])
  have E: "entries K 3 0x500 = Some e" "entries K 3 m = (if m = 0x500 then Some e else None)" for m
    by (simp_all add: K_def)
  have v: "valid_names K 3" by (simp add: valid_names_def E(2) MACH_PORT_NULL_def MACH_PORT_DEAD_def)
  have a: "is_active (k_spaces K 3)" "ip_active (k_ports K 2)" by (simp_all add: K_def) (simp_all add: state0_defs)
  have b: "MACH_MSGH_BITS 19 21 AND NOT MACH_MSGH_BITS_CIRCULAR AND NOT MACH_MSGH_BITS_OLD_FORMAT = MACH_MSGH_BITS 19 21"
    "MACH_MSGH_BITS_PORTS (MACH_MSGH_BITS 19 21) = MACH_MSGH_BITS 19 21" "MACH_MSGH_BITS 19 21 \<noteq> MACH_MSGH_BITS 19 0"
    "MACH_MSGH_BITS_OTHER (MACH_MSGH_BITS 19 21) = 0"
    by (simp_all add: msgh_defs)
  have "\<exists>K'. ipc_kmsg_copyin_header (\<lambda>_. True) (\<lambda>_. False) True msg 3 MACH_PORT_NULL K =
      Some (Inr \<lparr>msgh_bits = MACH_MSGH_BITS 17 18, msgh_remote_port = IO_PORT 2, msgh_local_port = IO_PORT 2\<rparr>, K')"
    by (simp add: ipc_kmsg_copyin_header_def msg_def b copyin_header_common_def copyin_header_request_def fast_lookup_def a E(1)
        send_receive_tests [OF t] entry_port_def p)
  moreover have "ipc_kmsg_copyin_header (\<lambda>_. True) (\<lambda>_. False) True msg 3 MACH_PORT_NULL K =
      copyin_header_general 3 MACH_PORT_NULL 0x500 0x500 (MACH_MSGH_BITS 19 21) K"
    using copyin_header_common_general [OF wf v, of "\<lambda>_. True" "\<lambda>_. False" True msg MACH_PORT_NULL] by (simp add: msg_def b)
  ultimately show ?thesis unfolding Let_def e_def [symmetric] K_def [symmetric] msg_def [symmetric] by simp
qed

end
