(* ===== verification/Header_Outcome.thy ===== *)
theory Header_Outcome
  imports Kmsg_Header
begin

text \<open>
  What \<^verbatim>\<open>ipc_kmsg_copyin_header\<close> gives: it always returns, and either takes two rights of the right kinds
  or leaves everything as it was.
\<close>

section \<open>Copyin of one right keeps the others usable\<close>

definition others_kept :: "ipc_kernel \<Rightarrow> ipc_kernel \<Rightarrow> space_id \<Rightarrow> mach_port_t \<Rightarrow> bool" where
  "others_kept K K' s n \<longleftrightarrow>
     (\<forall>q. ip_active (k_ports K' q) = ip_active (k_ports K q)) \<and>
     (\<forall>m e. m \<noteq> n \<longrightarrow> entries K' s m = entries K s m \<and>
        (request_ok K s m e \<longrightarrow> request_ok K' s m e) \<and> (marequest_ok K s m e \<longrightarrow> marequest_ok K' s m e))"

lemma others_refl: "others_kept K K s n"
  by (simp add: others_kept_def)

lemma others_trans [trans]: "others_kept K K1 s n \<Longrightarrow> others_kept K1 K2 s n \<Longrightarrow> others_kept K K2 s n"
  unfolding others_kept_def by auto

lemma others_right_ok:
  assumes "others_kept K K' s n" and "right_ok K s m e" and "m \<noteq> n"
  shows "right_ok K' s m e"
  using assms by (auto simp: others_kept_def right_ok_def)

lemma others_same:
  assumes "\<And>m. m \<noteq> n \<Longrightarrow> entries K' s m = entries K s m"
    and "\<And>q. ip_active (k_ports K' q) = ip_active (k_ports K q)"
    and "\<And>q. ip_dnrequests (k_ports K' q) = ip_dnrequests (k_ports K q)" and "k_dn_sizes K' = k_dn_sizes K"
    and "\<And>m. imar_find s m K' = imar_find s m K"
  shows "others_kept K K' s n"
  using assms request_ok_cong [OF assms(4,2,3)] by (simp add: others_kept_def marequest_ok_def)

lemma others_upd:
  "(\<And>x. ip_active (f x) = ip_active x) \<Longrightarrow> (\<And>x. ip_dnrequests (f x) = ip_dnrequests x) \<Longrightarrow> others_kept K (upd_port p f K) s n"
  by (rule others_same) (auto simp: upd_port_def entries_def imar_find_def)

lemma others_step:
  "others_kept K (set_entry s n e K) s n"
  "others_kept K (entry_dealloc s n K) s n"
  "others_kept K (ipc_hash_delete s p n' K) s n"
  "others_kept K (ip_reference p K) s n"
  "others_kept K (ip_release p K) s n"
  by (rule others_same;
      simp add: upd_defs entries_def ipc_hash_delete_def ip_reference_def ip_release_def entry_dealloc_def imar_find_def)+

lemma others_dealloc: "others_kept K (dealloc_if_none s n K) s n"
  by (simp add: dealloc_if_none_def others_step others_refl split: option.split)

lemma others_dncancel:
  assumes ok: "right_ok K s n e" and p: "ie_object e = IO_PORT p" and a: "ip_active (k_ports K p)"
    and c: "ipc_right_dncancel_macro s p n e K = Some (d, e', K')"
  shows "others_kept K K' s n"
proof (cases "ie_request e = 0")
  case True
  then show ?thesis using c others_refl by (auto simp: ipc_right_dncancel_macro_def)
next
  case False
  then obtain r where r: "port_dn_ok K p" "port_requests K p (ie_request e) = Some r" "ipr_name r = n"
    using right_okD(3) [OF ok] p a by (auto simp: request_ok_def entry_port_def)
  from dncancel_spec [OF r(1,2)] obtain K1 where K1:
    "ipc_port_dncancel p n (ie_request e) K = Some (ipr_notify r, K1)" "port_dn_ok K1 p"
    "port_requests K1 p = (port_requests K p)(ie_request e := None)"
    "K1 = upd_port p (ip_dnrequests_update (\<lambda>_. ip_dnrequests (k_ports K1 p))) K" by blast
  define t where "t = ip_dnrequests (k_ports K1 p)"
  have K1': "K1 = upd_port p (ip_dnrequests_update (\<lambda>_. t)) K" using K1(4) by (simp add: t_def)
  have "request_ok K1 s m f" if "m \<noteq> n" "request_ok K s m f" for m f
  proof (cases "entry_port f = Some p")
    case True
    then show ?thesis using that r K1(2,3) a by (auto simp: request_ok_def K1')
  next
    case False
    have "port_dn_ok K1 q = port_dn_ok K q \<and> port_requests K1 q = port_requests K q" if "q \<noteq> p" for q
      using that by (simp add: port_dn_ok_def port_requests_def K1' upd_port_def split: option.split)
    moreover have "ip_active (k_ports K1 q) = ip_active (k_ports K q)" for q by (simp add: K1' upd_port_def)
    ultimately show ?thesis using that(2) False by (cases "entry_port f") (auto simp: request_ok_def)
  qed
  then have 1: "others_kept K K1 s n"
    by (simp add: others_kept_def K1' upd_port_def entries_def marequest_ok_def imar_find_def)
  have "K' = set_entry s n e' K1 \<or> K' = is_release s (set_entry s n e' K1)"
    using c False K1(1)
    by (auto simp: ipc_right_dncancel_macro_def ipc_right_dncancel_def Let_def split: if_splits ipr_notify.splits)
  moreover have "others_kept L (is_release s L) s n" for L
    by (rule others_same) (simp_all add: is_release_def upd_space_def entries_def imar_find_def)
  ultimately show ?thesis using others_trans [OF 1] others_step(1) others_trans by metis
qed

lemma others_marequest:
  assumes c: "marequest_cancel_if b s n K = Some K'"
  shows "others_kept K K' s n"
proof (cases "test b IE_BITS_MAREQUEST")
  case True
  then obtain i where i: "imar_find s n K = Some i"
    "K' = upd_imar i (imar_name_update (\<lambda>_. MACH_PORT_NULL)) (imar_unlink s n i K)"
    using c by (auto simp: marequest_cancel_if_def ipc_marequest_cancel_def split: bind_splits)
  have n: "imar_name (k_imar K i) = n" using i(1) by (auto simp: imar_find_def find_Some_iff)
  have "imar_find s m K' \<noteq> None" if m: "m \<noteq> n" and found: "imar_find s m K \<noteq> None" for m
  proof -
    define P where "P = (\<lambda>(L :: ipc_kernel) j. imar_space (k_imar L j) = s \<and> imar_name (k_imar L j) = m)"
    define h where "h = IMAR_HASH (k_imar_mask K) s m"
    obtain j where j: "P K j" "j \<in> set (k_imarb K h)"
      using found unfolding imar_find_def find_None_iff P_def h_def by auto
    have "j \<noteq> i" using j(1) n m by (auto simp: P_def)
    then have "P K' j" "j \<in> set (k_imarb K' h)" using j
      by (simp_all add: P_def i(2) upd_imar_def imar_unlink_def Let_def) auto
    moreover have "IMAR_HASH (k_imar_mask K') s m = h" by (simp add: h_def i(2) upd_imar_def imar_unlink_def Let_def)
    ultimately show ?thesis unfolding imar_find_def find_None_iff P_def by auto
  qed
  moreover have "request_ok K' s m e = request_ok K s m e" for m e
    by (rule request_ok_cong) (simp_all add: i(2) upd_imar_def imar_unlink_def Let_def)
  ultimately show ?thesis
    by (auto simp: others_kept_def marequest_ok_def i(2) upd_imar_def imar_unlink_def entries_def Let_def)
qed (use c others_refl in \<open>auto simp: marequest_cancel_if_def\<close>)

section \<open>Taking a right that must be alive\<close>

text \<open>A copyin that does not accept dead rights and succeeds gives the live port of the entry.\<close>

lemma copyin_live:
  assumes ok: "right_ok K s n e" and c: "ipc_right_copyin s n e t False K = Some (Inr (obj, d), K')"
  shows "\<exists>p. obj = IO_PORT p \<and> ie_object e = IO_PORT p \<and> ip_active (k_ports K p)"
  using right_okD(1) [OF ok]
proof (cases e rule: entry_ok_cases)
  case dead_name
  then show ?thesis using c by (cases t) (auto simp: copyin_defs dead_name_tests)
next
  case (port_set q)
  then show ?thesis using c by (cases t) (auto simp: copyin_defs port_set_tests)
next
  case (receive p)
  then show ?thesis using c right_okD(5) [OF ok receive_tests(2) [OF receive(1)] receive(2)]
    by (cases t) (auto simp: copyin_defs receive_tests entry_port_def Let_def intro!: exI [of _ p] split: bind_splits)
next
  case (send_receive p)
  then show ?thesis using c right_okD(5) [OF ok send_receive_tests(2) [OF send_receive(1)] send_receive(2)]
    by (cases t) (auto simp: copyin_defs send_receive_tests entry_port_def Let_def intro!: exI [of _ p] split: bind_splits if_splits)
next
  case (send p)
  show ?thesis
  proof (cases "ip_active (k_ports K p)")
    case True
    then show ?thesis using c send
      by (cases t) (auto simp: copyin_defs send_tests entry_port_def Let_def intro!: exI [of _ p] split: bind_splits if_splits)
  next
    case False
    from check_dead_books [OF False right_okD(4) [OF ok]]
    obtain e' K1 where "ipc_right_check s p n e K = Some (True, e', K1)" by metis
    then show ?thesis using c send
      by (cases t) (auto simp: copyin_defs send_tests entry_port_def Let_def split: if_splits)
  qed
next
  case (send_once p)
  show ?thesis
  proof (cases "ip_active (k_ports K p)")
    case True
    then show ?thesis using c send_once
      by (cases t) (auto simp: copyin_defs send_once_tests entry_port_def Let_def intro!: exI [of _ p] split: bind_splits if_splits)
  next
    case False
    from check_dead_books [OF False right_okD(4) [OF ok]]
    obtain e' K1 where "ipc_right_check s p n e K = Some (True, e', K1)" by metis
    then show ?thesis using c send_once
      by (cases t) (auto simp: copyin_defs send_once_tests entry_port_def Let_def split: if_splits)
  qed
qed

text \<open>If it fails while the port is alive, nothing has changed.\<close>

lemma copyin_failed:
  assumes ok: "entry_ok e" and c: "ipc_right_copyin s n e t False K = Some (Inl kr, K')"
    and live: "\<And>p. ie_object e = IO_PORT p \<Longrightarrow> ip_active (k_ports K p)"
  shows "K' = K"
  using ok
proof (cases e rule: entry_ok_cases)
  case dead_name
  then show ?thesis using c by (cases t) (auto simp: copyin_defs dead_name_tests)
next
  case (port_set q)
  then show ?thesis using c by (cases t) (auto simp: copyin_defs port_set_tests)
next
  case (receive p)
  then show ?thesis using c live
    by (cases t) (auto simp: copyin_defs receive_tests entry_port_def Let_def split: bind_splits)
next
  case (send_receive p)
  then show ?thesis using c live
    by (cases t) (auto simp: copyin_defs send_receive_tests entry_port_def Let_def split: bind_splits if_splits)
next
  case (send p)
  then show ?thesis using c live
    by (cases t) (auto simp: copyin_defs send_tests entry_port_def Let_def split: bind_splits if_splits)
next
  case (send_once p)
  then show ?thesis using c live
    by (cases t) (auto simp: copyin_defs send_once_tests entry_port_def Let_def split: bind_splits if_splits)
qed

lemma copyin_kept:
  assumes ok: "right_ok K s n e" and t: "t \<noteq> MACH_MSG_TYPE_MOVE_RECEIVE"
    and c: "ipc_right_copyin s n e t False K = Some (Inr (obj, d), K')"
  shows "others_kept K K' s n \<and> entries K' s n \<noteq> None"
proof -
  obtain p where p: "obj = IO_PORT p" "ie_object e = IO_PORT p" and a: "ip_active (k_ports K p)"
    using copyin_live [OF ok c] by blast
  have E: "entries K s n = Some e" by (rule right_okD(2) [OF ok])
  note [simp] = entry_port_def p(2) a E Let_def
  show ?thesis
  proof (cases t)
    case MACH_MSG_TYPE_MAKE_SEND
    then have "K' = ip_reference p (upd_port p (ip_srights_update (\<lambda>n. n + 1)) (upd_port p (ip_mscount_update (\<lambda>n. n + 1)) K))"
      using c by (auto simp: copyin_make_send_def split: if_splits)
    then show ?thesis by (auto intro!: others_trans [OF others_upd others_trans [OF others_upd others_step(4)]])
  next
    case MACH_MSG_TYPE_MAKE_SEND_ONCE
    then have "K' = ip_reference p (upd_port p (ip_sorights_update (\<lambda>n. n + 1)) K)"
      using c by (auto simp: copyin_make_send_once_def split: if_splits)
    then show ?thesis by (auto intro!: others_trans [OF others_upd others_step(4)])
  next
    case MACH_MSG_TYPE_COPY_SEND
    then have "K' = ip_reference p (upd_port p (ip_srights_update (\<lambda>n. n + 1)) K)"
      using c by (auto simp: copyin_copy_send_def copy_dead_def split: if_splits)
    then show ?thesis by (auto intro!: others_trans [OF others_upd others_step(4)])
  next
    case MACH_MSG_TYPE_MOVE_SEND_ONCE
    then obtain d' e1 K1 where "ipc_right_dncancel_macro s p n e K = Some (d', e1, K1)"
      "K' = set_entry s n (e1\<lparr>ie_object := IO_NULL, ie_bits := ie_bits e AND NOT MACH_PORT_TYPE_SEND_ONCE\<rparr>) K1"
      using c by (auto simp: copyin_move_send_once_def move_dead_def split: if_splits bind_splits)
    then show ?thesis using others_dncancel [OF ok p(2) a] others_trans others_step(1) by fastforce
  next
    case MACH_MSG_TYPE_MOVE_SEND
    note c' = c [unfolded MACH_MSG_TYPE_MOVE_SEND ipc_right_copyin.simps copyin_move_send_def move_dead_def]
    consider (count) x where "K' = set_entry s n x (ip_reference p (upd_port p (ip_srights_update (\<lambda>n. n + 1)) K))"
      | (keep) x where "K' = set_entry s n x (ip_reference p K)"
      | (last) x d' e1 K1 L where "ipc_right_dncancel_macro s p n e K = Some (d', e1, K1)"
          "marequest_cancel_if (ie_bits e) s n (ipc_hash_delete s p n K1) = Some L" "K' = set_entry s n x L"
      using c' by (cases "IE_BITS_UREFS (ie_bits e) = 1"; cases "test (ie_bits e) MACH_PORT_TYPE_RECEIVE")
        (auto split: if_splits bind_splits)
    then show ?thesis
    proof cases
      case count
      have "others_kept K K' s n"
        unfolding count by (rule others_trans [OF others_upd others_trans [OF others_step(4) others_step(1)]]) simp_all
      then show ?thesis by (simp add: count)
    next
      case keep
      then show ?thesis using others_trans [OF others_step(4) others_step(1)] by simp
    next
      case last
      have "others_kept K K' s n" unfolding last(3)
        by (rule others_trans [OF others_dncancel [OF ok p(2) a last(1)] others_trans [OF others_step(3)
              others_trans [OF others_marequest [OF last(2)] others_step(1)]]])
      then show ?thesis by (simp add: last(3))
    qed
  qed (use t in simp)
qed

text \<open>Whether dead rights are accepted does not matter for returning.\<close>

lemma copyin_returns:
  assumes "right_ok K s n e"
  obtains r K' where "ipc_right_copyin s n e t deadok K = Some (r, K')"
proof -
  have "(ipc_right_copyin s n e t deadok K = None) = (ipc_right_copyin s n e t True K = None)"
    by (cases t) (auto simp: copyin_copy_send_def copyin_move_send_def copyin_move_send_once_def Let_def split: bind_splits)
  moreover have "ipc_right_copyin s n e t True K \<noteq> None" using copyin_decided [OF assms, of t] by auto
  ultimately show thesis using that by (cases "ipc_right_copyin s n e t deadok K") auto
qed

lemma copyin_two_returns:
  assumes ok: "right_ok K s n e"
  obtains r K' where "ipc_right_copyin_two s n e K = Some (r, K')"
    "\<And>obj d. r = Inr (obj, d) \<Longrightarrow> \<exists>p. obj = IO_PORT p \<and> ip_active (k_ports K p)"
    "isl r \<Longrightarrow> (\<And>p. ie_object e = IO_PORT p \<Longrightarrow> ip_active (k_ports K p)) \<Longrightarrow> K' = K"
proof (cases "test (ie_bits e) MACH_PORT_TYPE_SEND \<and> \<not> IE_BITS_UREFS (ie_bits e) < 2")
  case False
  then show thesis using that [of "Inl KERN_INVALID_RIGHT" K] by (auto simp: ipc_right_copyin_two_def Let_def)
next
  case True
  obtain p where p: "ie_object e = IO_PORT p" using send_bit(3) [OF right_okD(1) [OF ok]] True by blast
  note [simp] = entry_port_def p Let_def
  show thesis
  proof (cases "ip_active (k_ports K p)")
    case dead: False
    from check_dead_books [OF dead right_okD(4) [OF ok]]
    obtain e' K1 where "ipc_right_check s p n e K = Some (True, e', K1)" by metis
    then show thesis
      using True dead that [of "Inl (if test (ie_bits e) IE_BITS_COMPAT then KERN_INVALID_NAME else KERN_INVALID_RIGHT)" K1]
      by (auto simp: ipc_right_copyin_two_def)
  next
    case live: True
    obtain d K1 K3 where "ipc_right_dncancel_macro s p n e K = Some (d, e\<lparr>ie_request := 0\<rparr>, K1)"
      "marequest_cancel_if (ie_bits e) s n (ipc_hash_delete s p n K1) = Some K3"
      using cancel_requests [OF ok p live] by metis
    then have "\<exists>x L. ipc_right_copyin_two s n e K = Some (Inr (IO_PORT p, x), L)"
      using True live
      by (cases "IE_BITS_UREFS (ie_bits e) = 2"; cases "test (ie_bits e) MACH_PORT_TYPE_RECEIVE")
         (simp_all add: ipc_right_copyin_two_def)
    then show thesis using live that by (elim exE) auto
  qed
qed

lemma copyin_object:
  assumes "ipc_right_copyin s n e t deadok K = Some (Inr (obj, d), K')"
  shows "obj = IO_DEAD \<or> (\<exists>p. obj = IO_PORT p)"
  using assms by (cases t) (auto simp: copyin_defs Let_def split: if_splits bind_splits)

text \<open>Taking a dead right kills no port.\<close>

lemma copyin_dead_active:
  assumes ok: "right_ok K s n e" and c: "ipc_right_copyin s n e t True K = Some (Inr (IO_DEAD, d), K')"
  shows "ip_active (k_ports K' q) = ip_active (k_ports K q)"
proof -
  have port: "ip_active (k_ports K' q) = ip_active (k_ports K q)"
    if p: "ie_object e = IO_PORT p" and ty: "IE_BITS_TYPE (ie_bits e) = MACH_PORT_TYPE_SEND \<or> IE_BITS_TYPE (ie_bits e) = MACH_PORT_TYPE_SEND_ONCE" for p
  proof (cases "ip_active (k_ports K p)")
    case True
    then show ?thesis using c p ty
      by (cases t) (auto simp: copyin_defs send_tests send_once_tests entry_port_def Let_def split: if_splits bind_splits)
  next
    case False
    from check_dead_books [OF False right_okD(4) [OF ok]]
    obtain e' K1 where "ipc_right_check s p n e K = Some (True, e', K1)" "k_ports K1 = k_ports (ip_release p K)" by metis
    then show ?thesis using c p ty
      by (cases t) (auto simp: copyin_defs send_tests send_once_tests entry_port_def Let_def ip_release_def split: if_splits)
  qed
  show ?thesis using right_okD(1) [OF ok]
  proof (cases e rule: entry_ok_cases)
    case dead_name
    then show ?thesis using c by (cases t) (auto simp: copyin_defs dead_name_tests Let_def)
  next
    case (port_set q)
    then show ?thesis using c by (cases t) (auto simp: copyin_defs port_set_tests)
  next
    case (receive p)
    then show ?thesis using c by (cases t) (auto simp: copyin_defs receive_tests entry_port_def Let_def split: bind_splits)
  next
    case (send_receive p)
    then show ?thesis using c right_okD(5) [OF ok send_receive_tests(2) [OF send_receive(1)] send_receive(2)]
      by (cases t) (auto simp: copyin_defs send_receive_tests entry_port_def Let_def split: if_splits)
  qed (use port in blast)+
qed

section \<open>Two rights\<close>

definition rights_ok :: "ipc_kernel \<Rightarrow> space_id \<Rightarrow> bool" where
  "rights_ok K s \<longleftrightarrow> (\<forall>n e. entries K s n = Some e \<longrightarrow> right_ok K s n e)"

definition live_space :: "ipc_kernel \<Rightarrow> space_id \<Rightarrow> bool" where
  "live_space K s \<longleftrightarrow> (\<forall>n e p. entries K s n = Some e \<and> ie_object e = IO_PORT p \<longrightarrow> ip_active (k_ports K p))"

text \<open>Both rights and no error, or an error and, if no port is dead, no change.\<close>

fun rights_outcome :: "ipc_kernel \<Rightarrow> space_id \<Rightarrow> header_result \<Rightarrow> bool" where
  "rights_outcome K s (Inl mr, K') \<longleftrightarrow>
     mr \<in> {MACH_SEND_INVALID_DEST, MACH_SEND_INVALID_REPLY} \<and> (live_space K s \<longrightarrow> K' = K)"
| "rights_outcome K s (Inr (dp, ds, rp, rs), K') \<longleftrightarrow>
     (\<exists>p. dp = IO_PORT p \<and> ip_active (k_ports K p)) \<and> (\<forall>t. rp \<noteq> IO_PSET t)"

lemma rights_okD: "rights_ok K s \<Longrightarrow> entries K s n = Some e \<Longrightarrow> right_ok K s n e"
  by (simp add: rights_ok_def)

text \<open>A first copyin that fails decides the outcome.\<close>

lemma failed_outcome:
  assumes "rights_ok K s" "entries K s n = Some e" "ipc_right_copyin s n e t False K = Some (Inl kr, K')"
  shows "rights_outcome K s (Inl MACH_SEND_INVALID_DEST, K')"
  using copyin_failed [OF right_okD(1) [OF rights_okD [OF assms(1,2)]] assms(3)] assms(2)
  by (auto simp: live_space_def)

lemma header_dest_outcome:
  assumes "rights_ok K s"
  shows "\<exists>x. copyin_header_dest s dn rn t K = Some x \<and> rights_outcome K s x"
proof (cases "entries K s dn")
  case None
  then show ?thesis by (simp add: copyin_header_dest_def)
next
  case (Some e)
  obtain r K' where c: "ipc_right_copyin s dn e t False K = Some (r, K')" using copyin_returns [OF rights_okD [OF assms Some]] .
  show ?thesis
  proof (cases r)
    case (Inl kr)
    then show ?thesis using Some c failed_outcome [OF assms Some] by (simp add: copyin_header_dest_def)
  next
    case (Inr a)
    obtain obj d where a: "a = (obj, d)" by fastforce
    from copyin_live [OF rights_okD [OF assms Some] c [unfolded Inr a]] show ?thesis
      using Some c Inr a by (auto simp: copyin_header_dest_def cast_name_def)
  qed
qed

lemma check_cong:
  assumes "\<And>q. ip_active (k_ports K' q) = ip_active (k_ports K q)"
  shows "ipc_right_copyin_check e t K' = ipc_right_copyin_check e t K"
  unfolding ipc_right_copyin_check_def assms ..

lemma header_both_outcome:
  assumes ok: "rights_ok K s" and n: "dn \<noteq> rn" and t: "t \<noteq> MACH_MSG_TYPE_MOVE_RECEIVE"
  shows "\<exists>x. copyin_header_both s dn rn t (Some u) K = Some x \<and> rights_outcome K s x"
proof (cases "entries K s dn = None \<or> entries K s rn = None")
  case True
  then show ?thesis by (auto simp: copyin_header_both_def split: option.splits)
next
  case False
  then obtain e f where E: "entries K s dn = Some e" and F: "entries K s rn = Some f" by auto
  note eok = rights_okD [OF ok E] and fok = rights_okD [OF ok F]
  obtain b where b: "ipc_right_copyin_check f u K = Some b" using copyin_decided [OF fok, of u] by auto
  obtain r K1 where c: "ipc_right_copyin s dn e t False K = Some (r, K1)" using copyin_returns [OF eok] .
  show ?thesis
  proof (cases "b \<and> \<not> isl r")
    case no: False
    show ?thesis
    proof (cases b)
      case True
      with no obtain kr where "r = Inl kr" by (auto simp: isl_def)
      then show ?thesis using True E F b c failed_outcome [OF ok E] by (simp add: copyin_header_both_def)
    qed (use E F b in \<open>simp add: copyin_header_both_def\<close>)
  next
    case yes: True
    then obtain obj d where r: "r = Inr (obj, d)" by (cases r) auto
    obtain p where p: "obj = IO_PORT p" and a: "ip_active (k_ports K p)" using copyin_live [OF eok] c r by blast
    have k1: "others_kept K K1 s dn" using copyin_kept [OF eok t] c r by blast
    define K2 where "K2 = (case entry_port f of None \<Rightarrow> K1 | Some q \<Rightarrow> ip_reference q K1)"
    have "others_kept K1 K2 s dn" by (simp add: K2_def others_refl others_step split: option.split)
    with k1 have k2: "others_kept K K2 s dn" by (rule others_trans)
    have rok: "right_ok K2 s rn f" by (rule others_right_ok [OF k2 fok]) (use n in simp)
    have act: "ip_active (k_ports K2 q) = ip_active (k_ports K q)" for q using k2 by (simp add: others_kept_def)
    have F1: "entries K1 s rn = Some f" "entries K2 s rn = Some f"
      using k1 F n right_okD(2) [OF rok] by (auto simp: others_kept_def)
    obtain rp rs K3 where c3: "ipc_right_copyin s rn f u True K2 = Some (Inr (rp, rs), K3)"
    proof -
      obtain r3 K3 where "ipc_right_copyin s rn f u True K2 = Some (r3, K3)" "ipc_right_copyin_check f u K2 = Some (\<not> isl r3)"
        using copyin_decided [OF rok, of u] by blast
      moreover have "ipc_right_copyin_check f u K2 = Some True" using check_cong [OF act] b yes by simp
      ultimately show thesis using that by (cases r3) auto
    qed
    have undo: "\<not> must_undo p q K3" if "rp = IO_DEAD" for q
      using copyin_dead_active [OF rok, of u rs K3 p] c3 that act a by (simp add: must_undo_def)
    let ?K = "(case entry_port f of None \<Rightarrow> (\<lambda>K. K) | Some port \<Rightarrow> ip_release port) (dealloc_if_none s dn (dealloc_if_none s rn K3))"
    have "copyin_reply s dn rn t u (obj, d) (entry_port f) K2 = Some (Inr (obj, d, rp, rs), ?K)"
      using F1(2) c3 p undo by (auto simp: copyin_reply_def Let_def split: option.split)
    then have "copyin_header_both s dn rn t (Some u) K = Some (Inr (obj, d, rp, rs), ?K)"
      using E F b yes c r F1(1) by (simp add: copyin_header_both_def Let_def K2_def)
    then show ?thesis using p a copyin_object [OF c3] by auto
  qed
qed

text \<open>Making a right touches no entry and no request.\<close>

lemma copyin_made_kept:
  assumes "make_type t" and "ipc_right_copyin s n e t deadok K = Some (Inr (obj, d), K')"
  shows "others_kept K K' s m" "entries K' = entries K"
proof -
  obtain p f g where K': "K' = ip_reference p (upd_port p (ip_srights_update f) (upd_port p (ip_mscount_update g) K)) \<or>
      K' = ip_reference p (upd_port p (ip_sorights_update f) K)"
    using assms by (cases t) (auto simp: copyin_make_send_def copyin_make_send_once_def split: if_splits bind_splits)
  then show "others_kept K K' s m"
    by (auto intro!: others_trans [OF others_upd others_trans [OF others_upd others_step(4)]]
        others_trans [OF others_upd others_step(4)])
  show "entries K' = entries K" using K' by auto
qed

text \<open>A receive right that a send right was taken from still is one.\<close>

lemma copyin_send_receive:
  assumes ok: "entry_ok e" and E: "entries K s n = Some e" and r: "test (ie_bits e) MACH_PORT_TYPE_RECEIVE"
    and live: "\<And>p. ie_object e = IO_PORT p \<Longrightarrow> ip_active (k_ports K p)"
    and t: "t = MACH_MSG_TYPE_COPY_SEND \<or> t = MACH_MSG_TYPE_MOVE_SEND"
    and c: "ipc_right_copyin s n e t False K = Some (Inr (obj, d), K')"
  shows "\<exists>e'. entries K' s n = Some e' \<and> test (ie_bits e') MACH_PORT_TYPE_RECEIVE \<and> ie_object e' = ie_object e"
  using ok
proof (cases e rule: entry_ok_cases)
  case (send_receive p)
  note a = live [OF send_receive(2)]
  note [simp] = send_receive_tests [OF send_receive(1)] entry_port_def send_receive(2) a Let_def E
  show ?thesis
  proof (cases "t = MACH_MSG_TYPE_COPY_SEND")
    case True
    then have "K' = ip_reference p (upd_port p (ip_srights_update (\<lambda>n. n + 1)) K)" using c by (auto simp: copyin_copy_send_def)
    then show ?thesis by simp
  next
    case False
    define b where "b = (if IE_BITS_UREFS (ie_bits e) = 1 then ie_bits e AND NOT (IE_BITS_UREFS_MASK OR MACH_PORT_TYPE_SEND) else ie_bits e - 1)"
    have "entries K' s n = Some (e\<lparr>ie_bits := b\<rparr>)"
      using c False t by (auto simp: copyin_move_send_def b_def split: if_splits)
    moreover have "test b MACH_PORT_TYPE_RECEIVE"
    proof (cases "IE_BITS_UREFS (ie_bits e) = 1")
      case True
      have "IE_BITS_TYPE b = MACH_PORT_TYPE_RECEIVE"
        unfolding b_def if_P [OF True] clear_send(1) send_receive(1) type_combinations ..
      then show ?thesis by (rule receive_tests)
    next
      case False
      then have "IE_BITS_TYPE b = MACH_PORT_TYPE_SEND_RECEIVE" using send_receive(1,3) by (simp add: b_def decr_fields)
      then show ?thesis by (rule send_receive_tests)
    qed
    ultimately show ?thesis by simp
  qed
qed (use c t r in \<open>auto simp: copyin_defs type_tests\<close>)

lemma copyin_make_receive:
  assumes "make_type t" and "test (ie_bits e) MACH_PORT_TYPE_RECEIVE" and "ie_object e = IO_PORT p"
  obtains K' where "ipc_right_copyin s n e t deadok K = Some (Inr (IO_PORT p, None), K')"
  using assms by (cases t) (auto simp: copyin_make_send_def copyin_make_send_once_def entry_port_def Let_def)

lemma copyin_make_outcome:
  assumes ok: "rights_ok K s" and E: "entries K s n = Some e" and m: "make_type t \<or> make_type u"
    and t: "t \<noteq> MACH_MSG_TYPE_MOVE_RECEIVE" "t \<noteq> MACH_MSG_TYPE_MOVE_SEND_ONCE"
    and check: "ipc_right_copyin_check e u K = Some True"
  shows "\<exists>x. copyin_make s n e t u K = Some x \<and> rights_outcome K s x"
proof -
  note eok = rights_okD [OF ok E]
  obtain r K1 where c: "ipc_right_copyin s n e t False K = Some (r, K1)" using copyin_returns [OF eok] .
  show ?thesis
  proof (cases r)
    case (Inl kr)
    then show ?thesis using c failed_outcome [OF ok E] by (simp add: copyin_make_def)
  next
    case (Inr x)
    then obtain obj d where c1: "ipc_right_copyin s n e t False K = Some (Inr (obj, d), K1)" using c by (cases x) auto
    obtain p where p: "obj = IO_PORT p" "ie_object e = IO_PORT p" "ip_active (k_ports K p)" using copyin_live [OF eok c1] by blast
    have "\<exists>f rp rs K2. entries K1 s n = Some f \<and> ipc_right_copyin s n f u True K1 = Some (Inr (rp, rs), K2)"
    proof (cases "make_type t")
      case True
      note k = copyin_made_kept [OF True c1]
      have "right_ok K1 s n e" by (rule others_right_ok [OF k(1) [of "n + 1"] eok]) simp
      moreover have "ipc_right_copyin_check e u K1 = Some True"
        using check check_cong [of K1 K e u] k(1) [of n] by (simp add: others_kept_def)
      moreover have "entries K1 s n = Some e" using k(2) E by simp
      ultimately show ?thesis using copyin_decided [of K1 s n e u] by (auto simp: isl_def) (metis sum.exhaust surj_pair)
    next
      case False
      with m have u: "make_type u" by blast
      then have "test (ie_bits e) MACH_PORT_TYPE_RECEIVE" using check by (auto simp: ipc_right_copyin_check_def Let_def split: if_splits)
      moreover have "t = MACH_MSG_TYPE_COPY_SEND \<or> t = MACH_MSG_TYPE_MOVE_SEND" using False t by (cases t) auto
      ultimately obtain f where f: "entries K1 s n = Some f" "test (ie_bits f) MACH_PORT_TYPE_RECEIVE" "ie_object f = IO_PORT p"
        using copyin_send_receive [OF right_okD(1) [OF eok] E _ _ _ c1] p by auto
      obtain K2 where "ipc_right_copyin s n f u True K1 = Some (Inr (IO_PORT p, None), K2)" using copyin_make_receive [OF u f(2,3)] .
      then show ?thesis using f(1) by blast
    qed
    then obtain f rp rs K2 where f: "entries K1 s n = Some f" "ipc_right_copyin s n f u True K1 = Some (Inr (rp, rs), K2)" by blast
    then have "copyin_make s n e t u K = Some (Inr (obj, d, rp, rs), K2)" using c1 by (simp add: copyin_make_def)
    then show ?thesis using p copyin_object [OF f(2)] by auto
  qed
qed

lemma two_sends_outcome:
  assumes ok: "rights_ok K s" and E: "entries K s n = Some e"
  shows "\<exists>x. copyin_two_sends s n e t u K = Some x \<and> rights_outcome K s x"
proof -
  note eok = rights_okD [OF ok E]
  have one: "\<exists>x. do { (r, K) \<leftarrow> ipc_right_copyin s n e v False K; g r K } = Some x \<and> rights_outcome K s x"
    if "\<And>kr K'. g (Inl kr) K' = Some (Inl MACH_SEND_INVALID_DEST, K')"
      "\<And>p d K'. \<exists>ds rp rs K''. g (Inr (IO_PORT p, d)) K' = Some (Inr (IO_PORT p, ds, rp, rs), K'') \<and> (\<forall>t. rp \<noteq> IO_PSET t)" for v g
  proof -
    obtain r K1 where c: "ipc_right_copyin s n e v False K = Some (r, K1)" using copyin_returns [OF eok] .
    show ?thesis
    proof (cases r)
      case (Inl kr)
      then show ?thesis using c failed_outcome [OF ok E] that(1) by simp
    next
      case (Inr x)
      then obtain obj d where c1: "ipc_right_copyin s n e v False K = Some (Inr (obj, d), K1)" using c by (cases x) auto
      obtain p where "obj = IO_PORT p" "ip_active (k_ports K p)" using copyin_live [OF eok c1] by blast
      then show ?thesis using c1 that(2) [of p d K1] by auto
    qed
  qed
  have send: "ipc_port_copy_send (IO_PORT p) K' \<noteq> (IO_PSET q, L)" for p q K' L
    by (auto simp: ipc_port_copy_send_def)
  obtain r K1 where two: "ipc_right_copyin_two s n e K = Some (r, K1)"
    "\<And>obj d. r = Inr (obj, d) \<Longrightarrow> \<exists>p. obj = IO_PORT p \<and> ip_active (k_ports K p)"
    "isl r \<Longrightarrow> (\<And>p. ie_object e = IO_PORT p \<Longrightarrow> ip_active (k_ports K p)) \<Longrightarrow> K1 = K"
    using copyin_two_returns [OF eok] by metis
  show ?thesis
  proof (cases "t = MACH_MSG_TYPE_MOVE_SEND \<and> u = MACH_MSG_TYPE_MOVE_SEND")
    case True
    then show ?thesis using two E by (cases r) (auto simp: copyin_two_sends_def live_space_def)
  next
    case False
    show ?thesis
    proof (cases "t = MACH_MSG_TYPE_COPY_SEND \<and> u = MACH_MSG_TYPE_COPY_SEND")
      case True
      show ?thesis unfolding copyin_two_sends_def if_P [OF True]
        by (rule one) (use send in \<open>auto simp: Let_def split: prod.splits\<close>)
    next
      case no: False
      show ?thesis unfolding copyin_two_sends_def if_not_P [OF no] if_not_P [OF False]
        by (rule one) (use send in \<open>auto simp: Let_def split: prod.splits\<close>)
    qed
  qed
qed

lemma header_same_outcome:
  assumes ok: "rights_ok K s" and t: "t \<noteq> MACH_MSG_TYPE_MOVE_RECEIVE" and u: "entries K s n \<noteq> None \<Longrightarrow> \<exists>v. u = Some v"
  shows "\<exists>x. copyin_header_same s n t u K = Some x \<and> rights_outcome K s x"
proof (cases "entries K s n")
  case None
  then show ?thesis by (simp add: copyin_header_same_def)
next
  case (Some e)
  then obtain v where v: "u = Some v" using u by auto
  obtain b where b: "ipc_right_copyin_check e v K = Some b" using copyin_decided [OF rights_okD [OF ok Some], of v] by auto
  consider "\<not> b" | "b" "t = MACH_MSG_TYPE_MOVE_SEND_ONCE \<or> v = MACH_MSG_TYPE_MOVE_SEND_ONCE"
    | (make) "b" "\<not> (t = MACH_MSG_TYPE_MOVE_SEND_ONCE \<or> v = MACH_MSG_TYPE_MOVE_SEND_ONCE)" "make_type t \<or> make_type v"
    | (two) "b" "\<not> (t = MACH_MSG_TYPE_MOVE_SEND_ONCE \<or> v = MACH_MSG_TYPE_MOVE_SEND_ONCE)" "\<not> (make_type t \<or> make_type v)"
    by blast
  then show ?thesis
  proof cases
    case make
    then have "copyin_header_same s n t u K = copyin_make s n e t v K"
      using Some v b by (simp add: copyin_header_same_def if_not_P [OF make(2)])
    then show ?thesis using copyin_make_outcome [OF ok Some make(3) t] make(1,2) b by simp
  next
    case two
    then have "copyin_header_same s n t u K = copyin_two_sends s n e t v K"
      using Some v b by (simp add: copyin_header_same_def)
    then show ?thesis using two_sends_outcome [OF ok Some] by simp
  qed (use Some v b in \<open>simp_all add: copyin_header_same_def\<close>)
qed

section \<open>The header\<close>

text \<open>
  A header with two rights: the destination is a port, the fields for the types name rights that a message
  can carry and that send messages, and nothing else of the bits has changed.
\<close>

definition header_typed :: "mach_msg_bits_t \<Rightarrow> ipc_object mach_msg_header \<Rightarrow> bool" where
  "header_typed bits hdr \<longleftrightarrow>
     (\<exists>p. msgh_remote_port hdr = IO_PORT p) \<and> (\<forall>q. msgh_local_port hdr \<noteq> IO_PSET q) \<and>
     msg_right_of (MACH_MSGH_BITS_REMOTE (msgh_bits hdr)) \<in> {Some MACH_MSG_TYPE_PORT_SEND, Some MACH_MSG_TYPE_PORT_SEND_ONCE} \<and>
     (if MACH_MSGH_BITS_LOCAL (msgh_bits hdr) = 0 then msgh_local_port hdr = IO_NULL
      else msg_right_of (MACH_MSGH_BITS_LOCAL (msgh_bits hdr)) \<in>
             {Some MACH_MSG_TYPE_PORT_SEND, Some MACH_MSG_TYPE_PORT_SEND_ONCE}) \<and>
     MACH_MSGH_BITS_OTHER (msgh_bits hdr) =
       MACH_MSGH_BITS_OTHER (bits AND NOT (MACH_MSGH_BITS_CIRCULAR OR MACH_MSGH_BITS_OLD_FORMAT))"

lemma send_types:
  assumes "MACH_MSG_TYPE_PORT_ANY_SEND w"
  shows "\<exists>t. copyin_type_of w = Some t \<and> t \<noteq> MACH_MSG_TYPE_MOVE_RECEIVE"
proof -
  have "unat w \<in> {17, 18, 19, 20, 21}" using assms by (auto simp: MACH_MSG_TYPE_PORT_ANY_SEND_def word_le_nat_alt)
  then have "w \<in> {17, 18, 19, 20, 21}" by (auto simp: word_unat_eq_iff)
  then show ?thesis by (auto simp: copyin_type_of_def)
qed

lemma carried_send:
  assumes "t \<noteq> MACH_MSG_TYPE_MOVE_RECEIVE"
  shows "right_number (ipc_object_copyin_type t) \<in> {17, 18}"
  using assms by (cases t) simp_all

lemma header_bits:
  assumes "r \<in> {17, 18}" and "l \<in> {0, 17, 18}"
  shows "MACH_MSGH_BITS_REMOTE (MACH_MSGH_BITS_OTHER b OR MACH_MSGH_BITS r l) = r"
    "MACH_MSGH_BITS_LOCAL (MACH_MSGH_BITS_OTHER b OR MACH_MSGH_BITS r l) = l"
    "MACH_MSGH_BITS_OTHER (MACH_MSGH_BITS_OTHER b OR MACH_MSGH_BITS r l) = MACH_MSGH_BITS_OTHER b"
  using assms by (auto simp: msgh_defs bit.conj_disj_distrib2 and.assoc)

text \<open>The requests that the entries of a space have registered are found where the entries say.\<close>

definition requests_ok :: "ipc_kernel \<Rightarrow> space_id \<Rightarrow> bool" where
  "requests_ok K s \<longleftrightarrow> (\<forall>n e. entries K s n = Some e \<longrightarrow> request_ok K s n e \<and> marequest_ok K s n e)"

lemma wf_rights_ok:
  assumes "kernel_wf K" and "requests_ok K s"
  shows "rights_ok K s"
proof -
  have "ip_active (k_ports K p)"
    if "entries K s n = Some e" "test (ie_bits e) MACH_PORT_TYPE_RECEIVE" "ie_object e = IO_PORT p" for n e p
  proof -
    have "receive_at K s n p" using that by (simp add: receive_at_def)
    from port_wfD(2) [OF kernel_wfD(2) [OF assms(1)] this] show ?thesis by (simp add: receiver_def)
  qed
  then show ?thesis
    using kernel_wfD(1) [OF assms(1)] assms(2) unfolding rights_ok_def right_ok_def requests_ok_def by blast
qed

lemma header_rights_outcome:
  assumes ok: "rights_ok K s" and v: "valid_names K s" and t: "t \<noteq> MACH_MSG_TYPE_MOVE_RECEIVE"
    and u: "u = None \<Longrightarrow> rn = MACH_PORT_NULL"
  shows "\<exists>x. copyin_header_rights s dn rn t u K = Some x \<and> rights_outcome K s x"
    "u = None \<Longrightarrow> copyin_header_rights s dn rn t u K = Some (Inr (dp, ds, rp, rs), K') \<Longrightarrow> rp = IO_NULL"
proof -
  have null: "entries K s MACH_PORT_NULL = None" using v by (simp add: valid_names_def)
  show "\<exists>x. copyin_header_rights s dn rn t u K = Some x \<and> rights_outcome K s x"
  proof (cases "dn = rn")
    case True
    moreover have "entries K s dn \<noteq> None \<Longrightarrow> \<exists>w. u = Some w" using True null u by (cases u) auto
    ultimately show ?thesis using header_same_outcome [OF ok t] by (simp add: copyin_header_rights_def)
  next
    case False
    show ?thesis
    proof (cases "MACH_PORT_VALID rn")
      case True
      then obtain w where "u = Some w" using u by (cases u) (auto simp: MACH_PORT_VALID_def)
      then show ?thesis using True False header_both_outcome [OF ok False t] by (simp add: copyin_header_rights_def)
    qed (use False header_dest_outcome [OF ok] in \<open>simp add: copyin_header_rights_def\<close>)
  qed
  assume "u = None" and c: "copyin_header_rights s dn rn t u K = Some (Inr (dp, ds, rp, rs), K')"
  then have "rn = MACH_PORT_NULL" using u by simp
  then show "rp = IO_NULL" using c null
    by (cases "dn = rn") (auto simp: copyin_header_rights_def copyin_header_same_def copyin_header_dest_def cast_name_def
        MACH_PORT_VALID_def split: option.splits bind_splits sum.splits)
qed

lemma header_general_outcome:
  fixes bits defines "b \<equiv> bits AND NOT (MACH_MSGH_BITS_CIRCULAR OR MACH_MSGH_BITS_OLD_FORMAT)"
  assumes ok: "rights_ok K s" and v: "valid_names K s"
  shows "\<exists>r K'. copyin_header_general s notify dn rn b K = Some (r, K') \<and>
    (case r of
       Inl mr \<Rightarrow> mr \<in> {MACH_SEND_INVALID_HEADER, MACH_SEND_INVALID_NOTIFY, MACH_SEND_INVALID_DEST, MACH_SEND_INVALID_REPLY} \<and>
         (live_space K s \<longrightarrow> K' = K)
     | Inr hdr \<Rightarrow> header_typed bits hdr)"
proof -
  let ?rt = "MACH_MSGH_BITS_LOCAL b" and ?dt = "MACH_MSGH_BITS_REMOTE b"
  define bad where "bad \<longleftrightarrow> (if ?rt = 0 then rn \<noteq> MACH_PORT_NULL else \<not> MACH_MSG_TYPE_PORT_ANY_SEND ?rt)"
  note G = copyin_header_general_def [of s notify dn rn b K, unfolded Let_def, folded bad_def]
  show ?thesis
  proof (cases "\<not> MACH_MSG_TYPE_PORT_ANY_SEND ?dt \<or> bad \<or> \<not> is_active (k_spaces K s) \<or> isl (notify_lookup s notify K)")
    case True
    moreover have "mr = MACH_SEND_INVALID_NOTIFY" if "notify_lookup s notify K = Inl mr" for mr
      using that by (auto simp: notify_lookup_def split: if_splits option.splits)
    ultimately show ?thesis unfolding G by (auto split: sum.splits)
  next
    case False
    then obtain np where np: "notify_lookup s notify K = Inr np" by (auto simp: isl_def split: sum.splits) (metis sum.exhaust)
    obtain t where t: "copyin_type_of ?dt = Some t" "t \<noteq> MACH_MSG_TYPE_MOVE_RECEIVE" using False send_types by blast
    define u where "u = copyin_type_of ?rt"
    have u: "if ?rt = 0 then u = None \<and> rn = MACH_PORT_NULL else \<exists>w. u = Some w \<and> w \<noteq> MACH_MSG_TYPE_MOVE_RECEIVE"
    proof (cases "?rt = 0")
      case True
      then show ?thesis using False by (simp add: bad_def u_def copyin_type_of_def)
    next
      case set: False
      then show ?thesis using False send_types [of ?rt] by (simp add: bad_def u_def)
    qed
    have un: "u = None \<Longrightarrow> rn = MACH_PORT_NULL" using u by (auto split: if_splits)
    note R = header_rights_outcome [OF ok v t(2), of u rn dn, OF un]
    obtain r K1 where c: "copyin_header_rights s dn rn t u K = Some (r, K1)" "rights_outcome K s (r, K1)" using R(1) by auto
    show ?thesis
    proof (cases r)
      case (Inl mr)
      then show ?thesis using False np t c unfolding G by (auto simp: u_def [symmetric])
    next
      case (Inr x)
      obtain dp ds rp rs where x: "x = (dp, ds, rp, rs)" using prod_cases4 by blast
      let ?r = "right_number (ipc_object_copyin_type t)" and ?l = "reply_number u"
      let ?hdr = "\<lparr>msgh_bits = MACH_MSGH_BITS_OTHER b OR MACH_MSGH_BITS ?r ?l, msgh_remote_port = dp, msgh_local_port = rp\<rparr>"
      have r: "?r \<in> {17, 18}" by (rule carried_send [OF t(2)])
      have l: "?l \<in> {0, 17, 18} \<and> (?l = 0 \<longleftrightarrow> u = None)"
      proof (cases u)
        case (Some w)
        then have "w \<noteq> MACH_MSG_TYPE_MOVE_RECEIVE" using u by (simp split: if_splits)
        from carried_send [OF this] Some show ?thesis by (auto simp: reply_number_def)
      qed (simp add: reply_number_def)
      have rp: "u = None \<Longrightarrow> rp = IO_NULL" using R(2) c(1) Inr x by simp
      have "header_typed bits ?hdr"
        using header_bits [OF r, of ?l b] r l rp c(2) Inr x unfolding header_typed_def b_def [symmetric]
        by (auto simp: msg_right_of_def)
      then show ?thesis using False np t c Inr x unfolding G by (simp add: u_def [symmetric])
    qed
  qed
qed



end
