(* ===== verification/Kmsg_Copyout.thy ===== *)
theory Kmsg_Copyout
  imports Kmsg_Header
begin

text \<open>
  The way of the rights in a message to the receiver: \<^verbatim>\<open>ipc_kmsg_copyout_object\<close>, \<^verbatim>\<open>ipc_kmsg_copyout_header\<close> with
  its common and its general case, and the treatment of the header in \<^verbatim>\<open>ipc_kmsg_copyout_pseudo\<close> and
  \<^verbatim>\<open>ipc_kmsg_copyout_dest\<close>. \<open>None\<close> stands for a panic or an assertion that fails.
\<close>

section \<open>One right\<close>

text \<open>The cast of an object that is not valid to a name.\<close>

definition cast_object :: "ipc_object \<Rightarrow> mach_port_t" where
  "cast_object object = (if object = IO_NULL then MACH_PORT_NULL else MACH_PORT_DEAD)"

text \<open>
  The quick copyout of a send right to a live port whose send rights the local hash table finds;
  \<open>in_table\<close> tells which names have their entry in the table. \<open>None\<close> leaves it to the slow copyout.
\<close>

definition quick_copyout ::
  "(mach_port_t \<Rightarrow> bool) \<Rightarrow> space_id \<Rightarrow> port_id \<Rightarrow> msg_right \<Rightarrow> ipc_kernel \<Rightarrow> (mach_port_t \<times> ipc_kernel) option" where
  "quick_copyout in_table space port msgt_name K =
     (if msgt_name \<noteq> MACH_MSG_TYPE_PORT_SEND \<or> \<not> is_active (k_spaces K space) \<or> \<not> ip_active (k_ports K port) then None
      else do {
        name \<leftarrow> k_hash K space port;
        entry \<leftarrow> (if in_table name then entries K space name else None);
        let K = ip_release port (upd_port port (ip_srights_update (\<lambda>n. n - 1)) K);
        let bits = ie_bits entry + 1;
        Some (name, if IE_BITS_UREFS bits < MACH_PORT_UREFS_MAX
                    then set_entry space name (entry\<lparr>ie_bits := bits\<rparr>) K else K)
      })"

definition slow_copyout ::
  "kern_return_t + mach_port_t \<Rightarrow> space_id \<Rightarrow> port_id \<Rightarrow> msg_right \<Rightarrow> ipc_kernel \<Rightarrow>
     (mach_msg_return_t \<times> mach_port_t \<times> ipc_kernel) option" where
  "slow_copyout alloc space port msgt_name K =
     (case ipc_object_copyout alloc space port msgt_name True K of
        (Inr name, K) \<Rightarrow> Some (MACH_MSG_SUCCESS_code, name, K)
      | (Inl kr, K) \<Rightarrow> do {
          K \<leftarrow> ipc_object_destroy (IO_PORT port) msgt_name K;
          Some (if kr = KERN_INVALID_CAPABILITY then (MACH_MSG_SUCCESS_code, MACH_PORT_DEAD, K)
                else (if kr = KERN_RESOURCE_SHORTAGE then MACH_MSG_IPC_KERNEL else MACH_MSG_IPC_SPACE,
                      MACH_PORT_NULL, K))
        })"

definition ipc_kmsg_copyout_object ::
  "(mach_port_t \<Rightarrow> bool) \<Rightarrow> kern_return_t + mach_port_t \<Rightarrow> space_id \<Rightarrow> ipc_object \<Rightarrow> msg_right \<Rightarrow> ipc_kernel \<Rightarrow>
     (mach_msg_return_t \<times> mach_port_t \<times> ipc_kernel) option" where
  "ipc_kmsg_copyout_object in_table alloc space object msgt_name K =
     (if \<not> IO_VALID object then Some (MACH_MSG_SUCCESS_code, cast_object object, K)
      else case object of
        IO_PORT port \<Rightarrow>
          (case quick_copyout in_table space port msgt_name K of
             Some (name, K) \<Rightarrow> Some (MACH_MSG_SUCCESS_code, name, K)
           | None \<Rightarrow> slow_copyout alloc space port msgt_name K)
      | _ \<Rightarrow> None)"

section \<open>The header: common cases\<close>

text \<open>The inlined \<^verbatim>\<open>ipc_object_copyout_dest\<close> for a live destination.\<close>

definition dest_send :: "space_id \<Rightarrow> port_id \<Rightarrow> ipc_kernel \<Rightarrow> mach_port_t \<times> ipc_kernel" where
  "dest_send space dest K =
     (let K = ip_release dest K;
          dest_name = (if ip_data (k_ports K dest) = Ip_Receiver space then ip_receiver_name (k_ports K dest)
                       else MACH_PORT_NULL);
          (ns, K) = drop_sright dest K
      in (dest_name, send_no_senders ns K))"

definition dest_send_once :: "space_id \<Rightarrow> port_id \<Rightarrow> ipc_kernel \<Rightarrow> mach_port_t \<times> ipc_kernel" where
  "dest_send_once space dest K =
     (if ip_data (k_ports K dest) = Ip_Receiver space
      then (let K = upd_port dest (ip_sorights_update (\<lambda>n. n - 1)) (ip_release dest K)
            in (ip_receiver_name (k_ports K dest), K))
      else (MACH_PORT_NULL, ipc_notify_send_once dest K))"

definition copyout_header_async ::
  "space_id \<Rightarrow> port_id \<Rightarrow> mach_msg_bits_t \<Rightarrow> ipc_kernel \<Rightarrow> (mach_port_t mach_msg_header \<times> ipc_kernel) option" where
  "copyout_header_async space dest mbits K =
     (if \<not> ip_active (k_ports K dest) then None
      else (let (dest_name, K) = dest_send space dest K
            in Some (\<lparr>msgh_bits = MACH_MSGH_BITS_OTHER mbits OR MACH_MSGH_BITS 0 (right_number MACH_MSG_TYPE_PORT_SEND),
                      msgh_remote_port = MACH_PORT_NULL, msgh_local_port = dest_name\<rparr>, K)))"

text \<open>\<open>free\<close> is the name that the first free slot of the table gives, if there is one.\<close>

definition copyout_header_request ::
  "mach_port_t option \<Rightarrow> bool \<Rightarrow> space_id \<Rightarrow> port_id \<Rightarrow> ipc_object \<Rightarrow> mach_msg_bits_t \<Rightarrow> ipc_kernel \<Rightarrow>
     (mach_port_t mach_msg_header \<times> ipc_kernel) option" where
  "copyout_header_request free lock_try space dest reply mbits K =
     (case reply of
        IO_PORT reply \<Rightarrow>
          if \<not> is_active (k_spaces K space) then None
          else do {
            reply_name \<leftarrow> free;
            if \<not> ip_active (k_ports K dest) \<or> \<not> lock_try \<or> \<not> ip_active (k_ports K reply) then None
            else do {
              let K = set_entry space reply_name
                        \<lparr>ie_bits = MACH_PORT_TYPE_SEND_ONCE OR 1, ie_object = IO_PORT reply, ie_request = 0\<rparr> K;
              let (dest_name, K) = dest_send space dest K;
              Some (\<lparr>msgh_bits = MACH_MSGH_BITS_OTHER mbits OR
                       MACH_MSGH_BITS (right_number MACH_MSG_TYPE_PORT_SEND_ONCE) (right_number MACH_MSG_TYPE_PORT_SEND),
                     msgh_remote_port = reply_name, msgh_local_port = dest_name\<rparr>, K)
            }
          }
      | _ \<Rightarrow> None)"

definition copyout_header_reply ::
  "space_id \<Rightarrow> port_id \<Rightarrow> mach_msg_bits_t \<Rightarrow> ipc_kernel \<Rightarrow> (mach_port_t mach_msg_header \<times> ipc_kernel) option" where
  "copyout_header_reply space dest mbits K =
     (if \<not> ip_active (k_ports K dest) then None
      else (let (dest_name, K) = dest_send_once space dest K
            in Some (\<lparr>msgh_bits = MACH_MSGH_BITS_OTHER mbits OR MACH_MSGH_BITS 0 (right_number MACH_MSG_TYPE_PORT_SEND_ONCE),
                      msgh_remote_port = MACH_PORT_NULL, msgh_local_port = dest_name\<rparr>, K)))"

definition copyout_header_common ::
  "mach_port_t option \<Rightarrow> bool \<Rightarrow> space_id \<Rightarrow> port_id \<Rightarrow> ipc_object \<Rightarrow> mach_msg_bits_t \<Rightarrow> ipc_kernel \<Rightarrow>
     (mach_port_t mach_msg_header \<times> ipc_kernel) option" where
  "copyout_header_common free lock_try space dest reply mbits K =
     (if MACH_MSGH_BITS_PORTS mbits = MACH_MSGH_BITS 17 0 then copyout_header_async space dest mbits K
      else if MACH_MSGH_BITS_PORTS mbits = MACH_MSGH_BITS 17 18
      then copyout_header_request free lock_try space dest reply mbits K
      else if MACH_MSGH_BITS_PORTS mbits = MACH_MSGH_BITS 18 0 then copyout_header_reply space dest mbits K
      else None)"

section \<open>The header: the general case\<close>

text \<open>
  The loop that finds or makes an entry for the reply port. \<open>alloc i\<close> is what \<^verbatim>\<open>ipc_entry_get\<close>, with
  \<^verbatim>\<open>ipc_entry_grow_table\<close> when the table is full, answers in round \<open>i\<close>. The result is an error, a dead reply
  port, or the name and entry, with the send-once right for notifications that was not used.
\<close>

datatype reply_place =
    Reply_Error mach_msg_return_t
  | Reply_Dead
  | Reply_Entry mach_port_t ipc_entry "port_id option"

definition release_notify :: "port_id option \<Rightarrow> ipc_kernel \<Rightarrow> ipc_kernel" where
  "release_notify notify_port K =
     (case notify_port of None \<Rightarrow> K | Some port \<Rightarrow> ipc_port_release_sonce port K)"

partial_function (option) reply_entry_loop ::
  "(nat \<Rightarrow> kern_return_t + mach_port_t) \<Rightarrow> nat \<Rightarrow> space_id \<Rightarrow> mach_port_t \<Rightarrow> port_id \<Rightarrow> msg_right \<Rightarrow> ipc_kernel \<Rightarrow>
     (reply_place \<times> ipc_kernel) option" where
  "reply_entry_loop alloc i space notify reply reply_type K =
     (if \<not> is_active (k_spaces K space) then Some (Reply_Error (MACH_RCV_HEADER_ERROR_code OR MACH_MSG_IPC_SPACE), K)
      else
        (let (notify_port, K) = (if notify = MACH_PORT_NULL then (None, K) else ipc_port_lookup_notify space notify K)
         in if notify \<noteq> MACH_PORT_NULL \<and> notify_port = None then Some (Reply_Error MACH_RCV_INVALID_NOTIFY, K)
            else case copyout_reverse space reply reply_type K of
              Some (name, entry) \<Rightarrow> Some (Reply_Entry name entry notify_port, K)
            | None \<Rightarrow>
                if \<not> ip_active (k_ports K reply) then Some (Reply_Dead, release_notify notify_port (ip_release reply K))
                else (case entry_alloc (alloc i) space K of
                  Inl kr \<Rightarrow>
                    Some (Reply_Error (MACH_RCV_HEADER_ERROR_code OR
                            (if kr = KERN_RESOURCE_SHORTAGE then MACH_MSG_IPC_KERNEL else MACH_MSG_IPC_SPACE)),
                          release_notify notify_port K)
                | Inr (name, K) \<Rightarrow>
                    (case notify_port of
                       None \<Rightarrow>
                         (let entry = new_entry\<lparr>ie_object := IO_PORT reply\<rparr>
                          in Some (Reply_Entry name entry None, set_entry space name entry K))
                     | Some soright \<Rightarrow>
                         (case ipc_port_dnrequest reply name (Ipr_Soright soright) K of
                            Inr (request, K) \<Rightarrow>
                              (let entry = new_entry\<lparr>ie_object := IO_PORT reply, ie_request := request\<rparr>
                               in Some (Reply_Entry name entry None, set_entry space name entry K))
                          | Inl _ \<Rightarrow>
                              (let K = entry_dealloc space name (ipc_port_release_sonce soright K);
                                   (kr, K) = ipc_port_dngrow reply None K
                               in if kr \<noteq> KERN_SUCCESS
                                  then Some (Reply_Error (MACH_RCV_HEADER_ERROR_code OR MACH_MSG_IPC_KERNEL), K)
                                  else reply_entry_loop alloc (i + 1) space notify reply reply_type K))))))"

declare reply_entry_loop.simps [code]

text \<open>The label \<^verbatim>\<open>copyout_dest\<close>; \<open>reply\<close> is the reply port if it was alive when it was copied out.\<close>

definition header_dest ::
  "space_id \<Rightarrow> port_id \<Rightarrow> msg_right \<Rightarrow> port_id option \<Rightarrow> ipc_kernel \<Rightarrow> (mach_port_t \<times> ipc_kernel) option" where
  "header_dest space dest dest_type reply K = do {
     (dest_name, K) \<leftarrow>
       (if ip_active (k_ports K dest) then ipc_object_copyout_dest space dest dest_type K
        else do {
          let timestamp = time_of_death (k_ports K dest);
          let K = ip_release dest K;
          Some (case reply of
                  Some port \<Rightarrow>
                    if ip_active (k_ports K port) \<or> IP_TIMESTAMP_ORDER timestamp (time_of_death (k_ports K port))
                    then MACH_PORT_DEAD else MACH_PORT_NULL
                | None \<Rightarrow> MACH_PORT_DEAD, K)
        });
     Some (dest_name, case reply of None \<Rightarrow> K | Some port \<Rightarrow> ip_release port K)
   }"

definition copyout_header_general ::
  "(nat \<Rightarrow> kern_return_t + mach_port_t) \<Rightarrow> space_id \<Rightarrow> mach_port_t \<Rightarrow> port_id \<Rightarrow> ipc_object \<Rightarrow> mach_msg_bits_t \<Rightarrow>
     ipc_kernel \<Rightarrow> ((mach_msg_return_t + mach_port_t mach_msg_header) \<times> ipc_kernel) option" where
  "copyout_header_general alloc space notify dest reply mbits K = do {
     dest_type \<leftarrow> msg_right_of (MACH_MSGH_BITS_REMOTE mbits);
     let finish = (\<lambda>reply reply_name K. do {
       (dest_name, K) \<leftarrow> header_dest space dest dest_type reply K;
       Some (Inr \<lparr>msgh_bits = MACH_MSGH_BITS_OTHER mbits OR
                    MACH_MSGH_BITS (MACH_MSGH_BITS_LOCAL mbits) (MACH_MSGH_BITS_REMOTE mbits),
                  msgh_remote_port = reply_name, msgh_local_port = dest_name\<rparr>, K)
     });
     case reply of
       IO_PORT port \<Rightarrow> do {
         reply_type \<leftarrow> msg_right_of (MACH_MSGH_BITS_LOCAL mbits);
         (place, K) \<leftarrow> reply_entry_loop alloc 0 space notify port reply_type K;
         case place of
           Reply_Error mr \<Rightarrow> Some (Inl mr, K)
         | Reply_Dead \<Rightarrow> finish None MACH_PORT_DEAD K
         | Reply_Entry name entry notify_port \<Rightarrow> do {
             let (kr, K) = ipc_right_copyout space name entry reply_type True port (ip_reference port K);
             if kr \<noteq> KERN_SUCCESS then None
             else finish (Some port) name (release_notify notify_port K)
           }
       }
     | _ \<Rightarrow>
         if \<not> is_active (k_spaces K space) then Some (Inl (MACH_RCV_HEADER_ERROR_code OR MACH_MSG_IPC_SPACE), K)
         else if isl (notify_lookup space notify K) then Some (Inl MACH_RCV_INVALID_NOTIFY, K)
         else finish None (cast_object reply) K
   }"

definition ipc_kmsg_copyout_header ::
  "(nat \<Rightarrow> kern_return_t + mach_port_t) \<Rightarrow> mach_port_t option \<Rightarrow> bool \<Rightarrow> ipc_object mach_msg_header \<Rightarrow> space_id \<Rightarrow>
     mach_port_t \<Rightarrow> ipc_kernel \<Rightarrow> ((mach_msg_return_t + mach_port_t mach_msg_header) \<times> ipc_kernel) option" where
  "ipc_kmsg_copyout_header alloc free lock_try msg space notify K =
     (case msgh_remote_port msg of
        IO_PORT dest \<Rightarrow>
          (case (if notify = MACH_PORT_NULL
                 then copyout_header_common free lock_try space dest (msgh_local_port msg) (msgh_bits msg) K else None) of
             Some (hdr, K) \<Rightarrow> Some (Inr hdr, K)
           | None \<Rightarrow> copyout_header_general alloc space notify dest (msgh_local_port msg) (msgh_bits msg) K)
      | _ \<Rightarrow> None)"

section \<open>Other ways out\<close>

text \<open>
  The header of a message whose body could not be delivered: \<^verbatim>\<open>ipc_kmsg_copyout_pseudo\<close> handles both ports
  like ports of the body; \<^verbatim>\<open>ipc_kmsg_copyout_dest\<close> keeps the destination and destroys the reply right.
\<close>

definition copyout_pseudo_header ::
  "(mach_port_t \<Rightarrow> bool) \<Rightarrow> (nat \<Rightarrow> kern_return_t + mach_port_t) \<Rightarrow> ipc_object mach_msg_header \<Rightarrow> space_id \<Rightarrow> ipc_kernel \<Rightarrow>
     (mach_msg_return_t \<times> mach_port_t mach_msg_header \<times> ipc_kernel) option" where
  "copyout_pseudo_header in_table alloc msg space K = do {
     dest_type \<leftarrow> msg_right_of (MACH_MSGH_BITS_REMOTE (msgh_bits msg));
     (mr, dest_name, K) \<leftarrow> ipc_kmsg_copyout_object in_table (alloc 0) space (msgh_remote_port msg) dest_type K;
     (mr', reply_name, K) \<leftarrow>
       (case msg_right_of (MACH_MSGH_BITS_LOCAL (msgh_bits msg)) of
          Some reply_type \<Rightarrow> ipc_kmsg_copyout_object in_table (alloc 1) space (msgh_local_port msg) reply_type K
        | None \<Rightarrow> if IO_VALID (msgh_local_port msg) then None
                  else Some (MACH_MSG_SUCCESS_code, cast_object (msgh_local_port msg), K));
     Some (mr OR mr',
           \<lparr>msgh_bits = msgh_bits msg AND NOT MACH_MSGH_BITS_CIRCULAR,
             msgh_remote_port = dest_name, msgh_local_port = reply_name\<rparr>, K)
   }"

definition copyout_dest_header ::
  "ipc_object mach_msg_header \<Rightarrow> space_id \<Rightarrow> ipc_kernel \<Rightarrow> (mach_port_t mach_msg_header \<times> ipc_kernel) option" where
  "copyout_dest_header msg space K = do {
     dest \<leftarrow> (case msgh_remote_port msg of IO_PORT port \<Rightarrow> Some port | _ \<Rightarrow> None);
     dest_type \<leftarrow> msg_right_of (MACH_MSGH_BITS_REMOTE (msgh_bits msg));
     (dest_name, K) \<leftarrow>
       (if ip_active (k_ports K dest) then ipc_object_copyout_dest space dest dest_type K
        else Some (MACH_PORT_DEAD, ip_release dest K));
     (reply_name, K) \<leftarrow>
       (if IO_VALID (msgh_local_port msg) then do {
          reply_type \<leftarrow> msg_right_of (MACH_MSGH_BITS_LOCAL (msgh_bits msg));
          K \<leftarrow> ipc_object_destroy (msgh_local_port msg) reply_type K;
          Some (MACH_PORT_NULL, K)
        }
        else Some (cast_object (msgh_local_port msg), K));
     Some (\<lparr>msgh_bits = MACH_MSGH_BITS_OTHER (msgh_bits msg) OR
              MACH_MSGH_BITS (MACH_MSGH_BITS_LOCAL (msgh_bits msg)) (MACH_MSGH_BITS_REMOTE (msgh_bits msg)),
            msgh_remote_port = reply_name, msgh_local_port = dest_name\<rparr>, K)
   }"

section \<open>A reference held for a while\<close>

text \<open>
  A reference to a port that is taken before a routine and given back after it does not change what the
  routine does.
\<close>

lemma release_after_reference [simp]: "ip_release q (ip_reference q K) = K"
proof -
  have "ip_references_update (\<lambda>n. n - 1) (ip_references_update (\<lambda>n. n + 1) x) = x" for x :: ipc_port by (cases x) simp
  then have "(k_ports K)(q := ip_references_update (\<lambda>n. n - 1) (ip_references_update (\<lambda>n. n + 1) (k_ports K q))) = k_ports K"
    by (simp only: fun_upd_triv)
  then show ?thesis unfolding ip_release_def ip_reference_def upd_port_def by (cases K) simp
qed

lemma references_commute:
  "ip_references_update f (ip_msgcount_update g x) = ip_msgcount_update g (ip_references_update f x)"
  "ip_references_update f (ip_receivers_update h x) = ip_receivers_update h (ip_references_update f x)"
  "ip_references_update f (ip_seqno_update i x) = ip_seqno_update i (ip_references_update f x)"
  "ip_references_update f (ip_messages_update j x) = ip_messages_update j (ip_references_update f x)"
  "ip_references_update f (ip_sorights_update g x) = ip_sorights_update g (ip_references_update f x)"
  "ip_references_update f (ip_srights_update g x) = ip_srights_update g (ip_references_update f x)"
  "ip_references_update f (ip_nsrequest_update k x) = ip_nsrequest_update k (ip_references_update f x)"
  by (cases x; simp)+

lemma upd_port_commute:
  assumes "\<And>x. f (g x) = g (f x)"
  shows "upd_port p f (upd_port q g K) = upd_port q g (upd_port p f K)"
  using assms by (cases "p = q") (auto simp: upd_port_def fun_upd_twist)

lemma upd_port_reference:
  assumes "\<And>f x. ip_references_update f (g x) = g (ip_references_update f x)"
  shows "upd_port p g (ip_reference q K) = ip_reference q (upd_port p g K)" "upd_port p g (ip_release q K) = ip_release q (upd_port p g K)"
  unfolding ip_reference_def ip_release_def by (rule upd_port_commute; simp add: assms)+

lemma set_imq_reference:
  "set_imq_threads m ths (ip_reference q K) = ip_reference q (set_imq_threads m ths K)"
  "set_imq_messages m ms (ip_reference q K) = ip_reference q (set_imq_messages m ms K)"
  "imq_threads (ip_reference q K) m = imq_threads K m"
  "imq_messages (ip_reference q K) m = imq_messages K m"
  "threads_go gos (ip_reference q K) = ip_reference q (threads_go gos K)"
proof -
  have "upd_pset t f (ip_reference q K) = ip_reference q (upd_pset t f K)" for t f
    by (simp add: ip_reference_def upd_port_def upd_pset_def)
  then show "set_imq_threads m ths (ip_reference q K) = ip_reference q (set_imq_threads m ths K)"
    "set_imq_messages m ms (ip_reference q K) = ip_reference q (set_imq_messages m ms K)"
    by (cases m; simp add: upd_port_reference references_commute)+
  show "imq_threads (ip_reference q K) m = imq_threads K m" "imq_messages (ip_reference q K) m = imq_messages K m"
    by (cases m; simp add: ip_reference_def upd_port_def)+
  show "threads_go gos (ip_reference q K) = ip_reference q (threads_go gos K)"
    by (simp add: ip_reference_def upd_port_def threads_go_def)
qed

lemma deliver_reference:
  "mqueue_deliver kmsg p (ip_reference q K) = ip_reference q (mqueue_deliver kmsg p K)"
proof -
  have s: "ip_seqno (k_ports (ip_reference q K) p) = ip_seqno (k_ports K p)" "ip_pset (k_ports (ip_reference q K) p) = ip_pset (k_ports K p)"
    "k_rcv_check (ip_reference q K) = k_rcv_check K" for K
    by (simp_all add: ip_reference_def upd_port_def k_rcv_check_def fun_eq_iff)
  show ?thesis
    by (simp add: mqueue_deliver_def Let_def upd_port_reference references_commute set_imq_reference s split: prod.split option.split)
qed

lemma release_over: "ip_release q (ip_release r (ip_reference q K)) = ip_release r K"
proof (cases "q = r")
  case False
  then have "ip_release r (ip_reference q K) = ip_reference q (ip_release r K)"
    by (simp add: ip_release_def ip_reference_def upd_port_def fun_upd_twist)
  then show ?thesis by simp
qed simp

lemma no_senders_over: "ip_release q (send_no_senders ns (ip_reference q K)) = send_no_senders ns K"
proof (cases ns)
  case (Some x)
  obtain r c where x: "x = (r, c)" by fastforce
  have f: "k_nomem (ip_reference q K) = k_nomem K" "k_kernel_space (ip_reference q K) = k_kernel_space K"
    "k_kobject_msgs (ip_reference q K) = k_kobject_msgs K" by (simp_all add: ip_reference_def upd_port_def)
  have p: "ip_data (k_ports (ip_reference q K) r) = ip_data (k_ports K r)" "ip_active (k_ports (ip_reference q K) r) = ip_active (k_ports K r)"
    by (simp_all add: ip_reference_def upd_port_def)
  have rel: "ip_active (k_ports (ip_release t L) r) = ip_active (k_ports L r)" for t L by (simp add: ip_release_def upd_port_def)
  have kob: "ip_release q ((ip_reference q K)\<lparr>k_kobject_msgs := m\<rparr>) = K\<lparr>k_kobject_msgs := m\<rparr>" for m
  proof -
    have "(ip_reference q K)\<lparr>k_kobject_msgs := m\<rparr> = ip_reference q (K\<lparr>k_kobject_msgs := m\<rparr>)"
      by (simp add: ip_reference_def upd_port_def)
    then show ?thesis by simp
  qed
  have dead: "ip_release q (ipc_kmsg_destroy m (ip_release r (ip_reference q K))) = ipc_kmsg_destroy m (ip_release r K)" for m
  proof -
    have "ip_release q (ipc_kmsg_destroy m L) = ipc_kmsg_destroy m (ip_release q L)" for L
      by (simp add: ipc_kmsg_destroy_def ip_release_def upd_port_def)
    then show ?thesis by (simp add: release_over)
  qed
  have sonce: "ip_release q (ipc_port_release_sonce r (ip_reference q K)) = ipc_port_release_sonce r K"
    by (simp add: ipc_port_release_sonce_def Let_def rel p release_over upd_port_reference(2) [OF references_commute(5), symmetric])
  show ?thesis
    by (simp add: Some x send_no_senders_def ipc_notify_no_senders_def f sonce ipc_mqueue_send_always_def ipc_mqueue_send_def
        notify_kmsg_def p kob dead deliver_reference)
qed (simp add: send_no_senders_def)

lemma drop_sright_reference:
  "drop_sright p (ip_reference q K) = (fst (drop_sright p K), ip_reference q (snd (drop_sright p K)))"
proof -
  have f: "ip_srights (k_ports (ip_reference q L) p) = ip_srights (k_ports L p)" "ip_nsrequest (k_ports (ip_reference q L) p) = ip_nsrequest (k_ports L p)"
    "ip_mscount (k_ports (ip_reference q L) p) = ip_mscount (k_ports L p)" for L
    by (simp_all add: ip_reference_def upd_port_def)
  show ?thesis
    by (simp add: drop_sright_def Let_def upd_port_reference references_commute f split: option.split)
qed

lemma drop_sright_data:
  "ip_data (k_ports (snd (drop_sright p K)) q) = ip_data (k_ports K q)"
  "ip_receiver_name (k_ports (snd (drop_sright p K)) q) = ip_receiver_name (k_ports K q)"
  by (simp_all add: drop_sright_def Let_def upd_port_def split: option.split)

lemma dest_send_over:
  assumes "0 < ip_references (k_ports K p)"
  shows "dest_send s p K = (fst (dest_send s p (ip_reference q K)), ip_release q (snd (dest_send s p (ip_reference q K))))"
proof -
  define K1 where "K1 = ip_release p K"
  have "ip_references_update (\<lambda>n. n + 1) (ip_references_update (\<lambda>n. n - 1) (k_ports K p)) = k_ports K p"
    using assms by (cases "k_ports K p") simp
  then have "ip_reference p K1 = K" by (simp add: K1_def ip_reference_def ip_release_def upd_port_def)
  then have r: "ip_release p (ip_reference q K) = ip_reference q K1"
  proof (cases "p = q")
    case False
    then show ?thesis by (simp add: K1_def ip_release_def ip_reference_def upd_port_def fun_upd_twist)
  qed simp
  have "ip_data (k_ports (ip_reference q K1) p) = ip_data (k_ports K1 p)"
    "ip_receiver_name (k_ports (ip_reference q K1) p) = ip_receiver_name (k_ports K1 p)"
    by (simp_all add: ip_reference_def upd_port_def)
  then show ?thesis
    by (simp add: dest_send_def r K1_def [symmetric] Let_def drop_sright_reference no_senders_over split: prod.split)
qed

lemma copyout_dest_send: "ipc_object_copyout_dest s p MACH_MSG_TYPE_PORT_SEND K = Some (dest_send s p K)"
  using drop_sright_data [of p "ip_release p K" p] by (auto simp: dest_send_def Let_def split: prod.split)

lemma copyout_dest_send_once:
  assumes "0 < ip_references (k_ports K p)"
  shows "ipc_object_copyout_dest s p MACH_MSG_TYPE_PORT_SEND_ONCE K = Some (dest_send_once s p K)"
proof -
  have "ip_references_update (\<lambda>n. n + 1) (ip_references_update (\<lambda>n. n - 1) (k_ports K p)) = k_ports K p"
    using assms by (cases "k_ports K p") simp
  then have "ip_reference p (ip_release p K) = K" by (simp add: ip_reference_def ip_release_def upd_port_def)
  moreover have "ip_data (k_ports (ip_release p K) p) = ip_data (k_ports K p)" by (simp add: ip_release_def upd_port_def)
  ultimately show ?thesis by (simp add: dest_send_once_def Let_def upd_port_def)
qed

section \<open>The common cases and the general case\<close>

text \<open>
  What a header in the kernel owns: a reference to its destination, and no reply port without a type. That the
  inlined \<^verbatim>\<open>ipc_entry_get\<close> of the common case finds the same name as the routine itself is shown in \<open>Copyout_Entry\<close>.
\<close>

definition header_ready :: "ipc_kernel \<Rightarrow> ipc_object mach_msg_header \<Rightarrow> bool" where
  "header_ready K msg \<longleftrightarrow>
     (\<exists>p. msgh_remote_port msg = IO_PORT p \<and> 0 < ip_references (k_ports K p)) \<and>
     (MACH_MSGH_BITS_LOCAL (msgh_bits msg) = 0 \<longrightarrow> msgh_local_port msg = IO_NULL)"

lemma copyout_request_general:
  assumes a: "is_active (k_spaces K s)" and r: "0 < ip_references (k_ports K p)"
    and bits: "MACH_MSGH_BITS_REMOTE b = 17" "MACH_MSGH_BITS_LOCAL b = 18" and f: "\<And>n. free = Some n \<Longrightarrow> alloc 0 = Inr n"
    and c: "copyout_header_request free lock_try s p reply b K = Some (hdr, K')"
  shows "copyout_header_general alloc s MACH_PORT_NULL p reply b K = Some (Inr hdr, K')"
proof -
  obtain q n where q: "reply = IO_PORT q" "ip_active (k_ports K q)" and n: "free = Some n" and p: "ip_active (k_ports K p)" and l: lock_try
    using c by (auto simp: copyout_header_request_def split: ipc_object.splits if_splits bind_splits)
  define e where "e = new_entry\<lparr>ie_object := IO_PORT q\<rparr>"
  define e' where "e' = \<lparr>ie_bits = MACH_PORT_TYPE_SEND_ONCE OR 1, ie_object = IO_PORT q, ie_request = 0\<rparr>"
  have ee: "e\<lparr>ie_bits := ie_bits e OR (MACH_PORT_TYPE_SEND_ONCE OR 1)\<rparr> = e'" by (simp add: e_def e'_def new_entry_def)
  let ?K = "set_entry s n e' K"
  have "reply_entry_loop alloc 0 s MACH_PORT_NULL q MACH_MSG_TYPE_PORT_SEND_ONCE K = Some (Reply_Entry n e None, set_entry s n e K)"
    by (subst reply_entry_loop.simps) (simp add: a copyout_reverse_def q entry_alloc_def f [OF n] e_def Let_def)
  moreover have "set_entry s n e' (ip_reference q (set_entry s n e K)) = ip_reference q ?K"
    by (simp add: ip_reference_def upd_port_set_entry)
  moreover have "header_dest s p MACH_MSG_TYPE_PORT_SEND (Some q) (ip_reference q ?K) = Some (dest_send s p ?K)"
  proof -
    have "ip_active (k_ports (ip_reference q ?K) p)" using p q(2) by (simp add: ip_reference_def upd_port_def)
    then show ?thesis
      using dest_send_over [of ?K p s q] r
      by (simp add: header_dest_def copyout_dest_send del: ipc_object_copyout_dest.simps split: prod.split)
  qed
  ultimately have "copyout_header_general alloc s MACH_PORT_NULL p reply b K =
      (case dest_send s p ?K of (dest_name, K) \<Rightarrow>
         Some (Inr \<lparr>msgh_bits = MACH_MSGH_BITS_OTHER b OR MACH_MSGH_BITS 18 17,
                    msgh_remote_port = n, msgh_local_port = dest_name\<rparr>, K))"
    by (simp add: copyout_header_general_def bits msg_right_of_def q ee release_notify_def Let_def split: prod.split)
  then show ?thesis
    using c by (auto simp: copyout_header_request_def q n p l a e'_def [symmetric] split: prod.splits)
qed

lemma header_common_copyout:
  assumes a: "is_active (k_spaces K s)" and r: "header_ready K msg" and f: "\<And>n. free = Some n \<Longrightarrow> alloc 0 = Inr n"
    and p: "msgh_remote_port msg = IO_PORT p"
    and c: "copyout_header_common free lock_try s p (msgh_local_port msg) (msgh_bits msg) K = Some (hdr, K')"
  shows "copyout_header_general alloc s MACH_PORT_NULL p (msgh_local_port msg) (msgh_bits msg) K = Some (Inr hdr, K')"
proof -
  let ?b = "msgh_bits msg"
  have refs: "0 < ip_references (k_ports K p)" using r p by (simp add: header_ready_def)
  consider (async) "MACH_MSGH_BITS_REMOTE ?b = 17" "MACH_MSGH_BITS_LOCAL ?b = 0" "copyout_header_async s p ?b K = Some (hdr, K')"
    | (request) "MACH_MSGH_BITS_REMOTE ?b = 17" "MACH_MSGH_BITS_LOCAL ?b = 18"
        "copyout_header_request free lock_try s p (msgh_local_port msg) ?b K = Some (hdr, K')"
    | (reply) "MACH_MSGH_BITS_REMOTE ?b = 18" "MACH_MSGH_BITS_LOCAL ?b = 0" "copyout_header_reply s p ?b K = Some (hdr, K')"
    using c by (auto simp: copyout_header_common_def ports_bits split: if_splits)
  then show ?thesis
  proof cases
    case async
    then have "msgh_local_port msg = IO_NULL" using r by (simp add: header_ready_def)
    then show ?thesis using async a
      by (auto simp: copyout_header_async_def copyout_header_general_def msg_right_of_def notify_lookup_def header_dest_def
          copyout_dest_send cast_object_def Let_def simp del: ipc_object_copyout_dest.simps split: if_splits prod.splits)
  next
    case request
    show ?thesis by (rule copyout_request_general [where alloc = alloc and free = free, OF a refs request(1,2) f request(3)])
  next
    case reply
    then have "msgh_local_port msg = IO_NULL" using r by (simp add: header_ready_def)
    then show ?thesis using reply a
      by (auto simp: copyout_header_reply_def copyout_header_general_def msg_right_of_def notify_lookup_def header_dest_def
          copyout_dest_send_once [OF refs] cast_object_def Let_def simp del: ipc_object_copyout_dest.simps split: if_splits prod.splits)
  qed
qed

lemma or_send:
  assumes "IE_BITS_TYPE b = MACH_PORT_TYPE_SEND"
  shows "b OR MACH_PORT_TYPE_SEND = b"
proof -
  have "b AND MACH_PORT_TYPE_SEND = IE_BITS_TYPE b AND MACH_PORT_TYPE_SEND" by (simp add: bits_defs and.assoc)
  then have "b AND MACH_PORT_TYPE_SEND = MACH_PORT_TYPE_SEND" by (simp add: assms)
  moreover have "b OR (b AND m) = b" for m by (rule bit_word_eqI) (auto simp: bit_simps)
  ultimately show ?thesis by metis
qed

text \<open>The quick copyout of a send right does what the slow one does.\<close>

lemma quick_slow:
  assumes wf: "kernel_wf K" and c: "quick_copyout in_table s p r K = Some (n, K')"
  shows "slow_copyout alloc s p r K = Some (MACH_MSG_SUCCESS_code, n, K')"
proof -
  obtain e where r: "r = MACH_MSG_TYPE_PORT_SEND" and a: "is_active (k_spaces K s)" "ip_active (k_ports K p)"
    and h: "k_hash K s p = Some n" and E: "entries K s n = Some e"
    and K': "K' = (let K = ip_release p (upd_port p (ip_srights_update (\<lambda>n. n - 1)) K); bits = ie_bits e + 1
       in if IE_BITS_UREFS bits < MACH_PORT_UREFS_MAX then set_entry s n (e\<lparr>ie_bits := bits\<rparr>) K else K)"
    using c by (auto simp: quick_copyout_def Let_def split: if_splits bind_splits)
  note W = port_wfD [OF kernel_wfD(2) [OF wf, of p]]
  have "send_at K s n p" using W(1) h by blast
  then have ty: "IE_BITS_TYPE (ie_bits e) = MACH_PORT_TYPE_SEND" "ie_object e = IO_PORT p" using E by (simp_all add: send_at_def)
  have nr: "ip_data (k_ports K p) \<noteq> Ip_Receiver s"
  proof
    assume "ip_data (k_ports K p) = Ip_Receiver s"
    then have "receive_at K s (ip_receiver_name (k_ports K p)) p" using W(3) a by (simp add: receiver_def)
    then show False using W(2) h by fastforce
  qed
  have rev: "copyout_reverse s p r K = Some (n, e)" using nr a h E r by (simp add: copyout_reverse_def ipc_right_reverse_def)
  have urefs: "0 < IE_BITS_UREFS (ie_bits e)" "IE_BITS_UREFS (ie_bits e) < MACH_PORT_UREFS_MAX"
    using kernel_wfD(1) [OF wf E] ty by (auto simp: entry_ok_def Let_def)
  note incr = incr_fields [OF urefs(2)]
  have lt: "IE_BITS_UREFS (ie_bits e + 1) < MACH_PORT_UREFS_MAX \<longleftrightarrow> IE_BITS_UREFS (ie_bits e) + 1 \<noteq> MACH_PORT_UREFS_MAX"
    using incr urefs(2) incr_bound [OF urefs(2)] by auto
  have set: "ie_bits e OR MACH_PORT_TYPE_SEND = ie_bits e" using or_send [OF ty(1)] .
  have "ipc_right_copyout s n e r True p K = (KERN_SUCCESS, K')"
    using send_tests(1) [OF ty(1)] lt by (auto simp: r K' set Let_def)
  then show ?thesis using a rev by (simp add: slow_copyout_def ipc_object_copyout_def Let_def)
qed

lemma object_quick_slow:
  assumes "kernel_wf K"
  shows "ipc_kmsg_copyout_object in_table alloc s (IO_PORT p) r K = slow_copyout alloc s p r K"
  using quick_slow [OF assms] by (auto simp: ipc_kmsg_copyout_object_def IO_VALID_def split: option.split)

lemma header_copyout_general:
  assumes "is_active (k_spaces K s)" and "header_ready K msg" and "\<And>n. free = Some n \<Longrightarrow> alloc 0 = Inr n"
    and "msgh_remote_port msg = IO_PORT dest"
  shows "ipc_kmsg_copyout_header alloc free lock_try msg s notify K =
    copyout_header_general alloc s notify dest (msgh_local_port msg) (msgh_bits msg) K"
  using header_common_copyout [where free = free and alloc = alloc, OF assms]
  by (auto simp: ipc_kmsg_copyout_header_def assms(4) split: option.split)

end
