(* ===== verification/Rpc_Roundtrip.thy ===== *)
theory Rpc_Roundtrip
  imports Kmsg_Copyout
begin

text \<open>
  A remote procedure call at the level of rights: the headers of a request and of its reply on their way
  through \<^verbatim>\<open>ipc_kmsg_copyin_header\<close> and \<^verbatim>\<open>ipc_kmsg_copyout_header\<close>, in the spaces of a client and a server.
\<close>

section \<open>Header bits on the way\<close>

lemma other_bits: "bit (MACH_MSGH_BITS_OTHER b) i \<longleftrightarrow> 16 \<le> i \<and> bit b i"
proof -
  have "MACH_MSGH_BITS_OTHER b = b AND NOT (mask 16)" by (simp add: msgh_defs mask_eq_exp_minus_1)
  then show ?thesis by (auto simp: bit_simps dest: bit_imp_le_length)
qed

lemma ports_other:
  assumes "x < 0x100" "y < 0x100"
  shows "MACH_MSGH_BITS_REMOTE (MACH_MSGH_BITS_OTHER b OR MACH_MSGH_BITS x y) = x"
    "MACH_MSGH_BITS_LOCAL (MACH_MSGH_BITS_OTHER b OR MACH_MSGH_BITS x y) = y"
proof -
  have "MACH_MSGH_BITS_REMOTE (MACH_MSGH_BITS x y) = x \<and> MACH_MSGH_BITS_LOCAL (MACH_MSGH_BITS x y) = y \<and>
      MACH_MSGH_BITS_PORTS (MACH_MSGH_BITS x y) = MACH_MSGH_BITS x y"
    if "MACH_MSGH_BITS_PORTS (MACH_MSGH_BITS x y) = MACH_MSGH_BITS x y"
    using ports_bits [OF assms] that by blast
  moreover have "MACH_MSGH_BITS_PORTS (MACH_MSGH_BITS x y) = MACH_MSGH_BITS x y"
  proof (rule bit_word_eqI)
    fix i
    have "take_bit 8 x = x" "take_bit 8 y = y"
      using assms by (simp_all add: take_bit_eq_mod word_unat_eq_iff unat_mod_distrib word_less_nat_alt)
    then have "bit x i \<Longrightarrow> i < 8" "bit y (i - 8) \<Longrightarrow> i - 8 < 8" by (metis bit_take_bit_iff)+
    then show "bit (MACH_MSGH_BITS_PORTS (MACH_MSGH_BITS x y)) i = bit (MACH_MSGH_BITS x y) i"
      unfolding bit_msgh(1) by (auto simp: MACH_MSGH_BITS_def bit_simps)
  qed
  moreover have "MACH_MSGH_BITS_PORTS (MACH_MSGH_BITS_OTHER b OR c) = MACH_MSGH_BITS_PORTS c" for c
    by (rule bit_word_eqI) (auto simp: bit_msgh other_bits bit_or_iff)
  ultimately show "MACH_MSGH_BITS_REMOTE (MACH_MSGH_BITS_OTHER b OR MACH_MSGH_BITS x y) = x"
    "MACH_MSGH_BITS_LOCAL (MACH_MSGH_BITS_OTHER b OR MACH_MSGH_BITS x y) = y"
    using ports_bits [OF assms, of "MACH_MSGH_BITS_OTHER b OR MACH_MSGH_BITS x y"] by simp_all
qed

text \<open>The bits that the copyin clears are no bits of the ports.\<close>

definition sent_bits :: "mach_msg_bits_t \<Rightarrow> mach_msg_bits_t" where
  "sent_bits b = b AND NOT (MACH_MSGH_BITS_CIRCULAR OR MACH_MSGH_BITS_OLD_FORMAT)"

lemma ports_sent [simp]:
  "MACH_MSGH_BITS_REMOTE (sent_bits b) = MACH_MSGH_BITS_REMOTE b" "MACH_MSGH_BITS_LOCAL (sent_bits b) = MACH_MSGH_BITS_LOCAL b"
proof -
  have "take_bit 16 MACH_MSGH_BITS_CIRCULAR = 0" "take_bit 16 MACH_MSGH_BITS_OLD_FORMAT = 0" by (simp_all add: msgh_defs)
  then have "\<not> bit MACH_MSGH_BITS_CIRCULAR i" "\<not> bit MACH_MSGH_BITS_OLD_FORMAT i" if "i < 16" for i
    using that by (metis bit_take_bit_iff bit_0_eq bot_fun_def bot_bool_def)+
  then have "bit (sent_bits b) i = bit b i" if "i < 16" for i
    using that by (auto simp: sent_bits_def bit_and_iff bit_or_iff bit_not_iff dest: bit_imp_le_length)
  then show "MACH_MSGH_BITS_REMOTE (sent_bits b) = MACH_MSGH_BITS_REMOTE b" "MACH_MSGH_BITS_LOCAL (sent_bits b) = MACH_MSGH_BITS_LOCAL b"
    by (auto intro!: bit_word_eqI simp: bit_msgh)
qed

section \<open>The parties\<close>

text \<open>The client can send to \<open>p\<close> and receive from \<open>q\<close>.\<close>

definition client :: "ipc_kernel \<Rightarrow> space_id \<Rightarrow> mach_port_t \<Rightarrow> mach_port_t \<Rightarrow> port_id \<Rightarrow> port_id \<Rightarrow> bool" where
  "client K s dn rn p q \<longleftrightarrow> is_active (k_spaces K s) \<and> valid_names K s \<and>
     holds (\<lambda>e. test (ie_bits e) MACH_PORT_TYPE_SEND \<and> ie_object e = IO_PORT p) (entries K s dn) \<and>
     receive_at K s rn q \<and> 0 < ip_srights (k_ports K p)"

text \<open>The server holds the receive right for \<open>p\<close>, and \<open>m\<close> is a name it has not used.\<close>

definition server :: "ipc_kernel \<Rightarrow> space_id \<Rightarrow> mach_port_t \<Rightarrow> mach_port_t \<Rightarrow> port_id \<Rightarrow> bool" where
  "server K r n m p \<longleftrightarrow> is_active (k_spaces K r) \<and> valid_names K r \<and> receive_at K r n p \<and>
     MACH_PORT_VALID m \<and> entries K r m = None"

text \<open>A send-once right for \<open>q\<close> is made, and the entry that holds it.\<close>

definition make_sonce :: "port_id \<Rightarrow> ipc_kernel \<Rightarrow> ipc_kernel" where
  "make_sonce q K = ip_reference q (upd_port q (ip_sorights_update (\<lambda>n. n + 1)) K)"

definition sonce_entry :: "port_id \<Rightarrow> ipc_entry" where
  "sonce_entry q = \<lparr>ie_bits = MACH_PORT_TYPE_SEND_ONCE OR 1, ie_object = IO_PORT q, ie_request = 0\<rparr>"

lemma receive_active:
  assumes "kernel_wf K" and "receive_at K s n p"
  shows "ip_active (k_ports K p)" "ip_data (k_ports K p) = Ip_Receiver s" "ip_receiver_name (k_ports K p) = n"
  using port_wfD(2) [OF kernel_wfD(2) [OF assms(1)] assms(2)] by (simp_all add: receiver_def)

lemma make_sonce_simps [simp]:
  "entries (make_sonce q K) = entries K" "k_spaces (make_sonce q K) = k_spaces K" "k_hash (make_sonce q K) = k_hash K"
  "ip_active (k_ports (make_sonce q K) p) = ip_active (k_ports K p)" "ip_data (k_ports (make_sonce q K) p) = ip_data (k_ports K p)"
  "ip_receiver_name (k_ports (make_sonce q K) p) = ip_receiver_name (k_ports K p)"
  "ip_srights (k_ports (make_sonce q K) p) = ip_srights (k_ports K p)"
  by (simp_all add: make_sonce_def ip_reference_def upd_port_def entries_def fun_eq_iff)

section \<open>The request\<close>

lemma request_copyin:
  assumes wf: "kernel_wf K" and c: "client K s dn rn p q" and a: "ip_active (k_ports K p)"
    and b: "MACH_MSGH_BITS_PORTS b = MACH_MSGH_BITS 19 21"
  shows "ipc_kmsg_copyin_header in_table collides lock_try \<lparr>msgh_bits = b, msgh_remote_port = dn, msgh_local_port = rn\<rparr> s MACH_PORT_NULL K =
    Some (Inr \<lparr>msgh_bits = MACH_MSGH_BITS_OTHER (sent_bits b) OR MACH_MSGH_BITS 17 18,
               msgh_remote_port = IO_PORT p, msgh_local_port = IO_PORT q\<rparr>,
          make_sonce q (ip_reference p (upd_port p (ip_srights_update (\<lambda>n. n + 1)) K)))"
proof -
  have bits: "MACH_MSGH_BITS_REMOTE (sent_bits b) = 19" "MACH_MSGH_BITS_LOCAL (sent_bits b) = 21"
    using b by (simp_all add: ports_bits)
  have v: "valid_names K s" using c by (simp add: client_def)
  have "copyin_header_request (\<lambda>_. True) True s dn rn (sent_bits b) K = Some
      (\<lparr>msgh_bits = MACH_MSGH_BITS_OTHER (sent_bits b) OR MACH_MSGH_BITS 17 18, msgh_remote_port = IO_PORT p, msgh_local_port = IO_PORT q\<rparr>,
       make_sonce q (ip_reference p (upd_port p (ip_srights_update (\<lambda>n. n + 1)) K)))"
    using c a by (auto simp: client_def holds_def receive_at_def copyin_header_request_def fast_lookup_def entry_port_def make_sonce_def split: option.splits)
  from request_general [OF wf v bits this] show ?thesis
    by (simp add: header_common_general [OF wf v] sent_bits_def)
qed

lemma upd_port_undo:
  assumes "\<And>x. g (f x) = x"
  shows "upd_port p g (upd_port p f K) = K"
  by (cases K) (simp add: upd_port_def assms)

lemma upd_port_make:
  assumes "\<And>x. g (ip_references_update (\<lambda>n. n + 1) x) = ip_references_update (\<lambda>n. n + 1) (g x)"
    and "\<And>x. g (ip_sorights_update (\<lambda>n. n + 1) x) = ip_sorights_update (\<lambda>n. n + 1) (g x)"
  shows "upd_port p g (make_sonce q K) = make_sonce q (upd_port p g K)"
  unfolding make_sonce_def ip_reference_def
  by (simp only: upd_port_commute [of g "ip_references_update (\<lambda>n. n + 1)", OF assms(1)]
      upd_port_commute [of g "ip_sorights_update (\<lambda>n. n + 1)", OF assms(2)])

lemma release_over_make: "ip_release p (make_sonce q (ip_reference p K)) = make_sonce q K"
proof -
  have "ip_reference p (make_sonce q K) = make_sonce q (ip_reference p K)"
    unfolding ip_reference_def by (rule upd_port_make) (rule refl, rule references_commute(5))
  then show ?thesis by (metis release_after_reference)
qed

lemma drop_over_make:
  assumes "0 < ip_srights (k_ports K p)"
  shows "drop_sright p (make_sonce q (upd_port p (ip_srights_update (\<lambda>n. n + 1)) K)) = (None, make_sonce q K)"
proof -
  let ?d = "ip_srights_update (\<lambda>n. n - 1)" and ?i = "ip_srights_update (\<lambda>n. n + 1)"
  have c: "?d (?i x) = x" "?d (ip_references_update f x) = ip_references_update f (?d x)"
    "?d (ip_sorights_update f x) = ip_sorights_update f (?d x)" for f and x :: ipc_port
    by (cases x; simp)+
  have "upd_port p ?d (make_sonce q (upd_port p ?i K)) = make_sonce q K"
    by (simp only: upd_port_make [OF c(2,3)] upd_port_undo [of ?d ?i, OF c(1)])
  then show ?thesis using assms by (simp add: drop_sright_def Let_def)
qed

lemma request_copyout:
  assumes wf: "kernel_wf K" and c: "0 < ip_srights (k_ports K p)" "ip_active (k_ports K q)" and sv: "server K r n m p"
    and alloc: "alloc 0 = Inr m" and free: "free \<in> {None, Some m}"
    and bits: "MACH_MSGH_BITS_REMOTE b = 17" "MACH_MSGH_BITS_LOCAL b = 18"
  shows "ipc_kmsg_copyout_header alloc free lock_try
      \<lparr>msgh_bits = b, msgh_remote_port = IO_PORT p, msgh_local_port = IO_PORT q\<rparr> r MACH_PORT_NULL
      (make_sonce q (ip_reference p (upd_port p (ip_srights_update (\<lambda>n. n + 1)) K))) =
    Some (Inr \<lparr>msgh_bits = MACH_MSGH_BITS_OTHER b OR MACH_MSGH_BITS 18 17, msgh_remote_port = m, msgh_local_port = n\<rparr>,
          set_entry r m (sonce_entry q) (make_sonce q K))"
proof -
  define L where "L = upd_port p (ip_srights_update (\<lambda>n. n + 1)) K"
  let ?K = "make_sonce q (ip_reference p L)" and ?msg = "\<lparr>msgh_bits = b, msgh_remote_port = IO_PORT p, msgh_local_port = IO_PORT q\<rparr>"
  have r: "receive_at K r n p" "is_active (k_spaces K r)" using sv by (simp_all add: server_def)
  note P = receive_active [OF wf r(1)]
  have a: "is_active (k_spaces ?K r)" using r(2) by (simp add: L_def ip_reference_def)
  have refs: "0 < ip_references (k_ports ?K p)" by (simp add: make_sonce_def ip_reference_def)
  have rel: "ip_release p (set_entry r m e ?K) = set_entry r m e (make_sonce q L)" for e
    using release_over_make [of p q L] by (simp add: ip_release_def upd_port_set_entry)
  have drop: "drop_sright p (set_entry r m e (make_sonce q L)) = (None, set_entry r m e (make_sonce q K))" for e
    using drop_over_make [OF c(1), of q] by (auto simp: L_def drop_sright_def Let_def upd_port_set_entry split: if_splits option.splits)
  have L: "ip_data (k_ports (make_sonce q L) p) = Ip_Receiver r" "ip_receiver_name (k_ports (make_sonce q L) p) = n"
    using P by (simp_all add: L_def)
  have act: "ip_active (k_ports ?K p)" "ip_active (k_ports ?K q)" using P c(2) by (simp_all add: L_def ip_reference_def)
  have "copyout_header_request (Some m) True r p (IO_PORT q) b ?K =
      Some (\<lparr>msgh_bits = MACH_MSGH_BITS_OTHER b OR MACH_MSGH_BITS 18 17, msgh_remote_port = m, msgh_local_port = n\<rparr>,
            set_entry r m (sonce_entry q) (make_sonce q K))"
    by (simp add: copyout_header_request_def a act sonce_entry_def dest_send_def rel drop L send_no_senders_def del: make_sonce_simps)
  from copyout_request_general [where free = "Some m" and alloc = alloc, OF a refs bits _ this] alloc
  have "copyout_header_general alloc r MACH_PORT_NULL p (IO_PORT q) b ?K =
      Some (Inr \<lparr>msgh_bits = MACH_MSGH_BITS_OTHER b OR MACH_MSGH_BITS 18 17, msgh_remote_port = m, msgh_local_port = n\<rparr>,
            set_entry r m (sonce_entry q) (make_sonce q K))" by simp
  moreover have "ipc_kmsg_copyout_header alloc free lock_try ?msg r MACH_PORT_NULL ?K =
      copyout_header_general alloc r MACH_PORT_NULL p (IO_PORT q) b ?K"
    using header_copyout_general [where free = free and alloc = alloc, OF a, of ?msg p] refs bits alloc free
    by (auto simp: header_ready_def)
  ultimately show ?thesis unfolding L_def by simp
qed

section \<open>The reply\<close>

lemma sonce_entry_simps [simp]:
  "ie_object (sonce_entry q) = IO_PORT q" "ie_request (sonce_entry q) = 0"
  "IE_BITS_TYPE (ie_bits (sonce_entry q)) = MACH_PORT_TYPE_SEND_ONCE" "entry_ok (sonce_entry q)"
  "test (ie_bits (sonce_entry q)) MACH_PORT_TYPE_SEND_ONCE" "\<not> test (ie_bits (sonce_entry q)) MACH_PORT_TYPE_RECEIVE"
  by (simp_all add: sonce_entry_def entry_ok_def entry_port_def) (simp_all add: bits_defs)

lemma wf_sonce:
  assumes wf: "kernel_wf K" and m: "entries K r m = None"
  shows "kernel_wf (set_entry r m (sonce_entry q) (make_sonce q K))" (is "kernel_wf ?K")
proof (rule wf_keep [OF wf])
  show "effect K ?K r m q (Some (sonce_entry q)) (k_hash K r q) (receiver (k_ports K q))"
    by (simp add: effect_def receiver_def)
  show "about_port K r m q (Some (sonce_entry q))" using m by (simp add: about_port_def)
qed (simp_all add: send_at_def receive_at_def m)

lemma reply_copyin:
  assumes wf: "kernel_wf K" and sv: "server K r n m p" and a: "ip_active (k_ports K q)"
    and b: "MACH_MSGH_BITS_PORTS b = MACH_MSGH_BITS 18 0"
  shows "ipc_kmsg_copyin_header in_table collides lock_try \<lparr>msgh_bits = b, msgh_remote_port = m, msgh_local_port = MACH_PORT_NULL\<rparr>
      r MACH_PORT_NULL (set_entry r m (sonce_entry q) (make_sonce q K)) =
    Some (Inr \<lparr>msgh_bits = MACH_MSGH_BITS_OTHER (sent_bits b) OR MACH_MSGH_BITS 18 0,
               msgh_remote_port = IO_PORT q, msgh_local_port = IO_NULL\<rparr>, make_sonce q K)"
proof -
  let ?K = "set_entry r m (sonce_entry q) (make_sonce q K)"
  have m: "entries K r m = None" "MACH_PORT_VALID m" "valid_names K r" "is_active (k_spaces K r)" using sv by (simp_all add: server_def)
  have bits: "MACH_MSGH_BITS_REMOTE (sent_bits b) = 18" "MACH_MSGH_BITS_LOCAL (sent_bits b) = 0"
    using b by (simp_all add: ports_bits)
  have wf': "kernel_wf ?K" by (rule wf_sonce [OF wf m(1)])
  have v: "valid_names ?K r" using m(2,3) by (auto simp: valid_names_def MACH_PORT_VALID_def)
  have "is_entries_update (\<lambda>x. x(m := None)) (k_spaces K r) = k_spaces K r"
    using m(1) by (cases "k_spaces K r") (simp add: entries_def fun_upd_idem)
  then have "entry_dealloc r m ?K = make_sonce q K"
    by (cases K) (simp add: upd_defs make_sonce_def ip_reference_def comp_def)
  then have "copyin_header_reply (\<lambda>_. True) (\<lambda>_. False) r m MACH_PORT_NULL (sent_bits b) ?K =
      Some (\<lparr>msgh_bits = MACH_MSGH_BITS_OTHER (sent_bits b) OR MACH_MSGH_BITS 18 0,
             msgh_remote_port = IO_PORT q, msgh_local_port = IO_NULL\<rparr>, make_sonce q K)"
    using m(4) a by (simp add: copyin_header_reply_def fast_lookup_def entry_port_def cast_name_def)
  from reply_general [OF wf' v bits this] show ?thesis
    by (simp add: header_common_general [OF wf' v] sent_bits_def)
qed

lemma reply_copyout:
  assumes wf: "kernel_wf K" and q: "receive_at K s rn q" "is_active (k_spaces K s)"
    and bits: "MACH_MSGH_BITS_REMOTE b = 18" "MACH_MSGH_BITS_LOCAL b = 0"
  shows "ipc_kmsg_copyout_header alloc free lock_try \<lparr>msgh_bits = b, msgh_remote_port = IO_PORT q, msgh_local_port = IO_NULL\<rparr>
      s MACH_PORT_NULL (make_sonce q K) =
    Some (Inr \<lparr>msgh_bits = MACH_MSGH_BITS_OTHER b OR MACH_MSGH_BITS 0 18, msgh_remote_port = MACH_PORT_NULL, msgh_local_port = rn\<rparr>, K)"
proof -
  note P = receive_active [OF wf q(1)]
  have "upd_port q (ip_sorights_update (\<lambda>n. n - 1)) (ip_release q (make_sonce q K)) = K"
  proof -
    have "ip_sorights_update (\<lambda>n. n - 1) (ip_sorights_update (\<lambda>n. n + 1) x) = x" for x :: ipc_port by (cases x) simp
    then show ?thesis by (simp only: make_sonce_def release_after_reference upd_port_undo)
  qed
  then have "dest_send_once s q (make_sonce q K) = (rn, K)" using P by (simp add: dest_send_once_def Let_def)
  moreover have "MACH_MSGH_BITS_PORTS b = MACH_MSGH_BITS 18 0" using bits by (simp add: ports_bits)
  moreover have "MACH_MSGH_BITS 18 0 \<noteq> MACH_MSGH_BITS 17 0" "MACH_MSGH_BITS 18 0 \<noteq> MACH_MSGH_BITS 17 18" by (simp_all add: msgh_defs)
  ultimately show ?thesis using P
    by (simp add: ipc_kmsg_copyout_header_def copyout_header_common_def copyout_header_reply_def)
qed

section \<open>A remote procedure call\<close>

text \<open>
  C6: a remote procedure call moves the rights it should and leaves nothing behind. A request that
  copies the client's send right to \<open>p\<close> and makes a send-once right for its reply port \<open>q\<close> goes through
  \<^verbatim>\<open>ipc_kmsg_copyin_header\<close> in the client's and \<^verbatim>\<open>ipc_kmsg_copyout_header\<close> in the server's space; the server
  then sees its own name for \<open>p\<close> and a new name for the send-once right, in a state that differs from the
  first one by this right only. The reply that moves the right to the client arrives under the client's name
  for \<open>q\<close>, and the final state, with every count of references and rights, is the first one. This holds
  whichever of the common and general cases the routines take.
\<close>

theorem rpc_roundtrip:
  assumes "kernel_wf K" and "client K s dn rn p q" and "server K r n m p"
    and "alloc 0 = Inr m" and "free \<in> {None, Some m}"
    and "MACH_MSGH_BITS_PORTS b = MACH_MSGH_BITS 19 21" and "MACH_MSGH_BITS_PORTS b' = MACH_MSGH_BITS 18 0"
  shows "\<exists>request K1 received K2 reply K3 answer.
    ipc_kmsg_copyin_header in_table collides lock_try \<lparr>msgh_bits = b, msgh_remote_port = dn, msgh_local_port = rn\<rparr>
      s MACH_PORT_NULL K = Some (Inr request, K1) \<and>
    ipc_kmsg_copyout_header alloc free lock_try request r MACH_PORT_NULL K1 = Some (Inr received, K2) \<and>
    msgh_local_port received = n \<and> msgh_remote_port received = m \<and>
    MACH_MSGH_BITS_PORTS (msgh_bits received) = MACH_MSGH_BITS 18 17 \<and>
    kernel_wf K2 \<and> K2 = set_entry r m (sonce_entry q) (make_sonce q K) \<and>
    ipc_kmsg_copyin_header in_table collides lock_try
      \<lparr>msgh_bits = b', msgh_remote_port = msgh_remote_port received, msgh_local_port = MACH_PORT_NULL\<rparr>
      r MACH_PORT_NULL K2 = Some (Inr reply, K3) \<and>
    ipc_kmsg_copyout_header alloc' free' lock_try reply s MACH_PORT_NULL K3 = Some (Inr answer, K) \<and>
    msgh_local_port answer = rn \<and> msgh_remote_port answer = MACH_PORT_NULL \<and>
    MACH_MSGH_BITS_PORTS (msgh_bits answer) = MACH_MSGH_BITS 0 18"
proof -
  note C = assms(2) [unfolded client_def] and S = assms(3) [unfolded server_def]
  have p: "ip_active (k_ports K p)" using receive_active(1) [OF assms(1)] S by blast
  have q: "receive_at K s rn q" "is_active (k_spaces K s)" "ip_active (k_ports K q)"
    using receive_active(1) [OF assms(1)] C by blast+
  have pos: "0 < ip_srights (k_ports K p)" and fresh: "entries K r m = None" using C S by blast+
  let ?b = "MACH_MSGH_BITS_OTHER (sent_bits b) OR MACH_MSGH_BITS 17 18" and ?b' = "MACH_MSGH_BITS_OTHER (sent_bits b') OR MACH_MSGH_BITS 18 0"
  have bits: "MACH_MSGH_BITS_REMOTE ?b = 17" "MACH_MSGH_BITS_LOCAL ?b = 18" "MACH_MSGH_BITS_REMOTE ?b' = 18" "MACH_MSGH_BITS_LOCAL ?b' = 0"
    by (rule ports_other; simp)+
  have ports: "MACH_MSGH_BITS_PORTS (MACH_MSGH_BITS_OTHER c OR MACH_MSGH_BITS 18 17) = MACH_MSGH_BITS 18 17"
    "MACH_MSGH_BITS_PORTS (MACH_MSGH_BITS_OTHER c OR MACH_MSGH_BITS 0 18) = MACH_MSGH_BITS 0 18" for c
    by (simp_all add: ports_bits ports_other)
  note steps = request_copyin [OF assms(1,2) p assms(6)]
    request_copyout [where alloc = alloc and free = free, OF assms(1) pos q(3) assms(3-5) bits(1,2)]
    reply_copyin [OF assms(1,3) q(3) assms(7)] reply_copyout [OF assms(1) q(1,2) bits(3,4)]
  show ?thesis
    by (intro exI conjI, rule steps(1), rule steps(2), unfold mach_msg_header.select_convs,
        (rule refl)+, rule ports(1), rule wf_sonce [OF assms(1) fresh], rule refl, rule steps(3), rule steps(4),
        unfold mach_msg_header.select_convs, (rule refl)+, rule ports(2))
qed

text \<open>A client with a send right for the server's port \<open>2\<close> and a reply port \<open>4\<close> of its own.\<close>

definition rpc_demo :: ipc_kernel where
  "rpc_demo =
     upd_port 2 (\<lambda>x. x\<lparr>ip_data := Ip_Receiver 5, ip_receiver_name := 0x700, ip_srights := 1\<rparr>)
      (upd_port 4 (\<lambda>x. x\<lparr>ip_data := Ip_Receiver 3, ip_receiver_name := 0x600\<rparr>)
        (ipc_hash_insert 3 2 0x500
          (set_entry 3 0x500 \<lparr>ie_bits = 0x00010001, ie_object = IO_PORT 2, ie_request = 0\<rparr>
            (set_entry 3 0x600 \<lparr>ie_bits = 0x00020000, ie_object = IO_PORT 4, ie_request = 0\<rparr>
              (set_entry 5 0x700 \<lparr>ie_bits = 0x00020000, ie_object = IO_PORT 2, ie_request = 0\<rparr> kernel0)))))"

lemma rpc_demo_entries:
  "entries rpc_demo s n =
     (if s = 3 \<and> n = 0x500 then Some \<lparr>ie_bits = 0x00010001, ie_object = IO_PORT 2, ie_request = 0\<rparr>
      else if s = 3 \<and> n = 0x600 then Some \<lparr>ie_bits = 0x00020000, ie_object = IO_PORT 4, ie_request = 0\<rparr>
      else if s = 5 \<and> n = 0x700 then Some \<lparr>ie_bits = 0x00020000, ie_object = IO_PORT 2, ie_request = 0\<rparr>
      else None)"
  "k_hash rpc_demo s p = (if s = 3 \<and> p = 2 then Some 0x500 else None)"
  "receiver (k_ports rpc_demo p) =
     (True, if p = 2 then Ip_Receiver 5 else if p = 4 then Ip_Receiver 3 else Ip_Null,
      if p = 2 then 0x700 else if p = 4 then 0x600 else MACH_PORT_NULL)"
  "is_active (k_spaces rpc_demo s)" "ip_srights (k_ports rpc_demo 2) = 1"
  by (simp_all add: rpc_demo_def entries_def receiver_def upd_defs ipc_hash_insert_def state0_defs)

lemma rpc_demo_wf: "kernel_wf rpc_demo"
proof -
  have t: "IE_BITS_TYPE 0x00010001 = MACH_PORT_TYPE_SEND" "IE_BITS_TYPE 0x00020000 \<noteq> MACH_PORT_TYPE_SEND"
    "test 0x00020000 MACH_PORT_TYPE_RECEIVE" "\<not> test 0x00010001 MACH_PORT_TYPE_RECEIVE" by (simp_all add: bits_defs)
  have "entry_ok \<lparr>ie_bits = 0x00010001, ie_object = IO_PORT 2, ie_request = 0\<rparr>"
    "entry_ok \<lparr>ie_bits = 0x00020000, ie_object = IO_PORT p, ie_request = 0\<rparr>" for p
    by (simp_all add: entry_ok_def entry_port_def bits_defs)
  moreover have "send_at rpc_demo s n p \<longleftrightarrow> s = 3 \<and> n = 0x500 \<and> p = 2"
    "receive_at rpc_demo s n p \<longleftrightarrow> s = 3 \<and> n = 0x600 \<and> p = 4 \<or> s = 5 \<and> n = 0x700 \<and> p = 2" for s n p
    using t by (auto simp: send_at_def receive_at_def rpc_demo_entries)
  ultimately show ?thesis by (auto simp: kernel_wf_def port_wf_def rpc_demo_entries split: if_splits)
qed

theorem rpc_roundtrip_witness:
  "\<exists>request K1 received K2 reply K3 answer.
    ipc_kmsg_copyin_header (\<lambda>_. True) (\<lambda>_. False) True
      \<lparr>msgh_bits = MACH_MSGH_BITS 19 21, msgh_remote_port = 0x500, msgh_local_port = 0x600\<rparr> 3 MACH_PORT_NULL rpc_demo =
      Some (Inr request, K1) \<and>
    ipc_kmsg_copyout_header (\<lambda>_. Inr 0x800) (Some 0x800) True request 5 MACH_PORT_NULL K1 = Some (Inr received, K2) \<and>
    msgh_local_port received = 0x700 \<and> msgh_remote_port received = 0x800 \<and>
    ipc_kmsg_copyin_header (\<lambda>_. True) (\<lambda>_. False) True
      \<lparr>msgh_bits = MACH_MSGH_BITS 18 0, msgh_remote_port = 0x800, msgh_local_port = MACH_PORT_NULL\<rparr> 5 MACH_PORT_NULL K2 =
      Some (Inr reply, K3) \<and>
    ipc_kmsg_copyout_header (\<lambda>_. Inr 0x800) None True reply 3 MACH_PORT_NULL K3 = Some (Inr answer, rpc_demo) \<and>
    msgh_local_port answer = 0x600"
proof -
  have v: "valid_names rpc_demo 3" "valid_names rpc_demo 5" "MACH_PORT_VALID 0x800"
    by (simp_all add: valid_names_def rpc_demo_entries MACH_PORT_VALID_def MACH_PORT_NULL_def MACH_PORT_DEAD_def)
  have c: "client rpc_demo 3 0x500 0x600 2 4"
    using v by (simp add: client_def rpc_demo_entries receive_at_def) (simp add: bits_defs)
  have s: "server rpc_demo 5 0x700 0x800 2"
    using v by (simp add: server_def rpc_demo_entries receive_at_def) (simp add: bits_defs)
  have b: "MACH_MSGH_BITS_PORTS (MACH_MSGH_BITS 19 21) = MACH_MSGH_BITS 19 21" "MACH_MSGH_BITS_PORTS (MACH_MSGH_BITS 18 0) = MACH_MSGH_BITS 18 0"
    by (simp_all add: msgh_defs)
  from rpc_roundtrip [where alloc = "\<lambda>_. Inr 0x800" and free = "Some 0x800" and alloc' = "\<lambda>_. Inr 0x800" and free' = None
      and in_table = "\<lambda>_. True" and collides = "\<lambda>_. False" and lock_try = True, OF rpc_demo_wf c s _ _ b]
  show ?thesis by force
qed

end
