(* ===== verification/Kmsg_Body.thy ===== *)
theory Kmsg_Body
  imports Kmsg_Copyout Kmsg_Buffer
begin

text \<open>
  The bodies of messages: \<^verbatim>\<open>ipc_kmsg_clean_body\<close>, \<^verbatim>\<open>ipc_kmsg_clean_partial\<close>, \<^verbatim>\<open>ipc_kmsg_copyin_body\<close>,
  \<^verbatim>\<open>ipc_kmsg_copyin\<close> and \<^verbatim>\<open>ipc_kmsg_copyin_from_kernel\<close>, as they are compiled with \<^verbatim>\<open>MACH_OLD_VM_COPY\<close> and
  \<^verbatim>\<open>OLD_VM_CODE\<close>, the default of \<^verbatim>\<open>conf/MASTER\<close>.

  The virtual memory system is a parameter: the answers it gives, which may depend on the calls made so
  far. The calls are kept in a log, the latest first. Arrays of ports in kernel memory are lists under
  their address. \<open>None\<close> stands for a panic, or for an access through a word that is no pointer to
  such an object.
\<close>

section \<open>Descriptors\<close>

type_synonym vm_offset_t = "32 word"
type_synonym vm_size_t = "32 word"
type_synonym mach_msg_copy_options_t = "32 word"

definition MACH_MSG_PHYSICAL_COPY :: mach_msg_copy_options_t where "MACH_MSG_PHYSICAL_COPY = 0"
definition MACH_MSG_VIRTUAL_COPY :: mach_msg_copy_options_t where "MACH_MSG_VIRTUAL_COPY = 1"
definition MACH_MSG_ALLOCATE :: mach_msg_copy_options_t where "MACH_MSG_ALLOCATE = 2"
definition MACH_MSG_OVERWRITE :: mach_msg_copy_options_t where "MACH_MSG_OVERWRITE = 3"

text \<open>
  The union of descriptors; \<open>'p\<close> is the type of a port, its name or the object. \<open>dsc_size\<close> is the second
  word, the size of memory in bytes or the number of ports of an array. A bad descriptor has another type.
\<close>

datatype 'p mach_msg_descriptor =
    Port_Descriptor (dsc_name: 'p) (dsc_disposition: mach_msg_type_name_t)
  | Ool_Descriptor (dsc_address: vm_offset_t) (dsc_size: mach_msg_size_t) (dsc_deallocate: bool)
      (dsc_copy: mach_msg_copy_options_t)
  | Ool_Ports_Descriptor (dsc_address: vm_offset_t) (dsc_size: mach_msg_size_t) (dsc_deallocate: bool)
      (dsc_copy: mach_msg_copy_options_t) (dsc_disposition: mach_msg_type_name_t)
  | Bad_Descriptor (dsc_address: vm_offset_t) (dsc_size: mach_msg_size_t) (dsc_deallocate: bool)
      (dsc_copy: mach_msg_copy_options_t) (dsc_type: "32 word")

section \<open>Virtual memory\<close>

datatype vm_map = User_Map | Ipc_Kernel_Copy_Map | Ipc_Soft_Map

datatype vm_event =
    Vm_Allocate vm_map vm_offset_t vm_size_t
  | Vm_Deallocate vm_map vm_offset_t vm_size_t
  | Copyin vm_offset_t vm_offset_t vm_size_t
  | Bzero vm_offset_t vm_size_t
  | Vm_Move vm_map vm_offset_t vm_map vm_offset_t vm_size_t
  | Vm_Map_Copy vm_offset_t vm_size_t vm_offset_t
  | Kalloc vm_offset_t vm_size_t
  | Kfree vm_offset_t vm_size_t
  | Copyinmap vm_offset_t vm_offset_t vm_size_t
  | Copyoutmap vm_offset_t vm_offset_t vm_size_t

text \<open>
  The answers: where memory is allocated, whether a copy from user memory fails, where moved memory
  arrives, what \<^verbatim>\<open>kalloc\<close> returns (zero when it fails), the names that \<^verbatim>\<open>copyinmap\<close> reads from user memory,
  and whether memory of the receiver can be overwritten.
\<close>

record vm_answers =
  va_allocate :: "vm_event list \<Rightarrow> vm_map \<Rightarrow> vm_size_t \<Rightarrow> kern_return_t + vm_offset_t"
  va_copyin_fails :: "vm_event list \<Rightarrow> vm_offset_t \<Rightarrow> vm_size_t \<Rightarrow> bool"
  va_move :: "vm_event list \<Rightarrow> vm_map \<Rightarrow> vm_offset_t \<Rightarrow> vm_map \<Rightarrow> vm_size_t \<Rightarrow> kern_return_t + vm_offset_t"
  va_kalloc :: "vm_event list \<Rightarrow> vm_size_t \<Rightarrow> vm_offset_t"
  va_copyinmap :: "vm_event list \<Rightarrow> vm_offset_t \<Rightarrow> vm_size_t \<Rightarrow> mach_port_t list option"
  va_map_copy :: "vm_event list \<Rightarrow> vm_offset_t \<Rightarrow> vm_size_t \<Rightarrow> vm_offset_t \<Rightarrow> kern_return_t"

record kmem =
  km_kernel :: ipc_kernel
  km_arrays :: "vm_offset_t \<rightharpoonup> ipc_object list"
  km_log :: "vm_event list"

definition log_event :: "vm_event \<Rightarrow> kmem \<Rightarrow> kmem" where
  "log_event ev = km_log_update (\<lambda>l. ev # l)"

definition set_kernel :: "ipc_kernel \<Rightarrow> kmem \<Rightarrow> kmem" where
  "set_kernel K = km_kernel_update (\<lambda>_. K)"

definition kfree_array :: "vm_offset_t \<Rightarrow> vm_size_t \<Rightarrow> kmem \<Rightarrow> kmem" where
  "kfree_array address len S = log_event (Kfree address len) (S\<lparr>km_arrays := (km_arrays S)(address := None)\<rparr>)"

text \<open>\<^verbatim>\<open>round_page\<close> on machine words; \<open>page_mask\<close> is one less than the size of a page.\<close>

definition round_page_word :: "32 word \<Rightarrow> vm_size_t \<Rightarrow> vm_size_t" where
  "round_page_word page_mask x = (x + page_mask) AND NOT page_mask"

section \<open>Cleaning\<close>

definition destroy_right :: "ipc_object \<Rightarrow> mach_msg_type_name_t \<Rightarrow> ipc_kernel \<Rightarrow> ipc_kernel option" where
  "destroy_right object msgt_name K = do { r \<leftarrow> msg_right_of msgt_name; ipc_object_destroy object r K }"

text \<open>The first \<open>n\<close> objects of an array.\<close>

fun destroy_objects :: "mach_msg_type_name_t \<Rightarrow> nat \<Rightarrow> ipc_object list \<Rightarrow> ipc_kernel \<Rightarrow> ipc_kernel option" where
  "destroy_objects msgt_name n [] K = (if n = 0 then Some K else None)"
| "destroy_objects msgt_name n (object # objects) K =
     (if n = 0 then Some K
      else if \<not> IO_VALID object then destroy_objects msgt_name (n - 1) objects K
      else do {
        K \<leftarrow> destroy_right object msgt_name K;
        destroy_objects msgt_name (n - 1) objects K
      })"

fun clean_descriptor :: "ipc_object mach_msg_descriptor \<Rightarrow> kmem \<Rightarrow> kmem option" where
  "clean_descriptor (Port_Descriptor object disposition) S =
     (if \<not> IO_VALID object then Some S
      else do { K \<leftarrow> destroy_right object disposition (km_kernel S); Some (set_kernel K S) })"
| "clean_descriptor (Ool_Descriptor address sz dealloc copy) S =
     Some (if sz = 0 then S else log_event (Vm_Deallocate Ipc_Soft_Map address sz) S)"
| "clean_descriptor (Ool_Ports_Descriptor address number dealloc copy disposition) S =
     (if number = 0 then Some S
      else do {
        objects \<leftarrow> km_arrays S address;
        K \<leftarrow> destroy_objects disposition (unat number) objects (km_kernel S);
        Some (kfree_array address (number * 4) (set_kernel K S))
      })"
| "clean_descriptor (Bad_Descriptor addr sz dealloc copy t) S = None"

fun ipc_kmsg_clean_body :: "ipc_object mach_msg_descriptor list \<Rightarrow> kmem \<Rightarrow> kmem option" where
  "ipc_kmsg_clean_body [] S = Some S"
| "ipc_kmsg_clean_body (dsc # dscs) S = do { S \<leftarrow> clean_descriptor dsc S; ipc_kmsg_clean_body dscs S }"

text \<open>
  \<^verbatim>\<open>ipc_kmsg_clean_partial\<close>: the rights of the header, the rest of the memory for physical copies, and the
  descriptors that were copied in.
\<close>

definition ipc_kmsg_clean_partial ::
  "ipc_object mach_msg_header \<Rightarrow> ipc_object mach_msg_descriptor list \<Rightarrow> vm_offset_t \<Rightarrow> vm_size_t \<Rightarrow> kmem \<Rightarrow> kmem option" where
  "ipc_kmsg_clean_partial hdr dscs paddr len S = do {
     K \<leftarrow> destroy_right (msgh_remote_port hdr) (MACH_MSGH_BITS_REMOTE (msgh_bits hdr)) (km_kernel S);
     K \<leftarrow> (if IO_VALID (msgh_local_port hdr)
          then destroy_right (msgh_local_port hdr) (MACH_MSGH_BITS_LOCAL (msgh_bits hdr)) K else Some K);
     let S = set_kernel K S;
     let S = (if paddr \<noteq> 0 then log_event (Vm_Deallocate Ipc_Kernel_Copy_Map paddr len) S else S);
     ipc_kmsg_clean_body dscs S
   }"

section \<open>Copyin\<close>

text \<open>What the loop of \<^verbatim>\<open>ipc_kmsg_copyin_body\<close> changes besides the descriptors.\<close>

record body_state =
  bs_mem :: kmem
  bs_bits :: mach_msg_bits_t
  bs_paddr :: vm_offset_t
  bs_space_needed :: vm_size_t

definition bs_event :: "vm_event \<Rightarrow> body_state \<Rightarrow> body_state" where
  "bs_event ev = bs_mem_update (log_event ev)"

text \<open>A receive right on its way to \<open>dest\<close> may close a circle.\<close>

definition note_circular ::
  "msg_right \<Rightarrow> ipc_object \<Rightarrow> port_id \<Rightarrow> mach_msg_bits_t \<Rightarrow> ipc_kernel \<Rightarrow> (mach_msg_bits_t \<times> ipc_kernel) option" where
  "note_circular disposition object dest bits K =
     (if disposition \<noteq> MACH_MSG_TYPE_PORT_RECEIVE then Some (bits, K)
      else case object of
        IO_PORT port \<Rightarrow> do {
          (circular, K) \<leftarrow> ipc_port_check_circularity port dest K;
          Some (if circular then bits OR MACH_MSGH_BITS_CIRCULAR else bits, K)
        }
      | _ \<Rightarrow> None)"

text \<open>The undoing of the copyin of an array when the name \<open>port\<close> could not be copied in.\<close>

fun undo_objects :: "mach_port_t \<Rightarrow> msg_right \<Rightarrow> ipc_object list \<Rightarrow> ipc_kernel \<Rightarrow> ipc_kernel option" where
  "undo_objects port disposition [] K = Some K"
| "undo_objects port disposition (object # objects) K =
     (if \<not> MACH_PORT_VALID port then undo_objects port disposition objects K
      else do {
        K \<leftarrow> ipc_object_destroy object disposition K;
        undo_objects port disposition objects K
      })"

text \<open>The first \<open>n\<close> elements of an array of names; \<open>objects\<close> are the elements copied in before.\<close>

fun copyin_objects ::
  "space_id \<Rightarrow> port_id \<Rightarrow> copyin_type \<Rightarrow> ipc_object list \<Rightarrow> nat \<Rightarrow> mach_port_t list \<Rightarrow> mach_msg_bits_t \<Rightarrow> ipc_kernel \<Rightarrow>
     ((mach_msg_return_t + ipc_object list \<times> mach_msg_bits_t) \<times> ipc_kernel) option" where
  "copyin_objects space dest name objects n [] bits K = (if n = 0 then Some (Inr (objects, bits), K) else None)"
| "copyin_objects space dest name objects n (port # ports) bits K =
     (if n = 0 then Some (Inr (objects, bits), K)
      else if \<not> MACH_PORT_VALID port
      then copyin_objects space dest name (objects @ [cast_name port]) (n - 1) ports bits K
      else do {
        (r, K) \<leftarrow> ipc_object_copyin space port name K;
        case r of
          Inl kr \<Rightarrow> do {
            K \<leftarrow> undo_objects port (ipc_object_copyin_type name) objects K;
            Some (Inl MACH_SEND_INVALID_RIGHT, K)
          }
        | Inr object \<Rightarrow> do {
            (bits, K) \<leftarrow> note_circular (ipc_object_copyin_type name) object dest bits K;
            copyin_objects space dest name (objects @ [object]) (n - 1) ports bits K
          }
      })"

type_synonym copyin_step = "((mach_msg_return_t + ipc_object mach_msg_descriptor) \<times> body_state) option"

definition copyin_port ::
  "space_id \<Rightarrow> port_id \<Rightarrow> mach_port_t \<Rightarrow> mach_msg_type_name_t \<Rightarrow> body_state \<Rightarrow> copyin_step" where
  "copyin_port space dest port disposition B =
     (case copyin_type_of disposition of
        None \<Rightarrow> Some (Inl MACH_SEND_INVALID_TYPE, B)
      | Some name \<Rightarrow>
          (let right = ipc_object_copyin_type name; K = km_kernel (bs_mem B)
           in if \<not> MACH_PORT_VALID port then Some (Inr (Port_Descriptor (cast_name port) (right_number right)), B)
              else do {
                (r, K) \<leftarrow> ipc_object_copyin space port name K;
                case r of
                  Inl kr \<Rightarrow> Some (Inl MACH_SEND_INVALID_RIGHT, bs_mem_update (set_kernel K) B)
                | Inr object \<Rightarrow> do {
                    (bits, K) \<leftarrow> note_circular right object dest (bs_bits B) K;
                    Some (Inr (Port_Descriptor object (right_number right)),
                          bs_mem_update (set_kernel K) (B\<lparr>bs_bits := bits\<rparr>))
                  }
              }))"

text \<open>Out-of-line memory: a physical copy goes through the memory that was allocated for it.\<close>

definition copyin_ool ::
  "vm_answers \<Rightarrow> 32 word \<Rightarrow> vm_offset_t \<Rightarrow> vm_size_t \<Rightarrow> bool \<Rightarrow> mach_msg_copy_options_t \<Rightarrow> body_state \<Rightarrow> copyin_step" where
  "copyin_ool va page_mask addr len dealloc copy B =
     (let lg = (\<lambda>B. km_log (bs_mem B)); dsc = (\<lambda>address. Ool_Descriptor address len dealloc copy)
      in if len = 0 then Some (Inr (dsc 0), B)
         else if copy = MACH_MSG_PHYSICAL_COPY \<and> \<not> dealloc then
           (let paddr = bs_paddr B;
                failed = va_copyin_fails va (lg B) addr len;
                B = bs_event (Copyin addr paddr len) B
            in if failed then Some (Inl MACH_SEND_INVALID_MEMORY, B)
               else
                 (let B = (if len AND page_mask \<noteq> 0
                           then bs_event (Bzero (paddr + len) (round_page_word page_mask len - len)) B else B)
                  in case va_move va (lg B) Ipc_Kernel_Copy_Map paddr Ipc_Soft_Map len of
                       Inl kr \<Rightarrow> Some (Inl MACH_MSG_VM_KERNEL, B)
                     | Inr address \<Rightarrow>
                         (let B = bs_event (Vm_Move Ipc_Kernel_Copy_Map paddr Ipc_Soft_Map address len) B;
                              B = bs_event (Vm_Deallocate Ipc_Kernel_Copy_Map paddr len) B
                          in Some (Inr (dsc address),
                                   B\<lparr>bs_paddr := paddr + round_page_word page_mask len,
                                     bs_space_needed := bs_space_needed B - round_page_word page_mask len\<rparr>))))
         else
           (case va_move va (lg B) User_Map addr Ipc_Soft_Map len of
              Inl kr \<Rightarrow> Some (Inl MACH_SEND_INVALID_MEMORY, B)
            | Inr address \<Rightarrow>
                (let B = bs_event (Vm_Move User_Map addr Ipc_Soft_Map address len) B;
                     B = (if dealloc then bs_event (Vm_Deallocate User_Map addr len) B else B)
                 in Some (Inr (dsc address), B))))"

text \<open>An array of ports; the length of the array in bytes is a machine word.\<close>

definition copyin_ool_ports ::
  "vm_answers \<Rightarrow> space_id \<Rightarrow> port_id \<Rightarrow> vm_offset_t \<Rightarrow> mach_msg_size_t \<Rightarrow> bool \<Rightarrow> mach_msg_copy_options_t \<Rightarrow>
     mach_msg_type_name_t \<Rightarrow> body_state \<Rightarrow> copyin_step" where
  "copyin_ool_ports va space dest addr number dealloc copy disposition B =
     (let len = number * 4; lg = (\<lambda>B. km_log (bs_mem B))
      in if len = 0 then Some (Inr (Ool_Ports_Descriptor 0 number dealloc copy disposition), B)
         else
           (let data = va_kalloc va (lg B) len
            in if data = 0 then Some (Inl MACH_SEND_NO_BUFFER, B)
               else
                 (let names = va_copyinmap va (lg B) addr len;
                      B = bs_event (Copyinmap addr data len) (bs_event (Kalloc data len) B);
                      free = bs_mem_update (kfree_array data len)
                  in case names of
                       None \<Rightarrow> Some (Inl MACH_SEND_INVALID_MEMORY, free B)
                     | Some names \<Rightarrow>
                         (case copyin_type_of disposition of
                            None \<Rightarrow> Some (Inl MACH_SEND_INVALID_TYPE, free B)
                          | Some name \<Rightarrow> do {
                              let B = (if dealloc then bs_event (Vm_Deallocate User_Map addr len) B else B);
                              (r, K) \<leftarrow> copyin_objects space dest name [] (unat number) names (bs_bits B) (km_kernel (bs_mem B));
                              let B = bs_mem_update (set_kernel K) B;
                              case r of
                                Inl mr \<Rightarrow> Some (Inl mr, free B)
                              | Inr (objects, bits) \<Rightarrow>
                                  Some (Inr (Ool_Ports_Descriptor data number dealloc copy
                                               (right_number (ipc_object_copyin_type name))),
                                        bs_mem_update (km_arrays_update (\<lambda>m. m(data \<mapsto> objects))) (B\<lparr>bs_bits := bits\<rparr>))
                            }))))"

fun copyin_descriptor ::
  "vm_answers \<Rightarrow> 32 word \<Rightarrow> space_id \<Rightarrow> port_id \<Rightarrow> mach_port_t mach_msg_descriptor \<Rightarrow> body_state \<Rightarrow> copyin_step" where
  "copyin_descriptor va page_mask space dest (Port_Descriptor port disposition) B = copyin_port space dest port disposition B"
| "copyin_descriptor va page_mask space dest (Ool_Descriptor addr len dealloc copy) B =
     copyin_ool va page_mask addr len dealloc copy B"
| "copyin_descriptor va page_mask space dest (Ool_Ports_Descriptor addr number dealloc copy disposition) B =
     copyin_ool_ports va space dest addr number dealloc copy disposition B"
| "copyin_descriptor va page_mask space dest (Bad_Descriptor addr sz dealloc copy t) B = Some (Inl MACH_SEND_INVALID_TYPE, B)"

text \<open>The loop; an error comes with the descriptors that were copied in before.\<close>

fun copyin_descriptors ::
  "vm_answers \<Rightarrow> 32 word \<Rightarrow> space_id \<Rightarrow> port_id \<Rightarrow> ipc_object mach_msg_descriptor list \<Rightarrow> mach_port_t mach_msg_descriptor list \<Rightarrow>
     body_state \<Rightarrow>
     ((mach_msg_return_t \<times> ipc_object mach_msg_descriptor list + ipc_object mach_msg_descriptor list) \<times> body_state) option" where
  "copyin_descriptors va page_mask space dest done [] B = Some (Inr done, B)"
| "copyin_descriptors va page_mask space dest done (dsc # dscs) B = do {
     (r, B) \<leftarrow> copyin_descriptor va page_mask space dest dsc B;
     case r of
       Inl mr \<Rightarrow> Some (Inl (mr, done), B)
     | Inr dsc \<Rightarrow> copyin_descriptors va page_mask space dest (done @ [dsc]) dscs B
   }"

text \<open>The first pass: the memory needed for physical copies, or \<open>None\<close> for a bad copy option.\<close>

fun physical_space :: "32 word \<Rightarrow> 'p mach_msg_descriptor list \<Rightarrow> vm_size_t \<Rightarrow> vm_size_t option" where
  "physical_space page_mask [] n = Some n"
| "physical_space page_mask (dsc # dscs) n =
     (case dsc of
        Ool_Descriptor addr len dealloc copy \<Rightarrow>
          if copy \<noteq> MACH_MSG_PHYSICAL_COPY \<and> copy \<noteq> MACH_MSG_VIRTUAL_COPY then None
          else physical_space page_mask dscs
                 (if copy = MACH_MSG_PHYSICAL_COPY \<and> \<not> dealloc then n + round_page_word page_mask len else n)
      | _ \<Rightarrow> physical_space page_mask dscs n)"

text \<open>
  The descriptors between the addresses \<open>saddr\<close> and \<open>saddr + number\<close>, of twelve bytes each, with the
  wrap-around of addresses; \<open>mem\<close> is what memory holds behind the body.
\<close>

definition saddr_of :: "vm_offset_t \<Rightarrow> vm_offset_t" where
  "saddr_of header = header + msg_header_size + 4"

definition descriptors_of :: "vm_offset_t \<Rightarrow> mach_msg_size_t \<Rightarrow> (nat \<Rightarrow> 'p mach_msg_descriptor) \<Rightarrow> 'p mach_msg_descriptor list" where
  "descriptors_of header number mem =
     (let saddr = saddr_of header; eaddr = saddr + 12 * number
      in map mem [0..<(unat eaddr - unat saddr + 11) div 12])"

text \<open>The check that the descriptors lie in the message, as it is written: pointers to headers are added.\<close>

definition too_small :: "vm_offset_t \<Rightarrow> mach_msg_size_t \<Rightarrow> mach_msg_size_t \<Rightarrow> bool" where
  "too_small header msgh_size number \<longleftrightarrow>
     (let saddr = saddr_of header; eaddr = saddr + 12 * number
      in eaddr \<le> saddr \<or> header + msg_header_size * msgh_size < eaddr)"

definition ipc_kmsg_copyin_body ::
  "vm_answers \<Rightarrow> 32 word \<Rightarrow> vm_offset_t \<Rightarrow> mach_msg_size_t \<Rightarrow> mach_msg_size_t \<Rightarrow> (nat \<Rightarrow> mach_port_t mach_msg_descriptor) \<Rightarrow>
     ipc_object mach_msg_header \<Rightarrow> space_id \<Rightarrow> kmem \<Rightarrow>
     ((mach_msg_return_t + ipc_object mach_msg_header \<times> ipc_object mach_msg_descriptor list) \<times> kmem) option" where
  "ipc_kmsg_copyin_body va page_mask header msgh_size number mem hdr space S =
     (let clean = (\<lambda>mr hdr done paddr len S. do {
            S \<leftarrow> ipc_kmsg_clean_partial hdr done paddr len S;
            Some (Inl mr, S) })
      in if too_small header msgh_size number then clean MACH_SEND_MSG_TOO_SMALL hdr [] 0 0 S
         else
           (let dscs = descriptors_of header number mem
            in case physical_space page_mask dscs 0 of
                 None \<Rightarrow> clean MACH_SEND_INVALID_TYPE hdr [] 0 0 S
               | Some space_needed \<Rightarrow>
                   (case (if 0 < space_needed
                          then (case va_allocate va (km_log S) Ipc_Kernel_Copy_Map space_needed of
                                  Inl kr \<Rightarrow> None
                                | Inr paddr \<Rightarrow> Some (paddr, log_event (Vm_Allocate Ipc_Kernel_Copy_Map paddr space_needed) S))
                          else Some (0, S)) of
                      None \<Rightarrow> clean MACH_MSG_VM_KERNEL hdr [] 0 0 S
                    | Some (paddr, S) \<Rightarrow> do {
                        dest \<leftarrow> (case msgh_remote_port hdr of IO_PORT port \<Rightarrow> Some port | _ \<Rightarrow> None);
                        (r, B) \<leftarrow> copyin_descriptors va page_mask space dest [] dscs
                          \<lparr>bs_mem = S, bs_bits = msgh_bits hdr, bs_paddr = paddr, bs_space_needed = space_needed\<rparr>;
                        let hdr = hdr\<lparr>msgh_bits := bs_bits B\<rparr>;
                        case r of
                          Inl (mr, done) \<Rightarrow> clean mr hdr done (bs_paddr B) (bs_space_needed B) (bs_mem B)
                        | Inr done \<Rightarrow>
                            Some (Inr (if done = [] then hdr\<lparr>msgh_bits := msgh_bits hdr AND NOT MACH_MSGH_BITS_COMPLEX\<rparr> else hdr,
                                       done), bs_mem B)
                      })))"

definition ipc_kmsg_copyin ::
  "vm_answers \<Rightarrow> 32 word \<Rightarrow> vm_offset_t \<Rightarrow> mach_msg_size_t \<Rightarrow> mach_msg_size_t \<Rightarrow> (nat \<Rightarrow> mach_port_t mach_msg_descriptor) \<Rightarrow>
     (mach_port_t \<Rightarrow> bool) \<Rightarrow> (mach_port_t \<Rightarrow> bool) \<Rightarrow> bool \<Rightarrow> mach_port_t mach_msg_header \<Rightarrow> space_id \<Rightarrow> mach_port_t \<Rightarrow> kmem \<Rightarrow>
     ((mach_msg_return_t + ipc_object mach_msg_header \<times> ipc_object mach_msg_descriptor list) \<times> kmem) option" where
  "ipc_kmsg_copyin va page_mask header msgh_size number mem in_table collides lock_try msg space notify S = do {
     (r, K) \<leftarrow> ipc_kmsg_copyin_header in_table collides lock_try msg space notify (km_kernel S);
     let S = set_kernel K S;
     case r of
       Inl mr \<Rightarrow> Some (Inl mr, S)
     | Inr hdr \<Rightarrow>
         if \<not> test (msgh_bits hdr) MACH_MSGH_BITS_COMPLEX then Some (Inr (hdr, []), S)
         else ipc_kmsg_copyin_body va page_mask header msgh_size number mem hdr space S
   }"

section \<open>Messages from the kernel\<close>

definition from_kernel :: "ipc_object \<Rightarrow> mach_msg_type_name_t \<Rightarrow> ipc_kernel \<Rightarrow> ipc_kernel option" where
  "from_kernel object msgt_name K = do { t \<leftarrow> copyin_type_of msgt_name; ipc_object_copyin_from_kernel object t K }"

text \<open>One right of the body, with the check for circles.\<close>

definition from_kernel_right ::
  "port_id \<Rightarrow> mach_msg_type_name_t \<Rightarrow> ipc_object \<Rightarrow> mach_msg_bits_t \<times> ipc_kernel \<Rightarrow> (mach_msg_bits_t \<times> ipc_kernel) option" where
  "from_kernel_right remote msgt_name object BK =
     (if \<not> IO_VALID object then Some BK
      else do {
        t \<leftarrow> copyin_type_of msgt_name;
        K \<leftarrow> ipc_object_copyin_from_kernel object t (snd BK);
        note_circular (ipc_object_copyin_type t) object remote (fst BK) K
      })"

fun from_kernel_rights ::
  "port_id \<Rightarrow> mach_msg_type_name_t \<Rightarrow> nat \<Rightarrow> ipc_object list \<Rightarrow> mach_msg_bits_t \<times> ipc_kernel \<Rightarrow> (mach_msg_bits_t \<times> ipc_kernel) option" where
  "from_kernel_rights remote msgt_name n [] BK = (if n = 0 then Some BK else None)"
| "from_kernel_rights remote msgt_name n (object # objects) BK =
     (if n = 0 then Some BK
      else do {
        BK \<leftarrow> from_kernel_right remote msgt_name object BK;
        from_kernel_rights remote msgt_name (n - 1) objects BK
      })"

fun from_kernel_descriptor ::
  "port_id \<Rightarrow> (vm_offset_t \<rightharpoonup> ipc_object list) \<Rightarrow> ipc_object mach_msg_descriptor \<Rightarrow> mach_msg_bits_t \<times> ipc_kernel \<Rightarrow>
     (ipc_object mach_msg_descriptor \<times> mach_msg_bits_t \<times> ipc_kernel) option" where
  "from_kernel_descriptor remote arrays (Port_Descriptor object disposition) BK = do {
     BK \<leftarrow> from_kernel_right remote disposition object BK;
     Some (Port_Descriptor object (reply_number (copyin_type_of disposition)), BK)
   }"
| "from_kernel_descriptor remote arrays (Ool_Ports_Descriptor address number dealloc copy disposition) BK = do {
     objects \<leftarrow> (if number = 0 then Some [] else arrays address);
     BK \<leftarrow> from_kernel_rights remote disposition (unat number) objects BK;
     Some (Ool_Ports_Descriptor address number dealloc copy (reply_number (copyin_type_of disposition)), BK)
   }"
| "from_kernel_descriptor remote arrays dsc BK = Some (dsc, BK)"

fun from_kernel_descriptors ::
  "port_id \<Rightarrow> (vm_offset_t \<rightharpoonup> ipc_object list) \<Rightarrow> ipc_object mach_msg_descriptor list \<Rightarrow> mach_msg_bits_t \<times> ipc_kernel \<Rightarrow>
     (ipc_object mach_msg_descriptor list \<times> mach_msg_bits_t \<times> ipc_kernel) option" where
  "from_kernel_descriptors remote arrays [] BK = Some ([], BK)"
| "from_kernel_descriptors remote arrays (dsc # dscs) BK = do {
     (dsc, BK) \<leftarrow> from_kernel_descriptor remote arrays dsc BK;
     (dscs, BK) \<leftarrow> from_kernel_descriptors remote arrays dscs BK;
     Some (dsc # dscs, BK)
   }"

definition ipc_kmsg_copyin_from_kernel ::
  "ipc_object mach_msg_header \<Rightarrow> ipc_object mach_msg_descriptor list \<Rightarrow> kmem \<Rightarrow>
     ((ipc_object mach_msg_header \<times> ipc_object mach_msg_descriptor list) \<times> kmem) option" where
  "ipc_kmsg_copyin_from_kernel hdr dscs S = do {
     let bits = msgh_bits hdr AND NOT MACH_MSGH_BITS_OLD_FORMAT;
     let rname = MACH_MSGH_BITS_REMOTE bits;
     let lname = MACH_MSGH_BITS_LOCAL bits;
     K \<leftarrow> from_kernel (msgh_remote_port hdr) rname (km_kernel S);
     K \<leftarrow> (if IO_VALID (msgh_local_port hdr) then from_kernel (msgh_local_port hdr) lname K else Some K);
     let common = (bits = MACH_MSGH_BITS_COMPLEX OR MACH_MSGH_BITS 19 0);
     let bits = (if common then MACH_MSGH_BITS_COMPLEX OR MACH_MSGH_BITS 17 0
                 else MACH_MSGH_BITS_OTHER bits OR
                        MACH_MSGH_BITS (reply_number (copyin_type_of rname)) (reply_number (copyin_type_of lname)));
     if \<not> common \<and> \<not> test bits MACH_MSGH_BITS_COMPLEX then Some ((hdr\<lparr>msgh_bits := bits\<rparr>, dscs), set_kernel K S)
     else do {
       remote \<leftarrow> (case msgh_remote_port hdr of IO_PORT port \<Rightarrow> Some port | _ \<Rightarrow> None);
       (dscs, bits, K) \<leftarrow> from_kernel_descriptors remote (km_arrays S) dscs (bits, K);
       Some ((hdr\<lparr>msgh_bits := bits\<rparr>, dscs), set_kernel K S)
     }
   }"

section \<open>Checks of the log\<close>

text \<open>
  What an operation adds to the log satisfies \<open>ok\<close>, which may look at all the events it adds. The locale
  collects what every such check shares.
\<close>

definition logged :: "(vm_event set \<Rightarrow> vm_event \<Rightarrow> bool) \<Rightarrow> kmem \<Rightarrow> kmem \<Rightarrow> bool" where
  "logged ok S S' \<longleftrightarrow> (\<exists>evs. km_log S' = evs @ km_log S \<and> (\<forall>ev \<in> set evs. ok (set evs) ev))"

lemma logged_refl [simp, intro]: "logged ok S S" "logged ok S (set_kernel K S)" "logged ok S (km_arrays_update f S)"
  by (simp_all add: logged_def set_kernel_def)

lemma logged_kernel [simp]: "logged ok (set_kernel K S) S' \<longleftrightarrow> logged ok S S'"
  by (simp add: logged_def set_kernel_def)

locale event_check =
  fixes ok :: "vm_event set \<Rightarrow> vm_event \<Rightarrow> bool"
  assumes ok_mono: "ok A ev \<Longrightarrow> A \<subseteq> A' \<Longrightarrow> ok A' ev"
    and ok_free: "ok A (Vm_Deallocate m a n)" "ok A (Kfree a n)"
begin

lemma trans:
  assumes "logged ok S S1" and "logged ok S1 S2"
  shows "logged ok S S2"
proof -
  obtain a b where a: "km_log S1 = a @ km_log S" "\<forall>ev \<in> set a. ok (set a) ev"
    and b: "km_log S2 = b @ km_log S1" "\<forall>ev \<in> set b. ok (set b) ev"
    using assms by (auto simp: logged_def)
  then have "\<forall>ev \<in> set (b @ a). ok (set (b @ a)) ev" by (auto intro: ok_mono)
  then show ?thesis unfolding logged_def using a(1) b(1) by (intro exI [of _ "b @ a"]) simp
qed

lemma event: "ok {} ev \<Longrightarrow> logged ok S (log_event ev S)"
  unfolding logged_def log_event_def by (intro exI [of _ "[ev]"]) (auto intro: ok_mono)

lemma kfree: "logged ok S (kfree_array a n S)"
  unfolding logged_def kfree_array_def log_event_def by (intro exI [of _ "[Kfree a n]"]) (simp add: ok_free)

lemma clean_one: "clean_descriptor d S = Some S' \<Longrightarrow> logged ok S S'"
  by (cases d) (auto split: if_splits bind_splits intro: ok_free event trans [OF logged_refl(2) kfree])

lemma clean_body: "ipc_kmsg_clean_body ds S = Some S' \<Longrightarrow> logged ok S S'"
  by (induction ds arbitrary: S) (auto split: bind_splits intro: trans dest: clean_one)

lemma clean_partial:
  assumes "ipc_kmsg_clean_partial hdr ds paddr n S = Some S'"
  shows "logged ok S S'"
proof -
  obtain K where "ipc_kmsg_clean_body ds (set_kernel K S) = Some S' \<or>
      ipc_kmsg_clean_body ds (log_event (Vm_Deallocate Ipc_Kernel_Copy_Map paddr n) (set_kernel K S)) = Some S'"
    using assms by (auto simp: ipc_kmsg_clean_partial_def Let_def split: bind_splits if_splits)
  then show ?thesis
  proof
    assume "ipc_kmsg_clean_body ds (log_event (Vm_Deallocate Ipc_Kernel_Copy_Map paddr n) (set_kernel K S)) = Some S'"
    from trans [OF event clean_body [OF this]] show ?thesis by (simp add: ok_free)
  qed (drule clean_body, simp)
qed

end

end
