(* ===== verification/Body_Bounds.thy ===== *)
theory Body_Bounds
  imports Kmsg_Body
begin

text \<open>
  The writes of \<^verbatim>\<open>ipc_kmsg_copyin_body\<close> to kernel memory: they stay in the memory allocated for them as long as
  the sizes of the physical copies do not wrap around, and not otherwise.
\<close>

section \<open>Sizes\<close>

text \<open>Rounding up without wrap-around; \<open>page_mask\<close> may be any mask.\<close>

lemma round_page_word_ge:
  assumes "unat x + unat page_mask < 2 ^ 32"
  shows "unat x \<le> unat (round_page_word page_mask x)"
proof -
  define y where "y = x + page_mask"
  have "(y AND NOT page_mask) + (y AND page_mask) = (y AND NOT page_mask) OR (y AND page_mask)"
    by (rule disjunctive_add_eq_or) (rule bit_word_eqI, auto simp: bit_simps)
  also have "\<dots> = y" by (rule bit_word_eqI) (auto simp: bit_simps)
  finally have "y AND NOT page_mask = y - (y AND page_mask)" by (metis add_diff_cancel_right')
  moreover have "y AND page_mask \<le> y" "y AND page_mask \<le> page_mask" by (rule word_and_le2, rule word_and_le1)
  moreover have "unat y = unat x + unat page_mask" using assms by (simp add: y_def unat_add_lem [symmetric])
  ultimately show ?thesis by (simp add: round_page_word_def y_def [symmetric] unat_sub word_le_nat_alt)
qed

text \<open>The memory that all physical copies of a list need, without wrap-around.\<close>

fun physical_size :: "32 word \<Rightarrow> 'p mach_msg_descriptor \<Rightarrow> nat" where
  "physical_size page_mask (Ool_Descriptor addr len dealloc copy) =
     (if copy = MACH_MSG_PHYSICAL_COPY \<and> \<not> dealloc then unat (round_page_word page_mask len) else 0)"
| "physical_size page_mask dsc = 0"

definition physical_total :: "32 word \<Rightarrow> 'p mach_msg_descriptor list \<Rightarrow> nat" where
  "physical_total page_mask dscs = sum_list (map (physical_size page_mask) dscs)"

definition sizes_fit :: "32 word \<Rightarrow> 'p mach_msg_descriptor list \<Rightarrow> bool" where
  "sizes_fit page_mask dscs \<longleftrightarrow>
     (\<forall>dsc \<in> set dscs. is_Ool_Descriptor dsc \<longrightarrow> unat (dsc_size dsc) + unat page_mask < 2 ^ 32) \<and>
     physical_total page_mask dscs < 2 ^ 32"

lemma physical_total_simps [simp]:
  "physical_total page_mask [] = 0"
  "physical_total page_mask (dsc # dscs) = physical_size page_mask dsc + physical_total page_mask dscs"
  by (simp_all add: physical_total_def)

lemma physical_space_total:
  assumes "physical_space page_mask dscs n = Some m" and "unat n + physical_total page_mask dscs < 2 ^ 32"
  shows "unat m = unat n + physical_total page_mask dscs"
  using assms
proof (induction dscs arbitrary: n)
  case (Cons d ds)
  show ?case
  proof (cases d)
    case (Ool_Descriptor a len dl c)
    show ?thesis
    proof (cases "c = MACH_MSG_PHYSICAL_COPY \<and> \<not> dl")
      case True
      let ?r = "round_page_word page_mask len"
      have u: "unat (n + ?r) = unat n + unat ?r"
        using Cons.prems(2) Ool_Descriptor True by (subst unat_add_lem [symmetric]) simp
      have "physical_space page_mask ds (n + ?r) = Some m" using Cons.prems(1) Ool_Descriptor True by simp
      from Cons.IH [OF this] show ?thesis using Cons.prems(2) Ool_Descriptor True u by simp
    next
      case False
      then have "physical_space page_mask ds n = Some m" using Cons.prems(1) Ool_Descriptor by (auto split: if_splits)
      from Cons.IH [OF this] show ?thesis using Cons.prems(2) Ool_Descriptor False by auto
    qed
  qed (use Cons in auto)
qed simp

text \<open>The lengths of the arrays of ports, four bytes for a name, do not wrap around either.\<close>

definition arrays_fit :: "'p mach_msg_descriptor list \<Rightarrow> bool" where
  "arrays_fit dscs \<longleftrightarrow> (\<forall>dsc \<in> set dscs. is_Ool_Ports_Descriptor dsc \<longrightarrow> unat (dsc_size dsc) < 2 ^ 30)"

section \<open>Writes to kernel memory\<close>

text \<open>
  The copies and the clearing for physical copies stay in the area of \<open>n0\<close> bytes at \<open>p0\<close>, the names of ports in
  their block.
\<close>

fun kernel_write_ok :: "vm_offset_t \<Rightarrow> vm_size_t \<Rightarrow> vm_event set \<Rightarrow> vm_event \<Rightarrow> bool" where
  "kernel_write_ok p0 n0 A (Copyin src dst len) \<longleftrightarrow> unat p0 \<le> unat dst \<and> unat dst + unat len \<le> unat p0 + unat n0"
| "kernel_write_ok p0 n0 A (Bzero dst len) \<longleftrightarrow> unat p0 \<le> unat dst \<and> unat dst + unat len \<le> unat p0 + unat n0"
| "kernel_write_ok p0 n0 A (Copyinmap src dst len) \<longleftrightarrow> Kalloc dst len \<in> A"
| "kernel_write_ok p0 n0 A ev = True"

interpretation area: event_check "kernel_write_ok p0 n0" for p0 n0
proof
  show "kernel_write_ok p0 n0 A' ev" if "kernel_write_ok p0 n0 A ev" "A \<subseteq> A'" for A A' ev
    using that by (cases ev) auto
qed simp_all

section \<open>The loop\<close>

text \<open>What is left of the area is what the rest of the descriptors needs.\<close>

definition area_left ::
  "32 word \<Rightarrow> vm_offset_t \<Rightarrow> vm_size_t \<Rightarrow> 'p mach_msg_descriptor list \<Rightarrow> body_state \<Rightarrow> bool" where
  "area_left page_mask p0 n0 dscs B \<longleftrightarrow>
     unat p0 \<le> unat (bs_paddr B) \<and> unat p0 + unat n0 < 2 ^ 32 \<and>
     unat (bs_paddr B) + physical_total page_mask dscs = unat p0 + unat n0"

lemma port_keeps:
  assumes "copyin_port sp dest p t B = Some (r, B')"
  shows "logged ok (bs_mem B) (bs_mem B')" "bs_paddr B' = bs_paddr B"
  using assms by (auto simp: copyin_port_def Let_def split: option.splits if_splits bind_splits sum.splits)

lemma ool_ports_keeps:
  assumes "copyin_ool_ports va sp dest a n dl c t B = Some (r, B')"
  shows "logged (kernel_write_ok p0 n0) (bs_mem B) (bs_mem B')" "bs_paddr B' = bs_paddr B"
proof -
  define data where "data = va_kalloc va (km_log (bs_mem B)) (n * 4)"
  define S where "S = log_event (Copyinmap a data (n * 4)) (log_event (Kalloc data (n * 4)) (bs_mem B))"
  define T where "T = (if dl then log_event (Vm_Deallocate User_Map a (n * 4)) S else S)"
  have S: "logged (kernel_write_ok p0 n0) (bs_mem B) S" by (simp add: S_def logged_def log_event_def)
  have T: "logged (kernel_write_ok p0 n0) (bs_mem B) T"
    using area.trans [OF S area.event] S by (simp add: T_def)
  have ends: "logged (kernel_write_ok p0 n0) (bs_mem B) (kfree_array data (n * 4) S)"
    "logged (kernel_write_ok p0 n0) (bs_mem B) (kfree_array data (n * 4) (set_kernel K T))"
    "logged (kernel_write_ok p0 n0) (bs_mem B) (km_arrays_update f (set_kernel K T))" for K f
    by (rule area.trans [OF S area.kfree], rule area.trans [OF area.trans [OF T logged_refl(2)] area.kfree],
        rule area.trans [OF area.trans [OF T logged_refl(2)] logged_refl(3)])
  show "logged (kernel_write_ok p0 n0) (bs_mem B) (bs_mem B')" "bs_paddr B' = bs_paddr B"
    using assms ends [unfolded T_def S_def data_def]
    by (auto simp: copyin_ool_ports_def Let_def bs_event_def comp_def split: option.splits if_splits bind_splits sum.splits)
qed

lemma ool_keeps:
  assumes c: "copyin_ool va page_mask addr len dl copy B = Some (r, B')" and fit: "unat len + unat page_mask < 2 ^ 32"
    and left: "area_left page_mask p0 n0 (Ool_Descriptor addr len dl copy # dscs) B"
  shows "logged (kernel_write_ok p0 n0) (bs_mem B) (bs_mem B') \<and> (isl r \<or> area_left page_mask p0 n0 dscs B')"
proof (cases "copy = MACH_MSG_PHYSICAL_COPY \<and> \<not> dl \<and> len \<noteq> 0")
  case True
  define q where "q = bs_paddr B"
  define R where "R = round_page_word page_mask len"
  have R: "unat len \<le> unat R" unfolding R_def by (rule round_page_word_ge [OF fit])
  have lim: "unat p0 \<le> unat q" "unat q + unat R + physical_total page_mask dscs = unat p0 + unat n0" "unat p0 + unat n0 < 2 ^ 32"
    using left True by (simp_all add: area_left_def q_def R_def)
  have sub: "unat (R - len) = unat R - unat len" using R by (simp add: unat_sub word_le_nat_alt)
  have plus: "unat (q + len) = unat q + unat len" "unat (q + R) = unat q + unat R"
    using lim R by (subst unat_add_lem [symmetric]; simp)+
  have w: "kernel_write_ok p0 n0 {} (Copyin addr q len)" "kernel_write_ok p0 n0 {} (Bzero (q + len) (R - len))"
    using lim R plus sub by simp_all
  define S1 where "S1 = log_event (Copyin addr q len) (bs_mem B)"
  define S2 where "S2 = (if len AND page_mask \<noteq> 0 then log_event (Bzero (q + len) (R - len)) S1 else S1)"
  have 1: "logged (kernel_write_ok p0 n0) (bs_mem B) S1" unfolding S1_def by (rule area.event [OF w(1)])
  have 2: "logged (kernel_write_ok p0 n0) (bs_mem B) S2" using area.trans [OF 1 area.event [OF w(2)]] 1 by (simp add: S2_def)
  have 3: "logged (kernel_write_ok p0 n0) (bs_mem B) (log_event (Vm_Deallocate m a l) (log_event (Vm_Move m1 a1 m2 a2 l1) S2))" for m a l m1 a1 m2 a2 l1
    by (rule area.trans [OF area.trans [OF 2 area.event] area.event]) simp_all
  have "area_left page_mask p0 n0 dscs (X\<lparr>bs_paddr := q + R, bs_space_needed := y\<rparr>)" for X y
    using lim plus by (simp add: area_left_def)
  with 1 2 3 c True show ?thesis
    unfolding S1_def S2_def
    by (auto simp: copyin_ool_def Let_def bs_event_def comp_def q_def R_def split: sum.splits if_splits)
next
  case False
  have m: "logged (kernel_write_ok p0 n0) S (log_event (Vm_Deallocate m a l) (log_event (Vm_Move m1 a1 m2 a2 l1) S))"
    "logged (kernel_write_ok p0 n0) S (log_event (Vm_Move m1 a1 m2 a2 l1) S)" for S m a l m1 a1 m2 a2 l1
    by (rule area.trans [OF area.event area.event]) (auto intro: area.event)
  have r: "round_page_word page_mask 0 = 0" by (simp add: round_page_word_def)
  show ?thesis using c False left m
    by (auto simp: copyin_ool_def Let_def bs_event_def area_left_def r split: if_splits sum.splits)
qed

lemma descriptor_keeps:
  assumes "copyin_descriptor va page_mask sp dest dsc B = Some (r, B')" and "area_left page_mask p0 n0 (dsc # dscs) B"
    and "is_Ool_Descriptor dsc \<Longrightarrow> unat (dsc_size dsc) + unat page_mask < 2 ^ 32"
  shows "logged (kernel_write_ok p0 n0) (bs_mem B) (bs_mem B') \<and> (isl r \<or> area_left page_mask p0 n0 dscs B')"
proof (cases dsc)
  case (Port_Descriptor p t)
  then show ?thesis using assms(1,2) port_keeps [of sp dest p t B r B'] by (simp add: area_left_def)
next
  case (Ool_Descriptor a len dl c)
  show ?thesis by (rule ool_keeps [where va = va and addr = a and len = len and dl = dl and copy = c]) (use assms Ool_Descriptor in simp_all)
next
  case (Ool_Ports_Descriptor a n dl c t)
  then show ?thesis using assms(1,2) ool_ports_keeps [of va sp dest a n dl c t B r B'] by (simp add: area_left_def)
next
  case Bad_Descriptor
  then show ?thesis using assms(1) by auto
qed

lemma descriptors_keep:
  assumes "copyin_descriptors va page_mask sp dest done dscs B = Some (r, B')" and "area_left page_mask p0 n0 dscs B"
    and "\<forall>dsc \<in> set dscs. is_Ool_Descriptor dsc \<longrightarrow> unat (dsc_size dsc) + unat page_mask < 2 ^ 32"
  shows "logged (kernel_write_ok p0 n0) (bs_mem B) (bs_mem B')"
  using assms
proof (induction dscs arbitrary: "done" B)
  case (Cons d ds)
  obtain x B1 where x: "copyin_descriptor va page_mask sp dest d B = Some (x, B1)"
    using Cons.prems(1) by (auto split: bind_splits)
  note step = descriptor_keeps [OF x Cons.prems(2)]
  have 1: "logged (kernel_write_ok p0 n0) (bs_mem B) (bs_mem B1)" "isl x \<or> area_left page_mask p0 n0 ds B1"
    using step Cons.prems(3) by simp_all
  show ?case
  proof (cases x)
    case (Inl mr)
    then show ?thesis using Cons.prems(1) x 1 by simp
  next
    case (Inr d')
    then have "copyin_descriptors va page_mask sp dest (done @ [d']) ds B1 = Some (r, B')" using Cons.prems(1) x by simp
    from area.trans [OF 1(1) Cons.IH [OF this]] 1(2) Inr Cons.prems(3) show ?thesis by simp
  qed
qed simp

section \<open>Physical copies stay in bounds\<close>

text \<open>Memory is allocated inside the address space.\<close>

definition allocates_in_space :: "vm_answers \<Rightarrow> bool" where
  "allocates_in_space va \<longleftrightarrow>
     (\<forall>log n p. va_allocate va log Ipc_Kernel_Copy_Map n = Inr p \<longrightarrow> unat p + unat n < 2 ^ 32)"

text \<open>The run ends early, or after the loop.\<close>

lemma copyin_body_cases:
  assumes "ipc_kmsg_copyin_body va page_mask header msgh_size number mem hdr space S = Some (r, S')"
  obtains (early) h where "ipc_kmsg_clean_partial h [] 0 0 S = Some S'"
    | (run) n0 p0 T dest b x B where "physical_space page_mask (descriptors_of header number mem) 0 = Some n0"
        "n0 = 0 \<and> p0 = 0 \<and> T = S \<or>
         va_allocate va (km_log S) Ipc_Kernel_Copy_Map n0 = Inr p0 \<and> T = log_event (Vm_Allocate Ipc_Kernel_Copy_Map p0 n0) S"
        "copyin_descriptors va page_mask space dest [] (descriptors_of header number mem)
          \<lparr>bs_mem = T, bs_bits = b, bs_paddr = p0, bs_space_needed = n0\<rparr> = Some (x, B)"
        "case x of Inl (mr, ds) \<Rightarrow> \<exists>h. ipc_kmsg_clean_partial h ds (bs_paddr B) (bs_space_needed B) (bs_mem B) = Some S'
         | Inr ds \<Rightarrow> S' = bs_mem B"
proof (cases "too_small header msgh_size number")
  case True
  then show ?thesis using assms early by (auto simp: ipc_kmsg_copyin_body_def split: bind_splits)
next
  case False
  show ?thesis
  proof (cases "physical_space page_mask (descriptors_of header number mem) 0")
    case None
    then show ?thesis using assms early False by (auto simp: ipc_kmsg_copyin_body_def split: bind_splits)
  next
    case (Some n0)
    define start where "start = (if 0 < n0
        then (case va_allocate va (km_log S) Ipc_Kernel_Copy_Map n0 of
                Inl kr \<Rightarrow> None | Inr paddr \<Rightarrow> Some (paddr, log_event (Vm_Allocate Ipc_Kernel_Copy_Map paddr n0) S))
        else Some (0, S))"
    show ?thesis
    proof (cases start)
      case None
      then show ?thesis using assms early False Some by (auto simp: ipc_kmsg_copyin_body_def start_def [symmetric] split: bind_splits)
    next
      case start: (Some pT)
      obtain p0 T where pT: "pT = (p0, T)" by fastforce
      have T: "n0 = 0 \<and> p0 = 0 \<and> T = S \<or>
         va_allocate va (km_log S) Ipc_Kernel_Copy_Map n0 = Inr p0 \<and> T = log_event (Vm_Allocate Ipc_Kernel_Copy_Map p0 n0) S"
        using start pT by (auto simp: start_def word_neq_0_conv split: if_splits sum.splits)
      obtain dest x B where B: "copyin_descriptors va page_mask space dest [] (descriptors_of header number mem)
          \<lparr>bs_mem = T, bs_bits = msgh_bits hdr, bs_paddr = p0, bs_space_needed = n0\<rparr> = Some (x, B)"
        "case x of Inl (mr, ds) \<Rightarrow> \<exists>h. ipc_kmsg_clean_partial h ds (bs_paddr B) (bs_space_needed B) (bs_mem B) = Some S'
         | Inr ds \<Rightarrow> S' = bs_mem B"
        using assms False Some start pT
        by (auto simp: ipc_kmsg_copyin_body_def start_def [symmetric] Let_def split: bind_splits sum.splits) fastforce
      show ?thesis by (rule run [OF Some T B])
    qed
  qed
qed

lemma copyin_body_writes:
  assumes "ipc_kmsg_copyin_body va page_mask header msgh_size number mem hdr space S = Some (r, S')"
    and "sizes_fit page_mask (descriptors_of header number mem)" and "allocates_in_space va"
  shows "\<exists>evs p0 n0. km_log S' = evs @ km_log S \<and>
    (n0 = 0 \<or> Vm_Allocate Ipc_Kernel_Copy_Map p0 n0 \<in> set evs) \<and> (\<forall>ev \<in> set evs. kernel_write_ok p0 n0 (set evs) ev)"
  using assms(1)
proof (cases rule: copyin_body_cases)
  case (early h)
  then show ?thesis using area.clean_partial [OF early, of 0 0] by (auto simp: logged_def)
next
  case (run n0 p0 T dest b x B)
  let ?dscs = "descriptors_of header number mem" and ?a = "Vm_Allocate Ipc_Kernel_Copy_Map p0 n0"
  have "unat n0 = physical_total page_mask ?dscs"
    using physical_space_total [OF run(1)] assms(2) by (simp add: sizes_fit_def)
  moreover have "unat p0 + unat n0 < 2 ^ 32" using run(2) assms(3) by (auto simp: allocates_in_space_def)
  ultimately have left: "area_left page_mask p0 n0 ?dscs \<lparr>bs_mem = T, bs_bits = b, bs_paddr = p0, bs_space_needed = n0\<rparr>"
    by (simp add: area_left_def)
  have fits: "\<forall>dsc \<in> set ?dscs. is_Ool_Descriptor dsc \<longrightarrow> unat (dsc_size dsc) + unat page_mask < 2 ^ 32"
    using assms(2) by (simp add: sizes_fit_def)
  have "logged (kernel_write_ok p0 n0) (bs_mem B) S'" using run(4) by (auto split: sum.splits intro: area.clean_partial)
  then have "logged (kernel_write_ok p0 n0) T S'"
    using area.trans [OF descriptors_keep [OF run(3) left fits]] by simp
  then obtain evs where evs: "km_log S' = evs @ km_log T" "\<forall>ev \<in> set evs. kernel_write_ok p0 n0 (set evs) ev"
    by (auto simp: logged_def)
  from run(2) show ?thesis
  proof
    assume "n0 = 0 \<and> p0 = 0 \<and> T = S"
    then show ?thesis using evs by blast
  next
    assume "va_allocate va (km_log S) Ipc_Kernel_Copy_Map n0 = Inr p0 \<and> T = log_event ?a S"
    then have "km_log S' = (evs @ [?a]) @ km_log S" using evs(1) by (simp add: log_event_def)
    moreover have "\<forall>ev \<in> set (evs @ [?a]). kernel_write_ok p0 n0 (set (evs @ [?a])) ev"
      using evs(2) by (auto intro: area.ok_mono)
    ultimately show ?thesis by (intro exI [of _ "evs @ [?a]"] exI [of _ p0] exI [of _ n0]) simp
  qed
qed

text \<open>The block of an array of ports, which the loop over its \<open>n\<close> elements overwrites with objects.\<close>

fun array_block :: "vm_event list \<Rightarrow> 'p mach_msg_descriptor \<Rightarrow> bool" where
  "array_block evs (Ool_Ports_Descriptor a n dealloc copy t) \<longleftrightarrow>
     n = 0 \<or> unat (n * 4) = 4 * unat n \<and> Kalloc a (n * 4) \<in> set evs"
| "array_block evs dsc = True"

lemma array_block_mono: "array_block evs d \<Longrightarrow> set evs \<subseteq> set evs' \<Longrightarrow> array_block evs' d"
  by (cases d) auto

lemma descriptor_block:
  assumes "copyin_descriptor va page_mask sp dest d B = Some (Inr d', B')" and "is_Ool_Ports_Descriptor d \<Longrightarrow> unat (dsc_size d) < 2 ^ 30"
  shows "\<exists>evs. km_log (bs_mem B') = evs @ km_log (bs_mem B) \<and> array_block evs d'"
proof (cases d)
  case (Port_Descriptor p t)
  then show ?thesis using assms(1)
    by (auto simp: copyin_port_def Let_def set_kernel_def split: option.splits if_splits bind_splits sum.splits)
next
  case (Ool_Descriptor a n dl c)
  then show ?thesis using assms(1)
    by (auto simp: copyin_ool_def Let_def bs_event_def log_event_def split: if_splits sum.splits)
next
  case (Ool_Ports_Descriptor a n dl c t)
  have u: "unat (n * 4) = 4 * unat n" using assms(2) Ool_Ports_Descriptor by (simp add: unat_word_ariths)
  then have z: "n * 4 = 0 \<longleftrightarrow> n = 0" by (metis mult_eq_0_iff unat_eq_0 zero_neq_numeral)
  show ?thesis using assms(1) Ool_Ports_Descriptor u
    by (auto simp: z copyin_ool_ports_def Let_def bs_event_def log_event_def set_kernel_def
        split: option.splits if_splits bind_splits sum.splits)
qed (use assms(1) in auto)

lemma descriptors_block:
  assumes "copyin_descriptors va page_mask sp dest done dscs B = Some (Inr ds, B')" and "arrays_fit dscs"
    and "km_log (bs_mem B) = e0 @ L" and "\<forall>d \<in> set done. array_block e0 d"
  shows "\<exists>evs. km_log (bs_mem B') = evs @ L \<and> (\<forall>d \<in> set ds. array_block evs d)"
  using assms
proof (induction dscs arbitrary: "done" B e0)
  case (Cons d dscs)
  obtain d' B1 where x: "copyin_descriptor va page_mask sp dest d B = Some (Inr d', B1)"
    and rest: "copyin_descriptors va page_mask sp dest (done @ [d']) dscs B1 = Some (Inr ds, B')"
    using Cons.prems(1) by (auto split: bind_splits sum.splits)
  obtain evs where evs: "km_log (bs_mem B1) = evs @ km_log (bs_mem B)" "array_block evs d'"
    using descriptor_block [OF x] Cons.prems(2) by (auto simp: arrays_fit_def)
  have "\<forall>d \<in> set (done @ [d']). array_block (evs @ e0) d"
    using Cons.prems(4) evs(2) by (auto intro: array_block_mono)
  with Cons.IH [OF rest, of "evs @ e0"] Cons.prems(2,3) evs(1) show ?case by (simp add: arrays_fit_def)
qed auto

lemma copyin_body_blocks:
  assumes "ipc_kmsg_copyin_body va page_mask header msgh_size number mem hdr space S = Some (Inr (hdr', ds), S')"
    and "arrays_fit (descriptors_of header number mem)" and "km_log S' = evs @ km_log S"
  shows "\<forall>d \<in> set ds. array_block evs d"
proof -
  obtain dest b p0 n0 T B e0 where "copyin_descriptors va page_mask space dest [] (descriptors_of header number mem)
      \<lparr>bs_mem = T, bs_bits = b, bs_paddr = p0, bs_space_needed = n0\<rparr> = Some (Inr ds, B)" "km_log T = e0 @ km_log S" "S' = bs_mem B"
    using assms(1)
    by (auto simp: ipc_kmsg_copyin_body_def Let_def log_event_def split: if_splits option.splits bind_splits sum.splits)
  with descriptors_block [OF this(1) assms(2), of e0 "km_log S"] assms(3) show ?thesis by auto
qed


text \<open>Two physical copies, of 5000 and of 100 bytes, in an area of three pages.\<close>

definition demo_vm :: vm_answers where
  "demo_vm = \<lparr>va_allocate = (\<lambda>_ _ n. if n \<le> 0x10000 then Inr 0x40000 else Inl KERN_NO_SPACE), va_copyin_fails = (\<lambda>_ _ _. False),
     va_move = (\<lambda>_ _ _ _ _. Inr 0x80000), va_kalloc = (\<lambda>_ _. 0x2000), va_copyinmap = (\<lambda>_ _ n. Some (replicate (unat n div 4) 0)),
     va_map_copy = (\<lambda>_ _ _ _. KERN_SUCCESS)\<rparr>"

definition demo_mem :: kmem where
  "demo_mem = \<lparr>km_kernel = kernel0, km_arrays = (\<lambda>_. None), km_log = []\<rparr>"

definition demo_header :: "ipc_object mach_msg_header" where
  "demo_header = \<lparr>msgh_bits = MACH_MSGH_BITS_COMPLEX OR MACH_MSGH_BITS 17 0, msgh_remote_port = IO_PORT 2, msgh_local_port = IO_NULL\<rparr>"

lemmas demo_defs = demo_vm_def demo_mem_def demo_header_def


section \<open>And when they do not\<close>

lemma and_not_page:
  assumes "y < (0x1000 :: 32 word)"
  shows "y AND NOT 0xfff = 0"
proof -
  have "take_bit 12 y = y" using assms by (simp add: take_bit_eq_mod word_unat_eq_iff unat_mod_distrib word_less_nat_alt)
  then have "y AND mask 12 = y" by (simp add: take_bit_eq_mask)
  moreover have "(0xfff :: 32 word) = mask 12" by (simp add: mask_eq_exp_minus_1)
  ultimately have "y AND NOT 0xfff = (y AND 0xfff) AND NOT 0xfff" by simp
  then show ?thesis by (simp add: and.assoc)
qed

lemma round_page_wraps:
  assumes "0xfffff000 < len"
  shows "round_page_word 0xfff len = 0"
proof -
  have "unat len < 2 ^ 32" using unsigned_less [of len] by simp
  then have "unat (len + 0xfff) = unat len + 0xfff - 2 ^ 32"
    using assms by (simp add: unat_word_ariths word_less_nat_alt le_mod_geq)
  then have "len + 0xfff < 0x1000" using \<open>unat len < 2 ^ 32\<close> by (simp add: word_less_nat_alt)
  then show ?thesis unfolding round_page_word_def by (rule and_not_page)
qed

lemma one_descriptor:
  assumes "\<not> too_small header msgh_size 1"
  shows "descriptors_of header 1 mem = [mem 0]"
proof -
  have "unat (saddr_of header + 12) = unat (saddr_of header) + 12"
    using assms unat_plus_simple [of "saddr_of header" 12] by (simp add: too_small_def Let_def not_le less_imp_le)
  then show ?thesis by (simp add: descriptors_of_def Let_def)
qed

text \<open>A message to a live port without a reply port can always be cleaned.\<close>

lemma clean_partial_total:
  assumes "msgh_remote_port hdr = IO_PORT p" "MACH_MSGH_BITS_REMOTE (msgh_bits hdr) = 17" "msgh_local_port hdr = IO_NULL"
  shows "ipc_kmsg_clean_partial hdr [] 0 n S = Some (set_kernel (ipc_port_release_send p (km_kernel S)) S)"
  using assms by (simp add: ipc_kmsg_clean_partial_def destroy_right_def msg_right_of_def IO_VALID_def)

text \<open>
  C14: the sizes of physical copies are rounded up to pages in 32 bits and not checked. A
  message with one descriptor for the physical copy of more than \<open>2\<^sup>32 - 4096\<close> bytes needs, by this arithmetic, no
  memory at all: nothing is allocated, and the user's data is copied to kernel address 0 and what follows, as far
  as it can be read.
\<close>

theorem copyin_body_overruns:
  assumes "0xfffff000 < len" and "\<not> too_small header msgh_size 1"
    and "mem 0 = Ool_Descriptor addr len False MACH_MSG_PHYSICAL_COPY"
    and "msgh_remote_port hdr = IO_PORT p" "MACH_MSGH_BITS_REMOTE (msgh_bits hdr) = 17" "msgh_local_port hdr = IO_NULL"
  shows "\<exists>r S' evs. ipc_kmsg_copyin_body va 0xfff header msgh_size 1 mem hdr space S = Some (r, S') \<and>
    km_log S' = evs @ km_log S \<and> Copyin addr 0 len \<in> set evs \<and> (\<forall>map a n. Vm_Allocate map a n \<notin> set evs)"
proof -
  have r: "round_page_word 0xfff len = 0" by (rule round_page_wraps [OF assms(1)])
  have n: "len \<noteq> 0" using assms(1) by auto
  have sp: "physical_space 0xfff (descriptors_of header 1 mem) 0 = Some 0"
    by (simp add: one_descriptor [OF assms(2)] assms(3) r)
  define B where "B = \<lparr>bs_mem = S, bs_bits = msgh_bits hdr, bs_paddr = 0, bs_space_needed = 0\<rparr>"
  have "copyin_ool va 0xfff addr len False MACH_MSG_PHYSICAL_COPY B \<noteq> None"
    using n by (simp add: copyin_ool_def Let_def split: sum.split)
  then obtain x B' where x: "copyin_ool va 0xfff addr len False MACH_MSG_PHYSICAL_COPY B = Some (x, B')" by fastforce
  have "\<exists>evs. km_log (bs_mem B') = evs @ km_log S \<and> Copyin addr 0 len \<in> set evs \<and> (\<forall>map a n. Vm_Allocate map a n \<notin> set evs)"
    "bs_bits B' = msgh_bits hdr" "isl x \<Longrightarrow> bs_paddr B' = 0"
    using x n by (auto simp: copyin_ool_def B_def Let_def bs_event_def log_event_def split: sum.splits if_splits)
  then obtain evs where B': "km_log (bs_mem B') = evs @ km_log S" "Copyin addr 0 len \<in> set evs" "\<forall>map a n. Vm_Allocate map a n \<notin> set evs"
      "bs_bits B' = msgh_bits hdr" "isl x \<Longrightarrow> bs_paddr B' = 0" by blast
  have run: "copyin_descriptors va 0xfff space p [] (descriptors_of header 1 mem) B =
      Some (case x of Inl mr \<Rightarrow> Inl (mr, []) | Inr d \<Rightarrow> Inr [d], B')"
    by (simp add: one_descriptor [OF assms(2)] assms(3) x split: sum.split)
  show ?thesis
  proof (cases x)
    case (Inl mr)
    let ?S = "set_kernel (ipc_port_release_send p (km_kernel (bs_mem B'))) (bs_mem B')"
    have "ipc_kmsg_copyin_body va 0xfff header msgh_size 1 mem hdr space S = Some (Inl mr, ?S)"
      using run Inl B'(4,5) clean_partial_total [OF assms(4-6)]
      by (simp add: ipc_kmsg_copyin_body_def assms(2,4) sp B_def)
    moreover have "km_log ?S = evs @ km_log S" using B'(1) by (simp add: set_kernel_def)
    ultimately show ?thesis using B'(2,3) by blast
  next
    case (Inr d)
    then have "ipc_kmsg_copyin_body va 0xfff header msgh_size 1 mem hdr space S = Some (Inr (hdr, [d]), bs_mem B')"
      using run B'(4) by (simp add: ipc_kmsg_copyin_body_def assms(2,4) sp B_def)
    then show ?thesis using B'(1-3) by blast
  qed
qed

text \<open>A copy of all but the last byte of the address space.\<close>

theorem copyin_body_overruns_witness:
  "\<exists>r S' evs. ipc_kmsg_copyin_body demo_vm 0xfff 0x10000 52 1 (\<lambda>_. Ool_Descriptor 0x5000 0xffffffff False MACH_MSG_PHYSICAL_COPY)
      demo_header 1 demo_mem = Some (r, S') \<and>
    km_log S' = evs \<and> Copyin 0x5000 0 0xffffffff \<in> set evs \<and> (\<forall>map a n. Vm_Allocate map a n \<notin> set evs)"
proof -
  have "\<not> too_small 0x10000 52 1" by (simp add: too_small_def saddr_of_def msg_header_size_def)
  moreover have "MACH_MSGH_BITS_REMOTE (msgh_bits demo_header) = 17" by (simp add: demo_header_def msgh_defs)
  ultimately show ?thesis
    using copyin_body_overruns [where len = "0xffffffff" and header = "0x10000" and msgh_size = 52 and addr = "0x5000"
        and mem = "\<lambda>_. Ool_Descriptor 0x5000 0xffffffff False MACH_MSG_PHYSICAL_COPY" and hdr = demo_header and p = 2
        and va = demo_vm and space = 1 and S = demo_mem]
    by (simp add: demo_header_def) (simp add: demo_mem_def)
qed

section \<open>Arrays of ports\<close>

text \<open>What an array of ports leads to before its names are looked at.\<close>

lemma ool_ports_start:
  assumes small: "\<not> too_small header msgh_size 1" and p: "msgh_remote_port hdr = IO_PORT p"
    and mem: "mem 0 = Ool_Ports_Descriptor addr number dealloc copy disposition" and t: "copyin_type_of disposition = Some t"
    and len: "number * 4 \<noteq> 0" and data: "va_kalloc va (km_log S) (number * 4) \<noteq> 0"
    and names: "va_copyinmap va (km_log S) addr (number * 4) = Some names"
    and none: "copyin_objects space p t [] (unat number) names (msgh_bits hdr) (km_kernel S) = None"
  shows "ipc_kmsg_copyin_body va page_mask header msgh_size 1 mem hdr space S = None"
proof -
  have "copyin_ool_ports va space p addr number dealloc copy disposition
      \<lparr>bs_mem = S, bs_bits = msgh_bits hdr, bs_paddr = 0, bs_space_needed = 0\<rparr> = None"
    using t len data names none by (simp add: copyin_ool_ports_def Let_def bs_event_def log_event_def)
  then show ?thesis using small p mem by (simp add: ipc_kmsg_copyin_body_def one_descriptor)
qed

lemma invalid_names_skipped:
  assumes "\<forall>port \<in> set ports. \<not> MACH_PORT_VALID port" and "length ports < n"
  shows "copyin_objects space dest t objects n (ports @ rest) bits K =
    copyin_objects space dest t (objects @ map cast_name ports) (n - length ports) rest bits K"
  using assms by (induction ports arbitrary: objects n) auto

text \<open>
  C15: when a name in an array of ports cannot be copied in, the code that gives back the rights
  before it tests the name that failed, not the elements it goes over. A message whose array begins with names that
  are not valid, which are legal there, and goes on with a name the task does not have, makes the kernel release a
  right through the null pointer, or through the dead one.
\<close>

theorem copyin_undo_crashes:
  assumes "\<not> too_small header msgh_size 1" and "msgh_remote_port hdr = IO_PORT p"
    and "mem 0 = Ool_Ports_Descriptor addr number dealloc copy disposition" and "copyin_type_of disposition = Some t"
    and "unat number < 2 ^ 30" and "va_kalloc va (km_log S) (number * 4) \<noteq> 0"
    and "va_copyinmap va (km_log S) addr (number * 4) = Some (ports @ bad # rest)" and "length (ports @ bad # rest) = unat number"
    and "ports \<noteq> []" and "\<forall>port \<in> set ports. \<not> MACH_PORT_VALID port"
    and "MACH_PORT_VALID bad" and "entries (km_kernel S) space bad = None"
  shows "ipc_kmsg_copyin_body va page_mask header msgh_size 1 mem hdr space S = None"
proof -
  have "unat (number * 4) = unat number * 4" using assms(5) by (simp add: unat_word_ariths)
  moreover have "0 < unat number" unfolding assms(8) [symmetric] by simp
  ultimately have "0 < unat (number * 4)" by simp
  then have len: "number * 4 \<noteq> 0" by (metis less_irrefl unat_0)
  obtain x xs where ports: "ports = x # xs" using assms(9) by (cases ports) auto
  have "\<exists>kr. ipc_object_copyin space bad t (km_kernel S) = Some (Inl kr, km_kernel S)"
    using assms(12) by (simp add: ipc_object_copyin_def ipc_right_lookup_write_def)
  moreover have "undo_objects bad r (map cast_name ports) K = None" for r K
    using assms(11) by (cases r) (simp_all add: ports cast_name_def)
  ultimately have "copyin_objects space p t [] (unat number) (ports @ bad # rest) (msgh_bits hdr) (km_kernel S) = None"
    using assms(8,11) by (auto simp: invalid_names_skipped [OF assms(10)])
  from ool_ports_start [where mem = mem, OF assms(1-4) len assms(6,7) this] show ?thesis .
qed

text \<open>The array with the null name and a name the task does not have.\<close>

theorem copyin_undo_crashes_witness:
  "let va = demo_vm\<lparr>va_copyinmap := (\<lambda>_ _ _. Some [0, 0x103])\<rparr>; mem = (\<lambda>_. Ool_Ports_Descriptor 0x5000 2 False MACH_MSG_VIRTUAL_COPY 19)
   in ipc_kmsg_copyin_body va 0xfff 0x10000 52 1 mem demo_header 1 demo_mem = None"
proof -
  define va where "va = demo_vm\<lparr>va_copyinmap := (\<lambda>_ _ _. Some ([0] @ 0x103 # []))\<rparr>"
  define mem :: "nat \<Rightarrow> mach_port_t mach_msg_descriptor" where "mem = (\<lambda>_. Ool_Ports_Descriptor 0x5000 2 False MACH_MSG_VIRTUAL_COPY 19)"
  have "ipc_kmsg_copyin_body va 0xfff 0x10000 52 1 mem demo_header 1 demo_mem = None"
  proof (rule copyin_undo_crashes [where p = 2 and addr = "0x5000" and number = 2 and dealloc = False and copy = MACH_MSG_VIRTUAL_COPY
        and disposition = 19 and t = MACH_MSG_TYPE_COPY_SEND and ports = "[0]" and bad = "0x103" and rest = "[]"])
    show "\<not> too_small 0x10000 52 1" by (simp add: too_small_def saddr_of_def msg_header_size_def)
    show "entries (km_kernel demo_mem) 1 0x103 = None" by (simp add: demo_mem_def entries_def state0_defs)
  qed (simp_all add: demo_defs va_def mem_def copyin_type_of_def MACH_PORT_VALID_def MACH_PORT_NULL_def MACH_PORT_DEAD_def)
  then show ?thesis by (simp add: va_def mem_def)
qed

text \<open>
  The number of ports in an array is not bounded, but the length of the array in bytes is computed
  in 32 bits. When it wraps around, the block that is allocated is too short for the number of ports, and the
  loop runs past its end: here for every array of which the part that was copied in has no valid names.
\<close>

theorem ool_ports_wrap:
  assumes "\<not> too_small header msgh_size 1" and "msgh_remote_port hdr = IO_PORT p"
    and "mem 0 = Ool_Ports_Descriptor addr number dealloc copy disposition" and "copyin_type_of disposition = Some t"
    and "2 ^ 32 < 4 * unat number" and "number * 4 \<noteq> 0" and "va_kalloc va (km_log S) (number * 4) \<noteq> 0"
    and "va_copyinmap va (km_log S) addr (number * 4) = Some ports" and "4 * length ports = unat (number * 4)"
    and "\<forall>port \<in> set ports. \<not> MACH_PORT_VALID port"
  shows "ipc_kmsg_copyin_body va page_mask header msgh_size 1 mem hdr space S = None"
proof -
  have "unat (number * 4) < 2 ^ 32" using unsigned_less [of "number * 4"] by simp
  then have less: "length ports < unat number" using assms(5,9) by simp
  have "copyin_objects space p t [] (unat number) (ports @ []) (msgh_bits hdr) (km_kernel S) = None"
    unfolding invalid_names_skipped [OF assms(10) less] using less by simp
  from ool_ports_start [where mem = mem, OF assms(1-4,6-8)] this show ?thesis by simp
qed

text \<open>An array of \<open>2\<^sup>30 + 1\<close> ports, in a block for one.\<close>

theorem ool_ports_wrap_witness:
  "ipc_kmsg_copyin_body demo_vm 0xfff 0x10000 52 1 (\<lambda>_. Ool_Ports_Descriptor 0x5000 0x40000001 False MACH_MSG_VIRTUAL_COPY 19)
     demo_header 1 demo_mem = None"
proof (rule ool_ports_wrap [where p = 2 and addr = "0x5000" and number = "0x40000001" and dealloc = False and copy = MACH_MSG_VIRTUAL_COPY
      and disposition = 19 and t = MACH_MSG_TYPE_COPY_SEND and ports = "[0]"])
  show "\<not> too_small 0x10000 52 1" by (simp add: too_small_def saddr_of_def msg_header_size_def)
qed (simp_all add: demo_defs copyin_type_of_def MACH_PORT_VALID_def MACH_PORT_NULL_def MACH_PORT_DEAD_def)

end
