(* ===== verification/Body_Memory.thy ===== *)
theory Body_Memory
  imports Body_Bounds "HOL-Library.Multiset"
begin

text \<open>
  The books of the memory that messages hold: blocks from \<^verbatim>\<open>kalloc\<close> with names of ports, and regions of
  \<^verbatim>\<open>ipc_soft_map\<close> with out-of-line memory; and of the area of \<^verbatim>\<open>ipc_kernel_copy_map\<close> that physical copies pass through.
\<close>

section \<open>The books\<close>

datatype held = Block vm_offset_t vm_size_t | Region vm_offset_t vm_size_t

fun got :: "vm_event \<Rightarrow> held multiset" where
  "got (Kalloc a n) = {#Block a n#}"
| "got (Vm_Move m src m' a n) = (if m' = Ipc_Soft_Map then {#Region a n#} else {#})"
| "got ev = {#}"

fun gone :: "vm_event \<Rightarrow> held multiset" where
  "gone (Kfree a n) = {#Block a n#}"
| "gone (Vm_Deallocate m a n) = (if m = Ipc_Soft_Map then {#Region a n#} else {#})"
| "gone ev = {#}"

text \<open>What was ever acquired and ever released, by a log.\<close>

definition acquired :: "kmem \<Rightarrow> held multiset" where
  "acquired S = sum_list (map got (km_log S))"

definition released :: "kmem \<Rightarrow> held multiset" where
  "released S = sum_list (map gone (km_log S))"

fun holds_memory :: "'p mach_msg_descriptor \<Rightarrow> held multiset" where
  "holds_memory (Ool_Descriptor a n dealloc copy) = (if n = 0 then {#} else {#Region a n#})"
| "holds_memory (Ool_Ports_Descriptor a n dealloc copy t) = (if n = 0 then {#} else {#Block a (n * 4)#})"
| "holds_memory dsc = {#}"

definition body_memory :: "'p mach_msg_descriptor list \<Rightarrow> held multiset" where
  "body_memory dscs = sum_list (map holds_memory dscs)"

lemma body_memory_simps [simp]:
  "body_memory [] = {#}" "body_memory (d # ds) = holds_memory d + body_memory ds" "body_memory (ds @ es) = body_memory ds + body_memory es"
  by (simp_all add: body_memory_def)

lemma books_simps [simp]:
  "acquired (log_event ev S) = got ev + acquired S" "released (log_event ev S) = gone ev + released S"
  "acquired (set_kernel K S) = acquired S" "released (set_kernel K S) = released S"
  "acquired (kfree_array a n S) = acquired S" "released (kfree_array a n S) = {#Block a n#} + released S"
  "acquired (km_arrays_update f S) = acquired S" "released (km_arrays_update f S) = released S"
  by (simp_all add: acquired_def released_def log_event_def set_kernel_def kfree_array_def)

section \<open>Cleaning\<close>

lemma clean_body_books:
  assumes "ipc_kmsg_clean_body ds S = Some S'"
  shows "acquired S' = acquired S" "released S' = body_memory ds + released S"
proof -
  have d: "acquired S' = acquired S \<and> released S' = holds_memory d + released S" if "clean_descriptor d S = Some S'" for d S S'
    using that by (cases d) (auto split: if_splits bind_splits)
  have "acquired S' = acquired S \<and> released S' = body_memory ds + released S" if "ipc_kmsg_clean_body ds S = Some S'" for S
    using that by (induction ds arbitrary: S) (auto dest!: d split: bind_splits)
  then show "acquired S' = acquired S" "released S' = body_memory ds + released S" using assms by blast+
qed

lemma clean_partial_books:
  assumes "ipc_kmsg_clean_partial hdr ds paddr n S = Some S'"
  shows "acquired S' = acquired S" "released S' = body_memory ds + released S"
proof -
  obtain K where "ipc_kmsg_clean_body ds (set_kernel K S) = Some S' \<or>
      ipc_kmsg_clean_body ds (log_event (Vm_Deallocate Ipc_Kernel_Copy_Map paddr n) (set_kernel K S)) = Some S'"
    using assms by (auto simp: ipc_kmsg_clean_partial_def Let_def split: bind_splits if_splits)
  then show "acquired S' = acquired S" "released S' = body_memory ds + released S" 
    using clean_body_books by fastforce+
qed

section \<open>Copyin\<close>

text \<open>\<open>S'\<close> holds the memory of \<open>ds\<close> more than \<open>S\<close>.\<close>

definition holds_more :: "kmem \<Rightarrow> kmem \<Rightarrow> ipc_object mach_msg_descriptor list \<Rightarrow> bool" where
  "holds_more S S' ds \<longleftrightarrow> acquired S' + released S = acquired S + released S' + body_memory ds"

lemma holds_more_trans:
  assumes "holds_more S S1 ds" and "holds_more S1 S2 es"
  shows "holds_more S S2 (ds @ es)"
proof -
  have "(acquired S2 + released S) + (acquired S1 + released S1) = (acquired S2 + released S1) + (acquired S1 + released S)"
    by (simp only: ac_simps)
  also have "\<dots> = (acquired S1 + released S2 + body_memory es) + (acquired S + released S1 + body_memory ds)"
    using assms by (simp only: holds_more_def)
  also have "\<dots> = (acquired S + released S2 + body_memory (ds @ es)) + (acquired S1 + released S1)"
    by (simp only: body_memory_simps ac_simps)
  finally show ?thesis unfolding holds_more_def by (simp only: add_right_cancel)
qed

lemma descriptor_books:
  assumes "copyin_descriptor va page_mask sp dest dsc B = Some (r, B')" and "is_Ool_Ports_Descriptor dsc \<Longrightarrow> unat (dsc_size dsc) < 2 ^ 30"
  shows "holds_more (bs_mem B) (bs_mem B') (case r of Inl mr \<Rightarrow> [] | Inr d \<Rightarrow> [d])"
proof (cases dsc)
  case (Ool_Ports_Descriptor a n dl c t)
  have "n * 4 = 0 \<Longrightarrow> n = 0"
  proof -
    assume "n * 4 = 0"
    moreover have "unat (n * 4) = unat n * 4" using assms(2) Ool_Ports_Descriptor by (simp add: unat_word_ariths)
    ultimately show "n = 0" by (metis mult_eq_0_iff unat_0 unat_eq_zero zero_neq_numeral)
  qed
  then show ?thesis
    using assms(1) Ool_Ports_Descriptor
    by (auto simp: copyin_ool_ports_def Let_def bs_event_def holds_more_def comp_def split: if_splits option.splits bind_splits sum.splits)
next
  case (Port_Descriptor p t)
  then show ?thesis using assms(1)
    by (auto simp: copyin_port_def Let_def holds_more_def split: if_splits option.splits bind_splits sum.splits)
next
  case (Ool_Descriptor a n dl c)
  then show ?thesis using assms(1)
    by (auto simp: copyin_ool_def Let_def bs_event_def holds_more_def split: if_splits sum.splits)
next
  case Bad_Descriptor
  then show ?thesis using assms(1) by (auto simp: holds_more_def)
qed

lemma descriptors_books:
  assumes "copyin_descriptors va page_mask sp dest done dscs B = Some (r, B')" and "arrays_fit dscs" and "holds_more S (bs_mem B) done"
  shows "holds_more S (bs_mem B') (case r of Inl (mr, ds) \<Rightarrow> ds | Inr ds \<Rightarrow> ds)"
  using assms
proof (induction dscs arbitrary: "done" B)
  case (Cons d ds)
  obtain x B1 where x: "copyin_descriptor va page_mask sp dest d B = Some (x, B1)"
    using Cons.prems(1) by (auto split: bind_splits)
  have 1: "holds_more S (bs_mem B1) (done @ (case x of Inl mr \<Rightarrow> [] | Inr d \<Rightarrow> [d]))"
    by (rule holds_more_trans [OF Cons.prems(3) descriptor_books [OF x]]) (use Cons.prems(2) in \<open>simp add: arrays_fit_def\<close>)
  show ?case
  proof (cases x)
    case (Inl mr)
    then show ?thesis using Cons.prems(1) x 1 by auto
  next
    case (Inr d')
    then have "copyin_descriptors va page_mask sp dest (done @ [d']) ds B1 = Some (r, B')" using Cons.prems(1) x by simp
    from Cons.IH [OF this] 1 Inr Cons.prems(2) show ?thesis by (simp add: arrays_fit_def)
  qed
qed auto

lemma copyin_body_books:
  assumes "ipc_kmsg_copyin_body va page_mask header msgh_size number mem hdr space S = Some (r, S')"
    and "arrays_fit (descriptors_of header number mem)"
  shows "case r of
      Inl mr \<Rightarrow> acquired S' + released S = acquired S + released S'
    | Inr (hdr', ds) \<Rightarrow> acquired S' + released S = acquired S + released S' + body_memory ds"
proof -
  let ?dscs = "descriptors_of header number mem"
  have clean: "acquired S' + released S = acquired S + released S'"
    if "ipc_kmsg_clean_partial h ds q n T = Some S'" "holds_more S T ds" for h ds q n and T
    using that clean_partial_books [OF that(1)] by (simp add: holds_more_def ac_simps)
  have start: "holds_more S S []" "holds_more S (log_event (Vm_Allocate m a n) S) []" for m a n
    by (simp_all add: holds_more_def)
  have run: "holds_more S (bs_mem B) (case x of Inl (mr, ds) \<Rightarrow> ds | Inr ds \<Rightarrow> ds)"
    if "copyin_descriptors va page_mask space dest [] ?dscs
          \<lparr>bs_mem = T, bs_bits = b, bs_paddr = p0, bs_space_needed = n0\<rparr> = Some (x, B)" "holds_more S T []" for dest T b p0 n0 x B
    using descriptors_books [OF that(1) assms(2)] that(2) by simp
  show ?thesis
    using assms(1) start clean
    by (auto simp: ipc_kmsg_copyin_body_def Let_def split: if_splits option.splits bind_splits sum.splits dest!: run)
       (auto simp: holds_more_def)
qed

section \<open>The staging area\<close>

text \<open>
  The area of \<^verbatim>\<open>ipc_kernel_copy_map\<close> for physical copies: where what is left of it begins, and how many bytes are left.
  It is allocated at once and must be given back piece by piece from its beginning, in whole pages; anything else is
  an error.
\<close>

fun stage :: "32 word \<Rightarrow> vm_event \<Rightarrow> (nat \<times> nat) option \<Rightarrow> (nat \<times> nat) option" where
  "stage page_mask (Vm_Allocate m a n) s =
     (if m = Ipc_Kernel_Copy_Map then Option.bind s (\<lambda>(p, l). if l = 0 then Some (unat a, unat n) else None) else s)"
| "stage page_mask (Vm_Deallocate m a n) s =
     (if m = Ipc_Kernel_Copy_Map
      then Option.bind s (\<lambda>(p, l). let k = unat (round_page_word page_mask n)
                                  in if unat a = p \<and> k \<le> l then Some (p + k, l - k) else None)
      else s)"
| "stage page_mask ev s = s"

definition stages :: "32 word \<Rightarrow> kmem \<Rightarrow> kmem \<Rightarrow> (nat \<times> nat) option \<Rightarrow> (nat \<times> nat) option \<Rightarrow> bool" where
  "stages page_mask S S' s s' \<longleftrightarrow> (\<exists>evs. km_log S' = evs @ km_log S \<and> foldr (stage page_mask) evs s = s')"

lemma stages_trans:
  assumes "stages page_mask S S1 s s1" and "stages page_mask S1 S2 s1 s2"
  shows "stages page_mask S S2 s s2"
  using assms unfolding stages_def by (metis append_assoc comp_apply foldr_append)

lemma stages_log:
  "km_log S' = km_log S \<Longrightarrow> stages page_mask S S' s s"
  "km_log S' = ev # km_log S \<Longrightarrow> stages page_mask S S' s (stage page_mask ev s)"
  "km_log S' = ev2 # ev1 # km_log S \<Longrightarrow> stages page_mask S S' s (stage page_mask ev2 (stage page_mask ev1 s))"
  unfolding stages_def by (rule exI [of _ "[]"], simp, rule exI [of _ "[ev]"], simp, rule exI [of _ "[ev2, ev1]"], simp)

lemma clean_body_stages:
  assumes "ipc_kmsg_clean_body ds S = Some S'"
  shows "stages page_mask S S' s s"
proof -
  have d: "stages page_mask S S' s s" if "clean_descriptor d S = Some S'" for d S S'
    using that stages_log(1) [of S' S page_mask s] stages_log(2) [of S' _ S page_mask s]
    by (cases d) (force simp: kfree_array_def log_event_def set_kernel_def split: if_splits bind_splits)+
  show ?thesis using assms
    by (induction ds arbitrary: S) (auto simp: stages_log(1) split: bind_splits intro: stages_trans dest: d)
qed

text \<open>Pages are a power of two bytes; what is rounded up is aligned.\<close>

lemma round_page_aligned:
  assumes "page_mask = mask k"
  shows "round_page_word page_mask x AND page_mask = 0"
    "x AND page_mask = 0 \<Longrightarrow> round_page_word page_mask x = x"
    "x AND page_mask = 0 \<Longrightarrow> y AND page_mask = 0 \<Longrightarrow> (x + y) AND page_mask = 0 \<and> (x - y) AND page_mask = 0"
proof -
  show "round_page_word page_mask x AND page_mask = 0"
    unfolding round_page_word_def by (rule bit_word_eqI) (auto simp: bit_simps)
  show "round_page_word page_mask x = x" if "x AND page_mask = 0"
  proof -
    have "x + page_mask = x OR page_mask" by (rule disjunctive_add_eq_or) (rule that)
    moreover have "\<not> (bit x i \<and> bit page_mask i)" for i using that by (metis bit_and_iff bit_0_eq bot_apply bot_bool_def)
    ultimately show ?thesis unfolding round_page_word_def by (intro bit_word_eqI) (auto simp: bit_simps)
  qed
  show "(x + y) AND page_mask = 0 \<and> (x - y) AND page_mask = 0" if "x AND page_mask = 0" "y AND page_mask = 0"
  proof -
    have "(x + y) AND mask k = ((x AND mask k) + (y AND mask k)) AND mask k"
      "(x - y) AND mask k = ((x AND mask k) - (y AND mask k)) AND mask k" by (simp_all only: mask_eqs)
    then show ?thesis using that by (simp add: assms)
  qed
qed

lemma physical_space_aligned:
  assumes "page_mask = mask k" and "physical_space page_mask dscs n = Some m" and "n AND page_mask = 0"
  shows "m AND page_mask = 0"
  using assms(2,3)
proof (induction dscs arbitrary: n)
  case (Cons d ds)
  have "(n + round_page_word page_mask len) AND page_mask = 0" for len
    using round_page_aligned(3) [OF assms(1) Cons.prems(2) round_page_aligned(1) [OF assms(1)]] by blast
  with Cons show ?case by (cases d) (auto split: if_splits)
qed simp

text \<open>What the loop knows to be left, which is what the descriptors to come need.\<close>

abbreviation stage_left :: "body_state \<Rightarrow> (nat \<times> nat) option" where
  "stage_left B \<equiv> Some (unat (bs_paddr B), unat (bs_space_needed B))"

definition stage_ok :: "32 word \<Rightarrow> 'p mach_msg_descriptor list \<Rightarrow> body_state \<Rightarrow> bool" where
  "stage_ok page_mask dscs B \<longleftrightarrow> unat (bs_space_needed B) = physical_total page_mask dscs \<and>
     unat (bs_paddr B) + physical_total page_mask dscs < 2 ^ 32 \<and> bs_space_needed B AND page_mask = 0 \<and>
     (bs_paddr B = 0 \<longrightarrow> bs_space_needed B = 0)"

lemma ool_stages:
  assumes pm: "page_mask = mask k" and c: "copyin_ool va page_mask addr len dl copy B = Some (r, B')"
    and ok: "stage_ok page_mask (Ool_Descriptor addr len dl copy # dscs) B"
  shows "stages page_mask (bs_mem B) (bs_mem B') (stage_left B) (stage_left B') \<and>
    (if isl r then bs_paddr B' = bs_paddr B \<and> bs_space_needed B' = bs_space_needed B else stage_ok page_mask dscs B')"
proof (cases "copy = MACH_MSG_PHYSICAL_COPY \<and> \<not> dl \<and> len \<noteq> 0 \<and> \<not> isl r")
  case True
  define R where "R = round_page_word page_mask len"
  define p where "p = bs_paddr B"
  define l where "l = bs_space_needed B"
  have lim: "unat l = unat R + physical_total page_mask dscs" "unat p + unat l < 2 ^ 32" "l AND page_mask = 0"
    "p = 0 \<longrightarrow> l = 0"
    using ok True by (simp_all add: stage_ok_def R_def p_def l_def)
  have w: "unat (p + R) = unat p + unat R" using lim by (subst unat_add_lem [symmetric]) simp
  have s: "unat (l - R) = unat l - unat R" using lim(1) by (simp add: unat_sub word_le_nat_alt)
  have al: "(l - R) AND page_mask = 0"
    using round_page_aligned(3) [OF pm lim(3) round_page_aligned(1) [OF pm]] by (simp add: R_def)
  have z: "p + R = 0 \<longrightarrow> l - R = 0"
  proof
    assume "p + R = 0"
    then have "unat (p + R) = 0" by simp
    then have "p = 0" using w by (simp add: unat_eq_zero)
    then have "l = 0" using lim(4) by simp
    then show "l - R = 0" using lim(1) s by (simp add: unat_eq_zero [symmetric])
  qed
  obtain d' where r: "r = Inr d'" using True by (cases r) auto
  from c True r obtain evs where B': "bs_paddr B' = p + R" "bs_space_needed B' = l - R"
    "km_log (bs_mem B') = Vm_Deallocate Ipc_Kernel_Copy_Map p len # evs @ km_log (bs_mem B)"
    "\<forall>ev \<in> set evs. \<forall>s. stage page_mask ev s = s"
    by (auto simp: copyin_ool_def Let_def bs_event_def log_event_def p_def R_def l_def split: if_splits sum.splits)
  have "foldr (stage page_mask) evs s = s" for s using B'(4) by (induction evs) auto
  then have "foldr (stage page_mask) (Vm_Deallocate Ipc_Kernel_Copy_Map p len # evs) (stage_left B) = stage_left B'"
    using lim(1) w s by (simp add: B' p_def [symmetric] l_def [symmetric] R_def [symmetric])
  then have "stages page_mask (bs_mem B) (bs_mem B') (stage_left B) (stage_left B')"
    unfolding stages_def using B'(3) by (metis append_Cons)
  moreover have "stage_ok page_mask dscs B'" using lim w s al z by (simp add: stage_ok_def B')
  ultimately show ?thesis using r by simp
next
  case False
  have one: "stages page_mask S (log_event e S) s s" if "stage page_mask e s = s" for S e s
    using stages_log(2) [of "log_event e S" e S page_mask s] that by (simp add: log_event_def)
  have two: "stages page_mask S (log_event e' (log_event e S)) s s" if "stage page_mask e s = s" "stage page_mask e' s = s" for S e e' s
    by (rule stages_trans [OF one [OF that(1)] one [OF that(2)]])
  have neutral: "stages page_mask S (log_event (Vm_Deallocate User_Map a n) (log_event (Vm_Move m src m' a' n') S)) s s"
    "stages page_mask S (log_event (Vm_Move m src m' a' n') S) s s"
    "stages page_mask S (log_event (Copyin src dst n) S) s s"
    "stages page_mask S (log_event (Bzero dst n') (log_event (Copyin src dst' n) S)) s s"
    "stages page_mask S S s s" for S a n m src m' a' n' dst dst' s
    by (rule two, simp_all, rule one, simp, rule one, simp, rule two, simp_all add: stages_log(1))
  have z: "round_page_word page_mask 0 = 0" by (rule round_page_aligned(2) [OF pm]) simp
  show ?thesis using c False ok neutral
    by (auto simp: copyin_ool_def Let_def bs_event_def stage_ok_def z split: if_splits sum.splits)
qed

lemma descriptor_stages:
  assumes "page_mask = mask k" and "copyin_descriptor va page_mask sp dest d B = Some (r, B')"
    and "stage_ok page_mask (d # dscs) B"
  shows "stages page_mask (bs_mem B) (bs_mem B') (stage_left B) (stage_left B') \<and>
    (if isl r then bs_paddr B' = bs_paddr B \<and> bs_space_needed B' = bs_space_needed B else stage_ok page_mask dscs B')"
proof (cases d)
  case (Port_Descriptor p t)
  then have "km_log (bs_mem B') = km_log (bs_mem B)" "bs_paddr B' = bs_paddr B" "bs_space_needed B' = bs_space_needed B"
    using assms(2) by (auto simp: copyin_port_def Let_def set_kernel_def split: option.splits if_splits bind_splits sum.splits)
  with Port_Descriptor assms(3) show ?thesis by (simp add: stages_log(1) stage_ok_def)
next
  case (Ool_Descriptor a n dl c)
  show ?thesis by (rule ool_stages [where addr = a and len = n and dl = dl and copy = c]) (use assms Ool_Descriptor in simp_all)
next
  case (Ool_Ports_Descriptor a n dl c t)
  then obtain evs where B': "km_log (bs_mem B') = evs @ km_log (bs_mem B)" "\<forall>ev \<in> set evs. \<forall>s. stage page_mask ev s = s"
    "bs_paddr B' = bs_paddr B" "bs_space_needed B' = bs_space_needed B"
    using assms(2) by (auto simp: copyin_ool_ports_def Let_def bs_event_def log_event_def set_kernel_def kfree_array_def
        split: option.splits if_splits bind_splits sum.splits)
  have "foldr (stage page_mask) evs s = s" for s using B'(2) by (induction evs) auto
  with B' Ool_Ports_Descriptor assms(3) show ?thesis by (auto simp: stages_def stage_ok_def)
next
  case Bad_Descriptor
  then show ?thesis using assms(2) by (auto simp: stages_log(1))
qed

lemma descriptors_stages:
  assumes pm: "page_mask = mask k" and "copyin_descriptors va page_mask sp dest done dscs B = Some (r, B')"
    and "stage_ok page_mask dscs B"
  shows "stages page_mask (bs_mem B) (bs_mem B') (stage_left B) (stage_left B') \<and>
    bs_space_needed B' AND page_mask = 0 \<and> (bs_paddr B' = 0 \<longrightarrow> bs_space_needed B' = 0) \<and> (\<not> isl r \<longrightarrow> bs_space_needed B' = 0)"
  using assms(2,3)
proof (induction dscs arbitrary: "done" B)
  case Nil
  then show ?case by (auto simp: stages_log(1) stage_ok_def unat_eq_zero)
next
  case (Cons d dscs)
  obtain x B1 where x: "copyin_descriptor va page_mask sp dest d B = Some (x, B1)"
    using Cons.prems(1) by (auto split: bind_splits)
  note step = descriptor_stages [OF pm x Cons.prems(2)]
  show ?case
  proof (cases x)
    case (Inl mr)
    then have "B' = B1" "isl r" using Cons.prems(1) x by auto
    with step Inl Cons.prems(2) show ?thesis by (auto simp: stage_ok_def)
  next
    case (Inr d')
    then have rest: "copyin_descriptors va page_mask sp dest (done @ [d']) dscs B1 = Some (r, B')" using Cons.prems(1) x by simp
    from step Inr have "stage_ok page_mask dscs B1" by simp
    from Cons.IH [OF rest this] step show ?thesis by (blast intro: stages_trans)
  qed
qed

lemma clean_partial_stages:
  assumes pm: "page_mask = mask k" and "ipc_kmsg_clean_partial hdr ds paddr n S = Some S'"
    and "n AND page_mask = 0" and "paddr = 0 \<longrightarrow> n = 0"
  shows "\<exists>q. stages page_mask S S' (Some (unat paddr, unat n)) (Some (q, 0))"
proof (cases "paddr = 0")
  case True
  then obtain K where "ipc_kmsg_clean_body ds (set_kernel K S) = Some S'"
    using assms(2) by (auto simp: ipc_kmsg_clean_partial_def Let_def split: bind_splits)
  from clean_body_stages [OF this, of page_mask "Some (0, 0)"] True assms(4) show ?thesis
    by (auto simp: stages_def set_kernel_def)
next
  case False
  let ?ev = "Vm_Deallocate Ipc_Kernel_Copy_Map paddr n"
  from False obtain K where c: "ipc_kmsg_clean_body ds (log_event ?ev (set_kernel K S)) = Some S'"
    using assms(2) by (auto simp: ipc_kmsg_clean_partial_def Let_def split: bind_splits)
  have "stages page_mask S (log_event ?ev (set_kernel K S)) (Some (unat paddr, unat n))
      (stage page_mask ?ev (Some (unat paddr, unat n)))"
    by (rule stages_log(2)) (simp add: log_event_def set_kernel_def)
  then have "stages page_mask S (log_event ?ev (set_kernel K S)) (Some (unat paddr, unat n)) (Some (unat paddr + unat n, 0))"
    using round_page_aligned(2) [OF pm assms(3)] by simp
  from stages_trans [OF this clean_body_stages [OF c]] show ?thesis by blast
qed

text \<open>Memory is not allocated at address 0, the address that stands for no memory.\<close>

definition allocates_nonzero :: "vm_answers \<Rightarrow> bool" where
  "allocates_nonzero va \<longleftrightarrow> (\<forall>log n p. va_allocate va log Ipc_Kernel_Copy_Map n = Inr p \<longrightarrow> p \<noteq> 0)"

lemma copyin_body_stages:
  assumes run: "ipc_kmsg_copyin_body va page_mask header msgh_size number mem hdr space S = Some (r, S')"
    and pm: "page_mask = mask k" and fit: "sizes_fit page_mask (descriptors_of header number mem)"
    and va: "allocates_in_space va" "allocates_nonzero va"
  shows "\<exists>q. stages page_mask S S' (Some (0, 0)) (Some (q, 0))"
  using run
proof (cases rule: copyin_body_cases)
  case (early h)
  from clean_partial_stages [OF pm this] show ?thesis by simp
next
  case (run n0 p0 T dest b x B)
  have "unat n0 = physical_total page_mask (descriptors_of header number mem)"
    using physical_space_total [OF run(1)] fit by (simp add: sizes_fit_def)
  moreover have "n0 AND page_mask = 0" by (rule physical_space_aligned [OF pm run(1)]) simp
  moreover have "unat p0 + unat n0 < 2 ^ 32" using run(2) va by (auto simp: allocates_in_space_def)
  moreover have "p0 = 0 \<longrightarrow> n0 = 0" using run(2) va(2) unfolding allocates_nonzero_def by blast
  ultimately have "stage_ok page_mask (descriptors_of header number mem)
      \<lparr>bs_mem = T, bs_bits = b, bs_paddr = p0, bs_space_needed = n0\<rparr>" by (simp add: stage_ok_def)
  note L = descriptors_stages [OF pm run(3) this, simplified]
  have "stages page_mask S T (Some (0, 0)) (Some (unat p0, unat n0))"
    using run(2) stages_log(1) [of T S] stages_log(2) [of T "Vm_Allocate Ipc_Kernel_Copy_Map p0 n0" S page_mask "Some (0, 0)"]
    by (auto simp: log_event_def)
  then have 1: "stages page_mask S (bs_mem B) (Some (0, 0)) (stage_left B)" using L by (blast intro: stages_trans)
  show ?thesis
  proof (cases x)
    case (Inl y)
    then obtain ds h where "ipc_kmsg_clean_partial h ds (bs_paddr B) (bs_space_needed B) (bs_mem B) = Some S'"
      using run(4) by (cases y) auto
    from clean_partial_stages [OF pm this] L 1 show ?thesis by (blast intro: stages_trans)
  next
    case (Inr ds)
    with run(4) L 1 show ?thesis by auto
  qed
qed

text \<open>
  C11: \<^verbatim>\<open>ipc_kmsg_copyin_body\<close> keeps the books of memory. When it fails, at whatever descriptor and for
  whatever reason, every block and every region it acquired was released exactly once, so that the message holds no
  memory; when it succeeds, exactly the memory of the descriptors of the message is left. The lengths of the arrays of
  ports must not wrap around. If moreover pages are a power of two bytes, the sizes of the physical copies do not wrap around
  and memory is allocated inside the address space and not at 0, then the area of \<^verbatim>\<open>ipc_kernel_copy_map\<close> for the physical
  copies has been given back completely, whether the run failed or not: piece by piece behind the copies that were made, and the
  rest at once.
\<close>

theorem copyin_body_memory:
  assumes "ipc_kmsg_copyin_body va page_mask header msgh_size number mem hdr space S = Some (r, S')"
    and "arrays_fit (descriptors_of header number mem)"
  shows "(case r of
      Inl mr \<Rightarrow> acquired S' + released S = acquired S + released S'
    | Inr (hdr', ds) \<Rightarrow> acquired S' + released S = acquired S + released S' + body_memory ds) \<and>
    (page_mask = mask k \<and> sizes_fit page_mask (descriptors_of header number mem) \<and> allocates_in_space va \<and>
       allocates_nonzero va \<longrightarrow>
     (\<exists>evs q. km_log S' = evs @ km_log S \<and> foldr (stage page_mask) evs (Some (0, 0)) = Some (q, 0)))"
  using copyin_body_books [OF assms] copyin_body_stages [OF assms(1), of k] unfolding stages_def by blast

text \<open>A physical copy, then an array of ports whose disposition is no type of right: the region and the block go again.\<close>

theorem copyin_body_memory_witness:
  "let mem = (\<lambda>i. if i = 0 then Ool_Descriptor 0x1000 5000 False MACH_MSG_PHYSICAL_COPY
                  else Ool_Ports_Descriptor 0x9000 3 False MACH_MSG_VIRTUAL_COPY 7)
   in \<exists>S'. ipc_kmsg_copyin_body demo_vm 0xfff 0x10000 52 2 mem demo_header 1 demo_mem = Some (Inl MACH_SEND_INVALID_TYPE, S') \<and>
        Block 0x2000 12 \<in># released S' \<and> Region 0x80000 5000 \<in># released S' \<and> acquired S' = released S' \<and>
        (\<exists>q. foldr (stage 0xfff) (km_log S') (Some (0, 0)) = Some (q, 0))"
proof -
  define mem :: "nat \<Rightarrow> mach_port_t mach_msg_descriptor" where "mem = (\<lambda>i. if i = 0 then Ool_Descriptor 0x1000 5000 False MACH_MSG_PHYSICAL_COPY
                  else Ool_Ports_Descriptor 0x9000 3 False MACH_MSG_VIRTUAL_COPY 7)"
  have d: "descriptors_of 0x10000 2 mem = [Ool_Descriptor 0x1000 5000 False MACH_MSG_PHYSICAL_COPY, Ool_Ports_Descriptor 0x9000 3 False MACH_MSG_VIRTUAL_COPY 7]"
    by (simp add: descriptors_of_def saddr_of_def msg_header_size_def mem_def upt_rec)
  have fit: "arrays_fit (descriptors_of 0x10000 2 mem)" by (simp add: d arrays_fit_def)
  have hdr: "MACH_MSGH_BITS_REMOTE (msgh_bits demo_header) = 17" by (simp add: demo_header_def msgh_defs)
  obtain S' where run: "ipc_kmsg_copyin_body demo_vm 0xfff 0x10000 52 2 mem demo_header 1 demo_mem = Some (Inl MACH_SEND_INVALID_TYPE, S')"
    and ev: "Block 0x2000 12 \<in># released S'" "Region 0x80000 5000 \<in># released S'"
    using hdr by (simp add: ipc_kmsg_copyin_body_def d too_small_def saddr_of_def msg_header_size_def demo_defs MACH_MSG_PHYSICAL_COPY_def
        MACH_MSG_VIRTUAL_COPY_def round_page_word_def copyin_ool_def copyin_ool_ports_def bs_event_def copyin_type_of_def
        ipc_kmsg_clean_partial_def destroy_right_def msg_right_of_def IO_VALID_def)
  have "acquired demo_mem = {#}" "released demo_mem = {#}" by (simp_all add: demo_mem_def acquired_def released_def)
  then have "acquired S' = released S'" using copyin_body_memory [OF run fit] by simp
  moreover have "\<exists>q. foldr (stage 0xfff) (km_log S') (Some (0, 0)) = Some (q, 0)"
  proof -
    have "sizes_fit 0xfff (descriptors_of 0x10000 2 mem)" unfolding d by (simp add: sizes_fit_def round_page_word_def)
    moreover have "allocates_in_space demo_vm" "allocates_nonzero demo_vm"
      by (auto simp: allocates_in_space_def allocates_nonzero_def demo_vm_def word_le_nat_alt split: if_splits)
    moreover have "(0xfff :: 32 word) = mask 12" by (simp add: mask_eq_exp_minus_1)
    ultimately show ?thesis using copyin_body_memory [OF run fit, of 12] by (simp add: demo_mem_def)
  qed
  ultimately show ?thesis unfolding Let_def mem_def [symmetric] using run ev by blast
qed

end
