(* ===== verification/Body_Copyout.thy ===== *)
theory Body_Copyout
  imports Kmsg_Body
begin

text \<open>
  The way of a body to the receiver: \<^verbatim>\<open>ipc_kmsg_copyout_body\<close> with a scatter list, \<^verbatim>\<open>ipc_kmsg_copyout\<close>,
  \<^verbatim>\<open>ipc_kmsg_copyout_pseudo\<close>, \<^verbatim>\<open>ipc_kmsg_copyout_to_kernel\<close>, and \<^verbatim>\<open>ipc_kmsg_check_scatter\<close>, which decides whether
  the body may be written where the scatter list says.
\<close>

section \<open>Scatter lists\<close>

text \<open>The rest of a scatter list; \<open>None\<close> is \<^verbatim>\<open>MACH_MSG_DESCRIPTOR_NULL\<close>.\<close>

type_synonym scatter = "mach_port_t mach_msg_descriptor list option"

definition SKIP_PORT_DESCRIPTORS :: "scatter \<Rightarrow> scatter" where
  "SKIP_PORT_DESCRIPTORS s =
     (case s of
        None \<Rightarrow> None
      | Some dscs \<Rightarrow> (case dropWhile is_Port_Descriptor dscs of [] \<Rightarrow> None | dscs \<Rightarrow> Some dscs))"

definition INCREMENT_SCATTER :: "scatter \<Rightarrow> scatter" where
  "INCREMENT_SCATTER s = map_option tl s"

text \<open>The region to overwrite that the current descriptor of a scatter list gives.\<close>

definition overwrite_at :: "scatter \<Rightarrow> vm_offset_t option" where
  "overwrite_at s =
     (case s of Some (dsc # dscs) \<Rightarrow> if dsc_copy dsc = MACH_MSG_OVERWRITE then Some (dsc_address dsc) else None | _ \<Rightarrow> None)"

text \<open>
  The loop of \<^verbatim>\<open>ipc_kmsg_check_scatter\<close>; \<open>nothing\<close> says that the scatter list has no descriptors at all. The
  result is an error or whether some region is too small.
\<close>

fun scatter_loop ::
  "32 word \<Rightarrow> bool \<Rightarrow> ipc_object mach_msg_descriptor list \<Rightarrow> mach_port_t mach_msg_descriptor list \<Rightarrow> bool \<Rightarrow> mach_msg_return_t + bool" where
  "scatter_loop option nothing [] ss size_error = Inr size_error"
| "scatter_loop option nothing (g # gs) ss size_error =
     (if is_Port_Descriptor g then scatter_loop option nothing gs ss size_error
      else if nothing then (if option AND MACH_RCV_LARGE = 0 then Inl MACH_RCV_SCATTER_SMALL else Inr True)
      else case dropWhile is_Port_Descriptor ss of
        [] \<Rightarrow> Inr size_error
      | s # ss \<Rightarrow>
          if (if is_Ool_Descriptor g then \<not> is_Ool_Descriptor s else \<not> is_Ool_Ports_Descriptor s)
          then Inl MACH_RCV_INVALID_TYPE_code
          else if dsc_copy s = MACH_MSG_OVERWRITE \<and> dsc_size s < dsc_size g
          then (if option AND MACH_RCV_LARGE = 0 then Inl MACH_RCV_SCATTER_SMALL
                else scatter_loop option nothing gs ss True)
          else scatter_loop option nothing gs ss size_error)"

text \<open>A descriptor of the new list has a type and a size, the rest is not set.\<close>

datatype scatter_entry = Scatter_Port | Scatter_Ool mach_msg_size_t | Scatter_Ool_Ports mach_msg_size_t | Scatter_Bad

fun scatter_entry_of :: "'p mach_msg_descriptor \<Rightarrow> scatter_entry" where
  "scatter_entry_of (Port_Descriptor p d) = Scatter_Port"
| "scatter_entry_of (Ool_Descriptor a sz d c) = Scatter_Ool sz"
| "scatter_entry_of (Ool_Ports_Descriptor a n d c t) = Scatter_Ool_Ports n"
| "scatter_entry_of (Bad_Descriptor a sz d c t) = Scatter_Bad"

text \<open>\<open>kalloc\<close> tells whether a buffer of a size can be had; the result has the new list, if there is one.\<close>

definition ipc_kmsg_check_scatter ::
  "(mach_msg_size_t \<Rightarrow> bool) \<Rightarrow> ipc_object mach_msg_descriptor list \<Rightarrow> 32 word \<Rightarrow> mach_port_t mach_msg_descriptor list \<Rightarrow>
     mach_msg_return_t \<times> scatter_entry list option" where
  "ipc_kmsg_check_scatter kalloc gather option ss =
     (case scatter_loop option (ss = []) gather ss False of
        Inl mr \<Rightarrow> (mr, None)
      | Inr size_error \<Rightarrow>
          if \<not> size_error then (MACH_MSG_SUCCESS_code, None)
          else (let new_size = 4 + 12 * of_nat (length gather)
                in if \<not> kalloc (ikm_plus_overhead new_size) then (MACH_MSG_VM_KERNEL OR MACH_RCV_BODY_ERROR, None)
                   else (MACH_RCV_SCATTER_SMALL, Some (map scatter_entry_of gather))))"

section \<open>Copyout\<close>

text \<open>\<open>alloc\<close> is what the entry layer answers in a state when a new name is needed.\<close>

type_synonym entry_answer = "ipc_kernel \<Rightarrow> kern_return_t + mach_port_t"

definition copyout_right ::
  "(mach_port_t \<Rightarrow> bool) \<Rightarrow> entry_answer \<Rightarrow> space_id \<Rightarrow> ipc_object \<Rightarrow> mach_msg_type_name_t \<Rightarrow> ipc_kernel \<Rightarrow>
     (mach_msg_return_t \<times> mach_port_t \<times> ipc_kernel) option" where
  "copyout_right in_table alloc space object msgt_name K =
     (if \<not> IO_VALID object then Some (MACH_MSG_SUCCESS_code, cast_object object, K)
      else do { r \<leftarrow> msg_right_of msgt_name; ipc_kmsg_copyout_object in_table (alloc K) space object r K })"

fun copyout_objects ::
  "(mach_port_t \<Rightarrow> bool) \<Rightarrow> entry_answer \<Rightarrow> space_id \<Rightarrow> mach_msg_type_name_t \<Rightarrow> nat \<Rightarrow> ipc_object list \<Rightarrow> mach_msg_return_t \<Rightarrow> ipc_kernel \<Rightarrow>
     (mach_msg_return_t \<times> ipc_kernel) option" where
  "copyout_objects in_table alloc space msgt_name n [] mr K = (if n = 0 then Some (mr, K) else None)"
| "copyout_objects in_table alloc space msgt_name n (object # objects) mr K =
     (if n = 0 then Some (mr, K)
      else do {
        (mr', name, K) \<leftarrow> copyout_right in_table alloc space object msgt_name K;
        copyout_objects in_table alloc space msgt_name (n - 1) objects (mr OR mr') K
      })"

text \<open>
  \<^verbatim>\<open>ipc_kmsg_clean_body\<close> on a descriptor that was copied out: a name or an address of the receiver is taken for
  a pointer of the kernel.
\<close>

fun clean_copied :: "mach_port_t mach_msg_descriptor \<Rightarrow> kmem \<Rightarrow> kmem option" where
  "clean_copied (Port_Descriptor name disposition) S = (if \<not> MACH_PORT_VALID name then Some S else None)"
| "clean_copied (Ool_Descriptor address sz dealloc copy) S =
     Some (if sz = 0 then S else log_event (Vm_Deallocate Ipc_Soft_Map address sz) S)"
| "clean_copied (Ool_Ports_Descriptor address number dealloc copy disposition) S = (if number = 0 then Some S else None)"
| "clean_copied (Bad_Descriptor addr sz dealloc copy t) S = None"

fun clean_all_copied :: "mach_port_t mach_msg_descriptor list \<Rightarrow> kmem \<Rightarrow> kmem option" where
  "clean_all_copied [] S = Some S"
| "clean_all_copied (dsc # dscs) S = do { S \<leftarrow> clean_copied dsc S; clean_all_copied dscs S }"

definition vm_error :: "kern_return_t \<Rightarrow> mach_msg_return_t" where
  "vm_error kr = (if kr = KERN_RESOURCE_SHORTAGE then MACH_MSG_VM_KERNEL else MACH_MSG_VM_SPACE)"

definition copyout_ool ::
  "vm_answers \<Rightarrow> vm_offset_t \<Rightarrow> mach_msg_size_t \<Rightarrow> bool \<Rightarrow> mach_msg_copy_options_t \<Rightarrow> scatter \<Rightarrow> kmem \<Rightarrow>
     mach_msg_return_t \<times> mach_port_t mach_msg_descriptor \<times> kmem" where
  "copyout_ool va snd_addr sz dealloc copy s S =
     (if snd_addr = 0 then (MACH_MSG_SUCCESS_code, Ool_Descriptor snd_addr sz dealloc copy, S)
      else
        (let (copy, r, S) =
               (case overwrite_at s of
                  Some rcv_addr \<Rightarrow>
                    (MACH_MSG_OVERWRITE,
                     (let kr = va_map_copy va (km_log S) rcv_addr sz snd_addr
                      in if kr = KERN_SUCCESS then Inr rcv_addr else Inl kr),
                     log_event (Vm_Map_Copy rcv_addr sz snd_addr) S)
                | None \<Rightarrow>
                    (MACH_MSG_ALLOCATE,
                     (case va_move va (km_log S) Ipc_Soft_Map snd_addr User_Map sz of
                        Inl kr \<Rightarrow> (Inl kr, S)
                      | Inr rcv_addr \<Rightarrow> (Inr rcv_addr, log_event (Vm_Move Ipc_Soft_Map snd_addr User_Map rcv_addr sz) S))));
             S = log_event (Vm_Deallocate Ipc_Soft_Map snd_addr sz) S
         in case r of
              Inl kr \<Rightarrow> (vm_error kr, Ool_Descriptor 0 sz dealloc copy, S)
            | Inr rcv_addr \<Rightarrow> (MACH_MSG_SUCCESS_code, Ool_Descriptor rcv_addr sz dealloc copy, S)))"

text \<open>
  An array of ports; \<open>done\<close> are the descriptors that were copied out before, \<open>dscs\<close> those that follow. When there
  is no memory for the array the code cleans the whole body and goes on.
\<close>

definition copyout_ool_ports ::
  "vm_answers \<Rightarrow> (mach_port_t \<Rightarrow> bool) \<Rightarrow> entry_answer \<Rightarrow> space_id \<Rightarrow> mach_port_t mach_msg_descriptor list \<Rightarrow>
     ipc_object mach_msg_descriptor list \<Rightarrow> vm_offset_t \<Rightarrow> mach_msg_size_t \<Rightarrow> bool \<Rightarrow> mach_msg_copy_options_t \<Rightarrow> mach_msg_type_name_t \<Rightarrow>
     scatter \<Rightarrow> kmem \<Rightarrow> (mach_msg_return_t \<times> mach_port_t mach_msg_descriptor \<times> kmem) option" where
  "copyout_ool_ports va in_table alloc space done dscs data number dealloc copy disposition s S =
     (let len = number * 4
      in if len = 0 then Some (MACH_MSG_SUCCESS_code, Ool_Ports_Descriptor data number dealloc copy disposition, S)
         else
           (let (copy, r) =
                  (case overwrite_at s of
                     Some addr \<Rightarrow> (MACH_MSG_OVERWRITE, Inr (addr, S))
                   | None \<Rightarrow>
                       (MACH_MSG_ALLOCATE,
                        (case va_allocate va (km_log S) User_Map len of
                           Inl kr \<Rightarrow> Inl kr
                         | Inr addr \<Rightarrow> Inr (addr, log_event (Vm_Allocate User_Map addr len) S))))
            in case r of
                 Inl kr \<Rightarrow> do {
                   S \<leftarrow> clean_all_copied done S;
                   S \<leftarrow> ipc_kmsg_clean_body (Ool_Ports_Descriptor data number dealloc copy disposition # dscs) S;
                   Some (vm_error kr, Ool_Ports_Descriptor 0 number dealloc copy disposition, S)
                 }
               | Inr (addr, S) \<Rightarrow> do {
                   objects \<leftarrow> km_arrays S data;
                   (mr, K) \<leftarrow> copyout_objects in_table alloc space disposition (unat number) objects MACH_MSG_SUCCESS_code (km_kernel S);
                   let S = log_event (Copyoutmap data addr len) (set_kernel K S);
                   Some (mr, Ool_Ports_Descriptor addr number dealloc copy disposition, kfree_array data len S)
                 }))"

fun copyout_descriptors ::
  "vm_answers \<Rightarrow> (mach_port_t \<Rightarrow> bool) \<Rightarrow> entry_answer \<Rightarrow> space_id \<Rightarrow> mach_port_t mach_msg_descriptor list \<Rightarrow>
     ipc_object mach_msg_descriptor list \<Rightarrow> scatter \<Rightarrow> mach_msg_return_t \<Rightarrow> kmem \<Rightarrow>
     (mach_msg_return_t \<times> mach_port_t mach_msg_descriptor list \<times> kmem) option" where
  "copyout_descriptors va in_table alloc space done [] s mr S = Some (mr, done, S)"
| "copyout_descriptors va in_table alloc space done (dsc # dscs) s mr S =
     (case dsc of
        Port_Descriptor object disposition \<Rightarrow> do {
          (mr', name, K) \<leftarrow> copyout_right in_table alloc space object disposition (km_kernel S);
          copyout_descriptors va in_table alloc space (done @ [Port_Descriptor name disposition]) dscs s (mr OR mr') (set_kernel K S)
        }
      | Ool_Descriptor address sz dealloc copy \<Rightarrow>
          (let s = SKIP_PORT_DESCRIPTORS s; (mr', dsc, S) = copyout_ool va address sz dealloc copy s S
           in copyout_descriptors va in_table alloc space (done @ [dsc]) dscs (INCREMENT_SCATTER s) (mr OR mr') S)
      | Ool_Ports_Descriptor address number dealloc copy disposition \<Rightarrow> do {
          let s = SKIP_PORT_DESCRIPTORS s;
          (mr', dsc, S) \<leftarrow> copyout_ool_ports va in_table alloc space done dscs address number dealloc copy disposition s S;
          copyout_descriptors va in_table alloc space (done @ [dsc]) dscs (INCREMENT_SCATTER s) (mr OR mr') S
        }
      | Bad_Descriptor addr sz dealloc copy t \<Rightarrow> None)"

definition ipc_kmsg_copyout_body ::
  "vm_answers \<Rightarrow> (mach_port_t \<Rightarrow> bool) \<Rightarrow> entry_answer \<Rightarrow> space_id \<Rightarrow> ipc_object mach_msg_descriptor list \<Rightarrow> scatter \<Rightarrow> kmem \<Rightarrow>
     (mach_msg_return_t \<times> mach_port_t mach_msg_descriptor list \<times> kmem) option" where
  "ipc_kmsg_copyout_body va in_table alloc space dscs s S =
     copyout_descriptors va in_table alloc space [] dscs s MACH_MSG_SUCCESS_code S"

text \<open>The whole message: the header, and the body of a complex message.\<close>

definition ipc_kmsg_copyout ::
  "vm_answers \<Rightarrow> (mach_port_t \<Rightarrow> bool) \<Rightarrow> entry_answer \<Rightarrow> (nat \<Rightarrow> kern_return_t + mach_port_t) \<Rightarrow> mach_port_t option \<Rightarrow> bool \<Rightarrow>
     ipc_object mach_msg_header \<Rightarrow> ipc_object mach_msg_descriptor list \<Rightarrow> space_id \<Rightarrow> mach_port_t \<Rightarrow> scatter \<Rightarrow> kmem \<Rightarrow>
     (mach_msg_return_t \<times> (mach_port_t mach_msg_header \<times> mach_port_t mach_msg_descriptor list option) option \<times> kmem) option" where
  "ipc_kmsg_copyout va in_table alloc answers free lock_try msg dscs space notify s S = do {
     (r, K) \<leftarrow> ipc_kmsg_copyout_header answers free lock_try msg space notify (km_kernel S);
     let S = set_kernel K S;
     case r of
       Inl mr \<Rightarrow> Some (mr, None, S)
     | Inr hdr \<Rightarrow>
         if \<not> test (msgh_bits msg) MACH_MSGH_BITS_COMPLEX then Some (MACH_MSG_SUCCESS_code, Some (hdr, None), S)
         else do {
           (mr, out, S) \<leftarrow> ipc_kmsg_copyout_body va in_table alloc space dscs s S;
           Some (if mr \<noteq> MACH_MSG_SUCCESS_code then mr OR MACH_RCV_BODY_ERROR else mr, Some (hdr, Some out), S)
         }
   }"

definition ipc_kmsg_copyout_pseudo ::
  "vm_answers \<Rightarrow> (mach_port_t \<Rightarrow> bool) \<Rightarrow> entry_answer \<Rightarrow> (nat \<Rightarrow> kern_return_t + mach_port_t) \<Rightarrow> ipc_object mach_msg_header \<Rightarrow>
     ipc_object mach_msg_descriptor list \<Rightarrow> space_id \<Rightarrow> scatter \<Rightarrow> kmem \<Rightarrow>
     (mach_msg_return_t \<times> mach_port_t mach_msg_header \<times> mach_port_t mach_msg_descriptor list option \<times> kmem) option" where
  "ipc_kmsg_copyout_pseudo va in_table alloc answers msg dscs space s S = do {
     (mr, hdr, K) \<leftarrow> copyout_pseudo_header in_table answers msg space (km_kernel S);
     let S = set_kernel K S;
     if \<not> test (msgh_bits msg) MACH_MSGH_BITS_COMPLEX then Some (mr, hdr, None, S)
     else do {
       (mr', out, S) \<leftarrow> ipc_kmsg_copyout_body va in_table alloc space dscs s S;
       Some (mr OR mr', hdr, Some out, S)
     }
   }"

text \<open>\<^verbatim>\<open>ipc_kmsg_copyout_dest\<close> for a message of the new format.\<close>

definition ipc_kmsg_copyout_dest ::
  "ipc_object mach_msg_header \<Rightarrow> ipc_object mach_msg_descriptor list \<Rightarrow> space_id \<Rightarrow> kmem \<Rightarrow>
     (mach_port_t mach_msg_header \<times> kmem) option" where
  "ipc_kmsg_copyout_dest msg dscs space S = do {
     (hdr, K) \<leftarrow> copyout_dest_header msg space (km_kernel S);
     let S = set_kernel K S;
     S \<leftarrow> (if test (msgh_bits msg) MACH_MSGH_BITS_COMPLEX then ipc_kmsg_clean_body dscs S else Some S);
     Some (hdr, S)
   }"

text \<open>The reply port keeps its place as an object: the message stays in the kernel.\<close>

definition ipc_kmsg_copyout_to_kernel ::
  "ipc_object mach_msg_header \<Rightarrow> space_id \<Rightarrow> ipc_kernel \<Rightarrow> (mach_msg_bits_t \<times> ipc_object \<times> mach_port_t \<times> ipc_kernel) option" where
  "ipc_kmsg_copyout_to_kernel msg space K = do {
     dest \<leftarrow> (case msgh_remote_port msg of IO_PORT port \<Rightarrow> Some port | _ \<Rightarrow> None);
     dest_type \<leftarrow> msg_right_of (MACH_MSGH_BITS_REMOTE (msgh_bits msg));
     (dest_name, K) \<leftarrow>
       (if ip_active (k_ports K dest) then ipc_object_copyout_dest space dest dest_type K
        else Some (MACH_PORT_DEAD, ip_release dest K));
     Some (MACH_MSGH_BITS_OTHER (msgh_bits msg) OR
             MACH_MSGH_BITS (MACH_MSGH_BITS_LOCAL (msgh_bits msg)) (MACH_MSGH_BITS_REMOTE (msgh_bits msg)),
           msgh_local_port msg, dest_name, K)
   }"

section \<open>Writes to the receiver\<close>

text \<open>
  A write to memory of the receiver is allowed inside a region that the scatter list gives for a descriptor of
  this type, or into memory that was allocated for it. \<open>A\<close> are the events the body causes.
\<close>

fun write_ok :: "mach_port_t mach_msg_descriptor list \<Rightarrow> vm_event set \<Rightarrow> vm_event \<Rightarrow> bool" where
  "write_ok ss A (Vm_Map_Copy addr len src) \<longleftrightarrow>
     (\<exists>d \<in> set ss. is_Ool_Descriptor d \<and> dsc_copy d = MACH_MSG_OVERWRITE \<and> dsc_address d = addr \<and> len \<le> dsc_size d)"
| "write_ok ss A (Copyoutmap src addr len) \<longleftrightarrow>
     (\<exists>d \<in> set ss. is_Ool_Ports_Descriptor d \<and> dsc_copy d = MACH_MSG_OVERWRITE \<and> dsc_address d = addr \<and>
        unat len \<le> 4 * unat (dsc_size d)) \<or>
     Vm_Allocate User_Map addr len \<in> A"
| "write_ok ss A ev = True"

interpretation w: event_check "write_ok ss" for ss
proof
  show "write_ok ss A' ev" if "write_ok ss A ev" "A \<subseteq> A'" for A A' ev
    using that by (cases ev; simp; blast)
qed simp_all

lemma clean_copied_logged: "clean_all_copied cs S = Some S' \<Longrightarrow> logged (write_ok ss) S S'"
proof (induction cs arbitrary: S)
  case (Cons c cs)
  have "clean_copied c S = Some S1 \<Longrightarrow> logged (write_ok ss) S S1" for S1
    by (cases c) (auto split: if_splits intro: w.event)
  then show ?case using Cons by (auto split: bind_splits intro: w.trans)
qed simp

text \<open>The region that the current descriptor allows.\<close>

lemma ool_logged:
  assumes "copyout_ool va a sz dl c s S = (mr, d, S')"
    and "\<And>addr. overwrite_at s = Some addr \<Longrightarrow>
      \<exists>d \<in> set ss. is_Ool_Descriptor d \<and> dsc_copy d = MACH_MSG_OVERWRITE \<and> dsc_address d = addr \<and> sz \<le> dsc_size d"
  shows "logged (write_ok ss) S S'"
proof -
  have "logged (write_ok ss) S (log_event ev (log_event (Vm_Map_Copy addr sz a) S))" if "overwrite_at s = Some addr" "write_ok ss {} ev" for addr ev
    using assms(2) [OF that(1)] that(2) by (intro w.trans [OF w.event w.event]) auto
  moreover have "logged (write_ok ss) S (log_event ev (log_event (Vm_Move m b m' b' sz) S))" "logged (write_ok ss) S (log_event ev S)"
    if "write_ok ss {} ev" for ev m b m' b'
    using that w.trans [OF w.event w.event] w.event by auto
  ultimately show ?thesis
    using assms(1) by (auto simp: copyout_ool_def Let_def split: if_splits option.splits sum.splits)
qed

lemma ool_ports_logged:
  assumes "copyout_ool_ports va it al sp done dscs a n dl c t s S = Some (mr, d, S')"
    and "\<And>addr. overwrite_at s = Some addr \<Longrightarrow>
      \<exists>d \<in> set ss. is_Ool_Ports_Descriptor d \<and> dsc_copy d = MACH_MSG_OVERWRITE \<and> dsc_address d = addr \<and> n \<le> dsc_size d"
  shows "logged (write_ok ss) S S'"
proof -
  have len: "unat (n * 4) \<le> 4 * unat (x :: 32 word)" if "n \<le> x" for x
  proof -
    have "unat (n * 4) \<le> unat n * 4" by (simp add: unat_mult_lem unat_word_ariths mod_less_eq_dividend)
    then show ?thesis using that by (simp add: word_le_nat_alt)
  qed
  have over: "logged (write_ok ss) S (kfree_array a (n * 4) (log_event (Copyoutmap a addr (n * 4)) (set_kernel K S)))"
    if "overwrite_at s = Some addr" for addr K
    using assms(2) [OF that] len by (intro w.trans [OF w.trans [OF logged_refl(2) w.event] w.kfree]) auto
  have fresh: "logged (write_ok ss) S (kfree_array a (n * 4) (log_event (Copyoutmap a addr (n * 4))
      (set_kernel K (log_event (Vm_Allocate User_Map addr (n * 4)) S))))" for addr K
    by (simp add: logged_def kfree_array_def log_event_def set_kernel_def)
  show ?thesis
  proof (cases "overwrite_at s")
    case (Some addr)
    then show ?thesis using assms(1) over [OF Some] by (auto simp: copyout_ool_ports_def Let_def split: if_splits bind_splits)
  next
    case None
    then show ?thesis using assms(1) fresh
      by (auto simp: copyout_ool_ports_def Let_def simp del: ipc_kmsg_clean_body.simps
          split: if_splits bind_splits sum.splits intro: w.trans clean_copied_logged w.clean_body)
  qed
qed

lemma skip_none [simp]: "SKIP_PORT_DESCRIPTORS None = None"
  by (simp add: SKIP_PORT_DESCRIPTORS_def)

lemma size_error_stays: "scatter_loop option nothing gs ss True \<noteq> Inr False"
  by (induction gs arbitrary: ss) (auto split: list.split)

text \<open>What a passed check says of the current descriptors.\<close>

lemma scatter_loop_step:
  assumes "scatter_loop option nothing (g # gs) ss False = Inr False" and "\<not> is_Port_Descriptor g"
    and "SKIP_PORT_DESCRIPTORS (Some ss) = Some ss'"
  shows "set ss' \<subseteq> set ss" "scatter_loop option nothing gs (tl ss') False = Inr False"
    "overwrite_at (Some ss') = Some addr \<Longrightarrow>
      \<exists>d \<in> set ss. (if is_Ool_Descriptor g then is_Ool_Descriptor d else is_Ool_Ports_Descriptor d) \<and>
        dsc_copy d = MACH_MSG_OVERWRITE \<and> dsc_address d = addr \<and> dsc_size g \<le> dsc_size d"
proof -
  obtain d ds where d: "dropWhile is_Port_Descriptor ss = d # ds" "ss' = d # ds"
    using assms(3) by (auto simp: SKIP_PORT_DESCRIPTORS_def split: list.splits)
  show sub: "set ss' \<subseteq> set ss" using d by (metis set_dropWhileD subsetI)
  show "scatter_loop option nothing gs (tl ss') False = Inr False"
    using assms(1,2) d by (auto simp: size_error_stays split: if_splits)
  show "\<exists>d \<in> set ss. (if is_Ool_Descriptor g then is_Ool_Descriptor d else is_Ool_Ports_Descriptor d) \<and>
      dsc_copy d = MACH_MSG_OVERWRITE \<and> dsc_address d = addr \<and> dsc_size g \<le> dsc_size d" if "overwrite_at (Some ss') = Some addr"
    using that assms(1,2) d sub by (auto simp: overwrite_at_def size_error_stays not_less split: if_splits)
qed

definition scatter_checked ::
  "32 word \<Rightarrow> bool \<Rightarrow> ipc_object mach_msg_descriptor list \<Rightarrow> mach_port_t mach_msg_descriptor list \<Rightarrow> scatter \<Rightarrow> bool" where
  "scatter_checked option nothing gs ss s \<longleftrightarrow>
     (case s of None \<Rightarrow> True | Some ds \<Rightarrow> set ds \<subseteq> set ss \<and> scatter_loop option nothing gs ds False = Inr False)"

lemma scatter_checked_step:
  assumes "scatter_checked option nothing (g # gs) ss s" and "\<not> is_Port_Descriptor g"
  shows "scatter_checked option nothing gs ss (INCREMENT_SCATTER (SKIP_PORT_DESCRIPTORS s))"
    "overwrite_at (SKIP_PORT_DESCRIPTORS s) = Some addr \<Longrightarrow>
      \<exists>d \<in> set ss. (if is_Ool_Descriptor g then is_Ool_Descriptor d else is_Ool_Ports_Descriptor d) \<and>
        dsc_copy d = MACH_MSG_OVERWRITE \<and> dsc_address d = addr \<and> dsc_size g \<le> dsc_size d"
proof -
  consider "SKIP_PORT_DESCRIPTORS s = None" | ds ds' where "s = Some ds" "SKIP_PORT_DESCRIPTORS (Some ds) = Some ds'"
    by (cases s; cases "SKIP_PORT_DESCRIPTORS s") auto
  note C = this
  show "scatter_checked option nothing gs ss (INCREMENT_SCATTER (SKIP_PORT_DESCRIPTORS s))"
  proof (cases rule: C)
    case (2 ds ds')
    then have l: "scatter_loop option nothing (g # gs) ds False = Inr False" "set ds \<subseteq> set ss"
      using assms(1) by (simp_all add: scatter_checked_def del: scatter_loop.simps)
    note step = scatter_loop_step(1,2) [OF l(1) assms(2) 2(2)]
    have "set (tl ds') \<subseteq> set ss" using step(1) l(2) by (cases ds') auto
    then show ?thesis using 2 step(2) by (simp add: scatter_checked_def INCREMENT_SCATTER_def)
  qed (simp add: scatter_checked_def INCREMENT_SCATTER_def)
  show "\<exists>d \<in> set ss. (if is_Ool_Descriptor g then is_Ool_Descriptor d else is_Ool_Ports_Descriptor d) \<and>
      dsc_copy d = MACH_MSG_OVERWRITE \<and> dsc_address d = addr \<and> dsc_size g \<le> dsc_size d"
    if "overwrite_at (SKIP_PORT_DESCRIPTORS s) = Some addr"
  proof (cases rule: C)
    case 1
    then show ?thesis using that by (simp add: overwrite_at_def)
  next
    case (2 ds ds')
    then have l: "scatter_loop option nothing (g # gs) ds False = Inr False" "set ds \<subseteq> set ss"
      using assms(1) by (simp_all add: scatter_checked_def del: scatter_loop.simps)
    have "overwrite_at (Some ds') = Some addr" using that 2 by simp
    from scatter_loop_step(3) [OF l(1) assms(2) 2(2) this] l(2) show ?thesis by blast
  qed
qed

lemma copyout_logged:
  assumes "copyout_descriptors va it al sp done gs s mr S = Some (mr', out, S')" and "scatter_checked option nothing gs ss s"
  shows "logged (write_ok ss) S S'"
  using assms
proof (induction gs arbitrary: "done" s mr S)
  case (Cons g gs)
  show ?case
  proof (cases g)
    case (Port_Descriptor p t)
    then have c: "scatter_checked option nothing gs ss s" using Cons.prems(2) by (simp add: scatter_checked_def split: option.splits)
    obtain m n K where "copyout_descriptors va it al sp (done @ [Port_Descriptor n t]) gs s (mr OR m) (set_kernel K S) = Some (mr', out, S')"
      using Cons.prems(1) Port_Descriptor by (auto split: bind_splits)
    from Cons.IH [OF this c] show ?thesis by simp
  next
    case (Ool_Descriptor a sz dl c)
    note step = scatter_checked_step [OF Cons.prems(2)]
    obtain m d S1 where 1: "copyout_ool va a sz dl c (SKIP_PORT_DESCRIPTORS s) S = (m, d, S1)" by (metis prod_cases3)
    have 2: "copyout_descriptors va it al sp (done @ [d]) gs (INCREMENT_SCATTER (SKIP_PORT_DESCRIPTORS s)) (mr OR m) S1 = Some (mr', out, S')"
      using Cons.prems(1) Ool_Descriptor 1 by simp
    have "logged (write_ok ss) S S1" by (rule ool_logged [OF 1]) (use step(2) Ool_Descriptor in auto)
    moreover have "logged (write_ok ss) S1 S'" by (rule Cons.IH [OF 2]) (use step(1) Ool_Descriptor in simp)
    ultimately show ?thesis by (rule w.trans)
  next
    case (Ool_Ports_Descriptor a n dl c t)
    note step = scatter_checked_step [OF Cons.prems(2)]
    obtain m d S1 where 1: "copyout_ool_ports va it al sp done gs a n dl c t (SKIP_PORT_DESCRIPTORS s) S = Some (m, d, S1)"
      and 2: "copyout_descriptors va it al sp (done @ [d]) gs (INCREMENT_SCATTER (SKIP_PORT_DESCRIPTORS s)) (mr OR m) S1 = Some (mr', out, S')"
      using Cons.prems(1) Ool_Ports_Descriptor by (auto simp: Let_def split: bind_splits)
    have "logged (write_ok ss) S S1" by (rule ool_ports_logged [OF 1]) (use step(2) Ool_Ports_Descriptor in auto)
    moreover have "logged (write_ok ss) S1 S'" by (rule Cons.IH [OF 2]) (use step(1) Ool_Ports_Descriptor in simp)
    ultimately show ?thesis by (rule w.trans)
  qed (use Cons.prems in simp)
qed simp

lemma check_passed:
  assumes "fst (ipc_kmsg_check_scatter kalloc gs option ss) = MACH_MSG_SUCCESS_code"
  shows "scatter_loop option (ss = []) gs ss False = Inr False"
proof -
  have codes: "MACH_RCV_SCATTER_SMALL \<noteq> MACH_MSG_SUCCESS_code" "MACH_RCV_INVALID_TYPE_code \<noteq> MACH_MSG_SUCCESS_code"
    "MACH_MSG_VM_KERNEL OR MACH_RCV_BODY_ERROR \<noteq> MACH_MSG_SUCCESS_code" by (simp_all add: code_defs)
  have "scatter_loop option nothing gs ss b = Inl mr \<Longrightarrow> mr = MACH_RCV_SCATTER_SMALL \<or> mr = MACH_RCV_INVALID_TYPE_code" for nothing gs ss b mr
    by (induction gs arbitrary: ss b) (auto split: if_splits list.splits)
  with assms codes show ?thesis by (fastforce simp: ipc_kmsg_check_scatter_def Let_def split: sum.splits if_splits)
qed

text \<open>
  C12: a scatter list that \<^verbatim>\<open>ipc_kmsg_check_scatter\<close> accepts is never overrun. Both routines
  pair the descriptors of the message with those of the list in the same way, so that every write of
  \<^verbatim>\<open>ipc_kmsg_copyout_body\<close> to the receiver goes to a region the list gives for memory, or for ports, of at least this
  size, or to memory that was allocated for it at this size; also when copyouts fail on the way.
\<close>

theorem scatter_writes_bounded:
  assumes "fst (ipc_kmsg_check_scatter kalloc gather option ss) = MACH_MSG_SUCCESS_code"
    and "ipc_kmsg_copyout_body va in_table alloc space gather (Some ss) S = Some (mr, out, S')"
  shows "\<exists>evs. km_log S' = evs @ km_log S \<and> (\<forall>ev \<in> set evs. write_ok ss (set evs) ev)"
  using copyout_logged [where nothing = "ss = []" and option = option and ss = ss, OF assms(2) [unfolded ipc_kmsg_copyout_body_def]]
    check_passed [OF assms(1)]
  by (simp add: scatter_checked_def logged_def)

text \<open>A message with a port and memory; the scatter list has a region of 100 bytes for the memory.\<close>

theorem scatter_writes_bounded_witness:
  "let gather = [Port_Descriptor IO_NULL 17, Ool_Descriptor 0x9000 64 False 1];
       ss = [Ool_Descriptor 0x5000 100 False MACH_MSG_OVERWRITE];
       va = \<lparr>va_allocate = (\<lambda>_ _ _. Inr 0), va_copyin_fails = (\<lambda>_ _ _. False), va_move = (\<lambda>_ _ _ _ _. Inr 0),
             va_kalloc = (\<lambda>_ _. 0), va_copyinmap = (\<lambda>_ _ _. None), va_map_copy = (\<lambda>_ _ _ _. KERN_SUCCESS)\<rparr>;
       S = \<lparr>km_kernel = kernel0, km_arrays = (\<lambda>_. None), km_log = []\<rparr>
   in \<exists>mr out S'. ipc_kmsg_copyout_body va (\<lambda>_. True) (\<lambda>_. Inl KERN_NO_SPACE) 1 gather (Some ss) S = Some (mr, out, S') \<and>
        Vm_Map_Copy 0x5000 64 0x9000 \<in> set (km_log S') \<and> (\<forall>ev \<in> set (km_log S'). write_ok ss (set (km_log S')) ev)"
proof -
  define gather :: "ipc_object mach_msg_descriptor list" where "gather = [Port_Descriptor IO_NULL 17, Ool_Descriptor 0x9000 64 False 1]"
  define ss :: "mach_port_t mach_msg_descriptor list" where "ss = [Ool_Descriptor 0x5000 100 False MACH_MSG_OVERWRITE]"
  define va where "va = \<lparr>va_allocate = (\<lambda>_ _ _. Inr 0), va_copyin_fails = (\<lambda>_ _ _. False), va_move = (\<lambda>_ _ _ _ _. Inr 0),
             va_kalloc = (\<lambda>_ _. 0), va_copyinmap = (\<lambda>_ _ _. None), va_map_copy = (\<lambda>_ _ _ _. KERN_SUCCESS)\<rparr>"
  define S where "S = \<lparr>km_kernel = kernel0, km_arrays = (\<lambda>_. None), km_log = []\<rparr>"
  have check: "fst (ipc_kmsg_check_scatter (\<lambda>_. True) gather 0 ss) = MACH_MSG_SUCCESS_code"
    by (simp add: ipc_kmsg_check_scatter_def gather_def ss_def)
  obtain mr out S' where run: "ipc_kmsg_copyout_body va (\<lambda>_. True) (\<lambda>_. Inl KERN_NO_SPACE) 1 gather (Some ss) S = Some (mr, out, S')"
    and ev: "Vm_Map_Copy 0x5000 64 0x9000 \<in> set (km_log S')"
    by (simp add: ipc_kmsg_copyout_body_def gather_def ss_def va_def S_def copyout_right_def IO_VALID_def copyout_ool_def
        SKIP_PORT_DESCRIPTORS_def overwrite_at_def log_event_def set_kernel_def)
  from scatter_writes_bounded [OF check run] have "\<forall>ev \<in> set (km_log S'). write_ok ss (set (km_log S')) ev" by (auto simp: S_def)
  then show ?thesis
    unfolding Let_def gather_def [symmetric] ss_def [symmetric] va_def [symmetric] S_def [symmetric] using run ev by blast
qed

section \<open>No memory for an array\<close>

text \<open>
  When there is no memory in the receiver's map for an array of ports, \<^verbatim>\<open>ipc_kmsg_copyout_body\<close>
  cleans the whole body, also the descriptors it has copied out already. A port of the body that came before
  the array is then the name of a right of the receiver, and the kernel takes this name for a pointer to a port.
\<close>

theorem copyout_cleans_names:
  assumes "copyout_right in_table alloc space object t (km_kernel S) = Some (mr, name, K)" and "MACH_PORT_VALID name"
    and "number * 4 \<noteq> 0" and "va_allocate va (km_log S) User_Map (number * 4) = Inl kr"
  shows "ipc_kmsg_copyout_body va in_table alloc space
    (Port_Descriptor object t # Ool_Ports_Descriptor data number dealloc copy t' # dscs) None S = None"
  using assms by (simp add: ipc_kmsg_copyout_body_def copyout_ool_ports_def overwrite_at_def set_kernel_def)

text \<open>A send-once right, received under the name \<open>0x103\<close>, before an array of one port.\<close>

theorem copyout_cleans_names_witness:
  "let va = \<lparr>va_allocate = (\<lambda>_ _ _. Inl KERN_NO_SPACE), va_copyin_fails = (\<lambda>_ _ _. False), va_move = (\<lambda>_ _ _ _ _. Inr 0),
             va_kalloc = (\<lambda>_ _. 0), va_copyinmap = (\<lambda>_ _ _. None), va_map_copy = (\<lambda>_ _ _ _. KERN_SUCCESS)\<rparr>;
       S = \<lparr>km_kernel = kernel0, km_arrays = [0x2000 \<mapsto> [IO_NULL]], km_log = []\<rparr>
   in ipc_kmsg_copyout_body va (\<lambda>_. True) (\<lambda>_. Inr 0x103) 3
        [Port_Descriptor (IO_PORT 2) 18, Ool_Ports_Descriptor 0x2000 1 False 1 17] None S = None"
proof -
  define va where "va = \<lparr>va_allocate = (\<lambda>_ _ _. Inl KERN_NO_SPACE), va_copyin_fails = (\<lambda>_ _ _. False), va_move = (\<lambda>_ _ _ _ _. Inr 0),
             va_kalloc = (\<lambda>_ _. 0), va_copyinmap = (\<lambda>_ _ _. None), va_map_copy = (\<lambda>_ _ _ _. KERN_SUCCESS)\<rparr>"
  define S where "S = \<lparr>km_kernel = kernel0, km_arrays = [0x2000 \<mapsto> [IO_NULL]], km_log = []\<rparr>"
  have a: "is_active (k_spaces kernel0 3)" "ip_active (k_ports kernel0 2)" by (simp_all add: state0_defs)
  obtain mr K where "copyout_right (\<lambda>_. True) (\<lambda>_. Inr 0x103) 3 (IO_PORT 2) 18 (km_kernel S) = Some (mr, 0x103, K)"
    by (simp add: copyout_right_def IO_VALID_def msg_right_of_def ipc_kmsg_copyout_object_def quick_copyout_def slow_copyout_def
        ipc_object_copyout_def copyout_reverse_def entry_alloc_def S_def a Let_def split: prod.split)
  from copyout_cleans_names [where va = va, OF this] show ?thesis
    unfolding Let_def va_def [symmetric] S_def [symmetric]
    by (simp add: va_def MACH_PORT_VALID_def MACH_PORT_NULL_def MACH_PORT_DEAD_def)
qed

end
