(* ===== verification/Mqueue_Receive.thy ===== *)
theory Mqueue_Receive
  imports Port_Queues Ipc_Marequest Body_Copyout
begin

text \<open>
  Receiving messages: \<^verbatim>\<open>ipc_mqueue_copyin\<close>, \<^verbatim>\<open>ipc_mqueue_receive\<close> up to the point where the thread blocks and from
  the point where it wakes up, and \<^verbatim>\<open>ipc_mqueue_send_interrupt\<close>. The header fields of messages and the answers of
  \<^verbatim>\<open>ipc_kmsg_check_scatter\<close> come from the state, the msg-accepted request of a message from the parameter \<open>imar\<close>, and
  \<open>list\<close> says whether the receiver has a scatter list.
\<close>

section \<open>From a name to a queue\<close>

definition MACH_RCV_INVALID_NAME :: mach_msg_return_t where "MACH_RCV_INVALID_NAME = 0x10004002"
definition MACH_RCV_TIMED_OUT :: mach_msg_return_t where "MACH_RCV_TIMED_OUT = 0x10004003"
definition MACH_RCV_TOO_LARGE_code :: mach_msg_return_t where "MACH_RCV_TOO_LARGE_code = 0x10004004"
definition MACH_RCV_INTERRUPTED :: mach_msg_return_t where "MACH_RCV_INTERRUPTED = 0x10004005"
definition MACH_RCV_PORT_CHANGED_code :: mach_msg_return_t where "MACH_RCV_PORT_CHANGED_code = 0x10004006"
definition MACH_RCV_PORT_DIED_code :: mach_msg_return_t where "MACH_RCV_PORT_DIED_code = 0x10004009"
definition MACH_RCV_IN_SET :: mach_msg_return_t where "MACH_RCV_IN_SET = 0x1000400a"

text \<open>The queue and the object, of which the caller gets a reference.\<close>

definition ipc_mqueue_copyin ::
  "space_id \<Rightarrow> mach_port_t \<Rightarrow> ipc_kernel \<Rightarrow> (mach_msg_return_t + mqueue \<times> ipc_object) \<times> ipc_kernel" where
  "ipc_mqueue_copyin space name K =
     (if \<not> is_active (k_spaces K space) then (Inl MACH_RCV_INVALID_NAME, K)
      else case entries K space name of
        None \<Rightarrow> (Inl MACH_RCV_INVALID_NAME, K)
      | Some entry \<Rightarrow>
          if test (ie_bits entry) MACH_PORT_TYPE_RECEIVE then
            (case ie_object entry of
               IO_PORT port \<Rightarrow>
                 (case ip_pset (k_ports K port) of
                    None \<Rightarrow> (Inr (MQ_PORT port, IO_PORT port), ip_reference port K)
                  | Some pset \<Rightarrow>
                      if ips_active (k_psets K pset) then (Inl MACH_RCV_IN_SET, K)
                      else (Inr (MQ_PORT port, IO_PORT port), ip_reference port (ipc_pset_remove pset port K)))
             | _ \<Rightarrow> (Inl MACH_RCV_INVALID_NAME, K))
          else if test (ie_bits entry) MACH_PORT_TYPE_PORT_SET then
            (case ie_object entry of
               IO_PSET pset \<Rightarrow> (Inr (MQ_PSET pset, IO_PSET pset), ips_reference pset K)
             | _ \<Rightarrow> (Inl MACH_RCV_INVALID_NAME, K))
          else (Inl MACH_RCV_INVALID_NAME, K))"

section \<open>Can the receiver take the message?\<close>

definition MACH_RCV_TIMEOUT :: mach_msg_option_t where "MACH_RCV_TIMEOUT = 0x00000100"

text \<open>
  Whether the message at the head of the queue is taken, and the state of the receiver; a message that is not taken
  stays, and the receiver returns with the state.
\<close>

definition receive_check ::
  "mach_msg_option_t \<Rightarrow> mach_msg_size_t \<Rightarrow> msg_info \<Rightarrow> mach_msg_return_t option \<Rightarrow> (bool \<times> mach_msg_return_t) option" where
  "receive_check option max_size m scatter =
     (if mi_old_format m then
        Some (if \<not> test option MACH_RCV_OLD_FORMAT then (True, MACH_RCV_HEADER_ERROR_code)
              else if max_size < mi_size m then (False, MACH_RCV_TOO_LARGE_code)
              else (True, MACH_MSG_SUCCESS_code))
      else if test option MACH_RCV_OLD_FORMAT then
        Some (if mi_complex m \<or> msg_header_size < mi_size m \<or> max_size < msg_header_size
              then (True, MACH_RCV_HEADER_ERROR_code) else (True, MACH_MSG_SUCCESS_code))
      else do {
        trailer \<leftarrow> REQUESTED_TRAILER_SIZE option;
        Some (if max_size - trailer < mi_size m
              then (\<not> test option MACH_RCV_LARGE, MACH_RCV_TOO_LARGE_code)
              else case (if mi_complex m then scatter else None) of
                None \<Rightarrow> (True, MACH_MSG_SUCCESS_code)
              | Some mr \<Rightarrow>
                  if mr = MACH_MSG_SUCCESS_code then (True, mr)
                  else if mr = MACH_RCV_INVALID_TYPE_code \<or> mr AND MACH_MSG_VM_KERNEL \<noteq> 0 then (False, mr)
                  else (\<not> test option MACH_RCV_LARGE, mr))
      })"

section \<open>Receiving\<close>

text \<open>The codes of thread states, and the answer of \<^verbatim>\<open>ipc_kmsg_check_scatter\<close> for a thread, if it has a scatter list.\<close>

fun ith_code :: "ith_state \<Rightarrow> mach_msg_return_t" where
  "ith_code MACH_MSG_SUCCESS = MACH_MSG_SUCCESS_code"
| "ith_code MACH_RCV_PORT_DIED = MACH_RCV_PORT_DIED_code"
| "ith_code MACH_RCV_PORT_CHANGED = MACH_RCV_PORT_CHANGED_code"
| "ith_code MACH_RCV_HEADER_ERROR = MACH_RCV_HEADER_ERROR_code"
| "ith_code MACH_RCV_TOO_LARGE = MACH_RCV_TOO_LARGE_code"
| "ith_code MACH_RCV_INVALID_TYPE = MACH_RCV_INVALID_TYPE_code"
| "ith_code ITH_SCATTER_SMALL = MACH_RCV_SCATTER_SMALL"
| "ith_code ITH_BODY_ERROR_VM = MACH_MSG_VM_KERNEL OR MACH_RCV_BODY_ERROR"

lemmas rcv_codes = code_defs MACH_RCV_TOO_LARGE_code_def MACH_RCV_PORT_DIED_code_def MACH_RCV_PORT_CHANGED_code_def

definition scatter_answer :: "bool \<Rightarrow> thread_id \<Rightarrow> ipc_kernel \<Rightarrow> ipc_kmsg \<Rightarrow> mach_msg_return_t option" where
  "scatter_answer list self K kmsg = (if list then Some (ith_code (k_check_scatter K self kmsg)) else None)"

lemma scatter_answer_upd [simp]:
  "scatter_answer list self (upd_port p f K) = scatter_answer list self K"
  "scatter_answer list self (threads_go gos K) = scatter_answer list self K"
  by (simp_all add: scatter_answer_def fun_eq_iff upd_port_def threads_go_def)

datatype rcv_result =
    Rcv_Message mach_msg_return_t ipc_kmsg natural_t
  | Rcv_Error mach_msg_return_t
  | Rcv_Blocked

text \<open>The end of the routine: the request of the message is destroyed and a blocked sender may go on.\<close>

definition receive_done ::
  "imar_id option \<Rightarrow> ipc_kmsg \<Rightarrow> ipc_kernel \<Rightarrow> ipc_kernel option" where
  "receive_done imar kmsg K = do {
     K \<leftarrow> (case imar of None \<Rightarrow> Some K | Some marequest \<Rightarrow> ipc_marequest_destroy marequest K);
     case ikm_remote kmsg of
       IO_PORT port \<Rightarrow>
         Some (if \<not> ip_active (k_ports K port) then K
               else
                 (let K = upd_port port (ip_msgcount_update (\<lambda>n. n - 1)) K
                  in case ip_blocked (k_ports K port) of
                       [] \<Rightarrow> K
                     | sender # senders \<Rightarrow>
                         if ip_msgcount (k_ports K port) < ip_qlimit (k_ports K port)
                         then threads_go (wake_senders [sender]) (upd_port port (ip_blocked_update (\<lambda>_. senders)) K)
                         else K))
     | _ \<Rightarrow> None
   }"

text \<open>
  One round of the loop: the message at the head of the queue, or blocking. \<open>timeout\<close> is the timeout of a receive
  with the option \<^verbatim>\<open>MACH_RCV_TIMEOUT\<close>.
\<close>

definition ipc_mqueue_receive ::
  "(ipc_kmsg \<Rightarrow> imar_id option) \<Rightarrow> bool \<Rightarrow> thread_id \<Rightarrow>
     mqueue \<Rightarrow> mach_msg_option_t \<Rightarrow> mach_msg_size_t \<Rightarrow> natural_t \<Rightarrow> ipc_kernel \<Rightarrow> (rcv_result \<times> ipc_kernel) option" where
  "ipc_mqueue_receive imar list self mqueue option max_size timeout K =
     (case imq_messages K mqueue of
        kmsg # kmsgs \<Rightarrow> do {
          (taken, mr) \<leftarrow> receive_check option max_size (k_msg_info K kmsg) (scatter_answer list self K kmsg);
          if \<not> taken then Some (Rcv_Error mr, K)
          else case ikm_remote kmsg of
            IO_PORT port \<Rightarrow> do {
              let seqno = ip_seqno (k_ports K port);
              let K = upd_port port (ip_seqno_update (\<lambda>n. n + 1)) (set_imq_messages mqueue kmsgs K);
              K \<leftarrow> receive_done (imar kmsg) kmsg K;
              Some (Rcv_Message mr kmsg seqno, K)
            }
          | _ \<Rightarrow> None
        }
      | [] \<Rightarrow>
          Some (if test option MACH_RCV_TIMEOUT \<and> timeout = 0 then (Rcv_Error MACH_RCV_TIMED_OUT, K)
                else (Rcv_Blocked, set_imq_threads mqueue (imq_threads K mqueue @ [self])
                  (K\<lparr>k_rcv_args := (k_rcv_args K)
                       (self := \<lparr>ith_rcv_option = option, ith_msize = max_size, ith_list = list\<rparr>)\<rparr>))))"

text \<open>
  Why the thread woke up: a call of \<^verbatim>\<open>thread_go\<close>, an interruption or a timeout. A state that is not among the cases
  of the switch statement is a panic, \<open>None\<close>.
\<close>

datatype rcv_wakeup = Woken thread_go | Interrupted | Timed_Out

definition ipc_mqueue_receive_resume ::
  "(ipc_kmsg \<Rightarrow> imar_id option) \<Rightarrow> bool \<Rightarrow> thread_id \<Rightarrow>
     mqueue \<Rightarrow> mach_msg_option_t \<Rightarrow> mach_msg_size_t \<Rightarrow> rcv_wakeup \<Rightarrow> ipc_kernel \<Rightarrow> (rcv_result \<times> ipc_kernel) option" where
  "ipc_mqueue_receive_resume imar list self mqueue option max_size wakeup K =
     (let return_kmsg = (\<lambda>mr go. do {
            (kmsg, seqno) \<leftarrow> tg_kmsg go;
            K \<leftarrow> receive_done (imar kmsg) kmsg K;
            Some (Rcv_Message mr kmsg seqno, K) });
          leave = set_imq_threads mqueue (remove1 self (imq_threads K mqueue))
      in case wakeup of
           Woken go \<Rightarrow>
             (case tg_state go of
                MACH_MSG_SUCCESS \<Rightarrow> return_kmsg MACH_MSG_SUCCESS_code go
              | MACH_RCV_HEADER_ERROR \<Rightarrow> return_kmsg MACH_RCV_HEADER_ERROR_code go
              | MACH_RCV_TOO_LARGE \<Rightarrow>
                  if \<not> test option (MACH_RCV_LARGE OR MACH_RCV_OLD_FORMAT) then return_kmsg MACH_RCV_TOO_LARGE_code go
                  else Some (Rcv_Error MACH_RCV_TOO_LARGE_code, K)
              | ITH_SCATTER_SMALL \<Rightarrow>
                  if \<not> test option (MACH_RCV_LARGE OR MACH_RCV_OLD_FORMAT) then return_kmsg MACH_RCV_SCATTER_SMALL go
                  else Some (Rcv_Error MACH_RCV_SCATTER_SMALL, K)
              | ITH_BODY_ERROR_VM \<Rightarrow> None
              | MACH_RCV_INVALID_TYPE \<Rightarrow> Some (Rcv_Error MACH_RCV_INVALID_TYPE_code, K)
              | MACH_RCV_PORT_DIED \<Rightarrow> Some (Rcv_Error MACH_RCV_PORT_DIED_code, K)
              | MACH_RCV_PORT_CHANGED \<Rightarrow> Some (Rcv_Error MACH_RCV_PORT_CHANGED_code, K))
         | Interrupted \<Rightarrow> Some (Rcv_Error MACH_RCV_INTERRUPTED, leave K)
         | Timed_Out \<Rightarrow> ipc_mqueue_receive imar list self mqueue option max_size 0 (leave K))"

section \<open>A blocked sender wakes up\<close>

definition MACH_SEND_INTERRUPTED :: mach_msg_return_t where "MACH_SEND_INTERRUPTED = 0x10000007"

text \<open>A sender that was made runnable runs its loop again, one that timed out does so with timeout 0.\<close>

definition ipc_mqueue_send_resume ::
  "ipc_kmsg \<Rightarrow> bool \<Rightarrow> natural_t option \<Rightarrow> thread_id \<Rightarrow> rcv_wakeup \<Rightarrow> ipc_kernel \<Rightarrow>
     ((mach_msg_return_t + mach_msg_return) \<times> ipc_kernel) option" where
  "ipc_mqueue_send_resume kmsg always timeout self wakeup K =
     (case ikm_remote kmsg of
        IO_PORT port \<Rightarrow>
          (let leave = upd_port port (ip_blocked_update (remove1 self))
           in Some (case wakeup of
                Woken go \<Rightarrow> apfst Inr (ipc_mqueue_send kmsg always timeout self K)
              | Interrupted \<Rightarrow> (Inl MACH_SEND_INTERRUPTED, leave K)
              | Timed_Out \<Rightarrow> apfst Inr (ipc_mqueue_send kmsg always (Some 0) self (leave K))))
      | _ \<Rightarrow> None)"

section \<open>Sending at interrupt level\<close>

text \<open>The locks may not be free: \<open>port_free\<close> and \<open>queue_free\<close> are the answers of \<^verbatim>\<open>ip_lock_try\<close> and \<^verbatim>\<open>imq_lock_try\<close>.\<close>

definition ipc_mqueue_send_interrupt :: "bool \<Rightarrow> bool \<Rightarrow> ipc_kmsg \<Rightarrow> ipc_kernel \<Rightarrow> (mach_msg_return_t \<times> ipc_kernel) option" where
  "ipc_mqueue_send_interrupt port_free queue_free kmsg K =
     (case ikm_remote kmsg of
        IO_PORT port \<Rightarrow>
          Some (if \<not> port_free then (MACH_MSG_IPC_KERNEL, K)
                else if \<not> ip_active (k_ports K port) then (MACH_SEND_INVALID_DEST, K)
                else if \<not> queue_free then (MACH_MSG_IPC_KERNEL, K)
                else (MACH_MSG_SUCCESS_code, mqueue_deliver kmsg port K))
      | _ \<Rightarrow> None)"

section \<open>A port as a bounded queue\<close>

text \<open>Sends and receives that do not wait, on one port.\<close>

datatype queue_op = Send ipc_kmsg | Receive

datatype queue_answer = Sent | Full | Got ipc_kmsg natural_t | Nothing

text \<open>The queue as a specification: its messages, the number of the next message and the limit.\<close>

type_synonym fifo = "ipc_kmsg list \<times> natural_t"

fun fifo_step :: "nat \<Rightarrow> queue_op \<Rightarrow> fifo \<Rightarrow> queue_answer \<times> fifo" where
  "fifo_step limit (Send m) (q, n) = (if length q < limit then (Sent, q @ [m], n) else (Full, q, n))"
| "fifo_step limit Receive ([], n) = (Nothing, [], n)"
| "fifo_step limit Receive (m # q, n) = (Got m n, q, n + 1)"

fun fifo_run :: "nat \<Rightarrow> queue_op list \<Rightarrow> fifo \<Rightarrow> queue_answer list \<times> fifo" where
  "fifo_run limit [] s = ([], s)"
| "fifo_run limit (a # as) s =
     (let (r, s) = fifo_step limit a s; (rs, s) = fifo_run limit as s in (r # rs, s))"

fun op_run :: "(queue_op \<Rightarrow> 's \<Rightarrow> (queue_answer \<times> 's) option) \<Rightarrow> queue_op list \<Rightarrow> 's \<Rightarrow> (queue_answer list \<times> 's) option" where
  "op_run step [] s = Some ([], s)"
| "op_run step (a # as) s = do { (r, s) \<leftarrow> step a s; (rs, s) \<leftarrow> op_run step as s; Some (r # rs, s) }"

text \<open>The messages that were accepted and those that were returned.\<close>

fun accepted_msgs :: "queue_op list \<Rightarrow> queue_answer list \<Rightarrow> ipc_kmsg list" where
  "accepted_msgs (Send m # as) (Sent # rs) = m # accepted_msgs as rs"
| "accepted_msgs (a # as) (r # rs) = accepted_msgs as rs"
| "accepted_msgs _ _ = []"

fun returned_msgs :: "queue_answer list \<Rightarrow> ipc_kmsg list" where
  "returned_msgs (Got m n # rs) = m # returned_msgs rs"
| "returned_msgs (r # rs) = returned_msgs rs"
| "returned_msgs [] = []"

lemma fifo_step_order:
  "fifo_step limit a (q, n) = (r, q', n') \<Longrightarrow> q @ accepted_msgs [a] [r] = returned_msgs [r] @ q'"
  by (cases a; cases q) (auto split: if_splits)

lemma fifo_step_keeps:
  "fifo_step limit a (q, n) = (r, f) \<Longrightarrow> \<forall>m. a = Send m \<longrightarrow> P m \<Longrightarrow> \<forall>m\<in>set q. P m \<Longrightarrow> \<forall>m\<in>set (fst f). P m"
  by (cases a; cases q) (auto split: if_splits)

lemma accepted_msgs_Cons: "accepted_msgs (a # as) (r # rs) = accepted_msgs [a] [r] @ accepted_msgs as rs"
  by (cases a; cases r) auto

lemma returned_msgs_Cons: "returned_msgs (r # rs) = returned_msgs [r] @ returned_msgs rs"
  by (cases r) auto

lemma fifo_run_order:
  "fifo_run limit as (q, n) = (rs, q', n') \<Longrightarrow> q @ accepted_msgs as rs = returned_msgs rs @ q'"
proof (induction as arbitrary: q n rs)
  case (Cons a as)
  obtain r q1 n1 where s: "fifo_step limit a (q, n) = (r, q1, n1)" by (metis surj_pair)
  obtain rs' where r: "fifo_run limit as (q1, n1) = (rs', q', n')" and rs: "rs = r # rs'"
    using Cons.prems s by (auto split: prod.splits)
  have "q @ accepted_msgs [a] [r] @ accepted_msgs as rs' = returned_msgs [r] @ returned_msgs rs' @ q'"
    using fifo_step_order [OF s] Cons.IH [OF r] by (metis append.assoc)
  then show ?case by (simp add: rs accepted_msgs_Cons [of a as] returned_msgs_Cons [of r rs'])
qed simp

text \<open>
  What a client of a port relies on: in a state where \<open>ok\<close> holds, a step is a step of the specification, with the
  queue of the state read by \<open>get\<close> and written back by \<open>put\<close>, and nothing else changed.
\<close>

locale bounded_fifo =
  fixes step :: "queue_op \<Rightarrow> 's \<Rightarrow> (queue_answer \<times> 's) option"
    and get :: "'s \<Rightarrow> fifo" and put :: "fifo \<Rightarrow> 's \<Rightarrow> 's" and limit :: "'s \<Rightarrow> nat"
    and ok :: "'s \<Rightarrow> bool" and good :: "ipc_kmsg \<Rightarrow> bool"
  assumes get_put: "ok s \<Longrightarrow> get (put f s) = f" and put_get: "ok s \<Longrightarrow> put (get s) s = s"
    and put_put: "put f (put g s) = put f s"
    and limit_put: "limit (put f s) = limit s"
    and ok_put: "ok s \<Longrightarrow> \<forall>m\<in>set (fst f). good m \<Longrightarrow> ok (put f s)"
    and ok_good: "ok s \<Longrightarrow> \<forall>m\<in>set (fst (get s)). good m"
    and step_law: "ok s \<Longrightarrow> \<forall>m. a = Send m \<longrightarrow> good m \<Longrightarrow>
        step a s = (case fifo_step (limit s) a (get s) of (r, f) \<Rightarrow> Some (r, put f s))"
begin

lemma run_is_fifo:
  "ok s \<Longrightarrow> \<forall>m. Send m \<in> set as \<longrightarrow> good m \<Longrightarrow>
     op_run step as s = (case fifo_run (limit s) as (get s) of (rs, f) \<Rightarrow> Some (rs, put f s))"
proof (induction as arbitrary: s)
  case Nil
  then show ?case by (simp add: put_get)
next
  case (Cons a as)
  obtain r f where s: "fifo_step (limit s) a (get s) = (r, f)" by (metis surj_pair)
  have g: "\<forall>m. a = Send m \<longrightarrow> good m" using Cons.prems by auto
  have "\<forall>m\<in>set (fst f). good m" using fifo_step_keeps [OF _ g, of _ "fst (get s)" "snd (get s)"] s ok_good [OF Cons.prems(1)] by simp
  then have ok': "ok (put f s)" by (rule ok_put [OF Cons.prems(1)])
  have "\<forall>m. Send m \<in> set as \<longrightarrow> good m" using Cons.prems by auto
  then show ?case using step_law [OF Cons.prems(1) g] Cons.IH [OF ok'] s Cons.prems(1)
    by (simp add: limit_put get_put put_put split: prod.splits)
qed

end

text \<open>The operations of a port: a send with timeout 0 and a receive from its queue with timeout 0.\<close>

definition port_op ::
  "(ipc_kmsg \<Rightarrow> imar_id option) \<Rightarrow> bool \<Rightarrow> thread_id \<Rightarrow>
     mach_msg_option_t \<Rightarrow> mach_msg_size_t \<Rightarrow> port_id \<Rightarrow> queue_op \<Rightarrow> ipc_kernel \<Rightarrow> (queue_answer \<times> ipc_kernel) option" where
  "port_op imar list self option max_size port a K =
     (case a of
        Send m \<Rightarrow>
          (case ipc_mqueue_send m False (Some 0) self K of
             (SEND_SUCCESS, K) \<Rightarrow> Some (Sent, K)
           | (SEND_TIMED_OUT, K) \<Rightarrow> Some (Full, K)
           | (SEND_BLOCKED, K) \<Rightarrow> None)
      | Receive \<Rightarrow>
          (case ipc_mqueue_receive imar list self (MQ_PORT port) option max_size 0 K of
             Some (Rcv_Message mr m seqno, K) \<Rightarrow> if mr = MACH_MSG_SUCCESS_code then Some (Got m seqno, K) else None
           | Some (Rcv_Error mr, K) \<Rightarrow> if mr = MACH_RCV_TIMED_OUT then Some (Nothing, K) else None
           | _ \<Rightarrow> None))"

text \<open>A message for the port that the receiver can take, without a msg-accepted request and not for a send-once right.\<close>

definition fifo_msg ::
  "(ipc_kmsg \<Rightarrow> msg_info) \<Rightarrow> (ipc_kmsg \<Rightarrow> imar_id option) \<Rightarrow> (ipc_kmsg \<Rightarrow> mach_msg_return_t option) \<Rightarrow>
     mach_msg_option_t \<Rightarrow> mach_msg_size_t \<Rightarrow> port_id \<Rightarrow> ipc_kmsg \<Rightarrow> bool" where
  "fifo_msg info imar scatter option max_size port m \<longleftrightarrow>
     ikm_remote m = IO_PORT port \<and> ikm_remote_right m \<noteq> MACH_MSG_TYPE_PORT_SEND_ONCE \<and> \<not> ikm_circular m \<and>
     imar m = None \<and> receive_check option max_size (info m) (scatter m) = Some (True, MACH_MSG_SUCCESS_code)"

text \<open>A live port of a task, outside of any set, on which no thread waits; its message count is right.\<close>

definition quiet_port :: "(ipc_kmsg \<Rightarrow> bool) \<Rightarrow> port_id \<Rightarrow> ipc_kernel \<Rightarrow> bool" where
  "quiet_port good port K \<longleftrightarrow>
     (let po = k_ports K port
      in ip_active po \<and> ip_data po \<noteq> Ip_Receiver (k_kernel_space K) \<and> ip_pset po = None \<and> ip_receivers po = [] \<and>
         ip_blocked po = [] \<and> ip_msgcount po = length (ip_messages po) \<and> (\<forall>m\<in>set (ip_messages po). good m))"

definition get_fifo :: "port_id \<Rightarrow> ipc_kernel \<Rightarrow> fifo" where
  "get_fifo port K = (ip_messages (k_ports K port), ip_seqno (k_ports K port))"

definition put_fifo :: "port_id \<Rightarrow> fifo \<Rightarrow> ipc_kernel \<Rightarrow> ipc_kernel" where
  "put_fifo port f = upd_port port (\<lambda>po. po\<lparr>ip_messages := fst f, ip_seqno := snd f, ip_msgcount := length (fst f)\<rparr>)"

lemma put_get_fifo:
  "ip_msgcount (k_ports K port) = length (ip_messages (k_ports K port)) \<Longrightarrow> put_fifo port (get_fifo port K) K = K"
  by (cases K; cases "k_ports K port") (simp add: put_fifo_def get_fifo_def upd_defs fun_upd_idem)

lemma port_send:
  assumes q: "quiet_port good port K" and m: "fifo_msg info imar scatter option max_size port m"
  shows "port_op imar list self option max_size port (Send m) K =
    (case fifo_step (ip_qlimit (k_ports K port)) (Send m) (get_fifo port K) of (r, f) \<Rightarrow> Some (r, put_fifo port f K))"
proof -
  have "mqueue_deliver m port K = put_fifo port (ip_messages (k_ports K port) @ [m], ip_seqno (k_ports K port)) K"
    using q by (cases "k_ports K port") (simp add: mqueue_deliver_def quiet_port_def put_fifo_def upd_defs threads_go_def)
  moreover have "put_fifo port (get_fifo port K) K = K"
    using q by (simp add: quiet_port_def Let_def put_get_fifo)
  ultimately show ?thesis
    using assms by (simp add: port_op_def ipc_mqueue_send_def get_fifo_def quiet_port_def fifo_msg_def Let_def)
qed

lemma port_receive:
  assumes q: "quiet_port (fifo_msg info imar scatter option max_size port) port K" and t: "test option MACH_RCV_TIMEOUT"
    and k: "k_msg_info K = info" "scatter_answer list self K = scatter"
  shows "port_op imar list self option max_size port Receive K =
    (case fifo_step (ip_qlimit (k_ports K port)) Receive (get_fifo port K) of (r, f) \<Rightarrow> Some (r, put_fifo port f K))"
proof (cases "ip_messages (k_ports K port)")
  case Nil
  have "put_fifo port (get_fifo port K) K = K"
    using q by (simp add: quiet_port_def Let_def put_get_fifo)
  with Nil show ?thesis
    using t by (simp add: port_op_def ipc_mqueue_receive_def get_fifo_def)
next
  case (Cons m ms)
  have m: "fifo_msg info imar scatter option max_size port m" using q Cons by (simp add: quiet_port_def Let_def)
  then show ?thesis using q k Cons
    by (cases "k_ports K port")
       (simp add: port_op_def ipc_mqueue_receive_def get_fifo_def receive_done_def fifo_msg_def quiet_port_def put_fifo_def upd_defs Let_def)
qed

interpretation pf: bounded_fifo "port_op imar list self option max_size port" "get_fifo port" "put_fifo port"
  "\<lambda>K. ip_qlimit (k_ports K port)"
  "\<lambda>K. test option MACH_RCV_TIMEOUT \<and> k_msg_info K = info \<and> scatter_answer list self K = scatter \<and>
     quiet_port (fifo_msg info imar scatter option max_size port) port K"
  "fifo_msg info imar scatter option max_size port"
proof (unfold_locales, goal_cases)
  case (2 s)
  then show ?case by (simp add: quiet_port_def Let_def put_get_fifo)
next
  case (7 s a)
  then show ?case by (cases a) (auto simp only: queue_op.inject intro!: port_send port_receive)
qed (auto simp: put_fifo_def get_fifo_def quiet_port_def scatter_answer_def fun_eq_iff upd_defs Let_def)

section \<open>Properties\<close>

text \<open>
  C7: a port is a bounded queue. On a live port of a task that is in no port set and on which no other
  thread waits, any interleaving of sends and receives that do not wait, for messages that the receiver can take, that are not
  circular, have no msg-accepted request and do not go to send-once rights (which pass a full port), completes and gives the answers of a queue bounded by \<^verbatim>\<open>ip_qlimit\<close>: a send is
  turned away exactly when the queue is full, a receive finds nothing exactly when it is empty, sequence numbers are
  consecutive, messages come out in the order in which they were accepted and none is lost, and nothing but the
  queue, the sequence number and the message count of this port changes.
\<close>

theorem port_refines_fifo:
  assumes "quiet_port (fifo_msg (k_msg_info K) imar (scatter_answer list self K) option max_size port) port K"
    and "test option MACH_RCV_TIMEOUT"
    and "\<forall>m. Send m \<in> set as \<longrightarrow> fifo_msg (k_msg_info K) imar (scatter_answer list self K) option max_size port m"
  shows "\<exists>rs q n.
    fifo_run (ip_qlimit (k_ports K port)) as (ip_messages (k_ports K port), ip_seqno (k_ports K port)) = (rs, q, n) \<and>
    op_run (port_op imar list self option max_size port) as K = Some (rs,
      upd_port port (\<lambda>po. po\<lparr>ip_messages := q, ip_seqno := n, ip_msgcount := length q\<rparr>) K) \<and>
    ip_messages (k_ports K port) @ accepted_msgs as rs = returned_msgs rs @ q"
proof -
  obtain rs q n where r:
    "fifo_run (ip_qlimit (k_ports K port)) as (ip_messages (k_ports K port), ip_seqno (k_ports K port)) = (rs, q, n)"
    by (metis surj_pair)
  then show ?thesis
    using pf.run_is_fifo [where s = K and as = as and info = "k_msg_info K" and scatter = "scatter_answer list self K" and imar = imar and list = list and self = self and option = option and max_size = max_size and port = port] assms fifo_run_order [OF r]
    by (auto simp: get_fifo_def put_fifo_def)
qed

text \<open>Two messages are sent to a port that takes one message at a time, with a receive between and after.\<close>

definition demo_kmsg :: "nat \<Rightarrow> ipc_kmsg" where
  "demo_kmsg i = notify_kmsg 2 MACH_MSG_TYPE_PORT_SEND (USER_MESSAGE i) []"

definition demo_port :: ipc_kernel where
  "demo_port = upd_port 2 (ip_qlimit_update (\<lambda>_. 1)) kernel0"

lemma demo_port_quiet: "quiet_port good 2 demo_port"
  by (simp add: quiet_port_def demo_port_def upd_port_def) (simp add: state0_defs)

lemma demo_kmsg_good:
  "fifo_msg (k_msg_info demo_port) (\<lambda>_. None) (scatter_answer False self K) 0x100 0x100 2 (demo_kmsg i)"
  by (simp add: fifo_msg_def demo_kmsg_def notify_kmsg_def receive_check_def scatter_answer_def demo_port_def upd_port_def
      state0_defs REQUESTED_TRAILER_SIZE_def GET_RCV_ELEMENTS_def trailer_size_def test_def MACH_RCV_OLD_FORMAT_def)

theorem port_refines_fifo_witness:
  "\<exists>K'. op_run (port_op (\<lambda>_. None) False 9 0x100 0x100 2)
       [Receive, Send (demo_kmsg 5), Send (demo_kmsg 6), Receive, Send (demo_kmsg 7), Receive] demo_port =
     Some ([Nothing, Sent, Full, Got (demo_kmsg 5) 0, Sent, Got (demo_kmsg 7) 1], K')"
proof -
  let ?as = "[Receive, Send (demo_kmsg 5), Send (demo_kmsg 6), Receive, Send (demo_kmsg 7), Receive]"
  have "test 0x100 MACH_RCV_TIMEOUT" by (simp add: test_def MACH_RCV_TIMEOUT_def)
  moreover have "\<forall>m. Send m \<in> set ?as \<longrightarrow>
      fifo_msg (k_msg_info demo_port) (\<lambda>_. None) (scatter_answer False 9 demo_port) 0x100 0x100 2 m"
    by (auto simp: demo_kmsg_good)
  moreover have "ip_qlimit (k_ports demo_port 2) = 1" "ip_messages (k_ports demo_port 2) = []" "ip_seqno (k_ports demo_port 2) = 0"
    by (simp_all add: demo_port_def upd_port_def) (simp_all add: state0_defs)
  ultimately show ?thesis
    using port_refines_fifo [OF demo_port_quiet, of "0x100" ?as "\<lambda>_. None" False 9 "0x100"] by fastforce
qed

text \<open>
  A receive from a full port, after which the sender it has made runnable runs its loop again: \<open>pending\<close> is the
  message with which a thread is blocked. \<open>None\<close> if the receive returns no message or the sender has to block again.
\<close>

definition serve_sender ::
  "(ipc_kmsg \<Rightarrow> imar_id option) \<Rightarrow> bool \<Rightarrow> thread_id \<Rightarrow>
     mach_msg_option_t \<Rightarrow> mach_msg_size_t \<Rightarrow> port_id \<Rightarrow> (thread_id \<Rightarrow> ipc_kmsg) \<Rightarrow> ipc_kernel \<Rightarrow> (ipc_kmsg \<times> ipc_kernel) option" where
  "serve_sender imar list self option max_size port pending K =
     (case ipc_mqueue_receive imar list self (MQ_PORT port) option max_size 0 K of
        Some (Rcv_Message mr m seqno, K) \<Rightarrow>
          (let go = last (k_thread_go K); sender = tg_thread go
           in case ipc_mqueue_send_resume (pending sender) False None sender (Woken go) K of
                Some (Inr SEND_SUCCESS, K) \<Rightarrow> Some (m, K)
              | _ \<Rightarrow> None)
      | _ \<Rightarrow> None)"

fun serve_senders ::
  "(ipc_kernel \<Rightarrow> (ipc_kmsg \<times> ipc_kernel) option) \<Rightarrow> nat \<Rightarrow> ipc_kernel \<Rightarrow> (ipc_kmsg list \<times> ipc_kernel) option" where
  "serve_senders serve 0 K = Some ([], K)"
| "serve_senders serve (Suc i) K = do { (m, K) \<leftarrow> serve K; (ms, K) \<leftarrow> serve_senders serve i K; Some (m # ms, K) }"

definition full_port :: "(ipc_kmsg \<Rightarrow> bool) \<Rightarrow> port_id \<Rightarrow> ipc_kernel \<Rightarrow> bool" where
  "full_port good port K \<longleftrightarrow>
     (let po = k_ports K port
      in ip_active po \<and> ip_data po \<noteq> Ip_Receiver (k_kernel_space K) \<and> ip_pset po = None \<and> ip_receivers po = [] \<and>
         ip_msgcount po = ip_qlimit po \<and> length (ip_messages po) = ip_qlimit po \<and> 0 < ip_qlimit po \<and>
         (\<forall>m\<in>set (ip_messages po). good m))"

lemma full_port_message:
  assumes "full_port good port K"
  obtains m ms where "ip_messages (k_ports K port) = m # ms" "good m"
  using assms by (cases "ip_messages (k_ports K port)") (auto simp: full_port_def Let_def)

lemma serve_sender_step:
  assumes f: "full_port (fifo_msg info imar scatter option max_size port) port K"
    and b: "ip_blocked (k_ports K port) = b # bs" and ms: "ip_messages (k_ports K port) = m # ms"
    and p: "fifo_msg info imar scatter option max_size port (pending b)"
    and k: "k_msg_info K = info" "scatter_answer list self K = scatter"
  shows "serve_sender imar list self option max_size port pending K = Some (m,
    threads_go (wake_senders [b])
      (upd_port port (\<lambda>po. po\<lparr>ip_messages := ms @ [pending b], ip_seqno := ip_seqno po + 1, ip_blocked := bs\<rparr>) K))"
proof -
  have m: "fifo_msg info imar scatter option max_size port m" using f ms by (simp add: full_port_def Let_def)
  define K1 where "K1 = threads_go (wake_senders [b]) (upd_port port (\<lambda>po. po\<lparr>ip_messages := ms, ip_seqno := ip_seqno po + 1,
      ip_msgcount := ip_msgcount po - 1, ip_blocked := bs\<rparr>) K)"
  have "ipc_mqueue_receive imar list self (MQ_PORT port) option max_size 0 K =
      Some (Rcv_Message MACH_MSG_SUCCESS_code m (ip_seqno (k_ports K port)), K1)"
    using f b ms m k
    by (cases "k_ports K port") (simp add: ipc_mqueue_receive_def receive_done_def fifo_msg_def full_port_def K1_def upd_defs)
  moreover have "tg_thread (last (k_thread_go K1)) = b" by (simp add: K1_def wake_senders_def)
  moreover have "ipc_mqueue_send (pending b) False None b K1 = (SEND_SUCCESS, threads_go (wake_senders [b])
      (upd_port port (\<lambda>po. po\<lparr>ip_messages := ms @ [pending b], ip_seqno := ip_seqno po + 1, ip_blocked := bs\<rparr>) K))"
    using f p
    by (cases "k_ports K port")
       (simp add: ipc_mqueue_send_def mqueue_deliver_def fifo_msg_def full_port_def K1_def upd_defs threads_go_def)
  ultimately show ?thesis using p by (simp add: serve_sender_def ipc_mqueue_send_resume_def fifo_msg_def)
qed

lemma full_port_step:
  assumes "full_port good port K" and "ip_messages (k_ports K port) = m # ms" and "good n"
  shows "full_port good port (threads_go gos
    (upd_port port (\<lambda>po. po\<lparr>ip_messages := ms @ [n], ip_seqno := ip_seqno po + 1, ip_blocked := bs\<rparr>) K))"
  using assms by (auto simp: full_port_def threads_go_def upd_defs Let_def)

lemma serve_senders_all:
  assumes "full_port (fifo_msg info imar scatter option max_size port) port K" and "ip_blocked (k_ports K port) = bs"
    and "\<forall>b\<in>set bs. fifo_msg info imar scatter option max_size port (pending b)"
    and "k_msg_info K = info" "scatter_answer list self K = scatter"
  shows "serve_senders (serve_sender imar list self option max_size port pending) (length bs) K =
    Some (take (length bs) (ip_messages (k_ports K port) @ map pending bs),
      threads_go (wake_senders bs) (upd_port port (\<lambda>po. po\<lparr>
        ip_messages := drop (length bs) (ip_messages (k_ports K port) @ map pending bs),
        ip_seqno := ip_seqno po + of_nat (length bs), ip_blocked := []\<rparr>) K))"
  using assms
proof (induction bs arbitrary: K)
  case Nil
  then show ?case by (cases K; cases "k_ports K port") (simp add: upd_defs threads_go_def wake_senders_def fun_upd_idem)
next
  case (Cons b bs)
  obtain m ms where ms: "ip_messages (k_ports K port) = m # ms" using full_port_message [OF Cons.prems(1)] .
  define K1 where "K1 = threads_go (wake_senders [b])
      (upd_port port (\<lambda>po. po\<lparr>ip_messages := ms @ [pending b], ip_seqno := ip_seqno po + 1, ip_blocked := bs\<rparr>) K)"
  have p: "fifo_msg info imar scatter option max_size port (pending b)" using Cons.prems(3) by simp
  have s: "serve_sender imar list self option max_size port pending K = Some (m, K1)"
    unfolding K1_def using serve_sender_step [where pending = pending, OF Cons.prems(1,2) ms p Cons.prems(4,5)] .
  have "full_port (fifo_msg info imar scatter option max_size port) port K1"
    unfolding K1_def by (rule full_port_step [OF Cons.prems(1) ms p])
  moreover have K1: "ip_blocked (k_ports K1 port) = bs" "ip_messages (k_ports K1 port) = ms @ [pending b]"
    "k_msg_info K1 = info" "scatter_answer list self K1 = scatter"
    using Cons.prems(4,5) by (simp_all add: K1_def) (simp_all add: threads_go_def upd_defs)
  ultimately have "serve_senders (serve_sender imar list self option max_size port pending) (length bs) K1 =
    Some (take (length bs) (ms @ pending b # map pending bs), threads_go (wake_senders bs) (upd_port port (\<lambda>po. po\<lparr>
        ip_messages := drop (length bs) (ms @ pending b # map pending bs),
        ip_seqno := ip_seqno po + of_nat (length bs), ip_blocked := []\<rparr>) K1))"
    using Cons.IH [of K1] Cons.prems(3) by simp
  then show ?case using s ms by (simp add: K1_def threads_go_def upd_defs wake_senders_def ac_simps)
qed

text \<open>A sender that blocks and then times out or is interrupted leaves no trace.\<close>

theorem blocked_sender_gives_up:
  assumes "ipc_mqueue_send kmsg always timeout self K = (SEND_BLOCKED, K1)"
    and "ikm_remote kmsg = IO_PORT port" and "self \<notin> set (ip_blocked (k_ports K port))"
  shows "ipc_mqueue_send_resume kmsg always timeout self Interrupted K1 = Some (Inl MACH_SEND_INTERRUPTED, K)"
    and "ipc_mqueue_send_resume kmsg always timeout self Timed_Out K1 = Some (Inr SEND_TIMED_OUT, K)"
proof -
  have full: "ip_data (k_ports K port) \<noteq> Ip_Receiver (k_kernel_space K)" "ip_active (k_ports K port)"
    "\<not> (ip_msgcount (k_ports K port) < ip_qlimit (k_ports K port) \<or> always \<or> ikm_remote_right kmsg = MACH_MSG_TYPE_PORT_SEND_ONCE)"
    and K1: "K1 = upd_port port (ip_blocked_update (\<lambda>q. q @ [self])) K"
    using assms(1,2) by (auto simp: ipc_mqueue_send_def split: if_splits)
  have "upd_port port (ip_blocked_update (remove1 self)) K1 = K"
    using assms(3) by (cases K; cases "k_ports K port") (simp add: K1 upd_defs remove1_append fun_upd_idem)
  then show "ipc_mqueue_send_resume kmsg always timeout self Interrupted K1 = Some (Inl MACH_SEND_INTERRUPTED, K)"
    and "ipc_mqueue_send_resume kmsg always timeout self Timed_Out K1 = Some (Inr SEND_TIMED_OUT, K)"
    using full assms(2) by (simp_all add: ipc_mqueue_send_resume_def ipc_mqueue_send_def)
qed


text \<open>A port with room for one message, which it holds: the sender 9 blocks, and is let through by one receive.\<close>

definition demo_full :: ipc_kernel where
  "demo_full = upd_port 2 (\<lambda>po. po\<lparr>ip_messages := [demo_kmsg 5], ip_msgcount := 1\<rparr>) demo_port"


lemma max_size_minus_trailer:
  fixes max_size trailer msgsize :: "32 word"
  shows "msgsize \<le> max_size - trailer \<longleftrightarrow>
    unat msgsize + unat trailer \<le> unat max_size + (if max_size < trailer then 2 ^ 32 else 0)"
proof -
  have "unat trailer < 2 ^ 32" "unat max_size < 2 ^ 32"
    using unsigned_less [of trailer] unsigned_less [of max_size] by simp_all
  then show ?thesis
    by (auto simp: word_le_nat_alt word_less_nat_alt unat_sub_if_size word_size)
qed

text \<open>
  C16: the size check of a receive, for a simple message of the new format. If the buffer of the
  receiver is at least as large as the requested trailer, the message is taken exactly when it fits with the
  trailer, and otherwise it is too large: it stays in the queue if \<^verbatim>\<open>MACH_RCV_LARGE\<close> was given and is taken with an
  error if not. For a smaller buffer the subtraction in the check wraps around: the message passes whenever its size
  and the trailer do not exceed the size of the buffer plus 2^32, so that messages that do not fit are
  returned as a success.
\<close>

theorem receive_size_check:
  assumes "\<not> mi_old_format m" and "\<not> mi_complex m" and "\<not> test option MACH_RCV_OLD_FORMAT"
    and "REQUESTED_TRAILER_SIZE option = Some trailer"
  shows "receive_check option max_size m scatter =
    Some (if unat (mi_size m) + unat trailer \<le> unat max_size + (if max_size < trailer then 2 ^ 32 else 0)
          then (True, MACH_MSG_SUCCESS_code)
          else (\<not> test option MACH_RCV_LARGE, MACH_RCV_TOO_LARGE_code))"
  using assms by (simp add: receive_check_def not_le [symmetric] max_size_minus_trailer)

text \<open>A message of 65536 bytes passes the check for a buffer of 16 bytes when the trailer with the sender is asked for.\<close>

theorem receive_size_check_witness:
  "receive_check 0x02000000 16 \<lparr>mi_old_format = False, mi_complex = False, mi_size = 0x10000\<rparr> None =
     Some (True, MACH_MSG_SUCCESS_code)"
proof -
  have "REQUESTED_TRAILER_SIZE 0x02000000 = Some 20"
    by (simp add: REQUESTED_TRAILER_SIZE_def GET_RCV_ELEMENTS_def trailer_size_def drop_bit_eq_div take_bit_eq_mod)
  with receive_size_check [of "\<lparr>mi_old_format = False, mi_complex = False, mi_size = 0x10000\<rparr>" "0x02000000" 20 16 None]
  show ?thesis by (simp add: test_def MACH_RCV_OLD_FORMAT_def)
qed

section \<open>A message that finds its receiver waiting\<close>

text \<open>The states that stand for the values \<^verbatim>\<open>ipc_kmsg_check_scatter\<close> returns.\<close>

definition scatter_states :: "ith_state set" where
  "scatter_states = {MACH_MSG_SUCCESS, MACH_RCV_INVALID_TYPE, ITH_SCATTER_SMALL, ITH_BODY_ERROR_VM}"

lemma check_scatter_states: "fst (ipc_kmsg_check_scatter kalloc gs option ss) \<in> ith_code ` scatter_states"
proof -
  have "scatter_loop option nothing gs ss b = Inl mr \<Longrightarrow> mr = MACH_RCV_SCATTER_SMALL \<or> mr = MACH_RCV_INVALID_TYPE_code" for nothing b mr
    by (induction gs arbitrary: ss b) (auto split: if_splits list.splits)
  then show ?thesis
    by (fastforce simp: ipc_kmsg_check_scatter_def scatter_states_def Let_def split: sum.splits if_splits)
qed

text \<open>
  The check that \<^verbatim>\<open>ipc_mqueue_send\<close> makes for a waiting receiver comes to the same result as the one that
  \<^verbatim>\<open>ipc_mqueue_receive\<close> makes for a message it finds.
\<close>

lemma checks_agree:
  assumes "REQUESTED_TRAILER_SIZE option = Some trailer" and "sc \<in> scatter_states"
  shows "receive_check option max_size m (if list then Some (ith_code sc) else None) =
    map_option (apsnd ith_code) (Some (deliver_check behind \<lparr>ith_rcv_option = option, ith_msize = max_size, ith_list = list\<rparr> m sc))"
  using assms
  by (auto simp: receive_check_def deliver_check_def scatter_states_def Let_def rcv_codes not_le)

text \<open>Which states go with a message that is taken and which with one that is not.\<close>

lemma deliver_check_states:
  assumes "deliver_check behind th m sc = (tk, st)" and "sc \<in> scatter_states"
  shows "tk \<Longrightarrow> st = MACH_MSG_SUCCESS \<or> st = MACH_RCV_HEADER_ERROR \<or>
      (st = MACH_RCV_TOO_LARGE \<or> st = ITH_SCATTER_SMALL) \<and>
        \<not> test (ith_rcv_option th) MACH_RCV_LARGE \<and> \<not> test (ith_rcv_option th) MACH_RCV_OLD_FORMAT"
    and "\<not> tk \<Longrightarrow> st = MACH_RCV_INVALID_TYPE \<or> st = ITH_BODY_ERROR_VM \<or>
      (st = MACH_RCV_TOO_LARGE \<or> st = ITH_SCATTER_SMALL) \<and>
        (test (ith_rcv_option th) MACH_RCV_LARGE \<or> test (ith_rcv_option th) MACH_RCV_OLD_FORMAT)"
  using assms by (auto simp: deliver_check_def scatter_states_def Let_def split: if_splits)

lemma test_or: "test b (x OR y) \<longleftrightarrow> test b x \<or> test b y"
  by (simp add: test_def bit.conj_disj_distrib or_eq_0_iff)

text \<open>
  C8: it makes no difference whether a thread waits for a message or finds it queued. Let a port of a task be alive, in no
  set, with an empty queue that may hold a message and without waiting threads, and let the options of the receiver ask for
  a trailer that exists. Then a receive that blocks, the send of a message that is not circular and has no msg-accepted
  request, and the end of the receive give the same result, with the same sequence number, and the same state as the send
  followed by the receive; only that the thread was made runnable, and what it stored for its wait, is recorded. The
  checks of the two sides are the code's own, \<^verbatim>\<open>ipc_kmsg_check_scatter\<close> giving the same answer to both. The one
  exception is a failure to allocate a new scatter list: the state it leaves in the waiting thread is not
  among those \<^verbatim>\<open>ipc_mqueue_receive\<close> expects and panics the kernel, where a receive that finds the message returns an error.
\<close>

theorem waiting_receiver_same:
  assumes q: "quiet_port good port K" "ip_messages (k_ports K port) = []" "0 < ip_qlimit (k_ports K port)"
    and m: "ikm_remote m = IO_PORT port" "\<not> ikm_circular m" "imar m = None"
    and c: "REQUESTED_TRAILER_SIZE option = Some trailer" "k_check_scatter K self m \<in> scatter_states"
    and t: "test option MACH_RCV_TIMEOUT \<longrightarrow> timeout \<noteq> 0"
  shows "\<exists>K1 K2 r K3 K4 go.
    ipc_mqueue_receive imar list self (MQ_PORT port) option max_size timeout K = Some (Rcv_Blocked, K1) \<and>
    ipc_mqueue_send m False send_timeout sender K1 = (SEND_SUCCESS, K2) \<and>
    k_thread_go K2 = k_thread_go K @ [go] \<and> tg_thread go = self \<and>
    ipc_mqueue_send m False send_timeout sender K = (SEND_SUCCESS, K3) \<and>
    ipc_mqueue_receive imar list self (MQ_PORT port) option max_size timeout K3 = Some (r, K4) \<and>
    ipc_mqueue_receive_resume imar list self (MQ_PORT port) option max_size (Woken go) K2 =
      (if r = Rcv_Error (MACH_MSG_VM_KERNEL OR MACH_RCV_BODY_ERROR) then None
       else Some (r, threads_go [go] (K4\<lparr>k_rcv_args := k_rcv_args K1\<rparr>)))"
proof -
  let ?po = "k_ports K port"
  define th where "th = \<lparr>ith_rcv_option = option, ith_msize = max_size, ith_list = list\<rparr>"
  define KA where "KA = K\<lparr>k_rcv_args := (k_rcv_args K)(self := th)\<rparr>"
  obtain tk st where d: "deliver_check (k_behind K) th (k_msg_info K m) (k_check_scatter K self m) = (tk, st)" by fastforce
  then have k: "k_rcv_check KA self m = (tk, st)" by (simp add: k_rcv_check_def KA_def)
  have c': "receive_check option max_size (k_msg_info K m) (scatter_answer list self K m) = Some (tk, ith_code st)"
    using checks_agree [OF c, of max_size "k_msg_info K m" list "k_behind K"] d by (simp add: scatter_answer_def th_def)
  note st = deliver_check_states [OF d c(2), unfolded th_def rcv_args.simps]
  define go where "go = \<lparr>tg_thread = self, tg_state = st, tg_kmsg = (if tk then Some (m, ip_seqno ?po) else None)\<rparr>"
  define K1 where "K1 = upd_port port (ip_receivers_update (\<lambda>_. [self])) KA"
  define took where "took = (\<lambda>K. if tk then upd_port port (\<lambda>po. po\<lparr>ip_seqno := ip_seqno po + 1\<rparr>) K
    else upd_port port (\<lambda>po. po\<lparr>ip_messages := [m], ip_msgcount := 1\<rparr>) K)"
  define K3 where "K3 = upd_port port (\<lambda>po. po\<lparr>ip_messages := [m], ip_msgcount := 1\<rparr>) K"
  define K2 where "K2 = threads_go [go] (upd_port port (\<lambda>po. po\<lparr>ip_msgcount := 1\<rparr>) (took KA))"
  define r where "r = (if tk then Rcv_Message (ith_code st) m (ip_seqno ?po) else Rcv_Error (ith_code st))"
  note defs = quiet_port_def upd_defs threads_go_def Let_def KA_def
  have KA: "k_msg_info KA = k_msg_info K" "k_check_scatter KA = k_check_scatter K" by (simp_all add: KA_def)
  have 1: "ipc_mqueue_receive imar list self (MQ_PORT port) option max_size timeout K = Some (Rcv_Blocked, K1)"
    using q t by (cases "k_ports K port") (auto simp: ipc_mqueue_receive_def K1_def th_def defs)
  have 2: "ipc_mqueue_send m False send_timeout sender K1 = (SEND_SUCCESS, K2)"
    using q m k by (cases "k_ports K port")
      (auto simp: ipc_mqueue_send_def mqueue_deliver_def K1_def K2_def took_def go_def k_rcv_check_def defs)
  have 3: "ipc_mqueue_send m False send_timeout sender K = (SEND_SUCCESS, K3)"
    using q m by (cases "k_ports K port") (auto simp: ipc_mqueue_send_def mqueue_deliver_def K3_def defs)
  have s3: "scatter_answer list self K3 m = scatter_answer list self K m" "k_msg_info K3 = k_msg_info K"
    by (simp_all add: scatter_answer_def K3_def upd_defs)
  have 4: "ipc_mqueue_receive imar list self (MQ_PORT port) option max_size timeout K3 = Some (r, took K)"
    using q m c' s3 by (cases "k_ports K port")
      (auto simp: ipc_mqueue_receive_def receive_done_def K3_def took_def r_def defs)
  have A: "took KA = (took K)\<lparr>k_rcv_args := k_rcv_args K1\<rparr>" by (simp add: took_def KA_def K1_def upd_defs)
  have "ipc_mqueue_receive_resume imar list self (MQ_PORT port) option max_size (Woken go) K2 =
      (if r = Rcv_Error (MACH_MSG_VM_KERNEL OR MACH_RCV_BODY_ERROR) then None else Some (r, threads_go [go] (took KA)))"
  proof (cases tk)
    case True
    have "receive_done None m K2 = Some (threads_go [go] (took KA))"
      using q m True by (cases "k_ports K port") (auto simp: receive_done_def K2_def took_def defs)
    with True st(1) m show ?thesis by (auto simp: ipc_mqueue_receive_resume_def go_def r_def test_or)
  next
    case False
    have "K2 = threads_go [go] (took KA)" using False by (simp add: K2_def took_def upd_defs)
    then show ?thesis using st(2) False by (auto simp: ipc_mqueue_receive_resume_def go_def r_def test_or rcv_codes)
  qed
  moreover have "k_thread_go K2 = k_thread_go K @ [go]" "tg_thread go = self"
    by (auto simp: K2_def took_def go_def defs)
  ultimately show ?thesis using 1 2 3 4 A by auto
qed

text \<open>
  A receiver with a scatter list and \<^verbatim>\<open>MACH_RCV_LARGE\<close> waits; the message that arrives needs a larger list, for which
  there is no memory.
\<close>

definition demo_wait :: ipc_kernel where
  "demo_wait = demo_port\<lparr>k_msg_info := \<lambda>_. \<lparr>mi_old_format = False, mi_complex = True, mi_size = 40\<rparr>,
     k_check_scatter := \<lambda>_ _. ITH_BODY_ERROR_VM\<rparr>"

theorem waiting_receiver_same_witness:
  "\<exists>K1 K2 K3 K4 go.
     ipc_mqueue_receive (\<lambda>_. None) True 9 (MQ_PORT 2) 0x800 0x100 0 demo_wait = Some (Rcv_Blocked, K1) \<and>
     ipc_mqueue_send (demo_kmsg 5) False None 8 K1 = (SEND_SUCCESS, K2) \<and> k_thread_go K2 = [go] \<and> tg_thread go = 9 \<and>
     ipc_mqueue_receive_resume (\<lambda>_. None) True 9 (MQ_PORT 2) 0x800 0x100 (Woken go) K2 = None \<and>
     ipc_mqueue_send (demo_kmsg 5) False None 8 demo_wait = (SEND_SUCCESS, K3) \<and>
     ipc_mqueue_receive (\<lambda>_. None) True 9 (MQ_PORT 2) 0x800 0x100 0 K3 =
       Some (Rcv_Error (MACH_MSG_VM_KERNEL OR MACH_RCV_BODY_ERROR), K4)"
proof -
  have tr: "REQUESTED_TRAILER_SIZE 0x800 = Some 8"
    by (simp add: REQUESTED_TRAILER_SIZE_def GET_RCV_ELEMENTS_def trailer_size_def)
  have c: "k_check_scatter demo_wait 9 (demo_kmsg 5) \<in> scatter_states" by (simp add: demo_wait_def scatter_states_def)
  have q: "quiet_port good 2 demo_wait" for good using demo_port_quiet [of good] by (simp add: demo_wait_def quiet_port_def)
  have K: "ip_messages (k_ports demo_wait 2) = []" "0 < ip_qlimit (k_ports demo_wait 2)" "k_thread_go demo_wait = []"
    by (simp_all add: demo_wait_def demo_port_def upd_port_def) (simp_all add: state0_defs)
  have m: "ikm_remote (demo_kmsg 5) = IO_PORT 2" "\<not> ikm_circular (demo_kmsg 5)" by (simp_all add: demo_kmsg_def notify_kmsg_def)
  have "test 0x800 MACH_RCV_TIMEOUT \<longrightarrow> (0 :: natural_t) \<noteq> 0" by (simp add: test_def MACH_RCV_TIMEOUT_def)
  from waiting_receiver_same [where imar = "\<lambda>_. None" and sender = 8 and send_timeout = None and list = True and max_size = "0x100",
      OF q K(1,2) m refl tr c this]
  obtain K1 K2 r K3 K4 go where R:
    "ipc_mqueue_receive (\<lambda>_. None) True 9 (MQ_PORT 2) 0x800 0x100 0 demo_wait = Some (Rcv_Blocked, K1)"
    "ipc_mqueue_send (demo_kmsg 5) False None 8 K1 = (SEND_SUCCESS, K2)" "k_thread_go K2 = [go]" "tg_thread go = 9"
    "ipc_mqueue_send (demo_kmsg 5) False None 8 demo_wait = (SEND_SUCCESS, K3)"
    "ipc_mqueue_receive (\<lambda>_. None) True 9 (MQ_PORT 2) 0x800 0x100 0 K3 = Some (r, K4)"
    "r = Rcv_Error (MACH_MSG_VM_KERNEL OR MACH_RCV_BODY_ERROR) \<longrightarrow>
       ipc_mqueue_receive_resume (\<lambda>_. None) True 9 (MQ_PORT 2) 0x800 0x100 (Woken go) K2 = None"
    using K(3) by auto
  have "ipc_mqueue_send (demo_kmsg 5) False None 8 demo_wait = (SEND_SUCCESS, mqueue_deliver (demo_kmsg 5) 2 demo_wait)"
    using q [of "\<lambda>_. True"] K m by (simp add: ipc_mqueue_send_def quiet_port_def Let_def)
  then have K3: "imq_messages K3 (MQ_PORT 2) = [demo_kmsg 5]" "k_msg_info K3 = k_msg_info demo_wait"
      "k_check_scatter K3 = k_check_scatter demo_wait"
    using R(5) q [of "\<lambda>_. True"] K by (auto simp: mqueue_deliver_def quiet_port_def Let_def threads_go_def upd_defs)
  have "receive_check 0x800 0x100 (k_msg_info K3 x) (scatter_answer True 9 K3 x) =
      Some (False, MACH_MSG_VM_KERNEL OR MACH_RCV_BODY_ERROR)" for x
    by (simp add: receive_check_def scatter_answer_def K3 demo_wait_def tr test_def MACH_RCV_OLD_FORMAT_def code_defs)
  with R(6) K3(1) have "r = Rcv_Error (MACH_MSG_VM_KERNEL OR MACH_RCV_BODY_ERROR)" by (simp add: ipc_mqueue_receive_def)
  with R show ?thesis by auto
qed

end
