(* ===== verification/Kmsg_Clean.thy ===== *)
theory Kmsg_Clean
  imports Port_Life Ipc_Marequest
begin

text \<open>
  The second half of \<^verbatim>\<open>ipc_kmsg_destroy\<close>: the loop that cleans the messages on the queue \<^verbatim>\<open>ith_messages\<close> of the running
  thread and releases the rights they carry. The rest of the model only puts messages on this queue, as a call
  of \<^verbatim>\<open>ipc_kmsg_destroy\<close> from inside the loop does. The memory of message bodies is the subject of \<open>Kmsg_Body\<close>.
\<close>

section \<open>Cleaning\<close>

fun destroy_rights :: "(ipc_object \<times> msg_right) list \<Rightarrow> ipc_kernel \<Rightarrow> ipc_kernel option" where
  "destroy_rights [] K = Some K"
| "destroy_rights ((object, right) # rights) K =
     (if IO_VALID object then Option.bind (ipc_object_destroy object right K) (destroy_rights rights)
      else destroy_rights rights K)"

text \<open>\<open>imar\<close> is the field \<^verbatim>\<open>ikm_marequest\<close>.\<close>

definition ipc_kmsg_clean :: "(ipc_kmsg \<Rightarrow> imar_id option) \<Rightarrow> ipc_kmsg \<Rightarrow> ipc_kernel \<Rightarrow> ipc_kernel option" where
  "ipc_kmsg_clean imar kmsg K = do {
     K \<leftarrow> (case imar kmsg of None \<Rightarrow> Some K | Some marequest \<Rightarrow> ipc_marequest_destroy marequest K);
     destroy_rights ((ikm_remote kmsg, ikm_remote_right kmsg) # ikm_rights kmsg) K
   }"

text \<open>A message stays on the queue while it is cleaned, and cleaning it can put more messages there.\<close>

partial_function (option) clean_queue :: "(ipc_kmsg \<Rightarrow> imar_id option) \<Rightarrow> ipc_kernel \<Rightarrow> ipc_kernel option" where
  "clean_queue imar K =
     (case ith_messages K of
        [] \<Rightarrow> Some K
      | kmsg # _ \<Rightarrow>
          Option.bind (ipc_kmsg_clean imar kmsg K) (\<lambda>K. clean_queue imar (K\<lparr>ith_messages := tl (ith_messages K)\<rparr>)))"

declare clean_queue.simps [code]

lemma clean_harmless: "harmless m \<Longrightarrow> imar m = None \<Longrightarrow> ipc_kmsg_clean imar m K = Some K"
  by (simp add: ipc_kmsg_clean_def harmless_def IO_VALID_def)

lemma clean_queue_harmless:
  assumes "\<forall>m\<in>set (ith_messages K). harmless m \<and> imar m = None"
  shows "clean_queue imar K = Some (K\<lparr>ith_messages := []\<rparr>)"
  using assms
proof (induction "ith_messages K" arbitrary: K)
  case Nil
  then show ?case by (subst clean_queue.simps) simp
next
  case (Cons m ms)
  from Cons.hyps(2) Cons.prems have "harmless m" "imar m = None" by (metis list.set_intros(1))+
  then have m: "ith_messages K = m # ms" "ipc_kmsg_clean imar m K = Some K"
    using Cons.hyps(2) by (simp_all add: clean_harmless)
  have "clean_queue imar (K\<lparr>ith_messages := ms\<rparr>) = Some (K\<lparr>ith_messages := ms\<rparr>\<lparr>ith_messages := []\<rparr>)"
    by (rule Cons.hyps(1)) (use Cons.prems m in auto)
  with m show ?case by (subst clean_queue.simps) simp
qed

section \<open>The death of a port\<close>



end
