(* ===== verification/Copyout_Entry.thy ===== *)
theory Copyout_Entry
  imports Kmsg_Copyout Space_Names
begin

text \<open>
  The optimised copyout of \<^verbatim>\<open>ipc_kmsg.c\<close> against its general code. The common case of a request takes a slot off the
  free list of the table itself, an \<^verbatim>\<open>ipc_entry_get\<close> and an \<^verbatim>\<open>ipc_right_copyout\<close> written out; this theory
  models these lines on the table of \<open>Ipc_Entry\<close> and shows that they give the name, and the right in the table, that
  the routines themselves give.
\<close>

section \<open>The inlined allocation of an entry\<close>

text \<open>\<open>reply\<close> is the reply port; the result is \<open>None\<close> when the free list is empty.\<close>

definition inline_entry_get :: "ipc_object \<Rightarrow> ipc_names \<Rightarrow> (mach_port_t \<times> ipc_names) option" where
  "inline_entry_get reply S =
     (let table = is_table S;
          index = ie_next (table ! 0)
      in if index = 0 then None
         else
           (let entry = table ! index;
                table = upd_slot 0 (ie_request_update (\<lambda>_. ie_next entry)) table;
                gen = ie_bits entry + IE_BITS_GEN_ONE;
                reply_name = make_name index gen;
                table = upd_slot index (\<lambda>e. e\<lparr>ie_request := 0, ie_bits := gen OR (MACH_PORT_TYPE_SEND_ONCE OR 1),
                                              ie_object := reply\<rparr>) table
            in Some (reply_name, S\<lparr>is_table := table\<rparr>)))"

definition send_once_entry :: "ipc_object \<Rightarrow> ipc_entry" where
  "send_once_entry reply = \<lparr>ie_bits = MACH_PORT_TYPE_SEND_ONCE OR 1, ie_object = reply, ie_request = 0\<rparr>"

lemma send_once_enterable: "enterable M (send_once_entry reply)"
  by (simp add: send_once_entry_def enterable_def right_only_def field_defs mask_defs type_defs)

lemma gen_only_right: "gen_only g \<Longrightarrow> g AND NOT IE_BITS_RIGHT_MASK = g"
proof -
  assume "gen_only g"
  then have g: "g AND IE_BITS_GEN_MASK = g" by (simp add: gen_only_def field_defs)
  have "IE_BITS_GEN_MASK AND NOT IE_BITS_RIGHT_MASK = IE_BITS_GEN_MASK" by (simp add: mask_defs)
  then show ?thesis using g by (metis and.assoc)
qed

text \<open>The inlined code is \<^verbatim>\<open>ipc_entry_get\<close> followed by storing the right.\<close>

lemma inline_entry_get_is_get:
  assumes ok: "names_ok addr sizes space None S"
  shows "inline_entry_get reply S =
    (case ipc_entry_get S of
       Inl _ \<Rightarrow> None
     | Inr (n, j, S1) \<Rightarrow> Some (n, store_right (In_Table j) (send_once_entry reply) S1))"
proof (cases "ie_next (is_table S ! 0) = 0")
  case True
  then show ?thesis by (simp add: inline_entry_get_def ipc_entry_get_def Let_def)
next
  case False
  let ?j = "ie_next (is_table S ! 0)" and ?g = "ie_bits (is_table S ! ie_next (is_table S ! 0)) + IE_BITS_GEN_ONE"
  define t where "t = upd_slot 0 (ie_request_update (\<lambda>_. ie_next (is_table S ! ?j))) (is_table S)"
  have g: "ipc_entry_get S = Inr (make_name ?j ?g, ?j,
      S\<lparr>is_table := upd_slot ?j (\<lambda>e. e\<lparr>ie_bits := ?g, ie_request := 0\<rparr>) t\<rparr>)"
    using False by (simp add: ipc_entry_get_def Let_def t_def)
  define S1 where "S1 = S\<lparr>is_table := upd_slot ?j (\<lambda>e. e\<lparr>ie_bits := ?g, ie_request := 0\<rparr>) t\<rparr>"
  have "?j < is_table_size S" and gen: "gen_only (ie_bits (is_table S1 ! ?j))"
    using entry_get_spec [OF ok] unfolding g S1_def [symmetric] sum.case prod.case by blast+
  then have j: "?j < length t" by (simp add: t_def upd_slot_def)
  with gen have "?g AND NOT IE_BITS_RIGHT_MASK = ?g" by (intro gen_only_right) (simp add: S1_def upd_slot_def)
  then have order: "(x\<lparr>ie_bits := ?g, ie_request := 0\<rparr>)
      \<lparr>ie_bits := (ie_bits (x\<lparr>ie_bits := ?g, ie_request := 0\<rparr>) AND NOT IE_BITS_RIGHT_MASK) OR b, ie_object := reply, ie_request := 0\<rparr> =
      x\<lparr>ie_request := 0, ie_bits := ?g OR b, ie_object := reply\<rparr>" for x :: ipc_table_entry and b
    by (cases x) simp
  have "upd_slot ?j (\<lambda>s. s\<lparr>ie_bits := (ie_bits s AND NOT IE_BITS_RIGHT_MASK) OR (MACH_PORT_TYPE_SEND_ONCE OR 1),
        ie_object := reply, ie_request := 0\<rparr>) (upd_slot ?j (\<lambda>e. e\<lparr>ie_bits := ?g, ie_request := 0\<rparr>) t) =
      upd_slot ?j (\<lambda>e. e\<lparr>ie_request := 0, ie_bits := ?g OR (MACH_PORT_TYPE_SEND_ONCE OR 1), ie_object := reply\<rparr>) t"
    using j by (simp only: upd_slot_def order nth_list_update_eq list_update_overwrite)
  then show ?thesis
    using False unfolding g by (simp add: inline_entry_get_def Let_def t_def [symmetric] send_once_entry_def)
qed

text \<open>It gives the name that \<^verbatim>\<open>ipc_entry_alloc\<close> gives, and the right is in the space.\<close>

lemma inline_entry_get_spec:
  assumes ok: "names_ok addr sizes space None S" and i: "inline_entry_get reply S = Some (n, S')"
  shows "\<exists>j S1. ipc_entry_alloc addr sizes nomem space S = Some (Inr (n, j), S1)"
    and "names None S n = None" and "names_ok addr sizes space None S'"
    and "names None S' = (names None S)(n \<mapsto> send_once_entry reply)"
proof -
  obtain j S1 where g: "ipc_entry_get S = Inr (n, j, S1)" and S': "S' = store_right (In_Table j) (send_once_entry reply) S1"
    using i unfolding inline_entry_get_is_get [OF ok] by (auto split: sum.splits)
  have f: "names_ok addr sizes space (Some (In_Table j)) S1" "names (Some (In_Table j)) S1 = names None S"
    "names None S n = None" "n = slot_name (is_table S1) j"
    using entry_get_spec [OF ok] unfolding g sum.case prod.case by blast+
  have live: "is_live S" using names_okD(2) [OF ok] by (simp add: sizes_ok_for_def)
  show "\<exists>j S1. ipc_entry_alloc addr sizes nomem space S = Some (Inr (n, j), S1)"
    by (subst ipc_entry_alloc.simps) (simp add: g live)
  show "names None S n = None" by (rule f(3))
  obtain S2 where S2: "entry_enter addr space (In_Table j) (send_once_entry reply) S1 = Some S2"
    "names_ok addr sizes space None S2" "names None S2 = (names None S)(n \<mapsto> send_once_entry reply)"
    using entry_enter_spec [OF f(1), of "send_once_entry reply"] send_once_enterable [of "names None S" reply] f(2,4)
    by (auto simp: enterable_def ref_name_def)
  have "S2 = S'"
  proof -
    have e: "right_only (ie_bits (send_once_entry reply))" using send_once_enterable by (auto simp: enterable_def)
    have "IE_BITS_TYPE (ie_bits x) \<noteq> MACH_PORT_TYPE_SEND" if "entry_at S' (In_Table j) = Some x" for x
      using that store_pending(3) [OF f(1) e]
      by (auto simp: S' send_once_entry_def field_defs mask_defs type_defs)
    then show ?thesis using S2(1) unfolding entry_enter_def S' [symmetric] rehash_def by (auto split: bind_splits if_splits)
  qed
  with S2 show "names_ok addr sizes space None S'" "names None S' = (names None S)(n \<mapsto> send_once_entry reply)" by simp_all
qed

section \<open>The optimised copyout\<close>

text \<open>
  C10: the optimised code of the copyout is only an optimisation. In a live space, for a header that owns a reference
  to its destination and a space whose entry table is well-formed, the common cases of \<^verbatim>\<open>ipc_kmsg_copyout_header\<close>
  give exactly the header and the state of its general part, whose first call of \<^verbatim>\<open>ipc_entry_get\<close> and
  \<^verbatim>\<open>ipc_entry_grow_table\<close> works on the same table: the inlined code that takes the first free slot and bumps its generation
  gives the name that \<^verbatim>\<open>ipc_entry_alloc\<close> gives, a name that was not in use, and leaves a well-formed table in which
  that name denotes the send-once right and nothing else has changed. The quick copyout of a send right in
  \<^verbatim>\<open>ipc_kmsg_copyout_object\<close> gives exactly the name and the state of the slow copyout, pegged user references included.
\<close>

theorem copyout_common_general:
  assumes "kernel_wf K" and "is_active (k_spaces K s)" and "header_ready K msg" and "names_ok addr sizes s None S"
  shows "\<exists>res S'. ipc_entry_alloc addr sizes nomem s S = Some (res, S') \<and>
    (\<forall>alloc. alloc 0 = map_sum id fst res \<longrightarrow>
      (\<exists>dest. msgh_remote_port msg = IO_PORT dest \<and>
        ipc_kmsg_copyout_header alloc (map_option fst (inline_entry_get (msgh_local_port msg) S)) lock_try msg s notify K =
          copyout_header_general alloc s notify dest (msgh_local_port msg) (msgh_bits msg) K)) \<and>
    (case inline_entry_get (msgh_local_port msg) S of
       None \<Rightarrow> True
     | Some (n, S1) \<Rightarrow> names None S n = None \<and> names_ok addr sizes s None S1 \<and>
         names None S1 = (names None S)(n \<mapsto>
           \<lparr>ie_bits = MACH_PORT_TYPE_SEND_ONCE OR 1, ie_object = msgh_local_port msg, ie_request = 0\<rparr>)) \<and>
    ipc_kmsg_copyout_object in_table answer s (IO_PORT p) r K = slow_copyout answer s p r K"
proof -
  let ?i = "inline_entry_get (msgh_local_port msg) S"
  obtain dest where d: "msgh_remote_port msg = IO_PORT dest" using assms(3) by (auto simp: header_ready_def)
  obtain res S' where a: "ipc_entry_alloc addr sizes nomem s S = Some (res, S')"
    using entry_alloc_spec [OF assms(4), of nomem] by blast
  have "\<exists>dest. msgh_remote_port msg = IO_PORT dest \<and>
      ipc_kmsg_copyout_header alloc (map_option fst ?i) lock_try msg s notify K =
        copyout_header_general alloc s notify dest (msgh_local_port msg) (msgh_bits msg) K"
    if "alloc 0 = map_sum id fst res" for alloc
  proof -
    have "alloc 0 = Inr n" if "map_option fst ?i = Some n" for n
    proof -
      from that obtain S1 where "?i = Some (n, S1)" by auto
      from inline_entry_get_spec(1) [OF assms(4) this, of nomem] a \<open>alloc 0 = map_sum id fst res\<close> show ?thesis by auto
    qed
    from header_copyout_general [where free = "map_option fst ?i" and alloc = alloc, OF assms(2,3) this d] d
    show ?thesis by blast
  qed
  moreover have "case ?i of None \<Rightarrow> True
     | Some (n, S1) \<Rightarrow> names None S n = None \<and> names_ok addr sizes s None S1 \<and>
         names None S1 = (names None S)(n \<mapsto>
           \<lparr>ie_bits = MACH_PORT_TYPE_SEND_ONCE OR 1, ie_object = msgh_local_port msg, ie_request = 0\<rparr>)"
    using inline_entry_get_spec(2-4) [OF assms(4), of "msgh_local_port msg"]
    by (auto simp: send_once_entry_def split: option.split)
  ultimately show ?thesis using a object_quick_slow [OF assms(1)] by blast
qed

text \<open>A request received by the task that sent it: the reply port gets the name \<open>0x100\<close> of the first free slot of a new table.\<close>

lemma demo_ok3: "names_ok demo_addr demo_sizes 3 None demo_space"
  by (rule space_create_ok(1) [OF demo_schedule _ demo_global _ demo_created]) (simp_all add: demo_sizes_def)

lemma demo_inline: "map_option fst (inline_entry_get reply demo_space) = Some 0x100"
proof -
  have "space_table 4 ! 0 = zero_slot\<lparr>ie_bits := IE_BITS_GEN_MASK, ie_request := 1\<rparr>"
    "space_table 4 ! 1 = zero_slot\<lparr>ie_bits := IE_BITS_GEN_MASK, ie_request := 2\<rparr>"
    by (simp_all add: space_table_nth)
  moreover have "make_name 1 (IE_BITS_GEN_MASK + IE_BITS_GEN_ONE) = 0x100"
    by (simp add: make_name_def MACH_PORT_MAKE_def IE_BITS_GEN_ONE_def mask_defs)
  ultimately show ?thesis by (simp add: inline_entry_get_def demo_space_def Let_def)
qed

theorem copyout_common_general_witness:
  "let e = \<lparr>ie_bits = 0x00030002, ie_object = IO_PORT 2, ie_request = 0\<rparr>;
       K = set_entry 3 0x500 e (upd_port 2 (\<lambda>x. x\<lparr>ip_data := Ip_Receiver 3, ip_receiver_name := 0x500\<rparr>) kernel0);
       msg = \<lparr>msgh_bits = MACH_MSGH_BITS 17 18, msgh_remote_port = IO_PORT 2, msgh_local_port = IO_PORT 2\<rparr>;
       free = map_option fst (inline_entry_get (IO_PORT 2) demo_space)
   in \<exists>K' j S'. ipc_entry_alloc demo_addr demo_sizes False 3 demo_space = Some (Inr (0x100, j), S') \<and>
        ipc_kmsg_copyout_header (\<lambda>_. Inr 0x100) free True msg 3 MACH_PORT_NULL K =
          Some (Inr \<lparr>msgh_bits = MACH_MSGH_BITS 18 17, msgh_remote_port = 0x100, msgh_local_port = 0x500\<rparr>, K') \<and>
        ipc_kmsg_copyout_header (\<lambda>_. Inr 0x100) free True msg 3 MACH_PORT_NULL K =
          copyout_header_general (\<lambda>_. Inr 0x100) 3 MACH_PORT_NULL 2 (IO_PORT 2) (MACH_MSGH_BITS 17 18) K"
proof -
  define e where "e = \<lparr>ie_bits = 0x00030002, ie_object = IO_PORT 2, ie_request = 0\<rparr>"
  define K where "K = set_entry 3 0x500 e (upd_port 2 (\<lambda>x. x\<lparr>ip_data := Ip_Receiver 3, ip_receiver_name := 0x500\<rparr>) kernel0)"
  define msg where "msg = \<lparr>msgh_bits = MACH_MSGH_BITS 17 18, msgh_remote_port = IO_PORT 2, msgh_local_port = IO_PORT 2\<rparr>"
  define free where "free = map_option fst (inline_entry_get (IO_PORT 2) demo_space)"
  have t: "IE_BITS_TYPE (ie_bits e) = MACH_PORT_TYPE_SEND_RECEIVE" by (simp add: e_def bits_defs)
  have wf: "kernel_wf K"
    unfolding K_def by (rule send_receive_wf [OF t]) (simp_all add: e_def entry_ok_def entry_port_def bits_defs)
  have P: "is_active (k_spaces K 3)" "ip_active (k_ports K 2)" "0 < ip_references (k_ports K 2)"
    "ip_data (k_ports K 2) = Ip_Receiver 3" "ip_receiver_name (k_ports K 2) = 0x500"
    by (simp_all add: K_def) (simp_all add: state0_defs)
  have b: "MACH_MSGH_BITS_PORTS (MACH_MSGH_BITS 17 18) = MACH_MSGH_BITS 17 18" "MACH_MSGH_BITS 17 18 \<noteq> MACH_MSGH_BITS 17 0"
    "MACH_MSGH_BITS_OTHER (MACH_MSGH_BITS 17 18) = 0" "MACH_MSGH_BITS_LOCAL (MACH_MSGH_BITS 17 18) \<noteq> 0"
    by (simp_all add: msgh_defs)
  have m: "msgh_local_port msg = IO_PORT 2" "msgh_bits msg = MACH_MSGH_BITS 17 18" by (simp_all add: msg_def)
  have ready: "header_ready K msg" using P(3) b(4) by (simp add: header_ready_def msg_def)
  have D: "ip_data (k_ports (ip_release 2 (set_entry s n x K)) 2) = Ip_Receiver 3"
    "ip_receiver_name (k_ports (ip_release 2 (set_entry s n x K)) 2) = 0x500" for s n x
    using P by (simp_all add: ip_release_def upd_port_def)
  have f: "free = Some 0x100" by (simp add: free_def demo_inline)
  have c: "\<exists>K'. ipc_kmsg_copyout_header (\<lambda>_. Inr 0x100) free True msg 3 MACH_PORT_NULL K =
      Some (Inr \<lparr>msgh_bits = MACH_MSGH_BITS 18 17, msgh_remote_port = 0x100, msgh_local_port = 0x500\<rparr>, K')"
    by (simp add: ipc_kmsg_copyout_header_def msg_def b copyout_header_common_def copyout_header_request_def P dest_send_def Let_def D f
        split: prod.split)
  obtain S1 where "inline_entry_get (IO_PORT 2) demo_space = Some (0x100, S1)" using f by (auto simp: free_def)
  from inline_entry_get_spec(1) [OF demo_ok3 this] obtain j S2 where
    a: "ipc_entry_alloc demo_addr demo_sizes False 3 demo_space = Some (Inr (0x100, j), S2)" by blast
  have "ipc_kmsg_copyout_header (\<lambda>_. Inr 0x100) free True msg 3 MACH_PORT_NULL K =
      copyout_header_general (\<lambda>_. Inr 0x100) 3 MACH_PORT_NULL 2 (IO_PORT 2) (MACH_MSGH_BITS 17 18) K"
    using copyout_common_general [OF wf P(1) ready demo_ok3, of False True MACH_PORT_NULL] a
    unfolding m free_def [symmetric] by (auto simp: msg_def)
  with a c show ?thesis unfolding Let_def e_def [symmetric] K_def [symmetric] msg_def [symmetric] free_def [symmetric] by blast
qed

end
