(* ===== verification/Spec2Isabelle.thy ===== *)
theory Spec2Isabelle
  imports Ipc_Marequest Port_Names Object_Steps Ipc_Table Hash_Init Kmsg_Queue Kmsg_Buffer Header_Outcome Rpc_Roundtrip Body_Memory Mqueue_Receive Kmsg_Clean Copyout_Entry
begin

text \<open>
  A verification of the Mach IPC capability system of Darwin 0.3: the C code under
  \<^verbatim>\<open>src/kernel-7/ipc\<close>, with \<^verbatim>\<open>MACH_IPC_COMPAT\<close> on.

  \<^bold>\<open>The program.\<close> A task names its rights to ports by 32-bit names in its IPC space. A space
  (\<^verbatim>\<open>ipc_space.c\<close>) keeps the entries of its names in a table that grows along a fixed schedule of
  sizes (\<^verbatim>\<open>ipc_table.c\<close>, \<^verbatim>\<open>ipc_entry.c\<close>) and in a splay tree for the names the table cannot hold
  (\<^verbatim>\<open>ipc_splay.c\<close>). For send rights two hash tables lead from the port back to the name: a local
  one threaded through the table and a global one for names in trees (\<^verbatim>\<open>ipc_hash.c\<close>). The right
  layer (\<^verbatim>\<open>ipc_right.c\<close>) changes the rights an entry denotes and the reference counts of the port
  (\<^verbatim>\<open>ipc_port.c\<close>). Ports carry message queues (\<^verbatim>\<open>ipc_mqueue.c\<close>), can be members of port sets
  (\<^verbatim>\<open>ipc_pset.c\<close>), and hold requests for notifications (\<^verbatim>\<open>ipc_notify.c\<close>, \<^verbatim>\<open>ipc_marequest.c\<close>),
  which are sent when rights or the port itself disappear.

  \<^bold>\<open>The theories.\<close>

  \<^item> \<open>Prelude\<close>: machine types (\<^verbatim>\<open>natural_t\<close> is a 32-bit word), return codes, facts on words,
    lists and maps.
  \<^item> \<open>Splay\<close> (\<^verbatim>\<open>ipc_splay.c\<close>): the unassembled top-down splay tree with its middle, left and
    right parts, one definition per routine and macro, and the link-inversion traversal. The
    locale \<open>ordered_map\<close> states the contract its clients use.
  \<^item> \<open>Entry_Bits\<close> (\<^verbatim>\<open>ipc_entry.h\<close>, \<^verbatim>\<open>port.h\<close>, \<^verbatim>\<open>mach/port.h\<close>): the bit layout of entries and names.
  \<^item> \<open>Ipc_State\<close>: ports, port sets, entries, requests and messages as records, and the kernel
    state that maps port numbers to ports and names of spaces to entries.
  \<^item> \<open>Rcv_Check\<close> (\<^verbatim>\<open>ipc_mqueue_deliver\<close>): the arguments a receiving thread leaves behind when it blocks, and the
    check a sender makes against them before it hands a message over.
  \<^item> \<open>Ipc_Port\<close> (\<^verbatim>\<open>ipc_port.c\<close>, \<^verbatim>\<open>ipc_notify.c\<close>, \<^verbatim>\<open>ipc_mqueue.c\<close>, \<^verbatim>\<open>ipc_pset.c\<close>, \<^verbatim>\<open>ipc_marequest.c\<close>)
    and \<open>Ipc_Right\<close> (\<^verbatim>\<open>ipc_right.c\<close>): the operations, as functions from state to state.
  \<^item> \<open>Port_Requests\<close>, \<open>Port_Transit\<close>, \<open>Port_Queues\<close>, \<open>Port_Life\<close>: properties of the port layer:
    the dead-name request table and its growth, the circularity check, message queues and port
    sets, and the no-senders notification.
  \<^item> \<open>Kmsg_Clean\<close> (\<^verbatim>\<open>ipc_kmsg_clean\<close>, \<^verbatim>\<open>ipc_kmsg_destroy\<close>): the rights that a destroyed message still carries are
    destroyed with it, in the loop that keeps the recursion flat; what the destruction of a port does to the
    port, to its queue and to every other port.
  \<^item> \<open>Right_Entry\<close>, \<open>Right_Equiv\<close>, \<open>Right_Urefs\<close>, \<open>Right_Copy\<close>: properties of the right layer:
    well-formed entries, deallocation as a special case of delta, the exact arithmetic of user
    references, and the agreement of the copyin check with copyin.
  \<^item> \<open>Hash_Interface\<close>, \<open>Hash_Local\<close>, \<open>Hash_Global\<close> (\<^verbatim>\<open>ipc_hash.c\<close>): the locale \<open>reverse_hash\<close> for a
    reverse lookup structure, and its interpretations on the open-addressing table with
    deletion by displacement and on the chained global table.
  \<^item> \<open>Ipc_Entry\<close> (\<^verbatim>\<open>ipc_entry.c\<close>): the routines on the table, free list, tree and hash tables.
    \<open>Entry_Names\<close> gives the invariant \<open>names_ok\<close> and the map \<open>names\<close> a space stands for;
    \<open>Entry_Alloc\<close>, \<open>Entry_Dealloc\<close>, \<open>Entry_Store\<close>, \<open>Entry_Grow\<close> and \<open>Entry_Space\<close> show what each
    routine does to them.
  \<^item> \<open>Space_Names\<close> (\<^verbatim>\<open>ipc_space_create\<close> and the composition): every space reachable from
    creation by lookups, reverse lookups, allocations, changes of rights and removals is
    well-formed, and these operations simulate the operations on a finite map of names.
  \<^item> \<open>Ipc_Object\<close> (\<^verbatim>\<open>ipc_object.c\<close>): translation, allocation, copyin, copyout and renaming of
    objects, over the right layer. \<open>Right_Account\<close> keeps the books of references and rights
    across copyin and copyout. \<open>Object_Wf\<close> gives the invariant \<open>kernel_wf\<close> that ties entries, the
    reverse hash and the receivers of ports together and shows that copyin and copyout keep it;
    \<open>Object_Steps\<close> does so for new ports and for the death of ports, and for every run of such steps.
  \<^item> \<open>Ipc_Marequest\<close> (\<^verbatim>\<open>ipc_marequest.c\<close>): creation and destruction of msg-accepted requests.
  \<^item> \<open>Mach_Port\<close> (\<^verbatim>\<open>mach_port.c\<close>): the kernel calls on ports, new and old interface, and the
    allocation of ports and port sets.
  \<^item> \<open>Space_Walk\<close> (\<^verbatim>\<open>mach_port.c\<close>, \<^verbatim>\<open>ipc_space.c\<close>): the calls that walk over all names of a space, and its
    destruction. \<open>Port_Names\<close> shows that the list of names is an accurate snapshot and that the
    members of a port set are found, in bounded memory and time.
  \<^item> \<open>Msg_Bits\<close> (\<^verbatim>\<open>mach/message.h\<close>): return codes, header bits and types of rights of messages.
  \<^item> \<open>Kmsg_Queue\<close> (\<^verbatim>\<open>ipc_kmsg.c\<close>, \<^verbatim>\<open>ipc_thread.c\<close>): the circular queues of messages and of threads on a heap of
    links, as interpretations of one locale, and their refinement of lists.
  \<^item> \<open>Kmsg_Buffer\<close> (\<^verbatim>\<open>ipc_kmsg.c\<close>): message buffers with 32-bit sizes, filled from user memory; when the copies
    stay inside the buffer, and when they do not.
  \<^item> \<open>Kmsg_Header\<close> (\<^verbatim>\<open>ipc_kmsg_copyin_header\<close>): the rights in the header of a message; the optimised cases
    agree with the general case. \<open>Header_Outcome\<close> shows that the routine returns, that its result is
    typed and that a failure leaves no trace.
  \<^item> \<open>Kmsg_Copyout\<close> (\<^verbatim>\<open>ipc_kmsg_copyout_header\<close>, \<^verbatim>\<open>ipc_kmsg_copyout_object\<close>): the rights of a message on their way to
    the receiver. \<open>Copyout_Entry\<close> has the inlined \<^verbatim>\<open>ipc_entry_get\<close> of the optimised case and shows that here too
    the optimised cases agree with the general ones. \<open>Rpc_Roundtrip\<close> composes both
    directions: a remote procedure call passes the right names and restores the state.
  \<^item> \<open>Kmsg_Body\<close> and \<open>Body_Copyout\<close> (\<^verbatim>\<open>ipc_kmsg_copyin_body\<close>, \<^verbatim>\<open>ipc_kmsg_clean_body\<close>, \<^verbatim>\<open>ipc_kmsg_copyout_body\<close>,
    \<^verbatim>\<open>ipc_kmsg_check_scatter\<close> and what is built on them): the descriptors of message bodies, with the calls to
    the virtual memory system in a log. The locale \<open>event_check\<close> carries the reasoning about logs. \<open>Body_Bounds\<close>
    shows when the writes to kernel memory stay in bounds, and two ways in which they do not;
    \<open>Body_Memory\<close> that the blocks, the regions and the staging area of physical copies that a failed copyin
    took are given back; \<open>Body_Copyout\<close> that a checked scatter list is not overrun.
  \<^item> \<open>Mqueue_Receive\<close> (\<^verbatim>\<open>ipc_mqueue.c\<close>): receiving, the end of blocked sends and receives, and sends at interrupt
    level. The locale \<open>bounded_fifo\<close> says what a client of a port relies on; a port of the model is shown to be such
    a bounded queue, blocked senders are let through in order, and a message that meets a waiting receiver has
    the effect of one that is found in the queue, with one exception that panics.
  \<^item> \<open>Hash_Init\<close>: the boot-time sizes of the global hash table and of the request table.
  \<^item> \<open>Ipc_Table\<close> (\<^verbatim>\<open>ipc_table.c\<close>): the size schedules, which satisfy what the growth of tables
    relies on.

  \<^bold>\<open>Correspondence.\<close> Pointers to ports, sets and messages are natural numbers into the maps of the
  kernel state; a pointer to an entry is a table index or the name of a tree node. Counts that
  the code keeps at the width of a machine word are words where the code's tests depend on it
  (user references, names, entry bits), and natural numbers otherwise. An assertion or a panic
  of the code is an error value of the model where a property says that it is not reached.

  \<^bold>\<open>Loops and fuel.\<close> Loops over data are structural recursions. The hash probes, the growth of a
  table, the allocation loops and the free-list walk are partial functions whose value \<open>None\<close>
  means that the loop does not end; the properties show that they return on well-formed
  spaces. The walk along the chain of ports in transit has the same form, and ends because
  the chains of a well-formed state end. The search for a table size takes the length of the
  schedule as fuel, which is enough because every round moves one step along the schedule.

  \<^bold>\<open>What is assumed.\<close> Operations run to completion one after the other: locks, and the branches
  taken when another thread grows or destroys the space in the meantime, are left out. Memory
  allocation is a parameter that says whether it fails. The addresses used for hashing are
  arbitrary functions. The kernel objects behind ports (\<^verbatim>\<open>ipc_kobject_server\<close>,
  \<^verbatim>\<open>ipc_kobject_destroy\<close> in \<^verbatim>\<open>kern\<close>) are recorded as calls. The right layer works on the finite map of
  names; that table, tree and hash tables implement this map is the content of \<open>Space_Names\<close>.

  The virtual memory system answers as it likes; the properties name what they rely on.

  \<^bold>\<open>Not modelled.\<close> The typed bodies of old-style messages (\<^verbatim>\<open>ipc_kmsg_copyin_compat\<close> and its relatives in
  \<^verbatim>\<open>ipc_kmsg.c\<close>), the scheduler behind blocked threads (a thread blocks by joining a queue and goes on from a
  recorded wakeup), boot-time
  allocation (\<^verbatim>\<open>ipc_init.c\<close>, zones), the debugging interface (\<^verbatim>\<open>mach_debug.c\<close>, the \<^verbatim>\<open>info\<close>
  routines), the message system calls (\<^verbatim>\<open>mach_msg.c\<close>), which copy messages from and to user memory, and
  the rest of the kernel and of the distribution.
\<close>

end
